(* ===== verification/TLV_Prelude.thy ===== *)
theory TLV_Prelude
  imports Main "HOL-Library.Word"
begin

unbundle bit_operations_syntax

text \<open>
  Shared vocabulary of the development: the machine types, the result codes of
  \<^verbatim>\<open>tlv/include/tlv/result.h\<close>, borrowed pointers, output parameters and output buffers, and the
  lemmas on lists and words that every component uses.

  \<^item> \<^verbatim>\<open>uint8_t\<close> is \<open>8 word\<close> and a \<^verbatim>\<open>uint64_t\<close> that the code shifts or masks is \<open>64 word\<close>.
  \<^item> \<^verbatim>\<open>size_t\<close> and \<^verbatim>\<open>tlv_size_t\<close> are \<open>nat\<close> with the limits \<open>SIZE_MAX\<close> and \<open>TLV_SIZE_MAX\<close> of an
    LP64 target; every overflow check of the source is kept.
  \<^item> A \<^verbatim>\<open>const uint8_t*\<close> is \<open>Null\<close> or an address together with the bytes readable from it; pointer
    arithmetic drops bytes.  Two pointers are equal when the address and the memory seen agree.
  \<^item> A destination buffer is \<open>obuf\<close>: \<open>None\<close> for \<^verbatim>\<open>NULL\<close>, otherwise its current content.
  \<^item> A required output parameter is a \<open>bool\<close> argument (the pointer is not \<^verbatim>\<open>NULL\<close>) and an \<open>option\<close>
    in the result: \<open>None\<close> when the function leaves the cell unchanged.
\<close>

section \<open>Machine types and limits\<close>

type_synonym u8 = "8 word"
type_synonym u16 = "16 word"
type_synonym u32 = "32 word"
type_synonym u64 = "64 word"

definition SIZE_MAX :: nat where "SIZE_MAX = 2 ^ 64 - 1"
definition TLV_SIZE_MAX :: nat where "TLV_SIZE_MAX = 2 ^ 64 - 1"

section \<open>Result codes\<close>

text \<open>
  \<open>TLV_RESULT_OTHER\<close> stands for a discriminator outside the enumeration, which a callback may
  return in C.
\<close>

datatype tlv_result_t =
    TLV_OK | TLV_END | TLV_NEED_MORE_DATA
  | TLV_ERR_TRUNCATED | TLV_ERR_INVALID_TAG | TLV_ERR_INVALID_TAG_SIZE | TLV_ERR_INVALID_LENGTH
  | TLV_ERR_INVALID_VALUE | TLV_ERR_SYNTAX | TLV_ERR_SCHEMA
  | TLV_ERR_NULL_ARG | TLV_ERR_INVALID_ARG | TLV_ERR_INVALID_STATE | TLV_ERR_INVALID_SCHEMA
  | TLV_ERR_BUFFER_TOO_SHORT | TLV_ERR_LIMIT | TLV_ERR_OVERFLOW | TLV_ERR_NATIVE_SIZE
  | TLV_ERR_OUT_OF_MEMORY | TLV_ERR_UNSUPPORTED | TLV_ERR_VISITOR | TLV_ERR_CALLBACK
  | TLV_RESULT_OTHER int

section \<open>Collections of proof rules\<close>

named_theorems out_simps \<open>output parameters and buffers\<close>
named_theorems wire_bounds \<open>bounds on decoded quantities\<close>

section \<open>Borrowed pointers\<close>

datatype ptr = Null | Ptr nat "u8 list"

primrec bytes :: "ptr \<Rightarrow> u8 list" where
  "bytes Null = []"
| "bytes (Ptr a bs) = bs"

primrec ptr_add :: "ptr \<Rightarrow> nat \<Rightarrow> ptr" where
  "ptr_add Null k = Null"
| "ptr_add (Ptr a bs) k = Ptr (a + k) (drop k bs)"

definition byte_at :: "ptr \<Rightarrow> nat \<Rightarrow> u8" where
  "byte_at p i = bytes p ! i"

text \<open>\<open>readable p n\<close>: at least \<open>n\<close> bytes may be read through \<open>p\<close>.\<close>

definition readable :: "ptr \<Rightarrow> nat \<Rightarrow> bool" where
  "readable p n \<longleftrightarrow> n \<le> length (bytes p)"

lemma bytes_ptr_add [simp]: "bytes (ptr_add p k) = drop k (bytes p)"
  by (cases p) auto

lemma ptr_add_0 [simp]: "ptr_add p 0 = p"
  by (cases p) auto

lemma ptr_add_add [simp]: "ptr_add (ptr_add p j) k = ptr_add p (j + k)"
  by (cases p) (auto simp: add.commute add.left_commute)

lemma ptr_add_eq_Null [simp]: "ptr_add p k = Null \<longleftrightarrow> p = Null"
  by (cases p) auto

lemma byte_at_Ptr [simp]: "byte_at (Ptr a bs) i = bs ! i"
  by (simp add: byte_at_def)

lemma byte_at_ptr_add [simp]: "readable p k \<Longrightarrow> byte_at (ptr_add p k) i = byte_at p (k + i)"
  by (simp add: byte_at_def readable_def)

lemma readable_Ptr [simp]: "readable (Ptr a bs) n \<longleftrightarrow> n \<le> length bs"
  by (simp add: readable_def)

lemma readable_Null [simp]: "readable Null n \<longleftrightarrow> n = 0"
  by (simp add: readable_def)

lemma readable_ptr_add [simp]: "readable p k \<Longrightarrow> readable (ptr_add p k) n \<longleftrightarrow> readable p (k + n)"
  by (auto simp: readable_def)

lemma readable_mono: "readable p n \<Longrightarrow> m \<le> n \<Longrightarrow> readable p m"
  by (simp add: readable_def)

section \<open>Output parameters and buffers\<close>

type_synonym obuf = "u8 list option"

text \<open>The content of an output cell after a call that may have written it.\<close>

definition out :: "'a option \<Rightarrow> 'a \<Rightarrow> 'a" where
  "out w old = (case w of None \<Rightarrow> old | Some v \<Rightarrow> v)"

lemma out_None [simp, out_simps]: "out None old = old"
  by (simp add: out_def)

lemma out_Some [simp, out_simps]: "out (Some v) old = v"
  by (simp add: out_def)

text \<open>\<open>blit off bs buf\<close> is \<^verbatim>\<open>memcpy(buf + off, bs, length bs)\<close>.\<close>

definition blit :: "nat \<Rightarrow> u8 list \<Rightarrow> u8 list \<Rightarrow> u8 list" where
  "blit off bs buf = take off buf @ bs @ drop (off + length bs) buf"

definition obuf_blit :: "nat \<Rightarrow> u8 list \<Rightarrow> obuf \<Rightarrow> obuf" where
  "obuf_blit off bs = map_option (blit off bs)"

text \<open>A pointer into a caller's buffer.\<close>

definition buf_ptr :: "obuf \<Rightarrow> nat \<Rightarrow> ptr" where
  "buf_ptr buf k = (case buf of None \<Rightarrow> Null | Some b \<Rightarrow> Ptr k (drop k b))"

text \<open>The destination \<^verbatim>\<open>data + k\<close>, and the whole buffer after a callee wrote through it.\<close>

definition obuf_drop :: "nat \<Rightarrow> obuf \<Rightarrow> obuf" where
  "obuf_drop k = map_option (drop k)"

definition obuf_put :: "nat \<Rightarrow> obuf \<Rightarrow> obuf \<Rightarrow> obuf" where
  "obuf_put k whole part =
     (case whole of None \<Rightarrow> None
      | Some w \<Rightarrow> (case part of None \<Rightarrow> Some w | Some p \<Rightarrow> Some (take k w @ p)))"

lemma obuf_blit_simps [simp, out_simps]:
  "obuf_blit off bs None = None"
  "obuf_blit off bs (Some buf) = Some (blit off bs buf)"
  by (simp_all add: obuf_blit_def)

lemma obuf_drop_simps [simp, out_simps]:
  "obuf_drop k None = None"
  "obuf_drop k (Some buf) = Some (drop k buf)"
  by (simp_all add: obuf_drop_def)

lemma obuf_put_simps [simp, out_simps]:
  "obuf_put k None p = None"
  "obuf_put k (Some w) None = Some w"
  "obuf_put k (Some w) (Some b) = Some (take k w @ b)"
  by (simp_all add: obuf_put_def)

lemma length_blit [simp]: "off + length bs \<le> length buf \<Longrightarrow> length (blit off bs buf) = length buf"
  by (simp add: blit_def)

lemma blit_0: "blit 0 bs buf = bs @ drop (length bs) buf"
  by (simp add: blit_def)

lemma blit_Nil [simp]: "blit off [] buf = buf"
  by (simp add: blit_def)

lemma take_blit_before: "k \<le> off \<Longrightarrow> off \<le> length buf \<Longrightarrow> take k (blit off bs buf) = take k buf"
  by (simp add: blit_def min_def)

lemma take_drop_blit:
  "off + length bs \<le> length buf \<Longrightarrow> take (length bs) (drop off (blit off bs buf)) = bs"
  by (simp add: blit_def)

lemma drop_blit_after:
  "off + length bs \<le> k \<Longrightarrow> k \<le> length buf \<Longrightarrow> drop k (blit off bs buf) = drop k buf"
  by (simp add: blit_def)

lemma take_drop_append:
  "n = length xs \<Longrightarrow> take m (drop n (xs @ ys)) = take m ys"
  by simp

lemma take_eq_append_drop: "n \<le> length xs \<Longrightarrow> take n xs @ drop n xs = xs"
  by simp

section \<open>Words\<close>

lemma unat_u8_less [wire_bounds]: "unat (b :: u8) < 256"
  using unsigned_less [of b] by simp

lemma unat_u8_le: "unat (b :: u8) \<le> 255"
  using unat_u8_less [of b] by linarith

lemma unat_u64_less [wire_bounds]: "unat (w :: u64) < 2 ^ 64"
  using unsigned_less [of w] by simp

lemma unat_u64_le_max [simp, wire_bounds]: "unat (w :: u64) \<le> TLV_SIZE_MAX"
  using unat_u64_less [of w] by (simp add: TLV_SIZE_MAX_def)

lemma unat_ucast_u8_u64 [simp]: "unat (ucast (b :: u8) :: u64) = unat b"
proof -
  have "unat b < 18446744073709551616"
    using unat_u8_less [of b] by linarith
  then show ?thesis
    by (simp add: unsigned_ucast_eq take_bit_eq_mod)
qed

lemma unat_ucast_u64_u8 [simp]: "unat (ucast (w :: u64) :: u8) = unat w mod 256"
  by (simp add: unsigned_ucast_eq take_bit_eq_mod)

lemma unat_drop_bit_u64: "unat (drop_bit n (w :: u64)) = unat w div 2 ^ n"
  by (subst unat_drop_bit_eq) (simp add: drop_bit_eq_div)

lemma unat_drop_octet [simp]: "unat (drop_bit 8 (w :: u64)) = unat w div 256"
  by (simp add: unat_drop_bit_u64)

lemma of_nat_unat_u64 [simp]: "n < 2 ^ 64 \<Longrightarrow> unat (of_nat n :: u64) = n"
  by (simp add: unat_of_nat)

lemma of_nat_u8_digit [simp]: "(of_nat (q * 256 + unat b) :: u8) = b"
  using unat_u8_less [of b] unfolding word_unat_eq_iff unat_of_nat by simp

text \<open>Appending one octet to an accumulator is multiplication and addition while it fits.\<close>

lemma push_octet:
  fixes r :: u64
  assumes "unat r < 2 ^ 56"
  shows "unat (push_bit 8 r OR ucast (b :: u8)) = unat r * 256 + unat b"
proof -
  have disj: "\<not> bit (push_bit 8 r) n \<or> \<not> bit (ucast b :: u64) n" for n
    by (auto simp: bit_simps dest: bit_imp_le_length)
  have "push_bit 8 r OR ucast b = push_bit 8 r + (ucast b :: u64)"
    by (rule disjunctive_add [symmetric]) (use disj in auto)
  moreover have "unat (push_bit 8 r) = unat r * 256"
    using assms by (simp add: push_bit_eq_mult unat_word_ariths)
  moreover have "unat r * 256 + unat b < 18446744073709551616"
  proof -
    have "unat r < 72057594037927936"
      using assms by simp
    then show ?thesis
      using unat_u8_less [of b] by linarith
  qed
  ultimately show ?thesis
    by (simp add: unat_word_ariths)
qed

text \<open>Appending \<open>k\<close> bits to a number.\<close>

lemma push_bit_or_add: "x < 2 ^ k \<Longrightarrow> push_bit k v OR x = v * 2 ^ k + (x :: nat)"
proof -
  assume "x < 2 ^ k"
  then have "take_bit k x = x" by (simp add: take_bit_nat_eq_self_iff)
  then have "\<not> (bit (push_bit k v) i \<and> bit x i)" for i by (metis bit_push_bit_iff bit_take_bit_iff not_le)
  then have "push_bit k v + x = push_bit k v OR x" by (intro disjunctive_add) blast
  then show ?thesis by (simp add: push_bit_eq_mult)
qed

lemma unat_take_bit_u64: "unat (take_bit k (x :: u64)) = unat x mod 2 ^ k"
  by (simp only: unsigned_take_bit_eq) (simp add: take_bit_eq_mod)

lemma unat_less_pow_iff:
  fixes x :: u64
  shows "unat x < 2 ^ k \<longleftrightarrow> take_bit k x = x"
proof -
  have "take_bit k x = x \<longleftrightarrow> unat x mod 2 ^ k = unat x"
    by (simp only: word_unat_eq_iff unat_take_bit_u64)
  also have "\<dots> \<longleftrightarrow> unat x < 2 ^ k"
    by (simp add: mod_eq_self_iff_div_eq_0 div_eq_0_iff)
  finally show ?thesis by simp
qed

lemma unat_mask_u64: "w \<le> 64 \<Longrightarrow> unat (mask w :: u64) = 2 ^ w - 1"
proof -
  assume w: "w \<le> 64"
  have "unat (mask w :: u64) = nat (uint (mask w :: u64))" by simp
  also have "\<dots> = nat (mask w)" using w by (simp add: uint_mask_eq min_def)
  also have "\<dots> = 2 ^ w - 1" by (simp add: mask_eq_exp_minus_1 nat_diff_distrib nat_power_eq)
  finally show ?thesis .
qed

lemma le_mask_iff_take_bit:
  assumes "w \<le> 64"
  shows "(v :: u64) \<le> mask w \<longleftrightarrow> take_bit w v = v"
proof -
  have "v \<le> mask w \<longleftrightarrow> unat v < 2 ^ w"
    using assms by (simp add: word_le_nat_alt unat_mask_u64 Suc_le_eq flip: less_Suc_eq_le)
  then show ?thesis by (simp add: unat_less_pow_iff)
qed

end
