(* ===== verification/TLV_Core.thy ===== *)
theory TLV_Core
  imports TLV_Prelude
begin

unbundle bit_operations_syntax

text \<open>
  The value types of the library and their operations: checked sizes (\<^verbatim>\<open>size.c\<close>), result codes
  (\<^verbatim>\<open>result.c\<close>, \<^verbatim>\<open>callback_internal.h\<close>), tags (\<^verbatim>\<open>tag.c\<close>), values (\<^verbatim>\<open>value.c\<close>), elements and
  definition tables (\<^verbatim>\<open>definition.c\<close>), and the two buffer copies of \<^verbatim>\<open>copy.c\<close>.  The lemmas relate
  each operation to the bytes the borrowed descriptors denote (\<open>tag_bytes\<close>, \<open>value_bytes\<close>).
\<close>

section \<open>Checked logical sizes (size.c)\<close>

definition tlv_size_from_native :: "nat \<Rightarrow> bool \<Rightarrow> tlv_result_t \<times> nat option" where
  "tlv_size_from_native sz out_ok =
     (if \<not> out_ok then (TLV_ERR_NULL_ARG, None) else (TLV_OK, Some sz))"

definition tlv_size_to_native :: "nat \<Rightarrow> bool \<Rightarrow> tlv_result_t \<times> nat option" where
  "tlv_size_to_native logical_size out_ok =
     (if \<not> out_ok then (TLV_ERR_NULL_ARG, None)
      else if logical_size > SIZE_MAX then (TLV_ERR_NATIVE_SIZE, None)
      else (TLV_OK, Some logical_size))"

definition tlv_size_validate_native :: "nat \<Rightarrow> tlv_result_t" where
  "tlv_size_validate_native logical_size =
     (if logical_size > SIZE_MAX then TLV_ERR_NATIVE_SIZE else TLV_OK)"

definition tlv_size_add :: "nat \<Rightarrow> nat \<Rightarrow> bool \<Rightarrow> tlv_result_t \<times> nat option" where
  "tlv_size_add a b out_ok =
     (if \<not> out_ok then (TLV_ERR_NULL_ARG, None)
      else if b > TLV_SIZE_MAX - a then (TLV_ERR_OVERFLOW, None)
      else (TLV_OK, Some ((a + b) mod 2 ^ 64)))"

section \<open>Result codes (result.c, callback\_internal.h)\<close>

fun tlv_result_string :: "tlv_result_t \<Rightarrow> string" where
  "tlv_result_string TLV_NEED_MORE_DATA = ''need more data''"
| "tlv_result_string TLV_ERR_NATIVE_SIZE = ''native address space exceeded''"
| "tlv_result_string TLV_ERR_INVALID_STATE = ''invalid state''"
| "tlv_result_string TLV_ERR_CALLBACK = ''callback contract violated''"
| "tlv_result_string TLV_ERR_INVALID_ARG = ''invalid argument''"
| "tlv_result_string TLV_ERR_SYNTAX = ''syntax error''"
| "tlv_result_string TLV_ERR_TRUNCATED = ''truncated input''"
| "tlv_result_string TLV_ERR_OVERFLOW = ''numeric overflow''"
| "tlv_result_string TLV_OK = ''OK''"
| "tlv_result_string TLV_ERR_BUFFER_TOO_SHORT = ''buffer too short''"
| "tlv_result_string TLV_ERR_INVALID_LENGTH = ''invalid length encoding''"
| "tlv_result_string TLV_ERR_NULL_ARG = ''null argument''"
| "tlv_result_string TLV_ERR_OUT_OF_MEMORY = ''out of memory''"
| "tlv_result_string TLV_END = ''end of iteration''"
| "tlv_result_string TLV_ERR_INVALID_TAG_SIZE = ''invalid tag size''"
| "tlv_result_string TLV_ERR_INVALID_TAG = ''invalid tag''"
| "tlv_result_string TLV_ERR_VISITOR = ''visitor error''"
| "tlv_result_string TLV_ERR_LIMIT = ''resource limit exceeded''"
| "tlv_result_string TLV_ERR_SCHEMA = ''schema constraint violated''"
| "tlv_result_string TLV_ERR_INVALID_SCHEMA = ''invalid schema definition''"
| "tlv_result_string TLV_ERR_INVALID_VALUE = ''invalid data or application representation''"
| "tlv_result_string TLV_ERR_UNSUPPORTED = ''unsupported capability''"
| "tlv_result_string (TLV_RESULT_OTHER i) = ''unknown error''"

definition tlv_callback_result :: "tlv_result_t \<Rightarrow> bool \<Rightarrow> tlv_result_t" where
  "tlv_callback_result result allow_end =
     (case result of
        TLV_END \<Rightarrow> (if allow_end then result else TLV_ERR_CALLBACK)
      | TLV_NEED_MORE_DATA \<Rightarrow> TLV_ERR_CALLBACK
      | TLV_RESULT_OTHER i \<Rightarrow> TLV_ERR_CALLBACK
      | _ \<Rightarrow> result)"

section \<open>Tags (tag.h, tag.c)\<close>

record tlv_tag_t =
  tag_data :: ptr
  tag_size :: nat

definition tlv_tag :: "ptr \<Rightarrow> nat \<Rightarrow> tlv_tag_t" where
  "tlv_tag data sz = \<lparr>tag_data = data, tag_size = sz\<rparr>"

text \<open>The sign of C's \<^verbatim>\<open>memcmp\<close> on two byte blocks.\<close>

fun memcmp :: "u8 list \<Rightarrow> u8 list \<Rightarrow> int" where
  "memcmp (x # xs) (y # ys) = (if x = y then memcmp xs ys else if x < y then -1 else 1)"
| "memcmp _ _ = 0"

definition tlv_tag_equal :: "tlv_tag_t \<Rightarrow> tlv_tag_t \<Rightarrow> bool" where
  "tlv_tag_equal lhs rhs =
     (if tag_size lhs \<noteq> tag_size rhs then False
      else if tag_size lhs = 0 then True
      else memcmp (take (tag_size lhs) (bytes (tag_data lhs)))
                  (take (tag_size lhs) (bytes (tag_data rhs))) = 0)"

definition tlv_tag_compare :: "tlv_tag_t \<Rightarrow> tlv_tag_t \<Rightarrow> int" where
  "tlv_tag_compare lhs rhs =
     (let common = (if tag_size lhs < tag_size rhs then tag_size lhs else tag_size rhs);
          order = (if common = 0 then 0
                   else memcmp (take common (bytes (tag_data lhs)))
                               (take common (bytes (tag_data rhs))))
      in if order \<noteq> 0 then (if order < 0 then -1 else 1)
         else if tag_size lhs = tag_size rhs then 0
         else if tag_size lhs < tag_size rhs then -1 else 1)"

definition tlv_tag_is_empty :: "tlv_tag_t \<Rightarrow> bool" where
  "tlv_tag_is_empty tag = (tag_size tag = 0)"

definition tlv_tag_hash :: "tlv_tag_t \<Rightarrow> u64" where
  "tlv_tag_hash tag =
     fold (\<lambda>i hash. (hash XOR ucast (byte_at (tag_data tag) i)) * 1099511628211)
       [0..<tag_size tag] 14695981039346656037"

text \<open>Copies into caller storage; \<open>None\<close> as destination is a size query.\<close>

definition tlv_tag_copy ::
  "tlv_tag_t \<Rightarrow> obuf \<Rightarrow> nat \<Rightarrow> bool \<Rightarrow> tlv_result_t \<times> obuf \<times> nat option" where
  "tlv_tag_copy tag data capacity written_ok =
     (if \<not> written_ok then (TLV_ERR_NULL_ARG, data, None)
      else if data = None \<and> capacity \<noteq> 0 then (TLV_ERR_NULL_ARG, data, None)
      else if tag_data tag = Null \<and> tag_size tag \<noteq> 0 then (TLV_ERR_NULL_ARG, data, None)
      else if data = None then (TLV_OK, data, Some (tag_size tag))
      else if capacity < tag_size tag then (TLV_ERR_BUFFER_TOO_SHORT, data, None)
      else (TLV_OK,
            (if tag_size tag \<noteq> 0
             then obuf_blit 0 (take (tag_size tag) (bytes (tag_data tag))) data else data),
            Some (tag_size tag)))"

section \<open>Values (value.h, value.c)\<close>

record tlv_value_t =
  val_data :: ptr
  val_size :: nat

definition tlv_value_init ::
  "ptr \<Rightarrow> nat \<Rightarrow> bool \<Rightarrow> tlv_result_t \<times> tlv_value_t option" where
  "tlv_value_init data len value_ok =
     (if \<not> value_ok \<or> (data = Null \<and> len \<noteq> 0) then (TLV_ERR_NULL_ARG, None)
      else let rc = tlv_size_validate_native len in
        if rc \<noteq> TLV_OK then (rc, None)
        else (TLV_OK, Some \<lparr>val_data = data, val_size = len\<rparr>))"

definition tlv_value_validate :: "tlv_value_t option \<Rightarrow> tlv_result_t" where
  "tlv_value_validate value =
     (case value of None \<Rightarrow> TLV_ERR_NULL_ARG
      | Some v \<Rightarrow> (if val_data v = Null \<and> val_size v \<noteq> 0 then TLV_ERR_NULL_ARG
                  else tlv_size_validate_native (val_size v)))"

definition tlv_value_equal :: "tlv_value_t \<Rightarrow> tlv_value_t \<Rightarrow> bool" where
  "tlv_value_equal lhs rhs =
     (if val_size lhs \<noteq> val_size rhs then False
      else if val_size lhs = 0 then True
      else memcmp (take (val_size lhs) (bytes (val_data lhs)))
                  (take (val_size lhs) (bytes (val_data rhs))) = 0)"

definition tlv_value_compare :: "tlv_value_t \<Rightarrow> tlv_value_t \<Rightarrow> int" where
  "tlv_value_compare lhs rhs =
     (let common = (if val_size lhs < val_size rhs then val_size lhs else val_size rhs);
          order = (if common = 0 then 0
                   else memcmp (take common (bytes (val_data lhs)))
                               (take common (bytes (val_data rhs))))
      in if order \<noteq> 0 then (if order < 0 then -1 else 1)
         else if val_size lhs = val_size rhs then 0
         else if val_size lhs < val_size rhs then -1 else 1)"

definition tlv_value_is_empty :: "tlv_value_t \<Rightarrow> bool" where
  "tlv_value_is_empty value = (val_size value = 0)"

definition tlv_value_slice ::
  "tlv_value_t \<Rightarrow> nat \<Rightarrow> nat \<Rightarrow> bool \<Rightarrow> tlv_result_t \<times> tlv_value_t option" where
  "tlv_value_slice value offset len out_ok =
     (if \<not> out_ok then (TLV_ERR_NULL_ARG, None)
      else let rc = tlv_value_validate (Some value) in
        if rc \<noteq> TLV_OK then (rc, None)
        else (case tlv_size_add offset len True of (rc, end') \<Rightarrow>
          if rc \<noteq> TLV_OK then (rc, None)
          else if out end' 0 > val_size value then (TLV_ERR_INVALID_LENGTH, None)
          else (TLV_OK, Some \<lparr>val_data = (if len = 0 then Null else ptr_add (val_data value) offset),
                             val_size = len\<rparr>)))"

definition tlv_value_copy ::
  "tlv_value_t \<Rightarrow> obuf \<Rightarrow> nat \<Rightarrow> bool \<Rightarrow> tlv_result_t \<times> obuf \<times> nat option" where
  "tlv_value_copy value data capacity written_ok =
     (if \<not> written_ok then (TLV_ERR_NULL_ARG, data, None)
      else case tlv_size_to_native (val_size value) True of (rc, native) \<Rightarrow>
        if rc \<noteq> TLV_OK then (rc, data, None)
        else let len = out native 0 in
          if data = None \<and> capacity \<noteq> 0 then (TLV_ERR_NULL_ARG, data, None)
          else if val_data value = Null \<and> len \<noteq> 0 then (TLV_ERR_NULL_ARG, data, None)
          else if data = None then (TLV_OK, data, Some len)
          else if capacity < len then (TLV_ERR_BUFFER_TOO_SHORT, data, None)
          else (TLV_OK,
                (if len \<noteq> 0 then obuf_blit 0 (take len (bytes (val_data value))) data else data),
                Some len))"

section \<open>Elements (element.h, length.h) and copies (copy.c)\<close>

record tlv_element_t =
  elem_tag :: tlv_tag_t
  elem_value :: tlv_value_t

record tlv_length_t =
  len_data :: ptr
  len_size :: nat

definition tlv_copy_encoded ::
  "ptr \<Rightarrow> nat \<Rightarrow> obuf \<Rightarrow> nat \<Rightarrow> bool \<Rightarrow> tlv_result_t \<times> obuf \<times> nat option" where
  "tlv_copy_encoded encoded_data encoded_length data capacity written_ok =
     (if \<not> written_ok \<or> (data = None \<and> capacity \<noteq> 0) \<or> (encoded_data = Null \<and> encoded_length \<noteq> 0)
      then (TLV_ERR_NULL_ARG, data, None)
      else if data = None then (TLV_OK, data, Some encoded_length)
      else if capacity < encoded_length then (TLV_ERR_BUFFER_TOO_SHORT, data, None)
      else (TLV_OK,
            (if encoded_length \<noteq> 0
             then obuf_blit 0 (take encoded_length (bytes encoded_data)) data else data),
            Some encoded_length))"

definition tlv_copy_value ::
  "tlv_element_t option \<Rightarrow> obuf \<Rightarrow> nat \<Rightarrow> bool \<Rightarrow> tlv_result_t \<times> obuf \<times> nat option" where
  "tlv_copy_value element data capacity written_ok =
     (case element of None \<Rightarrow> (TLV_ERR_NULL_ARG, data, None)
      | Some e \<Rightarrow> tlv_value_copy (elem_value e) data capacity written_ok)"

section \<open>Definition tables (definition.c)\<close>

record tlv_definition_t =
  def_tag :: tlv_tag_t
  def_name :: "string option"

text \<open>\<open>reg_entries = None\<close> is the \<^verbatim>\<open>NULL\<close> table.\<close>

record tlv_definition_registry_t =
  reg_entries :: "tlv_definition_t list option"
  reg_count :: nat

fun definition_scan :: "tlv_definition_t list \<Rightarrow> tlv_tag_t \<Rightarrow> tlv_definition_t option" where
  "definition_scan [] tag = None"
| "definition_scan (entry # rest) tag =
     (if tag_size (def_tag entry) \<noteq> 0 \<and> tag_data (def_tag entry) = Null then definition_scan rest tag
      else if tlv_tag_equal (def_tag entry) tag then Some entry
      else definition_scan rest tag)"

definition tlv_definition_find ::
  "tlv_definition_registry_t option \<Rightarrow> tlv_tag_t option \<Rightarrow> tlv_definition_t option" where
  "tlv_definition_find registry tag =
     (case (registry, tag) of
        (Some r, Some t) \<Rightarrow>
          (if reg_entries r = None \<and> reg_count r \<noteq> 0 then None
           else if tag_size t \<noteq> 0 \<and> tag_data t = Null then None
           else definition_scan (take (reg_count r) (out (reg_entries r) [])) t)
      | _ \<Rightarrow> None)"

section \<open>The bytes a descriptor denotes\<close>

definition tag_bytes :: "tlv_tag_t \<Rightarrow> u8 list" where
  "tag_bytes t = take (tag_size t) (bytes (tag_data t))"

definition value_bytes :: "tlv_value_t \<Rightarrow> u8 list" where
  "value_bytes v = take (val_size v) (bytes (val_data v))"

definition tag_wf :: "tlv_tag_t \<Rightarrow> bool" where
  "tag_wf t \<longleftrightarrow> readable (tag_data t) (tag_size t)"

definition value_wf :: "tlv_value_t \<Rightarrow> bool" where
  "value_wf v \<longleftrightarrow> readable (val_data v) (val_size v) \<and> val_size v \<le> SIZE_MAX"

lemma length_tag_bytes [simp]: "tag_wf t \<Longrightarrow> length (tag_bytes t) = tag_size t"
  by (simp add: tag_wf_def tag_bytes_def readable_def)

lemma length_value_bytes [simp]: "value_wf v \<Longrightarrow> length (value_bytes v) = val_size v"
  by (simp add: value_wf_def value_bytes_def readable_def)

lemma tlv_tag_simps [simp]:
  "tag_data (tlv_tag p n) = p" "tag_size (tlv_tag p n) = n"
  by (simp_all add: tlv_tag_def)

section \<open>Lemmas\<close>

lemma tlv_size_add_OK [simp]:
  "a + b \<le> TLV_SIZE_MAX \<Longrightarrow> tlv_size_add a b True = (TLV_OK, Some (a + b))"
  by (auto simp: tlv_size_add_def TLV_SIZE_MAX_def)

lemma tlv_size_add_iff:
  "a \<le> TLV_SIZE_MAX \<Longrightarrow>
   tlv_size_add a b True =
     (if a + b \<le> TLV_SIZE_MAX then (TLV_OK, Some (a + b)) else (TLV_ERR_OVERFLOW, None))"
  by (auto simp: tlv_size_add_def TLV_SIZE_MAX_def)

lemma tlv_size_to_native_iff:
  "tlv_size_to_native n True = (if n \<le> SIZE_MAX then (TLV_OK, Some n) else (TLV_ERR_NATIVE_SIZE, None))"
  by (simp add: tlv_size_to_native_def)

lemma tlv_size_to_native_OK [simp]: "n \<le> SIZE_MAX \<Longrightarrow> tlv_size_to_native n True = (TLV_OK, Some n)"
  by (simp add: tlv_size_to_native_iff)

lemma tlv_callback_result_eq_OK [simp]: "tlv_callback_result rc e = TLV_OK \<longleftrightarrow> rc = TLV_OK"
  by (cases rc) (auto simp: tlv_callback_result_def)

lemma tlv_callback_result_OK [simp]: "tlv_callback_result TLV_OK e = TLV_OK"
  by (simp add: tlv_callback_result_def)

lemma tlv_callback_result_range:
  "tlv_callback_result rc False \<noteq> TLV_END \<and> tlv_callback_result rc e \<noteq> TLV_NEED_MORE_DATA \<and>
   tlv_callback_result rc e \<noteq> TLV_RESULT_OTHER i"
  by (cases rc) (auto simp: tlv_callback_result_def)

lemma memcmp_eq_0: "length xs = length ys \<Longrightarrow> memcmp xs ys = 0 \<longleftrightarrow> xs = ys"
  by (induction xs ys rule: memcmp.induct) auto

lemma memcmp_lexordp:
  "length xs = length ys \<Longrightarrow> memcmp xs ys < 0 \<longleftrightarrow> ord_class.lexordp xs ys"
  by (induction xs ys rule: memcmp.induct) auto

lemma memcmp_swap: "length xs = length ys \<Longrightarrow> memcmp ys xs = - memcmp xs ys"
  by (induction xs ys rule: memcmp.induct) auto

lemma tlv_tag_equal_bytes:
  assumes "tag_wf l" "tag_wf r"
  shows "tlv_tag_equal l r \<longleftrightarrow> tag_bytes l = tag_bytes r"
proof (cases "tag_size l = tag_size r")
  case True
  with assms show ?thesis
    by (auto simp: tlv_tag_equal_def tag_bytes_def tag_wf_def readable_def memcmp_eq_0)
next
  case False
  with assms have "length (tag_bytes l) \<noteq> length (tag_bytes r)" by simp
  with False show ?thesis by (auto simp: tlv_tag_equal_def)
qed

lemma tlv_value_equal_bytes:
  assumes "value_wf l" "value_wf r"
  shows "tlv_value_equal l r \<longleftrightarrow> value_bytes l = value_bytes r"
proof (cases "val_size l = val_size r")
  case True
  with assms show ?thesis
    by (auto simp: tlv_value_equal_def value_bytes_def value_wf_def readable_def memcmp_eq_0)
next
  case False
  with assms have "length (value_bytes l) \<noteq> length (value_bytes r)" by simp
  with False show ?thesis by (auto simp: tlv_value_equal_def)
qed

text \<open>The shared comparison: \<^verbatim>\<open>memcmp\<close> on the common prefix, then the lengths.\<close>

fun bytes_compare :: "u8 list \<Rightarrow> u8 list \<Rightarrow> int" where
  "bytes_compare [] [] = 0"
| "bytes_compare [] (y # ys) = -1"
| "bytes_compare (x # xs) [] = 1"
| "bytes_compare (x # xs) (y # ys) =
     (if x = y then bytes_compare xs ys else if x < y then -1 else 1)"

lemma bytes_compare_memcmp:
  "bytes_compare xs ys =
     (let n = min (length xs) (length ys); c = memcmp (take n xs) (take n ys)
      in if c \<noteq> 0 then (if c < 0 then -1 else 1)
         else if length xs = length ys then 0 else if length xs < length ys then -1 else 1)"
  by (induction xs ys rule: bytes_compare.induct) (auto simp: Let_def)

lemma bytes_compare_eq_0: "bytes_compare xs ys = 0 \<longleftrightarrow> xs = ys"
  by (induction xs ys rule: bytes_compare.induct) auto

lemma bytes_compare_less: "bytes_compare xs ys = -1 \<longleftrightarrow> ord_class.lexordp xs ys"
  by (induction xs ys rule: bytes_compare.induct) auto

lemma bytes_compare_swap: "bytes_compare ys xs = - bytes_compare xs ys"
  by (induction xs ys rule: bytes_compare.induct) auto

lemma bytes_compare_trans:
  "bytes_compare xs ys = -1 \<Longrightarrow> bytes_compare ys zs = -1 \<Longrightarrow> bytes_compare xs zs = -1"
  by (auto simp: bytes_compare_less intro: lexordp_trans)

lemma tlv_tag_compare_bytes:
  assumes "tag_wf l" "tag_wf r"
  shows "tlv_tag_compare l r = bytes_compare (tag_bytes l) (tag_bytes r)"
proof -
  have "min (tag_size l) (tag_size r) = 0 \<Longrightarrow> take (min (tag_size l) (tag_size r)) xs = []"
    for xs :: "u8 list" by simp
  with assms show ?thesis
    unfolding bytes_compare_memcmp
    by (auto simp: tlv_tag_compare_def Let_def tag_bytes_def tag_wf_def readable_def min_def)
qed

lemma tlv_value_compare_bytes:
  assumes "value_wf l" "value_wf r"
  shows "tlv_value_compare l r = bytes_compare (value_bytes l) (value_bytes r)"
proof -
  have "min (val_size l) (val_size r) = 0 \<Longrightarrow> take (min (val_size l) (val_size r)) xs = []"
    for xs :: "u8 list" by simp
  with assms show ?thesis
    unfolding bytes_compare_memcmp
    by (auto simp: tlv_value_compare_def Let_def value_bytes_def value_wf_def readable_def min_def)
qed

end
