(* ===== verification/TLV_Endian.thy ===== *)
theory TLV_Endian
  imports TLV_Core
begin

unbundle bit_operations_syntax

text \<open>
  Byte-order conversion (\<^verbatim>\<open>endian.c\<close>): the fixed-width readers and writers and the two
  variable-width routines every length field goes through.  The reference semantics is positional
  notation in base 256 (\<open>be_val\<close>, \<open>be_of\<close>); the lemmas show that the shift-and-or loops compute it
  at every width from one to eight octets, without loss, in both byte orders.
\<close>

section \<open>Definitions\<close>

datatype tlv_byte_order_t =
    TLV_BYTE_ORDER_UNKNOWN | TLV_BYTE_ORDER_BIG_ENDIAN | TLV_BYTE_ORDER_LITTLE_ENDIAN

text \<open>The argument is the object representation of \<^verbatim>\<open>UINT32_C(0x01020304)\<close> on the host.\<close>

definition tlv_endian_native :: "u8 list \<Rightarrow> tlv_byte_order_t" where
  "tlv_endian_native host =
     (if host ! 0 = 1 \<and> host ! 1 = 2 \<and> host ! 2 = 3 \<and> host ! 3 = 4 then TLV_BYTE_ORDER_BIG_ENDIAN
      else if host ! 0 = 4 \<and> host ! 1 = 3 \<and> host ! 2 = 2 \<and> host ! 3 = 1
      then TLV_BYTE_ORDER_LITTLE_ENDIAN
      else TLV_BYTE_ORDER_UNKNOWN)"

definition tlv_read_u16_be :: "ptr \<Rightarrow> u16" where
  "tlv_read_u16_be data =
     ucast (push_bit 8 (ucast (byte_at data 0) :: u32) OR push_bit 0 (ucast (byte_at data 1)))"

definition tlv_read_u16_le :: "ptr \<Rightarrow> u16" where
  "tlv_read_u16_le data =
     ucast (push_bit 0 (ucast (byte_at data 0) :: u32) OR push_bit 8 (ucast (byte_at data 1)))"

definition tlv_read_u32_be :: "ptr \<Rightarrow> u32" where
  "tlv_read_u32_be data =
     push_bit 24 (ucast (byte_at data 0)) OR push_bit 16 (ucast (byte_at data 1)) OR
     push_bit 8 (ucast (byte_at data 2)) OR push_bit 0 (ucast (byte_at data 3))"

definition tlv_read_u32_le :: "ptr \<Rightarrow> u32" where
  "tlv_read_u32_le data =
     push_bit 0 (ucast (byte_at data 0)) OR push_bit 8 (ucast (byte_at data 1)) OR
     push_bit 16 (ucast (byte_at data 2)) OR push_bit 24 (ucast (byte_at data 3))"

definition tlv_write_u16_be :: "u8 list \<Rightarrow> u16 \<Rightarrow> u8 list" where
  "tlv_write_u16_be data v = data[0 := ucast (drop_bit 8 v), 1 := ucast (drop_bit 0 v)]"

definition tlv_write_u16_le :: "u8 list \<Rightarrow> u16 \<Rightarrow> u8 list" where
  "tlv_write_u16_le data v = data[0 := ucast (drop_bit 0 v), 1 := ucast (drop_bit 8 v)]"

definition tlv_write_u32_be :: "u8 list \<Rightarrow> u32 \<Rightarrow> u8 list" where
  "tlv_write_u32_be data v =
     data[0 := ucast (drop_bit 24 v), 1 := ucast (drop_bit 16 v),
          2 := ucast (drop_bit 8 v), 3 := ucast (drop_bit 0 v)]"

definition tlv_write_u32_le :: "u8 list \<Rightarrow> u32 \<Rightarrow> u8 list" where
  "tlv_write_u32_le data v =
     data[0 := ucast (drop_bit 0 v), 1 := ucast (drop_bit 8 v),
          2 := ucast (drop_bit 16 v), 3 := ucast (drop_bit 24 v)]"

definition known_order :: "tlv_byte_order_t \<Rightarrow> bool" where
  "known_order order \<longleftrightarrow>
     order = TLV_BYTE_ORDER_BIG_ENDIAN \<or> order = TLV_BYTE_ORDER_LITTLE_ENDIAN"

definition tlv_read_uint ::
  "ptr \<Rightarrow> nat \<Rightarrow> tlv_byte_order_t \<Rightarrow> bool \<Rightarrow> tlv_result_t \<times> u64 option" where
  "tlv_read_uint data width order value_ok =
     (if data = Null \<or> \<not> value_ok then (TLV_ERR_NULL_ARG, None)
      else if width = 0 \<or> width > 8 then (TLV_ERR_INVALID_LENGTH, None)
      else if \<not> known_order order then (TLV_ERR_INVALID_ARG, None)
      else (TLV_OK,
        Some (fold (\<lambda>i result.
                let index = (if order = TLV_BYTE_ORDER_BIG_ENDIAN then i else width - 1 - i)
                in push_bit 8 result OR ucast (byte_at data index)) [0..<width] 0)))"

definition write_octet ::
  "nat \<Rightarrow> tlv_byte_order_t \<Rightarrow> nat \<Rightarrow> u8 list \<times> u64 \<Rightarrow> u8 list \<times> u64" where
  "write_octet width order i st =
     (let index = (if order = TLV_BYTE_ORDER_LITTLE_ENDIAN then i else width - 1 - i)
      in ((fst st)[index := ucast (snd st)], drop_bit 8 (snd st)))"

definition tlv_write_uint ::
  "obuf \<Rightarrow> nat \<Rightarrow> tlv_byte_order_t \<Rightarrow> u64 \<Rightarrow> tlv_result_t \<times> obuf" where
  "tlv_write_uint data width order v =
     (case data of None \<Rightarrow> (TLV_ERR_NULL_ARG, None)
      | Some buf \<Rightarrow>
          (if width = 0 \<or> width > 8 then (TLV_ERR_INVALID_LENGTH, data)
           else if \<not> known_order order then (TLV_ERR_INVALID_ARG, data)
           else if width < 8 \<and> drop_bit (width * 8) v \<noteq> 0 then (TLV_ERR_OVERFLOW, data)
           else (TLV_OK, Some (fst (fold (write_octet width order) [0..<width] (buf, v))))))"

definition tlv_read_u64_be :: "ptr \<Rightarrow> u64" where
  "tlv_read_u64_be data = out (snd (tlv_read_uint data 8 TLV_BYTE_ORDER_BIG_ENDIAN True)) 0"

definition tlv_read_u64_le :: "ptr \<Rightarrow> u64" where
  "tlv_read_u64_le data = out (snd (tlv_read_uint data 8 TLV_BYTE_ORDER_LITTLE_ENDIAN True)) 0"

definition tlv_write_u64_be :: "obuf \<Rightarrow> u64 \<Rightarrow> obuf" where
  "tlv_write_u64_be data v = snd (tlv_write_uint data 8 TLV_BYTE_ORDER_BIG_ENDIAN v)"

definition tlv_write_u64_le :: "obuf \<Rightarrow> u64 \<Rightarrow> obuf" where
  "tlv_write_u64_le data v = snd (tlv_write_uint data 8 TLV_BYTE_ORDER_LITTLE_ENDIAN v)"

section \<open>Positional notation, the reference semantics\<close>

definition be_val :: "u8 list \<Rightarrow> nat" where
  "be_val bs = fold (\<lambda>b r. r * 256 + unat b) bs 0"

primrec be_of :: "nat \<Rightarrow> nat \<Rightarrow> u8 list" where
  "be_of 0 v = []"
| "be_of (Suc n) v = be_of n (v div 256) @ [of_nat v]"

text \<open>The octets of a field in a byte order, and the number they denote.\<close>

definition uint_val :: "tlv_byte_order_t \<Rightarrow> u8 list \<Rightarrow> nat" where
  "uint_val order bs = be_val (if order = TLV_BYTE_ORDER_BIG_ENDIAN then bs else rev bs)"

definition uint_of :: "tlv_byte_order_t \<Rightarrow> nat \<Rightarrow> nat \<Rightarrow> u8 list" where
  "uint_of order n v = (if order = TLV_BYTE_ORDER_BIG_ENDIAN then be_of n v else rev (be_of n v))"

lemma length_be_of [simp]: "length (be_of n v) = n"
  by (induction n arbitrary: v) auto

lemma length_uint_of [simp]: "length (uint_of order n v) = n"
  by (simp add: uint_of_def)

lemma be_val_Nil [simp]: "be_val [] = 0"
  by (simp add: be_val_def)

lemma be_val_snoc [simp]: "be_val (bs @ [b]) = be_val bs * 256 + unat b"
  by (simp add: be_val_def)

lemma be_val_less [wire_bounds]: "be_val bs < 256 ^ length bs"
proof (induction bs rule: rev_induct)
  case Nil
  show ?case by simp
next
  case (snoc b bs)
  have "be_val (bs @ [b]) < Suc (be_val bs) * 256"
    using unat_u8_less [of b] by simp
  also have "\<dots> \<le> 256 ^ length bs * 256"
    using snoc by (intro mult_right_mono) auto
  finally show ?case
    by (simp add: mult.commute)
qed

lemma be_val_be_of [simp]: "be_val (be_of n v) = v mod 256 ^ n"
proof (induction n arbitrary: v)
  case 0
  show ?case by simp
next
  case (Suc n)
  have "v mod 256 ^ Suc n = (v div 256) mod 256 ^ n * 256 + v mod 256"
    by (simp add: mod_mult2_eq)
  with Suc show ?case
    by (simp add: unat_of_nat take_bit_eq_mod)
qed

lemma be_of_be_val [simp]: "length bs = n \<Longrightarrow> be_of n (be_val bs) = bs"
proof (induction bs arbitrary: n rule: rev_induct)
  case Nil
  then show ?case by simp
next
  case (snoc b bs)
  then obtain m where n: "n = Suc m" and m: "length bs = m" by auto
  have "(be_val bs * 256 + unat b) div 256 = be_val bs"
    using unat_u8_less [of b] by simp
  moreover have "(of_nat (be_val bs * 256 + unat b) :: u8) = b"
    by (rule of_nat_u8_digit)
  ultimately show ?case
    using snoc.IH [OF m] by (simp add: n del: of_nat_add of_nat_mult)
qed

lemma uint_val_less [wire_bounds]: "uint_val order bs < 256 ^ length bs"
  using be_val_less [of bs] be_val_less [of "rev bs"] by (simp add: uint_val_def)

lemma uint_val_uint_of [simp]: "uint_val order (uint_of order n v) = v mod 256 ^ n"
  by (simp add: uint_val_def uint_of_def)

lemma uint_of_uint_val [simp]: "length bs = n \<Longrightarrow> uint_of order n (uint_val order bs) = bs"
  by (simp add: uint_val_def uint_of_def)

lemma pow256_le: "n \<le> 8 \<Longrightarrow> (256 :: nat) ^ n \<le> 2 ^ 64"
proof -
  assume "n \<le> 8"
  then have "(256 :: nat) ^ n \<le> 256 ^ 8" by (intro power_increasing) auto
  then show ?thesis by simp
qed

section \<open>The reading loop\<close>

lemma fold_octets:
  assumes "length bs \<le> 8"
  shows "unat (fold (\<lambda>b r. push_bit 8 r OR ucast b) bs (0 :: u64)) = be_val bs"
  using assms
proof (induction bs rule: rev_induct)
  case Nil
  show ?case by simp
next
  case (snoc b bs)
  have "be_val bs < 256 ^ length bs" by (rule be_val_less)
  also have "(256 :: nat) ^ length bs \<le> 256 ^ 7"
    using snoc.prems by (intro power_increasing) auto
  finally have "be_val bs < 2 ^ 56" by simp
  with snoc show ?case by (simp add: push_octet)
qed

lemma map_byte_at: "readable p n \<Longrightarrow> map (byte_at p) [0..<n] = take n (bytes p)"
  by (rule nth_equalityI) (auto simp: byte_at_def readable_def)

lemma map_byte_at_rev:
  "readable p n \<Longrightarrow> map (\<lambda>i. byte_at p (n - Suc i)) [0..<n] = rev (take n (bytes p))"
  by (rule nth_equalityI) (auto simp: byte_at_def readable_def rev_nth)

lemma tlv_read_uint_OK:
  assumes "readable data width" "0 < width" "width \<le> 8" "known_order order"
  shows "\<exists>v. tlv_read_uint data width order True = (TLV_OK, Some v) \<and>
             unat v = uint_val order (take width (bytes data))"
proof -
  let ?idx = "\<lambda>i. if order = TLV_BYTE_ORDER_BIG_ENDIAN then i else width - 1 - i"
  let ?bs = "map (\<lambda>i. byte_at data (?idx i)) [0..<width]"
  have nz: "data \<noteq> Null" using assms by auto
  have "fold (\<lambda>i r. push_bit 8 r OR ucast (byte_at data (?idx i))) [0..<width] (0 :: u64) =
        fold (\<lambda>b r. push_bit 8 r OR ucast b) ?bs 0"
    by (simp add: fold_map comp_def)
  moreover have "be_val ?bs = uint_val order (take width (bytes data))"
    using assms by (simp add: map_byte_at map_byte_at_rev uint_val_def)
  ultimately show ?thesis
    using assms nz fold_octets [of ?bs] by (simp add: tlv_read_uint_def Let_def)
qed

lemma tlv_read_uint_unat:
  assumes "readable data width" "0 < width" "width \<le> 8" "known_order order"
  shows "tlv_read_uint data width order True =
           (TLV_OK, Some (of_nat (uint_val order (take width (bytes data)))))"
proof -
  obtain v where v: "tlv_read_uint data width order True = (TLV_OK, Some v)"
    and "unat v = uint_val order (take width (bytes data))"
    using tlv_read_uint_OK [OF assms] by blast
  then have "v = of_nat (uint_val order (take width (bytes data)))"
    using unat_u64_less [of v] by (simp add: word_unat_eq_iff unat_of_nat take_bit_eq_mod)
  with v show ?thesis by simp
qed

section \<open>The writing loop\<close>

lemma be_of_Suc_Cons: "be_of (Suc k) v = of_nat (v div 256 ^ k) # be_of k v"
proof (induction k arbitrary: v)
  case 0
  show ?case by simp
next
  case (Suc k)
  have "be_of (Suc (Suc k)) v = be_of (Suc k) (v div 256) @ [of_nat v]"
    by simp
  also have "\<dots> = (of_nat (v div 256 div 256 ^ k) # be_of k (v div 256)) @ [of_nat v]"
    by (simp only: Suc.IH)
  finally show ?case
    by (simp add: div_mult2_eq)
qed

lemma octet_of_shifted:
  "(ucast (drop_bit (8 * k) (v :: u64)) :: u8) = of_nat (unat v div 256 ^ k)"
proof -
  have "(256 :: nat) ^ k = 2 ^ (8 * k)" by (simp add: power_mult)
  then show ?thesis
    by (simp add: word_unat_eq_iff unat_of_nat unat_drop_bit_u64)
qed

lemma write_octets_le:
  assumes "k \<le> length buf"
  shows "fold (write_octet w TLV_BYTE_ORDER_LITTLE_ENDIAN) [0..<k] (buf, v) =
         (rev (be_of k (unat v)) @ drop k buf, drop_bit (8 * k) v)"
  using assms
proof (induction k)
  case 0
  show ?case by simp
next
  case (Suc k)
  have "drop k buf = buf ! k # drop (Suc k) buf"
    using Suc.prems by (simp add: Cons_nth_drop_Suc)
  with Suc show ?case
    by (simp add: write_octet_def be_of_Suc_Cons octet_of_shifted list_update_append add.commute
        del: be_of.simps)
qed

lemma write_octets_be:
  assumes "k \<le> w" "w \<le> length buf"
  shows "fold (write_octet w TLV_BYTE_ORDER_BIG_ENDIAN) [0..<k] (buf, v) =
         (take (w - k) buf @ be_of k (unat v) @ drop w buf, drop_bit (8 * k) v)"
  using assms
proof (induction k)
  case 0
  show ?case by simp
next
  case (Suc k)
  then have eq: "take (w - k) buf = take (w - Suc k) buf @ [buf ! (w - Suc k)]"
    by (metis Suc_diff_Suc Suc_le_lessD diff_less_Suc less_le_trans not_less_eq
        take_Suc_conv_app_nth)
  from Suc show ?case
    by (simp add: write_octet_def be_of_Suc_Cons octet_of_shifted eq list_update_append add.commute
        del: be_of.simps)
qed

lemma value_fits:
  assumes "width \<le> 8"
  shows "width < 8 \<and> drop_bit (width * 8) (v :: u64) \<noteq> 0 \<longleftrightarrow> \<not> unat v < 256 ^ width"
proof -
  have p: "(256 :: nat) ^ width = 2 ^ (width * 8)"
    by (simp add: power_mult mult.commute [of width])
  have "drop_bit (width * 8) v = 0 \<longleftrightarrow> unat v < 256 ^ width"
    unfolding p by (simp add: word_unat_eq_iff unat_drop_bit_u64 div_eq_0_iff)
  moreover have "width = 8 \<Longrightarrow> unat v < 256 ^ width"
    using unat_u64_less [of v] by simp
  ultimately show ?thesis
    using assms by (cases "width = 8") auto
qed

lemma tlv_write_uint_OK:
  assumes "width \<le> length buf" "0 < width" "width \<le> 8" "known_order order"
    and "unat v < 256 ^ width"
  shows "tlv_write_uint (Some buf) width order v =
           (TLV_OK, Some (uint_of order width (unat v) @ drop width buf))"
proof -
  have "\<not> (width < 8 \<and> drop_bit (width * 8) v \<noteq> 0)"
    using assms value_fits by blast
  with assms show ?thesis
    by (auto simp: tlv_write_uint_def known_order_def uint_of_def write_octets_le write_octets_be)
qed

lemma tlv_write_uint_overflow:
  assumes "0 < width" "width \<le> 8" "known_order order" "\<not> unat v < 256 ^ width"
  shows "tlv_write_uint (Some buf) width order v = (TLV_ERR_OVERFLOW, Some buf)"
proof -
  have "width < 8 \<and> drop_bit (width * 8) v \<noteq> 0"
    using assms value_fits by blast
  with assms show ?thesis
    by (simp add: tlv_write_uint_def)
qed

end
