(* ===== verification/TLV_Field_Interface.thy ===== *)
theory TLV_Field_Interface
  imports TLV_Core
begin

text \<open>
  The contract between field encodings (\<^verbatim>\<open>field/encoding.h\<close>) and the formats composed from them.
  A reader recognises a field by its own octets: with more input the answer is the same, with less
  it is \<open>TLV_ERR_TRUNCATED\<close>.  A writer's size query is exact, and what it writes is read back.
  The fixed, escaped and variable encodings interpret these locales.
\<close>

locale tag_reader =
  fixes read_tag :: "ptr \<Rightarrow> nat \<Rightarrow> tlv_result_t \<times> tlv_tag_t option \<times> nat option"
  assumes read_tag_inv:
    "readable p n \<Longrightarrow> read_tag p n = (TLV_OK, ot, oc) \<Longrightarrow>
     \<exists>k. 0 < k \<and> k \<le> n \<and> ot = Some (tlv_tag p k) \<and> oc = Some k \<and>
         (\<forall>m. readable p m \<longrightarrow> k \<le> m \<longrightarrow> read_tag p m = (TLV_OK, ot, oc)) \<and>
         (\<forall>m. m < k \<longrightarrow> fst (read_tag p m) = TLV_ERR_TRUNCATED)"

locale length_reader =
  fixes read_length :: "ptr \<Rightarrow> nat \<Rightarrow> tlv_result_t \<times> nat option \<times> nat option"
  assumes read_length_inv:
    "readable p n \<Longrightarrow> read_length p n = (TLV_OK, ol, oc) \<Longrightarrow>
     \<exists>l k. 0 < k \<and> k \<le> n \<and> l \<le> TLV_SIZE_MAX \<and> ol = Some l \<and> oc = Some k \<and>
         (\<forall>m. readable p m \<longrightarrow> k \<le> m \<longrightarrow> read_length p m = (TLV_OK, ol, oc)) \<and>
         (\<forall>m. m < k \<longrightarrow> fst (read_length p m) = TLV_ERR_TRUNCATED)"

locale tag_codec = tag_reader read_tag
  for read_tag :: "ptr \<Rightarrow> nat \<Rightarrow> tlv_result_t \<times> tlv_tag_t option \<times> nat option" +
  fixes write_tag :: "tlv_tag_t \<Rightarrow> obuf \<Rightarrow> nat \<Rightarrow> tlv_result_t \<times> obuf \<times> nat option"
  assumes write_tag_query:
    "tag_wf t \<Longrightarrow> fst (write_tag t None 0) = TLV_OK \<Longrightarrow>
     0 < tag_size t \<and> write_tag t None 0 = (TLV_OK, None, Some (tag_size t))"
  and write_tag_buffer:
    "tag_wf t \<Longrightarrow> fst (write_tag t None 0) = TLV_OK \<Longrightarrow> tag_size t \<le> cap \<Longrightarrow> cap \<le> length buf \<Longrightarrow>
     write_tag t (Some buf) cap = (TLV_OK, Some (blit 0 (tag_bytes t) buf), Some (tag_size t))"
  and read_written_tag:
    "tag_wf t \<Longrightarrow> fst (write_tag t None 0) = TLV_OK \<Longrightarrow> tag_size t \<le> n \<Longrightarrow> readable q n \<Longrightarrow>
     take (tag_size t) (bytes q) = tag_bytes t \<Longrightarrow>
     read_tag q n = (TLV_OK, Some (tlv_tag q (tag_size t)), Some (tag_size t))"

locale length_codec = length_reader read_length
  for read_length :: "ptr \<Rightarrow> nat \<Rightarrow> tlv_result_t \<times> nat option \<times> nat option" +
  fixes write_length :: "nat \<Rightarrow> obuf \<Rightarrow> nat \<Rightarrow> tlv_result_t \<times> obuf \<times> nat option"
    and len_enc :: "nat \<Rightarrow> u8 list"
  assumes write_length_query:
    "l \<le> TLV_SIZE_MAX \<Longrightarrow> fst (write_length l None 0) = TLV_OK \<Longrightarrow>
     0 < length (len_enc l) \<and> write_length l None 0 = (TLV_OK, None, Some (length (len_enc l)))"
  and write_length_buffer:
    "l \<le> TLV_SIZE_MAX \<Longrightarrow> fst (write_length l None 0) = TLV_OK \<Longrightarrow> length (len_enc l) \<le> cap \<Longrightarrow>
     cap \<le> length buf \<Longrightarrow>
     write_length l (Some buf) cap =
       (TLV_OK, Some (blit 0 (len_enc l) buf), Some (length (len_enc l)))"
  and read_written_length:
    "l \<le> TLV_SIZE_MAX \<Longrightarrow> fst (write_length l None 0) = TLV_OK \<Longrightarrow> length (len_enc l) \<le> n \<Longrightarrow>
     readable q n \<Longrightarrow> take (length (len_enc l)) (bytes q) = len_enc l \<Longrightarrow>
     read_length q n = (TLV_OK, Some l, Some (length (len_enc l)))"

text \<open>A pointer whose first octets are known, in the form the encodings' lemmas use.\<close>

lemma ptr_prefixE:
  assumes "readable q n" "length xs \<le> n" "take (length xs) (bytes q) = xs" "xs \<noteq> []"
  obtains a rest where "q = Ptr a (xs @ rest)" "n \<le> length xs + length rest"
proof (cases q)
  case Null
  with assms show thesis by auto
next
  case (Ptr a bs)
  with assms have "q = Ptr a (xs @ drop (length xs) bs)" by (metis append_take_drop_id bytes.simps(2))
  moreover have "n \<le> length xs + length (drop (length xs) bs)" using assms Ptr by simp
  ultimately show thesis by (rule that)
qed

end
