(* ===== verification/TLV_Field_Fixed.thy ===== *)
theory TLV_Field_Fixed
  imports TLV_Endian TLV_Field_Interface
begin

unbundle bit_operations_syntax

text \<open>
  Field encodings with a fixed backing store: raw identifiers and unsigned counts (\<^verbatim>\<open>field/fixed.c\<close>),
  escape-prefixed counts (\<^verbatim>\<open>field/escaped.c\<close>) and bit fields packed into one integer
  (\<^verbatim>\<open>field/packed.c\<close>).  Every writer is shown to produce the positional encoding and every reader to
  recover it; the packed writer changes its own bits only.
\<close>

section \<open>Fixed-width identifiers and counts (field/fixed.c)\<close>

record tlv_fixed_identifier_t =
  fid_size :: nat

record tlv_fixed_length_t =
  flen_size :: nat
  flen_byte_order :: tlv_byte_order_t

definition fixed_identifier_validate :: "tlv_fixed_identifier_t \<Rightarrow> tlv_result_t" where
  "fixed_identifier_validate config = (if fid_size config \<noteq> 0 then TLV_OK else TLV_ERR_INVALID_ARG)"

definition fixed_length_validate :: "tlv_fixed_length_t \<Rightarrow> tlv_result_t" where
  "fixed_length_validate config =
     (if flen_size config = 0 \<or> flen_size config > 8 then TLV_ERR_INVALID_ARG
      else if \<not> known_order (flen_byte_order config) then TLV_ERR_INVALID_ARG
      else TLV_OK)"

definition tlv_fixed_identifier_read ::
  "tlv_fixed_identifier_t option \<Rightarrow> ptr \<Rightarrow> nat \<Rightarrow> bool
     \<Rightarrow> tlv_result_t \<times> tlv_tag_t option \<times> nat option" where
  "tlv_fixed_identifier_read config data sz outs =
     (case config of None \<Rightarrow> (TLV_ERR_NULL_ARG, None, None)
      | Some c \<Rightarrow>
          if (data = Null \<and> sz \<noteq> 0) \<or> \<not> outs then (TLV_ERR_NULL_ARG, None, None)
          else let rc = fixed_identifier_validate c in
            if rc \<noteq> TLV_OK then (rc, None, None)
            else if sz < fid_size c
            then (TLV_ERR_TRUNCATED, None, Some (if sz < fid_size c then sz else fid_size c))
            else (TLV_OK, Some (tlv_tag data (fid_size c)), Some (fid_size c)))"

definition tlv_fixed_identifier_write ::
  "tlv_fixed_identifier_t option \<Rightarrow> tlv_tag_t option \<Rightarrow> obuf \<Rightarrow> nat \<Rightarrow> bool
     \<Rightarrow> tlv_result_t \<times> obuf \<times> nat option" where
  "tlv_fixed_identifier_write config tag data capacity written_ok =
     (case (config, tag) of
        (Some c, Some t) \<Rightarrow>
          if (tag_data t = Null \<and> tag_size t \<noteq> 0) \<or> (data = None \<and> capacity \<noteq> 0) \<or> \<not> written_ok
          then (TLV_ERR_NULL_ARG, data, None)
          else let rc = fixed_identifier_validate c in
            if rc \<noteq> TLV_OK then (rc, data, None)
            else if tag_size t \<noteq> fid_size c then (TLV_ERR_INVALID_TAG_SIZE, data, None)
            else if data \<noteq> None \<and> capacity < fid_size c then (TLV_ERR_BUFFER_TOO_SHORT, data, None)
            else (TLV_OK, obuf_blit 0 (take (fid_size c) (bytes (tag_data t))) data, Some (fid_size c))
      | _ \<Rightarrow> (TLV_ERR_NULL_ARG, data, None))"

definition tlv_fixed_length_read ::
  "tlv_fixed_length_t option \<Rightarrow> ptr \<Rightarrow> nat \<Rightarrow> bool
     \<Rightarrow> tlv_result_t \<times> nat option \<times> nat option" where
  "tlv_fixed_length_read config data sz outs =
     (case config of None \<Rightarrow> (TLV_ERR_NULL_ARG, None, None)
      | Some c \<Rightarrow>
          if (data = Null \<and> sz \<noteq> 0) \<or> \<not> outs then (TLV_ERR_NULL_ARG, None, None)
          else let rc = fixed_length_validate c in
            if rc \<noteq> TLV_OK then (rc, None, None)
            else let consumed = (if sz < flen_size c then sz else flen_size c) in
              if sz < flen_size c then (TLV_ERR_TRUNCATED, None, Some consumed)
              else (case tlv_read_uint data (flen_size c) (flen_byte_order c) True of
                      (rc, v) \<Rightarrow> (rc, map_option unat v, Some consumed)))"

definition tlv_fixed_length_write ::
  "tlv_fixed_length_t option \<Rightarrow> nat \<Rightarrow> obuf \<Rightarrow> nat \<Rightarrow> bool \<Rightarrow> tlv_result_t \<times> obuf \<times> nat option" where
  "tlv_fixed_length_write config len data capacity written_ok =
     (case config of None \<Rightarrow> (TLV_ERR_NULL_ARG, data, None)
      | Some c \<Rightarrow>
          if (data = None \<and> capacity \<noteq> 0) \<or> \<not> written_ok then (TLV_ERR_NULL_ARG, data, None)
          else let rc = fixed_length_validate c in
            if rc \<noteq> TLV_OK then (rc, data, None)
            else if flen_size c < 8 \<and> len \<ge> 2 ^ (8 * flen_size c)
            then (TLV_ERR_INVALID_LENGTH, data, None)
            else if data = None then (TLV_OK, data, Some (flen_size c))
            else if capacity < flen_size c then (TLV_ERR_BUFFER_TOO_SHORT, data, None)
            else (case tlv_write_uint data (flen_size c) (flen_byte_order c) (of_nat len) of
                    (rc, data') \<Rightarrow>
                      if rc \<noteq> TLV_OK then (rc, data', None) else (TLV_OK, data', Some (flen_size c))))"

section \<open>Escape-prefixed counts (field/escaped.c)\<close>

record tlv_escaped_length_t =
  esc_escape :: u8
  esc_extended_size :: nat
  esc_byte_order :: tlv_byte_order_t
  esc_min_extended :: nat
  esc_max_length :: nat

definition validate_length :: "tlv_escaped_length_t \<Rightarrow> tlv_result_t" where
  "validate_length f =
     (if esc_escape f = 0 \<or> esc_extended_size f = 0 \<or> esc_extended_size f > 8 \<or>
         esc_min_extended f > unat (esc_escape f) \<or> esc_max_length f < unat (esc_escape f) \<or>
         (esc_extended_size f < 8 \<and> esc_max_length f \<ge> 2 ^ (8 * esc_extended_size f))
      then TLV_ERR_INVALID_ARG
      else if \<not> known_order (esc_byte_order f) then TLV_ERR_INVALID_ARG
      else TLV_OK)"

definition tlv_escaped_length_read ::
  "tlv_escaped_length_t option \<Rightarrow> ptr \<Rightarrow> nat \<Rightarrow> bool
     \<Rightarrow> tlv_result_t \<times> nat option \<times> nat option" where
  "tlv_escaped_length_read config data sz outs =
     (case config of None \<Rightarrow> (TLV_ERR_NULL_ARG, None, None)
      | Some f \<Rightarrow>
          if \<not> outs \<or> (data = Null \<and> sz \<noteq> 0) then (TLV_ERR_NULL_ARG, None, None)
          else let rc = validate_length f in
            if rc \<noteq> TLV_OK then (rc, None, None)
            else if sz = 0 then (TLV_ERR_TRUNCATED, None, Some 0)
            else if byte_at data 0 > esc_escape f then (TLV_ERR_INVALID_LENGTH, None, Some 1)
            else if byte_at data 0 < esc_escape f then (TLV_OK, Some (unat (byte_at data 0)), Some 1)
            else let width = 1 + esc_extended_size f;
                     consumed = (if sz < width then sz else width) in
              if sz < width then (TLV_ERR_TRUNCATED, None, Some consumed)
              else (case tlv_read_uint (ptr_add data 1) (esc_extended_size f) (esc_byte_order f) True of
                      (rc, v) \<Rightarrow>
                        if rc \<noteq> TLV_OK then (rc, None, Some consumed)
                        else let v = unat (out v 0) in
                          if v < esc_min_extended f \<or> v > esc_max_length f
                          then (TLV_ERR_INVALID_LENGTH, None, Some consumed)
                          else (TLV_OK, Some v, Some consumed)))"

definition tlv_escaped_length_write ::
  "tlv_escaped_length_t option \<Rightarrow> nat \<Rightarrow> obuf \<Rightarrow> nat \<Rightarrow> bool \<Rightarrow> tlv_result_t \<times> obuf \<times> nat option" where
  "tlv_escaped_length_write config len data capacity written_ok =
     (case config of None \<Rightarrow> (TLV_ERR_NULL_ARG, data, None)
      | Some f \<Rightarrow>
          if \<not> written_ok \<or> (data = None \<and> capacity \<noteq> 0) then (TLV_ERR_NULL_ARG, data, None)
          else let rc = validate_length f in
            if rc \<noteq> TLV_OK then (rc, data, None)
            else if len > esc_max_length f then (TLV_ERR_INVALID_LENGTH, data, None)
            else let width = (if len < unat (esc_escape f) then 1 else 1 + esc_extended_size f) in
              if data = None then (TLV_OK, data, Some width)
              else if capacity < width then (TLV_ERR_BUFFER_TOO_SHORT, data, None)
              else (case (if width > 1
                          then tlv_write_uint (obuf_drop 1 data) (esc_extended_size f)
                                 (esc_byte_order f) (of_nat len)
                          else (TLV_OK, obuf_drop 1 data)) of
                      (rc, tail) \<Rightarrow>
                        if rc \<noteq> TLV_OK then (rc, obuf_put 1 data tail, None)
                        else (TLV_OK,
                              obuf_blit 0 [if width = 1 then of_nat len else esc_escape f]
                                (obuf_put 1 data tail),
                              Some width)))"

section \<open>Packed bit fields (field/packed.c)\<close>

record tlv_packed_field_t =
  pf_storage_size :: nat
  pf_bit_offset :: nat
  pf_bit_width :: nat
  pf_byte_order :: tlv_byte_order_t

definition packed_validate :: "tlv_packed_field_t \<Rightarrow> tlv_result_t" where
  "packed_validate f =
     (if pf_storage_size f = 0 \<or> pf_storage_size f > 8 \<or> pf_bit_width f = 0 \<or> pf_bit_width f > 64 \<or>
         pf_bit_offset f \<ge> pf_storage_size f * 8 \<or>
         pf_bit_width f > pf_storage_size f * 8 - pf_bit_offset f
      then TLV_ERR_INVALID_ARG
      else if \<not> known_order (pf_byte_order f) then TLV_ERR_INVALID_ARG
      else TLV_OK)"

definition packed_mask :: "nat \<Rightarrow> u64" where
  "packed_mask width = (if width = 64 then - 1 else push_bit width 1 - 1)"

definition tlv_packed_field_read ::
  "tlv_packed_field_t option \<Rightarrow> ptr \<Rightarrow> nat \<Rightarrow> bool \<Rightarrow> tlv_result_t \<times> u64 option" where
  "tlv_packed_field_read field data sz value_ok =
     (case field of None \<Rightarrow> (TLV_ERR_NULL_ARG, None)
      | Some f \<Rightarrow>
          if data = Null \<or> \<not> value_ok then (TLV_ERR_NULL_ARG, None)
          else let rc = packed_validate f in
            if rc \<noteq> TLV_OK then (rc, None)
            else if sz < pf_storage_size f then (TLV_ERR_TRUNCATED, None)
            else (case tlv_read_uint data (pf_storage_size f) (pf_byte_order f) True of
                    (rc, storage) \<Rightarrow>
                      if rc \<noteq> TLV_OK then (rc, None)
                      else (TLV_OK, Some (drop_bit (pf_bit_offset f) (out storage 0) AND
                                          packed_mask (pf_bit_width f)))))"

definition tlv_packed_field_write ::
  "tlv_packed_field_t option \<Rightarrow> obuf \<Rightarrow> nat \<Rightarrow> u64 \<Rightarrow> tlv_result_t \<times> obuf" where
  "tlv_packed_field_write field data capacity v =
     (case (field, data) of
        (Some f, Some buf) \<Rightarrow>
          let rc = packed_validate f in
            if rc \<noteq> TLV_OK then (rc, data)
            else if capacity < pf_storage_size f then (TLV_ERR_BUFFER_TOO_SHORT, data)
            else let mask = packed_mask (pf_bit_width f) in
              if v > mask then (TLV_ERR_OVERFLOW, data)
              else (case tlv_read_uint (Ptr 0 buf) (pf_storage_size f) (pf_byte_order f) True of
                      (rc, storage) \<Rightarrow>
                        if rc \<noteq> TLV_OK then (rc, data)
                        else tlv_write_uint data (pf_storage_size f) (pf_byte_order f)
                               ((out storage 0 AND NOT (push_bit (pf_bit_offset f) mask)) OR
                                push_bit (pf_bit_offset f) v))
      | _ \<Rightarrow> (TLV_ERR_NULL_ARG, data))"

section \<open>Fixed fields: what is written and what is read\<close>

lemma pow2_octets: "(2 :: nat) ^ (8 * n) = 256 ^ n"
  by (simp add: power_mult)

definition fixed_tag_ok :: "tlv_fixed_identifier_t \<Rightarrow> u8 list \<Rightarrow> bool" where
  "fixed_tag_ok c bs \<longleftrightarrow> fid_size c \<noteq> 0 \<and> length bs = fid_size c"

definition fixed_len_ok :: "tlv_fixed_length_t \<Rightarrow> nat \<Rightarrow> bool" where
  "fixed_len_ok c l \<longleftrightarrow> fixed_length_validate c = TLV_OK \<and> l < 256 ^ flen_size c"

definition fixed_len_enc :: "tlv_fixed_length_t \<Rightarrow> nat \<Rightarrow> u8 list" where
  "fixed_len_enc c l = uint_of (flen_byte_order c) (flen_size c) l"

lemma fixed_length_validate_OK:
  "fixed_length_validate c = TLV_OK \<longleftrightarrow>
     0 < flen_size c \<and> flen_size c \<le> 8 \<and> known_order (flen_byte_order c)"
  by (auto simp: fixed_length_validate_def)

lemma fixed_tag_write_query:
  "tag_wf t \<Longrightarrow> fixed_tag_ok c (tag_bytes t) \<Longrightarrow>
   tlv_fixed_identifier_write (Some c) (Some t) None 0 True = (TLV_OK, None, Some (tag_size t))"
  by (auto simp: tlv_fixed_identifier_write_def fixed_identifier_validate_def fixed_tag_ok_def tag_wf_def)

lemma fixed_tag_write_OK_iff:
  "tag_wf t \<Longrightarrow>
   fst (tlv_fixed_identifier_write (Some c) (Some t) None 0 True) = TLV_OK \<longleftrightarrow>
   fixed_tag_ok c (tag_bytes t)"
  by (auto simp: tlv_fixed_identifier_write_def fixed_identifier_validate_def fixed_tag_ok_def
      tag_wf_def Let_def)

lemma fixed_tag_write:
  "tag_wf t \<Longrightarrow> fixed_tag_ok c (tag_bytes t) \<Longrightarrow> tag_size t \<le> cap \<Longrightarrow>
   tlv_fixed_identifier_write (Some c) (Some t) (Some buf) cap True =
     (TLV_OK, Some (blit 0 (tag_bytes t) buf), Some (tag_size t))"
  by (auto simp: tlv_fixed_identifier_write_def fixed_identifier_validate_def fixed_tag_ok_def
      tag_wf_def tag_bytes_def readable_def)

lemma fixed_tag_read:
  "fixed_tag_ok c bs \<Longrightarrow> length bs \<le> n \<Longrightarrow>
   tlv_fixed_identifier_read (Some c) (Ptr a (bs @ rest)) n True =
     (TLV_OK, Some (tlv_tag (Ptr a (bs @ rest)) (length bs)), Some (length bs))"
  by (auto simp: tlv_fixed_identifier_read_def fixed_identifier_validate_def fixed_tag_ok_def)

lemma fixed_tag_read_short:
  "fixed_tag_ok c bs \<Longrightarrow> n < length bs \<Longrightarrow>
   tlv_fixed_identifier_read (Some c) (Ptr a (bs @ rest)) n True = (TLV_ERR_TRUNCATED, None, Some n)"
  by (auto simp: tlv_fixed_identifier_read_def fixed_identifier_validate_def fixed_tag_ok_def)

lemma fixed_tag_read_inv:
  "readable p n \<Longrightarrow> tlv_fixed_identifier_read (Some c) p n True = (TLV_OK, ot, oc) \<Longrightarrow>
   \<exists>k. 0 < k \<and> k \<le> n \<and> ot = Some (tlv_tag p k) \<and> oc = Some k \<and> fixed_tag_ok c (take k (bytes p))"
  by (auto simp: tlv_fixed_identifier_read_def fixed_identifier_validate_def fixed_tag_ok_def
      Let_def readable_def split: if_splits)

lemma fixed_length_write_query:
  "fixed_len_ok c l \<Longrightarrow>
   tlv_fixed_length_write (Some c) l None 0 True = (TLV_OK, None, Some (length (fixed_len_enc c l)))"
  by (auto simp: tlv_fixed_length_write_def fixed_len_ok_def fixed_len_enc_def pow2_octets)

lemma fixed_length_write_OK_iff:
  assumes "l \<le> TLV_SIZE_MAX"
  shows "fst (tlv_fixed_length_write (Some c) l None 0 True) = TLV_OK \<longleftrightarrow> fixed_len_ok c l"
proof -
  have "flen_size c = 8 \<Longrightarrow> l < 256 ^ flen_size c"
    using assms by (simp add: TLV_SIZE_MAX_def)
  then show ?thesis
    by (auto simp: tlv_fixed_length_write_def fixed_len_ok_def pow2_octets Let_def
        fixed_length_validate_OK)
qed

lemma fixed_length_write:
  assumes "fixed_len_ok c l" "flen_size c \<le> cap" "cap \<le> length buf"
  shows "tlv_fixed_length_write (Some c) l (Some buf) cap True =
           (TLV_OK, Some (blit 0 (fixed_len_enc c l) buf), Some (length (fixed_len_enc c l)))"
proof -
  from assms have l: "l < 256 ^ flen_size c" and w: "0 < flen_size c" "flen_size c \<le> 8"
    and o: "known_order (flen_byte_order c)"
    by (auto simp: fixed_len_ok_def fixed_length_validate_OK)
  have "l < 2 ^ 64" using l w(2) pow256_le [of "flen_size c"] by linarith
  then have "unat (of_nat l :: u64) = l" by (rule of_nat_unat_u64)
  then have "tlv_write_uint (Some buf) (flen_size c) (flen_byte_order c) (of_nat l) =
      (TLV_OK, Some (fixed_len_enc c l @ drop (flen_size c) buf))"
    using assms l w o tlv_write_uint_OK [of "flen_size c" buf "flen_byte_order c" "of_nat l"]
    by (simp add: fixed_len_enc_def)
  with assms l show ?thesis
    by (simp add: tlv_fixed_length_write_def fixed_len_ok_def pow2_octets blit_0 fixed_len_enc_def)
qed

lemma fixed_length_read_eq:
  assumes "fixed_length_validate c = TLV_OK" "flen_size c \<le> n" "readable p n"
  shows "tlv_fixed_length_read (Some c) p n True =
           (TLV_OK, Some (uint_val (flen_byte_order c) (take (flen_size c) (bytes p))),
            Some (flen_size c))"
proof -
  from assms have w: "0 < flen_size c" "flen_size c \<le> 8" and o: "known_order (flen_byte_order c)"
    by (auto simp: fixed_length_validate_OK)
  from assms have r: "readable p (flen_size c)" by (auto intro: readable_mono)
  then have nz: "p \<noteq> Null" using w by auto
  obtain v where "tlv_read_uint p (flen_size c) (flen_byte_order c) True = (TLV_OK, Some v)"
    and "unat v = uint_val (flen_byte_order c) (take (flen_size c) (bytes p))"
    using tlv_read_uint_OK [OF r w o] by blast
  with assms nz show ?thesis
    by (auto simp: tlv_fixed_length_read_def)
qed

lemma fixed_length_read:
  assumes "fixed_len_ok c l" "length (fixed_len_enc c l) \<le> n"
    and "n \<le> length (fixed_len_enc c l) + length rest"
  shows "tlv_fixed_length_read (Some c) (Ptr a (fixed_len_enc c l @ rest)) n True =
           (TLV_OK, Some l, Some (length (fixed_len_enc c l)))"
  using assms by (simp add: fixed_length_read_eq fixed_len_ok_def fixed_len_enc_def)

lemma fixed_length_read_short:
  assumes "fixed_length_validate c = TLV_OK" "n < flen_size c" "readable p n"
  shows "fst (tlv_fixed_length_read (Some c) p n True) = TLV_ERR_TRUNCATED"
  using assms by (auto simp: tlv_fixed_length_read_def)

lemma fixed_length_read_inv:
  assumes "readable p n" "tlv_fixed_length_read (Some c) p n True = (TLV_OK, ol, oc)"
  shows "fixed_length_validate c = TLV_OK \<and> flen_size c \<le> n \<and> oc = Some (flen_size c) \<and>
         ol = Some (uint_val (flen_byte_order c) (take (flen_size c) (bytes p)))"
proof -
  from assms(2) have "fixed_length_validate c = TLV_OK" "flen_size c \<le> n"
    by (auto simp: tlv_fixed_length_read_def Let_def split: if_splits)
  with assms show ?thesis by (simp add: fixed_length_read_eq)
qed

lemma uint_val_le_max: "length bs \<le> 8 \<Longrightarrow> uint_val order bs \<le> TLV_SIZE_MAX"
  using uint_val_less [of order bs] pow256_le [of "length bs"] by (simp add: TLV_SIZE_MAX_def)

section \<open>Escaped counts: what is written and what is read\<close>

definition escaped_len_ok :: "tlv_escaped_length_t \<Rightarrow> nat \<Rightarrow> bool" where
  "escaped_len_ok f l \<longleftrightarrow>
     validate_length f = TLV_OK \<and> l \<le> esc_max_length f \<and> l \<le> TLV_SIZE_MAX"

definition escaped_len_enc :: "tlv_escaped_length_t \<Rightarrow> nat \<Rightarrow> u8 list" where
  "escaped_len_enc f l =
     (if l < unat (esc_escape f) then [of_nat l]
      else esc_escape f # uint_of (esc_byte_order f) (esc_extended_size f) l)"

lemma validate_length_OK:
  "validate_length f = TLV_OK \<longleftrightarrow>
     esc_escape f \<noteq> 0 \<and> 0 < esc_extended_size f \<and> esc_extended_size f \<le> 8 \<and>
     esc_min_extended f \<le> unat (esc_escape f) \<and> unat (esc_escape f) \<le> esc_max_length f \<and>
     (esc_extended_size f < 8 \<longrightarrow> esc_max_length f < 256 ^ esc_extended_size f) \<and>
     known_order (esc_byte_order f)"
  by (auto simp: validate_length_def pow2_octets not_le not_less)

lemma escaped_len_fits:
  assumes "escaped_len_ok f l"
  shows "l < 256 ^ esc_extended_size f"
proof (cases "esc_extended_size f < 8")
  case True
  with assms show ?thesis
    by (auto simp: escaped_len_ok_def validate_length_OK)
next
  case False
  with assms have "esc_extended_size f = 8" "l \<le> TLV_SIZE_MAX"
    by (auto simp: escaped_len_ok_def validate_length_OK)
  then show ?thesis by (simp add: TLV_SIZE_MAX_def)
qed

lemma escaped_length_write_query:
  "escaped_len_ok f l \<Longrightarrow>
   tlv_escaped_length_write (Some f) l None 0 True = (TLV_OK, None, Some (length (escaped_len_enc f l)))"
  by (auto simp: tlv_escaped_length_write_def escaped_len_ok_def escaped_len_enc_def)

lemma escaped_length_write_OK_iff:
  "l \<le> TLV_SIZE_MAX \<Longrightarrow>
   fst (tlv_escaped_length_write (Some f) l None 0 True) = TLV_OK \<longleftrightarrow> escaped_len_ok f l"
  by (auto simp: tlv_escaped_length_write_def escaped_len_ok_def Let_def)

lemma escaped_length_write:
  assumes ok: "escaped_len_ok f l" and cap: "length (escaped_len_enc f l) \<le> cap" "cap \<le> length buf"
  shows "tlv_escaped_length_write (Some f) l (Some buf) cap True =
           (TLV_OK, Some (blit 0 (escaped_len_enc f l) buf), Some (length (escaped_len_enc f l)))"
proof -
  from ok have v: "validate_length f = TLV_OK" and m: "l \<le> esc_max_length f"
    by (auto simp: escaped_len_ok_def)
  from v have w: "0 < esc_extended_size f" "esc_extended_size f \<le> 8" and o: "known_order (esc_byte_order f)"
    by (auto simp: validate_length_OK)
  show ?thesis
  proof (cases "l < unat (esc_escape f)")
    case True
    with v m cap show ?thesis
      by (auto simp: tlv_escaped_length_write_def escaped_len_enc_def blit_def)
  next
    case False
    have fits: "l < 256 ^ esc_extended_size f" by (rule escaped_len_fits [OF ok])
    then have u: "unat (of_nat l :: u64) = l"
      using w(2) pow256_le [of "esc_extended_size f"] by (intro of_nat_unat_u64) linarith
    have len: "esc_extended_size f \<le> length (drop 1 buf)"
      using False cap by (simp add: escaped_len_enc_def)
    have "tlv_write_uint (Some (drop 1 buf)) (esc_extended_size f) (esc_byte_order f) (of_nat l) =
        (TLV_OK, Some (uint_of (esc_byte_order f) (esc_extended_size f) l @
           drop (esc_extended_size f) (drop 1 buf)))"
      using tlv_write_uint_OK [OF len w o] fits u by simp
    with False v m w cap show ?thesis
      by (auto simp: tlv_escaped_length_write_def escaped_len_enc_def blit_def)
  qed
qed

lemma escaped_length_read_long:
  assumes v: "validate_length f = TLV_OK" and b: "byte_at p 0 = esc_escape f"
    and n: "1 + esc_extended_size f \<le> n" and r: "readable p n"
  shows "tlv_escaped_length_read (Some f) p n True =
     (let l = uint_val (esc_byte_order f) (take (esc_extended_size f) (drop 1 (bytes p)))
      in if l < esc_min_extended f \<or> l > esc_max_length f
         then (TLV_ERR_INVALID_LENGTH, None, Some (1 + esc_extended_size f))
         else (TLV_OK, Some l, Some (1 + esc_extended_size f)))"
proof -
  from v have w: "0 < esc_extended_size f" "esc_extended_size f \<le> 8" and o: "known_order (esc_byte_order f)"
    by (auto simp: validate_length_OK)
  have r1: "readable p 1" using r n by (auto intro: readable_mono)
  then have nz: "p \<noteq> Null" by auto
  have "readable (ptr_add p 1) (esc_extended_size f)"
    using r n r1 by (auto intro: readable_mono)
  from tlv_read_uint_OK [OF this w o] obtain u
    where "tlv_read_uint (ptr_add p 1) (esc_extended_size f) (esc_byte_order f) True = (TLV_OK, Some u)"
      and "unat u = uint_val (esc_byte_order f) (take (esc_extended_size f) (drop 1 (bytes p)))"
    by auto
  with v b n nz show ?thesis
    by (auto simp: tlv_escaped_length_read_def Let_def)
qed

lemma escaped_length_read:
  assumes ok: "escaped_len_ok f l" and n: "length (escaped_len_enc f l) \<le> n"
    "n \<le> length (escaped_len_enc f l) + length rest"
  shows "tlv_escaped_length_read (Some f) (Ptr a (escaped_len_enc f l @ rest)) n True =
           (TLV_OK, Some l, Some (length (escaped_len_enc f l)))"
proof (cases "l < unat (esc_escape f)")
  case True
  then have l: "unat (of_nat l :: u8) = l"
    using unat_u8_less [of "esc_escape f"] by (simp add: unat_of_nat)
  then have "(of_nat l :: u8) < esc_escape f"
    using True by (simp add: word_less_nat_alt)
  with True l ok n show ?thesis
    by (auto simp: tlv_escaped_length_read_def escaped_len_enc_def escaped_len_ok_def)
next
  case False
  have "l < 256 ^ esc_extended_size f" by (rule escaped_len_fits [OF ok])
  with False ok n show ?thesis
    by (subst escaped_length_read_long)
      (auto simp: escaped_len_enc_def escaped_len_ok_def validate_length_OK)
qed

text \<open>A successful escaped read is stable under more input and truncated under less.\<close>

lemma escaped_length_read_inv:
  assumes r: "readable p n" and rd: "tlv_escaped_length_read (Some f) p n True = (TLV_OK, ol, oc)"
  obtains l k where "ol = Some l" "oc = Some k" "0 < k" "k \<le> n" "l \<le> TLV_SIZE_MAX"
    "\<And>m. readable p m \<Longrightarrow> k \<le> m \<Longrightarrow> tlv_escaped_length_read (Some f) p m True = (TLV_OK, ol, oc)"
    "\<And>m. readable p m \<Longrightarrow> m < k \<Longrightarrow> fst (tlv_escaped_length_read (Some f) p m True) = TLV_ERR_TRUNCATED"
proof -
  from rd have v: "validate_length f = TLV_OK" and n: "0 < n" and le: "\<not> byte_at p 0 > esc_escape f"
    by (auto simp: tlv_escaped_length_read_def Let_def split: if_splits)
  have nz: "p \<noteq> Null" using r n by auto
  show thesis
  proof (cases "byte_at p 0 < esc_escape f")
    case True
    have "unat (byte_at p 0) \<le> TLV_SIZE_MAX"
      using unat_u8_less [of "byte_at p 0"] by (simp add: TLV_SIZE_MAX_def)
    with True rd v n nz le show thesis
      by (intro that [of "unat (byte_at p 0)" 1])
        (auto simp: tlv_escaped_length_read_def Let_def split: if_splits)
  next
    case False
    let ?k = "1 + esc_extended_size f"
    let ?l = "uint_val (esc_byte_order f) (take (esc_extended_size f) (drop 1 (bytes p)))"
    from False le have b: "byte_at p 0 = esc_escape f" by (simp add: not_less_iff_gr_or_eq)
    from rd False b n have nk: "?k \<le> n"
      by (auto simp: tlv_escaped_length_read_def Let_def split: if_splits)
    from rd have okl: "\<not> (?l < esc_min_extended f \<or> ?l > esc_max_length f)"
      and ol: "ol = Some ?l" and oc: "oc = Some ?k"
      unfolding escaped_length_read_long [OF v b nk r] Let_def by (auto split: if_splits)
    have "?l \<le> TLV_SIZE_MAX"
      using v by (intro uint_val_le_max) (auto simp: validate_length_OK)
    moreover have "tlv_escaped_length_read (Some f) p m True = (TLV_OK, ol, oc)"
      if "readable p m" "?k \<le> m" for m
      using okl unfolding escaped_length_read_long [OF v b that(2,1)] Let_def ol oc by simp
    moreover have "fst (tlv_escaped_length_read (Some f) p m True) = TLV_ERR_TRUNCATED"
      if "m < ?k" for m
      using that v b nz by (auto simp: tlv_escaped_length_read_def Let_def)
    ultimately show thesis
      using ol oc nk by (intro that [of ?l ?k]) auto
  qed
qed

section \<open>The field contract\<close>

interpretation fixed_id: tag_codec
  "\<lambda>p n. tlv_fixed_identifier_read (Some c) p n True"
  "\<lambda>t d cap. tlv_fixed_identifier_write (Some c) (Some t) d cap True" for c
proof unfold_locales
  fix p n ot oc
  assume "readable p n" "tlv_fixed_identifier_read (Some c) p n True = (TLV_OK, ot, oc)"
  then show "\<exists>k. 0 < k \<and> k \<le> n \<and> ot = Some (tlv_tag p k) \<and> oc = Some k \<and>
      (\<forall>m. readable p m \<longrightarrow> k \<le> m \<longrightarrow> tlv_fixed_identifier_read (Some c) p m True = (TLV_OK, ot, oc)) \<and>
      (\<forall>m. m < k \<longrightarrow> fst (tlv_fixed_identifier_read (Some c) p m True) = TLV_ERR_TRUNCATED)"
    by (auto simp: tlv_fixed_identifier_read_def fixed_identifier_validate_def Let_def split: if_splits)
next
  fix t assume t: "tag_wf t" "fst (tlv_fixed_identifier_write (Some c) (Some t) None 0 True) = TLV_OK"
  then have ok: "fixed_tag_ok c (tag_bytes t)" by (simp add: fixed_tag_write_OK_iff)
  with t show "0 < tag_size t \<and>
      tlv_fixed_identifier_write (Some c) (Some t) None 0 True = (TLV_OK, None, Some (tag_size t))"
    by (simp add: fixed_tag_write_query) (simp add: fixed_tag_ok_def)
  from t ok show "tlv_fixed_identifier_write (Some c) (Some t) (Some buf) cap True =
      (TLV_OK, Some (blit 0 (tag_bytes t) buf), Some (tag_size t))"
    if "tag_size t \<le> cap" "cap \<le> length buf" for cap buf
    using that by (simp add: fixed_tag_write)
  show "tlv_fixed_identifier_read (Some c) q n True =
      (TLV_OK, Some (tlv_tag q (tag_size t)), Some (tag_size t))"
    if b: "tag_size t \<le> n" "readable q n" "take (tag_size t) (bytes q) = tag_bytes t" for n q
  proof -
    have "tag_bytes t \<noteq> []" using ok by (auto simp: fixed_tag_ok_def)
    moreover have "length (tag_bytes t) \<le> n" "take (length (tag_bytes t)) (bytes q) = tag_bytes t"
      using b t(1) by auto
    ultimately obtain a rest where "q = Ptr a (tag_bytes t @ rest)"
      using ptr_prefixE [OF b(2)] by blast
    with fixed_tag_read [OF ok, of n a rest] b(1) t(1) show ?thesis by simp
  qed
qed

interpretation fixed_len: length_codec
  "\<lambda>p n. tlv_fixed_length_read (Some c) p n True"
  "\<lambda>l d cap. tlv_fixed_length_write (Some c) l d cap True" "fixed_len_enc c" for c
proof unfold_locales
  fix p n ol oc
  assume r: "readable p n" "tlv_fixed_length_read (Some c) p n True = (TLV_OK, ol, oc)"
  from fixed_length_read_inv [OF r] have v: "fixed_length_validate c = TLV_OK" by simp
  then have w: "0 < flen_size c" "flen_size c \<le> 8" by (auto simp: fixed_length_validate_OK)
  have "m < flen_size c \<Longrightarrow> fst (tlv_fixed_length_read (Some c) p m True) = TLV_ERR_TRUNCATED" for m
    using fixed_length_read_short [OF v] readable_mono [OF r(1)] fixed_length_read_inv [OF r] by simp
  with fixed_length_read_inv [OF r] r w
  show "\<exists>l k. 0 < k \<and> k \<le> n \<and> l \<le> TLV_SIZE_MAX \<and> ol = Some l \<and> oc = Some k \<and>
      (\<forall>m. readable p m \<longrightarrow> k \<le> m \<longrightarrow> tlv_fixed_length_read (Some c) p m True = (TLV_OK, ol, oc)) \<and>
      (\<forall>m. m < k \<longrightarrow> fst (tlv_fixed_length_read (Some c) p m True) = TLV_ERR_TRUNCATED)"
    by (auto simp: fixed_length_read_eq intro: uint_val_le_max)
next
  fix l assume l: "l \<le> TLV_SIZE_MAX" "fst (tlv_fixed_length_write (Some c) l None 0 True) = TLV_OK"
  then have ok: "fixed_len_ok c l" by (simp add: fixed_length_write_OK_iff)
  then have w: "0 < flen_size c" by (simp add: fixed_len_ok_def fixed_length_validate_OK)
  from ok show "0 < length (fixed_len_enc c l) \<and>
      tlv_fixed_length_write (Some c) l None 0 True = (TLV_OK, None, Some (length (fixed_len_enc c l)))"
    using w by (simp add: fixed_length_write_query) (simp add: fixed_len_enc_def flip: length_greater_0_conv)
  from ok show "tlv_fixed_length_write (Some c) l (Some buf) cap True =
      (TLV_OK, Some (blit 0 (fixed_len_enc c l) buf), Some (length (fixed_len_enc c l)))"
    if "length (fixed_len_enc c l) \<le> cap" "cap \<le> length buf" for cap buf
    using that by (intro fixed_length_write) (auto simp: fixed_len_enc_def)
  show "tlv_fixed_length_read (Some c) q n True = (TLV_OK, Some l, Some (length (fixed_len_enc c l)))"
    if b: "length (fixed_len_enc c l) \<le> n" "readable q n"
      "take (length (fixed_len_enc c l)) (bytes q) = fixed_len_enc c l" for n q
  proof -
    have "fixed_len_enc c l \<noteq> []" using w by (simp add: fixed_len_enc_def flip: length_greater_0_conv)
    then obtain a rest where "q = Ptr a (fixed_len_enc c l @ rest)" "n \<le> length (fixed_len_enc c l) + length rest"
      using ptr_prefixE [OF b(2,1,3)] by blast
    with ok b(1) show ?thesis by (simp add: fixed_length_read)
  qed
qed

interpretation escaped_len: length_codec
  "\<lambda>p n. tlv_escaped_length_read (Some c) p n True"
  "\<lambda>l d cap. tlv_escaped_length_write (Some c) l d cap True" "escaped_len_enc c" for c
proof unfold_locales
  fix p n ol oc
  assume r: "readable p n" "tlv_escaped_length_read (Some c) p n True = (TLV_OK, ol, oc)"
  show "\<exists>l k. 0 < k \<and> k \<le> n \<and> l \<le> TLV_SIZE_MAX \<and> ol = Some l \<and> oc = Some k \<and>
      (\<forall>m. readable p m \<longrightarrow> k \<le> m \<longrightarrow> tlv_escaped_length_read (Some c) p m True = (TLV_OK, ol, oc)) \<and>
      (\<forall>m. m < k \<longrightarrow> fst (tlv_escaped_length_read (Some c) p m True) = TLV_ERR_TRUNCATED)"
  proof (rule escaped_length_read_inv [OF r])
    fix l k
    assume "ol = Some l" "oc = Some k" "0 < k" "k \<le> n" "l \<le> TLV_SIZE_MAX"
      "\<And>m. readable p m \<Longrightarrow> k \<le> m \<Longrightarrow> tlv_escaped_length_read (Some c) p m True = (TLV_OK, ol, oc)"
      "\<And>m. readable p m \<Longrightarrow> m < k \<Longrightarrow>
        fst (tlv_escaped_length_read (Some c) p m True) = TLV_ERR_TRUNCATED"
    then show ?thesis
      using readable_mono [OF r(1)] by (intro exI [of _ l] exI [of _ k]) simp
  qed
next
  fix l assume l: "l \<le> TLV_SIZE_MAX" "fst (tlv_escaped_length_write (Some c) l None 0 True) = TLV_OK"
  then have ok: "escaped_len_ok c l" by (simp add: escaped_length_write_OK_iff)
  have ne: "escaped_len_enc c l \<noteq> []" by (simp add: escaped_len_enc_def)
  with ok show "0 < length (escaped_len_enc c l) \<and>
      tlv_escaped_length_write (Some c) l None 0 True = (TLV_OK, None, Some (length (escaped_len_enc c l)))"
    by (simp add: escaped_length_write_query)
  from ok show "tlv_escaped_length_write (Some c) l (Some buf) cap True =
      (TLV_OK, Some (blit 0 (escaped_len_enc c l) buf), Some (length (escaped_len_enc c l)))"
    if "length (escaped_len_enc c l) \<le> cap" "cap \<le> length buf" for cap buf
    using that by (rule escaped_length_write)
  show "tlv_escaped_length_read (Some c) q n True = (TLV_OK, Some l, Some (length (escaped_len_enc c l)))"
    if "length (escaped_len_enc c l) \<le> n" "readable q n"
      "take (length (escaped_len_enc c l)) (bytes q) = escaped_len_enc c l" for n q
    by (rule ptr_prefixE [OF that(2,1,3) ne]) (use ok that(1) in \<open>simp add: escaped_length_read\<close>)
qed

section \<open>Packed fields: read after write, and frame\<close>

lemma packed_mask_eq: "w \<le> 64 \<Longrightarrow> packed_mask w = mask w"
  by (auto simp: packed_mask_def mask_eq_exp_minus_1 push_bit_of_1)

lemma packed_mask_and: "w \<le> 64 \<Longrightarrow> x AND packed_mask w = take_bit w x"
  by (simp add: packed_mask_eq take_bit_eq_mask)

lemma packed_fits: "w \<le> 64 \<Longrightarrow> \<not> v > packed_mask w \<longleftrightarrow> take_bit w v = v"
  by (simp add: packed_mask_eq not_less le_mask_iff_take_bit)

text \<open>The new storage word of \<open>tlv_packed_field_write\<close>.\<close>

definition packed_insert :: "nat \<Rightarrow> nat \<Rightarrow> u64 \<Rightarrow> u64 \<Rightarrow> u64" where
  "packed_insert off w storage v =
     (storage AND NOT (push_bit off (packed_mask w))) OR push_bit off v"

lemma bit_packed_insert:
  assumes "w \<le> 64" "take_bit w v = v" "n < 64"
  shows "bit (packed_insert off w storage v) n \<longleftrightarrow>
         (if off \<le> n \<and> n < off + w then bit v (n - off) else bit storage n)"
proof -
  have v: "bit v m \<Longrightarrow> m < w" for m
    using assms(2) by (metis bit_take_bit_iff)
  have "\<not> n < off + w \<Longrightarrow> off \<le> n \<Longrightarrow> \<not> bit v (n - off)"
    using v [of "n - off"] by auto
  then show ?thesis
    using assms(1,3) by (auto simp: packed_insert_def packed_mask_eq bit_simps)
qed

lemma packed_insert_read:
  assumes "w \<le> 64" "take_bit w v = v" "off + w \<le> 64"
  shows "take_bit w (drop_bit off (packed_insert off w storage v)) = v"
proof (rule bit_word_eqI)
  fix n assume n: "n < LENGTH(64)"
  have "bit v n \<Longrightarrow> n < w" using assms(2) by (metis bit_take_bit_iff)
  then show "bit (take_bit w (drop_bit off (packed_insert off w storage v))) n \<longleftrightarrow> bit v n"
    using assms by (auto simp: bit_take_bit_iff bit_drop_bit_eq bit_packed_insert)
qed

lemma packed_insert_frame:
  assumes "w \<le> 64" "take_bit w v = v" "off' + w' \<le> off \<or> off + w \<le> off'" "off' + w' \<le> 64"
  shows "take_bit w' (drop_bit off' (packed_insert off w storage v)) =
         take_bit w' (drop_bit off' storage)"
proof (rule bit_word_eqI)
  fix n assume n: "n < LENGTH(64)"
  show "bit (take_bit w' (drop_bit off' (packed_insert off w storage v))) n \<longleftrightarrow>
        bit (take_bit w' (drop_bit off' storage)) n"
    using assms by (auto simp: bit_take_bit_iff bit_drop_bit_eq bit_packed_insert)
qed

lemma packed_insert_fits:
  fixes storage :: u64
  assumes "w \<le> 64" "take_bit w v = v" "off + w \<le> k" "k \<le> 64" "unat storage < 2 ^ k"
  shows "unat (packed_insert off w storage v) < 2 ^ k"
proof -
  have s: "take_bit k storage = storage"
    using assms by (simp add: unat_less_pow_iff)
  have "take_bit k (packed_insert off w storage v) = packed_insert off w storage v"
  proof (rule bit_word_eqI)
    fix n assume n: "n < LENGTH(64)"
    have "bit storage n \<Longrightarrow> n < k" using s by (metis bit_take_bit_iff)
    then show "bit (take_bit k (packed_insert off w storage v)) n \<longleftrightarrow>
          bit (packed_insert off w storage v) n"
      using assms n by (auto simp: bit_take_bit_iff bit_packed_insert split: if_splits)
  qed
  then show ?thesis
    using assms by (simp add: unat_less_pow_iff)
qed

definition storage_word :: "tlv_packed_field_t \<Rightarrow> u8 list \<Rightarrow> u64" where
  "storage_word f bs = of_nat (uint_val (pf_byte_order f) (take (pf_storage_size f) bs))"

lemma packed_validate_OK:
  "packed_validate f = TLV_OK \<longleftrightarrow>
     0 < pf_storage_size f \<and> pf_storage_size f \<le> 8 \<and> 0 < pf_bit_width f \<and>
     pf_bit_offset f + pf_bit_width f \<le> pf_storage_size f * 8 \<and> known_order (pf_byte_order f)"
  by (auto simp: packed_validate_def)

lemma packed_read_eq:
  assumes "packed_validate f = TLV_OK" "pf_storage_size f \<le> n" "readable p n"
  shows "tlv_packed_field_read (Some f) p n True =
     (TLV_OK, Some (take_bit (pf_bit_width f) (drop_bit (pf_bit_offset f) (storage_word f (bytes p)))))"
proof -
  from assms have w: "0 < pf_storage_size f" "pf_storage_size f \<le> 8"
    and o: "known_order (pf_byte_order f)" and bw: "pf_bit_width f \<le> 64"
    by (auto simp: packed_validate_OK)
  have r: "readable p (pf_storage_size f)" using assms by (auto intro: readable_mono)
  then have "p \<noteq> Null" using w by auto
  with assms bw show ?thesis
    by (simp add: tlv_packed_field_read_def tlv_read_uint_unat [OF r w o] storage_word_def
        packed_mask_and)
qed

lemma packed_write_eq:
  assumes "packed_validate f = TLV_OK" "pf_storage_size f \<le> cap" "cap \<le> length buf"
    and v: "take_bit (pf_bit_width f) v = v"
  shows "\<exists>bs. length bs = pf_storage_size f \<and>
     tlv_packed_field_write (Some f) (Some buf) cap v =
       (TLV_OK, Some (bs @ drop (pf_storage_size f) buf)) \<and>
     storage_word f bs =
       packed_insert (pf_bit_offset f) (pf_bit_width f) (storage_word f buf) v"
proof -
  let ?w = "pf_storage_size f" and ?o = "pf_byte_order f"
  from assms have w: "0 < ?w" "?w \<le> 8" and o: "known_order ?o" and bw: "pf_bit_width f \<le> 64"
    and off: "pf_bit_offset f + pf_bit_width f \<le> 8 * ?w"
    by (auto simp: packed_validate_OK)
  have r: "readable (Ptr 0 buf) ?w" using assms by simp
  let ?x = "packed_insert (pf_bit_offset f) (pf_bit_width f) (storage_word f buf) v"
  have "uint_val ?o (take ?w buf) < 256 ^ ?w"
    using uint_val_less [of ?o "take ?w buf"] assms by simp
  moreover have "(256 :: nat) ^ ?w \<le> 2 ^ 64" by (rule pow256_le [OF w(2)])
  ultimately have "unat (storage_word f buf) < 2 ^ (8 * ?w)"
    by (simp add: storage_word_def pow2_octets)
  then have x: "unat ?x < 256 ^ ?w"
    using packed_insert_fits [OF bw v off] w(2) by (simp add: pow2_octets)
  have len: "?w \<le> length buf" using assms by simp
  have fits: "\<not> packed_mask (pf_bit_width f) < v"
    using packed_fits [OF bw] v by blast
  have "tlv_packed_field_write (Some f) (Some buf) cap v =
          tlv_write_uint (Some buf) ?w ?o ?x"
    using assms fits by (simp add: tlv_packed_field_write_def tlv_read_uint_unat [OF r w o]
        storage_word_def packed_insert_def)
  also have "\<dots> = (TLV_OK, Some (uint_of ?o ?w (unat ?x) @ drop ?w buf))"
    by (rule tlv_write_uint_OK [OF len w o x])
  finally show ?thesis
    using x by (intro exI [of _ "uint_of ?o ?w (unat ?x)"]) (simp add: storage_word_def)
qed

end
