(* ===== verification/TLV_Field_Variable.thy ===== *)
theory TLV_Field_Variable
  imports TLV_Field_Fixed
begin

unbundle bit_operations_syntax

text \<open>
  Variable-width fields (\<^verbatim>\<open>field/variable.c\<close>): identifiers with an escape pattern and continuation
  octets, and counts with a short and a long form, both with optional policies.  The library uses
  them for BER, DER, CER and EMV.  The lemmas show that a prefix payload survives \<open>pack\<close> and
  \<open>unpack\<close>, that reading depends on the consumed octets only, and that a written count is read back.
  C's \<^verbatim>\<open>unsigned\<close> temporaries stay below 65536 here and are \<open>nat\<close>.
\<close>

section \<open>Configuration (field/variable.h)\<close>

record tlv_identifier_policy_t =
  ip_forbidden_leading :: "u8 list option"
  ip_forbidden_leading_count :: nat
  ip_reject_zero_first_payload :: nat
  ip_require_minimal :: nat

record tlv_length_policy_t =
  lp_allow_short :: nat
  lp_allow_long :: nat
  lp_require_minimal :: nat
  lp_max_long_octets :: nat
  lp_max_value :: nat

record tlv_variable_identifier_t =
  vi_inline_mask :: u8
  vi_escape :: u8
  vi_continuation_bit :: u8
  vi_payload_mask :: u8
  vi_max_size :: nat
  vi_policy :: "tlv_identifier_policy_t option"

record tlv_variable_length_t =
  vl_long_form_bit :: u8
  vl_payload_mask :: u8
  vl_byte_order :: tlv_byte_order_t
  vl_policy :: "tlv_length_policy_t option"

definition single_bit :: "u8 \<Rightarrow> bool" where
  "single_bit b \<longleftrightarrow> b \<noteq> 0 \<and> b AND (b - 1) = 0"

definition identifier_validate :: "tlv_variable_identifier_t \<Rightarrow> tlv_result_t" where
  "identifier_validate c =
     (if vi_inline_mask c = 0 \<or> vi_escape c AND NOT (vi_inline_mask c) \<noteq> 0 \<or>
         \<not> single_bit (vi_continuation_bit c) \<or> vi_payload_mask c = 0 \<or>
         vi_continuation_bit c AND vi_payload_mask c \<noteq> 0 \<or> vi_max_size c = 0
      then TLV_ERR_INVALID_ARG
      else case vi_policy c of None \<Rightarrow> TLV_OK
           | Some p \<Rightarrow>
               (if (ip_forbidden_leading p = None \<and> ip_forbidden_leading_count p \<noteq> 0) \<or>
                   ip_reject_zero_first_payload p > 1 \<or> ip_require_minimal p > 1
                then TLV_ERR_INVALID_ARG else TLV_OK))"

definition length_validate :: "tlv_variable_length_t \<Rightarrow> tlv_result_t" where
  "length_validate c =
     (if \<not> single_bit (vl_long_form_bit c) \<or> vl_payload_mask c = 0 \<or>
         vl_long_form_bit c AND vl_payload_mask c \<noteq> 0
      then TLV_ERR_INVALID_ARG
      else if \<not> known_order (vl_byte_order c) then TLV_ERR_INVALID_ARG
      else case vl_policy c of None \<Rightarrow> TLV_OK
           | Some p \<Rightarrow>
               (if lp_allow_short p > 1 \<or> lp_allow_long p > 1 \<or> lp_require_minimal p > 1 \<or>
                   (lp_allow_short p = 0 \<and> lp_allow_long p = 0) \<or>
                   (lp_allow_long p \<noteq> 0 \<and> lp_max_long_octets p = 0)
                then TLV_ERR_INVALID_ARG else TLV_OK))"

section \<open>Prefix payload bits (unpack, pack)\<close>

definition unpack_bit :: "u8 \<Rightarrow> u8 \<Rightarrow> nat \<Rightarrow> nat \<times> nat \<Rightarrow> nat \<times> nat" where
  "unpack_bit b m i st =
     (if bit m i then ((if bit b i then fst st OR snd st else fst st), push_bit 1 (snd st)) else st)"

definition unpack :: "u8 \<Rightarrow> u8 \<Rightarrow> nat" where
  "unpack b m = fst (fold (unpack_bit b m) [0..<8] (0, 1))"

definition pack_bit :: "u8 \<Rightarrow> nat \<Rightarrow> nat \<times> nat \<Rightarrow> nat \<times> nat" where
  "pack_bit m i st =
     (if bit m i then ((if odd (snd st) then fst st OR push_bit i 1 else fst st), drop_bit 1 (snd st))
      else st)"

definition pack :: "nat \<Rightarrow> u8 \<Rightarrow> u8" where
  "pack v m = of_nat (fst (fold (pack_bit m) [0..<8] (0, v)))"

section \<open>Identifiers\<close>

definition identifier_prefix :: "tlv_variable_identifier_t \<Rightarrow> ptr \<Rightarrow> nat \<Rightarrow> tlv_result_t" where
  "identifier_prefix c data sz =
     (case vi_policy c of None \<Rightarrow> TLV_OK
      | Some p \<Rightarrow>
          if sz = 0 then TLV_OK
          else if byte_at data 0 \<in>
                    set (take (ip_forbidden_leading_count p) (out (ip_forbidden_leading p) []))
          then TLV_ERR_INVALID_TAG
          else if ip_reject_zero_first_payload p \<noteq> 0 \<and> sz > 1 \<and>
                  byte_at data 0 AND vi_inline_mask c = vi_escape c \<and>
                  byte_at data 1 AND vi_payload_mask c = 0
          then TLV_ERR_INVALID_TAG
          else TLV_OK)"

text \<open>The saturating accumulation over the continuation octets.\<close>

fun minimal_value :: "tlv_variable_identifier_t \<Rightarrow> nat \<Rightarrow> nat \<Rightarrow> u8 list \<Rightarrow> nat \<Rightarrow> nat" where
  "minimal_value c radix maximum [] v = v"
| "minimal_value c radix maximum (octet # rest) v =
     (if v \<le> maximum
      then minimal_value c radix maximum rest (v * radix + unpack octet (vi_payload_mask c))
      else v)"

definition identifier_minimal :: "tlv_variable_identifier_t \<Rightarrow> ptr \<Rightarrow> nat \<Rightarrow> bool" where
  "identifier_minimal c data count =
     (case vi_policy c of None \<Rightarrow> True
      | Some p \<Rightarrow>
          if ip_require_minimal p = 0 \<or> count = 1 then True
          else let radix = unpack (vi_payload_mask c) (vi_payload_mask c) + 1;
                   maximum = unpack (vi_inline_mask c) (vi_inline_mask c) in
            if count > 2 \<and> byte_at data 1 AND vi_payload_mask c = 0 then False
            else let v = minimal_value c radix maximum (drop 1 (take count (bytes data))) 0 in
              v > maximum \<or> v = unpack (vi_escape c) (vi_inline_mask c))"

text \<open>
  The continuation loop, over the octets that remain of the input: \<open>count\<close> octets are already
  consumed, so the empty list is the source's \<^verbatim>\<open>count == size\<close>.  The result is the code, the value
  stored through \<^verbatim>\<open>consumed\<close> and the count reached.
\<close>

fun identifier_scan ::
  "tlv_variable_identifier_t \<Rightarrow> nat \<Rightarrow> u8 list \<Rightarrow> tlv_result_t \<times> nat option \<times> nat" where
  "identifier_scan c count [] =
     (if count = vi_max_size c then (TLV_ERR_INVALID_TAG_SIZE, None, count)
      else (TLV_ERR_TRUNCATED, Some count, count))"
| "identifier_scan c count (octet # rest) =
     (if count = vi_max_size c then (TLV_ERR_INVALID_TAG_SIZE, None, count)
      else if octet AND NOT (vi_continuation_bit c OR vi_payload_mask c) \<noteq> 0
      then (TLV_ERR_INVALID_TAG, None, count + 1)
      else if octet AND vi_continuation_bit c = 0 then (TLV_OK, None, count + 1)
      else identifier_scan c (count + 1) rest)"

definition tlv_variable_identifier_read ::
  "tlv_variable_identifier_t option \<Rightarrow> ptr \<Rightarrow> nat \<Rightarrow> bool
     \<Rightarrow> tlv_result_t \<times> tlv_tag_t option \<times> nat option" where
  "tlv_variable_identifier_read config data sz outs =
     (case config of None \<Rightarrow> (TLV_ERR_NULL_ARG, None, None)
      | Some c \<Rightarrow>
          if (data = Null \<and> sz \<noteq> 0) \<or> \<not> outs then (TLV_ERR_NULL_ARG, None, None)
          else let rc = identifier_validate c in
            if rc \<noteq> TLV_OK then (rc, None, None)
            else let rc = identifier_prefix c data sz in
              if rc \<noteq> TLV_OK then (rc, None, None)
              else if sz = 0 then (TLV_ERR_TRUNCATED, None, Some 0)
              else (case (if byte_at data 0 AND vi_inline_mask c = vi_escape c
                          then identifier_scan c 1 (drop 1 (take sz (bytes data)))
                          else (TLV_OK, None, 1)) of
                      (rc, consumed, count) \<Rightarrow>
                        if rc \<noteq> TLV_OK then (rc, None, consumed)
                        else if \<not> identifier_minimal c data count then (TLV_ERR_INVALID_TAG, None, None)
                        else (TLV_OK, Some (tlv_tag data count), Some count)))"

definition tlv_variable_identifier_write ::
  "tlv_variable_identifier_t option \<Rightarrow> tlv_tag_t option \<Rightarrow> obuf \<Rightarrow> nat \<Rightarrow> bool
     \<Rightarrow> tlv_result_t \<times> obuf \<times> nat option" where
  "tlv_variable_identifier_write config tag data capacity written_ok =
     (case (config, tag) of
        (Some c, Some t) \<Rightarrow>
          if (tag_data t = Null \<and> tag_size t \<noteq> 0) \<or> (data = None \<and> capacity \<noteq> 0) \<or> \<not> written_ok
          then (TLV_ERR_NULL_ARG, data, None)
          else let rc = identifier_validate c in
            if rc \<noteq> TLV_OK then (rc, data, None)
            else if tag_size t = 0 \<or> tag_size t > vi_max_size c
            then (TLV_ERR_INVALID_TAG_SIZE, data, None)
            else (case tlv_variable_identifier_read config (tag_data t) (tag_size t) True of
                    (rc, parsed, consumed) \<Rightarrow>
                      let count = out consumed 0 in
                      if rc = TLV_ERR_INVALID_TAG_SIZE then (rc, data, None)
                      else if rc \<noteq> TLV_OK \<or> count \<noteq> tag_size t then (TLV_ERR_INVALID_TAG, data, None)
                      else if data \<noteq> None \<and> capacity < count
                      then (TLV_ERR_BUFFER_TOO_SHORT, data, None)
                      else (TLV_OK, obuf_blit 0 (take count (bytes (tag_data t))) data, Some count))
      | _ \<Rightarrow> (TLV_ERR_NULL_ARG, data, None))"

section \<open>Counts\<close>

text \<open>Folding the long-form octets, most significant first; \<open>None\<close> is the overflow exit.\<close>

fun length_fold :: "u8 list \<Rightarrow> nat \<Rightarrow> nat option" where
  "length_fold [] v = Some v"
| "length_fold (octet # rest) v =
     (if v > TLV_SIZE_MAX div 256 then None
      else length_fold rest (push_bit 8 v OR unat octet))"

definition tlv_variable_length_read ::
  "tlv_variable_length_t option \<Rightarrow> ptr \<Rightarrow> nat \<Rightarrow> bool
     \<Rightarrow> tlv_result_t \<times> nat option \<times> nat option" where
  "tlv_variable_length_read config data sz outs =
     (case config of None \<Rightarrow> (TLV_ERR_NULL_ARG, None, None)
      | Some c \<Rightarrow>
          if (data = Null \<and> sz \<noteq> 0) \<or> \<not> outs then (TLV_ERR_NULL_ARG, None, None)
          else let rc = length_validate c in
            if rc \<noteq> TLV_OK then (rc, None, None)
            else if sz = 0 then (TLV_ERR_TRUNCATED, None, Some 0)
            else if byte_at data 0 AND NOT (vl_long_form_bit c OR vl_payload_mask c) \<noteq> 0
            then (TLV_ERR_INVALID_LENGTH, None, Some 1)
            else let count = unpack (byte_at data 0) (vl_payload_mask c) in
              if byte_at data 0 AND vl_long_form_bit c = 0 then
                (if (case vl_policy c of None \<Rightarrow> False
                     | Some p \<Rightarrow> lp_allow_short p = 0 \<or> count > lp_max_value p)
                 then (TLV_ERR_INVALID_LENGTH, None, Some 1)
                 else (TLV_OK, Some count, Some 1))
              else if count = 0 then (TLV_ERR_INVALID_LENGTH, None, Some 1)
              else if (case vl_policy c of None \<Rightarrow> False
                       | Some p \<Rightarrow> lp_allow_long p = 0 \<or> count > lp_max_long_octets p)
              then (TLV_ERR_INVALID_LENGTH, None, Some 1)
              else let consumed = (if count < sz then count + 1 else sz) in
                if count \<ge> sz then (TLV_ERR_TRUNCATED, None, Some consumed)
                else (case length_fold
                             (map (\<lambda>i. byte_at data
                                     (if vl_byte_order c = TLV_BYTE_ORDER_BIG_ENDIAN then i + 1
                                      else count - i)) [0..<count]) 0 of
                        None \<Rightarrow> ((if vl_policy c \<noteq> None then TLV_ERR_INVALID_LENGTH
                                  else TLV_ERR_OVERFLOW), None, Some consumed)
                      | Some v \<Rightarrow>
                          if (case vl_policy c of None \<Rightarrow> False
                              | Some p \<Rightarrow>
                                  v > lp_max_value p \<or>
                                  (lp_require_minimal p \<noteq> 0 \<and>
                                   ((lp_allow_short p \<noteq> 0 \<and>
                                     v \<le> unpack (vl_payload_mask c) (vl_payload_mask c)) \<or>
                                    (count > 1 \<and>
                                     byte_at data
                                       (if vl_byte_order c = TLV_BYTE_ORDER_BIG_ENDIAN then 1
                                        else count) = 0))))
                          then (TLV_ERR_INVALID_LENGTH, None, Some consumed)
                          else (TLV_OK, Some v, Some consumed)))"

text \<open>The \<^verbatim>\<open>do ... while (remaining)\<close> loop that counts the octets of a number.\<close>

function octet_count :: "nat \<Rightarrow> nat" where
  "octet_count remaining =
     (if drop_bit 8 remaining = 0 then 1 else 1 + octet_count (drop_bit 8 remaining))"
  by pat_completeness auto
termination
  by (relation "measure id") (auto simp: drop_bit_eq_div)

declare octet_count.simps [simp del]

definition tlv_variable_length_write ::
  "tlv_variable_length_t option \<Rightarrow> nat \<Rightarrow> obuf \<Rightarrow> nat \<Rightarrow> bool
     \<Rightarrow> tlv_result_t \<times> obuf \<times> nat option" where
  "tlv_variable_length_write config len data capacity written_ok =
     (case config of None \<Rightarrow> (TLV_ERR_NULL_ARG, data, None)
      | Some c \<Rightarrow>
          if (data = None \<and> capacity \<noteq> 0) \<or> \<not> written_ok then (TLV_ERR_NULL_ARG, data, None)
          else let rc = length_validate c in
            if rc \<noteq> TLV_OK then (rc, data, None)
            else if (case vl_policy c of None \<Rightarrow> False | Some p \<Rightarrow> len > lp_max_value p)
            then (TLV_ERR_INVALID_LENGTH, data, None)
            else let maximum = unpack (vl_payload_mask c) (vl_payload_mask c);
                     long = (len > maximum \<or>
                             (case vl_policy c of None \<Rightarrow> False | Some p \<Rightarrow> lp_allow_short p = 0));
                     count = (if long then octet_count len else 0) in
              if long \<and> count > maximum then (TLV_ERR_INVALID_LENGTH, data, None)
              else if long \<and> (case vl_policy c of None \<Rightarrow> False
                              | Some p \<Rightarrow> lp_allow_long p = 0 \<or> count > lp_max_long_octets p)
              then (TLV_ERR_INVALID_LENGTH, data, None)
              else let width = count + 1 in
                if data = None then (TLV_OK, data, Some width)
                else if capacity < width then (TLV_ERR_BUFFER_TOO_SHORT, data, None)
                else if count = 0
                then (TLV_OK, obuf_blit 0 [pack len (vl_payload_mask c)] data, Some width)
                else let data1 = obuf_blit 0 [vl_long_form_bit c OR pack count (vl_payload_mask c)] data;
                         tail = snd (tlv_write_uint (obuf_drop 1 data1) count (vl_byte_order c)
                                       (of_nat len))
                     in (TLV_OK, obuf_put 1 data1 tail, Some width))"

section \<open>Payload bits survive packing\<close>

text \<open>The positions of the payload bits, least significant first.\<close>

definition mask_bits :: "u8 \<Rightarrow> nat list" where
  "mask_bits m = filter (bit m) [0..<8]"

lemma fold_if_filter: "fold (\<lambda>i st. if P i then f i st else st) xs st = fold f (filter P xs) st"
  by (induction xs arbitrary: st) auto

lemma mask_bits_distinct: "distinct (mask_bits m)"
  by (simp add: mask_bits_def)

lemma mask_bits_less: "i \<in> set (mask_bits m) \<Longrightarrow> i < 8 \<and> bit m i"
  by (auto simp: mask_bits_def)

lemma length_mask_bits: "length (mask_bits m) \<le> 8"
  unfolding mask_bits_def by (rule order_trans [OF length_filter_le]) simp

lemma bit_unpack_fold:
  "bit (fst (fold (\<lambda>i st. ((if bit b i then fst st OR snd st else fst st), push_bit 1 (snd st)))
        ps (r, push_bit k (1 :: nat)))) j \<longleftrightarrow>
   bit r j \<or> (k \<le> j \<and> j - k < length ps \<and> bit (b :: u8) (ps ! (j - k)))"
proof (induction ps arbitrary: r k)
  case Nil
  show ?case by simp
next
  case (Cons p ps)
  let ?r = "if bit b p then r OR push_bit k 1 else r"
  have r: "bit ?r j \<longleftrightarrow> bit r j \<or> (bit b p \<and> j = k)"
    by (auto simp: bit_simps)
  have "push_bit 1 (push_bit k (1 :: nat)) = push_bit (Suc k) 1" by simp
  then have "bit (fst (fold (\<lambda>i st. ((if bit b i then fst st OR snd st else fst st),
        push_bit 1 (snd st))) (p # ps) (r, push_bit k (1 :: nat)))) j \<longleftrightarrow>
      bit ?r j \<or> (Suc k \<le> j \<and> j - Suc k < length ps \<and> bit b (ps ! (j - Suc k)))"
    by (simp only: fold_simps comp_def fst_conv snd_conv Cons.IH)
  also have "\<dots> \<longleftrightarrow> bit r j \<or> (k \<le> j \<and> j - k < length (p # ps) \<and> bit b ((p # ps) ! (j - k)))"
  proof (cases "k < j")
    case True
    then obtain d where "j = Suc (k + d)" using less_iff_Suc_add by auto
    with r show ?thesis by simp
  next
    case False
    with r show ?thesis by auto
  qed
  finally show ?case .
qed

lemma bit_unpack:
  "bit (unpack b m) j \<longleftrightarrow> j < length (mask_bits m) \<and> bit b (mask_bits m ! j)"
proof -
  have "unpack b m =
      fst (fold (\<lambda>i st. ((if bit b i then fst st OR snd st else fst st), push_bit 1 (snd st)))
        (mask_bits m) (0, push_bit 0 (1 :: nat)))"
    by (simp add: unpack_def unpack_bit_def [abs_def] fold_if_filter mask_bits_def)
  then show ?thesis
    using bit_unpack_fold [of b "mask_bits m" 0 0 j] by simp
qed

lemma bit_pack_fold:
  "bit (fst (fold (\<lambda>i st. ((if odd (snd st) then fst st OR push_bit i 1 else fst st),
        drop_bit 1 (snd st))) ps (r, v :: nat))) n \<longleftrightarrow>
   bit (r :: nat) n \<or> (\<exists>j < length ps. ps ! j = n \<and> bit v j)"
proof (induction ps arbitrary: r v)
  case Nil
  show ?case by simp
next
  case (Cons p ps)
  let ?r = "if odd v then r OR push_bit p 1 else r"
  have r: "bit ?r n \<longleftrightarrow> bit r n \<or> (p = n \<and> bit v 0)"
    by (auto simp: bit_simps bit_0)
  have "bit (fst (fold (\<lambda>i st. ((if odd (snd st) then fst st OR push_bit i 1 else fst st),
        drop_bit 1 (snd st))) (p # ps) (r, v))) n \<longleftrightarrow>
      bit ?r n \<or> (\<exists>j < length ps. ps ! j = n \<and> bit (drop_bit 1 v) j)"
    by (simp only: fold_simps comp_def fst_conv snd_conv Cons.IH)
  with r show ?case
    by (auto simp: Ex_less_Suc2 bit_drop_bit_eq)
qed

lemma bit_pack:
  "bit (pack v m) n \<longleftrightarrow> (\<exists>j < length (mask_bits m). mask_bits m ! j = n \<and> bit v j)"
proof -
  have "fst (fold (pack_bit m) [0..<8] (0, v)) =
      fst (fold (\<lambda>i st. ((if odd (snd st) then fst st OR push_bit i 1 else fst st),
        drop_bit 1 (snd st))) (mask_bits m) (0, v))"
    by (simp add: pack_bit_def [abs_def] fold_if_filter mask_bits_def)
  moreover have "j < length (mask_bits m) \<Longrightarrow> mask_bits m ! j < 8" for j
    using mask_bits_less nth_mem by blast
  ultimately show ?thesis
    using bit_pack_fold [of "mask_bits m" 0 v n]
    by (auto simp: pack_def bit_of_nat_iff)
qed

lemma unpack_pack: "unpack (pack v m) m = take_bit (length (mask_bits m)) v"
proof (rule bit_eqI)
  fix j
  have "j < length (mask_bits m) \<Longrightarrow> i < length (mask_bits m) \<Longrightarrow>
      mask_bits m ! i = mask_bits m ! j \<longleftrightarrow> i = j" for i
    using mask_bits_distinct nth_eq_iff_index_eq by blast
  then show "bit (unpack (pack v m) m) j \<longleftrightarrow> bit (take_bit (length (mask_bits m)) v) j"
    by (auto simp: bit_unpack bit_pack bit_take_bit_iff)
qed

lemma unpack_max: "unpack m m = 2 ^ length (mask_bits m) - 1"
proof -
  have "unpack m m = mask (length (mask_bits m))"
    using mask_bits_less nth_mem by (intro bit_eqI) (auto simp: bit_unpack bit_mask_iff)
  then show ?thesis by (simp add: mask_eq_exp_minus_1)
qed

lemma unpack_le_max: "unpack b m \<le> unpack m m"
proof -
  have "take_bit (length (mask_bits m)) (unpack b m) = unpack b m"
    by (intro bit_eqI) (auto simp: bit_unpack bit_take_bit_iff)
  then have "unpack b m < 2 ^ length (mask_bits m)"
    using take_bit_nat_less_exp by metis
  then show ?thesis by (simp add: unpack_max)
qed

lemma unpack_less_256: "unpack b m < 256"
proof -
  have "unpack b m \<le> 2 ^ length (mask_bits m) - 1"
    using unpack_le_max [of b m] by (simp add: unpack_max)
  moreover have "(2 :: nat) ^ length (mask_bits m) \<le> 2 ^ 8"
    using length_mask_bits by (intro power_increasing) auto
  ultimately show ?thesis by simp
qed

lemma unpack_pack_le: "v \<le> unpack m m \<Longrightarrow> unpack (pack v m) m = v"
proof -
  assume "v \<le> unpack m m"
  then have "v < 2 ^ length (mask_bits m)"
    unfolding unpack_max by (metis Suc_diff_1 less_Suc_eq_le zero_less_numeral zero_less_power)
  then show ?thesis by (simp add: unpack_pack take_bit_nat_eq_self_iff)
qed

lemma pack_within: "pack v m AND NOT m = 0"
  using mask_bits_less nth_mem by (intro bit_word_eqI) (fastforce simp: bit_simps bit_pack)

lemma pack_disjoint: "b AND m = 0 \<Longrightarrow> pack v m AND b = 0"
proof (rule bit_word_eqI)
  fix n assume "b AND m = 0"
  then have "\<not> (bit b n \<and> bit m n)" by (metis bit_and_iff bit_0_eq bot_apply bot_bool_def)
  then show "bit (pack v m AND b) n \<longleftrightarrow> bit 0 n"
    using mask_bits_less nth_mem by (fastforce simp: bit_simps bit_pack)
qed

lemma unpack_or_disjoint: "b AND m = 0 \<Longrightarrow> unpack (b OR x) m = unpack x m"
proof (rule bit_eqI)
  fix j assume "b AND m = 0"
  then have "\<not> (bit b n \<and> bit m n)" for n by (metis bit_and_iff bit_0_eq bot_apply bot_bool_def)
  then show "bit (unpack (b OR x) m) j \<longleftrightarrow> bit (unpack x m) j"
    using mask_bits_less nth_mem by (fastforce simp: bit_simps bit_unpack)
qed

section \<open>Counting and folding octets\<close>

lemma octet_count_pos: "0 < octet_count n"
  by (subst octet_count.simps) simp

lemma less_pow_octet_count: "n < 256 ^ octet_count n"
proof (induction n rule: octet_count.induct)
  case (1 n)
  show ?case
  proof (cases "n div 256 = 0")
    case True
    then show ?thesis by (subst octet_count.simps) (simp add: drop_bit_eq_div)
  next
    case False
    with 1 have "n div 256 < 256 ^ octet_count (n div 256)" by (simp add: drop_bit_eq_div)
    then have "n < 256 ^ octet_count (n div 256) * 256" by (simp add: div_less_iff_less_mult)
    with False show ?thesis
      by (subst octet_count.simps) (simp add: drop_bit_eq_div mult.commute)
  qed
qed

lemma octet_count_minimal: "1 < octet_count n \<Longrightarrow> 256 ^ (octet_count n - 1) \<le> n"
proof (induction n rule: octet_count.induct)
  case (1 n)
  from 1(2) have nz: "n div 256 \<noteq> 0"
    by (subst (asm) octet_count.simps) (auto simp: drop_bit_eq_div split: if_splits)
  then have c: "octet_count n = 1 + octet_count (n div 256)"
    by (subst octet_count.simps) (simp add: drop_bit_eq_div)
  show ?case
  proof (cases "1 < octet_count (n div 256)")
    case True
    with 1(1) nz have "256 ^ (octet_count (n div 256) - 1) \<le> n div 256"
      by (simp add: drop_bit_eq_div)
    then have "256 ^ (octet_count (n div 256) - 1) * 256 \<le> n"
      by (simp add: less_eq_div_iff_mult_less_eq)
    moreover have "(256 :: nat) ^ octet_count (n div 256) = 256 ^ (octet_count (n div 256) - 1) * 256"
      using True by (metis Suc_diff_1 less_trans power_Suc2 zero_less_one)
    ultimately show ?thesis by (simp add: c)
  next
    case False
    then have "octet_count (n div 256) = 1" using octet_count_pos [of "n div 256"] by linarith
    with nz show ?thesis by (simp add: c)
  qed
qed

lemma octet_count_le:
  assumes "n < 256 ^ k" "0 < k"
  shows "octet_count n \<le> k"
proof (rule ccontr)
  assume "\<not> octet_count n \<le> k"
  then have "1 < octet_count n" and le: "k \<le> octet_count n - 1" using assms by auto
  then have "256 ^ (octet_count n - 1) \<le> n" by (intro octet_count_minimal)
  moreover have "(256 :: nat) ^ k \<le> 256 ^ (octet_count n - 1)" using le by (intro power_increasing) auto
  ultimately show False using assms by linarith
qed

lemma octet_count_le_8: "n \<le> TLV_SIZE_MAX \<Longrightarrow> octet_count n \<le> 8"
  by (rule octet_count_le) (auto simp: TLV_SIZE_MAX_def)

lemma push_octet_nat: "push_bit 8 v OR unat (b :: u8) = v * 256 + unat b"
proof -
  have "bit (unat b) n \<Longrightarrow> n < 8" for n
    using bit_imp_le_length [of b n] by (simp add: bit_unsigned_iff)
  then have "push_bit 8 v OR unat b = push_bit 8 v + unat b"
    by (intro disjunctive_add [symmetric]) (fastforce simp: bit_push_bit_iff)
  then show ?thesis by (simp add: push_bit_eq_mult)
qed

lemma fold_octets_ge: "v \<le> fold (\<lambda>b r. r * 256 + unat b) bs (v :: nat)"
proof (induction bs arbitrary: v)
  case Nil
  show ?case by simp
next
  case (Cons b bs)
  have "v \<le> v * 256 + unat b" by simp
  also have "\<dots> \<le> fold (\<lambda>b r. r * 256 + unat b) bs (v * 256 + unat b)" by (rule Cons.IH)
  finally show ?case by simp
qed

lemma length_fold_eq:
  assumes "v \<le> TLV_SIZE_MAX"
  shows "length_fold bs v =
    (let r = fold (\<lambda>b r. r * 256 + unat b) bs v in if r \<le> TLV_SIZE_MAX then Some r else None)"
  using assms
proof (induction bs arbitrary: v)
  case Nil
  then show ?case by simp
next
  case (Cons b bs)
  let ?v = "v * 256 + unat b"
  show ?case
  proof (cases "v > TLV_SIZE_MAX div 256")
    case True
    then have "?v > TLV_SIZE_MAX" by (simp add: TLV_SIZE_MAX_def)
    then have "fold (\<lambda>b r. r * 256 + unat b) bs ?v > TLV_SIZE_MAX"
      using fold_octets_ge [of ?v bs] by linarith
    with True show ?thesis by simp
  next
    case False
    then have "?v \<le> TLV_SIZE_MAX" using unat_u8_less [of b] by (simp add: TLV_SIZE_MAX_def)
    with Cons.IH False show ?thesis by (simp add: push_octet_nat)
  qed
qed

lemma length_fold_0: "length_fold bs 0 = (if be_val bs \<le> TLV_SIZE_MAX then Some (be_val bs) else None)"
  by (simp add: length_fold_eq be_val_def)

section \<open>Counts: what is written is read back\<close>

definition variable_len_long :: "tlv_variable_length_t \<Rightarrow> nat \<Rightarrow> bool" where
  "variable_len_long c l \<longleftrightarrow>
     l > unpack (vl_payload_mask c) (vl_payload_mask c) \<or>
     (\<exists>p. vl_policy c = Some p \<and> lp_allow_short p = 0)"

definition variable_len_ok :: "tlv_variable_length_t \<Rightarrow> nat \<Rightarrow> bool" where
  "variable_len_ok c l \<longleftrightarrow>
     length_validate c = TLV_OK \<and> l \<le> TLV_SIZE_MAX \<and>
     (\<forall>p. vl_policy c = Some p \<longrightarrow> l \<le> lp_max_value p) \<and>
     (variable_len_long c l \<longrightarrow>
        octet_count l \<le> unpack (vl_payload_mask c) (vl_payload_mask c) \<and>
        (\<forall>p. vl_policy c = Some p \<longrightarrow> lp_allow_long p \<noteq> 0 \<and> octet_count l \<le> lp_max_long_octets p))"

definition variable_len_enc :: "tlv_variable_length_t \<Rightarrow> nat \<Rightarrow> u8 list" where
  "variable_len_enc c l =
     (if variable_len_long c l
      then (vl_long_form_bit c OR pack (octet_count l) (vl_payload_mask c)) #
           uint_of (vl_byte_order c) (octet_count l) l
      else [pack l (vl_payload_mask c)])"

lemma variable_len_long_code:
  "(l > unpack (vl_payload_mask c) (vl_payload_mask c) \<or>
    (case vl_policy c of None \<Rightarrow> False | Some p \<Rightarrow> lp_allow_short p = 0)) \<longleftrightarrow> variable_len_long c l"
  by (auto simp: variable_len_long_def split: option.splits)

lemma variable_length_write_OK_iff:
  "l \<le> TLV_SIZE_MAX \<Longrightarrow>
   fst (tlv_variable_length_write (Some c) l None 0 True) = TLV_OK \<longleftrightarrow> variable_len_ok c l"
  unfolding tlv_variable_length_write_def variable_len_long_code Let_def variable_len_ok_def
  by (auto split: option.splits)

lemma variable_length_write_query:
  "variable_len_ok c l \<Longrightarrow>
   tlv_variable_length_write (Some c) l None 0 True =
     (TLV_OK, None, Some (length (variable_len_enc c l)))"
  unfolding tlv_variable_length_write_def variable_len_long_code Let_def variable_len_ok_def
    variable_len_enc_def
  by (auto split: option.splits)

lemma variable_length_write:
  assumes ok: "variable_len_ok c l"
    and cap: "length (variable_len_enc c l) \<le> cap" "cap \<le> length buf"
  shows "tlv_variable_length_write (Some c) l (Some buf) cap True =
           (TLV_OK, Some (blit 0 (variable_len_enc c l) buf), Some (length (variable_len_enc c l)))"
proof (cases "variable_len_long c l")
  case False
  with ok cap show ?thesis
    unfolding tlv_variable_length_write_def variable_len_long_code Let_def variable_len_ok_def
      variable_len_enc_def
    by (auto split: option.splits)
next
  case True
  let ?n = "octet_count l" and ?h = "vl_long_form_bit c OR pack (octet_count l) (vl_payload_mask c)"
  from ok have o: "known_order (vl_byte_order c)"
    by (auto simp: variable_len_ok_def length_validate_def split: if_splits)
  have n: "0 < ?n" "?n \<le> 8"
    using ok octet_count_pos octet_count_le_8 by (auto simp: variable_len_ok_def)
  have l: "unat (of_nat l :: u64) = l"
    using ok by (intro of_nat_unat_u64) (auto simp: variable_len_ok_def TLV_SIZE_MAX_def)
  have len: "?n \<le> length (drop 1 (blit 0 [?h] buf))"
    using True cap by (simp add: variable_len_enc_def blit_def)
  have "tlv_write_uint (Some (drop 1 (blit 0 [?h] buf))) ?n (vl_byte_order c) (of_nat l) =
      (TLV_OK, Some (uint_of (vl_byte_order c) ?n l @ drop ?n (drop 1 (blit 0 [?h] buf))))"
    using tlv_write_uint_OK [OF len n o] less_pow_octet_count l by simp
  moreover have "cap \<ge> ?n + 1" using True cap by (simp add: variable_len_enc_def)
  ultimately show ?thesis
    using True ok n(1)
    unfolding tlv_variable_length_write_def variable_len_long_code Let_def variable_len_ok_def
      variable_len_enc_def
    by (auto simp: blit_def split: option.splits)
qed

lemma map_long_octets:
  assumes "readable p (count + 1)"
  shows "map (\<lambda>i. byte_at p (if order = TLV_BYTE_ORDER_BIG_ENDIAN then i + 1 else count - i)) [0..<count] =
    (if order = TLV_BYTE_ORDER_BIG_ENDIAN then take count (drop 1 (bytes p))
     else rev (take count (drop 1 (bytes p))))"
  using assms
  by (intro nth_equalityI) (auto simp: byte_at_def readable_def rev_nth Suc_diff_Suc)

lemma and_not_or:
  assumes "b AND NOT m = (0 :: u8)"
  shows "b AND NOT (x OR m) = 0"
proof (rule bit_word_eqI)
  fix n
  have "\<not> bit (b AND NOT m) n" using assms by simp
  then show "n < LENGTH(8) \<Longrightarrow> bit (b AND NOT (x OR m)) n \<longleftrightarrow> bit 0 n"
    by (auto simp: bit_simps)
qed

lemma long_header:
  assumes "(x :: u8) \<noteq> 0"
  shows "(x OR pack v m) AND NOT (x OR m) = 0" "(x OR pack v m) AND x \<noteq> 0"
proof -
  have "(x OR pack v m) AND NOT (x OR m) = pack v m AND NOT (x OR m)"
    by (rule bit_word_eqI) (auto simp: bit_simps)
  then show "(x OR pack v m) AND NOT (x OR m) = 0"
    by (simp only: and_not_or [OF pack_within])
  have "(x OR pack v m) AND x = x"
    by (rule bit_word_eqI) (auto simp: bit_simps)
  with assms show "(x OR pack v m) AND x \<noteq> 0" by simp
qed

lemma length_validate_bits:
  assumes "length_validate c = TLV_OK"
  shows "vl_long_form_bit c \<noteq> 0" "vl_long_form_bit c AND vl_payload_mask c = 0"
    "known_order (vl_byte_order c)"
  using assms by (auto simp: length_validate_def single_bit_def split: if_splits)

lemma variable_length_read_short:
  assumes "variable_len_ok c l" "\<not> variable_len_long c l" "1 \<le> n"
  shows "tlv_variable_length_read (Some c) (Ptr a (pack l (vl_payload_mask c) # rest)) n True =
           (TLV_OK, Some l, Some 1)"
proof -
  let ?m = "vl_payload_mask c" and ?x = "vl_long_form_bit c"
  from assms have v: "length_validate c = TLV_OK" and le: "l \<le> unpack ?m ?m"
    by (auto simp: variable_len_ok_def variable_len_long_def)
  have "pack l ?m AND NOT (?x OR ?m) = 0" by (rule and_not_or [OF pack_within])
  moreover have "pack l ?m AND ?x = 0" by (rule pack_disjoint [OF length_validate_bits(2) [OF v]])
  moreover have "unpack (pack l ?m) ?m = l" by (rule unpack_pack_le [OF le])
  moreover have "\<not> (case vl_policy c of None \<Rightarrow> False
                    | Some p \<Rightarrow> lp_allow_short p = 0 \<or> l > lp_max_value p)"
    using assms by (auto simp: variable_len_ok_def variable_len_long_def split: option.splits)
  ultimately show ?thesis
    using v assms(3) by (simp add: tlv_variable_length_read_def Let_def)
qed

lemma be_of_head_nonzero:
  assumes "1 < octet_count l"
  shows "be_of (octet_count l) l ! 0 \<noteq> 0"
proof -
  obtain k where k: "octet_count l = Suc k" using assms by (cases "octet_count l") auto
  have "256 ^ k \<le> l" using octet_count_minimal [OF assms] by (simp add: k)
  then have "l div 256 ^ k \<noteq> 0" by (simp add: div_eq_0_iff)
  moreover have "l div 256 ^ k < 256"
    using less_pow_octet_count [of l] by (simp add: k div_less_iff_less_mult)
  ultimately have "(of_nat (l div 256 ^ k) :: u8) \<noteq> 0"
    by (simp add: word_unat_eq_iff unat_of_nat)
  then show ?thesis by (simp add: k be_of_Suc_Cons del: be_of.simps)
qed

lemma uint_of_msb:
  assumes "0 < n"
  shows "uint_of order n v ! (if order = TLV_BYTE_ORDER_BIG_ENDIAN then 0 else n - 1) = be_of n v ! 0"
  using assms by (auto simp: uint_of_def rev_nth)

lemma variable_length_read_long:
  assumes ok: "variable_len_ok c l" and long: "variable_len_long c l"
    and n: "length (variable_len_enc c l) \<le> n"
      "n \<le> length (variable_len_enc c l) + length rest"
  shows "tlv_variable_length_read (Some c) (Ptr a (variable_len_enc c l @ rest)) n True =
           (TLV_OK, Some l, Some (length (variable_len_enc c l)))"
proof -
  let ?m = "vl_payload_mask c" and ?x = "vl_long_form_bit c" and ?k = "octet_count l"
  let ?p = "Ptr a (variable_len_enc c l @ rest)" and ?big = "vl_byte_order c = TLV_BYTE_ORDER_BIG_ENDIAN"
  from ok have v: "length_validate c = TLV_OK" and le: "?k \<le> unpack ?m ?m"
    using long by (auto simp: variable_len_ok_def)
  note bits = length_validate_bits [OF v]
  have k: "0 < ?k" by (rule octet_count_pos)
  have enc: "variable_len_enc c l = (?x OR pack ?k ?m) # uint_of (vl_byte_order c) ?k l"
    using long by (simp add: variable_len_enc_def)
  have h: "byte_at ?p 0 = ?x OR pack ?k ?m" by (simp add: enc)
  have cnt: "unpack (byte_at ?p 0) ?m = ?k"
    unfolding h unpack_or_disjoint [OF bits(2)] by (rule unpack_pack_le [OF le])
  have "readable ?p (?k + 1)" by (simp add: enc)
  then have "map (\<lambda>i. byte_at ?p (if ?big then i + 1 else ?k - i)) [0..<?k] = be_of ?k l"
    by (subst map_long_octets) (auto simp: enc uint_of_def)
  then have fold: "length_fold (map (\<lambda>i. byte_at ?p (if ?big then i + 1 else ?k - i)) [0..<?k]) 0 = Some l"
    using ok less_pow_octet_count [of l] by (simp add: length_fold_0 variable_len_ok_def)
  have msb: "byte_at ?p (if ?big then 1 else ?k) = be_of ?k l ! 0"
    using uint_of_msb [OF k, of "vl_byte_order c" l] k by (auto simp: enc nth_append nth_Cons')
  have pol1: "\<not> (case vl_policy c of None \<Rightarrow> False
                 | Some p \<Rightarrow> lp_allow_long p = 0 \<or> ?k > lp_max_long_octets p)"
    using ok long by (auto simp: variable_len_ok_def split: option.splits)
  have pol2: "\<not> (case vl_policy c of None \<Rightarrow> False
      | Some p \<Rightarrow> l > lp_max_value p \<or>
          (lp_require_minimal p \<noteq> 0 \<and> ((lp_allow_short p \<noteq> 0 \<and> l \<le> unpack ?m ?m) \<or>
             (?k > 1 \<and> byte_at ?p (if ?big then 1 else ?k) = 0))))"
    using ok long be_of_head_nonzero [of l] unfolding msb
    by (auto simp: variable_len_ok_def variable_len_long_def split: option.splits)
  have nn: "?k < n" using n(1) by (simp add: enc)
  show ?thesis
    unfolding tlv_variable_length_read_def Let_def cnt option.case fold
    using v nn k pol1 pol2 long_header [OF bits(1), of ?k ?m]
    by (simp add: h enc)
qed

lemma variable_length_read:
  assumes "variable_len_ok c l" "length (variable_len_enc c l) \<le> n"
    "n \<le> length (variable_len_enc c l) + length rest"
  shows "tlv_variable_length_read (Some c) (Ptr a (variable_len_enc c l @ rest)) n True =
           (TLV_OK, Some l, Some (length (variable_len_enc c l)))"
proof (cases "variable_len_long c l")
  case True
  show ?thesis by (rule variable_length_read_long [OF assms(1) True assms(2,3)])
next
  case False
  with assms variable_length_read_short [of c l n a rest] show ?thesis
    by (simp add: variable_len_enc_def)
qed

text \<open>A successful read of a count is stable under more input and truncated under less.\<close>

definition length_value_ok :: "tlv_variable_length_t \<Rightarrow> ptr \<Rightarrow> nat \<Rightarrow> nat \<Rightarrow> bool" where
  "length_value_ok c p count v \<longleftrightarrow>
     \<not> (case vl_policy c of None \<Rightarrow> False
        | Some q \<Rightarrow> v > lp_max_value q \<or>
            (lp_require_minimal q \<noteq> 0 \<and>
             ((lp_allow_short q \<noteq> 0 \<and> v \<le> unpack (vl_payload_mask c) (vl_payload_mask c)) \<or>
              (count > 1 \<and>
               byte_at p (if vl_byte_order c = TLV_BYTE_ORDER_BIG_ENDIAN then 1 else count) = 0))))"

lemma variable_length_read_inv:
  assumes r: "readable p n" and rd: "tlv_variable_length_read (Some c) p n True = (TLV_OK, ol, oc)"
  obtains l k where "ol = Some l" "oc = Some k" "0 < k" "k \<le> n" "l \<le> TLV_SIZE_MAX"
    "\<And>m. k \<le> m \<Longrightarrow> tlv_variable_length_read (Some c) p m True = (TLV_OK, ol, oc)"
    "\<And>m. m < k \<Longrightarrow> fst (tlv_variable_length_read (Some c) p m True) = TLV_ERR_TRUNCATED"
proof -
  let ?count = "unpack (byte_at p 0) (vl_payload_mask c)"
  let ?os = "map (\<lambda>i. byte_at p (if vl_byte_order c = TLV_BYTE_ORDER_BIG_ENDIAN then i + 1
                               else ?count - i)) [0..<?count]"
  from rd have v: "length_validate c = TLV_OK" and n: "0 < n"
    and resv: "byte_at p 0 AND NOT (vl_long_form_bit c OR vl_payload_mask c) = 0"
    by (auto simp: tlv_variable_length_read_def Let_def split: if_splits)
  have nz: "p \<noteq> Null" using r n by auto
  show thesis
  proof (cases "byte_at p 0 AND vl_long_form_bit c = 0")
    case True
    have "?count \<le> TLV_SIZE_MAX"
      using unpack_less_256 [of "byte_at p 0" "vl_payload_mask c"] by (simp add: TLV_SIZE_MAX_def)
    with True rd v n nz resv show thesis
      by (intro that [of ?count 1])
        (auto simp: tlv_variable_length_read_def Let_def split: if_splits)
  next
    case False
    have count: "?count \<noteq> 0" "?count < n"
      and pol: "\<not> (case vl_policy c of None \<Rightarrow> False
                   | Some p \<Rightarrow> lp_allow_long p = 0 \<or> ?count > lp_max_long_octets p)"
      using rd False v n nz resv
      by (auto simp: tlv_variable_length_read_def Let_def split: if_splits)
    have long: "tlv_variable_length_read (Some c) p m True =
        (if ?count \<ge> m then (TLV_ERR_TRUNCATED, None, Some m)
         else case length_fold ?os 0 of
                None \<Rightarrow> ((if vl_policy c \<noteq> None then TLV_ERR_INVALID_LENGTH else TLV_ERR_OVERFLOW),
                         None, Some (?count + 1))
              | Some v \<Rightarrow> if length_value_ok c p ?count v then (TLV_OK, Some v, Some (?count + 1))
                         else (TLV_ERR_INVALID_LENGTH, None, Some (?count + 1)))" for m
      using False v nz resv count(1) pol
      by (auto simp: tlv_variable_length_read_def Let_def length_value_ok_def
          split: if_splits option.splits)
    obtain l where l: "length_fold ?os 0 = Some l" and ok: "length_value_ok c p ?count l"
      and ol: "ol = Some l" and oc: "oc = Some (?count + 1)"
      using rd count unfolding long by (auto split: option.splits if_splits)
    have "l \<le> TLV_SIZE_MAX" using l by (simp add: length_fold_0 split: if_splits)
    then show thesis
      using count by (intro that [of l "?count + 1"]) (auto simp: long l ok ol oc)
  qed
qed

section \<open>Identifiers: reading depends on the consumed octets only\<close>

lemma identifier_scan_bounds:
  "identifier_scan c count xs = (TLV_OK, oc, k) \<Longrightarrow> oc = None \<and> count < k \<and> k \<le> count + length xs"
proof (induction c count xs rule: identifier_scan.induct)
  case (1 c count)
  then show ?case by (auto split: if_splits)
next
  case (2 c count octet rest)
  then show ?case by (fastforce split: if_splits)
qed

lemma identifier_scan_stable:
  "identifier_scan c count xs = (TLV_OK, oc, k) \<Longrightarrow> take (k - count) ys = take (k - count) xs \<Longrightarrow>
   identifier_scan c count ys = (TLV_OK, oc, k)"
proof (induction c count xs arbitrary: ys rule: identifier_scan.induct)
  case (1 c count)
  then show ?case by (auto split: if_splits)
next
  case (2 c count octet rest)
  from identifier_scan_bounds [OF 2(2)] have k: "k - count = Suc (k - Suc count)"
    by (simp add: Suc_diff_Suc)
  with 2(3) obtain ys' where ys: "ys = octet # ys'" "take (k - Suc count) ys' = take (k - Suc count) rest"
    by (cases ys) auto
  show ?case
    using 2(2) by (auto simp: ys(1) split: if_splits intro: 2(1) [simplified] ys(2))
qed

lemma identifier_scan_short:
  "identifier_scan c count xs = (TLV_OK, oc, k) \<Longrightarrow> j < k - count \<Longrightarrow>
   fst (identifier_scan c count (take j xs)) = TLV_ERR_TRUNCATED"
proof (induction c count xs arbitrary: j rule: identifier_scan.induct)
  case (1 c count)
  then show ?case by (auto split: if_splits)
next
  case (2 c count octet rest)
  show ?case
  proof (cases j)
    case 0
    with 2(2) show ?thesis by (auto split: if_splits)
  next
    case (Suc i)
    with 2 show ?thesis by (auto split: if_splits)
  qed
qed

text \<open>The number of octets of the identifier, or the error of the continuation loop.\<close>

definition identifier_extent ::
  "tlv_variable_identifier_t \<Rightarrow> ptr \<Rightarrow> nat \<Rightarrow> tlv_result_t \<times> nat option \<times> nat" where
  "identifier_extent c p n =
     (if byte_at p 0 AND vi_inline_mask c = vi_escape c
      then identifier_scan c 1 (drop 1 (take n (bytes p))) else (TLV_OK, None, 1))"

lemma identifier_read_nonempty:
  assumes "p \<noteq> Null" "0 < n"
  shows "tlv_variable_identifier_read (Some c) p n True =
    (if identifier_validate c \<noteq> TLV_OK then (identifier_validate c, None, None)
     else if identifier_prefix c p n \<noteq> TLV_OK then (identifier_prefix c p n, None, None)
     else case identifier_extent c p n of
            (rc, consumed, count) \<Rightarrow>
              if rc \<noteq> TLV_OK then (rc, None, consumed)
              else if \<not> identifier_minimal c p count then (TLV_ERR_INVALID_TAG, None, None)
              else (TLV_OK, Some (tlv_tag p count), Some count))"
  using assms by (simp add: tlv_variable_identifier_read_def Let_def identifier_extent_def)

lemma identifier_extent_bounds:
  assumes "identifier_extent c p n = (TLV_OK, oc, k)" "readable p n" "0 < n"
  shows "oc = None \<and> 0 < k \<and> k \<le> n \<and> (1 < k \<longrightarrow> byte_at p 0 AND vi_inline_mask c = vi_escape c)"
  using assms identifier_scan_bounds [of c 1 "drop 1 (take n (bytes p))" oc k]
  by (auto simp: identifier_extent_def readable_def split: if_splits)

lemma nth_eq_if_take_eq: "take k xs = take k ys \<Longrightarrow> i < k \<Longrightarrow> xs ! i = ys ! i"
  by (metis nth_take)

lemma identifier_extent_stable:
  assumes "identifier_extent c p n = (TLV_OK, oc, k)" "readable p n" "0 < n"
    and "readable q m" "k \<le> m" "take k (bytes q) = take k (bytes p)"
  shows "identifier_extent c q m = (TLV_OK, oc, k)"
proof -
  from identifier_extent_bounds [OF assms(1-3)] have k: "0 < k" "k \<le> n" by auto
  have b: "byte_at q 0 = byte_at p 0"
    unfolding byte_at_def by (rule nth_eq_if_take_eq [OF assms(6) k(1)])
  have "take (k - 1) (drop 1 (take m (bytes q))) = drop 1 (take k (bytes q))"
    using assms(5) k(1) by (simp add: take_drop)
  also have "\<dots> = take (k - 1) (drop 1 (take n (bytes p)))"
    using k by (simp add: assms(6) take_drop)
  finally show ?thesis
    using assms(1) identifier_scan_stable [of c 1 "drop 1 (take n (bytes p))" oc k]
    by (simp add: identifier_extent_def b split: if_splits)
qed

lemma identifier_extent_short:
  assumes "identifier_extent c p n = (TLV_OK, oc, k)" "readable p n" "0 < m" "m < k" "k \<le> n"
  shows "fst (identifier_extent c p m) = TLV_ERR_TRUNCATED"
proof -
  have "drop 1 (take m (bytes p)) = take (m - 1) (drop 1 (take n (bytes p)))"
    using assms by (simp add: take_drop)
  then show ?thesis
    using assms identifier_scan_short [of c 1 "drop 1 (take n (bytes p))" oc k "m - 1"]
    by (auto simp: identifier_extent_def split: if_splits)
qed

lemma identifier_minimal_cong:
  assumes "take k (bytes q) = take k (bytes p)"
  shows "identifier_minimal c q k = identifier_minimal c p k"
  using assms nth_eq_if_take_eq [OF assms, of 1]
  by (auto simp: identifier_minimal_def byte_at_def Let_def split: option.splits)

text \<open>Once the identifier is recognised, its prefix check passes with the octets it has.\<close>

lemma identifier_prefix_stable:
  assumes "identifier_prefix c p n = TLV_OK" "0 < k" "take k (bytes q) = take k (bytes p)" "k \<le> n"
    and "1 < k \<or> byte_at p 0 AND vi_inline_mask c \<noteq> vi_escape c"
  shows "identifier_prefix c q m = TLV_OK"
proof -
  have b: "byte_at q 0 = byte_at p 0"
    unfolding byte_at_def by (rule nth_eq_if_take_eq [OF assms(3,2)])
  have b1: "1 < k \<Longrightarrow> byte_at q 1 = byte_at p 1"
    unfolding byte_at_def by (rule nth_eq_if_take_eq [OF assms(3)])
  show ?thesis
    using assms b b1 by (auto simp: identifier_prefix_def split: option.splits if_splits)
qed

lemma variable_tag_read_inv:
  assumes r: "readable p n" and rd: "tlv_variable_identifier_read (Some c) p n True = (TLV_OK, ot, oc)"
  obtains k where "0 < k" "k \<le> n" "ot = Some (tlv_tag p k)" "oc = Some k"
    "\<And>q m. readable q m \<Longrightarrow> k \<le> m \<Longrightarrow> take k (bytes q) = take k (bytes p) \<Longrightarrow>
       tlv_variable_identifier_read (Some c) q m True = (TLV_OK, Some (tlv_tag q k), Some k)"
    "\<And>m. m < k \<Longrightarrow> fst (tlv_variable_identifier_read (Some c) p m True) = TLV_ERR_TRUNCATED"
proof -
  from rd have n: "0 < n" by (auto simp: tlv_variable_identifier_read_def Let_def split: if_splits)
  with r have nz: "p \<noteq> Null" by auto
  from rd [unfolded identifier_read_nonempty [OF nz n]] obtain oc' k
    where v: "identifier_validate c = TLV_OK" and pre: "identifier_prefix c p n = TLV_OK"
      and ext: "identifier_extent c p n = (TLV_OK, oc', k)" and min: "identifier_minimal c p k"
      and out: "ot = Some (tlv_tag p k)" "oc = Some k"
    by (auto split: if_splits prod.splits)
  from identifier_extent_bounds [OF ext r n] have k: "0 < k" "k \<le> n" by auto
  have esc: "1 < k \<or> byte_at p 0 AND vi_inline_mask c \<noteq> vi_escape c"
    using ext identifier_scan_bounds [of c 1 "drop 1 (take n (bytes p))" oc' k]
    by (auto simp: identifier_extent_def split: if_splits)
  have stable: "tlv_variable_identifier_read (Some c) q m True = (TLV_OK, Some (tlv_tag q k), Some k)"
    if q: "readable q m" "k \<le> m" "take k (bytes q) = take k (bytes p)" for q m
  proof -
    have m: "0 < m" "q \<noteq> Null" using k q by auto
    show ?thesis
      unfolding identifier_read_nonempty [OF m(2,1)]
      using v min identifier_prefix_stable [OF pre k(1) q(3) k(2) esc]
        identifier_extent_stable [OF ext r n q] identifier_minimal_cong [OF q(3)]
      by simp
  qed
  have short: "fst (tlv_variable_identifier_read (Some c) p m True) = TLV_ERR_TRUNCATED" if m: "m < k" for m
  proof (cases "m = 0")
    case True
    with nz v show ?thesis
      by (auto simp: tlv_variable_identifier_read_def identifier_prefix_def split: option.splits)
  next
    case False
    then have "fst (identifier_extent c p m) = TLV_ERR_TRUNCATED"
      using identifier_extent_short [OF ext r _ m k(2)] by simp
    with False v nz identifier_prefix_stable [OF pre k(1) refl k(2) esc] show ?thesis
      by (auto simp: identifier_read_nonempty split: prod.splits)
  qed
  show thesis using that [OF k out stable short] .
qed

text \<open>The writer accepts exactly the identifiers the reader recognises whole.\<close>

lemma variable_tag_write_OK:
  assumes wf: "tag_wf t" and ok: "fst (tlv_variable_identifier_write (Some c) (Some t) None 0 True) = TLV_OK"
  shows "0 < tag_size t"
    and "tlv_variable_identifier_read (Some c) (tag_data t) (tag_size t) True =
           (TLV_OK, Some (tlv_tag (tag_data t) (tag_size t)), Some (tag_size t))"
    and "tlv_variable_identifier_write (Some c) (Some t) None 0 True = (TLV_OK, None, Some (tag_size t))"
    and "tag_size t \<le> cap \<Longrightarrow> tlv_variable_identifier_write (Some c) (Some t) (Some buf) cap True =
           (TLV_OK, Some (blit 0 (tag_bytes t) buf), Some (tag_size t))"
proof -
  have r: "readable (tag_data t) (tag_size t)" using wf by (simp add: tag_wf_def)
  obtain rc ot oc where rd: "tlv_variable_identifier_read (Some c) (tag_data t) (tag_size t) True = (rc, ot, oc)"
    by (metis prod_cases3)
  from ok show n: "0 < tag_size t"
    by (auto simp: tlv_variable_identifier_write_def Let_def split: if_splits)
  with r have nz: "tag_data t \<noteq> Null" by auto
  from ok rd have "rc = TLV_OK" "out oc 0 = tag_size t"
    by (auto simp: tlv_variable_identifier_write_def Let_def split: if_splits)
  with rd variable_tag_read_inv [OF r] obtain
    "rc = TLV_OK" "ot = Some (tlv_tag (tag_data t) (tag_size t))" "oc = Some (tag_size t)"
    by (metis out_Some)
  with rd show rd': "tlv_variable_identifier_read (Some c) (tag_data t) (tag_size t) True =
      (TLV_OK, Some (tlv_tag (tag_data t) (tag_size t)), Some (tag_size t))" by simp
  from ok rd' nz show "tlv_variable_identifier_write (Some c) (Some t) None 0 True =
      (TLV_OK, None, Some (tag_size t))"
    by (auto simp: tlv_variable_identifier_write_def Let_def split: if_splits)
  from ok rd' nz show "tag_size t \<le> cap \<Longrightarrow>
      tlv_variable_identifier_write (Some c) (Some t) (Some buf) cap True =
      (TLV_OK, Some (blit 0 (tag_bytes t) buf), Some (tag_size t))"
    by (auto simp: tlv_variable_identifier_write_def Let_def tag_bytes_def split: if_splits)
qed

section \<open>The field contract\<close>

interpretation variable_id: tag_codec
  "\<lambda>p n. tlv_variable_identifier_read (Some c) p n True"
  "\<lambda>t d cap. tlv_variable_identifier_write (Some c) (Some t) d cap True" for c
proof unfold_locales
  fix p n ot oc
  assume r: "readable p n" "tlv_variable_identifier_read (Some c) p n True = (TLV_OK, ot, oc)"
  show "\<exists>k. 0 < k \<and> k \<le> n \<and> ot = Some (tlv_tag p k) \<and> oc = Some k \<and>
      (\<forall>m. readable p m \<longrightarrow> k \<le> m \<longrightarrow> tlv_variable_identifier_read (Some c) p m True = (TLV_OK, ot, oc)) \<and>
      (\<forall>m. m < k \<longrightarrow> fst (tlv_variable_identifier_read (Some c) p m True) = TLV_ERR_TRUNCATED)"
  proof (rule variable_tag_read_inv [OF r])
    fix k
    assume "0 < k" "k \<le> n" "ot = Some (tlv_tag p k)" "oc = Some k"
      "\<And>q m. readable q m \<Longrightarrow> k \<le> m \<Longrightarrow> take k (bytes q) = take k (bytes p) \<Longrightarrow>
         tlv_variable_identifier_read (Some c) q m True = (TLV_OK, Some (tlv_tag q k), Some k)"
      "\<And>m. m < k \<Longrightarrow> fst (tlv_variable_identifier_read (Some c) p m True) = TLV_ERR_TRUNCATED"
    then show ?thesis by (intro exI [of _ k]) simp
  qed
next
  fix t assume t: "tag_wf t" "fst (tlv_variable_identifier_write (Some c) (Some t) None 0 True) = TLV_OK"
  note W = variable_tag_write_OK [OF t]
  from W show "0 < tag_size t \<and>
      tlv_variable_identifier_write (Some c) (Some t) None 0 True = (TLV_OK, None, Some (tag_size t))"
    by simp
  show "tlv_variable_identifier_write (Some c) (Some t) (Some buf) cap True =
      (TLV_OK, Some (blit 0 (tag_bytes t) buf), Some (tag_size t))"
    if "tag_size t \<le> cap" "cap \<le> length buf" for cap buf
    by (rule W(4) [OF that(1)])
  show "tlv_variable_identifier_read (Some c) q n True =
      (TLV_OK, Some (tlv_tag q (tag_size t)), Some (tag_size t))"
    if b: "tag_size t \<le> n" "readable q n" "take (tag_size t) (bytes q) = tag_bytes t" for n q
  proof (rule variable_tag_read_inv [OF _ W(2)])
    show "readable (tag_data t) (tag_size t)" using t by (simp add: tag_wf_def)
    fix k
    assume "Some (tag_size t) = Some k"
      "\<And>q m. readable q m \<Longrightarrow> k \<le> m \<Longrightarrow> take k (bytes q) = take k (bytes (tag_data t)) \<Longrightarrow>
         tlv_variable_identifier_read (Some c) q m True = (TLV_OK, Some (tlv_tag q k), Some k)"
    with b show ?thesis by (simp add: tag_bytes_def)
  qed
qed

lemma variable_len_enc_ne: "variable_len_enc c l \<noteq> []"
  by (simp add: variable_len_enc_def)

interpretation variable_len: length_codec
  "\<lambda>p n. tlv_variable_length_read (Some c) p n True"
  "\<lambda>l d cap. tlv_variable_length_write (Some c) l d cap True" "variable_len_enc c" for c
proof unfold_locales
  fix p n ol oc
  assume r: "readable p n" "tlv_variable_length_read (Some c) p n True = (TLV_OK, ol, oc)"
  show "\<exists>l k. 0 < k \<and> k \<le> n \<and> l \<le> TLV_SIZE_MAX \<and> ol = Some l \<and> oc = Some k \<and>
      (\<forall>m. readable p m \<longrightarrow> k \<le> m \<longrightarrow> tlv_variable_length_read (Some c) p m True = (TLV_OK, ol, oc)) \<and>
      (\<forall>m. m < k \<longrightarrow> fst (tlv_variable_length_read (Some c) p m True) = TLV_ERR_TRUNCATED)"
  proof (rule variable_length_read_inv [OF r])
    fix l k
    assume "ol = Some l" "oc = Some k" "0 < k" "k \<le> n" "l \<le> TLV_SIZE_MAX"
      "\<And>m. k \<le> m \<Longrightarrow> tlv_variable_length_read (Some c) p m True = (TLV_OK, ol, oc)"
      "\<And>m. m < k \<Longrightarrow> fst (tlv_variable_length_read (Some c) p m True) = TLV_ERR_TRUNCATED"
    then show ?thesis by (intro exI [of _ l] exI [of _ k]) simp
  qed
next
  fix l assume l: "l \<le> TLV_SIZE_MAX" "fst (tlv_variable_length_write (Some c) l None 0 True) = TLV_OK"
  then have ok: "variable_len_ok c l" by (simp add: variable_length_write_OK_iff)
  then show "0 < length (variable_len_enc c l) \<and>
      tlv_variable_length_write (Some c) l None 0 True = (TLV_OK, None, Some (length (variable_len_enc c l)))"
    by (simp add: variable_length_write_query variable_len_enc_ne)
  from ok show "tlv_variable_length_write (Some c) l (Some buf) cap True =
      (TLV_OK, Some (blit 0 (variable_len_enc c l) buf), Some (length (variable_len_enc c l)))"
    if "length (variable_len_enc c l) \<le> cap" "cap \<le> length buf" for cap buf
    using that by (rule variable_length_write)
  show "tlv_variable_length_read (Some c) q n True = (TLV_OK, Some l, Some (length (variable_len_enc c l)))"
    if "length (variable_len_enc c l) \<le> n" "readable q n"
      "take (length (variable_len_enc c l)) (bytes q) = variable_len_enc c l" for n q
    by (rule ptr_prefixE [OF that(2,1,3) variable_len_enc_ne])
      (use ok that(1) in \<open>simp add: variable_length_read\<close>)
qed

end
