(* ===== verification/TLV_Diagnostic.thy ===== *)
theory TLV_Diagnostic
  imports TLV_Core
begin

unbundle bit_operations_syntax

text \<open>
  Structured diagnostics (\<^verbatim>\<open>diagnostic.c\<close>, the enumeration names of \<^verbatim>\<open>diagnostic_strings.c\<close> for the
  components modelled here).  A location is either unknown or a checked pair of byte positions; a
  path is a bounded stack of the enclosing tags.  The lemmas show that locations never hold
  inconsistent or wrapped coordinates, that push and pop restore a path, and that
  \<open>tlv_diagnostic_path_string\<close> writes exactly the printed path, measures it exactly and never
  writes past the capacity.
\<close>

section \<open>Types (diagnostic.h)\<close>

datatype tlv_diagnostic_severity_t =
    TLV_DIAGNOSTIC_SEVERITY_ERROR | TLV_DIAGNOSTIC_SEVERITY_WARNING | TLV_DIAGNOSTIC_SEVERITY_INFO
  | TLV_DIAGNOSTIC_SEVERITY_OTHER int

datatype tlv_location_domain_t =
    TLV_LOCATION_DOMAIN_UNKNOWN | TLV_LOCATION_INPUT | TLV_LOCATION_OUTPUT | TLV_LOCATION_EXPRESSION
  | TLV_LOCATION_DEFINITION | TLV_LOCATION_VALUE | TLV_LOCATION_DOMAIN_OTHER int

datatype tlv_location_kind_t =
    TLV_LOCATION_UNKNOWN | TLV_LOCATION_POINT | TLV_LOCATION_SPAN | TLV_LOCATION_SCOPE_END
  | TLV_LOCATION_INSERTION | TLV_LOCATION_KIND_OTHER int

record tlv_location_t =
  loc_domain :: tlv_location_domain_t
  loc_kind :: tlv_location_kind_t
  loc_begin :: nat
  loc_end :: nat

record tlv_diagnostic_context_t =
  ctx_layer :: string
  ctx_key :: string
  ctx_value :: string

definition TLV_DIAGNOSTIC_PATH_MAX :: nat where "TLV_DIAGNOSTIC_PATH_MAX = 32"

record tlv_diagnostic_path_t =
  path_tags :: "tlv_tag_t list"
  path_length :: nat
  path_omitted :: nat

text \<open>The context chain, innermost first, is a list.\<close>

record tlv_diagnostic_t =
  diag_code :: tlv_result_t
  diag_severity :: tlv_diagnostic_severity_t
  diag_location :: tlv_location_t
  diag_expected :: "string option"
  diag_actual :: "string option"
  diag_contexts :: "tlv_diagnostic_context_t list"
  diag_has_path :: bool
  diag_path :: tlv_diagnostic_path_t

definition location0 :: tlv_location_t where
  "location0 = \<lparr>loc_domain = TLV_LOCATION_DOMAIN_UNKNOWN, loc_kind = TLV_LOCATION_UNKNOWN,
     loc_begin = 0, loc_end = 0\<rparr>"

definition path0 :: tlv_diagnostic_path_t where
  "path0 = \<lparr>path_tags = replicate TLV_DIAGNOSTIC_PATH_MAX (tlv_tag Null 0), path_length = 0,
     path_omitted = 0\<rparr>"

section \<open>Operations (diagnostic.c)\<close>

definition tlv_diagnostic_init :: "tlv_result_t \<Rightarrow> tlv_diagnostic_severity_t \<Rightarrow> tlv_diagnostic_t" where
  "tlv_diagnostic_init code severity =
     \<lparr>diag_code = code, diag_severity = severity, diag_location = location0, diag_expected = None,
      diag_actual = None, diag_contexts = [], diag_has_path = False, diag_path = path0\<rparr>"

definition domain_known :: "tlv_location_domain_t \<Rightarrow> bool" where
  "domain_known d =
     (case d of TLV_LOCATION_DOMAIN_UNKNOWN \<Rightarrow> False | TLV_LOCATION_DOMAIN_OTHER i \<Rightarrow> False | _ \<Rightarrow> True)"

definition kind_known :: "tlv_location_kind_t \<Rightarrow> bool" where
  "kind_known k = (case k of TLV_LOCATION_UNKNOWN \<Rightarrow> False | TLV_LOCATION_KIND_OTHER i \<Rightarrow> False | _ \<Rightarrow> True)"

definition tlv_location_set ::
  "tlv_location_domain_t \<Rightarrow> tlv_location_kind_t \<Rightarrow> nat \<Rightarrow> nat \<Rightarrow> tlv_location_t" where
  "tlv_location_set dmn kind begin end' =
     (if \<not> domain_known dmn \<or> \<not> kind_known kind \<or> begin > end' \<or>
         (kind \<noteq> TLV_LOCATION_SPAN \<and> begin \<noteq> end')
      then location0
      else \<lparr>loc_domain = dmn, loc_kind = kind, loc_begin = begin, loc_end = end'\<rparr>)"

definition tlv_location_translate :: "tlv_location_t \<Rightarrow> nat \<Rightarrow> tlv_location_t" where
  "tlv_location_translate l origin =
     (if loc_kind l = TLV_LOCATION_UNKNOWN then l
      else if \<not> domain_known (loc_domain l) \<or> \<not> kind_known (loc_kind l) \<or> loc_begin l > loc_end l \<or>
              loc_end l > SIZE_MAX - origin \<or>
              (loc_kind l \<noteq> TLV_LOCATION_SPAN \<and> loc_begin l \<noteq> loc_end l)
      then location0
      else l\<lparr>loc_begin := loc_begin l + origin, loc_end := loc_end l + origin\<rparr>)"

definition tlv_diagnostic_set_location ::
  "tlv_diagnostic_t \<Rightarrow> tlv_location_domain_t \<Rightarrow> tlv_location_kind_t \<Rightarrow> nat \<Rightarrow> nat \<Rightarrow> tlv_diagnostic_t" where
  "tlv_diagnostic_set_location d dmn kind begin end' =
     d\<lparr>diag_location := tlv_location_set dmn kind begin end'\<rparr>"

definition tlv_diagnostic_add_context ::
  "tlv_diagnostic_t \<Rightarrow> string \<Rightarrow> string \<Rightarrow> string \<Rightarrow> tlv_diagnostic_t" where
  "tlv_diagnostic_add_context d layer key val =
     d\<lparr>diag_contexts := \<lparr>ctx_layer = layer, ctx_key = key, ctx_value = val\<rparr> # diag_contexts d\<rparr>"

definition tlv_diagnostic_set_path ::
  "tlv_diagnostic_t \<Rightarrow> tlv_diagnostic_path_t option \<Rightarrow> tlv_diagnostic_t" where
  "tlv_diagnostic_set_path d path =
     d\<lparr>diag_has_path := path \<noteq> None, diag_path := (case path of None \<Rightarrow> path0 | Some p \<Rightarrow> p)\<rparr>"

fun tlv_location_domain_string :: "tlv_location_domain_t \<Rightarrow> string" where
  "tlv_location_domain_string TLV_LOCATION_DOMAIN_UNKNOWN = ''unknown''"
| "tlv_location_domain_string TLV_LOCATION_INPUT = ''input''"
| "tlv_location_domain_string TLV_LOCATION_OUTPUT = ''output''"
| "tlv_location_domain_string TLV_LOCATION_EXPRESSION = ''expression''"
| "tlv_location_domain_string TLV_LOCATION_DEFINITION = ''definition''"
| "tlv_location_domain_string TLV_LOCATION_VALUE = ''value''"
| "tlv_location_domain_string (TLV_LOCATION_DOMAIN_OTHER i) = ''unknown''"

fun tlv_location_kind_string :: "tlv_location_kind_t \<Rightarrow> string" where
  "tlv_location_kind_string TLV_LOCATION_UNKNOWN = ''unknown''"
| "tlv_location_kind_string TLV_LOCATION_POINT = ''point''"
| "tlv_location_kind_string TLV_LOCATION_SPAN = ''span''"
| "tlv_location_kind_string TLV_LOCATION_SCOPE_END = ''scope_end''"
| "tlv_location_kind_string TLV_LOCATION_INSERTION = ''insertion''"
| "tlv_location_kind_string (TLV_LOCATION_KIND_OTHER i) = ''unknown''"

fun tlv_diagnostic_severity_string :: "tlv_diagnostic_severity_t \<Rightarrow> string" where
  "tlv_diagnostic_severity_string TLV_DIAGNOSTIC_SEVERITY_ERROR = ''error''"
| "tlv_diagnostic_severity_string TLV_DIAGNOSTIC_SEVERITY_WARNING = ''warning''"
| "tlv_diagnostic_severity_string TLV_DIAGNOSTIC_SEVERITY_INFO = ''info''"
| "tlv_diagnostic_severity_string (TLV_DIAGNOSTIC_SEVERITY_OTHER i) = ''unknown''"

definition tlv_diagnostic_path_init :: "tlv_diagnostic_path_t \<Rightarrow> tlv_diagnostic_path_t" where
  "tlv_diagnostic_path_init path = path\<lparr>path_length := 0, path_omitted := 0\<rparr>"

definition tlv_diagnostic_path_push ::
  "tlv_diagnostic_path_t option \<Rightarrow> tlv_tag_t \<Rightarrow> tlv_result_t \<times> tlv_diagnostic_path_t option" where
  "tlv_diagnostic_path_push path tag =
     (case path of None \<Rightarrow> (TLV_ERR_NULL_ARG, None)
      | Some p \<Rightarrow>
          if path_length p > TLV_DIAGNOSTIC_PATH_MAX then (TLV_ERR_INVALID_ARG, path)
          else if path_length p = TLV_DIAGNOSTIC_PATH_MAX \<or> path_omitted p \<noteq> 0
          then (TLV_ERR_BUFFER_TOO_SHORT,
                Some (if path_omitted p \<noteq> SIZE_MAX then p\<lparr>path_omitted := path_omitted p + 1\<rparr> else p))
          else (TLV_OK, Some (p\<lparr>path_tags := (path_tags p)[path_length p := tag],
                               path_length := path_length p + 1\<rparr>)))"

definition tlv_diagnostic_path_pop :: "tlv_diagnostic_path_t \<Rightarrow> tlv_diagnostic_path_t" where
  "tlv_diagnostic_path_pop p =
     (if path_omitted p \<noteq> 0 then p\<lparr>path_omitted := path_omitted p - 1\<rparr>
      else if path_length p \<noteq> 0 then p\<lparr>path_length := path_length p - 1\<rparr> else p)"

text \<open>
  The printing loops.  The state is the character buffer and \<^verbatim>\<open>needed\<close>; a buffer of \<open>None\<close> is a
  \<^verbatim>\<open>NULL\<close> destination, whose capacity is zero.
\<close>

type_synonym text_state = "string option \<times> nat"

definition put_char :: "nat \<Rightarrow> char \<Rightarrow> string option \<Rightarrow> string option" where
  "put_char i c = map_option (\<lambda>s. s[i := c])"

definition hex_digit :: "nat \<Rightarrow> char" where
  "hex_digit n = ''0123456789ABCDEF'' ! n"

definition put_octet :: "nat \<Rightarrow> u8 \<Rightarrow> text_state \<Rightarrow> text_state" where
  "put_octet capacity b st =
     (let needed = snd st in
      ((if needed + 2 < capacity
        then put_char (needed + 1) (hex_digit (unat (b AND 0x0F)))
               (put_char needed (hex_digit (unat (drop_bit 4 b))) (fst st))
        else fst st),
       needed + 2))"

definition put_separator :: "nat \<Rightarrow> text_state \<Rightarrow> text_state" where
  "put_separator capacity st =
     (let needed = snd st in
      (fold (\<lambda>k dst. if needed + k + 1 < capacity then put_char (needed + k) ('' > '' ! k) dst else dst)
         [0..<3] (fst st),
       needed + 3))"

definition put_suffix :: "nat \<Rightarrow> char \<Rightarrow> text_state \<Rightarrow> text_state" where
  "put_suffix capacity c st =
     ((if snd st + 1 < capacity then put_char (snd st) c (fst st) else fst st), snd st + 1)"

fun put_tags :: "nat \<Rightarrow> tlv_tag_t list \<Rightarrow> text_state \<Rightarrow> tlv_result_t \<times> text_state" where
  "put_tags capacity [] st = (TLV_OK, st)"
| "put_tags capacity (tag # rest) st =
     (if tag_size tag = 0 \<or> tag_data tag = Null then (TLV_ERR_INVALID_ARG, st)
      else let st = fold (\<lambda>j. put_octet capacity (byte_at (tag_data tag) j)) [0..<tag_size tag] st;
               st = (if rest \<noteq> [] then put_separator capacity st else st)
           in put_tags capacity rest st)"

text \<open>The result is the code, the buffer and the value stored through \<^verbatim>\<open>length\<close>.\<close>

definition tlv_diagnostic_path_string ::
  "tlv_diagnostic_path_t option \<Rightarrow> string option \<Rightarrow> nat \<Rightarrow> tlv_result_t \<times> string option \<times> nat option" where
  "tlv_diagnostic_path_string path dst capacity =
     (case path of None \<Rightarrow> (TLV_ERR_NULL_ARG, dst, None)
      | Some p \<Rightarrow>
          if dst = None \<and> capacity \<noteq> 0 then (TLV_ERR_NULL_ARG, dst, None)
          else if path_length p > TLV_DIAGNOSTIC_PATH_MAX then (TLV_ERR_INVALID_ARG, dst, None)
          else case put_tags capacity (take (path_length p) (path_tags p)) (dst, 0) of
            (rc, st) \<Rightarrow>
              if rc \<noteq> TLV_OK then (rc, fst st, None)
              else let st = (if path_omitted p \<noteq> 0
                             then fold (put_suffix capacity)
                                    (if path_length p \<noteq> 0 then '' > ...'' else ''...'') st
                             else st);
                       needed = snd st in
                if needed + 1 > capacity
                then (TLV_ERR_BUFFER_TOO_SHORT,
                      (if capacity \<noteq> 0 then put_char 0 (CHR 0x00) (fst st) else fst st), Some needed)
                else (TLV_OK, put_char needed (CHR 0x00) (fst st), Some needed))"

section \<open>Locations\<close>

definition location_wf :: "tlv_location_t \<Rightarrow> bool" where
  "location_wf l \<longleftrightarrow>
     l = location0 \<or>
     (domain_known (loc_domain l) \<and> kind_known (loc_kind l) \<and> loc_begin l \<le> loc_end l \<and>
      (loc_kind l \<noteq> TLV_LOCATION_SPAN \<longrightarrow> loc_begin l = loc_end l))"

lemma location_wf_set: "location_wf (tlv_location_set dmn k b e)"
  by (auto simp: tlv_location_set_def location_wf_def)

lemma location_wf_translate: "location_wf l \<Longrightarrow> location_wf (tlv_location_translate l origin)"
  by (auto simp: tlv_location_translate_def location_wf_def)

lemma tlv_location_set_point [simp]:
  "domain_known dmn \<Longrightarrow> tlv_location_set dmn TLV_LOCATION_POINT b b =
     \<lparr>loc_domain = dmn, loc_kind = TLV_LOCATION_POINT, loc_begin = b, loc_end = b\<rparr>"
  by (simp add: tlv_location_set_def kind_known_def)

section \<open>Paths\<close>

definition path_wf :: "tlv_diagnostic_path_t \<Rightarrow> bool" where
  "path_wf p \<longleftrightarrow>
     length (path_tags p) = TLV_DIAGNOSTIC_PATH_MAX \<and> path_length p \<le> TLV_DIAGNOSTIC_PATH_MAX \<and>
     path_omitted p \<le> SIZE_MAX \<and> (path_omitted p \<noteq> 0 \<longrightarrow> path_length p = TLV_DIAGNOSTIC_PATH_MAX)"

text \<open>The tags a path holds, outermost first.\<close>

definition path_view :: "tlv_diagnostic_path_t \<Rightarrow> tlv_tag_t list" where
  "path_view p = take (path_length p) (path_tags p)"

lemma path_wf_push:
  "path_wf p \<Longrightarrow> tlv_diagnostic_path_push (Some p) t = (rc, Some p') \<Longrightarrow> path_wf p'"
  by (auto simp: tlv_diagnostic_path_push_def path_wf_def split: if_splits)

lemma path_wf_pop: "path_wf p \<Longrightarrow> path_wf (tlv_diagnostic_path_pop p)"
  by (auto simp: tlv_diagnostic_path_pop_def path_wf_def)

lemma path_push_pop:
  assumes "path_wf p" "path_omitted p < SIZE_MAX" "tlv_diagnostic_path_push (Some p) t = (rc, Some p')"
  shows "path_view (tlv_diagnostic_path_pop p') = path_view p \<and>
         path_omitted (tlv_diagnostic_path_pop p') = path_omitted p"
  using assms
  by (auto simp: tlv_diagnostic_path_push_def tlv_diagnostic_path_pop_def path_view_def path_wf_def
      split: if_splits)

section \<open>Printing a path\<close>

definition octet_text :: "u8 \<Rightarrow> string" where
  "octet_text b = [hex_digit (unat (drop_bit 4 b)), hex_digit (unat (b AND 0x0F))]"

definition tag_text :: "tlv_tag_t \<Rightarrow> string" where
  "tag_text t = concat (map octet_text (tag_bytes t))"

fun tags_text :: "tlv_tag_t list \<Rightarrow> string" where
  "tags_text [] = ''''"
| "tags_text [t] = tag_text t"
| "tags_text (t # u # ts) = tag_text t @ '' > '' @ tags_text (u # ts)"

definition path_text :: "tlv_diagnostic_path_t \<Rightarrow> string" where
  "path_text p =
     tags_text (path_view p) @
     (if path_omitted p \<noteq> 0 then (if path_length p \<noteq> 0 then '' > ...'' else ''...'') else '''')"

text \<open>
  The invariant of the printing loops: \<^verbatim>\<open>needed\<close> counts the text so far, the buffer holds that text
  whenever it fits below the capacity, and nothing beyond the capacity has changed.
\<close>

definition printed :: "nat \<Rightarrow> string option \<Rightarrow> string \<Rightarrow> text_state \<Rightarrow> bool" where
  "printed capacity dst0 s st \<longleftrightarrow>
     snd st = length s \<and>
     (case (dst0, fst st) of
        (None, None) \<Rightarrow> True
      | (Some b0, Some b) \<Rightarrow>
          length b = length b0 \<and> drop capacity b = drop capacity b0 \<and>
          (length s < capacity \<longrightarrow> take (length s) b = s)
      | _ \<Rightarrow> False)"

lemma printed_None: "printed capacity None s st \<longleftrightarrow> snd st = length s \<and> fst st = None"
  by (auto simp: printed_def split: option.splits)

lemma printed_Some:
  "printed capacity (Some b0) s st \<longleftrightarrow>
     snd st = length s \<and> (\<exists>b. fst st = Some b \<and> length b = length b0 \<and> drop capacity b = drop capacity b0 \<and>
       (length s < capacity \<longrightarrow> take (length s) b = s))"
  by (auto simp: printed_def split: option.splits)

lemma take_Suc_update: "n < length b \<Longrightarrow> take (Suc n) (b[n := c]) = take n b @ [c]"
  by (simp add: take_Suc_conv_app_nth)

text \<open>Storing one character at the end of the text, below the capacity.\<close>

lemma printed_put_char:
  assumes "printed capacity dst0 s (d, n)" "n < capacity" "\<And>b0. dst0 = Some b0 \<Longrightarrow> capacity \<le> length b0"
  shows "printed capacity dst0 (s @ [c]) (put_char n c d, Suc n)"
proof (cases dst0)
  case None
  with assms show ?thesis by (simp add: printed_None put_char_def)
next
  case (Some b0)
  with assms obtain b where d: "d = Some b" "n = length s" "length b = length b0"
    "drop capacity b = drop capacity b0" "take n b = s" by (auto simp: printed_Some)
  have "n < length b" using assms Some d by fastforce
  with d assms(2) show ?thesis
    by (simp add: Some printed_Some put_char_def take_Suc_update drop_update_cancel)
qed

text \<open>Counting a character that does not fit.\<close>

lemma printed_skip:
  assumes "printed capacity dst0 s (d, n)" "capacity \<le> n + length t"
  shows "printed capacity dst0 (s @ t) (d, n + length t)"
  using assms by (cases dst0) (auto simp: printed_None printed_Some)

lemma printed_put_octet:
  assumes "printed capacity dst0 s st" "\<And>b0. dst0 = Some b0 \<Longrightarrow> capacity \<le> length b0"
  shows "printed capacity dst0 (s @ octet_text b) (put_octet capacity b st)"
proof (cases "snd st + 2 < capacity")
  case True
  obtain d n where st: "st = (d, n)" by (cases st)
  from True assms st have "printed capacity dst0 (s @ [hex_digit (unat (drop_bit 4 b))])
      (put_char n (hex_digit (unat (drop_bit 4 b))) d, Suc n)"
    by (intro printed_put_char) auto
  then have "printed capacity dst0 ((s @ [hex_digit (unat (drop_bit 4 b))]) @ [hex_digit (unat (b AND 0x0F))])
      (put_char (Suc n) (hex_digit (unat (b AND 0x0F))) (put_char n (hex_digit (unat (drop_bit 4 b))) d),
       Suc (Suc n))"
    by (rule printed_put_char) (use True assms(2) st in auto)
  then show ?thesis using True by (simp add: st put_octet_def octet_text_def)
next
  case False
  with assms(1) printed_skip [of capacity dst0 s "fst st" "snd st" "octet_text b"] show ?thesis
    by (simp add: put_octet_def octet_text_def)
qed

lemma printed_put_suffix:
  assumes "printed capacity dst0 s st" "\<And>b0. dst0 = Some b0 \<Longrightarrow> capacity \<le> length b0"
  shows "printed capacity dst0 (s @ t) (fold (put_suffix capacity) t st)"
  using assms(1)
proof (induction t arbitrary: s st)
  case Nil
  then show ?case by simp
next
  case (Cons c t)
  have "printed capacity dst0 (s @ [c]) (put_suffix capacity c st)"
  proof (cases "snd st + 1 < capacity")
    case True
    with Cons.prems assms(2) printed_put_char [of capacity dst0 s "fst st" "snd st" c] show ?thesis
      by (simp add: put_suffix_def)
  next
    case False
    with Cons.prems printed_skip [of capacity dst0 s "fst st" "snd st" "[c]"] show ?thesis
      by (simp add: put_suffix_def)
  qed
  from Cons.IH [OF this] show ?case by simp
qed

lemma put_separator_eq: "put_separator capacity st = fold (put_suffix capacity) '' > '' st"
proof -
  have "[0..<3] = [0, 1, 2 :: nat]" by (simp add: upt_rec)
  then show ?thesis by (simp add: put_separator_def put_suffix_def Let_def)
qed

lemma printed_octets:
  assumes "printed capacity dst0 s st" "\<And>b0. dst0 = Some b0 \<Longrightarrow> capacity \<le> length b0"
  shows "printed capacity dst0 (s @ concat (map octet_text bs)) (fold (put_octet capacity) bs st)"
  using assms(1)
proof (induction bs arbitrary: s st)
  case Nil
  then show ?case by simp
next
  case (Cons b bs)
  from Cons.IH [OF printed_put_octet [OF Cons.prems assms(2), of b]] show ?case by simp
qed

lemma put_tag_fold:
  assumes "tag_wf t"
  shows "fold (\<lambda>j. put_octet capacity (byte_at (tag_data t) j)) [0..<tag_size t] st =
    fold (put_octet capacity) (tag_bytes t) st"
proof -
  have "tag_bytes t = map (byte_at (tag_data t)) [0..<tag_size t]"
    using assms by (intro nth_equalityI) (auto simp: tag_wf_def tag_bytes_def byte_at_def readable_def)
  then show ?thesis by (simp add: fold_map comp_def)
qed

text \<open>Tags that may appear in a printed path.\<close>

definition printable :: "tlv_tag_t \<Rightarrow> bool" where
  "printable t \<longleftrightarrow> tag_wf t \<and> tag_size t \<noteq> 0"

lemma printed_put_tags:
  assumes "printed capacity dst0 s st" "\<And>b0. dst0 = Some b0 \<Longrightarrow> capacity \<le> length b0"
    and "list_all printable ts"
  shows "\<exists>st'. put_tags capacity ts st = (TLV_OK, st') \<and> printed capacity dst0 (s @ tags_text ts) st'"
  using assms(1,3)
proof (induction ts arbitrary: s st rule: tags_text.induct)
  case 1
  then show ?case by simp
next
  case (2 t)
  then have "tag_wf t" "tag_size t \<noteq> 0" "tag_data t \<noteq> Null"
    by (auto simp: printable_def tag_wf_def)
  with printed_octets [OF 2(1) assms(2)] show ?case
    by (simp add: put_tag_fold tag_text_def)
next
  case (3 t u ts)
  then have t: "tag_wf t" "tag_size t \<noteq> 0" "tag_data t \<noteq> Null"
    by (auto simp: printable_def tag_wf_def)
  have "printed capacity dst0 (s @ tag_text t @ '' > '')
      (put_separator capacity (fold (put_octet capacity) (tag_bytes t) st))"
    using printed_put_suffix [OF printed_octets [OF 3(2) assms(2), of "tag_bytes t"] assms(2), of "'' > ''"]
    by (simp add: put_separator_eq tag_text_def)
  from 3(1) [OF this] 3(3) t show ?case
    by (simp add: put_tag_fold Let_def)
qed

text \<open>Printing: the exact text and its length, or the exact length and an empty string.\<close>

lemma path_string_printed:
  assumes wf: "path_wf p" and tags: "list_all printable (path_view p)"
    and dst: "dst = None \<Longrightarrow> capacity = 0" "\<And>b. dst = Some b \<Longrightarrow> capacity \<le> length b"
  obtains st where "printed capacity dst (path_text p) st"
    "tlv_diagnostic_path_string (Some p) dst capacity =
       (if length (path_text p) < capacity
        then (TLV_OK, put_char (length (path_text p)) (CHR 0x00) (fst st), Some (length (path_text p)))
        else (TLV_ERR_BUFFER_TOO_SHORT,
              (if capacity \<noteq> 0 then put_char 0 (CHR 0x00) (fst st) else fst st),
              Some (length (path_text p))))"
proof -
  have "printed capacity dst [] (dst, 0)"
    by (cases dst) (auto simp: printed_None printed_Some)
  from printed_put_tags [OF this dst(2) tags] obtain st1
    where s1: "put_tags capacity (path_view p) (dst, 0) = (TLV_OK, st1)"
      and p1: "printed capacity dst (tags_text (path_view p)) st1" by auto
  define suffix where "suffix = (if path_omitted p \<noteq> 0 then
      (if path_length p \<noteq> 0 then '' > ...'' else ''...'') else [])"
  let ?st = "fold (put_suffix capacity) suffix st1"
  have p2: "printed capacity dst (path_text p) ?st"
    using printed_put_suffix [OF p1 dst(2), of suffix] by (simp add: path_text_def suffix_def)
  then have n: "snd ?st = length (path_text p)" by (simp add: printed_def)
  have guards: "(dst = None \<and> capacity \<noteq> 0) = False" "(path_length p > TLV_DIAGNOSTIC_PATH_MAX) = False"
    using dst(1) wf by (auto simp: path_wf_def)
  have "tlv_diagnostic_path_string (Some p) dst capacity =
      (if snd ?st + 1 > capacity then (TLV_ERR_BUFFER_TOO_SHORT,
          (if capacity \<noteq> 0 then put_char 0 (CHR 0x00) (fst ?st) else fst ?st), Some (snd ?st))
       else (TLV_OK, put_char (snd ?st) (CHR 0x00) (fst ?st), Some (snd ?st)))"
    unfolding tlv_diagnostic_path_string_def option.case guards if_False s1 [unfolded path_view_def] prod.case
    by (cases "path_omitted p = 0"; cases "path_length p = 0") (simp_all add: suffix_def Let_def)
  with p2 show thesis by (intro that [of ?st]) (auto simp: n)
qed

end
