(* ===== verification/TLV_Field_Properties.thy ===== *)
theory TLV_Field_Properties
  imports TLV_Field_Variable TLV_Diagnostic
begin

text \<open>
  Properties of the value types, of integer fields and of the field encodings, with their
  instances at concrete configurations.
\<close>

section \<open>Consequences of the field contracts\<close>

context length_codec
begin

lemma length_roundtrip:
  assumes l: "l \<le> TLV_SIZE_MAX" "fst (write_length l None 0) = TLV_OK"
    and cap: "out (snd (snd (write_length l None 0))) 0 \<le> cap" "cap \<le> length buf"
  shows "\<exists>w buf'. write_length l None 0 = (TLV_OK, None, Some w) \<and>
    write_length l (Some buf) cap = (TLV_OK, Some buf', Some w) \<and>
    length buf' = length buf \<and> drop w buf' = drop w buf \<and>
    (\<forall>n a. w \<le> n \<longrightarrow> n \<le> length buf' \<longrightarrow> read_length (Ptr a buf') n = (TLV_OK, Some l, Some w)) \<and>
    (\<forall>n a. n < w \<longrightarrow> fst (read_length (Ptr a buf') n) = TLV_ERR_TRUNCATED)"
proof -
  let ?w = "len_enc l" and ?b = "blit 0 (len_enc l) buf"
  note Q = write_length_query [OF l]
  have c: "length ?w \<le> cap" using cap(1) Q by simp
  have rd: "read_length (Ptr a ?b) n = (TLV_OK, Some l, Some (length ?w))"
    if "length ?w \<le> n" "n \<le> length ?b" for n a
    by (rule read_written_length [OF l that(1)]) (use that c cap(2) in \<open>simp_all add: blit_0\<close>)
  have sh: "fst (read_length (Ptr a ?b) n) = TLV_ERR_TRUNCATED" if "n < length ?w" for n a
  proof -
    have r: "readable (Ptr a ?b) (length ?w)" by (simp add: blit_0)
    from read_length_inv [OF r rd] that show ?thesis by (auto simp: blit_0)
  qed
  show ?thesis
    by (intro exI [of _ "length ?w"] exI [of _ ?b])
      (use Q write_length_buffer [OF l c cap(2)] rd sh c cap(2) in \<open>auto simp: blit_0\<close>)
qed

end

context tag_codec
begin

lemma tag_roundtrip:
  assumes t: "tag_wf t" "fst (write_tag t None 0) = TLV_OK"
    and cap: "tag_size t \<le> cap" "cap \<le> length buf"
  shows "\<exists>buf'. write_tag t (Some buf) cap = (TLV_OK, Some buf', Some (tag_size t)) \<and>
    length buf' = length buf \<and> drop (tag_size t) buf' = drop (tag_size t) buf \<and>
    (\<forall>n a. tag_size t \<le> n \<longrightarrow> n \<le> length buf' \<longrightarrow>
       (\<exists>t'. read_tag (Ptr a buf') n = (TLV_OK, Some t', Some (tag_size t)) \<and> tag_bytes t' = tag_bytes t)) \<and>
    (\<forall>n a. n < tag_size t \<longrightarrow> fst (read_tag (Ptr a buf') n) = TLV_ERR_TRUNCATED)"
proof -
  let ?b = "blit 0 (tag_bytes t) buf" and ?k = "tag_size t"
  have l: "length (tag_bytes t) = ?k" using t(1) by simp
  have tk: "take ?k ?b = tag_bytes t" using l by (simp add: blit_0)
  have rd: "read_tag (Ptr a ?b) n = (TLV_OK, Some (tlv_tag (Ptr a ?b) ?k), Some ?k)"
    if "?k \<le> n" "n \<le> length ?b" for n a
    by (rule read_written_tag [OF t that(1)]) (use that tk in simp_all)
  have sh: "fst (read_tag (Ptr a ?b) n) = TLV_ERR_TRUNCATED" if "n < ?k" for n a
  proof -
    have r: "readable (Ptr a ?b) ?k" using l by (simp add: blit_0)
    from read_tag_inv [OF r rd] that l show ?thesis by (auto simp: blit_0)
  qed
  have tb: "tag_bytes (tlv_tag (Ptr a ?b) ?k) = tag_bytes t" for a
    using tk by (simp add: tag_bytes_def)
  show ?thesis
    by (intro exI [of _ ?b]) (use write_tag_buffer [OF t cap] rd sh tb cap l in \<open>auto simp: blit_0\<close>)
qed

end

section \<open>Order on tags\<close>

text \<open>
  \<^verbatim>\<open>tlv_tag_compare\<close> is the lexicographic order of the identifier octets: negative exactly when the
  first tag precedes the second, zero exactly when \<^verbatim>\<open>tlv_tag_equal\<close> holds, antisymmetric and
  transitive.
\<close>

theorem tag_compare_lexicographic:
  assumes "tag_wf a" "tag_wf b" "tag_wf c"
  shows "(tlv_tag_compare a b = -1 \<longleftrightarrow> ord_class.lexordp (tag_bytes a) (tag_bytes b)) \<and>
    (tlv_tag_compare a b = 0 \<longleftrightarrow> tlv_tag_equal a b) \<and>
    tlv_tag_compare b a = - tlv_tag_compare a b \<and>
    (tlv_tag_compare a b = -1 \<and> tlv_tag_compare b c = -1 \<longrightarrow> tlv_tag_compare a c = -1)"
proof (intro conjI impI)
  show "tlv_tag_compare a b = -1 \<longleftrightarrow> ord_class.lexordp (tag_bytes a) (tag_bytes b)"
    using assms by (simp add: tlv_tag_compare_bytes bytes_compare_less)
  show "tlv_tag_compare a b = 0 \<longleftrightarrow> tlv_tag_equal a b"
    using assms by (simp add: tlv_tag_compare_bytes tlv_tag_equal_bytes bytes_compare_eq_0)
  show "tlv_tag_compare b a = - tlv_tag_compare a b"
    using assms by (simp only: tlv_tag_compare_bytes) (rule bytes_compare_swap)
  assume "tlv_tag_compare a b = -1 \<and> tlv_tag_compare b c = -1"
  then show "tlv_tag_compare a c = -1"
    using assms by (auto simp: tlv_tag_compare_bytes intro: bytes_compare_trans)
qed

theorem tag_compare_lexicographic_witness:
  "tlv_tag_compare (tlv_tag (Ptr 0 [0x9F, 0x02]) 2) (tlv_tag (Ptr 8 [0x9F, 0x1A]) 2) = -1 \<and>
   tlv_tag_compare (tlv_tag (Ptr 8 [0x9F, 0x1A]) 2) (tlv_tag (Ptr 0 [0x9F, 0x02]) 2) = 1 \<and>
   ord_class.lexordp (tag_bytes (tlv_tag (Ptr 0 [0x9F, 0x02]) 2)) (tag_bytes (tlv_tag (Ptr 8 [0x9F, 0x1A]) 2))"
proof -
  let ?a = "tlv_tag (Ptr 0 [0x9F, 0x02]) 2" and ?b = "tlv_tag (Ptr 8 [0x9F, 0x1A]) 2"
  have "tlv_tag_compare ?a ?b = -1" by code_simp
  with tag_compare_lexicographic [of ?a ?b ?a] show ?thesis by (simp add: tag_wf_def)
qed

section \<open>Unsigned integers of one to eight octets\<close>

text \<open>
  Writing an integer of one to eight octets in either byte order and reading it back gives the same
  value; the octets after the field are untouched.  A value that does not fit is refused with
  \<^verbatim>\<open>TLV_ERR_OVERFLOW\<close> and the buffer keeps its content.
\<close>

theorem uint_write_read:
  assumes "0 < width" "width \<le> 8" "known_order order" "width \<le> length buf"
  shows "if unat v < 256 ^ width
    then \<exists>buf'. tlv_write_uint (Some buf) width order v = (TLV_OK, Some buf') \<and>
           length buf' = length buf \<and> drop width buf' = drop width buf \<and>
           tlv_read_uint (Ptr a buf') width order True = (TLV_OK, Some v)
    else tlv_write_uint (Some buf) width order v = (TLV_ERR_OVERFLOW, Some buf)"
proof (cases "unat v < 256 ^ width")
  case True
  let ?b = "uint_of order width (unat v) @ drop width buf"
  have len: "length (uint_of order width (unat v)) = width" by (simp add: uint_of_def)
  have "tlv_read_uint (Ptr a ?b) width order True = (TLV_OK, Some v)"
    using tlv_read_uint_unat [of "Ptr a ?b" width order] assms True len by simp
  with True tlv_write_uint_OK [OF assms(4,1-3) True] assms(4) len show ?thesis by auto
next
  case False
  with tlv_write_uint_overflow [OF assms(1-3)] show ?thesis by simp
qed

theorem uint_write_read_witness:
  "\<exists>buf'. tlv_write_uint (Some [1, 2, 3]) 2 TLV_BYTE_ORDER_LITTLE_ENDIAN 0xABCD = (TLV_OK, Some buf') \<and>
     length buf' = 3 \<and> drop 2 buf' = [3] \<and>
     tlv_read_uint (Ptr 7 buf') 2 TLV_BYTE_ORDER_LITTLE_ENDIAN True = (TLV_OK, Some 0xABCD)"
  using uint_write_read [of 2 TLV_BYTE_ORDER_LITTLE_ENDIAN "[1, 2, 3]" "0xABCD" 7]
  by (simp add: known_order_def numeral_3_eq_3)

section \<open>Packed bit fields\<close>

text \<open>
  Writing a value that fits into a packed bit field and reading the field back gives the value; every
  other field of the same storage word that does not overlap it, and every octet after the
  storage, keeps its value.
\<close>

theorem packed_field_write_read:
  assumes f: "packed_validate f = TLV_OK" and g: "packed_validate g = TLV_OK"
    and same: "pf_storage_size g = pf_storage_size f" "pf_byte_order g = pf_byte_order f"
    and disjoint: "pf_bit_offset g + pf_bit_width g \<le> pf_bit_offset f \<or>
      pf_bit_offset f + pf_bit_width f \<le> pf_bit_offset g"
    and cap: "pf_storage_size f \<le> cap" "cap \<le> length buf" and v: "take_bit (pf_bit_width f) v = v"
  shows "\<exists>buf'. tlv_packed_field_write (Some f) (Some buf) cap v = (TLV_OK, Some buf') \<and>
    length buf' = length buf \<and> drop (pf_storage_size f) buf' = drop (pf_storage_size f) buf \<and>
    tlv_packed_field_read (Some f) (Ptr a buf') cap True = (TLV_OK, Some v) \<and>
    tlv_packed_field_read (Some g) (Ptr a buf') cap True = tlv_packed_field_read (Some g) (Ptr a buf) cap True"
proof -
  let ?n = "pf_storage_size f"
  from packed_write_eq [OF f cap v] obtain bs where bs: "length bs = ?n"
    "tlv_packed_field_write (Some f) (Some buf) cap v = (TLV_OK, Some (bs @ drop ?n buf))"
    "storage_word f bs = packed_insert (pf_bit_offset f) (pf_bit_width f) (storage_word f buf) v" by blast
  let ?b = "bs @ drop ?n buf"
  have len: "length ?b = length buf" using bs(1) cap by simp
  have sw: "storage_word f ?b = storage_word f bs" "storage_word g ?b = storage_word f bs"
    "storage_word g buf = storage_word f buf"
    using bs(1) same by (simp_all add: storage_word_def)
  have W: "pf_bit_width f \<le> 64" "pf_bit_offset f + pf_bit_width f \<le> 64" "pf_bit_offset g + pf_bit_width g \<le> 64"
    using f g by (auto simp: packed_validate_OK)
  have "tlv_packed_field_read (Some f) (Ptr a ?b) cap True = (TLV_OK, Some v)"
    using packed_read_eq [OF f cap(1), of "Ptr a ?b"] packed_insert_read [OF W(1) v W(2)] bs(3) sw len cap by simp
  moreover have "tlv_packed_field_read (Some g) (Ptr a ?b) cap True = tlv_packed_field_read (Some g) (Ptr a buf) cap True"
    using packed_read_eq [OF g, of cap "Ptr a ?b"] packed_read_eq [OF g, of cap "Ptr a buf"]
      packed_insert_frame [OF W(1) v disjoint W(3)] bs(3) sw len cap same by simp
  ultimately show ?thesis using bs(1,2) len by auto
qed

theorem packed_field_write_read_witness:
  "\<exists>buf'. tlv_packed_field_write (Some \<lparr>pf_storage_size = 2, pf_bit_offset = 9, pf_bit_width = 7,
       pf_byte_order = TLV_BYTE_ORDER_BIG_ENDIAN\<rparr>) (Some [0x12, 0x34, 0x56]) 3 0x55 = (TLV_OK, Some buf') \<and>
     tlv_packed_field_read (Some \<lparr>pf_storage_size = 2, pf_bit_offset = 9, pf_bit_width = 7,
       pf_byte_order = TLV_BYTE_ORDER_BIG_ENDIAN\<rparr>) (Ptr 0 buf') 3 True = (TLV_OK, Some 0x55)"
proof -
  let ?f = "\<lparr>pf_storage_size = 2, pf_bit_offset = 9, pf_bit_width = 7,
       pf_byte_order = TLV_BYTE_ORDER_BIG_ENDIAN\<rparr>"
  let ?g = "\<lparr>pf_storage_size = 2, pf_bit_offset = 0, pf_bit_width = 9,
       pf_byte_order = TLV_BYTE_ORDER_BIG_ENDIAN\<rparr>"
  have "packed_validate ?f = TLV_OK" "packed_validate ?g = TLV_OK" "take_bit 7 (0x55 :: u64) = 0x55"
    by code_simp+
  from packed_field_write_read [of ?f ?g 3 "[0x12, 0x34, 0x56]" "0x55" 0] this show ?thesis by auto
qed

section \<open>Length encodings\<close>

text \<open>
  An escaped count that the size query accepts is written in exactly the number of octets the query
  reported, reads back as itself from any input that holds these octets, and every shorter input is
  reported as truncated.
\<close>

theorem escaped_length_roundtrip:
  assumes "l \<le> TLV_SIZE_MAX" "tlv_escaped_length_write (Some c) l None 0 True = (TLV_OK, None, Some w)"
    "w \<le> cap" "cap \<le> length buf"
  shows "\<exists>buf'. tlv_escaped_length_write (Some c) l (Some buf) cap True = (TLV_OK, Some buf', Some w) \<and>
    length buf' = length buf \<and> drop w buf' = drop w buf \<and>
    (\<forall>n a. w \<le> n \<longrightarrow> n \<le> length buf' \<longrightarrow>
       tlv_escaped_length_read (Some c) (Ptr a buf') n True = (TLV_OK, Some l, Some w)) \<and>
    (\<forall>n a. n < w \<longrightarrow> fst (tlv_escaped_length_read (Some c) (Ptr a buf') n True) = TLV_ERR_TRUNCATED)"
  using escaped_len.length_roundtrip [of l c cap buf] assms by auto

theorem escaped_length_roundtrip_witness:
  "\<exists>buf'. tlv_escaped_length_write (Some \<lparr>esc_escape = 0xFF, esc_extended_size = 2,
       esc_byte_order = TLV_BYTE_ORDER_BIG_ENDIAN, esc_min_extended = 255, esc_max_length = 65534\<rparr>)
       300 (Some [0, 0, 0, 9]) 4 True = (TLV_OK, Some buf', Some 3) \<and> drop 3 buf' = [9] \<and>
     tlv_escaped_length_read (Some \<lparr>esc_escape = 0xFF, esc_extended_size = 2,
       esc_byte_order = TLV_BYTE_ORDER_BIG_ENDIAN, esc_min_extended = 255, esc_max_length = 65534\<rparr>)
       (Ptr 0 buf') 4 True = (TLV_OK, Some 300, Some 3)"
proof -
  let ?c = "\<lparr>esc_escape = 0xFF, esc_extended_size = 2, esc_byte_order = TLV_BYTE_ORDER_BIG_ENDIAN,
      esc_min_extended = 255, esc_max_length = 65534\<rparr>"
  have "tlv_escaped_length_write (Some ?c) 300 None 0 True = (TLV_OK, None, Some 3)"
    by (simp add: tlv_escaped_length_write_def validate_length_def known_order_def)
  from escaped_length_roundtrip [OF _ this, of 4 "[0, 0, 0, 9]"] show ?thesis
    by (auto simp: TLV_SIZE_MAX_def)
qed

text \<open>
  A count in short or long form (with or without a policy) that the size query accepts is written in
  exactly that number of octets, reads back as itself under the same configuration, and every
  shorter input is reported as truncated.
\<close>

theorem variable_length_roundtrip:
  assumes "l \<le> TLV_SIZE_MAX" "tlv_variable_length_write (Some c) l None 0 True = (TLV_OK, None, Some w)"
    "w \<le> cap" "cap \<le> length buf"
  shows "\<exists>buf'. tlv_variable_length_write (Some c) l (Some buf) cap True = (TLV_OK, Some buf', Some w) \<and>
    length buf' = length buf \<and> drop w buf' = drop w buf \<and>
    (\<forall>n a. w \<le> n \<longrightarrow> n \<le> length buf' \<longrightarrow>
       tlv_variable_length_read (Some c) (Ptr a buf') n True = (TLV_OK, Some l, Some w)) \<and>
    (\<forall>n a. n < w \<longrightarrow> fst (tlv_variable_length_read (Some c) (Ptr a buf') n True) = TLV_ERR_TRUNCATED)"
  using variable_len.length_roundtrip [of l c cap buf] assms by auto

text \<open>The length octets of X.690 with the minimal-form policy, as an example configuration.\<close>

definition minimal_length :: tlv_variable_length_t where
  "minimal_length = \<lparr>vl_long_form_bit = 0x80, vl_payload_mask = 0x7F, vl_byte_order = TLV_BYTE_ORDER_BIG_ENDIAN,
     vl_policy = Some \<lparr>lp_allow_short = 1, lp_allow_long = 1, lp_require_minimal = 1, lp_max_long_octets = 8,
       lp_max_value = TLV_SIZE_MAX\<rparr>\<rparr>"

lemma unpack_7F: "unpack 0x7F 0x7F = 127"
  by code_simp

lemma minimal_length_valid: "length_validate minimal_length = TLV_OK"
  by (simp add: length_validate_def minimal_length_def single_bit_def known_order_def unpack_7F TLV_SIZE_MAX_def)

theorem variable_length_roundtrip_witness:
  "\<exists>buf'. tlv_variable_length_write (Some minimal_length) 435 (Some [0, 0, 0, 9]) 4 True =
       (TLV_OK, Some buf', Some 3) \<and> drop 3 buf' = [9] \<and>
     tlv_variable_length_read (Some minimal_length) (Ptr 0 buf') 4 True = (TLV_OK, Some 435, Some 3) \<and>
     fst (tlv_variable_length_read (Some minimal_length) (Ptr 0 buf') 2 True) = TLV_ERR_TRUNCATED"
proof -
  have "tlv_variable_length_write (Some minimal_length) 435 None 0 True = (TLV_OK, None, Some 3)"
    using minimal_length_valid
    by (simp add: tlv_variable_length_write_def minimal_length_def unpack_7F octet_count.simps drop_bit_eq_div
        TLV_SIZE_MAX_def)
  from variable_length_roundtrip [OF _ this, of 4 "[0, 0, 0, 9]"] show ?thesis
    by (auto simp: TLV_SIZE_MAX_def)
qed

section \<open>Identifier encodings\<close>

text \<open>
  An identifier accepted for writing is written octet by octet, is read back with the same octets from
  any input that starts with it, and every shorter input is reported as truncated.
\<close>

theorem variable_identifier_roundtrip:
  assumes "tag_wf t" "fst (tlv_variable_identifier_write (Some c) (Some t) None 0 True) = TLV_OK"
    "tag_size t \<le> cap" "cap \<le> length buf"
  shows "\<exists>buf'. tlv_variable_identifier_write (Some c) (Some t) (Some buf) cap True =
      (TLV_OK, Some buf', Some (tag_size t)) \<and>
    length buf' = length buf \<and> drop (tag_size t) buf' = drop (tag_size t) buf \<and>
    (\<forall>n a. tag_size t \<le> n \<longrightarrow> n \<le> length buf' \<longrightarrow>
       (\<exists>t'. tlv_variable_identifier_read (Some c) (Ptr a buf') n True = (TLV_OK, Some t', Some (tag_size t)) \<and>
          tag_bytes t' = tag_bytes t)) \<and>
    (\<forall>n a. n < tag_size t \<longrightarrow>
       fst (tlv_variable_identifier_read (Some c) (Ptr a buf') n True) = TLV_ERR_TRUNCATED)"
  using variable_id.tag_roundtrip [OF assms] .

definition multi_octet_identifier :: tlv_variable_identifier_t where
  "multi_octet_identifier = \<lparr>vi_inline_mask = 0x1F, vi_escape = 0x1F, vi_continuation_bit = 0x80,
     vi_payload_mask = 0x7F, vi_max_size = 4,
     vi_policy = Some \<lparr>ip_forbidden_leading = None, ip_forbidden_leading_count = 0,
       ip_reject_zero_first_payload = 1, ip_require_minimal = 1\<rparr>\<rparr>"

theorem variable_identifier_roundtrip_witness:
  "\<exists>buf'. tlv_variable_identifier_write (Some multi_octet_identifier) (Some (tlv_tag (Ptr 5 [0x9F, 0x81, 0x02]) 3))
       (Some [0, 0, 0, 7]) 4 True = (TLV_OK, Some buf', Some 3) \<and> drop 3 buf' = [7] \<and>
     (\<exists>t'. tlv_variable_identifier_read (Some multi_octet_identifier) (Ptr 0 buf') 4 True =
        (TLV_OK, Some t', Some 3) \<and> tag_bytes t' = [0x9F, 0x81, 0x02])"
proof -
  let ?t = "tlv_tag (Ptr 5 [0x9F, 0x81, 0x02]) 3"
  have "fst (tlv_variable_identifier_write (Some multi_octet_identifier) (Some ?t) None 0 True) = TLV_OK" by code_simp
  moreover have "tag_wf ?t" "tag_bytes ?t = [0x9F, 0x81, 0x02]" by (simp_all add: tag_wf_def tag_bytes_def)
  ultimately show ?thesis
    using variable_identifier_roundtrip [of ?t multi_octet_identifier 4 "[0, 0, 0, 7]"] by auto
qed

text \<open>
  A recognised variable identifier is a nonempty prefix of the input that borrows it; the answer is the
  same for every longer input that agrees on that prefix, and \<^verbatim>\<open>TLV_ERR_TRUNCATED\<close> for every shorter
  one.
\<close>

theorem variable_identifier_prefix:
  assumes "readable p n" "tlv_variable_identifier_read (Some c) p n True = (TLV_OK, ot, oc)"
  shows "\<exists>k. 0 < k \<and> k \<le> n \<and> ot = Some (tlv_tag p k) \<and> oc = Some k \<and>
    (\<forall>m. readable p m \<longrightarrow> k \<le> m \<longrightarrow> tlv_variable_identifier_read (Some c) p m True = (TLV_OK, ot, oc)) \<and>
    (\<forall>m. m < k \<longrightarrow> fst (tlv_variable_identifier_read (Some c) p m True) = TLV_ERR_TRUNCATED)"
  by (rule variable_id.read_tag_inv [OF assms])

theorem variable_identifier_prefix_witness:
  "fst (tlv_variable_identifier_read (Some multi_octet_identifier) (Ptr 0 [0x9F, 0x81, 0x02, 0x55]) 2 True) =
     TLV_ERR_TRUNCATED"
proof -
  let ?p = "Ptr 0 [0x9F, 0x81, 0x02, 0x55]"
  have r: "tlv_variable_identifier_read (Some multi_octet_identifier) ?p 4 True = (TLV_OK, Some (tlv_tag ?p 3), Some 3)"
    by code_simp
  from variable_identifier_prefix [OF _ r] show ?thesis by auto
qed

section \<open>Diagnostics\<close>

text \<open>
  The printed form of a path is exact: the length reported is that of the text, the text and its
  terminator are stored when they fit, otherwise the call reports a short buffer, and no character at
  or after the capacity changes.
\<close>

theorem path_string_exact:
  assumes "path_wf p" "list_all printable (path_view p)" "capacity \<le> length dst"
  shows "\<exists>dst'. length dst' = length dst \<and> drop capacity dst' = drop capacity dst \<and>
    (if length (path_text p) < capacity
     then tlv_diagnostic_path_string (Some p) (Some dst) capacity = (TLV_OK, Some dst', Some (length (path_text p))) \<and>
          take (Suc (length (path_text p))) dst' = path_text p @ [CHR 0x00]
     else tlv_diagnostic_path_string (Some p) (Some dst) capacity =
          (TLV_ERR_BUFFER_TOO_SHORT, Some dst', Some (length (path_text p))))"
proof -
  let ?s = "path_text p"
  obtain st where st: "printed capacity (Some dst) ?s st"
    and r: "tlv_diagnostic_path_string (Some p) (Some dst) capacity =
       (if length ?s < capacity
        then (TLV_OK, put_char (length ?s) (CHR 0x00) (fst st), Some (length ?s))
        else (TLV_ERR_BUFFER_TOO_SHORT,
              (if capacity \<noteq> 0 then put_char 0 (CHR 0x00) (fst st) else fst st), Some (length ?s)))"
    by (rule path_string_printed [OF assms(1,2), of "Some dst" capacity]) (use assms(3) in auto)
  from st obtain b where b: "fst st = Some b" "length b = length dst" "drop capacity b = drop capacity dst"
    "length ?s < capacity \<Longrightarrow> take (length ?s) b = ?s" by (auto simp: printed_Some)
  show ?thesis
    using r b assms(3)
    by (cases "length ?s < capacity") (auto simp: put_char_def take_Suc_update drop_update_cancel)
qed

definition two_tag_path :: tlv_diagnostic_path_t where
  "two_tag_path = path0\<lparr>path_tags := tlv_tag (Ptr 0 [0x6F]) 1 # tlv_tag (Ptr 4 [0x9F, 0x02]) 2 #
     replicate 30 (tlv_tag Null 0), path_length := 2\<rparr>"

theorem path_string_exact_witness:
  "\<exists>dst'. tlv_diagnostic_path_string (Some two_tag_path) (Some ''................'') 12 = (TLV_OK, Some dst', Some 9) \<and>
     take 10 dst' = ''6F > 9F02'' @ [CHR 0x00] \<and> drop 12 dst' = ''....''"
proof -
  have wf: "path_wf two_tag_path"
    by (simp add: two_tag_path_def path_wf_def path0_def TLV_DIAGNOSTIC_PATH_MAX_def)
  have v: "list_all printable (path_view two_tag_path)"
    by (simp add: two_tag_path_def path_view_def printable_def tag_wf_def)
  have t: "path_text two_tag_path = ''6F > 9F02''" by code_simp
  have l: "length (path_text two_tag_path) = 9" by (simp add: t)
  have c: "12 \<le> length ''................''" by simp
  from path_string_exact [OF wf v c, unfolded l, unfolded t] obtain dst' where
    "drop 12 dst' = drop 12 ''................''"
    "if (9 :: nat) < 12
     then tlv_diagnostic_path_string (Some two_tag_path) (Some ''................'') 12 = (TLV_OK, Some dst', Some 9) \<and>
          take (Suc 9) dst' = ''6F > 9F02'' @ [CHR 0x00]
     else tlv_diagnostic_path_string (Some two_tag_path) (Some ''................'') 12 =
          (TLV_ERR_BUFFER_TOO_SHORT, Some dst', Some 9)"
    by (elim exE conjE) (rule that)
  then show ?thesis by (intro exI [of _ dst']) simp
qed

text \<open>
  Popping a path undoes the last push, whether the tag was stored or only counted as omitted, as long
  as the counter of omitted tags is below its maximum.
\<close>

theorem path_pop_undoes_push:
  assumes "path_wf p" "path_omitted p < SIZE_MAX" "tlv_diagnostic_path_push (Some p) t = (rc, Some p')"
  shows "path_wf p' \<and> path_wf (tlv_diagnostic_path_pop p') \<and>
    path_view (tlv_diagnostic_path_pop p') = path_view p \<and>
    path_omitted (tlv_diagnostic_path_pop p') = path_omitted p"
  using path_push_pop [OF assms] path_wf_push [OF assms(1,3)] path_wf_pop by blast

theorem path_pop_undoes_push_witness:
  "\<exists>p'. tlv_diagnostic_path_push (Some path0) (tlv_tag (Ptr 0 [0x6F]) 1) = (TLV_OK, Some p') \<and>
     path_view (tlv_diagnostic_path_pop p') = []"
proof -
  have wf: "path_wf path0" by (simp add: path_wf_def path0_def)
  obtain p' where p: "tlv_diagnostic_path_push (Some path0) (tlv_tag (Ptr 0 [0x6F]) 1) = (TLV_OK, Some p')"
    by (simp add: tlv_diagnostic_path_push_def path0_def TLV_DIAGNOSTIC_PATH_MAX_def)
  from path_pop_undoes_push [OF wf _ p] p show ?thesis
    by (auto simp: path_view_def path0_def SIZE_MAX_def)
qed

text \<open>
  Moving a location to another origin never yields a malformed or wrapped location: it stays unknown,
  becomes unknown when an end would exceed \<^verbatim>\<open>SIZE_MAX\<close>, or both ends move by exactly the origin.
\<close>

theorem location_translate_exact:
  assumes "location_wf l" "loc_end l \<le> SIZE_MAX" "origin \<le> SIZE_MAX"
  shows "location_wf (tlv_location_translate l origin) \<and>
    (if loc_kind l = TLV_LOCATION_UNKNOWN then tlv_location_translate l origin = l
     else if loc_end l + origin \<le> SIZE_MAX
     then tlv_location_translate l origin = l\<lparr>loc_begin := loc_begin l + origin, loc_end := loc_end l + origin\<rparr>
     else tlv_location_translate l origin = location0)"
  using assms location_wf_translate [OF assms(1), of origin]
  by (auto simp: tlv_location_translate_def location_wf_def location0_def)

theorem location_translate_exact_witness:
  "tlv_location_translate (tlv_location_set TLV_LOCATION_INPUT TLV_LOCATION_SPAN 3 8) 100 =
     \<lparr>loc_domain = TLV_LOCATION_INPUT, loc_kind = TLV_LOCATION_SPAN, loc_begin = 103, loc_end = 108\<rparr>"
proof -
  let ?l = "tlv_location_set TLV_LOCATION_INPUT TLV_LOCATION_SPAN 3 8"
  have l: "?l = \<lparr>loc_domain = TLV_LOCATION_INPUT, loc_kind = TLV_LOCATION_SPAN, loc_begin = 3, loc_end = 8\<rparr>"
    by code_simp
  from location_translate_exact [of ?l 100] location_wf_set [of TLV_LOCATION_INPUT TLV_LOCATION_SPAN 3 8] show ?thesis
    by (simp add: l SIZE_MAX_def)
qed

end
