(* ===== verification/TLV_Format.thy ===== *)
theory TLV_Format
  imports TLV_Core
begin

unbundle bit_operations_syntax

text \<open>
  The wire-to-element contract (\<^verbatim>\<open>format.h\<close>, \<^verbatim>\<open>format.c\<close>).  A format is a record of optional
  callbacks, each already applied to its immutable context.  The core checks what a callback
  returns: the lemmas show that whatever the decoder does, a published result partitions the
  encoded element and borrows from the input, and that measured sizes add up without wrapping.

  An optional output pointer (\<^verbatim>\<open>error\<close>) is an \<open>option\<close> in the result: the detail stored when the
  caller passed one.  \<^verbatim>\<open>tlv_source_t.format\<close> is only compared with \<^verbatim>\<open>NULL\<close> and is a \<open>bool\<close>.
\<close>

section \<open>Types (format.h)\<close>

record tlv_constructed_bit_t =
  cb_byte_index :: nat
  cb_mask :: u8
  cb_value :: u8

record tlv_range_t =
  rg_offset :: nat
  rg_size :: nat
  rg_present :: bool

datatype tlv_region_t =
  TLV_REGION_HEADER | TLV_REGION_TAG | TLV_REGION_LENGTH | TLV_REGION_VALUE | TLV_REGION_TRAILER

record tlv_format_error_t =
  fe_region :: tlv_region_t
  fe_offset :: nat
  fe_has_offset :: bool
  fe_required :: nat
  fe_has_required :: bool
  fe_tag :: tlv_range_t
  fe_length :: tlv_range_t
  fe_value :: tlv_range_t

record tlv_encoding_t =
  en_header :: nat
  en_value :: nat
  en_trailer :: nat
  en_total :: nat

datatype tlv_tag_binding_t =
  TLV_TAG_BINDING_SOURCE | TLV_TAG_BINDING_FORMAT | TLV_TAG_BINDING_OTHER int

record tlv_source_t =
  src_data :: ptr
  src_size :: nat
  src_header :: tlv_range_t
  src_tag :: tlv_range_t
  src_length :: tlv_range_t
  src_value :: tlv_range_t
  src_trailer :: tlv_range_t
  src_element :: tlv_element_t
  src_format :: bool
  src_tag_binding :: tlv_tag_binding_t

record tlv_decoded_t =
  dec_element :: tlv_element_t
  dec_source :: tlv_source_t

text \<open>The \<^verbatim>\<open>= {0}\<close> initialisers.\<close>

definition range0 :: tlv_range_t where
  "range0 = \<lparr>rg_offset = 0, rg_size = 0, rg_present = False\<rparr>"

definition error0 :: tlv_format_error_t where
  "error0 = \<lparr>fe_region = TLV_REGION_HEADER, fe_offset = 0, fe_has_offset = False, fe_required = 0,
     fe_has_required = False, fe_tag = range0, fe_length = range0, fe_value = range0\<rparr>"

definition encoding0 :: tlv_encoding_t where
  "encoding0 = \<lparr>en_header = 0, en_value = 0, en_trailer = 0, en_total = 0\<rparr>"

definition element0 :: tlv_element_t where
  "element0 = \<lparr>elem_tag = \<lparr>tag_data = Null, tag_size = 0\<rparr>, elem_value = \<lparr>val_data = Null, val_size = 0\<rparr>\<rparr>"

definition source0 :: tlv_source_t where
  "source0 = \<lparr>src_data = Null, src_size = 0, src_header = range0, src_tag = range0,
     src_length = range0, src_value = range0, src_trailer = range0, src_element = element0,
     src_format = False, src_tag_binding = TLV_TAG_BINDING_SOURCE\<rparr>"

definition decoded0 :: tlv_decoded_t where
  "decoded0 = \<lparr>dec_element = element0, dec_source = source0\<rparr>"

type_synonym tlv_decode_fn =
  "ptr \<Rightarrow> nat \<Rightarrow> tlv_decoded_t \<Rightarrow> tlv_format_error_t
     \<Rightarrow> tlv_result_t \<times> tlv_decoded_t \<times> tlv_format_error_t"

type_synonym tlv_measure_fn =
  "tlv_element_t \<Rightarrow> tlv_encoding_t \<Rightarrow> tlv_format_error_t
     \<Rightarrow> tlv_result_t \<times> tlv_encoding_t \<times> tlv_format_error_t"

type_synonym tlv_encode_fn =
  "tlv_element_t \<Rightarrow> obuf \<Rightarrow> nat \<Rightarrow> nat \<Rightarrow> tlv_format_error_t
     \<Rightarrow> tlv_result_t \<times> obuf \<times> nat \<times> tlv_format_error_t"

record tlv_format_t =
  fmt_decode :: "tlv_decode_fn option"
  fmt_measure :: "tlv_measure_fn option"
  fmt_encode :: "tlv_encode_fn option"
  fmt_is_constructed :: "(tlv_tag_t \<Rightarrow> bool) option"

section \<open>Operations (format.c)\<close>

definition tlv_constructed_bit_predicate ::
  "tlv_constructed_bit_t option \<Rightarrow> tlv_tag_t option \<Rightarrow> bool" where
  "tlv_constructed_bit_predicate context tag =
     (case (context, tag) of
        (Some b, Some t) \<Rightarrow>
          cb_mask b \<noteq> 0 \<and> cb_value b AND NOT (cb_mask b) = 0 \<and> tag_data t \<noteq> Null \<and>
          cb_byte_index b < tag_size t \<and>
          byte_at (tag_data t) (cb_byte_index b) AND cb_mask b = cb_value b
      | _ \<Rightarrow> False)"

definition tlv_format_init ::
  "bool \<Rightarrow> tlv_decode_fn option \<Rightarrow> tlv_measure_fn option \<Rightarrow> tlv_encode_fn option
     \<Rightarrow> tlv_result_t \<times> tlv_format_t option" where
  "tlv_format_init format_ok decode measure_fn encode =
     (if \<not> format_ok \<or> ((measure_fn \<noteq> None) \<noteq> (encode \<noteq> None)) \<or> (decode = None \<and> encode = None)
      then (TLV_ERR_INVALID_ARG, None)
      else (TLV_OK, Some \<lparr>fmt_decode = decode, fmt_measure = measure_fn, fmt_encode = encode,
                         fmt_is_constructed = None\<rparr>))"

definition tlv_format_can_read :: "tlv_format_t option \<Rightarrow> bool" where
  "tlv_format_can_read format = (case format of None \<Rightarrow> False | Some f \<Rightarrow> fmt_decode f \<noteq> None)"

definition tlv_format_can_write :: "tlv_format_t option \<Rightarrow> bool" where
  "tlv_format_can_write format =
     (case format of None \<Rightarrow> False | Some f \<Rightarrow> fmt_measure f \<noteq> None \<and> fmt_encode f \<noteq> None)"

definition range_valid :: "tlv_range_t \<Rightarrow> nat \<Rightarrow> bool" where
  "range_valid r sz \<longleftrightarrow> \<not> rg_present r \<or> (rg_offset r \<le> sz \<and> rg_size r \<le> sz - rg_offset r)"

definition bytes_equal :: "ptr \<Rightarrow> ptr \<Rightarrow> nat \<Rightarrow> bool" where
  "bytes_equal a b sz \<longleftrightarrow>
     sz = 0 \<or> (a \<noteq> Null \<and> b \<noteq> Null \<and> memcmp (take sz (bytes a)) (take sz (bytes b)) = 0)"

definition tag_binding_valid :: "tlv_decoded_t \<Rightarrow> ptr \<Rightarrow> bool" where
  "tag_binding_valid result data =
     (let source = dec_source result; tag = elem_tag (dec_element result) in
      case src_tag_binding source of
        TLV_TAG_BINDING_SOURCE \<Rightarrow>
          (if rg_present (src_tag source)
           then tag_size tag = rg_size (src_tag source) \<and>
                tag_data tag = ptr_add data (rg_offset (src_tag source))
           else tag_size tag = 0 \<and> tag_data tag = Null)
      | TLV_TAG_BINDING_FORMAT \<Rightarrow> tag_data tag \<noteq> Null
      | TLV_TAG_BINDING_OTHER i \<Rightarrow> False)"

text \<open>The source check of a successful decode: the negation of the condition in the code.\<close>

definition source_valid :: "tlv_decoded_t \<Rightarrow> ptr \<Rightarrow> nat \<Rightarrow> bool" where
  "source_valid result data sz \<longleftrightarrow>
     (let s = dec_source result in
      \<not> (\<not> rg_present (src_header s) \<or> \<not> rg_present (src_value s) \<or> \<not> rg_present (src_trailer s) \<or>
         src_size s = 0 \<or> src_size s > sz \<or> rg_offset (src_header s) \<noteq> 0 \<or>
         \<not> range_valid (src_header s) (src_size s) \<or> \<not> range_valid (src_value s) (src_size s) \<or>
         \<not> range_valid (src_trailer s) (src_size s) \<or> \<not> range_valid (src_tag s) (src_size s) \<or>
         \<not> range_valid (src_length s) (src_size s) \<or>
         rg_offset (src_value s) \<noteq> rg_size (src_header s) \<or>
         rg_offset (src_trailer s) \<noteq> rg_offset (src_value s) + rg_size (src_value s) \<or>
         rg_size (src_trailer s) \<noteq> src_size s - rg_offset (src_trailer s) \<or>
         val_size (elem_value (dec_element result)) \<noteq> rg_size (src_value s) \<or>
         val_data (elem_value (dec_element result)) \<noteq> ptr_add data (rg_offset (src_value s)) \<or>
         \<not> tag_binding_valid result data))"

definition clip_range :: "nat \<Rightarrow> tlv_range_t \<Rightarrow> tlv_range_t" where
  "clip_range sz r = (if range_valid r sz then r else r\<lparr>rg_present := False\<rparr>)"

definition clip_error :: "nat \<Rightarrow> tlv_format_error_t \<Rightarrow> tlv_format_error_t" where
  "clip_error sz e = e\<lparr>fe_tag := clip_range sz (fe_tag e), fe_length := clip_range sz (fe_length e),
                       fe_value := clip_range sz (fe_value e)\<rparr>"

definition tlv_format_decode ::
  "tlv_format_t option \<Rightarrow> ptr \<Rightarrow> nat \<Rightarrow> bool
     \<Rightarrow> tlv_result_t \<times> tlv_decoded_t option \<times> tlv_format_error_t option" where
  "tlv_format_decode format data sz decoded_ok =
     (if \<not> tlv_format_can_read format \<or> \<not> decoded_ok \<or> (data = Null \<and> sz \<noteq> 0)
      then (TLV_ERR_NULL_ARG, None, Some error0)
      else if sz = 0 then (TLV_END, None, Some (error0\<lparr>fe_has_offset := True\<rparr>))
      else case the (fmt_decode (the format)) data sz decoded0 error0 of
        (rc, result, detail) \<Rightarrow>
          let rc = tlv_callback_result rc False;
              rc = (if rc = TLV_ERR_BUFFER_TOO_SHORT then TLV_ERR_CALLBACK else rc);
              rc = (if rc = TLV_OK \<and> \<not> source_valid result data sz then TLV_ERR_CALLBACK else rc)
          in if rc \<noteq> TLV_OK then (rc, None, Some (clip_error sz detail))
             else (TLV_OK,
                   Some (result\<lparr>dec_source := (dec_source result)\<lparr>src_data := data, src_format := True,
                           src_element := dec_element result\<rparr>\<rparr>),
                   None))"

definition tlv_format_measure ::
  "tlv_format_t option \<Rightarrow> tlv_element_t option \<Rightarrow> bool
     \<Rightarrow> tlv_result_t \<times> tlv_encoding_t option \<times> tlv_format_error_t option" where
  "tlv_format_measure format element encoding_ok =
     (case element of None \<Rightarrow> (TLV_ERR_NULL_ARG, None, None)
      | Some el \<Rightarrow>
          if \<not> tlv_format_can_write format \<or> \<not> encoding_ok \<or>
             (tag_size (elem_tag el) \<noteq> 0 \<and> tag_data (elem_tag el) = Null)
          then (TLV_ERR_NULL_ARG, None, None)
          else case the (fmt_measure (the format)) el encoding0 error0 of
            (rc, result, detail) \<Rightarrow>
              let rc = tlv_callback_result rc False;
                  rc = (if rc = TLV_OK then
                          (case tlv_size_add (en_header result) (en_value result) True of
                             (rc, tot) \<Rightarrow>
                               case (if rc = TLV_OK
                                     then tlv_size_add (out tot 0) (en_trailer result) True
                                     else (rc, tot)) of
                                 (rc, tot) \<Rightarrow>
                                   if rc \<noteq> TLV_OK \<or> out tot 0 = 0 \<or>
                                      en_value result \<noteq> val_size (elem_value el) \<or>
                                      en_total result \<noteq> out tot 0
                                   then TLV_ERR_CALLBACK else TLV_OK)
                        else rc)
              in if rc \<noteq> TLV_OK then (rc, None, Some detail) else (TLV_OK, Some result, None))"

definition tlv_format_encode ::
  "tlv_format_t option \<Rightarrow> tlv_element_t option \<Rightarrow> obuf \<Rightarrow> nat \<Rightarrow> bool
     \<Rightarrow> tlv_result_t \<times> obuf \<times> nat option \<times> tlv_format_error_t option" where
  "tlv_format_encode format element data capacity written_ok =
     (case element of None \<Rightarrow> (TLV_ERR_NULL_ARG, data, None, None)
      | Some el \<Rightarrow>
          if \<not> written_ok \<or> (data = None \<and> capacity \<noteq> 0) \<or>
             (val_data (elem_value el) = Null \<and> val_size (elem_value el) \<noteq> 0)
          then (TLV_ERR_NULL_ARG, data, None, None)
          else case tlv_format_measure format element True of
            (rc, sizes, error) \<Rightarrow>
              if rc \<noteq> TLV_OK then (rc, data, None, error)
              else case tlv_size_to_native (en_total (out sizes encoding0)) True of
                (rc, native) \<Rightarrow>
                  if rc \<noteq> TLV_OK then (rc, data, None, None)
                  else let tot = out native 0 in
                    if capacity < tot
                    then (TLV_ERR_BUFFER_TOO_SHORT, data, Some tot,
                          Some (error0\<lparr>fe_region := TLV_REGION_VALUE, fe_has_offset := True,
                                  fe_has_required := True,
                                  fe_required := en_total (out sizes encoding0)\<rparr>))
                    else case the (fmt_encode (the format)) el data capacity 0 error0 of
                      (rc, data', used, detail) \<Rightarrow>
                        let rc = tlv_callback_result rc False;
                            rc = (if rc = TLV_OK \<and> used \<noteq> tot then TLV_ERR_CALLBACK else rc)
                        in if rc \<noteq> TLV_OK then (rc, data', None, Some detail)
                           else (TLV_OK, data', Some used, None))"

definition tlv_source_preserve ::
  "tlv_source_t option \<Rightarrow> tlv_element_t option \<Rightarrow> obuf \<Rightarrow> nat \<Rightarrow> bool
     \<Rightarrow> tlv_result_t \<times> obuf \<times> nat option" where
  "tlv_source_preserve source element data capacity written_ok =
     (case (source, element) of
        (Some s, Some el) \<Rightarrow>
          if \<not> written_ok \<or> (data = None \<and> capacity \<noteq> 0) \<or> \<not> src_format s \<or> src_data s = Null
          then (TLV_ERR_NULL_ARG, data, None)
          else let tag = elem_tag el; stag = elem_tag (src_element s);
                   val = elem_value el; sval = elem_value (src_element s) in
            if (tag_size tag = 0 \<and> ((tag_data tag \<noteq> Null) \<noteq> (tag_data stag \<noteq> Null))) \<or>
               tag_size tag \<noteq> tag_size stag \<or> val_size val \<noteq> val_size sval
            then (TLV_ERR_INVALID_ARG, data, None)
            else case tlv_size_to_native (val_size val) True of
              (rc, native) \<Rightarrow>
                if rc \<noteq> TLV_OK then (rc, data, None)
                else if \<not> bytes_equal (tag_data tag) (tag_data stag) (tag_size tag) \<or>
                        \<not> bytes_equal (val_data val) (val_data sval) (out native 0)
                then (TLV_ERR_INVALID_ARG, data, None)
                else if data \<noteq> None \<and> capacity < src_size s
                then (TLV_ERR_BUFFER_TOO_SHORT, data, Some (src_size s))
                else (TLV_OK, obuf_blit 0 (take (src_size s) (bytes (src_data s))) data,
                      Some (src_size s))
      | _ \<Rightarrow> (TLV_ERR_NULL_ARG, data, None))"

section \<open>What a published decode guarantees\<close>

text \<open>
  The partition promised by \<^verbatim>\<open>format.h\<close>: header, value and trailer follow each other without gap,
  fill the element, and the value borrows exactly its range of the input.
\<close>

definition partitioned :: "tlv_decoded_t \<Rightarrow> ptr \<Rightarrow> nat \<Rightarrow> bool" where
  "partitioned d data sz \<longleftrightarrow>
     (let s = dec_source d in
      rg_present (src_header s) \<and> rg_present (src_value s) \<and> rg_present (src_trailer s) \<and>
      0 < src_size s \<and> src_size s \<le> sz \<and> rg_offset (src_header s) = 0 \<and>
      rg_offset (src_value s) = rg_size (src_header s) \<and>
      rg_offset (src_trailer s) = rg_size (src_header s) + rg_size (src_value s) \<and>
      rg_size (src_header s) + rg_size (src_value s) + rg_size (src_trailer s) = src_size s \<and>
      range_valid (src_tag s) (src_size s) \<and> range_valid (src_length s) (src_size s) \<and>
      elem_value (dec_element d) =
        \<lparr>val_data = ptr_add data (rg_size (src_header s)), val_size = rg_size (src_value s)\<rparr> \<and>
      tag_binding_valid d data)"

lemma source_valid_iff: "source_valid d data sz \<longleftrightarrow> partitioned d data sz"
proof -
  have "v = \<lparr>val_data = val_data v, val_size = val_size v\<rparr>" for v :: tlv_value_t by simp
  then show ?thesis
    by (auto simp: source_valid_def partitioned_def range_valid_def Let_def)
qed

lemma tlv_format_decode_cases:
  obtains (error) rc e where "tlv_format_decode f data sz ok = (rc, None, Some e)" "rc \<noteq> TLV_OK"
  | (ok) d where "tlv_format_decode f data sz ok = (TLV_OK, Some d, None)"
proof -
  have "(\<exists>rc e. tlv_format_decode f data sz ok = (rc, None, Some e) \<and> rc \<noteq> TLV_OK) \<or>
        (\<exists>d. tlv_format_decode f data sz ok = (TLV_OK, Some d, None))"
    unfolding tlv_format_decode_def Let_def by (auto split: prod.split)
  then show thesis using that by blast
qed

text \<open>The result of a successful decode, as a function of what the callback stored.\<close>

definition publish :: "ptr \<Rightarrow> tlv_decoded_t \<Rightarrow> tlv_decoded_t" where
  "publish data r = r\<lparr>dec_source := (dec_source r)\<lparr>src_data := data, src_format := True,
     src_element := dec_element r\<rparr>\<rparr>"

lemma publish_simps [simp]:
  "dec_element (publish data r) = dec_element r"
  "src_data (dec_source (publish data r)) = data"
  "src_size (dec_source (publish data r)) = src_size (dec_source r)"
  "src_header (dec_source (publish data r)) = src_header (dec_source r)"
  "src_value (dec_source (publish data r)) = src_value (dec_source r)"
  "src_tag (dec_source (publish data r)) = src_tag (dec_source r)"
  "src_length (dec_source (publish data r)) = src_length (dec_source r)"
  "src_trailer (dec_source (publish data r)) = src_trailer (dec_source r)"
  "src_element (dec_source (publish data r)) = dec_element r"
  "src_format (dec_source (publish data r))"
  "src_tag_binding (dec_source (publish data r)) = src_tag_binding (dec_source r)"
  by (simp_all add: publish_def)

lemma partitioned_publish [simp]: "partitioned (publish p r) data sz = partitioned r data sz"
  by (simp add: partitioned_def tag_binding_valid_def Let_def split: tlv_tag_binding_t.split)

lemma tlv_format_decode_OK_iff:
  "tlv_format_decode (Some f) data sz True = (TLV_OK, od, oe) \<longleftrightarrow>
     (\<exists>dec r e. fmt_decode f = Some dec \<and> data \<noteq> Null \<and> 0 < sz \<and>
        dec data sz decoded0 error0 = (TLV_OK, r, e) \<and> partitioned r data sz \<and>
        od = Some (publish data r) \<and> oe = None)"
  unfolding tlv_format_decode_def source_valid_iff publish_def tlv_format_can_read_def Let_def
  by (auto split: prod.split if_splits)

lemma tlv_format_decode_callback_error:
  assumes "fmt_decode f = Some dec" "data \<noteq> Null" "0 < sz"
    and "dec data sz decoded0 error0 = (rc, r, e)" "rc = TLV_ERR_TRUNCATED"
  shows "fst (tlv_format_decode (Some f) data sz True) = TLV_ERR_TRUNCATED"
  using assms by (simp add: tlv_format_decode_def tlv_format_can_read_def tlv_callback_result_def)

text \<open>The trailer, value and header of a published element are slices of the input.\<close>

lemma partitioned_slices:
  assumes "partitioned d data sz" "readable data sz"
  shows "take (src_size (dec_source d)) (bytes data) =
           take (rg_size (src_header (dec_source d))) (bytes data) @
           value_bytes (elem_value (dec_element d)) @
           take (rg_size (src_trailer (dec_source d)))
             (drop (rg_offset (src_trailer (dec_source d))) (bytes data))"
proof -
  let ?s = "dec_source d"
  have sz: "src_size ?s = rg_size (src_header ?s) + (rg_size (src_value ?s) + rg_size (src_trailer ?s))"
    and off: "rg_offset (src_trailer ?s) = rg_size (src_header ?s) + rg_size (src_value ?s)"
    and v: "elem_value (dec_element d) =
      \<lparr>val_data = ptr_add data (rg_size (src_header ?s)), val_size = rg_size (src_value ?s)\<rparr>"
    using assms(1) by (auto simp: partitioned_def Let_def)
  show ?thesis
    unfolding sz off take_add value_bytes_def v by (simp add: drop_drop add.commute)
qed

text \<open>The sizes a callback stores are \<^verbatim>\<open>uint64_t\<close>; only the header bound is needed.\<close>

lemma tlv_format_measure_OK:
  assumes "tlv_format_measure f (Some el) True = (TLV_OK, oen, oe)"
  obtains en where "oen = Some en" "oe = None" "en_value en = val_size (elem_value el)"
    "en_header en \<le> TLV_SIZE_MAX \<Longrightarrow>
       en_total en = en_header en + en_value en + en_trailer en \<and> 0 < en_total en \<and>
       en_total en \<le> TLV_SIZE_MAX"
proof -
  from assms obtain en where en: "oen = Some en" "oe = None"
    and v: "en_value en = val_size (elem_value el)"
    and s: "\<exists>t1 t2. tlv_size_add (en_header en) (en_value en) True = (TLV_OK, t1) \<and>
       tlv_size_add (out t1 0) (en_trailer en) True = (TLV_OK, t2) \<and> out t2 0 \<noteq> 0 \<and>
       en_total en = out t2 0"
    unfolding tlv_format_measure_def Let_def by (auto split: prod.splits if_splits)
  from s show thesis
    by (intro that [OF en v]) (auto simp: tlv_size_add_iff split: if_splits)
qed

lemma tlv_format_measure_callback:
  assumes "fmt_measure f = Some m" "fmt_encode f = Some enc"
    and "tag_size (elem_tag el) = 0 \<or> tag_data (elem_tag el) \<noteq> Null"
    and "m el encoding0 error0 = (TLV_OK, en, e)" "en_value en = val_size (elem_value el)"
    and "en_total en = en_header en + en_value en + en_trailer en" "0 < en_total en"
    and "en_total en \<le> TLV_SIZE_MAX"
  shows "tlv_format_measure (Some f) (Some el) True = (TLV_OK, Some en, None)"
  using assms by (simp add: tlv_format_measure_def tlv_format_can_write_def)

lemma tlv_format_encode_callback:
  assumes "tlv_format_measure (Some f) (Some el) True = (TLV_OK, Some en, None)"
    and "en_total en \<le> SIZE_MAX" "en_total en \<le> capacity" "fmt_encode f = Some enc"
    and "val_size (elem_value el) = 0 \<or> val_data (elem_value el) \<noteq> Null"
    and "enc el (Some buf) capacity 0 error0 = (TLV_OK, buf', en_total en, e)"
  shows "tlv_format_encode (Some f) (Some el) (Some buf) capacity True =
           (TLV_OK, buf', Some (en_total en), None)"
  using assms by (auto simp: tlv_format_encode_def)

end
