(* ===== verification/TLV_Format_Interface.thy ===== *)
theory TLV_Format_Interface
  imports TLV_Format
begin

text \<open>
  The contract of a format towards Reader and Writer, as locales.  \<open>prefix_decoder\<close>: a decoder
  recognises an element by its own octets, so that more input does not change the answer and less
  input is reported as truncated.  \<open>format_codec\<close>: measurement is exact, encoding writes the wire
  form and nothing else, and the wire form decodes to an equal element.
\<close>

definition element_wf :: "tlv_element_t \<Rightarrow> bool" where
  "element_wf el \<longleftrightarrow>
     tag_wf (elem_tag el) \<and> value_wf (elem_value el) \<and> tag_size (elem_tag el) \<le> SIZE_MAX"

text \<open>Equal identifier and equal value bytes, the equality of \<^verbatim>\<open>format.h\<close>'s round trip.\<close>

definition same_content :: "tlv_element_t \<Rightarrow> tlv_element_t \<Rightarrow> bool" where
  "same_content a b \<longleftrightarrow>
     tag_bytes (elem_tag a) = tag_bytes (elem_tag b) \<and>
     value_bytes (elem_value a) = value_bytes (elem_value b)"

lemma same_content_refl [simp]: "same_content a a"
  by (simp add: same_content_def)

lemma same_content_sym: "same_content a b \<Longrightarrow> same_content b a"
  by (simp add: same_content_def)

lemma same_content_trans: "same_content a b \<Longrightarrow> same_content b c \<Longrightarrow> same_content a c"
  by (simp add: same_content_def)

locale prefix_decoder =
  fixes decode :: tlv_decode_fn
  assumes decode_partition:
    "readable p n \<Longrightarrow> 0 < n \<Longrightarrow> decode p n decoded0 error0 = (TLV_OK, r, e) \<Longrightarrow> partitioned r p n"
  and decode_stable:
    "readable p n \<Longrightarrow> 0 < n \<Longrightarrow> decode p n decoded0 error0 = (TLV_OK, r, e) \<Longrightarrow>
     readable p m \<Longrightarrow> src_size (dec_source r) \<le> m \<Longrightarrow> decode p m decoded0 error0 = (TLV_OK, r, e)"
  and decode_short:
    "readable p n \<Longrightarrow> 0 < n \<Longrightarrow> decode p n decoded0 error0 = (TLV_OK, r, e) \<Longrightarrow>
     0 < m \<Longrightarrow> m < src_size (dec_source r) \<Longrightarrow> fst (decode p m decoded0 error0) = TLV_ERR_TRUNCATED"
begin

text \<open>The same, through the checking entry point.\<close>

lemma format_decode_OK:
  assumes "fmt_decode f = Some decode" "readable p n" "0 < n" "decode p n decoded0 error0 = (TLV_OK, r, e)"
  shows "tlv_format_decode (Some f) p n True = (TLV_OK, Some (publish p r), None)"
  using assms decode_partition [OF assms(2-4)] by (auto simp: tlv_format_decode_OK_iff)

lemma format_decode_inv:
  assumes f: "fmt_decode f = Some decode" and r: "readable p n"
    and ok: "tlv_format_decode (Some f) p n True = (TLV_OK, od, oe)"
  obtains d where "od = Some d" "oe = None" "partitioned d p n" "src_data (dec_source d) = p"
    "\<And>m. readable p m \<Longrightarrow> src_size (dec_source d) \<le> m \<Longrightarrow>
       tlv_format_decode (Some f) p m True = (TLV_OK, Some d, None)"
    "\<And>m. 0 < m \<Longrightarrow> m < src_size (dec_source d) \<Longrightarrow>
       fst (tlv_format_decode (Some f) p m True) = TLV_ERR_TRUNCATED"
proof -
  from ok f obtain rr e where nz: "p \<noteq> Null" "0 < n" and dec: "decode p n decoded0 error0 = (TLV_OK, rr, e)"
    and out: "od = Some (publish p rr)" "oe = None"
    unfolding tlv_format_decode_OK_iff by auto
  have part: "partitioned rr p n" by (rule decode_partition [OF r nz(2) dec])
  then have sz: "0 < src_size (dec_source rr)" by (simp add: partitioned_def Let_def)
  show thesis
  proof (rule that [OF out])
    show "partitioned (publish p rr) p n" using part by simp
    show "src_data (dec_source (publish p rr)) = p" by simp
    show "tlv_format_decode (Some f) p m True = (TLV_OK, Some (publish p rr), None)"
      if m: "readable p m" "src_size (dec_source (publish p rr)) \<le> m" for m
    proof -
      have "src_size (dec_source rr) \<le> m" using m(2) by simp
      from decode_stable [OF r nz(2) dec m(1) this] sz this show ?thesis
        by (intro format_decode_OK [OF f m(1)]) auto
    qed
    show "fst (tlv_format_decode (Some f) p m True) = TLV_ERR_TRUNCATED"
      if m: "0 < m" "m < src_size (dec_source (publish p rr))" for m
    proof -
      have "m < src_size (dec_source rr)" using m(2) by simp
      then have t: "fst (decode p m decoded0 error0) = TLV_ERR_TRUNCATED"
        by (rule decode_short [OF r nz(2) dec m(1)])
      then obtain a b where "decode p m decoded0 error0 = (TLV_ERR_TRUNCATED, a, b)"
        by (metis prod.exhaust_sel)
      then show ?thesis by (rule tlv_format_decode_callback_error [OF f nz(1) m(1)]) simp
    qed
  qed
qed

end

locale format_codec = prefix_decoder decode
  for decode :: tlv_decode_fn +
  fixes measure_fn :: tlv_measure_fn and encode_fn :: tlv_encode_fn and wire :: "tlv_element_t \<Rightarrow> u8 list"
  assumes measure_exact:
    "element_wf el \<Longrightarrow> measure_fn el encoding0 error0 = (TLV_OK, en, e) \<Longrightarrow>
     en_value en = val_size (elem_value el) \<and> en_total en = en_header en + en_value en + en_trailer en \<and>
     0 < en_total en \<and> en_total en \<le> TLV_SIZE_MAX \<and> length (wire el) = en_total en"
  and encode_wire:
    "element_wf el \<Longrightarrow> fst (measure_fn el encoding0 error0) = TLV_OK \<Longrightarrow> length (wire el) \<le> cap \<Longrightarrow>
     cap \<le> length buf \<Longrightarrow>
     encode_fn el (Some buf) cap 0 error0 = (TLV_OK, Some (blit 0 (wire el) buf), length (wire el), error0)"
  and decode_wire:
    "element_wf el \<Longrightarrow> fst (measure_fn el encoding0 error0) = TLV_OK \<Longrightarrow> length (wire el) \<le> n \<Longrightarrow>
     readable q n \<Longrightarrow> take (length (wire el)) (bytes q) = wire el \<Longrightarrow>
     \<exists>r e. decode q n decoded0 error0 = (TLV_OK, r, e) \<and> src_size (dec_source r) = length (wire el) \<and>
         same_content (dec_element r) el"
begin

text \<open>A descriptor holding the three operations.\<close>

lemma codec_measure:
  assumes f: "fmt_measure f = Some measure_fn" "fmt_encode f = Some encode_fn"
    and wf: "element_wf el" and m: "fst (measure_fn el encoding0 error0) = TLV_OK"
  obtains en where "tlv_format_measure (Some f) (Some el) True = (TLV_OK, Some en, None)"
    "en_total en = length (wire el)" "0 < en_total en" "en_total en \<le> TLV_SIZE_MAX"
proof -
  obtain en e where en: "measure_fn el encoding0 error0 = (TLV_OK, en, e)"
    using m by (metis prod.exhaust_sel)
  note ex = measure_exact [OF wf en]
  have "tag_size (elem_tag el) = 0 \<or> tag_data (elem_tag el) \<noteq> Null"
    using wf by (auto simp: element_wf_def tag_wf_def)
  from tlv_format_measure_callback [OF f this en] ex show thesis
    by (intro that [of en]) auto
qed

lemma codec_encode:
  assumes f: "fmt_measure f = Some measure_fn" "fmt_encode f = Some encode_fn"
    and wf: "element_wf el" and m: "fst (measure_fn el encoding0 error0) = TLV_OK"
    and cap: "length (wire el) \<le> cap" "cap \<le> length buf"
  shows "tlv_format_encode (Some f) (Some el) (Some buf) cap True =
           (TLV_OK, Some (blit 0 (wire el) buf), Some (length (wire el)), None)"
proof (rule codec_measure [OF f wf m])
  fix en
  assume en: "tlv_format_measure (Some f) (Some el) True = (TLV_OK, Some en, None)"
    "en_total en = length (wire el)" "en_total en \<le> TLV_SIZE_MAX"
  have "val_size (elem_value el) = 0 \<or> val_data (elem_value el) \<noteq> Null"
    using wf by (auto simp: element_wf_def value_wf_def)
  moreover have "en_total en \<le> SIZE_MAX" using en by (simp add: SIZE_MAX_def TLV_SIZE_MAX_def)
  ultimately show ?thesis
    using tlv_format_encode_callback [OF en(1) _ _ f(2)] encode_wire [OF wf m cap] en(2) cap by simp
qed

text \<open>Encoding followed by decoding gives back the element, whatever follows it in the buffer.\<close>

lemma codec_roundtrip:
  assumes f: "fmt_decode f = Some decode" "fmt_measure f = Some measure_fn" "fmt_encode f = Some encode_fn"
    and wf: "element_wf el" and m: "fst (measure_fn el encoding0 error0) = TLV_OK"
    and cap: "length (wire el) \<le> cap" "cap \<le> length buf"
  shows "\<exists>buf'. tlv_format_encode (Some f) (Some el) (Some buf) cap True =
             (TLV_OK, Some buf', Some (length (wire el)), None) \<and>
           length buf' = length buf \<and> drop (length (wire el)) buf' = drop (length (wire el)) buf \<and>
           (\<forall>n a. length (wire el) \<le> n \<longrightarrow> n \<le> length buf' \<longrightarrow>
              (\<exists>d. tlv_format_decode (Some f) (Ptr a buf') n True = (TLV_OK, Some d, None) \<and>
                 src_size (dec_source d) = length (wire el) \<and> same_content (dec_element d) el))"
proof -
  let ?w = "wire el" and ?b = "blit 0 (wire el) buf"
  have pos: "0 < length ?w" by (rule codec_measure [OF f(2,3) wf m]) simp
  have "\<exists>d. tlv_format_decode (Some f) (Ptr a ?b) n True = (TLV_OK, Some d, None) \<and>
      src_size (dec_source d) = length ?w \<and> same_content (dec_element d) el"
    if n: "length ?w \<le> n" "n \<le> length ?b" for n a
  proof -
    have rd: "readable (Ptr a ?b) n" using n by simp
    have "take (length ?w) (bytes (Ptr a ?b)) = ?w" by (simp add: blit_0)
    from decode_wire [OF wf m n(1) rd this] obtain r e
      where "decode (Ptr a ?b) n decoded0 error0 = (TLV_OK, r, e)" "src_size (dec_source r) = length ?w"
        "same_content (dec_element r) el" by blast
    with format_decode_OK [OF f(1) rd] pos n show ?thesis by auto
  qed
  with codec_encode [OF f(2,3) wf m cap] cap show ?thesis
    by (intro exI [of _ ?b]) (simp add: blit_0)
qed

end

end
