(* ===== verification/TLV_Reader.thy ===== *)
theory TLV_Reader
  imports TLV_Format_Interface TLV_Diagnostic
begin

text \<open>
  The sequential reader (\<^verbatim>\<open>reader/reader.c\<close>): a window of borrowed input, a position, the absolute
  offset of the window and whether more input may follow.  \<open>reader_valid\<close> is the code's own
  invariant.  The lemmas show that every operation keeps it, that a failed step changes nothing,
  that a successful one makes progress, and that reading an input in growing windows gives the same
  elements as reading it at once.

  An optional \<^verbatim>\<open>source\<close> or \<^verbatim>\<open>diagnostic\<close> pointer is an \<open>option\<close> in the result; \<open>diag\<close> tells whether
  the caller passed a diagnostic.
\<close>

section \<open>Types (reader/diagnostic.h, reader/reader.h)\<close>

datatype tlv_reader_operation_t =
    TLV_READER_OP_TAG | TLV_READER_OP_LENGTH | TLV_READER_OP_VALUE | TLV_READER_OP_TRAILER
  | TLV_READER_OP_HEADER | TLV_READER_OP_OTHER int

fun tlv_reader_operation_string :: "tlv_reader_operation_t \<Rightarrow> string" where
  "tlv_reader_operation_string TLV_READER_OP_TAG = ''tag''"
| "tlv_reader_operation_string TLV_READER_OP_LENGTH = ''length''"
| "tlv_reader_operation_string TLV_READER_OP_VALUE = ''value''"
| "tlv_reader_operation_string TLV_READER_OP_TRAILER = ''trailer''"
| "tlv_reader_operation_string TLV_READER_OP_HEADER = ''header''"
| "tlv_reader_operation_string (TLV_READER_OP_OTHER i) = ''unknown''"

record tlv_reader_detail_t =
  rdt_operation :: tlv_reader_operation_t
  rdt_has_tag :: bool
  rdt_tag :: tlv_tag_t
  rdt_has_tag_offset :: bool
  rdt_tag_offset :: nat
  rdt_has_length_offset :: bool
  rdt_length_offset :: nat
  rdt_has_value_offset :: bool
  rdt_value_offset :: nat
  rdt_has_declared_length :: bool
  rdt_declared_length :: nat
  rdt_has_raw_length :: bool
  rdt_raw_length :: tlv_length_t
  rdt_has_available :: bool
  rdt_available :: nat
  rdt_has_enclosing_end :: bool
  rdt_enclosing_end :: nat
  rdt_has_required :: bool
  rdt_required :: nat

record tlv_reader_diagnostic_t =
  rdd_diagnostic :: tlv_diagnostic_t
  rdd_detail :: tlv_reader_detail_t

record tlv_reader_t =
  rd_format :: "tlv_format_t option"
  rd_data :: ptr
  rd_size :: nat
  rd_pos :: nat
  rd_base_offset :: nat
  rd_final_input :: int

section \<open>Diagnostics of a failed read\<close>

definition reader_detail0 :: tlv_reader_detail_t where
  "reader_detail0 =
     \<lparr>rdt_operation = TLV_READER_OP_TAG, rdt_has_tag = False, rdt_tag = tlv_tag Null 0,
      rdt_has_tag_offset = False, rdt_tag_offset = 0, rdt_has_length_offset = False,
      rdt_length_offset = 0, rdt_has_value_offset = False, rdt_value_offset = 0,
      rdt_has_declared_length = False, rdt_declared_length = 0, rdt_has_raw_length = False,
      rdt_raw_length = \<lparr>len_data = Null, len_size = 0\<rparr>, rdt_has_available = False,
      rdt_available = 0, rdt_has_enclosing_end = False, rdt_enclosing_end = 0,
      rdt_has_required = False, rdt_required = 0\<rparr>"

definition tlv_reader_diagnostic_init :: tlv_reader_diagnostic_t where
  "tlv_reader_diagnostic_init =
     \<lparr>rdd_diagnostic = tlv_diagnostic_init TLV_OK TLV_DIAGNOSTIC_SEVERITY_ERROR,
      rdd_detail = reader_detail0\<rparr>"

definition diag_start :: "tlv_result_t \<Rightarrow> tlv_reader_operation_t \<Rightarrow> nat \<Rightarrow> tlv_reader_diagnostic_t" where
  "diag_start code operation offset =
     tlv_reader_diagnostic_init
       \<lparr>rdd_diagnostic :=
          tlv_diagnostic_set_location
            (tlv_diagnostic_init code
               (if code = TLV_NEED_MORE_DATA \<or> code = TLV_END then TLV_DIAGNOSTIC_SEVERITY_INFO
                else TLV_DIAGNOSTIC_SEVERITY_ERROR))
            TLV_LOCATION_INPUT TLV_LOCATION_POINT offset offset,
        rdd_detail := reader_detail0\<lparr>rdt_operation := operation\<rparr>\<rparr>"

definition clear_location :: "tlv_reader_diagnostic_t \<Rightarrow> tlv_reader_diagnostic_t" where
  "clear_location d = d\<lparr>rdd_diagnostic := (rdd_diagnostic d)\<lparr>diag_location := location0\<rparr>\<rparr>"

definition region_operation :: "tlv_region_t \<Rightarrow> tlv_reader_operation_t" where
  "region_operation region =
     (case region of TLV_REGION_TAG \<Rightarrow> TLV_READER_OP_TAG | TLV_REGION_LENGTH \<Rightarrow> TLV_READER_OP_LENGTH
      | TLV_REGION_VALUE \<Rightarrow> TLV_READER_OP_VALUE | TLV_REGION_TRAILER \<Rightarrow> TLV_READER_OP_TRAILER
      | TLV_REGION_HEADER \<Rightarrow> TLV_READER_OP_HEADER)"

definition read_diagnostic ::
  "ptr \<Rightarrow> nat \<Rightarrow> tlv_result_t \<Rightarrow> tlv_format_error_t \<Rightarrow> tlv_reader_diagnostic_t" where
  "read_diagnostic data sz rc error =
     (let d = diag_start rc (region_operation (fe_region error)) (fe_offset error);
          d = (if \<not> fe_has_offset error \<or> fe_offset error > sz then clear_location d else d);
          tag = fe_tag error; len = fe_length error; val = fe_value error;
          raw = (rg_present len \<and> rg_size len \<noteq> 0);
          avail = (fe_has_offset error \<and> fe_offset error \<le> sz)
      in d\<lparr>rdd_detail := (rdd_detail d)
            \<lparr>rdt_has_tag_offset := rg_present tag, rdt_tag_offset := rg_offset tag,
             rdt_has_tag := rg_present tag,
             rdt_tag := (if rg_present tag then tlv_tag (ptr_add data (rg_offset tag)) (rg_size tag)
                         else tlv_tag Null 0),
             rdt_has_length_offset := rg_present len, rdt_length_offset := rg_offset len,
             rdt_has_raw_length := raw,
             rdt_raw_length := (if raw then \<lparr>len_data = ptr_add data (rg_offset len), len_size = rg_size len\<rparr>
                                else \<lparr>len_data = Null, len_size = 0\<rparr>),
             rdt_has_value_offset := (rg_present val \<or> fe_region error = TLV_REGION_VALUE),
             rdt_value_offset := (if rg_present val then rg_offset val else fe_offset error),
             rdt_has_declared_length := (fe_has_required error \<and> fe_region error = TLV_REGION_VALUE),
             rdt_declared_length := fe_required error,
             rdt_has_required := fe_has_required error, rdt_required := fe_required error,
             rdt_has_available := avail,
             rdt_available := (if avail then sz - fe_offset error else 0),
             rdt_has_enclosing_end := True, rdt_enclosing_end := sz\<rparr>\<rparr>)"

section \<open>Operations (reader/reader.c)\<close>

definition tlv_read_impl ::
  "ptr \<Rightarrow> nat \<Rightarrow> tlv_format_t option \<Rightarrow> bool \<Rightarrow> bool
     \<Rightarrow> tlv_result_t \<times> (tlv_element_t \<times> nat \<times> tlv_source_t) option \<times> tlv_reader_diagnostic_t option" where
  "tlv_read_impl data sz format outs diag =
     (if \<not> outs then (TLV_ERR_NULL_ARG, None, None)
      else case tlv_format_decode format data sz True of
        (rc, odecoded, oerror) \<Rightarrow>
          if rc = TLV_OK
          then let d = the odecoded in
               (TLV_OK, Some (dec_element d, src_size (dec_source d), dec_source d), None)
          else (rc, None, if diag then Some (read_diagnostic data sz rc (out oerror error0)) else None))"

definition tlv_reader_init ::
  "bool \<Rightarrow> ptr \<Rightarrow> nat \<Rightarrow> tlv_format_t option \<Rightarrow> tlv_result_t \<times> tlv_reader_t option" where
  "tlv_reader_init reader_ok data sz format =
     (if \<not> reader_ok \<or> (data = Null \<and> sz \<noteq> 0) \<or> \<not> tlv_format_can_read format then (TLV_ERR_NULL_ARG, None)
      else (TLV_OK, Some \<lparr>rd_format = format, rd_data = data, rd_size = sz, rd_pos = 0,
                         rd_base_offset = 0, rd_final_input = 1\<rparr>))"

definition tlv_reader_init_incremental ::
  "bool \<Rightarrow> ptr \<Rightarrow> nat \<Rightarrow> tlv_format_t option \<Rightarrow> tlv_result_t \<times> tlv_reader_t option" where
  "tlv_reader_init_incremental reader_ok data sz format =
     (case tlv_reader_init reader_ok data sz format of
        (rc, r) \<Rightarrow> (rc, if rc = TLV_OK then map_option (\<lambda>r. r\<lparr>rd_final_input := 0\<rparr>) r else r))"

definition reader_valid :: "tlv_reader_t option \<Rightarrow> tlv_result_t" where
  "reader_valid reader =
     (case reader of None \<Rightarrow> TLV_ERR_NULL_ARG
      | Some r \<Rightarrow>
          if (rd_data r = Null \<and> rd_size r \<noteq> 0) \<or> \<not> tlv_format_can_read (rd_format r) then TLV_ERR_NULL_ARG
          else if rd_pos r > rd_size r \<or> (rd_final_input r \<noteq> 0 \<and> rd_final_input r \<noteq> 1)
          then TLV_ERR_INVALID_ARG
          else if rd_size r > SIZE_MAX - rd_base_offset r then TLV_ERR_OVERFLOW
          else TLV_OK)"

definition tlv_reader_set_input ::
  "tlv_reader_t option \<Rightarrow> ptr \<Rightarrow> nat \<Rightarrow> nat \<Rightarrow> int \<Rightarrow> tlv_result_t \<times> tlv_reader_t option" where
  "tlv_reader_set_input reader data sz discard final_input =
     (let rc = reader_valid reader in
      if rc \<noteq> TLV_OK then (rc, reader)
      else if data = Null \<and> sz \<noteq> 0 then (TLV_ERR_NULL_ARG, reader)
      else let r = the reader in
        if discard > rd_pos r \<or> (final_input \<noteq> 0 \<and> final_input \<noteq> 1) then (TLV_ERR_INVALID_ARG, reader)
        else let retained = rd_size r - discard in
          if sz < retained then (TLV_ERR_INVALID_ARG, reader)
          else if rd_final_input r \<noteq> 0 \<and> (final_input = 0 \<or> sz \<noteq> retained)
          then (TLV_ERR_INVALID_STATE, reader)
          else let base = rd_base_offset r + discard in
            if sz > SIZE_MAX - base then (TLV_ERR_OVERFLOW, reader)
            else (TLV_OK, Some (r\<lparr>rd_data := data, rd_size := sz, rd_pos := rd_pos r - discard,
                                 rd_base_offset := base, rd_final_input := final_input\<rparr>)))"

definition tlv_reader_consumed :: "tlv_reader_t option \<Rightarrow> nat" where
  "tlv_reader_consumed reader = (case reader of None \<Rightarrow> 0 | Some r \<Rightarrow> rd_pos r)"

definition tlv_reader_offset :: "tlv_reader_t option \<Rightarrow> nat" where
  "tlv_reader_offset reader =
     (case reader of None \<Rightarrow> 0 | Some r \<Rightarrow> (rd_base_offset r + rd_pos r) mod 2 ^ 64)"

definition tlv_reader_at_end :: "tlv_reader_t option \<Rightarrow> bool" where
  "tlv_reader_at_end reader =
     (case reader of None \<Rightarrow> False | Some r \<Rightarrow> rd_final_input r \<noteq> 0 \<and> rd_pos r = rd_size r)"

definition tlv_read ::
  "ptr \<Rightarrow> nat \<Rightarrow> tlv_format_t option \<Rightarrow> bool \<Rightarrow> tlv_result_t \<times> (tlv_element_t \<times> nat) option" where
  "tlv_read data sz format outs =
     (case tlv_read_impl data sz format outs False of
        (rc, res, _) \<Rightarrow> (rc, map_option (\<lambda>(e, n, s). (e, n)) res))"

definition tlv_read_diag ::
  "ptr \<Rightarrow> nat \<Rightarrow> tlv_format_t option \<Rightarrow> bool \<Rightarrow> bool
     \<Rightarrow> tlv_result_t \<times> (tlv_element_t \<times> nat) option \<times> tlv_reader_diagnostic_t option" where
  "tlv_read_diag data sz format outs diag =
     (case tlv_read_impl data sz format outs diag of
        (rc, res, d) \<Rightarrow> (rc, map_option (\<lambda>(e, n, s). (e, n)) res, d))"

definition tlv_read_source_diag ::
  "ptr \<Rightarrow> nat \<Rightarrow> tlv_format_t option \<Rightarrow> bool \<Rightarrow> bool \<Rightarrow> bool
     \<Rightarrow> tlv_result_t \<times> (tlv_element_t \<times> nat \<times> tlv_source_t) option \<times> tlv_reader_diagnostic_t option" where
  "tlv_read_source_diag data sz format outs source_ok diag =
     (if \<not> source_ok then (TLV_ERR_NULL_ARG, None, None) else tlv_read_impl data sz format outs diag)"

text \<open>The diagnostic of a failed step, moved to absolute offsets.\<close>

definition translate_diagnostic ::
  "nat \<Rightarrow> nat \<Rightarrow> tlv_result_t \<Rightarrow> tlv_reader_diagnostic_t \<Rightarrow> tlv_reader_diagnostic_t" where
  "translate_diagnostic remaining offset rc d =
     (let diag = rdd_diagnostic d; det = rdd_detail d;
          loc = diag_location diag;
          loc = (if loc_begin loc > remaining then loc\<lparr>loc_kind := TLV_LOCATION_UNKNOWN\<rparr> else loc);
          hv = (rdt_has_value_offset det \<and> \<not> rdt_value_offset det > remaining)
      in d\<lparr>rdd_diagnostic := diag\<lparr>diag_location := tlv_location_translate loc offset, diag_code := rc,
             diag_severity := (if rc = TLV_NEED_MORE_DATA then TLV_DIAGNOSTIC_SEVERITY_INFO
                               else diag_severity diag)\<rparr>,
           rdd_detail := det\<lparr>rdt_has_value_offset := hv,
             rdt_tag_offset := (if rdt_has_tag_offset det then rdt_tag_offset det + offset
                                else rdt_tag_offset det),
             rdt_length_offset := (if rdt_has_length_offset det then rdt_length_offset det + offset
                                   else rdt_length_offset det),
             rdt_value_offset := (if hv then rdt_value_offset det + offset else rdt_value_offset det),
             rdt_enclosing_end := (if rdt_has_enclosing_end det then rdt_enclosing_end det + offset
                                   else rdt_enclosing_end det)\<rparr>\<rparr>)"

definition reader_next ::
  "tlv_reader_t option \<Rightarrow> bool \<Rightarrow> bool
     \<Rightarrow> tlv_result_t \<times> tlv_reader_t option \<times> (tlv_element_t \<times> tlv_source_t) option \<times>
        tlv_reader_diagnostic_t option" where
  "reader_next reader out_ok diag =
     (let rc = reader_valid reader;
          rc = (if rc = TLV_OK \<and> \<not> out_ok then TLV_ERR_NULL_ARG else rc) in
      if rc \<noteq> TLV_OK
      then (rc, reader, None,
            if diag then Some (clear_location (diag_start rc TLV_READER_OP_HEADER (tlv_reader_consumed reader)))
            else None)
      else let r = the reader; offset = tlv_reader_offset reader in
        if rd_pos r = rd_size r
        then let rc = (if rd_final_input r \<noteq> 0 then TLV_END else TLV_NEED_MORE_DATA) in
             (rc, reader, None,
              if diag then
                Some (let d = diag_start rc TLV_READER_OP_HEADER offset in
                      d\<lparr>rdd_detail := (rdd_detail d)\<lparr>rdt_has_available := True,
                          rdt_has_enclosing_end := True, rdt_enclosing_end := offset\<rparr>\<rparr>)
              else None)
        else case tlv_read_impl (ptr_add (rd_data r) (rd_pos r)) (rd_size r - rd_pos r) (rd_format r) True diag of
          (rc, res, d) \<Rightarrow>
            let rc = (if rc = TLV_ERR_TRUNCATED \<and> rd_final_input r = 0 then TLV_NEED_MORE_DATA else rc) in
            if rc = TLV_OK
            then (case the res of
                    (el, consumed, src) \<Rightarrow>
                      (TLV_OK, Some (r\<lparr>rd_pos := rd_pos r + consumed\<rparr>), Some (el, src), None))
            else (rc, reader, None, map_option (translate_diagnostic (rd_size r - rd_pos r) offset rc) d))"

definition tlv_reader_next_diag ::
  "tlv_reader_t option \<Rightarrow> bool \<Rightarrow> bool
     \<Rightarrow> tlv_result_t \<times> tlv_reader_t option \<times> tlv_element_t option \<times> tlv_reader_diagnostic_t option" where
  "tlv_reader_next_diag reader out_ok diag =
     (case reader_next reader out_ok diag of (rc, r, res, d) \<Rightarrow> (rc, r, map_option fst res, d))"

definition tlv_reader_next ::
  "tlv_reader_t option \<Rightarrow> bool \<Rightarrow> tlv_result_t \<times> tlv_reader_t option \<times> tlv_element_t option" where
  "tlv_reader_next reader out_ok =
     (case tlv_reader_next_diag reader out_ok False of (rc, r, res, d) \<Rightarrow> (rc, r, res))"

definition tlv_reader_next_source_diag ::
  "tlv_reader_t option \<Rightarrow> bool \<Rightarrow> bool \<Rightarrow> bool
     \<Rightarrow> tlv_result_t \<times> tlv_reader_t option \<times> (tlv_element_t \<times> tlv_source_t) option \<times>
        tlv_reader_diagnostic_t option" where
  "tlv_reader_next_source_diag reader out_ok source_ok diag =
     (if \<not> source_ok
      then (TLV_ERR_NULL_ARG, reader, None,
            if diag then Some (diag_start TLV_ERR_NULL_ARG TLV_READER_OP_HEADER 0) else None)
      else reader_next reader out_ok diag)"

section \<open>Invariant and progress\<close>

text \<open>The code's own check, with the memory the window promises.\<close>

definition reader_wf :: "tlv_reader_t \<Rightarrow> bool" where
  "reader_wf r \<longleftrightarrow> reader_valid (Some r) = TLV_OK \<and> readable (rd_data r) (rd_size r) \<and>
     rd_base_offset r \<le> SIZE_MAX"

lemma reader_valid_OK:
  "reader_valid (Some r) = TLV_OK \<longleftrightarrow>
     (rd_data r = Null \<longrightarrow> rd_size r = 0) \<and> tlv_format_can_read (rd_format r) \<and> rd_pos r \<le> rd_size r \<and>
     (rd_final_input r = 0 \<or> rd_final_input r = 1) \<and> rd_size r \<le> SIZE_MAX - rd_base_offset r"
  by (auto simp: reader_valid_def)

lemma reader_init_wf:
  "tlv_reader_init True data sz format = (TLV_OK, Some r) \<Longrightarrow> readable data sz \<Longrightarrow> sz \<le> SIZE_MAX \<Longrightarrow>
   reader_wf r \<and> tlv_reader_offset (Some r) = 0"
  by (auto simp: tlv_reader_init_def reader_wf_def reader_valid_OK tlv_reader_offset_def split: if_splits)

lemma reader_next_error:
  assumes "reader_next reader out_ok diag = (rc, reader', res, d)" "rc \<noteq> TLV_OK"
  shows "reader' = reader \<and> res = None"
  using assms by (auto simp: reader_next_def Let_def split: prod.splits if_splits)

text \<open>A successful step publishes exactly what the format decoded at the current position.\<close>

lemma reader_next_OK:
  assumes "reader_next (Some r) out_ok diag = (TLV_OK, reader', res, d)"
  obtains dec where "out_ok" "reader_valid (Some r) = TLV_OK" "rd_pos r < rd_size r"
    "tlv_format_decode (rd_format r) (ptr_add (rd_data r) (rd_pos r)) (rd_size r - rd_pos r) True =
       (TLV_OK, Some dec, None)"
    "partitioned dec (ptr_add (rd_data r) (rd_pos r)) (rd_size r - rd_pos r)"
    "reader' = Some (r\<lparr>rd_pos := rd_pos r + src_size (dec_source dec)\<rparr>)"
    "res = Some (dec_element dec, dec_source dec)" "d = None"
proof -
  let ?p = "ptr_add (rd_data r) (rd_pos r)" and ?n = "rd_size r - rd_pos r"
  from assms have v: "reader_valid (Some r) = TLV_OK" "out_ok" and pos: "rd_pos r \<noteq> rd_size r"
    by (auto simp: reader_next_def Let_def split: if_splits prod.splits)
  then have lt: "rd_pos r < rd_size r" by (auto simp: reader_valid_OK)
  from v obtain f where f: "rd_format r = Some f"
    by (cases "rd_format r") (auto simp: reader_valid_OK tlv_format_can_read_def)
  show thesis
  proof (cases "tlv_format_decode (rd_format r) ?p ?n True" rule: prod_cases3)
    case (fields rc od oe)
    from assms v pos fields have ok: "rc = TLV_OK"
      by (auto simp: reader_next_def tlv_read_impl_def Let_def split: if_splits)
    then obtain dec where dec: "od = Some dec" "oe = None" "partitioned dec ?p ?n"
      using fields tlv_format_decode_OK_iff [of f ?p ?n od oe] f by fastforce
    with assms v pos fields ok lt show thesis
      by (intro that [of dec]) (auto simp: reader_next_def tlv_read_impl_def Let_def f)
  qed
qed

lemma reader_next_progress:
  assumes wf: "reader_wf r" and ok: "reader_next (Some r) out_ok diag = (TLV_OK, reader', res, d)"
  obtains r' where "reader' = Some r'" "reader_wf r'" "rd_pos r < rd_pos r'" "rd_pos r' \<le> rd_size r"
    "rd_data r' = rd_data r" "rd_size r' = rd_size r" "rd_base_offset r' = rd_base_offset r"
    "rd_format r' = rd_format r" "rd_final_input r' = rd_final_input r"
proof (rule reader_next_OK [OF ok])
  fix dec
  assume lt: "rd_pos r < rd_size r"
    and part: "partitioned dec (ptr_add (rd_data r) (rd_pos r)) (rd_size r - rd_pos r)"
    and r': "reader' = Some (r\<lparr>rd_pos := rd_pos r + src_size (dec_source dec)\<rparr>)"
  have "0 < src_size (dec_source dec)" "src_size (dec_source dec) \<le> rd_size r - rd_pos r"
    using part by (auto simp: partitioned_def Let_def)
  with wf lt show thesis
    by (intro that [OF r']) (auto simp: reader_wf_def reader_valid_OK)
qed

text \<open>Replacing the window keeps the invariant and the absolute position.\<close>

lemma reader_set_input_OK:
  assumes "tlv_reader_set_input (Some r) data sz discard fin = (TLV_OK, reader')"
  shows "reader' = Some (r\<lparr>rd_data := data, rd_size := sz, rd_pos := rd_pos r - discard,
            rd_base_offset := rd_base_offset r + discard, rd_final_input := fin\<rparr>)"
    and "discard \<le> rd_pos r" "rd_size r - discard \<le> sz" "reader_valid (Some r) = TLV_OK"
    and "rd_final_input r = 0 \<or> (fin = 1 \<and> sz = rd_size r - discard)"
    and "reader_valid reader' = TLV_OK"
proof -
  from assms show r': "reader' = Some (r\<lparr>rd_data := data, rd_size := sz, rd_pos := rd_pos r - discard,
            rd_base_offset := rd_base_offset r + discard, rd_final_input := fin\<rparr>)"
    and d: "discard \<le> rd_pos r" and s: "rd_size r - discard \<le> sz" and v: "reader_valid (Some r) = TLV_OK"
    and "rd_final_input r = 0 \<or> (fin = 1 \<and> sz = rd_size r - discard)"
    by (auto simp: tlv_reader_set_input_def Let_def split: if_splits)
  from assms have "data = Null \<longrightarrow> sz = 0" "fin = 0 \<or> fin = 1" "sz \<le> SIZE_MAX - (rd_base_offset r + discard)"
    by (auto simp: tlv_reader_set_input_def Let_def split: if_splits)
  with r' d s v show "reader_valid reader' = TLV_OK"
    by (auto simp: reader_valid_OK)
qed

lemma reader_set_input_offset:
  assumes "tlv_reader_set_input (Some r) data sz discard fin = (TLV_OK, Some r')"
  shows "tlv_reader_offset (Some r') = tlv_reader_offset (Some r)"
  using reader_set_input_OK [OF assms] by (auto simp: tlv_reader_offset_def)

lemma reader_set_input_error:
  "tlv_reader_set_input reader data sz discard fin = (rc, reader') \<Longrightarrow> rc \<noteq> TLV_OK \<Longrightarrow> reader' = reader"
  by (auto simp: tlv_reader_set_input_def Let_def split: if_splits)

lemma reader_wf_bound: "reader_wf r \<Longrightarrow> rd_base_offset r + rd_size r \<le> SIZE_MAX"
  by (auto simp: reader_wf_def reader_valid_OK)

lemma reader_offset_exact: "reader_wf r \<Longrightarrow> tlv_reader_offset (Some r) = rd_base_offset r + rd_pos r"
  using reader_wf_bound [of r]
  by (auto simp: reader_wf_def reader_valid_OK tlv_reader_offset_def SIZE_MAX_def)

lemma reader_set_input_wf:
  assumes "reader_wf r" "readable data sz"
    and "tlv_reader_set_input (Some r) data sz discard fin = (TLV_OK, Some r')"
  shows "reader_wf r'"
  using reader_set_input_OK [OF assms(3)] assms reader_wf_bound [OF assms(1)]
  by (auto simp: reader_wf_def reader_valid_OK)

section \<open>Reading in windows\<close>

text \<open>
  A reader looks at the octets \<open>base .. base + size\<close> of a stream; \<open>stream_at P n k f\<close> is the reader of
  the whole stream \<open>P\<close> of \<open>n\<close> octets at absolute position \<open>k\<close>.
\<close>

definition window_of :: "ptr \<Rightarrow> nat \<Rightarrow> tlv_reader_t \<Rightarrow> bool" where
  "window_of P n r \<longleftrightarrow>
     reader_wf r \<and> rd_data r = ptr_add P (rd_base_offset r) \<and> rd_base_offset r + rd_size r \<le> n"

definition stream_at :: "ptr \<Rightarrow> nat \<Rightarrow> nat \<Rightarrow> tlv_format_t \<Rightarrow> tlv_reader_t" where
  "stream_at P n k f =
     \<lparr>rd_format = Some f, rd_data = P, rd_size = n, rd_pos = k, rd_base_offset = 0, rd_final_input = 1\<rparr>"

context prefix_decoder
begin

text \<open>An element read from a window is the element the whole stream has at that position.\<close>

lemma window_next_OK:
  assumes P: "readable P n" "n \<le> SIZE_MAX" and w: "window_of P n r"
    and f: "rd_format r = Some f" "fmt_decode f = Some decode"
    and ok: "reader_next (Some r) True False = (TLV_OK, Some r', Some (el, src), d)"
  shows "reader_next (Some (stream_at P n (rd_base_offset r + rd_pos r) f)) True False =
      (TLV_OK, Some (stream_at P n (rd_base_offset r' + rd_pos r') f), Some (el, src), None)"
    and "window_of P n r'"
proof -
  let ?k = "rd_base_offset r + rd_pos r"
  let ?p = "ptr_add (rd_data r) (rd_pos r)" and ?m = "rd_size r - rd_pos r"
  have wf: "reader_wf r" and data: "?p = ptr_add P ?k" and bnd: "rd_base_offset r + rd_size r \<le> n"
    using w by (auto simp: window_of_def)
  show "window_of P n r'"
    by (rule reader_next_progress [OF wf ok]) (use w in \<open>auto simp: window_of_def\<close>)
  show "reader_next (Some (stream_at P n ?k f)) True False =
      (TLV_OK, Some (stream_at P n (rd_base_offset r' + rd_pos r') f), Some (el, src), None)"
  proof (rule reader_next_OK [OF ok])
    fix dec
    assume lt: "rd_pos r < rd_size r" and dec: "tlv_format_decode (rd_format r) ?p ?m True = (TLV_OK, Some dec, None)"
      and part: "partitioned dec ?p ?m"
      and r': "Some r' = Some (r\<lparr>rd_pos := rd_pos r + src_size (dec_source dec)\<rparr>)"
      and res: "Some (el, src) = Some (dec_element dec, dec_source dec)"
    have rp: "readable ?p ?m" using wf lt by (auto simp: reader_wf_def readable_def)
    have big: "readable ?p (n - ?k)" using P(1) unfolding data by (auto simp: readable_def)
    have sz: "src_size (dec_source dec) \<le> n - ?k"
      using part bnd lt by (auto simp: partitioned_def Let_def)
    have "tlv_format_decode (Some f) ?p (n - ?k) True = (TLV_OK, Some dec, None)"
      by (rule format_decode_inv [OF f(2) rp dec [unfolded f(1)]]) (use big sz in simp)
    moreover have "P \<noteq> Null" using rp lt data by auto
    ultimately show ?thesis
      using lt bnd P(2) r' res f(2) unfolding data
      by (simp add: reader_next_def stream_at_def tlv_read_impl_def Let_def reader_valid_OK
          tlv_format_can_read_def)
  qed
qed

text \<open>
  Conversely a window that holds the whole next element of the stream delivers it, and a shorter
  window asks for more input, or reports truncation when no more can follow.
\<close>

lemma window_next_complete:
  assumes P: "readable P n" and w: "window_of P n r"
    and f: "rd_format r = Some f" "fmt_decode f = Some decode" and lt: "rd_pos r < rd_size r"
    and ok: "tlv_format_decode (Some f) (ptr_add P (rd_base_offset r + rd_pos r))
               (n - (rd_base_offset r + rd_pos r)) True = (TLV_OK, Some dec, None)"
  shows "rd_pos r + src_size (dec_source dec) \<le> rd_size r \<Longrightarrow>
      \<exists>r'. reader_next (Some r) True False = (TLV_OK, Some r', Some (dec_element dec, dec_source dec), None)"
    and "rd_size r < rd_pos r + src_size (dec_source dec) \<Longrightarrow>
      reader_next (Some r) True False =
        ((if rd_final_input r = 0 then TLV_NEED_MORE_DATA else TLV_ERR_TRUNCATED), Some r, None, None)"
proof -
  let ?k = "rd_base_offset r + rd_pos r"
  let ?p = "ptr_add (rd_data r) (rd_pos r)" and ?m = "rd_size r - rd_pos r"
  have wf: "reader_wf r" and data: "?p = ptr_add P ?k" and bnd: "rd_base_offset r + rd_size r \<le> n"
    using w by (auto simp: window_of_def)
  have rp: "readable ?p (n - ?k)" "readable ?p ?m"
    using P bnd lt unfolding data by (auto simp: readable_def)
  have v: "reader_valid (Some r) = TLV_OK" using wf by (simp add: reader_wf_def)
  note inv = format_decode_inv [OF f(2) rp(1) ok [folded data]]
  show "\<exists>r'. reader_next (Some r) True False = (TLV_OK, Some r', Some (dec_element dec, dec_source dec), None)"
    if s: "rd_pos r + src_size (dec_source dec) \<le> rd_size r"
  proof -
    have "tlv_format_decode (Some f) ?p ?m True = (TLV_OK, Some dec, None)"
      by (rule inv) (use rp(2) s in simp)
    with v lt f(1) show ?thesis by (simp add: reader_next_def tlv_read_impl_def Let_def)
  qed
  show "reader_next (Some r) True False =
      ((if rd_final_input r = 0 then TLV_NEED_MORE_DATA else TLV_ERR_TRUNCATED), Some r, None, None)"
    if s: "rd_size r < rd_pos r + src_size (dec_source dec)"
  proof -
    have "fst (tlv_format_decode (Some f) ?p ?m True) = TLV_ERR_TRUNCATED"
      by (rule inv) (use lt s in simp)
    then obtain a b where "tlv_format_decode (Some f) ?p ?m True = (TLV_ERR_TRUNCATED, a, b)"
      by (metis prod.exhaust_sel)
    with v lt f(1) show ?thesis by (simp add: reader_next_def tlv_read_impl_def Let_def)
  qed
qed

end

end
