(* ===== verification/TLV_Tree_Reader.thy ===== *)
theory TLV_Tree_Reader
  imports TLV_Reader
begin

text \<open>
  Structural traversal (\<^verbatim>\<open>reader/tree.c\<close>) and the visitors (\<^verbatim>\<open>reader/visitor.c\<close>).  The tree reader
  is a state machine over the sequential reader: a stack of frames holds, for every open
  constructed element, the end of its value and the position after it; the last constructed
  element is pending until its subtree is entered, skipped or closed.  \<open>tree_wf\<close> is its invariant;
  it implies that no frame position lies before the input window, so the differences the code
  computes never wrap.  The traversal is bounded by the element limit.
\<close>

section \<open>Types (tree.h, reader/tree.h)\<close>

datatype tlv_tree_event_kind_t = TLV_TREE_BEGIN | TLV_TREE_ELEMENT | TLV_TREE_END | TLV_TREE_OTHER int

record tlv_tree_event_t =
  ev_kind :: tlv_tree_event_kind_t
  ev_element :: tlv_element_t
  ev_source :: tlv_source_t
  ev_depth :: nat
  ev_offset :: nat
  ev_skipped :: bool

record tlv_tree_frame_t =
  fr_end :: nat
  fr_resume :: nat

record tlv_tree_item_t =
  it_element :: tlv_element_t
  it_source :: tlv_source_t
  it_depth :: nat
  it_offset :: nat
  it_constructed :: bool

record tlv_tree_reader_t =
  tr_input :: tlv_reader_t
  tr_frames :: "tlv_tree_frame_t list"
  tr_capacity :: nat
  tr_max_depth :: nat
  tr_max_elements :: nat
  tr_count :: nat
  tr_depth :: nat
  tr_pending :: tlv_tree_frame_t
  tr_descend_pending :: bool
  tr_end_pending :: bool
  tr_skipped :: bool
  tr_item_projection :: bool

definition event0 :: tlv_tree_event_t where
  "event0 = \<lparr>ev_kind = TLV_TREE_BEGIN, ev_element = element0, ev_source = source0, ev_depth = 0,
     ev_offset = 0, ev_skipped = False\<rparr>"

text \<open>Subtraction of \<^verbatim>\<open>size_t\<close>, which wraps.\<close>

definition size_sub :: "nat \<Rightarrow> nat \<Rightarrow> nat" where
  "size_sub a b = (a + 2 ^ 64 - b) mod 2 ^ 64"

section \<open>Operations (reader/tree.c)\<close>

text \<open>\<open>None\<close> is the return value 0; the event is the one passed in, updated.\<close>

definition close_event ::
  "tlv_tree_reader_t \<Rightarrow> tlv_tree_event_t \<Rightarrow> (tlv_tree_reader_t \<times> tlv_tree_event_t) option" where
  "close_event reader event =
     (let finish = (\<lambda>frame reader event.
            Some (reader\<lparr>tr_input := (tr_input reader)\<lparr>rd_pos :=
                      size_sub (fr_resume frame) (rd_base_offset (tr_input reader))\<rparr>\<rparr>,
                  event\<lparr>ev_kind := TLV_TREE_END, ev_offset := fr_end frame\<rparr>)) in
      if tr_end_pending reader
      then finish (tr_pending reader) (reader\<lparr>tr_end_pending := False, tr_skipped := False\<rparr>)
             (event\<lparr>ev_skipped := tr_skipped reader, ev_depth := tr_depth reader\<rparr>)
      else if \<not> tr_descend_pending reader \<and> tr_depth reader \<noteq> 0 \<and>
              tlv_reader_offset (Some (tr_input reader)) = fr_end (tr_frames reader ! (tr_depth reader - 1))
      then finish (tr_frames reader ! (tr_depth reader - 1)) (reader\<lparr>tr_depth := tr_depth reader - 1\<rparr>)
             (event\<lparr>ev_depth := tr_depth reader - 1\<rparr>)
      else None)"

lemma close_event_measure:
  "close_event r e = Some (r', e') \<Longrightarrow>
   tr_depth r' + (if tr_end_pending r' then 1 else 0) < tr_depth r + (if tr_end_pending r then 1 else 0)"
  by (auto simp: close_event_def Let_def split: if_splits)

function drain_loop :: "tlv_tree_reader_t \<Rightarrow> tlv_tree_event_t \<Rightarrow> tlv_tree_reader_t" where
  "drain_loop reader event =
     (case close_event reader event of None \<Rightarrow> reader | Some (r, e) \<Rightarrow> drain_loop r e)"
  by pat_completeness auto
termination
  by (relation "measure (\<lambda>(r, e). tr_depth r + (if tr_end_pending r then 1 else 0))")
    (auto dest: close_event_measure split: if_splits)

declare drain_loop.simps [simp del]

definition drain_ends :: "tlv_tree_reader_t \<Rightarrow> tlv_tree_reader_t" where
  "drain_ends reader = drain_loop reader event0"

text \<open>\<open>frames = None\<close> is a \<^verbatim>\<open>NULL\<close> frame array.\<close>

definition tlv_tree_reader_init ::
  "bool \<Rightarrow> ptr \<Rightarrow> nat \<Rightarrow> tlv_format_t option \<Rightarrow> tlv_tree_frame_t list option \<Rightarrow> nat \<Rightarrow> nat \<Rightarrow> nat
     \<Rightarrow> tlv_result_t \<times> tlv_tree_reader_t option" where
  "tlv_tree_reader_init reader_ok data sz format frames capacity max_depth max_elements =
     (if \<not> reader_ok \<or> (frames = None \<and> capacity \<noteq> 0) then (TLV_ERR_NULL_ARG, None)
      else case tlv_reader_init True data sz format of
        (rc, input) \<Rightarrow>
          if rc \<noteq> TLV_OK then (rc, None)
          else (TLV_OK, Some \<lparr>tr_input = the input, tr_frames = out frames [], tr_capacity = capacity,
                  tr_max_depth = max_depth, tr_max_elements = max_elements, tr_count = 0, tr_depth = 0,
                  tr_pending = \<lparr>fr_end = 0, fr_resume = 0\<rparr>, tr_descend_pending = False,
                  tr_end_pending = False, tr_skipped = False, tr_item_projection = False\<rparr>))"

definition tlv_tree_reader_init_incremental ::
  "bool \<Rightarrow> ptr \<Rightarrow> nat \<Rightarrow> tlv_format_t option \<Rightarrow> tlv_tree_frame_t list option \<Rightarrow> nat \<Rightarrow> nat \<Rightarrow> nat
     \<Rightarrow> tlv_result_t \<times> tlv_tree_reader_t option" where
  "tlv_tree_reader_init_incremental reader_ok data sz format frames capacity max_depth max_elements =
     (case tlv_tree_reader_init reader_ok data sz format frames capacity max_depth max_elements of
        (rc, r) \<Rightarrow>
          (rc, if rc = TLV_OK
               then map_option (\<lambda>r. r\<lparr>tr_input := (tr_input r)\<lparr>rd_final_input := 0\<rparr>\<rparr>) r else r))"

definition tlv_tree_reader_set_input ::
  "tlv_tree_reader_t option \<Rightarrow> ptr \<Rightarrow> nat \<Rightarrow> nat \<Rightarrow> int \<Rightarrow> tlv_result_t \<times> tlv_tree_reader_t option" where
  "tlv_tree_reader_set_input reader data sz discard final_input =
     (case reader of None \<Rightarrow> (TLV_ERR_NULL_ARG, None)
      | Some r \<Rightarrow>
          (case tlv_reader_set_input (Some (tr_input r)) data sz discard final_input of
             (rc, input) \<Rightarrow> (rc, Some (r\<lparr>tr_input := the input\<rparr>))))"

definition tlv_tree_reader_consumed :: "tlv_tree_reader_t option \<Rightarrow> nat" where
  "tlv_tree_reader_consumed reader =
     (case reader of None \<Rightarrow> 0 | Some r \<Rightarrow> tlv_reader_consumed (Some (tr_input r)))"

definition tlv_tree_reader_offset :: "tlv_tree_reader_t option \<Rightarrow> nat" where
  "tlv_tree_reader_offset reader =
     (case reader of None \<Rightarrow> 0 | Some r \<Rightarrow> tlv_reader_offset (Some (tr_input r)))"

definition tlv_tree_reader_at_end :: "tlv_tree_reader_t option \<Rightarrow> bool" where
  "tlv_tree_reader_at_end reader =
     (case reader of None \<Rightarrow> False
      | Some r \<Rightarrow> \<not> tr_descend_pending r \<and> \<not> tr_end_pending r \<and> tr_depth r = 0 \<and>
                  tlv_reader_at_end (Some (tr_input r)))"

text \<open>The input bounded by the innermost frame, or by the pending one when descending.\<close>

definition bound_input :: "tlv_reader_t \<Rightarrow> nat \<Rightarrow> tlv_reader_t" where
  "bound_input input end' =
     input\<lparr>rd_size := size_sub end' (rd_base_offset input), rd_final_input := 1\<rparr>"

text \<open>The updates after a successful read of one element.\<close>

definition tree_publish ::
  "tlv_tree_reader_t \<Rightarrow> nat \<Rightarrow> tlv_reader_t \<Rightarrow> tlv_element_t \<Rightarrow> tlv_source_t \<Rightarrow> bool \<Rightarrow> nat
     \<Rightarrow> tlv_tree_reader_t" where
  "tree_publish reader depth input el src constructed offset =
     (let start = offset + rg_offset (src_value src);
          nonempty = (val_size (elem_value el) \<noteq> 0);
          base = rd_base_offset input
      in reader\<lparr>tr_frames := (if tr_descend_pending reader
                             then (tr_frames reader)[tr_depth reader := tr_pending reader]
                             else tr_frames reader),
           tr_depth := depth, tr_count := tr_count reader + 1, tr_item_projection := False,
           tr_descend_pending := constructed \<and> nonempty, tr_end_pending := constructed \<and> \<not> nonempty,
           tr_pending := (if constructed
                          then \<lparr>fr_end = start + rg_size (src_value src),
                                fr_resume = tlv_reader_offset (Some input)\<rparr>
                          else tr_pending reader),
           tr_input := (tr_input reader)\<lparr>rd_pos := (if constructed then size_sub start base
                                                   else rd_pos input)\<rparr>\<rparr>)"

text \<open>
  The second part of \<open>tlv_tree_reader_next_event_diag\<close>, from the bounded input on: read one element
  at \<open>depth\<close> and publish it.
\<close>

definition tree_read ::
  "tlv_tree_reader_t \<Rightarrow> nat \<Rightarrow> tlv_reader_t \<Rightarrow> bool
     \<Rightarrow> tlv_result_t \<times> tlv_tree_reader_t \<times> tlv_tree_event_t option \<times> tlv_reader_diagnostic_t option" where
  "tree_read r depth input diag =
     (if rd_pos input < rd_size input \<and> tr_count r = tr_max_elements r then (TLV_ERR_LIMIT, r, None, None)
      else let offset = tlv_reader_offset (Some input) in
        case tlv_reader_next_source_diag (Some input) True True diag of
          (rc, input', res, d) \<Rightarrow>
            if rc \<noteq> TLV_OK then (rc, r, None, d)
            else let input = the input'; el = fst (the res); src = snd (the res);
                     constructed = (case fmt_is_constructed (the (rd_format input)) of
                                      None \<Rightarrow> False | Some p \<Rightarrow> p (elem_tag el))
                 in (TLV_OK, tree_publish r depth input el src constructed offset,
                     Some \<lparr>ev_kind = (if constructed then TLV_TREE_BEGIN else TLV_TREE_ELEMENT),
                           ev_element = el, ev_source = src, ev_depth = depth, ev_offset = offset,
                           ev_skipped = False\<rparr>, d))"

definition tree_event ::
  "tlv_tree_reader_t \<Rightarrow> bool
     \<Rightarrow> tlv_result_t \<times> tlv_tree_reader_t \<times> tlv_tree_event_t option \<times> tlv_reader_diagnostic_t option" where
  "tree_event r diag =
     (case close_event r event0 of
        Some (r', ev) \<Rightarrow> (TLV_OK, r'\<lparr>tr_item_projection := False\<rparr>, Some ev, None)
      | None \<Rightarrow>
          let depth = tr_depth r; input = tr_input r in
          if tr_descend_pending r then
            (if depth = tr_max_depth r then (TLV_ERR_LIMIT, r, None, None)
             else if depth = tr_capacity r then (TLV_ERR_BUFFER_TOO_SHORT, r, None, None)
             else tree_read r (depth + 1) (bound_input input (fr_end (tr_pending r))) diag)
          else if depth \<noteq> 0 then tree_read r depth (bound_input input (fr_end (tr_frames r ! (depth - 1)))) diag
          else tree_read r depth input diag)"

definition tlv_tree_reader_next_event_diag ::
  "tlv_tree_reader_t option \<Rightarrow> bool \<Rightarrow> bool
     \<Rightarrow> tlv_result_t \<times> tlv_tree_reader_t option \<times> tlv_tree_event_t option \<times> tlv_reader_diagnostic_t option" where
  "tlv_tree_reader_next_event_diag reader item_ok diag =
     (case reader of None \<Rightarrow> (TLV_ERR_NULL_ARG, None, None, None)
      | Some r \<Rightarrow>
          if \<not> item_ok then (TLV_ERR_NULL_ARG, reader, None, None)
          else case tree_event r diag of (rc, r', ev, d) \<Rightarrow> (rc, Some r', ev, d))"

definition tlv_tree_reader_next_event ::
  "tlv_tree_reader_t option \<Rightarrow> bool \<Rightarrow> tlv_result_t \<times> tlv_tree_reader_t option \<times> tlv_tree_event_t option" where
  "tlv_tree_reader_next_event reader event_ok =
     (case tlv_tree_reader_next_event_diag reader event_ok False of (rc, r, ev, d) \<Rightarrow> (rc, r, ev))"

lemma tree_event_end_measure:
  assumes "tree_event r diag = (TLV_OK, r', Some ev, d)" "ev_kind ev = TLV_TREE_END"
  shows "tr_depth r' + (if tr_end_pending r' then 1 else 0) < tr_depth r + (if tr_end_pending r then 1 else 0)"
proof (cases "close_event r event0")
  case None
  with assms have False
    by (auto simp: tree_event_def tree_read_def Let_def split: if_splits prod.splits)
  then show ?thesis ..
next
  case (Some p)
  with assms show ?thesis
    using close_event_measure [of r event0] by (auto simp: tree_event_def split: prod.splits)
qed

text \<open>The \<^verbatim>\<open>do ... while (event.kind == TLV_TREE_END)\<close> loop.\<close>

function next_node ::
  "tlv_tree_reader_t \<Rightarrow> bool \<Rightarrow> tlv_reader_diagnostic_t option
     \<Rightarrow> tlv_result_t \<times> tlv_tree_reader_t \<times> tlv_tree_event_t option \<times> tlv_reader_diagnostic_t option" where
  "next_node r diag d0 =
     (case tree_event r diag of
        (rc, r', ev, d) \<Rightarrow>
          let d = (case d of None \<Rightarrow> d0 | Some x \<Rightarrow> Some x) in
          if rc \<noteq> TLV_OK then (rc, r', None, d)
          else case ev of None \<Rightarrow> (rc, r', None, d)
               | Some e \<Rightarrow> (if ev_kind e = TLV_TREE_END then next_node r' diag d else (TLV_OK, r', ev, d)))"
  by pat_completeness auto
termination
  by (relation "measure (\<lambda>(r, _, _). tr_depth r + (if tr_end_pending r then 1 else 0))")
    (auto dest!: tree_event_end_measure [OF sym] split: if_splits)

declare next_node.simps [simp del]

definition tlv_tree_reader_next_diag ::
  "tlv_tree_reader_t option \<Rightarrow> bool \<Rightarrow> bool
     \<Rightarrow> tlv_result_t \<times> tlv_tree_reader_t option \<times> tlv_tree_item_t option \<times> tlv_reader_diagnostic_t option" where
  "tlv_tree_reader_next_diag reader item_ok diag =
     (case reader of None \<Rightarrow> (TLV_ERR_NULL_ARG, None, None, None)
      | Some r \<Rightarrow>
          if \<not> item_ok then (TLV_ERR_NULL_ARG, reader, None, None)
          else case next_node r diag None of
            (rc, r', ev, d) \<Rightarrow>
              (case ev of None \<Rightarrow> (rc, Some r', None, d)
               | Some e \<Rightarrow>
                   (TLV_OK, Some (drain_ends (r'\<lparr>tr_item_projection := True\<rparr>)),
                    Some \<lparr>it_element = ev_element e, it_source = ev_source e, it_depth = ev_depth e,
                          it_offset = ev_offset e, it_constructed = (ev_kind e = TLV_TREE_BEGIN)\<rparr>, d)))"

definition tlv_tree_reader_next ::
  "tlv_tree_reader_t option \<Rightarrow> bool \<Rightarrow> tlv_result_t \<times> tlv_tree_reader_t option \<times> tlv_tree_item_t option" where
  "tlv_tree_reader_next reader item_ok =
     (case tlv_tree_reader_next_diag reader item_ok False of (rc, r, it, d) \<Rightarrow> (rc, r, it))"

definition tlv_tree_reader_skip_subtree ::
  "tlv_tree_reader_t option \<Rightarrow> tlv_result_t \<times> tlv_tree_reader_t option" where
  "tlv_tree_reader_skip_subtree reader =
     (case reader of None \<Rightarrow> (TLV_ERR_NULL_ARG, None)
      | Some r \<Rightarrow>
          if \<not> tr_descend_pending r then (TLV_ERR_INVALID_STATE, reader)
          else let r = r\<lparr>tr_input := (tr_input r)\<lparr>rd_pos :=
                           size_sub (fr_resume (tr_pending r)) (rd_base_offset (tr_input r))\<rparr>,
                         tr_descend_pending := False, tr_end_pending := True, tr_skipped := True\<rparr>
               in (TLV_OK, Some (if tr_item_projection r then drain_ends r else r)))"

section \<open>The invariant\<close>

definition tree_pos :: "tlv_tree_reader_t \<Rightarrow> nat" where
  "tree_pos r = rd_base_offset (tr_input r) + rd_pos (tr_input r)"

definition window_end :: "tlv_tree_reader_t \<Rightarrow> nat" where
  "window_end r = rd_base_offset (tr_input r) + rd_size (tr_input r)"

text \<open>The absolute position that bounds what is read at depth \<open>d\<close>.\<close>

definition enclosing :: "tlv_tree_frame_t list \<Rightarrow> nat \<Rightarrow> nat \<Rightarrow> nat" where
  "enclosing frames e d = (if d = 0 then e else fr_end (frames ! (d - 1)))"

definition frame_in :: "tlv_tree_frame_t \<Rightarrow> nat \<Rightarrow> bool" where
  "frame_in fr e \<longleftrightarrow> fr_end fr \<le> fr_resume fr \<and> fr_resume fr \<le> e"

definition nested :: "tlv_tree_frame_t list \<Rightarrow> nat \<Rightarrow> nat \<Rightarrow> bool" where
  "nested frames e d \<longleftrightarrow> (\<forall>i<d. frame_in (frames ! i) (enclosing frames e i))"

definition tree_wf :: "tlv_tree_reader_t \<Rightarrow> bool" where
  "tree_wf r \<longleftrightarrow>
     reader_wf (tr_input r) \<and> tr_capacity r \<le> length (tr_frames r) \<and> tr_depth r \<le> tr_capacity r \<and>
     tr_depth r \<le> tr_max_depth r \<and> tr_count r \<le> tr_max_elements r \<and>
     nested (tr_frames r) (window_end r) (tr_depth r) \<and>
     tree_pos r \<le> enclosing (tr_frames r) (window_end r) (tr_depth r) \<and>
     \<not> (tr_descend_pending r \<and> tr_end_pending r) \<and>
     (tr_descend_pending r \<longrightarrow> tree_pos r < fr_end (tr_pending r)) \<and>
     (tr_end_pending r \<longrightarrow> tree_pos r \<le> fr_resume (tr_pending r)) \<and>
     (tr_descend_pending r \<or> tr_end_pending r \<longrightarrow>
        frame_in (tr_pending r) (enclosing (tr_frames r) (window_end r) (tr_depth r)))"

lemma size_sub_eq: "b \<le> a \<Longrightarrow> a \<le> SIZE_MAX \<Longrightarrow> size_sub a b = a - b"
  by (simp add: size_sub_def SIZE_MAX_def mod_if)

lemma enclosing_le: "nested frames e d \<Longrightarrow> enclosing frames e d \<le> e"
proof (induction d)
  case 0
  show ?case by (simp add: enclosing_def)
next
  case (Suc d)
  then have "nested frames e d" "frame_in (frames ! d) (enclosing frames e d)"
    by (auto simp: nested_def)
  with Suc.IH show ?case by (auto simp: enclosing_def [of _ _ "Suc d"] frame_in_def)
qed

lemma nested_less: "nested frames e d \<Longrightarrow> d' \<le> d \<Longrightarrow> nested frames e d'"
  by (simp add: nested_def)

lemma tree_bounds:
  assumes "tree_wf r"
  shows "tree_pos r \<le> window_end r" "window_end r \<le> SIZE_MAX" "rd_base_offset (tr_input r) \<le> tree_pos r"
    "enclosing (tr_frames r) (window_end r) (tr_depth r) \<le> window_end r"
  using assms enclosing_le [of "tr_frames r" "window_end r" "tr_depth r"] reader_wf_bound [of "tr_input r"]
  by (auto simp: tree_wf_def window_end_def tree_pos_def)

text \<open>Moving the position within the window.\<close>

lemma reader_wf_pos:
  assumes "reader_wf r" "rd_base_offset r \<le> x" "x \<le> rd_base_offset r + rd_size r"
  shows "reader_wf (r\<lparr>rd_pos := size_sub x (rd_base_offset r)\<rparr>)"
    and "rd_base_offset r + size_sub x (rd_base_offset r) = x"
proof -
  have eq: "size_sub x (rd_base_offset r) = x - rd_base_offset r"
    using reader_wf_bound [OF assms(1)] assms by (intro size_sub_eq) auto
  show "reader_wf (r\<lparr>rd_pos := size_sub x (rd_base_offset r)\<rparr>)"
    using assms unfolding eq by (auto simp: reader_wf_def reader_valid_OK)
  show "rd_base_offset r + size_sub x (rd_base_offset r) = x" using assms(2) by (simp add: eq)
qed

lemma close_event_wf:
  assumes wf: "tree_wf r" and c: "close_event r e = Some (r', e')"
  shows "tree_wf r'"
proof -
  note B = tree_bounds [OF wf]
  let ?E = "window_end r" and ?d = "tr_depth r"
  have in_wf: "reader_wf (tr_input r)" using wf by (simp add: tree_wf_def)
  show ?thesis
  proof (cases "tr_end_pending r")
    case True
    let ?x = "fr_resume (tr_pending r)"
    have x: "rd_base_offset (tr_input r) \<le> ?x" "?x \<le> enclosing (tr_frames r) ?E ?d"
      using wf True B(3) by (auto simp: tree_wf_def frame_in_def)
    then have x2: "?x \<le> rd_base_offset (tr_input r) + rd_size (tr_input r)"
      using B(4) by (simp add: window_end_def)
    note P = reader_wf_pos [OF in_wf x(1) x2]
    from c True have "r' = r\<lparr>tr_end_pending := False, tr_skipped := False,
        tr_input := (tr_input r)\<lparr>rd_pos := size_sub ?x (rd_base_offset (tr_input r))\<rparr>\<rparr>"
      by (simp add: close_event_def)
    with wf True x(2) P show ?thesis
      by (simp add: tree_wf_def window_end_def tree_pos_def)
  next
    case False
    let ?f = "tr_frames r ! (?d - 1)"
    from c False have d: "?d \<noteq> 0" "\<not> tr_descend_pending r" and
      pos: "tlv_reader_offset (Some (tr_input r)) = fr_end ?f" and
      r': "r' = r\<lparr>tr_depth := ?d - 1,
        tr_input := (tr_input r)\<lparr>rd_pos := size_sub (fr_resume ?f) (rd_base_offset (tr_input r))\<rparr>\<rparr>"
      by (auto simp: close_event_def split: if_splits)
    have nest: "nested (tr_frames r) ?E ?d" using wf by (simp add: tree_wf_def)
    then have f: "frame_in ?f (enclosing (tr_frames r) ?E (?d - 1))" using d by (simp add: nested_def)
    have n': "nested (tr_frames r) ?E (?d - 1)" by (rule nested_less [OF nest]) simp
    have "fr_end ?f = tree_pos r" using pos reader_offset_exact [OF in_wf] by (simp add: tree_pos_def)
    then have x: "rd_base_offset (tr_input r) \<le> fr_resume ?f" using f B(3) by (simp add: frame_in_def)
    have x2: "fr_resume ?f \<le> rd_base_offset (tr_input r) + rd_size (tr_input r)"
      using f enclosing_le [OF n'] by (simp add: frame_in_def window_end_def)
    note P = reader_wf_pos [OF in_wf x x2]
    with wf False d f n' show ?thesis
      by (auto simp: r' tree_wf_def window_end_def tree_pos_def frame_in_def)
  qed
qed

lemma drain_loop_wf: "tree_wf r \<Longrightarrow> tree_wf (drain_loop r e)"
proof (induction r e rule: drain_loop.induct)
  case (1 r e)
  then show ?case
    by (subst drain_loop.simps) (auto dest: close_event_wf split: option.splits)
qed

lemma tree_wf_projection [simp]: "tree_wf (r\<lparr>tr_item_projection := b\<rparr>) = tree_wf r"
  by (simp add: tree_wf_def window_end_def tree_pos_def)

text \<open>
  One element read from the input bounded by \<open>e\<close>: it lies between the position and \<open>e\<close>, and so do
  its value and the position after it.
\<close>

lemma tree_read_OK:
  assumes ok: "tree_read r depth input diag = (TLV_OK, r', ev, d)"
    and wf: "reader_wf input" and base: "rd_base_offset input = rd_base_offset (tr_input r)"
    and lim: "tr_count r \<le> tr_max_elements r"
  obtains el src c vs ve re where
    "r' = r\<lparr>tr_frames := (if tr_descend_pending r then (tr_frames r)[tr_depth r := tr_pending r] else tr_frames r),
        tr_depth := depth, tr_count := tr_count r + 1, tr_item_projection := False,
        tr_descend_pending := c \<and> vs < ve, tr_end_pending := c \<and> \<not> vs < ve,
        tr_pending := (if c then \<lparr>fr_end = ve, fr_resume = re\<rparr> else tr_pending r),
        tr_input := (tr_input r)\<lparr>rd_pos := (if c then vs else re) - rd_base_offset input\<rparr>\<rparr>"
    "ev = Some \<lparr>ev_kind = (if c then TLV_TREE_BEGIN else TLV_TREE_ELEMENT), ev_element = el, ev_source = src,
        ev_depth = depth, ev_offset = rd_base_offset input + rd_pos input, ev_skipped = False\<rparr>"
    "rd_base_offset input + rd_pos input \<le> vs" "vs \<le> ve" "ve \<le> re"
    "rd_base_offset input + rd_pos input < re" "re \<le> rd_base_offset input + rd_size input"
    "tr_count r < tr_max_elements r"
proof -
  let ?b = "rd_base_offset input" and ?p = "rd_pos input"
  from ok obtain input' res where nx: "reader_next (Some input) True diag = (TLV_OK, input', res, d)"
    by (auto simp: tree_read_def tlv_reader_next_source_diag_def Let_def split: if_splits prod.splits)
  show thesis
  proof (rule reader_next_OK [OF nx])
    fix dec
    assume lt: "?p < rd_size input"
      and part: "partitioned dec (ptr_add (rd_data input) ?p) (rd_size input - ?p)"
      and in': "input' = Some (input\<lparr>rd_pos := ?p + src_size (dec_source dec)\<rparr>)"
      and res: "res = Some (dec_element dec, dec_source dec)"
    let ?s = "dec_source dec" and ?el = "dec_element dec"
    define c where "c = (case fmt_is_constructed (the (rd_format input)) of None \<Rightarrow> False | Some p \<Rightarrow> p (elem_tag ?el))"
    let ?vs = "?b + ?p + rg_offset (src_value ?s)"
    let ?ve = "?vs + rg_size (src_value ?s)" and ?re = "?b + ?p + src_size ?s"
    have S: "src_size ?s \<le> rd_size input - ?p" "0 < src_size ?s"
      "rg_offset (src_value ?s) + rg_size (src_value ?s) \<le> src_size ?s"
      "val_size (elem_value ?el) = rg_size (src_value ?s)"
      using part by (auto simp: partitioned_def Let_def)
    have bnd: "?re \<le> ?b + rd_size input" using S(1) lt by simp
    have fit: "?b + rd_size input \<le> SIZE_MAX" by (rule reader_wf_bound [OF wf])
    have cnt: "tr_count r < tr_max_elements r"
      using ok lt lim by (auto simp: tree_read_def split: if_splits)
    have off: "tlv_reader_offset (Some input) = ?b + ?p" by (rule reader_offset_exact [OF wf])
    have wf2: "reader_wf (input\<lparr>rd_pos := ?p + src_size ?s\<rparr>)"
      using wf S(1) lt by (auto simp: reader_wf_def reader_valid_OK)
    have off2: "tlv_reader_offset (Some (input\<lparr>rd_pos := ?p + src_size ?s\<rparr>)) = ?re"
      using reader_offset_exact [OF wf2] by simp
    have sub: "size_sub ?vs ?b = ?vs - ?b"
      using S(3) bnd fit by (intro size_sub_eq) auto
    have r': "r' = tree_publish r depth (input\<lparr>rd_pos := ?p + src_size ?s\<rparr>) ?el ?s c (?b + ?p)"
      and ev: "ev = Some \<lparr>ev_kind = (if c then TLV_TREE_BEGIN else TLV_TREE_ELEMENT), ev_element = ?el,
        ev_source = ?s, ev_depth = depth, ev_offset = ?b + ?p, ev_skipped = False\<rparr>"
      using ok lt cnt nx in' res off
      by (cases "fmt_is_constructed (the (rd_format input))";
          auto simp: tree_read_def tlv_reader_next_source_diag_def Let_def c_def)+
    show thesis
    proof (rule that [OF _ ev])
      show "r' = r\<lparr>tr_frames := (if tr_descend_pending r then (tr_frames r)[tr_depth r := tr_pending r] else tr_frames r),
        tr_depth := depth, tr_count := tr_count r + 1, tr_item_projection := False,
        tr_descend_pending := c \<and> ?vs < ?ve, tr_end_pending := c \<and> \<not> ?vs < ?ve,
        tr_pending := (if c then \<lparr>fr_end = ?ve, fr_resume = ?re\<rparr> else tr_pending r),
        tr_input := (tr_input r)\<lparr>rd_pos := (if c then ?vs else ?re) - ?b\<rparr>\<rparr>"
        using S(4) sub by (simp add: r' tree_publish_def Let_def off2 add.assoc)
    qed (use S bnd cnt in auto)
  qed
qed

lemma tree_read_wf:
  assumes wf: "tree_wf r" and ok: "tree_read r depth input diag = (TLV_OK, r', ev, d)"
    and input: "reader_wf input" "rd_base_offset input = rd_base_offset (tr_input r)"
      "rd_pos input = rd_pos (tr_input r)"
    and frames: "frames = (if tr_descend_pending r then (tr_frames r)[tr_depth r := tr_pending r] else tr_frames r)"
    and e: "rd_base_offset input + rd_size input = enclosing frames (window_end r) depth"
    and depth: "nested frames (window_end r) depth" "depth \<le> tr_capacity r" "depth \<le> tr_max_depth r"
  shows "tree_wf r'"
proof (rule tree_read_OK [OF ok input(1,2)])
  show "tr_count r \<le> tr_max_elements r" using wf by (simp add: tree_wf_def)
next
  fix el src c vs ve re
  let ?b = "rd_base_offset (tr_input r)"
  assume r': "r' = r\<lparr>tr_frames := (if tr_descend_pending r then (tr_frames r)[tr_depth r := tr_pending r] else tr_frames r),
        tr_depth := depth, tr_count := tr_count r + 1, tr_item_projection := False,
        tr_descend_pending := c \<and> vs < ve, tr_end_pending := c \<and> \<not> vs < ve,
        tr_pending := (if c then \<lparr>fr_end = ve, fr_resume = re\<rparr> else tr_pending r),
        tr_input := (tr_input r)\<lparr>rd_pos := (if c then vs else re) - rd_base_offset input\<rparr>\<rparr>"
    and v: "rd_base_offset input + rd_pos input \<le> vs" "vs \<le> ve" "ve \<le> re"
    "rd_base_offset input + rd_pos input < re" "re \<le> rd_base_offset input + rd_size input"
    and cnt: "tr_count r < tr_max_elements r"
  let ?x = "if c then vs else re"
  have le: "re \<le> enclosing frames (window_end r) depth" using v(5) e by simp
  have leE: "re \<le> window_end r" using le enclosing_le [OF depth(1)] by simp
  have x: "?b \<le> ?x" "?x \<le> re" using v input(2) by auto
  have in': "reader_wf ((tr_input r)\<lparr>rd_pos := ?x - ?b\<rparr>)"
    using wf x leE by (auto simp: tree_wf_def reader_wf_def reader_valid_OK window_end_def)
  have we: "window_end r' = window_end r" by (simp add: r' window_end_def)
  have tp: "tree_pos r' = ?x" using x(1) by (simp add: r' tree_pos_def input(2))
  have fr: "tr_frames r' = frames" "tr_depth r' = depth" by (simp_all add: r' frames)
  have "reader_wf (tr_input r')" using in' by (simp add: r' input(2))
  moreover have "tr_capacity r' \<le> length (tr_frames r')"
    using wf by (simp add: r' tree_wf_def)
  moreover have "tr_pending r' = (if c then \<lparr>fr_end = ve, fr_resume = re\<rparr> else tr_pending r)"
    "tr_descend_pending r' = (c \<and> vs < ve)" "tr_end_pending r' = (c \<and> \<not> vs < ve)"
    "tr_count r' = tr_count r + 1" "tr_max_elements r' = tr_max_elements r"
    "tr_capacity r' = tr_capacity r" "tr_max_depth r' = tr_max_depth r"
    by (simp_all add: r')
  ultimately show ?thesis
    unfolding tree_wf_def we tp fr using depth cnt le x v by (auto simp: frame_in_def)
qed

lemma bound_input_wf:
  assumes "reader_wf r" "rd_base_offset r + rd_pos r \<le> e" "e \<le> rd_base_offset r + rd_size r"
  shows "reader_wf (bound_input r e)" "rd_base_offset r + rd_size (bound_input r e) = e"
proof -
  have eq: "size_sub e (rd_base_offset r) = e - rd_base_offset r"
    using reader_wf_bound [OF assms(1)] assms by (intro size_sub_eq) auto
  show "reader_wf (bound_input r e)"
    using assms by (auto simp: bound_input_def eq reader_wf_def reader_valid_OK intro: readable_mono)
  show "rd_base_offset r + rd_size (bound_input r e) = e"
    using assms by (simp add: bound_input_def eq)
qed

lemma enclosing_update: "d \<le> i \<Longrightarrow> enclosing (frames[i := x]) e d = enclosing frames e d"
  by (cases d) (simp_all add: enclosing_def)

lemma nested_push:
  assumes "nested frames e d" "d < length frames" "frame_in x (enclosing frames e d)"
  shows "nested (frames[d := x]) e (d + 1)"
  using assms by (auto simp: nested_def less_Suc_eq enclosing_update)

lemma tree_event_wf:
  assumes wf: "tree_wf r" and ev: "tree_event r diag = (rc, r', ev, d)"
  shows "tree_wf r'"
proof (cases "rc = TLV_OK")
  case False
  with ev wf show ?thesis
    by (auto simp: tree_event_def tree_read_def Let_def split: option.splits if_splits prod.splits)
next
  case True
  let ?d = "tr_depth r" and ?E = "window_end r" and ?in = "tr_input r"
  note B = tree_bounds [OF wf]
  have in_wf: "reader_wf ?in" and nest: "nested (tr_frames r) ?E ?d"
    and pos: "tree_pos r \<le> enclosing (tr_frames r) ?E ?d"
    and cap: "?d \<le> tr_capacity r" "tr_capacity r \<le> length (tr_frames r)" "?d \<le> tr_max_depth r"
    using wf by (auto simp: tree_wf_def)
  show ?thesis
  proof (cases "close_event r event0")
    case (Some p)
    with ev wf close_event_wf [of r event0] show ?thesis
      by (auto simp: tree_event_def split: prod.splits)
  next
    case None
    consider (descend) "tr_descend_pending r" | (inner) "\<not> tr_descend_pending r" "?d \<noteq> 0"
      | (root) "\<not> tr_descend_pending r" "?d = 0" by blast
    then show ?thesis
    proof cases
      case descend
      with ev None True have lim: "?d \<noteq> tr_max_depth r" "?d \<noteq> tr_capacity r"
        and rd: "tree_read r (?d + 1) (bound_input ?in (fr_end (tr_pending r))) diag = (TLV_OK, r', ev, d)"
        by (auto simp: tree_event_def Let_def split: if_splits)
      from wf descend have pend: "frame_in (tr_pending r) (enclosing (tr_frames r) ?E ?d)"
        "tree_pos r \<le> fr_end (tr_pending r)" by (auto simp: tree_wf_def)
      have b: "rd_base_offset ?in + rd_pos ?in \<le> fr_end (tr_pending r)"
        "fr_end (tr_pending r) \<le> rd_base_offset ?in + rd_size ?in"
        using pend B(4) by (auto simp: tree_pos_def window_end_def frame_in_def)
      note W = bound_input_wf [OF in_wf b]
      show ?thesis
      proof (rule tree_read_wf [OF wf rd W(1)])
        show "(tr_frames r)[?d := tr_pending r] =
            (if tr_descend_pending r then (tr_frames r)[?d := tr_pending r] else tr_frames r)"
          using descend by simp
        show "nested ((tr_frames r)[?d := tr_pending r]) ?E (?d + 1)"
          using lim cap by (intro nested_push [OF nest _ pend(1)]) simp
        show "rd_base_offset (bound_input ?in (fr_end (tr_pending r))) +
            rd_size (bound_input ?in (fr_end (tr_pending r))) =
            enclosing ((tr_frames r)[?d := tr_pending r]) ?E (?d + 1)"
          using W(2) lim cap by (simp add: bound_input_def enclosing_def)
      qed (use lim cap in \<open>auto simp: bound_input_def\<close>)
    next
      case inner
      let ?e = "fr_end (tr_frames r ! (?d - 1))"
      from ev None True inner have rd: "tree_read r ?d (bound_input ?in ?e) diag = (TLV_OK, r', ev, d)"
        by (auto simp: tree_event_def Let_def)
      have e: "enclosing (tr_frames r) ?E ?d = ?e" using inner by (simp add: enclosing_def)
      have b: "rd_base_offset ?in + rd_pos ?in \<le> ?e" "?e \<le> rd_base_offset ?in + rd_size ?in"
        using pos B(4) e by (auto simp: tree_pos_def window_end_def)
      note W = bound_input_wf [OF in_wf b]
      show ?thesis
        by (rule tree_read_wf [OF wf rd W(1), of "tr_frames r"])
          (use W(2) inner nest cap in \<open>auto simp: bound_input_def enclosing_def\<close>)
    next
      case root
      with ev None True have rd: "tree_read r ?d ?in diag = (TLV_OK, r', ev, d)"
        by (auto simp: tree_event_def Let_def)
      show ?thesis
        by (rule tree_read_wf [OF wf rd in_wf, of "tr_frames r"])
          (use root nest cap in \<open>auto simp: enclosing_def window_end_def\<close>)
    qed
  qed
qed

lemma next_node_wf: "tree_wf r \<Longrightarrow> next_node r diag d0 = (rc, r', ev, d) \<Longrightarrow> tree_wf r'"
proof (induction r diag d0 rule: next_node.induct)
  case (1 r diag d0)
  from 1(3) show ?case
    by (subst (asm) next_node.simps)
      (auto split: prod.splits option.splits if_splits simp: Let_def
        dest: tree_event_wf [OF 1(2)] intro: 1(1))
qed

lemma tree_next_wf:
  assumes "tree_wf r" "tlv_tree_reader_next_diag (Some r) item_ok diag = (rc, Some r', it, d)"
  shows "tree_wf r'"
  using assms next_node_wf [OF assms(1)]
  by (auto simp: tlv_tree_reader_next_diag_def drain_ends_def split: if_splits prod.splits option.splits
      intro!: drain_loop_wf)

lemma skip_subtree_wf:
  assumes wf: "tree_wf r" and sk: "tlv_tree_reader_skip_subtree (Some r) = (rc, Some r')"
  shows "tree_wf r'"
proof (cases "tr_descend_pending r")
  case False
  with sk wf show ?thesis by (simp add: tlv_tree_reader_skip_subtree_def)
next
  case True
  note B = tree_bounds [OF wf]
  let ?x = "fr_resume (tr_pending r)" and ?in = "tr_input r"
  let ?r = "r\<lparr>tr_input := ?in\<lparr>rd_pos := size_sub ?x (rd_base_offset ?in)\<rparr>,
     tr_descend_pending := False, tr_end_pending := True, tr_skipped := True\<rparr>"
  from wf True have pend: "frame_in (tr_pending r) (enclosing (tr_frames r) (window_end r) (tr_depth r))"
    "tree_pos r < fr_end (tr_pending r)" and in_wf: "reader_wf ?in" by (auto simp: tree_wf_def)
  have x: "rd_base_offset ?in \<le> ?x" "?x \<le> rd_base_offset ?in + rd_size ?in"
    using pend B(3,4) by (auto simp: frame_in_def window_end_def)
  note P = reader_wf_pos [OF in_wf x]
  have "tree_wf ?r"
    using wf True pend P by (simp add: tree_wf_def window_end_def tree_pos_def frame_in_def)
  with sk True show ?thesis
    by (auto simp: tlv_tree_reader_skip_subtree_def Let_def drain_ends_def intro: drain_loop_wf)
qed

lemma enclosing_mono: "e \<le> e' \<Longrightarrow> enclosing frames e d \<le> enclosing frames e' d"
  by (simp add: enclosing_def)

lemma nested_mono: "nested frames e d \<Longrightarrow> e \<le> e' \<Longrightarrow> nested frames e' d"
  unfolding nested_def frame_in_def by (meson enclosing_mono order_trans)

lemma tree_set_input_wf:
  assumes wf: "tree_wf r" and rd: "readable data sz"
    and s: "tlv_tree_reader_set_input (Some r) data sz discard fin = (rc, Some r')"
  shows "tree_wf r'"
proof (cases "rc = TLV_OK")
  case False
  with s wf show ?thesis
    by (auto simp: tlv_tree_reader_set_input_def split: prod.splits dest: reader_set_input_error)
next
  case True
  from s True obtain oi where si0: "tlv_reader_set_input (Some (tr_input r)) data sz discard fin = (TLV_OK, oi)"
    and r': "r' = r\<lparr>tr_input := the oi\<rparr>"
    by (cases "tlv_reader_set_input (Some (tr_input r)) data sz discard fin")
      (simp add: tlv_tree_reader_set_input_def)
  obtain input where oi: "oi = Some input"
    using reader_set_input_OK(1) [OF si0] by simp
  note si = si0 [unfolded oi] and r' = r' [unfolded oi option.sel]
  note S = reader_set_input_OK [OF si]
  have in_wf: "reader_wf (tr_input r)" using wf by (simp add: tree_wf_def)
  have in': "reader_wf input" by (rule reader_set_input_wf [OF in_wf rd si])
  have p: "tree_pos r' = tree_pos r" using S(1,2) by (simp add: r' tree_pos_def)
  have e: "window_end r \<le> window_end r'" using S(1-3) by (simp add: r' window_end_def)
  let ?E = "window_end r" and ?E' = "window_end r'" and ?d = "tr_depth r" and ?fs = "tr_frames r"
  have le: "enclosing ?fs ?E ?d \<le> enclosing ?fs ?E' ?d" by (rule enclosing_mono [OF e])
  have n: "nested ?fs ?E' ?d" using wf by (intro nested_mono [OF _ e]) (simp add: tree_wf_def)
  have q: "tree_pos r \<le> enclosing ?fs ?E' ?d"
    using wf le by (intro order_trans [OF _ le]) (simp add: tree_wf_def)
  have pend: "frame_in (tr_pending r) (enclosing ?fs ?E' ?d)" if "tr_descend_pending r \<or> tr_end_pending r"
    using wf that order_trans [OF _ le] by (simp add: tree_wf_def frame_in_def)
  have same: "tr_frames r' = ?fs" "tr_depth r' = ?d" "tr_pending r' = tr_pending r" "tr_input r' = input"
    "tr_descend_pending r' = tr_descend_pending r" "tr_end_pending r' = tr_end_pending r"
    "tr_capacity r' = tr_capacity r" "tr_max_depth r' = tr_max_depth r"
    "tr_count r' = tr_count r" "tr_max_elements r' = tr_max_elements r"
    by (simp_all add: r')
  show ?thesis
    unfolding tree_wf_def [of r'] same p using wf in' n q pend by (simp add: tree_wf_def [of r])
qed

lemma tree_init_wf:
  assumes "tlv_tree_reader_init True data sz format frames capacity max_depth max_elements = (TLV_OK, Some r)"
    and "readable data sz" "sz \<le> SIZE_MAX" "capacity \<le> length (out frames [])"
  shows "tree_wf r"
proof -
  obtain input where i: "tlv_reader_init True data sz format = (TLV_OK, Some input)"
    using assms(1) by (auto simp: tlv_tree_reader_init_def tlv_reader_init_def split: if_splits)
  have "rd_pos input = 0" "rd_base_offset input = 0" using i by (auto simp: tlv_reader_init_def split: if_splits)
  moreover have "reader_wf input" using reader_init_wf [OF i assms(2,3)] by simp
  ultimately show ?thesis
    using assms(1,4) i
    by (auto simp: tlv_tree_reader_init_def tree_wf_def nested_def enclosing_def tree_pos_def split: if_splits)
qed

section \<open>The traversal as a sequence of steps\<close>

text \<open>Number of constructed elements whose END has not been reported.\<close>

definition tree_open :: "tlv_tree_reader_t \<Rightarrow> nat" where
  "tree_open r = tr_depth r + (if tr_descend_pending r \<or> tr_end_pending r then 1 else 0)"

text \<open>A bound on the events still to come.\<close>

definition tree_budget :: "tlv_tree_reader_t \<Rightarrow> nat" where
  "tree_budget r = 2 * (tr_max_elements r - tr_count r) + tree_open r"

text \<open>Events are balanced: \<open>n\<close> is the number of open elements; an event that does not fit gives \<open>None\<close>.\<close>

fun balanced :: "nat \<Rightarrow> tlv_tree_event_t list \<Rightarrow> nat option" where
  "balanced n [] = Some n"
| "balanced n (e # es) =
     (case ev_kind e of
        TLV_TREE_BEGIN \<Rightarrow> if ev_depth e = n then balanced (n + 1) es else None
      | TLV_TREE_ELEMENT \<Rightarrow> if ev_depth e = n then balanced n es else None
      | TLV_TREE_END \<Rightarrow> if ev_depth e + 1 = n then balanced (ev_depth e) es else None
      | TLV_TREE_OTHER i \<Rightarrow> None)"

text \<open>
  What a client of the event interface may do: take the next event, skip the subtree just begun,
  supply more input.
\<close>

inductive tree_run :: "tlv_tree_reader_t \<Rightarrow> tlv_tree_event_t list \<Rightarrow> tlv_tree_reader_t \<Rightarrow> bool" where
  stay: "tree_run r [] r"
| event: "tree_run r' evs r'' \<Longrightarrow>
    tlv_tree_reader_next_event_diag (Some r) True diag = (TLV_OK, Some r', Some ev, d) \<Longrightarrow>
    tree_run r (ev # evs) r''"
| skip: "tree_run r' evs r'' \<Longrightarrow> tlv_tree_reader_skip_subtree (Some r) = (TLV_OK, Some r') \<Longrightarrow>
    tree_run r evs r''"
| more_input: "tree_run r' evs r'' \<Longrightarrow>
    tlv_tree_reader_set_input (Some r) data sz discard fin = (TLV_OK, Some r') \<Longrightarrow> readable data sz \<Longrightarrow>
    tree_run r evs r''"

lemma close_event_step:
  assumes "tree_wf r" "close_event r event0 = Some (r', ev)"
  shows "ev_kind ev = TLV_TREE_END" "tree_open r = ev_depth ev + 1" "tree_open r' = ev_depth ev"
    "tree_budget r' < tree_budget r" "tr_item_projection r' = tr_item_projection r"
  using assms
  by (auto simp: close_event_def tree_wf_def tree_open_def tree_budget_def Let_def split: if_splits)

lemma tree_read_step:
  assumes "tree_read r depth input diag = (TLV_OK, r', ev, d)" "reader_wf input"
    "rd_base_offset input = rd_base_offset (tr_input r)" "tr_count r \<le> tr_max_elements r" "tree_open r = depth"
  obtains e where "ev = Some e" "ev_depth e = depth" "\<not> tr_item_projection r'" "tree_budget r' < tree_budget r"
    "ev_kind e = TLV_TREE_BEGIN \<and> tree_open r' = depth + 1 \<or> ev_kind e = TLV_TREE_ELEMENT \<and> tree_open r' = depth"
proof (rule tree_read_OK [OF assms(1-4)])
  fix el src c vs ve re
  assume r': "r' = r\<lparr>tr_frames := (if tr_descend_pending r then (tr_frames r)[tr_depth r := tr_pending r] else tr_frames r),
        tr_depth := depth, tr_count := tr_count r + 1, tr_item_projection := False,
        tr_descend_pending := c \<and> vs < ve, tr_end_pending := c \<and> \<not> vs < ve,
        tr_pending := (if c then \<lparr>fr_end = ve, fr_resume = re\<rparr> else tr_pending r),
        tr_input := (tr_input r)\<lparr>rd_pos := (if c then vs else re) - rd_base_offset input\<rparr>\<rparr>"
    and ev: "ev = Some \<lparr>ev_kind = (if c then TLV_TREE_BEGIN else TLV_TREE_ELEMENT), ev_element = el, ev_source = src,
        ev_depth = depth, ev_offset = rd_base_offset input + rd_pos input, ev_skipped = False\<rparr>"
    and cnt: "tr_count r < tr_max_elements r"
  have o': "tree_open r' = (if c then depth + 1 else depth)" by (auto simp: r' tree_open_def)
  have "tr_max_elements r' = tr_max_elements r" "tr_count r' = tr_count r + 1" by (simp_all add: r')
  then have "tree_budget r' < tree_budget r"
    unfolding tree_budget_def o' assms(5) using cnt by auto
  then show thesis using o' by (intro that [OF ev]) (simp_all add: r')
qed

lemma tree_event_step:
  assumes wf: "tree_wf r" and ev: "tree_event r diag = (TLV_OK, r', ev, d)"
  obtains e where "ev = Some e" "\<not> tr_item_projection r'" "tree_budget r' < tree_budget r"
    "balanced (tree_open r) [e] = Some (tree_open r')"
proof (cases "close_event r event0")
  case (Some p)
  then obtain r1 e where p: "close_event r event0 = Some (r1, e)" by (cases p) auto
  note C = close_event_step [OF wf p]
  from ev p have "ev = Some e" "r' = r1\<lparr>tr_item_projection := False\<rparr>"
    by (auto simp: tree_event_def)
  then show thesis using C by (intro that [of e]) (simp_all add: tree_budget_def tree_open_def)
next
  case None
  let ?d = "tr_depth r" and ?in = "tr_input r"
  note B = tree_bounds [OF wf]
  have in_wf: "reader_wf ?in" and lim: "tr_count r \<le> tr_max_elements r" using wf by (auto simp: tree_wf_def)
  have ne: "\<not> tr_end_pending r" using None by (auto simp: close_event_def Let_def)
  define e where "e = (if tr_descend_pending r then fr_end (tr_pending r)
     else enclosing (tr_frames r) (window_end r) ?d)"
  have b: "rd_base_offset ?in + rd_pos ?in \<le> e" "e \<le> rd_base_offset ?in + rd_size ?in"
    using wf B(4) by (auto simp: e_def tree_wf_def tree_pos_def window_end_def frame_in_def)
  define input where "input = (if tr_descend_pending r \<or> ?d \<noteq> 0 then bound_input ?in e else ?in)"
  have rd: "tree_read r (tree_open r) input diag = (TLV_OK, r', ev, d)"
    using ev None ne
    by (auto simp: tree_event_def Let_def tree_open_def input_def e_def enclosing_def split: if_splits)
  have "reader_wf input" "rd_base_offset input = rd_base_offset ?in"
    using in_wf bound_input_wf(1) [OF in_wf b] by (auto simp: input_def bound_input_def)
  from tree_read_step [OF rd this lim refl] obtain ev' where
    "ev = Some ev'" "ev_depth ev' = tree_open r" "\<not> tr_item_projection r'" "tree_budget r' < tree_budget r"
    "ev_kind ev' = TLV_TREE_BEGIN \<and> tree_open r' = tree_open r + 1 \<or>
     ev_kind ev' = TLV_TREE_ELEMENT \<and> tree_open r' = tree_open r" by metis
  then show thesis by (intro that [of ev']) auto
qed

lemma balanced_append: "balanced n es = Some m \<Longrightarrow> balanced n (es @ es') = balanced m es'"
  by (induction n es rule: balanced.induct) (auto split: tlv_tree_event_kind_t.splits if_splits)

lemma set_input_same:
  assumes "tlv_tree_reader_set_input (Some r) data sz discard fin = (TLV_OK, Some r')"
  shows "\<exists>input. r' = r\<lparr>tr_input := input\<rparr>"
  using assms by (auto simp: tlv_tree_reader_set_input_def split: prod.splits)

lemma skip_subtree_step:
  assumes "tlv_tree_reader_skip_subtree (Some r) = (TLV_OK, Some r')" "\<not> tr_item_projection r"
  shows "tree_open r' = tree_open r" "tree_budget r' = tree_budget r" "\<not> tr_item_projection r'"
  using assms by (auto simp: tlv_tree_reader_skip_subtree_def Let_def tree_open_def tree_budget_def split: if_splits)

lemma tree_run_balanced:
  "tree_run r evs r' \<Longrightarrow> tree_wf r \<Longrightarrow> \<not> tr_item_projection r \<Longrightarrow>
   tree_wf r' \<and> balanced (tree_open r) evs = Some (tree_open r') \<and> length evs + tree_budget r' \<le> tree_budget r"
proof (induction rule: tree_run.induct)
  case (stay r)
  then show ?case by simp
next
  case (event r1 evs r2 r diag ev d)
  from event.hyps(2) have ev: "tree_event r diag = (TLV_OK, r1, Some ev, d)"
    by (auto simp: tlv_tree_reader_next_event_diag_def split: prod.splits)
  from tree_event_step [OF event.prems(1) ev] have
    s: "\<not> tr_item_projection r1" "tree_budget r1 < tree_budget r" "balanced (tree_open r) [ev] = Some (tree_open r1)"
    by (metis option.inject)+
  from event.IH [OF tree_event_wf [OF event.prems(1) ev] s(1)]
  have IH: "tree_wf r2" "balanced (tree_open r1) evs = Some (tree_open r2)"
    "length evs + tree_budget r2 \<le> tree_budget r1" by auto
  then show ?case using s(2) balanced_append [OF s(3), of evs] by simp
next
  case (skip r1 evs r2 r)
  note S = skip_subtree_step [OF skip.hyps(2) skip.prems(2)]
  from skip.IH [OF skip_subtree_wf [OF skip.prems(1) skip.hyps(2)] S(3)] S(1,2) show ?case by simp
next
  case (more_input r1 evs r2 r data sz discard fin)
  obtain input where "r1 = r\<lparr>tr_input := input\<rparr>" using set_input_same [OF more_input.hyps(2)] by blast
  then have "tree_open r1 = tree_open r" "tree_budget r1 = tree_budget r" "\<not> tr_item_projection r1"
    using more_input.prems(2) by (simp_all add: tree_open_def tree_budget_def)
  with more_input.IH [OF tree_set_input_wf [OF more_input.prems(1) more_input.hyps(3,2)]] show ?case by simp
qed

end
