(* ===== verification/TLV_Visitor.thy ===== *)
theory TLV_Visitor
  imports TLV_Tree_Reader
begin

text \<open>
  The visitors (\<^verbatim>\<open>reader/visitor.c\<close>): callbacks driven by the sequential and by the tree reader.  A
  visitor is a function of the element and of its context, which it may change; the context is
  threaded through the calls.  The sequential loop terminates because every read makes progress.
  The loop over the tree is bounded by the limits of its reader only, so it is a partial function,
  shown to return for every well-formed reader.
\<close>

section \<open>Types (tree.h, reader/visitor.h)\<close>

datatype tlv_visit_result_t =
  TLV_VISIT_CONTINUE | TLV_VISIT_STOP | TLV_VISIT_ERROR | TLV_VISIT_OTHER int

type_synonym 'c tlv_visitor_t = "tlv_element_t \<Rightarrow> 'c \<Rightarrow> tlv_visit_result_t \<times> 'c"
type_synonym 'c tlv_tree_visitor_t = "tlv_element_t \<Rightarrow> nat \<Rightarrow> nat \<Rightarrow> 'c \<Rightarrow> tlv_visit_result_t \<times> 'c"

section \<open>Operations (reader/visitor.c)\<close>

text \<open>\<open>d\<close> is the caller's diagnostic; \<open>None\<close> is a \<^verbatim>\<open>NULL\<close> pointer.\<close>

definition visitor_error ::
  "tlv_reader_diagnostic_t option \<Rightarrow> tlv_result_t \<Rightarrow> nat option
     \<Rightarrow> tlv_result_t \<times> tlv_reader_diagnostic_t option" where
  "visitor_error d rc offset =
     (rc, map_option (\<lambda>_.
        let diag = tlv_diagnostic_init rc TLV_DIAGNOSTIC_SEVERITY_ERROR in
        tlv_reader_diagnostic_init\<lparr>rdd_diagnostic :=
          (case offset of None \<Rightarrow> diag
           | Some at \<Rightarrow> tlv_diagnostic_set_location diag TLV_LOCATION_INPUT TLV_LOCATION_POINT at at)\<rparr>) d)"

text \<open>A callee given the diagnostic \<open>d\<close> stores \<open>x\<close> in it, or leaves it alone.\<close>

definition diag_store :: "tlv_reader_diagnostic_t option \<Rightarrow> tlv_reader_diagnostic_t option
     \<Rightarrow> tlv_reader_diagnostic_t option" where
  "diag_store d x = (case (d, x) of (Some _, Some y) \<Rightarrow> Some y | _ \<Rightarrow> d)"

partial_function (option) tree_visit_loop ::
  "'c tlv_tree_visitor_t option \<Rightarrow> tlv_tree_reader_t \<Rightarrow> 'c \<Rightarrow> tlv_reader_diagnostic_t option
     \<Rightarrow> (tlv_result_t \<times> tlv_tree_reader_t \<times> 'c \<times> tlv_reader_diagnostic_t option) option" where
  [code]: "tree_visit_loop visitor reader context diagnostic =
     (if tlv_tree_reader_at_end (Some reader) then Some (TLV_OK, reader, context, diagnostic)
      else case tlv_tree_reader_next_diag (Some reader) True (diagnostic \<noteq> None) of
        (rc, reader', item, x) \<Rightarrow>
          let r = the reader'; d = diag_store diagnostic x in
          if rc \<noteq> TLV_OK
          then Some (rc, r, context,
                 case d of Some y \<Rightarrow> (if diag_code (rdd_diagnostic y) \<noteq> rc then snd (visitor_error d rc None) else d)
                 | None \<Rightarrow> None)
          else case visitor of
            None \<Rightarrow> tree_visit_loop visitor r context d
          | Some v \<Rightarrow>
              (case v (it_element (the item)) (it_depth (the item)) (it_offset (the item)) context of
                 (res, context') \<Rightarrow>
                   if res = TLV_VISIT_STOP then Some (TLV_OK, r, context', d)
                   else if res \<noteq> TLV_VISIT_CONTINUE
                   then let code = (if res = TLV_VISIT_ERROR then TLV_ERR_VISITOR else TLV_ERR_CALLBACK) in
                        Some (code, r, context', snd (visitor_error d code (Some (it_offset (the item)))))
                   else tree_visit_loop visitor r context' d))"

definition tlv_tree_reader_visit ::
  "tlv_tree_reader_t option \<Rightarrow> 'c tlv_tree_visitor_t option \<Rightarrow> 'c \<Rightarrow> bool
     \<Rightarrow> (tlv_result_t \<times> tlv_tree_reader_t option \<times> 'c \<times> tlv_reader_diagnostic_t option) option" where
  "tlv_tree_reader_visit reader visitor context diag =
     (let d = (if diag then Some tlv_reader_diagnostic_init else None) in
      case reader of
        None \<Rightarrow> (case visitor_error d TLV_ERR_NULL_ARG None of (rc, d') \<Rightarrow> Some (rc, None, context, d'))
      | Some r \<Rightarrow> map_option (\<lambda>(rc, r', c, d'). (rc, Some r', c, d')) (tree_visit_loop visitor r context d))"

lemma reader_next_measure:
  assumes "tlv_reader_next_diag (Some r) True diag = (TLV_OK, reader', res, d)"
  shows "rd_size (the reader') - rd_pos (the reader') < rd_size r - rd_pos r"
proof -
  from assms obtain res' where "reader_next (Some r) True diag = (TLV_OK, reader', res', d)"
    by (auto simp: tlv_reader_next_diag_def split: prod.splits)
  then show ?thesis
    by (rule reader_next_OK) (auto simp: partitioned_def Let_def)
qed

function visit_loop ::
  "'c tlv_visitor_t \<Rightarrow> tlv_reader_t \<Rightarrow> 'c \<Rightarrow> tlv_reader_diagnostic_t option
     \<Rightarrow> tlv_result_t \<times> tlv_reader_t \<times> 'c \<times> tlv_reader_diagnostic_t option" where
  "visit_loop visitor reader context diagnostic =
     (if tlv_reader_at_end (Some reader) then (TLV_OK, reader, context, diagnostic)
      else let offset = (if diagnostic \<noteq> None then tlv_reader_offset (Some reader) else 0) in
        case tlv_reader_next_diag (Some reader) True (diagnostic \<noteq> None) of
          (rc, reader', element, x) \<Rightarrow>
            let r = the reader'; d = diag_store diagnostic x in
            if rc \<noteq> TLV_OK then (rc, r, context, d)
            else case visitor (the element) context of
              (res, context') \<Rightarrow>
                (case res of
                   TLV_VISIT_CONTINUE \<Rightarrow> visit_loop visitor r context' d
                 | TLV_VISIT_STOP \<Rightarrow> (TLV_OK, r, context', d)
                 | TLV_VISIT_ERROR \<Rightarrow>
                     (TLV_ERR_VISITOR, r, context', snd (visitor_error d TLV_ERR_VISITOR (Some offset)))
                 | TLV_VISIT_OTHER i \<Rightarrow>
                     (TLV_ERR_CALLBACK, r, context', snd (visitor_error d TLV_ERR_CALLBACK (Some offset)))))"
  by pat_completeness auto
termination
  by (relation "measure (\<lambda>(v, r, c, d). rd_size r - rd_pos r)")
    (auto dest!: reader_next_measure [OF sym])

declare visit_loop.simps [simp del]

definition tlv_reader_visit_diag ::
  "tlv_reader_t option \<Rightarrow> 'c tlv_visitor_t option \<Rightarrow> 'c \<Rightarrow> bool
     \<Rightarrow> tlv_result_t \<times> tlv_reader_t option \<times> 'c \<times> tlv_reader_diagnostic_t option" where
  "tlv_reader_visit_diag reader visitor context diag =
     (let d = (if diag then Some tlv_reader_diagnostic_init else None) in
      case (reader, visitor) of
        (Some r, Some v) \<Rightarrow> (case visit_loop v r context d of (rc, r', c, d') \<Rightarrow> (rc, Some r', c, d'))
      | _ \<Rightarrow> (case visitor_error d TLV_ERR_NULL_ARG None of (rc, d') \<Rightarrow> (rc, reader, context, d')))"

definition tlv_reader_visit ::
  "tlv_reader_t option \<Rightarrow> 'c tlv_visitor_t option \<Rightarrow> 'c \<Rightarrow> tlv_result_t \<times> tlv_reader_t option \<times> 'c" where
  "tlv_reader_visit reader visitor context =
     (case tlv_reader_visit_diag reader visitor context False of (rc, r, c, d) \<Rightarrow> (rc, r, c))"

section \<open>Termination of the tree traversal\<close>

lemma drain_loop_budget: "tree_wf r \<Longrightarrow> tree_budget (drain_loop r e) \<le> tree_budget r"
proof (induction r e rule: drain_loop.induct)
  case (1 r e)
  show ?case
  proof (cases "close_event r e")
    case None
    then show ?thesis by (subst drain_loop.simps) simp
  next
    case (Some p)
    then obtain r' e' where p: "close_event r e = Some (r', e')" by (cases p) auto
    have "tree_budget r' < tree_budget r"
      using 1(2) p
      by (auto simp: close_event_def tree_wf_def tree_open_def tree_budget_def Let_def split: if_splits)
    moreover have "tree_budget (drain_loop r' e') \<le> tree_budget r'"
      using 1(1) [OF p refl close_event_wf [OF 1(2) p]] .
    ultimately show ?thesis by (subst drain_loop.simps) (simp add: p)
  qed
qed

lemma next_node_budget:
  "tree_wf r \<Longrightarrow> next_node r diag d0 = (TLV_OK, r', ev, d) \<Longrightarrow> tree_budget r' < tree_budget r \<and> ev \<noteq> None"
proof (induction r diag d0 rule: next_node.induct)
  case (1 r diag d0)
  obtain rc r1 ev1 d1 where ev: "tree_event r diag = (rc, r1, ev1, d1)" by (metis prod_cases4)
  with 1(3) have ok: "rc = TLV_OK" by (subst (asm) next_node.simps) (auto simp: Let_def split: if_splits)
  note ev = ev [unfolded ok]
  obtain e where e: "ev1 = Some e" and lt: "tree_budget r1 < tree_budget r"
    using tree_event_step [OF 1(2) ev] by metis
  show ?case
  proof (cases "ev_kind e = TLV_TREE_END")
    case False
    with 1(3) ev e lt show ?thesis by (subst (asm) next_node.simps) (auto simp: Let_def split: option.splits)
  next
    case True
    let ?d = "case d1 of None \<Rightarrow> d0 | Some x \<Rightarrow> Some x"
    from 1(3) ev e True have n: "next_node r1 diag ?d = (TLV_OK, r', ev, d)"
      by (subst (asm) next_node.simps) (simp add: Let_def)
    have "tree_budget r' < tree_budget r1 \<and> ev \<noteq> None"
      by (rule 1(1) [OF ev [symmetric] refl refl refl _ e True tree_event_wf [OF 1(2) ev] n]) simp
    with lt show ?thesis by simp
  qed
qed

lemma next_node_error: "next_node r diag d0 = (rc, r', ev, d) \<Longrightarrow> rc \<noteq> TLV_OK \<Longrightarrow> ev = None"
proof (induction r diag d0 rule: next_node.induct)
  case (1 r diag d0)
  from 1(2,3) show ?case
    by (subst (asm) next_node.simps)
      (auto split: prod.splits option.splits if_splits simp: Let_def intro: 1(1))
qed

lemma tree_next_budget:
  assumes wf: "tree_wf r" and n: "tlv_tree_reader_next_diag (Some r) True diag = (TLV_OK, reader', it, d)"
  obtains r' item where "reader' = Some r'" "it = Some item" "tree_wf r'" "tree_budget r' < tree_budget r"
proof -
  obtain rc r1 ev d1 where nn: "next_node r diag None = (rc, r1, ev, d1)" by (metis prod_cases4)
  have ok: "rc = TLV_OK"
    using n nn next_node_error [OF nn] by (cases ev) (auto simp: tlv_tree_reader_next_diag_def)
  note nn = nn [unfolded ok]
  from next_node_budget [OF wf nn] obtain e where e: "ev = Some e" and lt: "tree_budget r1 < tree_budget r" by auto
  let ?r = "r1\<lparr>tr_item_projection := True\<rparr>"
  have wf1: "tree_wf ?r" using next_node_wf [OF wf nn] by simp
  have r': "reader' = Some (drain_ends ?r)" "it \<noteq> None"
    using n nn e by (auto simp: tlv_tree_reader_next_diag_def)
  have "tree_budget ?r = tree_budget r1" by (simp add: tree_budget_def tree_open_def)
  with drain_loop_budget [OF wf1] lt have "tree_budget (drain_ends ?r) < tree_budget r"
    by (metis drain_ends_def le_less_trans)
  moreover have "tree_wf (drain_ends ?r)" unfolding drain_ends_def by (rule drain_loop_wf [OF wf1])
  ultimately show thesis using r' that by blast
qed

lemma tree_next_Some:
  assumes "tlv_tree_reader_next_diag (Some r) True diag = (rc, reader', it, d)"
  obtains r' where "reader' = Some r'"
  using assms by (auto simp: tlv_tree_reader_next_diag_def split: prod.splits option.splits)

text \<open>The visitor returns, with the invariant kept.\<close>

lemma tree_visit_loop_returns:
  "tree_wf r \<Longrightarrow> \<exists>rc r' c' d'. tree_visit_loop v r c d = Some (rc, r', c', d') \<and> tree_wf r'"
proof (induction "tree_budget r" arbitrary: r c d rule: less_induct)
  case less
  show ?case
  proof (cases "tlv_tree_reader_at_end (Some r)")
    case True
    with less.prems show ?thesis by (subst tree_visit_loop.simps) simp
  next
    case False
    obtain rc ro it x where n: "tlv_tree_reader_next_diag (Some r) True (d \<noteq> None) = (rc, ro, it, x)"
      by (metis prod_cases4)
    obtain r' where r': "ro = Some r'" using tree_next_Some [OF n] .
    note n = n [unfolded r']
    have wf': "tree_wf r'" by (rule tree_next_wf [OF less.prems n])
    show ?thesis
    proof (cases "rc = TLV_OK")
      case False
      with n wf' \<open>\<not> tlv_tree_reader_at_end (Some r)\<close> show ?thesis
        by (subst tree_visit_loop.simps) (simp add: Let_def)
    next
      case True
      note n = n [unfolded True]
      have lt: "tree_budget r' < tree_budget r"
        by (rule tree_next_budget [OF less.prems n]) simp
      note IH = less.hyps [OF lt wf']
      show ?thesis
      proof (cases v)
        case None
        with n \<open>\<not> tlv_tree_reader_at_end (Some r)\<close> IH show ?thesis
          by (subst tree_visit_loop.simps) (simp add: Let_def)
      next
        case (Some f)
        obtain res c' where "f (it_element (the it)) (it_depth (the it)) (it_offset (the it)) c = (res, c')"
          by (metis prod.exhaust)
        with Some n \<open>\<not> tlv_tree_reader_at_end (Some r)\<close> IH wf' show ?thesis
          by (subst tree_visit_loop.simps) (simp add: Let_def)
      qed
    qed
  qed
qed

section \<open>What the sequential visitor sees\<close>

text \<open>The elements that repeated reads give.\<close>

inductive reads :: "tlv_reader_t \<Rightarrow> tlv_element_t list \<Rightarrow> tlv_reader_t \<Rightarrow> bool" where
  none: "reads r [] r"
| one: "reads r' els r'' \<Longrightarrow> tlv_reader_next (Some r) True = (TLV_OK, Some r', Some el) \<Longrightarrow> reads r (el # els) r''"

text \<open>
  Every call of the loop corresponds to a run of reads: the contexts are those of the elements
  visited, all of which continue except possibly the last.
\<close>

fun visit_fold :: "'c tlv_visitor_t \<Rightarrow> tlv_element_t list \<Rightarrow> 'c \<Rightarrow> tlv_visit_result_t \<times> 'c" where
  "visit_fold v [] c = (TLV_VISIT_CONTINUE, c)"
| "visit_fold v (e # es) c =
     (case v e c of (res, c') \<Rightarrow> if res = TLV_VISIT_CONTINUE then visit_fold v es c' else (res, c'))"

definition visit_code :: "tlv_visit_result_t \<Rightarrow> tlv_result_t" where
  "visit_code res = (case res of TLV_VISIT_STOP \<Rightarrow> TLV_OK | TLV_VISIT_ERROR \<Rightarrow> TLV_ERR_VISITOR
     | TLV_VISIT_OTHER i \<Rightarrow> TLV_ERR_CALLBACK | TLV_VISIT_CONTINUE \<Rightarrow> TLV_OK)"

lemma reader_next_diag_indep:
  assumes "tlv_reader_next_diag (Some r) True diag = (rc, reader', el, x)"
  shows "tlv_reader_next (Some r) True = (rc, reader', el)"
proof -
  have "fst (reader_next (Some r) True False) = fst (reader_next (Some r) True diag) \<and>
    fst (snd (reader_next (Some r) True False)) = fst (snd (reader_next (Some r) True diag)) \<and>
    fst (snd (snd (reader_next (Some r) True False))) = fst (snd (snd (reader_next (Some r) True diag)))"
    by (simp add: reader_next_def tlv_read_impl_def Let_def split_beta)
  then show ?thesis
    using assms by (simp add: tlv_reader_next_def tlv_reader_next_diag_def split_beta prod_eq_iff)
qed

lemma reader_next_Some:
  assumes "tlv_reader_next (Some r) True = (TLV_OK, reader', el)"
  obtains r' e where "reader' = Some r'" "el = Some e"
proof -
  from assms obtain res x where n: "reader_next (Some r) True False = (TLV_OK, reader', res, x)"
    and el: "el = map_option fst res"
    by (auto simp: tlv_reader_next_def tlv_reader_next_diag_def split: prod.splits)
  from n show thesis by (rule reader_next_OK) (simp add: el that)
qed

lemma visit_loop_reads:
  "visit_loop v r c d = (rc, r', c', d') \<Longrightarrow>
   \<exists>els res. reads r els r' \<and> visit_fold v els c = (res, c') \<and>
     (res \<noteq> TLV_VISIT_CONTINUE \<longrightarrow> els \<noteq> [] \<and> fst (visit_fold v (butlast els) c) = TLV_VISIT_CONTINUE) \<and>
     (if res = TLV_VISIT_CONTINUE
      then rc = TLV_OK \<and> tlv_reader_at_end (Some r') \<or>
           rc \<noteq> TLV_OK \<and> (\<exists>ro. tlv_reader_next (Some r') True = (rc, ro, None))
      else rc = visit_code res)"
proof (induction v r c d arbitrary: rule: visit_loop.induct)
  case (1 v r c d)
  show ?case
  proof (cases "tlv_reader_at_end (Some r)")
    case True
    with "1.prems" have "rc = TLV_OK" "r' = r" "c' = c"
      by (simp_all add: visit_loop.simps [of v r c d])
    with True show ?thesis by (intro exI [of _ "[]"]) (simp add: reads.none)
  next
    case False
    obtain rn ro el x where n: "tlv_reader_next_diag (Some r) True (d \<noteq> None) = (rn, ro, el, x)"
      by (metis prod_cases4)
    note nn = reader_next_diag_indep [OF n]
    show ?thesis
    proof (cases "rn = TLV_OK")
      case bad: False
      have "ro = Some r" "el = None"
        using n bad reader_next_error [of "Some r" True "d \<noteq> None"]
        by (auto simp: tlv_reader_next_diag_def split: prod.splits)
      moreover from this have "rc = rn" "r' = r" "c' = c"
        using "1.prems" False n bad by (simp_all add: visit_loop.simps [of v r c d] Let_def)
      ultimately show ?thesis using nn bad by (intro exI [of _ "[]"]) (simp add: reads.none)
    next
      case ok: True
      note n = n [unfolded ok] and nn = nn [unfolded ok]
      obtain r1 e where r1: "ro = Some r1" "el = Some e" using reader_next_Some [OF nn] .
      note n = n [unfolded r1] and nn = nn [unfolded r1]
      obtain res c1 where v: "v e c = (res, c1)" by (metis prod.exhaust)
      show ?thesis
      proof (cases "res = TLV_VISIT_CONTINUE")
        case cont: True
        let ?d = "diag_store d x"
        have l: "visit_loop v r1 c1 ?d = (rc, r', c', d')"
          using "1.prems" False n v cont by (simp add: visit_loop.simps [of v r c d] Let_def r1)
        obtain els res' where H: "reads r1 els r'" "visit_fold v els c1 = (res', c')"
          "res' \<noteq> TLV_VISIT_CONTINUE \<longrightarrow> els \<noteq> [] \<and> fst (visit_fold v (butlast els) c1) = TLV_VISIT_CONTINUE"
          "if res' = TLV_VISIT_CONTINUE
           then rc = TLV_OK \<and> tlv_reader_at_end (Some r') \<or>
                rc \<noteq> TLV_OK \<and> (\<exists>ro. tlv_reader_next (Some r') True = (rc, ro, None))
           else rc = visit_code res'"
          using "1.IH" [OF False refl n [symmetric] refl refl refl refl, of res c1] l v cont by auto
        have "reads r (e # els) r'" by (rule reads.one [OF H(1) nn])
        with H(2-4) v cont show ?thesis by (intro exI [of _ "e # els"] exI [of _ res']) simp
      next
        case stop: False
        have "r' = r1 \<and> c' = c1 \<and> rc = visit_code res"
          using "1.prems" False n v stop
          by (cases res) (simp_all add: visit_loop.simps [of v r c d] Let_def r1 visit_code_def)
        moreover have "reads r [e] r1" by (rule reads.one [OF reads.none nn])
        ultimately show ?thesis using v stop by (intro exI [of _ "[e]"] exI [of _ res]) simp
      qed
    qed
  qed
qed

end
