(* ===== verification/TLV_Writer.thy ===== *)
theory TLV_Writer
  imports TLV_Visitor
begin

text \<open>
  The sequential writer (\<^verbatim>\<open>writer/writer.c\<close>): measured encoding of elements into a caller's buffer,
  with a position that only successful operations advance.  The buffer content is part of the
  model's writer, also after a failure, since a failing encoder may have written past the position.
  The lemmas show that bytes before the position are never touched, that the position stays within
  the capacity, and that a sequence written through a format that keeps the contract of
  \<open>format_codec\<close> reads back element by element.
\<close>

section \<open>Types (writer/writer.h)\<close>

datatype tlv_writer_operation_t =
    TLV_WRITER_OP_TAG | TLV_WRITER_OP_LENGTH | TLV_WRITER_OP_VALUE | TLV_WRITER_OP_HEADER
  | TLV_WRITER_OP_TRAILER | TLV_WRITER_OP_COPY | TLV_WRITER_OP_PRESERVE | TLV_WRITER_OP_BEGIN
  | TLV_WRITER_OP_END | TLV_WRITER_OP_OTHER int

fun tlv_writer_operation_string :: "tlv_writer_operation_t \<Rightarrow> string" where
  "tlv_writer_operation_string TLV_WRITER_OP_TAG = ''tag''"
| "tlv_writer_operation_string TLV_WRITER_OP_LENGTH = ''length''"
| "tlv_writer_operation_string TLV_WRITER_OP_VALUE = ''value''"
| "tlv_writer_operation_string TLV_WRITER_OP_HEADER = ''header''"
| "tlv_writer_operation_string TLV_WRITER_OP_TRAILER = ''trailer''"
| "tlv_writer_operation_string TLV_WRITER_OP_COPY = ''copy''"
| "tlv_writer_operation_string TLV_WRITER_OP_PRESERVE = ''preserve''"
| "tlv_writer_operation_string TLV_WRITER_OP_BEGIN = ''begin''"
| "tlv_writer_operation_string TLV_WRITER_OP_END = ''end''"
| "tlv_writer_operation_string (TLV_WRITER_OP_OTHER i) = ''unknown''"

record tlv_writer_diagnostic_t =
  wd_diagnostic :: tlv_diagnostic_t
  wd_operation :: tlv_writer_operation_t
  wd_has_tag :: bool
  wd_tag :: tlv_tag_t
  wd_has_length :: bool
  wd_length :: nat
  wd_has_required :: bool
  wd_required :: nat
  wd_has_available :: bool
  wd_available :: nat

record tlv_writer_t =
  wr_format :: "tlv_format_t option"
  wr_buf :: obuf
  wr_capacity :: nat
  wr_pos :: nat

section \<open>Operations (writer/writer.c)\<close>

definition tlv_writer_init ::
  "bool \<Rightarrow> obuf \<Rightarrow> nat \<Rightarrow> tlv_format_t option \<Rightarrow> tlv_result_t \<times> tlv_writer_t option" where
  "tlv_writer_init writer_ok buf capacity format =
     (if \<not> writer_ok \<or> (buf = None \<and> capacity \<noteq> 0) \<or> \<not> tlv_format_can_write format
      then (TLV_ERR_NULL_ARG, None)
      else (TLV_OK, Some \<lparr>wr_format = format, wr_buf = buf, wr_capacity = capacity, wr_pos = 0\<rparr>))"

definition tlv_writer_diagnostic_init :: tlv_writer_diagnostic_t where
  "tlv_writer_diagnostic_init =
     \<lparr>wd_diagnostic = tlv_diagnostic_init TLV_OK TLV_DIAGNOSTIC_SEVERITY_ERROR,
      wd_operation = TLV_WRITER_OP_TAG, wd_has_tag = False, wd_tag = tlv_tag Null 0,
      wd_has_length = False, wd_length = 0, wd_has_required = False, wd_required = 0,
      wd_has_available = False, wd_available = 0\<rparr>"

text \<open>
  What \<open>wdiag\<close> and \<open>wdiag_format\<close> store through a non-\<^verbatim>\<open>NULL\<close> diagnostic; \<open>None\<close> is a \<^verbatim>\<open>NULL\<close> element or
  size.
\<close>

definition wdiag ::
  "tlv_result_t \<Rightarrow> tlv_writer_operation_t \<Rightarrow> tlv_element_t option \<Rightarrow> nat \<Rightarrow> nat option \<Rightarrow> nat option
     \<Rightarrow> tlv_writer_diagnostic_t" where
  "wdiag code operation element offset available required =
     (let d = tlv_writer_diagnostic_init
            \<lparr>wd_diagnostic :=
               tlv_diagnostic_set_location (tlv_diagnostic_init code TLV_DIAGNOSTIC_SEVERITY_ERROR)
                 TLV_LOCATION_OUTPUT TLV_LOCATION_POINT offset offset,
             wd_operation := operation\<rparr>;
          d = (case element of None \<Rightarrow> d
               | Some el \<Rightarrow>
                   let d = d\<lparr>wd_has_tag := True, wd_tag := elem_tag el\<rparr> in
                   if val_size (elem_value el) \<le> SIZE_MAX
                   then d\<lparr>wd_has_length := True, wd_length := val_size (elem_value el)\<rparr> else d);
          d = (case available of None \<Rightarrow> d | Some n \<Rightarrow> d\<lparr>wd_has_available := True, wd_available := n\<rparr>)
      in case required of None \<Rightarrow> d | Some n \<Rightarrow> d\<lparr>wd_has_required := True, wd_required := n\<rparr>)"

definition wdiag_unlocated :: "tlv_writer_diagnostic_t \<Rightarrow> tlv_writer_diagnostic_t" where
  "wdiag_unlocated d = d\<lparr>wd_diagnostic := (wd_diagnostic d)\<lparr>diag_location := location0\<rparr>\<rparr>"

definition wdiag_format ::
  "tlv_result_t \<Rightarrow> tlv_element_t option \<Rightarrow> tlv_format_error_t \<Rightarrow> nat option \<Rightarrow> tlv_writer_diagnostic_t" where
  "wdiag_format code element error available =
     (let operation =
            (case fe_region error of
               TLV_REGION_TAG \<Rightarrow> TLV_WRITER_OP_TAG | TLV_REGION_LENGTH \<Rightarrow> TLV_WRITER_OP_LENGTH
             | TLV_REGION_VALUE \<Rightarrow> TLV_WRITER_OP_VALUE | TLV_REGION_TRAILER \<Rightarrow> TLV_WRITER_OP_TRAILER
             | TLV_REGION_HEADER \<Rightarrow> TLV_WRITER_OP_HEADER);
          d = wdiag code operation element (if fe_has_offset error then fe_offset error else 0) available None;
          d = (if \<not> fe_has_offset error then wdiag_unlocated d else d)
      in if fe_has_required error
         then (case tlv_size_to_native (fe_required error) True of
                 (rc, required) \<Rightarrow>
                   if rc = TLV_OK then d\<lparr>wd_has_required := True, wd_required := out required 0\<rparr> else d)
         else d)"

definition tlv_element_encoded_size_diag ::
  "tlv_element_t option \<Rightarrow> tlv_format_t option \<Rightarrow> bool \<Rightarrow> bool
     \<Rightarrow> tlv_result_t \<times> nat option \<times> tlv_writer_diagnostic_t option" where
  "tlv_element_encoded_size_diag element format size_ok diag =
     (case (if size_ok then tlv_format_measure format element True else (TLV_ERR_NULL_ARG, None, None)) of
        (rc, encoding, error) \<Rightarrow>
          (case (if rc = TLV_OK then tlv_size_to_native (en_total (out encoding encoding0)) True
                 else (rc, None)) of
             (rc, sz) \<Rightarrow>
               (rc, sz, if rc \<noteq> TLV_OK \<and> diag
                        then Some (wdiag_format rc element (out error error0) None) else None)))"

definition tlv_element_encoded_size ::
  "tlv_element_t option \<Rightarrow> tlv_format_t option \<Rightarrow> bool \<Rightarrow> tlv_result_t \<times> nat option" where
  "tlv_element_encoded_size element format size_ok =
     (case tlv_element_encoded_size_diag element format size_ok False of (rc, sz, d) \<Rightarrow> (rc, sz))"

definition tlv_encoded_size ::
  "tlv_tag_t \<Rightarrow> nat \<Rightarrow> tlv_format_t option \<Rightarrow> bool \<Rightarrow> tlv_result_t \<times> nat option" where
  "tlv_encoded_size tag len format size_ok =
     tlv_element_encoded_size
       (Some \<lparr>elem_tag = tag, elem_value = \<lparr>val_data = Null, val_size = len\<rparr>\<rparr>) format size_ok"

definition tlv_write_element_diag ::
  "obuf \<Rightarrow> nat \<Rightarrow> tlv_format_t option \<Rightarrow> tlv_element_t option \<Rightarrow> bool \<Rightarrow> bool
     \<Rightarrow> tlv_result_t \<times> obuf \<times> nat option \<times> tlv_writer_diagnostic_t option" where
  "tlv_write_element_diag data capacity format element written_ok diag =
     (case tlv_format_encode format element data capacity written_ok of
        (rc, data', written, error) \<Rightarrow>
          (rc, data', written,
           if rc \<noteq> TLV_OK \<and> diag then Some (wdiag_format rc element (out error error0) (Some capacity))
           else None))"

definition tlv_write_element ::
  "obuf \<Rightarrow> nat \<Rightarrow> tlv_format_t option \<Rightarrow> tlv_element_t option \<Rightarrow> bool
     \<Rightarrow> tlv_result_t \<times> obuf \<times> nat option" where
  "tlv_write_element data capacity format element written_ok =
     (case tlv_write_element_diag data capacity format element written_ok False of
        (rc, data', written, d) \<Rightarrow> (rc, data', written))"

definition tlv_copy_element ::
  "tlv_element_t option \<Rightarrow> tlv_format_t option \<Rightarrow> obuf \<Rightarrow> nat \<Rightarrow> bool
     \<Rightarrow> tlv_result_t \<times> obuf \<times> nat option" where
  "tlv_copy_element element format data capacity written_ok =
     (case element of None \<Rightarrow> (TLV_ERR_NULL_ARG, data, None)
      | Some el \<Rightarrow>
          if \<not> written_ok \<or> (data = None \<and> capacity \<noteq> 0) \<or>
             (val_data (elem_value el) = Null \<and> val_size (elem_value el) \<noteq> 0)
          then (TLV_ERR_NULL_ARG, data, None)
          else case tlv_size_to_native (val_size (elem_value el)) True of
            (rc, len) \<Rightarrow>
              if rc \<noteq> TLV_OK then (rc, data, None)
              else if data = None
              then (case tlv_element_encoded_size element format True of (rc, sz) \<Rightarrow> (rc, data, sz))
              else case tlv_write_element data capacity format element True of
                (rc, data', written) \<Rightarrow> (rc, data', if rc = TLV_OK then written else None))"

definition tlv_write_diag ::
  "obuf \<Rightarrow> nat \<Rightarrow> tlv_format_t option \<Rightarrow> tlv_tag_t \<Rightarrow> ptr \<Rightarrow> nat \<Rightarrow> bool \<Rightarrow> bool
     \<Rightarrow> tlv_result_t \<times> obuf \<times> nat option \<times> tlv_writer_diagnostic_t option" where
  "tlv_write_diag data capacity format tag val len written_ok diag =
     tlv_write_element_diag data capacity format
       (Some \<lparr>elem_tag = tag, elem_value = \<lparr>val_data = val, val_size = len\<rparr>\<rparr>) written_ok diag"

definition tlv_write ::
  "obuf \<Rightarrow> nat \<Rightarrow> tlv_format_t option \<Rightarrow> tlv_tag_t \<Rightarrow> ptr \<Rightarrow> nat \<Rightarrow> bool
     \<Rightarrow> tlv_result_t \<times> obuf \<times> nat option" where
  "tlv_write data capacity format tag val len written_ok =
     (case tlv_write_diag data capacity format tag val len written_ok False of
        (rc, data', written, d) \<Rightarrow> (rc, data', written))"

text \<open>\<open>writer_destination\<close>: the result, \<^verbatim>\<open>*data\<close> and \<^verbatim>\<open>*available\<close>, and the diagnostic stored.\<close>

definition writer_destination ::
  "tlv_writer_t option \<Rightarrow> tlv_element_t option \<Rightarrow> bool
     \<Rightarrow> tlv_result_t \<times> obuf \<times> nat \<times> tlv_writer_diagnostic_t option" where
  "writer_destination writer element diag =
     (let rc = (case writer of None \<Rightarrow> TLV_ERR_NULL_ARG
                | Some w \<Rightarrow> if wr_pos w > wr_capacity w then TLV_ERR_BUFFER_TOO_SHORT
                            else if wr_buf w = None \<and> wr_capacity w \<noteq> 0 then TLV_ERR_NULL_ARG
                            else TLV_OK)
      in if rc \<noteq> TLV_OK
         then (rc, None, 0,
               if diag then Some (wdiag_unlocated (wdiag rc TLV_WRITER_OP_VALUE element
                                    (case writer of None \<Rightarrow> 0 | Some w \<Rightarrow> wr_pos w) (Some 0) None))
               else None)
         else let w = the writer in
              (TLV_OK, obuf_drop (wr_pos w) (wr_buf w), wr_capacity w - wr_pos w, None))"

definition writer_finish ::
  "tlv_writer_t \<Rightarrow> tlv_result_t \<Rightarrow> nat \<Rightarrow> tlv_writer_diagnostic_t option
     \<Rightarrow> tlv_result_t \<times> tlv_writer_t \<times> tlv_writer_diagnostic_t option" where
  "writer_finish writer rc written d =
     (if rc = TLV_OK then (rc, writer\<lparr>wr_pos := wr_pos writer + written\<rparr>, d)
      else (rc, writer,
            map_option (\<lambda>d. if loc_kind (diag_location (wd_diagnostic d)) \<noteq> TLV_LOCATION_UNKNOWN
                            then d\<lparr>wd_diagnostic := (wd_diagnostic d)
                                    \<lparr>diag_location := tlv_location_translate
                                       (diag_location (wd_diagnostic d)) (wr_pos writer)\<rparr>\<rparr>
                            else d) d))"

text \<open>The writer after a callee wrote through the destination \<^verbatim>\<open>buf + pos\<close>.\<close>

definition writer_store :: "tlv_writer_t \<Rightarrow> obuf \<Rightarrow> tlv_writer_t" where
  "writer_store w part = w\<lparr>wr_buf := obuf_put (wr_pos w) (wr_buf w) part\<rparr>"

definition tlv_writer_write_element_diag ::
  "tlv_writer_t option \<Rightarrow> tlv_element_t option \<Rightarrow> bool
     \<Rightarrow> tlv_result_t \<times> tlv_writer_t option \<times> tlv_writer_diagnostic_t option" where
  "tlv_writer_write_element_diag writer element diag =
     (case writer_destination writer element diag of
        (rc, data, available, d) \<Rightarrow>
          if rc \<noteq> TLV_OK then (rc, writer, d)
          else let w = the writer in
            case tlv_write_element_diag data available (wr_format w) element True diag of
              (rc, data', written, d) \<Rightarrow>
                (case writer_finish (writer_store w data') rc (out written 0) d of
                   (rc, w', d) \<Rightarrow> (rc, Some w', d)))"

definition tlv_writer_write_element ::
  "tlv_writer_t option \<Rightarrow> tlv_element_t option \<Rightarrow> tlv_result_t \<times> tlv_writer_t option" where
  "tlv_writer_write_element writer element =
     (case tlv_writer_write_element_diag writer element False of (rc, w, d) \<Rightarrow> (rc, w))"

definition tlv_writer_write_diag ::
  "tlv_writer_t option \<Rightarrow> tlv_tag_t \<Rightarrow> ptr \<Rightarrow> nat \<Rightarrow> bool
     \<Rightarrow> tlv_result_t \<times> tlv_writer_t option \<times> tlv_writer_diagnostic_t option" where
  "tlv_writer_write_diag writer tag val len diag =
     tlv_writer_write_element_diag writer
       (Some \<lparr>elem_tag = tag, elem_value = \<lparr>val_data = val, val_size = len\<rparr>\<rparr>) diag"

definition tlv_writer_write ::
  "tlv_writer_t option \<Rightarrow> tlv_tag_t \<Rightarrow> ptr \<Rightarrow> nat \<Rightarrow> tlv_result_t \<times> tlv_writer_t option" where
  "tlv_writer_write writer tag val len =
     (case tlv_writer_write_diag writer tag val len False of (rc, w, d) \<Rightarrow> (rc, w))"

definition tlv_writer_copy_element ::
  "tlv_writer_t option \<Rightarrow> tlv_element_t option \<Rightarrow> tlv_result_t \<times> tlv_writer_t option" where
  "tlv_writer_copy_element writer element =
     (case writer of None \<Rightarrow> (TLV_ERR_NULL_ARG, writer)
      | Some w \<Rightarrow>
          if wr_pos w > wr_capacity w then (TLV_ERR_BUFFER_TOO_SHORT, writer)
          else case element of None \<Rightarrow> (TLV_ERR_NULL_ARG, writer)
          | Some el \<Rightarrow>
              if val_data (elem_value el) = Null \<and> val_size (elem_value el) \<noteq> 0
              then (TLV_ERR_NULL_ARG, writer)
              else case tlv_size_to_native (val_size (elem_value el)) True of
                (rc, len) \<Rightarrow> if rc \<noteq> TLV_OK then (rc, writer) else tlv_writer_write_element writer element)"

definition tlv_writer_copy_encoded_diag ::
  "tlv_writer_t option \<Rightarrow> ptr \<Rightarrow> nat \<Rightarrow> bool
     \<Rightarrow> tlv_result_t \<times> tlv_writer_t option \<times> tlv_writer_diagnostic_t option" where
  "tlv_writer_copy_encoded_diag writer encoded_data encoded_length diag =
     (case writer_destination writer None diag of
        (rc, data, available, d) \<Rightarrow>
          if rc \<noteq> TLV_OK then (rc, writer, d)
          else let w = the writer in
            case (if encoded_data = Null \<and> encoded_length \<noteq> 0 then (TLV_ERR_NULL_ARG, data, None)
                  else if available < encoded_length then (TLV_ERR_BUFFER_TOO_SHORT, data, None)
                  else tlv_copy_encoded encoded_data encoded_length data available True) of
              (rc, data', written) \<Rightarrow>
                (case writer_finish (writer_store w data') rc (out written 0)
                        (if rc \<noteq> TLV_OK \<and> diag
                         then Some (wdiag rc TLV_WRITER_OP_COPY None 0 (Some available) (Some encoded_length))
                         else None) of
                   (rc, w', d) \<Rightarrow> (rc, Some w', d)))"

definition tlv_writer_copy_encoded ::
  "tlv_writer_t option \<Rightarrow> ptr \<Rightarrow> nat \<Rightarrow> tlv_result_t \<times> tlv_writer_t option" where
  "tlv_writer_copy_encoded writer encoded_data encoded_length =
     (case tlv_writer_copy_encoded_diag writer encoded_data encoded_length False of (rc, w, d) \<Rightarrow> (rc, w))"

definition tlv_writer_preserve_diag ::
  "tlv_writer_t option \<Rightarrow> tlv_source_t option \<Rightarrow> tlv_element_t option \<Rightarrow> bool
     \<Rightarrow> tlv_result_t \<times> tlv_writer_t option \<times> tlv_writer_diagnostic_t option" where
  "tlv_writer_preserve_diag writer source element diag =
     (case writer_destination writer element diag of
        (rc, data, available, d) \<Rightarrow>
          if rc \<noteq> TLV_OK then (rc, writer, d)
          else let w = the writer in
            case tlv_source_preserve source element None 0 True of
              (rc, _, req) \<Rightarrow>
                let required = out req 0 in
                if rc \<noteq> TLV_OK
                then (case writer_finish w rc 0
                             (if diag then Some (wdiag rc TLV_WRITER_OP_PRESERVE element 0 (Some available) None)
                              else None) of
                        (rc, w', d) \<Rightarrow> (rc, Some w', d))
                else case (if available < required then (TLV_ERR_BUFFER_TOO_SHORT, data, None)
                           else tlv_copy_encoded (src_data (the source)) required data available True) of
                  (rc, data', written) \<Rightarrow>
                    (case writer_finish (writer_store w data') rc (out written 0)
                            (if rc \<noteq> TLV_OK \<and> diag
                             then Some (wdiag rc TLV_WRITER_OP_PRESERVE element 0 (Some available) (Some required))
                             else None) of
                       (rc, w', d) \<Rightarrow> (rc, Some w', d)))"

definition tlv_writer_preserve ::
  "tlv_writer_t option \<Rightarrow> tlv_source_t option \<Rightarrow> tlv_element_t option
     \<Rightarrow> tlv_result_t \<times> tlv_writer_t option" where
  "tlv_writer_preserve writer source element =
     (case tlv_writer_preserve_diag writer source element False of (rc, w, d) \<Rightarrow> (rc, w))"

definition tlv_writer_size :: "tlv_writer_t option \<Rightarrow> nat" where
  "tlv_writer_size writer = (case writer of None \<Rightarrow> 0 | Some w \<Rightarrow> wr_pos w)"

definition tlv_writer_remaining :: "tlv_writer_t option \<Rightarrow> nat" where
  "tlv_writer_remaining writer =
     (case writer of None \<Rightarrow> 0 | Some w \<Rightarrow> if wr_pos w \<le> wr_capacity w then wr_capacity w - wr_pos w else 0)"

section \<open>Invariant and frame\<close>

definition writer_wf :: "tlv_writer_t \<Rightarrow> bool" where
  "writer_wf w \<longleftrightarrow> wr_pos w \<le> wr_capacity w \<and> tlv_format_can_write (wr_format w) \<and>
     (case wr_buf w of None \<Rightarrow> wr_capacity w = 0 | Some b \<Rightarrow> wr_capacity w \<le> length b)"

text \<open>
  \<open>writer_kept w w'\<close>: what every operation keeps, whatever the callbacks do: the descriptor, the
  capacity and the bytes before the position.
\<close>

definition writer_kept :: "tlv_writer_t \<Rightarrow> tlv_writer_t \<Rightarrow> bool" where
  "writer_kept w w' \<longleftrightarrow> wr_format w' = wr_format w \<and> wr_capacity w' = wr_capacity w \<and>
     (wr_buf w' = None \<longleftrightarrow> wr_buf w = None) \<and>
     take (wr_pos w) (out (wr_buf w') []) = take (wr_pos w) (out (wr_buf w) [])"

lemma writer_kept_refl [simp]: "writer_kept w w"
  by (simp add: writer_kept_def)

lemma writer_kept_store:
  assumes "writer_wf w"
  shows "writer_kept w (writer_store w part)"
  using assms
  by (cases "wr_buf w"; cases part) (auto simp: writer_kept_def writer_store_def writer_wf_def)

lemma writer_kept_pos [simp]: "writer_kept w (w'\<lparr>wr_pos := n\<rparr>) = writer_kept w w'"
  by (simp add: writer_kept_def)

lemma writer_destination_OK:
  assumes "writer_wf w"
  shows "writer_destination (Some w) el diag =
           (TLV_OK, obuf_drop (wr_pos w) (wr_buf w), wr_capacity w - wr_pos w, None)"
  using assms by (auto simp: writer_destination_def writer_wf_def split: option.splits)

lemma writer_init_wf:
  assumes "tlv_writer_init True buf cap format = (TLV_OK, Some w)" "cap \<le> length (out buf [])"
  shows "writer_wf w" "wr_pos w = 0" "wr_buf w = buf" "wr_capacity w = cap" "wr_format w = format"
  using assms
  by (auto simp: tlv_writer_init_def writer_wf_def split: if_splits option.splits)

text \<open>A successful encode reports a size within the capacity.\<close>

lemma tlv_format_encode_used:
  assumes "tlv_format_encode f el data cap True = (TLV_OK, data', written, e)"
  shows "\<exists>n. written = Some n \<and> n \<le> cap"
  using assms
  by (auto simp: tlv_format_encode_def Let_def split: option.splits prod.splits if_splits)

lemma writer_write_frame:
  assumes wf: "writer_wf w" and s: "tlv_writer_write_element_diag (Some w) el diag = (rc, w', d)"
  obtains w1 where "w' = Some w1" "writer_kept w w1" "rc \<noteq> TLV_OK \<Longrightarrow> wr_pos w1 = wr_pos w"
    "rc = TLV_OK \<Longrightarrow> wr_pos w \<le> wr_pos w1 \<and> wr_pos w1 \<le> wr_capacity w"
proof -
  obtain rc1 data' written e where enc: "tlv_format_encode (wr_format w) el (obuf_drop (wr_pos w) (wr_buf w))
      (wr_capacity w - wr_pos w) True = (rc1, data', written, e)" by (metis prod_cases4)
  from s have rc: "rc = rc1" and w': "w' = Some (if rc1 = TLV_OK
       then (writer_store w data')\<lparr>wr_pos := wr_pos w + out written 0\<rparr> else writer_store w data')"
    by (auto simp: tlv_writer_write_element_diag_def writer_destination_OK [OF wf] tlv_write_element_diag_def
        enc writer_finish_def writer_store_def split: if_splits)
  show thesis
  proof (rule that [OF w'])
    show "writer_kept w (if rc1 = TLV_OK then (writer_store w data')\<lparr>wr_pos := wr_pos w + out written 0\<rparr>
        else writer_store w data')"
      using writer_kept_store [OF wf] by simp
  qed (use enc rc wf tlv_format_encode_used in \<open>fastforce simp: writer_store_def writer_wf_def\<close>)+
qed

text \<open>What is written is what the format measures.\<close>

lemma format_encode_measured:
  assumes "tlv_format_encode (Some f) el data capacity True = (TLV_OK, data', used, e)"
  obtains sizes e' where "tlv_format_measure (Some f) el True = (TLV_OK, Some sizes, e')" "used = Some (en_total sizes)"
proof -
  obtain rc sizes e' where m: "tlv_format_measure (Some f) el True = (rc, sizes, e')" by (metis prod_cases3)
  obtain x where x: "el = Some x" using assms by (cases el) (simp_all add: tlv_format_encode_def)
  have rc: "rc = TLV_OK" using assms m x by (auto simp: tlv_format_encode_def split: if_splits)
  obtain z where z: "sizes = Some z" using tlv_format_measure_OK m rc x by blast
  have "used = Some (en_total z)"
    using assms m x rc z by (auto simp: tlv_format_encode_def tlv_size_to_native_def Let_def split: if_splits prod.splits)
  with m rc z show thesis using that by simp
qed

lemma writer_write_measured:
  assumes wf: "writer_wf w" and s: "tlv_writer_write_element_diag (Some w) el diag = (TLV_OK, Some w1, d)"
  shows "\<exists>sizes e. tlv_format_measure (wr_format w) el True = (TLV_OK, Some sizes, e) \<and> wr_pos w1 = wr_pos w + en_total sizes"
proof -
  obtain f where f: "wr_format w = Some f" using wf by (cases "wr_format w") (auto simp: writer_wf_def tlv_format_can_write_def)
  obtain rc1 data' written e where enc: "tlv_format_encode (wr_format w) el (obuf_drop (wr_pos w) (wr_buf w))
      (wr_capacity w - wr_pos w) True = (rc1, data', written, e)" by (metis prod_cases4)
  from s have rc: "rc1 = TLV_OK" and w1: "wr_pos w1 = wr_pos w + out written 0"
    by (auto simp: tlv_writer_write_element_diag_def writer_destination_OK [OF wf] tlv_write_element_diag_def
        enc writer_finish_def writer_store_def split: if_splits)
  obtain sizes e' where "tlv_format_measure (Some f) el True = (TLV_OK, Some sizes, e')" "written = Some (en_total sizes)"
    by (rule format_encode_measured [OF enc [unfolded f rc]])
  then show ?thesis using w1 f by auto
qed

section \<open>Copying and preserving encoded bytes\<close>

lemma obuf_put_blit_at:
  assumes "pos + length bs \<le> length (out buf [])"
  shows "obuf_put pos buf (obuf_blit 0 bs (obuf_drop pos buf)) = obuf_blit pos bs buf"
  using assms by (cases buf) (auto simp: blit_def add.commute)

lemma obuf_put_same: "pos \<le> length (out buf []) \<Longrightarrow> obuf_put pos buf (obuf_drop pos buf) = buf"
  by (cases buf) auto

definition appended :: "tlv_writer_t \<Rightarrow> u8 list \<Rightarrow> tlv_writer_t" where
  "appended w bs = w\<lparr>wr_buf := obuf_blit (wr_pos w) bs (wr_buf w), wr_pos := wr_pos w + length bs\<rparr>"

lemma appended_Nil [simp]: "appended w [] = w"
  by (cases "wr_buf w") (simp_all add: appended_def)

lemma writer_wf_room:
  "writer_wf w \<Longrightarrow> n \<le> wr_capacity w - wr_pos w \<Longrightarrow> wr_pos w + n \<le> length (out (wr_buf w) [])"
  by (auto simp: writer_wf_def split: option.splits)

lemma appended_wf:
  assumes "writer_wf w" "length bs \<le> wr_capacity w - wr_pos w"
  shows "writer_wf (appended w bs)"
proof -
  note R = writer_wf_room [OF assms]
  show ?thesis using assms R by (cases "wr_buf w") (auto simp: writer_wf_def appended_def)
qed

lemma copy_encoded_store:
  assumes wf: "writer_wf w" and n: "n \<le> wr_capacity w - wr_pos w" and p: "readable p n"
  shows "\<exists>data'. tlv_copy_encoded p n (obuf_drop (wr_pos w) (wr_buf w)) (wr_capacity w - wr_pos w) True =
      (TLV_OK, data', Some n) \<and>
    (writer_store w data')\<lparr>wr_pos := wr_pos w + n\<rparr> = appended w (take n (bytes p))"
proof -
  have pn: "p = Null \<longrightarrow> n = 0" using p by auto
  have len: "length (take n (bytes p)) = n" using p by (simp add: readable_def)
  have room: "wr_pos w + n \<le> length (out (wr_buf w) [])" by (rule writer_wf_room [OF wf n])
  show ?thesis
  proof (cases "wr_buf w")
    case None
    with wf n pn show ?thesis
      by (auto simp: tlv_copy_encoded_def writer_wf_def writer_store_def appended_def)
  next
    case (Some b)
    have put: "obuf_put (wr_pos w) (wr_buf w) (obuf_blit 0 (take n (bytes p)) (obuf_drop (wr_pos w) (wr_buf w))) =
        obuf_blit (wr_pos w) (take n (bytes p)) (wr_buf w)"
      by (rule obuf_put_blit_at) (use room len in simp)
    show ?thesis
      using n pn Some put len
      by (auto simp: tlv_copy_encoded_def writer_store_def appended_def)
  qed
qed

lemma writer_copy_encoded_OK:
  assumes wf: "writer_wf w" and n: "n \<le> wr_capacity w - wr_pos w" and p: "readable p n"
  shows "tlv_writer_copy_encoded_diag (Some w) p n diag = (TLV_OK, Some (appended w (take n (bytes p))), None)"
proof -
  from copy_encoded_store [OF assms] obtain data' where
    c: "tlv_copy_encoded p n (obuf_drop (wr_pos w) (wr_buf w)) (wr_capacity w - wr_pos w) True = (TLV_OK, data', Some n)"
    and st: "(writer_store w data')\<lparr>wr_pos := wr_pos w + n\<rparr> = appended w (take n (bytes p))" by blast
  have pos: "wr_pos (writer_store w data') = wr_pos w" by (simp add: writer_store_def)
  have "p = Null \<longrightarrow> n = 0" using p by auto
  then show ?thesis
    using n c st
    by (auto simp: tlv_writer_copy_encoded_diag_def writer_destination_OK [OF wf] writer_finish_def pos)
qed

lemma writer_copy_encoded_short:
  assumes wf: "writer_wf w" and n: "wr_capacity w - wr_pos w < n" and p: "p \<noteq> Null"
  shows "\<exists>d. tlv_writer_copy_encoded_diag (Some w) p n diag = (TLV_ERR_BUFFER_TOO_SHORT, Some w, d)"
proof -
  have "writer_store w (obuf_drop (wr_pos w) (wr_buf w)) = w"
    using writer_wf_room [OF wf, of 0] by (simp add: writer_store_def obuf_put_same)
  then show ?thesis
    using n p by (auto simp: tlv_writer_copy_encoded_diag_def writer_destination_OK [OF wf] writer_finish_def)
qed

lemma memcmp_refl: "memcmp xs xs = 0"
  by (induction xs) simp_all

lemma bytes_equal_refl: "n = 0 \<or> p \<noteq> Null \<Longrightarrow> bytes_equal p p n"
  by (auto simp: bytes_equal_def memcmp_refl)

text \<open>An element whose content was not changed since it was read is written with its original bytes.\<close>

lemma source_preserve_decoded:
  assumes dec: "tlv_format_decode (Some f) p n True = (TLV_OK, Some d, oe)" and n: "n \<le> SIZE_MAX"
  shows "tlv_source_preserve (Some (dec_source d)) (Some (dec_element d)) None 0 True =
           (TLV_OK, None, Some (src_size (dec_source d)))"
    and "src_data (dec_source d) = p" "src_size (dec_source d) \<le> n"
proof -
  from dec obtain r where d: "d = publish p r" and part: "partitioned r p n" and p: "p \<noteq> Null"
    unfolding tlv_format_decode_OK_iff by auto
  let ?s = "dec_source r" and ?el = "dec_element r"
  have v: "elem_value ?el = \<lparr>val_data = ptr_add p (rg_size (src_header ?s)), val_size = rg_size (src_value ?s)\<rparr>"
    and sz: "rg_size (src_value ?s) \<le> src_size ?s" "src_size ?s \<le> n" and b: "tag_binding_valid r p"
    using part by (auto simp: partitioned_def Let_def)
  have t: "tag_size (elem_tag ?el) = 0 \<or> tag_data (elem_tag ?el) \<noteq> Null"
    using b p by (auto simp: tag_binding_valid_def Let_def split: tlv_tag_binding_t.splits if_splits)
  have be: "bytes_equal (tag_data (elem_tag ?el)) (tag_data (elem_tag ?el)) (tag_size (elem_tag ?el))"
    using t by (rule bytes_equal_refl)
  have bv: "bytes_equal (val_data (elem_value ?el)) (val_data (elem_value ?el)) (val_size (elem_value ?el))"
    using p v by (intro bytes_equal_refl) simp
  have vs: "val_size (elem_value ?el) \<le> SIZE_MAX" using v sz n by simp
  show "tlv_source_preserve (Some (dec_source d)) (Some (dec_element d)) None 0 True =
           (TLV_OK, None, Some (src_size (dec_source d)))"
    using p be bv vs by (simp add: d tlv_source_preserve_def Let_def)
  show "src_data (dec_source d) = p" "src_size (dec_source d) \<le> n" using sz by (simp_all add: d)
qed

lemma writer_preserve_OK:
  assumes wf: "writer_wf w" and dec: "tlv_format_decode (Some f) p n True = (TLV_OK, Some d, oe)"
    and n: "n \<le> SIZE_MAX" "readable p n" and room: "src_size (dec_source d) \<le> wr_capacity w - wr_pos w"
  shows "tlv_writer_preserve_diag (Some w) (Some (dec_source d)) (Some (dec_element d)) diag =
           (TLV_OK, Some (appended w (take (src_size (dec_source d)) (bytes p))), None)"
proof -
  note P = source_preserve_decoded [OF dec n(1)]
  have rd: "readable p (src_size (dec_source d))" by (rule readable_mono [OF n(2) P(3)])
  from copy_encoded_store [OF wf room rd] obtain data' where
    c: "tlv_copy_encoded p (src_size (dec_source d)) (obuf_drop (wr_pos w) (wr_buf w))
          (wr_capacity w - wr_pos w) True = (TLV_OK, data', Some (src_size (dec_source d)))"
    and st: "(writer_store w data')\<lparr>wr_pos := wr_pos w + src_size (dec_source d)\<rparr> =
          appended w (take (src_size (dec_source d)) (bytes p))" by blast
  have pos: "wr_pos (writer_store w data') = wr_pos w" by (simp add: writer_store_def)
  show ?thesis
    using room c st P
    by (simp add: tlv_writer_preserve_diag_def writer_destination_OK [OF wf] writer_finish_def pos Let_def)
qed

section \<open>Writing a sequence and reading it back\<close>

text \<open>A client that writes elements one after the other and stops at the first error.\<close>

fun write_all :: "tlv_writer_t \<Rightarrow> tlv_element_t list \<Rightarrow> tlv_result_t \<times> tlv_writer_t" where
  "write_all w [] = (TLV_OK, w)"
| "write_all w (el # els) =
     (case tlv_writer_write_element (Some w) (Some el) of
        (rc, w') \<Rightarrow> if rc = TLV_OK then write_all (the w') els else (rc, the w'))"

text \<open>The elements a format accepts.\<close>

definition writable :: "tlv_measure_fn \<Rightarrow> tlv_element_t \<Rightarrow> bool" where
  "writable measure_fn el \<longleftrightarrow> element_wf el \<and> fst (measure_fn el encoding0 error0) = TLV_OK"

lemma blit_append:
  "pos + length a + length b \<le> length buf \<Longrightarrow> blit (pos + length a) b (blit pos a buf) = blit pos (a @ b) buf"
  by (simp add: blit_def ac_simps)

context format_codec
begin

lemma wire_nonempty: "writable measure_fn el \<Longrightarrow> 0 < length (wire el)"
  unfolding writable_def using measure_exact [of el] by (metis prod.exhaust_sel)

lemma writer_write_wire:
  assumes wf: "writer_wf w" and f: "wr_format w = Some f" "fmt_measure f = Some measure_fn" "fmt_encode f = Some encode_fn"
    and el: "writable measure_fn el" and room: "length (wire el) \<le> wr_capacity w - wr_pos w"
  shows "tlv_writer_write_element_diag (Some w) (Some el) diag = (TLV_OK, Some (appended w (wire el)), None)"
proof -
  have el': "element_wf el" "fst (measure_fn el encoding0 error0) = TLV_OK" using el by (simp_all add: writable_def)
  from wf room wire_nonempty [OF el] obtain b where b: "wr_buf w = Some b"
    by (cases "wr_buf w") (auto simp: writer_wf_def)
  have cap: "wr_capacity w - wr_pos w \<le> length (drop (wr_pos w) b)"
    using wf b by (auto simp: writer_wf_def)
  note E = codec_encode [OF f(2,3) el' room cap]
  have put: "take (wr_pos w) b @ blit 0 (wire el) (drop (wr_pos w) b) = blit (wr_pos w) (wire el) b"
    by (simp add: blit_def add.commute)
  show ?thesis
    using E put
    by (simp add: tlv_writer_write_element_diag_def writer_destination_OK [OF wf]
        tlv_write_element_diag_def b f(1) writer_finish_def writer_store_def appended_def)
qed

lemma write_all_wire:
  assumes "writer_wf w" "wr_format w = Some f" "fmt_measure f = Some measure_fn" "fmt_encode f = Some encode_fn"
    and "\<And>el. el \<in> set els \<Longrightarrow> writable measure_fn el" "length (concat (map wire els)) \<le> wr_capacity w - wr_pos w"
  shows "write_all w els = (TLV_OK, appended w (concat (map wire els)))"
  using assms
proof (induction els arbitrary: w)
  case Nil
  then show ?case by simp
next
  case (Cons el els)
  let ?w = "appended w (wire el)" and ?rest = "concat (map wire els)"
  have room: "length (wire el) \<le> wr_capacity w - wr_pos w" using Cons.prems(6) by simp
  note W = writer_write_wire [OF Cons.prems(1-4) Cons.prems(5) room]
  have wf: "writer_wf ?w" by (rule appended_wf [OF Cons.prems(1) room])
  have "wr_format ?w = Some f" "length ?rest \<le> wr_capacity ?w - wr_pos ?w"
    using Cons.prems(2,6) by (simp_all add: appended_def)
  then have IH: "write_all ?w els = (TLV_OK, appended ?w ?rest)"
    using Cons.IH [OF wf] Cons.prems(3-5) by simp
  have app: "appended ?w ?rest = appended w (wire el @ ?rest)"
    using writer_wf_room [OF Cons.prems(1,6)]
    by (cases "wr_buf w") (simp_all add: appended_def blit_append add.assoc)
  show ?case using W IH app by (simp add: tlv_writer_write_element_def)
qed

lemma reader_next_wire:
  assumes r: "reader_valid (Some r) = TLV_OK" "readable (rd_data r) (rd_size r)"
    and f: "rd_format r = Some f" "fmt_decode f = Some decode"
    and el: "writable measure_fn el" and wd: "take (length (wire el)) (drop (rd_pos r) (bytes (rd_data r))) = wire el"
    and room: "length (wire el) \<le> rd_size r - rd_pos r"
  obtains el' where "same_content el' el"
    "tlv_reader_next (Some r) True = (TLV_OK, Some (r\<lparr>rd_pos := rd_pos r + length (wire el)\<rparr>), Some el')"
proof -
  have pos: "0 < length (wire el)" by (rule wire_nonempty [OF el])
  have le: "rd_pos r \<le> rd_size r" using r(1) by (simp add: reader_valid_OK)
  let ?p = "ptr_add (rd_data r) (rd_pos r)" and ?n = "rd_size r - rd_pos r"
  have rd: "readable ?p ?n" using r(2) le by (auto simp: readable_def)
  from el have el': "element_wf el" "fst (measure_fn el encoding0 error0) = TLV_OK" by (simp_all add: writable_def)
  have "take (length (wire el)) (bytes ?p) = wire el" using wd by simp
  from decode_wire [OF el' room rd this] obtain d e where
    d: "decode ?p ?n decoded0 error0 = (TLV_OK, d, e)" "src_size (dec_source d) = length (wire el)"
    "same_content (dec_element d) el" by blast
  have "tlv_format_decode (Some f) ?p ?n True = (TLV_OK, Some (publish ?p d), None)"
    using format_decode_OK [OF f(2) rd less_le_trans [OF pos room] d(1)] .
  then have "tlv_reader_next (Some r) True =
      (TLV_OK, Some (r\<lparr>rd_pos := rd_pos r + length (wire el)\<rparr>), Some (dec_element d))"
    using r(1) f(1) pos room d(2)
    by (auto simp: tlv_reader_next_def tlv_reader_next_diag_def reader_next_def tlv_read_impl_def Let_def)
  with d(3) show thesis by (rule that)
qed

lemma reads_wire:
  assumes "reader_wf r" "rd_format r = Some f" "fmt_decode f = Some decode"
    and "\<And>el. el \<in> set els \<Longrightarrow> writable measure_fn el"
    and "take (rd_size r - rd_pos r) (drop (rd_pos r) (bytes (rd_data r))) = concat (map wire els)"
  shows "\<exists>els'. reads r els' (r\<lparr>rd_pos := rd_size r\<rparr>) \<and> list_all2 same_content els' els"
  using assms
proof (induction els arbitrary: r)
  case Nil
  have "length (bytes (rd_data r)) \<ge> rd_size r" "rd_pos r \<le> rd_size r"
    using Nil.prems(1) by (auto simp: reader_wf_def reader_valid_OK readable_def)
  with Nil.prems(5) have "rd_pos r = rd_size r" by auto
  then have "r\<lparr>rd_pos := rd_size r\<rparr> = r" by simp
  then show ?case by (metis list_all2_Nil reads.none)
next
  case (Cons el els)
  let ?w = "wire el" and ?rest = "concat (map wire els)" and ?k = "rd_size r - rd_pos r"
  let ?D = "drop (rd_pos r) (bytes (rd_data r))"
  have rv: "reader_valid (Some r) = TLV_OK" "readable (rd_data r) (rd_size r)" "rd_pos r \<le> rd_size r"
    using Cons.prems(1) by (auto simp: reader_wf_def reader_valid_OK)
  have D: "take ?k ?D = ?w @ ?rest" using Cons.prems(5) by simp
  have k: "length ?w + length ?rest = ?k"
    using arg_cong [OF D, of length] rv(2,3) by (simp add: readable_def)
  have wd: "take (length ?w) ?D = ?w"
    using arg_cong [OF D, of "take (length ?w)"] k by (simp add: min_def)
  obtain el' where el': "same_content el' el"
    and nx: "tlv_reader_next (Some r) True = (TLV_OK, Some (r\<lparr>rd_pos := rd_pos r + length ?w\<rparr>), Some el')"
    using reader_next_wire [OF rv(1,2) Cons.prems(2,3) Cons.prems(4) wd] k by auto
  let ?r = "r\<lparr>rd_pos := rd_pos r + length ?w\<rparr>"
  have wf': "reader_wf ?r" using Cons.prems(1) k by (auto simp: reader_wf_def reader_valid_OK)
  have "drop (length ?w) (take ?k ?D) = ?rest" using D by simp
  then have "take (rd_size ?r - rd_pos ?r) (drop (rd_pos ?r) (bytes (rd_data ?r))) = ?rest"
    using k by (simp add: drop_take add.commute)
  then obtain els' where "reads ?r els' (?r\<lparr>rd_pos := rd_size ?r\<rparr>)" "list_all2 same_content els' els"
    using Cons.IH [OF wf'] Cons.prems(2-4) by auto
  with el' reads.one [OF _ nx, of els'] show ?case
    by (intro exI [of _ "el' # els'"]) simp
qed

text \<open>Everything written into a fresh writer is read back by a reader over the bytes written.\<close>

lemma write_read_all:
  assumes f: "fmt_decode f = Some decode" "fmt_measure f = Some measure_fn" "fmt_encode f = Some encode_fn"
    and els: "\<And>el. el \<in> set els \<Longrightarrow> writable measure_fn el"
    and buf: "length (concat (map wire els)) \<le> cap" "cap \<le> length buf" "cap \<le> SIZE_MAX"
    and w: "tlv_writer_init True (Some buf) cap (Some f) = (TLV_OK, Some w)"
  shows "\<exists>w' r r' els'. write_all w els = (TLV_OK, w') \<and>
      tlv_reader_init True (Ptr a (out (wr_buf w') [])) (tlv_writer_size (Some w')) (Some f) = (TLV_OK, Some r) \<and>
      reads r els' r' \<and> tlv_reader_at_end (Some r') \<and> list_all2 same_content els' els"
proof -
  note W = writer_init_wf [OF w]
  let ?bs = "concat (map wire els)"
  have wa: "write_all w els = (TLV_OK, appended w ?bs)"
    using W buf els by (intro write_all_wire [OF _ _ f(2,3)]) auto
  have b: "wr_buf (appended w ?bs) = Some (blit 0 ?bs buf)" "wr_pos (appended w ?bs) = length ?bs"
    using W(2,3) buf by (simp_all add: appended_def)
  define r where "r = \<lparr>rd_format = Some f, rd_data = Ptr a (blit 0 ?bs buf), rd_size = length ?bs, rd_pos = 0,
    rd_base_offset = 0, rd_final_input = 1\<rparr>"
  have ri: "tlv_reader_init True (Ptr a (blit 0 ?bs buf)) (length ?bs) (Some f) = (TLV_OK, Some r)"
    using f(1) by (simp add: tlv_reader_init_def tlv_format_can_read_def r_def)
  have len: "length ?bs \<le> length (blit 0 ?bs buf)" using buf by simp
  have "reader_wf r"
    using reader_init_wf [OF ri] len buf by simp
  then obtain els' where "reads r els' (r\<lparr>rd_pos := rd_size r\<rparr>)" "list_all2 same_content els' els"
    using reads_wire [of r f els] f(1) els by (auto simp: r_def blit_0)
  moreover have "tlv_reader_at_end (Some (r\<lparr>rd_pos := rd_size r\<rparr>))"
    by (simp add: tlv_reader_at_end_def r_def)
  ultimately show ?thesis
    using wa b ri by (auto simp: tlv_writer_size_def)
qed

end

end
