(* ===== verification/TLV_Tree_Writer.thy ===== *)
theory TLV_Tree_Writer
  imports TLV_Writer
begin

text \<open>
  Bottom-up construction of nested elements (\<^verbatim>\<open>writer/tree.c\<close>).  An open constructed element is a
  frame: its tag and where its value starts in the output.  Closing it moves the accumulated value
  to a scratch area and writes the whole element in its place.  The lemmas show that a failed
  operation keeps the committed and the provisional bytes, that the loop of the measuring entry
  point terminates for every event source, and that the events of a forest produce the nested
  encoding of that forest.

  The frame array, the scratch area and the tag storage belong to the caller; their content is
  part of the model's writer.  A pointer into one of them carries its offset as address.
\<close>

section \<open>Types (writer/tree.h)\<close>

record tlv_tree_writer_frame_t =
  wf_tag :: tlv_tag_t
  wf_start :: nat

record tlv_tree_writer_t =
  tw_output :: tlv_writer_t
  tw_frames :: "tlv_tree_writer_frame_t list"
  tw_capacity :: nat
  tw_depth :: nat
  tw_max_depth :: nat
  tw_max_elements :: nat
  tw_count :: nat
  tw_scratch :: obuf
  tw_scratch_capacity :: nat
  tw_tags :: obuf
  tw_tags_capacity :: nat
  tw_tags_used :: nat

record tlv_tree_writer_workspace_t =
  ws_frames :: "tlv_tree_writer_frame_t list option"
  ws_frame_capacity :: nat
  ws_data :: obuf
  ws_data_capacity :: nat
  ws_scratch :: obuf
  ws_scratch_capacity :: nat
  ws_required_data :: nat
  ws_required_scratch :: nat

text \<open>
  The event and node sources: functions of their context and of the cells they may write, giving
  the result, the cells and the new context.
\<close>

type_synonym 'c tlv_tree_event_next_fn =
  "'c \<Rightarrow> tlv_tree_event_t \<Rightarrow> tlv_result_t \<times> tlv_tree_event_t \<times> 'c"
type_synonym 'c tlv_tree_writer_next_fn =
  "'c \<Rightarrow> tlv_element_t \<Rightarrow> nat \<Rightarrow> bool \<Rightarrow> tlv_result_t \<times> tlv_element_t \<times> nat \<times> bool \<times> 'c"
type_synonym 'k tree_writer_charge_fn = "'k \<Rightarrow> nat \<Rightarrow> tlv_result_t \<times> 'k"

section \<open>Operations (writer/tree.c)\<close>

text \<open>What \<open>tree_error\<close> stores through a diagnostic.\<close>

definition tree_error ::
  "tlv_result_t \<Rightarrow> tlv_writer_operation_t \<Rightarrow> nat \<Rightarrow> tlv_tag_t option \<Rightarrow> tlv_writer_diagnostic_t" where
  "tree_error rc operation offset tag =
     (let d = tlv_writer_diagnostic_init
            \<lparr>wd_diagnostic :=
               tlv_diagnostic_set_location (tlv_diagnostic_init rc TLV_DIAGNOSTIC_SEVERITY_ERROR)
                 TLV_LOCATION_OUTPUT TLV_LOCATION_POINT offset offset,
             wd_operation := operation\<rparr>
      in case tag of None \<Rightarrow> d | Some t \<Rightarrow> d\<lparr>wd_has_tag := True, wd_tag := t\<rparr>)"

definition wdiag_if :: "bool \<Rightarrow> tlv_writer_diagnostic_t \<Rightarrow> tlv_writer_diagnostic_t option" where
  "wdiag_if diag d = (if diag then Some d else None)"

definition tlv_tree_writer_init ::
  "bool \<Rightarrow> obuf \<Rightarrow> nat \<Rightarrow> tlv_format_t option \<Rightarrow> tlv_tree_writer_frame_t list option \<Rightarrow> nat \<Rightarrow> obuf \<Rightarrow> nat
     \<Rightarrow> nat \<Rightarrow> nat \<Rightarrow> tlv_result_t \<times> tlv_tree_writer_t option" where
  "tlv_tree_writer_init writer_ok data sz format frames capacity scratch scratch_capacity max_depth
       max_elements =
     (if \<not> writer_ok \<or> (frames = None \<and> capacity \<noteq> 0) \<or> (scratch = None \<and> scratch_capacity \<noteq> 0)
      then (TLV_ERR_NULL_ARG, None)
      else case tlv_writer_init True data sz format of
        (rc, output) \<Rightarrow>
          if rc \<noteq> TLV_OK then (rc, None)
          else (TLV_OK, Some \<lparr>tw_output = the output, tw_frames = out frames [], tw_capacity = capacity,
                  tw_depth = 0, tw_max_depth = max_depth, tw_max_elements = max_elements, tw_count = 0,
                  tw_scratch = scratch, tw_scratch_capacity = scratch_capacity, tw_tags = None,
                  tw_tags_capacity = 0, tw_tags_used = 0\<rparr>))"

definition tlv_tree_writer_set_tag_storage ::
  "tlv_tree_writer_t option \<Rightarrow> obuf \<Rightarrow> nat \<Rightarrow> tlv_result_t \<times> tlv_tree_writer_t option" where
  "tlv_tree_writer_set_tag_storage writer data capacity =
     (case writer of None \<Rightarrow> (TLV_ERR_NULL_ARG, None)
      | Some w \<Rightarrow>
          if data = None \<and> capacity \<noteq> 0 then (TLV_ERR_NULL_ARG, writer)
          else if tw_depth w \<noteq> 0 then (TLV_ERR_INVALID_STATE, writer)
          else (TLV_OK, Some (w\<lparr>tw_tags := data, tw_tags_capacity := capacity, tw_tags_used := 0\<rparr>)))"

text \<open>The size an open tag takes in the tag storage.\<close>

definition stored_size :: "tlv_tag_t \<Rightarrow> nat" where
  "stored_size tag = (if tag_size tag \<noteq> 0 then tag_size tag else 1)"

definition constructed_tag :: "tlv_writer_t \<Rightarrow> tlv_tag_t \<Rightarrow> bool" where
  "constructed_tag output tag =
     (case fmt_is_constructed (the (wr_format output)) of None \<Rightarrow> False | Some p \<Rightarrow> p tag)"

definition tlv_tree_writer_begin_diag ::
  "tlv_tree_writer_t option \<Rightarrow> tlv_tag_t \<Rightarrow> bool
     \<Rightarrow> tlv_result_t \<times> tlv_tree_writer_t option \<times> tlv_writer_diagnostic_t option" where
  "tlv_tree_writer_begin_diag writer tag diag =
     (let rc = (case writer of None \<Rightarrow> TLV_ERR_NULL_ARG
                | Some w \<Rightarrow>
                    if tag_size tag \<noteq> 0 \<and> tag_data tag = Null then TLV_ERR_NULL_ARG
                    else if tw_depth w > tw_max_depth w \<or> tw_count w \<ge> tw_max_elements w then TLV_ERR_LIMIT
                    else if tw_depth w \<ge> tw_capacity w then TLV_ERR_BUFFER_TOO_SHORT
                    else if \<not> constructed_tag (tw_output w) tag then TLV_ERR_INVALID_TAG
                    else TLV_OK)
      in if rc \<noteq> TLV_OK
         then (rc, writer, wdiag_if diag (tree_error rc TLV_WRITER_OP_BEGIN
                 (case writer of None \<Rightarrow> 0 | Some w \<Rightarrow> wr_pos (tw_output w)) (Some tag)))
         else let w = the writer;
                  open_frame = (\<lambda>w tag. w\<lparr>tw_frames := (tw_frames w)[tw_depth w :=
                                   \<lparr>wf_tag = tag, wf_start = wr_pos (tw_output w)\<rparr>],
                                 tw_depth := tw_depth w + 1, tw_count := tw_count w + 1\<rparr>) in
           if tw_tags w \<noteq> None \<and> tag_data tag \<noteq> Null
           then let n = stored_size tag; used = tw_tags_used w in
                if n > size_sub (tw_tags_capacity w) used
                then (TLV_ERR_BUFFER_TOO_SHORT, writer,
                      wdiag_if diag (tree_error TLV_ERR_BUFFER_TOO_SHORT TLV_WRITER_OP_BEGIN
                        (wr_pos (tw_output w)) (Some tag)))
                else let tags = obuf_blit used (take (tag_size tag) (bytes (tag_data tag))) (tw_tags w) in
                     (TLV_OK, Some (open_frame (w\<lparr>tw_tags := tags, tw_tags_used := used + n\<rparr>)
                                      (tag\<lparr>tag_data := buf_ptr tags used\<rparr>)), None)
           else (TLV_OK, Some (open_frame w tag), None))"

definition tlv_tree_writer_begin ::
  "tlv_tree_writer_t option \<Rightarrow> tlv_tag_t \<Rightarrow> tlv_result_t \<times> tlv_tree_writer_t option" where
  "tlv_tree_writer_begin writer tag =
     (case tlv_tree_writer_begin_diag writer tag False of (rc, w, d) \<Rightarrow> (rc, w))"

definition tlv_tree_writer_write_element_diag ::
  "tlv_tree_writer_t option \<Rightarrow> tlv_element_t option \<Rightarrow> bool
     \<Rightarrow> tlv_result_t \<times> tlv_tree_writer_t option \<times> tlv_writer_diagnostic_t option" where
  "tlv_tree_writer_write_element_diag writer element diag =
     (let rc = (case (writer, element) of
                  (Some w, Some el) \<Rightarrow>
                    if tw_depth w > tw_max_depth w \<or> tw_count w \<ge> tw_max_elements w then TLV_ERR_LIMIT
                    else TLV_OK
                | _ \<Rightarrow> TLV_ERR_NULL_ARG)
      in if rc \<noteq> TLV_OK
         then (rc, writer, wdiag_if diag (tree_error rc TLV_WRITER_OP_VALUE
                 (case writer of None \<Rightarrow> 0 | Some w \<Rightarrow> wr_pos (tw_output w)) (map_option elem_tag element)))
         else let w = the writer in
              case tlv_writer_write_element_diag (Some (tw_output w)) element diag of
                (rc, output, d) \<Rightarrow>
                  (rc, Some (w\<lparr>tw_output := the output,
                              tw_count := (if rc = TLV_OK then tw_count w + 1 else tw_count w)\<rparr>), d))"

definition tlv_tree_writer_write_element ::
  "tlv_tree_writer_t option \<Rightarrow> tlv_element_t option \<Rightarrow> tlv_result_t \<times> tlv_tree_writer_t option" where
  "tlv_tree_writer_write_element writer element =
     (case tlv_tree_writer_write_element_diag writer element False of (rc, w, d) \<Rightarrow> (rc, w))"

definition tlv_tree_writer_end_diag ::
  "tlv_tree_writer_t option \<Rightarrow> bool
     \<Rightarrow> tlv_result_t \<times> tlv_tree_writer_t option \<times> tlv_writer_diagnostic_t option" where
  "tlv_tree_writer_end_diag writer diag =
     (case writer of
        None \<Rightarrow> (TLV_ERR_NULL_ARG, None, wdiag_if diag (tree_error TLV_ERR_NULL_ARG TLV_WRITER_OP_END 0 None))
      | Some w \<Rightarrow>
          if tw_depth w = 0
          then (TLV_ERR_INVALID_STATE, writer,
                wdiag_if diag (tree_error TLV_ERR_INVALID_STATE TLV_WRITER_OP_END (wr_pos (tw_output w)) None))
          else let frame = tw_frames w ! (tw_depth w - 1);
                   start = wf_start frame;
                   len = size_sub (wr_pos (tw_output w)) start in
            if len > tw_scratch_capacity w
            then (TLV_ERR_BUFFER_TOO_SHORT, writer,
                  wdiag_if diag ((tree_error TLV_ERR_BUFFER_TOO_SHORT TLV_WRITER_OP_END start (Some (wf_tag frame)))
                    \<lparr>wd_has_available := True, wd_has_required := True, wd_has_length := True,
                     wd_available := tw_scratch_capacity w, wd_required := len, wd_length := len\<rparr>))
            else let active = take len (drop start (out (wr_buf (tw_output w)) []));
                     scratch = (if len \<noteq> 0 then obuf_blit 0 active (tw_scratch w) else tw_scratch w);
                     parent = \<lparr>elem_tag = wf_tag frame,
                               elem_value = \<lparr>val_data = buf_ptr scratch 0, val_size = len\<rparr>\<rparr>
              in case tlv_writer_write_element_diag (Some ((tw_output w)\<lparr>wr_pos := start\<rparr>)) (Some parent) diag of
                   (rc, output, d) \<Rightarrow>
                     if rc \<noteq> TLV_OK
                     then (rc, Some (w\<lparr>tw_scratch := scratch,
                             tw_output := (tw_output w)\<lparr>wr_buf :=
                               (if len \<noteq> 0 then obuf_blit start (take len (out scratch [])) (wr_buf (the output))
                                else wr_buf (the output))\<rparr>\<rparr>), d)
                     else (TLV_OK, Some (w\<lparr>tw_scratch := scratch, tw_output := the output,
                             tw_depth := tw_depth w - 1,
                             tw_tags_used := (if tw_tags w \<noteq> None \<and> tag_data (wf_tag frame) \<noteq> Null
                                              then size_sub (tw_tags_used w) (stored_size (wf_tag frame))
                                              else tw_tags_used w)\<rparr>), d))"

definition tlv_tree_writer_end ::
  "tlv_tree_writer_t option \<Rightarrow> tlv_result_t \<times> tlv_tree_writer_t option" where
  "tlv_tree_writer_end writer = (case tlv_tree_writer_end_diag writer False of (rc, w, d) \<Rightarrow> (rc, w))"

text \<open>An event that does not fit the open elements; the check stands twice in the code.\<close>

definition event_misplaced :: "nat \<Rightarrow> tlv_tree_event_t \<Rightarrow> bool" where
  "event_misplaced depth event \<longleftrightarrow>
     ev_skipped event \<or>
     (ev_kind event \<noteq> TLV_TREE_BEGIN \<and> ev_kind event \<noteq> TLV_TREE_ELEMENT \<and> ev_kind event \<noteq> TLV_TREE_END) \<or>
     (if ev_kind event = TLV_TREE_END then depth = 0 \<or> ev_depth event \<noteq> depth - 1
      else ev_depth event \<noteq> depth)"

definition tlv_tree_writer_write_event_diag ::
  "tlv_tree_writer_t option \<Rightarrow> tlv_tree_event_t option \<Rightarrow> bool
     \<Rightarrow> tlv_result_t \<times> tlv_tree_writer_t option \<times> tlv_writer_diagnostic_t option" where
  "tlv_tree_writer_write_event_diag writer event diag =
     (case (writer, event) of
        (Some w, Some e) \<Rightarrow>
          let operation = (if ev_kind e = TLV_TREE_BEGIN then TLV_WRITER_OP_BEGIN
                           else if ev_kind e = TLV_TREE_END then TLV_WRITER_OP_END else TLV_WRITER_OP_VALUE);
              pos = wr_pos (tw_output w); tag = elem_tag (ev_element e) in
          if event_misplaced (tw_depth w) e
          then (TLV_ERR_INVALID_VALUE, writer,
                wdiag_if diag (tree_error TLV_ERR_INVALID_VALUE operation pos None))
          else if ev_kind e = TLV_TREE_BEGIN then tlv_tree_writer_begin_diag writer tag diag
          else if ev_kind e = TLV_TREE_END then tlv_tree_writer_end_diag writer diag
          else if tag_size tag \<noteq> 0 \<and> tag_data tag = Null
          then (TLV_ERR_NULL_ARG, writer, wdiag_if diag (tree_error TLV_ERR_NULL_ARG operation pos None))
          else if constructed_tag (tw_output w) tag
          then (TLV_ERR_INVALID_TAG, writer,
                wdiag_if diag (tree_error TLV_ERR_INVALID_TAG operation pos (Some tag)))
          else tlv_tree_writer_write_element_diag writer (Some (ev_element e)) diag
      | _ \<Rightarrow> (TLV_ERR_NULL_ARG, writer,
              wdiag_if diag (tree_error TLV_ERR_NULL_ARG TLV_WRITER_OP_VALUE
                (case writer of None \<Rightarrow> 0 | Some w \<Rightarrow> wr_pos (tw_output w)) None)))"

definition tlv_tree_writer_write_event ::
  "tlv_tree_writer_t option \<Rightarrow> tlv_tree_event_t option \<Rightarrow> tlv_result_t \<times> tlv_tree_writer_t option" where
  "tlv_tree_writer_write_event writer event =
     (case tlv_tree_writer_write_event_diag writer event False of (rc, w, d) \<Rightarrow> (rc, w))"

definition tlv_tree_writer_finish :: "tlv_tree_writer_t option \<Rightarrow> tlv_result_t" where
  "tlv_tree_writer_finish writer =
     (case writer of None \<Rightarrow> TLV_ERR_NULL_ARG
      | Some w \<Rightarrow> if tw_depth w \<noteq> 0 then TLV_ERR_INVALID_STATE else TLV_OK)"

definition tlv_tree_writer_size :: "tlv_tree_writer_t option \<Rightarrow> nat" where
  "tlv_tree_writer_size writer =
     (case writer of None \<Rightarrow> 0
      | Some w \<Rightarrow> if tw_depth w \<noteq> 0 then wf_start (tw_frames w ! 0) else wr_pos (tw_output w))"

section \<open>Exact measurement of an event source\<close>

text \<open>
  \<open>measure_storage\<close>: the result, the workspace with its storage demands, and the diagnostic.  The
  staged bytes of the workspace are the output of the writer.
\<close>

definition measure_storage ::
  "tlv_tree_writer_t \<Rightarrow> tlv_element_t \<Rightarrow> nat \<Rightarrow> bool \<Rightarrow> tlv_tree_writer_workspace_t \<Rightarrow> bool
     \<Rightarrow> tlv_result_t \<times> tlv_tree_writer_workspace_t \<times> tlv_writer_diagnostic_t option" where
  "measure_storage writer element start closing ws diag =
     (case tlv_element_encoded_size_diag (Some element) (wr_format (tw_output writer)) True diag of
        (rc, osz, d) \<Rightarrow>
          if rc \<noteq> TLV_OK
          then (rc, ws, map_option (\<lambda>d. d\<lparr>wd_diagnostic := (wd_diagnostic d)\<lparr>diag_location :=
                     tlv_location_translate (diag_location (wd_diagnostic d)) start\<rparr>\<rparr>) d)
          else let encoded = out osz 0 in
            if encoded > SIZE_MAX - start
            then (TLV_ERR_OVERFLOW, ws,
                  wdiag_if diag (tree_error TLV_ERR_OVERFLOW TLV_WRITER_OP_VALUE start (Some (elem_tag element))))
            else let ws = (if start + encoded > ws_data_capacity ws then ws\<lparr>ws_required_data := start + encoded\<rparr> else ws);
                     pending = size_sub (wr_pos (tw_output writer)) start;
                     ws = (if closing \<and> pending > ws_scratch_capacity ws
                           then ws\<lparr>ws_required_scratch := pending\<rparr> else ws)
              in if ws_required_data ws = 0 \<and> ws_required_scratch ws = 0 then (TLV_OK, ws, None)
                 else let sc = (ws_required_scratch ws \<noteq> 0) in
                   (TLV_ERR_BUFFER_TOO_SHORT, ws,
                    wdiag_if diag
                      ((tree_error TLV_ERR_BUFFER_TOO_SHORT
                          (if sc then TLV_WRITER_OP_END else TLV_WRITER_OP_VALUE) start (Some (elem_tag element)))
                       \<lparr>wd_has_available := True, wd_has_required := True,
                        wd_available := (if sc then ws_scratch_capacity ws else size_sub (ws_data_capacity ws) start),
                        wd_required := (if sc then ws_required_scratch ws else encoded)\<rparr>)))"

definition measure_close ::
  "tlv_tree_writer_t \<Rightarrow> tlv_tree_writer_workspace_t \<Rightarrow> bool
     \<Rightarrow> tlv_result_t \<times> tlv_tree_writer_t \<times> tlv_tree_writer_workspace_t \<times> tlv_writer_diagnostic_t option" where
  "measure_close writer ws diag =
     (let frame = tw_frames writer ! (tw_depth writer - 1);
          element = \<lparr>elem_tag = wf_tag frame,
                     elem_value = \<lparr>val_data = buf_ptr (wr_buf (tw_output writer)) (wf_start frame),
                                   val_size = size_sub (wr_pos (tw_output writer)) (wf_start frame)\<rparr>\<rparr>
      in case measure_storage writer element (wf_start frame) True ws diag of
           (rc, ws, d) \<Rightarrow>
             if rc = TLV_OK
             then (case tlv_tree_writer_end_diag (Some writer) diag of (rc, w, d) \<Rightarrow> (rc, the w, ws, d))
             else (rc, writer, ws, d))"

text \<open>The adapter from node sources to events.\<close>

record preorder_source_t =
  ps_pending :: tlv_tree_event_t
  ps_open :: nat
  ps_available :: bool
  ps_done :: bool

definition preorder_pull ::
  "'c tlv_tree_writer_next_fn \<Rightarrow> preorder_source_t \<Rightarrow> 'c \<Rightarrow> tlv_result_t \<times> preorder_source_t \<times> 'c" where
  "preorder_pull nxt source context =
     (if \<not> ps_available source \<and> \<not> ps_done source
      then (let p = ps_pending source in
            case nxt context (ev_element p) (ev_depth p) False of
              (rc, el, depth, constructed, context') \<Rightarrow>
                let source = source\<lparr>ps_pending := p\<lparr>ev_element := el, ev_depth := depth\<rparr>\<rparr>;
                    rc = tlv_callback_result rc True in
                if rc = TLV_END then (TLV_OK, source\<lparr>ps_done := True\<rparr>, context')
                else if rc \<noteq> TLV_OK then (rc, source, context')
                else if depth > ps_open source then (TLV_ERR_CALLBACK, source, context')
                else (TLV_OK, source\<lparr>ps_pending := (ps_pending source)\<lparr>ev_kind :=
                          (if constructed then TLV_TREE_BEGIN else TLV_TREE_ELEMENT)\<rparr>,
                        ps_available := True\<rparr>, context'))
      else (TLV_OK, source, context))"

definition preorder_event ::
  "'c tlv_tree_writer_next_fn \<Rightarrow> (preorder_source_t \<times> 'c) tlv_tree_event_next_fn" where
  "preorder_event nxt st event =
     (case preorder_pull nxt (fst st) (snd st) of
        (rc, source, context) \<Rightarrow>
          if rc \<noteq> TLV_OK then (rc, event, source, context)
          else if ps_open source \<noteq> 0 \<and> (ps_done source \<or> ps_open source > ev_depth (ps_pending source))
          then (TLV_OK, event0\<lparr>ev_kind := TLV_TREE_END, ev_depth := ps_open source - 1\<rparr>,
                source\<lparr>ps_open := ps_open source - 1\<rparr>, context)
          else if ps_done source then (TLV_END, event, source, context)
          else (TLV_OK, ps_pending source,
                source\<lparr>ps_available := False,
                       ps_open := (if ev_kind (ps_pending source) = TLV_TREE_BEGIN then ps_open source + 1
                                   else ps_open source)\<rparr>, context))"

text \<open>The budget observer is charged once per event and three times per value byte.\<close>

fun charge_passes :: "nat \<Rightarrow> 'k tree_writer_charge_fn \<Rightarrow> 'k \<Rightarrow> nat \<Rightarrow> tlv_result_t \<times> 'k" where
  "charge_passes 0 charge k amount = (TLV_OK, k)"
| "charge_passes (Suc n) charge k amount =
     (case charge k amount of (rc, k) \<Rightarrow> if rc \<noteq> TLV_OK then (rc, k) else charge_passes n charge k amount)"

definition charge_event ::
  "'k tree_writer_charge_fn option \<Rightarrow> 'k \<Rightarrow> tlv_tree_writer_t \<Rightarrow> tlv_tree_event_t \<Rightarrow> tlv_result_t \<times> 'k" where
  "charge_event charge k writer event =
     (case charge of None \<Rightarrow> (TLV_OK, k)
      | Some c \<Rightarrow>
          (case c k 1 of (rc, k) \<Rightarrow>
             if rc \<noteq> TLV_OK then (rc, k)
             else if ev_kind event = TLV_TREE_ELEMENT \<and> val_size (elem_value (ev_element event)) > SIZE_MAX
             then (TLV_ERR_NATIVE_SIZE, k)
             else charge_passes 3 c k
                    (if ev_kind event = TLV_TREE_END
                     then size_sub (wr_pos (tw_output writer)) (wf_start (tw_frames writer ! (tw_depth writer - 1)))
                     else if ev_kind event = TLV_TREE_ELEMENT then val_size (elem_value (ev_element event)) else 0)))"

text \<open>One event of the loop, after the structural check and the charge.\<close>

definition measure_event ::
  "nat \<Rightarrow> nat \<Rightarrow> tlv_tree_writer_t \<Rightarrow> tlv_tree_writer_workspace_t \<Rightarrow> tlv_tree_event_t \<Rightarrow> bool
     \<Rightarrow> tlv_result_t \<times> tlv_tree_writer_t \<times> tlv_tree_writer_workspace_t \<times> tlv_writer_diagnostic_t option" where
  "measure_event max_depth max_elements writer ws event diag =
     (let pos = wr_pos (tw_output writer); tag = elem_tag (ev_element event);
          consume = (\<lambda>ws. case tlv_tree_writer_write_event_diag (Some writer) (Some event) diag of
                            (rc, w, d) \<Rightarrow> (rc, the w, ws, d)) in
      if ev_kind event = TLV_TREE_END then measure_close writer ws diag
      else if ev_kind event = TLV_TREE_ELEMENT
      then (if tw_depth writer > max_depth \<or> tw_count writer \<ge> max_elements
            then (TLV_ERR_LIMIT, writer, ws,
                  wdiag_if diag (tree_error TLV_ERR_LIMIT TLV_WRITER_OP_VALUE pos (Some tag)))
            else if tag_size tag \<noteq> 0 \<and> tag_data tag = Null
            then (TLV_ERR_NULL_ARG, writer, ws,
                  wdiag_if diag (tree_error TLV_ERR_NULL_ARG TLV_WRITER_OP_VALUE pos None))
            else if constructed_tag (tw_output writer) tag
            then (TLV_ERR_INVALID_TAG, writer, ws,
                  wdiag_if diag (tree_error TLV_ERR_INVALID_TAG TLV_WRITER_OP_VALUE pos (Some tag)))
            else case measure_storage writer (ev_element event) pos False ws diag of
              (rc, ws, d) \<Rightarrow> if rc \<noteq> TLV_OK then (rc, writer, ws, d) else consume ws)
      else consume ws)"

definition events_left :: "tlv_tree_writer_t \<Rightarrow> nat" where
  "events_left w = 2 * (tw_max_elements w - tw_count w) + tw_depth w"

lemma write_element_left:
  "tlv_tree_writer_write_element_diag (Some w) el diag = (TLV_OK, w', d) \<Longrightarrow> events_left (the w') < events_left w"
  by (auto simp: tlv_tree_writer_write_element_diag_def events_left_def Let_def split: option.splits if_splits prod.splits)

lemma end_left:
  "tlv_tree_writer_end_diag (Some w) diag = (TLV_OK, w', d) \<Longrightarrow> events_left (the w') < events_left w"
  by (auto simp: tlv_tree_writer_end_diag_def events_left_def Let_def split: if_splits prod.splits)

lemma begin_left:
  "tlv_tree_writer_begin_diag (Some w) tag diag = (TLV_OK, w', d) \<Longrightarrow> events_left (the w') < events_left w"
  by (auto simp: tlv_tree_writer_begin_diag_def events_left_def Let_def split: if_splits)

lemma write_event_left:
  "tlv_tree_writer_write_event_diag (Some w) (Some e) diag = (TLV_OK, w', d) \<Longrightarrow> events_left (the w') < events_left w"
  by (auto simp: tlv_tree_writer_write_event_diag_def Let_def split: if_splits
      intro: begin_left end_left write_element_left)

lemma measure_close_left:
  "measure_close w ws diag = (TLV_OK, w', ws', d) \<Longrightarrow> events_left w' < events_left w"
  by (auto simp: measure_close_def Let_def split: prod.splits if_splits dest: end_left)

lemma measure_event_left:
  "measure_event md me w ws e diag = (TLV_OK, w', ws', d) \<Longrightarrow> events_left w' < events_left w"
  by (auto simp: measure_event_def Let_def split: if_splits prod.splits
      dest: measure_close_left write_event_left)

text \<open>
  The loop over the source.  It ends for every source: an event that is accepted opens or writes an
  element, which the limit bounds, or closes one.
\<close>

function measure_loop ::
  "'c tlv_tree_event_next_fn \<Rightarrow> 'k tree_writer_charge_fn option \<Rightarrow> nat \<Rightarrow> nat \<Rightarrow> bool \<Rightarrow> tlv_tree_writer_t
     \<Rightarrow> tlv_tree_writer_workspace_t \<Rightarrow> 'c \<Rightarrow> 'k
     \<Rightarrow> tlv_result_t \<times> tlv_tree_writer_t \<times> tlv_tree_writer_workspace_t \<times> 'c \<times> 'k \<times> tlv_writer_diagnostic_t option" where
  "measure_loop nxt charge max_depth max_elements diag writer ws context k =
     (case nxt context event0 of
        (rc, event, context) \<Rightarrow>
          let rc = tlv_callback_result rc True; pos = wr_pos (tw_output writer) in
          if rc = TLV_END then (TLV_OK, writer, ws, context, k, None)
          else if rc \<noteq> TLV_OK
          then (rc, writer, ws, context, k, wdiag_if diag (tree_error rc TLV_WRITER_OP_VALUE pos None))
          else if event_misplaced (tw_depth writer) event
          then (TLV_ERR_INVALID_VALUE, writer, ws, context, k,
                wdiag_if diag (tree_error TLV_ERR_INVALID_VALUE TLV_WRITER_OP_VALUE pos None))
          else case charge_event charge k writer event of
            (rc, k) \<Rightarrow>
              if rc \<noteq> TLV_OK then (rc, writer, ws, context, k, None)
              else case measure_event max_depth max_elements writer ws event diag of
                (rc, writer, ws, d) \<Rightarrow>
                  if rc \<noteq> TLV_OK then (rc, writer, ws, context, k, d)
                  else measure_loop nxt charge max_depth max_elements diag writer ws context k)"
  by pat_completeness auto
termination
  by (relation "measure (\<lambda>(nxt, charge, md, me, diag, w, ws, c, k). events_left w)")
    (auto dest!: measure_event_left [OF sym])

declare measure_loop.simps [simp del]

text \<open>The workspace memory after the run is that of the writer.\<close>

definition workspace_sync :: "tlv_tree_writer_t \<Rightarrow> tlv_tree_writer_workspace_t \<Rightarrow> tlv_tree_writer_workspace_t" where
  "workspace_sync w ws = ws\<lparr>ws_frames := map_option (\<lambda>_. tw_frames w) (ws_frames ws),
     ws_data := wr_buf (tw_output w), ws_scratch := tw_scratch w\<rparr>"

definition tree_writer_measure_events_observed ::
  "tlv_format_t option \<Rightarrow> 'c tlv_tree_event_next_fn option \<Rightarrow> 'c \<Rightarrow> tlv_tree_writer_workspace_t option \<Rightarrow> nat \<Rightarrow> nat
     \<Rightarrow> bool \<Rightarrow> bool \<Rightarrow> 'k tree_writer_charge_fn option \<Rightarrow> 'k
     \<Rightarrow> tlv_result_t \<times> tlv_tree_writer_workspace_t option \<times> nat option \<times> 'c \<times> 'k \<times> tlv_writer_diagnostic_t option" where
  "tree_writer_measure_events_observed format nxt context workspace max_depth max_elements size_ok diag charge k =
     (let workspace = map_option (\<lambda>ws. ws\<lparr>ws_required_data := 0, ws_required_scratch := 0\<rparr>) workspace in
      if nxt = None \<or> workspace = None \<or> \<not> size_ok
      then (TLV_ERR_NULL_ARG, workspace, None, context, k,
            wdiag_if diag (tree_error TLV_ERR_NULL_ARG TLV_WRITER_OP_VALUE 0 None))
      else let ws = the workspace in
        case tlv_tree_writer_init True (ws_data ws) (ws_data_capacity ws) format (ws_frames ws) (ws_frame_capacity ws)
               (ws_scratch ws) (ws_scratch_capacity ws) max_depth max_elements of
          (rc, w) \<Rightarrow>
            if rc \<noteq> TLV_OK then (rc, workspace, None, context, k, None)
            else case measure_loop (the nxt) charge max_depth max_elements diag (the w) ws context k of
              (rc, writer, ws, context, k, d) \<Rightarrow>
                let ws' = Some (workspace_sync writer ws) in
                if rc \<noteq> TLV_OK then (rc, ws', None, context, k, d)
                else if tw_depth writer \<noteq> 0
                then (TLV_ERR_INVALID_VALUE, ws', None, context, k,
                      wdiag_if diag (tree_error TLV_ERR_INVALID_VALUE TLV_WRITER_OP_END (wr_pos (tw_output writer)) None))
                else (TLV_OK, ws', Some (tlv_tree_writer_size (Some writer)), context, k, None))"

definition tlv_tree_writer_measure_events ::
  "tlv_format_t option \<Rightarrow> 'c tlv_tree_event_next_fn option \<Rightarrow> 'c \<Rightarrow> tlv_tree_writer_workspace_t option \<Rightarrow> nat \<Rightarrow> nat
     \<Rightarrow> bool \<Rightarrow> bool
     \<Rightarrow> tlv_result_t \<times> tlv_tree_writer_workspace_t option \<times> nat option \<times> 'c \<times> tlv_writer_diagnostic_t option" where
  "tlv_tree_writer_measure_events format nxt context workspace max_depth max_elements size_ok diag =
     (case tree_writer_measure_events_observed format nxt context workspace max_depth max_elements size_ok diag
             (None :: unit tree_writer_charge_fn option) () of
        (rc, ws, sz, c, k, d) \<Rightarrow> (rc, ws, sz, c, d))"

definition tlv_tree_writer_measure ::
  "tlv_format_t option \<Rightarrow> 'c tlv_tree_writer_next_fn option \<Rightarrow> 'c \<Rightarrow> tlv_tree_writer_workspace_t option \<Rightarrow> nat \<Rightarrow> nat
     \<Rightarrow> bool \<Rightarrow> bool
     \<Rightarrow> tlv_result_t \<times> tlv_tree_writer_workspace_t option \<times> nat option \<times> 'c \<times> tlv_writer_diagnostic_t option" where
  "tlv_tree_writer_measure format nxt context workspace max_depth max_elements size_ok diag =
     (case tlv_tree_writer_measure_events format (map_option preorder_event nxt)
             (\<lparr>ps_pending = event0, ps_open = 0, ps_available = False, ps_done = False\<rparr>, context)
             workspace max_depth max_elements size_ok diag of
        (rc, ws, sz, c, d) \<Rightarrow> (rc, ws, sz, snd c, d))"

section \<open>Invariant and failure atomicity\<close>

primrec starts_ok :: "tlv_tree_writer_frame_t list \<Rightarrow> nat \<Rightarrow> nat \<Rightarrow> bool" where
  "starts_ok frames 0 pos = True"
| "starts_ok frames (Suc d) pos = (wf_start (frames ! d) \<le> pos \<and> starts_ok frames d (wf_start (frames ! d)))"

definition tree_writer_wf :: "tlv_tree_writer_t \<Rightarrow> bool" where
  "tree_writer_wf w \<longleftrightarrow> writer_wf (tw_output w) \<and> wr_capacity (tw_output w) \<le> SIZE_MAX \<and>
     tw_depth w \<le> tw_capacity w \<and> tw_capacity w \<le> length (tw_frames w) \<and>
     tw_count w \<le> tw_max_elements w \<and> starts_ok (tw_frames w) (tw_depth w) (wr_pos (tw_output w)) \<and>
     tw_scratch_capacity w \<le> length (out (tw_scratch w) [])"

text \<open>
  What a failed operation leaves alone: everything but the scratch area and the bytes after the
  position.
\<close>

definition tree_writer_unchanged :: "tlv_tree_writer_t \<Rightarrow> tlv_tree_writer_t \<Rightarrow> bool" where
  "tree_writer_unchanged w w' \<longleftrightarrow>
     w' = w\<lparr>tw_output := (tw_output w)\<lparr>wr_buf := wr_buf (tw_output w')\<rparr>, tw_scratch := tw_scratch w'\<rparr> \<and>
     take (wr_pos (tw_output w)) (out (wr_buf (tw_output w')) []) =
     take (wr_pos (tw_output w)) (out (wr_buf (tw_output w)) [])"

lemma tree_writer_unchanged_refl [simp]: "tree_writer_unchanged w w"
  by (simp add: tree_writer_unchanged_def)

lemma starts_ok_mono: "starts_ok frames d p \<Longrightarrow> p \<le> q \<Longrightarrow> starts_ok frames d q"
  by (cases d) auto

lemma starts_ok_update: "d \<le> i \<Longrightarrow> starts_ok (frames[i := x]) d pos = starts_ok frames d pos"
  by (induction d arbitrary: pos) auto

lemma write_element_unchanged:
  assumes wf: "tree_writer_wf w" and s: "tlv_tree_writer_write_element_diag (Some w) el diag = (rc, w', d)"
    and rc: "rc \<noteq> TLV_OK"
  obtains w1 where "w' = Some w1" "tree_writer_unchanged w w1"
proof (cases "fst (tlv_tree_writer_write_element_diag (Some w) el diag) = TLV_ERR_LIMIT \<and> w' = Some w \<or> el = None")
  case True
  then show thesis
    using s by (intro that [of w]) (auto simp: tlv_tree_writer_write_element_diag_def Let_def)
next
  case False
  with s rc obtain o' where o': "tlv_writer_write_element_diag (Some (tw_output w)) el diag = (rc, o', d)"
    and w': "w' = Some (w\<lparr>tw_output := the o', tw_count := tw_count w\<rparr>)"
    by (auto simp: tlv_tree_writer_write_element_diag_def Let_def split: option.splits if_splits prod.splits)
  have "writer_wf (tw_output w)" using wf by (simp add: tree_writer_wf_def)
  from writer_write_frame [OF this o'] obtain w1 where
    w1: "o' = Some w1" "writer_kept (tw_output w) w1" "wr_pos w1 = wr_pos (tw_output w)" using rc by metis
  have "w1 = (tw_output w)\<lparr>wr_buf := wr_buf w1\<rparr>" using w1(2,3) by (simp add: writer_kept_def)
  then have "tree_writer_unchanged w (w\<lparr>tw_output := w1\<rparr>)"
    using w1(2) by (simp add: tree_writer_unchanged_def writer_kept_def)
  with w' w1(1) show thesis by (intro that) auto
qed

lemma end_unchanged:
  assumes wf: "tree_writer_wf w" and s: "tlv_tree_writer_end_diag (Some w) diag = (rc, w', d)" and rc: "rc \<noteq> TLV_OK"
  obtains w1 where "w' = Some w1" "tree_writer_unchanged w w1"
proof (cases "w' = Some w")
  case True
  then show thesis by (rule that) simp
next
  case False
  define start where "start = wf_start (tw_frames w ! (tw_depth w - 1))"
  let ?o = "tw_output w"
  let ?pos = "wr_pos ?o"
  define len where "len = size_sub ?pos start"
  define sc where "sc = (if len \<noteq> 0 then obuf_blit 0 (take len (drop start (out (wr_buf ?o) []))) (tw_scratch w) else tw_scratch w)"
  from s False have dp: "tw_depth w \<noteq> 0" and fit: "len \<le> tw_scratch_capacity w"
    by (auto simp: tlv_tree_writer_end_diag_def Let_def start_def len_def split: if_splits)
  have owf: "writer_wf ?o" and sl: "start \<le> ?pos" and cap: "?pos \<le> SIZE_MAX"
    and pb: "?pos \<le> length (out (wr_buf ?o) [])"
  proof -
    show "writer_wf ?o" using wf by (simp add: tree_writer_wf_def)
    then show "?pos \<le> SIZE_MAX" using wf by (simp add: tree_writer_wf_def writer_wf_def)
    show "start \<le> ?pos" using wf dp by (cases "tw_depth w") (auto simp: tree_writer_wf_def start_def)
    show "?pos \<le> length (out (wr_buf ?o) [])" using writer_wf_room [OF \<open>writer_wf ?o\<close>, of 0] by simp
  qed
  have len: "len = ?pos - start" unfolding len_def by (rule size_sub_eq [OF sl cap])
  let ?w0 = "?o\<lparr>wr_pos := start\<rparr>"
  from s dp fit rc False obtain pa o' where
    o': "tlv_writer_write_element_diag (Some ?w0) (Some pa) diag = (rc, o', d)"
    and w': "w' = Some (w\<lparr>tw_scratch := sc, tw_output := ?o\<lparr>wr_buf :=
        (if len \<noteq> 0 then obuf_blit start (take len (out sc [])) (wr_buf (the o')) else wr_buf (the o'))\<rparr>\<rparr>)"
    by (auto simp: tlv_tree_writer_end_diag_def Let_def sc_def len_def start_def split: if_splits prod.splits)
  have w0: "writer_wf ?w0" using owf sl by (auto simp: writer_wf_def split: option.splits)
  from writer_write_frame [OF w0 o'] obtain w1 where w1: "o' = Some w1" "writer_kept ?w0 w1" by metis
  let ?b = "out (wr_buf ?o) []" and ?b1 = "out (wr_buf w1) []"
  have t: "take start ?b1 = take start ?b" using w1(2) by (simp add: writer_kept_def)
  have lb1: "start \<le> length ?b1" using arg_cong [OF t, of length] sl pb by simp
  have "take ?pos (out (if len \<noteq> 0 then obuf_blit start (take len (out sc [])) (wr_buf w1) else wr_buf w1) []) = take ?pos ?b"
  proof (cases "len = 0")
    case True
    then show ?thesis using t len sl by simp
  next
    case False
    let ?a = "take len (drop start ?b)"
    have la: "length ?a = len" using pb len by simp
    obtain scr where scr: "tw_scratch w = Some scr" "len \<le> length scr"
      using wf fit False by (cases "tw_scratch w") (auto simp: tree_writer_wf_def)
    have ts: "take len (out sc []) = ?a" using False scr la by (simp add: sc_def blit_0)
    obtain b1 where b1: "wr_buf w1 = Some b1"
      using w1(2) pb False len by (cases "wr_buf ?o"; cases "wr_buf w1") (auto simp: writer_kept_def)
    have "take ?pos (blit start ?a b1) = take start b1 @ ?a"
      using lb1 b1 la len sl by (simp add: blit_def)
    also have "\<dots> = take (start + len) ?b" using t b1 by (simp add: take_add)
    finally show ?thesis using False ts b1 len sl by simp
  qed
  then have "tree_writer_unchanged w (w\<lparr>tw_scratch := sc, tw_output := ?o\<lparr>wr_buf :=
        (if len \<noteq> 0 then obuf_blit start (take len (out sc [])) (wr_buf w1) else wr_buf w1)\<rparr>\<rparr>)"
    unfolding tree_writer_unchanged_def by simp
  with w' w1(1) show thesis by (intro that) auto
qed

lemma begin_unchanged:
  "tlv_tree_writer_begin_diag (Some w) tag diag = (rc, w', d) \<Longrightarrow> rc \<noteq> TLV_OK \<Longrightarrow> w' = Some w"
  by (auto simp: tlv_tree_writer_begin_diag_def Let_def split: if_splits)

text \<open>A failed event changes nothing that was written, provisional bytes included.\<close>

lemma write_event_unchanged:
  assumes wf: "tree_writer_wf w" and s: "tlv_tree_writer_write_event_diag (Some w) (Some e) diag = (rc, w', d)"
    and rc: "rc \<noteq> TLV_OK"
  obtains w1 where "w' = Some w1" "tree_writer_unchanged w w1"
proof (cases "w' = Some w")
  case True
  then show thesis by (rule that) simp
next
  case False
  with s consider "tlv_tree_writer_begin_diag (Some w) (elem_tag (ev_element e)) diag = (rc, w', d)"
    | "tlv_tree_writer_end_diag (Some w) diag = (rc, w', d)"
    | "tlv_tree_writer_write_element_diag (Some w) (Some (ev_element e)) diag = (rc, w', d)"
    by (auto simp: tlv_tree_writer_write_event_diag_def Let_def split: if_splits)
  then show thesis
  proof cases
    case 1
    with begin_unchanged rc False show thesis by blast
  next
    case 2
    from end_unchanged [OF wf this rc] that show thesis by blast
  next
    case 3
    from write_element_unchanged [OF wf this rc] that show thesis by blast
  qed
qed

section \<open>The encoding of a forest\<close>

datatype tlv_node = Leaf tlv_element_t | Node tlv_tag_t "tlv_node list"

definition node_event :: "tlv_tree_event_kind_t \<Rightarrow> tlv_element_t \<Rightarrow> nat \<Rightarrow> tlv_tree_event_t" where
  "node_event kind el d = event0\<lparr>ev_kind := kind, ev_element := el, ev_depth := d\<rparr>"

definition node_element :: "tlv_tag_t \<Rightarrow> u8 list \<Rightarrow> tlv_element_t" where
  "node_element tag bs = \<lparr>elem_tag = tag, elem_value = \<lparr>val_data = Ptr 0 bs, val_size = length bs\<rparr>\<rparr>"

fun node_events :: "nat \<Rightarrow> tlv_node \<Rightarrow> tlv_tree_event_t list" where
  "node_events d (Leaf el) = [node_event TLV_TREE_ELEMENT el d]"
| "node_events d (Node tag ns) =
     node_event TLV_TREE_BEGIN (element0\<lparr>elem_tag := tag\<rparr>) d # concat (map (node_events (d + 1)) ns) @
     [node_event TLV_TREE_END element0 d]"

text \<open>The nested encoding, from the encoding of one element.\<close>

fun node_wire :: "(tlv_element_t \<Rightarrow> u8 list) \<Rightarrow> tlv_node \<Rightarrow> u8 list" where
  "node_wire wire (Leaf el) = wire el"
| "node_wire wire (Node tag ns) = wire (node_element tag (concat (map (node_wire wire) ns)))"

fun node_count :: "tlv_node \<Rightarrow> nat" where
  "node_count (Leaf el) = 1"
| "node_count (Node tag ns) = Suc (sum_list (map node_count ns))"

fun node_height :: "tlv_node \<Rightarrow> nat" where
  "node_height (Leaf el) = 0"
| "node_height (Node tag ns) = Suc (foldr max (map node_height ns) 0)"

text \<open>Every element of the node is one the format accepts, with the right kind of tag.\<close>

fun node_ok :: "tlv_measure_fn \<Rightarrow> (tlv_element_t \<Rightarrow> u8 list) \<Rightarrow> (tlv_tag_t \<Rightarrow> bool) \<Rightarrow> tlv_node \<Rightarrow> bool" where
  "node_ok m wire constructed (Leaf el) \<longleftrightarrow> writable m el \<and> \<not> constructed (elem_tag el)"
| "node_ok m wire constructed (Node tag ns) \<longleftrightarrow>
     writable m (node_element tag (concat (map (node_wire wire) ns))) \<and> constructed tag \<and>
     (\<forall>n\<in>set ns. node_ok m wire constructed n)"

fun write_events :: "tlv_tree_writer_t \<Rightarrow> tlv_tree_event_t list \<Rightarrow> tlv_result_t \<times> tlv_tree_writer_t" where
  "write_events w [] = (TLV_OK, w)"
| "write_events w (e # es) =
     (case tlv_tree_writer_write_event (Some w) (Some e) of
        (rc, w') \<Rightarrow> if rc = TLV_OK then write_events (the w') es else (rc, the w'))"

lemma write_events_append:
  "write_events w es = (TLV_OK, w') \<Longrightarrow> write_events w (es @ es') = write_events w' es'"
  by (induction es arbitrary: w) (auto split: prod.splits if_splits)

text \<open>The elements that a format nests: none if it has no predicate for that.\<close>

definition format_constructed :: "tlv_format_t \<Rightarrow> tlv_tag_t \<Rightarrow> bool" where
  "format_constructed f tag = (case fmt_is_constructed f of None \<Rightarrow> False | Some p \<Rightarrow> p tag)"

text \<open>
  \<open>tree_room w f n k h\<close>: \<open>n\<close> more bytes, \<open>k\<close> more elements and \<open>h\<close> more levels fit.
\<close>

definition tree_room :: "tlv_tree_writer_t \<Rightarrow> tlv_format_t \<Rightarrow> nat \<Rightarrow> nat \<Rightarrow> nat \<Rightarrow> bool" where
  "tree_room w f n k h \<longleftrightarrow> writer_wf (tw_output w) \<and> wr_format (tw_output w) = Some f \<and>
     wr_capacity (tw_output w) \<le> SIZE_MAX \<and> n \<le> wr_capacity (tw_output w) - wr_pos (tw_output w) \<and>
     n \<le> tw_scratch_capacity w \<and> tw_scratch_capacity w \<le> length (out (tw_scratch w) []) \<and>
     tw_tags w = None \<and> tw_count w + k \<le> tw_max_elements w \<and> tw_depth w + h \<le> tw_max_depth w \<and>
     tw_depth w + h \<le> tw_capacity w \<and> tw_capacity w \<le> length (tw_frames w)"

text \<open>\<open>tree_wrote w bs k w'\<close>: \<open>w'\<close> is \<open>w\<close> after \<open>bs\<close> was appended as \<open>k\<close> elements.\<close>

definition tree_wrote :: "tlv_tree_writer_t \<Rightarrow> u8 list \<Rightarrow> nat \<Rightarrow> tlv_tree_writer_t \<Rightarrow> bool" where
  "tree_wrote w bs k w' \<longleftrightarrow>
     w' = w\<lparr>tw_output := appended (tw_output w) bs, tw_count := tw_count w + k,
            tw_frames := tw_frames w', tw_scratch := tw_scratch w'\<rparr> \<and>
     length (tw_frames w') = length (tw_frames w) \<and>
     take (tw_depth w) (tw_frames w') = take (tw_depth w) (tw_frames w) \<and>
     length (out (tw_scratch w') []) = length (out (tw_scratch w) [])"

lemma tree_wrote_simps:
  assumes "tree_wrote w bs k w'"
  shows "tw_output w' = appended (tw_output w) bs" "tw_count w' = tw_count w + k" "tw_depth w' = tw_depth w"
    "tw_capacity w' = tw_capacity w" "tw_max_depth w' = tw_max_depth w" "tw_max_elements w' = tw_max_elements w"
    "tw_scratch_capacity w' = tw_scratch_capacity w" "tw_tags w' = tw_tags w"
    "tw_tags_capacity w' = tw_tags_capacity w" "tw_tags_used w' = tw_tags_used w"
proof -
  have w': "w' = w\<lparr>tw_output := appended (tw_output w) bs, tw_count := tw_count w + k,
            tw_frames := tw_frames w', tw_scratch := tw_scratch w'\<rparr>" using assms by (simp add: tree_wrote_def)
  show "tw_output w' = appended (tw_output w) bs" "tw_count w' = tw_count w + k" "tw_depth w' = tw_depth w"
    "tw_capacity w' = tw_capacity w" "tw_max_depth w' = tw_max_depth w" "tw_max_elements w' = tw_max_elements w"
    "tw_scratch_capacity w' = tw_scratch_capacity w" "tw_tags w' = tw_tags w"
    "tw_tags_capacity w' = tw_tags_capacity w" "tw_tags_used w' = tw_tags_used w"
    by (subst w', simp)+
qed

lemma appended_append:
  assumes "writer_wf w" "length a + length b \<le> wr_capacity w - wr_pos w"
  shows "appended (appended w a) b = appended w (a @ b)"
  using writer_wf_room [OF assms]
  by (cases "wr_buf w") (simp_all add: appended_def blit_append add.assoc)

lemma tree_room_after:
  assumes "tree_room w f (length a + n) (j + k) h" "tree_wrote w a j w'"
  shows "tree_room w' f n k h"
proof -
  note S = tree_wrote_simps [OF assms(2)]
  have "length a \<le> wr_capacity (tw_output w) - wr_pos (tw_output w)" using assms(1) by (simp add: tree_room_def)
  then have "writer_wf (appended (tw_output w) a)" using assms(1) by (intro appended_wf) (auto simp: tree_room_def)
  then show ?thesis
    using assms unfolding tree_room_def S by (auto simp: tree_wrote_def appended_def)
qed

lemma tree_wrote_trans:
  assumes "tree_room w f (length a + length b) (j + k) h" "tree_wrote w a j w1" "tree_wrote w1 b k w2"
  shows "tree_wrote w (a @ b) (j + k) w2"
proof -
  have app: "appended (appended (tw_output w) a) b = appended (tw_output w) (a @ b)"
    using assms(1) by (intro appended_append) (auto simp: tree_room_def)
  have 1: "w1 = w\<lparr>tw_output := appended (tw_output w) a, tw_count := tw_count w + j,
      tw_frames := tw_frames w1, tw_scratch := tw_scratch w1\<rparr>" using assms(2) by (simp add: tree_wrote_def)
  have "w2 = w1\<lparr>tw_output := appended (tw_output w1) b, tw_count := tw_count w1 + k,
      tw_frames := tw_frames w2, tw_scratch := tw_scratch w2\<rparr>" using assms(3) by (simp add: tree_wrote_def)
  also have "\<dots> = w\<lparr>tw_output := appended (tw_output w) (a @ b), tw_count := tw_count w + (j + k),
      tw_frames := tw_frames w2, tw_scratch := tw_scratch w2\<rparr>"
    unfolding tree_wrote_simps [OF assms(2)] app by (subst 1) (simp add: add.assoc)
  finally show ?thesis
    using assms(2,3) tree_wrote_simps(3) [OF assms(2)] by (simp add: tree_wrote_def)
qed

lemma tree_room_less:
  "tree_room w f n k h \<Longrightarrow> n' \<le> n \<Longrightarrow> k' \<le> k \<Longrightarrow> h' \<le> h \<Longrightarrow> tree_room w f n' k' h'"
  by (auto simp: tree_room_def)

text \<open>The memory around a close: the frame, the bytes since the start, and writing over them.\<close>

lemma frames_kept:
  assumes "take (Suc d) xs = take (Suc d) (ys[d := x])" "d < length ys"
  shows "take d xs = take d ys" "xs ! d = x"
proof -
  have "take d (take (Suc d) xs) = take d (take (Suc d) (ys[d := x]))" using assms(1) by simp
  then show "take d xs = take d ys" by (simp add: min_def)
  have "take (Suc d) xs ! d = take (Suc d) (ys[d := x]) ! d" using assms(1) by simp
  then show "xs ! d = x" using assms(2) by simp
qed

lemma appended_active:
  assumes "writer_wf w" "length bs \<le> wr_capacity w - wr_pos w"
  shows "take (length bs) (drop (wr_pos w) (out (wr_buf (appended w bs)) [])) = bs"
  using assms writer_wf_room [OF assms]
  by (cases "wr_buf w") (auto simp: writer_wf_def appended_def take_drop_blit)

lemma appended_rewind:
  assumes "writer_wf w" "length bs \<le> wr_capacity w - wr_pos w"
  shows "writer_wf ((appended w bs)\<lparr>wr_pos := wr_pos w\<rparr>)"
    and "length bs \<le> length bs' \<Longrightarrow> length bs' \<le> wr_capacity w - wr_pos w \<Longrightarrow>
      appended ((appended w bs)\<lparr>wr_pos := wr_pos w\<rparr>) bs' = appended w bs'"
proof -
  show "writer_wf ((appended w bs)\<lparr>wr_pos := wr_pos w\<rparr>)"
    using assms writer_wf_room [OF assms] by (cases "wr_buf w") (auto simp: writer_wf_def appended_def)
  assume le: "length bs \<le> length bs'" "length bs' \<le> wr_capacity w - wr_pos w"
  show "appended ((appended w bs)\<lparr>wr_pos := wr_pos w\<rparr>) bs' = appended w bs'"
    using writer_wf_room [OF assms(1) le(2)] le(1)
    by (cases "wr_buf w") (auto simp: appended_def blit_def add.commute)
qed

definition scratch_with :: "u8 list \<Rightarrow> obuf \<Rightarrow> obuf" where
  "scratch_with bs scratch = (if length bs \<noteq> 0 then obuf_blit 0 bs scratch else scratch)"

lemma scratch_with_simps:
  assumes "length bs \<le> length (out scratch [])"
  shows "take (length bs) (bytes (buf_ptr (scratch_with bs scratch) 0)) = bs"
    "length bs \<le> length (bytes (buf_ptr (scratch_with bs scratch) 0))"
    "length (out (scratch_with bs scratch) []) = length (out scratch [])"
  using assms by (cases scratch; auto simp: scratch_with_def buf_ptr_def blit_0)+

text \<open>
  A codec whose measurement and encoding depend on the value through its bytes only.
\<close>

locale value_codec = format_codec +
  assumes measure_value: "elem_tag a = elem_tag b \<Longrightarrow> val_size (elem_value a) = val_size (elem_value b) \<Longrightarrow>
     measure_fn a encoding0 error0 = measure_fn b encoding0 error0"
  and wire_value: "elem_tag a = elem_tag b \<Longrightarrow> val_size (elem_value a) = val_size (elem_value b) \<Longrightarrow>
     value_bytes (elem_value a) = value_bytes (elem_value b) \<Longrightarrow> wire a = wire b"
begin

lemma wire_value_le: "writable measure_fn el \<Longrightarrow> val_size (elem_value el) \<le> length (wire el)"
proof -
  assume w: "writable measure_fn el"
  then obtain en e where "measure_fn el encoding0 error0 = (TLV_OK, en, e)"
    by (cases "measure_fn el encoding0 error0") (auto simp: writable_def)
  with measure_exact [of el en e] w show ?thesis by (simp add: writable_def)
qed

lemma writable_value:
  assumes "writable measure_fn a" "elem_tag a = elem_tag b" "val_size (elem_value a) = val_size (elem_value b)"
    "value_wf (elem_value b)"
  shows "writable measure_fn b"
  using assms measure_value [of a b] by (simp add: writable_def element_wf_def)

lemma write_leaf:
  assumes f: "fmt_measure f = Some measure_fn" "fmt_encode f = Some encode_fn" "format_constructed f = p"
    and room: "tree_room w f (length (wire el)) 1 0" and el: "writable measure_fn el" "\<not> p (elem_tag el)"
  obtains w' where "tlv_tree_writer_write_event (Some w) (Some (node_event TLV_TREE_ELEMENT el (tw_depth w))) = (TLV_OK, Some w')"
    "tree_wrote w (wire el) 1 w'"
proof -
  have o: "tlv_writer_write_element_diag (Some (tw_output w)) (Some el) False = (TLV_OK, Some (appended (tw_output w) (wire el)), None)"
    using room by (intro writer_write_wire [OF _ _ f(1,2) el(1)]) (auto simp: tree_room_def)
  have tag: "\<not> (tag_size (elem_tag el) \<noteq> 0 \<and> tag_data (elem_tag el) = Null)"
    using el(1) by (auto simp: writable_def element_wf_def tag_wf_def)
  let ?w = "w\<lparr>tw_output := appended (tw_output w) (wire el), tw_count := tw_count w + 1\<rparr>"
  have c: "constructed_tag (tw_output w) (elem_tag el) = p (elem_tag el)"
    using room f(3) by (auto simp: constructed_tag_def tree_room_def format_constructed_def)
  have "tlv_tree_writer_write_event (Some w) (Some (node_event TLV_TREE_ELEMENT el (tw_depth w))) = (TLV_OK, Some ?w)"
    using room o tag el(2)
    by (auto simp: tlv_tree_writer_write_event_def tlv_tree_writer_write_event_diag_def event_misplaced_def
        node_event_def event0_def c tlv_tree_writer_write_element_diag_def tree_room_def Let_def)
  then show thesis by (rule that) (simp add: tree_wrote_def)
qed

lemma write_begin:
  assumes f: "format_constructed f = p" and room: "tree_room w f n (Suc k) (Suc h)"
    and tag: "tag_wf tag" "p tag"
  shows "tlv_tree_writer_write_event (Some w)
      (Some (node_event TLV_TREE_BEGIN (element0\<lparr>elem_tag := tag\<rparr>) (tw_depth w))) =
    (TLV_OK, Some (w\<lparr>tw_frames := (tw_frames w)[tw_depth w := \<lparr>wf_tag = tag, wf_start = wr_pos (tw_output w)\<rparr>],
       tw_depth := tw_depth w + 1, tw_count := tw_count w + 1\<rparr>))"
proof -
  have "\<not> (tag_size tag \<noteq> 0 \<and> tag_data tag = Null)" using tag(1) by (auto simp: tag_wf_def)
  moreover have "constructed_tag (tw_output w) tag" using room f tag(2) by (auto simp: constructed_tag_def tree_room_def format_constructed_def)
  ultimately show ?thesis
    using room
    by (auto simp: tlv_tree_writer_write_event_def tlv_tree_writer_write_event_diag_def event_misplaced_def
        node_event_def event0_def element0_def tlv_tree_writer_begin_diag_def tree_room_def Let_def)
qed

text \<open>
  Closing an element: the bytes \<open>bs\<close> written since it was opened become its value, and the whole
  element takes their place.
\<close>

lemma scratch_parent:
  assumes el: "writable measure_fn (node_element tag bs)" and sc: "length bs \<le> length (out scratch [])"
  defines "pa \<equiv> \<lparr>elem_tag = tag, elem_value = \<lparr>val_data = buf_ptr (scratch_with bs scratch) 0, val_size = length bs\<rparr>\<rparr>"
  shows "writable measure_fn pa" "wire pa = wire (node_element tag bs)"
proof -
  have vs: "length bs \<le> SIZE_MAX" using el by (simp add: writable_def element_wf_def value_wf_def node_element_def)
  note B = scratch_with_simps [OF sc]
  show "writable measure_fn pa"
    by (rule writable_value [OF el]) (use vs B in \<open>auto simp: pa_def node_element_def value_wf_def readable_def\<close>)
  show "wire pa = wire (node_element tag bs)"
    by (rule wire_value) (use B in \<open>auto simp: pa_def node_element_def value_bytes_def\<close>)
qed

lemma write_end:
  assumes f: "fmt_measure f = Some measure_fn" "fmt_encode f = Some encode_fn"
    and room: "tree_room w f (length (wire (node_element tag bs))) (Suc k) (Suc h)"
    and el: "writable measure_fn (node_element tag bs)"
    and w1: "tree_wrote (w\<lparr>tw_frames := (tw_frames w)[tw_depth w := \<lparr>wf_tag = tag, wf_start = wr_pos (tw_output w)\<rparr>],
       tw_depth := tw_depth w + 1, tw_count := tw_count w + 1\<rparr>) bs k w1"
  obtains w2 where "tlv_tree_writer_write_event (Some w1) (Some (node_event TLV_TREE_END element0 (tw_depth w))) = (TLV_OK, Some w2)"
    "tree_wrote w (wire (node_element tag bs)) (Suc k) w2"
proof -
  let ?o = "tw_output w" and ?W = "wire (node_element tag bs)" and ?sc = "scratch_with bs (tw_scratch w1)"
  let ?start = "wr_pos ?o"
  note S = tree_wrote_simps [OF w1, simplified]
  have len: "length bs \<le> length ?W" using wire_value_le [OF el] by (simp add: node_element_def)
  have R: "writer_wf ?o" "wr_format ?o = Some f" "length ?W \<le> wr_capacity ?o - ?start" "wr_capacity ?o \<le> SIZE_MAX"
    "length ?W \<le> tw_scratch_capacity w" "tw_scratch_capacity w \<le> length (out (tw_scratch w) [])" "tw_tags w = None"
    "tw_depth w < length (tw_frames w)" "?start \<le> wr_capacity ?o"
    using room by (auto simp: tree_room_def writer_wf_def)
  have rest: "length bs \<le> wr_capacity ?o - ?start" using len R(3) by simp
  have w1': "w1 = w\<lparr>tw_depth := tw_depth w + 1, tw_output := appended ?o bs, tw_count := tw_count w + 1 + k,
      tw_frames := tw_frames w1, tw_scratch := tw_scratch w1\<rparr>"
    and fl: "length (tw_frames w1) = length (tw_frames w)"
    and sl: "length (out (tw_scratch w1) []) = length (out (tw_scratch w) [])"
    using w1 by (simp_all add: tree_wrote_def)
  note F = frames_kept [of "tw_depth w" "tw_frames w1" "tw_frames w" "\<lparr>wf_tag = tag, wf_start = ?start\<rparr>"]
  have fr: "take (tw_depth w) (tw_frames w1) = take (tw_depth w) (tw_frames w)"
    "tw_frames w1 ! tw_depth w = \<lparr>wf_tag = tag, wf_start = ?start\<rparr>"
    using w1 R(8) by (auto intro!: F simp: tree_wrote_def)
  have sub: "size_sub (wr_pos (tw_output w1)) ?start = length bs"
    using rest R(4,9) by (subst size_sub_eq) (auto simp: S(1) appended_def)
  have scl: "length bs \<le> tw_scratch_capacity w1" "length bs \<le> length (out (tw_scratch w1) [])"
    using len R(5,6) S(7) sl by simp_all
  note P = scratch_parent [OF el scl(2)]
  have "tlv_writer_write_element_diag (Some ((tw_output w1)\<lparr>wr_pos := ?start\<rparr>))
      (Some \<lparr>elem_tag = tag, elem_value = \<lparr>val_data = buf_ptr ?sc 0, val_size = length bs\<rparr>\<rparr>) False =
    (TLV_OK, Some (appended ((tw_output w1)\<lparr>wr_pos := ?start\<rparr>) ?W), None)"
    unfolding S(1) P(2) [symmetric]
    by (rule writer_write_wire [OF appended_rewind(1) [OF R(1) rest] _ f P(1)])
      (use R(2,3) P(2) in \<open>simp_all add: appended_def\<close>)
  then have "tlv_tree_writer_write_event (Some w1) (Some (node_event TLV_TREE_END element0 (tw_depth w))) =
      (TLV_OK, Some (w1\<lparr>tw_scratch := ?sc, tw_output := appended ?o ?W, tw_depth := tw_depth w\<rparr>))"
    using scl(1) S(1,3,8) R(7) sub fr(2) appended_active [OF R(1) rest] appended_rewind(2) [OF R(1) rest len R(3)]
    by (simp add: tlv_tree_writer_write_event_def tlv_tree_writer_write_event_diag_def event_misplaced_def
        node_event_def event0_def tlv_tree_writer_end_diag_def scratch_with_def Let_def)
  moreover have "tree_wrote w ?W (Suc k) (w1\<lparr>tw_scratch := ?sc, tw_output := appended ?o ?W, tw_depth := tw_depth w\<rparr>)"
  proof -
    have "w1\<lparr>tw_scratch := ?sc, tw_output := appended ?o ?W, tw_depth := tw_depth w\<rparr> =
        w\<lparr>tw_output := appended ?o ?W, tw_count := tw_count w + Suc k, tw_frames := tw_frames w1, tw_scratch := ?sc\<rparr>"
      by (subst w1') simp
    with fr(1) fl sl scratch_with_simps(3) [OF scl(2)] show ?thesis by (simp add: tree_wrote_def)
  qed
  ultimately show thesis by (rule that)
qed

lemma write_forest:
  assumes IH: "\<And>n w. n \<in> set ns \<Longrightarrow> tree_room w f (length (node_wire wire n)) (node_count n) (node_height n) \<Longrightarrow>
      \<exists>w'. write_events w (node_events (tw_depth w) n) = (TLV_OK, w') \<and> tree_wrote w (node_wire wire n) (node_count n) w'"
    and room: "tree_room w f (length (concat (map (node_wire wire) ns))) (sum_list (map node_count ns))
      (foldr max (map node_height ns) 0)"
  shows "\<exists>w'. write_events w (concat (map (node_events (tw_depth w)) ns)) = (TLV_OK, w') \<and>
      tree_wrote w (concat (map (node_wire wire) ns)) (sum_list (map node_count ns)) w'"
  using IH room
proof (induction ns arbitrary: w)
  case Nil
  have "appended (tw_output w) [] = tw_output w" by simp
  then show ?case by (simp add: tree_wrote_def)
next
  case (Cons n ns)
  let ?a = "node_wire wire n" and ?b = "concat (map (node_wire wire) ns)" and ?k = "sum_list (map node_count ns)"
  have "tree_room w f (length ?a) (node_count n) (node_height n)"
    using Cons.prems(2) by (rule tree_room_less) auto
  from Cons.prems(1) [OF _ this] obtain w1 where
    w1: "write_events w (node_events (tw_depth w) n) = (TLV_OK, w1)" "tree_wrote w ?a (node_count n) w1" by auto
  have d: "tw_depth w1 = tw_depth w" by (rule tree_wrote_simps(3) [OF w1(2)])
  have room: "tree_room w f (length ?a + length ?b) (node_count n + ?k) (foldr max (map node_height ns) 0)"
    using Cons.prems(2) by (rule tree_room_less) auto
  from Cons.IH [OF Cons.prems(1) tree_room_after [OF room w1(2)]] obtain w2 where
    w2: "write_events w1 (concat (map (node_events (tw_depth w)) ns)) = (TLV_OK, w2)" "tree_wrote w1 ?b ?k w2"
    using d by auto
  from tree_wrote_trans [OF room w1(2) w2(2)] write_events_append [OF w1(1)] w2(1) show ?case by auto
qed

lemma write_node:
  assumes f: "fmt_measure f = Some measure_fn" "fmt_encode f = Some encode_fn" "format_constructed f = p"
  shows "node_ok measure_fn wire p n \<Longrightarrow> tree_room w f (length (node_wire wire n)) (node_count n) (node_height n) \<Longrightarrow>
    \<exists>w'. write_events w (node_events (tw_depth w) n) = (TLV_OK, w') \<and> tree_wrote w (node_wire wire n) (node_count n) w'"
proof (induction n arbitrary: w)
  case (Leaf el)
  from Leaf write_leaf [OF f, of w el] show ?case by fastforce
next
  case (Node tag ns)
  let ?bs = "concat (map (node_wire wire) ns)" and ?k = "sum_list (map node_count ns)" and ?h = "foldr max (map node_height ns) 0"
  let ?w = "w\<lparr>tw_frames := (tw_frames w)[tw_depth w := \<lparr>wf_tag = tag, wf_start = wr_pos (tw_output w)\<rparr>],
       tw_depth := tw_depth w + 1, tw_count := tw_count w + 1\<rparr>"
  from Node.prems(1) have el: "writable measure_fn (node_element tag ?bs)" and tag: "tag_wf tag" "p tag"
    by (auto simp: writable_def element_wf_def node_element_def)
  have room: "tree_room w f (length (wire (node_element tag ?bs))) (Suc ?k) (Suc ?h)" using Node.prems(2) by simp
  have le: "length ?bs \<le> length (wire (node_element tag ?bs))" using wire_value_le [OF el] by (simp add: node_element_def)
  have room1: "tree_room ?w f (length ?bs) ?k ?h" using room le by (auto simp: tree_room_def)
  have "\<exists>w'. write_events ?w (concat (map (node_events (tw_depth ?w)) ns)) = (TLV_OK, w') \<and> tree_wrote ?w ?bs ?k w'"
    using Node.prems(1) by (intro write_forest [OF Node.IH room1]) auto
  then obtain w1 where w1: "write_events ?w (concat (map (node_events (tw_depth w + 1)) ns)) = (TLV_OK, w1)"
    "tree_wrote ?w ?bs ?k w1" by auto
  obtain w2 where w2: "tlv_tree_writer_write_event (Some w1) (Some (node_event TLV_TREE_END element0 (tw_depth w))) = (TLV_OK, Some w2)"
    "tree_wrote w (wire (node_element tag ?bs)) (Suc ?k) w2"
    by (rule write_end [OF f(1,2) room el w1(2)])
  have "write_events w (node_events (tw_depth w) (Node tag ns)) = (TLV_OK, w2)"
    using write_begin [OF f(3) room tag] write_events_append [OF w1(1)] w2(1) by simp
  with w2(2) show ?case by auto
qed

text \<open>The whole forest, from any writer with room for it.\<close>

lemma write_all_nodes:
  assumes f: "fmt_measure f = Some measure_fn" "fmt_encode f = Some encode_fn" "format_constructed f = p"
    and ok: "\<And>n. n \<in> set ns \<Longrightarrow> node_ok measure_fn wire p n"
    and room: "tree_room w f (length (concat (map (node_wire wire) ns))) (sum_list (map node_count ns))
      (foldr max (map node_height ns) 0)"
  shows "\<exists>w'. write_events w (concat (map (node_events (tw_depth w)) ns)) = (TLV_OK, w') \<and>
      tree_wrote w (concat (map (node_wire wire) ns)) (sum_list (map node_count ns)) w'"
  by (rule write_forest [OF write_node [OF f ok] room])

end

end
