(* ===== verification/TLV_Compose.thy ===== *)
theory TLV_Compose
  imports TLV_Format TLV_Field_Fixed
begin

text \<open>
  Composition of field encodings into a format (\<^verbatim>\<open>formats/compose.c\<close>): an identifier reader/writer and
  a count reader/writer, in either order, with either scope of the count, become a decoder, a
  measurer and an encoder.  Also the two derived compositions of that file: fixed binary fields and
  identifier-selected tag-only elements.

  What the composition relies on is the field contract of \<^verbatim>\<open>TLV_Field_Interface\<close>; what it guarantees
  from it (stability of the decoder under more input, round trip of the encoder) is proved once in
  \<^verbatim>\<open>TLV_Compose_Laws\<close>.
\<close>

section \<open>Types (formats/compose.h, field/encoding.h)\<close>

datatype tlv_element_order_t =
  TLV_ELEMENT_ORDER_TLV | TLV_ELEMENT_ORDER_LTV | TLV_ELEMENT_ORDER_OTHER int

datatype tlv_length_scope_t =
  TLV_LENGTH_SCOPE_VALUE | TLV_LENGTH_SCOPE_TAG_AND_VALUE | TLV_LENGTH_SCOPE_OTHER int

type_synonym tlv_read_tag_fn = "ptr \<Rightarrow> nat \<Rightarrow> tlv_result_t \<times> tlv_tag_t option \<times> nat option"
type_synonym tlv_read_length_fn = "ptr \<Rightarrow> nat \<Rightarrow> tlv_result_t \<times> nat option \<times> nat option"
type_synonym tlv_write_tag_fn = "tlv_tag_t \<Rightarrow> obuf \<Rightarrow> nat \<Rightarrow> tlv_result_t \<times> obuf \<times> nat option"
type_synonym tlv_write_length_fn = "nat \<Rightarrow> obuf \<Rightarrow> nat \<Rightarrow> tlv_result_t \<times> obuf \<times> nat option"

text \<open>The outputs of a resolver: length field extent, value size, trailer size, error detail.\<close>

type_synonym tlv_resolve_bounds_fn =
  "tlv_tag_t \<Rightarrow> ptr \<Rightarrow> nat \<Rightarrow> tlv_format_error_t
     \<Rightarrow> tlv_result_t \<times> nat option \<times> nat option \<times> nat option \<times> tlv_format_error_t"

record tlv_field_composition_t =
  fc_read_tag :: "tlv_read_tag_fn option"
  fc_read_length :: "tlv_read_length_fn option"
  fc_resolve :: "tlv_resolve_bounds_fn option"
  fc_write_tag :: "tlv_write_tag_fn option"
  fc_write_length :: "tlv_write_length_fn option"
  fc_element_order :: tlv_element_order_t
  fc_length_scope :: tlv_length_scope_t

record tlv_binary_composition_t =
  bc_identifier :: tlv_fixed_identifier_t
  bc_length :: tlv_fixed_length_t
  bc_element_order :: tlv_element_order_t
  bc_length_scope :: tlv_length_scope_t

record tlv_tagged_fields_composition_t =
  tf_fields :: tlv_field_composition_t
  tf_tag_only :: "tlv_tag_t list option"
  tf_count :: nat

record tlv_tagged_binary_composition_t =
  tb_fields :: tlv_binary_composition_t
  tb_tag_only :: "tlv_tag_t list option"
  tb_count :: nat

section \<open>Decoding a composition\<close>

definition field_range :: "nat \<Rightarrow> nat \<Rightarrow> tlv_range_t" where
  "field_range offset sz = \<lparr>rg_offset = offset, rg_size = sz, rg_present = True\<rparr>"

definition available :: "nat \<Rightarrow> nat \<Rightarrow> nat \<Rightarrow> tlv_range_t" where
  "available offset used sz = field_range offset (if used \<le> sz - offset then used else sz - offset)"

definition failure :: "tlv_format_error_t \<Rightarrow> tlv_region_t \<Rightarrow> nat \<Rightarrow> tlv_format_error_t" where
  "failure e region offset = e\<lparr>fe_region := region, fe_offset := offset, fe_has_offset := True\<rparr>"

definition fields_failure ::
  "tlv_format_error_t \<Rightarrow> tlv_decoded_t \<Rightarrow> tlv_region_t \<Rightarrow> nat \<Rightarrow> tlv_format_error_t" where
  "fields_failure e result region offset =
     failure (e\<lparr>fe_tag := src_tag (dec_source result), fe_length := src_length (dec_source result)\<rparr>)
       region offset"

definition read_result :: "tlv_result_t \<Rightarrow> tlv_result_t" where
  "read_result rc =
     (let rc = tlv_callback_result rc False
      in if rc = TLV_ERR_BUFFER_TOO_SHORT then TLV_ERR_CALLBACK else rc)"

text \<open>The local variables of \<^verbatim>\<open>tlv_fields_decode\<close>, with the two cells it writes through.\<close>

record fields_state =
  fs_tag :: tlv_tag_t
  fs_length :: nat
  fs_pos :: nat
  fs_tag_size :: nat
  fs_length_size :: nat
  fs_trailer :: nat
  fs_result :: tlv_decoded_t
  fs_error :: tlv_format_error_t

definition set_source_tag :: "tlv_range_t \<Rightarrow> tlv_decoded_t \<Rightarrow> tlv_decoded_t" where
  "set_source_tag r d = d\<lparr>dec_source := (dec_source d)\<lparr>src_tag := r\<rparr>\<rparr>"

definition set_source_length :: "tlv_range_t \<Rightarrow> tlv_decoded_t \<Rightarrow> tlv_decoded_t" where
  "set_source_length r d = d\<lparr>dec_source := (dec_source d)\<lparr>src_length := r\<rparr>\<rparr>"

definition fields_identifier ::
  "tlv_field_composition_t \<Rightarrow> ptr \<Rightarrow> nat \<Rightarrow> fields_state \<Rightarrow> tlv_result_t \<times> fields_state" where
  "fields_identifier f data sz st =
     (let pos = fs_pos st in
      case the (fc_read_tag f) (ptr_add data pos) (sz - pos) of
        (rc, otag, oused) \<Rightarrow>
          let tag = out otag (fs_tag st);
              tsz = out oused (fs_tag_size st);
              st = st\<lparr>fs_tag := tag, fs_tag_size := tsz\<rparr>;
              rc = read_result rc;
              rc = (if rc = TLV_OK \<and> (tsz = 0 \<or> tsz > sz - pos \<or> (tag_size tag \<noteq> 0 \<and> tag_data tag = Null))
                    then TLV_ERR_CALLBACK else rc)
          in if rc \<noteq> TLV_OK
             then (rc, st\<lparr>fs_error := fields_failure (fs_error st) (fs_result st) TLV_REGION_TAG pos\<rparr>)
             else (TLV_OK, st\<lparr>fs_result := set_source_tag (field_range pos tsz) (fs_result st),
                             fs_pos := pos + tsz\<rparr>))"

text \<open>The error detail of a failed resolver.\<close>

definition resolve_failure ::
  "tlv_format_error_t \<Rightarrow> tlv_format_error_t \<Rightarrow> nat \<Rightarrow> tlv_format_error_t" where
  "resolve_failure e resolved pos =
     (if fe_has_offset resolved
      then e\<lparr>fe_region := fe_region resolved, fe_offset := pos + fe_offset resolved,
             fe_required := fe_required resolved, fe_has_required := fe_has_required resolved\<rparr>
      else e)"

text \<open>The checks after the count is known, shared by both ways of reading it.\<close>

definition fields_count_finish ::
  "tlv_field_composition_t \<Rightarrow> nat \<Rightarrow> tlv_result_t \<Rightarrow> fields_state \<Rightarrow> tlv_result_t \<times> fields_state" where
  "fields_count_finish f sz rc st =
     (let pos = fs_pos st;
          st = st\<lparr>fs_result := set_source_length (available pos (fs_length_size st) sz) (fs_result st)\<rparr>;
          rc = (if rc = TLV_OK \<and> fs_length_size st > sz - pos then TLV_ERR_CALLBACK else rc);
          rc = (if rc = TLV_OK \<and> fc_length_scope f = TLV_LENGTH_SCOPE_TAG_AND_VALUE \<and> fs_length st = 0
                then TLV_ERR_INVALID_LENGTH else rc)
      in if rc \<noteq> TLV_OK
         then (rc, st\<lparr>fs_error := fields_failure (fs_error st) (fs_result st) TLV_REGION_LENGTH pos\<rparr>)
         else (TLV_OK, st\<lparr>fs_pos := pos + fs_length_size st\<rparr>))"

definition fields_count ::
  "tlv_field_composition_t \<Rightarrow> ptr \<Rightarrow> nat \<Rightarrow> fields_state \<Rightarrow> tlv_result_t \<times> fields_state" where
  "fields_count f data sz st =
     (let pos = fs_pos st in
      case fc_resolve f of
        Some resolve \<Rightarrow>
          (case resolve (fs_tag st) (ptr_add data pos) (sz - pos) error0 of
             (rc, olsz, olen, otr, resolved) \<Rightarrow>
               let st = st\<lparr>fs_length_size := out olsz (fs_length_size st), fs_length := out olen (fs_length st),
                          fs_trailer := out otr (fs_trailer st)\<rparr>;
                   rc = read_result rc
               in if rc \<noteq> TLV_OK then
                    let st = st\<lparr>fs_result := set_source_length (available pos (fs_length_size st) sz)
                                             (fs_result st)\<rparr>
                    in (rc, st\<lparr>fs_error :=
                          resolve_failure (fields_failure (fs_error st) (fs_result st) TLV_REGION_LENGTH pos)
                            resolved pos\<rparr>)
                  else fields_count_finish f sz rc st)
      | None \<Rightarrow>
          (case the (fc_read_length f) (ptr_add data pos) (sz - pos) of
             (rc, olen, olsz) \<Rightarrow>
               fields_count_finish f sz (read_result rc)
                 (st\<lparr>fs_length := out olen (fs_length st), fs_length_size := out olsz (fs_length_size st)\<rparr>)))"

definition fields_step ::
  "tlv_field_composition_t \<Rightarrow> ptr \<Rightarrow> nat \<Rightarrow> nat \<Rightarrow> fields_state \<Rightarrow> tlv_result_t \<times> fields_state" where
  "fields_step f data sz step st =
     (if (step = 0) = (fc_element_order f = TLV_ELEMENT_ORDER_TLV)
      then fields_identifier f data sz st else fields_count f data sz st)"

text \<open>The part after the loop: normalise the count, check value and trailer, publish the ranges.\<close>

definition fields_publish :: "ptr \<Rightarrow> nat \<Rightarrow> fields_state \<Rightarrow> tlv_decoded_t" where
  "fields_publish data len st =
     (let pos = fs_pos st; d = fs_result st in
      d\<lparr>dec_element := \<lparr>elem_tag = fs_tag st, elem_value = \<lparr>val_data = ptr_add data pos, val_size = len\<rparr>\<rparr>,
        dec_source := (dec_source d)\<lparr>src_header := field_range 0 pos, src_value := field_range pos len,
          src_trailer := field_range (pos + len) (fs_trailer st),
          src_size := pos + len + fs_trailer st\<rparr>\<rparr>)"

definition fields_finish ::
  "tlv_field_composition_t \<Rightarrow> ptr \<Rightarrow> nat \<Rightarrow> fields_state
     \<Rightarrow> tlv_result_t \<times> tlv_decoded_t \<times> tlv_format_error_t" where
  "fields_finish f data sz st =
     (let pos = fs_pos st; d = fs_result st; e = fs_error st;
          scoped = (fc_length_scope f = TLV_LENGTH_SCOPE_TAG_AND_VALUE) in
      if scoped \<and> fs_length st < fs_tag_size st
      then (TLV_ERR_INVALID_LENGTH, d,
            fields_failure e d TLV_REGION_LENGTH (rg_offset (src_length (dec_source d))))
      else let len = (if scoped then fs_length st - fs_tag_size st else fs_length st) in
        if len > sz - pos
        then (TLV_ERR_TRUNCATED, d,
              fields_failure (e\<lparr>fe_required := len, fe_has_required := True\<rparr>) d TLV_REGION_VALUE pos)
        else if fs_trailer st > sz - pos - len
        then (TLV_ERR_TRUNCATED, d,
              fields_failure (e\<lparr>fe_required := fs_trailer st, fe_has_required := True,
                  fe_value := field_range pos len\<rparr>) d TLV_REGION_TRAILER (pos + len))
        else (TLV_OK, fields_publish data len st, e))"

definition tlv_fields_decode :: "tlv_field_composition_t \<Rightarrow> tlv_decode_fn" where
  "tlv_fields_decode f data sz result error =
     (let st = \<lparr>fs_tag = tlv_tag Null 0, fs_length = 0, fs_pos = 0, fs_tag_size = 0, fs_length_size = 0,
               fs_trailer = 0, fs_result = result, fs_error = error\<rparr> in
      case fields_step f data sz 0 st of
        (rc, st) \<Rightarrow>
          if rc \<noteq> TLV_OK then (rc, fs_result st, fs_error st)
          else case fields_step f data sz 1 st of
            (rc, st) \<Rightarrow>
              if rc \<noteq> TLV_OK then (rc, fs_result st, fs_error st)
              else fields_finish f data sz st)"

section \<open>Measuring and encoding a composition\<close>

definition length_offset :: "tlv_field_composition_t \<Rightarrow> nat \<Rightarrow> nat" where
  "length_offset f tsz = (if fc_element_order f = TLV_ELEMENT_ORDER_TLV then tsz else 0)"

definition field_sizes ::
  "tlv_field_composition_t \<Rightarrow> tlv_element_t \<Rightarrow> tlv_format_error_t
     \<Rightarrow> tlv_result_t \<times> nat \<times> nat \<times> nat \<times> tlv_format_error_t" where
  "field_sizes f element error =
     (case the (fc_write_tag f) (elem_tag element) None 0 of
        (rc, _, ot) \<Rightarrow>
          let t = out ot 0;
              rc = tlv_callback_result rc False;
              rc = (if rc = TLV_OK \<and> t = 0 then TLV_ERR_CALLBACK else rc);
              count = val_size (elem_value element)
          in if rc \<noteq> TLV_OK then (rc, t, 0, count, failure error TLV_REGION_TAG 0)
             else case (if fc_length_scope f = TLV_LENGTH_SCOPE_TAG_AND_VALUE
                        then tlv_size_add count t True else (TLV_OK, Some count)) of
               (rc, ocount) \<Rightarrow>
                 let count = out ocount count in
                 case (if rc = TLV_OK
                       then (case the (fc_write_length f) count None 0 of
                               (rc, _, ol) \<Rightarrow> (tlv_callback_result rc False, out ol 0))
                       else (rc, 0)) of
                   (rc, l) \<Rightarrow>
                     if rc = TLV_OK then (TLV_OK, t, l, count, error)
                     else (rc, t, l, count, failure error TLV_REGION_LENGTH (length_offset f t)))"

definition tlv_fields_measure :: "tlv_field_composition_t \<Rightarrow> tlv_measure_fn" where
  "tlv_fields_measure f element encoding error =
     (case field_sizes f element error of
        (rc, t, l, count, error) \<Rightarrow>
          if rc \<noteq> TLV_OK then (rc, encoding, error)
          else case tlv_size_add t l True of
            (rc, oheader) \<Rightarrow>
              let encoding = encoding\<lparr>en_header := out oheader (en_header encoding)\<rparr> in
              if rc \<noteq> TLV_OK then (rc, encoding, failure error TLV_REGION_LENGTH (length_offset f t))
              else let encoding = encoding\<lparr>en_value := val_size (elem_value element), en_trailer := 0\<rparr> in
                case tlv_size_add (en_header encoding) (en_value encoding) True of
                  (rc, osum) \<Rightarrow>
                    let encoding = encoding\<lparr>en_total := out osum (en_total encoding)\<rparr> in
                    if rc = TLV_OK then (TLV_OK, encoding, error)
                    else (rc, encoding, failure error TLV_REGION_LENGTH (length_offset f t)))"

definition tlv_fields_encode :: "tlv_field_composition_t \<Rightarrow> tlv_encode_fn" where
  "tlv_fields_encode f element data capacity written error =
     (case field_sizes f element error of
        (rc, t, l, count, error) \<Rightarrow>
          if rc \<noteq> TLV_OK then (rc, data, written, error)
          else let to = (if fc_element_order f = TLV_ELEMENT_ORDER_TLV then 0 else l);
                   lo = length_offset f t in
            case tlv_size_to_native (val_size (elem_value element)) True of
              (rc, onative) \<Rightarrow>
                let v = out onative 0;
                    rc = (if rc = TLV_OK \<and> (t > capacity \<or> l > capacity - t \<or> v > capacity - t - l)
                          then TLV_ERR_BUFFER_TOO_SHORT else rc)
                in if rc \<noteq> TLV_OK then (rc, data, written, failure error TLV_REGION_LENGTH lo)
                   else case the (fc_write_tag f) (elem_tag element) (obuf_drop to data) t of
                     (rc, part, oused) \<Rightarrow>
                       let data = obuf_put to data part; used = out oused 0;
                           rc = tlv_callback_result rc False;
                           rc = (if rc = TLV_OK \<and> used \<noteq> t then TLV_ERR_CALLBACK else rc)
                       in if rc \<noteq> TLV_OK then (rc, data, written, failure error TLV_REGION_TAG to)
                          else case the (fc_write_length f) count (obuf_drop lo data) l of
                            (rc, part, oused) \<Rightarrow>
                              let data = obuf_put lo data part; used = out oused used;
                                  rc = tlv_callback_result rc False;
                                  rc = (if rc = TLV_OK \<and> used \<noteq> l then TLV_ERR_CALLBACK else rc)
                              in if rc \<noteq> TLV_OK then (rc, data, written, failure error TLV_REGION_LENGTH lo)
                                 else (TLV_OK,
                                       (if v \<noteq> 0
                                        then obuf_blit (t + l)
                                               (take v (bytes (val_data (elem_value element)))) data
                                        else data),
                                       t + l + v, error))"

definition tlv_fields_format_init ::
  "bool \<Rightarrow> tlv_field_composition_t option \<Rightarrow> tlv_result_t \<times> tlv_format_t option" where
  "tlv_fields_format_init format_ok composition =
     (case composition of None \<Rightarrow> (TLV_ERR_INVALID_ARG, None)
      | Some f \<Rightarrow>
          if (fc_element_order f \<noteq> TLV_ELEMENT_ORDER_TLV \<and> fc_element_order f \<noteq> TLV_ELEMENT_ORDER_LTV) \<or>
             (fc_length_scope f \<noteq> TLV_LENGTH_SCOPE_VALUE \<and>
              fc_length_scope f \<noteq> TLV_LENGTH_SCOPE_TAG_AND_VALUE) \<or>
             (fc_resolve f \<noteq> None \<and>
              (fc_element_order f \<noteq> TLV_ELEMENT_ORDER_TLV \<or> fc_length_scope f \<noteq> TLV_LENGTH_SCOPE_VALUE))
          then (TLV_ERR_INVALID_ARG, None)
          else let rd = (fc_read_tag f \<noteq> None \<or> fc_read_length f \<noteq> None \<or> fc_resolve f \<noteq> None);
                   wr = (fc_write_tag f \<noteq> None \<or> fc_write_length f \<noteq> None) in
            if (rd \<and> \<not> (fc_read_tag f \<noteq> None \<and> fc_read_length f \<noteq> None)) \<or>
               (wr \<and> \<not> (fc_write_tag f \<noteq> None \<and> fc_write_length f \<noteq> None))
            then (TLV_ERR_INVALID_ARG, None)
            else tlv_format_init format_ok (if rd then Some (tlv_fields_decode f) else None)
                   (if wr then Some (tlv_fields_measure f) else None)
                   (if wr then Some (tlv_fields_encode f) else None))"

section \<open>Fixed binary fields\<close>

definition binary_tag_read :: "tlv_binary_composition_t \<Rightarrow> tlv_read_tag_fn" where
  "binary_tag_read f data sz = tlv_fixed_identifier_read (Some (bc_identifier f)) data sz True"

definition binary_tag_write :: "tlv_binary_composition_t \<Rightarrow> tlv_write_tag_fn" where
  "binary_tag_write f tag data capacity =
     tlv_fixed_identifier_write (Some (bc_identifier f)) (Some tag) data capacity True"

definition binary_length_read :: "tlv_binary_composition_t \<Rightarrow> tlv_read_length_fn" where
  "binary_length_read f data sz = tlv_fixed_length_read (Some (bc_length f)) data sz True"

definition binary_length_write :: "tlv_binary_composition_t \<Rightarrow> tlv_write_length_fn" where
  "binary_length_write f len data capacity =
     tlv_fixed_length_write (Some (bc_length f)) len data capacity True"

definition binary_fields :: "tlv_binary_composition_t \<Rightarrow> tlv_field_composition_t" where
  "binary_fields f =
     \<lparr>fc_read_tag = Some (binary_tag_read f), fc_read_length = Some (binary_length_read f),
      fc_resolve = None, fc_write_tag = Some (binary_tag_write f),
      fc_write_length = Some (binary_length_write f), fc_element_order = bc_element_order f,
      fc_length_scope = bc_length_scope f\<rparr>"

text \<open>The exact widths a truncated fixed header is known to need.\<close>

definition binary_required ::
  "tlv_binary_composition_t \<Rightarrow> tlv_result_t \<Rightarrow> tlv_format_error_t \<Rightarrow> tlv_format_error_t" where
  "binary_required f rc error =
     (if rc = TLV_ERR_TRUNCATED \<and> (fe_region error = TLV_REGION_TAG \<or> fe_region error = TLV_REGION_LENGTH)
      then error\<lparr>fe_has_required := True,
                 fe_required := (if fe_region error = TLV_REGION_TAG then fid_size (bc_identifier f)
                                 else flen_size (bc_length f))\<rparr>
      else error)"

definition tlv_binary_decode :: "tlv_binary_composition_t \<Rightarrow> tlv_decode_fn" where
  "tlv_binary_decode f data sz result error =
     (case tlv_fields_decode (binary_fields f) data sz result error of
        (rc, result, error) \<Rightarrow> (rc, result, binary_required f rc error))"

definition tlv_binary_measure :: "tlv_binary_composition_t \<Rightarrow> tlv_measure_fn" where
  "tlv_binary_measure f = tlv_fields_measure (binary_fields f)"

definition tlv_binary_encode :: "tlv_binary_composition_t \<Rightarrow> tlv_encode_fn" where
  "tlv_binary_encode f = tlv_fields_encode (binary_fields f)"

section \<open>Tag-only elements\<close>

definition tagged_fields_tag_only :: "tlv_tagged_fields_composition_t \<Rightarrow> tlv_tag_t \<Rightarrow> bool" where
  "tagged_fields_tag_only f tag =
     list_ex (tlv_tag_equal tag) (take (tf_count f) (out (tf_tag_only f) []))"

definition tlv_tagged_fields_decode :: "tlv_tagged_fields_composition_t \<Rightarrow> tlv_decode_fn" where
  "tlv_tagged_fields_decode f data sz result error =
     (case the (fc_read_tag (tf_fields f)) data sz of
        (rc, otag, oused) \<Rightarrow>
          let tag = out otag (tlv_tag Null 0); width = out oused 0;
              rc = read_result rc;
              rc = (if rc = TLV_OK \<and> (width = 0 \<or> width > sz \<or> (tag_size tag \<noteq> 0 \<and> tag_data tag = Null))
                    then TLV_ERR_CALLBACK else rc)
          in if rc \<noteq> TLV_OK then (rc, result, failure error TLV_REGION_TAG 0)
             else if \<not> tagged_fields_tag_only f tag
             then tlv_fields_decode (tf_fields f) data sz result error
             else (TLV_OK,
                   result\<lparr>dec_element := \<lparr>elem_tag = tag,
                              elem_value = \<lparr>val_data = ptr_add data width, val_size = 0\<rparr>\<rparr>,
                          dec_source := (dec_source result)\<lparr>src_header := field_range 0 width,
                              src_tag := field_range 0 width, src_length := range0,
                              src_value := field_range width 0, src_trailer := field_range width 0,
                              src_size := width\<rparr>\<rparr>,
                   error))"

definition tlv_tagged_fields_measure :: "tlv_tagged_fields_composition_t \<Rightarrow> tlv_measure_fn" where
  "tlv_tagged_fields_measure f element encoding error =
     (case the (fc_write_tag (tf_fields f)) (elem_tag element) None 0 of
        (rc, _, ow) \<Rightarrow>
          let width = out ow 0;
              rc = tlv_callback_result rc False;
              rc = (if rc = TLV_OK \<and> width = 0 then TLV_ERR_CALLBACK else rc)
          in if rc \<noteq> TLV_OK then (rc, encoding, failure error TLV_REGION_TAG 0)
             else if \<not> tagged_fields_tag_only f (elem_tag element)
             then tlv_fields_measure (tf_fields f) element encoding error
             else if val_size (elem_value element) \<noteq> 0
             then (TLV_ERR_INVALID_LENGTH, encoding,
                   failure (error\<lparr>fe_required := 0, fe_has_required := True\<rparr>) TLV_REGION_VALUE width)
             else (TLV_OK, \<lparr>en_header = width, en_value = 0, en_trailer = 0, en_total = width\<rparr>, error))"

definition tlv_tagged_fields_encode :: "tlv_tagged_fields_composition_t \<Rightarrow> tlv_encode_fn" where
  "tlv_tagged_fields_encode f element data capacity written error =
     (case tlv_tagged_fields_measure f element encoding0 error of
        (rc, encoding, error) \<Rightarrow>
          if rc \<noteq> TLV_OK then (rc, data, written, error)
          else if \<not> tagged_fields_tag_only f (elem_tag element)
          then tlv_fields_encode (tf_fields f) element data capacity written error
          else case (if en_total encoding > capacity then (TLV_ERR_BUFFER_TOO_SHORT, data, None)
                     else the (fc_write_tag (tf_fields f)) (elem_tag element) data capacity) of
            (rc, data, ow) \<Rightarrow>
              (rc, data, out ow written,
               if rc = TLV_OK then error else failure error TLV_REGION_TAG 0))"

text \<open>The table check of \<^verbatim>\<open>tlv_tagged_fields_format_init\<close>.\<close>

fun tag_only_check :: "tlv_write_tag_fn \<Rightarrow> tlv_tag_t list \<Rightarrow> tlv_result_t" where
  "tag_only_check write_tag [] = TLV_OK"
| "tag_only_check write_tag (tag # rest) =
     (if tag_size tag = 0 \<or> tag_data tag = Null then TLV_ERR_INVALID_ARG
      else case write_tag tag None 0 of
        (rc, _, ow) \<Rightarrow>
          let rc = tlv_callback_result rc False in
          if rc \<noteq> TLV_OK then rc
          else if out ow 0 = 0 then TLV_ERR_CALLBACK
          else tag_only_check write_tag rest)"

definition tlv_tagged_fields_format_init ::
  "bool \<Rightarrow> tlv_tagged_fields_composition_t option \<Rightarrow> tlv_result_t \<times> tlv_format_t option" where
  "tlv_tagged_fields_format_init format_ok composition =
     (case composition of None \<Rightarrow> (TLV_ERR_NULL_ARG, None)
      | Some f \<Rightarrow>
          if \<not> format_ok then (TLV_ERR_NULL_ARG, None)
          else if fc_read_tag (tf_fields f) = None \<or> fc_read_length (tf_fields f) = None \<or>
                  fc_write_tag (tf_fields f) = None \<or> fc_write_length (tf_fields f) = None \<or>
                  fc_resolve (tf_fields f) \<noteq> None \<or>
                  fc_element_order (tf_fields f) \<noteq> TLV_ELEMENT_ORDER_TLV \<or>
                  fc_length_scope (tf_fields f) \<noteq> TLV_LENGTH_SCOPE_VALUE \<or>
                  (tf_count f \<noteq> 0 \<and> tf_tag_only f = None)
          then (TLV_ERR_INVALID_ARG, None)
          else let rc = tag_only_check (the (fc_write_tag (tf_fields f)))
                          (take (tf_count f) (out (tf_tag_only f) [])) in
            if rc \<noteq> TLV_OK then (rc, None)
            else tlv_format_init format_ok (Some (tlv_tagged_fields_decode f))
                   (Some (tlv_tagged_fields_measure f)) (Some (tlv_tagged_fields_encode f)))"

definition tagged_binary_fields ::
  "tlv_tagged_binary_composition_t \<Rightarrow> tlv_tagged_fields_composition_t" where
  "tagged_binary_fields f =
     \<lparr>tf_fields = binary_fields (tb_fields f), tf_tag_only = tb_tag_only f, tf_count = tb_count f\<rparr>"

definition tlv_tagged_binary_decode :: "tlv_tagged_binary_composition_t \<Rightarrow> tlv_decode_fn" where
  "tlv_tagged_binary_decode f data sz result error =
     (case tlv_tagged_fields_decode (tagged_binary_fields f) data sz result error of
        (rc, result, error) \<Rightarrow> (rc, result, binary_required (tb_fields f) rc error))"

definition tlv_tagged_binary_measure :: "tlv_tagged_binary_composition_t \<Rightarrow> tlv_measure_fn" where
  "tlv_tagged_binary_measure f = tlv_tagged_fields_measure (tagged_binary_fields f)"

definition tlv_tagged_binary_encode :: "tlv_tagged_binary_composition_t \<Rightarrow> tlv_encode_fn" where
  "tlv_tagged_binary_encode f = tlv_tagged_fields_encode (tagged_binary_fields f)"

definition tlv_tagged_binary_format_init ::
  "bool \<Rightarrow> tlv_tagged_binary_composition_t option \<Rightarrow> tlv_result_t \<times> tlv_format_t option" where
  "tlv_tagged_binary_format_init format_ok composition =
     (case composition of None \<Rightarrow> (TLV_ERR_NULL_ARG, None)
      | Some f \<Rightarrow>
          if \<not> format_ok then (TLV_ERR_NULL_ARG, None)
          else let rc = fixed_identifier_validate (bc_identifier (tb_fields f)) in
            if rc \<noteq> TLV_OK then (rc, None)
            else let rc = fixed_length_validate (bc_length (tb_fields f)) in
              if rc \<noteq> TLV_OK then (rc, None)
              else if bc_element_order (tb_fields f) \<noteq> TLV_ELEMENT_ORDER_TLV \<or>
                      bc_length_scope (tb_fields f) \<noteq> TLV_LENGTH_SCOPE_VALUE \<or>
                      (tb_count f \<noteq> 0 \<and> tb_tag_only f = None)
              then (TLV_ERR_INVALID_ARG, None)
              else if list_ex (\<lambda>t. tag_data t = Null \<or> tag_size t \<noteq> fid_size (bc_identifier (tb_fields f)))
                        (take (tb_count f) (out (tb_tag_only f) []))
              then (TLV_ERR_INVALID_ARG, None)
              else tlv_format_init format_ok (Some (tlv_tagged_binary_decode f))
                     (Some (tlv_tagged_binary_measure f)) (Some (tlv_tagged_binary_encode f)))"

end
