(* ===== verification/TLV_Compose_Laws.thy ===== *)
theory TLV_Compose_Laws
  imports TLV_Compose TLV_Format_Interface
begin

text \<open>
  What a composition of fields guarantees, proved once from the field contract: the decoder
  recognises an element by its own octets, and what the encoder writes decodes to the same element.
\<close>

section \<open>The decoder\<close>

definition order_tlv :: "tlv_field_composition_t \<Rightarrow> bool" where
  "order_tlv f \<longleftrightarrow> fc_element_order f = TLV_ELEMENT_ORDER_TLV"

definition scoped :: "tlv_field_composition_t \<Rightarrow> bool" where
  "scoped f \<longleftrightarrow> fc_length_scope f = TLV_LENGTH_SCOPE_TAG_AND_VALUE"

text \<open>The offset of the identifier field, given the width of the count field.\<close>

definition tag_offset :: "tlv_field_composition_t \<Rightarrow> nat \<Rightarrow> nat" where
  "tag_offset f l = (if order_tlv f then 0 else l)"

text \<open>
  The decoded element with an identifier of \<open>kt\<close> octets, a count field of \<open>kl\<close> octets and a value
  of \<open>len\<close> octets.
\<close>

definition fields_result ::
  "tlv_field_composition_t \<Rightarrow> ptr \<Rightarrow> nat \<Rightarrow> nat \<Rightarrow> nat \<Rightarrow> tlv_decoded_t \<Rightarrow> tlv_decoded_t" where
  "fields_result f p kt kl len d =
     d\<lparr>dec_element := \<lparr>elem_tag = tlv_tag (ptr_add p (tag_offset f kl)) kt,
                       elem_value = \<lparr>val_data = ptr_add p (kt + kl), val_size = len\<rparr>\<rparr>,
       dec_source := (dec_source d)\<lparr>src_tag := field_range (tag_offset f kl) kt,
         src_length := field_range (length_offset f kt) kl, src_header := field_range 0 (kt + kl),
         src_value := field_range (kt + kl) len, src_trailer := field_range (kt + kl + len) 0,
         src_size := kt + kl + len\<rparr>\<rparr>"

lemma read_result_OK [simp]: "read_result TLV_OK = TLV_OK"
  by (simp add: read_result_def)

lemma read_result_eq_OK [simp]: "read_result rc = TLV_OK \<longleftrightarrow> rc = TLV_OK"
  by (auto simp: read_result_def Let_def)

lemma read_result_TRUNCATED [simp]: "read_result TLV_ERR_TRUNCATED = TLV_ERR_TRUNCATED"
  by (simp add: read_result_def tlv_callback_result_def)

lemma field_range_simps [simp]:
  "rg_offset (field_range off sz) = off" "rg_size (field_range off sz) = sz"
  "rg_present (field_range off sz)"
  by (simp_all add: field_range_def)

lemma partitioned_fields_result:
  assumes "src_tag_binding (dec_source d) = TLV_TAG_BINDING_SOURCE" "0 < kt" "kt + kl + len \<le> n"
  shows "partitioned (fields_result f p kt kl len d) p n"
  using assms
  by (auto simp: partitioned_def fields_result_def Let_def range_valid_def tag_binding_valid_def
      tag_offset_def length_offset_def order_tlv_def)

lemma set_source_commute:
  "set_source_length r (set_source_tag r' d) = set_source_tag r' (set_source_length r d)"
  unfolding set_source_tag_def set_source_length_def
  by (rule tlv_decoded_t.equality) (auto intro!: tlv_source_t.equality)

locale composition_reader = tag_reader read_tag + length_reader read_length
  for read_tag read_length +
  fixes f :: tlv_field_composition_t
  assumes f_read_tag: "fc_read_tag f = Some read_tag"
    and f_read_length: "fc_read_length f = Some read_length"
    and f_resolve: "fc_resolve f = None"
begin

lemmas f_readers = f_read_tag f_read_length f_resolve

text \<open>One step of the loop, when the field is recognised.\<close>

lemma fields_identifier_OK:
  assumes "data \<noteq> Null" "0 < k" "k \<le> sz - fs_pos st"
    and "read_tag (ptr_add data (fs_pos st)) (sz - fs_pos st) =
           (TLV_OK, Some (tlv_tag (ptr_add data (fs_pos st)) k), Some k)"
  shows "fields_identifier f data sz st =
    (TLV_OK, st\<lparr>fs_tag := tlv_tag (ptr_add data (fs_pos st)) k, fs_tag_size := k,
       fs_result := set_source_tag (field_range (fs_pos st) k) (fs_result st),
       fs_pos := fs_pos st + k\<rparr>)"
  using assms by (simp add: fields_identifier_def f_readers Let_def)

lemma fields_count_OK:
  assumes "k \<le> sz - fs_pos st" "scoped f \<Longrightarrow> l \<noteq> 0"
    and "read_length (ptr_add data (fs_pos st)) (sz - fs_pos st) = (TLV_OK, Some l, Some k)"
  shows "fields_count f data sz st =
    (TLV_OK, st\<lparr>fs_length := l, fs_length_size := k,
       fs_result := set_source_length (field_range (fs_pos st) k) (fs_result st),
       fs_pos := fs_pos st + k\<rparr>)"
  using assms
  by (simp add: fields_count_def fields_count_finish_def f_readers Let_def scoped_def available_def)

lemma fields_identifier_truncated:
  assumes "fst (read_tag (ptr_add data (fs_pos st)) (sz - fs_pos st)) = TLV_ERR_TRUNCATED"
  shows "fst (fields_identifier f data sz st) = TLV_ERR_TRUNCATED"
  using assms by (auto simp: fields_identifier_def f_readers Let_def split: prod.split)

lemma fields_count_truncated:
  assumes "fst (read_length (ptr_add data (fs_pos st)) (sz - fs_pos st)) = TLV_ERR_TRUNCATED"
  shows "fst (fields_count f data sz st) = TLV_ERR_TRUNCATED"
  using assms
  by (auto simp: fields_count_def fields_count_finish_def f_readers Let_def split: prod.split)

text \<open>Both fields are recognised where the order puts them: the value decides.\<close>

lemma fields_decode_eq:
  assumes nz: "p \<noteq> Null"
    and rt: "read_tag (ptr_add p (tag_offset f kl)) (n - tag_offset f kl) =
           (TLV_OK, Some (tlv_tag (ptr_add p (tag_offset f kl)) kt), Some kt)"
    and rl: "read_length (ptr_add p (length_offset f kt)) (n - length_offset f kt) =
           (TLV_OK, Some l, Some kl)"
    and k: "0 < kt" "kt + kl \<le> n" and sc: "scoped f \<Longrightarrow> kt \<le> l"
    and len: "len = (if scoped f then l - kt else l)"
  shows "kt + kl + len \<le> n \<Longrightarrow>
           tlv_fields_decode f p n d e = (TLV_OK, fields_result f p kt kl len d, e)"
    and "n < kt + kl + len \<Longrightarrow> fst (tlv_fields_decode f p n d e) = TLV_ERR_TRUNCATED"
proof -
  have l0: "scoped f \<Longrightarrow> l \<noteq> 0" using sc k(1) by auto
  let ?st = "\<lparr>fs_tag = tlv_tag (ptr_add p (tag_offset f kl)) kt, fs_length = l, fs_pos = kt + kl,
     fs_tag_size = kt, fs_length_size = kl, fs_trailer = 0,
     fs_result = set_source_tag (field_range (tag_offset f kl) kt)
        (set_source_length (field_range (length_offset f kt) kl) d), fs_error = e\<rparr>"
  have dec: "tlv_fields_decode f p n d e = fields_finish f p n ?st"
  proof (cases "order_tlv f")
    case True
    with rt rl nz k l0 show ?thesis
      by (simp add: tlv_fields_decode_def fields_step_def order_tlv_def tag_offset_def length_offset_def
          fields_identifier_OK [of p kt n] fields_count_OK [where k = kl and l = l] set_source_commute)
  next
    case False
    with rt rl nz k l0 show ?thesis
      by (simp add: tlv_fields_decode_def fields_step_def order_tlv_def tag_offset_def length_offset_def
          fields_identifier_OK [of p kt n] fields_count_OK [where k = kl and l = l]
          add.commute [of kl kt])
  qed
  show "kt + kl + len \<le> n \<Longrightarrow>
      tlv_fields_decode f p n d e = (TLV_OK, fields_result f p kt kl len d, e)"
    using sc k len
    by (auto simp: dec fields_finish_def fields_publish_def fields_result_def Let_def scoped_def
        set_source_tag_def set_source_length_def)
  show "n < kt + kl + len \<Longrightarrow> fst (tlv_fields_decode f p n d e) = TLV_ERR_TRUNCATED"
    using sc k len by (auto simp: dec fields_finish_def Let_def scoped_def)
qed

lemma fields_identifier_inv:
  assumes r: "readable data sz" "fs_pos st \<le> sz" and ok: "fields_identifier f data sz st = (TLV_OK, st')"
  shows "\<exists>k. 0 < k \<and> k \<le> sz - fs_pos st \<and>
    read_tag (ptr_add data (fs_pos st)) (sz - fs_pos st) =
      (TLV_OK, Some (tlv_tag (ptr_add data (fs_pos st)) k), Some k)"
proof -
  have r': "readable (ptr_add data (fs_pos st)) (sz - fs_pos st)"
    using r by (simp add: readable_def)
  obtain ot oc where rd: "read_tag (ptr_add data (fs_pos st)) (sz - fs_pos st) = (TLV_OK, ot, oc)"
    using ok by (auto simp: fields_identifier_def f_readers Let_def split: prod.splits if_splits)
  with read_tag_inv [OF r' rd] show ?thesis by blast
qed

lemma fields_count_inv:
  assumes r: "readable data sz" "fs_pos st \<le> sz" and ok: "fields_count f data sz st = (TLV_OK, st')"
  shows "\<exists>l k. 0 < k \<and> k \<le> sz - fs_pos st \<and> (scoped f \<longrightarrow> l \<noteq> 0) \<and>
    read_length (ptr_add data (fs_pos st)) (sz - fs_pos st) = (TLV_OK, Some l, Some k)"
proof -
  have r': "readable (ptr_add data (fs_pos st)) (sz - fs_pos st)"
    using r by (simp add: readable_def)
  obtain ol oc where rd: "read_length (ptr_add data (fs_pos st)) (sz - fs_pos st) = (TLV_OK, ol, oc)"
    using ok by (auto simp: fields_count_def fields_count_finish_def f_readers Let_def
        split: prod.splits if_splits)
  from read_length_inv [OF r' rd] obtain l k where lk: "0 < k" "k \<le> sz - fs_pos st"
    "l \<le> TLV_SIZE_MAX" "ol = Some l" "oc = Some k" by blast
  have "scoped f \<longrightarrow> l \<noteq> 0"
    using ok rd lk by (auto simp: fields_count_def fields_count_finish_def f_readers Let_def scoped_def
        split: prod.splits if_splits)
  with lk rd show ?thesis by blast
qed

lemma fields_decode_inv:
  assumes r: "readable p n" and ok: "tlv_fields_decode f p n d e = (TLV_OK, r, e')"
  obtains kt kl l len where "p \<noteq> Null" "0 < kt" "0 < kl" "kt + kl + len \<le> n" "scoped f \<Longrightarrow> kt \<le> l"
    "len = (if scoped f then l - kt else l)"
    "read_tag (ptr_add p (tag_offset f kl)) (n - tag_offset f kl) =
       (TLV_OK, Some (tlv_tag (ptr_add p (tag_offset f kl)) kt), Some kt)"
    "read_length (ptr_add p (length_offset f kt)) (n - length_offset f kt) = (TLV_OK, Some l, Some kl)"
    "r = fields_result f p kt kl len d" "e' = e"
proof -
  let ?st = "\<lparr>fs_tag = tlv_tag Null 0, fs_length = 0, fs_pos = 0, fs_tag_size = 0, fs_length_size = 0,
               fs_trailer = 0, fs_result = d, fs_error = e\<rparr>"
  from ok obtain st1 st2 where s1: "fields_step f p n 0 ?st = (TLV_OK, st1)"
    and s2: "fields_step f p n 1 st1 = (TLV_OK, st2)"
    and fin: "fields_finish f p n st2 = (TLV_OK, r, e')"
    by (auto simp: tlv_fields_decode_def Let_def split: prod.splits if_splits)
  have "\<exists>kt kl l. p \<noteq> Null \<and> 0 < kt \<and> 0 < kl \<and> kt + kl \<le> n \<and>
      read_tag (ptr_add p (tag_offset f kl)) (n - tag_offset f kl) =
        (TLV_OK, Some (tlv_tag (ptr_add p (tag_offset f kl)) kt), Some kt) \<and>
      read_length (ptr_add p (length_offset f kt)) (n - length_offset f kt) = (TLV_OK, Some l, Some kl) \<and>
      fs_tag_size st2 = kt \<and> fs_length st2 = l \<and> fs_pos st2 = kt + kl"
  proof (cases "order_tlv f")
    case True
    with s1 s2 have s1: "fields_identifier f p n ?st = (TLV_OK, st1)"
      and s2: "fields_count f p n st1 = (TLV_OK, st2)"
      by (auto simp: fields_step_def order_tlv_def)
    from fields_identifier_inv [OF r _ s1] obtain kt where kt: "0 < kt" "kt \<le> n"
      and rt: "read_tag p n = (TLV_OK, Some (tlv_tag p kt), Some kt)" by auto
    have nz: "p \<noteq> Null" using kt r by auto
    have st1: "st1 = ?st\<lparr>fs_tag := tlv_tag p kt, fs_tag_size := kt,
        fs_result := set_source_tag (field_range 0 kt) d, fs_pos := kt\<rparr>"
      using fields_identifier_OK [OF nz kt(1), of n ?st] s1 kt(2) rt by simp
    from fields_count_inv [OF r _ s2] kt(2) obtain l kl where kl: "0 < kl" "kl \<le> n - kt"
      "scoped f \<longrightarrow> l \<noteq> 0"
      and rl: "read_length (ptr_add p kt) (n - kt) = (TLV_OK, Some l, Some kl)"
      by (auto simp: st1)
    have "fs_tag_size st2 = kt \<and> fs_length st2 = l \<and> fs_pos st2 = kt + kl"
      using fields_count_OK [of kl n st1 l p] s2 kl rl by (auto simp: st1)
    with True kt kl rt rl nz show ?thesis
      by (intro exI [of _ kt] exI [of _ kl] exI [of _ l])
        (simp add: tag_offset_def length_offset_def order_tlv_def)
  next
    case False
    with s1 s2 have s1: "fields_count f p n ?st = (TLV_OK, st1)"
      and s2: "fields_identifier f p n st1 = (TLV_OK, st2)"
      by (auto simp: fields_step_def order_tlv_def)
    from fields_count_inv [OF r _ s1] obtain l kl where kl: "0 < kl" "kl \<le> n" "scoped f \<longrightarrow> l \<noteq> 0"
      and rl: "read_length p n = (TLV_OK, Some l, Some kl)" by auto
    have nz: "p \<noteq> Null" using kl r by auto
    have st1: "st1 = ?st\<lparr>fs_length := l, fs_length_size := kl,
        fs_result := set_source_length (field_range 0 kl) d, fs_pos := kl\<rparr>"
      using fields_count_OK [of kl n ?st l p] s1 kl rl by simp
    from fields_identifier_inv [OF r _ s2] kl(2) obtain kt where kt: "0 < kt" "kt \<le> n - kl"
      and rt: "read_tag (ptr_add p kl) (n - kl) = (TLV_OK, Some (tlv_tag (ptr_add p kl) kt), Some kt)"
      by (auto simp: st1)
    have "fs_tag_size st2 = kt \<and> fs_length st2 = l \<and> fs_pos st2 = kt + kl"
      using fields_identifier_OK [OF nz kt(1), of n st1] s2 kt rt by (auto simp: st1)
    with False kt kl rt rl nz show ?thesis
      by (intro exI [of _ kt] exI [of _ kl] exI [of _ l])
        (auto simp: tag_offset_def length_offset_def order_tlv_def)
  qed
  then obtain kt kl l where K: "p \<noteq> Null" "0 < kt" "0 < kl" "kt + kl \<le> n"
      "read_tag (ptr_add p (tag_offset f kl)) (n - tag_offset f kl) =
        (TLV_OK, Some (tlv_tag (ptr_add p (tag_offset f kl)) kt), Some kt)"
      "read_length (ptr_add p (length_offset f kt)) (n - length_offset f kt) = (TLV_OK, Some l, Some kl)"
    and st2: "fs_tag_size st2 = kt" "fs_length st2 = l" "fs_pos st2 = kt + kl"
    by blast
  have sc: "scoped f \<Longrightarrow> kt \<le> l"
    using fin st2 by (auto simp: fields_finish_def Let_def scoped_def split: if_splits)
  define len where "len = (if scoped f then l - kt else l)"
  have "\<not> n < kt + kl + len"
    using fields_decode_eq(2) [OF K(1,5,6,2,4) sc len_def, of d e] ok by auto
  moreover from this have "r = fields_result f p kt kl len d \<and> e' = e"
    using fields_decode_eq(1) [OF K(1,5,6,2,4) sc len_def, of d e] ok by simp
  ultimately show thesis using that [OF K(1-3) _ sc len_def K(5,6)] by simp
qed

text \<open>A decoded element is recognised by its own octets.\<close>

lemma fields_decode_stable:
  assumes r: "readable p n" and ok: "tlv_fields_decode f p n d e = (TLV_OK, r, e')"
    and m: "readable p m" "src_size (dec_source r) \<le> m"
  shows "tlv_fields_decode f p m d e = (TLV_OK, r, e')"
proof (rule fields_decode_inv [OF r ok])
  fix kt kl l len
  let ?to = "tag_offset f kl" and ?lo = "length_offset f kt"
  assume K: "p \<noteq> Null" "0 < kt" "0 < kl" "kt + kl + len \<le> n" "scoped f \<Longrightarrow> kt \<le> l"
    "len = (if scoped f then l - kt else l)"
    and rt: "read_tag (ptr_add p ?to) (n - ?to) = (TLV_OK, Some (tlv_tag (ptr_add p ?to) kt), Some kt)"
    and rl: "read_length (ptr_add p ?lo) (n - ?lo) = (TLV_OK, Some l, Some kl)"
    and res: "r = fields_result f p kt kl len d" "e' = e"
  have off: "?to + kt \<le> kt + kl" "?lo + kl \<le> kt + kl"
    by (auto simp: tag_offset_def length_offset_def)
  have mm: "kt + kl + len \<le> m" using m(2) res by (simp add: fields_result_def)
  have rd: "readable (ptr_add p o') (k - o')" if "readable p k" "o' \<le> k" for o' k
    using that by (simp add: readable_def)
  from read_tag_inv [OF rd [OF r] rt] off K(4)
  have "\<forall>j. readable (ptr_add p ?to) j \<longrightarrow> kt \<le> j \<longrightarrow>
      read_tag (ptr_add p ?to) j = (TLV_OK, Some (tlv_tag (ptr_add p ?to) kt), Some kt)" by auto
  then have rt': "read_tag (ptr_add p ?to) (m - ?to) =
      (TLV_OK, Some (tlv_tag (ptr_add p ?to) kt), Some kt)"
    using rd [OF m(1), of ?to] off mm by simp
  from read_length_inv [OF rd [OF r] rl] off K(4)
  have "\<forall>j. readable (ptr_add p ?lo) j \<longrightarrow> kl \<le> j \<longrightarrow>
      read_length (ptr_add p ?lo) j = (TLV_OK, Some l, Some kl)" by auto
  then have rl': "read_length (ptr_add p ?lo) (m - ?lo) = (TLV_OK, Some l, Some kl)"
    using rd [OF m(1), of ?lo] off mm by simp
  show ?thesis
    unfolding res using mm by (intro fields_decode_eq(1) [OF K(1) rt' rl' K(2) _ K(5,6)]) auto
qed

lemma fields_decode_short:
  assumes r: "readable p n" and ok: "tlv_fields_decode f p n d e = (TLV_OK, r, e')"
    and m: "m < src_size (dec_source r)"
  shows "fst (tlv_fields_decode f p m d e) = TLV_ERR_TRUNCATED"
proof (rule fields_decode_inv [OF r ok])
  fix kt kl l len
  let ?to = "tag_offset f kl" and ?lo = "length_offset f kt"
  let ?st = "\<lparr>fs_tag = tlv_tag Null 0, fs_length = 0, fs_pos = 0, fs_tag_size = 0, fs_length_size = 0,
               fs_trailer = 0, fs_result = d, fs_error = e\<rparr>"
  assume K: "p \<noteq> Null" "0 < kt" "0 < kl" "kt + kl + len \<le> n" "scoped f \<Longrightarrow> kt \<le> l"
    "len = (if scoped f then l - kt else l)"
    and rt: "read_tag (ptr_add p ?to) (n - ?to) = (TLV_OK, Some (tlv_tag (ptr_add p ?to) kt), Some kt)"
    and rl: "read_length (ptr_add p ?lo) (n - ?lo) = (TLV_OK, Some l, Some kl)"
    and res: "r = fields_result f p kt kl len d" "e' = e"
  have off: "?to + kt \<le> kt + kl" "?lo + kl \<le> kt + kl"
    by (auto simp: tag_offset_def length_offset_def)
  have mm: "m < kt + kl + len" using m res by (simp add: fields_result_def)
  have rd: "readable (ptr_add p o') j" if "j + o' \<le> n" for o' j
    using that r by (simp add: readable_def)
  from read_tag_inv [OF rd rt] off K(4)
  have T: "\<And>j. j + ?to \<le> n \<Longrightarrow> kt \<le> j \<Longrightarrow>
      read_tag (ptr_add p ?to) j = (TLV_OK, Some (tlv_tag (ptr_add p ?to) kt), Some kt)"
    and T': "\<And>j. j < kt \<Longrightarrow> fst (read_tag (ptr_add p ?to) j) = TLV_ERR_TRUNCATED"
    using rd by auto
  from read_length_inv [OF rd rl] off K(4)
  have L: "\<And>j. j + ?lo \<le> n \<Longrightarrow> kl \<le> j \<Longrightarrow> read_length (ptr_add p ?lo) j = (TLV_OK, Some l, Some kl)"
    and L': "\<And>j. j < kl \<Longrightarrow> fst (read_length (ptr_add p ?lo) j) = TLV_ERR_TRUNCATED"
    using rd by auto
  have step: "fst (fields_step f p m 0 st) = TLV_ERR_TRUNCATED \<Longrightarrow> st = ?st \<Longrightarrow> ?thesis" for st
    by (auto simp: tlv_fields_decode_def Let_def split: prod.splits)
  have step1: "fields_step f p m 0 ?st = (TLV_OK, st) \<Longrightarrow>
      fst (fields_step f p m 1 st) = TLV_ERR_TRUNCATED \<Longrightarrow> ?thesis" for st
    by (auto simp: tlv_fields_decode_def Let_def split: prod.splits)
  consider "kt + kl \<le> m" | "order_tlv f" "m < kt" | "\<not> order_tlv f" "m < kl"
    | "order_tlv f" "kt \<le> m" "m < kt + kl" | "\<not> order_tlv f" "kl \<le> m" "m < kt + kl" by linarith
  then show ?thesis
  proof cases
    case 1
    have rt': "read_tag (ptr_add p ?to) (m - ?to) = (TLV_OK, Some (tlv_tag (ptr_add p ?to) kt), Some kt)"
      using T [of "m - ?to"] off 1 mm K(4) by simp
    have rl': "read_length (ptr_add p ?lo) (m - ?lo) = (TLV_OK, Some l, Some kl)"
      using L [of "m - ?lo"] off 1 mm K(4) by simp
    show ?thesis
      by (rule fields_decode_eq(2) [OF K(1) rt' rl' K(2) 1 K(5,6) mm])
  next
    case 2
    then show ?thesis
      using T' [of m]
      by (intro step [OF _ refl])
        (auto simp: fields_step_def order_tlv_def tag_offset_def intro!: fields_identifier_truncated)
  next
    case 3
    then show ?thesis
      using L' [of m]
      by (intro step [OF _ refl])
        (auto simp: fields_step_def order_tlv_def length_offset_def intro!: fields_count_truncated)
  next
    case 4
    with T [of m] mm K(4) have s: "fields_step f p m 0 ?st = (TLV_OK, ?st\<lparr>fs_tag := tlv_tag p kt,
        fs_tag_size := kt, fs_result := set_source_tag (field_range 0 kt) d, fs_pos := kt\<rparr>)"
      using fields_identifier_OK [OF K(1,2), of m ?st]
      by (simp add: fields_step_def order_tlv_def tag_offset_def)
    from 4 L' [of "m - kt"] show ?thesis
      by (intro step1 [OF s])
        (auto simp: fields_step_def order_tlv_def length_offset_def intro!: fields_count_truncated)
  next
    case 5
    with L [of m] mm K have s: "fields_step f p m 0 ?st = (TLV_OK, ?st\<lparr>fs_length := l,
        fs_length_size := kl, fs_result := set_source_length (field_range 0 kl) d, fs_pos := kl\<rparr>)"
      using fields_count_OK [of kl m ?st l p]
      by (force simp: fields_step_def order_tlv_def length_offset_def)
    from 5 T' [of "m - kl"] show ?thesis
      by (intro step1 [OF s])
        (auto simp: fields_step_def order_tlv_def tag_offset_def intro!: fields_identifier_truncated)
  qed
qed

end

section \<open>The encoder\<close>

text \<open>The count on the wire, and the octets of an element.\<close>

definition wire_count :: "tlv_field_composition_t \<Rightarrow> tlv_element_t \<Rightarrow> nat" where
  "wire_count f el = val_size (elem_value el) + (if scoped f then tag_size (elem_tag el) else 0)"

definition fields_wire ::
  "tlv_field_composition_t \<Rightarrow> (nat \<Rightarrow> u8 list) \<Rightarrow> tlv_element_t \<Rightarrow> u8 list" where
  "fields_wire f len_enc el =
     (if order_tlv f then tag_bytes (elem_tag el) @ len_enc (wire_count f el)
      else len_enc (wire_count f el) @ tag_bytes (elem_tag el)) @ value_bytes (elem_value el)"

lemma obuf_put_blit:
  "off + length xs \<le> length buf \<Longrightarrow>
   obuf_put off (Some buf) (Some (blit 0 xs (drop off buf))) = Some (blit off xs buf)"
  by (simp add: blit_def add.commute)

lemma blit_blit:
  "off + length xs + length ys \<le> length buf \<Longrightarrow>
   blit (off + length xs) ys (blit off xs buf) = blit off (xs @ ys) buf"
  "off + length xs + length ys \<le> length buf \<Longrightarrow>
   blit off xs (blit (off + length xs) ys buf) = blit off (xs @ ys) buf"
  by (cases xs; auto simp: blit_def min_def add.commute add.left_commute)+

locale composition_codec =
  composition_reader read_tag read_length f + tag_codec read_tag write_tag +
  length_codec read_length write_length len_enc
  for read_tag read_length f write_tag write_length len_enc +
  assumes f_write_tag: "fc_write_tag f = Some write_tag"
    and f_write_length: "fc_write_length f = Some write_length"
begin

lemmas f_writers = f_write_tag f_write_length

text \<open>The elements the encoder accepts.\<close>

lemma field_sizes_inv:
  assumes wf: "element_wf el" and ok: "field_sizes f el e = (TLV_OK, t, l, c, e')"
  shows "fst (write_tag (elem_tag el) None 0) = TLV_OK" "wire_count f el \<le> TLV_SIZE_MAX"
    "fst (write_length (wire_count f el) None 0) = TLV_OK" "0 < tag_size (elem_tag el)"
    "t = tag_size (elem_tag el)" "l = length (len_enc (wire_count f el))" "c = wire_count f el" "e' = e"
proof -
  have twf: "tag_wf (elem_tag el)" and v: "val_size (elem_value el) \<le> TLV_SIZE_MAX"
    using wf by (auto simp: element_wf_def value_wf_def SIZE_MAX_def TLV_SIZE_MAX_def)
  show t: "fst (write_tag (elem_tag el) None 0) = TLV_OK"
    using ok by (auto simp: field_sizes_def f_writers Let_def split: prod.splits if_splits)
  note q = write_tag_query [OF twf t]
  have c: "wire_count f el \<le> TLV_SIZE_MAX \<and> c = wire_count f el"
    using ok q v
    by (auto simp: field_sizes_def f_writers Let_def wire_count_def scoped_def tlv_size_add_iff
        split: prod.splits if_splits)
  then show "wire_count f el \<le> TLV_SIZE_MAX" "c = wire_count f el" by auto
  show l: "fst (write_length (wire_count f el) None 0) = TLV_OK"
    using ok q v c
    by (auto simp: field_sizes_def f_writers Let_def wire_count_def scoped_def tlv_size_add_iff
        split: prod.splits if_splits)
  show "0 < tag_size (elem_tag el)" using q by simp
  have wl: "write_length (wire_count f el) None 0 = (TLV_OK, None, Some (length (len_enc (wire_count f el))))"
    using write_length_query [OF _ l] c by simp
  from ok q v c wl show "t = tag_size (elem_tag el)" "l = length (len_enc (wire_count f el))" "e' = e"
    by (auto simp: field_sizes_def f_writers Let_def wire_count_def scoped_def tlv_size_add_iff
        split: prod.splits if_splits)
qed

lemma length_fields_wire:
  "element_wf el \<Longrightarrow> length (fields_wire f len_enc el) =
     tag_size (elem_tag el) + length (len_enc (wire_count f el)) + val_size (elem_value el)"
  by (auto simp: fields_wire_def element_wf_def)

lemma fields_measure_inv:
  assumes wf: "element_wf el" and ok: "tlv_fields_measure f el en e = (TLV_OK, en', e')"
  shows "field_sizes f el e = (TLV_OK, tag_size (elem_tag el), length (len_enc (wire_count f el)),
           wire_count f el, e)"
    and "en' = \<lparr>en_header = tag_size (elem_tag el) + length (len_enc (wire_count f el)),
                 en_value = val_size (elem_value el), en_trailer = 0,
                 en_total = length (fields_wire f len_enc el)\<rparr>"
    and "length (fields_wire f len_enc el) \<le> TLV_SIZE_MAX" "e' = e"
proof -
  obtain t l c e1 where fs: "field_sizes f el e = (TLV_OK, t, l, c, e1)"
    using ok by (auto simp: tlv_fields_measure_def split: prod.splits if_splits)
  note F = field_sizes_inv [OF wf fs]
  show fs': "field_sizes f el e = (TLV_OK, tag_size (elem_tag el), length (len_enc (wire_count f el)),
      wire_count f el, e)" using fs F by simp
  have "tag_size (elem_tag el) \<le> TLV_SIZE_MAX"
    using wf by (simp add: element_wf_def SIZE_MAX_def TLV_SIZE_MAX_def)
  with ok show "en' = \<lparr>en_header = tag_size (elem_tag el) + length (len_enc (wire_count f el)),
                 en_value = val_size (elem_value el), en_trailer = 0,
                 en_total = length (fields_wire f len_enc el)\<rparr>"
    "length (fields_wire f len_enc el) \<le> TLV_SIZE_MAX" "e' = e"
    by (auto simp: tlv_fields_measure_def fs' tlv_size_add_iff Let_def length_fields_wire [OF wf]
        split: if_splits)
qed

lemma fields_encode_eq:
  assumes wf: "element_wf el"
    and fs: "field_sizes f el e = (TLV_OK, tag_size (elem_tag el), length (len_enc (wire_count f el)),
           wire_count f el, e)"
    and cap: "length (fields_wire f len_enc el) \<le> cap" "cap \<le> length buf"
  shows "tlv_fields_encode f el (Some buf) cap w e =
    (TLV_OK, Some (blit 0 (fields_wire f len_enc el) buf), length (fields_wire f len_enc el), e)"
proof -
  note F = field_sizes_inv [OF wf fs]
  let ?t = "tag_size (elem_tag el)" and ?tb = "tag_bytes (elem_tag el)"
  let ?lb = "len_enc (wire_count f el)" and ?vb = "value_bytes (elem_value el)"
  let ?v = "val_size (elem_value el)"
  have twf: "tag_wf (elem_tag el)" and vwf: "value_wf (elem_value el)" using wf by (auto simp: element_wf_def)
  have len: "length ?tb = ?t" "length ?vb = ?v" using twf vwf by auto
  have v: "?v \<le> SIZE_MAX" using vwf by (simp add: value_wf_def)
  have sum: "?t + length ?lb + ?v \<le> cap" using cap(1) by (simp add: length_fields_wire [OF wf])
  have wt: "write_tag (elem_tag el) (Some b) ?t = (TLV_OK, Some (blit 0 ?tb b), Some ?t)"
    if "?t \<le> length b" for b
    using write_tag_buffer [OF twf F(1) _ that] by simp
  have wl: "write_length (wire_count f el) (Some b) (length ?lb) =
      (TLV_OK, Some (blit 0 ?lb b), Some (length ?lb))" if "length ?lb \<le> length b" for b
    using write_length_buffer [OF F(2,3) _ that] by simp
  have vb: "?v \<noteq> 0 \<Longrightarrow> take ?v (bytes (val_data (elem_value el))) = ?vb"
    by (simp add: value_bytes_def)
  have v0: "?v = 0 \<Longrightarrow> ?vb = []" by (simp add: value_bytes_def)
  show ?thesis
  proof (cases "order_tlv f")
    case True
    have "blit (?t + length ?lb) ?vb (blit ?t ?lb (blit 0 ?tb buf)) = blit 0 (?tb @ ?lb @ ?vb) buf"
      using blit_blit(1) [of 0 ?tb ?lb buf] blit_blit(1) [of 0 "?tb @ ?lb" ?vb buf] len sum cap by simp
    with True show ?thesis
      using sum cap len v v0
      by (auto simp: tlv_fields_encode_def fs order_tlv_def length_offset_def f_writers wt wl Let_def
          obuf_put_blit [simplified] vb fields_wire_def)
  next
    case False
    have "blit (?t + length ?lb) ?vb (blit 0 ?lb (blit (length ?lb) ?tb buf)) = blit 0 (?lb @ ?tb @ ?vb) buf"
      using blit_blit(2) [of 0 ?lb ?tb buf] blit_blit(1) [of 0 "?lb @ ?tb" ?vb buf] len sum cap
      by (simp add: add.commute)
    with False show ?thesis
      using sum cap len v v0
      by (auto simp: tlv_fields_encode_def fs order_tlv_def length_offset_def f_writers wt wl Let_def
          obuf_put_blit [simplified] vb fields_wire_def)
  qed
qed

lemma fields_decode_wire:
  assumes wf: "element_wf el"
    and fs: "field_sizes f el e = (TLV_OK, tag_size (elem_tag el), length (len_enc (wire_count f el)),
           wire_count f el, e)"
    and n: "length (fields_wire f len_enc el) \<le> n" "readable q n"
    and w: "take (length (fields_wire f len_enc el)) (bytes q) = fields_wire f len_enc el"
  shows "\<exists>r. tlv_fields_decode f q n d e0 = (TLV_OK, r, e0) \<and>
      src_size (dec_source r) = length (fields_wire f len_enc el) \<and> same_content (dec_element r) el"
proof -
  note F = field_sizes_inv [OF wf fs]
  let ?t = "tag_size (elem_tag el)" and ?tb = "tag_bytes (elem_tag el)"
  let ?lb = "len_enc (wire_count f el)" and ?vb = "value_bytes (elem_value el)"
  let ?v = "val_size (elem_value el)"
  let ?to = "tag_offset f (length ?lb)" and ?lo = "length_offset f ?t"
  have twf: "tag_wf (elem_tag el)" and vwf: "value_wf (elem_value el)" using wf by (auto simp: element_wf_def)
  have len: "length ?tb = ?t" "length ?vb = ?v" using twf vwf by auto
  have sum: "?t + length ?lb + ?v \<le> n" using n(1) by (simp add: length_fields_wire [OF wf])
  obtain rest where q: "bytes q = fields_wire f len_enc el @ rest"
    using w by (metis append_take_drop_id)
  have nz: "q \<noteq> Null" using F(4) sum n(2) by auto
  have rd: "readable (ptr_add q ?to) (n - ?to)" "readable (ptr_add q ?lo) (n - ?lo)"
    using n(2) by (auto simp: readable_def tag_offset_def length_offset_def)
  have tb: "take ?t (bytes (ptr_add q ?to)) = ?tb" and lb: "take (length ?lb) (bytes (ptr_add q ?lo)) = ?lb"
    using len by (auto simp: q fields_wire_def tag_offset_def length_offset_def order_tlv_def)
  have bt: "?t \<le> n - ?to" "length ?lb \<le> n - ?lo"
    using sum by (auto simp: tag_offset_def length_offset_def)
  have rt: "read_tag (ptr_add q ?to) (n - ?to) = (TLV_OK, Some (tlv_tag (ptr_add q ?to) ?t), Some ?t)"
    by (rule read_written_tag [OF twf F(1) bt(1) rd(1) tb])
  have rl: "read_length (ptr_add q ?lo) (n - ?lo) = (TLV_OK, Some (wire_count f el), Some (length ?lb))"
    by (rule read_written_length [OF F(2,3) bt(2) rd(2) lb])
  have "tlv_fields_decode f q n d e0 = (TLV_OK, fields_result f q ?t (length ?lb) ?v d, e0)"
    using sum by (intro fields_decode_eq(1) [OF nz rt rl F(4)]) (auto simp: wire_count_def)
  moreover have "same_content (dec_element (fields_result f q ?t (length ?lb) ?v d)) el"
    using tb len by (auto simp: same_content_def fields_result_def tag_bytes_def [of "tlv_tag _ _"]
        value_bytes_def q fields_wire_def)
  ultimately show ?thesis
    by (simp add: fields_result_def length_fields_wire [OF wf])
qed

end

section \<open>A composition is a format\<close>

lemma decoded0_binding [simp]: "src_tag_binding (dec_source decoded0) = TLV_TAG_BINDING_SOURCE"
  by (simp add: decoded0_def source0_def)

sublocale composition_reader \<subseteq> prefix_decoder "tlv_fields_decode f"
proof unfold_locales
  fix p n r e
  assume r: "readable p n" "0 < n" "tlv_fields_decode f p n decoded0 error0 = (TLV_OK, r, e)"
  show "partitioned r p n"
    by (rule fields_decode_inv [OF r(1,3)]) (simp add: partitioned_fields_result)
  show "tlv_fields_decode f p m decoded0 error0 = (TLV_OK, r, e)"
    if "readable p m" "src_size (dec_source r) \<le> m" for m
    by (rule fields_decode_stable [OF r(1,3) that])
  show "fst (tlv_fields_decode f p m decoded0 error0) = TLV_ERR_TRUNCATED"
    if "m < src_size (dec_source r)" for m
    by (rule fields_decode_short [OF r(1,3) that])
qed

sublocale composition_codec \<subseteq> format_codec "tlv_fields_decode f" "tlv_fields_measure f" "tlv_fields_encode f"
  "fields_wire f len_enc"
proof unfold_locales
  fix el en e
  assume el: "element_wf el" "tlv_fields_measure f el encoding0 error0 = (TLV_OK, en, e)"
  note M = fields_measure_inv [OF el]
  have "0 < tag_size (elem_tag el)" by (rule field_sizes_inv(4) [OF el(1) M(1)])
  with M length_fields_wire [OF el(1)] show "en_value en = val_size (elem_value el) \<and>
      en_total en = en_header en + en_value en + en_trailer en \<and> 0 < en_total en \<and>
      en_total en \<le> TLV_SIZE_MAX \<and> length (fields_wire f len_enc el) = en_total en"
    by simp
next
  fix el assume el: "element_wf el" "fst (tlv_fields_measure f el encoding0 error0) = TLV_OK"
  obtain en e where m: "tlv_fields_measure f el encoding0 error0 = (TLV_OK, en, e)"
    using el(2) by (metis prod.exhaust_sel)
  note fs = fields_measure_inv(1) [OF el(1) m]
  show "tlv_fields_encode f el (Some buf) cap 0 error0 =
      (TLV_OK, Some (blit 0 (fields_wire f len_enc el) buf), length (fields_wire f len_enc el), error0)"
    if "length (fields_wire f len_enc el) \<le> cap" "cap \<le> length buf" for cap buf
    by (rule fields_encode_eq [OF el(1) fs that])
  show "\<exists>r e. tlv_fields_decode f q n decoded0 error0 = (TLV_OK, r, e) \<and>
      src_size (dec_source r) = length (fields_wire f len_enc el) \<and> same_content (dec_element r) el"
    if "length (fields_wire f len_enc el) \<le> n" "readable q n"
      "take (length (fields_wire f len_enc el)) (bytes q) = fields_wire f len_enc el" for n q
    using fields_decode_wire [OF el(1) fs that] by blast
qed

section \<open>Fixed binary fields are a format\<close>

interpretation binary: composition_codec "binary_tag_read c" "binary_length_read c" "binary_fields c"
  "binary_tag_write c" "binary_length_write c" "fixed_len_enc (bc_length c)" for c
proof -
  have eqs: "binary_tag_read c = (\<lambda>p n. tlv_fixed_identifier_read (Some (bc_identifier c)) p n True)"
    "binary_length_read c = (\<lambda>p n. tlv_fixed_length_read (Some (bc_length c)) p n True)"
    "binary_tag_write c = (\<lambda>t d cap. tlv_fixed_identifier_write (Some (bc_identifier c)) (Some t) d cap True)"
    "binary_length_write c = (\<lambda>l d cap. tlv_fixed_length_write (Some (bc_length c)) l d cap True)"
    by (auto simp: fun_eq_iff binary_tag_read_def binary_length_read_def binary_tag_write_def
        binary_length_write_def)
  show "composition_codec (binary_tag_read c) (binary_length_read c) (binary_fields c)
      (binary_tag_write c) (binary_length_write c) (fixed_len_enc (bc_length c))"
    unfolding eqs
    by (intro composition_codec.intro composition_reader.intro composition_reader_axioms.intro
        composition_codec_axioms.intro fixed_id.tag_codec_axioms fixed_id.tag_reader_axioms
        fixed_len.length_codec_axioms fixed_len.length_reader_axioms)
      (simp_all add: binary_fields_def eqs)
qed

end
