(* ===== verification/TLV_Formats.thy ===== *)
theory TLV_Formats
  imports TLV_Compose_Laws TLV_Field_Variable
begin

unbundle bit_operations_syntax

text \<open>
  The configurable formats built from compositions: fixed (\<^verbatim>\<open>formats/fixed.c\<close>), escaped
  (\<^verbatim>\<open>formats/escaped.c\<close>), variable (\<^verbatim>\<open>formats/variable.c\<close>) and the tag-only compositions of
  \<^verbatim>\<open>formats/compose.c\<close>.  Each satisfies the format contract for every configuration its
  initialiser accepts.
\<close>

section \<open>Definitions\<close>

definition tlv_fixed_format_init ::
  "bool \<Rightarrow> tlv_binary_composition_t option \<Rightarrow> tlv_result_t \<times> tlv_format_t option" where
  "tlv_fixed_format_init format_ok config =
     (case config of None \<Rightarrow> (TLV_ERR_NULL_ARG, None)
      | Some c \<Rightarrow>
          if \<not> format_ok then (TLV_ERR_NULL_ARG, None)
          else let rc = fixed_identifier_validate (bc_identifier c) in
            if rc \<noteq> TLV_OK then (rc, None)
            else let rc = fixed_length_validate (bc_length c) in
              if rc \<noteq> TLV_OK then (rc, None)
              else if (bc_element_order c \<noteq> TLV_ELEMENT_ORDER_TLV \<and>
                       bc_element_order c \<noteq> TLV_ELEMENT_ORDER_LTV) \<or>
                      (bc_length_scope c \<noteq> TLV_LENGTH_SCOPE_VALUE \<and>
                       bc_length_scope c \<noteq> TLV_LENGTH_SCOPE_TAG_AND_VALUE)
              then (TLV_ERR_INVALID_ARG, None)
              else tlv_format_init format_ok (Some (tlv_binary_decode c)) (Some (tlv_binary_measure c))
                     (Some (tlv_binary_encode c)))"

record tlv_escaped_format_t =
  ef_identifier :: tlv_fixed_identifier_t
  ef_length :: tlv_escaped_length_t
  ef_element_order :: tlv_element_order_t
  ef_length_scope :: tlv_length_scope_t
  ef_tag_only :: "tlv_tag_t list option"
  ef_count :: nat

definition escaped_read_tag :: "tlv_escaped_format_t \<Rightarrow> tlv_read_tag_fn" where
  "escaped_read_tag f data sz = tlv_fixed_identifier_read (Some (ef_identifier f)) data sz True"

definition escaped_write_tag :: "tlv_escaped_format_t \<Rightarrow> tlv_write_tag_fn" where
  "escaped_write_tag f tag data capacity =
     tlv_fixed_identifier_write (Some (ef_identifier f)) (Some tag) data capacity True"

definition escaped_read_length :: "tlv_escaped_format_t \<Rightarrow> tlv_read_length_fn" where
  "escaped_read_length f data sz = tlv_escaped_length_read (Some (ef_length f)) data sz True"

definition escaped_write_length :: "tlv_escaped_format_t \<Rightarrow> tlv_write_length_fn" where
  "escaped_write_length f len data capacity =
     tlv_escaped_length_write (Some (ef_length f)) len data capacity True"

definition escaped_fields :: "tlv_escaped_format_t \<Rightarrow> tlv_tagged_fields_composition_t" where
  "escaped_fields f =
     \<lparr>tf_fields = \<lparr>fc_read_tag = Some (escaped_read_tag f), fc_read_length = Some (escaped_read_length f),
        fc_resolve = None, fc_write_tag = Some (escaped_write_tag f),
        fc_write_length = Some (escaped_write_length f), fc_element_order = ef_element_order f,
        fc_length_scope = ef_length_scope f\<rparr>,
      tf_tag_only = ef_tag_only f, tf_count = ef_count f\<rparr>"

definition tlv_escaped_decode :: "tlv_escaped_format_t \<Rightarrow> tlv_decode_fn" where
  "tlv_escaped_decode f data sz result error =
     (if ef_count f \<noteq> 0 then tlv_tagged_fields_decode (escaped_fields f) data sz result error
      else tlv_fields_decode (tf_fields (escaped_fields f)) data sz result error)"

definition tlv_escaped_measure :: "tlv_escaped_format_t \<Rightarrow> tlv_measure_fn" where
  "tlv_escaped_measure f element encoding error =
     (if ef_count f \<noteq> 0 then tlv_tagged_fields_measure (escaped_fields f) element encoding error
      else tlv_fields_measure (tf_fields (escaped_fields f)) element encoding error)"

definition tlv_escaped_encode :: "tlv_escaped_format_t \<Rightarrow> tlv_encode_fn" where
  "tlv_escaped_encode f element data capacity written error =
     (if ef_count f \<noteq> 0 then tlv_tagged_fields_encode (escaped_fields f) element data capacity written error
      else tlv_fields_encode (tf_fields (escaped_fields f)) element data capacity written error)"

definition tlv_escaped_format_init ::
  "bool \<Rightarrow> tlv_escaped_format_t option \<Rightarrow> tlv_result_t \<times> tlv_format_t option" where
  "tlv_escaped_format_init format_ok config =
     (case config of None \<Rightarrow> (TLV_ERR_NULL_ARG, None)
      | Some f \<Rightarrow>
          if \<not> format_ok then (TLV_ERR_NULL_ARG, None)
          else let rc = fixed_identifier_validate (ef_identifier f) in
            if rc \<noteq> TLV_OK then (rc, None)
            else let rc = validate_length (ef_length f) in
              if rc \<noteq> TLV_OK then (rc, None)
              else if (ef_element_order f \<noteq> TLV_ELEMENT_ORDER_TLV \<and>
                       ef_element_order f \<noteq> TLV_ELEMENT_ORDER_LTV) \<or>
                      (ef_length_scope f \<noteq> TLV_LENGTH_SCOPE_VALUE \<and>
                       ef_length_scope f \<noteq> TLV_LENGTH_SCOPE_TAG_AND_VALUE) \<or>
                      (ef_count f \<noteq> 0 \<and>
                       (ef_tag_only f = None \<or> ef_element_order f \<noteq> TLV_ELEMENT_ORDER_TLV \<or>
                        ef_length_scope f \<noteq> TLV_LENGTH_SCOPE_VALUE))
              then (TLV_ERR_INVALID_ARG, None)
              else if list_ex (\<lambda>t. tag_data t = Null \<or> tag_size t \<noteq> fid_size (ef_identifier f))
                        (take (ef_count f) (out (ef_tag_only f) []))
              then (TLV_ERR_INVALID_ARG, None)
              else tlv_format_init format_ok (Some (tlv_escaped_decode f)) (Some (tlv_escaped_measure f))
                     (Some (tlv_escaped_encode f)))"

record tlv_variable_format_t =
  vf_identifier :: tlv_variable_identifier_t
  vf_length :: tlv_variable_length_t
  vf_element_order :: tlv_element_order_t
  vf_length_scope :: tlv_length_scope_t
  vf_constructed :: "tlv_constructed_bit_t option"

definition variable_read_tag :: "tlv_variable_format_t \<Rightarrow> tlv_read_tag_fn" where
  "variable_read_tag c data sz = tlv_variable_identifier_read (Some (vf_identifier c)) data sz True"

definition variable_write_tag :: "tlv_variable_format_t \<Rightarrow> tlv_write_tag_fn" where
  "variable_write_tag c tag data capacity =
     tlv_variable_identifier_write (Some (vf_identifier c)) (Some tag) data capacity True"

definition variable_read_length :: "tlv_variable_format_t \<Rightarrow> tlv_read_length_fn" where
  "variable_read_length c data sz = tlv_variable_length_read (Some (vf_length c)) data sz True"

definition variable_write_length :: "tlv_variable_format_t \<Rightarrow> tlv_write_length_fn" where
  "variable_write_length c len data capacity =
     tlv_variable_length_write (Some (vf_length c)) len data capacity True"

definition variable_fields :: "tlv_variable_format_t \<Rightarrow> tlv_field_composition_t" where
  "variable_fields config =
     \<lparr>fc_read_tag = Some (variable_read_tag config), fc_read_length = Some (variable_read_length config),
      fc_resolve = None, fc_write_tag = Some (variable_write_tag config),
      fc_write_length = Some (variable_write_length config),
      fc_element_order = vf_element_order config, fc_length_scope = vf_length_scope config\<rparr>"

definition tlv_variable_fields_init ::
  "bool \<Rightarrow> tlv_variable_format_t option \<Rightarrow> tlv_result_t \<times> tlv_field_composition_t option" where
  "tlv_variable_fields_init fields_ok config =
     (case config of None \<Rightarrow> (TLV_ERR_NULL_ARG, None)
      | Some c \<Rightarrow>
          if \<not> fields_ok then (TLV_ERR_NULL_ARG, None)
          else let rc = identifier_validate (vf_identifier c) in
            if rc \<noteq> TLV_OK then (rc, None)
            else let rc = length_validate (vf_length c) in
              if rc \<noteq> TLV_OK then (rc, None)
              else if (vf_element_order c \<noteq> TLV_ELEMENT_ORDER_TLV \<and>
                       vf_element_order c \<noteq> TLV_ELEMENT_ORDER_LTV) \<or>
                      (vf_length_scope c \<noteq> TLV_LENGTH_SCOPE_VALUE \<and>
                       vf_length_scope c \<noteq> TLV_LENGTH_SCOPE_TAG_AND_VALUE)
              then (TLV_ERR_INVALID_ARG, None)
              else if (case vf_constructed c of None \<Rightarrow> False
                       | Some b \<Rightarrow> cb_mask b = 0 \<or> cb_value b AND NOT (cb_mask b) \<noteq> 0)
              then (TLV_ERR_INVALID_ARG, None)
              else (TLV_OK, Some (variable_fields c)))"

definition tlv_variable_decode :: "tlv_variable_format_t \<Rightarrow> tlv_decode_fn" where
  "tlv_variable_decode c = tlv_fields_decode (variable_fields c)"

definition tlv_variable_measure :: "tlv_variable_format_t \<Rightarrow> tlv_measure_fn" where
  "tlv_variable_measure c = tlv_fields_measure (variable_fields c)"

definition tlv_variable_encode :: "tlv_variable_format_t \<Rightarrow> tlv_encode_fn" where
  "tlv_variable_encode c = tlv_fields_encode (variable_fields c)"

definition tlv_variable_is_constructed :: "tlv_variable_format_t option \<Rightarrow> tlv_tag_t option \<Rightarrow> bool" where
  "tlv_variable_is_constructed config tag =
     (case config of None \<Rightarrow> False
      | Some c \<Rightarrow> tlv_constructed_bit_predicate (vf_constructed c) tag)"

definition tlv_variable_format_init ::
  "bool \<Rightarrow> tlv_variable_format_t option \<Rightarrow> tlv_result_t \<times> tlv_format_t option" where
  "tlv_variable_format_init format_ok config =
     (if \<not> format_ok then (TLV_ERR_NULL_ARG, None)
      else case tlv_variable_fields_init True config of
        (rc, _) \<Rightarrow>
          if rc \<noteq> TLV_OK then (rc, None)
          else let c = the config in
            case tlv_format_init format_ok (Some (tlv_variable_decode c)) (Some (tlv_variable_measure c))
                   (Some (tlv_variable_encode c)) of
              (rc, fmt) \<Rightarrow>
                (rc, if rc = TLV_OK \<and> vf_constructed c \<noteq> None
                     then map_option (\<lambda>f. f\<lparr>fmt_is_constructed :=
                            Some (\<lambda>t. tlv_variable_is_constructed (Some c) (Some t))\<rparr>) fmt
                     else fmt))"

section \<open>Variable fields are a format\<close>

interpretation variable: composition_codec "variable_read_tag c" "variable_read_length c"
  "variable_fields c" "variable_write_tag c" "variable_write_length c"
  "variable_len_enc (vf_length c)" for c
proof -
  have eqs: "variable_read_tag c = (\<lambda>p n. tlv_variable_identifier_read (Some (vf_identifier c)) p n True)"
    "variable_read_length c = (\<lambda>p n. tlv_variable_length_read (Some (vf_length c)) p n True)"
    "variable_write_tag c =
      (\<lambda>t d cap. tlv_variable_identifier_write (Some (vf_identifier c)) (Some t) d cap True)"
    "variable_write_length c = (\<lambda>l d cap. tlv_variable_length_write (Some (vf_length c)) l d cap True)"
    by (auto simp: fun_eq_iff variable_read_tag_def variable_read_length_def variable_write_tag_def
        variable_write_length_def)
  show "composition_codec (variable_read_tag c) (variable_read_length c) (variable_fields c)
      (variable_write_tag c) (variable_write_length c) (variable_len_enc (vf_length c))"
    unfolding eqs
    by (intro composition_codec.intro composition_reader.intro composition_reader_axioms.intro
        composition_codec_axioms.intro variable_id.tag_codec_axioms variable_id.tag_reader_axioms
        variable_len.length_codec_axioms variable_len.length_reader_axioms)
      (simp_all add: variable_fields_def eqs)
qed

section \<open>Escaped fields\<close>

interpretation escaped: composition_codec "escaped_read_tag c" "escaped_read_length c"
  "tf_fields (escaped_fields c)" "escaped_write_tag c" "escaped_write_length c"
  "escaped_len_enc (ef_length c)" for c
proof -
  have eqs: "escaped_read_tag c = (\<lambda>p n. tlv_fixed_identifier_read (Some (ef_identifier c)) p n True)"
    "escaped_read_length c = (\<lambda>p n. tlv_escaped_length_read (Some (ef_length c)) p n True)"
    "escaped_write_tag c =
      (\<lambda>t d cap. tlv_fixed_identifier_write (Some (ef_identifier c)) (Some t) d cap True)"
    "escaped_write_length c = (\<lambda>l d cap. tlv_escaped_length_write (Some (ef_length c)) l d cap True)"
    by (auto simp: fun_eq_iff escaped_read_tag_def escaped_read_length_def escaped_write_tag_def
        escaped_write_length_def)
  show "composition_codec (escaped_read_tag c) (escaped_read_length c) (tf_fields (escaped_fields c))
      (escaped_write_tag c) (escaped_write_length c) (escaped_len_enc (ef_length c))"
    unfolding eqs
    by (intro composition_codec.intro composition_reader.intro composition_reader_axioms.intro
        composition_codec_axioms.intro fixed_id.tag_codec_axioms fixed_id.tag_reader_axioms
        escaped_len.length_codec_axioms escaped_len.length_reader_axioms)
      (simp_all add: escaped_fields_def eqs)
qed

section \<open>Tag-only elements\<close>

text \<open>The octets of an element of a tagged composition.\<close>

definition tagged_wire ::
  "tlv_tagged_fields_composition_t \<Rightarrow> (nat \<Rightarrow> u8 list) \<Rightarrow> tlv_element_t \<Rightarrow> u8 list" where
  "tagged_wire tf len_enc el =
     (if tagged_fields_tag_only tf (elem_tag el) then tag_bytes (elem_tag el)
      else fields_wire (tf_fields tf) len_enc el)"

text \<open>The decoded tag-only element.\<close>

definition tag_only_result :: "ptr \<Rightarrow> nat \<Rightarrow> tlv_decoded_t \<Rightarrow> tlv_decoded_t" where
  "tag_only_result p width d =
     d\<lparr>dec_element := \<lparr>elem_tag = tlv_tag p width, elem_value = \<lparr>val_data = ptr_add p width, val_size = 0\<rparr>\<rparr>,
       dec_source := (dec_source d)\<lparr>src_header := field_range 0 width, src_tag := field_range 0 width,
         src_length := range0, src_value := field_range width 0, src_trailer := field_range width 0,
         src_size := width\<rparr>\<rparr>"

lemma tag_only_bytes:
  assumes "tag_wf a" "tag_wf b" "tag_bytes a = tag_bytes b"
  shows "tagged_fields_tag_only tf a = tagged_fields_tag_only tf b"
proof -
  have "tag_size a = tag_size b" using assms by (metis length_tag_bytes)
  then have "tlv_tag_equal a x = tlv_tag_equal b x" for x
    using assms(3) by (auto simp: tlv_tag_equal_def tag_bytes_def)
  then have "tlv_tag_equal a = tlv_tag_equal b" by (rule ext)
  then show ?thesis by (simp add: tagged_fields_tag_only_def)
qed

lemma partitioned_tag_only_result:
  assumes "src_tag_binding (dec_source d) = TLV_TAG_BINDING_SOURCE" "0 < k" "k \<le> n"
  shows "partitioned (tag_only_result p k d) p n"
  using assms
  by (simp add: partitioned_def tag_only_result_def Let_def range_valid_def tag_binding_valid_def range0_def)

context composition_codec
begin

lemma tagged_decode_eq:
  assumes "tf_fields tf = f" "p \<noteq> Null" "0 < k" "k \<le> n"
    and "read_tag p n = (TLV_OK, Some (tlv_tag p k), Some k)"
  shows "tlv_tagged_fields_decode tf p n d e =
    (if tagged_fields_tag_only tf (tlv_tag p k) then (TLV_OK, tag_only_result p k d, e)
     else tlv_fields_decode f p n d e)"
  using assms by (simp add: tlv_tagged_fields_decode_def f_readers tag_only_result_def Let_def)

lemma tagged_decode_inv:
  assumes tf: "tf_fields tf = f" and r: "readable p n"
    and ok: "tlv_tagged_fields_decode tf p n d e = (TLV_OK, r, e')"
  shows "\<exists>k. p \<noteq> Null \<and> 0 < k \<and> k \<le> n \<and> read_tag p n = (TLV_OK, Some (tlv_tag p k), Some k)"
proof -
  obtain ot oc where rd: "read_tag p n = (TLV_OK, ot, oc)"
    using ok tf by (auto simp: tlv_tagged_fields_decode_def f_readers Let_def split: prod.splits if_splits)
  with read_tag_inv [OF r rd] r show ?thesis by fastforce
qed

lemma tagged_truncated:
  "tf_fields tf = f \<Longrightarrow> fst (read_tag p n) = TLV_ERR_TRUNCATED \<Longrightarrow>
   fst (tlv_tagged_fields_decode tf p n d e) = TLV_ERR_TRUNCATED"
  by (auto simp: tlv_tagged_fields_decode_def f_readers Let_def split: prod.split)

lemma tagged_prefix_decoder:
  assumes tf: "tf_fields tf = f" and tlv: "order_tlv f"
  shows "prefix_decoder (tlv_tagged_fields_decode tf)"
proof
  fix p n r e
  assume r: "readable p n" "0 < n" "tlv_tagged_fields_decode tf p n decoded0 error0 = (TLV_OK, r, e)"
  from tagged_decode_inv [OF tf r(1,3)] obtain k where k: "p \<noteq> Null" "0 < k" "k \<le> n"
    and rt: "read_tag p n = (TLV_OK, Some (tlv_tag p k), Some k)" by blast
  note T = read_tag_inv [OF r(1) rt]
  have T1: "read_tag p m = (TLV_OK, Some (tlv_tag p k), Some k)" if "readable p m" "k \<le> m" for m
    using T that by auto
  have T2: "fst (read_tag p m) = TLV_ERR_TRUNCATED" if "m < k" for m
    using T that by auto
  have eq: "tlv_tagged_fields_decode tf p m decoded0 error0 =
    (if tagged_fields_tag_only tf (tlv_tag p k) then (TLV_OK, tag_only_result p k decoded0, error0)
     else tlv_fields_decode f p m decoded0 error0)" if "readable p m" "k \<le> m" for m
    by (rule tagged_decode_eq [OF tf k(1,2) that(2) T1 [OF that]])
  show "partitioned r p n"
    using r k eq [OF r(1) k(3)] decode_partition
    by (auto simp: partitioned_tag_only_result split: if_splits)
  have only: "r = tag_only_result p k decoded0 \<and> e = error0" if "tagged_fields_tag_only tf (tlv_tag p k)"
    using eq [OF r(1) k(3)] r(3) that by simp
  have flds: "tlv_fields_decode f p n decoded0 error0 = (TLV_OK, r, e)"
    if "\<not> tagged_fields_tag_only tf (tlv_tag p k)"
    using eq [OF r(1) k(3)] r(3) that by simp
  have sz: "k \<le> src_size (dec_source r)"
  proof (cases "tagged_fields_tag_only tf (tlv_tag p k)")
    case True
    with only show ?thesis by (simp add: tag_only_result_def)
  next
    case False
    show ?thesis
    proof (rule fields_decode_inv [OF r(1) flds [OF False]])
      fix kt kl len
      assume "read_tag (ptr_add p (tag_offset f kl)) (n - tag_offset f kl) =
          (TLV_OK, Some (tlv_tag (ptr_add p (tag_offset f kl)) kt), Some kt)"
        and res: "r = fields_result f p kt kl len decoded0"
      then have "kt = k" using tlv rt by (simp add: tag_offset_def)
      then show ?thesis by (simp add: res fields_result_def)
    qed
  qed
  show "tlv_tagged_fields_decode tf p m decoded0 error0 = (TLV_OK, r, e)"
    if m: "readable p m" "src_size (dec_source r) \<le> m" for m
    using eq [OF m(1)] sz m only fields_decode_stable [OF r(1) flds m] by auto
  show "fst (tlv_tagged_fields_decode tf p m decoded0 error0) = TLV_ERR_TRUNCATED"
    if m: "0 < m" "m < src_size (dec_source r)" for m
  proof (cases "m < k")
    case True
    then show ?thesis by (intro tagged_truncated [OF tf] T2)
  next
    case False
    then have "\<not> tagged_fields_tag_only tf (tlv_tag p k)"
      using m only by (auto simp: tag_only_result_def)
    moreover have "src_size (dec_source r) \<le> n"
      using \<open>partitioned r p n\<close> by (simp add: partitioned_def Let_def)
    ultimately show ?thesis
      using False m eq [of m] readable_mono [OF r(1), of m] fields_decode_short [OF r(1) flds m(2)] by simp
  qed
qed

lemma tagged_measure_inv:
  assumes tf: "tf_fields tf = f" and wf: "element_wf el"
    and ok: "tlv_tagged_fields_measure tf el encoding0 e = (TLV_OK, en, e')"
  shows "fst (write_tag (elem_tag el) None 0) = TLV_OK"
    and "tagged_fields_tag_only tf (elem_tag el) \<Longrightarrow> val_size (elem_value el) = 0 \<and> e' = e \<and>
      en = \<lparr>en_header = tag_size (elem_tag el), en_value = 0, en_trailer = 0, en_total = tag_size (elem_tag el)\<rparr>"
    and "\<not> tagged_fields_tag_only tf (elem_tag el) \<Longrightarrow> tlv_fields_measure f el encoding0 e = (TLV_OK, en, e')"
proof -
  have twf: "tag_wf (elem_tag el)" using wf by (simp add: element_wf_def)
  show t: "fst (write_tag (elem_tag el) None 0) = TLV_OK"
    using ok tf by (auto simp: tlv_tagged_fields_measure_def f_writers Let_def split: prod.splits if_splits)
  from ok tf write_tag_query [OF twf t]
  show "tagged_fields_tag_only tf (elem_tag el) \<Longrightarrow> val_size (elem_value el) = 0 \<and> e' = e \<and>
      en = \<lparr>en_header = tag_size (elem_tag el), en_value = 0, en_trailer = 0, en_total = tag_size (elem_tag el)\<rparr>"
    "\<not> tagged_fields_tag_only tf (elem_tag el) \<Longrightarrow> tlv_fields_measure f el encoding0 e = (TLV_OK, en, e')"
    by (auto simp: tlv_tagged_fields_measure_def f_writers Let_def split: if_splits)
qed

lemma tagged_format_codec:
  assumes tf: "tf_fields tf = f" and tlv: "order_tlv f"
  shows "format_codec (tlv_tagged_fields_decode tf) (tlv_tagged_fields_measure tf)
    (tlv_tagged_fields_encode tf) (tagged_wire tf len_enc)"
proof (intro format_codec.intro format_codec_axioms.intro tagged_prefix_decoder [OF tf tlv])
  fix el en e
  assume el: "element_wf el" "tlv_tagged_fields_measure tf el encoding0 error0 = (TLV_OK, en, e)"
  note M = tagged_measure_inv [OF tf el]
  have twf: "tag_wf (elem_tag el)" and sz: "tag_size (elem_tag el) \<le> TLV_SIZE_MAX"
    using el(1) by (auto simp: element_wf_def SIZE_MAX_def TLV_SIZE_MAX_def)
  show "en_value en = val_size (elem_value el) \<and> en_total en = en_header en + en_value en + en_trailer en \<and>
      0 < en_total en \<and> en_total en \<le> TLV_SIZE_MAX \<and> length (tagged_wire tf len_enc el) = en_total en"
    using M measure_exact [OF el(1)] write_tag_query [OF twf M(1)] twf sz tf
    by (cases "tagged_fields_tag_only tf (elem_tag el)") (auto simp: tagged_wire_def)
next
  fix el assume el: "element_wf el" "fst (tlv_tagged_fields_measure tf el encoding0 error0) = TLV_OK"
  obtain en e where m: "tlv_tagged_fields_measure tf el encoding0 error0 = (TLV_OK, en, e)"
    using el(2) by (metis prod.exhaust_sel)
  note M = tagged_measure_inv [OF tf el(1) m]
  have twf: "tag_wf (elem_tag el)" and vwf: "value_wf (elem_value el)" using el(1) by (auto simp: element_wf_def)
  note Q = write_tag_query [OF twf M(1)]
  have fm: "fst (tlv_fields_measure f el encoding0 error0) = TLV_OK" "e = error0"
    if "\<not> tagged_fields_tag_only tf (elem_tag el)"
    using M(3) [OF that] fields_measure_inv(4) [OF el(1) M(3) [OF that]] by auto
  show "tlv_tagged_fields_encode tf el (Some buf) cap 0 error0 =
      (TLV_OK, Some (blit 0 (tagged_wire tf len_enc el) buf), length (tagged_wire tf len_enc el), error0)"
    if cap: "length (tagged_wire tf len_enc el) \<le> cap" "cap \<le> length buf" for cap buf
  proof (cases "tagged_fields_tag_only tf (elem_tag el)")
    case True
    with M(2) cap twf tf m write_tag_buffer [OF twf M(1) _ cap(2)] show ?thesis
      by (simp add: tlv_tagged_fields_encode_def tagged_wire_def f_writers)
  next
    case False
    with encode_wire [OF el(1) fm(1) [OF False]] cap fm(2) tf m show ?thesis
      by (simp add: tlv_tagged_fields_encode_def tagged_wire_def)
  qed
  show "\<exists>r e. tlv_tagged_fields_decode tf q n decoded0 error0 = (TLV_OK, r, e) \<and>
      src_size (dec_source r) = length (tagged_wire tf len_enc el) \<and> same_content (dec_element r) el"
    if n: "length (tagged_wire tf len_enc el) \<le> n" "readable q n"
      "take (length (tagged_wire tf len_enc el)) (bytes q) = tagged_wire tf len_enc el" for n q
  proof -
    let ?t = "tag_size (elem_tag el)"
    have tlen: "?t \<le> length (tagged_wire tf len_enc el)"
      using twf length_fields_wire [OF el(1)] tf by (simp add: tagged_wire_def)
    have pre: "take ?t (tagged_wire tf len_enc el) = tag_bytes (elem_tag el)"
      using twf tlv tf by (simp add: tagged_wire_def fields_wire_def)
    have tb: "take ?t (bytes q) = tag_bytes (elem_tag el)"
      using n(3) pre tlen by (metis min.absorb1 take_take)
    have rt: "read_tag q n = (TLV_OK, Some (tlv_tag q ?t), Some ?t)"
      using tlen n by (intro read_written_tag [OF twf M(1) _ n(2) tb]) simp
    have nz: "q \<noteq> Null" "?t \<le> n" using Q tlen n by auto
    have same: "tag_wf (tlv_tag q ?t)" "tag_bytes (tlv_tag q ?t) = tag_bytes (elem_tag el)"
      using tb nz(2) n(2) by (auto simp: tag_wf_def tag_bytes_def intro: readable_mono)
    note eq = tagged_decode_eq [OF tf nz(1) _ nz(2) rt, of decoded0 error0]
    show ?thesis
    proof (cases "tagged_fields_tag_only tf (elem_tag el)")
      case True
      have "value_bytes (elem_value el) = []" using M(2) [OF True] by (simp add: value_bytes_def)
      with True Q eq same tag_only_bytes [OF same(1) twf same(2)] twf show ?thesis
        by (simp add: tag_only_result_def same_content_def tagged_wire_def) (simp add: value_bytes_def)
    next
      case False
      with decode_wire [OF el(1) fm(1) [OF False]] n tf Q eq tag_only_bytes [OF same(1) twf same(2)] show ?thesis
        by (simp add: tagged_wire_def)
    qed
  qed
qed

end

section \<open>Every accepted configuration is a format\<close>

text \<open>The fixed-width wrapper only refines the detail of a truncated header.\<close>

lemma wrapped_prefix_decoder:
  assumes "prefix_decoder decode"
    and "\<And>p n d e. decode' p n d e = (case decode p n d e of (rc, r, e) \<Rightarrow> (rc, r, g rc e))"
    and "\<And>e. g TLV_OK e = e"
  shows "prefix_decoder decode'"
proof -
  have ok: "decode' p n d e = (TLV_OK, r, e') \<longleftrightarrow> decode p n d e = (TLV_OK, r, e')" for p n d e r e'
    using assms(2,3) by (auto split: prod.splits)
  have rc: "fst (decode' p n d e) = fst (decode p n d e)" for p n d e
    using assms(2) by (auto split: prod.splits)
  have "prefix_decoder decode' = prefix_decoder decode" unfolding prefix_decoder_def ok rc ..
  with assms(1) show ?thesis by simp
qed

lemma wrapped_format_codec:
  assumes "format_codec decode m enc w"
    and "\<And>p n d e. decode' p n d e = (case decode p n d e of (rc, r, e) \<Rightarrow> (rc, r, g rc e))"
    and "\<And>e. g TLV_OK e = e"
  shows "format_codec decode' m enc w"
proof -
  have pd: "prefix_decoder decode" using assms(1) by (simp add: format_codec_def)
  have ok: "decode' p n d e = (TLV_OK, r, e') \<longleftrightarrow> decode p n d e = (TLV_OK, r, e')" for p n d e r e'
    using assms(2,3) by (auto split: prod.splits)
  have "format_codec_axioms decode' m enc w = format_codec_axioms decode m enc w"
    unfolding format_codec_axioms_def ok ..
  with assms(1) wrapped_prefix_decoder [OF pd assms(2,3)] show ?thesis by (simp add: format_codec_def)
qed

interpretation binary_format: format_codec "tlv_binary_decode c" "tlv_binary_measure c"
  "tlv_binary_encode c" "fields_wire (binary_fields c) (fixed_len_enc (bc_length c))" for c
  unfolding tlv_binary_measure_def tlv_binary_encode_def
  by (rule wrapped_format_codec [OF binary.format_codec_axioms, where g = "binary_required c"])
    (auto simp: tlv_binary_decode_def binary_required_def)

interpretation variable_format: format_codec "tlv_variable_decode c" "tlv_variable_measure c"
  "tlv_variable_encode c" "fields_wire (variable_fields c) (variable_len_enc (vf_length c))" for c
  unfolding tlv_variable_decode_def tlv_variable_measure_def tlv_variable_encode_def
  by (rule variable.format_codec_axioms)

lemma tagged_binary_format_codec:
  assumes "bc_element_order (tb_fields c) = TLV_ELEMENT_ORDER_TLV"
  shows "format_codec (tlv_tagged_binary_decode c) (tlv_tagged_binary_measure c) (tlv_tagged_binary_encode c)
    (tagged_wire (tagged_binary_fields c) (fixed_len_enc (bc_length (tb_fields c))))"
proof -
  have "format_codec (tlv_tagged_fields_decode (tagged_binary_fields c))
      (tlv_tagged_binary_measure c) (tlv_tagged_binary_encode c)
      (tagged_wire (tagged_binary_fields c) (fixed_len_enc (bc_length (tb_fields c))))"
    unfolding tlv_tagged_binary_measure_def tlv_tagged_binary_encode_def
    using assms by (intro binary.tagged_format_codec [of _ "tb_fields c"])
      (auto simp: tagged_binary_fields_def binary_fields_def order_tlv_def)
  then show ?thesis
    by (rule wrapped_format_codec [where g = "binary_required (tb_fields c)"])
      (auto simp: tlv_tagged_binary_decode_def binary_required_def)
qed

definition escaped_wire :: "tlv_escaped_format_t \<Rightarrow> tlv_element_t \<Rightarrow> u8 list" where
  "escaped_wire c =
     (if ef_count c \<noteq> 0 then tagged_wire (escaped_fields c) (escaped_len_enc (ef_length c))
      else fields_wire (tf_fields (escaped_fields c)) (escaped_len_enc (ef_length c)))"

lemma escaped_format_codec:
  assumes "ef_count c \<noteq> 0 \<Longrightarrow> ef_element_order c = TLV_ELEMENT_ORDER_TLV"
  shows "format_codec (tlv_escaped_decode c) (tlv_escaped_measure c) (tlv_escaped_encode c) (escaped_wire c)"
proof (cases "ef_count c = 0")
  case True
  then show ?thesis
    using escaped.format_codec_axioms [of c]
    by (simp add: tlv_escaped_decode_def [abs_def] tlv_escaped_measure_def [abs_def]
        tlv_escaped_encode_def [abs_def] escaped_wire_def)
next
  case False
  then have "order_tlv (tf_fields (escaped_fields c))"
    using assms by (simp add: order_tlv_def escaped_fields_def)
  from escaped.tagged_format_codec [OF refl this] False show ?thesis
    by (simp add: tlv_escaped_decode_def [abs_def] tlv_escaped_measure_def [abs_def]
        tlv_escaped_encode_def [abs_def] escaped_wire_def)
qed

lemma tlv_escaped_format_init_OK:
  assumes "tlv_escaped_format_init True (Some c) = (TLV_OK, Some f)"
  shows "ef_count c \<noteq> 0 \<longrightarrow> ef_element_order c = TLV_ELEMENT_ORDER_TLV"
    "fmt_decode f = Some (tlv_escaped_decode c)" "fmt_measure f = Some (tlv_escaped_measure c)"
    "fmt_encode f = Some (tlv_escaped_encode c)"
  using assms
  by (auto simp: tlv_escaped_format_init_def Let_def tlv_format_init_def split: if_splits)

lemma tlv_fixed_format_init_OK:
  assumes "tlv_fixed_format_init True (Some c) = (TLV_OK, Some f)"
  shows "fmt_decode f = Some (tlv_binary_decode c)" "fmt_measure f = Some (tlv_binary_measure c)"
    "fmt_encode f = Some (tlv_binary_encode c)"
  using assms by (auto simp: tlv_fixed_format_init_def Let_def tlv_format_init_def split: if_splits)

lemma tlv_variable_format_init_OK:
  assumes "tlv_variable_format_init True (Some c) = (TLV_OK, Some f)"
  shows "fmt_decode f = Some (tlv_variable_decode c)" "fmt_measure f = Some (tlv_variable_measure c)"
    "fmt_encode f = Some (tlv_variable_encode c)"
  using assms
  by (auto simp: tlv_variable_format_init_def Let_def tlv_format_init_def split: if_splits prod.splits)

lemma tlv_tagged_binary_format_init_OK:
  assumes "tlv_tagged_binary_format_init True (Some c) = (TLV_OK, Some f)"
  shows "bc_element_order (tb_fields c) = TLV_ELEMENT_ORDER_TLV"
    "fmt_decode f = Some (tlv_tagged_binary_decode c)" "fmt_measure f = Some (tlv_tagged_binary_measure c)"
    "fmt_encode f = Some (tlv_tagged_binary_encode c)"
  using assms
  by (auto simp: tlv_tagged_binary_format_init_def Let_def tlv_format_init_def split: if_splits)

end
