(* ===== verification/TLV_Packed.thy ===== *)
theory TLV_Packed
  imports TLV_Compose_Laws
begin

unbundle bit_operations_syntax

text \<open>
  Packed headers (\<^verbatim>\<open>formats/packed.c\<close>): identifier and count share one integer of one to eight octets,
  as in LLDP.  The semantic identifier borrows a caller-supplied table of canonical identifiers, so
  the tag binding is \<open>TLV_TAG_BINDING_FORMAT\<close>.  The lemmas show that a layout accepted by
  \<open>tlv_packed_layout_validate\<close> is a format in the sense of \<open>format_codec\<close>.
\<close>

section \<open>Definitions\<close>

record tlv_packed_layout_t =
  pl_header_size :: nat
  pl_tag :: tlv_packed_field_t
  pl_length :: tlv_packed_field_t
  pl_length_scope :: tlv_length_scope_t
  pl_tag_storage :: ptr
  pl_tag_size :: nat
  pl_tag_storage_size :: nat

text \<open>\<open>packed_mask\<close> of the field encoding is the same expression as this file's \<^verbatim>\<open>mask\<close>.\<close>

definition envelope :: "tlv_packed_field_t \<Rightarrow> tlv_range_t" where
  "envelope field =
     (let first = pf_bit_offset field div 8;
          last = (pf_bit_offset field + pf_bit_width field - 1) div 8;
          offset = (if pf_byte_order field = TLV_BYTE_ORDER_LITTLE_ENDIAN then first
                    else pf_storage_size field - last - 1)
      in field_range offset (last - first + 1))"

definition tlv_packed_layout_validate :: "tlv_packed_layout_t option \<Rightarrow> tlv_result_t" where
  "tlv_packed_layout_validate layout =
     (case layout of None \<Rightarrow> TLV_ERR_NULL_ARG
      | Some f \<Rightarrow>
          if pl_tag_storage f = Null then TLV_ERR_NULL_ARG
          else if pl_header_size f = 0 \<or> pl_header_size f > 8 \<or>
                  pf_storage_size (pl_tag f) \<noteq> pl_header_size f \<or>
                  pf_storage_size (pl_length f) \<noteq> pl_header_size f
          then TLV_ERR_INVALID_ARG
          else let zero = Ptr 0 (replicate 8 0);
                   rc = fst (tlv_packed_field_read (Some (pl_tag f)) zero 8 True) in
            if rc \<noteq> TLV_OK then rc
            else let rc = fst (tlv_packed_field_read (Some (pl_length f)) zero 8 True) in
              if rc \<noteq> TLV_OK then rc
              else if pf_byte_order (pl_tag f) \<noteq> pf_byte_order (pl_length f) \<or>
                      (pf_bit_offset (pl_tag f) < pf_bit_offset (pl_length f) + pf_bit_width (pl_length f) \<and>
                       pf_bit_offset (pl_length f) < pf_bit_offset (pl_tag f) + pf_bit_width (pl_tag f)) \<or>
                      (pl_length_scope f \<noteq> TLV_LENGTH_SCOPE_VALUE \<and>
                       pl_length_scope f \<noteq> TLV_LENGTH_SCOPE_TAG_AND_VALUE) \<or>
                      pl_tag_size f < (pf_bit_width (pl_tag f) + 7) div 8 \<or> pl_tag_size f > 8
              then TLV_ERR_INVALID_ARG
              else if pf_bit_width (pl_tag f) \<ge> 64 then TLV_ERR_OVERFLOW
              else let entries = 2 ^ pf_bit_width (pl_tag f) in
                if entries > SIZE_MAX div pl_tag_size f then TLV_ERR_OVERFLOW
                else if pl_tag_storage_size f < entries * pl_tag_size f then TLV_ERR_INVALID_ARG
                else TLV_OK)"

definition packed_failure ::
  "tlv_format_error_t \<Rightarrow> tlv_region_t \<Rightarrow> nat \<Rightarrow> nat \<Rightarrow> tlv_range_t \<Rightarrow> tlv_range_t \<Rightarrow> tlv_range_t
     \<Rightarrow> tlv_format_error_t" where
  "packed_failure error region offset required tag len val =
     error\<lparr>fe_region := region, fe_offset := offset, fe_has_offset := True, fe_required := required,
           fe_has_required := True, fe_tag := tag, fe_length := len, fe_value := val\<rparr>"

text \<open>The element published by a successful decode.\<close>

definition packed_result :: "tlv_packed_layout_t \<Rightarrow> ptr \<Rightarrow> u64 \<Rightarrow> nat \<Rightarrow> tlv_decoded_t" where
  "packed_result f data type len =
     decoded0\<lparr>dec_element :=
         \<lparr>elem_tag = tlv_tag (ptr_add (pl_tag_storage f) (unat type * pl_tag_size f)) (pl_tag_size f),
          elem_value = \<lparr>val_data = ptr_add data (pl_header_size f), val_size = len\<rparr>\<rparr>,
       dec_source := source0\<lparr>src_header := field_range 0 (pl_header_size f),
         src_tag := envelope (pl_tag f), src_length := envelope (pl_length f),
         src_value := field_range (pl_header_size f) len,
         src_trailer := field_range (pl_header_size f + len) 0, src_size := pl_header_size f + len,
         src_tag_binding := TLV_TAG_BINDING_FORMAT\<rparr>\<rparr>"

definition tlv_packed_decode :: "tlv_packed_layout_t option \<Rightarrow> tlv_decode_fn" where
  "tlv_packed_decode layout data sz result error =
     (if data = Null \<and> sz \<noteq> 0 then (TLV_ERR_NULL_ARG, result, error)
      else let rc = tlv_packed_layout_validate layout; f = the layout in
        if rc \<noteq> TLV_OK then (rc, result, error)
        else if sz < pl_header_size f
        then (TLV_ERR_TRUNCATED, result,
              packed_failure error TLV_REGION_HEADER 0 (pl_header_size f) range0 range0 range0)
        else let tag = envelope (pl_tag f); count_field = envelope (pl_length f);
                 type = out (snd (tlv_packed_field_read (Some (pl_tag f)) data sz True)) 0;
                 count = unat (out (snd (tlv_packed_field_read (Some (pl_length f)) data sz True)) 0);
                 in_scope = (pl_length_scope f = TLV_LENGTH_SCOPE_TAG_AND_VALUE) in
          if in_scope \<and> count < rg_size tag
          then (TLV_ERR_INVALID_LENGTH, result,
                packed_failure error TLV_REGION_LENGTH (rg_offset count_field) (pl_header_size f) tag
                  count_field range0)
          else let count = (if in_scope then count - rg_size tag else count) in
            if count > sz - pl_header_size f
            then (TLV_ERR_TRUNCATED, result,
                  packed_failure error TLV_REGION_VALUE (pl_header_size f) count tag count_field
                    (field_range (pl_header_size f) (sz - pl_header_size f)))
            else let canonical = out (snd (tlv_read_uint
                         (ptr_add (pl_tag_storage f) (unat type * pl_tag_size f)) (pl_tag_size f)
                         TLV_BYTE_ORDER_BIG_ENDIAN True)) 0 in
              if canonical \<noteq> type
              then (TLV_ERR_INVALID_TAG, result,
                    packed_failure error TLV_REGION_TAG (rg_offset tag) count tag count_field
                      (field_range (pl_header_size f) count))
              else (TLV_OK, packed_result f data type count, error))"

definition field_failure ::
  "tlv_format_error_t \<Rightarrow> tlv_region_t \<Rightarrow> tlv_packed_field_t \<Rightarrow> tlv_format_error_t" where
  "field_failure error region field =
     error\<lparr>fe_region := region, fe_offset := rg_offset (envelope field), fe_has_offset := True\<rparr>"

definition tlv_packed_measure :: "tlv_packed_layout_t option \<Rightarrow> tlv_measure_fn" where
  "tlv_packed_measure layout element result error =
     (let rc = tlv_packed_layout_validate layout; f = the layout in
      if rc \<noteq> TLV_OK then (rc, result, error)
      else let tag = elem_tag element;
               rc = (if tag_data tag = Null \<and> tag_size tag \<noteq> 0 then TLV_ERR_NULL_ARG
                     else if tag_size tag \<noteq> pl_tag_size f then TLV_ERR_INVALID_TAG_SIZE
                     else if out (snd (tlv_read_uint (tag_data tag) (pl_tag_size f)
                                         TLV_BYTE_ORDER_BIG_ENDIAN True)) 0
                             > packed_mask (pf_bit_width (pl_tag f))
                     then TLV_ERR_INVALID_TAG else TLV_OK) in
        if rc \<noteq> TLV_OK then (rc, result, field_failure error TLV_REGION_TAG (pl_tag f))
        else let overhead = (if pl_length_scope f = TLV_LENGTH_SCOPE_TAG_AND_VALUE
                             then rg_size (envelope (pl_tag f)) else 0);
                 maximum = unat (packed_mask (pf_bit_width (pl_length f)));
                 vsz = val_size (elem_value element) in
          if overhead > maximum \<or> vsz > maximum - overhead \<or> vsz > TLV_SIZE_MAX - pl_header_size f
          then (TLV_ERR_INVALID_LENGTH, result, field_failure error TLV_REGION_LENGTH (pl_length f))
          else (TLV_OK, \<lparr>en_header = pl_header_size f, en_value = vsz, en_trailer = 0,
                         en_total = pl_header_size f + vsz\<rparr>, error))"

definition tlv_packed_encode :: "tlv_packed_layout_t option \<Rightarrow> tlv_encode_fn" where
  "tlv_packed_encode layout element data capacity written error =
     (if data = None then (TLV_ERR_NULL_ARG, data, written, error)
      else case tlv_packed_measure layout element encoding0 error of
        (rc, sizes, error) \<Rightarrow>
          if rc \<noteq> TLV_OK then (rc, data, written, error)
          else let f = the layout; val = elem_value element;
                   rc = (if val_size val \<noteq> 0 \<and> val_data val = Null then TLV_ERR_NULL_ARG
                         else if en_total sizes > capacity then TLV_ERR_BUFFER_TOO_SHORT
                         else TLV_OK) in
            if rc \<noteq> TLV_OK then (rc, data, written, field_failure error TLV_REGION_LENGTH (pl_length f))
            else let type = out (snd (tlv_read_uint (tag_data (elem_tag element)) (pl_tag_size f)
                                 TLV_BYTE_ORDER_BIG_ENDIAN True)) 0;
                     count = val_size val +
                       (if pl_length_scope f = TLV_LENGTH_SCOPE_TAG_AND_VALUE
                        then rg_size (envelope (pl_tag f)) else 0);
                     data = obuf_blit 0 (replicate (pl_header_size f) 0) data;
                     data = snd (tlv_packed_field_write (Some (pl_tag f)) data capacity type);
                     data = snd (tlv_packed_field_write (Some (pl_length f)) data capacity (of_nat count));
                     data = (if val_size val \<noteq> 0
                             then obuf_blit (pl_header_size f) (take (val_size val) (bytes (val_data val))) data
                             else data)
                 in (TLV_OK, data, en_total sizes, error))"

section \<open>Accepted layouts\<close>

text \<open>What \<open>tlv_packed_layout_validate\<close> establishes.\<close>

definition layout_ok :: "tlv_packed_layout_t \<Rightarrow> bool" where
  "layout_ok f \<longleftrightarrow>
     pl_tag_storage f \<noteq> Null \<and> packed_validate (pl_tag f) = TLV_OK \<and> packed_validate (pl_length f) = TLV_OK \<and>
     pf_storage_size (pl_tag f) = pl_header_size f \<and> pf_storage_size (pl_length f) = pl_header_size f \<and>
     pf_byte_order (pl_tag f) = pf_byte_order (pl_length f) \<and>
     (pf_bit_offset (pl_length f) + pf_bit_width (pl_length f) \<le> pf_bit_offset (pl_tag f) \<or>
      pf_bit_offset (pl_tag f) + pf_bit_width (pl_tag f) \<le> pf_bit_offset (pl_length f)) \<and>
     pf_bit_width (pl_tag f) < 64 \<and> pf_bit_width (pl_tag f) \<le> 8 * pl_tag_size f \<and> pl_tag_size f \<le> 8 \<and>
     2 ^ pf_bit_width (pl_tag f) * pl_tag_size f \<le> pl_tag_storage_size f"

lemma packed_field_read_zero:
  assumes "pf_storage_size f \<le> 8"
  shows "fst (tlv_packed_field_read (Some f) (Ptr 0 (replicate 8 0)) 8 True) = TLV_OK \<longleftrightarrow>
    packed_validate f = TLV_OK"
proof (cases "packed_validate f = TLV_OK")
  case True
  then show ?thesis by (subst packed_read_eq) (use assms in auto)
next
  case False
  then show ?thesis by (simp add: tlv_packed_field_read_def)
qed

lemma tlv_packed_layout_validate_OK:
  assumes "tlv_packed_layout_validate (Some f) = TLV_OK"
  shows "layout_ok f"
  using assms packed_field_read_zero [of "pl_tag f"] packed_field_read_zero [of "pl_length f"]
  by (auto simp: tlv_packed_layout_validate_def layout_ok_def Let_def split: if_splits)

lemma layout_ok_simps:
  assumes "layout_ok f"
  shows "0 < pl_header_size f" "pl_header_size f \<le> 8" "0 < pl_tag_size f"
    "pf_bit_width (pl_tag f) \<le> 64" "pf_bit_width (pl_length f) \<le> 64"
    "pf_bit_offset (pl_tag f) + pf_bit_width (pl_tag f) \<le> 64"
    "pf_bit_offset (pl_length f) + pf_bit_width (pl_length f) \<le> 64"
    "known_order (pf_byte_order (pl_tag f))"
  using assms by (auto simp: layout_ok_def packed_validate_OK intro: Nat.gr0I)

lemma envelope_bounds:
  assumes "packed_validate f = TLV_OK"
  shows "rg_offset (envelope f) + rg_size (envelope f) \<le> pf_storage_size f"
proof -
  let ?first = "pf_bit_offset f div 8" and ?last = "(pf_bit_offset f + pf_bit_width f - 1) div 8"
  have w: "0 < pf_bit_width f" "pf_bit_offset f + pf_bit_width f \<le> pf_storage_size f * 8"
    using assms by (auto simp: packed_validate_OK)
  then have "pf_bit_offset f + pf_bit_width f - 1 < pf_storage_size f * 8" by linarith
  then have "?last < pf_storage_size f" by (simp add: div_less_iff_less_mult)
  moreover have "?first \<le> ?last" using w by (intro div_le_mono) simp
  ultimately show ?thesis by (auto simp: envelope_def Let_def)
qed

section \<open>The decoder\<close>

text \<open>Identifier and value size as functions of the header octets.\<close>

definition packed_type :: "tlv_packed_layout_t \<Rightarrow> u8 list \<Rightarrow> u64" where
  "packed_type f bs =
     take_bit (pf_bit_width (pl_tag f)) (drop_bit (pf_bit_offset (pl_tag f)) (storage_word (pl_tag f) bs))"

definition packed_count :: "tlv_packed_layout_t \<Rightarrow> u8 list \<Rightarrow> u64" where
  "packed_count f bs =
     take_bit (pf_bit_width (pl_length f)) (drop_bit (pf_bit_offset (pl_length f)) (storage_word (pl_length f) bs))"

definition packed_overhead :: "tlv_packed_layout_t \<Rightarrow> nat" where
  "packed_overhead f =
     (if pl_length_scope f = TLV_LENGTH_SCOPE_TAG_AND_VALUE then rg_size (envelope (pl_tag f)) else 0)"

definition packed_canonical :: "tlv_packed_layout_t \<Rightarrow> u64 \<Rightarrow> bool" where
  "packed_canonical f type \<longleftrightarrow>
     out (snd (tlv_read_uint (ptr_add (pl_tag_storage f) (unat type * pl_tag_size f)) (pl_tag_size f)
       TLV_BYTE_ORDER_BIG_ENDIAN True)) 0 = type"

lemma packed_decode_header:
  assumes v: "tlv_packed_layout_validate (Some f) = TLV_OK" and n: "pl_header_size f \<le> n" "readable p n"
  defines "cnt \<equiv> unat (packed_count f (bytes p))" and "ov \<equiv> packed_overhead f"
  shows "fst (tlv_packed_decode (Some f) p n d e) =
      (if cnt < ov then TLV_ERR_INVALID_LENGTH
       else if cnt - ov > n - pl_header_size f then TLV_ERR_TRUNCATED
       else if \<not> packed_canonical f (packed_type f (bytes p)) then TLV_ERR_INVALID_TAG else TLV_OK)"
    and "cnt \<ge> ov \<Longrightarrow> cnt - ov \<le> n - pl_header_size f \<Longrightarrow> packed_canonical f (packed_type f (bytes p)) \<Longrightarrow>
      tlv_packed_decode (Some f) p n d e =
        (TLV_OK, packed_result f p (packed_type f (bytes p)) (cnt - ov), e)"
proof -
  note L = tlv_packed_layout_validate_OK [OF v] and S = layout_ok_simps [OF tlv_packed_layout_validate_OK [OF v]]
  have nz: "p \<noteq> Null" "\<not> n < pl_header_size f" using n S(1) by auto
  have t: "tlv_packed_field_read (Some (pl_tag f)) p n True = (TLV_OK, Some (packed_type f (bytes p)))"
    using L n by (subst packed_read_eq) (auto simp: layout_ok_def packed_type_def)
  have c: "tlv_packed_field_read (Some (pl_length f)) p n True = (TLV_OK, Some (packed_count f (bytes p)))"
    using L n by (subst packed_read_eq) (auto simp: layout_ok_def packed_count_def)
  have ov: "pl_length_scope f \<noteq> TLV_LENGTH_SCOPE_TAG_AND_VALUE \<Longrightarrow> ov = 0"
    "pl_length_scope f = TLV_LENGTH_SCOPE_TAG_AND_VALUE \<Longrightarrow> ov = rg_size (envelope (pl_tag f))"
    by (auto simp: ov_def packed_overhead_def)
  show "fst (tlv_packed_decode (Some f) p n d e) =
      (if cnt < ov then TLV_ERR_INVALID_LENGTH
       else if cnt - ov > n - pl_header_size f then TLV_ERR_TRUNCATED
       else if \<not> packed_canonical f (packed_type f (bytes p)) then TLV_ERR_INVALID_TAG else TLV_OK)"
    using nz v ov by (simp add: tlv_packed_decode_def Let_def t c packed_canonical_def cnt_def)
  show "cnt \<ge> ov \<Longrightarrow> cnt - ov \<le> n - pl_header_size f \<Longrightarrow> packed_canonical f (packed_type f (bytes p)) \<Longrightarrow>
      tlv_packed_decode (Some f) p n d e =
        (TLV_OK, packed_result f p (packed_type f (bytes p)) (cnt - ov), e)"
    using nz v ov
    by (cases "pl_length_scope f = TLV_LENGTH_SCOPE_TAG_AND_VALUE")
      (simp_all add: tlv_packed_decode_def Let_def t c packed_canonical_def cnt_def)
qed

lemma partitioned_packed_result:
  assumes L: "layout_ok f" and n: "pl_header_size f + len \<le> n"
  shows "partitioned (packed_result f p type len) p n"
  using layout_ok_simps [OF L] n L envelope_bounds [of "pl_tag f"] envelope_bounds [of "pl_length f"]
  by (auto simp: partitioned_def packed_result_def Let_def range_valid_def tag_binding_valid_def
      layout_ok_def)

lemma packed_prefix_decoder:
  assumes v: "tlv_packed_layout_validate (Some f) = TLV_OK"
  shows "prefix_decoder (tlv_packed_decode (Some f))"
proof
  fix p n r e
  assume r: "readable p n" "0 < n" "tlv_packed_decode (Some f) p n decoded0 error0 = (TLV_OK, r, e)"
  note L = tlv_packed_layout_validate_OK [OF v]
  let ?cnt = "unat (packed_count f (bytes p))" and ?ov = "packed_overhead f"
  have hs: "pl_header_size f \<le> n"
    using r v by (auto simp: tlv_packed_decode_def Let_def split: if_splits)
  note H = packed_decode_header [OF v]
  have ok: "?cnt \<ge> ?ov" "?cnt - ?ov \<le> n - pl_header_size f" "packed_canonical f (packed_type f (bytes p))"
    using H(1) [OF hs r(1), of decoded0 error0] r(3) by (auto split: if_splits)
  have res: "r = packed_result f p (packed_type f (bytes p)) (?cnt - ?ov)" "e = error0"
    using H(2) [OF hs r(1) ok, of decoded0 error0] r(3) by auto
  then have sz: "src_size (dec_source r) = pl_header_size f + (?cnt - ?ov)"
    by (simp add: packed_result_def)
  show "partitioned r p n"
    unfolding res(1) using ok(2) hs by (intro partitioned_packed_result [OF L]) simp
  show "tlv_packed_decode (Some f) p m decoded0 error0 = (TLV_OK, r, e)"
    if m: "readable p m" "src_size (dec_source r) \<le> m" for m
    unfolding res using m ok sz by (intro H(2)) auto
  show "fst (tlv_packed_decode (Some f) p m decoded0 error0) = TLV_ERR_TRUNCATED"
    if m: "0 < m" "m < src_size (dec_source r)" for m
  proof (cases "pl_header_size f \<le> m")
    case True
    have "m \<le> n" using m(2) sz ok(2) hs by simp
    then have "readable p m" by (rule readable_mono [OF r(1)])
    from H(1) [OF True this] ok m(2) sz True show ?thesis by simp
  next
    case False
    have "p \<noteq> Null" using r by auto
    with False v show ?thesis by (simp add: tlv_packed_decode_def)
  qed
qed

section \<open>The encoder\<close>

text \<open>The identifier table holds every identifier in canonical big-endian form.\<close>

definition packed_table :: "tlv_packed_layout_t \<Rightarrow> bool" where
  "packed_table f \<longleftrightarrow>
     (\<forall>t < 2 ^ pf_bit_width (pl_tag f).
        take (pl_tag_size f) (drop (t * pl_tag_size f) (bytes (pl_tag_storage f))) = be_of (pl_tag_size f) t)"

definition element_type :: "tlv_element_t \<Rightarrow> u64" where
  "element_type el = of_nat (be_val (tag_bytes (elem_tag el)))"

definition packed_word :: "tlv_packed_layout_t \<Rightarrow> tlv_element_t \<Rightarrow> u64" where
  "packed_word f el =
     packed_insert (pf_bit_offset (pl_length f)) (pf_bit_width (pl_length f))
       (packed_insert (pf_bit_offset (pl_tag f)) (pf_bit_width (pl_tag f)) 0 (element_type el))
       (of_nat (val_size (elem_value el) + packed_overhead f))"

definition packed_wire :: "tlv_packed_layout_t \<Rightarrow> tlv_element_t \<Rightarrow> u8 list" where
  "packed_wire f el =
     uint_of (pf_byte_order (pl_tag f)) (pl_header_size f) (unat (packed_word f el)) @
     value_bytes (elem_value el)"

lemma storage_word_length: "layout_ok f \<Longrightarrow> storage_word (pl_length f) bs = storage_word (pl_tag f) bs"
  by (simp add: storage_word_def layout_ok_def)

lemma packed_measure_inv:
  assumes v: "tlv_packed_layout_validate (Some f) = TLV_OK" and wf: "element_wf el"
    and ok: "tlv_packed_measure (Some f) el en e = (TLV_OK, en', e')"
  shows "tag_size (elem_tag el) = pl_tag_size f"
    "tlv_read_uint (tag_data (elem_tag el)) (pl_tag_size f) TLV_BYTE_ORDER_BIG_ENDIAN True =
       (TLV_OK, Some (element_type el))"
    "unat (element_type el) = be_val (tag_bytes (elem_tag el))"
    "take_bit (pf_bit_width (pl_tag f)) (element_type el) = element_type el"
    "val_size (elem_value el) + packed_overhead f \<le> unat (packed_mask (pf_bit_width (pl_length f)))"
    "pl_header_size f + val_size (elem_value el) \<le> TLV_SIZE_MAX"
    "en' = \<lparr>en_header = pl_header_size f, en_value = val_size (elem_value el), en_trailer = 0,
            en_total = pl_header_size f + val_size (elem_value el)\<rparr>" "e' = e"
proof -
  note L = tlv_packed_layout_validate_OK [OF v]
  note S = layout_ok_simps [OF L]
  show ts: "tag_size (elem_tag el) = pl_tag_size f"
    using ok v by (auto simp: tlv_packed_measure_def Let_def split: if_splits)
  have "readable (tag_data (elem_tag el)) (pl_tag_size f)" "pl_tag_size f \<le> 8"
    using wf ts L by (auto simp: element_wf_def tag_wf_def layout_ok_def)
  from tlv_read_uint_OK [OF this(1) S(3) this(2), of TLV_BYTE_ORDER_BIG_ENDIAN] obtain w
    where w: "tlv_read_uint (tag_data (elem_tag el)) (pl_tag_size f) TLV_BYTE_ORDER_BIG_ENDIAN True =
        (TLV_OK, Some w)" and uw: "unat w = be_val (tag_bytes (elem_tag el))"
    by (auto simp: known_order_def uint_val_def tag_bytes_def ts)
  have weq: "w = element_type el" unfolding element_type_def uw [symmetric] by simp
  with w uw show rd: "tlv_read_uint (tag_data (elem_tag el)) (pl_tag_size f) TLV_BYTE_ORDER_BIG_ENDIAN True =
      (TLV_OK, Some (element_type el))" and "unat (element_type el) = be_val (tag_bytes (elem_tag el))" by auto
  have "\<not> element_type el > packed_mask (pf_bit_width (pl_tag f))"
    using ok v rd by (auto simp: tlv_packed_measure_def Let_def split: if_splits)
  then show "take_bit (pf_bit_width (pl_tag f)) (element_type el) = element_type el"
    using packed_fits [OF S(4)] by blast
  from ok v rd have lim: "\<not> (packed_overhead f > unat (packed_mask (pf_bit_width (pl_length f))) \<or>
      val_size (elem_value el) > unat (packed_mask (pf_bit_width (pl_length f))) - packed_overhead f \<or>
      val_size (elem_value el) > TLV_SIZE_MAX - pl_header_size f)"
    by (auto simp: tlv_packed_measure_def packed_overhead_def Let_def split: if_splits)
  then show "val_size (elem_value el) + packed_overhead f \<le> unat (packed_mask (pf_bit_width (pl_length f)))"
    by linarith
  have "pl_header_size f \<le> TLV_SIZE_MAX" using S(2) by (simp add: TLV_SIZE_MAX_def)
  with lim show "pl_header_size f + val_size (elem_value el) \<le> TLV_SIZE_MAX" by linarith
  from ok v show "en' = \<lparr>en_header = pl_header_size f, en_value = val_size (elem_value el), en_trailer = 0,
      en_total = pl_header_size f + val_size (elem_value el)\<rparr>" "e' = e"
    by (auto simp: tlv_packed_measure_def Let_def split: if_splits)
qed

text \<open>The count fits its field, so it is stored without loss.\<close>

lemma packed_count_fits:
  assumes "layout_ok f" "c \<le> unat (packed_mask (pf_bit_width (pl_length f)))"
  shows "unat (of_nat c :: u64) = c" "take_bit (pf_bit_width (pl_length f)) (of_nat c :: u64) = of_nat c"
proof -
  note S = layout_ok_simps [OF assms(1)]
  have "c < 2 ^ 64" using assms(2) unat_u64_less [of "packed_mask (pf_bit_width (pl_length f))"] by linarith
  then show u: "unat (of_nat c :: u64) = c" by (rule of_nat_unat_u64)
  have "\<not> (of_nat c :: u64) > packed_mask (pf_bit_width (pl_length f))"
    using assms(2) by (simp add: word_less_nat_alt u)
  then show "take_bit (pf_bit_width (pl_length f)) (of_nat c :: u64) = of_nat c"
    using packed_fits [OF S(5)] by blast
qed

text \<open>The header word reads back both fields: each write leaves the other's bits alone.\<close>

lemma packed_word_fields:
  assumes L: "layout_ok f"
    and t: "take_bit (pf_bit_width (pl_tag f)) (element_type el) = element_type el"
    and c: "val_size (elem_value el) + packed_overhead f \<le> unat (packed_mask (pf_bit_width (pl_length f)))"
  shows "take_bit (pf_bit_width (pl_tag f)) (drop_bit (pf_bit_offset (pl_tag f)) (packed_word f el)) =
           element_type el"
    and "unat (take_bit (pf_bit_width (pl_length f)) (drop_bit (pf_bit_offset (pl_length f)) (packed_word f el))) =
           val_size (elem_value el) + packed_overhead f"
proof -
  note S = layout_ok_simps [OF L] and C = packed_count_fits [OF L c]
  have disj: "pf_bit_offset (pl_tag f) + pf_bit_width (pl_tag f) \<le> pf_bit_offset (pl_length f) \<or>
      pf_bit_offset (pl_length f) + pf_bit_width (pl_length f) \<le> pf_bit_offset (pl_tag f)"
    using L by (auto simp: layout_ok_def)
  show "take_bit (pf_bit_width (pl_tag f)) (drop_bit (pf_bit_offset (pl_tag f)) (packed_word f el)) =
      element_type el"
    unfolding packed_word_def packed_insert_frame [OF S(5) C(2) disj S(6)]
    by (rule packed_insert_read [OF S(4) t S(6)])
  show "unat (take_bit (pf_bit_width (pl_length f)) (drop_bit (pf_bit_offset (pl_length f)) (packed_word f el))) =
      val_size (elem_value el) + packed_overhead f"
    unfolding packed_word_def packed_insert_read [OF S(5) C(2) S(7)] by (rule C(1))
qed

lemma packed_word_less:
  assumes L: "layout_ok f"
    and t: "take_bit (pf_bit_width (pl_tag f)) (element_type el) = element_type el"
    and c: "val_size (elem_value el) + packed_overhead f \<le> unat (packed_mask (pf_bit_width (pl_length f)))"
  shows "unat (packed_word f el) < 256 ^ pl_header_size f"
proof -
  note S = layout_ok_simps [OF L] and C = packed_count_fits [OF L c]
  have off: "pf_bit_offset (pl_tag f) + pf_bit_width (pl_tag f) \<le> 8 * pl_header_size f"
    "pf_bit_offset (pl_length f) + pf_bit_width (pl_length f) \<le> 8 * pl_header_size f"
    "8 * pl_header_size f \<le> 64"
    using L S(2) by (auto simp: layout_ok_def packed_validate_OK)
  show ?thesis
    unfolding packed_word_def pow2_octets [symmetric]
    by (rule packed_insert_fits [OF S(5) C(2) off(2,3)], rule packed_insert_fits [OF S(4) t off(1,3)]) simp
qed

lemma storage_word_header:
  assumes "layout_ok f" "unat w < 256 ^ pl_header_size f"
  shows "storage_word (pl_tag f) (uint_of (pf_byte_order (pl_tag f)) (pl_header_size f) (unat w) @ rest) = w"
  using assms by (simp add: storage_word_def layout_ok_def)

lemma storage_word_inj:
  assumes "layout_ok f" "length bs = pl_header_size f" "storage_word (pl_tag f) bs = w"
  shows "bs = uint_of (pf_byte_order (pl_tag f)) (pl_header_size f) (unat w)"
proof -
  let ?o = "pf_byte_order (pl_tag f)"
  have "uint_val ?o bs < 2 ^ 64"
    using uint_val_less [of ?o bs] pow256_le [of "pl_header_size f"] layout_ok_simps(2) [OF assms(1)] assms(2)
    by simp
  then have "unat w = uint_val ?o bs"
    using assms by (auto simp: storage_word_def layout_ok_def)
  then show ?thesis using assms(2) by simp
qed

lemma be_val_replicate_0 [simp]: "be_val (replicate n 0) = 0"
  by (induction n) (simp_all add: be_val_def)

lemma storage_word_zero:
  assumes "layout_ok f" "pl_header_size f \<le> length buf"
  shows "storage_word (pl_tag f) (blit 0 (replicate (pl_header_size f) 0) buf) = 0"
  using assms by (simp add: storage_word_def layout_ok_def blit_0 uint_val_def)

text \<open>Clearing the header and writing both fields leaves exactly the header word.\<close>

lemma packed_header_writes:
  assumes L: "layout_ok f"
    and t: "take_bit (pf_bit_width (pl_tag f)) (element_type el) = element_type el"
    and c: "val_size (elem_value el) + packed_overhead f \<le> unat (packed_mask (pf_bit_width (pl_length f)))"
    and cap: "pl_header_size f \<le> cap" "cap \<le> length buf"
  shows "snd (tlv_packed_field_write (Some (pl_length f))
      (snd (tlv_packed_field_write (Some (pl_tag f)) (Some (blit 0 (replicate (pl_header_size f) 0) buf)) cap
        (element_type el))) cap (of_nat (val_size (elem_value el) + packed_overhead f))) =
    Some (blit 0 (uint_of (pf_byte_order (pl_tag f)) (pl_header_size f) (unat (packed_word f el))) buf)"
proof -
  let ?hs = "pl_header_size f" and ?b0 = "blit 0 (replicate (pl_header_size f) 0) buf"
  note C = packed_count_fits [OF L c]
  have len0: "length ?b0 = length buf" using cap by simp
  have P: "packed_validate (pl_tag f) = TLV_OK" "pf_storage_size (pl_tag f) = ?hs"
    "packed_validate (pl_length f) = TLV_OK" "pf_storage_size (pl_length f) = ?hs"
    using L by (auto simp: layout_ok_def)
  obtain bs1 where b1: "length bs1 = ?hs" "tlv_packed_field_write (Some (pl_tag f)) (Some ?b0) cap
      (element_type el) = (TLV_OK, Some (bs1 @ drop ?hs ?b0))"
    "storage_word (pl_tag f) bs1 = packed_insert (pf_bit_offset (pl_tag f)) (pf_bit_width (pl_tag f)) 0
      (element_type el)"
    using packed_write_eq [OF P(1) _ _ t, of cap ?b0] P(2) cap len0 storage_word_zero [OF L, of buf] by auto
  let ?b1 = "bs1 @ drop ?hs ?b0"
  have len1: "length ?b1 = length buf" using b1(1) cap len0 by simp
  have "storage_word (pl_length f) ?b1 = storage_word (pl_tag f) bs1"
    using b1(1) P(2) by (simp add: storage_word_length [OF L]) (simp add: storage_word_def)
  then obtain bs2 where b2: "length bs2 = ?hs" "tlv_packed_field_write (Some (pl_length f)) (Some ?b1) cap
      (of_nat (val_size (elem_value el) + packed_overhead f)) = (TLV_OK, Some (bs2 @ drop ?hs ?b1))"
    "storage_word (pl_tag f) bs2 = packed_word f el"
    using packed_write_eq [OF P(3) _ _ C(2), of cap ?b1] P(4) cap len1 b1(3)
    by (auto simp: packed_word_def storage_word_length [OF L])
  have "bs2 = uint_of (pf_byte_order (pl_tag f)) ?hs (unat (packed_word f el))"
    by (rule storage_word_inj [OF L b2(1,3)])
  moreover have "drop ?hs ?b1 = drop ?hs buf" using b1(1) by (simp add: blit_0)
  ultimately show ?thesis using b1(2) b2(2) by (simp add: blit_0)
qed

lemma length_packed_wire:
  "element_wf el \<Longrightarrow> length (packed_wire f el) = pl_header_size f + val_size (elem_value el)"
  by (simp add: packed_wire_def element_wf_def)

lemma packed_encode_eq:
  assumes v: "tlv_packed_layout_validate (Some f) = TLV_OK" and wf: "element_wf el"
    and ok: "tlv_packed_measure (Some f) el encoding0 e = (TLV_OK, en, e')"
    and cap: "length (packed_wire f el) \<le> cap" "cap \<le> length buf"
  shows "tlv_packed_encode (Some f) el (Some buf) cap w e =
    (TLV_OK, Some (blit 0 (packed_wire f el) buf), length (packed_wire f el), e)"
proof -
  let ?hs = "pl_header_size f" and ?vs = "val_size (elem_value el)"
  let ?h = "uint_of (pf_byte_order (pl_tag f)) ?hs (unat (packed_word f el))"
  let ?vb = "value_bytes (elem_value el)"
  note L = tlv_packed_layout_validate_OK [OF v] and M = packed_measure_inv [OF v wf ok]
  note len = length_packed_wire [OF wf, of f]
  have hd: "?hs \<le> cap" using cap(1) len by simp
  note H = packed_header_writes [OF L M(4,5) hd cap(2)]
  have nn: "\<not> (?vs \<noteq> 0 \<and> val_data (elem_value el) = Null)"
    using wf by (auto simp: element_wf_def value_wf_def)
  have vb: "take ?vs (bytes (val_data (elem_value el))) = ?vb" by (simp add: value_bytes_def)
  have vlen: "length ?vb = ?vs" using wf by (simp add: element_wf_def)
  have bb: "blit ?hs ?vb (blit 0 ?h buf) = blit 0 (packed_wire f el) buf"
    using blit_blit(1) [of 0 ?h ?vb buf] cap len vlen by (simp add: packed_wire_def)
  have "?vs = 0 \<Longrightarrow> blit 0 ?h buf = blit 0 (packed_wire f el) buf"
    using vlen by (simp add: packed_wire_def)
  moreover have "en_total en \<le> cap" "en_total en = length (packed_wire f el)"
    using M(7) cap(1) len by auto
  ultimately show ?thesis
    using ok nn M(2,8) H bb
    by (cases "?vs = 0") (simp_all add: tlv_packed_encode_def Let_def vb flip: packed_overhead_def)
qed

lemma packed_decode_wire:
  assumes v: "tlv_packed_layout_validate (Some f) = TLV_OK" and wf: "element_wf el" and tab: "packed_table f"
    and ok: "tlv_packed_measure (Some f) el encoding0 e = (TLV_OK, en, e')"
    and n: "length (packed_wire f el) \<le> n" "readable q n"
      "take (length (packed_wire f el)) (bytes q) = packed_wire f el"
  shows "\<exists>r. tlv_packed_decode (Some f) q n d e0 = (TLV_OK, r, e0) \<and>
    src_size (dec_source r) = length (packed_wire f el) \<and> same_content (dec_element r) el"
proof -
  let ?hs = "pl_header_size f" and ?vs = "val_size (elem_value el)" and ?ty = "element_type el"
  let ?tp = "ptr_add (pl_tag_storage f) (unat ?ty * pl_tag_size f)"
  note L = tlv_packed_layout_validate_OK [OF v] and M = packed_measure_inv [OF v wf ok]
  note len = length_packed_wire [OF wf, of f] and S = layout_ok_simps [OF tlv_packed_layout_validate_OK [OF v]]
  note W = packed_word_fields [OF L M(4,5)] and less = packed_word_less [OF L M(4,5)]
  obtain rest where q: "bytes q = packed_wire f el @ rest"
    using n(3) by (metis append_take_drop_id)
  have sw: "storage_word (pl_tag f) (bytes q) = packed_word f el"
    by (simp add: q packed_wire_def storage_word_header [OF L less])
  have ty: "packed_type f (bytes q) = ?ty" using W(1) by (simp add: packed_type_def sw)
  have cnt: "unat (packed_count f (bytes q)) = ?vs + packed_overhead f"
    using W(2) by (simp add: packed_count_def storage_word_length [OF L] sw)
  have tless: "unat ?ty < 2 ^ pf_bit_width (pl_tag f)"
    using M(4) by (simp add: unat_less_pow_iff)
  have entry: "take (pl_tag_size f) (bytes ?tp) = be_of (pl_tag_size f) (unat ?ty)"
    using tab tless by (simp add: packed_table_def)
  then have rd: "readable ?tp (pl_tag_size f)"
    unfolding readable_def by (metis length_be_of length_take min.cobounded1)
  have tb: "be_of (pl_tag_size f) (unat ?ty) = tag_bytes (elem_tag el)"
    using M(1,3) wf by (simp add: element_wf_def)
  have "pl_tag_size f \<le> 8" using L by (simp add: layout_ok_def)
  moreover have "uint_val TLV_BYTE_ORDER_BIG_ENDIAN (take (pl_tag_size f) (bytes ?tp)) = unat ?ty"
    unfolding entry tb by (simp add: uint_val_def M(3))
  ultimately have canon: "packed_canonical f ?ty"
    using tlv_read_uint_unat [OF rd S(3), of TLV_BYTE_ORDER_BIG_ENDIAN]
    by (simp add: packed_canonical_def known_order_def del: bytes_ptr_add)
  have "tlv_packed_decode (Some f) q n d e0 = (TLV_OK, packed_result f q ?ty ?vs, e0)"
    using packed_decode_header(2) [OF v _ n(2), of d e0] n(1) len cnt ty canon by simp
  moreover have "same_content (dec_element (packed_result f q ?ty ?vs)) el"
    using entry tb wf
    by (simp add: same_content_def packed_result_def tag_bytes_def [of "tlv_tag _ _"] element_wf_def)
      (simp add: value_bytes_def value_wf_def readable_def q packed_wire_def)
  ultimately show ?thesis by (simp add: packed_result_def len)
qed

lemma packed_format_codec:
  assumes v: "tlv_packed_layout_validate (Some f) = TLV_OK" and tab: "packed_table f"
  shows "format_codec (tlv_packed_decode (Some f)) (tlv_packed_measure (Some f)) (tlv_packed_encode (Some f))
    (packed_wire f)"
proof (intro format_codec.intro format_codec_axioms.intro packed_prefix_decoder [OF v])
  fix el en e
  assume el: "element_wf el" "tlv_packed_measure (Some f) el encoding0 error0 = (TLV_OK, en, e)"
  note M = packed_measure_inv [OF v el]
  from M(6,7) length_packed_wire [OF el(1)] layout_ok_simps(1) [OF tlv_packed_layout_validate_OK [OF v]]
  show "en_value en = val_size (elem_value el) \<and> en_total en = en_header en + en_value en + en_trailer en \<and>
      0 < en_total en \<and> en_total en \<le> TLV_SIZE_MAX \<and> length (packed_wire f el) = en_total en" by simp
next
  fix el assume el: "element_wf el" "fst (tlv_packed_measure (Some f) el encoding0 error0) = TLV_OK"
  obtain en e where m: "tlv_packed_measure (Some f) el encoding0 error0 = (TLV_OK, en, e)"
    using el(2) by (metis prod.exhaust_sel)
  show "tlv_packed_encode (Some f) el (Some buf) cap 0 error0 =
      (TLV_OK, Some (blit 0 (packed_wire f el) buf), length (packed_wire f el), error0)"
    if "length (packed_wire f el) \<le> cap" "cap \<le> length buf" for cap buf
    by (rule packed_encode_eq [OF v el(1) m that])
  show "\<exists>r e. tlv_packed_decode (Some f) q n decoded0 error0 = (TLV_OK, r, e) \<and>
      src_size (dec_source r) = length (packed_wire f el) \<and> same_content (dec_element r) el"
    if "length (packed_wire f el) \<le> n" "readable q n"
      "take (length (packed_wire f el)) (bytes q) = packed_wire f el" for n q
    using packed_decode_wire [OF v el(1) tab m that] by blast
qed

end
