(* ===== verification/TLV_BER.thy ===== *)
theory TLV_BER
  imports TLV_Writer TLV_Formats
begin

text \<open>
  The ASN.1 formats (\<^verbatim>\<open>builtins/asn1\<close>): identifiers (\<^verbatim>\<open>identifier.c\<close>, \<^verbatim>\<open>asn1_internal.c\<close>), BER with
  definite and indefinite lengths (\<^verbatim>\<open>ber_internal.c\<close>, \<^verbatim>\<open>ber.c\<close>), DER (\<^verbatim>\<open>der.c\<close>) and CER framing
  (\<^verbatim>\<open>cer.c\<close>).  They are compositions over variable fields; an indefinite length is resolved by a scan
  of the nested framing that uses a bounded stack instead of recursion.

  Tag numbers are \<open>nat\<close> with the width of \<^verbatim>\<open>uint64_t\<close> written out where the code checks it.
\<close>

unbundle bit_operations_syntax

section \<open>Identifiers (identifier.h, identifier.c)\<close>

datatype tlv_asn1_class_t =
    TLV_ASN1_UNIVERSAL | TLV_ASN1_APPLICATION | TLV_ASN1_CONTEXT_SPECIFIC | TLV_ASN1_PRIVATE
  | TLV_ASN1_CLASS_OTHER int

definition TLV_ASN1_CONSTRUCTED_BIT :: u8 where
  "TLV_ASN1_CONSTRUCTED_BIT = 0x20"

definition TLV_ASN1_TAG_NUMBER_MASK :: u8 where
  "TLV_ASN1_TAG_NUMBER_MASK = 0x1F"

definition TLV_ASN1_LOW_TAG_LIMIT :: nat where
  "TLV_ASN1_LOW_TAG_LIMIT = 31"

definition TLV_ASN1_TAG_MAX_SIZE :: nat where
  "TLV_ASN1_TAG_MAX_SIZE = 8"

text \<open>The class value shifted to its position, for the four classes.\<close>

definition class_bits :: "tlv_asn1_class_t \<Rightarrow> u8" where
  "class_bits c = push_bit 6
     (case c of TLV_ASN1_UNIVERSAL \<Rightarrow> 0 | TLV_ASN1_APPLICATION \<Rightarrow> 1 | TLV_ASN1_CONTEXT_SPECIFIC \<Rightarrow> 2
      | TLV_ASN1_PRIVATE \<Rightarrow> 3 | TLV_ASN1_CLASS_OTHER i \<Rightarrow> of_int i)"

definition tlv_asn1_tag_class :: "tlv_tag_t \<Rightarrow> tlv_asn1_class_t" where
  "tlv_asn1_tag_class tag =
     (let c = unat (drop_bit 6 (byte_at (tag_data tag) 0)) in
      if c = 0 then TLV_ASN1_UNIVERSAL else if c = 1 then TLV_ASN1_APPLICATION
      else if c = 2 then TLV_ASN1_CONTEXT_SPECIFIC else TLV_ASN1_PRIVATE)"

definition tlv_asn1_tag_is_constructed :: "tlv_tag_t \<Rightarrow> bool" where
  "tlv_asn1_tag_is_constructed tag \<longleftrightarrow> byte_at (tag_data tag) 0 AND TLV_ASN1_CONSTRUCTED_BIT \<noteq> 0"

definition tlv_asn1_is_constructed :: "tlv_tag_t \<Rightarrow> bool" where
  "tlv_asn1_is_constructed tag =
     tlv_constructed_bit_predicate
       (Some \<lparr>cb_byte_index = 0, cb_mask = TLV_ASN1_CONSTRUCTED_BIT, cb_value = TLV_ASN1_CONSTRUCTED_BIT\<rparr>)
       (Some tag)"

text \<open>The base-128 digits of a number, least significant first (the \<^verbatim>\<open>do\<close> loop).\<close>

function tag_digits :: "nat \<Rightarrow> u8 list" where
  "tag_digits number =
     of_nat (take_bit 7 number) # (let rest = drop_bit 7 number in if rest \<noteq> 0 then tag_digits rest else [])"
  by pat_completeness auto
termination by (relation "measure id") (auto simp: drop_bit_eq_div)

declare tag_digits.simps [simp del]

text \<open>The digits in wire order, all but the last with the continuation bit.\<close>

fun digit_octets :: "u8 list \<Rightarrow> u8 list" where
  "digit_octets [] = []"
| "digit_octets [d] = [d]"
| "digit_octets (d # ds) = (d OR 0x80) # digit_octets ds"

definition tag_octets :: "tlv_asn1_class_t \<Rightarrow> nat \<Rightarrow> nat \<Rightarrow> u8 list" where
  "tag_octets tag_class constructed number =
     (let lead = class_bits tag_class OR (if constructed \<noteq> 0 then TLV_ASN1_CONSTRUCTED_BIT else 0) in
      if number < TLV_ASN1_LOW_TAG_LIMIT then [lead OR of_nat number]
      else (lead OR TLV_ASN1_TAG_NUMBER_MASK) # digit_octets (rev (tag_digits number)))"

definition tlv_asn1_tag_make_checked ::
  "tlv_write_tag_fn \<Rightarrow> tlv_asn1_class_t \<Rightarrow> nat \<Rightarrow> nat \<Rightarrow> obuf \<Rightarrow> bool
     \<Rightarrow> tlv_result_t \<times> obuf \<times> tlv_tag_t option" where
  "tlv_asn1_tag_make_checked validate tag_class constructed number storage tag_ok =
     (if storage = None \<or> \<not> tag_ok then (TLV_ERR_NULL_ARG, storage, None)
      else if (case tag_class of TLV_ASN1_CLASS_OTHER i \<Rightarrow> True | _ \<Rightarrow> False) \<or> (constructed \<noteq> 0 \<and> constructed \<noteq> 1)
      then (TLV_ERR_INVALID_TAG, storage, None)
      else let octets = tag_octets tag_class constructed number in
        if length octets > TLV_ASN1_TAG_MAX_SIZE then (TLV_ERR_INVALID_TAG_SIZE, storage, None)
        else if fst (validate (tlv_tag (Ptr 0 (octets @ replicate (TLV_ASN1_TAG_MAX_SIZE - length octets) 0))
                                 (length octets)) None 0) \<noteq> TLV_OK
        then (TLV_ERR_INVALID_TAG, storage, None)
        else let storage = obuf_blit 0 octets storage in
             (TLV_OK, storage, Some (tlv_tag (buf_ptr storage 0) (length octets))))"

text \<open>The number of a high-number identifier; \<open>None\<close> is the overflow exit.\<close>

fun number_fold :: "u8 list \<Rightarrow> nat \<Rightarrow> nat option" where
  "number_fold [] v = Some v"
| "number_fold (octet # rest) v =
     (if v > TLV_SIZE_MAX div 128 then None
      else number_fold rest (push_bit 7 v OR unat (octet AND 0x7F)))"

definition tlv_asn1_tag_number_checked ::
  "tlv_write_tag_fn \<Rightarrow> tlv_tag_t option \<Rightarrow> bool \<Rightarrow> tlv_result_t \<times> nat option" where
  "tlv_asn1_tag_number_checked validate tag number_ok =
     (case tag of None \<Rightarrow> (TLV_ERR_NULL_ARG, None)
      | Some t \<Rightarrow>
          if \<not> number_ok then (TLV_ERR_NULL_ARG, None)
          else let rc = fst (validate t None 0) in
            if rc \<noteq> TLV_OK then (rc, None)
            else if tag_size t > 1
            then (case number_fold (drop 1 (take (tag_size t) (bytes (tag_data t)))) 0 of
                    None \<Rightarrow> (TLV_ERR_INVALID_TAG, None) | Some v \<Rightarrow> (TLV_OK, Some v))
            else (TLV_OK, Some (unat (byte_at (tag_data t) 0 AND TLV_ASN1_TAG_NUMBER_MASK))))"

section \<open>Field encodings (ber\_internal.c, asn1\_internal.c)\<close>

definition ber_identifier_policy :: tlv_identifier_policy_t where
  "ber_identifier_policy = \<lparr>ip_forbidden_leading = None, ip_forbidden_leading_count = 0,
     ip_reject_zero_first_payload = 1, ip_require_minimal = 0\<rparr>"

definition ber_length_policy :: tlv_length_policy_t where
  "ber_length_policy = \<lparr>lp_allow_short = 1, lp_allow_long = 1, lp_require_minimal = 0,
     lp_max_long_octets = 126, lp_max_value = TLV_SIZE_MAX\<rparr>"

definition ber_identifier :: tlv_variable_identifier_t where
  "ber_identifier = \<lparr>vi_inline_mask = TLV_ASN1_TAG_NUMBER_MASK, vi_escape = TLV_ASN1_TAG_NUMBER_MASK,
     vi_continuation_bit = 0x80, vi_payload_mask = 0x7F, vi_max_size = TLV_ASN1_TAG_MAX_SIZE,
     vi_policy = Some ber_identifier_policy\<rparr>"

definition ber_length :: tlv_variable_length_t where
  "ber_length = \<lparr>vl_long_form_bit = 0x80, vl_payload_mask = 0x7F, vl_byte_order = TLV_BYTE_ORDER_BIG_ENDIAN,
     vl_policy = Some ber_length_policy\<rparr>"

definition wire_read_tag :: tlv_read_tag_fn where
  "wire_read_tag data sz = tlv_variable_identifier_read (Some ber_identifier) data sz True"

definition wire_write_tag :: tlv_write_tag_fn where
  "wire_write_tag tag data capacity =
     tlv_variable_identifier_write (Some ber_identifier) (Some tag) data capacity True"

definition wire_read_length :: tlv_read_length_fn where
  "wire_read_length data sz = tlv_variable_length_read (Some ber_length) data sz True"

definition tlv_ber_length_field_size :: "ptr \<Rightarrow> nat \<Rightarrow> nat" where
  "tlv_ber_length_field_size data sz = out (snd (snd (wire_read_length data sz))) 0"

definition tlv_ber_length_decode ::
  "ptr \<Rightarrow> nat \<Rightarrow> bool \<Rightarrow> tlv_result_t \<times> nat option \<times> nat option" where
  "tlv_ber_length_decode data data_size outs =
     (if (data = Null \<and> data_size \<noteq> 0) \<or> \<not> outs then (TLV_ERR_NULL_ARG, None, None)
      else case wire_read_length data data_size of
        (rc, v, used) \<Rightarrow> if rc \<noteq> TLV_OK then (rc, None, None) else (TLV_OK, v, used))"

definition tlv_ber_length_encode ::
  "nat \<Rightarrow> obuf \<Rightarrow> nat \<Rightarrow> bool \<Rightarrow> tlv_result_t \<times> obuf \<times> nat option" where
  "tlv_ber_length_encode v dst capacity written_ok =
     tlv_variable_length_write (Some ber_length) v dst capacity written_ok"

definition tlv_ber_write_length :: tlv_write_length_fn where
  "tlv_ber_write_length len data capacity = tlv_ber_length_encode len data capacity True"

definition tlv_ber_wire :: tlv_field_composition_t where
  "tlv_ber_wire = \<lparr>fc_read_tag = Some wire_read_tag, fc_read_length = Some wire_read_length, fc_resolve = None,
     fc_write_tag = Some wire_write_tag, fc_write_length = Some tlv_ber_write_length,
     fc_element_order = TLV_ELEMENT_ORDER_TLV, fc_length_scope = TLV_LENGTH_SCOPE_VALUE\<rparr>"

definition tlv_asn1_number_must_construct :: "nat \<Rightarrow> bool" where
  "tlv_asn1_number_must_construct number \<longleftrightarrow>
     number = 8 \<or> number = 11 \<or> number = 16 \<or> number = 17 \<or> number = 29"

definition asn1_identifier :: tlv_variable_identifier_t where
  "asn1_identifier = \<lparr>vi_inline_mask = TLV_ASN1_TAG_NUMBER_MASK, vi_escape = TLV_ASN1_TAG_NUMBER_MASK,
     vi_continuation_bit = 0x80, vi_payload_mask = 0x7F, vi_max_size = TLV_ASN1_TAG_MAX_SIZE,
     vi_policy = Some \<lparr>ip_forbidden_leading = None, ip_forbidden_leading_count = 0,
       ip_reject_zero_first_payload = 1, ip_require_minimal = 1\<rparr>\<rparr>"

text \<open>The number of an identifier of \<open>count\<close> octets, as far as the universal types need it.\<close>

definition short_number :: "ptr \<Rightarrow> nat \<Rightarrow> nat" where
  "short_number data count =
     (if count = 1 then unat (byte_at data 0 AND TLV_ASN1_TAG_NUMBER_MASK)
      else if count = 2 then unat (byte_at data 1) else 127)"

definition tlv_asn1_read_identifier :: tlv_read_tag_fn where
  "tlv_asn1_read_identifier data sz =
     (if data = Null \<and> sz \<noteq> 0 then (TLV_ERR_NULL_ARG, None, None)
      else case tlv_variable_identifier_read (Some asn1_identifier) data sz True of
        (rc, parsed, count) \<Rightarrow>
          if rc \<noteq> TLV_OK then (rc, None, if rc = TLV_ERR_TRUNCATED then count else None)
          else let number = short_number data (out count 0) in
            if byte_at data 0 AND 0xC0 = 0 \<and> (number = 0 \<or> number = 15) then (TLV_ERR_INVALID_TAG, None, None)
            else if byte_at data 0 AND 0xC0 = 0 \<and> tlv_asn1_number_must_construct number \<and>
                    byte_at data 0 AND TLV_ASN1_CONSTRUCTED_BIT = 0
            then (TLV_ERR_INVALID_TAG, None, None)
            else (TLV_OK, parsed, count))"

definition tlv_asn1_write_identifier_checked ::
  "tlv_read_tag_fn option \<Rightarrow> tlv_tag_t option \<Rightarrow> obuf \<Rightarrow> nat \<Rightarrow> bool
     \<Rightarrow> tlv_result_t \<times> obuf \<times> nat option" where
  "tlv_asn1_write_identifier_checked read_identifier tag data capacity written_ok =
     (case (read_identifier, tag) of
        (Some rd, Some t) \<Rightarrow>
          if (tag_data t = Null \<and> tag_size t \<noteq> 0) \<or> (data = None \<and> capacity \<noteq> 0) \<or> \<not> written_ok
          then (TLV_ERR_NULL_ARG, data, None)
          else if tag_size t = 0 \<or> tag_size t > TLV_ASN1_TAG_MAX_SIZE
          then (TLV_ERR_INVALID_TAG_SIZE, data, None)
          else (case rd (tag_data t) (tag_size t) of
                  (rc, parsed, consumed) \<Rightarrow>
                    let count = out consumed 0 in
                    if rc = TLV_ERR_INVALID_TAG_SIZE then (rc, data, None)
                    else if rc \<noteq> TLV_OK \<or> count \<noteq> tag_size t then (TLV_ERR_INVALID_TAG, data, None)
                    else if data \<noteq> None \<and> capacity < count then (TLV_ERR_BUFFER_TOO_SHORT, data, None)
                    else (TLV_OK, obuf_blit 0 (take count (bytes (tag_data t))) data, Some count))
      | _ \<Rightarrow> (TLV_ERR_NULL_ARG, data, None))"

definition tlv_asn1_write_identifier :: tlv_write_tag_fn where
  "tlv_asn1_write_identifier tag data capacity =
     tlv_asn1_write_identifier_checked (Some tlv_asn1_read_identifier) (Some tag) data capacity True"

definition asn1_minimal_length :: tlv_variable_length_t where
  "asn1_minimal_length = \<lparr>vl_long_form_bit = 0x80, vl_payload_mask = 0x7F,
     vl_byte_order = TLV_BYTE_ORDER_BIG_ENDIAN,
     vl_policy = Some \<lparr>lp_allow_short = 1, lp_allow_long = 1, lp_require_minimal = 1,
       lp_max_long_octets = 126, lp_max_value = TLV_SIZE_MAX\<rparr>\<rparr>"

definition tlv_asn1_read_minimal_length :: tlv_read_length_fn where
  "tlv_asn1_read_minimal_length data sz = tlv_variable_length_read (Some asn1_minimal_length) data sz True"

section \<open>BER (ber.c)\<close>

definition reserved_lead :: "u8 \<Rightarrow> bool" where
  "reserved_lead b \<longleftrightarrow> b = 0 \<or> b = TLV_ASN1_CONSTRUCTED_BIT"

definition ber_read_tag :: tlv_read_tag_fn where
  "ber_read_tag data sz =
     (if data = Null \<and> sz \<noteq> 0 then (TLV_ERR_NULL_ARG, None, None)
      else if sz \<noteq> 0 \<and> reserved_lead (byte_at data 0) then (TLV_ERR_INVALID_TAG, None, None)
      else wire_read_tag data sz)"

definition ber_write_tag :: tlv_write_tag_fn where
  "ber_write_tag tag data capacity =
     (if (tag_data tag = Null \<and> tag_size tag \<noteq> 0) \<or> (data = None \<and> capacity \<noteq> 0)
      then (TLV_ERR_NULL_ARG, data, None)
      else if tag_size tag \<noteq> 0 \<and> tag_data tag \<noteq> Null \<and> reserved_lead (byte_at (tag_data tag) 0)
      then (TLV_ERR_INVALID_TAG, data, None)
      else wire_write_tag tag data capacity)"

definition ber_read_length :: tlv_read_length_fn where
  "ber_read_length data sz =
     (if data = Null \<and> sz \<noteq> 0 then (TLV_ERR_NULL_ARG, None, None) else wire_read_length data sz)"

definition tlv_ber_tag_make ::
  "tlv_asn1_class_t \<Rightarrow> nat \<Rightarrow> nat \<Rightarrow> obuf \<Rightarrow> bool \<Rightarrow> tlv_result_t \<times> obuf \<times> tlv_tag_t option" where
  "tlv_ber_tag_make tag_class constructed number storage tag_ok =
     tlv_asn1_tag_make_checked ber_write_tag tag_class constructed number storage tag_ok"

definition tlv_ber_tag_number :: "tlv_tag_t option \<Rightarrow> bool \<Rightarrow> tlv_result_t \<times> nat option" where
  "tlv_ber_tag_number tag number_ok = tlv_asn1_tag_number_checked ber_write_tag tag number_ok"

definition TLV_BER_MAX_DEPTH :: nat where
  "TLV_BER_MAX_DEPTH = 64"

text \<open>
  \<^verbatim>\<open>scan_failure\<close>.  A \<^verbatim>\<open>NULL\<close> error detail is one that the caller ignores.
\<close>

definition scan_failure ::
  "tlv_format_error_t \<Rightarrow> tlv_result_t \<Rightarrow> nat \<Rightarrow> tlv_region_t \<Rightarrow> bool \<Rightarrow> tlv_result_t \<times> tlv_format_error_t" where
  "scan_failure error code offset region bounded =
     (let code = (if code = TLV_ERR_TRUNCATED \<and> bounded then TLV_ERR_INVALID_LENGTH else code);
          error = error\<lparr>fe_region := region, fe_offset := offset, fe_has_offset := True\<rparr>
      in (code, if region = TLV_REGION_TRAILER \<and> code = TLV_ERR_TRUNCATED
                then error\<lparr>fe_has_required := True, fe_required := 2\<rparr> else error))"

text \<open>
  The three arrays \<^verbatim>\<open>ends\<close>, \<^verbatim>\<open>terminated\<close> and \<^verbatim>\<open>bounded\<close> are one stack of scopes, innermost first; its
  length is the variable \<^verbatim>\<open>depth\<close>.
\<close>

record ber_scope =
  sc_end :: nat
  sc_terminated :: bool
  sc_bounded :: bool

type_synonym scan_result = "tlv_result_t \<times> (nat \<times> nat) option \<times> tlv_format_error_t"

definition scan_fail ::
  "tlv_format_error_t \<Rightarrow> tlv_result_t \<Rightarrow> nat \<Rightarrow> tlv_region_t \<Rightarrow> ber_scope \<Rightarrow> scan_result" where
  "scan_fail error code pos region sc =
     (case scan_failure error code pos region (sc_bounded sc) of (rc, e) \<Rightarrow> (rc, None, e))"

text \<open>The header of a child at \<open>pos\<close>: its value's start and size, whether it is constructed and indefinite.\<close>

definition scan_header ::
  "ptr \<Rightarrow> ber_scope \<Rightarrow> nat \<Rightarrow> tlv_format_error_t \<Rightarrow> scan_result + (nat \<times> nat \<times> bool \<times> bool)" where
  "scan_header data sc pos error =
     (let limit = sc_end sc in
      case ber_read_tag (ptr_add data pos) (limit - pos) of
        (rc, otag, oused) \<Rightarrow>
          if rc \<noteq> TLV_OK then Inl (scan_fail error rc pos TLV_REGION_TAG sc)
          else let pos = pos + out oused 0; constructed = tlv_asn1_is_constructed (the otag) in
            if pos = limit then Inl (scan_fail error TLV_ERR_TRUNCATED pos TLV_REGION_LENGTH sc)
            else if byte_at data pos = 0x80
            then (if \<not> constructed then Inl (scan_fail error TLV_ERR_INVALID_LENGTH pos TLV_REGION_LENGTH sc)
                  else Inr (pos + 1, limit - (pos + 1), True, True))
            else case ber_read_length (ptr_add data pos) (limit - pos) of
              (rc, olen, olsz) \<Rightarrow>
                if rc \<noteq> TLV_OK then Inl (scan_fail error rc pos TLV_REGION_LENGTH sc)
                else let pos = pos + out olsz 0; len = out olen 0 in
                  if len > limit - pos
                  then Inl (scan_fail (error\<lparr>fe_has_required := True, fe_required := len\<rparr>)
                              TLV_ERR_TRUNCATED pos TLV_REGION_VALUE sc)
                  else Inr (pos, len, constructed, False))"

lemma wire_read_tag_bounds:
  "wire_read_tag p n = (TLV_OK, ot, oc) \<Longrightarrow> \<exists>k. oc = Some k \<and> ot = Some (tlv_tag p k) \<and> 0 < k \<and> k \<le> n"
  by (auto simp: wire_read_tag_def tlv_variable_identifier_read_def Let_def dest: identifier_scan_bounds
      split: if_splits prod.splits)

lemma wire_read_length_bounds:
  "wire_read_length p n = (TLV_OK, ol, oc) \<Longrightarrow> \<exists>l k. ol = Some l \<and> oc = Some k \<and> 0 < k \<and> k \<le> n"
  by (auto simp: wire_read_length_def tlv_variable_length_read_def Let_def
      split: if_splits prod.splits option.splits dest!: sym [where s = "Some _"])

lemma ber_read_tag_wire: "ber_read_tag p n = (TLV_OK, ot, oc) \<Longrightarrow> wire_read_tag p n = (TLV_OK, ot, oc)"
  by (auto simp: ber_read_tag_def split: if_splits)

lemma ber_read_length_wire: "ber_read_length p n = (TLV_OK, ot, oc) \<Longrightarrow> wire_read_length p n = (TLV_OK, ot, oc)"
  by (auto simp: ber_read_length_def split: if_splits)

lemma scan_header_bounds:
  assumes "scan_header data sc pos e = Inr (pos', len, c, i)"
  shows "pos + 2 \<le> pos'" "pos' + len \<le> sc_end sc" "i \<longrightarrow> c" "i \<longrightarrow> pos' + len = sc_end sc"
proof -
  from assms obtain k ot where t: "ber_read_tag (ptr_add data pos) (sc_end sc - pos) = (TLV_OK, ot, Some k)"
    "0 < k" "k \<le> sc_end sc - pos" "pos + k \<noteq> sc_end sc"
    by (auto simp: scan_header_def Let_def split: prod.splits if_splits
        dest!: ber_read_tag_wire wire_read_tag_bounds)
  then have k: "pos + k < sc_end sc" by linarith
  have "pos + 2 \<le> pos' \<and> pos' + len \<le> sc_end sc \<and> (i \<longrightarrow> c) \<and> (i \<longrightarrow> pos' + len = sc_end sc)"
  proof (cases "byte_at data (pos + k) = 0x80")
    case True
    with assms t k show ?thesis by (auto simp: scan_header_def Let_def split: if_splits)
  next
    case False
    then obtain l kl where "ber_read_length (ptr_add data (pos + k)) (sc_end sc - (pos + k)) = (TLV_OK, Some l, Some kl)"
      "0 < kl" "kl \<le> sc_end sc - (pos + k)"
      using assms t k
      by (auto simp: scan_header_def Let_def split: prod.splits if_splits
          dest!: ber_read_length_wire wire_read_length_bounds)
    with False assms t k show ?thesis by (auto simp: scan_header_def Let_def split: if_splits)
  qed
  then show "pos + 2 \<le> pos'" "pos' + len \<le> sc_end sc" "i \<longrightarrow> c" "i \<longrightarrow> pos' + len = sc_end sc" by auto
qed

definition scan_room :: "ber_scope list \<Rightarrow> nat" where
  "scan_room scopes = foldr max (map sc_end scopes) 0"

function scan_loop :: "ptr \<Rightarrow> ber_scope list \<Rightarrow> nat \<Rightarrow> tlv_format_error_t \<Rightarrow> scan_result" where
  "scan_loop data [] pos error = (TLV_OK, Some (pos, pos), error)"
| "scan_loop data (sc # scs) pos error =
     (if pos = sc_end sc then
        (if sc_terminated sc then scan_fail error TLV_ERR_TRUNCATED pos TLV_REGION_TRAILER sc
         else if scs = [] then (TLV_OK, Some (pos, pos), error)
         else scan_loop data scs pos error)
      else if byte_at data pos = 0 then
        (if sc_end sc - pos < 2 then scan_fail error TLV_ERR_TRUNCATED pos TLV_REGION_TRAILER sc
         else if byte_at data (pos + 1) \<noteq> 0 then scan_fail error TLV_ERR_INVALID_LENGTH pos TLV_REGION_TRAILER sc
         else if \<not> sc_terminated sc then scan_fail error TLV_ERR_INVALID_TAG pos TLV_REGION_TRAILER sc
         else if scs = [] then (TLV_OK, Some (pos, pos + 2), error)
         else scan_loop data scs (pos + 2) error)
      else case scan_header data sc pos error of
        Inl failed \<Rightarrow> failed
      | Inr (pos, len, constructed, indefinite) \<Rightarrow>
          if constructed then
            (if length (sc # scs) = TLV_BER_MAX_DEPTH
             then scan_fail error TLV_ERR_LIMIT pos
                    (if indefinite then TLV_REGION_LENGTH else TLV_REGION_VALUE) sc
             else scan_loop data
                    (\<lparr>sc_end = pos + len, sc_terminated = indefinite, sc_bounded = sc_bounded sc \<or> \<not> indefinite\<rparr>
                       # sc # scs) pos error)
          else scan_loop data (sc # scs) (pos + len) error)"
  by pat_completeness auto
termination
  by (relation "measure (\<lambda>(d, scs, pos, e). 2 * (scan_room scs - pos) + length scs)")
    (auto simp: scan_room_def, (frule scan_header_bounds(1), drule scan_header_bounds(2), arith)+)

declare scan_loop.simps [simp del]

definition tlv_ber_scan_contents_diag ::
  "ptr \<Rightarrow> nat \<Rightarrow> bool \<Rightarrow> tlv_format_error_t \<Rightarrow> scan_result" where
  "tlv_ber_scan_contents_diag data sz indefinite error =
     scan_loop data [\<lparr>sc_end = sz, sc_terminated = indefinite, sc_bounded = False\<rparr>] 0 error"

definition tlv_ber_scan_contents :: "ptr \<Rightarrow> nat \<Rightarrow> bool \<Rightarrow> tlv_result_t \<times> (nat \<times> nat) option" where
  "tlv_ber_scan_contents data sz indefinite =
     (case tlv_ber_scan_contents_diag data sz indefinite error0 of (rc, r, e) \<Rightarrow> (rc, r))"

definition shift_error :: "tlv_format_error_t \<Rightarrow> tlv_format_error_t" where
  "shift_error e = (if fe_has_offset e then e\<lparr>fe_offset := fe_offset e + 1\<rparr> else e)"

definition ber_read_value_bounds :: tlv_resolve_bounds_fn where
  "ber_read_value_bounds tag data sz error =
     (if sz = 0 \<or> byte_at data 0 \<noteq> 0x80
      then (case ber_read_length data sz of
              (rc, len, lsz) \<Rightarrow>
                if rc \<noteq> TLV_OK then (rc, lsz, None, None, error)
                else (TLV_OK, lsz, len, Some 0, error))
      else if \<not> tlv_asn1_is_constructed tag then (TLV_ERR_INVALID_LENGTH, Some 1, None, None, error)
      else case tlv_ber_scan_contents_diag (ptr_add data 1) (sz - 1) True error of
        (rc, r, error) \<Rightarrow>
          if rc \<noteq> TLV_OK then (rc, Some 1, None, None, shift_error error)
          else (TLV_OK, Some 1, map_option fst r, Some 2, error))"

definition tlv_ber_fields :: tlv_field_composition_t where
  "tlv_ber_fields = \<lparr>fc_read_tag = Some ber_read_tag, fc_read_length = Some ber_read_length,
     fc_resolve = Some ber_read_value_bounds, fc_write_tag = Some ber_write_tag,
     fc_write_length = Some tlv_ber_write_length, fc_element_order = TLV_ELEMENT_ORDER_TLV,
     fc_length_scope = TLV_LENGTH_SCOPE_VALUE\<rparr>"

definition tlv_format_ber :: tlv_format_t where
  "tlv_format_ber = \<lparr>fmt_decode = Some (tlv_fields_decode tlv_ber_fields),
     fmt_measure = Some (tlv_fields_measure tlv_ber_fields),
     fmt_encode = Some (tlv_fields_encode tlv_ber_fields), fmt_is_constructed = Some tlv_asn1_is_constructed\<rparr>"

definition indefinite_failure :: "tlv_format_error_t \<Rightarrow> tlv_region_t \<Rightarrow> nat \<Rightarrow> tlv_format_error_t" where
  "indefinite_failure error region offset =
     error\<lparr>fe_region := region, fe_offset := offset, fe_has_offset := True\<rparr>"

definition tlv_asn1_indefinite_measure :: "tlv_field_composition_t \<Rightarrow> tlv_measure_fn" where
  "tlv_asn1_indefinite_measure flds element sizes error =
     (case the (fc_write_tag flds) (elem_tag element) None 0 of
        (rc, _, otag_size) \<Rightarrow>
          let rc = (if rc = TLV_OK \<and> \<not> tlv_asn1_is_constructed (elem_tag element) then TLV_ERR_INVALID_LENGTH
                    else rc) in
          if rc \<noteq> TLV_OK then (rc, sizes, indefinite_failure error TLV_REGION_TAG 0)
          else let sizes = sizes\<lparr>en_header := out otag_size 0 + 1, en_value := val_size (elem_value element),
                                en_trailer := 2\<rparr> in
            case tlv_size_add (en_header sizes) (en_value sizes) True of
              (rc, t1) \<Rightarrow>
                let sizes = sizes\<lparr>en_total := out t1 (en_total sizes)\<rparr> in
                if rc \<noteq> TLV_OK then (rc, sizes, indefinite_failure error TLV_REGION_TAG 0)
                else case tlv_size_add (en_total sizes) (en_trailer sizes) True of
                  (rc, t2) \<Rightarrow>
                    let sizes = sizes\<lparr>en_total := out t2 (en_total sizes)\<rparr> in
                    if rc \<noteq> TLV_OK then (rc, sizes, indefinite_failure error TLV_REGION_TAG 0)
                    else (TLV_OK, sizes, error))"

definition tlv_asn1_indefinite_encode :: "tlv_field_composition_t \<Rightarrow> tlv_encode_fn" where
  "tlv_asn1_indefinite_encode flds element data capacity written error =
     (case tlv_asn1_indefinite_measure flds element encoding0 error of
        (rc, sizes, error) \<Rightarrow>
          if rc \<noteq> TLV_OK then (rc, data, written, error)
          else case tlv_size_to_native (en_total sizes) True of
            (rc, ototal) \<Rightarrow>
              let total = out ototal 0;
                  rc = (if rc = TLV_OK \<and> capacity < total then TLV_ERR_BUFFER_TOO_SHORT else rc) in
              if rc \<noteq> TLV_OK then (rc, data, written, indefinite_failure error TLV_REGION_TAG 0)
              else let n = val_size (elem_value element); tag = elem_tag element in
                case tlv_ber_scan_contents (val_data (elem_value element)) n False of
                  (rc, _) \<Rightarrow>
                    if rc \<noteq> TLV_OK
                    then (rc, data, written, indefinite_failure error TLV_REGION_VALUE (en_header sizes))
                    else let data = obuf_blit 0 (take (tag_size tag) (bytes (tag_data tag))) data;
                             data = obuf_blit (tag_size tag) [0x80] data;
                             data = (if n \<noteq> 0
                                     then obuf_blit (en_header sizes) (take n (bytes (val_data (elem_value element)))) data
                                     else data);
                             data = obuf_blit (total - 2) [0] data;
                             data = obuf_blit (total - 1) [0] data
                         in (TLV_OK, data, total, error))"

definition tlv_format_ber_indefinite :: tlv_format_t where
  "tlv_format_ber_indefinite = \<lparr>fmt_decode = Some (tlv_fields_decode tlv_ber_fields),
     fmt_measure = Some (tlv_asn1_indefinite_measure tlv_ber_fields),
     fmt_encode = Some (tlv_asn1_indefinite_encode tlv_ber_fields),
     fmt_is_constructed = Some tlv_asn1_is_constructed\<rparr>"

definition tlv_ber_indefinite_encoded_size :: "tlv_tag_t \<Rightarrow> nat \<Rightarrow> bool \<Rightarrow> tlv_result_t \<times> nat option" where
  "tlv_ber_indefinite_encoded_size tag len size_ok =
     (if \<not> size_ok then (TLV_ERR_NULL_ARG, None)
      else case tlv_format_measure (Some tlv_format_ber_indefinite)
             (Some \<lparr>elem_tag = tag, elem_value = \<lparr>val_data = Null, val_size = len\<rparr>\<rparr>) True of
        (rc, encoding, e) \<Rightarrow>
          if rc = TLV_OK then tlv_size_to_native (en_total (out encoding encoding0)) True else (rc, None))"

definition tlv_ber_write_indefinite ::
  "obuf \<Rightarrow> nat \<Rightarrow> tlv_tag_t \<Rightarrow> ptr \<Rightarrow> nat \<Rightarrow> bool \<Rightarrow> tlv_result_t \<times> obuf \<times> nat option" where
  "tlv_ber_write_indefinite data capacity tag val len written_ok =
     (if \<not> written_ok then (TLV_ERR_NULL_ARG, data, None)
      else case tlv_format_encode (Some tlv_format_ber_indefinite)
             (Some \<lparr>elem_tag = tag, elem_value = \<lparr>val_data = val, val_size = len\<rparr>\<rparr>) data capacity True of
        (rc, data, used, e) \<Rightarrow> (rc, data, if rc = TLV_OK then used else None))"

text \<open>
  The comparison of \<^verbatim>\<open>writer->format\<close> with the address of \<^verbatim>\<open>tlv_format_ber\<close> is the argument \<open>is_ber\<close>.
\<close>

definition tlv_ber_writer_write_indefinite ::
  "bool \<Rightarrow> tlv_writer_t option \<Rightarrow> tlv_tag_t \<Rightarrow> ptr \<Rightarrow> nat \<Rightarrow> tlv_result_t \<times> tlv_writer_t option" where
  "tlv_ber_writer_write_indefinite is_ber writer tag val len =
     (case writer of None \<Rightarrow> (TLV_ERR_NULL_ARG, None)
      | Some w \<Rightarrow>
          if \<not> is_ber then (TLV_ERR_INVALID_ARG, writer)
          else if wr_pos w > wr_capacity w then (TLV_ERR_BUFFER_TOO_SHORT, writer)
          else case tlv_ber_write_indefinite (obuf_drop (wr_pos w) (wr_buf w)) (wr_capacity w - wr_pos w)
                      tag val len True of
            (rc, data, written) \<Rightarrow>
              let w = writer_store w data in
              (rc, Some (if rc = TLV_OK then w\<lparr>wr_pos := wr_pos w + out written 0\<rparr> else w)))"

definition tlv_ber_read_identifier ::
  "ptr \<Rightarrow> nat \<Rightarrow> bool \<Rightarrow> tlv_result_t \<times> tlv_tag_t option \<times> nat option" where
  "tlv_ber_read_identifier data sz outs =
     (if (data = Null \<and> sz \<noteq> 0) \<or> \<not> outs then (TLV_ERR_NULL_ARG, None, None) else ber_read_tag data sz)"

section \<open>DER (der.c)\<close>

definition der_read_tag :: tlv_read_tag_fn where
  "der_read_tag data sz =
     (if data = Null \<and> sz \<noteq> 0 then (TLV_ERR_NULL_ARG, None, None)
      else case tlv_asn1_read_identifier data sz of
        (rc, parsed, count) \<Rightarrow>
          if rc \<noteq> TLV_OK then (rc, None, if rc = TLV_ERR_TRUNCATED then count else None)
          else let number = short_number data (out count 0) in
            if byte_at data 0 AND 0xC0 = 0 \<and> number \<le> 36 \<and> \<not> tlv_asn1_number_must_construct number \<and>
               byte_at data 0 AND TLV_ASN1_CONSTRUCTED_BIT \<noteq> 0
            then (TLV_ERR_INVALID_TAG, None, None)
            else (TLV_OK, parsed, count))"

definition der_write_tag :: tlv_write_tag_fn where
  "der_write_tag tag data capacity =
     tlv_asn1_write_identifier_checked (Some der_read_tag) (Some tag) data capacity True"

definition tlv_der_fields :: tlv_field_composition_t where
  "tlv_der_fields = \<lparr>fc_read_tag = Some der_read_tag, fc_read_length = Some tlv_asn1_read_minimal_length,
     fc_resolve = None, fc_write_tag = Some der_write_tag, fc_write_length = Some tlv_ber_write_length,
     fc_element_order = TLV_ELEMENT_ORDER_TLV, fc_length_scope = TLV_LENGTH_SCOPE_VALUE\<rparr>"

definition tlv_format_der :: tlv_format_t where
  "tlv_format_der = \<lparr>fmt_decode = Some (tlv_fields_decode tlv_der_fields),
     fmt_measure = Some (tlv_fields_measure tlv_der_fields),
     fmt_encode = Some (tlv_fields_encode tlv_der_fields), fmt_is_constructed = Some tlv_asn1_is_constructed\<rparr>"

definition tlv_der_tag_make ::
  "tlv_asn1_class_t \<Rightarrow> nat \<Rightarrow> nat \<Rightarrow> obuf \<Rightarrow> bool \<Rightarrow> tlv_result_t \<times> obuf \<times> tlv_tag_t option" where
  "tlv_der_tag_make tag_class constructed number storage tag_ok =
     tlv_asn1_tag_make_checked der_write_tag tag_class constructed number storage tag_ok"

definition tlv_der_tag_number :: "tlv_tag_t option \<Rightarrow> bool \<Rightarrow> tlv_result_t \<times> nat option" where
  "tlv_der_tag_number tag number_ok = tlv_asn1_tag_number_checked der_write_tag tag number_ok"

section \<open>CER framing (cer.c)\<close>

definition cer_read_value_bounds :: tlv_resolve_bounds_fn where
  "cer_read_value_bounds tag data sz error =
     (let constructed = tlv_asn1_is_constructed tag; lsz = tlv_ber_length_field_size data sz in
      if sz = 0 then (TLV_ERR_TRUNCATED, Some lsz, None, None, error)
      else if byte_at data 0 = 0x80
      then (if \<not> constructed then (TLV_ERR_INVALID_LENGTH, Some lsz, None, None, error)
            else case tlv_ber_scan_contents_diag (ptr_add data 1) (sz - 1) True error of
              (rc, r, error) \<Rightarrow>
                if rc \<noteq> TLV_OK then (rc, Some lsz, None, None, shift_error error)
                else (TLV_OK, Some 1, map_option fst r, Some 2, error))
      else if constructed then (TLV_ERR_INVALID_LENGTH, Some lsz, None, None, error)
      else case tlv_asn1_read_minimal_length data sz of
        (rc, len, used) \<Rightarrow>
          if rc \<noteq> TLV_OK then (rc, Some lsz, None, None, error)
          else (TLV_OK, used, len, Some 0, error))"

definition tlv_cer_fields :: tlv_field_composition_t where
  "tlv_cer_fields = \<lparr>fc_read_tag = Some tlv_asn1_read_identifier,
     fc_read_length = Some tlv_asn1_read_minimal_length, fc_resolve = Some cer_read_value_bounds,
     fc_write_tag = Some tlv_asn1_write_identifier, fc_write_length = Some tlv_ber_write_length,
     fc_element_order = TLV_ELEMENT_ORDER_TLV, fc_length_scope = TLV_LENGTH_SCOPE_VALUE\<rparr>"

definition cer_measure :: tlv_measure_fn where
  "cer_measure element sizes error =
     (if tag_size (elem_tag element) = 0 \<or> tag_data (elem_tag element) = Null
      then (TLV_ERR_INVALID_TAG_SIZE, sizes, error)
      else if tlv_asn1_is_constructed (elem_tag element)
      then tlv_asn1_indefinite_measure tlv_cer_fields element sizes error
      else tlv_fields_measure tlv_cer_fields element sizes error)"

definition cer_encode :: tlv_encode_fn where
  "cer_encode element data capacity written error =
     (if tag_size (elem_tag element) = 0 \<or> tag_data (elem_tag element) = Null
      then (TLV_ERR_INVALID_TAG_SIZE, data, written, error)
      else if tlv_asn1_is_constructed (elem_tag element)
      then tlv_asn1_indefinite_encode tlv_cer_fields element data capacity written error
      else tlv_fields_encode tlv_cer_fields element data capacity written error)"

definition tlv_format_cer :: tlv_format_t where
  "tlv_format_cer = \<lparr>fmt_decode = Some (tlv_fields_decode tlv_cer_fields), fmt_measure = Some cer_measure,
     fmt_encode = Some cer_encode, fmt_is_constructed = Some tlv_asn1_is_constructed\<rparr>"

definition tlv_cer_tag_make ::
  "tlv_asn1_class_t \<Rightarrow> nat \<Rightarrow> nat \<Rightarrow> obuf \<Rightarrow> bool \<Rightarrow> tlv_result_t \<times> obuf \<times> tlv_tag_t option" where
  "tlv_cer_tag_make tag_class constructed number storage tag_ok =
     tlv_asn1_tag_make_checked tlv_asn1_write_identifier tag_class constructed number storage tag_ok"

definition tlv_cer_tag_number :: "tlv_tag_t option \<Rightarrow> bool \<Rightarrow> tlv_result_t \<times> nat option" where
  "tlv_cer_tag_number tag number_ok = tlv_asn1_tag_number_checked tlv_asn1_write_identifier tag number_ok"

end
