(* ===== verification/TLV_BER_Laws.thy ===== *)
theory TLV_BER_Laws
  imports TLV_BER
begin

text \<open>
  The field contract for the ASN.1 identifiers and lengths, and the composition of DER.  The
  identifier readers of BER, CER and DER are one scheme: a recogniser whose answer depends on the
  recognised octets only, restricted by a test on these octets.
\<close>

unbundle bit_operations_syntax

section \<open>Recognisers that depend on the recognised octets only\<close>

locale octet_tag_reader =
  fixes rd :: tlv_read_tag_fn
  assumes octet_inv:
    "readable p n \<Longrightarrow> rd p n = (TLV_OK, ot, oc) \<Longrightarrow>
     \<exists>k. 0 < k \<and> k \<le> n \<and> ot = Some (tlv_tag p k) \<and> oc = Some k \<and>
       (\<forall>q m. readable q m \<longrightarrow> k \<le> m \<longrightarrow> take k (bytes q) = take k (bytes p) \<longrightarrow>
          rd q m = (TLV_OK, Some (tlv_tag q k), Some k)) \<and>
       (\<forall>m. m < k \<longrightarrow> fst (rd p m) = TLV_ERR_TRUNCATED)"
begin

lemma octet_cases:
  assumes "readable p n" "rd p n = (TLV_OK, ot, oc)"
  obtains k where "0 < k" "k \<le> n" "ot = Some (tlv_tag p k)" "oc = Some k"
    "\<And>q m. readable q m \<Longrightarrow> k \<le> m \<Longrightarrow> take k (bytes q) = take k (bytes p) \<Longrightarrow>
       rd q m = (TLV_OK, Some (tlv_tag q k), Some k)"
    "\<And>m. m < k \<Longrightarrow> fst (rd p m) = TLV_ERR_TRUNCATED"
  using octet_inv [OF assms] by blast

end

sublocale octet_tag_reader \<subseteq> tag_reader rd
proof
  fix p n ot oc assume r: "readable p n" "rd p n = (TLV_OK, ot, oc)"
  show "\<exists>k. 0 < k \<and> k \<le> n \<and> ot = Some (tlv_tag p k) \<and> oc = Some k \<and>
      (\<forall>m. readable p m \<longrightarrow> k \<le> m \<longrightarrow> rd p m = (TLV_OK, ot, oc)) \<and>
      (\<forall>m. m < k \<longrightarrow> fst (rd p m) = TLV_ERR_TRUNCATED)"
    using octet_inv [OF r] by auto
qed

section \<open>Octets in place\<close>

definition occurs_at :: "u8 list \<Rightarrow> ptr \<Rightarrow> nat \<Rightarrow> bool" where
  "occurs_at xs p pos \<longleftrightarrow> take (length xs) (drop pos (bytes p)) = xs"

lemma occurs_at_append [simp]:
  "occurs_at (xs @ ys) p pos \<longleftrightarrow> occurs_at xs p pos \<and> occurs_at ys p (pos + length xs)"
proof -
  have "take (length xs + length ys) (drop pos (bytes p)) =
      take (length xs) (drop pos (bytes p)) @ take (length ys) (drop (pos + length xs) (bytes p))"
    by (simp add: take_add add.commute)
  moreover have "length (take (length xs) (drop pos (bytes p))) = length xs"
    if "take (length xs + length ys) (drop pos (bytes p)) = xs @ ys"
    using arg_cong [OF that, of length] by simp
  ultimately show ?thesis unfolding occurs_at_def by (metis append_eq_append_conv length_append)
qed

lemma occurs_at_Nil [simp]: "occurs_at [] p pos"
  by (simp add: occurs_at_def)

lemma occurs_at_Cons: "occurs_at (x # xs) p pos \<Longrightarrow> byte_at p pos = x"
  by (cases "drop pos (bytes p)") (auto simp: occurs_at_def byte_at_def nth_via_drop)

lemma occurs_at_bound:
  assumes "occurs_at xs p pos" "xs \<noteq> []"
  shows "pos + length xs \<le> length (bytes p)"
proof -
  have "length (take (length xs) (drop pos (bytes p))) = length xs"
    using assms(1) unfolding occurs_at_def by (rule arg_cong)
  with assms(2) show ?thesis by (cases xs) (auto simp: min_def split: if_splits)
qed

lemma occurs_at_slice: "pos + n \<le> length (bytes p) \<Longrightarrow> occurs_at (take n (drop pos (bytes p))) p pos"
  by (simp add: occurs_at_def)

context octet_tag_reader
begin

lemma octets_at:
  assumes t: "rd (Ptr 0 t) (length t) = (TLV_OK, Some (tlv_tag (Ptr 0 t) (length t)), Some (length t))" "occurs_at t p pos"
  shows "pos + length t \<le> limit \<Longrightarrow> readable p limit \<Longrightarrow>
      rd (ptr_add p pos) (limit - pos) = (TLV_OK, Some (tlv_tag (ptr_add p pos) (length t)), Some (length t))"
    and "limit < pos + length t \<Longrightarrow> fst (rd (ptr_add p pos) (limit - pos)) = TLV_ERR_TRUNCATED"
proof -
  note I = octet_inv [OF _ t(1)]
  then have ne: "t \<noteq> []" by auto
  have b: "pos + length t \<le> length (bytes p)" using occurs_at_bound [OF t(2) ne] .
  have any: "rd (ptr_add p pos) m = (TLV_OK, Some (tlv_tag (ptr_add p pos) (length t)), Some (length t))"
    if m: "length t \<le> m" "readable (ptr_add p pos) m" for m
  proof -
    have "take (length t) (bytes (ptr_add p pos)) = take (length t) (bytes (Ptr 0 t))"
      using t(2) by (simp add: occurs_at_def)
    then show ?thesis using I m by auto
  qed
  then show "pos + length t \<le> limit \<Longrightarrow> readable p limit \<Longrightarrow>
      rd (ptr_add p pos) (limit - pos) = (TLV_OK, Some (tlv_tag (ptr_add p pos) (length t)), Some (length t))"
    by (simp add: readable_def)
  have r: "readable (ptr_add p pos) (length t)" using b by (simp add: readable_def)
  from octet_inv [OF r any [OF _ r]]
  show "limit < pos + length t \<Longrightarrow> fst (rd (ptr_add p pos) (limit - pos)) = TLV_ERR_TRUNCATED"
    using ne by (cases "limit \<le> pos") auto
qed

lemma octets_at_inv:
  assumes "rd (ptr_add p pos) (limit - pos) = (TLV_OK, ot, oc)" "readable p limit" "pos \<le> limit"
  obtains t where "rd (Ptr 0 t) (length t) = (TLV_OK, Some (tlv_tag (Ptr 0 t) (length t)), Some (length t))"
    "occurs_at t p pos" "pos + length t \<le> limit" "ot = Some (tlv_tag (ptr_add p pos) (length t))" "oc = Some (length t)"
proof -
  have r: "readable (ptr_add p pos) (limit - pos)" using assms by (simp add: readable_def)
  show thesis
  proof (rule octet_cases [OF r assms(1)])
    fix k assume k: "0 < k" "k \<le> limit - pos" "ot = Some (tlv_tag (ptr_add p pos) k)" "oc = Some k"
      and st: "\<And>q m. readable q m \<Longrightarrow> k \<le> m \<Longrightarrow> take k (bytes q) = take k (bytes (ptr_add p pos)) \<Longrightarrow>
        rd q m = (TLV_OK, Some (tlv_tag q k), Some k)"
    let ?t = "take k (drop pos (bytes p))"
    have len: "length ?t = k" using k assms by (simp add: readable_def)
    have "rd (Ptr 0 ?t) (length ?t) = (TLV_OK, Some (tlv_tag (Ptr 0 ?t) (length ?t)), Some (length ?t))"
      using st [of "Ptr 0 ?t" k] len by (simp add: readable_def)
    moreover have "occurs_at ?t p pos" using len by (simp add: occurs_at_def)
    ultimately show thesis using k len assms(3) by (intro that [of ?t]) auto
  qed
qed

end

lemma length_read_cong:
  assumes "readable p n" "readable q n" "take n (bytes p) = take n (bytes q)"
  shows "tlv_variable_length_read (Some c) p n True = tlv_variable_length_read (Some c) q n True"
proof (cases "n = 0")
  case False
  have b: "byte_at p i = byte_at q i" if "i < n" for i
    unfolding byte_at_def by (rule nth_eq_if_take_eq [OF assms(3) that])
  have nz: "p \<noteq> Null" "q \<noteq> Null" using assms False by auto
  let ?k = "unpack (byte_at q 0) (vl_payload_mask c)"
  have b0: "byte_at p 0 = byte_at q 0" using b False by simp
  show ?thesis
  proof (cases "?k < n")
    case True
    have os: "map (\<lambda>i. byte_at p (Suc i)) [0..<?k] = map (\<lambda>i. byte_at q (Suc i)) [0..<?k]"
      "map (\<lambda>i. byte_at p (?k - i)) [0..<?k] = map (\<lambda>i. byte_at q (?k - i)) [0..<?k]"
      using True by (auto simp: b)
    have b1: "Suc 0 < ?k \<and> byte_at p (Suc 0) = 0 \<longleftrightarrow> Suc 0 < ?k \<and> byte_at q (Suc 0) = 0"
      using True b [of "Suc 0"] by auto
    show ?thesis
      using False nz
      by (cases "vl_byte_order c = TLV_BYTE_ORDER_BIG_ENDIAN")
        (simp_all add: tlv_variable_length_read_def Let_def b0 os b1 b [OF True] cong: option.case_cong)
  qed (simp add: tlv_variable_length_read_def Let_def b0 nz)
qed (simp add: tlv_variable_length_read_def Let_def)

lemma length_octets_at:
  assumes l: "tlv_variable_length_read (Some c) (Ptr 0 ls) (length ls) True = (TLV_OK, Some n, Some (length ls))"
      "occurs_at ls p pos"
  shows "pos + length ls \<le> limit \<Longrightarrow> readable p limit \<Longrightarrow>
      tlv_variable_length_read (Some c) (ptr_add p pos) (limit - pos) True = (TLV_OK, Some n, Some (length ls))"
    and "limit < pos + length ls \<Longrightarrow>
      fst (tlv_variable_length_read (Some c) (ptr_add p pos) (limit - pos) True) = TLV_ERR_TRUNCATED"
proof -
  have ne: "ls \<noteq> []" using l(1) by (auto simp: tlv_variable_length_read_def Let_def split: if_splits)
  have b: "pos + length ls \<le> length (bytes p)" using occurs_at_bound [OF l(2) ne] .
  have r: "readable (ptr_add p pos) (length ls)" using b by (simp add: readable_def)
  have e: "tlv_variable_length_read (Some c) (ptr_add p pos) (length ls) True = (TLV_OK, Some n, Some (length ls))"
    unfolding l(1) [symmetric] using l(2) r by (intro length_read_cong) (auto simp: occurs_at_def)
  note I = variable_length_read_inv [OF r e]
  show "pos + length ls \<le> limit \<Longrightarrow> readable p limit \<Longrightarrow>
      tlv_variable_length_read (Some c) (ptr_add p pos) (limit - pos) True = (TLV_OK, Some n, Some (length ls))"
    by (rule I) auto
  show "limit < pos + length ls \<Longrightarrow>
      fst (tlv_variable_length_read (Some c) (ptr_add p pos) (limit - pos) True) = TLV_ERR_TRUNCATED"
    by (rule I) (use ne in \<open>cases "limit \<le> pos"; auto\<close>)
qed

lemma length_octets_at_inv:
  assumes "tlv_variable_length_read (Some c) (ptr_add p pos) (limit - pos) True = (TLV_OK, ol, oc)" "readable p limit" "pos \<le> limit"
  obtains ls n where "tlv_variable_length_read (Some c) (Ptr 0 ls) (length ls) True = (TLV_OK, Some n, Some (length ls))"
    "occurs_at ls p pos" "pos + length ls \<le> limit" "ol = Some n" "oc = Some (length ls)"
proof -
  have r: "readable (ptr_add p pos) (limit - pos)" using assms by (simp add: readable_def)
  show thesis
  proof (rule variable_length_read_inv [OF r assms(1)])
    fix n k assume k: "ol = Some n" "oc = Some k" "0 < k" "k \<le> limit - pos"
      and st: "\<And>m. k \<le> m \<Longrightarrow> tlv_variable_length_read (Some c) (ptr_add p pos) m True = (TLV_OK, ol, oc)"
    let ?ls = "take k (drop pos (bytes p))"
    have len: "length ?ls = k" using k assms by (simp add: readable_def)
    have rk: "readable (ptr_add p pos) k" using k r readable_mono by blast
    have "tlv_variable_length_read (Some c) (Ptr 0 ?ls) k True = tlv_variable_length_read (Some c) (ptr_add p pos) k True"
      using rk len by (intro length_read_cong) (auto simp: readable_def)
    also have "\<dots> = (TLV_OK, Some n, Some k)" using st k by simp
    finally show thesis using k len assms(3) by (intro that [of ?ls n]) (auto simp: occurs_at_def)
  qed
qed

section \<open>Restricted recognisers\<close>

lemma short_number_take:
  "0 < k \<Longrightarrow> readable p k \<Longrightarrow> short_number (Ptr 0 (take k (bytes p))) (length (take k (bytes p))) = short_number p k"
  by (auto simp: short_number_def byte_at_def readable_def)

lemma byte_at_hd: "0 < k \<Longrightarrow> readable p k \<Longrightarrow> hd (take k (bytes p)) = byte_at p 0"
  by (cases "bytes p") (auto simp: byte_at_def readable_def)

text \<open>A recogniser restricted by a test on the octets.\<close>

lemma restricted_reader:
  assumes R: "octet_tag_reader rd"
    and ok: "\<And>p n ot oc. readable p n \<Longrightarrow> rd' p n = (TLV_OK, ot, oc) \<longleftrightarrow>
        rd p n = (TLV_OK, ot, oc) \<and> P (take (out oc 0) (bytes p))"
    and short: "\<And>p n k m. readable p n \<Longrightarrow> rd p n = (TLV_OK, Some (tlv_tag p k), Some k) \<Longrightarrow> 0 < k \<Longrightarrow> k \<le> n \<Longrightarrow>
        P (take k (bytes p)) \<Longrightarrow> m < k \<Longrightarrow> fst (rd p m) = TLV_ERR_TRUNCATED \<Longrightarrow> fst (rd' p m) = TLV_ERR_TRUNCATED"
  shows "octet_tag_reader rd'"
proof
  fix p n ot oc assume r: "readable p n" "rd' p n = (TLV_OK, ot, oc)"
  from r ok have rd: "rd p n = (TLV_OK, ot, oc)" and P: "P (take (out oc 0) (bytes p))" by auto
  show "\<exists>k. 0 < k \<and> k \<le> n \<and> ot = Some (tlv_tag p k) \<and> oc = Some k \<and>
       (\<forall>q m. readable q m \<longrightarrow> k \<le> m \<longrightarrow> take k (bytes q) = take k (bytes p) \<longrightarrow>
          rd' q m = (TLV_OK, Some (tlv_tag q k), Some k)) \<and>
       (\<forall>m. m < k \<longrightarrow> fst (rd' p m) = TLV_ERR_TRUNCATED)"
  proof (rule octet_tag_reader.octet_cases [OF R r(1) rd])
    fix k assume k: "0 < k" "k \<le> n" "ot = Some (tlv_tag p k)" "oc = Some k"
      and st: "\<And>q m. readable q m \<Longrightarrow> k \<le> m \<Longrightarrow> take k (bytes q) = take k (bytes p) \<Longrightarrow>
        rd q m = (TLV_OK, Some (tlv_tag q k), Some k)"
      and sh: "\<And>m. m < k \<Longrightarrow> fst (rd p m) = TLV_ERR_TRUNCATED"
    have "rd' q m = (TLV_OK, Some (tlv_tag q k), Some k)"
      if "readable q m" "k \<le> m" "take k (bytes q) = take k (bytes p)" for q m
      using ok [OF that(1)] st [OF that] P k(4) that(3) by simp
    with k short [OF r(1) _ k(1,2) _ _ sh] rd P show ?thesis by (intro exI [of _ k]) auto
  qed
qed

text \<open>The writer that re-reads what it is given keeps the contract with the reader it uses.\<close>

lemma checked_writer_codec:
  assumes R: "octet_tag_reader rd"
  shows "tag_codec rd (\<lambda>t d cap. tlv_asn1_write_identifier_checked (Some rd) (Some t) d cap True)"
proof -
  let ?w = "\<lambda>t d cap. tlv_asn1_write_identifier_checked (Some rd) (Some t) d cap True"
  have T: "tag_reader rd" using octet_tag_reader.octet_inv [OF R] by (intro tag_reader.intro) metis
  have OK: "0 < tag_size t \<and> tag_size t \<le> TLV_ASN1_TAG_MAX_SIZE \<and> tag_data t \<noteq> Null \<and>
      rd (tag_data t) (tag_size t) = (TLV_OK, Some (tlv_tag (tag_data t) (tag_size t)), Some (tag_size t))"
    if t: "tag_wf t" "fst (?w t None 0) = TLV_OK" for t
  proof -
    have r: "readable (tag_data t) (tag_size t)" using t(1) by (simp add: tag_wf_def)
    obtain ot oc where rd: "rd (tag_data t) (tag_size t) = (TLV_OK, ot, oc)" and c: "out oc 0 = tag_size t"
      and n: "0 < tag_size t" "tag_size t \<le> TLV_ASN1_TAG_MAX_SIZE" "tag_data t \<noteq> Null"
      using t(2) by (auto simp: tlv_asn1_write_identifier_checked_def Let_def split: if_splits prod.splits)
    from octet_tag_reader.octet_inv [OF R r rd] c n rd show ?thesis by auto
  qed
  show ?thesis
  proof (intro tag_codec.intro T, unfold_locales)
    fix t assume t: "tag_wf t" "fst (?w t None 0) = TLV_OK"
    note O = OK [OF t]
    from O show "0 < tag_size t \<and> ?w t None 0 = (TLV_OK, None, Some (tag_size t))"
      by (simp add: tlv_asn1_write_identifier_checked_def)
    from O show "?w t (Some buf) cap = (TLV_OK, Some (blit 0 (tag_bytes t) buf), Some (tag_size t))"
      if "tag_size t \<le> cap" "cap \<le> length buf" for cap buf
      using that by (simp add: tlv_asn1_write_identifier_checked_def tag_bytes_def Let_def)
    show "rd q n = (TLV_OK, Some (tlv_tag q (tag_size t)), Some (tag_size t))"
      if q: "tag_size t \<le> n" "readable q n" "take (tag_size t) (bytes q) = tag_bytes t" for n q
    proof -
      have r: "readable (tag_data t) (tag_size t)" using t(1) by (simp add: tag_wf_def)
      from O have "rd (tag_data t) (tag_size t) = (TLV_OK, Some (tlv_tag (tag_data t) (tag_size t)), Some (tag_size t))"
        by simp
      then show ?thesis
        by (rule octet_tag_reader.octet_cases [OF R r]) (use q in \<open>simp add: tag_bytes_def\<close>)
    qed
  qed
qed

section \<open>The identifier readers\<close>

interpretation variable_octets: octet_tag_reader "\<lambda>p n. tlv_variable_identifier_read (Some c) p n True" for c
proof
  fix p n ot oc assume "readable p n" "tlv_variable_identifier_read (Some c) p n True = (TLV_OK, ot, oc)"
  then show "\<exists>k. 0 < k \<and> k \<le> n \<and> ot = Some (tlv_tag p k) \<and> oc = Some k \<and>
       (\<forall>q m. readable q m \<longrightarrow> k \<le> m \<longrightarrow> take k (bytes q) = take k (bytes p) \<longrightarrow>
          tlv_variable_identifier_read (Some c) q m True = (TLV_OK, Some (tlv_tag q k), Some k)) \<and>
       (\<forall>m. m < k \<longrightarrow> fst (tlv_variable_identifier_read (Some c) p m True) = TLV_ERR_TRUNCATED)"
    by (rule variable_tag_read_inv) blast
qed

interpretation ber_octets: octet_tag_reader ber_read_tag
proof (rule restricted_reader [OF variable_octets.octet_tag_reader_axioms [of ber_identifier],
      where P = "\<lambda>xs. \<not> reserved_lead (hd xs)"])
  fix p :: ptr and n ot oc assume r: "readable p n"
  show "ber_read_tag p n = (TLV_OK, ot, oc) \<longleftrightarrow>
      tlv_variable_identifier_read (Some ber_identifier) p n True = (TLV_OK, ot, oc) \<and>
      \<not> reserved_lead (hd (take (out oc 0) (bytes p)))" (is "?a = (?b \<and> ?c)")
  proof (cases ?b)
    case True
    then show ?thesis
    proof (rule variable_octets.octet_cases [OF r])
      fix k assume k: "0 < k" "k \<le> n" "oc = Some k"
      then have "hd (take k (bytes p)) = byte_at p 0" using readable_mono [OF r] by (intro byte_at_hd) auto
      with k r True show ?thesis by (auto simp: ber_read_tag_def wire_read_tag_def)
    qed
  qed (auto simp: ber_read_tag_def wire_read_tag_def)
next
  fix p :: ptr and n k m
  assume k: "readable p n" "0 < k" "k \<le> n" "\<not> reserved_lead (hd (take k (bytes p)))"
    "fst (tlv_variable_identifier_read (Some ber_identifier) p m True) = TLV_ERR_TRUNCATED"
  then have "hd (take k (bytes p)) = byte_at p 0" using readable_mono by (intro byte_at_hd) auto
  with k show "fst (ber_read_tag p m) = TLV_ERR_TRUNCATED"
    by (auto simp: ber_read_tag_def wire_read_tag_def)
qed

text \<open>The test of \<^verbatim>\<open>tlv_asn1_read_identifier\<close>, and the one that DER adds.\<close>

definition asn1_octets_ok :: "u8 list \<Rightarrow> bool" where
  "asn1_octets_ok xs \<longleftrightarrow>
     (let number = short_number (Ptr 0 xs) (length xs) in
      hd xs AND 0xC0 = 0 \<longrightarrow> number \<noteq> 0 \<and> number \<noteq> 15 \<and>
        (tlv_asn1_number_must_construct number \<longrightarrow> hd xs AND TLV_ASN1_CONSTRUCTED_BIT \<noteq> 0))"

definition der_octets_ok :: "u8 list \<Rightarrow> bool" where
  "der_octets_ok xs \<longleftrightarrow>
     (let number = short_number (Ptr 0 xs) (length xs) in
      hd xs AND 0xC0 = 0 \<longrightarrow> number \<le> 36 \<longrightarrow> \<not> tlv_asn1_number_must_construct number \<longrightarrow>
        hd xs AND TLV_ASN1_CONSTRUCTED_BIT = 0)"

interpretation asn1_octets: octet_tag_reader tlv_asn1_read_identifier
proof (rule restricted_reader [OF variable_octets.octet_tag_reader_axioms [of asn1_identifier],
      where P = asn1_octets_ok])
  fix p :: ptr and n ot oc assume r: "readable p n"
  show "tlv_asn1_read_identifier p n = (TLV_OK, ot, oc) \<longleftrightarrow>
      tlv_variable_identifier_read (Some asn1_identifier) p n True = (TLV_OK, ot, oc) \<and>
      asn1_octets_ok (take (out oc 0) (bytes p))" (is "?a = (?b \<and> ?c)")
  proof (cases ?b)
    case True
    then show ?thesis
    proof (rule variable_octets.octet_cases [OF r])
      fix k assume k: "0 < k" "k \<le> n" "oc = Some k"
      then have kk: "readable p k" using readable_mono [OF r] by simp
      have nz: "p \<noteq> Null" using k r by auto
      from k nz True show ?thesis
        by (auto simp: tlv_asn1_read_identifier_def asn1_octets_ok_def short_number_take [OF k(1) kk, simplified]
            byte_at_hd [OF k(1) kk] Let_def)
    qed
  qed (auto simp: tlv_asn1_read_identifier_def Let_def split: prod.splits if_splits)
next
  fix p :: ptr and n k m
  assume "readable p n" "0 < k" "k \<le> n"
    "fst (tlv_variable_identifier_read (Some asn1_identifier) p m True) = TLV_ERR_TRUNCATED"
  then show "fst (tlv_asn1_read_identifier p m) = TLV_ERR_TRUNCATED"
    by (auto simp: tlv_asn1_read_identifier_def split: prod.splits)
qed

interpretation der_octets: octet_tag_reader der_read_tag
proof (rule restricted_reader [OF asn1_octets.octet_tag_reader_axioms, where P = der_octets_ok])
  fix p :: ptr and n ot oc assume r: "readable p n"
  show "der_read_tag p n = (TLV_OK, ot, oc) \<longleftrightarrow>
      tlv_asn1_read_identifier p n = (TLV_OK, ot, oc) \<and> der_octets_ok (take (out oc 0) (bytes p))" (is "?a = (?b \<and> ?c)")
  proof (cases ?b)
    case True
    then show ?thesis
    proof (rule asn1_octets.octet_cases [OF r])
      fix k assume k: "0 < k" "k \<le> n" "oc = Some k"
      then have kk: "readable p k" using readable_mono [OF r] by simp
      have nz: "p \<noteq> Null" using k r by auto
      from k nz True show ?thesis
        by (auto simp: der_read_tag_def der_octets_ok_def short_number_take [OF k(1) kk, simplified]
            byte_at_hd [OF k(1) kk] Let_def)
    qed
  qed (auto simp: der_read_tag_def Let_def split: prod.splits if_splits)
next
  fix p :: ptr and n k m
  assume "readable p n" "0 < k" "k \<le> n" "fst (tlv_asn1_read_identifier p m) = TLV_ERR_TRUNCATED"
  then show "fst (der_read_tag p m) = TLV_ERR_TRUNCATED"
    by (auto simp: der_read_tag_def split: prod.splits)
qed

section \<open>The identifier writers\<close>

interpretation ber_id: tag_codec ber_read_tag ber_write_tag
proof (intro tag_codec.intro ber_octets.tag_reader_axioms, unfold_locales)
  fix t assume t: "tag_wf t" "fst (ber_write_tag t None 0) = TLV_OK"
  have w: "fst (wire_write_tag t None 0) = TLV_OK" "tag_data t \<noteq> Null \<or> tag_size t = 0"
    using t(2) by (auto simp: ber_write_tag_def split: if_splits)
  note V = w(1) [unfolded wire_write_tag_def]
  have n: "0 < tag_size t" using variable_id.write_tag_query [OF t(1) V] by simp
  have lead: "\<not> reserved_lead (byte_at (tag_data t) 0)" using t(2) w n by (auto simp: ber_write_tag_def split: if_splits)
  show "0 < tag_size t \<and> ber_write_tag t None 0 = (TLV_OK, None, Some (tag_size t))"
    using variable_id.write_tag_query [OF t(1) V] lead w by (auto simp: ber_write_tag_def wire_write_tag_def)
  show "ber_write_tag t (Some buf) cap = (TLV_OK, Some (blit 0 (tag_bytes t) buf), Some (tag_size t))"
    if "tag_size t \<le> cap" "cap \<le> length buf" for cap buf
    using variable_id.write_tag_buffer [OF t(1) V that] lead w n by (auto simp: ber_write_tag_def wire_write_tag_def)
  show "ber_read_tag q m = (TLV_OK, Some (tlv_tag q (tag_size t)), Some (tag_size t))"
    if q: "tag_size t \<le> m" "readable q m" "take (tag_size t) (bytes q) = tag_bytes t" for m q
  proof -
    have "readable (tag_data t) (tag_size t)" using t(1) by (simp add: tag_wf_def)
    then have "byte_at q 0 = byte_at (tag_data t) 0"
      using byte_at_hd [of "tag_size t" q] byte_at_hd [of "tag_size t" "tag_data t"] n q readable_mono [OF q(2,1)]
      by (simp add: tag_bytes_def)
    with variable_id.read_written_tag [OF t(1) V q] lead q n show ?thesis
      by (auto simp: ber_read_tag_def wire_read_tag_def)
  qed
qed

interpretation asn1_id: tag_codec tlv_asn1_read_identifier tlv_asn1_write_identifier
  using checked_writer_codec [OF asn1_octets.octet_tag_reader_axioms]
  by (simp add: tlv_asn1_write_identifier_def [abs_def])

interpretation der_id: tag_codec der_read_tag der_write_tag
  using checked_writer_codec [OF der_octets.octet_tag_reader_axioms]
  by (simp add: der_write_tag_def [abs_def])

section \<open>Lengths\<close>

text \<open>The writer is shared: it does not look at the reader's requirement of minimality.\<close>

lemma minimal_length_write:
  "tlv_ber_write_length len data cap = tlv_variable_length_write (Some asn1_minimal_length) len data cap True"
  by (simp add: tlv_ber_write_length_def tlv_ber_length_encode_def tlv_variable_length_write_def ber_length_def
      asn1_minimal_length_def ber_length_policy_def length_validate_def Let_def)

interpretation ber_len: length_codec ber_read_length tlv_ber_write_length "variable_len_enc ber_length"
proof -
  have "ber_read_length = (\<lambda>p n. tlv_variable_length_read (Some ber_length) p n True)"
    by (auto simp: fun_eq_iff ber_read_length_def wire_read_length_def tlv_variable_length_read_def)
  moreover have "tlv_ber_write_length = (\<lambda>l d cap. tlv_variable_length_write (Some ber_length) l d cap True)"
    by (simp add: fun_eq_iff tlv_ber_write_length_def tlv_ber_length_encode_def)
  ultimately show "length_codec ber_read_length tlv_ber_write_length (variable_len_enc ber_length)"
    using variable_len.length_codec_axioms [of ber_length] by simp
qed

lemma minimal_length_enc: "variable_len_enc asn1_minimal_length = variable_len_enc ber_length"
  by (simp add: fun_eq_iff variable_len_enc_def variable_len_long_def asn1_minimal_length_def ber_length_def
      ber_length_policy_def)

interpretation minimal_len: length_codec tlv_asn1_read_minimal_length tlv_ber_write_length "variable_len_enc ber_length"
proof -
  have "tlv_asn1_read_minimal_length = (\<lambda>p n. tlv_variable_length_read (Some asn1_minimal_length) p n True)"
    by (simp add: fun_eq_iff tlv_asn1_read_minimal_length_def)
  moreover have "tlv_ber_write_length =
      (\<lambda>l d cap. tlv_variable_length_write (Some asn1_minimal_length) l d cap True)"
    by (simp add: fun_eq_iff minimal_length_write)
  ultimately show "length_codec tlv_asn1_read_minimal_length tlv_ber_write_length (variable_len_enc ber_length)"
    using variable_len.length_codec_axioms [of asn1_minimal_length] by (simp add: minimal_length_enc)
qed

section \<open>DER is a format\<close>

interpretation der: composition_codec der_read_tag tlv_asn1_read_minimal_length tlv_der_fields der_write_tag
  tlv_ber_write_length "variable_len_enc ber_length"
  by (intro composition_codec.intro composition_reader.intro composition_reader_axioms.intro
      composition_codec_axioms.intro der_id.tag_codec_axioms der_octets.tag_reader_axioms
      minimal_len.length_codec_axioms minimal_len.length_reader_axioms)
    (simp_all add: tlv_der_fields_def)

end
