(* ===== verification/TLV_BER_Scan.thy ===== *)
theory TLV_BER_Scan
  imports TLV_BER_Laws
begin

text \<open>
  The scan of nested BER framing against its specification.  The specification is the grammar of
  X.690 at the level of octets: an item is an identifier, a length and a value; the value of a
  constructed item with a definite length, and the contents before the end-of-contents octets of
  one with an indefinite length, are again sequences of items.  The scan, an iteration over an
  explicit stack of at most 64 scopes, accepts exactly the sequences that nest less deeply than the
  stack allows, and reports a proper prefix of an indefinite value as truncated.
\<close>

unbundle bit_operations_syntax

section \<open>The grammar\<close>

definition ber_tag_octets :: "u8 list \<Rightarrow> bool" where
  "ber_tag_octets t \<longleftrightarrow>
     ber_read_tag (Ptr 0 t) (length t) = (TLV_OK, Some (tlv_tag (Ptr 0 t) (length t)), Some (length t))"

definition ber_length_octets :: "u8 list \<Rightarrow> nat \<Rightarrow> bool" where
  "ber_length_octets ls n \<longleftrightarrow> ber_read_length (Ptr 0 ls) (length ls) = (TLV_OK, Some n, Some (length ls))"

definition lead_constructed :: "u8 list \<Rightarrow> bool" where
  "lead_constructed t \<longleftrightarrow> hd t AND TLV_ASN1_CONSTRUCTED_BIT = TLV_ASN1_CONSTRUCTED_BIT"

text \<open>\<open>ber_items k xs\<close>: a sequence of items nested at most \<open>k\<close> levels deep.\<close>

inductive ber_item :: "nat \<Rightarrow> u8 list \<Rightarrow> bool" and ber_items :: "nat \<Rightarrow> u8 list \<Rightarrow> bool" where
  primitive: "ber_tag_octets t \<Longrightarrow> \<not> lead_constructed t \<Longrightarrow> ber_length_octets ls (length v) \<Longrightarrow>
    ber_item k (t @ ls @ v)"
| definite: "ber_tag_octets t \<Longrightarrow> lead_constructed t \<Longrightarrow> ber_length_octets ls (length v) \<Longrightarrow> ber_items k v \<Longrightarrow>
    ber_item (Suc k) (t @ ls @ v)"
| indefinite: "ber_tag_octets t \<Longrightarrow> lead_constructed t \<Longrightarrow> ber_items k v \<Longrightarrow>
    ber_item (Suc k) (t @ [0x80] @ v @ [0, 0])"
| no_items: "ber_items k []"
| items: "ber_item k x \<Longrightarrow> ber_items k xs \<Longrightarrow> ber_items k (x @ xs)"

section \<open>Identifiers and lengths in place\<close>

lemma tag_octets_hd:
  assumes "ber_tag_octets t"
  shows "t \<noteq> []" "hd t \<noteq> 0"
proof -
  from assms have "wire_read_tag (Ptr 0 t) (length t) = (TLV_OK, Some (tlv_tag (Ptr 0 t) (length t)), Some (length t))"
    by (simp add: ber_tag_octets_def ber_read_tag_wire)
  from wire_read_tag_bounds [OF this] show ne: "t \<noteq> []" by auto
  with assms show "hd t \<noteq> 0"
    by (auto simp: ber_tag_octets_def ber_read_tag_def reserved_lead_def hd_conv_nth split: if_splits)
qed

lemmas tag_at = ber_octets.octets_at [folded ber_tag_octets_def]
lemmas tag_at_inv = ber_octets.octets_at_inv [folded ber_tag_octets_def]

lemma ber_read_length_eq: "ber_read_length p n = tlv_variable_length_read (Some ber_length) p n True"
  by (auto simp: ber_read_length_def wire_read_length_def tlv_variable_length_read_def)

lemma length_octets_hd:
  assumes "ber_length_octets ls n"
  shows "ls \<noteq> []" "hd ls \<noteq> 0x80"
proof -
  from assms show ne: "ls \<noteq> []"
    by (auto simp: ber_length_octets_def ber_read_length_eq tlv_variable_length_read_def Let_def split: if_splits)
  have z: "unpack 0x80 0x7F = 0" by (simp add: unpack_def unpack_bit_def upt_rec)
  show "hd ls \<noteq> 0x80"
  proof
    assume "hd ls = 0x80"
    with ne have "byte_at (Ptr 0 ls) 0 = 0x80" by (simp add: hd_conv_nth)
    with assms ne show False
      by (auto simp: ber_length_octets_def ber_read_length_eq tlv_variable_length_read_def Let_def ber_length_def z
          split: if_splits)
  qed
qed

lemmas length_at = length_octets_at [of ber_length, folded ber_read_length_eq, folded ber_length_octets_def]
lemmas length_at_inv = length_octets_at_inv [of ber_length, folded ber_read_length_eq, folded ber_length_octets_def]

section \<open>The header of an item\<close>

lemma byte_at_occurs: "occurs_at xs p pos \<Longrightarrow> xs \<noteq> [] \<Longrightarrow> byte_at p pos = hd xs"
  by (cases xs) (auto dest: occurs_at_Cons)

lemma constructed_at:
  assumes "occurs_at t p pos" "t \<noteq> []"
  shows "tlv_asn1_is_constructed (tlv_tag (ptr_add p pos) (length t)) = lead_constructed t"
proof -
  have "pos < length (bytes p)" using occurs_at_bound [OF assms] assms(2) by (cases t) auto
  moreover from this have nz: "p \<noteq> Null" by auto
  ultimately have "byte_at (ptr_add p pos) 0 = byte_at p pos" by (simp add: byte_at_def)
  with byte_at_occurs [OF assms] assms nz show ?thesis
    by (simp add: tlv_asn1_is_constructed_def tlv_constructed_bit_predicate_def lead_constructed_def
        TLV_ASN1_CONSTRUCTED_BIT_def)
qed

lemma scan_fail_truncated: "\<not> sc_bounded sc \<Longrightarrow> fst (scan_fail e TLV_ERR_TRUNCATED pos region sc) = TLV_ERR_TRUNCATED"
  by (simp add: scan_fail_def scan_failure_def Let_def)

lemma scan_header_tag_short:
  assumes "fst (ber_read_tag (ptr_add p pos) (sc_end sc - pos)) = TLV_ERR_TRUNCATED" "\<not> sc_bounded sc"
  shows "\<exists>f. scan_header p sc pos e = Inl f \<and> fst f = TLV_ERR_TRUNCATED"
proof -
  obtain ot oc where "ber_read_tag (ptr_add p pos) (sc_end sc - pos) = (TLV_ERR_TRUNCATED, ot, oc)"
    using assms(1) by (metis prod.exhaust_sel)
  then show ?thesis by (simp add: scan_header_def scan_fail_truncated [OF assms(2)])
qed

lemma scan_header_definite:
  assumes t: "ber_tag_octets t" "occurs_at t p pos" and l: "ber_length_octets ls n" "occurs_at ls p (pos + length t)"
    and r: "readable p (sc_end sc)"
  shows "pos + length t + length ls + n \<le> sc_end sc \<Longrightarrow>
      scan_header p sc pos e = Inr (pos + length t + length ls, n, lead_constructed t, False)"
    and "sc_end sc < pos + length t + length ls + n \<Longrightarrow> \<not> sc_bounded sc \<Longrightarrow>
      \<exists>f. scan_header p sc pos e = Inl f \<and> fst f = TLV_ERR_TRUNCATED"
proof -
  note T = tag_at [OF t] and L = length_at [OF l] and C = constructed_at [OF t(2) tag_octets_hd(1) [OF t(1)]]
  have b: "byte_at p (pos + length t) \<noteq> 0x80" "0 < length ls"
    using byte_at_occurs [OF l(2)] length_octets_hd [OF l(1)] by auto
  show "scan_header p sc pos e = Inr (pos + length t + length ls, n, lead_constructed t, False)"
    if le: "pos + length t + length ls + n \<le> sc_end sc"
  proof -
    have ne: "pos + length t \<noteq> sc_end sc" "\<not> sc_end sc - (pos + length t + length ls) < n" using le b(2) by linarith+
    show ?thesis using T(1) [of "sc_end sc"] L(1) [of "sc_end sc"] r b(1) C le by (simp add: scan_header_def Let_def ne)
  qed
  assume lt: "sc_end sc < pos + length t + length ls + n" and nb: "\<not> sc_bounded sc"
  note F = scan_fail_truncated [OF nb]
  consider "sc_end sc < pos + length t" | "sc_end sc = pos + length t"
    | "pos + length t < sc_end sc" "sc_end sc < pos + length t + length ls" | "pos + length t + length ls \<le> sc_end sc"
    by linarith
  then show "\<exists>f. scan_header p sc pos e = Inl f \<and> fst f = TLV_ERR_TRUNCATED"
  proof cases
    case 1
    then show ?thesis by (intro scan_header_tag_short T(2) nb)
  next
    case 2
    with T(1) [of "sc_end sc"] r F show ?thesis by (simp add: scan_header_def Let_def)
  next
    case 3
    obtain ol oc where "ber_read_length (ptr_add p (pos + length t)) (sc_end sc - (pos + length t)) =
        (TLV_ERR_TRUNCATED, ol, oc)" using L(2) [OF 3(2)] by (metis prod.exhaust_sel)
    with 3 T(1) [of "sc_end sc"] r F b show ?thesis by (simp add: scan_header_def Let_def)
  next
    case 4
    have ne: "pos + length t \<noteq> sc_end sc" "sc_end sc - (pos + length t + length ls) < n" using 4 lt b(2) by linarith+
    show ?thesis using 4 T(1) [of "sc_end sc"] L(1) [of "sc_end sc"] r b(1) by (simp add: scan_header_def Let_def ne F)
  qed
qed

lemma scan_header_indefinite:
  assumes t: "ber_tag_octets t" "occurs_at t p pos" "lead_constructed t" and l: "occurs_at [0x80] p (pos + length t)"
    and r: "readable p (sc_end sc)"
  shows "pos + length t < sc_end sc \<Longrightarrow>
      scan_header p sc pos e = Inr (pos + length t + 1, sc_end sc - (pos + length t + 1), True, True)"
    and "sc_end sc \<le> pos + length t \<Longrightarrow> \<not> sc_bounded sc \<Longrightarrow>
      \<exists>f. scan_header p sc pos e = Inl f \<and> fst f = TLV_ERR_TRUNCATED"
proof -
  note T = tag_at [OF t(1,2)] and C = constructed_at [OF t(2) tag_octets_hd(1) [OF t(1)]]
  have b: "byte_at p (pos + length t) = 0x80" using occurs_at_Cons [OF l] .
  show "pos + length t < sc_end sc \<Longrightarrow>
      scan_header p sc pos e = Inr (pos + length t + 1, sc_end sc - (pos + length t + 1), True, True)"
    using T(1) [of "sc_end sc"] r b C t(3) by (simp add: scan_header_def Let_def)
  assume le: "sc_end sc \<le> pos + length t" and nb: "\<not> sc_bounded sc"
  note F = scan_fail_truncated [OF nb]
  show "\<exists>f. scan_header p sc pos e = Inl f \<and> fst f = TLV_ERR_TRUNCATED"
  proof (cases "sc_end sc = pos + length t")
    case True
    with T(1) [of "sc_end sc"] r F show ?thesis by (simp add: scan_header_def Let_def)
  next
    case False
    then show ?thesis using le by (intro scan_header_tag_short T(2) nb) simp
  qed
qed

lemma scan_header_inv:
  assumes h: "scan_header p sc pos e = Inr (pos', len, c, i)" and r: "readable p (sc_end sc)" "pos \<le> sc_end sc"
  obtains t ls where "ber_tag_octets t" "occurs_at t p pos" "c = lead_constructed t" "occurs_at ls p (pos + length t)"
    "pos' = pos + length t + length ls" "pos' + len \<le> sc_end sc"
    "if i then c \<and> ls = [0x80] \<and> pos' + len = sc_end sc else ber_length_octets ls len"
proof -
  obtain ot oc where rt: "ber_read_tag (ptr_add p pos) (sc_end sc - pos) = (TLV_OK, ot, oc)"
    using h by (auto simp: scan_header_def Let_def split: prod.splits if_splits)
  show thesis
  proof (rule tag_at_inv [OF rt r])
    fix t assume t: "ber_tag_octets t" "occurs_at t p pos" "pos + length t \<le> sc_end sc"
      "ot = Some (tlv_tag (ptr_add p pos) (length t))" "oc = Some (length t)"
    note C = constructed_at [OF t(2) tag_octets_hd(1) [OF t(1)]]
    have ne: "pos + length t \<noteq> sc_end sc" using h rt t by (auto simp: scan_header_def Let_def)
    show thesis
    proof (cases "byte_at p (pos + length t) = 0x80")
      case True
      have "pos + length t < length (bytes p)" using t(3) ne r(1) by (simp add: readable_def)
      with True have "occurs_at [0x80] p (pos + length t)" by (simp add: occurs_at_def byte_at_def take_Suc_conv_app_nth)
      with h rt t C ne True show thesis
        by (intro that [OF t(1,2) _ _ , of "[0x80]"]) (auto simp: scan_header_def Let_def split: if_splits)
    next
      case False
      obtain ol oc' where rl: "ber_read_length (ptr_add p (pos + length t)) (sc_end sc - (pos + length t)) = (TLV_OK, ol, oc')"
        using h rt t ne False by (auto simp: scan_header_def Let_def split: prod.splits if_splits)
      show thesis
      proof (rule length_at_inv [OF rl r(1) t(3)])
        fix ls n assume "ber_length_octets ls n" "occurs_at ls p (pos + length t)" "pos + length t + length ls \<le> sc_end sc"
          "ol = Some n" "oc' = Some (length ls)"
        with h rt t C ne False rl show thesis
          by (intro that [OF t(1,2) _ _ , of ls]) (auto simp: scan_header_def Let_def split: if_splits)
      qed
    qed
  qed
qed

section \<open>The scan accepts what the grammar describes\<close>

lemma scan_loop_item:
  assumes "scan_header p sc pos e = h" "byte_at p pos \<noteq> 0" "pos \<noteq> sc_end sc"
  shows "scan_loop p (sc # scs) pos e =
    (case h of Inl failed \<Rightarrow> failed
      | Inr (pos, len, constructed, indefinite) \<Rightarrow>
          if constructed then
            (if length (sc # scs) = TLV_BER_MAX_DEPTH
             then scan_fail e TLV_ERR_LIMIT pos (if indefinite then TLV_REGION_LENGTH else TLV_REGION_VALUE) sc
             else scan_loop p
                    (\<lparr>sc_end = pos + len, sc_terminated = indefinite, sc_bounded = sc_bounded sc \<or> \<not> indefinite\<rparr>
                       # sc # scs) pos e)
          else scan_loop p (sc # scs) (pos + len) e)"
  using assms by (simp add: scan_loop.simps(2))

lemma scan_loop_close:
  "scs \<noteq> [] \<Longrightarrow> \<not> sc_terminated sc \<Longrightarrow> scan_loop p (sc # scs) (sc_end sc) e = scan_loop p scs (sc_end sc) e"
  by (simp add: scan_loop.simps(2))

lemma scan_loop_eoc:
  assumes "scs \<noteq> []" "sc_terminated sc" "occurs_at [0, 0] p pos" "pos + 2 \<le> sc_end sc"
  shows "scan_loop p (sc # scs) pos e = scan_loop p scs (pos + 2) e"
proof -
  have "occurs_at ([0] @ [0]) p pos" using assms(3) by simp
  then have "byte_at p pos = 0" "byte_at p (pos + 1) = 0"
    unfolding occurs_at_append using occurs_at_Cons by force+
  moreover have "\<not> sc_end sc - pos < 2" "pos \<noteq> sc_end sc" using assms(4) by linarith+
  ultimately show ?thesis using assms by (simp add: scan_loop.simps(2))
qed

lemma scan_item:
  shows "ber_item k x \<Longrightarrow> occurs_at x p pos \<Longrightarrow> pos + length x \<le> sc_end sc \<Longrightarrow> readable p (sc_end sc) \<Longrightarrow>
      k + length (sc # scs) \<le> TLV_BER_MAX_DEPTH \<Longrightarrow>
      scan_loop p (sc # scs) pos e = scan_loop p (sc # scs) (pos + length x) e"
    and "ber_items k xs \<Longrightarrow> occurs_at xs p pos \<Longrightarrow> pos + length xs \<le> sc_end sc \<Longrightarrow> readable p (sc_end sc) \<Longrightarrow>
      k + length (sc # scs) \<le> TLV_BER_MAX_DEPTH \<Longrightarrow>
      scan_loop p (sc # scs) pos e = scan_loop p (sc # scs) (pos + length xs) e"
proof (induction k x and k xs arbitrary: pos sc scs and pos sc scs rule: ber_item_ber_items.inducts)
  case (primitive t ls v k)
  from primitive have o: "occurs_at t p pos" "occurs_at ls p (pos + length t)" by auto
  have h: "scan_header p sc pos e = Inr (pos + length t + length ls, length v, False, False)"
    using scan_header_definite(1) [OF primitive(1) o(1) primitive(3) o(2), of sc e] primitive by simp
  show ?case
    using scan_loop_item [OF h, of scs] byte_at_occurs [OF o(1)] tag_octets_hd [OF primitive(1)] primitive(5)
    by (cases t) (simp_all add: add.assoc)
next
  case (definite t ls v k)
  from definite have o: "occurs_at t p pos" "occurs_at ls p (pos + length t)" "occurs_at v p (pos + length t + length ls)"
    by auto
  let ?q = "pos + length t + length ls"
  let ?c = "\<lparr>sc_end = ?q + length v, sc_terminated = False, sc_bounded = True\<rparr>"
  have h: "scan_header p sc pos e = Inr (?q, length v, True, False)"
    using scan_header_definite(1) [OF definite(1) o(1) definite(3) o(2), of sc e] definite by simp
  have "readable p (sc_end ?c)" using definite(8,7) readable_mono by fastforce
  then have "scan_loop p (?c # sc # scs) ?q e = scan_loop p (?c # sc # scs) (?q + length v) e"
    using definite(5) [OF o(3), of ?c "sc # scs"] definite(9) by simp
  also have "\<dots> = scan_loop p (sc # scs) (?q + length v) e" using scan_loop_close [of "sc # scs" ?c] by simp
  finally show ?case
    using scan_loop_item [OF h, of scs] byte_at_occurs [OF o(1)] tag_octets_hd [OF definite(1)] definite(7,9)
    by (cases t) (simp_all add: add.assoc)
next
  case (indefinite t k v)
  from indefinite have o: "occurs_at t p pos" "occurs_at [0x80] p (pos + length t)"
    "occurs_at v p (pos + length t + 1)" "occurs_at [0, 0] p (pos + length t + 1 + length v)"
    unfolding occurs_at_append by auto
  let ?q = "pos + length t + 1"
  let ?c = "\<lparr>sc_end = sc_end sc, sc_terminated = True, sc_bounded = sc_bounded sc\<rparr>"
  define len where "len = sc_end sc - ?q"
  have e: "pos + length t + 1 + len = sc_end sc" "pos \<noteq> sc_end sc" using indefinite(6) by (auto simp: len_def)
  have h: "scan_header p sc pos e = Inr (?q, len, True, True)"
    unfolding len_def using indefinite
    by (intro scan_header_indefinite(1) [OF indefinite(1) o(1) indefinite(2) o(2)]) auto
  have "scan_loop p (?c # sc # scs) ?q e = scan_loop p (?c # sc # scs) (?q + length v) e"
    using indefinite(4) [OF o(3), of ?c "sc # scs"] indefinite by simp
  also have "\<dots> = scan_loop p (sc # scs) (?q + length v + 2) e"
    using indefinite(6) o(4) by (intro scan_loop_eoc) auto
  finally show ?case
    using scan_loop_item [OF h, of scs] byte_at_occurs [OF o(1)] tag_octets_hd [OF indefinite(1)] e indefinite(8)
    by (simp add: add.assoc)
next
  case (no_items k)
  then show ?case by simp
next
  case (items k x xs)
  then show ?case by (simp add: add.assoc [symmetric])
qed

section \<open>What the scan accepts is described by the grammar\<close>

definition slice :: "ptr \<Rightarrow> nat \<Rightarrow> nat \<Rightarrow> u8 list" where
  "slice p a b = take (b - a) (drop a (bytes p))"

lemma slice_same [simp]: "slice p a a = []"
  by (simp add: slice_def)

lemma length_slice: "a \<le> b \<Longrightarrow> readable p b \<Longrightarrow> length (slice p a b) = b - a"
  by (simp add: slice_def readable_def)

lemma slice_split: "a \<le> b \<Longrightarrow> b \<le> c \<Longrightarrow> slice p a c = slice p a b @ slice p b c"
proof -
  assume "a \<le> b" "b \<le> c"
  then have "c - a = (b - a) + (c - b)" "b = a + (b - a)" by simp_all
  then show ?thesis unfolding slice_def by (metis add.commute drop_drop take_add)
qed

lemma slice_occurs: "occurs_at xs p a \<Longrightarrow> slice p a (a + length xs) = xs"
  by (simp add: slice_def occurs_at_def)

lemma occurs_slice: "a \<le> b \<Longrightarrow> readable p b \<Longrightarrow> occurs_at (slice p a b) p a"
  by (simp add: occurs_at_def length_slice) (simp add: slice_def)

lemma scan_fail_not_OK: "code \<noteq> TLV_OK \<Longrightarrow> fst (scan_fail e code pos region sc) \<noteq> TLV_OK"
  by (auto simp: scan_fail_def scan_failure_def Let_def)

lemma scan_header_Inl: "scan_header p sc pos e = Inl f \<Longrightarrow> fst f \<noteq> TLV_OK"
  by (auto simp: scan_header_def Let_def scan_fail_not_OK split: prod.splits if_splits)

text \<open>Where a scope ends, and how the scan goes on after it.\<close>

definition scope_closed :: "ptr \<Rightarrow> ber_scope \<Rightarrow> nat \<Rightarrow> bool" where
  "scope_closed p sc q \<longleftrightarrow>
     (if sc_terminated sc then q + 2 \<le> sc_end sc \<and> occurs_at [0, 0] p q else q = sc_end sc)"

definition after_scope :: "ber_scope \<Rightarrow> nat \<Rightarrow> nat" where
  "after_scope sc q = (if sc_terminated sc then q + 2 else q)"

definition scan_rest :: "ptr \<Rightarrow> ber_scope list \<Rightarrow> nat \<Rightarrow> nat \<Rightarrow> tlv_format_error_t \<Rightarrow> scan_result" where
  "scan_rest p scs q q' e = (if scs = [] then (TLV_OK, Some (q, q'), e) else scan_loop p scs q' e)"

lemma scope_closed_le: "scope_closed p sc q \<Longrightarrow> q \<le> after_scope sc q \<and> after_scope sc q \<le> sc_end sc"
  by (auto simp: scope_closed_def after_scope_def split: if_splits)

lemma byte_pair: "occurs_at [a, b] p pos \<longleftrightarrow> pos + 1 < length (bytes p) \<and> byte_at p pos = a \<and> byte_at p (pos + 1) = b"
proof (cases "pos + 1 < length (bytes p)")
  case True
  then have "drop pos (bytes p) = bytes p ! pos # bytes p ! Suc pos # drop (Suc (Suc pos)) (bytes p)"
    by (simp add: Cons_nth_drop_Suc)
  with True show ?thesis by (auto simp: occurs_at_def byte_at_def)
next
  case False
  then show ?thesis using occurs_at_bound [of "[a, b]" p pos] by auto
qed

text \<open>Closing the current scope.\<close>

lemma scan_close_cases:
  assumes "scan_loop p (sc # scs) pos e = (TLV_OK, r)" "readable p (sc_end sc)" "pos = sc_end sc \<or> byte_at p pos = 0"
    "pos \<le> sc_end sc"
  shows "scope_closed p sc pos \<and> scan_rest p scs pos (after_scope sc pos) e = (TLV_OK, r)"
proof -
  have F: "scan_fail e code pos region sc \<noteq> (TLV_OK, r)" if "code \<noteq> TLV_OK" for code region
    using scan_fail_not_OK [OF that, of e pos region sc] by (metis fst_conv)
  show ?thesis
    using assms F
    by (auto simp: scan_loop.simps(2) scope_closed_def after_scope_def scan_rest_def byte_pair readable_def
        split: if_splits)
qed

lemma scan_close_eq:
  assumes "scope_closed p sc q"
  shows "scan_loop p (sc # scs) q e = scan_rest p scs q (after_scope sc q) e"
  using assms
  by (auto simp: scope_closed_def after_scope_def scan_rest_def byte_pair scan_loop.simps(2) split: if_splits)

definition scan_weight :: "ber_scope list \<Rightarrow> nat \<Rightarrow> nat" where
  "scan_weight scs pos = 2 * (scan_room scs - pos) + length scs"

lemma scan_weight_child:
  "pos + 2 \<le> pos' \<Longrightarrow> pos' + len \<le> sc_end sc \<Longrightarrow>
   scan_weight (\<lparr>sc_end = pos' + len, sc_terminated = i, sc_bounded = b\<rparr> # sc # scs) pos' < scan_weight (sc # scs) pos"
  by (auto simp: scan_weight_def scan_room_def)

lemma scan_weight_next: "pos < pos' \<Longrightarrow> pos' \<le> sc_end sc \<Longrightarrow> scan_weight (sc # scs) pos' < scan_weight (sc # scs) pos"
  by (auto simp: scan_weight_def scan_room_def)

lemma scan_sound:
  "scan_loop p (sc # scs) pos e = (TLV_OK, r) \<Longrightarrow> readable p (sc_end sc) \<Longrightarrow> pos \<le> sc_end sc \<Longrightarrow>
   length (sc # scs) \<le> TLV_BER_MAX_DEPTH \<Longrightarrow>
   \<exists>q. pos \<le> q \<and> scope_closed p sc q \<and> ber_items (TLV_BER_MAX_DEPTH - length (sc # scs)) (slice p pos q) \<and>
     scan_rest p scs q (after_scope sc q) e = (TLV_OK, r)"
proof (induction "scan_weight (sc # scs) pos" arbitrary: sc scs pos rule: less_induct)
  case less
  note IH = less.hyps and ok = less.prems(1) and rd = less.prems(2) and le = less.prems(3) and d = less.prems(4)
  let ?k = "TLV_BER_MAX_DEPTH - length (sc # scs)"
  show ?case
  proof (cases "pos = sc_end sc \<or> byte_at p pos = 0")
    case True
    from scan_close_cases [OF ok rd this le] show ?thesis by (intro exI [of _ pos]) (auto intro: no_items)
  next
    case False
    obtain pos' len c i where h: "scan_header p sc pos e = Inr (pos', len, c, i)"
      using ok False scan_header_Inl [of p sc pos e]
      by (cases "scan_header p sc pos e") (auto simp: scan_loop.simps(2))
    note B = scan_header_bounds [OF h]
    let ?c = "\<lparr>sc_end = pos' + len, sc_terminated = i, sc_bounded = sc_bounded sc \<or> \<not> i\<rparr>"
    have L: "scan_loop p (sc # scs) pos e =
        (if c then (if length (sc # scs) = TLV_BER_MAX_DEPTH
           then scan_fail e TLV_ERR_LIMIT pos' (if i then TLV_REGION_LENGTH else TLV_REGION_VALUE) sc
           else scan_loop p (?c # sc # scs) pos' e) else scan_loop p (sc # scs) (pos' + len) e)"
      using scan_loop_item [OF h] False by simp
    have item: "\<exists>m. pos < m \<and> m \<le> sc_end sc \<and> ber_item ?k (slice p pos m) \<and> scan_loop p (sc # scs) m e = (TLV_OK, r)"
    proof (rule scan_header_inv [OF h rd le])
      fix t ls assume t: "ber_tag_octets t" "occurs_at t p pos" "c = lead_constructed t" and
        ls: "occurs_at ls p (pos + length t)" and pos': "pos' = pos + length t + length ls" and
        i: "if i then c \<and> ls = [0x80] \<and> pos' + len = sc_end sc else ber_length_octets ls len"
      have tl: "slice p pos pos' = t @ ls"
        using slice_occurs [of "t @ ls" p pos] t(2) ls pos' by (simp add: add.assoc)
      have sl: "slice p pos m = t @ ls @ slice p pos' m" if "pos' \<le> m" for m
        using slice_split [of pos pos' m p] B(1) that tl by simp
      show ?thesis
      proof (cases c)
        case False
        have rl: "readable p (pos' + len)" using readable_mono [OF rd B(2)] .
        then have "length (slice p pos' (pos' + len)) = len" by (simp add: length_slice)
        then have "ber_item ?k (slice p pos (pos' + len))"
          using False t i sl [of "pos' + len"] B(3) by (auto intro!: primitive split: if_splits)
        with False L ok B show ?thesis by (intro exI [of _ "pos' + len"]) auto
      next
        case True
        have nd: "length (sc # scs) \<noteq> TLV_BER_MAX_DEPTH"
          using True L ok scan_fail_not_OK [of TLV_ERR_LIMIT e pos'] by (auto split: if_splits) (metis fst_conv tlv_result_t.distinct)+
        then have ok': "scan_loop p (?c # sc # scs) pos' e = (TLV_OK, r)" using True L ok by simp
        have "readable p (sc_end ?c)" using readable_mono [OF rd B(2)] by simp
        from IH [OF scan_weight_child [OF B(1,2)] ok' this] nd d obtain q where q: "pos' \<le> q" "scope_closed p ?c q"
          "ber_items (TLV_BER_MAX_DEPTH - length (?c # sc # scs)) (slice p pos' q)"
          "scan_loop p (sc # scs) (after_scope ?c q) e = (TLV_OK, r)"
          by (auto simp: scan_rest_def)
        have k: "?k = Suc (TLV_BER_MAX_DEPTH - length (?c # sc # scs))" using nd d by simp
        note Q = scope_closed_le [OF q(2)]
        have "ber_item ?k (slice p pos (after_scope ?c q))"
        proof (cases i)
          case True
          then have "slice p q (q + 2) = [0, 0]" using q(2) slice_occurs [of "[0, 0]" p q] by (simp add: scope_closed_def)
          then have "slice p pos (after_scope ?c q) = t @ [0x80] @ slice p pos' q @ [0, 0]"
            using True i sl [of "q + 2"] slice_split [OF q(1), of "q + 2" p] q(1) by (simp add: after_scope_def)
          with True i t q(3) show ?thesis unfolding k by (simp add: indefinite [simplified])
        next
          case False
          then have qe: "q = pos' + len" using q(2) by (simp add: scope_closed_def)
          then have "length (slice p pos' q) = len" using readable_mono [OF rd B(2)] by (simp add: length_slice)
          with False i t q(1,3) qe \<open>c\<close> sl [OF q(1)] show ?thesis unfolding k by (auto simp: after_scope_def intro!: definite)
        qed
        with q(4) Q q(1) B show ?thesis by (intro exI [of _ "after_scope ?c q"]) auto
      qed
    qed
    then obtain m where m: "pos < m" "m \<le> sc_end sc" "ber_item ?k (slice p pos m)"
      "scan_loop p (sc # scs) m e = (TLV_OK, r)" by blast
    from IH [OF scan_weight_next [OF m(1,2)] m(4) rd m(2) d] obtain q where q: "m \<le> q" "scope_closed p sc q"
      "ber_items ?k (slice p m q)" "scan_rest p scs q (after_scope sc q) e = (TLV_OK, r)" by blast
    have "slice p pos q = slice p pos m @ slice p m q" using m(1) q(1) by (intro slice_split) auto
    with items [OF m(3) q(3)] q m(1) show ?thesis by (intro exI [of _ q]) auto
  qed
qed

section \<open>Proper prefixes\<close>

lemma occurs_readable: "occurs_at xs p pos \<Longrightarrow> m < pos + length xs \<Longrightarrow> pos \<le> m \<Longrightarrow> readable p m"
  using occurs_at_bound [of xs p pos] by (cases "xs = []") (auto simp: readable_def)

lemma scan_at_end:
  "pos = sc_end sc \<Longrightarrow> sc_terminated sc \<Longrightarrow> \<not> sc_bounded sc \<Longrightarrow>
   fst (scan_loop p (sc # scs) pos e) = TLV_ERR_TRUNCATED"
  by (simp add: scan_loop.simps(2) scan_fail_truncated)

lemma scan_header_failed:
  assumes "\<exists>f. scan_header p sc pos e = Inl f \<and> fst f = TLV_ERR_TRUNCATED" "byte_at p pos \<noteq> 0"
    "sc_terminated sc" "\<not> sc_bounded sc"
  shows "fst (scan_loop p (sc # scs) pos e) = TLV_ERR_TRUNCATED"
  using assms by (cases "pos = sc_end sc") (auto simp: scan_at_end scan_loop_item)

lemma scan_eoc_short:
  assumes "occurs_at [0, 0] p pos" "pos \<le> sc_end sc" "sc_end sc < pos + 2" "sc_terminated sc" "\<not> sc_bounded sc"
  shows "fst (scan_loop p (sc # scs) pos e) = TLV_ERR_TRUNCATED"
proof (cases "pos = sc_end sc")
  case False
  then have "sc_end sc - pos < 2" using assms(3) by simp
  with False assms(1,5) show ?thesis by (simp add: scan_loop.simps(2) byte_pair scan_fail_truncated)
qed (simp add: scan_at_end assms)

lemma scan_item_short:
  shows "ber_item k x \<Longrightarrow> occurs_at x p pos \<Longrightarrow> pos \<le> sc_end sc \<Longrightarrow> sc_end sc < pos + length x \<Longrightarrow>
      sc_terminated sc \<Longrightarrow> \<not> sc_bounded sc \<Longrightarrow> k + length (sc # scs) \<le> TLV_BER_MAX_DEPTH \<Longrightarrow>
      fst (scan_loop p (sc # scs) pos e) = TLV_ERR_TRUNCATED"
    and "ber_items k xs \<Longrightarrow> occurs_at xs p pos \<Longrightarrow> pos \<le> sc_end sc \<Longrightarrow> sc_end sc < pos + length xs \<Longrightarrow>
      sc_terminated sc \<Longrightarrow> \<not> sc_bounded sc \<Longrightarrow> k + length (sc # scs) \<le> TLV_BER_MAX_DEPTH \<Longrightarrow>
      fst (scan_loop p (sc # scs) pos e) = TLV_ERR_TRUNCATED"
proof (induction k x and k xs arbitrary: pos sc scs and pos sc scs rule: ber_item_ber_items.inducts)
  case (primitive t ls v k)
  note rd = occurs_readable [OF primitive(4,6,5)]
  from primitive have o: "occurs_at t p pos" "occurs_at ls p (pos + length t)" by auto
  have "byte_at p pos \<noteq> 0" using byte_at_occurs [OF o(1)] tag_octets_hd [OF primitive(1)] by simp
  then show ?case
    using scan_header_definite(2) [OF primitive(1) o(1) primitive(3) o(2) rd, of e] primitive(6,7,8)
    by (intro scan_header_failed) auto
next
  case (definite t ls v k)
  note rd = occurs_readable [OF definite(6,8,7)]
  from definite have o: "occurs_at t p pos" "occurs_at ls p (pos + length t)" by auto
  have "byte_at p pos \<noteq> 0" using byte_at_occurs [OF o(1)] tag_octets_hd [OF definite(1)] by simp
  then show ?case
    using scan_header_definite(2) [OF definite(1) o(1) definite(3) o(2) rd, of e] definite(8,9,10)
    by (intro scan_header_failed) auto
next
  case (indefinite t k v)
  note rd = occurs_readable [OF indefinite(5,7,6)]
  from indefinite have o: "occurs_at t p pos" "occurs_at [0x80] p (pos + length t)"
    "occurs_at v p (pos + length t + 1)" "occurs_at [0, 0] p (pos + length t + 1 + length v)"
    unfolding occurs_at_append by auto
  have b: "byte_at p pos \<noteq> 0" using byte_at_occurs [OF o(1)] tag_octets_hd [OF indefinite(1)] by simp
  show ?case
  proof (cases "sc_end sc \<le> pos + length t")
    case True
    then show ?thesis
      using scan_header_indefinite(2) [OF indefinite(1) o(1) indefinite(2) o(2) rd True] b indefinite(8,9)
      by (intro scan_header_failed) auto
  next
    case False
    let ?q = "pos + length t + 1"
    let ?c = "\<lparr>sc_end = sc_end sc, sc_terminated = True, sc_bounded = sc_bounded sc\<rparr>"
    have "0 < length t" using tag_octets_hd [OF indefinite(1)] by simp
    with False have e: "?q + (sc_end sc - ?q) = sc_end sc" "pos \<noteq> sc_end sc" by linarith+
    have h: "scan_header p sc pos e = Inr (?q, sc_end sc - ?q, True, True)"
      using False by (intro scan_header_indefinite(1) [OF indefinite(1) o(1) indefinite(2) o(2) rd]) simp
    have "fst (scan_loop p (?c # sc # scs) ?q e) = TLV_ERR_TRUNCATED"
    proof (cases "sc_end sc < ?q + length v")
      case True
      then show ?thesis using indefinite(4) [OF o(3), of ?c "sc # scs"] False indefinite(9,10) by simp
    next
      case False
      then have "scan_loop p (?c # sc # scs) ?q e = scan_loop p (?c # sc # scs) (?q + length v) e"
        using scan_item(2) [OF indefinite(3) o(3), of ?c "sc # scs" e] rd indefinite(10) by simp
      with scan_eoc_short [OF o(4), of ?c "sc # scs" e] False indefinite(7,9) show ?thesis by simp
    qed
    with scan_loop_item [OF h b e(2), of scs] indefinite(9,10) e(1) show ?thesis by simp
  qed
next
  case (no_items k)
  then show ?case by simp
next
  case (items k x xs)
  show ?case
  proof (cases "sc_end sc < pos + length x")
    case True
    with items show ?thesis by simp
  next
    case False
    have "readable p (sc_end sc)" using items(5,7,6) by (rule occurs_readable)
    with False items have "scan_loop p (sc # scs) pos e = scan_loop p (sc # scs) (pos + length x) e"
      by (intro scan_item(1) [OF items(1)]) auto
    with False items show ?thesis by simp
  qed
qed

section \<open>The scan as a whole\<close>

lemma scan_definite_iff:
  assumes "readable p n"
  shows "tlv_ber_scan_contents_diag p n False e = (TLV_OK, r, e') \<longleftrightarrow>
    ber_items (TLV_BER_MAX_DEPTH - 1) (take n (bytes p)) \<and> r = Some (n, n) \<and> e' = e" (is "?a \<longleftrightarrow> ?b")
proof
  let ?sc = "\<lparr>sc_end = n, sc_terminated = False, sc_bounded = False\<rparr>"
  assume ?a
  then have "scan_loop p [?sc] 0 e = (TLV_OK, r, e')" by (simp add: tlv_ber_scan_contents_diag_def)
  from scan_sound [OF this] assms show ?b
    by (auto simp: scope_closed_def after_scope_def scan_rest_def slice_def TLV_BER_MAX_DEPTH_def)
next
  let ?sc = "\<lparr>sc_end = n, sc_terminated = False, sc_bounded = False\<rparr>"
  assume b: ?b
  have len: "length (take n (bytes p)) = n" using assms by (simp add: readable_def)
  have "scan_loop p [?sc] 0 e = scan_loop p [?sc] n e"
    using scan_item(2) [OF conjunct1 [OF b], of p 0 ?sc "[]" e] assms len
    by (simp add: occurs_at_def TLV_BER_MAX_DEPTH_def)
  then show ?a using b by (simp add: tlv_ber_scan_contents_diag_def scan_loop.simps(2))
qed

lemma scan_indefinite_iff:
  assumes "readable p n"
  shows "tlv_ber_scan_contents_diag p n True e = (TLV_OK, r, e') \<longleftrightarrow>
    (\<exists>v. v + 2 \<le> n \<and> ber_items (TLV_BER_MAX_DEPTH - 1) (take v (bytes p)) \<and> occurs_at [0, 0] p v \<and>
      r = Some (v, v + 2) \<and> e' = e)" (is "?a \<longleftrightarrow> ?b")
proof
  let ?sc = "\<lparr>sc_end = n, sc_terminated = True, sc_bounded = False\<rparr>"
  assume ?a
  then have "scan_loop p [?sc] 0 e = (TLV_OK, r, e')" by (simp add: tlv_ber_scan_contents_diag_def)
  from scan_sound [OF this] assms show ?b
    by (auto simp: scope_closed_def after_scope_def scan_rest_def slice_def TLV_BER_MAX_DEPTH_def)
next
  let ?sc = "\<lparr>sc_end = n, sc_terminated = True, sc_bounded = False\<rparr>"
  assume ?b
  then obtain v where v: "v + 2 \<le> n" "ber_items (TLV_BER_MAX_DEPTH - 1) (take v (bytes p))" "occurs_at [0, 0] p v"
    and r: "r = Some (v, v + 2)" "e' = e" by blast
  have len: "length (take v (bytes p)) = v" using assms v(1) by (simp add: readable_def)
  have "scan_loop p [?sc] 0 e = scan_loop p [?sc] v e"
    using scan_item(2) [OF v(2), of p 0 ?sc "[]" e] assms len v(1)
    by (simp add: occurs_at_def TLV_BER_MAX_DEPTH_def)
  also have "\<dots> = scan_rest p [] v (after_scope ?sc v) e"
    using v by (intro scan_close_eq) (simp add: scope_closed_def)
  finally show ?a using r by (simp add: tlv_ber_scan_contents_diag_def scan_rest_def after_scope_def)
qed

lemma scan_indefinite_short:
  assumes "ber_items (TLV_BER_MAX_DEPTH - 1) (take v (bytes p))" "occurs_at [0, 0] p v" "m < v + 2"
  shows "fst (tlv_ber_scan_contents_diag p m True e) = TLV_ERR_TRUNCATED"
proof -
  let ?sc = "\<lparr>sc_end = m, sc_terminated = True, sc_bounded = False\<rparr>"
  have b: "v + 2 \<le> length (bytes p)" using occurs_at_bound [OF assms(2)] by simp
  then have len: "length (take v (bytes p)) = v" by simp
  have "fst (scan_loop p [?sc] 0 e) = TLV_ERR_TRUNCATED"
  proof (cases "m < v")
    case True
    then show ?thesis
      using scan_item_short(2) [OF assms(1), of p 0 ?sc "[]" e] len by (simp add: occurs_at_def TLV_BER_MAX_DEPTH_def)
  next
    case False
    then have "scan_loop p [?sc] 0 e = scan_loop p [?sc] v e"
      using scan_item(2) [OF assms(1), of p 0 ?sc "[]" e] len b assms(3)
      by (simp add: occurs_at_def TLV_BER_MAX_DEPTH_def readable_def)
    then show ?thesis using scan_eoc_short [OF assms(2), of ?sc "[]" e] False assms(3) by simp
  qed
  then show ?thesis by (simp add: tlv_ber_scan_contents_diag_def)
qed

end
