(* ===== verification/TLV_BER_Format.thy ===== *)
theory TLV_BER_Format
  imports TLV_BER_Scan
begin

text \<open>
  The ASN.1 formats as formats of the library.  BER and CER determine the end of a value by a
  resolver; \<open>resolved_reader\<close> states what a composition needs of one, and gives the prefix property of
  the decoder.  \<open>guarded_codec\<close> is the round trip of an encoder that, unlike the composed ones, inspects
  the contents it is given: the indefinite form of BER and of CER.
\<close>

unbundle bit_operations_syntax

section \<open>Compositions with a resolver\<close>

definition resolved_result :: "ptr \<Rightarrow> nat \<Rightarrow> nat \<Rightarrow> nat \<Rightarrow> nat \<Rightarrow> tlv_decoded_t \<Rightarrow> tlv_decoded_t" where
  "resolved_result p kt kl len tr d =
     d\<lparr>dec_element := \<lparr>elem_tag = tlv_tag p kt, elem_value = \<lparr>val_data = ptr_add p (kt + kl), val_size = len\<rparr>\<rparr>,
       dec_source := (dec_source d)\<lparr>src_tag := field_range 0 kt, src_length := field_range kt kl,
         src_header := field_range 0 (kt + kl), src_value := field_range (kt + kl) len,
         src_trailer := field_range (kt + kl + len) tr, src_size := kt + kl + len + tr\<rparr>\<rparr>"

lemma partitioned_resolved_result:
  assumes "src_tag_binding (dec_source d) = TLV_TAG_BINDING_SOURCE" "0 < kt" "kt + kl + len + tr \<le> n"
  shows "partitioned (resolved_result p kt kl len tr d) p n"
  using assms by (auto simp: partitioned_def resolved_result_def Let_def range_valid_def tag_binding_valid_def)

locale resolved_reader = tag_reader read_tag
  for read_tag +
  fixes resolve :: tlv_resolve_bounds_fn and f :: tlv_field_composition_t
  assumes f_read_tag: "fc_read_tag f = Some read_tag"
    and f_resolve: "fc_resolve f = Some resolve"
    and f_order: "fc_element_order f = TLV_ELEMENT_ORDER_TLV"
    and f_scope: "fc_length_scope f = TLV_LENGTH_SCOPE_VALUE"
    and resolve_inv:
    "readable p n \<Longrightarrow> resolve t p n error0 = (TLV_OK, olsz, olen, otr, e) \<Longrightarrow>
     \<exists>kl len tr. olsz = Some kl \<and> olen = Some len \<and> otr = Some tr \<and> kl \<le> n \<and>
       (\<forall>m. readable p m \<longrightarrow> kl + len + tr \<le> m \<longrightarrow>
          (\<exists>e. resolve t p m error0 = (TLV_OK, Some kl, Some len, Some tr, e))) \<and>
       (\<forall>m. readable p m \<longrightarrow> m < kl + len + tr \<longrightarrow>
          (kl \<le> m \<and> (\<exists>e. resolve t p m error0 = (TLV_OK, Some kl, Some len, Some tr, e))) \<or>
          fst (resolve t p m error0) = TLV_ERR_TRUNCATED)"
begin

definition start :: "tlv_decoded_t \<Rightarrow> tlv_format_error_t \<Rightarrow> fields_state" where
  "start d e = \<lparr>fs_tag = tlv_tag Null 0, fs_length = 0, fs_pos = 0, fs_tag_size = 0, fs_length_size = 0,
     fs_trailer = 0, fs_result = d, fs_error = e\<rparr>"

definition tagged :: "ptr \<Rightarrow> nat \<Rightarrow> tlv_decoded_t \<Rightarrow> tlv_format_error_t \<Rightarrow> fields_state" where
  "tagged p kt d e = (start d e)\<lparr>fs_tag := tlv_tag p kt, fs_tag_size := kt,
     fs_result := set_source_tag (field_range 0 kt) d, fs_pos := kt\<rparr>"

lemma decode_eq:
  "tlv_fields_decode f p n d e =
     (case fields_identifier f p n (start d e) of
        (rc, st) \<Rightarrow> if rc \<noteq> TLV_OK then (rc, fs_result st, fs_error st)
          else case fields_count f p n st of
            (rc, st) \<Rightarrow> if rc \<noteq> TLV_OK then (rc, fs_result st, fs_error st) else fields_finish f p n st)"
  by (simp add: tlv_fields_decode_def fields_step_def f_order start_def split: prod.split)

lemma identifier_OK:
  assumes "p \<noteq> Null" "0 < kt" "kt \<le> n" "read_tag p n = (TLV_OK, Some (tlv_tag p kt), Some kt)"
  shows "fields_identifier f p n (start d e) = (TLV_OK, tagged p kt d e)"
  using assms by (simp add: fields_identifier_def f_read_tag Let_def start_def tagged_def)

lemma identifier_inv:
  assumes r: "readable p n" and ok: "fields_identifier f p n (start d e) = (TLV_OK, st)"
  obtains kt where "p \<noteq> Null" "0 < kt" "kt \<le> n" "read_tag p n = (TLV_OK, Some (tlv_tag p kt), Some kt)"
    "st = tagged p kt d e"
proof -
  obtain ot oc where rd: "read_tag p n = (TLV_OK, ot, oc)"
    using ok by (auto simp: fields_identifier_def f_read_tag start_def Let_def split: prod.splits if_splits)
  with read_tag_inv [OF r rd] obtain k where k: "0 < k" "k \<le> n" "read_tag p n = (TLV_OK, Some (tlv_tag p k), Some k)"
    by blast
  moreover have "p \<noteq> Null" using k r by auto
  ultimately show thesis using identifier_OK ok by (intro that) auto
qed

text \<open>Both fields recognised: value and trailer decide.\<close>

lemma resolved_eq:
  assumes "p \<noteq> Null" "0 < kt" "kt \<le> n" "read_tag p n = (TLV_OK, Some (tlv_tag p kt), Some kt)"
    and "resolve (tlv_tag p kt) (ptr_add p kt) (n - kt) error0 = (TLV_OK, Some kl, Some len, Some tr, e')"
    and "kt + kl \<le> n"
  shows "kt + kl + len + tr \<le> n \<Longrightarrow> tlv_fields_decode f p n d e = (TLV_OK, resolved_result p kt kl len tr d, e)"
    and "n < kt + kl + len + tr \<Longrightarrow> fst (tlv_fields_decode f p n d e) = TLV_ERR_TRUNCATED"
proof -
  have "fields_count f p n (tagged p kt d e) =
      (TLV_OK, (tagged p kt d e)\<lparr>fs_length_size := kl, fs_length := len, fs_trailer := tr,
         fs_result := set_source_length (field_range kt kl) (set_source_tag (field_range 0 kt) d), fs_pos := kt + kl\<rparr>)"
    (is "_ = (_, ?st)")
    using assms by (simp add: fields_count_def fields_count_finish_def f_resolve f_scope tagged_def Let_def available_def)
  with assms have "tlv_fields_decode f p n d e = fields_finish f p n ?st" by (simp add: decode_eq identifier_OK)
  then show "kt + kl + len + tr \<le> n \<Longrightarrow> tlv_fields_decode f p n d e = (TLV_OK, resolved_result p kt kl len tr d, e)"
    "n < kt + kl + len + tr \<Longrightarrow> fst (tlv_fields_decode f p n d e) = TLV_ERR_TRUNCATED"
    using assms
    by (auto simp: fields_finish_def f_scope tagged_def start_def Let_def fields_publish_def
        resolved_result_def set_source_tag_def set_source_length_def)
qed

lemma resolved_inv:
  assumes r: "readable p n" and ok: "tlv_fields_decode f p n d e = (TLV_OK, res, e')"
  obtains kt kl len tr e1 where "p \<noteq> Null" "0 < kt" "kt + kl + len + tr \<le> n"
    "read_tag p n = (TLV_OK, Some (tlv_tag p kt), Some kt)"
    "resolve (tlv_tag p kt) (ptr_add p kt) (n - kt) error0 = (TLV_OK, Some kl, Some len, Some tr, e1)"
    "res = resolved_result p kt kl len tr d" "e' = e"
proof -
  obtain st where s: "fields_identifier f p n (start d e) = (TLV_OK, st)"
    using ok by (auto simp: decode_eq split: prod.splits if_splits)
  show thesis
  proof (rule identifier_inv [OF r s])
    fix kt assume kt: "p \<noteq> Null" "0 < kt" "kt \<le> n" "read_tag p n = (TLV_OK, Some (tlv_tag p kt), Some kt)"
      and st: "st = tagged p kt d e"
    obtain olsz olen otr e1 where
      rs: "resolve (tlv_tag p kt) (ptr_add p kt) (n - kt) error0 = (TLV_OK, olsz, olen, otr, e1)"
      using ok s st by (auto simp: decode_eq fields_count_def f_resolve tagged_def Let_def split: prod.splits if_splits)
    have "readable (ptr_add p kt) (n - kt)" using r kt(3) by (simp add: readable_def)
    from resolve_inv [OF this rs] obtain kl len tr where
      o: "olsz = Some kl" "olen = Some len" "otr = Some tr" and kl: "kl \<le> n - kt" by blast
    note E = resolved_eq [OF kt rs [unfolded o], of d e]
    have "kt + kl + len + tr \<le> n" using E(2) ok kl kt(3) by fastforce
    with E(1) ok kl kt rs o show thesis by (intro that [OF kt(1,2) _ kt(4)]) auto
  qed
qed

lemma resolved_stable:
  assumes r: "readable p n" and ok: "tlv_fields_decode f p n d e = (TLV_OK, res, e')"
    and m: "readable p m" "src_size (dec_source res) \<le> m"
  shows "tlv_fields_decode f p m d e = (TLV_OK, res, e')"
proof (rule resolved_inv [OF r ok])
  fix kt kl len tr e1
  assume K: "p \<noteq> Null" "0 < kt" "kt + kl + len + tr \<le> n" "read_tag p n = (TLV_OK, Some (tlv_tag p kt), Some kt)"
    and rs: "resolve (tlv_tag p kt) (ptr_add p kt) (n - kt) error0 = (TLV_OK, Some kl, Some len, Some tr, e1)"
    and res: "res = resolved_result p kt kl len tr d" "e' = e"
  have mm: "kt + kl + len + tr \<le> m" using m(2) res by (simp add: resolved_result_def)
  have rt: "read_tag p m = (TLV_OK, Some (tlv_tag p kt), Some kt)"
    using read_tag_inv [OF r K(4)] m(1) mm by auto
  have rd: "readable (ptr_add p kt) (j - kt)" if "readable p j" for j using that by (auto simp: readable_def)
  have "kl + len + tr \<le> m - kt" using mm by linarith
  then obtain e2 where "resolve (tlv_tag p kt) (ptr_add p kt) (m - kt) error0 = (TLV_OK, Some kl, Some len, Some tr, e2)"
    using resolve_inv [OF rd [OF r] rs] rd [OF m(1)] by blast
  from resolved_eq(1) [OF K(1,2) _ rt this, of d e] mm res show ?thesis by simp
qed

lemma resolved_short:
  assumes r: "readable p n" and ok: "tlv_fields_decode f p n d e = (TLV_OK, res, e')"
    and m: "m < src_size (dec_source res)"
  shows "fst (tlv_fields_decode f p m d e) = TLV_ERR_TRUNCATED"
proof (rule resolved_inv [OF r ok])
  fix kt kl len tr e1
  assume K: "p \<noteq> Null" "0 < kt" "kt + kl + len + tr \<le> n" "read_tag p n = (TLV_OK, Some (tlv_tag p kt), Some kt)"
    and rs: "resolve (tlv_tag p kt) (ptr_add p kt) (n - kt) error0 = (TLV_OK, Some kl, Some len, Some tr, e1)"
    and res: "res = resolved_result p kt kl len tr d" "e' = e"
  have mm: "m < kt + kl + len + tr" using m res by (simp add: resolved_result_def)
  have rm: "readable p m" using mm K(3) by (intro readable_mono [OF r]) simp
  have T: "kt \<le> m \<Longrightarrow> read_tag p m = (TLV_OK, Some (tlv_tag p kt), Some kt)"
    and T': "m < kt \<Longrightarrow> fst (read_tag p m) = TLV_ERR_TRUNCATED"
    using read_tag_inv [OF r K(4)] rm by auto
  show ?thesis
  proof (cases "kt \<le> m")
    case False
    then show ?thesis
      using T' by (auto simp: decode_eq fields_identifier_def f_read_tag start_def Let_def split: prod.splits)
  next
    case True
    let ?R = "resolve (tlv_tag p kt) (ptr_add p kt) (m - kt) error0"
    have rd: "readable (ptr_add p kt) (n - kt)" "readable (ptr_add p kt) (m - kt)"
      using r rm by (auto simp: readable_def)
    have "m - kt < kl + len + tr" using mm True by linarith
    with resolve_inv [OF rd(1) rs] rd(2)
    consider e2 where "kl \<le> m - kt" "?R = (TLV_OK, Some kl, Some len, Some tr, e2)" | "fst ?R = TLV_ERR_TRUNCATED"
      by blast
    then show ?thesis
    proof cases
      case 1
      from resolved_eq(2) [OF K(1,2) True T [OF True] 1(2)] mm 1(1) True show ?thesis by simp
    next
      case 2
      obtain a b c x where "?R = (TLV_ERR_TRUNCATED, a, b, c, x)" using 2 by (metis prod.exhaust_sel)
      with identifier_OK [OF K(1,2) True T [OF True], of d e] show ?thesis
        by (simp add: decode_eq fields_count_def f_resolve tagged_def Let_def)
    qed
  qed
qed

end

sublocale resolved_reader \<subseteq> prefix_decoder "tlv_fields_decode f"
proof unfold_locales
  fix p n r e
  assume r: "readable p n" "0 < n" "tlv_fields_decode f p n decoded0 error0 = (TLV_OK, r, e)"
  show "partitioned r p n"
    by (rule resolved_inv [OF r(1,3)]) (simp add: partitioned_resolved_result)
  show "tlv_fields_decode f p m decoded0 error0 = (TLV_OK, r, e)"
    if "readable p m" "src_size (dec_source r) \<le> m" for m
    by (rule resolved_stable [OF r(1,3) that])
  show "fst (tlv_fields_decode f p m decoded0 error0) = TLV_ERR_TRUNCATED"
    if "m < src_size (dec_source r)" for m
    by (rule resolved_short [OF r(1,3) that])
qed

section \<open>Encoders that inspect the contents\<close>

locale guarded_codec = prefix_decoder decode
  for decode :: tlv_decode_fn +
  fixes encode_fn :: tlv_encode_fn and wire :: "tlv_element_t \<Rightarrow> u8 list"
  assumes encode_inv:
    "element_wf el \<Longrightarrow> cap \<le> length buf \<Longrightarrow> encode_fn el (Some buf) cap 0 error0 = (TLV_OK, buf', n, e) \<Longrightarrow>
     0 < length (wire el) \<and> length (wire el) \<le> cap \<and> n = length (wire el) \<and> buf' = Some (blit 0 (wire el) buf)"
  and decode_written:
    "element_wf el \<Longrightarrow> cap \<le> length buf \<Longrightarrow> fst (encode_fn el (Some buf) cap 0 error0) = TLV_OK \<Longrightarrow>
     length (wire el) \<le> m \<Longrightarrow> readable q m \<Longrightarrow> take (length (wire el)) (bytes q) = wire el \<Longrightarrow>
     \<exists>r e. decode q m decoded0 error0 = (TLV_OK, r, e) \<and> src_size (dec_source r) = length (wire el) \<and>
         same_content (dec_element r) el"
begin

lemma guarded_roundtrip:
  assumes f: "fmt_decode f = Some decode" "fmt_encode f = Some encode_fn"
    and wf: "element_wf el" and cap: "cap \<le> length buf"
    and ok: "tlv_format_encode (Some f) (Some el) (Some buf) cap True = (TLV_OK, ob, on, oe)"
  shows "ob = Some (blit 0 (wire el) buf) \<and> on = Some (length (wire el)) \<and> length (wire el) \<le> cap \<and>
    (\<forall>a rest. \<exists>d. tlv_format_decode (Some f) (Ptr a (wire el @ rest)) (length (wire el) + length rest) True =
         (TLV_OK, Some d, None) \<and> src_size (dec_source d) = length (wire el) \<and> same_content (dec_element d) el)"
proof -
  obtain used e where enc: "encode_fn el (Some buf) cap 0 error0 = (TLV_OK, ob, used, e)" and on: "on = Some used"
    using ok f(2) by (auto simp: tlv_format_encode_def Let_def split: prod.splits if_splits)
  note I = encode_inv [OF wf cap enc]
  have "\<exists>d. tlv_format_decode (Some f) (Ptr a (wire el @ rest)) (length (wire el) + length rest) True =
      (TLV_OK, Some d, None) \<and> src_size (dec_source d) = length (wire el) \<and> same_content (dec_element d) el" for a rest
  proof -
    let ?n = "length (wire el) + length rest" and ?q = "Ptr a (wire el @ rest)"
    obtain r e where "decode ?q ?n decoded0 error0 = (TLV_OK, r, e)" "src_size (dec_source r) = length (wire el)"
      "same_content (dec_element r) el"
      using decode_written [OF wf cap, of ?n ?q] enc by auto
    with format_decode_OK [OF f(1), of ?q ?n] I show ?thesis by auto
  qed
  with I on show ?thesis by auto
qed

end

section \<open>What BER and CER share\<close>

definition indefinite_wire :: "tlv_element_t \<Rightarrow> u8 list" where
  "indefinite_wire el = tag_bytes (elem_tag el) @ [0x80] @ value_bytes (elem_value el) @ [0, 0]"

lemma indefinite_blits:
  assumes "length t + length v + 3 \<le> length buf"
  shows "blit (length t + length v + 2) [0] (blit (length t + length v + 1) [0] (blit (length t + 1) v
      (blit (length t) [c] (blit 0 t buf)))) = blit 0 (t @ [c] @ v @ [0, 0]) buf"
proof -
  have "blit (length t) [c] (blit 0 t buf) = blit 0 (t @ [c]) buf"
    using blit_blit(1) [of 0 t "[c]" buf] assms by simp
  moreover have "blit (length t + 1) v (blit 0 (t @ [c]) buf) = blit 0 (t @ [c] @ v) buf"
    using blit_blit(1) [of 0 "t @ [c]" v buf] assms by simp
  moreover have "blit (length t + length v + 1) [0] (blit 0 (t @ [c] @ v) buf) = blit 0 (t @ [c] @ v @ [0]) buf"
    using blit_blit(1) [of 0 "t @ [c] @ v" "[0]" buf] assms by (simp add: add.assoc)
  moreover have "blit (length t + length v + 2) [0] (blit 0 (t @ [c] @ v @ [0]) buf) = blit 0 (t @ [c] @ v @ [0, 0]) buf"
    using blit_blit(1) [of 0 "t @ [c] @ v @ [0]" "[0]" buf] assms by (simp add: add.assoc)
  ultimately show ?thesis by simp
qed

lemma constructed_cong:
  assumes "tag_wf t" "0 < tag_size t" "take (tag_size t) (bytes q) = tag_bytes t" "q \<noteq> Null"
  shows "tlv_asn1_is_constructed (tlv_tag q (tag_size t)) = tlv_asn1_is_constructed t"
proof -
  have "bytes q ! 0 = tag_bytes t ! 0" using assms(2) by (metis assms(3) nth_take)
  then have "byte_at q 0 = byte_at (tag_data t) 0" using assms(2) by (simp add: byte_at_def tag_bytes_def)
  moreover have "tag_data t \<noteq> Null" using assms(1,2) by (auto simp: tag_wf_def)
  ultimately show ?thesis
    using assms(2,4) by (simp add: tlv_asn1_is_constructed_def tlv_constructed_bit_predicate_def)
qed

lemma scan_value_iff:
  assumes "value_wf v"
  shows "fst (tlv_ber_scan_contents (val_data v) (val_size v) False) = TLV_OK \<longleftrightarrow>
    ber_items (TLV_BER_MAX_DEPTH - 1) (value_bytes v)"
proof -
  have r: "readable (val_data v) (val_size v)" using assms by (simp add: value_wf_def)
  have "fst (tlv_ber_scan_contents (val_data v) (val_size v) False) = TLV_OK \<longleftrightarrow>
      (\<exists>r e. tlv_ber_scan_contents_diag (val_data v) (val_size v) False error0 = (TLV_OK, r, e))"
    by (auto simp: tlv_ber_scan_contents_def split: prod.splits)
  also have "\<dots> \<longleftrightarrow> ber_items (TLV_BER_MAX_DEPTH - 1) (value_bytes v)"
    unfolding scan_definite_iff [OF r] by (auto simp: value_bytes_def)
  finally show ?thesis .
qed

locale asn1_composition =
  resolved_reader read_tag resolve f + tag_codec read_tag write_tag + length_codec read_length write_length len_enc
  for read_tag resolve f write_tag read_length write_length len_enc +
  fixes definite_ok :: "tlv_tag_t \<Rightarrow> bool"
  assumes f_write_tag: "fc_write_tag f = Some write_tag"
    and f_write_length: "fc_write_length f = Some write_length"
    and write_tag_bound: "tag_wf t \<Longrightarrow> fst (write_tag t None 0) = TLV_OK \<Longrightarrow> tag_size t \<le> TLV_ASN1_TAG_MAX_SIZE"
    and len_enc_lead: "l \<le> TLV_SIZE_MAX \<Longrightarrow> fst (write_length l None 0) = TLV_OK \<Longrightarrow> hd (len_enc l) \<noteq> 0x80"
    and resolve_definite:
    "0 < n \<Longrightarrow> byte_at p 0 \<noteq> 0x80 \<Longrightarrow> definite_ok t \<Longrightarrow> read_length p n = (TLV_OK, Some l, Some k) \<Longrightarrow>
     resolve t p n error0 = (TLV_OK, Some k, Some l, Some 0, error0)"
    and resolve_indefinite:
    "0 < n \<Longrightarrow> byte_at p 0 = 0x80 \<Longrightarrow> tlv_asn1_is_constructed t \<Longrightarrow>
     tlv_ber_scan_contents_diag (ptr_add p 1) (n - 1) True error0 = (TLV_OK, Some (v, w), error0) \<Longrightarrow>
     resolve t p n error0 = (TLV_OK, Some 1, Some v, Some 2, error0)"
begin

text \<open>The indefinite form is written exactly when the identifier is constructed and the contents are items.\<close>

lemma indefinite_measure_iff:
  assumes wf: "element_wf el"
  shows "tlv_asn1_indefinite_measure f el encoding0 e = (TLV_OK, en, e') \<longleftrightarrow>
    fst (write_tag (elem_tag el) None 0) = TLV_OK \<and> tlv_asn1_is_constructed (elem_tag el) \<and>
    tag_size (elem_tag el) + val_size (elem_value el) + 3 \<le> TLV_SIZE_MAX \<and> e' = e \<and>
    en = \<lparr>en_header = tag_size (elem_tag el) + 1, en_value = val_size (elem_value el), en_trailer = 2,
          en_total = tag_size (elem_tag el) + val_size (elem_value el) + 3\<rparr>"
proof (cases "fst (write_tag (elem_tag el) None 0) = TLV_OK")
  case True
  have twf: "tag_wf (elem_tag el)" using wf by (simp add: element_wf_def)
  have b: "tag_size (elem_tag el) < TLV_SIZE_MAX" "val_size (elem_value el) \<le> TLV_SIZE_MAX"
    using write_tag_bound [OF twf True] wf
    by (simp_all add: element_wf_def value_wf_def SIZE_MAX_def TLV_SIZE_MAX_def TLV_ASN1_TAG_MAX_SIZE_def)
  show ?thesis
  proof (cases "tag_size (elem_tag el) + val_size (elem_value el) + 3 \<le> TLV_SIZE_MAX")
    case fits: True
    with write_tag_query [OF twf True] show ?thesis
      by (auto simp: tlv_asn1_indefinite_measure_def f_write_tag Let_def encoding0_def)
  next
    case False
    with write_tag_query [OF twf True] b show ?thesis
      by (auto simp: tlv_asn1_indefinite_measure_def f_write_tag Let_def encoding0_def tlv_size_add_iff
          split: prod.splits if_splits)
  qed
next
  case False
  then show ?thesis
    by (auto simp: tlv_asn1_indefinite_measure_def f_write_tag Let_def split: prod.splits if_splits)
qed

lemma indefinite_encode_iff:
  assumes wf: "element_wf el" and cap: "cap \<le> length buf"
  shows "tlv_asn1_indefinite_encode f el (Some buf) cap 0 e = (TLV_OK, buf', n, e') \<longleftrightarrow>
    fst (write_tag (elem_tag el) None 0) = TLV_OK \<and> tlv_asn1_is_constructed (elem_tag el) \<and>
    ber_items (TLV_BER_MAX_DEPTH - 1) (value_bytes (elem_value el)) \<and>
    length (indefinite_wire el) \<le> cap \<and> length (indefinite_wire el) \<le> TLV_SIZE_MAX \<and> e' = e \<and>
    n = length (indefinite_wire el) \<and> buf' = Some (blit 0 (indefinite_wire el) buf)" (is "?a \<longleftrightarrow> ?b")
proof -
  let ?t = "elem_tag el" and ?v = "elem_value el"
  have wfs: "tag_wf ?t" "value_wf ?v" using wf by (auto simp: element_wf_def)
  have len: "length (indefinite_wire el) = tag_size ?t + val_size ?v + 3"
    using wfs by (simp add: indefinite_wire_def)
  let ?m = "tlv_asn1_indefinite_measure f el encoding0 e"
  show ?thesis
  proof (cases "fst ?m = TLV_OK")
    case False
    then have "fst (tlv_asn1_indefinite_encode f el (Some buf) cap 0 e) \<noteq> TLV_OK"
      by (auto simp: tlv_asn1_indefinite_encode_def split: prod.splits)
    moreover have "\<not> ?b" using False len by (auto simp: indefinite_measure_iff [OF wf, THEN iffD2])
    ultimately show ?thesis by auto
  next
    case True
    obtain en e1 where m: "?m = (TLV_OK, en, e1)" using True by (metis prod.exhaust_sel)
    note M = m [unfolded indefinite_measure_iff [OF wf]]
    have nat: "tlv_size_to_native (tag_size ?t + val_size ?v + 3) True = (TLV_OK, Some (tag_size ?t + val_size ?v + 3))"
      using M by (intro tlv_size_to_native_OK) (simp add: SIZE_MAX_def TLV_SIZE_MAX_def)
    have vb: "val_size ?v = 0 \<Longrightarrow> value_bytes ?v = []" "take (val_size ?v) (bytes (val_data ?v)) = value_bytes ?v"
      by (simp_all add: value_bytes_def)
    have B: "tag_size ?t + val_size ?v + 3 \<le> cap \<Longrightarrow>
        blit (tag_size ?t + val_size ?v + 2) [0] (blit (tag_size ?t + val_size ?v + 1) [0] (blit (tag_size ?t + 1) (value_bytes ?v)
          (blit (tag_size ?t) [0x80] (blit 0 (tag_bytes ?t) buf)))) = blit 0 (indefinite_wire el) buf"
      using indefinite_blits [of "tag_bytes ?t" "value_bytes ?v" buf "0x80"] wfs cap by (simp add: indefinite_wire_def)
    show ?thesis
    proof (cases "fst (tlv_ber_scan_contents (val_data ?v) (val_size ?v) False) = TLV_OK")
      case scan: True
      then obtain r where s: "tlv_ber_scan_contents (val_data ?v) (val_size ?v) False = (TLV_OK, r)"
        by (metis prod.exhaust_sel)
      have "tlv_asn1_indefinite_encode f el (Some buf) cap 0 e =
          (if tag_size ?t + val_size ?v + 3 \<le> cap
           then (TLV_OK, Some (blit 0 (indefinite_wire el) buf), length (indefinite_wire el), e)
           else (TLV_ERR_BUFFER_TOO_SHORT, Some buf, 0, indefinite_failure e TLV_REGION_TAG 0))"
        using B M m nat s
        by (auto simp: tlv_asn1_indefinite_encode_def Let_def len tag_bytes_def vb numeral_3_eq_3 numeral_2_eq_2)
      then show ?thesis using M len scan scan_value_iff [OF wfs(2)] by auto
    next
      case False
      have "fst (tlv_asn1_indefinite_encode f el (Some buf) cap 0 e) \<noteq> TLV_OK"
        using False m M nat by (auto simp: tlv_asn1_indefinite_encode_def Let_def split: prod.splits if_splits)
      then show ?thesis using False scan_value_iff [OF wfs(2)] by auto
    qed
  qed
qed

text \<open>Both forms decode to the element they were written from.\<close>

lemma written_prefix:
  assumes wf: "element_wf el" and ok: "fst (write_tag (elem_tag el) None 0) = TLV_OK"
    and q: "readable q m" "take (tag_size (elem_tag el) + k) (bytes q) = tag_bytes (elem_tag el) @ xs"
    and m: "tag_size (elem_tag el) + k \<le> m"
  shows "q \<noteq> Null" "0 < tag_size (elem_tag el)"
    and "read_tag q m = (TLV_OK, Some (tlv_tag q (tag_size (elem_tag el))), Some (tag_size (elem_tag el)))"
    and "take (tag_size (elem_tag el)) (bytes q) = tag_bytes (elem_tag el)"
    and "take k (drop (tag_size (elem_tag el)) (bytes q)) = xs"
    and "tlv_asn1_is_constructed (tlv_tag q (tag_size (elem_tag el))) = tlv_asn1_is_constructed (elem_tag el)"
proof -
  have twf: "tag_wf (elem_tag el)" using wf by (simp add: element_wf_def)
  let ?k = "tag_size (elem_tag el)"
  show pos: "0 < ?k" using write_tag_query [OF twf ok] by simp
  show nz: "q \<noteq> Null" using pos m q(1) by auto
  from q(2) have "take ?k (bytes q) @ take k (drop ?k (bytes q)) = tag_bytes (elem_tag el) @ xs"
    by (simp add: take_add)
  moreover have "length (take ?k (bytes q)) = length (tag_bytes (elem_tag el))"
    using twf q(1) m by (simp add: readable_def)
  ultimately show tb: "take ?k (bytes q) = tag_bytes (elem_tag el)" and "take k (drop ?k (bytes q)) = xs"
    by auto
  show "read_tag q m = (TLV_OK, Some (tlv_tag q ?k), Some ?k)"
    by (rule read_written_tag [OF twf ok _ q(1) tb]) (use m in simp)
  show "tlv_asn1_is_constructed (tlv_tag q ?k) = tlv_asn1_is_constructed (elem_tag el)"
    by (rule constructed_cong [OF twf pos tb nz])
qed

lemma resolved_content:
  assumes "take (tag_size (elem_tag el)) (bytes q) = tag_bytes (elem_tag el)"
    and "take (val_size (elem_value el)) (drop (tag_size (elem_tag el) + kl) (bytes q)) = value_bytes (elem_value el)"
  shows "same_content (dec_element (resolved_result q (tag_size (elem_tag el)) kl (val_size (elem_value el)) tr d)) el"
  using assms by (simp add: same_content_def resolved_result_def tag_bytes_def value_bytes_def)

lemma indefinite_decode:
  assumes wf: "element_wf el" and ok: "fst (write_tag (elem_tag el) None 0) = TLV_OK"
    and c: "tlv_asn1_is_constructed (elem_tag el)" and items: "ber_items (TLV_BER_MAX_DEPTH - 1) (value_bytes (elem_value el))"
    and m: "length (indefinite_wire el) \<le> m" "readable q m" "take (length (indefinite_wire el)) (bytes q) = indefinite_wire el"
  shows "\<exists>r e. tlv_fields_decode f q m decoded0 error0 = (TLV_OK, r, e) \<and>
      src_size (dec_source r) = length (indefinite_wire el) \<and> same_content (dec_element r) el"
proof -
  let ?k = "tag_size (elem_tag el)" and ?v = "val_size (elem_value el)" and ?vb = "value_bytes (elem_value el)"
  have wfs: "tag_wf (elem_tag el)" "value_wf (elem_value el)" using wf by (auto simp: element_wf_def)
  have len: "length (indefinite_wire el) = ?k + (?v + 3)" using wfs by (simp add: indefinite_wire_def)
  have eq: "take (?k + (?v + 3)) (bytes q) = tag_bytes (elem_tag el) @ [0x80] @ ?vb @ [0, 0]"
    using m(3) unfolding len by (simp add: indefinite_wire_def)
  note W = written_prefix [OF wf ok m(2) eq m(1) [unfolded len]]
  have o: "occurs_at ([0x80] @ ?vb @ [0, 0]) (ptr_add q ?k) 0"
    using W(5) wfs by (simp only: occurs_at_def) (simp add: eval_nat_numeral)
  then have lead: "occurs_at [0x80] (ptr_add q ?k) 0" and vb: "occurs_at ?vb (ptr_add q (?k + 1)) 0"
    and eoc: "occurs_at [0, 0] (ptr_add q (?k + 1)) ?v"
    using wfs unfolding occurs_at_append by (simp_all add: occurs_at_def add.commute)
  have km: "?k + ?v + 3 \<le> m" using m(1) len by simp
  have b: "byte_at (ptr_add q ?k) 0 = 0x80" using occurs_at_Cons [OF lead] .
  have rd: "readable (ptr_add q (?k + 1)) (m - ?k - 1)" using m(2) by (auto simp: readable_def)
  have "ber_items (TLV_BER_MAX_DEPTH - 1) (take ?v (bytes (ptr_add q (?k + 1))))"
    using items vb wfs by (simp add: occurs_at_def)
  then have "tlv_ber_scan_contents_diag (ptr_add q (?k + 1)) (m - ?k - 1) True error0 = (TLV_OK, Some (?v, ?v + 2), error0)"
    using eoc km unfolding scan_indefinite_iff [OF rd] by (intro exI [of _ ?v]) auto
  then have "resolve (tlv_tag q ?k) (ptr_add q ?k) (m - ?k) error0 = (TLV_OK, Some 1, Some ?v, Some 2, error0)"
    using km b W(6) c by (intro resolve_indefinite) auto
  with resolved_eq(1) [OF W(1,2) _ W(3), of 1 ?v 2 error0 decoded0 error0] km
  have "tlv_fields_decode f q m decoded0 error0 = (TLV_OK, resolved_result q ?k 1 ?v 2 decoded0, error0)" by simp
  moreover have "same_content (dec_element (resolved_result q ?k 1 ?v 2 decoded0)) el"
    using vb wfs by (intro resolved_content W(4)) (simp add: occurs_at_def add.commute)
  ultimately show ?thesis using len by (simp add: resolved_result_def)
qed

lemma definite_decode:
  assumes wf: "element_wf el" and ok: "fst (write_tag (elem_tag el) None 0) = TLV_OK"
    "fst (write_length (val_size (elem_value el)) None 0) = TLV_OK"
    and d: "definite_ok (tlv_tag q (tag_size (elem_tag el)))"
    and m: "length (fields_wire f len_enc el) \<le> m" "readable q m"
      "take (length (fields_wire f len_enc el)) (bytes q) = fields_wire f len_enc el"
  shows "\<exists>r e. tlv_fields_decode f q m decoded0 error0 = (TLV_OK, r, e) \<and>
      src_size (dec_source r) = length (fields_wire f len_enc el) \<and> same_content (dec_element r) el"
proof -
  let ?k = "tag_size (elem_tag el)" and ?v = "val_size (elem_value el)" and ?vb = "value_bytes (elem_value el)"
  let ?l = "len_enc ?v"
  have wfs: "tag_wf (elem_tag el)" "value_wf (elem_value el)" using wf by (auto simp: element_wf_def)
  have v: "?v \<le> TLV_SIZE_MAX" using wfs(2) by (simp add: value_wf_def SIZE_MAX_def TLV_SIZE_MAX_def)
  have w: "fields_wire f len_enc el = tag_bytes (elem_tag el) @ ?l @ ?vb"
    by (simp add: fields_wire_def order_tlv_def f_order wire_count_def scoped_def f_scope)
  have len: "length (fields_wire f len_enc el) = ?k + (length ?l + ?v)" using wfs by (simp add: w)
  have eq: "take (?k + (length ?l + ?v)) (bytes q) = tag_bytes (elem_tag el) @ ?l @ ?vb"
    using m(3) unfolding len by (simp add: w)
  note W = written_prefix [OF wf ok(1) m(2) eq m(1) [unfolded len]]
  have "occurs_at (?l @ ?vb) (ptr_add q ?k) 0" using W(5) wfs by (simp only: occurs_at_def) simp
  then have lb: "occurs_at ?l (ptr_add q ?k) 0" and vb: "occurs_at ?vb (ptr_add q ?k) (length ?l)"
    unfolding occurs_at_append by simp_all
  have km: "?k + length ?l + ?v \<le> m" using m(1) len by simp
  have lpos: "0 < length ?l" using write_length_query [OF v ok(2)] by simp
  have b: "byte_at (ptr_add q ?k) 0 \<noteq> 0x80" using byte_at_occurs [OF lb] lpos len_enc_lead [OF v ok(2)] by simp
  have rl: "read_length (ptr_add q ?k) (m - ?k) = (TLV_OK, Some ?v, Some (length ?l))"
    using lb km m(2) by (intro read_written_length [OF v ok(2)]) (auto simp: occurs_at_def readable_def)
  have "resolve (tlv_tag q ?k) (ptr_add q ?k) (m - ?k) error0 = (TLV_OK, Some (length ?l), Some ?v, Some 0, error0)"
    using km lpos by (intro resolve_definite [OF _ b d rl]) linarith
  with resolved_eq(1) [OF W(1,2) _ W(3), of "length ?l" ?v 0 error0 decoded0 error0] km
  have "tlv_fields_decode f q m decoded0 error0 = (TLV_OK, resolved_result q ?k (length ?l) ?v 0 decoded0, error0)" by simp
  moreover have "same_content (dec_element (resolved_result q ?k (length ?l) ?v 0 decoded0)) el"
    using vb wfs by (intro resolved_content W(4)) (simp add: occurs_at_def add.commute)
  ultimately show ?thesis using len by (simp add: resolved_result_def)
qed

end

section \<open>The resolvers of BER and CER\<close>

lemma scan_resolve:
  assumes r: "readable p n" "0 < n"
    and ok: "tlv_ber_scan_contents_diag (ptr_add p 1) (n - 1) True error0 = (TLV_OK, res, e)"
  obtains v where "res = Some (v, v + 2)" "e = error0"
    "\<And>m. readable p m \<Longrightarrow> v + 3 \<le> m \<Longrightarrow>
       tlv_ber_scan_contents_diag (ptr_add p 1) (m - 1) True error0 = (TLV_OK, Some (v, v + 2), error0)"
    "\<And>m. m < v + 3 \<Longrightarrow> 0 < m \<Longrightarrow>
       fst (tlv_ber_scan_contents_diag (ptr_add p 1) (m - 1) True error0) = TLV_ERR_TRUNCATED"
proof -
  have rd: "readable (ptr_add p 1) (m - 1)" if "readable p m" for m using that by (auto simp: readable_def)
  from ok obtain v where v: "v + 2 \<le> n - 1" "ber_items (TLV_BER_MAX_DEPTH - 1) (take v (bytes (ptr_add p 1)))"
    "occurs_at [0, 0] (ptr_add p 1) v" "res = Some (v, v + 2)" "e = error0"
    unfolding scan_indefinite_iff [OF rd [OF r(1)]] by blast
  show thesis
  proof (rule that [OF v(4,5)])
    show "tlv_ber_scan_contents_diag (ptr_add p 1) (m - 1) True error0 = (TLV_OK, Some (v, v + 2), error0)"
      if "readable p m" "v + 3 \<le> m" for m
      unfolding scan_indefinite_iff [OF rd [OF that(1)]] using v that by (intro exI [of _ v]) auto
    show "fst (tlv_ber_scan_contents_diag (ptr_add p 1) (m - 1) True error0) = TLV_ERR_TRUNCATED"
      if "m < v + 3" "0 < m" for m
      using scan_indefinite_short [OF v(2,3)] that by simp
  qed
qed

text \<open>
  The law of a resolver whose results for a given start are \<open>R\<close>, when it reads a length and when it scans.
\<close>

definition resolver_law ::
  "ptr \<Rightarrow> nat \<Rightarrow> (nat \<Rightarrow> tlv_result_t \<times> nat option \<times> nat option \<times> nat option \<times> tlv_format_error_t) \<Rightarrow>
     nat option \<Rightarrow> nat option \<Rightarrow> nat option \<Rightarrow> bool" where
  "resolver_law p n R olsz olen otr \<longleftrightarrow>
     (\<exists>kl len tr. olsz = Some kl \<and> olen = Some len \<and> otr = Some tr \<and> kl \<le> n \<and>
       (\<forall>m. readable p m \<longrightarrow> kl + len + tr \<le> m \<longrightarrow> (\<exists>e. R m = (TLV_OK, Some kl, Some len, Some tr, e))) \<and>
       (\<forall>m. readable p m \<longrightarrow> m < kl + len + tr \<longrightarrow>
          (kl \<le> m \<and> (\<exists>e. R m = (TLV_OK, Some kl, Some len, Some tr, e))) \<or> fst (R m) = TLV_ERR_TRUNCATED))"

lemma resolver_law_length:
  assumes L: "length_reader rl" and r: "readable p n" and ok: "rl p n = (TLV_OK, ol, oc)"
    and R: "\<And>m l k. 0 < m \<Longrightarrow> rl p m = (TLV_OK, Some l, Some k) \<Longrightarrow> R m = (TLV_OK, Some k, Some l, Some 0, error0)"
      "\<And>m. fst (rl p m) = TLV_ERR_TRUNCATED \<Longrightarrow> fst (R m) = TLV_ERR_TRUNCATED"
  shows "resolver_law p n R oc ol (Some 0)"
proof -
  from length_reader.read_length_inv [OF L r ok] obtain l k where lk: "0 < k" "k \<le> n" "ol = Some l" "oc = Some k"
    and st: "\<And>m. readable p m \<Longrightarrow> k \<le> m \<Longrightarrow> rl p m = (TLV_OK, Some l, Some k)"
    and sh: "\<And>m. m < k \<Longrightarrow> fst (rl p m) = TLV_ERR_TRUNCATED" by blast
  have A: "R m = (TLV_OK, Some k, Some l, Some 0, error0)" if "readable p m" "k \<le> m" for m
    using st [OF that] that(2) lk(1) by (intro R(1)) auto
  have B: "fst (R m) = TLV_ERR_TRUNCATED" if "m < k" for m using sh [OF that] by (rule R(2))
  have "\<forall>m. readable p m \<longrightarrow> (k \<le> m \<and> R m = (TLV_OK, Some k, Some l, Some 0, error0)) \<or> fst (R m) = TLV_ERR_TRUNCATED"
    using A B not_le by blast
  with A lk show ?thesis unfolding resolver_law_def by (metis add.right_neutral add_leE)
qed

lemma resolver_law_scan:
  assumes r: "readable p n" "0 < n"
    and ok: "tlv_ber_scan_contents_diag (ptr_add p 1) (n - 1) True error0 = (TLV_OK, res, e)"
    and R: "\<And>m v w. 0 < m \<Longrightarrow> tlv_ber_scan_contents_diag (ptr_add p 1) (m - 1) True error0 = (TLV_OK, Some (v, w), error0) \<Longrightarrow>
        R m = (TLV_OK, Some 1, Some v, Some 2, error0)"
      "\<And>m. 0 < m \<Longrightarrow> fst (tlv_ber_scan_contents_diag (ptr_add p 1) (m - 1) True error0) = TLV_ERR_TRUNCATED \<Longrightarrow>
        fst (R m) = TLV_ERR_TRUNCATED"
      "fst (R 0) = TLV_ERR_TRUNCATED"
  shows "resolver_law p n R (Some 1) (map_option fst res) (Some 2)"
proof (rule scan_resolve [OF r ok])
  fix v assume v: "res = Some (v, v + 2)" "\<And>m. readable p m \<Longrightarrow> v + 3 \<le> m \<Longrightarrow>
      tlv_ber_scan_contents_diag (ptr_add p 1) (m - 1) True error0 = (TLV_OK, Some (v, v + 2), error0)"
    "\<And>m. m < v + 3 \<Longrightarrow> 0 < m \<Longrightarrow> fst (tlv_ber_scan_contents_diag (ptr_add p 1) (m - 1) True error0) = TLV_ERR_TRUNCATED"
  have A: "R m = (TLV_OK, Some 1, Some v, Some 2, error0)" if "readable p m" "1 + v + 2 \<le> m" for m
    using v(2) [OF that(1)] that(2) by (intro R(1)) auto
  have B: "fst (R m) = TLV_ERR_TRUNCATED" if "m < 1 + v + 2" for m
    using v(3) [of m] R(2) [of m] R(3) that by (cases "m = 0") auto
  show ?thesis
    unfolding resolver_law_def
    by (rule exI [of _ 1], rule exI [of _ v], rule exI [of _ 2]) (use A B v(1) r(2) in auto)
qed

lemma ber_read_length_0: "fst (ber_read_length p 0) = TLV_ERR_TRUNCATED"
  by (simp add: ber_read_length_eq tlv_variable_length_read_def ber_length_def ber_length_policy_def Let_def
      length_validate_def known_order_def single_bit_def)

lemma ber_resolve_inv:
  assumes r: "readable p n" and ok: "ber_read_value_bounds t p n error0 = (TLV_OK, olsz, olen, otr, e)"
  shows "resolver_law p n (\<lambda>m. ber_read_value_bounds t p m error0) olsz olen otr"
proof (cases "n = 0 \<or> byte_at p 0 \<noteq> 0x80")
  case True
  then obtain ol oc where rl: "ber_read_length p n = (TLV_OK, ol, oc)" and o: "olsz = oc" "olen = ol" "otr = Some 0"
    using ok by (auto simp: ber_read_value_bounds_def split: prod.splits if_splits)
  have b: "byte_at p 0 \<noteq> 0x80" using True rl ber_read_length_0 [of p] by auto
  show ?thesis
    unfolding o using b
    by (intro resolver_law_length [OF ber_len.length_reader_axioms r rl])
      (auto simp: ber_read_value_bounds_def split: prod.splits)
next
  case False
  then obtain res e1 where c: "tlv_asn1_is_constructed t" and
    sc: "tlv_ber_scan_contents_diag (ptr_add p 1) (n - 1) True error0 = (TLV_OK, res, e1)"
    and o: "olsz = Some 1" "olen = map_option fst res" "otr = Some 2"
    using ok by (auto simp: ber_read_value_bounds_def split: prod.splits if_splits)
  show ?thesis
    unfolding o using False c ber_read_length_0 [of p]
    by (intro resolver_law_scan [OF r _ sc]) (auto simp: ber_read_value_bounds_def split: prod.splits)
qed

lemma cer_resolve_inv:
  assumes r: "readable p n" and ok: "cer_read_value_bounds t p n error0 = (TLV_OK, olsz, olen, otr, e)"
  shows "resolver_law p n (\<lambda>m. cer_read_value_bounds t p m error0) olsz olen otr"
proof (cases "byte_at p 0 = 0x80")
  case False
  have n: "n \<noteq> 0" using ok by (auto simp: cer_read_value_bounds_def Let_def split: if_splits)
  with False obtain ol oc where rl: "tlv_asn1_read_minimal_length p n = (TLV_OK, ol, oc)"
    and o: "olsz = oc" "olen = ol" "otr = Some 0" and c: "\<not> tlv_asn1_is_constructed t"
    using ok by (auto simp: cer_read_value_bounds_def Let_def split: prod.splits if_splits)
  show ?thesis
    unfolding o using False c
    by (intro resolver_law_length [OF minimal_len.length_reader_axioms r rl])
      (auto simp: cer_read_value_bounds_def Let_def split: prod.splits)
next
  case True
  then obtain res e1 where c: "tlv_asn1_is_constructed t" and n: "0 < n" and
    sc: "tlv_ber_scan_contents_diag (ptr_add p 1) (n - 1) True error0 = (TLV_OK, res, e1)"
    and o: "olsz = Some 1" "olen = map_option fst res" "otr = Some 2"
    using ok by (auto simp: cer_read_value_bounds_def Let_def split: prod.splits if_splits)
  show ?thesis
    unfolding o using True c
    by (intro resolver_law_scan [OF r n sc]) (auto simp: cer_read_value_bounds_def Let_def split: prod.splits)
qed

section \<open>BER and CER keep the contracts\<close>

lemma ber_len_enc_lead:
  assumes "l \<le> TLV_SIZE_MAX" "fst (tlv_ber_write_length l None 0) = TLV_OK"
  shows "hd (variable_len_enc ber_length l) \<noteq> 0x80"
proof -
  let ?x = "variable_len_enc ber_length l"
  have "ber_read_length (Ptr 0 ?x) (length ?x) = (TLV_OK, Some l, Some (length ?x))"
    by (rule ber_len.read_written_length [OF assms]) simp_all
  then show ?thesis by (intro length_octets_hd(2) [of _ l]) (simp add: ber_length_octets_def)
qed

lemma ber_write_tag_bound: "fst (ber_write_tag t None 0) = TLV_OK \<Longrightarrow> tag_size t \<le> TLV_ASN1_TAG_MAX_SIZE"
  by (auto simp: ber_write_tag_def wire_write_tag_def tlv_variable_identifier_write_def ber_identifier_def Let_def
      TLV_ASN1_TAG_MAX_SIZE_def split: if_splits prod.splits)

interpretation ber: asn1_composition ber_read_tag ber_read_value_bounds tlv_ber_fields ber_write_tag ber_read_length
  tlv_ber_write_length "variable_len_enc ber_length" "\<lambda>t. True"
proof (intro asn1_composition.intro resolved_reader.intro ber_octets.tag_reader_axioms ber_id.tag_codec_axioms
    ber_len.length_codec_axioms resolved_reader_axioms.intro asn1_composition_axioms.intro)
  fix p n t olsz olen otr e
  assume "readable p n" "ber_read_value_bounds t p n error0 = (TLV_OK, olsz, olen, otr, e)"
  from ber_resolve_inv [OF this] show "\<exists>kl len tr. olsz = Some kl \<and> olen = Some len \<and> otr = Some tr \<and> kl \<le> n \<and>
       (\<forall>m. readable p m \<longrightarrow> kl + len + tr \<le> m \<longrightarrow>
          (\<exists>e. ber_read_value_bounds t p m error0 = (TLV_OK, Some kl, Some len, Some tr, e))) \<and>
       (\<forall>m. readable p m \<longrightarrow> m < kl + len + tr \<longrightarrow>
          (kl \<le> m \<and> (\<exists>e. ber_read_value_bounds t p m error0 = (TLV_OK, Some kl, Some len, Some tr, e))) \<or>
          fst (ber_read_value_bounds t p m error0) = TLV_ERR_TRUNCATED)"
    unfolding resolver_law_def .
qed (simp_all add: tlv_ber_fields_def ber_len_enc_lead ber_write_tag_bound ber_read_value_bounds_def)

interpretation cer: asn1_composition tlv_asn1_read_identifier cer_read_value_bounds tlv_cer_fields
  tlv_asn1_write_identifier tlv_asn1_read_minimal_length tlv_ber_write_length "variable_len_enc ber_length"
  "\<lambda>t. \<not> tlv_asn1_is_constructed t"
proof (intro asn1_composition.intro resolved_reader.intro asn1_octets.tag_reader_axioms asn1_id.tag_codec_axioms
    minimal_len.length_codec_axioms resolved_reader_axioms.intro asn1_composition_axioms.intro)
  fix p n t olsz olen otr e
  assume "readable p n" "cer_read_value_bounds t p n error0 = (TLV_OK, olsz, olen, otr, e)"
  from cer_resolve_inv [OF this] show "\<exists>kl len tr. olsz = Some kl \<and> olen = Some len \<and> otr = Some tr \<and> kl \<le> n \<and>
       (\<forall>m. readable p m \<longrightarrow> kl + len + tr \<le> m \<longrightarrow>
          (\<exists>e. cer_read_value_bounds t p m error0 = (TLV_OK, Some kl, Some len, Some tr, e))) \<and>
       (\<forall>m. readable p m \<longrightarrow> m < kl + len + tr \<longrightarrow>
          (kl \<le> m \<and> (\<exists>e. cer_read_value_bounds t p m error0 = (TLV_OK, Some kl, Some len, Some tr, e))) \<or>
          fst (cer_read_value_bounds t p m error0) = TLV_ERR_TRUNCATED)"
    unfolding resolver_law_def .
qed (simp_all add: tlv_cer_fields_def ber_len_enc_lead cer_read_value_bounds_def tlv_asn1_write_identifier_def
    tlv_asn1_write_identifier_checked_def Let_def split: if_splits prod.splits)

text \<open>Measuring and encoding do not look at the resolver.\<close>

lemma fields_unresolved:
  "field_sizes (f\<lparr>fc_resolve := r\<rparr>) = field_sizes f"
  "tlv_fields_measure (f\<lparr>fc_resolve := r\<rparr>) = tlv_fields_measure f"
  "tlv_fields_encode (f\<lparr>fc_resolve := r\<rparr>) = tlv_fields_encode f"
  "fields_wire (f\<lparr>fc_resolve := r\<rparr>) = fields_wire f" "wire_count (f\<lparr>fc_resolve := r\<rparr>) = wire_count f"
proof -
  have sel: "fc_write_tag (f\<lparr>fc_resolve := r\<rparr>) = fc_write_tag f" "fc_write_length (f\<lparr>fc_resolve := r\<rparr>) = fc_write_length f"
    "fc_element_order (f\<lparr>fc_resolve := r\<rparr>) = fc_element_order f" "fc_length_scope (f\<lparr>fc_resolve := r\<rparr>) = fc_length_scope f"
    by simp_all
  have lo: "length_offset (f\<lparr>fc_resolve := r\<rparr>) = length_offset f" by (simp add: fun_eq_iff length_offset_def)
  show fs: "field_sizes (f\<lparr>fc_resolve := r\<rparr>) = field_sizes f"
    unfolding fun_eq_iff field_sizes_def sel lo by simp
  show "tlv_fields_measure (f\<lparr>fc_resolve := r\<rparr>) = tlv_fields_measure f"
    unfolding fun_eq_iff tlv_fields_measure_def fs lo by simp
  show "tlv_fields_encode (f\<lparr>fc_resolve := r\<rparr>) = tlv_fields_encode f"
    unfolding fun_eq_iff tlv_fields_encode_def fs lo sel by simp
  show "fields_wire (f\<lparr>fc_resolve := r\<rparr>) = fields_wire f" "wire_count (f\<lparr>fc_resolve := r\<rparr>) = wire_count f"
    by (simp_all add: fun_eq_iff fields_wire_def wire_count_def order_tlv_def scoped_def)
qed

interpretation ber_plain: composition_codec ber_read_tag ber_read_length "tlv_ber_fields\<lparr>fc_resolve := None\<rparr>"
  ber_write_tag tlv_ber_write_length "variable_len_enc ber_length"
  by (intro composition_codec.intro composition_reader.intro composition_reader_axioms.intro
      composition_codec_axioms.intro ber_id.tag_codec_axioms ber_octets.tag_reader_axioms
      ber_len.length_codec_axioms ber_len.length_reader_axioms)
    (simp_all add: tlv_ber_fields_def)

interpretation cer_plain: composition_codec tlv_asn1_read_identifier tlv_asn1_read_minimal_length
  "tlv_cer_fields\<lparr>fc_resolve := None\<rparr>" tlv_asn1_write_identifier tlv_ber_write_length "variable_len_enc ber_length"
  by (intro composition_codec.intro composition_reader.intro composition_reader_axioms.intro
      composition_codec_axioms.intro asn1_id.tag_codec_axioms asn1_octets.tag_reader_axioms
      minimal_len.length_codec_axioms minimal_len.length_reader_axioms)
    (simp_all add: tlv_cer_fields_def)

lemma unscoped_count:
  "wire_count tlv_ber_fields el = val_size (elem_value el)" "wire_count tlv_cer_fields el = val_size (elem_value el)"
  by (simp_all add: wire_count_def scoped_def tlv_ber_fields_def tlv_cer_fields_def)

interpretation ber_format: format_codec "tlv_fields_decode tlv_ber_fields" "tlv_fields_measure tlv_ber_fields"
  "tlv_fields_encode tlv_ber_fields" "fields_wire tlv_ber_fields (variable_len_enc ber_length)"
proof (intro format_codec.intro format_codec_axioms.intro ber.prefix_decoder_axioms)
  fix el en e
  assume "element_wf el" "tlv_fields_measure tlv_ber_fields el encoding0 error0 = (TLV_OK, en, e)"
  then show "en_value en = val_size (elem_value el) \<and> en_total en = en_header en + en_value en + en_trailer en \<and>
      0 < en_total en \<and> en_total en \<le> TLV_SIZE_MAX \<and>
      length (fields_wire tlv_ber_fields (variable_len_enc ber_length) el) = en_total en"
    using ber_plain.measure_exact [unfolded fields_unresolved] by blast
next
  fix el and cap :: nat and buf :: "u8 list"
  assume "element_wf el" "fst (tlv_fields_measure tlv_ber_fields el encoding0 error0) = TLV_OK"
    "length (fields_wire tlv_ber_fields (variable_len_enc ber_length) el) \<le> cap" "cap \<le> length buf"
  then show "tlv_fields_encode tlv_ber_fields el (Some buf) cap 0 error0 =
      (TLV_OK, Some (blit 0 (fields_wire tlv_ber_fields (variable_len_enc ber_length) el) buf),
       length (fields_wire tlv_ber_fields (variable_len_enc ber_length) el), error0)"
    by (rule ber_plain.encode_wire [unfolded fields_unresolved])
next
  fix el q and n :: nat
  assume wf: "element_wf el" and m: "fst (tlv_fields_measure tlv_ber_fields el encoding0 error0) = TLV_OK"
    and n: "length (fields_wire tlv_ber_fields (variable_len_enc ber_length) el) \<le> n" "readable q n"
      "take (length (fields_wire tlv_ber_fields (variable_len_enc ber_length) el)) (bytes q) =
        fields_wire tlv_ber_fields (variable_len_enc ber_length) el"
  obtain en e where "tlv_fields_measure tlv_ber_fields el encoding0 error0 = (TLV_OK, en, e)"
    using m by (metis prod.exhaust_sel)
  note F = ber_plain.field_sizes_inv [unfolded fields_unresolved, OF wf
      ber_plain.fields_measure_inv(1) [unfolded fields_unresolved, OF wf this]]
  show "\<exists>r e. tlv_fields_decode tlv_ber_fields q n decoded0 error0 = (TLV_OK, r, e) \<and>
      src_size (dec_source r) = length (fields_wire tlv_ber_fields (variable_len_enc ber_length) el) \<and>
      same_content (dec_element r) el"
    using F(1,3) n by (intro ber.definite_decode [OF wf]) (simp_all add: unscoped_count)
qed

section \<open>The indefinite forms\<close>

context asn1_composition
begin

lemma indefinite_guarded: "guarded_codec (tlv_fields_decode f) (tlv_asn1_indefinite_encode f) indefinite_wire"
proof (intro guarded_codec.intro guarded_codec_axioms.intro prefix_decoder_axioms)
  fix el buf' e and cap n :: nat and buf :: "u8 list"
  assume "element_wf el" "cap \<le> length buf" "tlv_asn1_indefinite_encode f el (Some buf) cap 0 error0 = (TLV_OK, buf', n, e)"
  then show "0 < length (indefinite_wire el) \<and> length (indefinite_wire el) \<le> cap \<and>
      n = length (indefinite_wire el) \<and> buf' = Some (blit 0 (indefinite_wire el) buf)"
    by (simp only: indefinite_encode_iff) (auto simp: indefinite_wire_def)
next
  fix el q and cap m :: nat and buf :: "u8 list"
  assume wf: "element_wf el" and cap: "cap \<le> length buf"
    and ok: "fst (tlv_asn1_indefinite_encode f el (Some buf) cap 0 error0) = TLV_OK"
    and m: "length (indefinite_wire el) \<le> m" "readable q m" "take (length (indefinite_wire el)) (bytes q) = indefinite_wire el"
  obtain b n e where "tlv_asn1_indefinite_encode f el (Some buf) cap 0 error0 = (TLV_OK, b, n, e)"
    using ok by (metis prod.exhaust_sel)
  with indefinite_encode_iff [OF wf cap] have I: "fst (write_tag (elem_tag el) None 0) = TLV_OK"
    "tlv_asn1_is_constructed (elem_tag el)" "ber_items (TLV_BER_MAX_DEPTH - 1) (value_bytes (elem_value el))" by auto
  show "\<exists>r e. tlv_fields_decode f q m decoded0 error0 = (TLV_OK, r, e) \<and>
      src_size (dec_source r) = length (indefinite_wire el) \<and> same_content (dec_element r) el"
    by (rule indefinite_decode [OF wf I m])
qed

end

interpretation ber_indefinite: guarded_codec "tlv_fields_decode tlv_ber_fields"
  "tlv_asn1_indefinite_encode tlv_ber_fields" indefinite_wire
  by (rule ber.indefinite_guarded)

definition cer_wire :: "tlv_element_t \<Rightarrow> u8 list" where
  "cer_wire el = (if tlv_asn1_is_constructed (elem_tag el) then indefinite_wire el
     else fields_wire tlv_cer_fields (variable_len_enc ber_length) el)"

lemma fields_encode_inv:
  assumes "tlv_fields_encode f el (Some buf) cap 0 e = (TLV_OK, buf', n, e')"
  obtains t l c where "field_sizes f el e = (TLV_OK, t, l, c, e)" "t + l + val_size (elem_value el) \<le> cap"
proof -
  obtain t l c e1 where fs: "field_sizes f el e = (TLV_OK, t, l, c, e1)"
    using assms by (auto simp: tlv_fields_encode_def split: prod.splits if_splits)
  moreover have "e1 = e"
    using fs by (auto simp: field_sizes_def Let_def split: prod.splits if_splits)
  moreover have "t + l + val_size (elem_value el) \<le> cap"
    using assms fs
    by (auto simp: tlv_fields_encode_def Let_def tlv_size_to_native_iff split: prod.splits if_splits)
  ultimately show thesis by (intro that) auto
qed

lemma cer_primitive_encode:
  assumes wf: "element_wf el" and cap: "cap \<le> length buf"
    and ok: "tlv_fields_encode tlv_cer_fields el (Some buf) cap 0 error0 = (TLV_OK, buf', n, e)"
  defines "w \<equiv> fields_wire tlv_cer_fields (variable_len_enc ber_length) el"
  shows "fst (tlv_asn1_write_identifier (elem_tag el) None 0) = TLV_OK"
    and "fst (tlv_ber_write_length (val_size (elem_value el)) None 0) = TLV_OK"
    and "0 < length w \<and> length w \<le> cap \<and> n = length w \<and> buf' = Some (blit 0 w buf)"
proof (rule_tac [!] fields_encode_inv [OF ok])
  fix t l c assume fs: "field_sizes tlv_cer_fields el error0 = (TLV_OK, t, l, c, error0)"
    "t + l + val_size (elem_value el) \<le> cap"
  note F = cer_plain.field_sizes_inv [unfolded fields_unresolved, OF wf fs(1)]
  show "fst (tlv_asn1_write_identifier (elem_tag el) None 0) = TLV_OK"
    "fst (tlv_ber_write_length (val_size (elem_value el)) None 0) = TLV_OK"
    using F by (simp_all add: unscoped_count)
  have len: "length w = t + l + val_size (elem_value el)"
    unfolding w_def using F cer_plain.length_fields_wire [unfolded fields_unresolved, OF wf] by simp
  have "tlv_fields_encode tlv_cer_fields el (Some buf) cap 0 error0 = (TLV_OK, Some (blit 0 w buf), length w, error0)"
    unfolding w_def
    by (rule cer_plain.fields_encode_eq [unfolded fields_unresolved, OF wf _ _ cap])
      (use fs F len in \<open>simp_all add: w_def\<close>)
  with ok len F fs(2) show "0 < length w \<and> length w \<le> cap \<and> n = length w \<and> buf' = Some (blit 0 w buf)" by simp
qed

interpretation cer_format: guarded_codec "tlv_fields_decode tlv_cer_fields" cer_encode cer_wire
proof (intro guarded_codec.intro guarded_codec_axioms.intro cer.prefix_decoder_axioms)
  fix el buf' e and cap n :: nat and buf :: "u8 list"
  assume wf: "element_wf el" and cap: "cap \<le> length buf"
    and ok: "cer_encode el (Some buf) cap 0 error0 = (TLV_OK, buf', n, e)"
  show "0 < length (cer_wire el) \<and> length (cer_wire el) \<le> cap \<and> n = length (cer_wire el) \<and>
      buf' = Some (blit 0 (cer_wire el) buf)"
  proof (cases "tlv_asn1_is_constructed (elem_tag el)")
    case True
    with ok have "tlv_asn1_indefinite_encode tlv_cer_fields el (Some buf) cap 0 error0 = (TLV_OK, buf', n, e)"
      by (auto simp: cer_encode_def split: if_splits)
    from guarded_codec.encode_inv [OF cer.indefinite_guarded wf cap this] True show ?thesis by (simp add: cer_wire_def)
  next
    case False
    with ok have "tlv_fields_encode tlv_cer_fields el (Some buf) cap 0 error0 = (TLV_OK, buf', n, e)"
      by (auto simp: cer_encode_def split: if_splits)
    from cer_primitive_encode(3) [OF wf cap this] False show ?thesis by (simp add: cer_wire_def)
  qed
next
  fix el q and cap m :: nat and buf :: "u8 list"
  assume wf: "element_wf el" and cap: "cap \<le> length buf" and ok: "fst (cer_encode el (Some buf) cap 0 error0) = TLV_OK"
    and m: "length (cer_wire el) \<le> m" "readable q m" "take (length (cer_wire el)) (bytes q) = cer_wire el"
  show "\<exists>r e. tlv_fields_decode tlv_cer_fields q m decoded0 error0 = (TLV_OK, r, e) \<and>
      src_size (dec_source r) = length (cer_wire el) \<and> same_content (dec_element r) el"
  proof (cases "tlv_asn1_is_constructed (elem_tag el)")
    case True
    with ok have "fst (tlv_asn1_indefinite_encode tlv_cer_fields el (Some buf) cap 0 error0) = TLV_OK"
      by (auto simp: cer_encode_def split: if_splits)
    from guarded_codec.decode_written [OF cer.indefinite_guarded wf cap this] True m show ?thesis
      by (simp add: cer_wire_def)
  next
    case False
    with ok have "fst (tlv_fields_encode tlv_cer_fields el (Some buf) cap 0 error0) = TLV_OK"
      by (auto simp: cer_encode_def split: if_splits)
    then obtain b n e where enc: "tlv_fields_encode tlv_cer_fields el (Some buf) cap 0 error0 = (TLV_OK, b, n, e)"
      by (metis prod.exhaust_sel)
    note P = cer_primitive_encode [OF wf cap enc]
    let ?w = "fields_wire tlv_cer_fields (variable_len_enc ber_length) el"
    have w: "cer_wire el = ?w" using False by (simp add: cer_wire_def)
    have wfs: "tag_wf (elem_tag el)" using wf by (simp add: element_wf_def)
    have "?w = tag_bytes (elem_tag el) @ variable_len_enc ber_length (val_size (elem_value el)) @ value_bytes (elem_value el)"
      by (simp add: fields_wire_def order_tlv_def unscoped_count) (simp add: tlv_cer_fields_def)
    moreover from this have "take (tag_size (elem_tag el)) (take (length ?w) (bytes q)) = tag_bytes (elem_tag el)"
      using m(3) wfs unfolding w by simp
    ultimately have tb: "take (tag_size (elem_tag el)) (bytes q) = tag_bytes (elem_tag el)"
      using wfs by (simp add: min_def split: if_splits)
    have pos: "0 < tag_size (elem_tag el)" using asn1_id.write_tag_query [OF wfs P(1)] by simp
    moreover have "q \<noteq> Null" using tb pos wfs by (metis bytes.simps(1) length_tag_bytes list.size(3) not_gr0 take_Nil)
    ultimately have "\<not> tlv_asn1_is_constructed (tlv_tag q (tag_size (elem_tag el)))"
      using constructed_cong [OF wfs _ tb] False by simp
    from cer.definite_decode [OF wf P(1,2) this] m show ?thesis by (simp add: w)
  qed
qed

end
