(* ===== verification/TLV_Instances.thy ===== *)
theory TLV_Instances
  imports TLV_Tree_Writer TLV_Formats TLV_Packed TLV_BER_Format
begin

text \<open>
  The formats of the library behind one type of configurations, and the proofs that each keeps the
  contracts that Reader, Writer and Tree Writer rely on.
\<close>

section \<open>Configurations\<close>

datatype tlv_config =
    FixedConfig tlv_binary_composition_t
  | EscapedConfig tlv_escaped_format_t
  | VariableConfig tlv_variable_format_t
  | TaggedConfig tlv_tagged_binary_composition_t
  | PackedConfig tlv_packed_layout_t
  | BerConfig
  | DerConfig

text \<open>
  The descriptor a client gets for a configuration.  A packed layout is used through
  \<^verbatim>\<open>tlv_format_init\<close> after its validation, with the identifier table that \<^verbatim>\<open>formats/packed.h\<close> asks for.
  BER and DER are constant descriptors.
\<close>

definition format_of :: "tlv_config \<Rightarrow> tlv_format_t option" where
  "format_of cfg =
     (case cfg of
        FixedConfig c \<Rightarrow> snd (tlv_fixed_format_init True (Some c))
      | EscapedConfig c \<Rightarrow> snd (tlv_escaped_format_init True (Some c))
      | VariableConfig c \<Rightarrow> snd (tlv_variable_format_init True (Some c))
      | TaggedConfig c \<Rightarrow> snd (tlv_tagged_binary_format_init True (Some c))
      | PackedConfig l \<Rightarrow>
          if tlv_packed_layout_validate (Some l) = TLV_OK \<and> packed_table l
          then snd (tlv_format_init True (Some (tlv_packed_decode (Some l))) (Some (tlv_packed_measure (Some l)))
                      (Some (tlv_packed_encode (Some l))))
          else None
      | BerConfig \<Rightarrow> Some tlv_format_ber
      | DerConfig \<Rightarrow> Some tlv_format_der)"

lemma init_OK_iff:
  "snd (tlv_fixed_format_init True (Some c)) = Some f \<Longrightarrow> tlv_fixed_format_init True (Some c) = (TLV_OK, Some f)"
  "snd (tlv_escaped_format_init True (Some e)) = Some f \<Longrightarrow> tlv_escaped_format_init True (Some e) = (TLV_OK, Some f)"
  "snd (tlv_variable_format_init True (Some v)) = Some f \<Longrightarrow> tlv_variable_format_init True (Some v) = (TLV_OK, Some f)"
  "snd (tlv_tagged_binary_format_init True (Some t)) = Some f \<Longrightarrow>
     tlv_tagged_binary_format_init True (Some t) = (TLV_OK, Some f)"
  by (auto simp: tlv_fixed_format_init_def tlv_escaped_format_init_def tlv_variable_format_init_def
      tlv_tagged_binary_format_init_def tlv_format_init_def Let_def split: if_splits prod.splits option.splits)

lemma format_of_codec:
  assumes "format_of cfg = Some f"
  obtains dec m enc w where "fmt_decode f = Some dec" "fmt_measure f = Some m" "fmt_encode f = Some enc"
    "format_codec dec m enc w"
proof (cases cfg)
  case (FixedConfig c)
  with assms have "tlv_fixed_format_init True (Some c) = (TLV_OK, Some f)"
    by (simp add: format_of_def init_OK_iff)
  from tlv_fixed_format_init_OK [OF this] binary_format.format_codec_axioms show thesis by (rule that)
next
  case (EscapedConfig c)
  with assms have "tlv_escaped_format_init True (Some c) = (TLV_OK, Some f)"
    by (simp add: format_of_def init_OK_iff)
  note I = tlv_escaped_format_init_OK [OF this]
  from I(2-4) escaped_format_codec [of c] I(1) show thesis by (intro that) auto
next
  case (VariableConfig c)
  with assms have "tlv_variable_format_init True (Some c) = (TLV_OK, Some f)"
    by (simp add: format_of_def init_OK_iff)
  from tlv_variable_format_init_OK [OF this] variable_format.format_codec_axioms show thesis by (rule that)
next
  case (TaggedConfig c)
  with assms have "tlv_tagged_binary_format_init True (Some c) = (TLV_OK, Some f)"
    by (simp add: format_of_def init_OK_iff)
  note I = tlv_tagged_binary_format_init_OK [OF this]
  from I(2-4) tagged_binary_format_codec [OF I(1)] show thesis by (rule that)
next
  case (PackedConfig l)
  with assms have l: "tlv_packed_layout_validate (Some l) = TLV_OK" "packed_table l"
    and f: "fmt_decode f = Some (tlv_packed_decode (Some l))" "fmt_measure f = Some (tlv_packed_measure (Some l))"
      "fmt_encode f = Some (tlv_packed_encode (Some l))"
    by (auto simp: format_of_def tlv_format_init_def split: if_splits)
  from f packed_format_codec [OF l] show thesis by (rule that)
next
  case BerConfig
  with assms have "f = tlv_format_ber" by (simp add: format_of_def)
  with ber_format.format_codec_axioms show thesis by (intro that) (simp_all add: tlv_format_ber_def)
next
  case DerConfig
  with assms have "f = tlv_format_der" by (simp add: format_of_def)
  with der.format_codec_axioms show thesis by (intro that) (simp_all add: tlv_format_der_def)
qed

section \<open>Formats for nested elements\<close>

text \<open>The composed encodings look at the value through its bytes only.\<close>

lemma fields_measure_value:
  assumes "elem_tag a = elem_tag b" "val_size (elem_value a) = val_size (elem_value b)"
  shows "tlv_fields_measure f a en e = tlv_fields_measure f b en e"
  unfolding tlv_fields_measure_def field_sizes_def assms ..

lemma fields_wire_value:
  "elem_tag a = elem_tag b \<Longrightarrow> val_size (elem_value a) = val_size (elem_value b) \<Longrightarrow>
   value_bytes (elem_value a) = value_bytes (elem_value b) \<Longrightarrow> fields_wire f enc a = fields_wire f enc b"
  by (simp add: fields_wire_def wire_count_def)

interpretation variable_tree: value_codec "tlv_variable_decode c" "tlv_variable_measure c"
  "tlv_variable_encode c" "fields_wire (variable_fields c) (variable_len_enc (vf_length c))" for c
  by unfold_locales (auto simp: tlv_variable_measure_def intro: fields_measure_value fields_wire_value)

interpretation binary_tree: value_codec "tlv_binary_decode c" "tlv_binary_measure c"
  "tlv_binary_encode c" "fields_wire (binary_fields c) (fixed_len_enc (bc_length c))" for c
  by unfold_locales (auto simp: tlv_binary_measure_def intro: fields_measure_value fields_wire_value)

interpretation ber_tree: value_codec "tlv_fields_decode tlv_ber_fields" "tlv_fields_measure tlv_ber_fields"
  "tlv_fields_encode tlv_ber_fields" "fields_wire tlv_ber_fields (variable_len_enc ber_length)"
  by unfold_locales (auto intro: fields_measure_value fields_wire_value)

interpretation der_tree: value_codec "tlv_fields_decode tlv_der_fields" "tlv_fields_measure tlv_der_fields"
  "tlv_fields_encode tlv_der_fields" "fields_wire tlv_der_fields (variable_len_enc ber_length)"
  by unfold_locales (auto intro: fields_measure_value fields_wire_value)

text \<open>The octets of an element in the formats whose elements are identifier, count and value.\<close>

definition config_wire :: "tlv_config \<Rightarrow> (tlv_element_t \<Rightarrow> u8 list) option" where
  "config_wire cfg =
     (case cfg of
        FixedConfig c \<Rightarrow> Some (fields_wire (binary_fields c) (fixed_len_enc (bc_length c)))
      | VariableConfig c \<Rightarrow> Some (fields_wire (variable_fields c) (variable_len_enc (vf_length c)))
      | BerConfig \<Rightarrow> Some (fields_wire tlv_ber_fields (variable_len_enc ber_length))
      | DerConfig \<Rightarrow> Some (fields_wire tlv_der_fields (variable_len_enc ber_length))
      | _ \<Rightarrow> None)"

lemma config_value_codec:
  assumes "format_of cfg = Some f" "config_wire cfg = Some w"
  obtains dec m enc where "fmt_decode f = Some dec" "fmt_measure f = Some m" "fmt_encode f = Some enc"
    "value_codec dec m enc w"
proof (cases cfg)
  case (FixedConfig c)
  with assms have "tlv_fixed_format_init True (Some c) = (TLV_OK, Some f)"
    and w: "w = fields_wire (binary_fields c) (fixed_len_enc (bc_length c))"
    by (simp_all add: format_of_def config_wire_def init_OK_iff)
  from tlv_fixed_format_init_OK [OF this(1)] binary_tree.value_codec_axioms [of c] w show thesis by (intro that) auto
next
  case (VariableConfig c)
  with assms have "tlv_variable_format_init True (Some c) = (TLV_OK, Some f)"
    and w: "w = fields_wire (variable_fields c) (variable_len_enc (vf_length c))"
    by (simp_all add: format_of_def config_wire_def init_OK_iff)
  from tlv_variable_format_init_OK [OF this(1)] variable_tree.value_codec_axioms [of c] w show thesis by (intro that) auto
next
  case BerConfig
  with assms ber_tree.value_codec_axioms show thesis
    by (intro that) (auto simp: format_of_def config_wire_def tlv_format_ber_def)
next
  case DerConfig
  with assms der_tree.value_codec_axioms show thesis
    by (intro that) (auto simp: format_of_def config_wire_def tlv_format_der_def)
qed (use assms(2) in \<open>simp_all add: config_wire_def\<close>)

section \<open>The contract in terms of the public operations\<close>

context format_codec
begin

lemma measured_writable:
  assumes f: "fmt_measure f = Some measure_fn" "fmt_encode f = Some encode_fn" and wf: "element_wf el"
    and m: "tlv_format_measure (Some f) (Some el) True = (TLV_OK, oen, oe)"
  shows "writable measure_fn el" "oen \<noteq> None \<and> en_total (the oen) = length (wire el)"
proof -
  have ok: "fst (measure_fn el encoding0 error0) = TLV_OK"
    using m f by (auto simp: tlv_format_measure_def tlv_format_can_write_def Let_def split: prod.splits if_splits)
  with wf show "writable measure_fn el" by (simp add: writable_def)
  obtain en where "tlv_format_measure (Some f) (Some el) True = (TLV_OK, Some en, None)"
    "en_total en = length (wire el)" by (rule codec_measure [OF f wf ok])
  with m show "oen \<noteq> None \<and> en_total (the oen) = length (wire el)" by auto
qed

end

text \<open>Elements that the format of the configuration can encode, and their encoded size.\<close>

definition encodable :: "tlv_format_t \<Rightarrow> tlv_element_t \<Rightarrow> bool" where
  "encodable f el \<longleftrightarrow> element_wf el \<and> fst (tlv_element_encoded_size (Some el) (Some f) True) = TLV_OK"

definition encoded_total :: "tlv_format_t \<Rightarrow> tlv_element_t \<Rightarrow> nat" where
  "encoded_total f el = out (snd (tlv_element_encoded_size (Some el) (Some f) True)) 0"

lemma encodable_writable:
  assumes C: "format_codec dec m enc w" and f: "fmt_measure f = Some m" "fmt_encode f = Some enc" and el: "encodable f el"
  shows "writable m el" "encoded_total f el = length (w el)"
proof -
  obtain rc oen oe where ms: "tlv_format_measure (Some f) (Some el) True = (rc, oen, oe)" by (metis prod_cases3)
  have ok: "rc = TLV_OK"
    using el ms by (auto simp: encodable_def tlv_element_encoded_size_def tlv_element_encoded_size_diag_def
        split: prod.splits if_splits)
  have wf: "element_wf el" using el by (simp add: encodable_def)
  note W = format_codec.measured_writable [OF C f wf ms [unfolded ok]]
  show "writable m el" by (rule W(1))
  from W(2) obtain en where en: "oen = Some en" "en_total en = length (w el)" by auto
  show "encoded_total f el = length (w el)"
    using el ms ok en
    by (auto simp: encodable_def encoded_total_def tlv_element_encoded_size_def tlv_element_encoded_size_diag_def
        tlv_size_to_native_def split: prod.splits if_splits)
qed

end
