(* ===== verification/TLV_Format_Properties.thy ===== *)
theory TLV_Format_Properties
  imports TLV_Instances "HOL-Library.Code_Target_Nat"
begin

text \<open>
  Properties of the format contract: what the checking entry points of \<^verbatim>\<open>format.c\<close> guarantee for any
  callback, and what every format of the library adds to it.  The instances use two concrete
  configurations: X.690-like identifiers and lengths, and one-octet fixed fields.
\<close>

definition sample_variable :: tlv_variable_format_t where
  "sample_variable = \<lparr>vf_identifier = \<lparr>vi_inline_mask = 0x1F, vi_escape = 0x1F, vi_continuation_bit = 0x80,
     vi_payload_mask = 0x7F, vi_max_size = 4, vi_policy = None\<rparr>,
     vf_length = \<lparr>vl_long_form_bit = 0x80, vl_payload_mask = 0x7F, vl_byte_order = TLV_BYTE_ORDER_BIG_ENDIAN,
       vl_policy = None\<rparr>,
     vf_element_order = TLV_ELEMENT_ORDER_TLV, vf_length_scope = TLV_LENGTH_SCOPE_VALUE,
     vf_constructed = Some \<lparr>cb_byte_index = 0, cb_mask = 0x20, cb_value = 0x20\<rparr>\<rparr>"

definition sample_format :: tlv_format_t where
  "sample_format = the (format_of (VariableConfig sample_variable))"

lemma sample_format_of: "format_of (VariableConfig sample_variable) = Some sample_format"
proof -
  have "format_of (VariableConfig sample_variable) \<noteq> None"
    unfolding format_of_def tlv_config.case by code_simp
  then show ?thesis by (auto simp: sample_format_def)
qed

definition sample_input :: ptr where
  "sample_input = Ptr 64 [0x5A, 0x02, 0x11, 0x22, 0x95]"

section \<open>Any callback\<close>

text \<open>
  C15: Whatever the decoder callback does, a decode that the core reports as successful publishes a source
  that partitions the encoded element into header, value and trailer, stays within the input, and
  whose value is a borrowed slice of the input.
\<close>

theorem format_decode_partition:
  assumes "tlv_format_decode f data sz ok = (TLV_OK, od, oe)" "readable data sz"
  shows "\<exists>d. od = Some d \<and> oe = None \<and> partitioned d data sz \<and> src_data (dec_source d) = data \<and>
    src_element (dec_source d) = dec_element d \<and>
    take (src_size (dec_source d)) (bytes data) =
      take (rg_size (src_header (dec_source d))) (bytes data) @ value_bytes (elem_value (dec_element d)) @
      take (rg_size (src_trailer (dec_source d))) (drop (rg_offset (src_trailer (dec_source d))) (bytes data))"
proof -
  from assms(1) obtain g where g: "f = Some g" "ok"
    by (auto simp: tlv_format_decode_def tlv_format_can_read_def split: if_splits option.splits prod.splits)
  have "tlv_format_decode (Some g) data sz True = (TLV_OK, od, oe)" using assms(1) g by simp
  then obtain r where "od = Some (publish data r)" "oe = None" "partitioned r data sz"
    unfolding tlv_format_decode_OK_iff by blast
  with partitioned_slices [of "publish data r" data sz] assms(2) show ?thesis by auto
qed

theorem format_decode_partition_witness:
  "\<exists>d. tlv_format_decode (Some sample_format) sample_input 5 True = (TLV_OK, Some d, None) \<and>
     partitioned d sample_input 5"
proof -
  obtain rc od oe where r: "tlv_format_decode (Some sample_format) sample_input 5 True = (rc, od, oe)"
    by (metis prod_cases3)
  have "fst (tlv_format_decode (format_of (VariableConfig sample_variable)) sample_input 5 True) = TLV_OK" by code_simp
  with r have "rc = TLV_OK" by (simp add: sample_format_of)
  with format_decode_partition [of "Some sample_format" sample_input 5 True od oe] r show ?thesis
    by (auto simp: sample_input_def)
qed

text \<open>
  C40: A failed decode publishes no element, and every range of its error detail that is marked present lies
  within the input, whatever ranges the callback stored.
\<close>

theorem format_decode_error:
  assumes "tlv_format_decode f data sz ok = (rc, od, oe)" "rc \<noteq> TLV_OK"
  shows "od = None \<and> (\<exists>e. oe = Some e \<and> range_valid (fe_tag e) sz \<and> range_valid (fe_length e) sz \<and>
    range_valid (fe_value e) sz) \<and> rc \<noteq> TLV_ERR_BUFFER_TOO_SHORT \<and> rc \<noteq> TLV_NEED_MORE_DATA"
proof -
  have z: "range_valid range0 n" for n by (simp add: range_valid_def range0_def)
  have c: "range_valid (clip_range sz r) sz" for r by (simp add: clip_range_def range_valid_def)
  show ?thesis
    using assms tlv_callback_result_range
    by (auto simp: tlv_format_decode_def Let_def error0_def z c clip_error_def split: if_splits prod.splits)
qed

theorem format_decode_error_witness:
  "fst (tlv_format_decode (Some sample_format) sample_input 3 True) = TLV_ERR_TRUNCATED \<and>
   (\<exists>e. snd (snd (tlv_format_decode (Some sample_format) sample_input 3 True)) = Some e \<and>
      range_valid (fe_length e) 3)"
proof -
  have t: "fst (tlv_format_decode (format_of (VariableConfig sample_variable)) sample_input 3 True) = TLV_ERR_TRUNCATED"
    by code_simp
  obtain rc od oe where r: "tlv_format_decode (Some sample_format) sample_input 3 True = (rc, od, oe)"
    by (metis prod_cases3)
  with t have "rc = TLV_ERR_TRUNCATED" by (simp add: sample_format_of)
  with format_decode_error [OF r] r show ?thesis by auto
qed

text \<open>
  A measurement that the core accepts has no overflow: the total is the sum of header, value and trailer,
  is positive and fits, and the value part is the size of the element's value.
\<close>

theorem format_measure_exact:
  assumes "tlv_format_measure f (Some el) True = (TLV_OK, oen, oe)"
  shows "\<exists>en. oen = Some en \<and> oe = None \<and> en_value en = val_size (elem_value el) \<and>
    (en_header en \<le> TLV_SIZE_MAX \<longrightarrow>
       en_total en = en_header en + en_value en + en_trailer en \<and> 0 < en_total en \<and> en_total en \<le> TLV_SIZE_MAX)"
  by (rule tlv_format_measure_OK [OF assms]) auto

definition sample_element :: tlv_element_t where
  "sample_element = \<lparr>elem_tag = tlv_tag (Ptr 0 [0x5A]) 1, elem_value = \<lparr>val_data = Ptr 8 [0x11, 0x22], val_size = 2\<rparr>\<rparr>"

theorem format_measure_exact_witness:
  "\<exists>en. tlv_format_measure (Some sample_format) (Some sample_element) True = (TLV_OK, Some en, None) \<and>
     en_value en = 2"
proof -
  obtain rc oen oe where r: "tlv_format_measure (Some sample_format) (Some sample_element) True = (rc, oen, oe)"
    by (metis prod_cases3)
  have "fst (tlv_format_measure (format_of (VariableConfig sample_variable)) (Some sample_element) True) = TLV_OK"
    by code_simp
  with r have "rc = TLV_OK" by (simp add: sample_format_of)
  with format_measure_exact [of "Some sample_format" sample_element oen oe] r show ?thesis
    by (auto simp: sample_element_def)
qed

section \<open>Every format of the library\<close>

text \<open>
  C1: For every configuration of the fixed, escaped, variable, tagged and packed formats, and for BER and DER, an element that the
  size query accepts is encoded in exactly that many bytes, the rest of the buffer keeps its content,
  and decoding the buffer (with any number of bytes after the element) gives back an element with the
  same identifier and value bytes that occupies exactly the encoded size.
\<close>

theorem format_roundtrip:
  assumes cfg: "format_of cfg = Some f" and el: "encodable f el"
    and cap: "encoded_total f el \<le> cap" "cap \<le> length buf"
  shows "\<exists>buf'. tlv_write_element (Some buf) cap (Some f) (Some el) True = (TLV_OK, Some buf', Some (encoded_total f el)) \<and>
    length buf' = length buf \<and> drop (encoded_total f el) buf' = drop (encoded_total f el) buf \<and>
    (\<forall>n a. encoded_total f el \<le> n \<longrightarrow> n \<le> length buf' \<longrightarrow>
       (\<exists>el'. tlv_read (Ptr a buf') n (Some f) True = (TLV_OK, Some (el', encoded_total f el)) \<and> same_content el' el))"
proof -
  obtain dec m enc w where f: "fmt_decode f = Some dec" "fmt_measure f = Some m" "fmt_encode f = Some enc"
    and C: "format_codec dec m enc w" by (rule format_of_codec [OF cfg])
  note W = encodable_writable [OF C f(2,3) el]
  have el': "element_wf el" "fst (m el encoding0 error0) = TLV_OK" using W(1) by (auto simp: writable_def)
  let ?k = "length (w el)"
  obtain buf' where B: "tlv_format_encode (Some f) (Some el) (Some buf) cap True = (TLV_OK, Some buf', Some ?k, None)"
    "length buf' = length buf" "drop ?k buf' = drop ?k buf"
    "\<And>n a. ?k \<le> n \<Longrightarrow> n \<le> length buf' \<Longrightarrow>
       \<exists>d. tlv_format_decode (Some f) (Ptr a buf') n True = (TLV_OK, Some d, None) \<and>
         src_size (dec_source d) = ?k \<and> same_content (dec_element d) el"
    using format_codec.codec_roundtrip [OF C f el' cap [unfolded W(2)]] by blast
  have "\<exists>el'. tlv_read (Ptr a buf') n (Some f) True = (TLV_OK, Some (el', ?k)) \<and> same_content el' el"
    if "?k \<le> n" "n \<le> length buf'" for n a
    using B(4) [OF that, of a] by (auto simp: tlv_read_def tlv_read_impl_def)
  with B(1-3) show ?thesis
    unfolding W(2) by (intro exI [of _ buf']) (simp add: tlv_write_element_def tlv_write_element_diag_def)
qed

lemma sample_encodable:
  "encodable sample_format sample_element" "encoded_total sample_format sample_element = 4"
proof -
  have "tlv_element_encoded_size (Some sample_element) (format_of (VariableConfig sample_variable)) True = (TLV_OK, Some 4)"
    by code_simp
  then show "encodable sample_format sample_element" "encoded_total sample_format sample_element = 4"
    by (simp_all add: sample_format_of encodable_def encoded_total_def sample_element_def element_wf_def tag_wf_def
        value_wf_def SIZE_MAX_def)
qed

theorem format_roundtrip_witness:
  "\<exists>buf'. tlv_write_element (Some [0, 0, 0, 0, 0, 7]) 6 (Some sample_format) (Some sample_element) True =
       (TLV_OK, Some buf', Some 4) \<and>
     (\<exists>el'. tlv_read (Ptr 100 buf') 6 (Some sample_format) True = (TLV_OK, Some (el', 4)) \<and> same_content el' sample_element)"
  using format_roundtrip [OF sample_format_of sample_encodable(1), of 6 "[0, 0, 0, 0, 0, 7]"]
  by (auto simp: sample_encodable(2))

text \<open>
  C16: For every such configuration a decoded element is recognised by its own bytes: any longer input that
  can be read gives the same result, and every shorter nonempty input is reported as truncated.
\<close>

theorem format_prefix:
  assumes cfg: "format_of cfg = Some f" and r: "readable p n"
    and ok: "tlv_format_decode (Some f) p n True = (TLV_OK, Some d, oe)"
  shows "(\<forall>m. readable p m \<longrightarrow> src_size (dec_source d) \<le> m \<longrightarrow>
      tlv_format_decode (Some f) p m True = (TLV_OK, Some d, None)) \<and>
    (\<forall>m. 0 < m \<longrightarrow> m < src_size (dec_source d) \<longrightarrow> fst (tlv_format_decode (Some f) p m True) = TLV_ERR_TRUNCATED)"
proof -
  obtain dec m enc w where f: "fmt_decode f = Some dec" and C: "format_codec dec m enc w"
    by (rule format_of_codec [OF cfg])
  have P: "prefix_decoder dec" using C by (simp add: format_codec_def)
  from prefix_decoder.format_decode_inv [OF P f r ok] show ?thesis by (metis option.inject)
qed

theorem format_prefix_witness:
  "fst (tlv_format_decode (Some sample_format) sample_input 2 True) = TLV_ERR_TRUNCATED"
proof -
  have "\<exists>d. tlv_format_decode (format_of (VariableConfig sample_variable)) sample_input 5 True = (TLV_OK, Some d, None) \<and>
     src_size (dec_source d) = 4"
  proof -
    have "fst (tlv_format_decode (format_of (VariableConfig sample_variable)) sample_input 5 True) = TLV_OK"
      "map_option (\<lambda>d. src_size (dec_source d))
         (fst (snd (tlv_format_decode (format_of (VariableConfig sample_variable)) sample_input 5 True))) = Some 4"
      by code_simp+
    then show ?thesis
      by (cases rule: tlv_format_decode_cases [of "format_of (VariableConfig sample_variable)" sample_input 5 True]) auto
  qed
  then obtain d where d: "tlv_format_decode (Some sample_format) sample_input 5 True = (TLV_OK, Some d, None)"
    "src_size (dec_source d) = 4" by (auto simp: sample_format_of)
  from format_prefix [OF sample_format_of _ d(1)] d(2) show ?thesis by (auto simp: sample_input_def)
qed

end
