(* ===== verification/TLV_Stream_Properties.thy ===== *)
theory TLV_Stream_Properties
  imports TLV_Field_Properties TLV_Format_Properties
begin

text \<open>
  Properties of Reader, Tree Reader, visitors, Writer and Tree Writer, alone and composed with the
  formats.
\<close>

section \<open>Reader\<close>

text \<open>
  A step of the sequential reader keeps its invariant.  A successful step delivers an element and moves
  the position forward within the window; every other outcome leaves the reader as it was and
  delivers nothing.
\<close>

theorem reader_step:
  assumes wf: "reader_wf r" and s: "tlv_reader_next_diag (Some r) ok diag = (rc, reader', el, d)"
  shows "\<exists>r'. reader' = Some r' \<and> reader_wf r' \<and>
    (if rc = TLV_OK then rd_pos r < rd_pos r' \<and> r' = r\<lparr>rd_pos := rd_pos r'\<rparr> \<and> el \<noteq> None
     else r' = r \<and> el = None)"
proof -
  from s obtain res where n: "reader_next (Some r) ok diag = (rc, reader', res, d)" and el: "el = map_option fst res"
    by (auto simp: tlv_reader_next_diag_def split: prod.splits)
  show ?thesis
  proof (cases "rc = TLV_OK")
    case True
    note n = n [unfolded True]
    obtain r' where r': "reader' = Some r'" "reader_wf r'" "rd_pos r < rd_pos r'"
      by (rule reader_next_progress [OF wf n])
    from n show ?thesis by (rule reader_next_OK) (use r' True el in auto)
  next
    case False
    with reader_next_error [OF n] wf el show ?thesis by simp
  qed
qed

definition sample_reader :: tlv_reader_t where
  "sample_reader = \<lparr>rd_format = Some sample_format, rd_data = sample_input, rd_size = 4, rd_pos = 0,
     rd_base_offset = 0, rd_final_input = 0\<rparr>"

lemma sample_format_reads: "tlv_format_can_read (Some sample_format)" "tlv_format_can_write (Some sample_format)"
proof -
  obtain dec m enc w where "fmt_decode sample_format = Some dec" "fmt_measure sample_format = Some m"
    "fmt_encode sample_format = Some enc" by (rule format_of_codec [OF sample_format_of])
  then show "tlv_format_can_read (Some sample_format)" "tlv_format_can_write (Some sample_format)"
    by (simp_all add: tlv_format_can_read_def tlv_format_can_write_def)
qed

lemma sample_reader_wf: "reader_wf sample_reader"
  by (simp add: reader_wf_def reader_valid_OK sample_reader_def sample_input_def sample_format_reads SIZE_MAX_def)

theorem reader_step_witness:
  "\<exists>rc r' el d. tlv_reader_next_diag (Some sample_reader) True False = (rc, Some r', el, d) \<and> reader_wf r'"
  using reader_step [OF sample_reader_wf] by (metis prod_cases4)

text \<open>
  Replacing the input window of a reader keeps its invariant and its absolute position; a rejected
  window leaves the reader unchanged.
\<close>

theorem set_input_position:
  assumes "reader_wf r" "readable data sz"
    and s: "tlv_reader_set_input (Some r) data sz discard final = (rc, reader')"
  shows "\<exists>r'. reader' = Some r' \<and> reader_wf r' \<and> tlv_reader_offset (Some r') = tlv_reader_offset (Some r) \<and>
    (rc \<noteq> TLV_OK \<longrightarrow> r' = r)"
proof (cases "rc = TLV_OK")
  case False
  with reader_set_input_error [OF s] assms(1) show ?thesis by simp
next
  case True
  note s = s [unfolded True]
  obtain r' where r': "reader' = Some r'" using reader_set_input_OK(1) [OF s] by simp
  from reader_set_input_wf [OF assms(1,2) s [unfolded r']] reader_set_input_offset [OF s [unfolded r']] r' True
  show ?thesis by simp
qed

theorem set_input_position_witness:
  "\<exists>r'. tlv_reader_set_input (Some sample_reader) (Ptr 64 [0x5A, 0x02, 0x11, 0x22, 0x95]) 5 0 1 = (TLV_OK, Some r') \<and>
     reader_wf r' \<and> tlv_reader_offset (Some r') = 0"
proof -
  let ?p = "Ptr 64 [0x5A, 0x02, 0x11, 0x22, 0x95]"
  have "fst (tlv_reader_set_input (Some sample_reader) ?p 5 0 1) = TLV_OK"
    using sample_reader_wf by (simp add: tlv_reader_set_input_def reader_wf_def sample_reader_def SIZE_MAX_def)
  then obtain o' where "tlv_reader_set_input (Some sample_reader) ?p 5 0 1 = (TLV_OK, o')" by (metis prod.exhaust_sel)
  from set_input_position [OF sample_reader_wf _ this] this show ?thesis
    by (auto simp: tlv_reader_offset_def sample_reader_def)
qed

text \<open>
  C9: Incremental reading agrees with reading the whole stream: an element that a reader delivers from a
  window of a stream is the element that a reader of the complete stream delivers at the same
  absolute position, with the same source, and both end at the same absolute position.
\<close>

theorem window_matches_stream:
  assumes cfg: "format_of cfg = Some f" and P: "readable P n" "n \<le> SIZE_MAX"
    and w: "window_of P n r" and f: "rd_format r = Some f"
    and ok: "reader_next (Some r) True False = (TLV_OK, Some r', Some (el, src), d)"
  shows "reader_next (Some (stream_at P n (rd_base_offset r + rd_pos r) f)) True False =
      (TLV_OK, Some (stream_at P n (rd_base_offset r' + rd_pos r') f), Some (el, src), None) \<and> window_of P n r'"
proof -
  obtain dec m enc wi where d: "fmt_decode f = Some dec" and C: "format_codec dec m enc wi"
    by (rule format_of_codec [OF cfg])
  have D: "prefix_decoder dec" using C by (simp add: format_codec_def)
  from prefix_decoder.window_next_OK [OF D P w f d ok] show ?thesis by blast
qed

lemma sample_reader_next:
  "\<exists>r' el src d. reader_next (Some sample_reader) True False = (TLV_OK, Some r', Some (el, src), d)"
proof -
  have "fst (reader_next (Some (sample_reader\<lparr>rd_format := format_of (VariableConfig sample_variable)\<rparr>)) True False) = TLV_OK"
    unfolding sample_reader_def by (simp only: tlv_reader_t.simps) code_simp
  then have "fst (reader_next (Some sample_reader) True False) = TLV_OK"
    by (simp add: sample_format_of sample_reader_def)
  then obtain ro res d where n: "reader_next (Some sample_reader) True False = (TLV_OK, ro, res, d)" by (metis prod_cases4 fst_conv)
  then show ?thesis by (rule reader_next_OK) (simp add: n)
qed

theorem window_matches_stream_witness:
  "\<exists>r' el src. reader_next (Some sample_reader) True False = (TLV_OK, Some r', Some (el, src), None) \<and>
     reader_next (Some (stream_at sample_input 5 0 sample_format)) True False =
       (TLV_OK, Some (stream_at sample_input 5 (rd_base_offset r' + rd_pos r') sample_format), Some (el, src), None)"
proof -
  obtain r' el src d where n: "reader_next (Some sample_reader) True False = (TLV_OK, Some r', Some (el, src), d)"
    using sample_reader_next by blast
  have d: "d = None" using n by (rule reader_next_OK) simp
  have w: "window_of sample_input 5 sample_reader"
    using sample_reader_wf by (simp add: window_of_def sample_reader_def)
  have P: "readable sample_input 5" "5 \<le> SIZE_MAX" by (simp_all add: sample_input_def SIZE_MAX_def)
  from window_matches_stream [OF sample_format_of P w _ n] n d show ?thesis by (auto simp: sample_reader_def)
qed

text \<open>
  C10: When the next element of the stream is only partly inside the window, the reader asks for more data if
  more may follow, and reports truncation otherwise; in both cases it stays where it is.  When the
  element is inside the window it is delivered.
\<close>

theorem window_asks_for_more:
  assumes cfg: "format_of cfg = Some f" and P: "readable P n" and w: "window_of P n r"
    and f: "rd_format r = Some f" and lt: "rd_pos r < rd_size r"
    and ok: "tlv_format_decode (Some f) (ptr_add P (rd_base_offset r + rd_pos r))
               (n - (rd_base_offset r + rd_pos r)) True = (TLV_OK, Some dec, None)"
  shows "if rd_pos r + src_size (dec_source dec) \<le> rd_size r
    then \<exists>r'. reader_next (Some r) True False = (TLV_OK, Some r', Some (dec_element dec, dec_source dec), None)
    else reader_next (Some r) True False =
      ((if rd_final_input r = 0 then TLV_NEED_MORE_DATA else TLV_ERR_TRUNCATED), Some r, None, None)"
proof -
  obtain de m enc wi where d: "fmt_decode f = Some de" and C: "format_codec de m enc wi"
    by (rule format_of_codec [OF cfg])
  have D: "prefix_decoder de" using C by (simp add: format_codec_def)
  from prefix_decoder.window_next_complete [OF D P w f d lt ok] show ?thesis by simp
qed

lemma sample_decoded:
  obtains d where "tlv_format_decode (Some sample_format) sample_input 5 True = (TLV_OK, Some d, None)"
    "src_size (dec_source d) = 4" "elem_tag (dec_element d) = tlv_tag sample_input 1"
proof -
  have "fst (tlv_format_decode (format_of (VariableConfig sample_variable)) sample_input 5 True) = TLV_OK"
    "map_option (\<lambda>d. src_size (dec_source d))
       (fst (snd (tlv_format_decode (format_of (VariableConfig sample_variable)) sample_input 5 True))) = Some 4"
    "map_option (\<lambda>d. elem_tag (dec_element d))
       (fst (snd (tlv_format_decode (format_of (VariableConfig sample_variable)) sample_input 5 True))) =
     Some (tlv_tag sample_input 1)"
    by code_simp+
  then show thesis
    by (cases rule: tlv_format_decode_cases [of "Some sample_format" sample_input 5 True])
      (auto simp: sample_format_of intro: that)
qed

theorem window_asks_for_more_witness:
  "reader_next (Some (sample_reader\<lparr>rd_size := 3\<rparr>)) True False =
     (TLV_NEED_MORE_DATA, Some (sample_reader\<lparr>rd_size := 3\<rparr>), None, None)"
proof -
  let ?r = "sample_reader\<lparr>rd_size := 3\<rparr>"
  obtain d where d: "tlv_format_decode (Some sample_format) sample_input 5 True = (TLV_OK, Some d, None)"
    "src_size (dec_source d) = 4" by (rule sample_decoded)
  have w: "window_of sample_input 5 ?r"
    using sample_reader_wf
    by (auto simp: window_of_def sample_reader_def reader_wf_def reader_valid_OK sample_input_def SIZE_MAX_def)
  from window_asks_for_more [OF sample_format_of _ w] d show ?thesis
    by (auto simp: sample_reader_def sample_input_def)
qed

end
