(* ===== verification/TLV_Tree_Properties.thy ===== *)
theory TLV_Tree_Properties
  imports TLV_Stream_Properties
begin

text \<open>
  Properties of Tree Reader, visitors, Writer and Tree Writer, alone and composed with the formats.
\<close>

section \<open>Tree Reader\<close>

text \<open>
  C12: Every operation of the tree reader keeps its invariant, successful or not: the frames nest and end
  inside their parents and the window, the depth stays within the frame storage and the depth limit,
  and the number of delivered nodes stays within the element limit.
\<close>

theorem tree_invariant:
  assumes "tree_wf r" "readable data sz"
  shows "(\<forall>rc r' ev d. tlv_tree_reader_next_event_diag (Some r) ok diag = (rc, Some r', ev, d) \<longrightarrow> tree_wf r') \<and>
    (\<forall>rc r' it d. tlv_tree_reader_next_diag (Some r) ok diag = (rc, Some r', it, d) \<longrightarrow> tree_wf r') \<and>
    (\<forall>rc r'. tlv_tree_reader_skip_subtree (Some r) = (rc, Some r') \<longrightarrow> tree_wf r') \<and>
    (\<forall>rc r'. tlv_tree_reader_set_input (Some r) data sz discard fin = (rc, Some r') \<longrightarrow> tree_wf r')"
proof (intro conjI allI impI)
  fix rc r' ev d assume "tlv_tree_reader_next_event_diag (Some r) ok diag = (rc, Some r', ev, d)"
  with assms(1) tree_event_wf [OF assms(1)] show "tree_wf r'"
    by (auto simp: tlv_tree_reader_next_event_diag_def split: if_splits prod.splits)
qed (use assms tree_next_wf skip_subtree_wf tree_set_input_wf in blast)+

definition sample_tree_input :: ptr where
  "sample_tree_input = Ptr 96 [0x61, 0x06, 0x5A, 0x02, 0x11, 0x22, 0x95, 0x00]"

definition sample_tree :: tlv_tree_reader_t where
  "sample_tree = the (snd (tlv_tree_reader_init True sample_tree_input 8 (Some sample_format)
     (Some (replicate 2 \<lparr>fr_end = 0, fr_resume = 0\<rparr>)) 2 2 9))"

lemma sample_tree_init:
  "tlv_tree_reader_init True sample_tree_input 8 (Some sample_format)
     (Some (replicate 2 \<lparr>fr_end = 0, fr_resume = 0\<rparr>)) 2 2 9 = (TLV_OK, Some sample_tree)"
  using sample_format_reads
  by (simp add: sample_tree_def tlv_tree_reader_init_def tlv_reader_init_def sample_tree_input_def)

lemma sample_tree_wf: "tree_wf sample_tree"
  by (rule tree_init_wf [OF sample_tree_init]) (simp_all add: sample_tree_input_def SIZE_MAX_def)

theorem tree_invariant_witness:
  "\<exists>rc r' ev d. tlv_tree_reader_next_event_diag (Some sample_tree) True True = (rc, Some r', ev, d) \<and> tree_wf r'"
proof -
  obtain rc r' ev d where "tlv_tree_reader_next_event_diag (Some sample_tree) True True = (rc, Some r', ev, d)"
    by (cases "tree_event sample_tree True") (auto simp: tlv_tree_reader_next_event_diag_def)
  with tree_invariant [OF sample_tree_wf, of sample_input 5 True True] show ?thesis by (auto simp: sample_input_def)
qed

text \<open>
  C11: The events of a fresh tree reader are well bracketed, whatever mix of event steps, skipped subtrees
  and new input windows produced them: begin and end events match at their depths, the open
  containers are those of the reader's state, none is open when the reader is at its end, and a
  traversal delivers at most two events per admitted element.
\<close>

theorem tree_events_balanced:
  assumes i: "tlv_tree_reader_init True data sz format frames capacity max_depth max_elements = (TLV_OK, Some r)"
    and d: "readable data sz" "sz \<le> SIZE_MAX" "capacity \<le> length (out frames [])" and run: "tree_run r evs r'"
  shows "balanced 0 evs = Some (tree_open r') \<and> length evs \<le> 2 * max_elements \<and> tree_wf r' \<and>
    (tlv_tree_reader_at_end (Some r') \<longrightarrow> balanced 0 evs = Some 0)"
proof -
  have r: "\<not> tr_item_projection r" "tree_open r = 0" "tree_budget r = 2 * max_elements"
    using i by (auto simp: tlv_tree_reader_init_def tree_open_def tree_budget_def split: if_splits prod.splits)
  from tree_run_balanced [OF run tree_init_wf [OF i d] r(1)] r(2,3)
  show ?thesis by (auto simp: tlv_tree_reader_at_end_def tree_open_def)
qed

lemma sample_tree_event:
  "\<exists>r' ev d. tlv_tree_reader_next_event_diag (Some sample_tree) True True = (TLV_OK, Some r', Some ev, d) \<and>
     ev_kind ev = TLV_TREE_BEGIN"
proof -
  have "case tlv_tree_reader_init True sample_tree_input 8 (format_of (VariableConfig sample_variable))
     (Some (replicate 2 \<lparr>fr_end = 0, fr_resume = 0\<rparr>)) 2 2 9 of
      (rc, r) \<Rightarrow> (case tlv_tree_reader_next_event_diag r True True of (rc, r', ev, d) \<Rightarrow>
        rc = TLV_OK \<and> map_option ev_kind ev = Some TLV_TREE_BEGIN)" by code_simp
  then show ?thesis
    unfolding sample_format_of sample_tree_init
    by (auto simp: tlv_tree_reader_next_event_diag_def split: prod.splits)
qed

theorem tree_events_balanced_witness:
  "\<exists>ev r' d. tlv_tree_reader_next_event_diag (Some sample_tree) True True = (TLV_OK, Some r', Some ev, d) \<and>
     balanced 0 [ev] = Some (tree_open r')"
proof -
  obtain r' ev d where n: "tlv_tree_reader_next_event_diag (Some sample_tree) True True = (TLV_OK, Some r', Some ev, d)"
    using sample_tree_event by blast
  have "tree_run sample_tree [ev] r'" by (rule tree_run.event [OF tree_run.stay n])
  from tree_events_balanced [OF sample_tree_init _ _ _ this] n show ?thesis
    by (auto simp: sample_tree_input_def SIZE_MAX_def)
qed

section \<open>Visitors\<close>

text \<open>
  C29: A tree traversal with a visitor always returns, whatever the visitor does, and leaves a reader that
  satisfies the invariant.
\<close>

theorem tree_visit_returns:
  assumes "tree_wf r"
  shows "\<exists>rc r' c' d. tlv_tree_reader_visit (Some r) v c diag = Some (rc, Some r', c', d) \<and> tree_wf r'"
  using tree_visit_loop_returns [OF assms, of v c "if diag then Some tlv_reader_diagnostic_init else None"]
  by (auto simp: tlv_tree_reader_visit_def)

theorem tree_visit_returns_witness:
  "\<exists>rc r' c' d. tlv_tree_reader_visit (Some sample_tree)
     (Some (\<lambda>el depth offset n. (TLV_VISIT_CONTINUE, n + depth))) 0 True = Some (rc, Some r', c' :: nat, d)"
  using tree_visit_returns [OF sample_tree_wf, of "Some (\<lambda>el depth offset n. (TLV_VISIT_CONTINUE, n + depth))" 0 True]
  by blast



section \<open>Writer\<close>

text \<open>
  C39: Writing an element never touches the bytes already written, whatever the encoder callback does: a
  success moves the position forward, within the capacity, by exactly the size that the format measures for the element; a
  failure leaves it where it was.
\<close>

theorem writer_write_safe:
  assumes wf: "writer_wf w" and s: "tlv_writer_write_element_diag (Some w) el diag = (rc, w', d)"
  shows "\<exists>w1. w' = Some w1 \<and> writer_kept w w1 \<and> wr_pos w1 \<le> wr_capacity w \<and>
    (if rc = TLV_OK
     then \<exists>sizes e. tlv_format_measure (wr_format w) el True = (TLV_OK, Some sizes, e) \<and> wr_pos w1 = wr_pos w + en_total sizes
     else wr_pos w1 = wr_pos w)"
proof (rule writer_write_frame [OF wf s])
  fix w1 assume "w' = Some w1" "writer_kept w w1" "rc \<noteq> TLV_OK \<Longrightarrow> wr_pos w1 = wr_pos w"
    "rc = TLV_OK \<Longrightarrow> wr_pos w \<le> wr_pos w1 \<and> wr_pos w1 \<le> wr_capacity w"
  with wf s writer_write_measured [OF wf] show ?thesis by (cases "rc = TLV_OK") (auto simp: writer_wf_def)
qed

definition sample_writer :: tlv_writer_t where
  "sample_writer = \<lparr>wr_format = Some sample_format, wr_buf = Some (replicate 8 0), wr_capacity = 8, wr_pos = 1\<rparr>"

lemma sample_writer_wf: "writer_wf sample_writer"
  using sample_format_reads by (simp add: writer_wf_def sample_writer_def)

theorem writer_write_safe_witness:
  "\<exists>w1 d. tlv_writer_write_element_diag (Some sample_writer) (Some sample_element) True = (TLV_OK, Some w1, d) \<and>
     take 1 (out (wr_buf w1) []) = [0] \<and> wr_pos w1 = 5"
proof -
  obtain rc w' d where s: "tlv_writer_write_element_diag (Some sample_writer) (Some sample_element) True = (rc, w', d)"
    by (metis prod_cases3)
  have "fst (tlv_writer_write_element_diag (Some sample_writer) (Some sample_element) True) = TLV_OK" by code_simp
  then have rc: "rc = TLV_OK" using s by simp
  have "map_option en_total (fst (snd (tlv_format_measure (wr_format sample_writer) (Some sample_element) True))) = Some 4" by code_simp
  then show ?thesis using writer_write_safe [OF sample_writer_wf s] s rc
    by (auto simp: writer_kept_def sample_writer_def)
qed

text \<open>
  Copying an encoded element appends exactly its bytes when they fit, and changes nothing when they do
  not.
\<close>

theorem writer_copy_exact:
  assumes "writer_wf w" "readable p n" "p \<noteq> Null"
  shows "tlv_writer_copy_encoded (Some w) p n =
    (if n \<le> wr_capacity w - wr_pos w then (TLV_OK, Some (appended w (take n (bytes p))))
     else (TLV_ERR_BUFFER_TOO_SHORT, Some w))"
  using writer_copy_encoded_OK [OF assms(1) _ assms(2), of False]
    writer_copy_encoded_short [OF assms(1) _ assms(3), of n False]
  by (auto simp: tlv_writer_copy_encoded_def not_le split: prod.splits)

theorem writer_copy_exact_witness:
  "tlv_writer_copy_encoded (Some sample_writer) sample_input 4 =
     (TLV_OK, Some (sample_writer\<lparr>wr_buf := Some [0, 0x5A, 0x02, 0x11, 0x22, 0, 0, 0], wr_pos := 5\<rparr>))"
  using writer_copy_exact [OF sample_writer_wf, of sample_input 4]
  by (simp add: sample_writer_def sample_input_def appended_def blit_def numeral_eq_Suc)

text \<open>
  C28: Preserving is lossless: an element decoded from an input and written back unchanged with its source
  appends exactly the octets it was decoded from, whatever the format.
\<close>

theorem writer_preserve_lossless:
  assumes "writer_wf w" "tlv_format_decode (Some f) p n True = (TLV_OK, Some d, oe)"
    "n \<le> SIZE_MAX" "readable p n" "src_size (dec_source d) \<le> wr_capacity w - wr_pos w"
  shows "tlv_writer_preserve (Some w) (Some (dec_source d)) (Some (dec_element d)) =
           (TLV_OK, Some (appended w (take (src_size (dec_source d)) (bytes p))))"
  by (simp add: tlv_writer_preserve_def writer_preserve_OK [OF assms])

theorem writer_preserve_lossless_witness:
  "\<exists>d. tlv_format_decode (Some sample_format) sample_input 5 True = (TLV_OK, Some d, None) \<and>
     tlv_writer_preserve (Some sample_writer) (Some (dec_source d)) (Some (dec_element d)) =
       (TLV_OK, Some (appended sample_writer [0x5A, 0x02, 0x11, 0x22]))"
proof -
  obtain d where d: "tlv_format_decode (Some sample_format) sample_input 5 True = (TLV_OK, Some d, None)"
    "src_size (dec_source d) = 4" by (rule sample_decoded)
  have "tlv_writer_preserve (Some sample_writer) (Some (dec_source d)) (Some (dec_element d)) =
      (TLV_OK, Some (appended sample_writer (take (src_size (dec_source d)) (bytes sample_input))))"
    by (rule writer_preserve_lossless [OF sample_writer_wf d(1)])
      (simp_all add: d(2) sample_writer_def sample_input_def SIZE_MAX_def)
  then show ?thesis using d by (simp add: sample_input_def)
qed

text \<open>
  C2: Writing and reading back a sequence: for every format of the library, the elements written one after
  the other into a buffer that has room for their encoded sizes are read back from the written bytes
  in the same order, with the same tags and values, and nothing is left.
\<close>

theorem sequence_roundtrip:
  assumes cfg: "format_of cfg = Some f" and els: "\<And>el. el \<in> set els \<Longrightarrow> encodable f el"
    and room: "sum_list (map (encoded_total f) els) \<le> cap" "cap \<le> length buf" "cap \<le> SIZE_MAX"
    and w: "tlv_writer_init True (Some buf) cap (Some f) = (TLV_OK, Some w)"
  shows "\<exists>w' r r' els'. write_all w els = (TLV_OK, w') \<and>
      tlv_reader_init True (Ptr a (out (wr_buf w') [])) (tlv_writer_size (Some w')) (Some f) = (TLV_OK, Some r) \<and>
      reads r els' r' \<and> tlv_reader_at_end (Some r') \<and> list_all2 same_content els' els"
proof -
  obtain dec m enc wi where f: "fmt_decode f = Some dec" "fmt_measure f = Some m" "fmt_encode f = Some enc"
    and C: "format_codec dec m enc wi" by (rule format_of_codec [OF cfg])
  have "length (concat (map wi els)) = sum_list (map (encoded_total f) els)"
    using els encodable_writable(2) [OF C f(2,3)]
    by (auto simp: length_concat o_def intro!: arg_cong [where f = sum_list])
  then have "length (concat (map wi els)) \<le> cap" using room(1) by simp
  from format_codec.write_read_all [OF C f encodable_writable(1) [OF C f(2,3) els] this room(2,3) w]
  show ?thesis by blast
qed

lemma sample_writer_init:
  "\<exists>w. tlv_writer_init True (Some (replicate 8 0)) 8 (Some sample_format) = (TLV_OK, Some w)"
  using sample_format_reads by (simp add: tlv_writer_init_def)

theorem sequence_roundtrip_witness:
  "\<exists>w w' r r' els'. tlv_writer_init True (Some (replicate 8 0)) 8 (Some sample_format) = (TLV_OK, Some w) \<and>
     write_all w [sample_element, sample_element] = (TLV_OK, w') \<and> reads r els' r' \<and>
     list_all2 same_content els' [sample_element, sample_element]"
proof -
  obtain w where w: "tlv_writer_init True (Some (replicate 8 0)) 8 (Some sample_format) = (TLV_OK, Some w)"
    using sample_writer_init by blast
  from sequence_roundtrip [OF sample_format_of _ _ _ _ w, of "[sample_element, sample_element]"] w sample_encodable
  show ?thesis by (fastforce simp: SIZE_MAX_def)
qed

section \<open>Tree Writer\<close>

text \<open>
  C14: A rejected event is atomic: when the tree writer refuses an event, in particular when closing a
  container fails after its children were moved to the scratch area, the frames, counters and
  position are unchanged and so are all bytes written so far, provisional ones included.
\<close>

theorem tree_writer_atomic:
  assumes "tree_writer_wf w" "tlv_tree_writer_write_event (Some w) (Some e) = (rc, w')" "rc \<noteq> TLV_OK"
  shows "\<exists>w1. w' = Some w1 \<and> tree_writer_unchanged w w1"
proof -
  obtain d where "tlv_tree_writer_write_event_diag (Some w) (Some e) False = (rc, w', d)"
    using assms(2) by (auto simp: tlv_tree_writer_write_event_def split: prod.splits)
  from write_event_unchanged [OF assms(1) this assms(3)] show ?thesis by blast
qed

definition sample_tree_writer :: tlv_tree_writer_t where
  "sample_tree_writer = \<lparr>tw_output = \<lparr>wr_format = Some sample_format, wr_buf = Some (replicate 16 0), wr_capacity = 16,
       wr_pos = 0\<rparr>, tw_frames = replicate 2 \<lparr>wf_tag = tlv_tag Null 0, wf_start = 0\<rparr>, tw_capacity = 2, tw_depth = 0,
     tw_max_depth = 2, tw_max_elements = 9, tw_count = 0, tw_scratch = Some (replicate 16 0),
     tw_scratch_capacity = 16, tw_tags = None, tw_tags_capacity = 0, tw_tags_used = 0\<rparr>"

lemma sample_tree_writer_init:
  "tlv_tree_writer_init True (Some (replicate 16 0)) 16 (Some sample_format)
     (Some (replicate 2 \<lparr>wf_tag = tlv_tag Null 0, wf_start = 0\<rparr>)) 2 (Some (replicate 16 0)) 16 2 9 =
   (TLV_OK, Some sample_tree_writer)"
  using sample_format_reads
  by (simp add: tlv_tree_writer_init_def tlv_writer_init_def sample_tree_writer_def)

lemma sample_tree_writer_wf: "tree_writer_wf sample_tree_writer"
  using sample_format_reads by (simp add: tree_writer_wf_def writer_wf_def sample_tree_writer_def SIZE_MAX_def)

theorem tree_writer_atomic_witness:
  "\<exists>rc w1. tlv_tree_writer_write_event (Some sample_tree_writer) (Some (node_event TLV_TREE_END element0 0)) =
     (rc, Some w1) \<and> rc = TLV_ERR_INVALID_VALUE \<and> tree_writer_unchanged sample_tree_writer w1"
proof -
  obtain w' where "tlv_tree_writer_write_event (Some sample_tree_writer) (Some (node_event TLV_TREE_END element0 0)) =
      (TLV_ERR_INVALID_VALUE, w')"
    by (simp add: tlv_tree_writer_write_event_def tlv_tree_writer_write_event_diag_def event_misplaced_def
        node_event_def event0_def sample_tree_writer_def)
  with tree_writer_atomic [OF sample_tree_writer_wf this] show ?thesis by auto
qed

lemma write_events_left: "write_events w es = (TLV_OK, w') \<Longrightarrow> length es + events_left w' \<le> events_left w"
proof (induction es arbitrary: w)
  case (Cons e es)
  obtain w1 where w1: "tlv_tree_writer_write_event (Some w) (Some e) = (TLV_OK, w1)" "write_events (the w1) es = (TLV_OK, w')"
    using Cons.prems by (auto split: prod.splits if_splits)
  then obtain d where "tlv_tree_writer_write_event_diag (Some w) (Some e) False = (TLV_OK, w1, d)"
    by (auto simp: tlv_tree_writer_write_event_def split: prod.splits)
  from write_event_left [OF this] Cons.IH [OF w1(2)] show ?case by simp
qed simp

text \<open>
  C13: The tree writer encodes forests: with a fixed, variable, BER or DER format and no storage for the tags of open
  elements (the caller keeps them), the events of a forest whose nodes fit the limits, the frames and the scratch
  storage are all accepted.  A node with children is one whose identifier the format nests; the fixed format nests
  none, so its forests are sequences of elements.  The events leave in the output the encodings of the trees one
  after the other, each container encoded with the encodings of its children as its value.
\<close>

theorem tree_writer_encodes:
  assumes f: "format_of cfg = Some f" and w: "config_wire cfg = Some wire"
    and "\<forall>n\<in>set ns. node_ok (the (fmt_measure f)) wire (format_constructed f) n"
    and "tree_room w f (length (concat (map (node_wire wire) ns)))
      (sum_list (map node_count ns)) (foldr max (map node_height ns) 0)"
  shows "\<exists>w'. write_events w (concat (map (node_events (tw_depth w)) ns)) = (TLV_OK, w') \<and>
    tree_wrote w (concat (map (node_wire wire) ns)) (sum_list (map node_count ns)) w'"
proof -
  obtain dec m enc where C: "fmt_measure f = Some m" "fmt_encode f = Some enc" "value_codec dec m enc wire"
    by (rule config_value_codec [OF f w])
  from value_codec.write_all_nodes [OF C(3,1,2) refl] assms(3,4) C(1) show ?thesis by simp
qed

abbreviation variable_wire :: "tlv_variable_format_t \<Rightarrow> tlv_element_t \<Rightarrow> u8 list" where
  "variable_wire c \<equiv> fields_wire (variable_fields c) (variable_len_enc (vf_length c))"

definition sample_node :: tlv_node where
  "sample_node = Node (tlv_tag (Ptr 0 [0x61]) 1) [Leaf sample_element]"

lemma sample_constructed:
  obtains p where "fmt_is_constructed sample_format = Some p" "p (tlv_tag (Ptr 0 [0x61]) 1)"
    "\<not> p (elem_tag sample_element)"
proof -
  have "case fmt_is_constructed (the (format_of (VariableConfig sample_variable))) of None \<Rightarrow> False
    | Some p \<Rightarrow> p (tlv_tag (Ptr 0 [0x61]) 1) \<and> \<not> p (elem_tag sample_element)" by code_simp
  then show thesis unfolding sample_format_of by (auto split: option.splits intro: that)
qed

lemma sample_format_constructed: "fmt_is_constructed sample_format = Some p \<Longrightarrow> format_constructed sample_format = p"
  by (rule ext) (simp add: format_constructed_def)

lemma sample_writable:
  assumes "tag_wf (elem_tag el)" "value_wf (elem_value el)" "tag_size (elem_tag el) = 1"
    and "fst (tlv_variable_measure sample_variable el encoding0 error0) = TLV_OK"
  shows "writable (tlv_variable_measure sample_variable) el"
  using assms by (simp add: writable_def element_wf_def SIZE_MAX_def)

text \<open>An executable form of the choice of the long form.\<close>

lemma variable_len_long_exec [code]:
  "variable_len_long c l \<longleftrightarrow> l > unpack (vl_payload_mask c) (vl_payload_mask c) \<or>
     (case vl_policy c of None \<Rightarrow> False | Some p \<Rightarrow> lp_allow_short p = 0)"
  by (auto simp: variable_len_long_def split: option.splits)

lemma sample_node_ok:
  assumes "fmt_is_constructed sample_format = Some p" "p (tlv_tag (Ptr 0 [0x61]) 1)" "\<not> p (elem_tag sample_element)"
  shows "node_ok (tlv_variable_measure sample_variable) (variable_wire sample_variable) p sample_node"
    and "node_wire (variable_wire sample_variable) sample_node = [0x61, 4, 0x5A, 2, 0x11, 0x22]"
proof -
  have w: "variable_wire sample_variable sample_element = [0x5A, 2, 0x11, 0x22]" by code_simp
  have n: "variable_wire sample_variable (node_element (tlv_tag (Ptr 0 [0x61]) 1) [0x5A, 2, 0x11, 0x22]) =
      [0x61, 4, 0x5A, 2, 0x11, 0x22]" by code_simp
  show "node_wire (variable_wire sample_variable) sample_node = [0x61, 4, 0x5A, 2, 0x11, 0x22]"
    by (simp only: sample_node_def node_wire.simps list.map concat.simps append_Nil2 w n)
  have "fst (tlv_variable_measure sample_variable sample_element encoding0 error0) = TLV_OK"
    "fst (tlv_variable_measure sample_variable (node_element (tlv_tag (Ptr 0 [0x61]) 1) [0x5A, 2, 0x11, 0x22])
       encoding0 error0) = TLV_OK" by code_simp+
  with assms show "node_ok (tlv_variable_measure sample_variable) (variable_wire sample_variable) p sample_node"
    by (auto simp: sample_node_def w intro!: sample_writable)
      (auto simp: sample_element_def node_element_def tag_wf_def value_wf_def SIZE_MAX_def)
qed

lemma sample_room: "tree_room sample_tree_writer sample_format 6 2 1"
  using sample_tree_writer_wf by (simp add: tree_room_def tree_writer_wf_def sample_tree_writer_def SIZE_MAX_def)

theorem tree_writer_encodes_witness:
  "\<exists>w'. write_events sample_tree_writer (node_events 0 sample_node) = (TLV_OK, w') \<and>
     tree_wrote sample_tree_writer [0x61, 4, 0x5A, 2, 0x11, 0x22] 2 w'"
proof -
  obtain p where p: "fmt_is_constructed sample_format = Some p" "p (tlv_tag (Ptr 0 [0x61]) 1)"
    "\<not> p (elem_tag sample_element)" by (rule sample_constructed)
  note N = sample_node_ok [OF p]
  have "node_count sample_node = 2" "node_height sample_node = 1" "tw_depth sample_tree_writer = 0"
    by (simp_all add: sample_node_def sample_tree_writer_def)
  moreover have "config_wire (VariableConfig sample_variable) = Some (variable_wire sample_variable)"
    by (simp add: config_wire_def)
  moreover have "fmt_measure sample_format = Some (tlv_variable_measure sample_variable)"
    using sample_format_of by (simp add: format_of_def init_OK_iff tlv_variable_format_init_OK)
  ultimately show ?thesis
    using tree_writer_encodes [OF sample_format_of, of "variable_wire sample_variable" "[sample_node]" sample_tree_writer]
      N sample_room sample_format_constructed [OF p(1)]
    by (simp add: numeral_eq_Suc)
qed

lemma sample_node_written: "\<exists>w'. write_events sample_tree_writer (node_events 0 sample_node) = (TLV_OK, w')"
proof -
  obtain p where p: "fmt_is_constructed sample_format = Some p" "p (tlv_tag (Ptr 0 [0x61]) 1)"
    "\<not> p (elem_tag sample_element)" by (rule sample_constructed)
  have m: "fmt_measure sample_format = Some (tlv_variable_measure sample_variable)"
    "fmt_encode sample_format = Some (tlv_variable_encode sample_variable)"
    using tlv_variable_format_init_OK [OF init_OK_iff(3)] sample_format_of [unfolded format_of_def tlv_config.case]
    by blast+
  have "tree_room sample_tree_writer sample_format (length (node_wire (variable_wire sample_variable) sample_node))
      (node_count sample_node) (node_height sample_node)"
    unfolding sample_node_ok(2) [OF p] using sample_room by (simp add: sample_node_def numeral_eq_Suc)
  from variable_tree.write_node [OF m sample_format_constructed [OF p(1)] sample_node_ok(1) [OF p] this] show ?thesis
    by (auto simp: sample_tree_writer_def)
qed

text \<open>
  The events that a tree writer accepts are bounded by its element limit: at most two per admitted
  element, whatever the events are and whatever the format does.
\<close>

theorem tree_writer_bounded:
  assumes "tlv_tree_writer_init True data sz format frames capacity scratch scratch_capacity max_depth max_elements =
      (TLV_OK, Some w)" "write_events w es = (TLV_OK, w')"
  shows "length es + tw_depth w' \<le> 2 * max_elements"
  using write_events_left [OF assms(2)] assms(1)
  by (auto simp: tlv_tree_writer_init_def events_left_def split: if_splits prod.splits)

theorem tree_writer_bounded_witness:
  "\<exists>w'. write_events sample_tree_writer (node_events 0 sample_node) = (TLV_OK, w') \<and>
     length (node_events 0 sample_node) + tw_depth w' \<le> 18"
proof -
  obtain w' where "write_events sample_tree_writer (node_events 0 sample_node) = (TLV_OK, w')"
    using sample_node_written by blast
  with tree_writer_bounded [OF sample_tree_writer_init this] show ?thesis by simp
qed

end
