(* ===== verification/TLV_BER_Tags.thy ===== *)
theory TLV_BER_Tags
  imports TLV_BER_Format
begin

text \<open>
  Making and reading ASN.1 identifiers: a tag number below $2^{49}$ has one identifier of at most
  eight octets in every class, and class, constructed bit and number are read back from it.
\<close>

unbundle bit_operations_syntax

section \<open>Base-128 digits\<close>

definition digits_value :: "nat \<Rightarrow> u8 list \<Rightarrow> nat" where
  "digits_value v ds = foldl (\<lambda>a d. a * 128 + unat d) v ds"

lemma tag_digits_step:
  "tag_digits n = of_nat (n mod 128) # (if n < 128 then [] else tag_digits (n div 128))"
  by (subst tag_digits.simps) (simp add: take_bit_eq_mod drop_bit_eq_div div_eq_0_iff Let_def)

lemma unat_digit: "unat (of_nat (n mod 128) :: u8) = n mod 128"
  by (simp add: unat_of_nat take_bit_eq_mod)

lemma tag_digits_props:
  "tag_digits n \<noteq> [] \<and> (\<forall>d \<in> set (tag_digits n). unat d < 128) \<and> digits_value 0 (rev (tag_digits n)) = n \<and>
   (0 < n \<longrightarrow> last (tag_digits n) \<noteq> 0)"
proof (induction n rule: less_induct)
  case (less n)
  show ?case
  proof (cases "n < 128")
    case True
    then have "unat (of_nat n :: u8) = n" by (simp add: unat_of_nat take_bit_eq_mod)
    with True show ?thesis
      by (subst (1 2 3 4) tag_digits_step) (auto simp: digits_value_def unat_eq_0 [symmetric])
  next
    case False
    then have "n div 128 < n" "0 < n div 128" by (auto simp: div_greater_zero_iff)
    with less [of "n div 128"] False show ?thesis
      by (subst (1 2 3 4) tag_digits_step) (auto simp: digits_value_def unat_digit)
  qed
qed

lemma length_tag_digits: "0 < k \<Longrightarrow> length (tag_digits n) \<le> k \<longleftrightarrow> n < 128 ^ k"
proof (induction k arbitrary: n)
  case (Suc k)
  show ?case
  proof (cases "n < 128")
    case True
    have "128 * 1 \<le> 128 * (128 :: nat) ^ k" by (intro mult_le_mono) auto
    then have "128 \<le> (128 :: nat) ^ Suc k" by simp
    with True have "n < 128 ^ Suc k" by (rule order.strict_trans2)
    with True show ?thesis by (subst tag_digits_step) (simp del: power_Suc)
  next
    case False
    have "tag_digits (n div 128) \<noteq> []" using tag_digits_props by blast
    with False Suc show ?thesis
      by (subst tag_digits_step) (cases "k = 0"; auto simp: div_less_iff_less_mult mult.commute)
  qed
qed simp

lemma octet_payload: "unat (o' AND 0x7F :: u8) = unat o' mod 128"
proof -
  have "o' AND 0x7F = take_bit 7 o'" by (simp add: take_bit_eq_mask mask_eq_exp_minus_1)
  then show ?thesis by (simp only: unsigned_take_bit_eq) (simp add: take_bit_eq_mod)
qed

lemma push_payload: "x < 128 \<Longrightarrow> push_bit 7 v OR x = v * 128 + (x :: nat)"
  using push_bit_or_add [of x 7 v] by simp

lemma marked_digit:
  "(d OR 0x80) AND 0x7F = d AND (0x7F :: u8)" "(d OR 0x80) AND 0x80 = (0x80 :: u8)" "(- 256 :: u8) = 0"
proof -
  show "(d OR 0x80) AND 0x7F = d AND (0x7F :: u8)" by (simp add: bit.conj_disj_distrib2)
  show "(d OR 0x80) AND 0x80 = (0x80 :: u8)" by (rule bit_eqI) (auto simp: bit_simps)
  show "(- 256 :: u8) = 0" by code_simp
qed

lemma digit_unmarked: "unat (d :: u8) < 128 \<Longrightarrow> d AND 0x80 = 0"
proof -
  assume "unat d < 128"
  then have "take_bit 7 (unat d) = unat d" by (simp add: take_bit_nat_eq_self_iff)
  then have "take_bit 7 d = d" by (simp only: word_unat_eq_iff unsigned_take_bit_eq)
  then have "d AND 0x80 = take_bit 7 d AND 0x80" by simp
  also have "\<dots> = d AND (mask 7 AND 0x80)" by (simp add: take_bit_eq_mask and.assoc)
  finally show ?thesis by (simp add: mask_eq_exp_minus_1)
qed

lemma number_fold_digits:
  "\<forall>d \<in> set ds. unat d < 128 \<Longrightarrow> v < 128 ^ k \<Longrightarrow> k + length ds \<le> 7 \<Longrightarrow>
   number_fold (digit_octets ds) v = Some (digits_value v ds)"
proof (induction ds arbitrary: v k rule: digit_octets.induct)
  case 1
  then show ?case by (simp add: digits_value_def)
next
  case (2 d)
  have "v < 128 ^ 6" using 2(2,3) power_increasing [of k 6 "128 :: nat"] by simp
  with 2 show ?case
    by (simp add: TLV_SIZE_MAX_def octet_payload push_payload digits_value_def)
next
  case (3 d e ds)
  have "v < 128 ^ 6" using 3(3,4) power_increasing [of k 6 "128 :: nat"] by simp
  moreover have "v * 128 + unat d < 128 ^ Suc k"
    using 3(2,3) by simp
  ultimately show ?case
    using 3(1) [of "v * 128 + unat d" "Suc k"] 3(2,4)
    by (simp add: TLV_SIZE_MAX_def octet_payload marked_digit push_payload digits_value_def)
qed

lemma identifier_scan_digits:
  "\<forall>d \<in> set ds. unat d < 128 \<Longrightarrow> ds \<noteq> [] \<Longrightarrow> count + length ds \<le> TLV_ASN1_TAG_MAX_SIZE \<Longrightarrow>
   identifier_scan ber_identifier count (digit_octets ds) = (TLV_OK, None, count + length ds)"
proof (induction ds arbitrary: count rule: digit_octets.induct)
  case (3 d e ds)
  then show ?case using 3(1) [of "count + 1"] by (simp add: ber_identifier_def marked_digit)
qed (auto simp: ber_identifier_def digit_unmarked marked_digit(3))

section \<open>The leading octet\<close>

definition lead_octet :: "tlv_asn1_class_t \<Rightarrow> nat \<Rightarrow> nat \<Rightarrow> u8" where
  "lead_octet c k n = class_bits c OR (if k \<noteq> 0 then TLV_ASN1_CONSTRUCTED_BIT else 0) OR of_nat n"

definition known_class :: "tlv_asn1_class_t \<Rightarrow> bool" where
  "known_class c \<longleftrightarrow> c \<in> {TLV_ASN1_UNIVERSAL, TLV_ASN1_APPLICATION, TLV_ASN1_CONTEXT_SPECIFIC, TLV_ASN1_PRIVATE}"

lemma lead_octet_table:
  "\<forall>c \<in> {TLV_ASN1_UNIVERSAL, TLV_ASN1_APPLICATION, TLV_ASN1_CONTEXT_SPECIFIC, TLV_ASN1_PRIVATE}. \<forall>k \<in> {0, 1}.
     \<forall>n \<in> set [0..<32]. let o' = lead_octet c k n in
       unat (o' AND TLV_ASN1_TAG_NUMBER_MASK) = n \<and>
       tlv_asn1_tag_class (tlv_tag (Ptr 0 [o']) 1) = c \<and> (o' AND TLV_ASN1_CONSTRUCTED_BIT \<noteq> 0 \<longleftrightarrow> k \<noteq> 0) \<and>
       (reserved_lead o' \<longleftrightarrow> c = TLV_ASN1_UNIVERSAL \<and> n = 0)"
  by code_simp

lemma lead_octet_facts:
  assumes "known_class c" "n < 32"
  shows "unat (lead_octet c k n AND TLV_ASN1_TAG_NUMBER_MASK) = n"
    and "tlv_asn1_tag_class (tlv_tag (Ptr 0 [lead_octet c k n]) 1) = c"
    and "lead_octet c k n AND TLV_ASN1_CONSTRUCTED_BIT \<noteq> 0 \<longleftrightarrow> k \<noteq> 0"
    and "reserved_lead (lead_octet c k n) \<longleftrightarrow> c = TLV_ASN1_UNIVERSAL \<and> n = 0"
proof -
  have k: "lead_octet c k n = lead_octet c (if k = 0 then 0 else 1) n" by (simp add: lead_octet_def)
  have "n \<in> set [0..<32]" "(if k = 0 then 0 else 1) \<in> {0, 1 :: nat}" using assms(2) by auto
  from lead_octet_table [rule_format, OF assms(1) [unfolded known_class_def] this(2,1)]
  show "unat (lead_octet c k n AND TLV_ASN1_TAG_NUMBER_MASK) = n"
    "tlv_asn1_tag_class (tlv_tag (Ptr 0 [lead_octet c k n]) 1) = c"
    "lead_octet c k n AND TLV_ASN1_CONSTRUCTED_BIT \<noteq> 0 \<longleftrightarrow> k \<noteq> 0"
    "reserved_lead (lead_octet c k n) \<longleftrightarrow> c = TLV_ASN1_UNIVERSAL \<and> n = 0"
    unfolding Let_def k by (auto split: if_splits)
qed

lemma tag_octets_eq:
  "tag_octets c k n = (if n < 31 then [lead_octet c k n]
     else lead_octet c k 31 # digit_octets (rev (tag_digits n)))"
  by (simp add: tag_octets_def lead_octet_def TLV_ASN1_LOW_TAG_LIMIT_def TLV_ASN1_TAG_NUMBER_MASK_def Let_def or.assoc)

lemma length_digit_octets [simp]: "length (digit_octets ds) = length ds"
  by (induction ds rule: digit_octets.induct) auto

lemma length_tag_octets: "length (tag_octets c k n) \<le> TLV_ASN1_TAG_MAX_SIZE \<longleftrightarrow> n < 2 ^ 49"
proof (cases "n < 31")
  case False
  have "length (tag_octets c k n) \<le> TLV_ASN1_TAG_MAX_SIZE \<longleftrightarrow> length (tag_digits n) \<le> 7"
    using False by (simp add: tag_octets_eq TLV_ASN1_TAG_MAX_SIZE_def)
  then show ?thesis by (simp add: length_tag_digits)
qed (simp add: tag_octets_eq TLV_ASN1_TAG_MAX_SIZE_def)

section \<open>Numbers are read back\<close>

locale identifier_validator =
  fixes validate :: tlv_write_tag_fn
  assumes validate_octets:
    "tag_wf t \<Longrightarrow> tag_wf t' \<Longrightarrow> tag_size t' = tag_size t \<Longrightarrow> tag_bytes t' = tag_bytes t \<Longrightarrow>
     fst (validate t None 0) = TLV_OK \<Longrightarrow> fst (validate t' None 0) = TLV_OK"
begin

lemma tag_make_OK:
  assumes ok: "tlv_asn1_tag_make_checked validate c k n (Some st) True = (TLV_OK, ob, ot)"
    and st: "TLV_ASN1_TAG_MAX_SIZE \<le> length st"
  obtains t where "ot = Some t" "tag_wf t" "tag_size t = length (tag_octets c k n)" "tag_bytes t = tag_octets c k n"
    "ob = Some (blit 0 (tag_octets c k n) st)" "fst (validate t None 0) = TLV_OK" "known_class c" "k \<le> 1" "n < 2 ^ 49"
proof -
  let ?o = "tag_octets c k n"
  let ?p = "Ptr 0 (?o @ replicate (TLV_ASN1_TAG_MAX_SIZE - length ?o) 0)"
  from ok have I: "\<not> (case c of TLV_ASN1_CLASS_OTHER i \<Rightarrow> True | _ \<Rightarrow> False)" "k = 0 \<or> k = 1"
    "length ?o \<le> TLV_ASN1_TAG_MAX_SIZE" "fst (validate (tlv_tag ?p (length ?o)) None 0) = TLV_OK"
    "ob = Some (blit 0 ?o st)" "ot = Some (tlv_tag (buf_ptr ob 0) (length ?o))"
    by (auto simp: tlv_asn1_tag_make_checked_def Let_def split: if_splits)
  let ?t = "tlv_tag (buf_ptr ob 0) (length ?o)"
  have b: "bytes (buf_ptr ob 0) = ?o @ drop (length ?o) st" by (simp add: I(5) buf_ptr_def blit_0)
  have t: "tag_wf ?t" "tag_bytes ?t = ?o" using I(3) st b by (simp_all add: tag_wf_def tag_bytes_def readable_def)
  have "fst (validate ?t None 0) = TLV_OK"
    using validate_octets [OF _ t(1) _ _ I(4)] t by (simp add: tag_wf_def tag_bytes_def)
  moreover have "known_class c" using I(1) by (cases c) (auto simp: known_class_def)
  ultimately show thesis using I t length_tag_octets by (intro that [of ?t]) auto
qed

lemma tag_number_octets:
  assumes t: "tag_wf t" "tag_size t = length (tag_octets c k n)" "tag_bytes t = tag_octets c k n"
    and v: "fst (validate t None 0) = TLV_OK" and c: "known_class c" and n: "n < 2 ^ 49"
  shows "tlv_asn1_tag_number_checked validate (Some t) True = (TLV_OK, Some n)"
    and "tlv_asn1_tag_class t = c" and "tlv_asn1_tag_is_constructed t \<longleftrightarrow> k \<noteq> 0"
proof -
  let ?m = "if n < 31 then n else 31"
  have ne: "tag_octets c k n \<noteq> []" "hd (tag_octets c k n) = lead_octet c k ?m" by (simp_all add: tag_octets_eq)
  have "bytes (tag_data t) ! 0 = tag_octets c k n ! 0"
    using t ne(1) by (metis length_greater_0_conv nth_take tag_bytes_def)
  then have b0: "byte_at (tag_data t) 0 = lead_octet c k ?m" using ne by (simp add: byte_at_def hd_conv_nth)
  note F = lead_octet_facts [OF c, of ?m k]
  have m: "?m < 32" by simp
  show "tlv_asn1_tag_class t = c" using F(2) [OF m] b0 by (simp add: tlv_asn1_tag_class_def)
  show "tlv_asn1_tag_is_constructed t \<longleftrightarrow> k \<noteq> 0" using F(3) [OF m] b0 by (simp add: tlv_asn1_tag_is_constructed_def)
  have rest: "drop 1 (take (tag_size t) (bytes (tag_data t))) = drop 1 (tag_octets c k n)"
    using t by (simp add: tag_bytes_def)
  show "tlv_asn1_tag_number_checked validate (Some t) True = (TLV_OK, Some n)"
  proof (cases "n < 31")
    case True
    then show ?thesis
      using v F(1) [OF m] b0 t(2) by (simp add: tlv_asn1_tag_number_checked_def tag_octets_eq Let_def)
  next
    case False
    note P = tag_digits_props [of n]
    have "length (tag_digits n) \<le> 7" using n length_tag_digits [of 7 n] by simp
    then have "number_fold (digit_octets (rev (tag_digits n))) 0 = Some n"
      using number_fold_digits [of "rev (tag_digits n)" 0 0] P by simp
    with False rest v P t(2) show ?thesis
      by (simp add: tlv_asn1_tag_number_checked_def tag_octets_eq Let_def)
  qed
qed

end

text \<open>The three validators accept by the octets.\<close>

lemma octets_accepted:
  assumes R: "octet_tag_reader rd" and t: "tag_wf t" "tag_wf t'" "tag_size t' = tag_size t" "tag_bytes t' = tag_bytes t"
    and ok: "rd (tag_data t) (tag_size t) = (TLV_OK, ot, Some (tag_size t))"
  shows "rd (tag_data t') (tag_size t') = (TLV_OK, Some (tlv_tag (tag_data t') (tag_size t')), Some (tag_size t'))"
  by (rule octet_tag_reader.octet_cases [OF R _ ok]) (use t in \<open>auto simp: tag_wf_def tag_bytes_def\<close>)

lemma checked_validator:
  assumes R: "octet_tag_reader rd"
  shows "identifier_validator (\<lambda>t d cap. tlv_asn1_write_identifier_checked (Some rd) (Some t) d cap True)"
proof
  fix t t' assume t: "tag_wf t" "tag_wf t'" "tag_size t' = tag_size t" "tag_bytes t' = tag_bytes t"
    and ok: "fst (tlv_asn1_write_identifier_checked (Some rd) (Some t) None 0 True) = TLV_OK"
  obtain ot oc where r: "rd (tag_data t) (tag_size t) = (TLV_OK, ot, oc)" "out oc 0 = tag_size t" "0 < tag_size t"
    "tag_size t \<le> TLV_ASN1_TAG_MAX_SIZE"
    using ok by (auto simp: tlv_asn1_write_identifier_checked_def Let_def split: if_splits prod.splits)
  then have "oc = Some (tag_size t)" by (cases oc) auto
  with r octets_accepted [OF R t] have
    "rd (tag_data t') (tag_size t') = (TLV_OK, Some (tlv_tag (tag_data t') (tag_size t')), Some (tag_size t'))" by simp
  moreover have "tag_data t' \<noteq> Null" using t(2,3) r(3) by (auto simp: tag_wf_def)
  ultimately show "fst (tlv_asn1_write_identifier_checked (Some rd) (Some t') None 0 True) = TLV_OK"
    using r t(3) by (simp add: tlv_asn1_write_identifier_checked_def)
qed

lemma ber_write_tag_iff:
  assumes "tag_wf t"
  shows "fst (ber_write_tag t None 0) = TLV_OK \<longleftrightarrow> 0 < tag_size t \<and> tag_size t \<le> TLV_ASN1_TAG_MAX_SIZE \<and>
    (\<exists>ot. ber_read_tag (tag_data t) (tag_size t) = (TLV_OK, ot, Some (tag_size t)))" (is "?a \<longleftrightarrow> ?b")
proof
  assume a: ?a
  then have "0 < tag_size t" using ber_id.write_tag_query [OF assms] by simp
  moreover have "ber_read_tag (tag_data t) (tag_size t) = (TLV_OK, Some (tlv_tag (tag_data t) (tag_size t)), Some (tag_size t))"
    by (rule ber_id.read_written_tag [OF assms a]) (use assms in \<open>simp_all add: tag_wf_def tag_bytes_def\<close>)
  ultimately show ?b using ber_write_tag_bound [OF a] by blast
next
  assume b: ?b
  then obtain ot where r: "wire_read_tag (tag_data t) (tag_size t) = (TLV_OK, ot, Some (tag_size t))"
    and nz: "tag_data t \<noteq> Null" "\<not> reserved_lead (byte_at (tag_data t) 0)"
    by (auto simp: ber_read_tag_def split: if_splits)
  have "identifier_validate ber_identifier = TLV_OK"
    using r by (auto simp: wire_read_tag_def tlv_variable_identifier_read_def Let_def split: if_splits)
  with r b nz show ?a
    by (simp add: ber_write_tag_def wire_write_tag_def wire_read_tag_def tlv_variable_identifier_write_def)
      (simp add: ber_identifier_def)
qed

interpretation ber_tags: identifier_validator ber_write_tag
proof
  fix t t' assume t: "tag_wf t" "tag_wf t'" "tag_size t' = tag_size t" "tag_bytes t' = tag_bytes t"
    and ok: "fst (ber_write_tag t None 0) = TLV_OK"
  from ok [unfolded ber_write_tag_iff [OF t(1)]] octets_accepted [OF ber_octets.octet_tag_reader_axioms t]
  show "fst (ber_write_tag t' None 0) = TLV_OK"
    unfolding ber_write_tag_iff [OF t(2)] t(3) [symmetric] by (auto simp: t(3))
qed

interpretation asn1_tags: identifier_validator tlv_asn1_write_identifier
  using checked_validator [OF asn1_octets.octet_tag_reader_axioms]
  by (simp add: tlv_asn1_write_identifier_def [abs_def])

interpretation der_tags: identifier_validator der_write_tag
  using checked_validator [OF der_octets.octet_tag_reader_axioms]
  by (simp add: der_write_tag_def [abs_def])

section \<open>BER accepts every number that fits\<close>

lemma ber_read_octets:
  assumes c: "known_class c" and n: "n < 2 ^ 49" and z: "\<not> (c = TLV_ASN1_UNIVERSAL \<and> n = 0)"
    and p_def: "p = Ptr a (tag_octets c k n @ rest)"
  shows "ber_read_tag p (length (tag_octets c k n)) =
    (TLV_OK, Some (tlv_tag p (length (tag_octets c k n))), Some (length (tag_octets c k n)))"
proof (cases "n < 31")
  case True
  note F = lead_octet_facts [OF c, of n k]
  have "lead_octet c k n AND TLV_ASN1_TAG_NUMBER_MASK \<noteq> TLV_ASN1_TAG_NUMBER_MASK"
  proof
    assume "lead_octet c k n AND TLV_ASN1_TAG_NUMBER_MASK = TLV_ASN1_TAG_NUMBER_MASK"
    then show False using F(1) True by (simp add: TLV_ASN1_TAG_NUMBER_MASK_def)
  qed
  with True F(4) z show ?thesis
    by (simp add: p_def tag_octets_eq ber_read_tag_def wire_read_tag_def tlv_variable_identifier_read_def ber_identifier_def
        identifier_validate_def identifier_prefix_def identifier_minimal_def ber_identifier_policy_def single_bit_def
        TLV_ASN1_TAG_MAX_SIZE_def TLV_ASN1_TAG_NUMBER_MASK_def)
next
  case False
  note F = lead_octet_facts [OF c, of 31 k] and P = tag_digits_props [of n]
  have esc: "lead_octet c k 31 AND TLV_ASN1_TAG_NUMBER_MASK = TLV_ASN1_TAG_NUMBER_MASK"
    using F(1) by (simp add: word_unat_eq_iff TLV_ASN1_TAG_NUMBER_MASK_def)
  have len: "length (tag_digits n) \<le> 7" using n length_tag_digits [of 7 n] by simp
  let ?ds = "rev (tag_digits n)"
  have sc: "identifier_scan ber_identifier 1 (digit_octets ?ds) = (TLV_OK, None, 1 + length ?ds)"
    using P len by (intro identifier_scan_digits) (auto simp: TLV_ASN1_TAG_MAX_SIZE_def)
  obtain d ds where ds: "?ds = d # ds" using P by (cases ?ds) auto
  have d: "d \<noteq> 0" "unat d < 128" using P False ds by (auto simp: rev_eq_Cons_iff)
  have "digit_octets (d # ds) ! 0 AND 0x7F \<noteq> 0"
  proof
    assume "digit_octets (d # ds) ! 0 AND 0x7F = 0"
    then have "d AND 0x7F = 0" by (cases ds) (auto simp: marked_digit)
    then have "unat d mod 128 = 0" using octet_payload [of d] by simp
    with d show False by (simp add: unat_eq_0)
  qed
  then have b1: "(digit_octets ?ds @ rest) ! 0 AND 0x7F \<noteq> 0" by (simp add: ds nth_append)
  have v: "identifier_validate ber_identifier = TLV_OK"
    by (simp add: identifier_validate_def ber_identifier_def ber_identifier_policy_def single_bit_def
        TLV_ASN1_TAG_MAX_SIZE_def TLV_ASN1_TAG_NUMBER_MASK_def)
  show ?thesis
    using False F(4) esc sc b1 v ds
    by (simp add: p_def tag_octets_eq ber_read_tag_def wire_read_tag_def tlv_variable_identifier_read_def
        identifier_prefix_def identifier_minimal_def)
      (simp add: ber_identifier_def ber_identifier_policy_def identifier_minimal_def)
qed

lemma ber_tag_make_iff:
  assumes st: "TLV_ASN1_TAG_MAX_SIZE \<le> length st"
  shows "fst (tlv_ber_tag_make c k n (Some st) True) = TLV_OK \<longleftrightarrow>
    known_class c \<and> k \<le> 1 \<and> n < 2 ^ 49 \<and> \<not> (c = TLV_ASN1_UNIVERSAL \<and> n = 0)" (is "?a \<longleftrightarrow> ?b")
proof
  assume ?a
  then obtain ob ot where "tlv_asn1_tag_make_checked ber_write_tag c k n (Some st) True = (TLV_OK, ob, ot)"
    unfolding tlv_ber_tag_make_def by (metis prod.exhaust_sel)
  then show ?b
  proof (rule ber_tags.tag_make_OK [OF _ st])
    fix t assume t: "tag_wf t" "tag_size t = length (tag_octets c k n)" "tag_bytes t = tag_octets c k n"
      "fst (ber_write_tag t None 0) = TLV_OK" "known_class c" "k \<le> 1" "n < 2 ^ 49"
    have "\<not> reserved_lead (byte_at (tag_data t) 0)" and pos: "0 < tag_size t"
      using t(4) by (auto simp: ber_write_tag_iff [OF t(1)] ber_read_tag_def split: if_splits)
    moreover have "byte_at (tag_data t) 0 = tag_octets c k n ! 0"
      using pos t(2,3) by (metis byte_at_def nth_take tag_bytes_def)
    ultimately have "n = 0 \<Longrightarrow> c \<noteq> TLV_ASN1_UNIVERSAL"
      using lead_octet_facts(4) [OF t(5), of 0 k] by (auto simp: tag_octets_eq)
    with t show ?b by auto
  qed
next
  assume b: ?b
  let ?o = "tag_octets c k n"
  let ?p = "Ptr 0 (?o @ replicate (TLV_ASN1_TAG_MAX_SIZE - length ?o) 0)"
  have len: "length ?o \<le> TLV_ASN1_TAG_MAX_SIZE" using b length_tag_octets by simp
  have ne: "?o \<noteq> []" by (simp add: tag_octets_eq)
  have wf: "tag_wf (tlv_tag ?p (length ?o))" by (simp add: tag_wf_def)
  have "fst (ber_write_tag (tlv_tag ?p (length ?o)) None 0) = TLV_OK"
    unfolding ber_write_tag_iff [OF wf] using ber_read_octets [of c n ?p 0 k] b len ne by simp
  moreover have "\<not> (case c of TLV_ASN1_CLASS_OTHER i \<Rightarrow> True | _ \<Rightarrow> False)" "k = 0 \<or> k = 1"
    using b by (auto simp: known_class_def)
  ultimately show ?a
    using len by (auto simp: tlv_ber_tag_make_def tlv_asn1_tag_make_checked_def Let_def)
qed

end
