(* ===== verification/TLV_BER_Properties.thy ===== *)
theory TLV_BER_Properties
  imports TLV_BER_Tags "HOL-Library.Code_Target_Nat"
begin

text \<open>
  The properties of the ASN.1 formats: the scan of nested framing against the grammar, prefix
  decoding, the indefinite length form, identifiers.
\<close>

text \<open>
  C3: The scan of BER contents, an iteration over an explicit stack, accepts exactly what the recursive grammar
  of nested items describes: with a definite end, octets that are items nested at most 63 levels deep; with an
  indefinite end, such items followed by the end-of-contents octets, whose position it reports.
\<close>

theorem ber_scan_grammar:
  assumes "readable p n"
  shows "(tlv_ber_scan_contents p n False = (TLV_OK, r) \<longleftrightarrow>
       ber_items (TLV_BER_MAX_DEPTH - 1) (take n (bytes p)) \<and> r = Some (n, n)) \<and>
    (tlv_ber_scan_contents p n True = (TLV_OK, r) \<longleftrightarrow>
       (\<exists>v. v + 2 \<le> n \<and> ber_items (TLV_BER_MAX_DEPTH - 1) (take v (bytes p)) \<and>
          take 2 (drop v (bytes p)) = [0, 0] \<and> r = Some (v, v + 2)))"
proof -
  have S: "tlv_ber_scan_contents p n b = (TLV_OK, r) \<longleftrightarrow>
      (\<exists>e. tlv_ber_scan_contents_diag p n b error0 = (TLV_OK, r, e))" for b
    by (auto simp: tlv_ber_scan_contents_def split: prod.splits)
  show ?thesis
    unfolding S scan_definite_iff [OF assms] scan_indefinite_iff [OF assms]
    by (auto simp: occurs_at_def eval_nat_numeral)
qed

theorem ber_scan_grammar_witness:
  "ber_items (TLV_BER_MAX_DEPTH - 1) [0x30, 0x80, 0x04, 0x01, 0xAA, 0x00, 0x00, 0x31, 0x00]"
proof -
  let ?xs = "[0x30, 0x80, 0x04, 0x01, 0xAA, 0x00, 0x00, 0x31, 0x00] :: u8 list"
  have "fst (tlv_ber_scan_contents (Ptr 0 ?xs) 9 False) = TLV_OK" by code_simp
  then obtain r where "tlv_ber_scan_contents (Ptr 0 ?xs) 9 False = (TLV_OK, r)" by (metis prod.exhaust_sel)
  with ber_scan_grammar [of "Ptr 0 ?xs" 9 r] show ?thesis by simp
qed

text \<open>
  C18: In BER, with definite or indefinite lengths, and in CER a decoded element is recognised by its own octets:
  any longer input that can be read gives the same result, and every shorter nonempty input is reported as
  truncated, also when the end of the value is found by scanning its contents.
\<close>

theorem asn1_prefix:
  assumes f: "f \<in> {tlv_format_ber, tlv_format_ber_indefinite, tlv_format_cer}" and r: "readable p n"
    and ok: "tlv_format_decode (Some f) p n True = (TLV_OK, Some d, oe)"
  shows "partitioned d p n \<and>
    (\<forall>m. readable p m \<longrightarrow> src_size (dec_source d) \<le> m \<longrightarrow>
      tlv_format_decode (Some f) p m True = (TLV_OK, Some d, None)) \<and>
    (\<forall>m. 0 < m \<longrightarrow> m < src_size (dec_source d) \<longrightarrow> fst (tlv_format_decode (Some f) p m True) = TLV_ERR_TRUNCATED)"
proof -
  obtain dec where "fmt_decode f = Some dec" and P: "prefix_decoder dec"
    using f ber.prefix_decoder_axioms cer.prefix_decoder_axioms
    by (auto simp: tlv_format_ber_def tlv_format_ber_indefinite_def tlv_format_cer_def)
  from prefix_decoder.format_decode_inv [OF P this(1) r ok] show ?thesis by (metis option.inject)
qed

definition sample_ber_input :: ptr where
  "sample_ber_input = Ptr 0 [0x30, 0x80, 0x04, 0x01, 0xAA, 0x00, 0x00, 0xFF]"

theorem asn1_prefix_witness:
  "fst (tlv_format_decode (Some tlv_format_ber) sample_ber_input 6 True) = TLV_ERR_TRUNCATED"
proof -
  have "fst (tlv_format_decode (Some tlv_format_ber) sample_ber_input 8 True) = TLV_OK"
    "map_option (\<lambda>d. src_size (dec_source d)) (fst (snd (tlv_format_decode (Some tlv_format_ber) sample_ber_input 8 True))) = Some 7"
    by code_simp+
  then obtain d oe where "tlv_format_decode (Some tlv_format_ber) sample_ber_input 8 True = (TLV_OK, Some d, oe)"
    "src_size (dec_source d) = 7" by (cases "tlv_format_decode (Some tlv_format_ber) sample_ber_input 8 True") auto
  with asn1_prefix [of tlv_format_ber sample_ber_input 8 d oe] show ?thesis by (auto simp: sample_ber_input_def)
qed

text \<open>
  C19: The indefinite-length writer accepts an element exactly when its identifier is valid and constructed, its
  value is a sequence of items, and the encoding fits the buffer and the size type; it then stores identifier,
  0x80, value and end-of-contents octets and touches nothing else.
\<close>

theorem ber_write_indefinite_exact:
  assumes wf: "element_wf \<lparr>elem_tag = t, elem_value = \<lparr>val_data = p, val_size = len\<rparr>\<rparr>" and cap: "cap \<le> length buf"
  defines "w \<equiv> tag_bytes t @ [0x80] @ take len (bytes p) @ [0, 0]"
  shows "tlv_ber_write_indefinite (Some buf) cap t p len True = (TLV_OK, ob, on) \<longleftrightarrow>
    fst (ber_write_tag t None 0) = TLV_OK \<and> tlv_asn1_is_constructed t \<and>
    ber_items (TLV_BER_MAX_DEPTH - 1) (take len (bytes p)) \<and> length w \<le> cap \<and> length w \<le> TLV_SIZE_MAX \<and>
    ob = Some (blit 0 w buf) \<and> on = Some (length w)" (is "?a \<longleftrightarrow> ?b")
proof -
  let ?el = "\<lparr>elem_tag = t, elem_value = \<lparr>val_data = p, val_size = len\<rparr>\<rparr>"
  let ?f = tlv_format_ber_indefinite
  have w: "indefinite_wire ?el = w" by (simp add: w_def indefinite_wire_def value_bytes_def)
  have fm: "fmt_measure ?f = Some (tlv_asn1_indefinite_measure tlv_ber_fields)"
    "fmt_encode ?f = Some (tlv_asn1_indefinite_encode tlv_ber_fields)" by (simp_all add: tlv_format_ber_indefinite_def)
  have nz: "tag_size t = 0 \<or> tag_data t \<noteq> Null" "len = 0 \<or> p \<noteq> Null"
    using wf by (auto simp: element_wf_def tag_wf_def value_wf_def)
  have len: "length w = tag_size t + len + 3"
    using wf by (simp add: w_def element_wf_def value_wf_def readable_def)
  note E = ber.indefinite_encode_iff [OF wf cap, of error0, unfolded w, simplified]
  show ?thesis
  proof
    assume ?a
    then obtain oe where "tlv_format_encode (Some ?f) (Some ?el) (Some buf) cap True = (TLV_OK, ob, on, oe)"
      by (auto simp: tlv_ber_write_indefinite_def split: prod.splits if_splits)
    then obtain used e where "tlv_asn1_indefinite_encode tlv_ber_fields ?el (Some buf) cap 0 error0 = (TLV_OK, ob, used, e)"
      "on = Some used"
      by (auto simp: tlv_format_encode_def fm Let_def split: prod.splits if_splits)
    then show ?b unfolding E by (simp add: value_bytes_def)
  next
    assume b: ?b
    then have enc: "tlv_asn1_indefinite_encode tlv_ber_fields ?el (Some buf) cap 0 error0 = (TLV_OK, ob, length w, error0)"
      unfolding E by (simp add: value_bytes_def)
    let ?en = "\<lparr>en_header = tag_size t + 1, en_value = len, en_trailer = 2, en_total = length w\<rparr>"
    have "tlv_asn1_indefinite_measure tlv_ber_fields ?el encoding0 error0 = (TLV_OK, ?en, error0)"
      using b len by (simp add: ber.indefinite_measure_iff [OF wf])
    then have "tlv_format_measure (Some ?f) (Some ?el) True = (TLV_OK, Some ?en, None)"
      using tlv_format_measure_callback [OF fm, of ?el] nz b len by simp
    from tlv_format_encode_callback [OF this _ _ fm(2) _, of cap buf ob error0] enc b nz show ?a
      by (simp add: tlv_ber_write_indefinite_def SIZE_MAX_def TLV_SIZE_MAX_def)
  qed
qed

theorem ber_write_indefinite_exact_witness:
  "tlv_ber_write_indefinite (Some (replicate 9 7)) 9 (tlv_tag (Ptr 0 [0x30]) 1) (Ptr 0 [0x04, 0x01, 0xAA]) 3 True =
     (TLV_OK, Some [0x30, 0x80, 0x04, 0x01, 0xAA, 0x00, 0x00, 7, 7], Some 7)"
proof -
  let ?t = "tlv_tag (Ptr 0 [0x30]) 1" and ?p = "Ptr 0 [0x04, 0x01, 0xAA]"
  have wf: "element_wf \<lparr>elem_tag = ?t, elem_value = \<lparr>val_data = ?p, val_size = 3\<rparr>\<rparr>"
    by (simp add: element_wf_def tag_wf_def value_wf_def SIZE_MAX_def)
  have "fst (tlv_ber_scan_contents ?p 3 False) = TLV_OK" by code_simp
  then have items: "ber_items (TLV_BER_MAX_DEPTH - 1) [0x04, 0x01, 0xAA]"
    using scan_value_iff [of "\<lparr>val_data = ?p, val_size = 3\<rparr>"] by (simp add: value_wf_def value_bytes_def SIZE_MAX_def)
  have "fst (ber_write_tag ?t None 0) = TLV_OK" "tlv_asn1_is_constructed ?t" by code_simp+
  moreover have "(7 :: nat) \<le> TLV_SIZE_MAX" by (simp add: TLV_SIZE_MAX_def)
  moreover have "replicate 9 (7 :: u8) = [7, 7, 7, 7, 7, 7, 7, 7, 7]" by (simp add: eval_nat_numeral)
  ultimately show ?thesis
    using items ber_write_indefinite_exact [OF wf, of 9 "[7, 7, 7, 7, 7, 7, 7, 7, 7]"]
    by (simp add: tag_bytes_def blit_0)
qed

text \<open>
  C17: What the indefinite form of BER and CER write, if they accept an element, decodes with the same format to an
  element with the same identifier and value, whatever follows it; CER writes primitive elements with the shortest
  definite length and constructed ones with the indefinite length.
\<close>

theorem indefinite_roundtrip:
  assumes f: "f = tlv_format_ber_indefinite \<and> w = indefinite_wire el \<or> f = tlv_format_cer \<and> w = cer_wire el"
    and wf: "element_wf el" and cap: "cap \<le> length buf"
    and ok: "tlv_format_encode (Some f) (Some el) (Some buf) cap True = (TLV_OK, ob, on, oe)"
  shows "ob = Some (blit 0 w buf) \<and> on = Some (length w) \<and> length w \<le> cap \<and>
    (\<forall>a rest. \<exists>d. tlv_format_decode (Some f) (Ptr a (w @ rest)) (length w + length rest) True = (TLV_OK, Some d, None) \<and>
       src_size (dec_source d) = length w \<and> same_content (dec_element d) el)"
proof -
  note B = ber_indefinite.guarded_roundtrip [OF _ _ wf cap ok] and C = cer_format.guarded_roundtrip [OF _ _ wf cap ok]
  from f show ?thesis
  proof (elim disjE conjE)
    assume "f = tlv_format_ber_indefinite" "w = indefinite_wire el"
    then show ?thesis using B by (simp add: tlv_format_ber_indefinite_def)
  next
    assume "f = tlv_format_cer" "w = cer_wire el"
    then show ?thesis using C by (simp add: tlv_format_cer_def)
  qed
qed

theorem indefinite_roundtrip_witness:
  "\<exists>d. tlv_format_decode (Some tlv_format_cer) (Ptr 0 [0x30, 0x80, 0x04, 0x01, 0xAA, 0x00, 0x00, 0xEE]) 8 True =
     (TLV_OK, Some d, None) \<and> value_bytes (elem_value (dec_element d)) = [0x04, 0x01, 0xAA]"
proof -
  let ?el = "\<lparr>elem_tag = tlv_tag (Ptr 0 [0x30]) 1, elem_value = \<lparr>val_data = Ptr 0 [0x04, 0x01, 0xAA], val_size = 3\<rparr>\<rparr>"
  have wf: "element_wf ?el" by (simp add: element_wf_def tag_wf_def value_wf_def SIZE_MAX_def)
  have "fst (tlv_format_encode (Some tlv_format_cer) (Some ?el) (Some [7, 7, 7, 7, 7, 7, 7, 7]) 8 True) = TLV_OK" by code_simp
  then obtain ob on oe where ok: "tlv_format_encode (Some tlv_format_cer) (Some ?el) (Some [7, 7, 7, 7, 7, 7, 7, 7]) 8 True =
      (TLV_OK, ob, on, oe)" by (metis prod.exhaust_sel)
  have "tlv_asn1_is_constructed (tlv_tag (Ptr 0 [0x30]) 1)" by code_simp
  then have w: "cer_wire ?el = [0x30, 0x80, 0x04, 0x01, 0xAA, 0x00, 0x00]"
    by (simp add: cer_wire_def indefinite_wire_def tag_bytes_def value_bytes_def)
  have cap: "8 \<le> length [7, 7, 7, 7, 7, 7, 7, 7 :: u8]" by simp
  obtain d where d: "tlv_format_decode (Some tlv_format_cer) (Ptr 0 (cer_wire ?el @ [0xEE]))
      (length (cer_wire ?el) + length [0xEE :: u8]) True = (TLV_OK, Some d, None)" "same_content (dec_element d) ?el"
    using indefinite_roundtrip [OF disjI2 [OF conjI [OF refl refl]] wf cap ok] by blast
  have "value_bytes (elem_value (dec_element d)) = [0x04, 0x01, 0xAA]"
    using d(2) by (simp add: same_content_def value_bytes_def)
  with d(1) show ?thesis unfolding w by (simp add: numeral_eq_Suc)
qed

text \<open>
  C20: BER identifiers can be made for every class, both forms and every tag number below $2^{49}$ but universal
  number 0, and for nothing else; number, class and form are read back from every identifier that BER, DER or
  CER makes, and making one stores its octets at the start of the storage only.
\<close>

theorem asn1_tag_roundtrip:
  assumes st: "TLV_ASN1_TAG_MAX_SIZE \<le> length st"
  shows "(fst (tlv_ber_tag_make c k n (Some st) True) = TLV_OK \<longleftrightarrow>
      (\<forall>i. c \<noteq> TLV_ASN1_CLASS_OTHER i) \<and> k \<le> 1 \<and> n < 2 ^ 49 \<and> \<not> (c = TLV_ASN1_UNIVERSAL \<and> n = 0)) \<and>
    (\<forall>(make, number) \<in> {(tlv_ber_tag_make, tlv_ber_tag_number), (tlv_der_tag_make, tlv_der_tag_number),
       (tlv_cer_tag_make, tlv_cer_tag_number)}. \<forall>ob ot. make c k n (Some st) True = (TLV_OK, ob, ot) \<longrightarrow>
       (\<exists>t. ot = Some t \<and> number (Some t) True = (TLV_OK, Some n) \<and> tlv_asn1_tag_class t = c \<and>
          (tlv_asn1_tag_is_constructed t \<longleftrightarrow> k = 1) \<and> ob = Some (blit 0 (tag_bytes t) st)))"
proof -
  have V: "\<exists>t. ot = Some t \<and> tlv_asn1_tag_number_checked v (Some t) True = (TLV_OK, Some n) \<and> tlv_asn1_tag_class t = c \<and>
      (tlv_asn1_tag_is_constructed t \<longleftrightarrow> k = 1) \<and> ob = Some (blit 0 (tag_bytes t) st)"
    if v: "identifier_validator v" and ok: "tlv_asn1_tag_make_checked v c k n (Some st) True = (TLV_OK, ob, ot)" for v ob ot
  proof (rule identifier_validator.tag_make_OK [OF v ok st])
    fix t assume t: "ot = Some t" "tag_wf t" "tag_size t = length (tag_octets c k n)" "tag_bytes t = tag_octets c k n"
      "ob = Some (blit 0 (tag_octets c k n) st)" "fst (v t None 0) = TLV_OK" "known_class c" "k \<le> 1" "n < 2 ^ 49"
    from identifier_validator.tag_number_octets [OF v t(2,3,4,6,7,9)] t show ?thesis by auto
  qed
  have "known_class c \<longleftrightarrow> (\<forall>i. c \<noteq> TLV_ASN1_CLASS_OTHER i)" by (cases c) (auto simp: known_class_def)
  with V [OF ber_tags.identifier_validator_axioms] V [OF der_tags.identifier_validator_axioms]
    V [OF asn1_tags.identifier_validator_axioms] ber_tag_make_iff [OF st, of c k n]
  show ?thesis
    by (auto simp: tlv_ber_tag_make_def tlv_ber_tag_number_def tlv_der_tag_make_def tlv_der_tag_number_def
        tlv_cer_tag_make_def tlv_cer_tag_number_def)
qed

theorem asn1_tag_roundtrip_witness:
  "\<exists>ob t. tlv_ber_tag_make TLV_ASN1_CONTEXT_SPECIFIC 1 500 (Some (replicate 8 0)) True = (TLV_OK, ob, Some t) \<and>
     tlv_ber_tag_number (Some t) True = (TLV_OK, Some 500)"
proof -
  have st: "TLV_ASN1_TAG_MAX_SIZE \<le> length (replicate 8 (0 :: u8))" by (simp add: TLV_ASN1_TAG_MAX_SIZE_def)
  note R = asn1_tag_roundtrip [OF st, of TLV_ASN1_CONTEXT_SPECIFIC 1 500]
  have "fst (tlv_ber_tag_make TLV_ASN1_CONTEXT_SPECIFIC 1 500 (Some (replicate 8 0)) True) = TLV_OK" using R by simp
  then obtain ob ot where "tlv_ber_tag_make TLV_ASN1_CONTEXT_SPECIFIC 1 500 (Some (replicate 8 0)) True = (TLV_OK, ob, ot)"
    by (metis prod.exhaust_sel)
  with R show ?thesis by auto
qed

end
