(* ===== verification/TLV_UTF8.thy ===== *)
theory TLV_UTF8
  imports TLV_Prelude
begin

text \<open>
  UTF-8 validation (\<^verbatim>\<open>utf8_internal.c\<close>): a stream validator with constant state for byte spans whose
  boundaries may split a code point.  It accepts exactly the concatenations of the encodings of Unicode
  scalar values, however the input is cut into spans.
\<close>

unbundle bit_operations_syntax

section \<open>The stream validator\<close>

text \<open>\<^verbatim>\<open>pending\<close> is an array of four octets.\<close>

record tlv_utf8_stream_t =
  us_pending :: "u8 list"
  us_pending_len :: nat
  us_pending_need :: nat

definition tlv_utf8_stream_init :: "tlv_utf8_stream_t \<Rightarrow> tlv_utf8_stream_t" where
  "tlv_utf8_stream_init state = state\<lparr>us_pending_len := 0, us_pending_need := 0\<rparr>"

text \<open>The loop over the continuation octets; the code point fits \<^verbatim>\<open>uint32_t\<close>.\<close>

fun codepoint_fold :: "u8 list \<Rightarrow> nat \<Rightarrow> nat" where
  "codepoint_fold [] cp = cp"
| "codepoint_fold (b # bs) cp = codepoint_fold bs (push_bit 6 cp OR unat (b AND 0x3F))"

definition utf8_stream_finish_codepoint :: "tlv_utf8_stream_t \<Rightarrow> tlv_result_t" where
  "utf8_stream_finish_codepoint state =
     (let b0 = us_pending state ! 0;
          (cp, min_cp) =
            (if b0 AND 0xE0 = 0xC0 then (unat (b0 AND 0x1F), 0x80)
             else if b0 AND 0xF0 = 0xE0 then (unat (b0 AND 0x0F), 0x800)
             else (unat (b0 AND 0x07), 0x10000));
          cp = codepoint_fold (drop 1 (take (us_pending_need state) (us_pending state))) cp
      in if cp < min_cp \<or> cp > 0x10FFFF \<or> (cp \<ge> 0xD800 \<and> cp \<le> 0xDFFF) then TLV_ERR_INVALID_VALUE else TLV_OK)"

text \<open>The inner loop: collects continuation octets; returns the input that is left.\<close>

fun utf8_fill :: "tlv_utf8_stream_t \<Rightarrow> u8 list \<Rightarrow> tlv_result_t \<times> tlv_utf8_stream_t \<times> u8 list" where
  "utf8_fill state [] = (TLV_OK, state, [])"
| "utf8_fill state (b # bs) =
     (if us_pending_len state < us_pending_need state then
        (if b AND 0xC0 \<noteq> 0x80 then (TLV_ERR_INVALID_VALUE, state, b # bs)
         else utf8_fill (state\<lparr>us_pending := (us_pending state)[us_pending_len state := b],
                               us_pending_len := us_pending_len state + 1\<rparr>) bs)
      else (TLV_OK, state, b # bs))"

text \<open>The number of continuation octets that a leading octet announces.\<close>

definition utf8_extra :: "u8 \<Rightarrow> nat option" where
  "utf8_extra b0 =
     (if b0 AND 0xE0 = 0xC0 then Some 1 else if b0 AND 0xF0 = 0xE0 then Some 2
      else if b0 AND 0xF8 = 0xF0 then Some 3 else None)"

partial_function (option) utf8_update ::
  "tlv_utf8_stream_t \<Rightarrow> u8 list \<Rightarrow> (tlv_result_t \<times> tlv_utf8_stream_t) option" where
  [code]: "utf8_update state value =
     (case value of [] \<Rightarrow> Some (TLV_OK, state)
      | b0 # rest \<Rightarrow>
          if us_pending_need state = 0 then
            (if b0 < 0x80 then utf8_update state rest
             else case utf8_extra b0 of None \<Rightarrow> Some (TLV_ERR_INVALID_VALUE, state)
               | Some extra \<Rightarrow>
                   utf8_update (state\<lparr>us_pending := (us_pending state)[0 := b0], us_pending_len := 1,
                                      us_pending_need := 1 + extra\<rparr>) rest)
          else case utf8_fill state (b0 # rest) of
            (rc, state, rest) \<Rightarrow>
              if rc \<noteq> TLV_OK then Some (rc, state)
              else if us_pending_len state = us_pending_need state then
                (let rc = utf8_stream_finish_codepoint state in
                 if rc \<noteq> TLV_OK then Some (rc, state)
                 else utf8_update (state\<lparr>us_pending_len := 0, us_pending_need := 0\<rparr>) rest)
              else utf8_update state rest)"

definition tlv_utf8_stream_update ::
  "tlv_utf8_stream_t \<Rightarrow> ptr \<Rightarrow> nat \<Rightarrow> (tlv_result_t \<times> tlv_utf8_stream_t) option" where
  "tlv_utf8_stream_update state value len = utf8_update state (take len (bytes value))"

definition tlv_utf8_stream_finish :: "tlv_utf8_stream_t \<Rightarrow> tlv_result_t" where
  "tlv_utf8_stream_finish state = (if us_pending_need state = 0 then TLV_OK else TLV_ERR_INVALID_VALUE)"

text \<open>The local state has indeterminate contents before its initialisation.\<close>

definition tlv_utf8_validate :: "ptr \<Rightarrow> nat \<Rightarrow> tlv_result_t" where
  "tlv_utf8_validate value len =
     (case the (tlv_utf8_stream_update
              (tlv_utf8_stream_init \<lparr>us_pending = replicate 4 0, us_pending_len = 0, us_pending_need = 0\<rparr>) value len) of
        (rc, state) \<Rightarrow> if rc \<noteq> TLV_OK then rc else tlv_utf8_stream_finish state)"

section \<open>One octet at a time\<close>

text \<open>The states that arise: between code points, or inside one with octets missing.\<close>

definition utf8_wf :: "tlv_utf8_stream_t \<Rightarrow> bool" where
  "utf8_wf st \<longleftrightarrow> length (us_pending st) = 4 \<and> us_pending_need st \<le> 4 \<and>
     (us_pending_need st = 0 \<or> 1 \<le> us_pending_len st \<and> us_pending_len st < us_pending_need st)"

definition utf8_octet :: "tlv_utf8_stream_t \<Rightarrow> u8 \<Rightarrow> tlv_result_t \<times> tlv_utf8_stream_t" where
  "utf8_octet st b =
     (if us_pending_need st = 0 then
        (if b < 0x80 then (TLV_OK, st)
         else case utf8_extra b of None \<Rightarrow> (TLV_ERR_INVALID_VALUE, st)
           | Some extra \<Rightarrow> (TLV_OK, st\<lparr>us_pending := (us_pending st)[0 := b], us_pending_len := 1,
                                   us_pending_need := 1 + extra\<rparr>))
      else if b AND 0xC0 \<noteq> 0x80 then (TLV_ERR_INVALID_VALUE, st)
      else let st = st\<lparr>us_pending := (us_pending st)[us_pending_len st := b], us_pending_len := us_pending_len st + 1\<rparr> in
        if us_pending_len st = us_pending_need st then
          (if utf8_stream_finish_codepoint st \<noteq> TLV_OK then (utf8_stream_finish_codepoint st, st)
           else (TLV_OK, st\<lparr>us_pending_len := 0, us_pending_need := 0\<rparr>))
        else (TLV_OK, st))"

fun utf8_octets :: "tlv_utf8_stream_t \<Rightarrow> u8 list \<Rightarrow> tlv_result_t \<times> tlv_utf8_stream_t" where
  "utf8_octets st [] = (TLV_OK, st)"
| "utf8_octets st (b # bs) = (case utf8_octet st b of (rc, st) \<Rightarrow> if rc \<noteq> TLV_OK then (rc, st) else utf8_octets st bs)"

lemma utf8_octet_wf: "utf8_wf st \<Longrightarrow> utf8_octet st b = (TLV_OK, st') \<Longrightarrow> utf8_wf st'"
  by (auto simp: utf8_octet_def utf8_wf_def utf8_extra_def Let_def split: if_splits)

text \<open>The inner loop takes octets up to the end of the code point.\<close>

lemma utf8_fill_octets:
  "utf8_fill st bs = (rc, st', rest) \<Longrightarrow> us_pending_len st < us_pending_need st \<Longrightarrow>
   (rc \<noteq> TLV_OK \<and> utf8_octets st bs = (rc, st')) \<or>
   (rc = TLV_OK \<and> rest = [] \<and> us_pending_len st' < us_pending_need st' \<and> utf8_octets st bs = (TLV_OK, st')) \<or>
   (rc = TLV_OK \<and> us_pending_len st' = us_pending_need st' \<and> length rest < length bs \<and>
      utf8_octets st bs = (if utf8_stream_finish_codepoint st' \<noteq> TLV_OK then (utf8_stream_finish_codepoint st', st')
        else utf8_octets (st'\<lparr>us_pending_len := 0, us_pending_need := 0\<rparr>) rest))"
proof (induction bs arbitrary: st)
  case (Cons b bs)
  let ?st = "st\<lparr>us_pending := (us_pending st)[us_pending_len st := b], us_pending_len := us_pending_len st + 1\<rparr>"
  show ?case
  proof (cases "b AND 0xC0 = 0x80")
    case True
    then have f: "utf8_fill ?st bs = (rc, st', rest)" using Cons.prems by simp
    have st: "us_pending_need st \<noteq> 0" using Cons.prems(2) by simp
    show ?thesis
    proof (cases "us_pending_len ?st < us_pending_need ?st")
      case more: True
      then have "utf8_octets st (b # bs) = utf8_octets ?st bs" using True st by (simp add: utf8_octet_def)
      with Cons.IH [OF f more] show ?thesis by auto
    next
      case False
      then have eq: "Suc (us_pending_len st) = us_pending_need st" using Cons.prems(2) by simp
      then have "rc = TLV_OK \<and> st' = ?st \<and> rest = bs" using f by (cases bs) auto
      with True st eq show ?thesis by (simp add: utf8_octet_def Let_def)
    qed
  next
    case False
    then show ?thesis using Cons.prems by (auto simp: utf8_octet_def)
  qed
qed simp

lemma utf8_fill_keeps:
  "utf8_fill st bs = (rc, st', rest) \<Longrightarrow> us_pending_need st' = us_pending_need st \<and>
     length (us_pending st') = length (us_pending st) \<and> us_pending_len st \<le> us_pending_len st'"
  by (induction bs arbitrary: st) (force split: if_splits)+

lemma utf8_update_octets: "utf8_wf st \<Longrightarrow> utf8_update st bs = Some (utf8_octets st bs)"
proof (induction "length bs" arbitrary: st bs rule: less_induct)
  case less
  show ?case
  proof (cases bs)
    case Nil
    then show ?thesis by (simp add: utf8_update.simps)
  next
    case (Cons b rest)
    show ?thesis
    proof (cases "us_pending_need st = 0")
      case True
      have IH: "utf8_wf st1 \<Longrightarrow> utf8_update st1 rest = Some (utf8_octets st1 rest)" for st1
        using less.hyps [of rest] Cons by simp
      have wf: "utf8_extra b = Some k \<Longrightarrow>
          utf8_wf (st\<lparr>us_pending := (us_pending st)[0 := b], us_pending_len := 1, us_pending_need := 1 + k\<rparr>)" for k
        using less.prems by (auto simp: utf8_wf_def utf8_extra_def split: if_splits)
      note IH' = IH [OF wf, simplified]
      from True less.prems show ?thesis
        by (subst utf8_update.simps) (auto simp: Cons utf8_octet_def IH IH' split: option.splits)
    next
      case False
      obtain rc st1 rest1 where f: "utf8_fill st (b # rest) = (rc, st1, rest1)" by (metis prod_cases3)
      have lt: "us_pending_len st < us_pending_need st" using less.prems False by (simp add: utf8_wf_def)
      have wf: "utf8_wf (st1\<lparr>us_pending_len := 0, us_pending_need := 0\<rparr>)"
        using utf8_fill_keeps [OF f] less.prems by (simp add: utf8_wf_def)
      from utf8_fill_octets [OF f lt] show ?thesis
      proof (elim disjE conjE)
        assume "rc \<noteq> TLV_OK" "utf8_octets st (b # rest) = (rc, st1)"
        then show ?thesis by (subst utf8_update.simps) (simp add: Cons False f del: utf8_octets.simps utf8_fill.simps)
      next
        assume "rc = TLV_OK" "rest1 = []" "us_pending_len st1 < us_pending_need st1"
          "utf8_octets st (b # rest) = (TLV_OK, st1)"
        then show ?thesis
          by (subst utf8_update.simps)
            (simp add: Cons False f utf8_update.simps [of st1 "[]"] del: utf8_octets.simps utf8_fill.simps)
      next
        assume A: "rc = TLV_OK" "us_pending_len st1 = us_pending_need st1" "length rest1 < length (b # rest)"
          "utf8_octets st (b # rest) =
            (if utf8_stream_finish_codepoint st1 \<noteq> TLV_OK then (utf8_stream_finish_codepoint st1, st1)
             else utf8_octets (st1\<lparr>us_pending_len := 0, us_pending_need := 0\<rparr>) rest1)"
        have "utf8_update (st1\<lparr>us_pending_len := 0, us_pending_need := 0\<rparr>) rest1 =
            Some (utf8_octets (st1\<lparr>us_pending_len := 0, us_pending_need := 0\<rparr>) rest1)"
          using less.hyps [OF _ wf, of rest1] A(3) Cons by simp
        with A show ?thesis
          by (subst utf8_update.simps) (simp add: Cons False f Let_def del: utf8_octets.simps utf8_fill.simps)
      qed
    qed
  qed
qed

lemma utf8_octets_append:
  "utf8_octets st (xs @ ys) = (case utf8_octets st xs of (rc, st) \<Rightarrow> if rc \<noteq> TLV_OK then (rc, st) else utf8_octets st ys)"
  by (induction xs arbitrary: st) (auto split: prod.splits)

lemma utf8_octets_wf: "utf8_wf st \<Longrightarrow> utf8_octets st bs = (TLV_OK, st') \<Longrightarrow> utf8_wf st'"
  by (induction bs arbitrary: st) (auto split: prod.splits if_splits dest: utf8_octet_wf)

section \<open>The encoding of scalar values\<close>

definition unicode_scalar :: "nat \<Rightarrow> bool" where
  "unicode_scalar cp \<longleftrightarrow> cp \<le> 0x10FFFF \<and> \<not> (0xD800 \<le> cp \<and> cp \<le> 0xDFFF)"

definition utf8_encode :: "nat \<Rightarrow> u8 list" where
  "utf8_encode cp =
     (if cp < 0x80 then [of_nat cp]
      else if cp < 0x800 then [of_nat (0xC0 + cp div 64), of_nat (0x80 + cp mod 64)]
      else if cp < 0x10000
      then [of_nat (0xE0 + cp div 4096), of_nat (0x80 + cp div 64 mod 64), of_nat (0x80 + cp mod 64)]
      else [of_nat (0xF0 + cp div 262144), of_nat (0x80 + cp div 4096 mod 64), of_nat (0x80 + cp div 64 mod 64),
            of_nat (0x80 + cp mod 64)])"

text \<open>The masks of the code, as ranges of octets.\<close>

lemma octet_low: "unat ((b :: u8) AND mask k) = unat b mod 2 ^ k"
  by (simp only: take_bit_eq_mask [symmetric] unsigned_take_bit_eq) (simp add: take_bit_eq_mod)

lemma octet_high:
  assumes "m = NOT (mask k)"
  shows "unat ((b :: u8) AND m) = unat b div 2 ^ k * 2 ^ k"
proof -
  have "b AND mask k OR b AND NOT (mask k) = b" by (rule bit_eqI) (auto simp: bit_simps)
  moreover have "b AND mask k OR b AND NOT (mask k) = (b AND mask k) + (b AND NOT (mask k))"
    by (rule disjunctive_add [symmetric]) (auto simp: bit_simps)
  ultimately have "b = (b AND mask k) + (b AND NOT (mask k))" by simp
  then have "b AND NOT (mask k) = b - (b AND mask k)" by (simp add: algebra_simps)
  moreover have "unat (b - (b AND mask k)) = unat b - unat (b AND mask k)"
    by (rule unat_sub) (simp only: word_le_nat_alt octet_low mod_less_eq_dividend)
  ultimately show ?thesis using assms by (simp only: octet_low minus_mod_eq_div_mult)
qed

lemma octet_masks:
  fixes b :: u8
  shows "b AND 0xC0 = 0x80 \<longleftrightarrow> 128 \<le> unat b \<and> unat b < 192" "b AND 0xE0 = 0xC0 \<longleftrightarrow> 192 \<le> unat b \<and> unat b < 224"
    "b AND 0xF0 = 0xE0 \<longleftrightarrow> 224 \<le> unat b \<and> unat b < 240" "b AND 0xF8 = 0xF0 \<longleftrightarrow> 240 \<le> unat b \<and> unat b < 248"
    "unat (b AND 0x3F) = unat b mod 64" "unat (b AND 0x1F) = unat b mod 32" "unat (b AND 0x0F) = unat b mod 16"
    "unat (b AND 0x07) = unat b mod 8" "b < 0x80 \<longleftrightarrow> unat b < 128"
proof -
  have m: "(0x3F :: u8) = mask 6" "(0x1F :: u8) = mask 5" "(0x0F :: u8) = mask 4" "(0x07 :: u8) = mask 3"
    by (simp_all add: mask_eq_exp_minus_1)
  have n: "(0xC0 :: u8) = NOT (mask 6)" "(0xE0 :: u8) = NOT (mask 5)" "(0xF0 :: u8) = NOT (mask 4)" "(0xF8 :: u8) = NOT (mask 3)"
    by code_simp+
  show "unat (b AND 0x3F) = unat b mod 64" "unat (b AND 0x1F) = unat b mod 32" "unat (b AND 0x0F) = unat b mod 16"
    "unat (b AND 0x07) = unat b mod 8"
    unfolding m octet_low by simp_all
  show "b < 0x80 \<longleftrightarrow> unat b < 128" by (simp add: word_less_nat_alt)
  show "b AND 0xC0 = 0x80 \<longleftrightarrow> 128 \<le> unat b \<and> unat b < 192"
    unfolding word_unat_eq_iff octet_high [OF n(1)] by simp linarith
  show "b AND 0xE0 = 0xC0 \<longleftrightarrow> 192 \<le> unat b \<and> unat b < 224"
    unfolding word_unat_eq_iff octet_high [OF n(2)] by simp linarith
  show "b AND 0xF0 = 0xE0 \<longleftrightarrow> 224 \<le> unat b \<and> unat b < 240"
    unfolding word_unat_eq_iff octet_high [OF n(3)] by simp linarith
  show "b AND 0xF8 = 0xF0 \<longleftrightarrow> 240 \<le> unat b \<and> unat b < 248"
    unfolding word_unat_eq_iff octet_high [OF n(4)] by simp linarith
qed

lemma push_sextet: "x < 64 \<Longrightarrow> push_bit 6 v OR x = v * 64 + (x :: nat)"
  using push_bit_or_add [of x 6 v] by simp

lemma codepoint_fold_simps:
  "codepoint_fold [] cp = cp"
  "codepoint_fold (b # bs) cp = codepoint_fold bs (cp * 64 + unat b mod 64)"
  by (simp_all add: octet_masks push_sextet)

declare codepoint_fold.simps [simp del]

text \<open>The number that the octets of a code point stand for.\<close>

definition utf8_number :: "u8 list \<Rightarrow> nat" where
  "utf8_number bs =
     (if length bs = 2 then unat (bs ! 0) mod 32 * 64 + unat (bs ! 1) mod 64
      else if length bs = 3 then (unat (bs ! 0) mod 16 * 64 + unat (bs ! 1) mod 64) * 64 + unat (bs ! 2) mod 64
      else ((unat (bs ! 0) mod 8 * 64 + unat (bs ! 1) mod 64) * 64 + unat (bs ! 2) mod 64) * 64 + unat (bs ! 3) mod 64)"

lemma mod_offset: "k mod m = 0 \<Longrightarrow> x < m \<Longrightarrow> (k + x) mod m = (x :: nat)"
  by (metis add_0 mod_add_left_eq mod_less)

lemma sextets:
  fixes n :: nat
  shows "n div 4096 = n div 64 div 64" "n div 262144 = n div 64 div 64 div 64"
    and "n div 64 * 64 + n mod 64 = n" "n div 4096 * 64 + n div 64 mod 64 = n div 64"
    and "n div 262144 * 64 + n div 4096 mod 64 = n div 4096"
proof -
  show q: "n div 4096 = n div 64 div 64" "n div 262144 = n div 64 div 64 div 64"
    using div_mult2_eq [of n 64 64] div_mult2_eq [of n 4096 64] by simp_all
  show "n div 64 * 64 + n mod 64 = n" "n div 4096 * 64 + n div 64 mod 64 = n div 64"
    "n div 262144 * 64 + n div 4096 mod 64 = n div 4096"
    unfolding q by (rule div_mult_mod_eq)+
qed

lemma octet_eqI: "n = unat (b :: u8) \<Longrightarrow> of_nat n = b"
  by simp

lemma utf8_encode_number:
  "192 \<le> unat b0 \<Longrightarrow> unat b0 < 224 \<Longrightarrow> 128 \<le> unat b1 \<Longrightarrow> unat b1 < 192 \<Longrightarrow> 0x80 \<le> utf8_number [b0, b1] \<Longrightarrow>
     utf8_encode (utf8_number [b0, b1]) = [b0, b1]"
  "224 \<le> unat b0 \<Longrightarrow> unat b0 < 240 \<Longrightarrow> 128 \<le> unat b1 \<Longrightarrow> unat b1 < 192 \<Longrightarrow> 128 \<le> unat b2 \<Longrightarrow> unat b2 < 192 \<Longrightarrow>
     0x800 \<le> utf8_number [b0, b1, b2] \<Longrightarrow> utf8_encode (utf8_number [b0, b1, b2]) = [b0, b1, b2]"
  "240 \<le> unat b0 \<Longrightarrow> unat b0 < 248 \<Longrightarrow> 128 \<le> unat b1 \<Longrightarrow> unat b1 < 192 \<Longrightarrow> 128 \<le> unat b2 \<Longrightarrow> unat b2 < 192 \<Longrightarrow>
     128 \<le> unat b3 \<Longrightarrow> unat b3 < 192 \<Longrightarrow> 0x10000 \<le> utf8_number [b0, b1, b2, b3] \<Longrightarrow>
     utf8_encode (utf8_number [b0, b1, b2, b3]) = [b0, b1, b2, b3]"
proof -
  have M: "unat b mod 64 = unat b - 128" if "128 \<le> unat b" "unat b < 192" for b :: u8
    using mod_offset [of 128 64 "unat b - 128"] that by simp
  have D: "(a * 64 + y) div 64 = a" "(a * 64 + y) mod 64 = y" if "y < 64" for a y :: nat using that by simp_all
  note Q = sextets(1,2)
  show "utf8_encode (utf8_number [b0, b1]) = [b0, b1]"
    if A: "192 \<le> unat b0" "unat b0 < 224" "128 \<le> unat b1" "unat b1 < 192" "0x80 \<le> utf8_number [b0, b1]"
  proof -
    have "unat b0 mod 32 = unat b0 - 192" using mod_offset [of 192 32 "unat b0 - 192"] A(1,2) by simp
    then have "utf8_number [b0, b1] = (unat b0 - 192) * 64 + (unat b1 - 128)" using M A by (simp add: utf8_number_def)
    with A D [of "unat b1 - 128"] show ?thesis by (simp add: utf8_encode_def)
  qed
  show "utf8_encode (utf8_number [b0, b1, b2]) = [b0, b1, b2]"
    if A: "224 \<le> unat b0" "unat b0 < 240" "128 \<le> unat b1" "unat b1 < 192" "128 \<le> unat b2" "unat b2 < 192"
      "0x800 \<le> utf8_number [b0, b1, b2]"
  proof -
    have "unat b0 mod 16 = unat b0 - 224" using mod_offset [of 224 16 "unat b0 - 224"] A(1,2) by simp
    then have "utf8_number [b0, b1, b2] = ((unat b0 - 224) * 64 + (unat b1 - 128)) * 64 + (unat b2 - 128)"
      using M A by (simp add: utf8_number_def)
    moreover define n where "n = utf8_number [b0, b1, b2]"
    ultimately have n: "n = ((unat b0 - 224) * 64 + (unat b1 - 128)) * 64 + (unat b2 - 128)" by simp
    have d1: "n div 64 = (unat b0 - 224) * 64 + (unat b1 - 128)" "n mod 64 = unat b2 - 128"
      unfolding n using A by (simp_all only: D)
    then have d2: "n div 4096 = unat b0 - 224" "n div 64 mod 64 = unat b1 - 128"
      unfolding Q d1 using A by (simp_all only: D)
    have "unat b0 - 224 \<le> 15" "unat b1 - 128 \<le> 63" "unat b2 - 128 \<le> 63" using A by linarith+
    moreover have "(a * 64 + b) * 64 + c < 0x10000" if "a \<le> 15" "b \<le> 63" "c \<le> 63" for a b c :: nat
      using that by (simp add: add_mult_distrib)
    ultimately have lt: "n < 0x10000" unfolding n by blast
    have "utf8_encode n = [of_nat (0xE0 + n div 4096), of_nat (0x80 + n div 64 mod 64), of_nat (0x80 + n mod 64)]"
      using A(7) lt by (simp add: utf8_encode_def n_def)
    also have "\<dots> = [b0, b1, b2]" unfolding d1(2) d2 using A by simp
    finally show ?thesis unfolding n_def .
  qed
  show "utf8_encode (utf8_number [b0, b1, b2, b3]) = [b0, b1, b2, b3]"
    if A: "240 \<le> unat b0" "unat b0 < 248" "128 \<le> unat b1" "unat b1 < 192" "128 \<le> unat b2" "unat b2 < 192"
      "128 \<le> unat b3" "unat b3 < 192" "0x10000 \<le> utf8_number [b0, b1, b2, b3]"
  proof -
    have "unat b0 mod 8 = unat b0 - 240" using mod_offset [of 240 8 "unat b0 - 240"] A(1,2) by simp
    then have "utf8_number [b0, b1, b2, b3] =
        (((unat b0 - 240) * 64 + (unat b1 - 128)) * 64 + (unat b2 - 128)) * 64 + (unat b3 - 128)"
      using M A by (simp add: utf8_number_def)
    moreover define n where "n = utf8_number [b0, b1, b2, b3]"
    ultimately have n: "n = (((unat b0 - 240) * 64 + (unat b1 - 128)) * 64 + (unat b2 - 128)) * 64 + (unat b3 - 128)" by simp
    have d1: "n div 64 = ((unat b0 - 240) * 64 + (unat b1 - 128)) * 64 + (unat b2 - 128)" "n mod 64 = unat b3 - 128"
      unfolding n using A by (simp_all only: D)
    then have d2: "n div 4096 = (unat b0 - 240) * 64 + (unat b1 - 128)" "n div 64 mod 64 = unat b2 - 128"
      unfolding Q d1 using A by (simp_all only: D)
    have d3: "n div 262144 = unat b0 - 240" "n div 4096 mod 64 = unat b1 - 128"
      unfolding Q(2) Q(1) [symmetric] d2(1) using A by (simp_all only: D)
    have "utf8_encode n = [of_nat (0xF0 + n div 262144), of_nat (0x80 + n div 4096 mod 64),
        of_nat (0x80 + n div 64 mod 64), of_nat (0x80 + n mod 64)]"
      using A(9) by (simp add: utf8_encode_def n_def)
    also have "\<dots> = [b0, b1, b2, b3]" unfolding d1(2) d2(2) d3 using A by simp
    finally show ?thesis unfolding n_def .
  qed
qed

text \<open>Conversely, the octets of an encoded scalar value.\<close>

lemma utf8_encode_cases:
  assumes "cp \<le> 0x10FFFF"
  obtains b where "utf8_encode cp = [b]" "unat b < 128"
  | b0 b1 where "utf8_encode cp = [b0, b1]" "192 \<le> unat b0" "unat b0 < 224" "128 \<le> unat b1" "unat b1 < 192"
      "utf8_number [b0, b1] = cp" "0x80 \<le> cp"
  | b0 b1 b2 where "utf8_encode cp = [b0, b1, b2]" "224 \<le> unat b0" "unat b0 < 240" "128 \<le> unat b1" "unat b1 < 192"
      "128 \<le> unat b2" "unat b2 < 192" "utf8_number [b0, b1, b2] = cp" "0x800 \<le> cp"
  | b0 b1 b2 b3 where "utf8_encode cp = [b0, b1, b2, b3]" "240 \<le> unat b0" "unat b0 < 248" "128 \<le> unat b1"
      "unat b1 < 192" "128 \<le> unat b2" "unat b2 < 192" "128 \<le> unat b3" "unat b3 < 192"
      "utf8_number [b0, b1, b2, b3] = cp" "0x10000 \<le> cp"
proof -
  have u: "unat (of_nat n :: u8) = n" if "n < 256" for n using that by (simp add: unat_of_nat take_bit_eq_mod)
  have c: "unat (of_nat (0x80 + x mod 64) :: u8) = 128 + x mod 64" for x using u [of "128 + x mod 64"] by simp
  consider "cp < 0x80" | "0x80 \<le> cp" "cp < 0x800" | "0x800 \<le> cp" "cp < 0x10000" | "0x10000 \<le> cp" by linarith
  then show thesis
  proof cases
    case 1
    then show thesis using u by (intro that(1)) (auto simp: utf8_encode_def)
  next
    case 2
    have h: "unat (of_nat (0xC0 + cp div 64) :: u8) = 192 + cp div 64" "cp div 64 < 32" using u [of "0xC0 + cp div 64"] 2 by simp_all
    let ?b0 = "of_nat (0xC0 + cp div 64) :: u8" and ?b1 = "of_nat (0x80 + cp mod 64) :: u8"
    have m: "(192 + cp div 64) mod 32 = cp div 64" "(128 + cp mod 64) mod 64 = cp mod 64"
      using h(2) by (intro mod_offset; simp)+
    have "utf8_number [?b0, ?b1] = unat ?b0 mod 32 * 64 + unat ?b1 mod 64" by (simp add: utf8_number_def)
    also have "\<dots> = cp" unfolding h(1) c m sextets(3) ..
    finally have num: "utf8_number [?b0, ?b1] = cp" .
    have enc: "utf8_encode cp = [?b0, ?b1]" using 2 by (simp add: utf8_encode_def)
    show thesis by (rule that(2) [OF enc _ _ _ _ num]) (unfold h(1) c, use h(2) 2 in simp_all)
  next
    case 3
    let ?b0 = "of_nat (0xE0 + cp div 4096) :: u8" and ?b1 = "of_nat (0x80 + cp div 64 mod 64) :: u8"
      and ?b2 = "of_nat (0x80 + cp mod 64) :: u8"
    have h: "unat ?b0 = 224 + cp div 4096" "cp div 4096 < 16" using u [of "0xE0 + cp div 4096"] 3 by simp_all
    note cc = c [of cp] c [of "cp div 64"]
    have m: "(224 + cp div 4096) mod 16 = cp div 4096" "(128 + x mod 64) mod 64 = x mod 64" for x :: nat
      using h(2) by (intro mod_offset; simp)+
    have "utf8_number [?b0, ?b1, ?b2] = (unat ?b0 mod 16 * 64 + unat ?b1 mod 64) * 64 + unat ?b2 mod 64"
      by (simp add: utf8_number_def)
    also have "\<dots> = cp" unfolding h(1) cc m sextets(4) sextets(3) ..
    finally have num: "utf8_number [?b0, ?b1, ?b2] = cp" .
    have enc: "utf8_encode cp = [?b0, ?b1, ?b2]" using 3 by (simp add: utf8_encode_def)
    show thesis by (rule that(3) [OF enc _ _ _ _ _ _ num]) (unfold h(1) cc, use h(2) 3 in simp_all)
  next
    case 4
    let ?b0 = "of_nat (0xF0 + cp div 262144) :: u8" and ?b1 = "of_nat (0x80 + cp div 4096 mod 64) :: u8"
      and ?b2 = "of_nat (0x80 + cp div 64 mod 64) :: u8" and ?b3 = "of_nat (0x80 + cp mod 64) :: u8"
    have h: "unat ?b0 = 240 + cp div 262144" "cp div 262144 < 8" using u [of "0xF0 + cp div 262144"] 4 assms by simp_all
    note cc = c [of cp] c [of "cp div 64"] c [of "cp div 4096"]
    have m: "(240 + cp div 262144) mod 8 = cp div 262144" "(128 + x mod 64) mod 64 = x mod 64" for x :: nat
      using h(2) by (intro mod_offset; simp)+
    have "utf8_number [?b0, ?b1, ?b2, ?b3] =
        ((unat ?b0 mod 8 * 64 + unat ?b1 mod 64) * 64 + unat ?b2 mod 64) * 64 + unat ?b3 mod 64"
      by (simp add: utf8_number_def)
    also have "\<dots> = cp" unfolding h(1) cc m sextets(5) sextets(4) sextets(3) ..
    finally have num: "utf8_number [?b0, ?b1, ?b2, ?b3] = cp" .
    have enc: "utf8_encode cp = [?b0, ?b1, ?b2, ?b3]" using 4 by (simp add: utf8_encode_def)
    show thesis by (rule that(4) [OF enc _ _ _ _ _ _ _ _ num]) (unfold h(1) cc, use h(2) 4 in simp_all)
  qed
qed

section \<open>Exactness\<close>

definition utf8_idle :: "tlv_utf8_stream_t \<Rightarrow> bool" where
  "utf8_idle st \<longleftrightarrow> us_pending_need st = 0 \<and> length (us_pending st) = 4"

lemma pending_four: "length xs = 4 \<Longrightarrow> \<exists>a b c d. xs = [a, b, c, d]"
  by (auto simp: length_Suc_conv eval_nat_numeral)

lemmas utf8_run = utf8_octet_def utf8_extra_def utf8_stream_finish_codepoint_def octet_masks codepoint_fold_simps
  utf8_number_def utf8_idle_def

lemma utf8_octets_encode:
  assumes "utf8_idle st" "unicode_scalar cp"
  shows "\<exists>st'. utf8_octets st (utf8_encode cp) = (TLV_OK, st') \<and> utf8_idle st'"
proof -
  obtain p0 p1 p2 p3 where p: "us_pending st = [p0, p1, p2, p3]"
    using pending_four [of "us_pending st"] assms(1) unfolding utf8_idle_def by blast
  have "cp \<le> 0x10FFFF" using assms(2) by (simp add: unicode_scalar_def)
  then show ?thesis
  proof (cases rule: utf8_encode_cases)
    case (1 b)
    then show ?thesis using assms(1) by (simp add: utf8_run)
  next
    case (2 b0 b1)
    with assms p show ?thesis by (simp add: utf8_run unicode_scalar_def numeral_2_eq_2 Let_def)
  next
    case (3 b0 b1 b2)
    with assms p show ?thesis by (simp add: utf8_run unicode_scalar_def numeral_3_eq_3 numeral_2_eq_2 Let_def)
  next
    case (4 b0 b1 b2 b3)
    with assms p show ?thesis by (simp add: utf8_run unicode_scalar_def numeral_2_eq_2 numeral_3_eq_3 Let_def)
  qed
qed

text \<open>An accepted input is empty or starts with an encoded scalar value.\<close>

lemma utf8_octets_step:
  assumes "utf8_octets st (b # bs) = (TLV_OK, st')"
  obtains st1 where "utf8_octet st b = (TLV_OK, st1)" "utf8_octets st1 bs = (TLV_OK, st')"
  using assms by (auto split: prod.splits if_splits)

lemma utf8_continuation:
  assumes "utf8_octet st b = (TLV_OK, st')" "us_pending_need st \<noteq> 0"
  shows "128 \<le> unat b" "unat b < 192"
    and "us_pending_len st + 1 \<noteq> us_pending_need st \<Longrightarrow>
      st' = st\<lparr>us_pending := (us_pending st)[us_pending_len st := b], us_pending_len := us_pending_len st + 1\<rparr>"
    and "us_pending_len st + 1 = us_pending_need st \<Longrightarrow>
      utf8_stream_finish_codepoint (st\<lparr>us_pending := (us_pending st)[us_pending_len st := b],
        us_pending_len := us_pending_len st + 1\<rparr>) = TLV_OK \<and> us_pending_need st' = 0 \<and>
      length (us_pending st') = length (us_pending st)"
  using assms by (auto simp: utf8_octet_def octet_masks Let_def split: if_splits)

lemma utf8_more:
  assumes "utf8_octets st bs = (TLV_OK, st')" "us_pending_need st \<noteq> 0" "us_pending_need st' = 0"
  obtains b rest st1 where "bs = b # rest" "utf8_octet st b = (TLV_OK, st1)" "utf8_octets st1 rest = (TLV_OK, st')"
proof (cases bs)
  case (Cons b rest)
  with assms(1) have "utf8_octets st (b # rest) = (TLV_OK, st')" by simp
  then show thesis by (rule utf8_octets_step) (rule that [OF Cons])
qed (use assms in auto)

lemma utf8_octets_decode:
  assumes idle: "utf8_idle st" and ok: "utf8_octets st (b0 # bs) = (TLV_OK, st')" and fin: "us_pending_need st' = 0"
  shows "\<exists>cp rest st1. unicode_scalar cp \<and> b0 # bs = utf8_encode cp @ rest \<and> utf8_idle st1 \<and>
    utf8_octets st1 rest = (TLV_OK, st')"
proof (rule utf8_octets_step [OF ok])
  fix s0 assume o0: "utf8_octet st b0 = (TLV_OK, s0)" and r0: "utf8_octets s0 bs = (TLV_OK, st')"
  obtain p0 p1 p2 p3 where p: "us_pending st = [p0, p1, p2, p3]"
    using pending_four [of "us_pending st"] idle unfolding utf8_idle_def by blast
  have need: "us_pending_need st = 0" using idle by (simp add: utf8_idle_def)
  consider "unat b0 < 128" "s0 = st" | k where "utf8_extra b0 = Some k" "128 \<le> unat b0"
    "s0 = st\<lparr>us_pending := [b0, p1, p2, p3], us_pending_len := 1, us_pending_need := 1 + k\<rparr>"
    using o0 need p by (auto simp: utf8_octet_def octet_masks split: if_splits option.splits)
  then show ?thesis
  proof cases
    case 1
    have "utf8_encode (unat b0) = [b0]" "unicode_scalar (unat b0)" using 1 by (simp_all add: utf8_encode_def unicode_scalar_def)
    with 1 r0 idle show ?thesis by (intro exI [of _ "unat b0"] exI [of _ bs] exI [of _ st]) simp
  next
    case (2 k)
    have b0: "k = 1 \<and> 192 \<le> unat b0 \<and> unat b0 < 224 \<or> k = 2 \<and> 224 \<le> unat b0 \<and> unat b0 < 240 \<or>
        k = 3 \<and> 240 \<le> unat b0 \<and> unat b0 < 248"
      using 2(1) by (auto simp: utf8_extra_def octet_masks split: if_splits)
    have "us_pending_need s0 \<noteq> 0" using 2(3) by simp
    then obtain b1 r1 s1 where bs: "bs = b1 # r1" and o1: "utf8_octet s0 b1 = (TLV_OK, s1)"
      and r1: "utf8_octets s1 r1 = (TLV_OK, st')" by (rule utf8_more [OF r0 _ fin])
    note C1 = utf8_continuation [OF o1 \<open>us_pending_need s0 \<noteq> 0\<close>]
    show ?thesis
    proof (cases "k = 1")
      case True
      have F: "0x80 \<le> utf8_number [b0, b1] \<and> unicode_scalar (utf8_number [b0, b1])" and i: "utf8_idle s1"
        using C1 2(3) b0 True by (auto simp: utf8_run unicode_scalar_def numeral_2_eq_2 numeral_3_eq_3 Let_def split: if_splits)
      have "utf8_encode (utf8_number [b0, b1]) = [b0, b1]" using b0 True C1 F by (intro utf8_encode_number(1)) auto
      with F i r1 bs show ?thesis by (intro exI [of _ "utf8_number [b0, b1]"] exI [of _ r1] exI [of _ s1]) simp
    next
      case False
      then have s1: "s1 = st\<lparr>us_pending := [b0, b1, p2, p3], us_pending_len := 2, us_pending_need := 1 + k\<rparr>"
        using C1(3) 2(3) b0 by auto
      then obtain b2 r2 s2 where bs2: "r1 = b2 # r2" and o2: "utf8_octet s1 b2 = (TLV_OK, s2)"
        and r2: "utf8_octets s2 r2 = (TLV_OK, st')" by (auto intro: utf8_more [OF r1 _ fin])
      note C2 = utf8_continuation [OF o2]
      show ?thesis
      proof (cases "k = 2")
        case True
        have F: "0x800 \<le> utf8_number [b0, b1, b2] \<and> unicode_scalar (utf8_number [b0, b1, b2])" and i: "utf8_idle s2"
          using C2 s1 b0 True by (auto simp: utf8_run unicode_scalar_def numeral_2_eq_2 numeral_3_eq_3 Let_def split: if_splits)
        have "utf8_encode (utf8_number [b0, b1, b2]) = [b0, b1, b2]"
          using b0 True C1 C2 s1 F by (intro utf8_encode_number(2)) auto
        with F i r2 bs bs2 show ?thesis
          by (intro exI [of _ "utf8_number [b0, b1, b2]"] exI [of _ r2] exI [of _ s2]) simp
      next
        case False
        then have k: "k = 3" using b0 \<open>k \<noteq> 1\<close> by auto
        then have s2: "s2 = st\<lparr>us_pending := [b0, b1, b2, p3], us_pending_len := 3, us_pending_need := 4\<rparr>"
          using C2(3) s1 by simp
        then obtain b3 r3 s3 where bs3: "r2 = b3 # r3" and o3: "utf8_octet s2 b3 = (TLV_OK, s3)"
          and r3: "utf8_octets s3 r3 = (TLV_OK, st')" by (auto intro: utf8_more [OF r2 _ fin])
        note C3 = utf8_continuation [OF o3]
        have F: "0x10000 \<le> utf8_number [b0, b1, b2, b3] \<and> unicode_scalar (utf8_number [b0, b1, b2, b3])" and i: "utf8_idle s3"
          using C3 s2 b0 k by (auto simp: utf8_run unicode_scalar_def numeral_2_eq_2 numeral_3_eq_3 Let_def split: if_splits)
        have "utf8_encode (utf8_number [b0, b1, b2, b3]) = [b0, b1, b2, b3]"
          using b0 k C1 C2 C3 s1 s2 F by (intro utf8_encode_number(3)) auto
        with F i r3 bs bs2 bs3 show ?thesis
          by (intro exI [of _ "utf8_number [b0, b1, b2, b3]"] exI [of _ r3] exI [of _ s3]) simp
      qed
    qed
  qed
qed

lemma utf8_encode_nonempty: "utf8_encode cp \<noteq> []"
  by (simp add: utf8_encode_def)

lemma utf8_accepts_iff:
  "utf8_idle st \<Longrightarrow> (\<exists>st'. utf8_octets st bs = (TLV_OK, st') \<and> us_pending_need st' = 0) \<longleftrightarrow>
     (\<exists>cps. (\<forall>cp \<in> set cps. unicode_scalar cp) \<and> bs = concat (map utf8_encode cps))" (is "_ \<Longrightarrow> ?a st bs \<longleftrightarrow> ?b bs")
proof
  show "utf8_idle st \<Longrightarrow> ?a st bs \<Longrightarrow> ?b bs"
  proof (induction "length bs" arbitrary: st bs rule: less_induct)
    case less
    show ?case
    proof (cases bs)
      case Nil
      then show ?thesis by (intro exI [of _ "[]"]) simp
    next
      case (Cons b0 bs')
      from less.prems(2) obtain st' where ok: "utf8_octets st (b0 # bs') = (TLV_OK, st')" "us_pending_need st' = 0"
        using Cons by blast
      from utf8_octets_decode [OF less.prems(1) ok] obtain cp rest st1 where c: "unicode_scalar cp"
        "b0 # bs' = utf8_encode cp @ rest" "utf8_idle st1" "utf8_octets st1 rest = (TLV_OK, st')" by blast
      have "length rest < length bs" using c(2) utf8_encode_nonempty [of cp] Cons by simp
      from less.hyps [OF this c(3)] c(4) ok(2) obtain cps where "\<forall>cp \<in> set cps. unicode_scalar cp"
        "rest = concat (map utf8_encode cps)" by blast
      with c Cons show ?thesis by (intro exI [of _ "cp # cps"]) simp
    qed
  qed
next
  have "\<forall>cp \<in> set cps. unicode_scalar cp \<Longrightarrow> utf8_idle st \<Longrightarrow> ?a st (concat (map utf8_encode cps))" for cps
  proof (induction cps arbitrary: st)
    case (Cons cp cps)
    then obtain st1 where "utf8_octets st (utf8_encode cp) = (TLV_OK, st1)" "utf8_idle st1"
      using utf8_octets_encode [of st cp] by auto
    with Cons.IH [of st1] Cons.prems show ?case by (simp add: utf8_octets_append)
  qed (simp add: utf8_idle_def)
  then show "utf8_idle st \<Longrightarrow> ?b bs \<Longrightarrow> ?a st bs" by blast
qed

lemma utf8_finish_result:
  "utf8_stream_finish_codepoint st = TLV_OK \<or> utf8_stream_finish_codepoint st = TLV_ERR_INVALID_VALUE"
  unfolding utf8_stream_finish_codepoint_def Let_def by (simp split: prod.split)

lemma utf8_octet_result: "fst (utf8_octet st b) = TLV_OK \<or> fst (utf8_octet st b) = TLV_ERR_INVALID_VALUE"
  using utf8_finish_result by (auto simp: utf8_octet_def Let_def split: option.split)

lemma utf8_octets_result: "fst (utf8_octets st bs) = TLV_OK \<or> fst (utf8_octets st bs) = TLV_ERR_INVALID_VALUE"
proof (induction bs arbitrary: st)
  case (Cons b bs)
  then show ?case using utf8_octet_result [of st b] by (auto split: prod.split)
qed simp

lemma utf8_validate_octets:
  "\<exists>st. utf8_idle st \<and> tlv_utf8_validate p n =
     (case utf8_octets st (take n (bytes p)) of (rc, st) \<Rightarrow> if rc \<noteq> TLV_OK then rc else tlv_utf8_stream_finish st)"
proof -
  let ?st = "\<lparr>us_pending = replicate 4 0, us_pending_len = 0, us_pending_need = 0\<rparr>"
  have "utf8_wf ?st" "utf8_idle ?st" by (simp_all add: utf8_wf_def utf8_idle_def)
  then show ?thesis
    by (intro exI [of _ ?st])
      (simp add: tlv_utf8_validate_def tlv_utf8_stream_init_def tlv_utf8_stream_update_def utf8_update_octets)
qed

lemma utf8_validate_iff:
  "tlv_utf8_validate p n = TLV_OK \<longleftrightarrow>
     (\<exists>cps. (\<forall>cp \<in> set cps. unicode_scalar cp) \<and> take n (bytes p) = concat (map utf8_encode cps))"
proof -
  from utf8_validate_octets obtain st where st: "utf8_idle st" "tlv_utf8_validate p n =
     (case utf8_octets st (take n (bytes p)) of (rc, st) \<Rightarrow> if rc \<noteq> TLV_OK then rc else tlv_utf8_stream_finish st)" by blast
  have "tlv_utf8_validate p n = TLV_OK \<longleftrightarrow> (\<exists>st'. utf8_octets st (take n (bytes p)) = (TLV_OK, st') \<and> us_pending_need st' = 0)"
    using st(2) by (auto simp: tlv_utf8_stream_finish_def split: prod.splits if_splits)
  with utf8_accepts_iff [OF st(1)] show ?thesis by simp
qed

lemma utf8_validate_result: "tlv_utf8_validate p n = TLV_OK \<or> tlv_utf8_validate p n = TLV_ERR_INVALID_VALUE"
proof -
  from utf8_validate_octets obtain st where "tlv_utf8_validate p n =
     (case utf8_octets st (take n (bytes p)) of (rc, st) \<Rightarrow> if rc \<noteq> TLV_OK then rc else tlv_utf8_stream_finish st)" by blast
  with utf8_octets_result [of st "take n (bytes p)"] show ?thesis
    by (cases "utf8_octets st (take n (bytes p))") (auto simp: tlv_utf8_stream_finish_def)
qed

text \<open>However the input is cut into spans.\<close>

lemma utf8_stream_split:
  assumes "utf8_wf st"
  shows "tlv_utf8_stream_update st p (m + n) =
    (case tlv_utf8_stream_update st p m of None \<Rightarrow> None
     | Some (rc, st1) \<Rightarrow> if rc \<noteq> TLV_OK then Some (rc, st1) else tlv_utf8_stream_update st1 (ptr_add p m) n)"
  using utf8_octets_wf [OF assms]
  by (auto simp: tlv_utf8_stream_update_def utf8_update_octets [OF assms] take_add utf8_octets_append utf8_update_octets
      split: prod.splits)

end
