(* ===== verification/TLV_ASN1_Values.thy ===== *)
theory TLV_ASN1_Values
  imports TLV_UTF8 TLV_BER_Tags
begin

text \<open>
  The canonical content rules of the universal ASN.1 types (\<^verbatim>\<open>builtins/asn1/asn1_values_internal.c\<close>),
  one validator per type and the dispatch on the tag number.  INTEGER contents are accepted exactly
  when they are the shortest two's complement form of their value, OBJECT IDENTIFIER contents exactly
  when they are a nonempty sequence of minimal base-128 numbers.

  Validators get the contents of one primitive element; characters are written as octets.
\<close>

unbundle bit_operations_syntax

section \<open>BOOLEAN, INTEGER, NULL, BIT STRING, OCTET STRING\<close>

definition tlv_asn1_validate_boolean :: "ptr \<Rightarrow> nat \<Rightarrow> tlv_result_t" where
  "tlv_asn1_validate_boolean value len =
     (if len \<noteq> 1 then TLV_ERR_INVALID_VALUE
      else if byte_at value 0 = 0x00 \<or> byte_at value 0 = 0xFF then TLV_OK else TLV_ERR_INVALID_VALUE)"

definition tlv_asn1_validate_integer :: "ptr \<Rightarrow> nat \<Rightarrow> tlv_result_t" where
  "tlv_asn1_validate_integer value len =
     (if len < 1 then TLV_ERR_INVALID_VALUE
      else if len > 1 \<and> ((byte_at value 0 = 0x00 \<and> byte_at value 1 AND 0x80 = 0) \<or>
                         (byte_at value 0 = 0xFF \<and> byte_at value 1 AND 0x80 \<noteq> 0))
      then TLV_ERR_INVALID_VALUE else TLV_OK)"

definition tlv_asn1_validate_null :: "ptr \<Rightarrow> nat \<Rightarrow> tlv_result_t" where
  "tlv_asn1_validate_null value len = (if len = 0 then TLV_OK else TLV_ERR_INVALID_VALUE)"

definition tlv_asn1_validate_bit_string :: "ptr \<Rightarrow> nat \<Rightarrow> tlv_result_t" where
  "tlv_asn1_validate_bit_string value len =
     (if len < 1 then TLV_ERR_INVALID_VALUE
      else let unused = byte_at value 0 in
        if unused > 7 then TLV_ERR_INVALID_VALUE
        else if len = 1 then (if unused = 0 then TLV_OK else TLV_ERR_INVALID_VALUE)
        else let m = push_bit (unat unused) 1 - 1 :: u8 in
          if byte_at value (len - 1) AND m = 0 then TLV_OK else TLV_ERR_INVALID_VALUE)"

definition tlv_asn1_validate_octet_string :: "ptr \<Rightarrow> nat \<Rightarrow> tlv_result_t" where
  "tlv_asn1_validate_octet_string value len = TLV_OK"

section \<open>OBJECT IDENTIFIER, REAL\<close>

text \<open>The inner loop over one subidentifier: what follows it, if its last octet is there.\<close>

fun oid_skip :: "u8 list \<Rightarrow> u8 list option" where
  "oid_skip [] = None"
| "oid_skip (b # bs) = (if b AND 0x80 \<noteq> 0 then oid_skip bs else Some bs)"

lemma oid_skip_length: "oid_skip bs = Some rest \<Longrightarrow> length rest < length bs"
  by (induction bs) (auto split: if_splits)

function oid_loop :: "u8 list \<Rightarrow> tlv_result_t" where
  "oid_loop [] = TLV_OK"
| "oid_loop (b # bs) =
     (if b = 0x80 then TLV_ERR_INVALID_VALUE
      else case oid_skip (b # bs) of None \<Rightarrow> TLV_ERR_INVALID_VALUE | Some rest \<Rightarrow> oid_loop rest)"
  by pat_completeness auto
termination by (relation "measure length") (auto simp del: oid_skip.simps dest: oid_skip_length)

definition tlv_asn1_validate_oid :: "ptr \<Rightarrow> nat \<Rightarrow> tlv_result_t" where
  "tlv_asn1_validate_oid value len =
     (if len < 1 then TLV_ERR_INVALID_VALUE else oid_loop (take len (bytes value)))"

definition tlv_asn1_validate_real :: "ptr \<Rightarrow> nat \<Rightarrow> tlv_result_t" where
  "tlv_asn1_validate_real value len =
     (if len = 0 then TLV_OK
      else let first = byte_at value 0 in
        if first AND 0x80 = 0 then
          (if first AND 0x40 \<noteq> 0
           then (if len = 1 \<and> (first = 0x40 \<or> first = 0x41 \<or> first = 0x42 \<or> first = 0x43)
                 then TLV_OK else TLV_ERR_INVALID_VALUE)
           else TLV_ERR_INVALID_VALUE)
        else if first AND 0x30 \<noteq> 0 then TLV_ERR_INVALID_VALUE
        else if first AND 0x0C \<noteq> 0 then TLV_ERR_INVALID_VALUE
        else case (let x = first AND 0x03 in if x = 0 then Some 1 else if x = 1 then Some 2
                   else if x = 2 then Some 3 else None) of
          None \<Rightarrow> TLV_ERR_INVALID_VALUE
        | Some exp_octets \<Rightarrow>
            if len < 1 + exp_octets + 1 then TLV_ERR_INVALID_VALUE
            else if tlv_asn1_validate_integer (ptr_add value 1) exp_octets \<noteq> TLV_OK then TLV_ERR_INVALID_VALUE
            else let mantissa_start = 1 + exp_octets in
              if len - mantissa_start > 1 \<and> byte_at value mantissa_start = 0x00 then TLV_ERR_INVALID_VALUE
              else if byte_at value (len - 1) AND 0x01 \<noteq> 0 then TLV_OK else TLV_ERR_INVALID_VALUE)"

section \<open>Character strings\<close>

text \<open>A loop that rejects the first octet outside a repertoire.\<close>

definition all_octets :: "(u8 \<Rightarrow> bool) \<Rightarrow> ptr \<Rightarrow> nat \<Rightarrow> tlv_result_t" where
  "all_octets ok value len = (if list_all ok (take len (bytes value)) then TLV_OK else TLV_ERR_INVALID_VALUE)"

definition is_digit :: "u8 \<Rightarrow> bool" where
  "is_digit c \<longleftrightarrow> c \<ge> 0x30 \<and> c \<le> 0x39"

definition tlv_asn1_validate_numeric_string :: "ptr \<Rightarrow> nat \<Rightarrow> tlv_result_t" where
  "tlv_asn1_validate_numeric_string = all_octets (\<lambda>c. is_digit c \<or> c = 0x20)"

text \<open>Letters, digits, space and \<^verbatim>\<open>' ( ) + , - . / : = ?\<close>\<close>

definition printable_octet :: "u8 \<Rightarrow> bool" where
  "printable_octet c \<longleftrightarrow> (c \<ge> 0x41 \<and> c \<le> 0x5A) \<or> (c \<ge> 0x61 \<and> c \<le> 0x7A) \<or> is_digit c \<or>
     c \<in> {0x20, 0x27, 0x28, 0x29, 0x2B, 0x2C, 0x2D, 0x2E, 0x2F, 0x3A, 0x3D, 0x3F}"

definition tlv_asn1_validate_printable_string :: "ptr \<Rightarrow> nat \<Rightarrow> tlv_result_t" where
  "tlv_asn1_validate_printable_string = all_octets printable_octet"

definition tlv_asn1_validate_ia5_string :: "ptr \<Rightarrow> nat \<Rightarrow> tlv_result_t" where
  "tlv_asn1_validate_ia5_string = all_octets (\<lambda>c. \<not> c > 0x7F)"

definition tlv_asn1_validate_visible_string :: "ptr \<Rightarrow> nat \<Rightarrow> tlv_result_t" where
  "tlv_asn1_validate_visible_string = all_octets (\<lambda>c. \<not> (c < 0x20 \<or> c > 0x7E))"

definition tlv_asn1_validate_utf8 :: "ptr \<Rightarrow> nat \<Rightarrow> tlv_result_t" where
  "tlv_asn1_validate_utf8 value len = tlv_utf8_validate value len"

text \<open>The loops over code units; the count has been checked to be a multiple of the unit.\<close>

fun universal_loop :: "u8 list \<Rightarrow> tlv_result_t" where
  "universal_loop (a # b # c # d # rest) =
     (let cp = push_bit 24 (ucast a) OR push_bit 16 (ucast b) OR push_bit 8 (ucast c) OR ucast d :: u32 in
      if cp > 0x10FFFF \<or> (cp \<ge> 0xD800 \<and> cp \<le> 0xDFFF) then TLV_ERR_INVALID_VALUE else universal_loop rest)"
| "universal_loop rest = TLV_OK"

definition tlv_asn1_validate_universal_string :: "ptr \<Rightarrow> nat \<Rightarrow> tlv_result_t" where
  "tlv_asn1_validate_universal_string value len =
     (if len mod 4 \<noteq> 0 then TLV_ERR_INVALID_VALUE else universal_loop (take len (bytes value)))"

fun bmp_loop :: "u8 list \<Rightarrow> tlv_result_t" where
  "bmp_loop (a # b # rest) =
     (let cp = push_bit 8 (ucast a) OR ucast b :: u32 in
      if cp \<ge> 0xD800 \<and> cp \<le> 0xDFFF then TLV_ERR_INVALID_VALUE else bmp_loop rest)"
| "bmp_loop rest = TLV_OK"

definition tlv_asn1_validate_bmp_string :: "ptr \<Rightarrow> nat \<Rightarrow> tlv_result_t" where
  "tlv_asn1_validate_bmp_string value len =
     (if len mod 2 \<noteq> 0 then TLV_ERR_INVALID_VALUE else bmp_loop (take len (bytes value)))"

section \<open>Times\<close>

text \<open>Only called on two digits.\<close>

definition digit_pair :: "ptr \<Rightarrow> int" where
  "digit_pair p = (uint (byte_at p 0) - 0x30) * 10 + (uint (byte_at p 1) - 0x30)"

definition digits_at :: "ptr \<Rightarrow> nat \<Rightarrow> bool" where
  "digits_at value n \<longleftrightarrow> list_all is_digit (take n (bytes value))"

text \<open>The range check of month, day, hour, minute and second, two digits each.\<close>

definition time_fields_invalid :: "ptr \<Rightarrow> bool" where
  "time_fields_invalid p \<longleftrightarrow>
     (let mm = digit_pair p; dd = digit_pair (ptr_add p 2); hh = digit_pair (ptr_add p 4);
          mi = digit_pair (ptr_add p 6); ss = digit_pair (ptr_add p 8) in
      mm < 1 \<or> mm > 12 \<or> dd < 1 \<or> dd > 31 \<or> hh > 23 \<or> mi > 59 \<or> ss > 59)"

definition tlv_asn1_validate_utc_time :: "ptr \<Rightarrow> nat \<Rightarrow> tlv_result_t" where
  "tlv_asn1_validate_utc_time value len =
     (if len \<noteq> 13 then TLV_ERR_INVALID_VALUE
      else if \<not> digits_at value 12 then TLV_ERR_INVALID_VALUE
      else if byte_at value 12 \<noteq> 0x5A then TLV_ERR_INVALID_VALUE
      else if time_fields_invalid (ptr_add value 2) then TLV_ERR_INVALID_VALUE
      else TLV_OK)"

text \<open>The optional fraction at index 14: the index after it, \<open>None\<close> for an error exit.\<close>

definition fraction_end :: "ptr \<Rightarrow> nat \<Rightarrow> nat option" where
  "fraction_end value len =
     (if 14 < len \<and> byte_at value 14 = 0x2E then
        let i = 15 + length (takeWhile is_digit (drop 15 (take len (bytes value)))) in
        if i = 15 then None else if byte_at value (i - 1) = 0x30 then None else Some i
      else Some 14)"

definition tlv_asn1_validate_generalized_time :: "ptr \<Rightarrow> nat \<Rightarrow> tlv_result_t" where
  "tlv_asn1_validate_generalized_time value len =
     (if len < 15 then TLV_ERR_INVALID_VALUE
      else if \<not> digits_at value 14 then TLV_ERR_INVALID_VALUE
      else if time_fields_invalid (ptr_add value 4) then TLV_ERR_INVALID_VALUE
      else case fraction_end value len of
        None \<Rightarrow> TLV_ERR_INVALID_VALUE
      | Some i \<Rightarrow> if i = len - 1 \<and> byte_at value i = 0x5A then TLV_OK else TLV_ERR_INVALID_VALUE)"

definition tlv_asn1_validate_time :: "ptr \<Rightarrow> nat \<Rightarrow> tlv_result_t" where
  "tlv_asn1_validate_time value len =
     (if len = 0 then TLV_ERR_INVALID_VALUE else tlv_asn1_validate_visible_string value len)"

definition tlv_asn1_validate_date :: "ptr \<Rightarrow> nat \<Rightarrow> tlv_result_t" where
  "tlv_asn1_validate_date value len =
     (if len \<noteq> 8 then TLV_ERR_INVALID_VALUE
      else if \<not> digits_at value 8 then TLV_ERR_INVALID_VALUE
      else let mm = digit_pair (ptr_add value 4); dd = digit_pair (ptr_add value 6) in
        if mm \<ge> 1 \<and> mm \<le> 12 \<and> dd \<ge> 1 \<and> dd \<le> 31 then TLV_OK else TLV_ERR_INVALID_VALUE)"

definition tlv_asn1_validate_time_of_day :: "ptr \<Rightarrow> nat \<Rightarrow> tlv_result_t" where
  "tlv_asn1_validate_time_of_day value len =
     (if len \<noteq> 6 then TLV_ERR_INVALID_VALUE
      else if \<not> digits_at value 6 then TLV_ERR_INVALID_VALUE
      else let hh = digit_pair value; mi = digit_pair (ptr_add value 2); ss = digit_pair (ptr_add value 4) in
        if hh \<le> 23 \<and> mi \<le> 59 \<and> ss \<le> 59 then TLV_OK else TLV_ERR_INVALID_VALUE)"

definition tlv_asn1_validate_date_time :: "ptr \<Rightarrow> nat \<Rightarrow> tlv_result_t" where
  "tlv_asn1_validate_date_time value len =
     (if len \<noteq> 14 then TLV_ERR_INVALID_VALUE
      else if tlv_asn1_validate_date value 8 \<noteq> TLV_OK then TLV_ERR_INVALID_VALUE
      else tlv_asn1_validate_time_of_day (ptr_add value 8) 6)"

text \<open>One or more digits: what follows them, if there are any.\<close>

definition duration_consume_digits :: "u8 list \<Rightarrow> u8 list option" where
  "duration_consume_digits bs =
     (let rest = dropWhile is_digit bs in if length rest < length bs then Some rest else None)"

text \<open>A number with an optional fraction: what follows it and whether there was a fraction.\<close>

definition duration_number :: "u8 list \<Rightarrow> (u8 list \<times> bool) option" where
  "duration_number bs =
     (case duration_consume_digits bs of None \<Rightarrow> None
      | Some rest \<Rightarrow>
          if rest \<noteq> [] \<and> hd rest = 0x2E
          then (case duration_consume_digits (tl rest) of None \<Rightarrow> None | Some rest \<Rightarrow> Some (rest, True))
          else Some (rest, False))"

text \<open>The rank of a designator: \<^verbatim>\<open>Y M D\<close> in the date part, \<^verbatim>\<open>H M S\<close> in the time part.\<close>

definition duration_rank :: "bool \<Rightarrow> u8 \<Rightarrow> nat option" where
  "duration_rank in_time_part d =
     (if \<not> in_time_part
      then (if d = 0x59 then Some 1 else if d = 0x4D then Some 2 else if d = 0x44 then Some 3 else None)
      else (if d = 0x48 then Some 1 else if d = 0x4D then Some 2 else if d = 0x53 then Some 3 else None))"

lemma duration_number_length: "duration_number bs = Some (rest, f) \<Longrightarrow> length rest < length bs"
  by (auto simp: duration_number_def duration_consume_digits_def Let_def split: if_splits option.splits)

function duration_loop :: "u8 list \<Rightarrow> bool \<Rightarrow> bool \<Rightarrow> nat \<Rightarrow> nat \<Rightarrow> tlv_result_t" where
  "duration_loop [] have_component in_time_part date_rank time_rank =
     (if in_time_part \<and> time_rank = 0 then TLV_ERR_INVALID_VALUE
      else if have_component then TLV_OK else TLV_ERR_INVALID_VALUE)"
| "duration_loop (b # bs) have_component in_time_part date_rank time_rank =
     (if \<not> in_time_part \<and> b = 0x54 then duration_loop bs have_component True date_rank time_rank
      else case duration_number (b # bs) of None \<Rightarrow> TLV_ERR_INVALID_VALUE
        | Some (rest, has_fraction) \<Rightarrow>
            (case rest of [] \<Rightarrow> TLV_ERR_INVALID_VALUE
             | designator # rest' \<Rightarrow>
                 (case duration_rank in_time_part designator of None \<Rightarrow> TLV_ERR_INVALID_VALUE
                  | Some rank \<Rightarrow>
                      if \<not> in_time_part then
                        (if rank \<le> date_rank then TLV_ERR_INVALID_VALUE
                         else duration_loop rest' True in_time_part rank time_rank)
                      else if rank \<le> time_rank then TLV_ERR_INVALID_VALUE
                      else if has_fraction \<and> designator \<noteq> 0x53 then TLV_ERR_INVALID_VALUE
                      else duration_loop rest' True in_time_part date_rank rank)))"
  by pat_completeness auto
termination
  by (relation "measure (\<lambda>(bs, _). length bs)") (auto dest!: duration_number_length)

definition tlv_asn1_validate_duration :: "ptr \<Rightarrow> nat \<Rightarrow> tlv_result_t" where
  "tlv_asn1_validate_duration value len =
     (if len = 0 then TLV_ERR_INVALID_VALUE else duration_loop (take len (bytes value)) False False 0 0)"

section \<open>Internationalised resource identifiers\<close>

fun double_slash :: "u8 list \<Rightarrow> bool" where
  "double_slash (a # b # rest) \<longleftrightarrow> (a = 0x2F \<and> b = 0x2F) \<or> double_slash (b # rest)"
| "double_slash rest \<longleftrightarrow> False"

definition validate_iri_arcs :: "ptr \<Rightarrow> nat \<Rightarrow> bool \<Rightarrow> tlv_result_t" where
  "validate_iri_arcs value len absolute =
     (if len = 0 then TLV_ERR_INVALID_VALUE
      else if tlv_asn1_validate_utf8 value len \<noteq> TLV_OK then TLV_ERR_INVALID_VALUE
      else if (if absolute then byte_at value 0 \<noteq> 0x2F else byte_at value 0 = 0x2F) then TLV_ERR_INVALID_VALUE
      else if byte_at value (len - 1) = 0x2F then TLV_ERR_INVALID_VALUE
      else if double_slash (take len (bytes value)) then TLV_ERR_INVALID_VALUE
      else TLV_OK)"

definition tlv_asn1_validate_oid_iri :: "ptr \<Rightarrow> nat \<Rightarrow> tlv_result_t" where
  "tlv_asn1_validate_oid_iri value len = validate_iri_arcs value len True"

definition tlv_asn1_validate_relative_oid_iri :: "ptr \<Rightarrow> nat \<Rightarrow> tlv_result_t" where
  "tlv_asn1_validate_relative_oid_iri value len = validate_iri_arcs value len False"

section \<open>Dispatch on the universal tag number\<close>

definition tlv_asn1_validate_universal_value :: "nat \<Rightarrow> ptr \<Rightarrow> nat \<Rightarrow> tlv_result_t" where
  "tlv_asn1_validate_universal_value number value len =
     (if number = 1 then tlv_asn1_validate_boolean value len
      else if number = 2 \<or> number = 10 then tlv_asn1_validate_integer value len
      else if number = 3 then tlv_asn1_validate_bit_string value len
      else if number = 4 \<or> number = 7 \<or> number = 20 \<or> number = 21 \<or> number = 25 \<or> number = 27
      then tlv_asn1_validate_octet_string value len
      else if number = 5 then tlv_asn1_validate_null value len
      else if number = 6 \<or> number = 13 then tlv_asn1_validate_oid value len
      else if number = 9 then tlv_asn1_validate_real value len
      else if number = 12 then tlv_asn1_validate_utf8 value len
      else if number = 14 then tlv_asn1_validate_time value len
      else if number = 18 then tlv_asn1_validate_numeric_string value len
      else if number = 19 then tlv_asn1_validate_printable_string value len
      else if number = 22 then tlv_asn1_validate_ia5_string value len
      else if number = 23 then tlv_asn1_validate_utc_time value len
      else if number = 24 then tlv_asn1_validate_generalized_time value len
      else if number = 26 then tlv_asn1_validate_visible_string value len
      else if number = 28 then tlv_asn1_validate_universal_string value len
      else if number = 30 then tlv_asn1_validate_bmp_string value len
      else if number = 31 then tlv_asn1_validate_date value len
      else if number = 32 then tlv_asn1_validate_time_of_day value len
      else if number = 33 then tlv_asn1_validate_date_time value len
      else if number = 34 then tlv_asn1_validate_duration value len
      else if number = 35 then tlv_asn1_validate_oid_iri value len
      else if number = 36 then tlv_asn1_validate_relative_oid_iri value len
      else TLV_ERR_UNSUPPORTED)"

lemma octet_sign: "(y :: u8) AND 0x80 = (if unat y < 128 then 0 else 0x80)"
proof -
  have "(0x80 :: u8) = NOT (mask 7)" by code_simp
  then have "unat (y AND 0x80) = unat y div 128 * 128" using octet_high [of "0x80" 7 y] by simp
  moreover have "unat y < 256" by (rule unat_u8_less)
  ultimately have "unat (y AND 0x80) = unat (if unat y < 128 then 0 else 0x80 :: u8)"
    using div_nat_eqI [of 128 1 "unat y"] by simp
  then show ?thesis by (simp only: word_unat_eq_iff)
qed

section \<open>INTEGER: the shortest two's complement form\<close>

text \<open>The value of two's complement contents, most significant octet first.\<close>

definition tc_value :: "u8 list \<Rightarrow> int" where
  "tc_value xs = int (be_val xs) - (if xs \<noteq> [] \<and> unat (hd xs) \<ge> 128 then 256 ^ length xs else 0)"

lemma be_val_Cons: "be_val (x # xs) = unat x * 256 ^ length xs + be_val xs"
proof (induction xs rule: rev_induct)
  case Nil
  then show ?case using be_val_snoc [of "[]" x] by simp
next
  case (snoc y ys)
  have "be_val (x # ys @ [y]) = be_val (x # ys) * 256 + unat y" using be_val_snoc [of "x # ys" y] by simp
  with snoc show ?case by (simp add: algebra_simps)
qed

definition tc_octet :: "u8 \<Rightarrow> int" where
  "tc_octet x = int (unat x) - (if unat x \<ge> 128 then 256 else 0)"

lemma tc_value_Cons: "tc_value (x # xs) = tc_octet x * 256 ^ length xs + int (be_val xs)"
  by (simp add: tc_value_def tc_octet_def be_val_Cons algebra_simps)

lemma tc_octet_range: "- 128 \<le> tc_octet x" "tc_octet x < 128"
proof -
  have "unat x < 256" by (rule unat_u8_less)
  then show "- 128 \<le> tc_octet x" "tc_octet x < 128" unfolding tc_octet_def by (auto simp del: of_nat_unat)
qed

lemma tc_value_range:
  assumes "ys \<noteq> []" "length ys \<le> Suc n"
  shows "- 128 * 256 ^ n \<le> tc_value ys" "tc_value ys < 128 * 256 ^ n"
proof -
  obtain y zs where ys: "ys = y # zs" using assms(1) by (cases ys) auto
  define k M b t where d: "k = length zs" "M = (256 :: int) ^ k" "b = int (be_val zs)" "t = tc_octet y"
  have "be_val zs < 256 ^ k" unfolding d by (rule be_val_less)
  then have "int (be_val zs) < int (256 ^ k)" by (rule of_nat_less_iff [THEN iffD2])
  then have b: "0 \<le> b" "b < M" unfolding d by simp_all
  have v: "tc_value ys = t * M + b" unfolding ys d by (rule tc_value_Cons)
  have M: "0 < M" "M \<le> 256 ^ n" using assms(2) ys unfolding d by (simp_all add: power_increasing)
  have "- 128 * M \<le> t * M" using tc_octet_range(1) [of y] M(1) unfolding d(4) by (intro mult_right_mono) auto
  moreover have "t * M \<le> 127 * M" using tc_octet_range(2) [of y] M(1) unfolding d(4) by (intro mult_right_mono) auto
  ultimately show "- 128 * 256 ^ n \<le> tc_value ys" "tc_value ys < 128 * 256 ^ n" unfolding v using b M by linarith+
qed

lemma tc_value_redundant:
  assumes "ys \<noteq> []" "unat x = 0 \<and> unat (hd ys) < 128 \<or> unat x = 255 \<and> 128 \<le> unat (hd ys)"
  shows "tc_value (x # ys) = tc_value ys"
  using assms by (auto simp: tc_value_Cons tc_octet_def tc_value_def be_val_Cons simp del: of_nat_unat)

lemma tc_value_minimal:
  assumes ys: "ys \<noteq> []" and c: "\<not> (unat x = 0 \<and> unat (hd ys) < 128 \<or> unat x = 255 \<and> 128 \<le> unat (hd ys))"
    and zs: "zs \<noteq> []" "length zs \<le> length ys"
  shows "tc_value zs \<noteq> tc_value (x # ys)"
proof -
  obtain y us where u: "ys = y # us" using ys by (cases ys) auto
  define M b t where d: "M = (256 :: int) ^ length us" "b = int (be_val us)" "t = tc_octet x"
  have r: "- 128 * M \<le> tc_value zs" "tc_value zs < 128 * M"
    using tc_value_range [OF zs(1), of "length us"] zs(2) u unfolding d by simp_all
  have v: "tc_value (x # ys) = t * (256 * M) + int (unat y) * M + b"
    by (simp add: u tc_value_Cons be_val_Cons d del: of_nat_unat)
  have "int (be_val us) < int (256 ^ length us)" using be_val_less by (rule of_nat_less_iff [THEN iffD2])
  then have b: "0 \<le> b" "b < M" unfolding d by simp_all
  have M: "0 < M" unfolding d by simp
  have y: "0 \<le> int (unat y) * M" "int (unat y) * M \<le> 255 * M"
    using M unat_u8_le [of y] by (auto intro!: mult_right_mono simp del: of_nat_unat)
  have xs: "unat x = 0 \<longleftrightarrow> t = 0" "unat x = 255 \<longleftrightarrow> t = -1"
    using unat_u8_le [of x] unfolding d tc_octet_def by (auto simp del: of_nat_unat)
  consider "t \<ge> 1" | "t = 0" "128 \<le> unat y" | "t = -1" "unat y < 128" | "t \<le> -2" using c u xs by force
  then show ?thesis
  proof cases
    case 1
    then have "1 * (256 * M) \<le> t * (256 * M)" using M by (intro mult_right_mono) auto
    with v r b y show ?thesis by linarith
  next
    case 2
    then have "128 * M \<le> int (unat y) * M" using M by (intro mult_right_mono) (auto simp del: of_nat_unat)
    moreover have "tc_value (x # ys) = int (unat y) * M + b" using v 2 by simp
    ultimately show ?thesis using r b by linarith
  next
    case 3
    then have "int (unat y) * M \<le> 127 * M" using M by (intro mult_right_mono) (auto simp del: of_nat_unat)
    moreover have "tc_value (x # ys) = - (256 * M) + int (unat y) * M + b" using v 3 by simp
    ultimately show ?thesis using r b by linarith
  next
    case 4
    then have "t * (256 * M) \<le> -2 * (256 * M)" using M by (intro mult_right_mono) auto
    with v r b y show ?thesis by linarith
  qed
qed

lemma tc_value_inj:
  assumes "length xs = length ys" "tc_value xs = tc_value ys"
  shows "xs = ys"
proof -
  have A: "int (be_val xs) mod 256 ^ length xs = tc_value xs mod 256 ^ length xs" for xs
    by (simp add: tc_value_def)
  have B: "int (be_val xs) mod 256 ^ length xs = int (be_val xs)" for xs
    using zmod_int [of "be_val xs" "256 ^ length xs"] mod_less [OF be_val_less [of xs]] by simp
  have "int (be_val xs) = int (be_val ys)"
    using A [of xs] A [of ys] B [of xs] B [of ys] assms by metis
  then have "be_val xs = be_val ys" by simp
  then show ?thesis using be_of_be_val assms(1) by metis
qed

lemma validate_integer_iff:
  assumes "readable p n"
  shows "tlv_asn1_validate_integer p n = TLV_OK \<longleftrightarrow> 0 < n \<and>
    (\<forall>ys. ys \<noteq> [] \<longrightarrow> tc_value ys = tc_value (take n (bytes p)) \<longrightarrow> ys = take n (bytes p) \<or> n < length ys)"
    (is "?a \<longleftrightarrow> ?b")
proof (cases "take n (bytes p)")
  case Nil
  then show ?thesis using assms by (cases n) (auto simp: tlv_asn1_validate_integer_def readable_def)
next
  case (Cons x xs)
  have "length (take n (bytes p)) = n" using assms by (simp add: readable_def)
  then have n: "n = Suc (length xs)" using Cons by simp
  have b: "byte_at p i = (x # xs) ! i" if "i < n" for i
    using that Cons by (metis byte_at_def nth_take)
  have "unat x = 0 \<longleftrightarrow> x = 0" "unat x = 255 \<longleftrightarrow> x = 0xFF" by (auto simp: word_unat_eq_iff)
  then have A: "?a \<longleftrightarrow> xs = [] \<or> \<not> (unat x = 0 \<and> unat (hd xs) < 128 \<or> unat x = 255 \<and> 128 \<le> unat (hd xs))"
    using n b by (cases xs) (auto simp: tlv_asn1_validate_integer_def octet_sign not_less)
  show ?thesis
  proof
    assume a: ?a
    have "ys = x # xs \<or> n < length ys" if ys: "ys \<noteq> []" "tc_value ys = tc_value (x # xs)" for ys
    proof (cases "xs = []")
      case True
      then show ?thesis using ys n tc_value_inj [of ys "x # xs"] by (cases "length ys = 1") (auto simp: neq_Nil_conv)
    next
      case False
      then have "\<not> length ys \<le> length xs" using A a tc_value_minimal [OF False _ ys(1)] ys(2) by auto
      then show ?thesis using n ys(2) tc_value_inj [of ys "x # xs"] by (cases "length ys = n") auto
    qed
    then show ?b using Cons n by simp
  next
    assume b: ?b
    show ?a
    proof (rule ccontr)
      assume "\<not> ?a"
      then have "xs \<noteq> []" "tc_value xs = tc_value (x # xs)" using A tc_value_redundant by fastforce+
      with b Cons have "xs = x # xs \<or> n < length xs" by auto
      with n show False by auto
    qed
  qed
qed

section \<open>OBJECT IDENTIFIER: minimal base-128 numbers\<close>

text \<open>The encoding of one subidentifier, the digits that a tag number gets too.\<close>

definition base128 :: "nat \<Rightarrow> u8 list" where
  "base128 n = digit_octets (rev (tag_digits n))"

lemma digits_value_snoc: "digits_value v (ds @ [d]) = digits_value v ds * 128 + unat d"
  by (simp add: digits_value_def)

lemma digits_value_pos: "ds \<noteq> [] \<Longrightarrow> hd ds \<noteq> 0 \<Longrightarrow> 0 < digits_value 0 ds"
proof (induction ds rule: rev_induct)
  case (snoc d ds)
  have "0 < unat d" if "d \<noteq> 0" using that by (simp add: unat_gt_0)
  with snoc show ?case unfolding digits_value_snoc by (cases "ds = []") auto
qed simp

lemma tag_digits_unique:
  "ds \<noteq> [] \<Longrightarrow> \<forall>d \<in> set ds. unat d < 128 \<Longrightarrow> hd ds \<noteq> 0 \<or> length ds = 1 \<Longrightarrow>
   rev (tag_digits (digits_value 0 ds)) = ds"
proof (induction ds rule: rev_induct)
  case (snoc d ds)
  have d: "unat d < 128" "of_nat (unat d) = d" using snoc.prems by auto
  show ?case
  proof (cases "ds = []")
    case True
    then show ?thesis using d by (subst tag_digits_step) (simp add: digits_value_def)
  next
    case False
    then have h: "hd ds \<noteq> 0" using snoc.prems by simp
    then have "0 < digits_value 0 ds" using digits_value_pos False by blast
    moreover have "rev (tag_digits (digits_value 0 ds)) = ds" using snoc False h by simp
    ultimately show ?thesis using d by (subst tag_digits_step) (simp add: digits_value_snoc)
  qed
qed simp

lemma oid_skip_digits:
  "ds \<noteq> [] \<Longrightarrow> \<forall>d \<in> set ds. unat d < 128 \<Longrightarrow> oid_skip (digit_octets ds @ rest) = Some rest"
proof (induction ds rule: digit_octets.induct)
  case (2 d)
  then show ?case by (simp add: octet_sign)
next
  case (3 d e ds)
  then show ?case by (simp add: marked_digit)
qed simp

lemma oid_skip_split:
  "oid_skip bs = Some rest \<Longrightarrow>
   \<exists>ds. ds \<noteq> [] \<and> (\<forall>d \<in> set ds. unat d < 128) \<and> bs = digit_octets ds @ rest \<and>
     (hd bs \<noteq> 0x80 \<longrightarrow> hd ds \<noteq> 0 \<or> length ds = 1)"
proof (induction bs)
  case (Cons b bs)
  show ?case
  proof (cases "unat b < 128")
    case True
    then show ?thesis using Cons.prems by (intro exI [of _ "[b]"]) (simp add: octet_sign)
  next
    case False
    then have "oid_skip bs = Some rest" using Cons.prems by (simp add: octet_sign split: if_splits)
    then obtain ds where ds: "ds \<noteq> []" "\<forall>d \<in> set ds. unat d < 128" "bs = digit_octets ds @ rest"
      using Cons.IH by blast
    define d where "d = b AND 0x7F"
    have "0x7F OR 0x80 = (- 1 :: u8)" by code_simp
    then have "b = b AND 0x7F OR b AND 0x80" by (metis bit.conj_disj_distrib and.right_neutral)
    then have b: "b = d OR 0x80" using False by (simp add: octet_sign d_def)
    have "unat d < 128" unfolding d_def octet_payload by simp
    moreover have "hd (b # bs) \<noteq> 0x80 \<longrightarrow> d \<noteq> 0" using b by auto
    ultimately show ?thesis using ds b by (intro exI [of _ "d # ds"]) (cases ds; simp)
  qed
qed simp

lemma base128_head: "base128 n \<noteq> [] \<and> hd (base128 n) \<noteq> 0x80"
proof -
  define ds where "ds = rev (tag_digits n)"
  have ds: "ds \<noteq> []" "\<forall>d \<in> set ds. unat d < 128" "0 < n \<Longrightarrow> hd ds \<noteq> 0"
    unfolding ds_def using tag_digits_props [of n] by (auto simp: hd_rev)
  obtain d es where e: "ds = d # es" using ds(1) by (cases ds) auto
  have "hd (digit_octets ds) \<noteq> 0x80"
  proof (cases es)
    case Nil
    then show ?thesis using e ds(2) by (auto simp: word_unat_eq_iff)
  next
    case (Cons e' es')
    then have "length (tag_digits n) \<noteq> 1" using e ds_def by (metis length_rev length_Cons nat.inject One_nat_def list.size(3) list.distinct(1) length_0_conv)
    then have "0 < n" by (cases n) (auto simp: tag_digits_step [of 0])
    then have "d AND 0x7F \<noteq> 0"
      using ds e octet_payload [of d] by (auto simp: word_unat_eq_iff)
    then have "d OR 0x80 \<noteq> 0x80" using marked_digit(1) [of d] by auto
    then show ?thesis using e Cons by simp
  qed
  then show ?thesis unfolding base128_def ds_def [symmetric] using e by (cases es) auto
qed

lemma oid_loop_iff: "oid_loop bs = TLV_OK \<longleftrightarrow> (\<exists>ns. bs = concat (map base128 ns))"
proof (induction bs rule: oid_loop.induct)
  case 1
  have "concat (map base128 []) = []" by simp
  then show ?case by (metis oid_loop.simps(1))
next
  case (2 b bs)
  show ?case
  proof
    assume a: "oid_loop (b # bs) = TLV_OK"
    then obtain rest where r: "b \<noteq> 0x80" "oid_skip (b # bs) = Some rest" "oid_loop rest = TLV_OK"
      by (auto simp del: oid_skip.simps split: if_splits option.splits)
    then obtain ns where ns: "rest = concat (map base128 ns)" using 2 [OF r(1,2)] by blast
    obtain ds where ds: "ds \<noteq> []" "\<forall>d \<in> set ds. unat d < 128" "b # bs = digit_octets ds @ rest"
      "hd ds \<noteq> 0 \<or> length ds = 1" using oid_skip_split [OF r(2)] r(1) by auto
    have "b # bs = concat (map base128 (digits_value 0 ds # ns))"
      using tag_digits_unique [OF ds(1,2,4)] ds(3) ns by (simp add: base128_def)
    then show "\<exists>ns. b # bs = concat (map base128 ns)" by blast
  next
    assume "\<exists>ns. b # bs = concat (map base128 ns)"
    then obtain n ns where ns: "b # bs = base128 n @ concat (map base128 ns)"
      by (metis neq_Nil_conv concat.simps list.simps(8,9) list.distinct(1))
    have "oid_skip (b # bs) = Some (concat (map base128 ns))"
      unfolding ns base128_def using tag_digits_props [of n] by (intro oid_skip_digits) auto
    moreover have "b \<noteq> 0x80" using base128_head [of n] ns by (metis hd_append2 list.sel(1))
    ultimately show "oid_loop (b # bs) = TLV_OK" using 2 by (auto simp del: oid_skip.simps)
  qed
qed

end
