(* ===== verification/TLV_DER_Validation.thy ===== *)
theory TLV_DER_Validation
  imports TLV_ASN1_Values TLV_Visitor
begin

text \<open>
  Bounded validation, traversal and writing of DER (\<^verbatim>\<open>builtins/asn1/der_validation.c\<close>).  The traversal is the
  code's iteration over an explicit stack of value ends: \<open>der_step\<close> is one pass through the loop body, on
  the state that the loop keeps, and \<open>der_loop\<close> repeats it.  The stack is an array of
  \<open>TLV_DER_MAX_DEPTH + 1\<close> entries; a write behind it is undefined behaviour in C and has no result here
  (\<open>None\<close>), like a loop that does not end.  Both are excluded in \<^verbatim>\<open>TLV_DER_Laws\<close>.

  A diagnostic argument is the caller's object, \<open>None\<close> for a \<^verbatim>\<open>NULL\<close> pointer; the result gives its contents
  after the call.  \<^verbatim>\<open>NULL\<close> limits are \<open>None\<close>.
\<close>

section \<open>Types and limits (der\_validation.h)\<close>

definition TLV_DER_MAX_DEPTH :: nat where
  "TLV_DER_MAX_DEPTH = 64"

record tlv_der_limits_t =
  dl_max_depth :: nat
  dl_max_input_size :: nat
  dl_max_value_size :: nat
  dl_max_elements :: nat

definition tlv_der_default_limits :: tlv_der_limits_t where
  "tlv_der_default_limits = \<lparr>dl_max_depth = 32, dl_max_input_size = 16 * 1024 * 1024,
     dl_max_value_size = 16 * 1024 * 1024, dl_max_elements = 100000\<rparr>"

definition der_limits :: "tlv_der_limits_t option \<Rightarrow> tlv_der_limits_t" where
  "der_limits limits = (case limits of None \<Rightarrow> tlv_der_default_limits | Some l \<Rightarrow> l)"

section \<open>Failures\<close>

definition asn1_fail ::
  "tlv_result_t \<Rightarrow> nat \<Rightarrow> tlv_diagnostic_t option \<Rightarrow> tlv_result_t \<times> tlv_diagnostic_t option" where
  "asn1_fail rc offset diagnostic =
     (rc, map_option (\<lambda>_. tlv_diagnostic_set_location
            (tlv_diagnostic_init rc (if rc = TLV_END then TLV_DIAGNOSTIC_SEVERITY_INFO
                                     else TLV_DIAGNOSTIC_SEVERITY_ERROR))
            TLV_LOCATION_INPUT TLV_LOCATION_POINT offset offset) diagnostic)"

definition asn1_unlocated ::
  "tlv_result_t \<Rightarrow> tlv_diagnostic_t option \<Rightarrow> tlv_result_t \<times> tlv_diagnostic_t option" where
  "asn1_unlocated rc diagnostic =
     (rc, map_option (\<lambda>_. tlv_diagnostic_init rc TLV_DIAGNOSTIC_SEVERITY_ERROR) diagnostic)"

section \<open>The header of one element\<close>

text \<open>\<open>element\<close> is the caller's object before the call; the tag is stored before the length is looked at.\<close>

definition tlv_der_read_element ::
  "ptr \<Rightarrow> nat \<Rightarrow> nat \<Rightarrow> tlv_der_limits_t \<Rightarrow> tlv_element_t \<Rightarrow> tlv_diagnostic_t option
     \<Rightarrow> tlv_result_t \<times> tlv_element_t \<times> nat option \<times> tlv_diagnostic_t option" where
  "tlv_der_read_element data sz base limits element diagnostic =
     (case the (fc_read_tag tlv_der_fields) data sz of
        (rc, tag, otsz) \<Rightarrow>
          if rc \<noteq> TLV_OK then (case asn1_fail rc base diagnostic of (rc, d) \<Rightarrow> (rc, element, None, d))
          else let element = element\<lparr>elem_tag := the tag\<rparr>; tsz = the otsz in
            case the (fc_read_length tlv_der_fields) (ptr_add data tsz) (sz - tsz) of
              (rc, olen, olsz) \<Rightarrow>
                if rc \<noteq> TLV_OK
                then (case asn1_fail rc (base + tsz) diagnostic of (rc, d) \<Rightarrow> (rc, element, None, d))
                else let len = the olen; lsz = the olsz in
                  if len > dl_max_value_size limits
                  then (case asn1_fail TLV_ERR_LIMIT (base + tsz) diagnostic of (rc, d) \<Rightarrow> (rc, element, None, d))
                  else if len > sz - tsz - lsz
                  then (case asn1_fail TLV_ERR_TRUNCATED (base + tsz + lsz) diagnostic of
                          (rc, d) \<Rightarrow> (rc, element, None, d))
                  else (TLV_OK,
                        element\<lparr>elem_value := \<lparr>val_data = ptr_add data (tsz + lsz), val_size = len\<rparr>\<rparr>,
                        Some (tsz + lsz + len), diagnostic))"

section \<open>Traversal\<close>

text \<open>In strict mode the contents of a primitive element of a universal type are checked.\<close>

definition der_value_check :: "bool \<Rightarrow> tlv_tag_t \<Rightarrow> ptr \<Rightarrow> nat \<Rightarrow> tlv_result_t" where
  "der_value_check strict tag value len =
     (if strict \<and> tlv_asn1_tag_class tag = TLV_ASN1_UNIVERSAL \<and> \<not> tlv_asn1_tag_is_constructed tag
      then (case tlv_der_tag_number (Some tag) True of
              (rc, number) \<Rightarrow>
                if rc = TLV_OK then tlv_asn1_validate_universal_value (the number) value len else rc)
      else TLV_OK)"

text \<open>The arguments of \<^verbatim>\<open>traverse\<close> that do not change, and the variables of its loop.\<close>

record 'c der_args =
  da_data :: ptr
  da_base :: nat
  da_depth :: nat
  da_limits :: tlv_der_limits_t
  da_visitor :: "'c tlv_tree_visitor_t option"
  da_one :: bool
  da_strict :: bool

record 'c der_state =
  ds_level :: nat
  ds_pos :: nat
  ds_count :: nat
  ds_ends :: "nat list"
  ds_first :: "(tlv_element_t \<times> nat) option"
  ds_context :: 'c
  ds_diag :: "tlv_diagnostic_t option"

type_synonym 'c der_result = "tlv_result_t \<times> (tlv_element_t \<times> nat) option \<times> 'c \<times> tlv_diagnostic_t option"

definition der_return :: "'c der_state \<Rightarrow> tlv_result_t \<Rightarrow> 'c der_result" where
  "der_return st rc = (rc, ds_first st, ds_context st, ds_diag st)"

definition der_fail :: "'c der_state \<Rightarrow> tlv_result_t \<Rightarrow> nat \<Rightarrow> 'c der_result" where
  "der_fail st rc offset = der_return (st\<lparr>ds_diag := snd (asn1_fail rc offset (ds_diag st))\<rparr>) rc"

text \<open>The call of the visitor: its context afterwards and the early exit it asks for, if any.\<close>

definition der_visit_element ::
  "'c der_args \<Rightarrow> tlv_element_t \<Rightarrow> nat \<Rightarrow> nat \<Rightarrow> 'c \<Rightarrow> 'c \<times> tlv_result_t option" where
  "der_visit_element a element depth offset context =
     (case da_visitor a of None \<Rightarrow> (context, None)
      | Some visitor \<Rightarrow>
          (case visitor element depth offset context of
             (visit, context) \<Rightarrow>
               (context, case visit of TLV_VISIT_CONTINUE \<Rightarrow> None | TLV_VISIT_STOP \<Rightarrow> Some TLV_OK
                         | TLV_VISIT_ERROR \<Rightarrow> Some TLV_ERR_VISITOR | TLV_VISIT_OTHER _ \<Rightarrow> Some TLV_ERR_CALLBACK)))"

text \<open>What the loop body does after the visitor: descend into a constructed value, or step over.\<close>

definition der_descend ::
  "'c der_args \<Rightarrow> 'c der_state \<Rightarrow> tlv_element_t \<Rightarrow> nat \<Rightarrow> nat \<Rightarrow> 'c der_result option + 'c der_state" where
  "der_descend a st element end' len =
     (if tlv_asn1_tag_is_constructed (elem_tag element) \<and> val_size (elem_value element) \<noteq> 0
      then let pos = end' - len; st = st\<lparr>ds_pos := pos\<rparr> in
        if da_depth a + ds_level st = dl_max_depth (da_limits a)
        then Inl (Some (der_fail st TLV_ERR_LIMIT (da_base a + pos)))
        else let level = ds_level st + 1 in
          if level \<ge> List.length (ds_ends st) then Inl None
          else Inr (st\<lparr>ds_level := level, ds_ends := (ds_ends st)[level := end']\<rparr>)
      else Inr (st\<lparr>ds_pos := end'\<rparr>))"

definition der_step :: "'c der_args \<Rightarrow> 'c der_state \<Rightarrow> 'c der_result option + 'c der_state" where
  "der_step a st =
     (let level = ds_level st; pos = ds_pos st; end0 = ds_ends st ! level in
      if \<not> (pos < end0 \<or> level \<noteq> 0) then Inl (Some (der_return st TLV_OK))
      else if pos = end0 then Inr (st\<lparr>ds_level := level - 1\<rparr>)
      else if da_depth a + level > dl_max_depth (da_limits a) \<or> ds_count st = dl_max_elements (da_limits a)
      then Inl (Some (der_fail st TLV_ERR_LIMIT (da_base a + pos)))
      else case tlv_der_read_element (ptr_add (da_data a) pos) (end0 - pos) (da_base a + pos) (da_limits a)
                  element0 (ds_diag st) of
        (rc, element, used, d) \<Rightarrow>
          let st = st\<lparr>ds_diag := d\<rparr> in
          if rc \<noteq> TLV_OK then Inl (Some (der_return st rc))
          else let st = st\<lparr>ds_count := ds_count st + 1\<rparr>; end' = pos + the used in
            case tlv_size_to_native (val_size (elem_value element)) True of
              (rc, len) \<Rightarrow>
                if rc \<noteq> TLV_OK then Inl (Some (der_fail st rc (da_base a + pos)))
                else let rc = der_value_check (da_strict a) (elem_tag element) (val_data (elem_value element)) (the len) in
                  if rc \<noteq> TLV_OK then Inl (Some (der_fail st rc (da_base a + end' - the len)))
                  else let st = (if da_one a \<and> pos = 0
                                 then st\<lparr>ds_first := Some (element, the used), ds_ends := (ds_ends st)[0 := end']\<rparr>
                                 else st) in
                    case der_visit_element a element (da_depth a + level) (da_base a + pos) (ds_context st) of
                      (context, exit) \<Rightarrow>
                        let st = st\<lparr>ds_context := context\<rparr> in
                        (case exit of
                           Some rc \<Rightarrow> Inl (Some (if rc = TLV_OK then der_return st TLV_OK
                                                else der_fail st rc (da_base a + pos)))
                         | None \<Rightarrow> der_descend a st element end' (the len)))"

partial_function (option) der_loop :: "'c der_args \<Rightarrow> 'c der_state \<Rightarrow> 'c der_result option" where
  [code]: "der_loop a st = (case der_step a st of Inl r \<Rightarrow> r | Inr st' \<Rightarrow> der_loop a st')"

definition der_traverse ::
  "'c der_args \<Rightarrow> nat \<Rightarrow> nat \<Rightarrow> 'c \<Rightarrow> tlv_diagnostic_t option \<Rightarrow> 'c der_result option" where
  "der_traverse a sz initial_count context diagnostic =
     der_loop a \<lparr>ds_level = 0, ds_pos = 0, ds_count = initial_count,
       ds_ends = (replicate (TLV_DER_MAX_DEPTH + 1) 0)[0 := sz], ds_first = None, ds_context = context,
       ds_diag = diagnostic\<rparr>"

section \<open>The interface\<close>

text \<open>The result, the visitor's context and the diagnostic.\<close>

definition der_visit_impl ::
  "ptr \<Rightarrow> nat \<Rightarrow> tlv_der_limits_t option \<Rightarrow> 'c tlv_tree_visitor_t option \<Rightarrow> 'c \<Rightarrow> bool \<Rightarrow> tlv_diagnostic_t option
     \<Rightarrow> (tlv_result_t \<times> 'c \<times> tlv_diagnostic_t option) option" where
  "der_visit_impl data sz limits visitor context strict diagnostic =
     (let limits = der_limits limits; no = (\<lambda>rc. case asn1_unlocated rc diagnostic of (rc, d) \<Rightarrow> Some (rc, context, d)) in
      if data = Null \<and> sz \<noteq> 0 then no TLV_ERR_NULL_ARG
      else if dl_max_depth limits > TLV_DER_MAX_DEPTH then no TLV_ERR_UNSUPPORTED
      else if sz > dl_max_input_size limits then no TLV_ERR_LIMIT
      else map_option (\<lambda>(rc, first, context, d). (rc, context, d))
        (der_traverse \<lparr>da_data = data, da_base = 0, da_depth = 0, da_limits = limits, da_visitor = visitor,
           da_one = False, da_strict = strict\<rparr> sz 0 context diagnostic))"

definition tlv_der_visit ::
  "ptr \<Rightarrow> nat \<Rightarrow> tlv_der_limits_t option \<Rightarrow> 'c tlv_tree_visitor_t option \<Rightarrow> 'c \<Rightarrow> tlv_diagnostic_t option
     \<Rightarrow> (tlv_result_t \<times> 'c \<times> tlv_diagnostic_t option) option" where
  "tlv_der_visit data sz limits visitor context diagnostic =
     der_visit_impl data sz limits visitor context False diagnostic"

definition tlv_der_visit_strict ::
  "ptr \<Rightarrow> nat \<Rightarrow> tlv_der_limits_t option \<Rightarrow> 'c tlv_tree_visitor_t option \<Rightarrow> 'c \<Rightarrow> tlv_diagnostic_t option
     \<Rightarrow> (tlv_result_t \<times> 'c \<times> tlv_diagnostic_t option) option" where
  "tlv_der_visit_strict data sz limits visitor context diagnostic =
     der_visit_impl data sz limits visitor context True diagnostic"

text \<open>The result, the element and its size, and the diagnostic.\<close>

definition der_read_impl ::
  "ptr \<Rightarrow> nat \<Rightarrow> tlv_der_limits_t option \<Rightarrow> bool \<Rightarrow> bool \<Rightarrow> tlv_diagnostic_t option
     \<Rightarrow> (tlv_result_t \<times> (tlv_element_t \<times> nat) option \<times> tlv_diagnostic_t option) option" where
  "der_read_impl data sz limits outs strict diagnostic =
     (let limits = der_limits limits; no = (\<lambda>rc. case asn1_unlocated rc diagnostic of (rc, d) \<Rightarrow> Some (rc, None, d)) in
      if (data = Null \<and> sz \<noteq> 0) \<or> \<not> outs then no TLV_ERR_NULL_ARG
      else if dl_max_depth limits > TLV_DER_MAX_DEPTH then no TLV_ERR_UNSUPPORTED
      else if sz > dl_max_input_size limits then no TLV_ERR_LIMIT
      else if sz = 0 then (case asn1_fail TLV_END 0 diagnostic of (rc, d) \<Rightarrow> Some (rc, None, d))
      else map_option (\<lambda>(rc, first, context :: unit, d). (rc, if rc = TLV_OK then first else None, d))
        (der_traverse \<lparr>da_data = data, da_base = 0, da_depth = 0, da_limits = limits, da_visitor = None,
           da_one = True, da_strict = strict\<rparr> sz 0 () diagnostic))"

definition tlv_der_read ::
  "ptr \<Rightarrow> nat \<Rightarrow> tlv_der_limits_t option \<Rightarrow> bool \<Rightarrow> tlv_diagnostic_t option
     \<Rightarrow> (tlv_result_t \<times> (tlv_element_t \<times> nat) option \<times> tlv_diagnostic_t option) option" where
  "tlv_der_read data sz limits outs diagnostic = der_read_impl data sz limits outs False diagnostic"

definition tlv_der_read_strict ::
  "ptr \<Rightarrow> nat \<Rightarrow> tlv_der_limits_t option \<Rightarrow> bool \<Rightarrow> tlv_diagnostic_t option
     \<Rightarrow> (tlv_result_t \<times> (tlv_element_t \<times> nat) option \<times> tlv_diagnostic_t option) option" where
  "tlv_der_read_strict data sz limits outs diagnostic = der_read_impl data sz limits outs True diagnostic"

text \<open>The result, the buffer, the count written and the diagnostic.\<close>

definition der_write_impl ::
  "obuf \<Rightarrow> nat \<Rightarrow> tlv_tag_t \<Rightarrow> ptr \<Rightarrow> nat \<Rightarrow> tlv_der_limits_t option \<Rightarrow> bool \<Rightarrow> bool \<Rightarrow> tlv_diagnostic_t option
     \<Rightarrow> (tlv_result_t \<times> obuf \<times> nat option \<times> tlv_diagnostic_t option) option" where
  "der_write_impl data capacity tag val len limits strict written_ok diagnostic =
     (let limits = der_limits limits;
          no = (\<lambda>rc. case asn1_unlocated rc diagnostic of (rc, d) \<Rightarrow> Some (rc, data, None, d));
          at = (\<lambda>rc offset. case asn1_fail rc offset diagnostic of (rc, d) \<Rightarrow> Some (rc, data, None, d)) in
      if (data = None \<and> capacity \<noteq> 0) \<or> (val = Null \<and> len \<noteq> 0) \<or> \<not> written_ok then no TLV_ERR_NULL_ARG
      else case tlv_encoded_size tag len (Some tlv_format_der) True of
        (rc, ototal) \<Rightarrow>
          if rc \<noteq> TLV_OK then at rc (if rc = TLV_ERR_INVALID_LENGTH then tag_size tag else 0)
          else let total = the ototal in
            if dl_max_depth limits > TLV_DER_MAX_DEPTH then no TLV_ERR_UNSUPPORTED
            else if total > dl_max_input_size limits \<or> dl_max_elements limits = 0 then no TLV_ERR_LIMIT
            else if len > dl_max_value_size limits then at TLV_ERR_LIMIT (tag_size tag)
            else let rc = der_value_check strict tag val len in
              if rc \<noteq> TLV_OK then at rc (total - len)
              else Option.bind
                (if tlv_asn1_tag_is_constructed tag
                 then map_option (\<lambda>(rc, first, context :: unit, d). (rc, d))
                   (der_traverse \<lparr>da_data = val, da_base = total - len, da_depth = 1, da_limits = limits,
                      da_visitor = None, da_one = False, da_strict = strict\<rparr> len 1 () diagnostic)
                 else Some (TLV_OK, diagnostic))
                (\<lambda>(rc, d).
                   if rc \<noteq> TLV_OK then Some (rc, data, None, d)
                   else if data = None then Some (TLV_OK, data, Some total, d)
                   else case tlv_write data capacity (Some tlv_format_der) tag val len True of
                     (rc, data', written) \<Rightarrow>
                       if rc \<noteq> TLV_OK
                       then (case asn1_unlocated rc d of (rc, d) \<Rightarrow> Some (rc, data', written, d))
                       else Some (TLV_OK, data', written, d)))"

definition asn1_output_domain :: "tlv_result_t \<Rightarrow> tlv_diagnostic_t option \<Rightarrow> tlv_diagnostic_t option" where
  "asn1_output_domain rc diagnostic =
     map_option (\<lambda>d. if rc \<noteq> TLV_OK \<and> loc_kind (diag_location d) \<noteq> TLV_LOCATION_UNKNOWN
                      then d\<lparr>diag_location := (diag_location d)\<lparr>loc_domain := TLV_LOCATION_OUTPUT\<rparr>\<rparr> else d) diagnostic"

definition tlv_der_write ::
  "obuf \<Rightarrow> nat \<Rightarrow> tlv_tag_t \<Rightarrow> ptr \<Rightarrow> nat \<Rightarrow> tlv_der_limits_t option \<Rightarrow> bool \<Rightarrow> tlv_diagnostic_t option
     \<Rightarrow> (tlv_result_t \<times> obuf \<times> nat option \<times> tlv_diagnostic_t option) option" where
  "tlv_der_write data capacity tag val len limits written_ok diagnostic =
     map_option (\<lambda>(rc, data, written, d). (rc, data, written, asn1_output_domain rc d))
       (der_write_impl data capacity tag val len limits False written_ok diagnostic)"

definition tlv_der_write_strict ::
  "obuf \<Rightarrow> nat \<Rightarrow> tlv_tag_t \<Rightarrow> ptr \<Rightarrow> nat \<Rightarrow> tlv_der_limits_t option \<Rightarrow> bool \<Rightarrow> tlv_diagnostic_t option
     \<Rightarrow> (tlv_result_t \<times> obuf \<times> nat option \<times> tlv_diagnostic_t option) option" where
  "tlv_der_write_strict data capacity tag val len limits written_ok diagnostic =
     map_option (\<lambda>(rc, data, written, d). (rc, data, written, asn1_output_domain rc d))
       (der_write_impl data capacity tag val len limits True written_ok diagnostic)"

end
