(* ===== verification/TLV_DER_Laws.thy ===== *)
theory TLV_DER_Laws
  imports TLV_DER_Validation
begin

text \<open>
  The traversal of DER against its specification: a forest of trees and its one encoding.  The minimal
  form of a length is unique, so the encoding of a tree is a function of the tree.
\<close>

unbundle bit_operations_syntax

section \<open>The minimal form of a length is unique\<close>

lemma pack_unpack: "pack (unpack b m) m = b AND m"
proof (rule bit_word_eqI)
  fix n assume n: "n < LENGTH(8)"
  have "bit m n \<longleftrightarrow> (\<exists>j < length (mask_bits m). mask_bits m ! j = n)"
    using n by (auto simp: in_set_conv_nth [symmetric] mask_bits_def)
  then show "bit (pack (unpack b m) m) n \<longleftrightarrow> bit (b AND m) n"
    by (auto simp: bit_pack bit_unpack bit_and_iff)
qed

lemma octet_count_unique:
  assumes "n < 256 ^ k" "1 < k \<Longrightarrow> 256 ^ (k - 1) \<le> n" "0 < k"
  shows "octet_count n = k"
proof (rule antisym)
  show "octet_count n \<le> k" using octet_count_le assms by blast
  show "k \<le> octet_count n"
  proof (rule ccontr)
    assume "\<not> k \<le> octet_count n"
    then have lt: "octet_count n \<le> k - 1" "1 < k" using octet_count_pos [of n] by auto
    have "n < 256 ^ octet_count n" by (rule less_pow_octet_count)
    also have "\<dots> \<le> 256 ^ (k - 1)" using lt by (intro power_increasing) auto
    finally show False using assms(2) lt by simp
  qed
qed

lemma be_val_ge: "xs \<noteq> [] \<Longrightarrow> hd xs \<noteq> 0 \<Longrightarrow> 256 ^ (length xs - 1) \<le> be_val xs"
proof (cases xs)
  case (Cons x ys)
  assume "hd xs \<noteq> 0"
  then have "1 \<le> unat x" using Cons by (simp add: Suc_le_eq unat_gt_0)
  then have "1 * 256 ^ length ys \<le> unat x * 256 ^ length ys" by (rule mult_le_mono1)
  then have "256 ^ length ys \<le> unat x * 256 ^ length ys + be_val ys" unfolding mult_1 by (rule trans_le_add1)
  then show ?thesis using Cons by (simp only: be_val_Cons list.size) simp
qed simp

lemma minimal_length_canonical:
  assumes r: "readable p n" and rd: "tlv_asn1_read_minimal_length p n = (TLV_OK, Some l, Some k)"
  shows "take k (bytes p) = variable_len_enc ber_length l"
proof -
  let ?b = "byte_at p 0" and ?m = "0x7F :: u8"
  have c: "vl_payload_mask asn1_minimal_length = ?m" "vl_long_form_bit asn1_minimal_length = 0x80"
    "vl_byte_order asn1_minimal_length = TLV_BYTE_ORDER_BIG_ENDIAN"
    "\<exists>q. vl_policy asn1_minimal_length = Some q \<and> lp_require_minimal q \<noteq> 0 \<and> lp_allow_short q \<noteq> 0 \<and>
       lp_allow_long q \<noteq> 0"
    by (auto simp: asn1_minimal_length_def ber_length_def ber_length_policy_def)
  have n: "0 < n" "p \<noteq> Null" using rd r
    by (auto simp: tlv_asn1_read_minimal_length_def tlv_variable_length_read_def Let_def split: if_splits)
  have hd: "take 1 (bytes p) = [?b]" using r n by (cases "bytes p") (auto simp: readable_def byte_at_def)
  have enc: "variable_len_enc ber_length l = (if l > unpack ?m ?m
      then (0x80 OR pack (octet_count l) ?m) # be_of (octet_count l) l else [pack l ?m])"
    by (simp add: variable_len_enc_def variable_len_long_def ber_length_def ber_length_policy_def uint_of_def)
  have len: "0x7F OR 0x80 = (- 1 :: u8)" by code_simp
  then have split: "?b = ?b AND 0x7F OR ?b AND 0x80" by (metis bit.conj_disj_distrib and.right_neutral)
  show ?thesis
  proof (cases "?b AND 0x80 = 0")
    case True
    then have "l = unpack ?b ?m" "k = 1" using rd n c
      by (auto simp: tlv_asn1_read_minimal_length_def tlv_variable_length_read_def Let_def split: if_splits option.splits)
    moreover have "?b = pack (unpack ?b ?m) ?m" using split True by (simp add: pack_unpack)
    ultimately show ?thesis unfolding enc using hd unpack_le_max [of ?b ?m] by auto
  next
    case False
    let ?k = "unpack ?b ?m" and ?xs = "take (unpack ?b ?m) (drop 1 (bytes p))"
    have k: "k = Suc ?k" "?k < n" "?k \<noteq> 0" using rd n c False
      by (auto simp: tlv_asn1_read_minimal_length_def tlv_variable_length_read_def Let_def split: if_splits option.splits)
    have rk: "readable p (?k + 1)" using k r readable_mono by (metis Suc_eq_plus1 Suc_leI)
    note M = map_long_octets [OF rk, of TLV_BYTE_ORDER_BIG_ENDIAN, simplified]
    have lx: "length ?xs = ?k" using rk by (simp add: readable_def)
    have l: "l = be_val ?xs" "l > unpack ?m ?m" "?k > 1 \<Longrightarrow> byte_at p 1 \<noteq> 0" using rd n c False k M
      by (auto simp: tlv_asn1_read_minimal_length_def tlv_variable_length_read_def Let_def length_fold_0
          split: if_splits option.splits)
    have "hd ?xs = byte_at p 1" using lx k by (simp add: hd_conv_nth byte_at_def)
    then have "1 < ?k \<Longrightarrow> 256 ^ (?k - 1) \<le> l" using be_val_ge [of ?xs] l lx k by auto
    moreover have "l < 256 ^ ?k" using be_val_less [of ?xs] l lx by simp
    ultimately have oc: "octet_count l = ?k" using k by (intro octet_count_unique) auto
    have "?b AND 0x80 = 0x80" using False octet_sign [of ?b] by (auto split: if_splits)
    then have "?b = 0x80 OR pack ?k ?m" using split pack_unpack [of ?b ?m] by (simp add: or.commute)
    moreover have "be_of ?k l = ?xs" using lx l(1) be_of_be_val by blast
    moreover have "take k (bytes p) = ?b # ?xs" using hd k
      by (metis One_nat_def append_Cons append_Nil plus_1_eq_Suc take_add)
    ultimately show ?thesis unfolding enc using l(2) oc by simp
  qed
qed

section \<open>Validators depend on the contents only\<close>

definition same_octets :: "ptr \<Rightarrow> ptr \<Rightarrow> nat \<Rightarrow> bool" where
  "same_octets p q n \<longleftrightarrow> readable p n \<and> readable q n \<and> take n (bytes p) = take n (bytes q)"

lemma same_octets_byte: "same_octets p q n \<Longrightarrow> i < n \<Longrightarrow> byte_at p i = byte_at q i"
  unfolding byte_at_def same_octets_def by (blast intro: nth_eq_if_take_eq)

lemma same_octets_take: "same_octets p q n \<Longrightarrow> k \<le> n \<Longrightarrow> take k (bytes p) = take k (bytes q)"
  unfolding same_octets_def by (metis min.absorb1 take_take)

lemma same_octets_add:
  assumes "same_octets p q n" "k + m \<le> n"
  shows "same_octets (ptr_add p k) (ptr_add q k) m"
proof -
  have "take m (drop k (bytes p)) = take m (drop k (bytes q))"
    using same_octets_take [OF assms] by (metis add.commute drop_take diff_add_inverse)
  then show ?thesis using assms by (auto simp: same_octets_def readable_def)
qed

lemma digit_pair_cong: "same_octets p q n \<Longrightarrow> k + 2 \<le> n \<Longrightarrow> digit_pair (ptr_add p k) = digit_pair (ptr_add q k)"
  using same_octets_byte [OF same_octets_add, of p q n k 2] by (simp add: digit_pair_def)

lemma validate_integer_cong:
  "same_octets p q n \<Longrightarrow> tlv_asn1_validate_integer p n = tlv_asn1_validate_integer q n"
  using same_octets_byte [of p q n 0] same_octets_byte [of p q n 1]
  by (cases "1 < n") (auto simp: tlv_asn1_validate_integer_def)

lemma validate_date_cong: "same_octets p q n \<Longrightarrow> tlv_asn1_validate_date p n = tlv_asn1_validate_date q n"
  by (auto simp: tlv_asn1_validate_date_def digits_at_def same_octets_take digit_pair_cong Let_def)

lemma validate_time_of_day_cong: "same_octets p q n \<Longrightarrow> tlv_asn1_validate_time_of_day p n = tlv_asn1_validate_time_of_day q n"
  using digit_pair_cong [of p q n 0]
  by (auto simp: tlv_asn1_validate_time_of_day_def digits_at_def same_octets_take digit_pair_cong Let_def)

lemma time_fields_cong:
  assumes "same_octets p q n" "k + 10 \<le> n"
  shows "time_fields_invalid (ptr_add p k) = time_fields_invalid (ptr_add q k)"
proof -
  note D = digit_pair_cong [OF same_octets_add [OF assms]]
  have "digit_pair (ptr_add p k) = digit_pair (ptr_add q k)" using D [of 0] by simp
  then show ?thesis
    unfolding time_fields_invalid_def using D [of 2] D [of 4] D [of 6] D [of 8] by simp
qed

lemma fraction_end_cong:
  assumes "same_octets p q n"
  shows "fraction_end p n = fraction_end q n"
proof -
  let ?i = "15 + length (takeWhile is_digit (drop 15 (take n (bytes q))))"
  have "length (takeWhile is_digit (drop 15 (take n (bytes q)))) \<le> n - 15"
    using length_takeWhile_le [of is_digit "drop 15 (take n (bytes q))"] by simp
  then have "14 < n \<Longrightarrow> byte_at p (?i - 1) = byte_at q (?i - 1)" by (intro same_octets_byte [OF assms]) linarith
  then show ?thesis
    using same_octets_byte [OF assms, of 14] same_octets_take [OF assms order_refl]
    by (auto simp: fraction_end_def Let_def)
qed

lemma fraction_end_bound: "fraction_end p n = Some i \<Longrightarrow> 14 < n \<Longrightarrow> i \<le> n"
  using length_takeWhile_le [of is_digit "drop 15 (take n (bytes p))"]
  by (auto simp: fraction_end_def Let_def split: if_splits)

lemma validate_generalized_time_cong:
  assumes "same_octets p q n"
  shows "tlv_asn1_validate_generalized_time p n = tlv_asn1_validate_generalized_time q n"
proof (cases "n < 15")
  case False
  have "byte_at p (n - 1) = byte_at q (n - 1)" using False by (intro same_octets_byte [OF assms]) simp
  then show ?thesis
    using time_fields_cong [OF assms, of 4] same_octets_take [OF assms, of 14] fraction_end_cong [OF assms] False
    by (auto simp: tlv_asn1_validate_generalized_time_def digits_at_def split: option.splits)
qed (simp add: tlv_asn1_validate_generalized_time_def)

lemma validate_real_cong:
  assumes "same_octets p q n"
  shows "tlv_asn1_validate_real p n = tlv_asn1_validate_real q n"
proof (cases "n = 0")
  case False
  note B = same_octets_byte [OF assms]
  have b: "byte_at p 0 = byte_at q 0" "byte_at p (n - 1) = byte_at q (n - 1)" using B False by auto
  have m: "byte_at p (1 + k) = byte_at q (1 + k)" "tlv_asn1_validate_integer (ptr_add p 1) k = tlv_asn1_validate_integer (ptr_add q 1) k"
    if "\<not> n < 1 + k + 1" for k
    using that by (auto intro!: B validate_integer_cong same_octets_add [OF assms])
  show ?thesis
    unfolding tlv_asn1_validate_real_def Let_def b
    using m by (intro if_cong refl option.case_cong) (auto simp: b)
qed (simp add: tlv_asn1_validate_real_def)

lemma validate_utf8_cong: "same_octets p q n \<Longrightarrow> tlv_asn1_validate_utf8 p n = tlv_asn1_validate_utf8 q n"
  by (simp add: tlv_asn1_validate_utf8_def tlv_utf8_validate_def tlv_utf8_stream_update_def same_octets_def)

lemma validate_iri_cong:
  assumes "same_octets p q n"
  shows "validate_iri_arcs p n b = validate_iri_arcs q n b"
  using same_octets_byte [OF assms, of 0] same_octets_byte [OF assms, of "n - 1"] same_octets_take [OF assms order_refl]
    validate_utf8_cong [OF assms]
  by (cases "n = 0") (simp_all add: validate_iri_arcs_def)

lemma validate_bit_string_cong:
  assumes "same_octets p q n"
  shows "tlv_asn1_validate_bit_string p n = tlv_asn1_validate_bit_string q n"
  using same_octets_byte [OF assms, of 0] same_octets_byte [OF assms, of "n - 1"]
  by (cases "n = 0") (auto simp: tlv_asn1_validate_bit_string_def Let_def)

lemma validate_date_time_cong:
  assumes "same_octets p q n"
  shows "tlv_asn1_validate_date_time p n = tlv_asn1_validate_date_time q n"
  using validate_date_cong [OF same_octets_add [OF assms, of 0 8]]
    validate_time_of_day_cong [OF same_octets_add [OF assms, of 8 6]]
  by (simp add: tlv_asn1_validate_date_time_def)

lemma validate_utc_time_cong:
  assumes "same_octets p q n"
  shows "tlv_asn1_validate_utc_time p n = tlv_asn1_validate_utc_time q n"
  using same_octets_byte [OF assms, of 12] time_fields_cong [OF assms, of 2] same_octets_take [OF assms, of 12]
  by (simp add: tlv_asn1_validate_utc_time_def digits_at_def)

lemma all_octets_cong: "same_octets p q n \<Longrightarrow> all_octets ok p n = all_octets ok q n"
  by (simp add: all_octets_def same_octets_def)

lemma universal_value_cong:
  assumes "same_octets p q n"
  shows "tlv_asn1_validate_universal_value k p n = tlv_asn1_validate_universal_value k q n"
proof -
  have "tlv_asn1_validate_boolean p n = tlv_asn1_validate_boolean q n"
    using same_octets_byte [OF assms, of 0] by (simp add: tlv_asn1_validate_boolean_def)
  moreover have "tlv_asn1_validate_oid p n = tlv_asn1_validate_oid q n"
    "tlv_asn1_validate_universal_string p n = tlv_asn1_validate_universal_string q n"
    "tlv_asn1_validate_bmp_string p n = tlv_asn1_validate_bmp_string q n"
    "tlv_asn1_validate_duration p n = tlv_asn1_validate_duration q n"
    using same_octets_take [OF assms order_refl]
    by (simp_all add: tlv_asn1_validate_oid_def tlv_asn1_validate_universal_string_def
        tlv_asn1_validate_bmp_string_def tlv_asn1_validate_duration_def)
  ultimately show ?thesis
    unfolding tlv_asn1_validate_universal_value_def tlv_asn1_validate_null_def tlv_asn1_validate_octet_string_def
      tlv_asn1_validate_time_def tlv_asn1_validate_numeric_string_def tlv_asn1_validate_printable_string_def
      tlv_asn1_validate_ia5_string_def tlv_asn1_validate_visible_string_def tlv_asn1_validate_oid_iri_def
      tlv_asn1_validate_relative_oid_iri_def
    by (simp only: validate_integer_cong [OF assms] validate_bit_string_cong [OF assms] validate_real_cong [OF assms]
        validate_utf8_cong [OF assms] all_octets_cong [OF assms] validate_utc_time_cong [OF assms]
        validate_generalized_time_cong [OF assms] validate_date_cong [OF assms] validate_time_of_day_cong [OF assms]
        validate_date_time_cong [OF assms] validate_iri_cong [OF assms])
qed

section \<open>DER trees and their encoding\<close>

datatype der_tree = DER_Primitive "u8 list" "u8 list" | DER_Constructed "u8 list" "der_tree list"

abbreviation der_len :: "nat \<Rightarrow> u8 list" where
  "der_len \<equiv> variable_len_enc ber_length"

fun der_tag_of :: "der_tree \<Rightarrow> u8 list" where
  "der_tag_of (DER_Primitive t v) = t"
| "der_tag_of (DER_Constructed t ts) = t"

fun der_encode :: "der_tree \<Rightarrow> u8 list" where
  "der_encode (DER_Primitive t v) = t @ der_len (length v) @ v"
| "der_encode (DER_Constructed t ts) =
     (let c = concat (map der_encode ts) in t @ der_len (length c) @ c)"

abbreviation der_forest :: "der_tree list \<Rightarrow> u8 list" where
  "der_forest ts \<equiv> concat (map der_encode ts)"

fun der_content :: "der_tree \<Rightarrow> u8 list" where
  "der_content (DER_Primitive t v) = v"
| "der_content (DER_Constructed t ts) = der_forest ts"

fun der_children :: "der_tree \<Rightarrow> der_tree list" where
  "der_children (DER_Primitive t v) = []"
| "der_children (DER_Constructed t ts) = ts"

definition der_tag_octets :: "u8 list \<Rightarrow> bool" where
  "der_tag_octets t \<longleftrightarrow>
     der_read_tag (Ptr 0 t) (length t) = (TLV_OK, Some (tlv_tag (Ptr 0 t) (length t)), Some (length t))"

text \<open>
  A well-formed tree: identifiers that DER admits, the form that each identifier announces, contents
  no longer than \<open>m\<close> and, in strict mode, canonical contents of the universal types.
\<close>

fun der_tree_ok :: "bool \<Rightarrow> nat \<Rightarrow> der_tree \<Rightarrow> bool" where
  "der_tree_ok strict m (DER_Primitive t v) \<longleftrightarrow>
     der_tag_octets t \<and> \<not> lead_constructed t \<and> length v \<le> m \<and>
     der_value_check strict (tlv_tag (Ptr 0 t) (length t)) (Ptr 0 v) (length v) = TLV_OK"
| "der_tree_ok strict m (DER_Constructed t ts) \<longleftrightarrow>
     der_tag_octets t \<and> lead_constructed t \<and> length (der_forest ts) \<le> m \<and> (\<forall>x \<in> set ts. der_tree_ok strict m x)"

text \<open>At most \<open>k\<close> levels of children, and the number of elements.\<close>

fun der_fits :: "nat \<Rightarrow> der_tree \<Rightarrow> bool" where
  "der_fits k (DER_Primitive t v) \<longleftrightarrow> True"
| "der_fits k (DER_Constructed t ts) \<longleftrightarrow> ts = [] \<or> (0 < k \<and> (\<forall>x \<in> set ts. der_fits (k - 1) x))"

fun der_elements :: "der_tree \<Rightarrow> nat" where
  "der_elements (DER_Primitive t v) = 1"
| "der_elements (DER_Constructed t ts) = 1 + sum_list (map der_elements ts)"

lemma der_encode_eq: "der_encode x = der_tag_of x @ der_len (length (der_content x)) @ der_content x"
  by (cases x) (simp_all add: Let_def)

lemma der_elements_eq: "der_elements x = 1 + sum_list (map der_elements (der_children x))"
  by (cases x) simp_all

lemma der_tree_ok_iff:
  "der_tree_ok strict m x \<longleftrightarrow> der_tag_octets (der_tag_of x) \<and> length (der_content x) \<le> m \<and>
     (if lead_constructed (der_tag_of x)
      then x = DER_Constructed (der_tag_of x) (der_children x) \<and> (\<forall>y \<in> set (der_children x). der_tree_ok strict m y)
      else x = DER_Primitive (der_tag_of x) (der_content x) \<and>
        der_value_check strict (tlv_tag (Ptr 0 (der_tag_of x)) (length (der_tag_of x))) (Ptr 0 (der_content x))
          (length (der_content x)) = TLV_OK)"
  by (cases x) auto

lemma der_tag_octets_nonempty: "der_tag_octets t \<Longrightarrow> t \<noteq> []"
  unfolding der_tag_octets_def using der_octets.octet_inv [of "Ptr 0 t" "length t"] by auto

lemma der_encode_nonempty: "der_tree_ok strict m x \<Longrightarrow> der_encode x \<noteq> []"
  using der_tag_octets_nonempty by (auto simp: der_encode_eq der_tree_ok_iff)

lemma der_forest_Nil: "(\<forall>x \<in> set ts. der_tree_ok strict m x) \<Longrightarrow> der_forest ts = [] \<longleftrightarrow> ts = []"
  using der_encode_nonempty by (cases ts) auto

section \<open>The header in place\<close>

lemma minimal_length_read_eq: "tlv_asn1_read_minimal_length p n = tlv_variable_length_read (Some asn1_minimal_length) p n True"
  by (simp add: tlv_asn1_read_minimal_length_def)

lemma ber_length_fits: "l \<le> TLV_SIZE_MAX \<Longrightarrow> fst (tlv_ber_write_length l None 0) = TLV_OK"
proof -
  assume l: "l \<le> TLV_SIZE_MAX"
  have "length_validate ber_length = TLV_OK" "unpack 0x7F 0x7F = 127"
    by (simp_all add: length_validate_def ber_length_def ber_length_policy_def single_bit_def known_order_def
        unpack_def unpack_bit_def upt_rec TLV_SIZE_MAX_def)
  then have "variable_len_ok ber_length l" using l octet_count_le_8 [OF l]
    by (simp add: variable_len_ok_def ber_length_def ber_length_policy_def)
  then show ?thesis
    by (simp add: tlv_ber_write_length_def tlv_ber_length_encode_def variable_length_write_query)
qed

lemma der_len_at:
  assumes "occurs_at (der_len l) p pos" "l \<le> TLV_SIZE_MAX" "pos + length (der_len l) \<le> limit" "readable p limit"
  shows "tlv_asn1_read_minimal_length (ptr_add p pos) (limit - pos) = (TLV_OK, Some l, Some (length (der_len l)))"
  using assms by (intro minimal_len.read_written_length [OF assms(2) ber_length_fits])
    (auto simp: occurs_at_def readable_def)

lemma der_len_nonempty: "l \<le> TLV_SIZE_MAX \<Longrightarrow> der_len l \<noteq> []"
  using minimal_len.write_length_query [OF _ ber_length_fits] by auto

lemma der_read_element_iff:
  assumes r: "readable p limit" "pos \<le> limit" and m: "dl_max_value_size L \<le> TLV_SIZE_MAX"
  shows "tlv_der_read_element (ptr_add p pos) (limit - pos) base L element d = (TLV_OK, el, ou, d') \<longleftrightarrow>
    (\<exists>t len. der_tag_octets t \<and> occurs_at (t @ der_len len) p pos \<and> len \<le> dl_max_value_size L \<and>
       pos + length t + length (der_len len) + len \<le> limit \<and>
       el = \<lparr>elem_tag = tlv_tag (ptr_add p pos) (length t),
             elem_value = \<lparr>val_data = ptr_add p (pos + length t + length (der_len len)), val_size = len\<rparr>\<rparr> \<and>
       ou = Some (length t + length (der_len len) + len) \<and> d' = d)" (is "?a \<longleftrightarrow> ?b")
proof
  assume a: ?a
  obtain ot oc where rt: "der_read_tag (ptr_add p pos) (limit - pos) = (TLV_OK, ot, oc)"
    using a by (auto simp: tlv_der_read_element_def tlv_der_fields_def asn1_fail_def split: prod.splits if_splits)
  show ?b
  proof (rule der_octets.octets_at_inv [OF rt r, folded der_tag_octets_def])
    fix t assume t: "der_tag_octets t" "occurs_at t p pos" "pos + length t \<le> limit"
      "ot = Some (tlv_tag (ptr_add p pos) (length t))" "oc = Some (length t)"
    let ?q = "ptr_add p (pos + length t)" and ?n = "limit - (pos + length t)"
    have rq: "readable ?q ?n" using r t by (simp add: readable_def)
    obtain len lsz where rl: "tlv_asn1_read_minimal_length ?q ?n = (TLV_OK, Some len, Some lsz)"
      and len: "len \<le> dl_max_value_size L" "len \<le> ?n - lsz"
      and out: "el = \<lparr>elem_tag = tlv_tag (ptr_add p pos) (length t),
        elem_value = \<lparr>val_data = ptr_add p (pos + length t + lsz), val_size = len\<rparr>\<rparr>"
        "ou = Some (length t + lsz + len)" "d' = d"
      using a rt t minimal_len.read_length_inv [OF rq]
      by (fastforce simp: tlv_der_read_element_def tlv_der_fields_def asn1_fail_def Let_def add.assoc split: prod.splits if_splits)
    have lsz: "lsz \<le> ?n" using minimal_len.read_length_inv [OF rq rl] by auto
    have e: "take lsz (bytes ?q) = der_len len" using minimal_length_canonical [OF rq rl] .
    have ll: "length (der_len len) = lsz" using arg_cong [OF e, of length] lsz rq by (simp add: readable_def)
    with e have "occurs_at (der_len len) p (pos + length t)" by (simp add: occurs_at_def)
    moreover have "pos + length t + length (der_len len) + len \<le> limit" using len lsz ll t(3) by linarith
    ultimately show ?b using t len(1) ll out by (intro exI [of _ t] exI [of _ len]) auto
  qed
next
  assume ?b
  then obtain t len where t: "der_tag_octets t" "occurs_at t p pos" "occurs_at (der_len len) p (pos + length t)"
    "len \<le> dl_max_value_size L" "pos + length t + length (der_len len) + len \<le> limit"
    and e: "el = \<lparr>elem_tag = tlv_tag (ptr_add p pos) (length t),
             elem_value = \<lparr>val_data = ptr_add p (pos + length t + length (der_len len)), val_size = len\<rparr>\<rparr>"
      "ou = Some (length t + length (der_len len) + len)" "d' = d" by auto
  have "der_read_tag (ptr_add p pos) (limit - pos) = (TLV_OK, Some (tlv_tag (ptr_add p pos) (length t)), Some (length t))"
    using t r by (intro der_octets.octets_at [OF t(1) [unfolded der_tag_octets_def] t(2)]) auto
  moreover have "tlv_asn1_read_minimal_length (ptr_add p (pos + length t)) (limit - (pos + length t)) =
      (TLV_OK, Some len, Some (length (der_len len)))"
    using t m r by (intro der_len_at) auto
  moreover have "\<not> len > limit - pos - length t - length (der_len len)" using t(5) by linarith
  ultimately show ?a using t(4) e by (simp add: tlv_der_read_element_def tlv_der_fields_def Let_def add.assoc)
qed

lemma der_header_unique:
  assumes "der_tag_octets t" "occurs_at (t @ der_len l) p pos" "l \<le> TLV_SIZE_MAX"
    and "der_tag_octets t'" "occurs_at (t' @ der_len l') p pos" "l' \<le> TLV_SIZE_MAX"
    and "pos + length t + length (der_len l) + l \<le> length (bytes p)" "pos + length t' + length (der_len l') + l' \<le> length (bytes p)"
  shows "t = t'" "l = l'"
proof -
  let ?L = "\<lparr>dl_max_depth = 0, dl_max_input_size = 0, dl_max_value_size = TLV_SIZE_MAX, dl_max_elements = 0\<rparr>"
  note I = der_read_element_iff [of p "length (bytes p)" pos ?L 0 element0 None, unfolded readable_def, simplified]
  let ?el = "\<lambda>t l. \<lparr>elem_tag = tlv_tag (ptr_add p pos) (length t),
      elem_value = \<lparr>val_data = ptr_add p (pos + length t + length (der_len l)), val_size = l\<rparr>\<rparr>"
  have le: "pos \<le> length (bytes p)" using assms(7) by simp
  have "tlv_der_read_element (ptr_add p pos) (length (bytes p) - pos) 0 ?L element0 None =
      (TLV_OK, ?el t l, Some (length t + length (der_len l) + l), None)"
    using I [OF le, of "?el t l"] assms by auto
  moreover have "tlv_der_read_element (ptr_add p pos) (length (bytes p) - pos) 0 ?L element0 None =
      (TLV_OK, ?el t' l', Some (length t' + length (der_len l') + l'), None)"
    using I [OF le, of "?el t' l'"] assms by auto
  ultimately have "length t = length t'" "l = l'" by (auto simp: tlv_tag_def)
  with assms(2,5) show "t = t'" "l = l'" by (auto simp: occurs_at_def)
qed

lemma single_bit_test: "(b :: u8) AND TLV_ASN1_CONSTRUCTED_BIT \<noteq> 0 \<longleftrightarrow> b AND TLV_ASN1_CONSTRUCTED_BIT = TLV_ASN1_CONSTRUCTED_BIT"
proof -
  have "b AND push_bit k 1 = (if bit b k then push_bit k 1 else 0)" for k
    by (rule bit_word_eqI) (auto simp: bit_simps)
  from this [of 5] show ?thesis by (simp add: TLV_ASN1_CONSTRUCTED_BIT_def)
qed

lemma der_constructed_at:
  assumes "occurs_at t p pos" "t \<noteq> []"
  shows "tlv_asn1_tag_is_constructed (tlv_tag (ptr_add p pos) (length t)) = lead_constructed t"
proof -
  have "pos < length (bytes p)" using occurs_at_bound [OF assms] assms(2) by (cases t) auto
  then have "byte_at (ptr_add p pos) 0 = byte_at p pos" by (simp add: byte_at_def)
  with byte_at_occurs [OF assms] show ?thesis
    by (simp add: tlv_asn1_tag_is_constructed_def lead_constructed_def single_bit_test tlv_tag_def)
qed

lemma der_value_check_cong:
  assumes t: "der_tag_octets t" "same_octets q (Ptr 0 t) (length t)" and v: "same_octets vp vq n"
  shows "der_value_check strict (tlv_tag q (length t)) vp n =
    der_value_check strict (tlv_tag (Ptr 0 t) (length t)) vq n"
proof -
  have b: "byte_at q 0 = byte_at (Ptr 0 t) 0"
    using der_tag_octets_nonempty [OF t(1)] by (intro same_octets_byte [OF t(2)]) simp
  have rd: "der_read_tag q (length t) = (TLV_OK, Some (tlv_tag q (length t)), Some (length t))"
    using der_octets.octet_inv [OF _ t(1) [unfolded der_tag_octets_def]] t(2) by (auto simp: same_octets_def)
  have nz: "q \<noteq> Null" using t(2) der_tag_octets_nonempty [OF t(1)] by (auto simp: same_octets_def)
  have "tlv_der_tag_number (Some (tlv_tag q (length t))) True =
      tlv_der_tag_number (Some (tlv_tag (Ptr 0 t) (length t))) True"
    using rd t(1) same_octets_take [OF t(2) order_refl] b nz
    by (simp add: tlv_der_tag_number_def tlv_asn1_tag_number_checked_def der_write_tag_def
        tlv_asn1_write_identifier_checked_def der_tag_octets_def tlv_tag_def Let_def)
  then show ?thesis
    using b by (simp add: der_value_check_def tlv_asn1_tag_class_def tlv_asn1_tag_is_constructed_def tlv_tag_def
        universal_value_cong [OF v] case_prod_unfold)
qed

lemma der_value_check_at:
  assumes t: "der_tag_octets t" "occurs_at (t @ ls @ v) p pos"
  shows "der_value_check strict (tlv_tag (ptr_add p pos) (length t)) (ptr_add p (pos + length t + length ls)) (length v) =
    der_value_check strict (tlv_tag (Ptr 0 t) (length t)) (Ptr 0 v) (length v)"
proof (rule der_value_check_cong [OF t(1)])
  have "pos + length (t @ ls @ v) \<le> length (bytes p)"
    using t der_tag_octets_nonempty by (intro occurs_at_bound) auto
  then show "same_octets (ptr_add p pos) (Ptr 0 t) (length t)"
    "same_octets (ptr_add p (pos + length t + length ls)) (Ptr 0 v) (length v)"
    using t(2) [unfolded occurs_at_append] by (auto simp: same_octets_def readable_def occurs_at_def)
qed

end
