(* ===== verification/TLV_DER_Traversal.thy ===== *)
theory TLV_DER_Traversal
  imports TLV_DER_Laws
begin

text \<open>
  The traversal loop against the forest: its stack of value ends is the list of the scopes that are
  still open, innermost first, and the loop accepts exactly when each open scope is filled by a forest.
  The loop always returns and never writes behind its stack.
\<close>

section \<open>What the visitor sees\<close>

definition der_header :: "der_tree \<Rightarrow> nat" where
  "der_header x = length (der_tag_of x) + length (der_len (length (der_content x)))"

definition der_element_at :: "ptr \<Rightarrow> nat \<Rightarrow> der_tree \<Rightarrow> tlv_element_t" where
  "der_element_at p pos x =
     \<lparr>elem_tag = tlv_tag (ptr_add p pos) (length (der_tag_of x)),
      elem_value = \<lparr>val_data = ptr_add p (pos + der_header x), val_size = length (der_content x)\<rparr>\<rparr>"

text \<open>The elements of a forest in preorder, each with its depth and its offset.\<close>

function der_events :: "ptr \<Rightarrow> nat \<Rightarrow> nat \<Rightarrow> nat \<Rightarrow> der_tree list \<Rightarrow> (tlv_element_t \<times> nat \<times> nat) list" where
  "der_events p base depth pos [] = []"
| "der_events p base depth pos (x # xs) =
     (der_element_at p pos x, depth, base + pos) #
     der_events p base (depth + 1) (pos + der_header x) (der_children x) @
     der_events p base depth (pos + length (der_encode x)) xs"
  by pat_completeness auto
termination
  by (relation "measure (\<lambda>(p, b, d, pos, xs). sum_list (map der_elements xs))") (auto simp: der_elements_eq)

definition der_run :: "'c tlv_tree_visitor_t option \<Rightarrow> (tlv_element_t \<times> nat \<times> nat) list \<Rightarrow> 'c \<Rightarrow> 'c" where
  "der_run visitor events context =
     (case visitor of None \<Rightarrow> context
      | Some v \<Rightarrow> fold (\<lambda>(el, depth, offset) c. snd (v el depth offset c)) events context)"

definition never_stops :: "'c tlv_tree_visitor_t option \<Rightarrow> bool" where
  "never_stops visitor \<longleftrightarrow> (\<forall>v el depth offset c. visitor = Some v \<longrightarrow> fst (v el depth offset c) = TLV_VISIT_CONTINUE)"

lemma der_run_Cons:
  "never_stops (da_visitor a) \<Longrightarrow> der_visit_element a el depth offset c = (c', None) \<Longrightarrow>
   der_run (da_visitor a) ((el, depth, offset) # es) c = der_run (da_visitor a) es c'"
  by (auto simp: der_run_def der_visit_element_def split: option.splits prod.splits)

lemma never_stops_visit: "never_stops (da_visitor a) \<Longrightarrow> snd (der_visit_element a el depth offset c) = None"
  by (auto simp: der_visit_element_def never_stops_def case_prod_unfold split: option.splits)

section \<open>Open scopes\<close>

definition der_node_ok :: "'c der_args \<Rightarrow> nat \<Rightarrow> der_tree \<Rightarrow> bool" where
  "der_node_ok a level x \<longleftrightarrow> der_tree_ok (da_strict a) (dl_max_value_size (da_limits a)) x \<and>
     da_depth a + level \<le> dl_max_depth (da_limits a) \<and> der_fits (dl_max_depth (da_limits a) - (da_depth a + level)) x"

fun der_scopes :: "'c der_args \<Rightarrow> nat \<Rightarrow> nat list \<Rightarrow> der_tree list list \<Rightarrow> bool" where
  "der_scopes a pos [] Fs \<longleftrightarrow> Fs = []"
| "der_scopes a pos (e # es) Fs \<longleftrightarrow>
     (\<exists>F Fs'. Fs = F # Fs' \<and> pos + length (der_forest F) = e \<and> occurs_at (der_forest F) (da_data a) pos \<and>
        (\<forall>x \<in> set F. der_node_ok a (length es) x) \<and> der_scopes a e es Fs')"

fun der_scope_events :: "'c der_args \<Rightarrow> nat \<Rightarrow> nat list \<Rightarrow> der_tree list list \<Rightarrow> (tlv_element_t \<times> nat \<times> nat) list" where
  "der_scope_events a pos (e # es) (F # Fs) =
     der_events (da_data a) (da_base a) (da_depth a + length es) pos F @ der_scope_events a e es Fs"
| "der_scope_events a pos es Fs = []"

definition der_stack :: "'c der_state \<Rightarrow> nat list" where
  "der_stack st = rev (take (Suc (ds_level st)) (ds_ends st))"

definition der_outcome :: "'c der_args \<Rightarrow> 'c der_state \<Rightarrow> 'c \<Rightarrow> bool" where
  "der_outcome a st c \<longleftrightarrow>
     (\<exists>Fs. der_scopes a (ds_pos st) (der_stack st) Fs \<and>
        ds_count st + sum_list (map der_elements (concat Fs)) \<le> dl_max_elements (da_limits a) \<and>
        c = der_run (da_visitor a) (der_scope_events a (ds_pos st) (der_stack st) Fs) (ds_context st))"

definition der_args_ok :: "'c der_args \<Rightarrow> bool" where
  "der_args_ok a \<longleftrightarrow> dl_max_depth (da_limits a) \<le> TLV_DER_MAX_DEPTH \<and> dl_max_value_size (da_limits a) \<le> TLV_SIZE_MAX"

text \<open>The ends of the open scopes grow outwards from the position, within the readable input.\<close>

fun ends_ok :: "ptr \<Rightarrow> nat \<Rightarrow> nat list \<Rightarrow> bool" where
  "ends_ok p pos [] \<longleftrightarrow> readable p pos"
| "ends_ok p pos (e # es) \<longleftrightarrow> pos \<le> e \<and> ends_ok p e es"

definition der_state_ok :: "'c der_args \<Rightarrow> 'c der_state \<Rightarrow> bool" where
  "der_state_ok a st \<longleftrightarrow> length (ds_ends st) = TLV_DER_MAX_DEPTH + 1 \<and> ds_level st < length (ds_ends st) \<and>
     ends_ok (da_data a) (ds_pos st) (der_stack st) \<and> ds_count st \<le> dl_max_elements (da_limits a) \<and>
     (0 < ds_level st \<longrightarrow> 0 < ds_pos st \<and> da_depth a + ds_level st \<le> dl_max_depth (da_limits a))"

lemma ends_ok_readable: "ends_ok p pos es \<Longrightarrow> readable p pos \<and> (\<forall>e \<in> set es. pos \<le> e \<and> readable p e)"
  by (induction es arbitrary: pos) (auto intro: readable_mono dest: order.trans)

lemma der_stack_Cons:
  assumes "ds_level st < length (ds_ends st)"
  shows "\<exists>es. der_stack st = ds_ends st ! ds_level st # es \<and> length es = ds_level st \<and>
    es = rev (take (ds_level st) (ds_ends st))"
  using assms by (simp add: der_stack_def take_Suc_conv_app_nth)

lemma der_stack_pop:
  assumes "ds_level st < length (ds_ends st)" "0 < ds_level st"
  shows "der_stack st = ds_ends st ! ds_level st # der_stack (st\<lparr>ds_level := ds_level st - 1\<rparr>)"
  using der_stack_Cons [OF assms(1)] assms(2) by (auto simp: der_stack_def)

lemma der_stack_push:
  assumes "Suc (ds_level st) < length (ds_ends st)"
  shows "der_stack (st\<lparr>ds_pos := p, ds_level := Suc (ds_level st), ds_ends := (ds_ends st)[Suc (ds_level st) := e]\<rparr>) =
    e # der_stack st"
  using assms by (simp add: der_stack_def take_Suc_conv_app_nth [of "Suc (ds_level st)"])

lemma der_stack_same [simp]:
  "der_stack (st\<lparr>ds_pos := p\<rparr>) = der_stack st" "der_stack (st\<lparr>ds_count := n\<rparr>) = der_stack st"
  "der_stack (st\<lparr>ds_first := f\<rparr>) = der_stack st" "der_stack (st\<lparr>ds_context := c\<rparr>) = der_stack st"
  "der_stack (st\<lparr>ds_diag := d\<rparr>) = der_stack st"
  by (simp_all add: der_stack_def)

section \<open>One pass through the loop\<close>

text \<open>The state in which the loop body leaves an element with header \<open>h\<close>, value length \<open>n\<close> and position \<open>pos\<close>.\<close>

definition der_after :: "'c der_args \<Rightarrow> 'c der_state \<Rightarrow> tlv_element_t \<Rightarrow> nat \<Rightarrow> 'c \<Rightarrow> bool \<Rightarrow> 'c der_state" where
  "der_after a st el h c down =
     (let end' = ds_pos st + h + val_size (elem_value el);
          st = st\<lparr>ds_count := ds_count st + 1\<rparr>;
          st = (if da_one a \<and> ds_pos st = 0
                then st\<lparr>ds_first := Some (el, h + val_size (elem_value el)), ds_ends := (ds_ends st)[0 := end']\<rparr> else st);
          st = st\<lparr>ds_context := c\<rparr> in
      if down then st\<lparr>ds_pos := ds_pos st + h, ds_level := Suc (ds_level st), ds_ends := (ds_ends st)[Suc (ds_level st) := end']\<rparr>
      else st\<lparr>ds_pos := end'\<rparr>)"

lemma der_step_header:
  assumes a: "der_args_ok a" and st: "der_state_ok a st" and pos: "ds_pos st < ds_ends st ! ds_level st"
    and lim: "da_depth a + ds_level st \<le> dl_max_depth (da_limits a)" "ds_count st \<noteq> dl_max_elements (da_limits a)"
    and t: "der_tag_octets t" "occurs_at (t @ der_len (length v) @ v) (da_data a) (ds_pos st)"
      "length v \<le> dl_max_value_size (da_limits a)"
      "ds_pos st + length t + length (der_len (length v)) + length v \<le> ds_ends st ! ds_level st"
  defines "el \<equiv> \<lparr>elem_tag = tlv_tag (ptr_add (da_data a) (ds_pos st)) (length t),
      elem_value = \<lparr>val_data = ptr_add (da_data a) (ds_pos st + length t + length (der_len (length v))), val_size = length v\<rparr>\<rparr>"
    and "h \<equiv> length t + length (der_len (length v))"
    and "down \<equiv> lead_constructed t \<and> v \<noteq> []"
  assumes visit: "der_visit_element a el (da_depth a + ds_level st) (da_base a + ds_pos st) (ds_context st) = (c, None)"
  shows "der_step a st = Inr (der_after a st el h c down) \<and>
      der_value_check (da_strict a) (tlv_tag (Ptr 0 t) (length t)) (Ptr 0 v) (length v) = TLV_OK \<and>
      (down \<longrightarrow> da_depth a + ds_level st < dl_max_depth (da_limits a)) \<or>
    (\<exists>r. der_step a st = Inl (Some r) \<and> fst r \<noteq> TLV_OK \<and>
      (der_value_check (da_strict a) (tlv_tag (Ptr 0 t) (length t)) (Ptr 0 v) (length v) \<noteq> TLV_OK \<or>
       (down \<and> da_depth a + ds_level st = dl_max_depth (da_limits a))))"
proof -
  let ?e = "ds_ends st ! ds_level st"
  have lvl: "ds_level st < length (ds_ends st)" "length (ds_ends st) = TLV_DER_MAX_DEPTH + 1"
    using st by (auto simp: der_state_ok_def)
  obtain es where stk: "der_stack st = ?e # es" using der_stack_Cons [OF lvl(1)] by blast
  have r: "readable (da_data a) ?e" using st stk ends_ok_readable by (fastforce simp: der_state_ok_def)
  have m: "dl_max_value_size (da_limits a) \<le> TLV_SIZE_MAX" using a by (simp add: der_args_ok_def)
  have rd: "tlv_der_read_element (ptr_add (da_data a) (ds_pos st)) (?e - ds_pos st) (da_base a + ds_pos st) (da_limits a)
      element0 (ds_diag st) = (TLV_OK, el, Some (h + length v), ds_diag st)"
    unfolding der_read_element_iff [OF r less_imp_le [OF pos] m]
    using t by (intro exI [of _ t] exI [of _ "length v"]) (auto simp: el_def h_def)
  have nat: "tlv_size_to_native (length v) True = (TLV_OK, Some (length v))"
    using t(3) m by (intro tlv_size_to_native_OK) (simp add: SIZE_MAX_def TLV_SIZE_MAX_def)
  have chk: "der_value_check (da_strict a) (elem_tag el) (val_data (elem_value el)) (length v) =
      der_value_check (da_strict a) (tlv_tag (Ptr 0 t) (length t)) (Ptr 0 v) (length v)"
    using der_value_check_at [OF t(1,2)] by (simp add: el_def)
  have con: "tlv_asn1_tag_is_constructed (elem_tag el) = lead_constructed t" "val_size (elem_value el) = length v"
    using der_constructed_at [OF _ der_tag_octets_nonempty [OF t(1)]] t(2) by (auto simp: el_def)
  have sz: "da_depth a + ds_level st < dl_max_depth (da_limits a) \<Longrightarrow> Suc (ds_level st) < length (ds_ends st)"
    using a lvl(2) by (simp add: der_args_ok_def)
  have step: "der_step a st =
      (if der_value_check (da_strict a) (tlv_tag (Ptr 0 t) (length t)) (Ptr 0 v) (length v) \<noteq> TLV_OK
       then Inl (Some (der_fail (st\<lparr>ds_count := ds_count st + 1\<rparr>)
              (der_value_check (da_strict a) (tlv_tag (Ptr 0 t) (length t)) (Ptr 0 v) (length v))
              (da_base a + (ds_pos st + (h + length v)) - length v)))
       else der_descend a
         ((if da_one a \<and> ds_pos st = 0
           then st\<lparr>ds_count := ds_count st + 1, ds_first := Some (el, h + length v),
             ds_ends := (ds_ends st)[0 := ds_pos st + (h + length v)]\<rparr>
           else st\<lparr>ds_count := ds_count st + 1\<rparr>)\<lparr>ds_context := c\<rparr>) el (ds_pos st + (h + length v)) (length v))"
  proof (cases "da_one a \<and> ds_pos st = 0")
    case True
    then have one: "da_one a \<and> ds_pos st = 0 \<longleftrightarrow> True" by simp
    show ?thesis
      unfolding der_step_def Let_def rd one using pos lim visit
      by (simp add: nat chk [unfolded con] con chk del: One_nat_def)
  next
    case False
    then have one: "da_one a \<and> ds_pos st = 0 \<longleftrightarrow> False" by simp
    show ?thesis
      unfolding der_step_def Let_def rd one using pos lim visit by (simp add: nat chk [unfolded con] con chk)
  qed
  show ?thesis
    using sz lim(1) unfolding step
    by (auto simp: der_descend_def der_after_def con down_def der_fail_def der_return_def Let_def add.assoc)
qed

section \<open>The outcome is invariant\<close>

lemma der_outcome_finished:
  assumes "der_stack st = [ds_pos st]" "ds_count st \<le> dl_max_elements (da_limits a)"
  shows "der_outcome a st c \<longleftrightarrow> c = ds_context st"
proof
  assume "der_outcome a st c"
  then obtain F where F: "\<forall>x \<in> set F. der_node_ok a 0 x" "der_forest F = []"
    "c = der_run (da_visitor a) (der_events (da_data a) (da_base a) (da_depth a) (ds_pos st) F) (ds_context st)"
    using assms by (auto simp: der_outcome_def)
  then have "F = []" using der_forest_Nil by (fastforce simp: der_node_ok_def)
  with F(3) show "c = ds_context st" by (simp add: der_run_def split: option.splits)
next
  assume "c = ds_context st"
  then show "der_outcome a st c" using assms unfolding der_outcome_def
    by (intro exI [of _ "[[]]"]) (auto simp: der_run_def split: option.splits)
qed

lemma der_outcome_pop:
  assumes "der_stack st = ds_pos st # der_stack st'" "ds_pos st' = ds_pos st" "ds_count st' = ds_count st"
    "ds_context st' = ds_context st"
  shows "der_outcome a st c \<longleftrightarrow> der_outcome a st' c"
proof
  assume "der_outcome a st c"
  then obtain F Fs where F: "\<forall>x \<in> set F. der_node_ok a (length (der_stack st')) x" "der_forest F = []"
    "der_scopes a (ds_pos st) (der_stack st') Fs"
    "ds_count st + sum_list (map der_elements (concat (F # Fs))) \<le> dl_max_elements (da_limits a)"
    "c = der_run (da_visitor a) (der_scope_events a (ds_pos st) (der_stack st) (F # Fs)) (ds_context st)"
    using assms(1) by (auto simp: der_outcome_def)
  moreover from F have "F = []" using der_forest_Nil by (fastforce simp: der_node_ok_def)
  ultimately show "der_outcome a st' c" unfolding der_outcome_def using assms by (intro exI [of _ Fs]) simp
next
  assume "der_outcome a st' c"
  then obtain Fs where "der_scopes a (ds_pos st) (der_stack st') Fs"
    "ds_count st + sum_list (map der_elements (concat Fs)) \<le> dl_max_elements (da_limits a)"
    "c = der_run (da_visitor a) (der_scope_events a (ds_pos st) (der_stack st') Fs) (ds_context st)"
    using assms by (auto simp: der_outcome_def)
  then show "der_outcome a st c" unfolding der_outcome_def using assms by (intro exI [of _ "[] # Fs"]) simp
qed

lemma der_header_encode: "length (der_encode x) = der_header x + length (der_content x)"
  by (simp add: der_encode_eq der_header_def)

lemma der_node_children:
  assumes "der_node_ok a level x"
  shows "length (der_forest (der_children x)) = (if lead_constructed (der_tag_of x) then length (der_content x) else 0)"
    "der_children x \<noteq> [] \<longleftrightarrow> lead_constructed (der_tag_of x) \<and> der_content x \<noteq> []"
    "y \<in> set (der_children x) \<Longrightarrow> der_node_ok a (Suc level) y"
proof -
  have ok: "der_tree_ok (da_strict a) (dl_max_value_size (da_limits a)) x" using assms by (simp add: der_node_ok_def)
  show "length (der_forest (der_children x)) = (if lead_constructed (der_tag_of x) then length (der_content x) else 0)"
    using ok by (cases x) auto
  show "der_children x \<noteq> [] \<longleftrightarrow> lead_constructed (der_tag_of x) \<and> der_content x \<noteq> []"
  proof (cases x)
    case (DER_Constructed t ts)
    then show ?thesis using ok der_forest_Nil [of ts] by auto
  qed (use ok in auto)
  let ?k = "dl_max_depth (da_limits a) - (da_depth a + level)"
  have "dl_max_depth (da_limits a) - (da_depth a + Suc level) = ?k - 1" by simp
  moreover have "0 < ?k \<Longrightarrow> da_depth a + Suc level \<le> dl_max_depth (da_limits a)" by simp
  moreover have "der_fits ?k x" using assms by (simp add: der_node_ok_def)
  ultimately show "y \<in> set (der_children x) \<Longrightarrow> der_node_ok a (Suc level) y"
    using ok by (cases x) (auto simp: der_node_ok_def)
qed

lemma der_node_at:
  assumes "der_tag_octets t" "occurs_at (t @ der_len (length v) @ v) p pos" "length v \<le> TLV_SIZE_MAX"
    and "der_tag_octets (der_tag_of x)" "occurs_at (der_encode x) p pos" "length (der_content x) \<le> TLV_SIZE_MAX"
  shows "der_tag_of x = t" "der_content x = v"
proof -
  have b: "pos + length (t @ der_len (length v) @ v) \<le> length (bytes p)" "pos + length (der_encode x) \<le> length (bytes p)"
    using occurs_at_bound [OF assms(2)] occurs_at_bound [OF assms(5)] der_tag_octets_nonempty [OF assms(1)]
      der_tag_octets_nonempty [OF assms(4)] by (auto simp: der_encode_eq)
  have o: "occurs_at (t @ der_len (length v)) p pos" "occurs_at v p (pos + length t + length (der_len (length v)))"
    "occurs_at (der_tag_of x @ der_len (length (der_content x))) p pos"
    "occurs_at (der_content x) p (pos + length (der_tag_of x) + length (der_len (length (der_content x))))"
    using assms(2,5) by (simp_all add: der_encode_eq)
  have U: "der_tag_of x = t" "length (der_content x) = length v"
    using der_header_unique [OF assms(4) o(3) assms(6) assms(1) o(1) assms(3)] b by (simp_all add: der_encode_eq add.assoc)
  then show "der_tag_of x = t" "der_content x = v" using o(2,4) by (simp_all add: occurs_at_def)
qed

text \<open>The outcome of a state whose position is at an element, by the element and what follows it.\<close>

lemma der_outcome_node:
  assumes stk: "der_stack st = e # es" "length es = level"
    and t: "der_tag_octets t" "occurs_at (t @ der_len (length v) @ v) (da_data a) (ds_pos st)"
      "length v \<le> TLV_SIZE_MAX" "dl_max_value_size (da_limits a) \<le> TLV_SIZE_MAX" "ds_pos st < e"
  defines "el \<equiv> \<lparr>elem_tag = tlv_tag (ptr_add (da_data a) (ds_pos st)) (length t),
      elem_value = \<lparr>val_data = ptr_add (da_data a) (ds_pos st + length t + length (der_len (length v))), val_size = length v\<rparr>\<rparr>"
    and "h \<equiv> length t + length (der_len (length v))"
  assumes visit: "never_stops (da_visitor a)"
    "der_visit_element a el (da_depth a + level) (da_base a + ds_pos st) (ds_context st) = (c', None)"
  shows "der_outcome a st c \<longleftrightarrow>
    (\<exists>x F Fs. der_node_ok a level x \<and> der_tag_of x = t \<and> der_content x = v \<and>
       der_scopes a (ds_pos st + h + length v) (e # es) (F # Fs) \<and>
       ds_count st + (1 + sum_list (map der_elements (der_children x)) + sum_list (map der_elements (concat (F # Fs))))
         \<le> dl_max_elements (da_limits a) \<and>
       c = der_run (da_visitor a) (der_events (da_data a) (da_base a) (da_depth a + level + 1) (ds_pos st + h) (der_children x) @
             der_scope_events a (ds_pos st + h + length v) (e # es) (F # Fs)) c')" (is "?a \<longleftrightarrow> ?b")
proof
  assume ?a
  then obtain F0 Fs where F: "ds_pos st + length (der_forest F0) = e" "occurs_at (der_forest F0) (da_data a) (ds_pos st)"
    "\<forall>x \<in> set F0. der_node_ok a level x" "der_scopes a e es Fs"
    "ds_count st + sum_list (map der_elements (concat (F0 # Fs))) \<le> dl_max_elements (da_limits a)"
    "c = der_run (da_visitor a) (der_scope_events a (ds_pos st) (e # es) (F0 # Fs)) (ds_context st)"
    using stk by (auto simp: der_outcome_def)
  obtain x F' where F0: "F0 = x # F'" using F(1) t(5) by (cases F0) auto
  have ok: "der_node_ok a level x" "occurs_at (der_encode x) (da_data a) (ds_pos st)" using F(2,3) F0 by auto
  then have "der_tag_octets (der_tag_of x)" "length (der_content x) \<le> TLV_SIZE_MAX"
    using t(4) by (auto simp: der_node_ok_def der_tree_ok_iff)
  note X = der_node_at [OF t(1-3) this(1) ok(2) this(2)]
  have hd: "der_header x = h" "der_element_at (da_data a) (ds_pos st) x = el"
    using X by (simp_all add: der_header_def h_def der_element_at_def el_def add.assoc)
  have len: "length (der_encode x) = h + length v" using hd X by (simp add: der_header_encode)
  have "der_scopes a (ds_pos st + h + length v) (e # es) (F' # Fs)"
    using F F0 len by (auto simp: stk(2) [symmetric] add.assoc)
  moreover have "c = der_run (da_visitor a) (der_events (da_data a) (da_base a) (da_depth a + level + 1) (ds_pos st + h) (der_children x) @
             der_scope_events a (ds_pos st + h + length v) (e # es) (F' # Fs)) c'"
    using F(6) F0 hd len der_run_Cons [OF visit] by (simp add: stk(2) add.assoc)
  ultimately show ?b using X ok F(5) F0 by (intro exI [of _ x] exI [of _ F'] exI [of _ Fs]) (simp add: der_elements_eq)
next
  assume ?b
  then obtain x F Fs where ok: "der_node_ok a level x" and X: "der_tag_of x = t" "der_content x = v"
    and F: "der_scopes a (ds_pos st + h + length v) (e # es) (F # Fs)"
      "ds_count st + (1 + sum_list (map der_elements (der_children x)) + sum_list (map der_elements (concat (F # Fs))))
         \<le> dl_max_elements (da_limits a)"
      "c = der_run (da_visitor a) (der_events (da_data a) (da_base a) (da_depth a + level + 1) (ds_pos st + h) (der_children x) @
             der_scope_events a (ds_pos st + h + length v) (e # es) (F # Fs)) c'" by blast
  have hd: "der_header x = h" "der_element_at (da_data a) (ds_pos st) x = el"
    using X by (simp_all add: der_header_def h_def der_element_at_def el_def add.assoc)
  have len: "length (der_encode x) = h + length v" using hd X by (simp add: der_header_encode)
  have "occurs_at (der_encode x) (da_data a) (ds_pos st)" using t(2) X by (simp add: der_encode_eq)
  then have "der_scopes a (ds_pos st) (e # es) ((x # F) # Fs)"
    using F(1) ok len by (auto simp: stk(2) [symmetric] add.assoc)
  moreover have "c = der_run (da_visitor a) (der_scope_events a (ds_pos st) (e # es) ((x # F) # Fs)) (ds_context st)"
    using F(3) hd len der_run_Cons [OF visit] by (simp add: stk(2) add.assoc)
  ultimately show ?a unfolding der_outcome_def using F(2) stk(1) by (intro exI [of _ "(x # F) # Fs"]) (simp add: der_elements_eq)
qed

lemma der_after_state:
  assumes "ds_level st < length (ds_ends st)" "Suc (ds_level st) < length (ds_ends st) \<or> \<not> down" "\<not> (da_one a \<and> ds_pos st = 0)"
  shows "der_stack (der_after a st el h c down) =
      (if down then (ds_pos st + h + val_size (elem_value el)) # der_stack st else der_stack st)"
    "ds_pos (der_after a st el h c down) = ds_pos st + h + (if down then 0 else val_size (elem_value el))"
    "ds_count (der_after a st el h c down) = ds_count st + 1" "ds_context (der_after a st el h c down) = c"
    "ds_level (der_after a st el h c down) = (if down then Suc (ds_level st) else ds_level st)"
    "length (ds_ends (der_after a st el h c down)) = length (ds_ends st)"
    "ds_first (der_after a st el h c down) = ds_first st" "ds_diag (der_after a st el h c down) = ds_diag st"
  using assms der_stack_push [of "st\<lparr>ds_count := ds_count st + 1, ds_context := c\<rparr>"]
  by (auto simp: der_after_def Let_def)

lemma der_node_primitive:
  assumes "der_tag_octets t" "length v \<le> dl_max_value_size (da_limits a)"
    "der_value_check (da_strict a) (tlv_tag (Ptr 0 t) (length t)) (Ptr 0 v) (length v) = TLV_OK"
    "da_depth a + level \<le> dl_max_depth (da_limits a)" "\<not> (lead_constructed t \<and> v \<noteq> [])"
  shows "\<exists>x. der_node_ok a level x \<and> der_tag_of x = t \<and> der_content x = v \<and> der_children x = []"
proof (cases "lead_constructed t")
  case True
  then show ?thesis using assms by (intro exI [of _ "DER_Constructed t []"]) (auto simp: der_node_ok_def)
next
  case False
  then show ?thesis using assms by (intro exI [of _ "DER_Primitive t v"]) (auto simp: der_node_ok_def)
qed

lemma der_node_constructed:
  assumes "der_tag_octets t" "lead_constructed t" "length (der_forest G) \<le> dl_max_value_size (da_limits a)"
    "\<forall>x \<in> set G. der_node_ok a (Suc level) x" "da_depth a + level < dl_max_depth (da_limits a)"
  shows "der_node_ok a level (DER_Constructed t G)"
proof -
  have "dl_max_depth (da_limits a) - (da_depth a + Suc level) = dl_max_depth (da_limits a) - (da_depth a + level) - 1" by simp
  then show ?thesis using assms by (auto simp: der_node_ok_def)
qed

lemma der_outcome_descended:
  assumes "der_stack st' = e' # e # es" "ds_count st' = k + 1" "ds_context st' = c'" "ds_pos st' = pos" "e' = pos + length v"
    "length es = level"
    and occ: "\<And>G. occurs_at (der_forest G) (da_data a) pos \<and> length (der_forest G) = length v \<longleftrightarrow> der_forest G = v"
  shows "der_outcome a st' c \<longleftrightarrow>
    (\<exists>G F Fs. der_forest G = v \<and> (\<forall>x \<in> set G. der_node_ok a (Suc level) x) \<and> der_scopes a e' (e # es) (F # Fs) \<and>
       k + (1 + sum_list (map der_elements G) + sum_list (map der_elements (concat (F # Fs)))) \<le> dl_max_elements (da_limits a) \<and>
       c = der_run (da_visitor a) (der_events (da_data a) (da_base a) (da_depth a + level + 1) pos G @
             der_scope_events a e' (e # es) (F # Fs)) c')" (is "_ \<longleftrightarrow> ?r")
proof
  assume "der_outcome a st' c"
  then show ?r using assms by (fastforce simp: der_outcome_def)
next
  assume ?r
  then obtain G F Fs where "der_forest G = v" "\<forall>x \<in> set G. der_node_ok a (Suc level) x" "der_scopes a e' (e # es) (F # Fs)"
    "k + (1 + sum_list (map der_elements G) + sum_list (map der_elements (concat (F # Fs)))) \<le> dl_max_elements (da_limits a)"
    "c = der_run (da_visitor a) (der_events (da_data a) (da_base a) (da_depth a + level + 1) pos G @
       der_scope_events a e' (e # es) (F # Fs)) c'" by blast
  then show "der_outcome a st' c" unfolding der_outcome_def using assms(1-6) occ [of G]
    by (intro exI [of _ "G # F # Fs"]) simp
qed

lemma der_outcome_after:
  assumes st: "ds_level st < length (ds_ends st)" "Suc (ds_level st) < length (ds_ends st) \<or> \<not> down" "\<not> (da_one a \<and> ds_pos st = 0)"
    and t: "der_tag_octets t" "occurs_at (t @ der_len (length v) @ v) (da_data a) (ds_pos st)"
      "length v \<le> dl_max_value_size (da_limits a)" "dl_max_value_size (da_limits a) \<le> TLV_SIZE_MAX"
      "ds_pos st < ds_ends st ! ds_level st"
    and chk: "der_value_check (da_strict a) (tlv_tag (Ptr 0 t) (length t)) (Ptr 0 v) (length v) = TLV_OK"
    and lim: "da_depth a + ds_level st \<le> dl_max_depth (da_limits a)" "down \<Longrightarrow> da_depth a + ds_level st < dl_max_depth (da_limits a)"
    and down: "down \<longleftrightarrow> lead_constructed t \<and> v \<noteq> []"
  defines "el \<equiv> \<lparr>elem_tag = tlv_tag (ptr_add (da_data a) (ds_pos st)) (length t),
      elem_value = \<lparr>val_data = ptr_add (da_data a) (ds_pos st + length t + length (der_len (length v))), val_size = length v\<rparr>\<rparr>"
    and "h \<equiv> length t + length (der_len (length v))"
  assumes visit: "never_stops (da_visitor a)"
    "der_visit_element a el (da_depth a + ds_level st) (da_base a + ds_pos st) (ds_context st) = (c', None)"
  shows "der_outcome a st c \<longleftrightarrow> der_outcome a (der_after a st el h c' down) c"
proof -
  let ?pos = "ds_pos st" and ?stop = "ds_pos st + h + length v" and ?st = "der_after a st el h c' down"
  obtain es where stk: "der_stack st = ds_ends st ! ds_level st # es" "length es = ds_level st" using der_stack_Cons [OF st(1)] by blast
  note A = der_after_state [OF st, of el h c'] and
    N = der_outcome_node [OF stk t(1,2) order.trans [OF t(3,4)] t(4,5) visit(1) visit(2) [unfolded el_def],
      folded el_def h_def]
  have len: "val_size (elem_value el) = length v" by (simp add: el_def)
  show ?thesis
  proof (cases down)
    case True
    have occ: "occurs_at (der_forest G) (da_data a) (?pos + h) \<and> length (der_forest G) = length v \<longleftrightarrow> der_forest G = v" for G
      using t(2) [unfolded occurs_at_append] by (auto simp: h_def occurs_at_def add.assoc)
    have "der_outcome a ?st c \<longleftrightarrow>
      (\<exists>G F Fs. der_forest G = v \<and> (\<forall>x \<in> set G. der_node_ok a (Suc (ds_level st)) x) \<and>
         der_scopes a ?stop (ds_ends st ! ds_level st # es) (F # Fs) \<and>
         ds_count st + (1 + sum_list (map der_elements G) + sum_list (map der_elements (concat (F # Fs))))
           \<le> dl_max_elements (da_limits a) \<and>
         c = der_run (da_visitor a) (der_events (da_data a) (da_base a) (da_depth a + ds_level st + 1) (?pos + h) G @
               der_scope_events a ?stop (ds_ends st ! ds_level st # es) (F # Fs)) c')" (is "_ \<longleftrightarrow> ?r")
      using A(1-4) True stk len occ by (intro der_outcome_descended) simp_all
    also have "?r \<longleftrightarrow> der_outcome a st c"
    proof
      assume ?r
      then obtain G F Fs where G: "der_forest G = v" "\<forall>x \<in> set G. der_node_ok a (Suc (ds_level st)) x"
        and R: "der_scopes a ?stop (ds_ends st ! ds_level st # es) (F # Fs)"
         "ds_count st + (1 + sum_list (map der_elements G) + sum_list (map der_elements (concat (F # Fs))))
           \<le> dl_max_elements (da_limits a)"
         "c = der_run (da_visitor a) (der_events (da_data a) (da_base a) (da_depth a + ds_level st + 1) (?pos + h) G @
               der_scope_events a ?stop (ds_ends st ! ds_level st # es) (F # Fs)) c'" by blast
      have "der_node_ok a (ds_level st) (DER_Constructed t G)"
        using der_node_constructed G t lim True down by auto
      then show "der_outcome a st c" unfolding N using G R
        by (intro exI [of _ "DER_Constructed t G"] exI [of _ F] exI [of _ Fs]) (simp del: der_scopes.simps der_scope_events.simps)
    next
      assume "der_outcome a st c"
      then obtain x F Fs where x: "der_node_ok a (ds_level st) x" "der_tag_of x = t" "der_content x = v"
        and R: "der_scopes a ?stop (ds_ends st ! ds_level st # es) (F # Fs)"
          "ds_count st + (1 + sum_list (map der_elements (der_children x)) + sum_list (map der_elements (concat (F # Fs))))
            \<le> dl_max_elements (da_limits a)"
          "c = der_run (da_visitor a) (der_events (da_data a) (da_base a) (da_depth a + ds_level st + 1) (?pos + h) (der_children x) @
               der_scope_events a ?stop (ds_ends st ! ds_level st # es) (F # Fs)) c'" unfolding N by blast
      have "der_forest (der_children x) = v \<and> (\<forall>y \<in> set (der_children x). der_node_ok a (Suc (ds_level st)) y)"
        using der_node_children(3) [OF x(1)] x True down by (cases x) (auto simp: der_node_ok_def)
      then show ?r using R by blast
    qed
    finally show ?thesis by simp
  next
    case False
    have ch: "der_children x = []" if "der_node_ok a (ds_level st) x" "der_tag_of x = t" "der_content x = v" for x
      using der_node_children(2) [OF that(1)] that False down by auto
    have "der_outcome a ?st c \<longleftrightarrow>
      (\<exists>F Fs. der_scopes a ?stop (ds_ends st ! ds_level st # es) (F # Fs) \<and>
         ds_count st + (1 + sum_list (map der_elements (concat (F # Fs)))) \<le> dl_max_elements (da_limits a) \<and>
         c = der_run (da_visitor a) (der_scope_events a ?stop (ds_ends st ! ds_level st # es) (F # Fs)) c')"
      using False A stk len by (fastforce simp: der_outcome_def)
    also have "\<dots> \<longleftrightarrow> der_outcome a st c"
      unfolding N using der_node_primitive [OF t(1,3) chk lim(1)] ch False down by fastforce
    finally show ?thesis by simp
  qed
qed

section \<open>The loop\<close>

lemma der_outcome_element:
  assumes "der_outcome a st c" "der_stack st = e # es" "ds_pos st < e"
  obtains x where "der_node_ok a (length es) x" "occurs_at (der_encode x) (da_data a) (ds_pos st)"
    "ds_pos st + length (der_encode x) \<le> e" "ds_count st < dl_max_elements (da_limits a)"
proof -
  from assms obtain F Fs where F: "ds_pos st + length (der_forest F) = e" "occurs_at (der_forest F) (da_data a) (ds_pos st)"
    "\<forall>x \<in> set F. der_node_ok a (length es) x" "ds_count st + sum_list (map der_elements (concat (F # Fs))) \<le> dl_max_elements (da_limits a)"
    by (auto simp: der_outcome_def)
  obtain x F' where "F = x # F'" using F(1) assms(3) by (cases F) auto
  with F show thesis by (intro that [of x]) (auto simp: der_elements_eq [of x])
qed

definition der_at :: "'c der_args \<Rightarrow> 'c der_state \<Rightarrow> u8 list \<Rightarrow> u8 list \<Rightarrow> bool" where
  "der_at a st t v \<longleftrightarrow> der_tag_octets t \<and> occurs_at (t @ der_len (length v) @ v) (da_data a) (ds_pos st) \<and>
     length v \<le> dl_max_value_size (da_limits a) \<and>
     ds_pos st + length t + length (der_len (length v)) + length v \<le> ds_ends st ! ds_level st"

definition der_at_element :: "'c der_args \<Rightarrow> 'c der_state \<Rightarrow> u8 list \<Rightarrow> u8 list \<Rightarrow> tlv_element_t" where
  "der_at_element a st t v = \<lparr>elem_tag = tlv_tag (ptr_add (da_data a) (ds_pos st)) (length t),
      elem_value = \<lparr>val_data = ptr_add (da_data a) (ds_pos st + length t + length (der_len (length v))), val_size = length v\<rparr>\<rparr>"

definition der_at_node :: "'c der_args \<Rightarrow> 'c der_state \<Rightarrow> der_tree \<Rightarrow> bool" where
  "der_at_node a st x \<longleftrightarrow> der_node_ok a (ds_level st) x \<and> der_at a st (der_tag_of x) (der_content x) \<and>
     ds_count st < dl_max_elements (da_limits a)"

definition der_moves :: "'c der_args \<Rightarrow> 'c der_state \<Rightarrow> 'c der_state \<Rightarrow> u8 list \<Rightarrow> u8 list \<Rightarrow> 'c \<Rightarrow> bool" where
  "der_moves a st st' t v c \<longleftrightarrow> der_at a st t v \<and> da_depth a + ds_level st \<le> dl_max_depth (da_limits a) \<and>
     ds_count st < dl_max_elements (da_limits a) \<and>
     der_visit_element a (der_at_element a st t v) (da_depth a + ds_level st) (da_base a + ds_pos st) (ds_context st) = (c, None) \<and>
     st' = der_after a st (der_at_element a st t v) (length t + length (der_len (length v))) c (lead_constructed t \<and> v \<noteq> []) \<and>
     der_value_check (da_strict a) (tlv_tag (Ptr 0 t) (length t)) (Ptr 0 v) (length v) = TLV_OK \<and>
     (lead_constructed t \<and> v \<noteq> [] \<longrightarrow> da_depth a + ds_level st < dl_max_depth (da_limits a))"

lemma der_state_readable:
  assumes "der_state_ok a st"
  shows "ds_level st < length (ds_ends st)" "readable (da_data a) (ds_ends st ! ds_level st)"
    "ds_pos st \<le> ds_ends st ! ds_level st" "ds_count st \<le> dl_max_elements (da_limits a)"
proof -
  show lvl: "ds_level st < length (ds_ends st)" and "ds_count st \<le> dl_max_elements (da_limits a)"
    using assms by (auto simp: der_state_ok_def)
  obtain es where "der_stack st = ds_ends st ! ds_level st # es" using der_stack_Cons [OF lvl] by blast
  then show "readable (da_data a) (ds_ends st ! ds_level st)" "ds_pos st \<le> ds_ends st ! ds_level st"
    using assms ends_ok_readable by (fastforce simp: der_state_ok_def)+
qed

lemma der_read_at:
  assumes a: "der_args_ok a" and st: "der_state_ok a st"
  shows "tlv_der_read_element (ptr_add (da_data a) (ds_pos st)) (ds_ends st ! ds_level st - ds_pos st) (da_base a + ds_pos st)
      (da_limits a) element0 (ds_diag st) = (TLV_OK, el, ou, d) \<longleftrightarrow>
    (\<exists>t v. der_at a st t v \<and> el = der_at_element a st t v \<and> d = ds_diag st \<and>
       ou = Some (length t + length (der_len (length v)) + length v))" (is "?a \<longleftrightarrow> ?b")
proof -
  note R = der_state_readable [OF st]
  have m: "dl_max_value_size (da_limits a) \<le> TLV_SIZE_MAX" using a by (simp add: der_args_ok_def)
  note I = der_read_element_iff [OF R(2,3) m]
  show ?thesis
  proof
    assume ?a
    then obtain t len where t: "der_tag_octets t" "occurs_at (t @ der_len len) (da_data a) (ds_pos st)"
      "len \<le> dl_max_value_size (da_limits a)" "ds_pos st + length t + length (der_len len) + len \<le> ds_ends st ! ds_level st"
      "el = \<lparr>elem_tag = tlv_tag (ptr_add (da_data a) (ds_pos st)) (length t),
             elem_value = \<lparr>val_data = ptr_add (da_data a) (ds_pos st + length t + length (der_len len)), val_size = len\<rparr>\<rparr>"
      "ou = Some (length t + length (der_len len) + len)" "d = ds_diag st"
      unfolding I by blast
    let ?v = "take len (drop (ds_pos st + length t + length (der_len len)) (bytes (da_data a)))"
    have len: "length ?v = len" using t(4) R(2) by (simp add: readable_def)
    have "occurs_at ?v (da_data a) (ds_pos st + length t + length (der_len len))"
      unfolding occurs_at_def len by simp
    then show ?b using t len by (intro exI [of _ t] exI [of _ ?v]) (simp add: der_at_def der_at_element_def add.assoc)
  next
    assume ?b
    then obtain t v where "der_at a st t v" "el = der_at_element a st t v" "d = ds_diag st"
      "ou = Some (length t + length (der_len (length v)) + length v)" by blast
    then show ?a unfolding I der_at_def der_at_element_def by (intro exI [of _ t] exI [of _ "length v"]) auto
  qed
qed

lemma der_outcome_at:
  assumes a: "der_args_ok a" and st: "der_state_ok a st" and pos: "ds_pos st < ds_ends st ! ds_level st"
    and out: "der_outcome a st c"
  obtains x where "der_at_node a st x"
proof -
  obtain es where stk: "der_stack st = ds_ends st ! ds_level st # es" "length es = ds_level st"
    using der_stack_Cons [OF der_state_readable(1) [OF st]] by blast
  show thesis
    by (rule der_outcome_element [OF out stk(1) pos])
      (auto intro!: that simp: stk der_at_node_def der_node_ok_def der_tree_ok_iff der_at_def der_encode_eq add.assoc)
qed

lemma der_at_unique:
  assumes "der_args_ok a" "der_at a st t v" "der_at a st t' v'"
  shows "t' = t \<and> v' = v"
proof -
  let ?x = "DER_Primitive t' v'"
  have "length v \<le> TLV_SIZE_MAX" "length v' \<le> TLV_SIZE_MAX" using assms by (auto simp: der_at_def der_args_ok_def)
  then show ?thesis using der_node_at [of t v "da_data a" "ds_pos st" ?x] assms(2,3) by (simp add: der_at_def)
qed

lemma der_node_checked:
  assumes "der_node_ok a level x"
  shows "der_value_check (da_strict a) (tlv_tag (Ptr 0 (der_tag_of x)) (length (der_tag_of x))) (Ptr 0 (der_content x))
      (length (der_content x)) = TLV_OK"
    "lead_constructed (der_tag_of x) \<Longrightarrow> der_content x \<noteq> [] \<Longrightarrow> da_depth a + level < dl_max_depth (da_limits a)"
proof -
  have T: "tlv_asn1_tag_is_constructed (tlv_tag (Ptr 0 t) (length t)) = lead_constructed t" if "der_tag_octets t" for t
    using der_constructed_at [of t "Ptr 0 t" 0] der_tag_octets_nonempty [OF that] by (simp add: occurs_at_def)
  show "der_value_check (da_strict a) (tlv_tag (Ptr 0 (der_tag_of x)) (length (der_tag_of x))) (Ptr 0 (der_content x))
      (length (der_content x)) = TLV_OK"
    using assms T by (cases x) (auto simp: der_node_ok_def der_value_check_def)
  show "lead_constructed (der_tag_of x) \<Longrightarrow> der_content x \<noteq> [] \<Longrightarrow> da_depth a + level < dl_max_depth (da_limits a)"
    using assms by (cases x) (auto simp: der_node_ok_def)
qed

lemma der_step_exit:
  assumes "ds_pos st < ds_ends st ! ds_level st" "\<not> da_depth a + ds_level st > dl_max_depth (da_limits a)"
    "ds_count st \<noteq> dl_max_elements (da_limits a)"
    "tlv_der_read_element (ptr_add (da_data a) (ds_pos st)) (ds_ends st ! ds_level st - ds_pos st)
      (da_base a + ds_pos st) (da_limits a) element0 (ds_diag st) = (TLV_OK, el, ou, d)"
    "tlv_size_to_native (val_size (elem_value el)) True = (TLV_OK, Some n)"
    "der_visit_element a el (da_depth a + ds_level st) (da_base a + ds_pos st) (ds_context st) = (c, Some rc)"
  shows "\<exists>r. der_step a st = Inl (Some r)"
proof (cases "da_one a \<and> ds_pos st = 0")
  case True
  then have one: "da_one a \<and> ds_pos st = 0 \<longleftrightarrow> True" by simp
  show ?thesis unfolding der_step_def Let_def one using assms by (simp add: der_fail_def der_return_def)
next
  case False
  then have one: "da_one a \<and> ds_pos st = 0 \<longleftrightarrow> False" by simp
  show ?thesis unfolding der_step_def Let_def one using assms by (simp add: der_fail_def der_return_def)
qed

text \<open>One pass at an element: it ends the loop with an error, at the wish of the visitor, or moves on.\<close>

lemma der_step_cases:
  assumes a: "der_args_ok a" and st: "der_state_ok a st" and pos: "ds_pos st < ds_ends st ! ds_level st"
  obtains (exit) r where "der_step a st = Inl (Some r)"
      "never_stops (da_visitor a) \<Longrightarrow> fst r \<noteq> TLV_OK \<and> (\<forall>x. \<not> der_at_node a st x)"
  | (moves) st' t v c where "der_step a st = Inr st'" "der_moves a st st' t v c"
proof -
  let ?M = "dl_max_depth (da_limits a)" and ?d = "da_depth a + ds_level st"
  let ?read = "tlv_der_read_element (ptr_add (da_data a) (ds_pos st)) (ds_ends st ! ds_level st - ds_pos st)
      (da_base a + ds_pos st) (da_limits a) element0 (ds_diag st)"
  show thesis
  proof (cases "?d > ?M \<or> ds_count st = dl_max_elements (da_limits a)")
    case True
    then have "der_step a st = Inl (Some (der_fail st TLV_ERR_LIMIT (da_base a + ds_pos st)))"
      using pos by (simp add: der_step_def Let_def)
    moreover have "\<not> der_at_node a st x" for x using True by (auto simp: der_at_node_def der_node_ok_def)
    ultimately show thesis by (intro exit) (auto simp: der_fail_def der_return_def)
  next
    case False
    obtain rc el ou d where read: "?read = (rc, el, ou, d)" by (metis prod.exhaust)
    show thesis
    proof (cases "rc = TLV_OK")
      case bad: False
      then have "der_step a st = Inl (Some (der_return (st\<lparr>ds_diag := d\<rparr>) rc))"
        using False pos by (simp add: der_step_def Let_def read)
      moreover have "\<not> der_at a st t v" for t v using der_read_at [OF a st] read bad by fastforce
      then have "\<not> der_at_node a st x" for x by (simp add: der_at_node_def)
      ultimately show thesis using bad by (intro exit) (auto simp: der_return_def)
    next
      case True
      then obtain t v where at: "der_at a st t v" "el = der_at_element a st t v"
        using read der_read_at [OF a st] by blast
      note A = at(1) [unfolded der_at_def]
      obtain c ex where visit: "der_visit_element a el ?d (da_base a + ds_pos st) (ds_context st) = (c, ex)"
        by (metis prod.exhaust)
      show thesis
      proof (cases ex)
        case None
        note H = der_step_header [OF a st pos, of t v c, folded der_at_element_def]
        from H False A visit None at(2) consider
            "\<exists>st'. der_step a st = Inr st' \<and> der_moves a st st' t v c"
          | r where "der_step a st = Inl (Some r)" "fst r \<noteq> TLV_OK"
              "der_value_check (da_strict a) (tlv_tag (Ptr 0 t) (length t)) (Ptr 0 v) (length v) \<noteq> TLV_OK \<or>
               (lead_constructed t \<and> v \<noteq> []) \<and> ?d = ?M"
          using at(1) der_state_readable(4) [OF st] unfolding der_moves_def by fastforce
        then show thesis
        proof cases
          case 1
          then show thesis using moves by blast
        next
          case 2
          have "\<not> der_at_node a st x" for x
          proof
            assume "der_at_node a st x"
            then have x: "der_node_ok a (ds_level st) x" "der_at a st (der_tag_of x) (der_content x)" by (auto simp: der_at_node_def)
            then have "der_tag_of x = t" "der_content x = v" using der_at_unique [OF a at(1)] by auto
            with 2(3) show False using der_node_checked [OF x(1)] by auto
          qed
          with 2 show thesis by (intro exit) auto
        qed
      next
        case (Some rc')
        then have "\<not> never_stops (da_visitor a)" using visit never_stops_visit [of a] by (metis option.distinct(1) snd_conv)
        moreover have "tlv_size_to_native (val_size (elem_value el)) True = (TLV_OK, Some (length v))"
          using A a at(2) by (simp add: der_at_element_def der_args_ok_def SIZE_MAX_def TLV_SIZE_MAX_def)
        then have "\<exists>r. der_step a st = Inl (Some r)"
          using der_step_exit [OF pos] False read True visit Some by simp
        ultimately show thesis using exit by blast
      qed
    qed
  qed
qed

definition der_weight :: "'c der_args \<Rightarrow> 'c der_state \<Rightarrow> nat" where
  "der_weight a st = 2 * (length (bytes (da_data a)) - ds_pos st) + ds_level st"

lemma der_after_first:
  assumes "ds_level st = 0" "length (ds_ends st) = TLV_DER_MAX_DEPTH + 1" "da_one a" "ds_pos st = 0"
  shows "der_stack (der_after a st el h c down) =
      (let e = h + val_size (elem_value el) in if down then [e, e] else [e])"
    "ds_pos (der_after a st el h c down) = h + (if down then 0 else val_size (elem_value el))"
    "ds_count (der_after a st el h c down) = ds_count st + 1" "ds_context (der_after a st el h c down) = c"
    "ds_level (der_after a st el h c down) = (if down then 1 else 0)"
    "length (ds_ends (der_after a st el h c down)) = length (ds_ends st)"
    "ds_first (der_after a st el h c down) = Some (el, h + val_size (elem_value el))"
    "ds_diag (der_after a st el h c down) = ds_diag st"
proof -
  have "1 < length (ds_ends st)" using assms by (simp add: TLV_DER_MAX_DEPTH_def)
  then obtain x y zs where "ds_ends st = x # y # zs" by (cases "ds_ends st" rule: remdups_adj.cases) auto
  then show "der_stack (der_after a st el h c down) =
      (let e = h + val_size (elem_value el) in if down then [e, e] else [e])"
    "ds_pos (der_after a st el h c down) = h + (if down then 0 else val_size (elem_value el))"
    "ds_count (der_after a st el h c down) = ds_count st + 1" "ds_context (der_after a st el h c down) = c"
    "ds_level (der_after a st el h c down) = (if down then 1 else 0)"
    "length (ds_ends (der_after a st el h c down)) = length (ds_ends st)"
    "ds_first (der_after a st el h c down) = Some (el, h + val_size (elem_value el))"
    "ds_diag (der_after a st el h c down) = ds_diag st"
    using assms by (auto simp: der_after_def der_stack_def Let_def)
qed

lemma der_at_size:
  assumes "der_args_ok a" "der_at a st t v"
  shows "2 \<le> length t + length (der_len (length v))"
proof -
  have "length v \<le> TLV_SIZE_MAX" using assms by (auto simp: der_at_def der_args_ok_def)
  then have "der_len (length v) \<noteq> []" "t \<noteq> []" using der_len_nonempty der_tag_octets_nonempty assms(2) by (auto simp: der_at_def)
  then show ?thesis by (cases t; cases "der_len (length v)") auto
qed

lemma der_moves_ok:
  assumes a: "der_args_ok a" and st: "der_state_ok a st" and m: "der_moves a st st' t v c"
  shows "der_state_ok a st' \<and> der_weight a st' < der_weight a st \<and> 0 < ds_pos st'"
proof -
  define h down el where d: "h = length t + length (der_len (length v))" "down \<longleftrightarrow> lead_constructed t \<and> v \<noteq> []"
    "el = der_at_element a st t v"
  note R = der_state_readable [OF st]
  have M: "der_at a st t v" "st' = der_after a st el h c down" "ds_count st < dl_max_elements (da_limits a)"
    "down \<Longrightarrow> da_depth a + ds_level st < dl_max_depth (da_limits a)"
    "da_depth a + ds_level st \<le> dl_max_depth (da_limits a)"
    using m by (simp_all add: der_moves_def d)
  have h: "2 \<le> h" using der_at_size [OF a M(1)] by (simp add: d)
  have e: "ds_pos st + h + length v \<le> ds_ends st ! ds_level st" using M(1) by (simp add: der_at_def d)
  have val: "val_size (elem_value el) = length v" by (simp add: der_at_element_def d)
  have len: "length (ds_ends st) = TLV_DER_MAX_DEPTH + 1" using st by (simp add: der_state_ok_def)
  have lvl: "Suc (ds_level st) < length (ds_ends st) \<or> \<not> down" using M(4) a len by (auto simp: der_args_ok_def)
  have rd: "readable (da_data a) (ds_pos st + h + length v)" using R(2) e readable_mono by blast
  obtain es where stk: "der_stack st = ds_ends st ! ds_level st # es" "ends_ok (da_data a) (ds_ends st ! ds_level st) es"
    using der_stack_Cons [OF R(1)] st by (auto simp: der_state_ok_def)
  show ?thesis
  proof (cases "da_one a \<and> ds_pos st = 0")
    case True
    then have "ds_level st = 0" using st by (auto simp: der_state_ok_def)
    note A = der_after_first [OF this len conjunct1 [OF True] conjunct2 [OF True], of el h c down, folded M(2)]
    have "ends_ok (da_data a) (ds_pos st') (der_stack st')" using A(1,2) rd True val by (simp add: Let_def)
    then show ?thesis using A M(3-5) h len rd val True \<open>ds_level st = 0\<close>
      by (auto simp: der_state_ok_def der_weight_def readable_def TLV_DER_MAX_DEPTH_def)
  next
    case False
    note A = der_after_state [OF R(1) lvl False, of el h c, folded M(2)]
    have "ends_ok (da_data a) (ds_pos st') (der_stack st')" using A(1,2) e stk val by simp
    then show ?thesis using A M(3-5) h len lvl rd val R(1)
      by (auto simp: der_state_ok_def der_weight_def readable_def)
  qed
qed

lemma der_pop_ok:
  assumes st: "der_state_ok a st" and pos: "ds_pos st = ds_ends st ! ds_level st" "0 < ds_level st"
  defines "st' \<equiv> st\<lparr>ds_level := ds_level st - 1\<rparr>"
  shows "der_step a st = Inr st'" "der_state_ok a st'" "der_weight a st' < der_weight a st"
    "der_outcome a st c \<longleftrightarrow> der_outcome a st' c"
proof -
  note R = der_state_readable [OF st]
  have stk: "der_stack st = ds_pos st # der_stack st'" using der_stack_pop [OF R(1) pos(2)] pos(1) by (simp add: st'_def)
  show "der_step a st = Inr st'" using pos by (simp add: der_step_def Let_def st'_def)
  show "der_state_ok a st'" using st stk by (auto simp: der_state_ok_def st'_def)
  show "der_weight a st' < der_weight a st" using pos(2) by (simp add: der_weight_def st'_def)
  show "der_outcome a st c \<longleftrightarrow> der_outcome a st' c" using stk by (intro der_outcome_pop) (simp_all add: st'_def)
qed

lemma der_done:
  assumes st: "der_state_ok a st" and pos: "ds_pos st = ds_ends st ! ds_level st" "ds_level st = 0"
  shows "der_step a st = Inl (Some (der_return st TLV_OK))" "der_outcome a st c \<longleftrightarrow> c = ds_context st"
proof -
  note R = der_state_readable [OF st]
  show "der_step a st = Inl (Some (der_return st TLV_OK))" using pos by (simp add: der_step_def Let_def)
  have "der_stack st = [ds_pos st]" using der_stack_Cons [OF R(1)] pos by auto
  then show "der_outcome a st c \<longleftrightarrow> c = ds_context st" using R(4) by (rule der_outcome_finished)
qed

text \<open>The loop returns, whatever the visitor does, and never leaves its stack.\<close>

lemma der_loop_returns:
  assumes "der_args_ok a" "der_state_ok a st"
  shows "\<exists>r. der_loop a st = Some r"
  using assms(2)
proof (induction "der_weight a st" arbitrary: st rule: less_induct)
  case less
  note R = der_state_readable [OF less.prems]
  consider "ds_pos st < ds_ends st ! ds_level st" | "ds_pos st = ds_ends st ! ds_level st" "0 < ds_level st"
    | "ds_pos st = ds_ends st ! ds_level st" "ds_level st = 0" using R(3) by linarith
  then show ?case
  proof cases
    case 1
    show ?thesis
    proof (rule der_step_cases [OF assms(1) less.prems 1])
      fix st' t v c assume "der_step a st = Inr st'" "der_moves a st st' t v c"
      then show ?thesis using less.hyps der_moves_ok [OF assms(1) less.prems] by (metis der_loop.simps sum.case(2))
    qed (metis der_loop.simps sum.case(1))
  next
    case 2
    then show ?thesis using less.hyps der_pop_ok [OF less.prems 2] by (metis der_loop.simps sum.case(2))
  next
    case 3
    then show ?thesis using der_done(1) [OF less.prems 3] by (metis der_loop.simps sum.case(1))
  qed
qed

lemma der_moves_outcome:
  assumes a: "der_args_ok a" and st: "der_state_ok a st" and m: "der_moves a st st' t v c'"
    and pos: "ds_pos st < ds_ends st ! ds_level st" and one: "\<not> (da_one a \<and> ds_pos st = 0)" and v: "never_stops (da_visitor a)"
  shows "der_outcome a st c \<longleftrightarrow> der_outcome a st' c" "ds_first st' = ds_first st" "ds_diag st' = ds_diag st"
proof -
  define h down el where d: "h = length t + length (der_len (length v))" "down \<longleftrightarrow> lead_constructed t \<and> v \<noteq> []"
    "el = der_at_element a st t v"
  have M: "der_at a st t v" "st' = der_after a st el h c' down"
    using m by (simp_all add: der_moves_def d)
  have lvl: "Suc (ds_level st) < length (ds_ends st) \<or> \<not> down"
    using m a st by (auto simp: der_args_ok_def der_moves_def d der_state_ok_def)
  show "der_outcome a st c \<longleftrightarrow> der_outcome a st' c"
    unfolding M(2) d
    using der_outcome_after [OF der_state_readable(1) [OF st] lvl one, of t v c' c] M(1) m pos a v
    by (simp add: der_at_def der_moves_def der_args_ok_def der_at_element_def d)
  show "ds_first st' = ds_first st" "ds_diag st' = ds_diag st"
    unfolding M(2) by (simp_all add: der_after_state [OF der_state_readable(1) [OF st] lvl one])
qed

lemma der_loop_outcome:
  assumes a: "der_args_ok a" and v: "never_stops (da_visitor a)"
    and "der_state_ok a st" "\<not> (da_one a \<and> ds_pos st = 0)"
  shows "der_loop a st = Some (TLV_OK, f, c, d) \<longleftrightarrow> der_outcome a st c \<and> f = ds_first st \<and> d = ds_diag st"
  using assms(3,4)
proof (induction "der_weight a st" arbitrary: st rule: less_induct)
  case less
  note R = der_state_readable [OF less.prems(1)]
  consider "ds_pos st < ds_ends st ! ds_level st" | "ds_pos st = ds_ends st ! ds_level st" "0 < ds_level st"
    | "ds_pos st = ds_ends st ! ds_level st" "ds_level st = 0" using R(3) by linarith
  then show ?case
  proof cases
    case 1
    show ?thesis
    proof (rule der_step_cases [OF a less.prems(1) 1])
      fix r assume r: "der_step a st = Inl (Some r)" "never_stops (da_visitor a) \<Longrightarrow> fst r \<noteq> TLV_OK \<and> (\<forall>x. \<not> der_at_node a st x)"
      then show ?thesis using v der_outcome_at [OF a less.prems(1) 1] by (subst der_loop.simps) auto
    next
      fix st' t w c' assume s: "der_step a st = Inr st'" "der_moves a st st' t w c'"
      note K = der_moves_ok [OF a less.prems(1) s(2)] and O = der_moves_outcome [OF a less.prems(1) s(2) 1 less.prems(2) v]
      from K less.hyps [of st'] O s(1) show ?thesis by (subst der_loop.simps) auto
    qed
  next
    case 2
    note P = der_pop_ok [OF less.prems(1) 2]
    show ?thesis using less.hyps [OF P(3,2)] P(1,4) less.prems(2) by (subst der_loop.simps) simp
  next
    case 3
    show ?thesis using der_done [OF less.prems(1) 3] by (subst der_loop.simps) (auto simp: der_return_def)
  qed
qed

section \<open>The traversal as a whole\<close>

definition der_start :: "nat \<Rightarrow> nat \<Rightarrow> 'c \<Rightarrow> tlv_diagnostic_t option \<Rightarrow> 'c der_state" where
  "der_start n k c d = \<lparr>ds_level = 0, ds_pos = 0, ds_count = k, ds_ends = (replicate (TLV_DER_MAX_DEPTH + 1) 0)[0 := n],
     ds_first = None, ds_context = c, ds_diag = d\<rparr>"

lemma der_start_simps [simp]:
  "ds_level (der_start n k c d) = 0" "ds_pos (der_start n k c d) = 0" "ds_count (der_start n k c d) = k"
  "length (ds_ends (der_start n k c d)) = TLV_DER_MAX_DEPTH + 1" "ds_ends (der_start n k c d) ! 0 = n"
  "ds_first (der_start n k c d) = None" "ds_context (der_start n k c d) = c" "ds_diag (der_start n k c d) = d"
  "der_stack (der_start n k c d) = [n]"
  by (simp_all add: der_start_def der_stack_def)

lemma der_traverse_start: "der_traverse a n k c d = der_loop a (der_start n k c d)"
  by (simp add: der_traverse_def der_start_def)

lemma der_start_ok:
  "readable (da_data a) n \<Longrightarrow> k \<le> dl_max_elements (da_limits a) \<Longrightarrow> der_state_ok a (der_start n k c d)"
  by (simp add: der_state_ok_def)

lemma der_traverse_returns:
  assumes "der_args_ok a" "readable (da_data a) n" "k \<le> dl_max_elements (da_limits a)"
  shows "\<exists>r. der_traverse a n k c d = Some r"
  unfolding der_traverse_start using der_loop_returns [OF assms(1) der_start_ok [OF assms(2,3)]] .

lemma der_traverse_iff:
  assumes a: "der_args_ok a" "\<not> da_one a" "never_stops (da_visitor a)"
    and n: "readable (da_data a) n" "k \<le> dl_max_elements (da_limits a)"
  shows "der_traverse a n k c0 d0 = Some (TLV_OK, f, c, d) \<longleftrightarrow>
    (\<exists>ts. take n (bytes (da_data a)) = der_forest ts \<and> (\<forall>x \<in> set ts. der_node_ok a 0 x) \<and>
       k + sum_list (map der_elements ts) \<le> dl_max_elements (da_limits a) \<and>
       c = der_run (da_visitor a) (der_events (da_data a) (da_base a) (da_depth a) 0 ts) c0) \<and> f = None \<and> d = d0"
proof -
  have occ: "length ts = n \<and> occurs_at ts (da_data a) 0 \<longleftrightarrow> take n (bytes (da_data a)) = ts" for ts
    using n(1) by (auto simp: occurs_at_def readable_def)
  have "der_outcome a (der_start n k c0 d0) c \<longleftrightarrow>
    (\<exists>ts. take n (bytes (da_data a)) = der_forest ts \<and> (\<forall>x \<in> set ts. der_node_ok a 0 x) \<and>
       k + sum_list (map der_elements ts) \<le> dl_max_elements (da_limits a) \<and>
       c = der_run (da_visitor a) (der_events (da_data a) (da_base a) (da_depth a) 0 ts) c0)"
    unfolding der_outcome_def occ [symmetric] by (auto intro: exI [of _ "[_]"])
  then show ?thesis
    unfolding der_traverse_start using der_loop_outcome [OF a(1,3) der_start_ok [OF n]] a(2) by simp
qed

lemma der_scopes_one:
  "der_scopes (a\<lparr>da_one := b\<rparr>) pos es Fs = der_scopes a pos es Fs"
  "der_scope_events (a\<lparr>da_one := b\<rparr>) pos es Fs = der_scope_events a pos es Fs"
proof -
  show "der_scopes (a\<lparr>da_one := b\<rparr>) pos es Fs = der_scopes a pos es Fs"
    by (induction es arbitrary: pos Fs) (auto simp: der_node_ok_def)
  show "der_scope_events (a\<lparr>da_one := b\<rparr>) pos es Fs = der_scope_events a pos es Fs"
    by (induction a pos es Fs rule: der_scope_events.induct) auto
qed

lemma der_outcome_cong:
  assumes "ds_pos st = ds_pos st'" "der_stack st = der_stack st'" "ds_count st = ds_count st'" "ds_context st = ds_context st'"
  shows "der_outcome (a\<lparr>da_one := b\<rparr>) st c = der_outcome a st' c"
  using assms by (simp add: der_outcome_def der_scopes_one)

text \<open>Reading one element: the traversal does not look behind it.\<close>

lemma der_first_outcome:
  assumes a: "der_args_ok a" "da_one a" "never_stops (da_visitor a)" and n: "readable (da_data a) n" "k \<le> dl_max_elements (da_limits a)"
    and m: "der_moves a (der_start n k c0 d0) st' t v c'"
  defines "e \<equiv> length t + length (der_len (length v)) + length v"
  shows "der_outcome a st' c \<longleftrightarrow> der_outcome (a\<lparr>da_one := False\<rparr>) (der_start e k c0 d0) c"
    "ds_first st' = Some (der_at_element a (der_start n k c0 d0) t v, e)" "ds_diag st' = d0"
    "e \<le> n" "0 < e" "der_state_ok a st'" "0 < ds_pos st'"
proof -
  define h down el where d: "h = length t + length (der_len (length v))" "down \<longleftrightarrow> lead_constructed t \<and> v \<noteq> []"
    "el = der_at_element a (der_start n k c0 d0) t v"
  let ?a = "a\<lparr>da_one := False\<rparr>" and ?st = "der_start e k c0 d0"
  have st': "st' = der_after a (der_start n k c0 d0) el h c' down" and at: "der_at a (der_start n k c0 d0) t v"
    using m by (simp_all add: der_moves_def d)
  have val: "val_size (elem_value el) = length v" by (simp add: d der_at_element_def)
  note A = der_after_first [OF der_start_simps(1) der_start_simps(4) a(2) der_start_simps(2), of n k c0 d0 el h c' down, folded st']
  show le: "e \<le> n" using at by (simp add: der_at_def e_def)
  show pos: "0 < e" using der_at_size [OF a(1) at] unfolding e_def by linarith
  have eh: "e = h + length v" by (simp add: e_def d)
  show "ds_first st' = Some (der_at_element a (der_start n k c0 d0) t v, e)" "ds_diag st' = d0"
    using A(7,8) val eh by (simp_all add: d)
  show "der_state_ok a st'" "0 < ds_pos st'" using der_moves_ok [OF a(1) der_start_ok [OF n] m] by simp_all
  have re: "readable (da_data ?a) e" using le n(1) readable_mono by auto
  have m2: "der_moves ?a ?st (der_after ?a ?st el h c' down) t v c'"
    using m eh by (auto simp: der_moves_def der_at_def der_at_element_def der_visit_element_def d)
  have lvl: "ds_level ?st < length (ds_ends ?st)" "Suc (ds_level ?st) < length (ds_ends ?st) \<or> \<not> down" "\<not> (da_one ?a \<and> ds_pos ?st = 0)"
    by (auto simp: TLV_DER_MAX_DEPTH_def)
  note B = der_after_state [OF lvl, of el h c']
  have "der_outcome a st' c = der_outcome ?a (der_after ?a ?st el h c' down) c"
    using A B val eh by (intro der_outcome_cong [symmetric]) (auto simp: Let_def)
  also have "\<dots> = der_outcome ?a ?st c"
    using der_moves_outcome(1) [OF _ der_start_ok [OF re] m2] a pos n(2) by (simp add: der_args_ok_def)
  finally show "der_outcome a st' c \<longleftrightarrow> der_outcome ?a ?st c" .
qed

lemma der_traverse_single:
  assumes a: "der_args_ok a" "\<not> da_one a" "never_stops (da_visitor a)"
    and n: "readable (da_data a) e" "0 < e" "k \<le> dl_max_elements (da_limits a)" "e \<le> n"
    and all: "\<And>x. occurs_at (der_encode x) (da_data a) 0 \<Longrightarrow> length (der_encode x) \<le> n \<Longrightarrow> der_node_ok a 0 x \<Longrightarrow>
      k + der_elements x \<le> dl_max_elements (da_limits a) \<Longrightarrow> length (der_encode x) = e"
  shows "der_traverse a e k c0 d0 = Some (TLV_OK, None, c, d0) \<longleftrightarrow>
    (\<exists>x. occurs_at (der_encode x) (da_data a) 0 \<and> length (der_encode x) \<le> n \<and> der_node_ok a 0 x \<and>
       k + der_elements x \<le> dl_max_elements (da_limits a) \<and>
       c = der_run (da_visitor a) (der_events (da_data a) (da_base a) (da_depth a) 0 [x]) c0)" (is "_ \<longleftrightarrow> (\<exists>x. ?q x)")
  unfolding der_traverse_iff [OF a n(1,3)]
proof
  assume "(\<exists>ts. take e (bytes (da_data a)) = der_forest ts \<and> (\<forall>x \<in> set ts. der_node_ok a 0 x) \<and>
      k + sum_list (map der_elements ts) \<le> dl_max_elements (da_limits a) \<and>
      c = der_run (da_visitor a) (der_events (da_data a) (da_base a) (da_depth a) 0 ts) c0) \<and> None = None \<and> d0 = d0"
  then obtain ts where ts: "take e (bytes (da_data a)) = der_forest ts" "\<forall>x \<in> set ts. der_node_ok a 0 x"
      "k + sum_list (map der_elements ts) \<le> dl_max_elements (da_limits a)"
      "c = der_run (da_visitor a) (der_events (da_data a) (da_base a) (da_depth a) 0 ts) c0" by blast
  have le: "length (der_forest ts) = e" using arg_cong [OF ts(1), of length] n(1) by (simp add: readable_def)
  obtain y ys where y: "ts = y # ys" using le n(2) by (cases ts) auto
  have q: "occurs_at (der_forest ts) (da_data a) 0" unfolding occurs_at_def le using ts(1) by simp
  then have "length (der_encode y) = e" using all [of y] ts y le n(4) by auto
  then have "der_forest ys = []" using le y by simp
  then have "ys = []" using der_forest_Nil ts(2) y by (fastforce simp: der_node_ok_def)
  then show "\<exists>x. ?q x" using ts y q le n(4) by (intro exI [of _ y]) simp
next
  assume "\<exists>x. ?q x"
  then obtain y where y: "?q y" by blast
  then have "length (der_encode y) = e" using all by blast
  then show "(\<exists>ts. take e (bytes (da_data a)) = der_forest ts \<and> (\<forall>x \<in> set ts. der_node_ok a 0 x) \<and>
      k + sum_list (map der_elements ts) \<le> dl_max_elements (da_limits a) \<and>
      c = der_run (da_visitor a) (der_events (da_data a) (da_base a) (da_depth a) 0 ts) c0) \<and> None = None \<and> d0 = d0"
    using y by (intro conjI exI [of _ "[y]"]) (simp_all add: occurs_at_def)
qed

lemma der_traverse_one:
  assumes a: "der_args_ok a" "da_one a" "never_stops (da_visitor a)"
    and n: "readable (da_data a) n" "0 < n" "k \<le> dl_max_elements (da_limits a)"
  shows "der_traverse a n k c0 d0 = Some (TLV_OK, f, c, d) \<longleftrightarrow>
    (\<exists>x. occurs_at (der_encode x) (da_data a) 0 \<and> length (der_encode x) \<le> n \<and> der_node_ok a 0 x \<and>
       k + der_elements x \<le> dl_max_elements (da_limits a) \<and>
       c = der_run (da_visitor a) (der_events (da_data a) (da_base a) (da_depth a) 0 [x]) c0 \<and>
       f = Some (der_element_at (da_data a) 0 x, length (der_encode x))) \<and> d = d0" (is "?l \<longleftrightarrow> (\<exists>x. ?r x) \<and> d = d0")
proof -
  let ?st = "der_start n k c0 d0"
  note S = der_start_ok [OF n(1,3), of c0 d0]
  have lt: "ds_pos ?st < ds_ends ?st ! ds_level ?st" using n(2) by simp
  have node: "der_at_node a ?st x" if "occurs_at (der_encode x) (da_data a) 0" "length (der_encode x) \<le> n" "der_node_ok a 0 x"
      "k + der_elements x \<le> dl_max_elements (da_limits a)" for x
    using that by (auto simp: der_at_node_def der_at_def der_encode_eq [of x] der_node_ok_def der_tree_ok_iff [of _ _ x]
        der_elements_eq [of x] add.assoc)
  show ?thesis
  proof (rule der_step_cases [OF a(1) S lt])
    fix r assume "der_step a ?st = Inl (Some r)" "never_stops (da_visitor a) \<Longrightarrow> fst r \<noteq> TLV_OK \<and> (\<forall>x. \<not> der_at_node a ?st x)"
    then show ?thesis using a(3) node unfolding der_traverse_start by (subst der_loop.simps) auto
  next
    fix st' t v c' assume s: "der_step a ?st = Inr st'" "der_moves a ?st st' t v c'"
    let ?a = "a\<lparr>da_one := False\<rparr>" and ?e = "length t + length (der_len (length v)) + length v"
    note F = der_first_outcome [OF a n(1,3) s(2)]
    have at: "der_at a ?st t v" using s(2) by (simp add: der_moves_def)
    have x: "length (der_encode x) = ?e" "der_at_element a ?st t v = der_element_at (da_data a) 0 x" if "der_at_node a ?st x" for x
      using der_at_unique [OF a(1) at, of "der_tag_of x" "der_content x"] that
      by (auto simp: der_at_node_def der_header_encode der_header_def der_at_element_def der_element_at_def)
    have a': "der_args_ok ?a" "\<not> da_one ?a" "never_stops (da_visitor ?a)" "readable (da_data ?a) ?e" "k \<le> dl_max_elements (da_limits ?a)"
      using a n F(4) readable_mono by (auto simp: der_args_ok_def)
    have "?l \<longleftrightarrow> der_outcome a st' c \<and> f = Some (der_at_element a ?st t v, ?e) \<and> d = d0"
      unfolding der_traverse_start using der_loop_outcome [OF a(1,3) F(6), of f c d] F(2,3,7) s(1)
      by (subst der_loop.simps) simp
    also have "der_outcome a st' c \<longleftrightarrow> der_traverse ?a ?e k c0 d0 = Some (TLV_OK, None, c, d0)"
      unfolding F(1) der_traverse_start using der_loop_outcome [OF a'(1,3) der_start_ok [OF a'(4,5)], of c0 d0 None c d0] a'(2) by simp
    also have "\<dots> \<longleftrightarrow> (\<exists>x. occurs_at (der_encode x) (da_data a) 0 \<and> length (der_encode x) \<le> n \<and> der_node_ok a 0 x \<and>
       k + der_elements x \<le> dl_max_elements (da_limits a) \<and>
       c = der_run (da_visitor a) (der_events (da_data a) (da_base a) (da_depth a) 0 [x]) c0)" (is "_ \<longleftrightarrow> (\<exists>x. ?q x)")
      using der_traverse_single [OF a'(1-4) F(5) a'(5) F(4)] x(1) [OF node] by (simp add: der_node_ok_def)
    finally have L: "?l \<longleftrightarrow> (\<exists>x. ?q x) \<and> f = Some (der_at_element a ?st t v, ?e) \<and> d = d0" .
    have "?r y \<longleftrightarrow> ?q y \<and> f = Some (der_at_element a ?st t v, ?e)" for y
      using x [OF node, of y] by metis
    then show ?thesis unfolding L by blast
  qed
qed

end
