(* ===== verification/TLV_DER_Interface.thy ===== *)
theory TLV_DER_Interface
  imports TLV_DER_Traversal
begin

text \<open>
  Visiting, reading and writing DER in terms of trees.
\<close>

section \<open>Visiting and reading\<close>

definition der_limits_ok :: "tlv_der_limits_t \<Rightarrow> bool" where
  "der_limits_ok L \<longleftrightarrow> dl_max_depth L \<le> TLV_DER_MAX_DEPTH \<and> dl_max_value_size L \<le> TLV_SIZE_MAX"

text \<open>A tree within the limits, as an element at the outermost level.\<close>

definition der_root_ok :: "bool \<Rightarrow> tlv_der_limits_t \<Rightarrow> der_tree \<Rightarrow> bool" where
  "der_root_ok strict L x \<longleftrightarrow> der_tree_ok strict (dl_max_value_size L) x \<and> der_fits (dl_max_depth L) x"

lemma der_node_root:
  "der_node_ok \<lparr>da_data = p, da_base = b, da_depth = 0, da_limits = L, da_visitor = v, da_one = one, da_strict = strict\<rparr> 0 x \<longleftrightarrow>
   der_root_ok strict L x"
  by (simp add: der_node_ok_def der_root_ok_def)

lemma der_visit_impl_iff:
  assumes "readable p n" "dl_max_value_size (der_limits limits) \<le> TLV_SIZE_MAX" "never_stops visitor"
  shows "der_visit_impl p n limits visitor c0 strict d0 = Some (TLV_OK, c, d) \<longleftrightarrow>
    dl_max_depth (der_limits limits) \<le> TLV_DER_MAX_DEPTH \<and> n \<le> dl_max_input_size (der_limits limits) \<and>
    (\<exists>ts. take n (bytes p) = der_forest ts \<and> (\<forall>x \<in> set ts. der_root_ok strict (der_limits limits) x) \<and>
       sum_list (map der_elements ts) \<le> dl_max_elements (der_limits limits) \<and>
       c = der_run visitor (der_events p 0 0 0 ts) c0) \<and> d = d0"
proof -
  let ?L = "der_limits limits"
  let ?a = "\<lparr>da_data = p, da_base = 0, da_depth = 0, da_limits = ?L, da_visitor = visitor, da_one = False, da_strict = strict\<rparr>"
  have nz: "\<not> (p = Null \<and> n \<noteq> 0)" using assms(1) by auto
  show ?thesis
  proof (cases "dl_max_depth ?L \<le> TLV_DER_MAX_DEPTH \<and> n \<le> dl_max_input_size ?L")
    case True
    then have a: "der_args_ok ?a" "\<not> da_one ?a" "never_stops (da_visitor ?a)" "readable (da_data ?a) n" using assms by (auto simp: der_args_ok_def)
    have "der_visit_impl p n limits visitor c0 strict d0 = Some (TLV_OK, c, d) \<longleftrightarrow>
        (\<exists>f. der_traverse ?a n 0 c0 d0 = Some (TLV_OK, f, c, d))"
      using True nz by (auto simp: der_visit_impl_def Let_def not_less)
    then show ?thesis using der_traverse_iff [OF a, of 0] True by (simp add: der_node_root)
  next
    case False
    then show ?thesis using nz by (auto simp: der_visit_impl_def asn1_unlocated_def Let_def not_le)
  qed
qed

lemma der_visit_impl_returns:
  assumes "readable p n" "dl_max_value_size (der_limits limits) \<le> TLV_SIZE_MAX"
  shows "\<exists>r. der_visit_impl p n limits visitor c0 strict d0 = Some r"
proof -
  let ?L = "der_limits limits"
  let ?a = "\<lparr>da_data = p, da_base = 0, da_depth = 0, da_limits = ?L, da_visitor = visitor, da_one = False, da_strict = strict\<rparr>"
  have "dl_max_depth ?L \<le> TLV_DER_MAX_DEPTH \<Longrightarrow> \<exists>r. der_traverse ?a n 0 c0 d0 = Some r"
    using assms by (intro der_traverse_returns) (auto simp: der_args_ok_def)
  then show ?thesis by (auto simp: der_visit_impl_def asn1_unlocated_def Let_def not_less)
qed

lemma der_read_impl_iff:
  assumes "readable p n" "dl_max_value_size (der_limits limits) \<le> TLV_SIZE_MAX"
  shows "der_read_impl p n limits True strict d0 = Some (TLV_OK, r, d) \<longleftrightarrow>
    dl_max_depth (der_limits limits) \<le> TLV_DER_MAX_DEPTH \<and> n \<le> dl_max_input_size (der_limits limits) \<and>
    (\<exists>x. take (length (der_encode x)) (bytes p) = der_encode x \<and> length (der_encode x) \<le> n \<and> der_root_ok strict (der_limits limits) x \<and>
       der_elements x \<le> dl_max_elements (der_limits limits) \<and>
       r = Some (der_element_at p 0 x, length (der_encode x))) \<and> d = d0"
proof -
  let ?L = "der_limits limits"
  let ?a = "\<lparr>da_data = p, da_base = 0, da_depth = 0, da_limits = ?L, da_visitor = None, da_one = True, da_strict = strict\<rparr>
      :: unit der_args"
  have nz: "\<not> (p = Null \<and> n \<noteq> 0)" using assms(1) by auto
  show ?thesis
  proof (cases "dl_max_depth ?L \<le> TLV_DER_MAX_DEPTH \<and> n \<le> dl_max_input_size ?L \<and> 0 < n")
    case True
    then have a: "der_args_ok ?a" "da_one ?a" "never_stops (da_visitor ?a)" "readable (da_data ?a) n"
      using assms by (auto simp: der_args_ok_def never_stops_def)
    have "der_read_impl p n limits True strict d0 = Some (TLV_OK, r, d) \<longleftrightarrow>
        (\<exists>c. der_traverse ?a n 0 () d0 = Some (TLV_OK, r, c, d))"
      using True nz by (auto simp: der_read_impl_def Let_def not_less)
    then show ?thesis using der_traverse_one [OF a, of 0] True by (auto simp: der_node_root occurs_at_def)
  next
    case False
    have "\<not> (der_root_ok strict ?L x \<and> length (der_encode x) \<le> 0)" for x
      using der_encode_nonempty by (auto simp: der_root_ok_def)
    then show ?thesis using nz False
      by (cases "n = 0") (auto simp: der_read_impl_def asn1_unlocated_def asn1_fail_def Let_def not_le)
  qed
qed

lemma der_element_at_content:
  assumes "occurs_at (der_encode x) p pos"
  shows "tag_bytes (elem_tag (der_element_at p pos x)) = der_tag_of x"
    "value_bytes (elem_value (der_element_at p pos x)) = der_content x"
  using assms unfolding der_encode_eq [of x] occurs_at_append
  by (simp_all add: occurs_at_def der_element_at_def tag_bytes_def value_bytes_def tlv_tag_def der_header_def add.assoc)

section \<open>Writing\<close>

lemma der_write_bytes:
  assumes wf: "element_wf \<lparr>elem_tag = tag, elem_value = \<lparr>val_data = val, val_size = len\<rparr>\<rparr>" and cap: "cap \<le> length buf"
    and ok: "tlv_write (Some buf) cap (Some tlv_format_der) tag val len True = (TLV_OK, ob, ow)"
  defines "w \<equiv> tag_bytes tag @ der_len len @ take len (bytes val)"
  shows "ob = Some (blit 0 w buf)" "ow = Some (length w)" "length w \<le> cap" "der_tag_octets (tag_bytes tag)"
proof -
  let ?el = "\<lparr>elem_tag = tag, elem_value = \<lparr>val_data = val, val_size = len\<rparr>\<rparr>"
  have w: "fields_wire tlv_der_fields der_len ?el = w"
    by (simp add: fields_wire_def order_tlv_def wire_count_def scoped_def tlv_der_fields_def w_def value_bytes_def)
  have f: "fmt_measure tlv_format_der = Some (tlv_fields_measure tlv_der_fields)"
    "fmt_encode tlv_format_der = Some (tlv_fields_encode tlv_der_fields)" by (simp_all add: tlv_format_der_def)
  obtain oe where enc: "tlv_format_encode (Some tlv_format_der) (Some ?el) (Some buf) cap True = (TLV_OK, ob, ow, oe)"
    using ok by (auto simp: tlv_write_def tlv_write_diag_def tlv_write_element_diag_def split: prod.splits)
  then obtain en oe' where m: "tlv_format_measure (Some tlv_format_der) (Some ?el) True = (TLV_OK, Some en, oe')" "en_total en \<le> cap"
    by (auto simp: tlv_format_encode_def tlv_format_measure_def Let_def tlv_size_to_native_iff split: prod.splits if_splits option.splits)
  then have M: "fst (tlv_fields_measure tlv_der_fields ?el encoding0 error0) = TLV_OK"
    by (auto simp: tlv_format_measure_def f Let_def tlv_callback_result_eq_OK split: prod.splits if_splits)
  show c: "length w \<le> cap"
    by (rule der.codec_measure [OF f wf M, unfolded w]) (use m in auto)
  show "ob = Some (blit 0 w buf)" "ow = Some (length w)"
    using der.codec_encode [OF f wf M, unfolded w, OF c cap] enc by auto
  obtain en' e where "tlv_fields_measure tlv_der_fields ?el encoding0 error0 = (TLV_OK, en', e)" using M by (metis prod.exhaust_sel)
  note F = der.field_sizes_inv(1) [OF wf der.fields_measure_inv(1) [OF wf this], simplified]
  have t: "tag_wf tag" using wf by (simp add: element_wf_def)
  have "der_read_tag (Ptr 0 (tag_bytes tag)) (tag_size tag) =
      (TLV_OK, Some (tlv_tag (Ptr 0 (tag_bytes tag)) (tag_size tag)), Some (tag_size tag))"
    using t F by (intro der_id.read_written_tag [OF t F]) auto
  then show "der_tag_octets (tag_bytes tag)" using t by (simp add: der_tag_octets_def)
qed

text \<open>The size does not depend on the value's octets.\<close>

lemma fields_measure_data:
  "tlv_fields_measure f \<lparr>elem_tag = t, elem_value = \<lparr>val_data = p, val_size = n\<rparr>\<rparr> en e =
   tlv_fields_measure f \<lparr>elem_tag = t, elem_value = \<lparr>val_data = q, val_size = n\<rparr>\<rparr> en e"
  unfolding tlv_fields_measure_def field_sizes_def tlv_element_t.select_convs tlv_value_t.select_convs by (rule refl)

lemma der_encoded_size:
  assumes wf: "element_wf \<lparr>elem_tag = tag, elem_value = \<lparr>val_data = val, val_size = len\<rparr>\<rparr>"
    and ok: "tlv_encoded_size tag len (Some tlv_format_der) True = (TLV_OK, ot)"
  shows "ot = Some (length (tag_bytes tag @ der_len len @ take len (bytes val)))"
proof -
  let ?el = "\<lambda>p. \<lparr>elem_tag = tag, elem_value = \<lparr>val_data = p, val_size = len\<rparr>\<rparr>"
  have f: "fmt_measure tlv_format_der = Some (tlv_fields_measure tlv_der_fields)"
    "fmt_encode tlv_format_der = Some (tlv_fields_encode tlv_der_fields)" by (simp_all add: tlv_format_der_def)
  have eq: "tlv_format_measure (Some tlv_format_der) (Some (?el Null)) True = tlv_format_measure (Some tlv_format_der) (Some (?el val)) True"
    unfolding tlv_format_measure_def f option.case option.sel tlv_element_t.select_convs tlv_value_t.select_convs
      fields_measure_data [of tlv_der_fields tag Null len encoding0 error0 val] by (rule refl)
  obtain en oe where m: "tlv_format_measure (Some tlv_format_der) (Some (?el val)) True = (TLV_OK, Some en, oe)" "ot = Some (en_total en)"
    using ok unfolding eq [symmetric]
    by (auto simp: tlv_encoded_size_def tlv_element_encoded_size_def tlv_element_encoded_size_diag_def tlv_size_to_native_iff
        tlv_format_measure_def Let_def split: prod.splits if_splits option.splits)
  then have M: "fst (tlv_fields_measure tlv_der_fields (?el val) encoding0 error0) = TLV_OK"
    by (auto simp: tlv_format_measure_def f Let_def tlv_callback_result_eq_OK split: prod.splits if_splits)
  show ?thesis
    by (rule der.codec_measure [OF f wf M])
      (use m in \<open>auto simp: fields_wire_def order_tlv_def wire_count_def scoped_def tlv_der_fields_def value_bytes_def\<close>)
qed

lemma der_write_impl_OK:
  assumes wf: "element_wf \<lparr>elem_tag = tag, elem_value = \<lparr>val_data = val, val_size = len\<rparr>\<rparr>" and cap: "cap \<le> length buf"
    and L: "dl_max_value_size (der_limits limits) \<le> TLV_SIZE_MAX"
    and ok: "der_write_impl (Some buf) cap tag val len limits strict True d0 = Some (TLV_OK, ob, ow, d)"
  obtains x where "der_tag_of x = tag_bytes tag" "der_content x = take len (bytes val)" "der_root_ok strict (der_limits limits) x"
    "der_elements x \<le> dl_max_elements (der_limits limits)" "length (der_encode x) \<le> dl_max_input_size (der_limits limits)"
    "dl_max_depth (der_limits limits) \<le> TLV_DER_MAX_DEPTH" "length (der_encode x) \<le> cap"
    "ob = Some (blit 0 (der_encode x) buf)" "ow = Some (length (der_encode x))" "d = d0"
proof -
  let ?L = "der_limits limits" and ?w = "tag_bytes tag @ der_len len @ take len (bytes val)"
  let ?a = "\<lambda>total. \<lparr>da_data = val, da_base = total - len, da_depth = 1, da_limits = ?L, da_visitor = None, da_one = False,
      da_strict = strict\<rparr> :: unit der_args"
  obtain rc ototal where sz: "tlv_encoded_size tag len (Some tlv_format_der) True = (rc, ototal)" by (metis prod.exhaust)
  let ?total = "the ototal"
  have G: "rc = TLV_OK" "dl_max_depth ?L \<le> TLV_DER_MAX_DEPTH" "?total \<le> dl_max_input_size ?L" "0 < dl_max_elements ?L"
    "len \<le> dl_max_value_size ?L" "der_value_check strict tag val len = TLV_OK"
    "tlv_asn1_tag_is_constructed tag \<Longrightarrow> \<exists>f c. der_traverse (?a ?total) len 1 () d0 = Some (TLV_OK, f, c, d)"
    "\<not> tlv_asn1_tag_is_constructed tag \<Longrightarrow> d = d0"
    "tlv_write (Some buf) cap (Some tlv_format_der) tag val len True = (TLV_OK, ob, ow)"
    using ok sz
    by (auto simp: der_write_impl_def asn1_unlocated_def asn1_fail_def Let_def not_less bind_eq_Some_conv
        split: if_splits prod.splits)
  have total: "?total = length ?w" using der_encoded_size [OF wf] sz G(1) by auto
  note W = der_write_bytes [OF wf cap G(9)]
  have t: "tag_wf tag" "readable val len" using wf by (auto simp: element_wf_def value_wf_def)
  have tag: "tag = tlv_tag (tag_data tag) (length (tag_bytes tag))" using t(1) by (simp add: tlv_tag_def)
  have same: "same_octets (tag_data tag) (Ptr 0 (tag_bytes tag)) (length (tag_bytes tag))"
    using t(1) by (auto simp: same_octets_def tag_bytes_def tag_wf_def readable_def)
  have "occurs_at (tag_bytes tag) (tag_data tag) 0" using same by (simp add: occurs_at_def same_octets_def)
  then have con: "tlv_asn1_tag_is_constructed tag = lead_constructed (tag_bytes tag)"
    using der_constructed_at [OF _ der_tag_octets_nonempty [OF W(4)]] tag by (metis ptr_add_0)
  have len: "length (take len (bytes val)) = len" using t(2) by (simp add: readable_def)
  have "same_octets val (Ptr 0 (take len (bytes val))) len" using t(2) len by (simp add: same_octets_def)
  note V = der_value_check_cong [OF W(4) same this, of strict, folded tag]
  show thesis
  proof (cases "lead_constructed (tag_bytes tag)")
    case True
    have a: "der_args_ok (?a ?total)" "\<not> da_one (?a ?total)" "never_stops (da_visitor (?a ?total))" "readable (da_data (?a ?total)) len"
      "1 \<le> dl_max_elements (da_limits (?a ?total))" using L G(2,4) t(2) by (auto simp: der_args_ok_def never_stops_def)
    obtain ts where ts: "take len (bytes val) = der_forest ts" "\<forall>x \<in> set ts. der_node_ok (?a ?total) 0 x"
      "1 + sum_list (map der_elements ts) \<le> dl_max_elements ?L" "d = d0"
      using G(7) True con der_traverse_iff [OF a, of "()" d0] by auto
    let ?x = "DER_Constructed (tag_bytes tag) ts"
    have "der_root_ok strict ?L ?x"
      using ts(1,2) True W(4) G(5) len by (cases ts) (auto simp: der_root_ok_def der_node_ok_def)
    then show thesis using W G total ts len
      by (intro that [of ?x]) (auto simp: Let_def)
  next
    case False
    let ?x = "DER_Primitive (tag_bytes tag) (take len (bytes val))"
    have "der_root_ok strict ?L ?x" using V False W(4) G(5,6) len by (simp add: der_root_ok_def)
    then show thesis using W G total False con len by (intro that [of ?x]) (auto simp: Let_def)
  qed
qed

end
