(* ===== verification/TLV_ASN1_Properties.thy ===== *)
theory TLV_ASN1_Properties
  imports TLV_DER_Interface "HOL-Library.Code_Target_Nat"
begin

text \<open>
  The properties of the UTF-8 validation, of the canonical contents of the universal types and of the
  validation of DER.
\<close>

section \<open>UTF-8\<close>

text \<open>
  C21: The UTF-8 validation accepts exactly the octets that are the shortest encodings of Unicode scalar values, one after
  the other: nothing overlong, no surrogates, nothing above U+10FFFF, nothing cut off.  Everything else is an
  invalid value.
\<close>

theorem utf8_validate_exact:
  "(tlv_utf8_validate p n = TLV_OK \<longleftrightarrow>
      (\<exists>cps. (\<forall>cp \<in> set cps. unicode_scalar cp) \<and> take n (bytes p) = concat (map utf8_encode cps))) \<and>
   (tlv_utf8_validate p n = TLV_OK \<or> tlv_utf8_validate p n = TLV_ERR_INVALID_VALUE)"
  using utf8_validate_iff utf8_validate_result by blast

theorem utf8_validate_exact_witness:
  "tlv_utf8_validate (Ptr 0 [0x41, 0xE2, 0x82, 0xAC]) 4 = TLV_OK \<and>
   tlv_utf8_validate (Ptr 0 [0xC0, 0x80]) 2 = TLV_ERR_INVALID_VALUE"
proof -
  have "\<forall>cp \<in> set [0x41, 0x20AC]. unicode_scalar cp" by (simp add: unicode_scalar_def)
  moreover have "take 4 (bytes (Ptr 0 [0x41, 0xE2, 0x82, 0xAC])) = concat (map utf8_encode [0x41, 0x20AC])" by code_simp
  ultimately have "tlv_utf8_validate (Ptr 0 [0x41, 0xE2, 0x82, 0xAC]) 4 = TLV_OK" using utf8_validate_exact by blast
  moreover have "tlv_utf8_validate (Ptr 0 [0xC0, 0x80]) 2 = TLV_ERR_INVALID_VALUE" by code_simp
  ultimately show ?thesis ..
qed

text \<open>Updates with one span after the other, up to the first error.\<close>

fun utf8_feed :: "tlv_utf8_stream_t \<Rightarrow> u8 list list \<Rightarrow> (tlv_result_t \<times> tlv_utf8_stream_t) option" where
  "utf8_feed st [] = Some (TLV_OK, st)"
| "utf8_feed st (xs # xss) =
     (case tlv_utf8_stream_update st (Ptr 0 xs) (length xs) of None \<Rightarrow> None
      | Some (rc, st') \<Rightarrow> if rc \<noteq> TLV_OK then Some (rc, st') else utf8_feed st' xss)"

lemma utf8_feed_octets: "utf8_wf st \<Longrightarrow> utf8_feed st xss = Some (utf8_octets st (concat xss))"
proof (induction xss arbitrary: st)
  case (Cons xs xss)
  then show ?case using utf8_octets_wf [OF Cons.prems]
    by (auto simp: tlv_utf8_stream_update_def utf8_update_octets utf8_octets_append split: prod.splits)
qed simp

text \<open>
  C31: Streaming validation does not depend on how the octets are cut into spans: updating with any spans, even ones that
  split a character, and finishing gives the result of validating the joined octets at once.  Every update
  returns.
\<close>

theorem utf8_stream_chunks:
  assumes "length (us_pending s) = 4"
  shows "\<exists>rc st. utf8_feed (tlv_utf8_stream_init s) xss = Some (rc, st) \<and>
    (if rc = TLV_OK then tlv_utf8_stream_finish st else rc) = tlv_utf8_validate (Ptr 0 (concat xss)) (length (concat xss))"
proof -
  let ?st = "tlv_utf8_stream_init s"
  have st: "utf8_wf ?st" "utf8_idle ?st" using assms by (simp_all add: tlv_utf8_stream_init_def utf8_wf_def utf8_idle_def)
  obtain rc st where r: "utf8_octets ?st (concat xss) = (rc, st)" by (metis prod.exhaust)
  let ?rc = "if rc = TLV_OK then tlv_utf8_stream_finish st else rc" and
    ?v = "tlv_utf8_validate (Ptr 0 (concat xss)) (length (concat xss))"
  have "?rc = TLV_OK \<longleftrightarrow> ?v = TLV_OK"
    using utf8_accepts_iff [OF st(2), of "concat xss"] utf8_validate_iff [of "Ptr 0 (concat xss)" "length (concat xss)"] r
    by (auto simp: tlv_utf8_stream_finish_def)
  moreover have "?rc = TLV_OK \<or> ?rc = TLV_ERR_INVALID_VALUE"
    using utf8_octets_result [of ?st "concat xss"] r by (auto simp: tlv_utf8_stream_finish_def)
  ultimately have "?rc = ?v" using utf8_validate_result [of "Ptr 0 (concat xss)" "length (concat xss)"] by auto
  then show ?thesis using utf8_feed_octets [OF st(1), of xss] r by auto
qed

theorem utf8_stream_chunks_witness:
  "tlv_utf8_validate (Ptr 0 [0xE2, 0x82, 0xAC]) 3 = TLV_OK \<and>
   (\<exists>st. utf8_feed (tlv_utf8_stream_init \<lparr>us_pending = [9, 9, 9, 9], us_pending_len = 7, us_pending_need = 7\<rparr>)
      [[0xE2], [], [0x82, 0xAC]] = Some (TLV_OK, st) \<and> tlv_utf8_stream_finish st = TLV_OK)"
proof -
  have v: "tlv_utf8_validate (Ptr 0 [0xE2, 0x82, 0xAC]) 3 = TLV_OK" by code_simp
  let ?s = "\<lparr>us_pending = [9, 9, 9, 9 :: u8], us_pending_len = 7, us_pending_need = 7\<rparr>"
  have "length (us_pending ?s) = 4" by simp
  from utf8_stream_chunks [OF this, of "[[0xE2], [], [0x82, 0xAC]]"] v show ?thesis
    by (auto simp: numeral_3_eq_3 split: if_splits)
qed

section \<open>Universal types\<close>

text \<open>
  C27: The contents of an INTEGER are accepted exactly when they are not empty and no shorter octets, and no other octets
  of the same number, have the same value in two's complement.
\<close>

theorem integer_canonical:
  assumes "readable p n"
  shows "tlv_asn1_validate_integer p n = TLV_OK \<longleftrightarrow> 0 < n \<and>
    (\<forall>ys. ys \<noteq> [] \<longrightarrow> tc_value ys = tc_value (take n (bytes p)) \<longrightarrow> ys = take n (bytes p) \<or> n < length ys)"
  using validate_integer_iff [OF assms] .

theorem integer_canonical_witness:
  "tlv_asn1_validate_integer (Ptr 0 [0x00, 0x80]) 2 = TLV_OK \<and> [0x80] \<noteq> [0x00, 0x80 :: u8] \<and>
   tc_value [0x80] \<noteq> tc_value [0x00, 0x80]"
proof -
  have "tlv_asn1_validate_integer (Ptr 0 [0x00, 0x80]) 2 = TLV_OK" by code_simp
  moreover from this have "tc_value [0x80] \<noteq> tc_value [0x00, 0x80]" using integer_canonical [of "Ptr 0 [0x00, 0x80]" 2]
    by (auto dest!: spec [of _ "[0x80]"])
  ultimately show ?thesis by simp
qed

text \<open>
  C32: The contents of an OBJECT IDENTIFIER are accepted exactly when they are one or more numbers in base 128, each with
  its least number of octets.
\<close>

theorem oid_canonical:
  assumes "readable p n"
  shows "tlv_asn1_validate_oid p n = TLV_OK \<longleftrightarrow> 0 < n \<and> (\<exists>ns. take n (bytes p) = concat (map base128 ns))"
  by (auto simp: tlv_asn1_validate_oid_def oid_loop_iff)

theorem oid_canonical_witness:
  "tlv_asn1_validate_oid (Ptr 0 [0x2A, 0x86, 0x48]) 3 = TLV_OK \<and>
   \<not> (\<exists>ns. [0x2A, 0x80, 0x01] = concat (map base128 ns))"
proof -
  have r: "readable (Ptr 0 [0x2A, 0x86, 0x48]) 3" by simp
  have e: "\<exists>ns. take 3 (bytes (Ptr 0 [0x2A, 0x86, 0x48])) = concat (map base128 ns)"
    by (rule exI [of _ "[42, 840]"]) code_simp
  have "tlv_asn1_validate_oid (Ptr 0 [0x2A, 0x86, 0x48]) 3 = TLV_OK"
    unfolding oid_canonical [OF r] by (rule conjI [OF _ e]) simp
  moreover have "tlv_asn1_validate_oid (Ptr 0 [0x2A, 0x80, 0x01]) 3 \<noteq> TLV_OK" by code_simp
  then have "\<not> (\<exists>ns. [0x2A, 0x80, 0x01] = concat (map base128 ns))"
    using oid_canonical [of "Ptr 0 [0x2A, 0x80, 0x01]" 3] by simp
  ultimately show ?thesis ..
qed

text \<open>
  The date part of a DURATION accepts a fraction on any component: the octets of \<^verbatim>\<open>1.5Y\<close> pass, unlike those of
  \<^verbatim>\<open>T1.5H\<close>.  The interface documents fractions on the seconds only.
\<close>

lemma duration_date_fraction:
  "tlv_asn1_validate_duration (Ptr 0 [0x31, 0x2E, 0x35, 0x59]) 4 = TLV_OK \<and>
   tlv_asn1_validate_duration (Ptr 0 [0x54, 0x31, 0x2E, 0x35, 0x48]) 5 = TLV_ERR_INVALID_VALUE"
  by code_simp

section \<open>DER\<close>

text \<open>A rejected length leaves the caller's element with a new tag.\<close>

lemma der_read_element_tag_escapes:
  "fst (tlv_der_read_element (Ptr 0 [0x04, 0x81, 0x01, 0xFF]) 4 0 tlv_der_default_limits element0 None) = TLV_ERR_INVALID_LENGTH \<and>
   elem_tag (fst (snd (tlv_der_read_element (Ptr 0 [0x04, 0x81, 0x01, 0xFF]) 4 0 tlv_der_default_limits element0 None))) \<noteq>
     elem_tag element0"
  by code_simp

text \<open>
  C4: Validation of DER is exact.  With a visitor that never stops (or with none), \<^verbatim>\<open>tlv_der_visit\<close> and its strict variant
  accept an input exactly when it is the encoding of a forest of well-formed DER trees (minimal lengths, admissible
  identifiers, in strict mode canonical contents) that keeps the limits on input size, value sizes, nesting and number
  of elements; the visitor has then seen every element of the forest in preorder, with its depth and offset.
\<close>

theorem der_visit_exact:
  assumes "(visit, strict) \<in> {(tlv_der_visit, False), (tlv_der_visit_strict, True)}"
    and "readable p n" "dl_max_value_size (der_limits limits) \<le> TLV_SIZE_MAX" "never_stops visitor"
  shows "visit p n limits visitor c0 d0 = Some (TLV_OK, c, d) \<longleftrightarrow>
    dl_max_depth (der_limits limits) \<le> TLV_DER_MAX_DEPTH \<and> n \<le> dl_max_input_size (der_limits limits) \<and>
    (\<exists>ts. take n (bytes p) = der_forest ts \<and>
       (\<forall>x \<in> set ts. der_tree_ok strict (dl_max_value_size (der_limits limits)) x \<and> der_fits (dl_max_depth (der_limits limits)) x) \<and>
       sum_list (map der_elements ts) \<le> dl_max_elements (der_limits limits) \<and>
       c = der_run visitor (der_events p 0 0 0 ts) c0) \<and> d = d0"
  using assms der_visit_impl_iff [OF assms(2-4)]
  by (auto simp: tlv_der_visit_def tlv_der_visit_strict_def der_root_ok_def)

definition offsets_visitor :: "(nat \<times> nat) list tlv_tree_visitor_t" where
  "offsets_visitor el depth offset c = (TLV_VISIT_CONTINUE, c @ [(depth, offset)])"

theorem der_visit_exact_witness:
  "\<exists>ts. [0x30, 0x03, 0x02, 0x01, 0x05] = der_forest ts \<and> sum_list (map der_elements ts) \<le> 100000 \<and>
     [(0, 0), (1, 2)] = der_run (Some offsets_visitor) (der_events (Ptr 0 [0x30, 0x03, 0x02, 0x01, 0x05]) 0 0 0 ts) []"
proof -
  let ?p = "Ptr 0 [0x30, 0x03, 0x02, 0x01, 0x05]"
  have run: "tlv_der_visit ?p 5 None (Some offsets_visitor) [] None = Some (TLV_OK, [(0, 0), (1, 2)], None)" by code_simp
  have s: "(tlv_der_visit, False) \<in> {(tlv_der_visit, False), (tlv_der_visit_strict, True)}" by simp
  have v: "never_stops (Some offsets_visitor)" by (simp add: never_stops_def offsets_visitor_def)
  have "readable ?p 5" "dl_max_value_size (der_limits None) \<le> TLV_SIZE_MAX"
    by (simp_all add: der_limits_def tlv_der_default_limits_def TLV_SIZE_MAX_def)
  from der_visit_exact [OF s this v, of "[]" None "[(0, 0), (1, 2)]" None] run show ?thesis
    by (auto simp: der_limits_def tlv_der_default_limits_def)
qed

text \<open>
  C26: Whatever the visitor does and whatever the input is, \<^verbatim>\<open>tlv_der_visit\<close> and its strict variant return, and they never write
  behind their fixed stack of 65 value ends.
\<close>

theorem der_visit_returns:
  assumes "visit \<in> {tlv_der_visit, tlv_der_visit_strict}"
    and "readable p n" "dl_max_value_size (der_limits limits) \<le> TLV_SIZE_MAX"
  shows "\<exists>rc c d. visit p n limits visitor c0 d0 = Some (rc, c, d)"
  using assms(1) der_visit_impl_returns [OF assms(2,3), of visitor c0 _ d0]
  by (auto simp: tlv_der_visit_def tlv_der_visit_strict_def)

theorem der_visit_returns_witness:
  "\<exists>rc c d. tlv_der_visit (Ptr 0 [0x30, 0x80]) 2 None (Some (\<lambda>el depth offset c. (TLV_VISIT_STOP, c + 1))) (0 :: nat) None = Some (rc, c, d)"
proof -
  have "tlv_der_visit \<in> {tlv_der_visit, tlv_der_visit_strict}" by simp
  moreover have "readable (Ptr 0 [0x30, 0x80]) 2" "dl_max_value_size (der_limits None) \<le> TLV_SIZE_MAX"
    by (simp_all add: der_limits_def tlv_der_default_limits_def TLV_SIZE_MAX_def)
  ultimately show ?thesis by (rule der_visit_returns)
qed

text \<open>
  C22: What \<^verbatim>\<open>tlv_der_write\<close> or its strict variant accepts and writes is read back by \<^verbatim>\<open>tlv_der_read\<close> under the same limits, whatever
  follows in the buffer: the same identifier, the same value, as many octets as were written, and the nested
  elements pass validation again.  Nothing behind the written octets changes.
\<close>

theorem der_write_read:
  assumes rw: "(write, read, strict) \<in> {(tlv_der_write, tlv_der_read, False), (tlv_der_write_strict, tlv_der_read_strict, True)}"
    and wf: "element_wf \<lparr>elem_tag = tag, elem_value = \<lparr>val_data = val, val_size = len\<rparr>\<rparr>" "cap \<le> length buf"
    and L: "dl_max_value_size (der_limits limits) \<le> TLV_SIZE_MAX"
    and ok: "write (Some buf) cap tag val len limits True d0 = Some (TLV_OK, ob, ow, d)"
  shows "\<exists>buf' w el. ob = Some buf' \<and> ow = Some w \<and> w \<le> cap \<and> length buf' = length buf \<and> drop w buf' = drop w buf \<and>
    tag_bytes (elem_tag el) = tag_bytes tag \<and> value_bytes (elem_value el) = take len (bytes val) \<and>
    (\<forall>m. w \<le> m \<longrightarrow> m \<le> length buf' \<longrightarrow> m \<le> dl_max_input_size (der_limits limits) \<longrightarrow>
       read (Ptr 0 buf') m limits True d0 = Some (TLV_OK, Some (el, w), d0))"
proof -
  obtain d' where "der_write_impl (Some buf) cap tag val len limits strict True d0 = Some (TLV_OK, ob, ow, d')"
    using rw ok by (auto simp: tlv_der_write_def tlv_der_write_strict_def)
  from wf L this show ?thesis
  proof (rule der_write_impl_OK)
    fix x assume x: "der_tag_of x = tag_bytes tag" "der_content x = take len (bytes val)" "der_root_ok strict (der_limits limits) x"
      "der_elements x \<le> dl_max_elements (der_limits limits)" "dl_max_depth (der_limits limits) \<le> TLV_DER_MAX_DEPTH"
      "length (der_encode x) \<le> cap" "ob = Some (blit 0 (der_encode x) buf)" "ow = Some (length (der_encode x))"
    let ?buf = "blit 0 (der_encode x) buf"
    have b: "length ?buf = length buf" "drop (length (der_encode x)) ?buf = drop (length (der_encode x)) buf"
      "take (length (der_encode x)) ?buf = der_encode x"
      using x(6) wf(2) by (auto simp: blit_def)
    have el: "tag_bytes (elem_tag (der_element_at (Ptr 0 ?buf) 0 x)) = tag_bytes tag"
      "value_bytes (elem_value (der_element_at (Ptr 0 ?buf) 0 x)) = take len (bytes val)"
      using der_element_at_content [of x "Ptr 0 ?buf" 0] b(3) x(1,2) by (simp_all add: occurs_at_def)
    have "read (Ptr 0 ?buf) m limits True d0 = Some (TLV_OK, Some (der_element_at (Ptr 0 ?buf) 0 x, length (der_encode x)), d0)"
      if "length (der_encode x) \<le> m" "m \<le> length ?buf" "m \<le> dl_max_input_size (der_limits limits)" for m
    proof -
      have "der_read_impl (Ptr 0 ?buf) m limits True strict d0 =
          Some (TLV_OK, Some (der_element_at (Ptr 0 ?buf) 0 x, length (der_encode x)), d0)"
        using that x b L by (subst der_read_impl_iff) auto
      then show ?thesis using rw by (auto simp: tlv_der_read_def tlv_der_read_strict_def)
    qed
    then show ?thesis using x el b wf(2) by (intro exI [of _ ?buf] exI [of _ "length (der_encode x)"] exI) auto
  qed
qed

theorem der_write_read_witness:
  "\<exists>buf' el. tlv_der_write (Some (replicate 7 9)) 7 (tlv_tag (Ptr 0 [0x30]) 1) (Ptr 0 [0x02, 0x01, 0x05]) 3 None True None =
      Some (TLV_OK, Some buf', Some 5, None) \<and> drop 5 buf' = [9, 9] \<and>
    tlv_der_read (Ptr 0 buf') 7 None True None = Some (TLV_OK, Some (el, 5), None) \<and>
    value_bytes (elem_value el) = [0x02, 0x01, 0x05]"
proof -
  let ?w = "tlv_der_write (Some (replicate 7 9)) 7 (tlv_tag (Ptr 0 [0x30]) 1) (Ptr 0 [0x02, 0x01, 0x05]) 3 None True None"
  have run: "?w = Some (TLV_OK, Some [0x30, 0x03, 0x02, 0x01, 0x05, 9, 9], Some 5, None)" by code_simp
  have rw: "(tlv_der_write, tlv_der_read, False) \<in> {(tlv_der_write, tlv_der_read, False), (tlv_der_write_strict, tlv_der_read_strict, True)}"
    by simp
  have wf: "element_wf \<lparr>elem_tag = tlv_tag (Ptr 0 [0x30]) 1, elem_value = \<lparr>val_data = Ptr 0 [0x02, 0x01, 0x05], val_size = 3\<rparr>\<rparr>"
    by (simp add: element_wf_def tag_wf_def value_wf_def tlv_tag_def SIZE_MAX_def)
  have "7 \<le> length (replicate 7 (9 :: u8))" "dl_max_value_size (der_limits None) \<le> TLV_SIZE_MAX"
    by (simp_all add: der_limits_def tlv_der_default_limits_def TLV_SIZE_MAX_def)
  from der_write_read [OF rw wf this run] obtain el where
    "value_bytes (elem_value el) = take 3 [0x02, 0x01, 0x05]"
    "tlv_der_read (Ptr 0 [0x30, 0x03, 0x02, 0x01, 0x05, 9, 9]) 7 None True None = Some (TLV_OK, Some (el, 5), None)"
    by (auto simp: der_limits_def tlv_der_default_limits_def)
  with run show ?thesis by auto
qed

end
