(* ===== verification/TLV_CER_Validation.thy ===== *)
theory TLV_CER_Validation
  imports TLV_DER_Validation
begin

text \<open>
  Bounded validation, traversal and writing of CER (\<^verbatim>\<open>builtins/asn1/cer_validation.c\<close>) and the accumulation of
  string segments (\<^verbatim>\<open>builtins/asn1/cer_values_internal.c\<close>).  The traversal is one pass over the input with a
  stack of open constructed elements: \<open>cer_step\<close> is one pass through the loop body and \<open>cer_loop\<close> repeats it.
  The stack is an array of \<open>TLV_CER_MAX_DEPTH\<close> entries of which the first \<^verbatim>\<open>depth\<close> are in use; here it is the
  list of those entries, the innermost first, and a push behind the array has no result (\<open>None\<close>), like a loop
  that does not end.  Diagnostics, limits and failures are as for DER.
\<close>

section \<open>Segments of strings (cer\_values\_internal.c)\<close>

definition TLV_CER_MAX_SEGMENT_OCTETS :: nat where
  "TLV_CER_MAX_SEGMENT_OCTETS = 1000"

datatype tlv_cer_form_t = TLV_CER_FORM_PRIMITIVE_ONLY | TLV_CER_FORM_OCTETS | TLV_CER_FORM_BIT_STRING
  | TLV_CER_FORM_CHARACTERS

record tlv_cer_type_info_t =
  ti_form :: tlv_cer_form_t
  ti_code_unit_width :: nat
  ti_is_utf8 :: bool

definition tlv_cer_type_info :: "nat \<Rightarrow> tlv_cer_type_info_t" where
  "tlv_cer_type_info number =
     (let info = \<lparr>ti_form = TLV_CER_FORM_PRIMITIVE_ONLY, ti_code_unit_width = 1, ti_is_utf8 = False\<rparr> in
      if number = 3 then info\<lparr>ti_form := TLV_CER_FORM_BIT_STRING\<rparr>
      else if number = 4 then info\<lparr>ti_form := TLV_CER_FORM_OCTETS\<rparr>
      else if number = 12 then info\<lparr>ti_form := TLV_CER_FORM_CHARACTERS, ti_is_utf8 := True\<rparr>
      else if number \<in> {7, 18, 19, 20, 21, 22, 25, 26, 27} then info\<lparr>ti_form := TLV_CER_FORM_CHARACTERS\<rparr>
      else if number = 28 then info\<lparr>ti_form := TLV_CER_FORM_CHARACTERS, ti_code_unit_width := 4\<rparr>
      else if number = 30 then info\<lparr>ti_form := TLV_CER_FORM_CHARACTERS, ti_code_unit_width := 2\<rparr>
      else info)"

definition tag_matches_primitive :: "tlv_tag_t \<Rightarrow> nat \<Rightarrow> bool" where
  "tag_matches_primitive tag number \<longleftrightarrow>
     (if tag_size tag \<noteq> 1 then False
      else if byte_at (tag_data tag) 0 AND 0xC0 \<noteq> 0 then False
      else if byte_at (tag_data tag) 0 AND 0x20 \<noteq> 0 then False
      else unat (byte_at (tag_data tag) 0 AND 0x1F) = number)"

definition validate_character_segment :: "nat \<Rightarrow> nat \<Rightarrow> ptr \<Rightarrow> nat \<Rightarrow> tlv_result_t" where
  "validate_character_segment number width val len =
     (if width = 4 then
        (if len mod 4 \<noteq> 0 then TLV_ERR_INVALID_VALUE else tlv_asn1_validate_universal_string val len)
      else if width = 2 then
        (if len mod 2 \<noteq> 0 then TLV_ERR_INVALID_VALUE else tlv_asn1_validate_bmp_string val len)
      else if number = 18 then tlv_asn1_validate_numeric_string val len
      else if number = 19 then tlv_asn1_validate_printable_string val len
      else if number = 22 then tlv_asn1_validate_ia5_string val len
      else if number = 26 then tlv_asn1_validate_visible_string val len
      else if number \<in> {7, 20, 21, 25, 27} then tlv_asn1_validate_octet_string val len
      else TLV_ERR_UNSUPPORTED)"

record tlv_cer_segment_state_t =
  ss_number :: nat
  ss_info :: tlv_cer_type_info_t
  ss_strict :: bool
  ss_segment_count :: nat
  ss_total_octets :: nat
  ss_has_pending :: bool
  ss_pending_value :: ptr
  ss_pending_length :: nat
  ss_pending_offset :: nat
  ss_utf8 :: tlv_utf8_stream_t

text \<open>Memory before its initialisation: indeterminate in C, some fixed contents here.\<close>

definition segment_state0 :: tlv_cer_segment_state_t where
  "segment_state0 = \<lparr>ss_number = 0, ss_info = tlv_cer_type_info 0, ss_strict = False, ss_segment_count = 0,
     ss_total_octets = 0, ss_has_pending = False, ss_pending_value = Null, ss_pending_length = 0, ss_pending_offset = 0,
     ss_utf8 = \<lparr>us_pending = replicate 4 0, us_pending_len = 0, us_pending_need = 0\<rparr>\<rparr>"

definition tlv_cer_segment_state_init ::
  "tlv_cer_segment_state_t \<Rightarrow> nat \<Rightarrow> tlv_cer_type_info_t \<Rightarrow> bool \<Rightarrow> tlv_cer_segment_state_t" where
  "tlv_cer_segment_state_init state number info strict =
     (let state = state\<lparr>ss_number := number, ss_info := info, ss_strict := strict, ss_segment_count := 0,
            ss_total_octets := 0, ss_has_pending := False, ss_pending_value := Null, ss_pending_length := 0,
            ss_pending_offset := 0\<rparr> in
      if strict \<and> ti_form info = TLV_CER_FORM_CHARACTERS \<and> ti_is_utf8 info
      then state\<lparr>ss_utf8 := tlv_utf8_stream_init (ss_utf8 state)\<rparr> else state)"

text \<open>
  The result, the state and, with an error, its offset.  The sum of the lengths cannot wrap around: the
  segments are disjoint parts of one input.
\<close>

definition segment_characters ::
  "tlv_cer_segment_state_t \<Rightarrow> ptr \<Rightarrow> nat \<Rightarrow> (tlv_result_t \<times> tlv_cer_segment_state_t) option" where
  "segment_characters state val len =
     (if ss_strict state \<and> ti_form (ss_info state) = TLV_CER_FORM_CHARACTERS then
        (if ti_is_utf8 (ss_info state)
         then map_option (\<lambda>(rc, utf8). (rc, state\<lparr>ss_utf8 := utf8\<rparr>)) (tlv_utf8_stream_update (ss_utf8 state) val len)
         else Some (validate_character_segment (ss_number state) (ti_code_unit_width (ss_info state)) val len, state))
      else Some (TLV_OK, state))"

definition tlv_cer_segment_state_add ::
  "tlv_cer_segment_state_t \<Rightarrow> tlv_tag_t \<Rightarrow> ptr \<Rightarrow> nat \<Rightarrow> nat
     \<Rightarrow> (tlv_result_t \<times> tlv_cer_segment_state_t \<times> nat option) option" where
  "tlv_cer_segment_state_add state tag val len offset =
     (if ss_has_pending state \<and> ss_pending_length state \<noteq> TLV_CER_MAX_SEGMENT_OCTETS
      then Some (TLV_ERR_INVALID_LENGTH, state, Some (ss_pending_offset state))
      else if ss_has_pending state \<and> ss_strict state \<and> ti_form (ss_info state) = TLV_CER_FORM_BIT_STRING \<and>
              byte_at (ss_pending_value state) 0 \<noteq> 0
      then Some (TLV_ERR_INVALID_VALUE, state, Some (ss_pending_offset state))
      else if \<not> tag_matches_primitive tag (ss_number state) then Some (TLV_ERR_INVALID_TAG, state, Some offset)
      else if len = 0 \<or> len > TLV_CER_MAX_SEGMENT_OCTETS then Some (TLV_ERR_INVALID_LENGTH, state, Some offset)
      else map_option
        (\<lambda>(rc, state).
           if rc \<noteq> TLV_OK then (rc, state, Some offset)
           else (TLV_OK, state\<lparr>ss_total_octets := ss_total_octets state + len, ss_has_pending := True,
                   ss_pending_value := val, ss_pending_length := len, ss_pending_offset := offset,
                   ss_segment_count := ss_segment_count state + 1\<rparr>, None))
        (segment_characters state val len))"

definition tlv_cer_segment_state_finish ::
  "tlv_cer_segment_state_t \<Rightarrow> nat \<Rightarrow> tlv_result_t \<times> nat option" where
  "tlv_cer_segment_state_finish state element_offset =
     (if \<not> ss_has_pending state then (TLV_ERR_INVALID_LENGTH, Some element_offset)
      else if ss_total_octets state \<le> TLV_CER_MAX_SEGMENT_OCTETS then (TLV_ERR_INVALID_LENGTH, Some element_offset)
      else let rc =
             (if ss_strict state then
                (if ti_form (ss_info state) = TLV_CER_FORM_BIT_STRING
                 then tlv_asn1_validate_bit_string (ss_pending_value state) (ss_pending_length state)
                 else if ti_form (ss_info state) = TLV_CER_FORM_CHARACTERS \<and> ti_is_utf8 (ss_info state)
                 then tlv_utf8_stream_finish (ss_utf8 state)
                 else TLV_OK)
              else TLV_OK) in
        if rc \<noteq> TLV_OK then (rc, Some (ss_pending_offset state)) else (TLV_OK, None))"

section \<open>Types and limits (cer\_validation.h)\<close>

definition TLV_CER_MAX_DEPTH :: nat where
  "TLV_CER_MAX_DEPTH = 64"

record tlv_cer_limits_t =
  cm_max_depth :: nat
  cm_max_input_size :: nat
  cm_max_value_size :: nat
  cm_max_elements :: nat

definition tlv_cer_default_limits :: tlv_cer_limits_t where
  "tlv_cer_default_limits = \<lparr>cm_max_depth = 32, cm_max_input_size = 16 * 1024 * 1024,
     cm_max_value_size = 16 * 1024 * 1024, cm_max_elements = 100000\<rparr>"

definition cer_limits :: "tlv_cer_limits_t option \<Rightarrow> tlv_cer_limits_t" where
  "cer_limits limits = (case limits of None \<Rightarrow> tlv_cer_default_limits | Some l \<Rightarrow> l)"

section \<open>Traversal (cer\_validation.c)\<close>

record cer_level_t =
  cl_tag :: tlv_tag_t
  cl_tag_offset :: nat
  cl_length_offset :: nat
  cl_content_start :: nat
  cl_segmentable :: bool
  cl_segment_state :: tlv_cer_segment_state_t

text \<open>The arguments of \<^verbatim>\<open>traverse\<close> that do not change, and the variables of its loop.\<close>

record 'c cer_args =
  ca_data :: ptr
  ca_size :: nat
  ca_base :: nat
  ca_depth :: nat
  ca_limits :: tlv_cer_limits_t
  ca_visitor :: "'c tlv_tree_visitor_t option"
  ca_one :: bool
  ca_strict :: bool

record 'c cer_state =
  cs_pos :: nat
  cs_count :: nat
  cs_levels :: "cer_level_t list"
  cs_outer :: "tlv_cer_segment_state_t option"
  cs_context :: 'c
  cs_diag :: "tlv_diagnostic_t option"

type_synonym 'c cer_result = "tlv_result_t \<times> (tlv_element_t \<times> nat) option \<times> 'c \<times> tlv_diagnostic_t option"

definition cer_return :: "'c cer_state \<Rightarrow> tlv_result_t \<Rightarrow> (tlv_element_t \<times> nat) option \<Rightarrow> 'c cer_result" where
  "cer_return st rc first = (rc, first, cs_context st, cs_diag st)"

definition cer_fail :: "'c cer_state \<Rightarrow> tlv_result_t \<Rightarrow> nat \<Rightarrow> 'c cer_result" where
  "cer_fail st rc offset = cer_return (st\<lparr>cs_diag := snd (asn1_fail rc offset (cs_diag st))\<rparr>) rc None"

definition parent_segments :: "cer_level_t list \<Rightarrow> tlv_cer_segment_state_t option \<Rightarrow> tlv_cer_segment_state_t option" where
  "parent_segments levels outer_segments =
     (case levels of [] \<Rightarrow> outer_segments
      | lvl # _ \<Rightarrow> if cl_segmentable lvl then Some (cl_segment_state lvl) else None)"

text \<open>What an update through the pointer that \<^verbatim>\<open>parent_segments\<close> returns does to the state.\<close>

definition set_parent_segments :: "'c cer_state \<Rightarrow> tlv_cer_segment_state_t \<Rightarrow> 'c cer_state" where
  "set_parent_segments st seg =
     (case cs_levels st of [] \<Rightarrow> st\<lparr>cs_outer := Some seg\<rparr>
      | lvl # levels \<Rightarrow> st\<lparr>cs_levels := lvl\<lparr>cl_segment_state := seg\<rparr> # levels\<rparr>)"

definition cer_visit_element ::
  "'c cer_args \<Rightarrow> tlv_element_t \<Rightarrow> nat \<Rightarrow> nat \<Rightarrow> 'c \<Rightarrow> 'c \<times> tlv_result_t option" where
  "cer_visit_element a element depth offset context =
     (case ca_visitor a of None \<Rightarrow> (context, None)
      | Some visitor \<Rightarrow>
          (case visitor element depth offset context of
             (visit, context) \<Rightarrow>
               (context, case visit of TLV_VISIT_CONTINUE \<Rightarrow> None | TLV_VISIT_STOP \<Rightarrow> Some TLV_OK
                         | TLV_VISIT_ERROR \<Rightarrow> Some TLV_ERR_VISITOR | TLV_VISIT_OTHER _ \<Rightarrow> Some TLV_ERR_CALLBACK)))"

text \<open>The call of the visitor and the exits that follow it.\<close>

definition cer_visited ::
  "'c cer_args \<Rightarrow> 'c cer_state \<Rightarrow> tlv_element_t \<Rightarrow> nat \<Rightarrow> 'c cer_result option + 'c cer_state" where
  "cer_visited a st element offset =
     (case cer_visit_element a element (ca_depth a + length (cs_levels st)) (ca_base a + offset) (cs_context st) of
        (context, exit) \<Rightarrow>
          let st = st\<lparr>cs_context := context\<rparr> in
          case exit of None \<Rightarrow> Inr st
          | Some rc \<Rightarrow> Inl (Some (if rc = TLV_OK then cer_return st TLV_OK None
                                 else cer_fail st rc (ca_base a + offset))))"

text \<open>The end of the input.\<close>

definition cer_end :: "'c cer_args \<Rightarrow> 'c cer_state \<Rightarrow> 'c cer_result" where
  "cer_end a st =
     (case cs_levels st of
        [] \<Rightarrow>
          (case cs_outer st of None \<Rightarrow> cer_return st TLV_OK None
           | Some seg \<Rightarrow>
               (case tlv_cer_segment_state_finish seg (ca_base a - 1) of
                  (rc, err) \<Rightarrow> if rc \<noteq> TLV_OK then cer_fail st rc (out err 0) else cer_return st TLV_OK None))
      | lvl # _ \<Rightarrow> cer_fail st TLV_ERR_TRUNCATED (ca_base a + cl_length_offset lvl))"

text \<open>End-of-contents octets close the innermost open element.\<close>

definition cer_close :: "'c cer_args \<Rightarrow> 'c cer_state \<Rightarrow> 'c cer_result option + 'c cer_state" where
  "cer_close a st =
     (let pos = cs_pos st in
      if ca_size a - pos < 2 then Inl (Some (cer_fail st TLV_ERR_TRUNCATED (ca_base a + pos)))
      else if byte_at (ca_data a) (pos + 1) \<noteq> 0 then Inl (Some (cer_fail st TLV_ERR_INVALID_LENGTH (ca_base a + pos)))
      else case cs_levels st of
        [] \<Rightarrow> Inl (Some (cer_fail st TLV_ERR_INVALID_TAG (ca_base a + pos)))
      | lvl # levels \<Rightarrow>
          let value_len = pos - cl_content_start lvl in
          if value_len > cm_max_value_size (ca_limits a)
          then Inl (Some (cer_fail st TLV_ERR_LIMIT (ca_base a + cl_length_offset lvl)))
          else case (if cl_segmentable lvl
                     then tlv_cer_segment_state_finish (cl_segment_state lvl) (ca_base a + cl_length_offset lvl)
                     else (TLV_OK, None)) of
            (rc, err) \<Rightarrow>
              if rc \<noteq> TLV_OK then Inl (Some (cer_fail st rc (out err 0)))
              else case tlv_size_from_native value_len True of
                (rc, vlen) \<Rightarrow>
                  if rc \<noteq> TLV_OK then Inl (Some (cer_fail st rc (ca_base a + cl_length_offset lvl)))
                  else let element = \<lparr>elem_tag = cl_tag lvl,
                             elem_value = \<lparr>val_data = ptr_add (ca_data a) (cl_content_start lvl), val_size = the vlen\<rparr>\<rparr>;
                           st = st\<lparr>cs_pos := pos + 2, cs_levels := levels\<rparr> in
                    case cer_visited a st element (cl_tag_offset lvl) of
                      Inl r \<Rightarrow> Inl r
                    | Inr st \<Rightarrow>
                        if ca_one a \<and> levels = [] then Inl (Some (cer_return st TLV_OK (Some (element, pos + 2))))
                        else Inr st)"

text \<open>The number of a universal type that the code knows.\<close>

definition recognized_universal :: "tlv_tag_t \<Rightarrow> nat option" where
  "recognized_universal tag =
     (if tlv_asn1_tag_class tag = TLV_ASN1_UNIVERSAL then
        (case tlv_cer_tag_number (Some tag) True of
           (rc, number) \<Rightarrow> if rc = TLV_OK \<and> the number \<le> 36 then Some (the number) else None)
      else None)"

text \<open>The number and type of a constructed element whose children are segments.\<close>

definition segmentable_number :: "tlv_tag_t \<Rightarrow> nat option" where
  "segmentable_number tag =
     (case recognized_universal tag of None \<Rightarrow> None
      | Some number \<Rightarrow>
          if \<not> tlv_asn1_number_must_construct number \<and> ti_form (tlv_cer_type_info number) \<noteq> TLV_CER_FORM_PRIMITIVE_ONLY
          then Some number else None)"

text \<open>A constructed element of indefinite length at \<open>pos\<close>, its length octet at \<open>loff\<close>.\<close>

definition cer_open ::
  "'c cer_args \<Rightarrow> 'c cer_state \<Rightarrow> tlv_tag_t \<Rightarrow> nat \<Rightarrow> 'c cer_result option + 'c cer_state" where
  "cer_open a st tag loff =
     (let pos = cs_pos st; levels = cs_levels st in
      if \<not> tlv_asn1_tag_is_constructed tag
      then Inl (Some (cer_fail st TLV_ERR_INVALID_LENGTH (ca_base a + loff)))
      else if parent_segments levels (cs_outer st) \<noteq> None
      then Inl (Some (cer_fail st TLV_ERR_INVALID_TAG (ca_base a + pos)))
      else if (case recognized_universal tag of None \<Rightarrow> False
               | Some number \<Rightarrow> \<not> tlv_asn1_number_must_construct number \<and>
                   ti_form (tlv_cer_type_info number) = TLV_CER_FORM_PRIMITIVE_ONLY)
      then Inl (Some (cer_fail st TLV_ERR_INVALID_LENGTH (ca_base a + loff)))
      else if ca_depth a + length levels = cm_max_depth (ca_limits a)
      then Inl (Some (cer_fail st TLV_ERR_LIMIT (ca_base a + pos)))
      else if length levels \<ge> TLV_CER_MAX_DEPTH then Inl None
      else let lvl = \<lparr>cl_tag = tag, cl_tag_offset = pos, cl_length_offset = loff,
                      cl_content_start = loff + 1, cl_segmentable = segmentable_number tag \<noteq> None,
                      cl_segment_state =
                        (case segmentable_number tag of None \<Rightarrow> segment_state0
                         | Some number \<Rightarrow>
                             tlv_cer_segment_state_init segment_state0 number (tlv_cer_type_info number) (ca_strict a))\<rparr> in
        Inr (st\<lparr>cs_count := cs_count st + 1, cs_levels := lvl # levels, cs_pos := cl_content_start lvl\<rparr>))"

text \<open>The checks of a primitive value: as a segment of the enclosing element, or as an element of its own.\<close>

definition cer_primitive_checks ::
  "'c cer_args \<Rightarrow> 'c cer_state \<Rightarrow> tlv_tag_t \<Rightarrow> nat \<Rightarrow> nat \<Rightarrow> nat \<Rightarrow> nat \<Rightarrow> 'c cer_result option + 'c cer_state" where
  "cer_primitive_checks a st tag elem_start loff pos len =
     (case parent_segments (cs_levels st) (cs_outer st) of
        Some parent \<Rightarrow>
          (case tlv_cer_segment_state_add parent tag (ptr_add (ca_data a) pos) len (ca_base a + elem_start) of
             None \<Rightarrow> Inl None
           | Some (rc, seg, err) \<Rightarrow>
               let st = set_parent_segments st seg in
               if rc \<noteq> TLV_OK then Inl (Some (cer_fail st rc (out err 0))) else Inr st)
      | None \<Rightarrow>
          if len > cm_max_value_size (ca_limits a)
          then Inl (Some (cer_fail st TLV_ERR_LIMIT (ca_base a + loff)))
          else case recognized_universal tag of
            None \<Rightarrow> Inr st
          | Some number \<Rightarrow>
              if ti_form (tlv_cer_type_info number) \<noteq> TLV_CER_FORM_PRIMITIVE_ONLY \<and> len > TLV_CER_MAX_SEGMENT_OCTETS
              then Inl (Some (cer_fail st TLV_ERR_INVALID_LENGTH (ca_base a + loff)))
              else let rc = (if ca_strict a then tlv_asn1_validate_universal_value number (ptr_add (ca_data a) pos) len
                             else TLV_OK) in
                if rc \<noteq> TLV_OK then Inl (Some (cer_fail st rc (ca_base a + pos))) else Inr st)"

definition cer_primitive ::
  "'c cer_args \<Rightarrow> 'c cer_state \<Rightarrow> tlv_tag_t \<Rightarrow> nat \<Rightarrow> 'c cer_result option + 'c cer_state" where
  "cer_primitive a st tag loff =
     (let elem_start = cs_pos st in
      if tlv_asn1_tag_is_constructed tag
      then Inl (Some (cer_fail st TLV_ERR_INVALID_LENGTH (ca_base a + loff)))
      else case the (fc_read_length tlv_cer_fields) (ptr_add (ca_data a) loff) (ca_size a - loff) of
        (rc, olen, olsz) \<Rightarrow>
          if rc \<noteq> TLV_OK then Inl (Some (cer_fail st rc (ca_base a + loff)))
          else let pos = loff + the olsz; len = the olen in
            if len > ca_size a - pos then Inl (Some (cer_fail st TLV_ERR_TRUNCATED (ca_base a + pos)))
            else case cer_primitive_checks a (st\<lparr>cs_count := cs_count st + 1\<rparr>) tag elem_start loff pos len of
              Inl r \<Rightarrow> Inl r
            | Inr st \<Rightarrow>
                (case tlv_size_from_native len True of
                   (rc, vlen) \<Rightarrow>
                     if rc \<noteq> TLV_OK then Inl (Some (cer_fail st rc (ca_base a + loff)))
                     else let element = \<lparr>elem_tag = tag,
                                elem_value = \<lparr>val_data = ptr_add (ca_data a) pos, val_size = the vlen\<rparr>\<rparr>;
                              st = st\<lparr>cs_pos := pos + len\<rparr> in
                       if ca_one a \<and> cs_levels st = []
                       then Inl (Some (cer_return st TLV_OK (Some (element, pos + len))))
                       else cer_visited a st element elem_start))"

definition cer_step :: "'c cer_args \<Rightarrow> 'c cer_state \<Rightarrow> 'c cer_result option + 'c cer_state" where
  "cer_step a st =
     (let pos = cs_pos st in
      if pos = ca_size a then Inl (Some (cer_end a st))
      else if byte_at (ca_data a) pos = 0 then cer_close a st
      else if cs_count st = cm_max_elements (ca_limits a)
      then Inl (Some (cer_fail st TLV_ERR_LIMIT (ca_base a + pos)))
      else case the (fc_read_tag tlv_cer_fields) (ptr_add (ca_data a) pos) (ca_size a - pos) of
        (rc, otag, otsz) \<Rightarrow>
          if rc \<noteq> TLV_OK then Inl (Some (cer_fail st rc (ca_base a + pos)))
          else let loff = pos + the otsz in
            if loff = ca_size a
            then Inl (Some (cer_fail st TLV_ERR_TRUNCATED (ca_base a + loff)))
            else if byte_at (ca_data a) loff = 0x80 then cer_open a st (the otag) loff
            else cer_primitive a st (the otag) loff)"

partial_function (option) cer_loop :: "'c cer_args \<Rightarrow> 'c cer_state \<Rightarrow> 'c cer_result option" where
  [code]: "cer_loop a st = (case cer_step a st of Inl r \<Rightarrow> r | Inr st' \<Rightarrow> cer_loop a st')"

definition cer_traverse ::
  "'c cer_args \<Rightarrow> nat \<Rightarrow> tlv_cer_segment_state_t option \<Rightarrow> 'c \<Rightarrow> tlv_diagnostic_t option \<Rightarrow> 'c cer_result option" where
  "cer_traverse a initial_count outer_segments context diagnostic =
     cer_loop a \<lparr>cs_pos = 0, cs_count = initial_count, cs_levels = [], cs_outer = outer_segments,
       cs_context = context, cs_diag = diagnostic\<rparr>"

section \<open>Visiting and reading\<close>

definition cer_visit_impl ::
  "ptr \<Rightarrow> nat \<Rightarrow> tlv_cer_limits_t option \<Rightarrow> 'c tlv_tree_visitor_t option \<Rightarrow> 'c \<Rightarrow> bool \<Rightarrow> tlv_diagnostic_t option
     \<Rightarrow> (tlv_result_t \<times> 'c \<times> tlv_diagnostic_t option) option" where
  "cer_visit_impl data sz limits visitor context strict diagnostic =
     (let limits = cer_limits limits; no = (\<lambda>rc. case asn1_unlocated rc diagnostic of (rc, d) \<Rightarrow> Some (rc, context, d)) in
      if data = Null \<and> sz \<noteq> 0 then no TLV_ERR_NULL_ARG
      else if cm_max_depth limits > TLV_CER_MAX_DEPTH then no TLV_ERR_UNSUPPORTED
      else if sz > cm_max_input_size limits then no TLV_ERR_LIMIT
      else map_option (\<lambda>(rc, first, context, d). (rc, context, d))
        (cer_traverse \<lparr>ca_data = data, ca_size = sz, ca_base = 0, ca_depth = 0, ca_limits = limits,
           ca_visitor = visitor, ca_one = False, ca_strict = strict\<rparr> 0 None context diagnostic))"

definition tlv_cer_visit ::
  "ptr \<Rightarrow> nat \<Rightarrow> tlv_cer_limits_t option \<Rightarrow> 'c tlv_tree_visitor_t option \<Rightarrow> 'c \<Rightarrow> tlv_diagnostic_t option
     \<Rightarrow> (tlv_result_t \<times> 'c \<times> tlv_diagnostic_t option) option" where
  "tlv_cer_visit data sz limits visitor context diagnostic =
     cer_visit_impl data sz limits visitor context False diagnostic"

definition tlv_cer_visit_strict ::
  "ptr \<Rightarrow> nat \<Rightarrow> tlv_cer_limits_t option \<Rightarrow> 'c tlv_tree_visitor_t option \<Rightarrow> 'c \<Rightarrow> tlv_diagnostic_t option
     \<Rightarrow> (tlv_result_t \<times> 'c \<times> tlv_diagnostic_t option) option" where
  "tlv_cer_visit_strict data sz limits visitor context diagnostic =
     cer_visit_impl data sz limits visitor context True diagnostic"

definition cer_read_impl ::
  "ptr \<Rightarrow> nat \<Rightarrow> tlv_cer_limits_t option \<Rightarrow> bool \<Rightarrow> bool \<Rightarrow> tlv_diagnostic_t option
     \<Rightarrow> (tlv_result_t \<times> (tlv_element_t \<times> nat) option \<times> tlv_diagnostic_t option) option" where
  "cer_read_impl data sz limits outs strict diagnostic =
     (let limits = cer_limits limits; no = (\<lambda>rc. case asn1_unlocated rc diagnostic of (rc, d) \<Rightarrow> Some (rc, None, d)) in
      if (data = Null \<and> sz \<noteq> 0) \<or> \<not> outs then no TLV_ERR_NULL_ARG
      else if cm_max_depth limits > TLV_CER_MAX_DEPTH then no TLV_ERR_UNSUPPORTED
      else if sz > cm_max_input_size limits then no TLV_ERR_LIMIT
      else if sz = 0 then (case asn1_fail TLV_END 0 diagnostic of (rc, d) \<Rightarrow> Some (rc, None, d))
      else map_option (\<lambda>(rc, first, context :: unit, d). (rc, if rc = TLV_OK then first else None, d))
        (cer_traverse \<lparr>ca_data = data, ca_size = sz, ca_base = 0, ca_depth = 0, ca_limits = limits,
           ca_visitor = None, ca_one = True, ca_strict = strict\<rparr> 0 None () diagnostic))"

definition tlv_cer_read ::
  "ptr \<Rightarrow> nat \<Rightarrow> tlv_cer_limits_t option \<Rightarrow> bool \<Rightarrow> tlv_diagnostic_t option
     \<Rightarrow> (tlv_result_t \<times> (tlv_element_t \<times> nat) option \<times> tlv_diagnostic_t option) option" where
  "tlv_cer_read data sz limits outs diagnostic = cer_read_impl data sz limits outs False diagnostic"

definition tlv_cer_read_strict ::
  "ptr \<Rightarrow> nat \<Rightarrow> tlv_cer_limits_t option \<Rightarrow> bool \<Rightarrow> tlv_diagnostic_t option
     \<Rightarrow> (tlv_result_t \<times> (tlv_element_t \<times> nat) option \<times> tlv_diagnostic_t option) option" where
  "tlv_cer_read_strict data sz limits outs diagnostic = cer_read_impl data sz limits outs True diagnostic"

section \<open>Writing\<close>

definition check_primitive_value ::
  "tlv_tag_t \<Rightarrow> ptr \<Rightarrow> nat \<Rightarrow> nat \<Rightarrow> bool \<Rightarrow> tlv_diagnostic_t option \<Rightarrow> tlv_result_t \<times> tlv_diagnostic_t option" where
  "check_primitive_value tag val len offset_base strict diagnostic =
     (case recognized_universal tag of None \<Rightarrow> (TLV_OK, diagnostic)
      | Some number \<Rightarrow>
          if ti_form (tlv_cer_type_info number) \<noteq> TLV_CER_FORM_PRIMITIVE_ONLY \<and> len > TLV_CER_MAX_SEGMENT_OCTETS
          then asn1_fail TLV_ERR_INVALID_LENGTH offset_base diagnostic
          else if \<not> strict then (TLV_OK, diagnostic)
          else let rc = tlv_asn1_validate_universal_value number val len in
            if rc \<noteq> TLV_OK then asn1_fail rc offset_base diagnostic else (TLV_OK, diagnostic))"

text \<open>The last part of writing a primitive element: measure it, apply the limit, write it with the CER format.\<close>

definition cer_write_primitive ::
  "obuf \<Rightarrow> nat \<Rightarrow> tlv_tag_t \<Rightarrow> nat \<Rightarrow> ptr \<Rightarrow> nat \<Rightarrow> tlv_cer_limits_t \<Rightarrow> tlv_diagnostic_t option
     \<Rightarrow> tlv_result_t \<times> obuf \<times> nat option \<times> tlv_diagnostic_t option" where
  "cer_write_primitive data capacity tag tsz val len limits diagnostic =
     (let no = (\<lambda>rc. case asn1_unlocated rc diagnostic of (rc, d) \<Rightarrow> (rc, data, None, d)) in
      case tlv_encoded_size tag len (Some tlv_format_cer) True of
        (rc, ototal) \<Rightarrow>
          if rc \<noteq> TLV_OK
          then (case asn1_fail rc (if rc = TLV_ERR_INVALID_LENGTH then tsz else 0) diagnostic of
                  (rc, d) \<Rightarrow> (rc, data, None, d))
          else if the ototal > cm_max_input_size limits then no TLV_ERR_LIMIT
          else if data = None then (TLV_OK, data, ototal, diagnostic)
          else case tlv_write data capacity (Some tlv_format_cer) tag val len True of
            (rc, data', written) \<Rightarrow>
              if rc \<noteq> TLV_OK
              then (case asn1_unlocated rc diagnostic of (rc, d) \<Rightarrow> (rc, data', written, d))
              else (TLV_OK, data', written, diagnostic))"

definition cer_write_impl ::
  "obuf \<Rightarrow> nat \<Rightarrow> tlv_tag_t \<Rightarrow> ptr \<Rightarrow> nat \<Rightarrow> tlv_cer_limits_t option \<Rightarrow> bool \<Rightarrow> bool \<Rightarrow> tlv_diagnostic_t option
     \<Rightarrow> (tlv_result_t \<times> obuf \<times> nat option \<times> tlv_diagnostic_t option) option" where
  "cer_write_impl data capacity tag val len limits strict written_ok diagnostic =
     (let limits = cer_limits limits;
          no = (\<lambda>rc d. case asn1_unlocated rc d of (rc, d) \<Rightarrow> Some (rc, data, None, d)) in
      if (data = None \<and> capacity \<noteq> 0) \<or> (val = Null \<and> len \<noteq> 0) \<or> \<not> written_ok then no TLV_ERR_NULL_ARG diagnostic
      else if cm_max_depth limits > TLV_CER_MAX_DEPTH then no TLV_ERR_UNSUPPORTED diagnostic
      else if cm_max_elements limits = 0 then no TLV_ERR_LIMIT diagnostic
      else case the (fc_write_tag tlv_cer_fields) tag None 0 of
        (rc, _, otsz) \<Rightarrow>
          if rc \<noteq> TLV_OK then no rc diagnostic
          else let tsz = the otsz in
            if tlv_asn1_tag_is_constructed tag then
              (if len > SIZE_MAX - tsz - 3 then no TLV_ERR_INVALID_LENGTH diagnostic
               else let total = tsz + 1 + len + 2 in
                 if total > cm_max_input_size limits then no TLV_ERR_LIMIT diagnostic
                 else let outer_segments = map_option (\<lambda>number. tlv_cer_segment_state_init segment_state0 number
                            (tlv_cer_type_info number) strict) (segmentable_number tag) in
                   Option.bind
                     (cer_traverse \<lparr>ca_data = val, ca_size = len, ca_base = tsz + 1, ca_depth = 1, ca_limits = limits,
                        ca_visitor = None, ca_one = False, ca_strict = strict\<rparr> 1 outer_segments () diagnostic)
                     (\<lambda>(rc, first, context, d).
                        if rc \<noteq> TLV_OK then Some (rc, data, None, d)
                        else if data = None then Some (TLV_OK, data, Some total, d)
                        else if capacity < total then no TLV_ERR_BUFFER_TOO_SHORT d
                        else let data = obuf_blit 0 (take tsz (bytes (tag_data tag))) data;
                                 data = obuf_blit tsz [0x80] data;
                                 data = (if len \<noteq> 0 then obuf_blit (tsz + 1) (take len (bytes val)) data else data);
                                 data = obuf_blit (total - 2) [0] data;
                                 data = obuf_blit (total - 1) [0] data
                             in Some (TLV_OK, data, Some total, d)))
            else if len > cm_max_value_size limits
            then (case asn1_fail TLV_ERR_LIMIT tsz diagnostic of (rc, d) \<Rightarrow> Some (rc, data, None, d))
            else case check_primitive_value tag val len tsz strict diagnostic of
              (rc, d) \<Rightarrow>
                if rc \<noteq> TLV_OK then Some (rc, data, None, d)
                else Some (cer_write_primitive data capacity tag tsz val len limits d))"

definition tlv_cer_write ::
  "obuf \<Rightarrow> nat \<Rightarrow> tlv_tag_t \<Rightarrow> ptr \<Rightarrow> nat \<Rightarrow> tlv_cer_limits_t option \<Rightarrow> bool \<Rightarrow> tlv_diagnostic_t option
     \<Rightarrow> (tlv_result_t \<times> obuf \<times> nat option \<times> tlv_diagnostic_t option) option" where
  "tlv_cer_write data capacity tag val len limits written_ok diagnostic =
     map_option (\<lambda>(rc, data, written, d). (rc, data, written, asn1_output_domain rc d))
       (cer_write_impl data capacity tag val len limits False written_ok diagnostic)"

definition tlv_cer_write_strict ::
  "obuf \<Rightarrow> nat \<Rightarrow> tlv_tag_t \<Rightarrow> ptr \<Rightarrow> nat \<Rightarrow> tlv_cer_limits_t option \<Rightarrow> bool \<Rightarrow> tlv_diagnostic_t option
     \<Rightarrow> (tlv_result_t \<times> obuf \<times> nat option \<times> tlv_diagnostic_t option) option" where
  "tlv_cer_write_strict data capacity tag val len limits written_ok diagnostic =
     map_option (\<lambda>(rc, data, written, d). (rc, data, written, asn1_output_domain rc d))
       (cer_write_impl data capacity tag val len limits True written_ok diagnostic)"

section \<open>Writing strings in segments\<close>

text \<open>
  The number of segments before the last one and the source octets of the last one.  The caller passes a
  positive total.
\<close>

definition segment_layout :: "nat \<Rightarrow> nat \<Rightarrow> nat \<times> nat" where
  "segment_layout total_octets chunk =
     (let num_non_final = (total_octets - 1) div chunk in (num_non_final, total_octets - num_non_final * chunk))"

text \<open>
  One segment at \<open>pos\<close>: identifier, length, for a BIT STRING the octet \<open>unused\<close>, and source octets.  The result
  is the buffer and the position behind the segment, or the error of the length writer.
\<close>

definition segment_put ::
  "tlv_tag_t \<Rightarrow> nat \<Rightarrow> nat \<Rightarrow> nat \<Rightarrow> u8 option \<Rightarrow> u8 list \<Rightarrow> obuf \<Rightarrow> nat \<Rightarrow> (tlv_result_t \<times> obuf) + (obuf \<times> nat)" where
  "segment_put tag tsz content_size lsz unused source data pos =
     (let data = obuf_blit pos (take tsz (bytes (tag_data tag))) data; pos = pos + tsz in
      case the (fc_write_length tlv_cer_fields) content_size (obuf_drop pos data) lsz of
        (rc, part, oused) \<Rightarrow>
          let data = obuf_put pos data part in
          if rc \<noteq> TLV_OK then Inl (rc, data)
          else let pos = pos + the oused;
                   (data, pos) = (case unused of None \<Rightarrow> (data, pos) | Some u \<Rightarrow> (obuf_blit pos [u] data, pos + 1)) in
            Inr (obuf_blit pos source data, pos + length source))"

text \<open>The loop over \<open>n\<close> segments of \<open>chunk\<close> source octets.\<close>

fun segments_put ::
  "tlv_tag_t \<Rightarrow> nat \<Rightarrow> nat \<Rightarrow> u8 option \<Rightarrow> nat \<Rightarrow> nat \<Rightarrow> u8 list \<Rightarrow> obuf \<Rightarrow> nat
     \<Rightarrow> (tlv_result_t \<times> obuf) + (u8 list \<times> obuf \<times> nat)" where
  "segments_put tag tsz lsz unused chunk 0 source data pos = Inr (source, data, pos)"
| "segments_put tag tsz lsz unused chunk (Suc n) source data pos =
     (case segment_put tag tsz TLV_CER_MAX_SEGMENT_OCTETS lsz unused (take chunk source) data pos of
        Inl e \<Rightarrow> Inl e
      | Inr (data, pos) \<Rightarrow> segments_put tag tsz lsz unused chunk n (drop chunk source) data pos)"

text \<open>A value of more than 1000 octets: a constructed element of segments.\<close>

definition write_segments ::
  "obuf \<Rightarrow> nat \<Rightarrow> tlv_tag_t \<Rightarrow> nat \<Rightarrow> bool \<Rightarrow> ptr \<Rightarrow> nat \<Rightarrow> tlv_cer_limits_t \<Rightarrow> tlv_diagnostic_t option
     \<Rightarrow> tlv_result_t \<times> obuf \<times> nat option \<times> tlv_diagnostic_t option" where
  "write_segments data capacity tag tsz is_bit content content_length limits diagnostic =
     (let no = (\<lambda>rc data. case asn1_unlocated rc diagnostic of (rc, d) \<Rightarrow> (rc, data, None, d)) in
      case the (fc_write_length tlv_cer_fields) TLV_CER_MAX_SEGMENT_OCTETS None 0 of
        (rc, _, oseg) \<Rightarrow>
          if rc \<noteq> TLV_OK then no rc data
          else let seg_length_size = the oseg;
                   chunk = (if is_bit then TLV_CER_MAX_SEGMENT_OCTETS - 1 else TLV_CER_MAX_SEGMENT_OCTETS);
                   source_octets = (if is_bit then content_length - 1 else content_length);
                   (num_non_final, final_octets) = segment_layout source_octets chunk;
                   final_content_size = (if is_bit then final_octets + 1 else final_octets) in
            case the (fc_write_length tlv_cer_fields) final_content_size None 0 of
              (rc, _, ofin) \<Rightarrow>
                if rc \<noteq> TLV_OK then no rc data
                else let final_length_size = the ofin;
                         per_segment = tsz + seg_length_size + TLV_CER_MAX_SEGMENT_OCTETS in
                  if num_non_final > (SIZE_MAX - tsz - 1 - 2) div per_segment then no TLV_ERR_INVALID_LENGTH data
                  else let total = tsz + 1 + num_non_final * per_segment + 2;
                           final_segment_size = tsz + final_length_size + final_content_size in
                    if final_segment_size > SIZE_MAX - total then no TLV_ERR_INVALID_LENGTH data
                    else let total = total + final_segment_size in
                      if total > cm_max_input_size limits then no TLV_ERR_LIMIT data
                      else if num_non_final + 2 > cm_max_elements limits then no TLV_ERR_LIMIT data
                      else if data = None then (TLV_OK, data, Some total, diagnostic)
                      else if capacity < total then no TLV_ERR_BUFFER_TOO_SHORT data
                      else let source = take source_octets (bytes (if is_bit then ptr_add content 1 else content));
                               data = obuf_blit 0 (take tsz (bytes (tag_data tag))) data;
                               data = obuf_blit 0 [byte_at (tag_data tag) 0 OR 0x20] data;
                               data = obuf_blit tsz [0x80] data in
                        case segments_put tag tsz seg_length_size (if is_bit then Some 0 else None) chunk num_non_final
                               source data (tsz + 1) of
                          Inl (rc, data) \<Rightarrow> no rc data
                        | Inr (source, data, pos) \<Rightarrow>
                            (case segment_put tag tsz final_content_size final_length_size
                                    (if is_bit then Some (byte_at content 0) else None) (take final_octets source) data pos of
                               Inl (rc, data) \<Rightarrow> no rc data
                             | Inr (data, pos) \<Rightarrow>
                                 (TLV_OK, obuf_blit (pos + 1) [0] (obuf_blit pos [0] data), Some total, diagnostic)))"

definition write_segmented_string ::
  "obuf \<Rightarrow> nat \<Rightarrow> tlv_tag_t \<Rightarrow> ptr \<Rightarrow> nat \<Rightarrow> tlv_cer_limits_t option \<Rightarrow> bool \<Rightarrow> tlv_diagnostic_t option
     \<Rightarrow> tlv_result_t \<times> obuf \<times> nat option \<times> tlv_diagnostic_t option" where
  "write_segmented_string data capacity tag content content_length limits written_ok diagnostic =
     (let limits = cer_limits limits;
          no = (\<lambda>rc. case asn1_unlocated rc diagnostic of (rc, d) \<Rightarrow> (rc, data, None, d));
          at = (\<lambda>rc offset. case asn1_fail rc offset diagnostic of (rc, d) \<Rightarrow> (rc, data, None, d)) in
      if (data = None \<and> capacity \<noteq> 0) \<or> (content = Null \<and> content_length \<noteq> 0) \<or> \<not> written_ok then no TLV_ERR_NULL_ARG
      else if cm_max_depth limits > TLV_CER_MAX_DEPTH then no TLV_ERR_UNSUPPORTED
      else if cm_max_elements limits = 0 then no TLV_ERR_LIMIT
      else if tlv_asn1_tag_class tag \<noteq> TLV_ASN1_UNIVERSAL \<or> tlv_asn1_tag_is_constructed tag then no TLV_ERR_INVALID_ARG
      else case the (fc_write_tag tlv_cer_fields) tag None 0 of
        (rc, _, otsz) \<Rightarrow>
          if rc \<noteq> TLV_OK then no rc
          else let tsz = the otsz in
            case recognized_universal tag of None \<Rightarrow> no TLV_ERR_INVALID_ARG
            | Some number \<Rightarrow>
                let info = tlv_cer_type_info number in
                if ti_form info = TLV_CER_FORM_PRIMITIVE_ONLY then no TLV_ERR_INVALID_ARG
                else let rc = tlv_asn1_validate_universal_value number content content_length in
                  if rc \<noteq> TLV_OK then at rc tsz
                  else if content_length > cm_max_value_size limits then at TLV_ERR_LIMIT tsz
                  else if content_length \<le> TLV_CER_MAX_SEGMENT_OCTETS
                  then cer_write_primitive data capacity tag tsz content content_length limits diagnostic
                  else write_segments data capacity tag tsz (ti_form info = TLV_CER_FORM_BIT_STRING) content
                         content_length limits diagnostic)"

definition tlv_cer_write_segmented_string ::
  "obuf \<Rightarrow> nat \<Rightarrow> tlv_tag_t \<Rightarrow> ptr \<Rightarrow> nat \<Rightarrow> tlv_cer_limits_t option \<Rightarrow> bool \<Rightarrow> tlv_diagnostic_t option
     \<Rightarrow> tlv_result_t \<times> obuf \<times> nat option \<times> tlv_diagnostic_t option" where
  "tlv_cer_write_segmented_string data capacity tag content content_length limits written_ok diagnostic =
     (case write_segmented_string data capacity tag content content_length limits written_ok diagnostic of
        (rc, data, written, d) \<Rightarrow> (rc, data, written, asn1_output_domain rc d))"

end
