(* ===== verification/TLV_CER_Laws.thy ===== *)
theory TLV_CER_Laws
  imports TLV_CER_Validation TLV_DER_Laws
begin

text \<open>
  String segments against a condition on the list of their contents, and the trees whose encodings CER
  validation accepts.
\<close>

section \<open>Segments\<close>

text \<open>
  The contents of the segments of one string of universal type \<open>n\<close>: all but the last have exactly 1000 octets,
  none is empty or longer, and primitive encoding was not possible.
\<close>

definition segment_contents_ok :: "nat \<Rightarrow> u8 list list \<Rightarrow> bool" where
  "segment_contents_ok n vs \<longleftrightarrow>
     (case ti_form (tlv_cer_type_info n) of
        TLV_CER_FORM_BIT_STRING \<Rightarrow>
          (\<forall>v \<in> set (butlast vs). hd v = 0) \<and>
          tlv_asn1_validate_bit_string (Ptr 0 (last vs)) (length (last vs)) = TLV_OK
      | TLV_CER_FORM_CHARACTERS \<Rightarrow>
          if ti_is_utf8 (tlv_cer_type_info n)
          then tlv_utf8_validate (Ptr 0 (concat vs)) (length (concat vs)) = TLV_OK
          else \<forall>v \<in> set vs. validate_character_segment n (ti_code_unit_width (tlv_cer_type_info n)) (Ptr 0 v) (length v) = TLV_OK
      | _ \<Rightarrow> True)"

definition segments_ok :: "bool \<Rightarrow> nat \<Rightarrow> u8 list list \<Rightarrow> bool" where
  "segments_ok strict n vs \<longleftrightarrow> vs \<noteq> [] \<and>
     (\<forall>v \<in> set vs. v \<noteq> [] \<and> length v \<le> TLV_CER_MAX_SEGMENT_OCTETS) \<and>
     (\<forall>v \<in> set (butlast vs). length v = TLV_CER_MAX_SEGMENT_OCTETS) \<and>
     TLV_CER_MAX_SEGMENT_OCTETS < length (concat vs) \<and> (strict \<longrightarrow> segment_contents_ok n vs)"

text \<open>What the accumulator has checked after the segments \<open>vs\<close>, and the state it is in.\<close>

definition utf8_start :: tlv_utf8_stream_t where
  "utf8_start = tlv_utf8_stream_init (ss_utf8 segment_state0)"

definition segments_seen :: "bool \<Rightarrow> nat \<Rightarrow> u8 list list \<Rightarrow> bool" where
  "segments_seen strict n vs \<longleftrightarrow>
     (\<forall>v \<in> set vs. v \<noteq> [] \<and> length v \<le> TLV_CER_MAX_SEGMENT_OCTETS) \<and>
     (\<forall>v \<in> set (butlast vs). length v = TLV_CER_MAX_SEGMENT_OCTETS \<and>
        (strict \<longrightarrow> ti_form (tlv_cer_type_info n) = TLV_CER_FORM_BIT_STRING \<longrightarrow> hd v = 0)) \<and>
     (strict \<longrightarrow> ti_form (tlv_cer_type_info n) = TLV_CER_FORM_CHARACTERS \<longrightarrow>
        (if ti_is_utf8 (tlv_cer_type_info n) then fst (utf8_octets utf8_start (concat vs)) = TLV_OK
         else \<forall>v \<in> set vs. validate_character_segment n (ti_code_unit_width (tlv_cer_type_info n)) (Ptr 0 v) (length v) = TLV_OK))"

definition absorbed :: "bool \<Rightarrow> nat \<Rightarrow> u8 list list \<Rightarrow> tlv_cer_segment_state_t \<Rightarrow> bool" where
  "absorbed strict n vs s \<longleftrightarrow> ss_number s = n \<and> ss_info s = tlv_cer_type_info n \<and> ss_strict s = strict \<and>
     ss_total_octets s = length (concat vs) \<and> (ss_has_pending s \<longleftrightarrow> vs \<noteq> []) \<and>
     (vs \<noteq> [] \<longrightarrow> ss_pending_length s = length (last vs) \<and>
        same_octets (ss_pending_value s) (Ptr 0 (last vs)) (length (last vs))) \<and>
     segments_seen strict n vs \<and>
     (strict \<longrightarrow> ti_form (tlv_cer_type_info n) = TLV_CER_FORM_CHARACTERS \<longrightarrow> ti_is_utf8 (tlv_cer_type_info n) \<longrightarrow>
        ss_utf8 s = snd (utf8_octets utf8_start (concat vs)))"

lemma utf8_start_ok: "utf8_wf utf8_start" "utf8_idle utf8_start"
  by (simp_all add: utf8_start_def tlv_utf8_stream_init_def segment_state0_def utf8_wf_def utf8_idle_def)

lemma utf8_start_validate:
  "tlv_utf8_validate (Ptr 0 xs) (length xs) = TLV_OK \<longleftrightarrow>
     fst (utf8_octets utf8_start xs) = TLV_OK \<and> tlv_utf8_stream_finish (snd (utf8_octets utf8_start xs)) = TLV_OK"
  using utf8_accepts_iff [OF utf8_start_ok(2), of xs] utf8_validate_iff [of "Ptr 0 xs" "length xs"]
  by (cases "utf8_octets utf8_start xs") (auto simp: tlv_utf8_stream_finish_def split: if_splits)

lemma segment_state_init_absorbed:
  "absorbed strict n [] (tlv_cer_segment_state_init segment_state0 n (tlv_cer_type_info n) strict)"
  by (simp add: absorbed_def tlv_cer_segment_state_init_def Let_def segments_seen_def utf8_start_def)

lemma validate_character_segment_cong:
  assumes "same_octets p q k"
  shows "validate_character_segment n w p k = validate_character_segment n w q k"
  using same_octets_take [OF assms order_refl]
  by (simp add: validate_character_segment_def tlv_asn1_validate_universal_string_def tlv_asn1_validate_bmp_string_def
      tlv_asn1_validate_numeric_string_def tlv_asn1_validate_printable_string_def tlv_asn1_validate_ia5_string_def
      tlv_asn1_validate_visible_string_def tlv_asn1_validate_octet_string_def all_octets_cong [OF assms])

text \<open>A prefix of segments that is rejected can not be completed.\<close>

lemma segments_ok_seen: "segments_ok strict n (vs @ ws) \<Longrightarrow> segments_seen strict n vs"
proof -
  assume ok: "segments_ok strict n (vs @ ws)"
  have b: "set (butlast vs) \<subseteq> set (butlast (vs @ ws))" by (cases "ws = []") (auto simp: butlast_append dest: in_set_butlastD)
  have u: "fst (utf8_octets utf8_start (concat (vs @ ws))) = TLV_OK \<Longrightarrow> fst (utf8_octets utf8_start (concat vs)) = TLV_OK"
    by (auto simp: utf8_octets_append split: prod.splits if_splits)
  show ?thesis
    using ok b u utf8_start_validate [of "concat (vs @ ws)"]
    unfolding segments_ok_def segments_seen_def segment_contents_ok_def
    by (auto split: tlv_cer_form_t.splits if_splits)
qed

lemma segments_ok_pending:
  assumes "segments_ok strict n (vs @ v # ws)" "vs \<noteq> []"
  shows "length (last vs) = TLV_CER_MAX_SEGMENT_OCTETS"
    "strict \<Longrightarrow> ti_form (tlv_cer_type_info n) = TLV_CER_FORM_BIT_STRING \<Longrightarrow> hd (last vs) = 0"
  using assms unfolding segments_ok_def segment_contents_ok_def by (auto simp: butlast_append)

lemma segments_seen_snoc:
  "segments_seen strict n (vs @ [v]) \<longleftrightarrow> segments_seen strict n vs \<and> v \<noteq> [] \<and> length v \<le> TLV_CER_MAX_SEGMENT_OCTETS \<and>
     (vs \<noteq> [] \<longrightarrow> length (last vs) = TLV_CER_MAX_SEGMENT_OCTETS \<and>
        (strict \<longrightarrow> ti_form (tlv_cer_type_info n) = TLV_CER_FORM_BIT_STRING \<longrightarrow> hd (last vs) = 0)) \<and>
     (strict \<longrightarrow> ti_form (tlv_cer_type_info n) = TLV_CER_FORM_CHARACTERS \<longrightarrow>
        (if ti_is_utf8 (tlv_cer_type_info n) then fst (utf8_octets (snd (utf8_octets utf8_start (concat vs))) v) = TLV_OK
         else validate_character_segment n (ti_code_unit_width (tlv_cer_type_info n)) (Ptr 0 v) (length v) = TLV_OK))"
proof -
  have s: "set vs = (if vs = [] then {} else insert (last vs) (set (butlast vs)))"
    by (cases vs rule: rev_cases) auto
  show ?thesis
    unfolding segments_seen_def butlast_snoc
    by (cases "vs = []") (auto simp: s utf8_octets_append split: prod.splits if_splits dest: in_set_butlastD)
qed

section \<open>The accumulator\<close>

lemma segment_characters_result:
  assumes s: "absorbed strict n vs s" and v: "same_octets p (Ptr 0 v) (length v)"
  shows "\<exists>rc u. segment_characters s p (length v) = Some (rc, s\<lparr>ss_utf8 := u\<rparr>) \<and>
    (rc = TLV_OK \<longleftrightarrow> (strict \<longrightarrow> ti_form (tlv_cer_type_info n) = TLV_CER_FORM_CHARACTERS \<longrightarrow>
        (if ti_is_utf8 (tlv_cer_type_info n) then fst (utf8_octets (snd (utf8_octets utf8_start (concat vs))) v) = TLV_OK
         else validate_character_segment n (ti_code_unit_width (tlv_cer_type_info n)) (Ptr 0 v) (length v) = TLV_OK))) \<and>
    (rc = TLV_OK \<longrightarrow> strict \<longrightarrow> ti_form (tlv_cer_type_info n) = TLV_CER_FORM_CHARACTERS \<longrightarrow> ti_is_utf8 (tlv_cer_type_info n) \<longrightarrow>
       u = snd (utf8_octets utf8_start (concat (vs @ [v]))))"
proof (cases "strict \<and> ti_form (tlv_cer_type_info n) = TLV_CER_FORM_CHARACTERS \<and> ti_is_utf8 (tlv_cer_type_info n)")
  case True
  then have u: "ss_utf8 s = snd (utf8_octets utf8_start (concat vs))" "fst (utf8_octets utf8_start (concat vs)) = TLV_OK"
    using s by (auto simp: absorbed_def segments_seen_def)
  have wf: "utf8_wf (ss_utf8 s)" unfolding u(1)
    using utf8_octets_wf [OF utf8_start_ok(1), of "concat vs"] u(2) by (metis prod.collapse)
  have p: "take (length v) (bytes p) = v" using v by (simp add: same_octets_def)
  obtain rc u' where r: "utf8_octets (ss_utf8 s) v = (rc, u')" by (metis prod.exhaust)
  have "segment_characters s p (length v) = Some (rc, s\<lparr>ss_utf8 := u'\<rparr>)"
    unfolding segment_characters_def tlv_utf8_stream_update_def p utf8_update_octets [OF wf] r
    using True s by (simp add: absorbed_def)
  moreover have "rc = TLV_OK \<longrightarrow> u' = snd (utf8_octets utf8_start (concat (vs @ [v])))"
    using r u by (auto simp: utf8_octets_append split: prod.splits)
  ultimately show ?thesis using True r u(1) by auto
next
  case False
  have "segment_characters s p (length v) =
      Some (if strict \<and> ti_form (tlv_cer_type_info n) = TLV_CER_FORM_CHARACTERS
            then validate_character_segment n (ti_code_unit_width (tlv_cer_type_info n)) (Ptr 0 v) (length v) else TLV_OK,
        s\<lparr>ss_utf8 := ss_utf8 s\<rparr>)"
    using False s validate_character_segment_cong [OF v] by (auto simp: segment_characters_def absorbed_def)
  then show ?thesis
    using False by (intro exI [of _ "if strict \<and> ti_form (tlv_cer_type_info n) = TLV_CER_FORM_CHARACTERS
      then validate_character_segment n (ti_code_unit_width (tlv_cer_type_info n)) (Ptr 0 v) (length v) else TLV_OK"]
      exI [of _ "ss_utf8 s"]) simp
qed

lemma segment_state_add:
  assumes s: "absorbed strict n vs s" and v: "same_octets p (Ptr 0 v) (length v)"
  shows "\<exists>rc s' e. tlv_cer_segment_state_add s tag p (length v) off = Some (rc, s', e) \<and>
    (rc = TLV_OK \<longleftrightarrow> tag_matches_primitive tag n \<and> segments_seen strict n (vs @ [v])) \<and>
    (rc = TLV_OK \<longrightarrow> absorbed strict n (vs @ [v]) s')"
proof -
  from segment_characters_result [OF s v] obtain rc u where
    c: "segment_characters s p (length v) = Some (rc, s\<lparr>ss_utf8 := u\<rparr>)"
    and rc: "rc = TLV_OK \<longleftrightarrow> (strict \<longrightarrow> ti_form (tlv_cer_type_info n) = TLV_CER_FORM_CHARACTERS \<longrightarrow>
        (if ti_is_utf8 (tlv_cer_type_info n) then fst (utf8_octets (snd (utf8_octets utf8_start (concat vs))) v) = TLV_OK
         else validate_character_segment n (ti_code_unit_width (tlv_cer_type_info n)) (Ptr 0 v) (length v) = TLV_OK))"
    and u: "rc = TLV_OK \<Longrightarrow> strict \<Longrightarrow> ti_form (tlv_cer_type_info n) = TLV_CER_FORM_CHARACTERS \<Longrightarrow>
      ti_is_utf8 (tlv_cer_type_info n) \<Longrightarrow> u = snd (utf8_octets utf8_start (concat (vs @ [v])))" by metis
  have hd: "byte_at (ss_pending_value s) 0 = hd (last vs)" if "vs \<noteq> []"
  proof -
    have "last vs \<noteq> []" using that s by (auto simp: absorbed_def segments_seen_def)
    then show ?thesis using same_octets_byte [of "ss_pending_value s" "Ptr 0 (last vs)" "length (last vs)" 0] s that
      by (auto simp: absorbed_def byte_at_def hd_conv_nth)
  qed
  have seen: "segments_seen strict n (vs @ [v]) \<longleftrightarrow> v \<noteq> [] \<and> length v \<le> TLV_CER_MAX_SEGMENT_OCTETS \<and>
     (vs \<noteq> [] \<longrightarrow> length (last vs) = TLV_CER_MAX_SEGMENT_OCTETS \<and>
        (strict \<longrightarrow> ti_form (tlv_cer_type_info n) = TLV_CER_FORM_BIT_STRING \<longrightarrow> hd (last vs) = 0)) \<and> rc = TLV_OK"
    unfolding segments_seen_snoc rc using s by (auto simp: absorbed_def)
  have S: "ss_number s = n" "ss_info s = tlv_cer_type_info n" "ss_strict s = strict" "ss_has_pending s \<longleftrightarrow> vs \<noteq> []"
      "vs \<noteq> [] \<Longrightarrow> ss_pending_length s = length (last vs)" "ss_total_octets s = length (concat vs)"
    using s by (auto simp: absorbed_def)
  show ?thesis
  proof (cases "tag_matches_primitive tag n \<and> segments_seen strict n (vs @ [v])")
    case True
    then have ok: "rc = TLV_OK" "v \<noteq> []" "length v \<le> TLV_CER_MAX_SEGMENT_OCTETS"
      "vs \<noteq> [] \<Longrightarrow> length (last vs) = TLV_CER_MAX_SEGMENT_OCTETS"
      "vs \<noteq> [] \<Longrightarrow> strict \<Longrightarrow> ti_form (tlv_cer_type_info n) = TLV_CER_FORM_BIT_STRING \<Longrightarrow> hd (last vs) = 0"
      unfolding seen by auto
    let ?s = "s\<lparr>ss_utf8 := u, ss_total_octets := ss_total_octets s + length v, ss_has_pending := True,
      ss_pending_value := p, ss_pending_length := length v, ss_pending_offset := off,
      ss_segment_count := ss_segment_count s + 1\<rparr>"
    have "tlv_cer_segment_state_add s tag p (length v) off = Some (TLV_OK, ?s, None)"
      using True ok hd c S by (auto simp: tlv_cer_segment_state_add_def)
    moreover have "absorbed strict n (vs @ [v]) ?s" using True v u ok(1) S by (simp add: absorbed_def)
    ultimately show ?thesis using True by blast
  next
    case False
    have "\<exists>r s' e. tlv_cer_segment_state_add s tag p (length v) off = Some (r, s', e) \<and> r \<noteq> TLV_OK"
      using False hd c S unfolding seen tlv_cer_segment_state_add_def by auto
    then show ?thesis using False by auto
  qed
qed

lemma segment_state_finish:
  assumes s: "absorbed strict n vs s"
  shows "fst (tlv_cer_segment_state_finish s off) = TLV_OK \<longleftrightarrow> segments_ok strict n vs"
proof -
  have S: "ss_info s = tlv_cer_type_info n" "ss_strict s = strict" "ss_has_pending s \<longleftrightarrow> vs \<noteq> []"
      "ss_total_octets s = length (concat vs)" "segments_seen strict n vs" using s by (auto simp: absorbed_def)
  have bit: "tlv_asn1_validate_bit_string (ss_pending_value s) (ss_pending_length s) =
      tlv_asn1_validate_bit_string (Ptr 0 (last vs)) (length (last vs))" if "vs \<noteq> []"
    using validate_bit_string_cong [of "ss_pending_value s" "Ptr 0 (last vs)" "length (last vs)"] s that
    by (simp add: absorbed_def)
  have utf8: "strict \<Longrightarrow> ti_form (tlv_cer_type_info n) = TLV_CER_FORM_CHARACTERS \<Longrightarrow> ti_is_utf8 (tlv_cer_type_info n) \<Longrightarrow>
      tlv_utf8_validate (Ptr 0 (concat vs)) (length (concat vs)) = TLV_OK \<longleftrightarrow> tlv_utf8_stream_finish (ss_utf8 s) = TLV_OK"
    using utf8_start_validate [of "concat vs"] s S(5) by (simp add: absorbed_def segments_seen_def)
  show ?thesis
    using S bit utf8
    unfolding tlv_cer_segment_state_finish_def segments_ok_def segment_contents_ok_def segments_seen_def
    by (cases "ti_form (tlv_cer_type_info n)") (auto simp: Let_def not_le)
qed

section \<open>CER trees and their encoding\<close>

datatype cer_tree = CER_Primitive "u8 list" "u8 list" | CER_Constructed "u8 list" "cer_tree list"

fun cer_octets :: "cer_tree \<Rightarrow> u8 list" where
  "cer_octets (CER_Primitive t v) = t @ der_len (length v) @ v"
| "cer_octets (CER_Constructed t ts) = t @ [0x80] @ concat (map cer_octets ts) @ [0, 0]"

abbreviation cer_forest :: "cer_tree list \<Rightarrow> u8 list" where
  "cer_forest ts \<equiv> concat (map cer_octets ts)"

definition cer_tag_octets :: "u8 list \<Rightarrow> bool" where
  "cer_tag_octets t \<longleftrightarrow>
     tlv_asn1_read_identifier (Ptr 0 t) (length t) = (TLV_OK, Some (tlv_tag (Ptr 0 t) (length t)), Some (length t))"

definition octets_universal :: "u8 list \<Rightarrow> nat option" where
  "octets_universal t = recognized_universal (tlv_tag (Ptr 0 t) (length t))"

definition octets_segmentable :: "u8 list \<Rightarrow> nat option" where
  "octets_segmentable t = segmentable_number (tlv_tag (Ptr 0 t) (length t))"

text \<open>The form rule: universal types that are neither structured nor strings are primitive.\<close>

definition cer_constructible :: "u8 list \<Rightarrow> bool" where
  "cer_constructible t \<longleftrightarrow> lead_constructed t \<and>
     (\<forall>n. octets_universal t = Some n \<longrightarrow> tlv_asn1_number_must_construct n \<or>
        ti_form (tlv_cer_type_info n) \<noteq> TLV_CER_FORM_PRIMITIVE_ONLY)"

definition cer_value_ok :: "bool \<Rightarrow> u8 list \<Rightarrow> u8 list \<Rightarrow> bool" where
  "cer_value_ok strict t v \<longleftrightarrow>
     (\<forall>n. octets_universal t = Some n \<longrightarrow>
        (ti_form (tlv_cer_type_info n) \<noteq> TLV_CER_FORM_PRIMITIVE_ONLY \<longrightarrow> length v \<le> TLV_CER_MAX_SEGMENT_OCTETS) \<and>
        (strict \<longrightarrow> tlv_asn1_validate_universal_value n (Ptr 0 v) (length v) = TLV_OK))"

text \<open>
  A well-formed tree.  The children of a constructed string are its segments, primitive elements with the
  identifier of the string type.
\<close>

fun cer_tree_ok :: "bool \<Rightarrow> nat \<Rightarrow> cer_tree \<Rightarrow> bool" where
  "cer_tree_ok strict m (CER_Primitive t v) \<longleftrightarrow>
     cer_tag_octets t \<and> \<not> lead_constructed t \<and> length v \<le> m \<and> cer_value_ok strict t v"
| "cer_tree_ok strict m (CER_Constructed t ts) \<longleftrightarrow>
     cer_tag_octets t \<and> cer_constructible t \<and> length (cer_forest ts) \<le> m \<and>
     (case octets_segmentable t of
        Some n \<Rightarrow> \<exists>vs. ts = map (CER_Primitive [of_nat n]) vs \<and> segments_ok strict n vs
      | None \<Rightarrow> \<forall>x \<in> set ts. cer_tree_ok strict m x)"

text \<open>At most \<open>k\<close> constructed ancestors for every element, and the number of elements.\<close>

fun cer_fits :: "nat \<Rightarrow> cer_tree \<Rightarrow> bool" where
  "cer_fits k (CER_Primitive t v) \<longleftrightarrow> True"
| "cer_fits k (CER_Constructed t ts) \<longleftrightarrow> 0 < k \<and> (\<forall>x \<in> set ts. cer_fits (k - 1) x)"

fun cer_elements :: "cer_tree \<Rightarrow> nat" where
  "cer_elements (CER_Primitive t v) = 1"
| "cer_elements (CER_Constructed t ts) = 1 + sum_list (map cer_elements ts)"

section \<open>Identifiers in place\<close>

lemma cer_tag_octets_nonempty: "cer_tag_octets t \<Longrightarrow> t \<noteq> []"
  unfolding cer_tag_octets_def using asn1_octets.octet_inv [of "Ptr 0 t" "length t"] by auto

lemma cer_tag_octets_lead:
  assumes "cer_tag_octets t" shows "hd t \<noteq> 0"
proof
  assume z: "hd t = 0"
  obtain ts where t: "t = 0 # ts" using z cer_tag_octets_nonempty [OF assms] by (cases t) auto
  have "oc = Some 1" if "tlv_variable_identifier_read (Some asn1_identifier) (Ptr 0 t) (length t) True = (TLV_OK, ot, oc)" for ot oc
    using that by (auto simp: t tlv_variable_identifier_read_def asn1_identifier_def TLV_ASN1_TAG_NUMBER_MASK_def Let_def
        split: if_splits)
  then have "fst (tlv_asn1_read_identifier (Ptr 0 t) (length t)) \<noteq> TLV_OK"
    by (cases "tlv_variable_identifier_read (Some asn1_identifier) (Ptr 0 t) (length t) True")
      (auto simp: t tlv_asn1_read_identifier_def short_number_def Let_def)
  with assms show False by (simp add: cer_tag_octets_def)
qed

lemma recognized_universal_at:
  assumes t: "cer_tag_octets t" "occurs_at t p pos"
  shows "recognized_universal (tlv_tag (ptr_add p pos) (length t)) = octets_universal t"
proof -
  note ne = cer_tag_octets_nonempty [OF t(1)]
  have b: "pos + length t \<le> length (bytes p)" using occurs_at_bound [OF t(2) ne] .
  have rd: "tlv_asn1_read_identifier (ptr_add p pos) (length t) =
      (TLV_OK, Some (tlv_tag (ptr_add p pos) (length t)), Some (length t))"
    using asn1_octets.octets_at(1) [OF t(1) [unfolded cer_tag_octets_def] t(2), of "pos + length t"] b
    by (simp add: readable_def)
  have nz: "ptr_add p pos \<noteq> Null" using b ne by (cases t) auto
  have o: "byte_at (ptr_add p pos) 0 = byte_at (Ptr 0 t) 0" "take (length t) (bytes (ptr_add p pos)) = t"
    using byte_at_occurs [OF t(2) ne] t(2) b ne by (auto simp: occurs_at_def byte_at_def hd_conv_nth)
  have "tlv_cer_tag_number (Some (tlv_tag (ptr_add p pos) (length t))) True =
      tlv_cer_tag_number (Some (tlv_tag (Ptr 0 t) (length t))) True"
    using rd t(1) o nz
    by (simp add: tlv_cer_tag_number_def tlv_asn1_tag_number_checked_def tlv_asn1_write_identifier_def
        tlv_asn1_write_identifier_checked_def cer_tag_octets_def tlv_tag_def Let_def)
  with o(1) show ?thesis
    by (simp add: octets_universal_def recognized_universal_def tlv_asn1_tag_class_def tlv_tag_def)
qed

lemma segmentable_at:
  assumes "cer_tag_octets t" "occurs_at t p pos"
  shows "segmentable_number (tlv_tag (ptr_add p pos) (length t)) = octets_segmentable t"
  using recognized_universal_at [OF assms] by (simp add: segmentable_number_def octets_segmentable_def octets_universal_def)

lemma type_info_number: "ti_form (tlv_cer_type_info n) \<noteq> TLV_CER_FORM_PRIMITIVE_ONLY \<Longrightarrow> n < 31 \<and> \<not> tlv_asn1_number_must_construct n"
  by (auto simp: tlv_cer_type_info_def tlv_asn1_number_must_construct_def Let_def split: if_splits)

lemma octets_segmentable_number: "octets_segmentable t = Some n \<Longrightarrow> n < 31"
  using type_info_number by (auto simp: octets_segmentable_def segmentable_number_def split: option.splits if_splits)

lemma octets_segmentable_universal: "octets_segmentable t = Some n \<Longrightarrow> octets_universal t = Some n"
  by (auto simp: octets_segmentable_def octets_universal_def segmentable_number_def split: option.splits if_splits)

text \<open>The identifier that a segment must have.\<close>

lemma low_identifier:
  fixes b :: u8 assumes "n < 31"
  shows "b AND 0xC0 = 0 \<and> b AND 0x20 = 0 \<and> unat (b AND 0x1F) = n \<longleftrightarrow> b = of_nat n"
proof -
  have u: "b AND 0xE0 = (b AND 0xC0) OR (b AND 0x20)" using bit.conj_disj_distrib [of b "0xC0" "0x20"] by simp
  have split: "b = (b AND 0xE0) OR (b AND NOT 0xE0)" by (simp only: flip: bit.conj_disj_distrib) simp
  have "b AND 0xC0 = 0 \<and> b AND 0x20 = 0 \<longleftrightarrow> b AND 0xE0 = 0" unfolding u or_eq_0_iff ..
  also have "\<dots> \<longleftrightarrow> b AND NOT 0xE0 = b"
  proof
    assume "b AND 0xE0 = 0"
    with split show "b AND NOT 0xE0 = b" by (metis or.left_neutral)
  next
    assume "b AND NOT 0xE0 = b"
    then have "b AND 0xE0 = b AND (NOT 0xE0 AND 0xE0)" by (metis and.assoc)
    then show "b AND 0xE0 = 0" by simp
  qed
  also have "NOT 0xE0 = (0x1F :: u8)" by simp
  finally have "b AND 0xC0 = 0 \<and> b AND 0x20 = 0 \<longleftrightarrow> b AND 0x1F = b" .
  moreover have "(of_nat n :: u8) AND 0x1F = of_nat n"
  proof -
    have "(of_nat n :: u8) AND mask 5 = take_bit 5 (of_nat n)" by (simp add: take_bit_eq_mask)
    also have "\<dots> = of_nat n" using assms by (simp add: take_bit_nat_eq_self flip: of_nat_take_bit)
    finally show ?thesis by (simp add: mask_eq_exp_minus_1)
  qed
  moreover have "unat (of_nat n :: u8) = n" using assms by (simp add: unat_of_nat)
  ultimately show ?thesis by (metis unsigned_word_eqI)
qed

lemma tag_matches_at:
  assumes t: "cer_tag_octets t" "occurs_at t p pos" and n: "n < 31"
  shows "tag_matches_primitive (tlv_tag (ptr_add p pos) (length t)) n \<longleftrightarrow> t = [of_nat n]"
proof -
  note ne = cer_tag_octets_nonempty [OF t(1)]
  have "byte_at (ptr_add p pos) 0 = hd t"
    using byte_at_occurs [OF t(2) ne] occurs_at_bound [OF t(2) ne] ne by (auto simp: byte_at_def)
  then show ?thesis
    using low_identifier [OF n, of "hd t"] ne by (cases t) (auto simp: tag_matches_primitive_def tlv_tag_def)
qed

end
