(* ===== verification/TLV_CER_Traversal.thy ===== *)
theory TLV_CER_Traversal
  imports TLV_CER_Laws TLV_DER_Traversal
begin

text \<open>
  The traversal loop of CER against the forest: every open element is a scope that the rest of the input must
  fill with a forest and close with end-of-contents octets.  Because constructed elements carry no length, one
  pass through the loop body only moves the boundary between what was read and what must follow, so what the
  loop still accepts is an invariant of the loop.
\<close>

section \<open>What the visitor sees\<close>

fun cer_tag_of :: "cer_tree \<Rightarrow> u8 list" where
  "cer_tag_of (CER_Primitive t v) = t"
| "cer_tag_of (CER_Constructed t ts) = t"

fun cer_children :: "cer_tree \<Rightarrow> cer_tree list" where
  "cer_children (CER_Primitive t v) = []"
| "cer_children (CER_Constructed t ts) = ts"

fun cer_content :: "cer_tree \<Rightarrow> u8 list" where
  "cer_content (CER_Primitive t v) = v"
| "cer_content (CER_Constructed t ts) = cer_forest ts"

fun cer_header :: "cer_tree \<Rightarrow> nat" where
  "cer_header (CER_Primitive t v) = length t + length (der_len (length v))"
| "cer_header (CER_Constructed t ts) = length t + 1"

definition cer_element_at :: "ptr \<Rightarrow> nat \<Rightarrow> cer_tree \<Rightarrow> tlv_element_t" where
  "cer_element_at p pos x =
     \<lparr>elem_tag = tlv_tag (ptr_add p pos) (length (cer_tag_of x)),
      elem_value = \<lparr>val_data = ptr_add p (pos + cer_header x), val_size = length (cer_content x)\<rparr>\<rparr>"

text \<open>The elements of a forest in postorder, each with its depth and its offset.\<close>

lemma cer_elements_eq: "cer_elements x = 1 + sum_list (map cer_elements (cer_children x))"
  by (cases x) simp_all

function cer_events :: "ptr \<Rightarrow> nat \<Rightarrow> nat \<Rightarrow> nat \<Rightarrow> cer_tree list \<Rightarrow> (tlv_element_t \<times> nat \<times> nat) list" where
  "cer_events p base depth pos [] = []"
| "cer_events p base depth pos (x # xs) =
     cer_events p base (depth + 1) (pos + cer_header x) (cer_children x) @
     (cer_element_at p pos x, depth, base + pos) #
     cer_events p base depth (pos + length (cer_octets x)) xs"
  by pat_completeness auto
termination
  by (relation "measure (\<lambda>(p, b, d, pos, xs). sum_list (map cer_elements xs))") (auto simp: cer_elements_eq)

lemma cer_visited_continues:
  "never_stops (ca_visitor a) \<Longrightarrow>
   cer_visited a st el off = Inr (st\<lparr>cs_context :=
     der_run (ca_visitor a) [(el, ca_depth a + length (cs_levels st), ca_base a + off)] (cs_context st)\<rparr>)"
  by (auto simp: cer_visited_def cer_visit_element_def never_stops_def der_run_def case_prod_unfold split: option.splits)

lemma cer_visited_cases:
  "(\<exists>c. cer_visited a st el off = Inr (st\<lparr>cs_context := c\<rparr>)) \<or> (\<exists>r. cer_visited a st el off = Inl (Some r))"
  by (auto simp: cer_visited_def cer_fail_def cer_return_def Let_def split: prod.splits option.splits)

lemma der_run_append: "der_run v (xs @ ys) c = der_run v ys (der_run v xs c)"
  by (simp add: der_run_def split: option.splits)

lemma der_run_Cons_run: "der_run v (x # xs) c = der_run v xs (der_run v [x] c)"
  using der_run_append [of v "[x]" xs] by simp

section \<open>Open scopes\<close>

text \<open>
  A scope is the contents of an open element, or of the whole traversal.  For a constructed string it holds
  the type and the segments that were read.
\<close>

type_synonym cer_scope = "(nat \<times> u8 list list) option"

definition scope_filled :: "'c cer_args \<Rightarrow> cer_scope \<Rightarrow> nat \<Rightarrow> cer_tree list \<Rightarrow> bool" where
  "scope_filled a g level F \<longleftrightarrow>
     (case g of
        None \<Rightarrow> \<forall>x \<in> set F. cer_tree_ok (ca_strict a) (cm_max_value_size (ca_limits a)) x \<and>
          cer_fits (cm_max_depth (ca_limits a) - (ca_depth a + level)) x
      | Some (n, vs) \<Rightarrow> \<exists>ws. F = map (CER_Primitive [of_nat n]) ws \<and> segments_ok (ca_strict a) n (vs @ ws))"

fun cer_scopes :: "'c cer_args \<Rightarrow> bool \<Rightarrow> nat \<Rightarrow> cer_level_t list \<Rightarrow> cer_scope list \<Rightarrow> cer_tree list list \<Rightarrow> bool" where
  "cer_scopes a fst_scope pos [] gs Fs \<longleftrightarrow>
     (\<exists>g F. gs = [g] \<and> Fs = [F] \<and> scope_filled a g 0 F \<and> occurs_at (cer_forest F) (ca_data a) pos \<and>
        pos + length (cer_forest F) \<le> ca_size a \<and>
        (if ca_one a then length F = (if fst_scope then 1 else 0) else pos + length (cer_forest F) = ca_size a))"
| "cer_scopes a fst_scope pos (lvl # levels) gs Fs \<longleftrightarrow>
     (\<exists>g gs' F Fs'. gs = g # gs' \<and> Fs = F # Fs' \<and> scope_filled a g (Suc (length levels)) F \<and>
        occurs_at (cer_forest F @ [0, 0]) (ca_data a) pos \<and> pos + length (cer_forest F) + 2 \<le> ca_size a \<and>
        pos + length (cer_forest F) - cl_content_start lvl \<le> cm_max_value_size (ca_limits a) \<and>
        cer_scopes a False (pos + length (cer_forest F) + 2) levels gs' Fs')"

definition level_element :: "'c cer_args \<Rightarrow> cer_level_t \<Rightarrow> nat \<Rightarrow> tlv_element_t" where
  "level_element a lvl pos =
     \<lparr>elem_tag = cl_tag lvl,
      elem_value = \<lparr>val_data = ptr_add (ca_data a) (cl_content_start lvl), val_size = pos - cl_content_start lvl\<rparr>\<rparr>"

fun scope_events :: "'c cer_args \<Rightarrow> nat \<Rightarrow> cer_level_t list \<Rightarrow> cer_tree list list \<Rightarrow> (tlv_element_t \<times> nat \<times> nat) list" where
  "scope_events a pos levels [] = []"
| "scope_events a pos [] (F # Fs) = cer_events (ca_data a) (ca_base a) (ca_depth a) pos F"
| "scope_events a pos (lvl # levels) (F # Fs) =
     cer_events (ca_data a) (ca_base a) (ca_depth a + Suc (length levels)) pos F @
     (level_element a lvl (pos + length (cer_forest F)), ca_depth a + length levels, ca_base a + cl_tag_offset lvl) #
     scope_events a (pos + length (cer_forest F) + 2) levels Fs"

fun scopes_end :: "nat \<Rightarrow> cer_tree list list \<Rightarrow> nat" where
  "scopes_end pos [] = pos"
| "scopes_end pos [F] = pos + length (cer_forest F)"
| "scopes_end pos (F # G # Fs) = scopes_end (pos + length (cer_forest F) + 2) (G # Fs)"

definition cer_accepts ::
  "'c cer_args \<Rightarrow> cer_scope list \<Rightarrow> 'c cer_state \<Rightarrow> 'c \<Rightarrow> (tlv_element_t \<times> nat) option \<Rightarrow> cer_tree list list \<Rightarrow> bool" where
  "cer_accepts a gs st c f Fs \<longleftrightarrow>
     cer_scopes a True (cs_pos st) (cs_levels st) gs Fs \<and>
     cs_count st + sum_list (map cer_elements (concat Fs)) \<le> cm_max_elements (ca_limits a) \<and>
     c = der_run (ca_visitor a) (scope_events a (cs_pos st) (cs_levels st) Fs) (cs_context st) \<and>
     f = (if ca_one a
          then Some (fst (last (scope_events a (cs_pos st) (cs_levels st) Fs)), scopes_end (cs_pos st) Fs) else None)"

definition cer_outcome ::
  "'c cer_args \<Rightarrow> cer_scope list \<Rightarrow> 'c cer_state \<Rightarrow> 'c \<Rightarrow> (tlv_element_t \<times> nat) option \<Rightarrow> bool" where
  "cer_outcome a gs st c f \<longleftrightarrow> (\<exists>Fs. cer_accepts a gs st c f Fs)"

section \<open>The invariant of the loop\<close>

definition scope_state :: "bool \<Rightarrow> cer_scope \<Rightarrow> tlv_cer_segment_state_t option \<Rightarrow> bool" where
  "scope_state strict g s \<longleftrightarrow>
     (case g of None \<Rightarrow> s = None
      | Some (n, vs) \<Rightarrow> ti_form (tlv_cer_type_info n) \<noteq> TLV_CER_FORM_PRIMITIVE_ONLY \<and>
          (\<exists>seg. s = Some seg \<and> absorbed strict n vs seg))"

fun scopes_ok :: "bool \<Rightarrow> cer_level_t list \<Rightarrow> tlv_cer_segment_state_t option \<Rightarrow> cer_scope list \<Rightarrow> bool" where
  "scopes_ok strict [] outer gs \<longleftrightarrow> (\<exists>g. gs = [g] \<and> scope_state strict g outer)"
| "scopes_ok strict (lvl # levels) outer gs \<longleftrightarrow>
     (\<exists>g gs'. gs = g # gs' \<and> scope_state strict g (if cl_segmentable lvl then Some (cl_segment_state lvl) else None) \<and>
        scopes_ok strict levels outer gs')"

definition cer_args_ok :: "'c cer_args \<Rightarrow> bool" where
  "cer_args_ok a \<longleftrightarrow> readable (ca_data a) (ca_size a) \<and> ca_size a \<le> TLV_SIZE_MAX \<and> cm_max_depth (ca_limits a) \<le> TLV_CER_MAX_DEPTH \<and>
     ca_depth a \<le> cm_max_depth (ca_limits a) \<and> (ca_one a \<longrightarrow> 0 < ca_size a \<and> ca_visitor a = None)"

definition cer_state_ok :: "'c cer_args \<Rightarrow> cer_scope list \<Rightarrow> 'c cer_state \<Rightarrow> bool" where
  "cer_state_ok a gs st \<longleftrightarrow> cs_pos st \<le> ca_size a \<and> cs_count st \<le> cm_max_elements (ca_limits a) \<and>
     ca_depth a + length (cs_levels st) \<le> cm_max_depth (ca_limits a) \<and>
     scopes_ok (ca_strict a) (cs_levels st) (cs_outer st) gs \<and>
     (ca_one a \<longrightarrow> cs_outer st = None \<and> (cs_levels st = [] \<longrightarrow> cs_pos st = 0))"

text \<open>A result that is final for a state, and a step that keeps what the loop accepts.\<close>

definition cer_decides :: "'c cer_args \<Rightarrow> cer_scope list \<Rightarrow> 'c cer_state \<Rightarrow> 'c cer_result \<Rightarrow> bool" where
  "cer_decides a gs st r \<longleftrightarrow>
     (case r of (rc, f, c, d) \<Rightarrow>
        (\<forall>c' f'. cer_outcome a gs st c' f' \<longleftrightarrow> rc = TLV_OK \<and> c' = c \<and> f' = f) \<and> (rc = TLV_OK \<longrightarrow> d = cs_diag st))"

definition cer_progress :: "'c cer_args \<Rightarrow> cer_scope list \<Rightarrow> 'c cer_state \<Rightarrow> 'c cer_result option + 'c cer_state \<Rightarrow> bool" where
  "cer_progress a gs st s \<longleftrightarrow>
     (case s of Inl None \<Rightarrow> False
      | Inl (Some r) \<Rightarrow> never_stops (ca_visitor a) \<longrightarrow> cer_decides a gs st r
      | Inr st' \<Rightarrow> cs_pos st < cs_pos st' \<and>
          (\<exists>gs'. cer_state_ok a gs' st' \<and>
             (never_stops (ca_visitor a) \<longrightarrow>
                cs_diag st' = cs_diag st \<and> (\<forall>c f. cer_outcome a gs st c f \<longleftrightarrow> cer_outcome a gs' st' c f))))"

definition cer_failed :: "'c cer_state \<Rightarrow> 'c cer_result option + 'c cer_state \<Rightarrow> bool" where
  "cer_failed st s \<longleftrightarrow> (\<exists>st' rc off. rc \<noteq> TLV_OK \<and> s = Inl (Some (cer_fail st' rc off)))"

lemma cer_failedI [simp]: "rc \<noteq> TLV_OK \<Longrightarrow> cer_failed st (Inl (Some (cer_fail st' rc off)))"
  by (auto simp: cer_failed_def)

lemma cer_failed_if [simp]: "cer_failed st (if b then s else t) \<longleftrightarrow> (if b then cer_failed st s else cer_failed st t)"
  by simp

lemma cer_failed_progress: "cer_failed st s \<Longrightarrow> (\<And>c f. \<not> cer_outcome a gs st c f) \<Longrightarrow> cer_progress a gs st s"
  by (auto simp: cer_failed_def cer_progress_def cer_decides_def cer_fail_def cer_return_def)

lemma cer_visited_progress:
  assumes "cs_pos st < cs_pos st1" "cs_diag st1 = cs_diag st" "\<And>c. cer_state_ok a gs' (st1\<lparr>cs_context := c\<rparr>)"
    and "\<And>c f. cer_outcome a gs st c f \<longleftrightarrow> cer_outcome a gs' (st1\<lparr>cs_context :=
      der_run (ca_visitor a) [(el, ca_depth a + length (cs_levels st1), ca_base a + off)] (cs_context st1)\<rparr>) c f"
  shows "cer_progress a gs st (cer_visited a st1 el off)"
proof -
  have "cer_progress a gs st (Inr (st1\<lparr>cs_context := c\<rparr>))" if "cer_visited a st1 el off = Inr (st1\<lparr>cs_context := c\<rparr>)" for c
    using that assms cer_visited_continues [of a st1 el off] unfolding cer_progress_def
    by (auto intro!: exI [of _ gs'] simp del: cer_state.unfold_congs)
  moreover have "cer_progress a gs st (Inl (Some r))" if "cer_visited a st1 el off = Inl (Some r)" for r
    using that cer_visited_continues [of a st1 el off] by (auto simp: cer_progress_def)
  ultimately show ?thesis using cer_visited_cases [of a st1 el off] by metis
qed

lemma scopes_ok_parent:
  "scopes_ok strict levels outer gs \<Longrightarrow> \<exists>g gs'. gs = g # gs' \<and> scope_state strict g (parent_segments levels outer)"
  by (cases levels) (auto simp: parent_segments_def)

section \<open>Trees that fill a scope\<close>

lemma segment_tag_octets:
  assumes "ti_form (tlv_cer_type_info n) \<noteq> TLV_CER_FORM_PRIMITIVE_ONLY"
  shows "cer_tag_octets [of_nat n]" "\<not> lead_constructed [of_nat n]"
proof -
  have "n \<in> {3, 4, 12, 7, 18, 19, 20, 21, 22, 25, 26, 27, 28, 30}"
    using assms by (auto simp: tlv_cer_type_info_def Let_def split: if_splits)
  then have "cer_tag_octets [of_nat n] \<and> \<not> lead_constructed [of_nat n]"
    by (simp only: insert_iff empty_iff) (elim disjE; simp only: of_nat_numeral; code_simp)
  then show "cer_tag_octets [of_nat n]" "\<not> lead_constructed [of_nat n]" by simp_all
qed

lemma scope_filled_Nil:
  "scope_filled a g level [] \<longleftrightarrow> (case g of None \<Rightarrow> True | Some (n, vs) \<Rightarrow> segments_ok (ca_strict a) n vs)"
  by (simp add: scope_filled_def split: option.splits)

lemma scope_filled_Cons:
  "scope_filled a g level (x # F) \<longleftrightarrow>
     (case g of
        None \<Rightarrow> cer_tree_ok (ca_strict a) (cm_max_value_size (ca_limits a)) x \<and>
          cer_fits (cm_max_depth (ca_limits a) - (ca_depth a + level)) x \<and> scope_filled a None level F
      | Some (n, vs) \<Rightarrow> \<exists>v. x = CER_Primitive [of_nat n] v \<and> scope_filled a (Some (n, vs @ [v])) level F)"
  by (auto simp: scope_filled_def Cons_eq_map_conv split: option.splits)

lemma scope_filled_tags:
  assumes "scope_filled a g level F" "scope_state strict g s" "x \<in> set F"
  shows "cer_tag_octets (cer_tag_of x) \<and> (case x of CER_Primitive t v \<Rightarrow> \<not> lead_constructed t | CER_Constructed t ts \<Rightarrow> lead_constructed t)"
  using assms segment_tag_octets
  by (cases x; cases g) (auto simp: scope_filled_def scope_state_def cer_constructible_def)

lemma cer_octets_eq: "\<exists>rest. cer_octets x = cer_tag_of x @ rest \<and> (\<forall>t v. x = CER_Primitive t v \<longrightarrow> rest = der_len (length v) @ v) \<and>
    (\<forall>t ts. x = CER_Constructed t ts \<longrightarrow> rest = 0x80 # cer_forest ts @ [0, 0])"
  by (cases x) auto

lemma cer_scopes_head:
  "cer_scopes a b pos levels gs Fs \<Longrightarrow> \<exists>g gs' F Fs'. gs = g # gs' \<and> Fs = F # Fs' \<and> scope_filled a g (length levels) F \<and>
     occurs_at (cer_forest F) (ca_data a) pos \<and> pos + length (cer_forest F) \<le> ca_size a"
  by (cases levels) auto

lemma cer_forest_lead:
  assumes "scope_filled a g level F" "scope_state strict g s" "F \<noteq> []" "occurs_at (cer_forest F) p pos"
  shows "byte_at p pos \<noteq> 0"
proof -
  obtain x F' where F: "F = x # F'" using assms(3) by (cases F) auto
  have t: "cer_tag_octets (cer_tag_of x)" using scope_filled_tags [OF assms(1,2), of x] F by simp
  obtain rest where "cer_octets x = cer_tag_of x @ rest" using cer_octets_eq by blast
  then have "occurs_at (cer_tag_of x) p pos" using assms(4) F by simp
  then show ?thesis using byte_at_occurs cer_tag_octets_nonempty [OF t] cer_tag_octets_lead [OF t] by metis
qed

section \<open>Closing an element\<close>

lemma scope_finish:
  assumes "scope_state strict g s" "strict = ca_strict a"
  shows "(case s of None \<Rightarrow> True | Some seg \<Rightarrow> fst (tlv_cer_segment_state_finish seg off) = TLV_OK) \<longleftrightarrow> scope_filled a g level []"
  using assms segment_state_finish by (auto simp: scope_state_def scope_filled_Nil split: option.splits)

lemma cer_outcome_zero:
  assumes st: "cer_state_ok a gs st" and z: "byte_at (ca_data a) (cs_pos st) = 0"
    and sc: "cer_scopes a b (cs_pos st) (cs_levels st) gs Fs"
  obtains Fs' where "Fs = [] # Fs'"
proof -
  from cer_scopes_head [OF sc] obtain g gs' F Fs' where F: "gs = g # gs'" "Fs = F # Fs'" "scope_filled a g (length (cs_levels st)) F"
    "occurs_at (cer_forest F) (ca_data a) (cs_pos st)" by blast
  from scopes_ok_parent st F(1) obtain s where "scope_state (ca_strict a) g s" by (fastforce simp: cer_state_ok_def)
  from cer_forest_lead [OF F(3) this _ F(4)] z F(2) that show thesis by blast
qed

lemma cer_outcome_end:
  assumes a: "cer_args_ok a" and st: "cer_state_ok a gs st" and pos: "cs_pos st = ca_size a"
  shows "cer_decides a gs st (cer_end a st)"
proof -
  have Fs: "Fs = [[]]" if sc: "cer_scopes a True (cs_pos st) (cs_levels st) gs Fs" for Fs
  proof -
    from cer_scopes_head [OF sc] obtain g gs' F Fs' where F: "gs = g # gs'" "Fs = F # Fs'"
      "scope_filled a g (length (cs_levels st)) F" "cer_forest F = []" using pos by auto
    have "F = []"
    proof (rule ccontr)
      assume ne: "F \<noteq> []"
      from scopes_ok_parent st F(1) obtain s where "scope_state (ca_strict a) g s" by (fastforce simp: cer_state_ok_def)
      from cer_forest_lead [OF F(3) this ne, of "Ptr 0 [0]" 0] F(4) show False by (simp add: byte_at_def)
    qed
    then show ?thesis using sc F(2) pos by (cases "cs_levels st") auto
  qed
  show ?thesis
  proof (cases "cs_levels st")
    case Nil
    have one: "\<not> ca_one a" using a st pos Nil by (auto simp: cer_args_ok_def cer_state_ok_def)
    obtain g where g: "gs = [g]" "scope_state (ca_strict a) g (cs_outer st)" using st Nil by (auto simp: cer_state_ok_def)
    have "cer_outcome a gs st c f \<longleftrightarrow> scope_filled a g 0 [] \<and> c = cs_context st \<and> f = None" for c f
    proof
      assume "cer_outcome a gs st c f"
      then show "scope_filled a g 0 [] \<and> c = cs_context st \<and> f = None"
        unfolding cer_outcome_def cer_accepts_def using Fs Nil g one by (fastforce simp: der_run_def split: option.splits)
    next
      assume "scope_filled a g 0 [] \<and> c = cs_context st \<and> f = None"
      then show "cer_outcome a gs st c f" unfolding cer_outcome_def cer_accepts_def
        using Nil g one pos st by (intro exI [of _ "[[]]"]) (simp add: der_run_def cer_state_ok_def split: option.splits)
    qed
    then show ?thesis
      using scope_finish [OF g(2) refl, of "ca_base a - 1" 0] Nil
      by (auto simp: cer_decides_def cer_end_def cer_return_def cer_fail_def split: option.splits prod.splits)
  next
    case (Cons lvl levels)
    have "\<not> cer_outcome a gs st c f" for c f
    proof
      assume "cer_outcome a gs st c f"
      then obtain Fs where sc: "cer_scopes a True (cs_pos st) (cs_levels st) gs Fs" by (auto simp: cer_outcome_def cer_accepts_def)
      from sc Fs [OF sc] Cons pos show False by simp
    qed
    then show ?thesis using Cons by (simp add: cer_decides_def cer_end_def cer_return_def cer_fail_def)
  qed
qed

lemma cer_close_progress:
  assumes a: "cer_args_ok a" and st: "cer_state_ok a gs st" and pos: "cs_pos st < ca_size a"
    and z: "byte_at (ca_data a) (cs_pos st) = 0"
  shows "cer_progress a gs st (cer_close a st)"
proof (cases "cs_levels st")
  case Nil
  have "\<not> cer_outcome a gs st c f" for c f
  proof
    assume "cer_outcome a gs st c f"
    then obtain Fs where sc: "cer_scopes a True (cs_pos st) (cs_levels st) gs Fs" by (auto simp: cer_outcome_def cer_accepts_def)
    from cer_outcome_zero [OF st z sc] obtain Fs' where "Fs = [] # Fs'" .
    with sc pos Nil show False by (auto split: if_splits)
  qed
  moreover have "cer_failed st (cer_close a st)" unfolding cer_close_def Let_def Nil by simp
  ultimately show ?thesis using cer_failed_progress by blast
next
  case (Cons lvl levels)
  obtain g gs' where gs: "gs = g # gs'"
    "scope_state (ca_strict a) g (if cl_segmentable lvl then Some (cl_segment_state lvl) else None)"
    "scopes_ok (ca_strict a) levels (cs_outer st) gs'" using st Cons by (auto simp: cer_state_ok_def)
  let ?pos = "cs_pos st" and ?el = "level_element a lvl (cs_pos st)"
  let ?e = "(?el, ca_depth a + length levels, ca_base a + cl_tag_offset lvl)"
  define C where "C \<longleftrightarrow> ?pos + 2 \<le> ca_size a \<and> byte_at (ca_data a) (?pos + 1) = 0 \<and>
      ?pos - cl_content_start lvl \<le> cm_max_value_size (ca_limits a) \<and> scope_filled a g (Suc (length levels)) []"
  have r: "readable (ca_data a) (ca_size a)" using a by (simp add: cer_args_ok_def)
  have eoc: "?pos + 2 \<le> ca_size a \<and> byte_at (ca_data a) (?pos + 1) = 0 \<longleftrightarrow>
      occurs_at [0, 0] (ca_data a) ?pos \<and> ?pos + 2 \<le> ca_size a"
    using byte_pair [of 0 0 "ca_data a" ?pos] r z by (auto simp: readable_def)
  have iff: "cer_outcome a gs st c f \<longleftrightarrow> C \<and> (\<exists>Fs. cer_scopes a False (?pos + 2) levels gs' Fs \<and>
      cs_count st + sum_list (map cer_elements (concat Fs)) \<le> cm_max_elements (ca_limits a) \<and>
      c = der_run (ca_visitor a) (?e # scope_events a (?pos + 2) levels Fs) (cs_context st) \<and>
      f = (if ca_one a then Some (fst (last (?e # scope_events a (?pos + 2) levels Fs)), scopes_end (?pos + 2) Fs) else None))"
    (is "_ \<longleftrightarrow> C \<and> (\<exists>Fs. ?q c f Fs)") for c f
  proof
    assume "cer_outcome a gs st c f"
    then obtain Fs where sc: "cer_scopes a True ?pos (cs_levels st) gs Fs"
      and rest: "cs_count st + sum_list (map cer_elements (concat Fs)) \<le> cm_max_elements (ca_limits a)"
        "c = der_run (ca_visitor a) (scope_events a ?pos (cs_levels st) Fs) (cs_context st)"
        "f = (if ca_one a then Some (fst (last (scope_events a ?pos (cs_levels st) Fs)), scopes_end ?pos Fs) else None)"
      by (auto simp: cer_outcome_def cer_accepts_def)
    from cer_outcome_zero [OF st z sc] obtain Fs' where Fs: "Fs = [] # Fs'" .
    have s: "cer_scopes a False (?pos + 2) levels gs' Fs'" and C using sc Fs Cons gs(1) eoc by (auto simp: C_def)
    moreover obtain G Gs where "Fs' = G # Gs" using cer_scopes_head [OF s] by auto
    ultimately show "C \<and> (\<exists>Fs. ?q c f Fs)" using rest Fs Cons by (intro conjI exI [of _ Fs']) simp_all
  next
    assume "C \<and> (\<exists>Fs. ?q c f Fs)"
    then obtain Fs where q: C "?q c f Fs" by blast
    moreover obtain G Gs where "Fs = G # Gs" using cer_scopes_head q(2) by blast
    ultimately show "cer_outcome a gs st c f"
      unfolding cer_outcome_def cer_accepts_def using Cons gs(1) eoc by (intro exI [of _ "[] # Fs"]) (auto simp: C_def)
  qed
  let ?st = "st\<lparr>cs_pos := ?pos + 2, cs_levels := levels\<rparr>"
  have fin: "fst (if cl_segmentable lvl then tlv_cer_segment_state_finish (cl_segment_state lvl) (ca_base a + cl_length_offset lvl)
      else (TLV_OK, None)) = TLV_OK \<longleftrightarrow> scope_filled a g (Suc (length levels)) []"
    using scope_finish [OF gs(2) refl, of "ca_base a + cl_length_offset lvl" "Suc (length levels)"] by (auto split: if_splits)
  obtain frc err where f: "(if cl_segmentable lvl
      then tlv_cer_segment_state_finish (cl_segment_state lvl) (ca_base a + cl_length_offset lvl) else (TLV_OK, None)) = (frc, err)"
    by (metis prod.exhaust)
  have native: "tlv_size_from_native n True = (TLV_OK, Some n)" for n by (simp add: tlv_size_from_native_def)
  show ?thesis
  proof (cases C)
    case False
    have "ca_size a - ?pos < 2 \<or> byte_at (ca_data a) (?pos + 1) \<noteq> 0 \<or>
        cm_max_value_size (ca_limits a) < ?pos - cl_content_start lvl \<or> frc \<noteq> TLV_OK"
      using False fin [unfolded f] by (auto simp: C_def)
    then have "cer_failed st (cer_close a st)"
      unfolding cer_close_def Let_def Cons list.case f prod.case by auto
    then show ?thesis using cer_failed_progress iff False by blast
  next
    case True
    have close: "cer_close a st = (case cer_visited a ?st ?el (cl_tag_offset lvl) of Inl r \<Rightarrow> Inl r
        | Inr st \<Rightarrow> if ca_one a \<and> levels = [] then Inl (Some (cer_return st TLV_OK (Some (?el, ?pos + 2)))) else Inr st)"
      using True fin [unfolded f]
      unfolding cer_close_def Let_def Cons list.case f prod.case native option.sel level_element_def by (auto simp: C_def)
    have ok: "cer_state_ok a gs' (?st\<lparr>cs_context := c\<rparr>)" if "\<not> (ca_one a \<and> levels = [])" for c
      using st True gs that Cons by (auto simp: cer_state_ok_def C_def)
    have out: "cer_outcome a gs st c f \<longleftrightarrow> cer_outcome a gs' (?st\<lparr>cs_context := der_run (ca_visitor a) [?e] (cs_context st)\<rparr>) c f"
      if "\<not> (ca_one a \<and> levels = [])" for c f
    proof -
      have ne: "scope_events a (?pos + 2) levels Fs \<noteq> []" if "cer_scopes a False (?pos + 2) levels gs' Fs" "ca_one a" for Fs
        using that \<open>\<not> (ca_one a \<and> levels = [])\<close> cer_scopes_head [OF that(1)] by (cases levels) auto
      have sc: "cer_scopes a False (?pos + 2) levels gs' Fs \<longleftrightarrow> cer_scopes a True (?pos + 2) levels gs' Fs" for Fs
        using that by (cases levels) auto
      have "?q c f Fs \<longleftrightarrow> cer_scopes a True (?pos + 2) levels gs' Fs \<and>
          cs_count st + sum_list (map cer_elements (concat Fs)) \<le> cm_max_elements (ca_limits a) \<and>
          c = der_run (ca_visitor a) (scope_events a (?pos + 2) levels Fs) (der_run (ca_visitor a) [?e] (cs_context st)) \<and>
          f = (if ca_one a then Some (fst (last (scope_events a (?pos + 2) levels Fs)), scopes_end (?pos + 2) Fs) else None)" for Fs
        using ne [of Fs] sc [of Fs] der_run_Cons_run [of "ca_visitor a" ?e "scope_events a (?pos + 2) levels Fs"] by auto
      then show ?thesis unfolding iff using True by (simp add: cer_outcome_def cer_accepts_def)
    qed
    have final: "cer_outcome a gs st c f \<longleftrightarrow> c = der_run (ca_visitor a) [?e] (cs_context st) \<and> f = Some (?el, ?pos + 2)"
      if one: "ca_one a \<and> levels = []" for c f
    proof -
      obtain g' where "gs' = [g']" "scope_state (ca_strict a) g' (cs_outer st)" using gs(3) one by auto
      moreover have "?pos + 2 \<le> ca_size a" "cs_outer st = None" "cs_count st \<le> cm_max_elements (ca_limits a)"
        using True one st by (auto simp: C_def cer_state_ok_def)
      ultimately show ?thesis
        unfolding iff using True one by (auto simp: scope_state_def scope_filled_Nil split: option.splits)
    qed
    show ?thesis
    proof (cases "ca_one a \<and> levels = []")
      case one: True
      then have "ca_visitor a = None" using a by (simp add: cer_args_ok_def)
      then have "cer_visited a ?st ?el (cl_tag_offset lvl) = Inr ?st"
        by (simp add: cer_visited_def cer_visit_element_def)
      then show ?thesis
        unfolding close using one final by (auto simp: cer_progress_def cer_decides_def cer_return_def der_run_def \<open>ca_visitor a = None\<close>)
    next
      case False
      have "cer_close a st = cer_visited a ?st ?el (cl_tag_offset lvl)" unfolding close using False by (auto split: sum.splits)
      then show ?thesis using cer_visited_progress [of st ?st a gs' gs ?el "cl_tag_offset lvl"] ok [OF False] out [OF False] by simp
    qed
  qed
qed

section \<open>The next element\<close>

text \<open>An identifier at the position, inside the input.\<close>

definition tag_at_pos :: "'c cer_args \<Rightarrow> nat \<Rightarrow> u8 list \<Rightarrow> bool" where
  "tag_at_pos a pos t \<longleftrightarrow> cer_tag_octets t \<and> occurs_at t (ca_data a) pos \<and> pos + length t < ca_size a"

lemma tag_at_pos_read:
  assumes "cer_args_ok a" "tag_at_pos a pos t"
  shows "tlv_asn1_read_identifier (ptr_add (ca_data a) pos) (ca_size a - pos) =
    (TLV_OK, Some (tlv_tag (ptr_add (ca_data a) pos) (length t)), Some (length t))"
  using assms by (intro asn1_octets.octets_at(1)) (auto simp: tag_at_pos_def cer_tag_octets_def cer_args_ok_def)

lemma tag_at_pos_unique:
  assumes "cer_args_ok a" "tag_at_pos a pos t" "tag_at_pos a pos t'"
  shows "t = t'"
proof -
  have "length t = length t'"
    using tag_at_pos_read [OF assms(1,2)] tag_at_pos_read [OF assms(1,3)] by (simp add: tlv_tag_def)
  then show ?thesis using assms(2,3) by (simp add: tag_at_pos_def occurs_at_def)
qed

text \<open>What follows the first tree of the innermost scope.\<close>

definition scope_tail :: "'c cer_args \<Rightarrow> nat \<Rightarrow> cer_level_t list \<Rightarrow> cer_scope list \<Rightarrow> cer_tree list \<Rightarrow> cer_tree list list \<Rightarrow> bool" where
  "scope_tail a pos levels gs F Fs \<longleftrightarrow>
     occurs_at (cer_forest F) (ca_data a) pos \<and> pos + length (cer_forest F) \<le> ca_size a \<and>
     (case levels of
        [] \<Rightarrow> gs = [] \<and> Fs = [] \<and> (if ca_one a then F = [] else pos + length (cer_forest F) = ca_size a)
      | lvl # levels \<Rightarrow> occurs_at [0, 0] (ca_data a) (pos + length (cer_forest F)) \<and> pos + length (cer_forest F) + 2 \<le> ca_size a \<and>
          pos + length (cer_forest F) - cl_content_start lvl \<le> cm_max_value_size (ca_limits a) \<and>
          cer_scopes a False (pos + length (cer_forest F) + 2) levels gs Fs)"

lemma cer_scopes_Cons:
  "cer_scopes a True pos levels (g # gs) ((x # F) # Fs) \<longleftrightarrow>
     scope_filled a g (length levels) (x # F) \<and> occurs_at (cer_octets x) (ca_data a) pos \<and>
     scope_tail a (pos + length (cer_octets x)) levels gs F Fs"
  by (cases levels) (auto simp: scope_tail_def add.assoc)

lemma cer_scopes_tail:
  "cer_scopes a False pos levels (g # gs) (F # Fs) \<longleftrightarrow> scope_filled a g (length levels) F \<and> scope_tail a pos levels gs F Fs"
  by (cases levels) (auto simp: scope_tail_def)

lemma scope_tail_bound: "scope_tail a pos levels gs F Fs \<Longrightarrow> pos \<le> ca_size a"
  by (simp add: scope_tail_def)

lemma cer_scopes_next:
  assumes a: "cer_args_ok a" and st: "cer_state_ok a gs st" and t: "tag_at_pos a (cs_pos st) t"
    and sc: "cer_scopes a True (cs_pos st) (cs_levels st) gs Fs"
  obtains x F Fs' where "Fs = (x # F) # Fs'" "cer_tag_of x = t" "length (cer_content x) \<le> TLV_SIZE_MAX"
    "occurs_at (cer_octets x) (ca_data a) (cs_pos st)" "cs_pos st + length (cer_octets x) \<le> ca_size a"
    "case x of CER_Primitive t v \<Rightarrow> \<not> lead_constructed t | CER_Constructed t ts \<Rightarrow> lead_constructed t"
proof -
  from cer_scopes_head [OF sc] obtain g gs' F Fs' where F: "gs = g # gs'" "Fs = F # Fs'"
    "scope_filled a g (length (cs_levels st)) F" "occurs_at (cer_forest F) (ca_data a) (cs_pos st)"
    "cs_pos st + length (cer_forest F) \<le> ca_size a" by blast
  from scopes_ok_parent st F(1) obtain s where s: "scope_state (ca_strict a) g s" by (fastforce simp: cer_state_ok_def)
  have T: "cer_tag_octets t" "occurs_at t (ca_data a) (cs_pos st)" "t \<noteq> []" "cs_pos st < ca_size a"
    using t cer_tag_octets_nonempty by (auto simp: tag_at_pos_def)
  have nz: "byte_at (ca_data a) (cs_pos st) \<noteq> 0" using byte_at_occurs [OF T(2,3)] cer_tag_octets_lead [OF T(1)] by simp
  have "F \<noteq> []"
  proof
    assume "F = []"
    with sc F(2) T(4) nz show False by (cases "cs_levels st") (auto split: if_splits dest: occurs_at_Cons)
  qed
  then obtain x F' where x: "F = x # F'" by (cases F) auto
  from scope_filled_tags [OF F(3) s, of x] x have X: "cer_tag_octets (cer_tag_of x)"
    "case x of CER_Primitive t v \<Rightarrow> \<not> lead_constructed t | CER_Constructed t ts \<Rightarrow> lead_constructed t" by auto
  have o: "occurs_at (cer_octets x) (ca_data a) (cs_pos st)" "cs_pos st + length (cer_octets x) \<le> ca_size a"
    using F(4,5) x by auto
  have len: "length (cer_content x) \<le> length (cer_octets x)" by (cases x) auto
  have "length (cer_tag_of x) < length (cer_octets x)"
  proof (cases x)
    case (CER_Primitive t v)
    have "length v \<le> TLV_SIZE_MAX" using len o(2) a CER_Primitive by (simp add: cer_args_ok_def)
    from der_len_nonempty [OF this] CER_Primitive show ?thesis by simp
  qed simp
  then have "tag_at_pos a (cs_pos st) (cer_tag_of x)"
    using X(1) o cer_octets_eq [of x] by (auto simp: tag_at_pos_def)
  then have "cer_tag_of x = t" using tag_at_pos_unique [OF a _ t] by blast
  moreover have "length (cer_content x) \<le> TLV_SIZE_MAX" using len o(2) a by (simp add: cer_args_ok_def)
  ultimately show thesis using that F(2) x o X(2) by blast
qed

lemma cer_form_at:
  assumes "occurs_at (cer_octets x) p pos" "length (cer_content x) \<le> TLV_SIZE_MAX"
  shows "(\<exists>ts. x = CER_Constructed (cer_tag_of x) ts) \<longleftrightarrow> byte_at p (pos + length (cer_tag_of x)) = 0x80"
proof (cases x)
  case (CER_Primitive t v)
  have v: "length v \<le> TLV_SIZE_MAX" using assms(2) CER_Primitive by simp
  have "occurs_at (der_len (length v)) p (pos + length t)" using assms(1) CER_Primitive by simp
  from byte_at_occurs [OF this der_len_nonempty [OF v]] ber_len_enc_lead [OF v ber_length_fits [OF v]] CER_Primitive
  show ?thesis by simp
next
  case (CER_Constructed t ts)
  then have "occurs_at (0x80 # cer_forest ts @ [0, 0]) p (pos + length t)" using assms(1) by simp
  from occurs_at_Cons [OF this] CER_Constructed show ?thesis by simp
qed

section \<open>Opening an element\<close>

lemma ex_reindex:
  "(\<And>x y z. P x y z \<longleftrightarrow> Q (h x y z)) \<Longrightarrow> (\<And>w. Q w \<Longrightarrow> \<exists>x y z. w = h x y z) \<Longrightarrow> (\<exists>x y z. P x y z) \<longleftrightarrow> (\<exists>w. Q w)"
  by metis

lemma scope_open:
  assumes "cer_tag_octets t" "cer_constructible t" "ca_depth a + level < cm_max_depth (ca_limits a)"
  shows "scope_filled a None level (CER_Constructed t ts # F) \<longleftrightarrow>
    scope_filled a (map_option (\<lambda>n. (n, [])) (octets_segmentable t)) (Suc level) ts \<and>
    length (cer_forest ts) \<le> cm_max_value_size (ca_limits a) \<and> scope_filled a None level F"
  using assms by (auto simp: scope_filled_Cons scope_filled_def split: option.splits)

lemma cer_scopes_open:
  assumes "cer_tag_octets t" "cer_constructible t" "ca_depth a + length levels < cm_max_depth (ca_limits a)"
    and "occurs_at (t @ [0x80]) (ca_data a) pos" "cl_content_start lvl = pos + length t + 1"
  shows "cer_scopes a True pos levels (None # gs) ((CER_Constructed t ts # F) # Fs) \<longleftrightarrow>
    cer_scopes a True (pos + length t + 1) (lvl # levels) (map_option (\<lambda>n. (n, [])) (octets_segmentable t) # None # gs) (ts # F # Fs)"
proof -
  let ?x = "CER_Constructed t ts" and ?q = "pos + length t + 1"
  have e: "pos + length (cer_octets ?x) = ?q + length (cer_forest ts) + 2" by simp
  have o: "occurs_at (cer_octets ?x) (ca_data a) pos \<longleftrightarrow> occurs_at (cer_forest ts @ [0, 0]) (ca_data a) ?q"
    using assms(4) occurs_at_append [of "t @ [0x80]" "cer_forest ts @ [0, 0]" "ca_data a" pos] by simp
  show ?thesis
    unfolding cer_scopes_Cons e o scope_open [OF assms(1,2,3)] cer_scopes.simps(2)
    using scope_tail_bound [of a "?q + length (cer_forest ts) + 2" levels gs F Fs] assms(5)
    by (auto simp: cer_scopes_tail simp del: occurs_at_append)
qed

lemma scope_events_Cons:
  "scope_events a pos levels ((x # F) # Fs) =
     cer_events (ca_data a) (ca_base a) (ca_depth a + length levels + 1) (pos + cer_header x) (cer_children x) @
     (cer_element_at (ca_data a) pos x, ca_depth a + length levels, ca_base a + pos) #
     scope_events a (pos + length (cer_octets x)) levels (F # Fs)"
  by (cases levels) (simp_all add: add.assoc)

lemma scopes_end_Cons: "scopes_end pos ((x # F) # Fs) = scopes_end (pos + length (cer_octets x)) (F # Fs)"
  by (cases Fs) (simp_all add: add.assoc)

lemma cer_open_events:
  assumes "cl_tag lvl = tlv_tag (ptr_add (ca_data a) pos) (length t)" "cl_tag_offset lvl = pos"
    "cl_content_start lvl = pos + length t + 1"
  shows "scope_events a pos levels ((CER_Constructed t ts # F) # Fs) =
      scope_events a (pos + length t + 1) (lvl # levels) (ts # F # Fs)"
    "scopes_end pos ((CER_Constructed t ts # F) # Fs) = scopes_end (pos + length t + 1) (ts # F # Fs)"
proof -
  have "pos + length (cer_octets (CER_Constructed t ts)) = pos + length t + 1 + length (cer_forest ts) + 2" by simp
  then show "scope_events a pos levels ((CER_Constructed t ts # F) # Fs) =
      scope_events a (pos + length t + 1) (lvl # levels) (ts # F # Fs)"
    "scopes_end pos ((CER_Constructed t ts # F) # Fs) = scopes_end (pos + length t + 1) (ts # F # Fs)"
    using assms unfolding scope_events_Cons scopes_end_Cons by (simp_all add: cer_element_at_def level_element_def add.assoc)
qed

lemma cer_open_progress:
  assumes a: "cer_args_ok a" and st: "cer_state_ok a gs st" and t: "tag_at_pos a (cs_pos st) t"
    and ind: "byte_at (ca_data a) (cs_pos st + length t) = 0x80" and cnt: "cs_count st < cm_max_elements (ca_limits a)"
  shows "cer_progress a gs st (cer_open a st (tlv_tag (ptr_add (ca_data a) (cs_pos st)) (length t)) (cs_pos st + length t))"
proof -
  let ?pos = "cs_pos st" and ?levels = "cs_levels st" and ?tag = "tlv_tag (ptr_add (ca_data a) (cs_pos st)) (length t)"
  have T: "cer_tag_octets t" "occurs_at t (ca_data a) ?pos" "?pos + length t < ca_size a" "t \<noteq> []"
    using t cer_tag_octets_nonempty by (auto simp: tag_at_pos_def)
  obtain g gs' where g: "gs = g # gs'" "scope_state (ca_strict a) g (parent_segments ?levels (cs_outer st))"
    using scopes_ok_parent st by (fastforce simp: cer_state_ok_def)
  note U = recognized_universal_at [OF T(1,2)] and SEG = segmentable_at [OF T(1,2)] and CON = der_constructed_at [OF T(2,4)]
  have at80: "occurs_at (t @ [0x80]) (ca_data a) ?pos"
  proof -
    have "?pos + length t < length (bytes (ca_data a))" using T(3) a by (simp add: cer_args_ok_def readable_def)
    then have "occurs_at [0x80] (ca_data a) (?pos + length t)"
      using ind by (simp add: occurs_at_def byte_at_def take_Suc_conv_app_nth Cons_nth_drop_Suc [symmetric])
    then show ?thesis using T(2) by simp
  qed
  define C where "C \<longleftrightarrow> g = None \<and> cer_constructible t \<and> ca_depth a + length ?levels < cm_max_depth (ca_limits a)"
  have form: "\<exists>ts F Fs'. Fs = (CER_Constructed t ts # F) # Fs'" if "cer_scopes a True ?pos ?levels gs Fs" for Fs
  proof (rule cer_scopes_next [OF a st t that])
    fix x F Fs' assume "Fs = (x # F) # Fs'" "cer_tag_of x = t" "length (cer_content x) \<le> TLV_SIZE_MAX"
      "occurs_at (cer_octets x) (ca_data a) ?pos"
    with cer_form_at [of x "ca_data a" ?pos] ind show ?thesis by metis
  qed
  have iff: "cer_outcome a gs st c f \<longleftrightarrow> (\<exists>ts F Fs. cer_accepts a gs st c f ((CER_Constructed t ts # F) # Fs))" for c f
    using form unfolding cer_outcome_def cer_accepts_def by blast
  have needs: "C" if "cer_scopes a True ?pos ?levels gs ((CER_Constructed t ts # F) # Fs)" for ts F Fs
  proof -
    have "scope_filled a g (length ?levels) (CER_Constructed t ts # F)" using that g(1) cer_scopes_Cons by blast
    moreover have "ca_depth a + length ?levels \<le> cm_max_depth (ca_limits a)" using st by (simp add: cer_state_ok_def)
    ultimately show ?thesis by (cases g) (auto simp: scope_filled_Cons C_def)
  qed
  have seg: "parent_segments ?levels (cs_outer st) \<noteq> None \<longleftrightarrow> g \<noteq> None" using g(2) by (auto simp: scope_state_def split: option.splits)
  show ?thesis
  proof (cases C)
    case False
    then have "cer_failed st (cer_open a st ?tag (?pos + length t))"
      using st seg unfolding cer_open_def Let_def U SEG CON C_def cer_constructible_def
      by (auto simp: cer_state_ok_def split: option.splits)
    then show ?thesis using cer_failed_progress iff needs False unfolding cer_accepts_def by blast
  next
    case True
    define lvl where "lvl = \<lparr>cl_tag = ?tag, cl_tag_offset = ?pos, cl_length_offset = ?pos + length t,
      cl_content_start = ?pos + length t + 1, cl_segmentable = octets_segmentable t \<noteq> None,
      cl_segment_state = (case octets_segmentable t of None \<Rightarrow> segment_state0
        | Some number \<Rightarrow> tlv_cer_segment_state_init segment_state0 number (tlv_cer_type_info number) (ca_strict a))\<rparr>"
    let ?g = "map_option (\<lambda>n. (n, [])) (octets_segmentable t)"
    let ?st = "st\<lparr>cs_count := cs_count st + 1, cs_levels := lvl # ?levels, cs_pos := ?pos + length t + 1\<rparr>"
    have room: "length ?levels < TLV_CER_MAX_DEPTH" using True a by (simp add: C_def cer_args_ok_def)
    have opened: "cer_open a st ?tag (?pos + length t) = Inr ?st"
      using True seg room unfolding cer_open_def Let_def U SEG CON C_def cer_constructible_def lvl_def
      by (auto split: option.splits)
    have sg: "scope_state (ca_strict a) ?g (if cl_segmentable lvl then Some (cl_segment_state lvl) else None)"
      using segment_state_init_absorbed
      by (auto simp: scope_state_def lvl_def octets_segmentable_def segmentable_number_def split: option.splits if_splits)
    have ok: "cer_state_ok a (?g # gs) ?st"
      using st sg True T(3) cnt by (auto simp: cer_state_ok_def C_def)
    have L: "cl_tag lvl = ?tag" "cl_tag_offset lvl = ?pos" "cl_content_start lvl = ?pos + length t + 1" by (simp_all add: lvl_def)
    have Tr: "cer_constructible t" "ca_depth a + length ?levels < cm_max_depth (ca_limits a)" "gs = None # gs'"
      using True g(1) by (simp_all add: C_def)
    have "cer_accepts a gs st c f ((CER_Constructed t ts # F) # Fs) \<longleftrightarrow> cer_accepts a (?g # gs) ?st c f (ts # F # Fs)" for c f ts F Fs
      unfolding cer_accepts_def cer_open_events [OF L] Tr(3) cer_scopes_open [OF T(1) Tr(1,2) at80 L(3)]
      by (simp del: cer_scopes.simps scope_events.simps scopes_end.simps add: add.assoc)
    moreover have "\<exists>ts F Fs'. Fs = ts # F # Fs'" if "cer_accepts a (?g # gs) ?st c f Fs" for c f Fs
      using that unfolding cer_accepts_def by (auto dest!: cer_scopes_head)
    ultimately have "cer_outcome a gs st c f \<longleftrightarrow> cer_outcome a (?g # gs) ?st c f" for c f
      unfolding iff unfolding cer_outcome_def by (intro ex_reindex [of _ _ "\<lambda>ts F Fs. ts # F # Fs"])
    then show ?thesis unfolding opened cer_progress_def using ok by (auto intro!: exI [of _ "?g # gs"])
  qed
qed

section \<open>A primitive element\<close>

text \<open>Levels that differ in what the innermost one has absorbed.\<close>

definition alike :: "cer_level_t list \<Rightarrow> cer_level_t list \<Rightarrow> bool" where
  "alike ls ls' \<longleftrightarrow> ls' = ls \<or> (\<exists>lvl rest seg. ls = lvl # rest \<and> ls' = lvl\<lparr>cl_segment_state := seg\<rparr> # rest)"

lemma alike_simps:
  assumes "alike ls ls'"
  shows "length ls' = length ls" "ls' = [] \<longleftrightarrow> ls = []" "cer_scopes a b pos ls' gs Fs = cer_scopes a b pos ls gs Fs"
    "scope_events a pos ls' Fs = scope_events a pos ls Fs"
  using assms by (cases Fs; auto simp: alike_def level_element_def)+

lemma cer_value_checks:
  fixes loff :: nat
  assumes t: "cer_tag_octets t" "occurs_at (t @ ls @ v) (ca_data a) pos"
    and free: "parent_segments (cs_levels st) (cs_outer st) = None"
  defines "R \<equiv> cer_primitive_checks a st (tlv_tag (ptr_add (ca_data a) pos) (length t)) pos loff (pos + length t + length ls) (length v)"
  shows "if length v \<le> cm_max_value_size (ca_limits a) \<and> cer_value_ok (ca_strict a) t v then R = Inr st else cer_failed st R"
proof -
  note U = recognized_universal_at [of t "ca_data a" pos]
  have "pos + length (t @ ls @ v) \<le> length (bytes (ca_data a))"
    using t cer_tag_octets_nonempty by (intro occurs_at_bound) auto
  then have "same_octets (ptr_add (ca_data a) (pos + length t + length ls)) (Ptr 0 v) (length v)"
    using t(2) [unfolded occurs_at_append] by (auto simp: same_octets_def readable_def occurs_at_def)
  note V = universal_value_cong [OF this]
  have "recognized_universal (tlv_tag (ptr_add (ca_data a) pos) (length t)) = octets_universal t" using U t by simp
  with V show ?thesis
    unfolding R_def cer_primitive_checks_def free option.case cer_value_ok_def Let_def
    by (cases "octets_universal t") (simp_all add: not_le)
qed

lemma cer_segment_checks:
  fixes loff :: nat
  assumes t: "cer_tag_octets t" "occurs_at (t @ ls @ v) (ca_data a) pos"
    and sc: "scopes_ok (ca_strict a) (cs_levels st) (cs_outer st) (Some (n, vs) # gs)"
  defines "R \<equiv> cer_primitive_checks a st (tlv_tag (ptr_add (ca_data a) pos) (length t)) pos loff (pos + length t + length ls) (length v)"
  shows "if t = [of_nat n] \<and> segments_seen (ca_strict a) n (vs @ [v])
    then \<exists>levels outer. R = Inr (st\<lparr>cs_levels := levels, cs_outer := outer\<rparr>) \<and> alike (cs_levels st) levels \<and>
      scopes_ok (ca_strict a) levels outer (Some (n, vs @ [v]) # gs) \<and> (cs_outer st = None \<longrightarrow> outer = None)
    else cer_failed st R"
proof -
  obtain seg where seg: "parent_segments (cs_levels st) (cs_outer st) = Some seg" "absorbed (ca_strict a) n vs seg"
    and n: "ti_form (tlv_cer_type_info n) \<noteq> TLV_CER_FORM_PRIMITIVE_ONLY"
    using scopes_ok_parent [OF sc] by (auto simp: scope_state_def)
  have "pos + length (t @ ls @ v) \<le> length (bytes (ca_data a))"
    using t cer_tag_octets_nonempty by (intro occurs_at_bound) auto
  then have V: "same_octets (ptr_add (ca_data a) (pos + length t + length ls)) (Ptr 0 v) (length v)"
    using t(2) [unfolded occurs_at_append] by (auto simp: same_octets_def readable_def occurs_at_def)
  have tag: "tag_matches_primitive (tlv_tag (ptr_add (ca_data a) pos) (length t)) n \<longleftrightarrow> t = [of_nat n]"
    using tag_matches_at [OF t(1) _ type_info_number [THEN conjunct1, OF n]] t(2) by simp
  from segment_state_add [OF seg(2) V, of "tlv_tag (ptr_add (ca_data a) pos) (length t)" "ca_base a + pos", unfolded tag]
  obtain rc seg' e where r: "tlv_cer_segment_state_add seg (tlv_tag (ptr_add (ca_data a) pos) (length t))
      (ptr_add (ca_data a) (pos + length t + length ls)) (length v) (ca_base a + pos) = Some (rc, seg', e)"
    "rc = TLV_OK \<longleftrightarrow> t = [of_nat n] \<and> segments_seen (ca_strict a) n (vs @ [v])"
    "rc = TLV_OK \<Longrightarrow> absorbed (ca_strict a) n (vs @ [v]) seg'" by blast
  have R: "R = (if rc \<noteq> TLV_OK then Inl (Some (cer_fail (set_parent_segments st seg') rc (out e 0))) else Inr (set_parent_segments st seg'))"
    unfolding R_def cer_primitive_checks_def seg(1) option.case r(1) prod.case Let_def by simp
  have "\<exists>levels outer. set_parent_segments st seg' = st\<lparr>cs_levels := levels, cs_outer := outer\<rparr> \<and> alike (cs_levels st) levels \<and>
      scopes_ok (ca_strict a) levels outer (Some (n, vs @ [v]) # gs) \<and> (cs_outer st = None \<longrightarrow> outer = None)" if ok: "rc = TLV_OK"
  proof (cases "cs_levels st")
    case Nil
    then show ?thesis using sc n r(3) [OF ok]
      by (intro exI [of _ "[]"] exI [of _ "Some seg'"]) (auto simp: set_parent_segments_def alike_def scope_state_def)
  next
    case (Cons lvl rest)
    then show ?thesis using sc n r(3) [OF ok]
      by (intro exI [of _ "lvl\<lparr>cl_segment_state := seg'\<rparr> # rest"] exI [of _ "cs_outer st"])
        (auto simp: set_parent_segments_def alike_def scope_state_def split: if_splits)
  qed
  then show ?thesis unfolding R using r(2) by auto
qed

lemma cer_checks:
  fixes loff :: nat
  assumes t: "cer_tag_octets t" "\<not> lead_constructed t" "occurs_at (t @ ls @ v) (ca_data a) pos"
    and sc: "scopes_ok (ca_strict a) (cs_levels st) (cs_outer st) (g # gs)"
  defines "R \<equiv> cer_primitive_checks a st (tlv_tag (ptr_add (ca_data a) pos) (length t)) pos loff (pos + length t + length ls) (length v)"
  obtains (ok) levels outer g' where "R = Inr (st\<lparr>cs_levels := levels, cs_outer := outer\<rparr>)" "alike (cs_levels st) levels"
      "scopes_ok (ca_strict a) levels outer (g' # gs)" "cs_outer st = None \<Longrightarrow> outer = None"
      "\<And>level F. scope_filled a g level (CER_Primitive t v # F) \<longleftrightarrow> scope_filled a g' level F"
    | (failed) "cer_failed st R" "\<And>level F. \<not> scope_filled a g level (CER_Primitive t v # F)"
proof (cases g)
  case None
  have "parent_segments (cs_levels st) (cs_outer st) = None" using scopes_ok_parent [OF sc] None by (auto simp: scope_state_def)
  from cer_value_checks [OF t(1,3) this, of loff, folded R_def] show thesis
    using t(1,2) None sc ok [where levels = "cs_levels st" and outer = "cs_outer st" and g' = None] failed
    by (auto simp: scope_filled_Cons alike_def split: if_splits)
next
  case (Some nv)
  obtain n vs where g: "g = Some (n, vs)" using Some by (cases nv) auto
  have sc': "scopes_ok (ca_strict a) (cs_levels st) (cs_outer st) (Some (n, vs) # gs)" using sc g by simp
  note C = cer_segment_checks [OF t(1,3) sc', of loff, folded R_def]
  have seen: "scope_filled a g level (CER_Primitive t v # F) \<Longrightarrow> t = [of_nat n] \<and> segments_seen (ca_strict a) n (vs @ [v])" for level F
    using segments_ok_seen [of "ca_strict a" n "vs @ [v]"] by (auto simp: g scope_filled_def Cons_eq_map_conv)
  show thesis
  proof (cases "t = [of_nat n] \<and> segments_seen (ca_strict a) n (vs @ [v])")
    case True
    with C obtain levels outer where R: "R = Inr (st\<lparr>cs_levels := levels, cs_outer := outer\<rparr>)" "alike (cs_levels st) levels"
      "scopes_ok (ca_strict a) levels outer (Some (n, vs @ [v]) # gs)" "cs_outer st = None \<Longrightarrow> outer = None" by auto
    show thesis by (rule ok [OF R]) (use True in \<open>auto simp: g scope_filled_Cons\<close>)
  next
    case False
    then show thesis using C failed seen by auto
  qed
qed

lemma ex_reindex2:
  "(\<And>x y. P x y \<longleftrightarrow> Q (h x y)) \<Longrightarrow> (\<And>w. Q w \<Longrightarrow> \<exists>x y. w = h x y) \<Longrightarrow> (\<exists>x y. P x y) \<longleftrightarrow> (\<exists>w. Q w)"
  by metis

text \<open>Every primitive element that can fill the scope here is the one whose length the code reads.\<close>

lemma cer_primitive_at:
  assumes a: "cer_args_ok a" and st: "cer_state_ok a gs st" and t: "tag_at_pos a (cs_pos st) t"
    and def: "byte_at (ca_data a) (cs_pos st + length t) \<noteq> 0x80" and sc: "cer_scopes a True (cs_pos st) (cs_levels st) gs Fs"
  obtains v F Fs' where "Fs = (CER_Primitive t v # F) # Fs'" "\<not> lead_constructed t" "length v \<le> TLV_SIZE_MAX"
    "occurs_at (t @ der_len (length v) @ v) (ca_data a) (cs_pos st)"
    "cs_pos st + length t + length (der_len (length v)) + length v \<le> ca_size a"
    "tlv_asn1_read_minimal_length (ptr_add (ca_data a) (cs_pos st + length t)) (ca_size a - (cs_pos st + length t)) =
       (TLV_OK, Some (length v), Some (length (der_len (length v))))"
proof (rule cer_scopes_next [OF a st t sc])
  fix x F Fs' assume x: "Fs = (x # F) # Fs'" "cer_tag_of x = t" "length (cer_content x) \<le> TLV_SIZE_MAX"
    "occurs_at (cer_octets x) (ca_data a) (cs_pos st)" "cs_pos st + length (cer_octets x) \<le> ca_size a"
    "case x of CER_Primitive t v \<Rightarrow> \<not> lead_constructed t | CER_Constructed t ts \<Rightarrow> lead_constructed t"
  from cer_form_at [OF x(4,3)] def x(2) obtain v where v: "x = CER_Primitive t v" by (cases x) auto
  have "tlv_asn1_read_minimal_length (ptr_add (ca_data a) (cs_pos st + length t)) (ca_size a - (cs_pos st + length t)) =
       (TLV_OK, Some (length v), Some (length (der_len (length v))))"
    using x v a by (intro der_len_at) (auto simp: cer_args_ok_def)
  then show thesis using that [of v F Fs'] x v by (simp add: add.assoc)
qed

lemma cer_primitive_progress:
  assumes a: "cer_args_ok a" and st: "cer_state_ok a gs st" and t: "tag_at_pos a (cs_pos st) t"
    and def: "byte_at (ca_data a) (cs_pos st + length t) \<noteq> 0x80" and cnt: "cs_count st < cm_max_elements (ca_limits a)"
  shows "cer_progress a gs st (cer_primitive a st (tlv_tag (ptr_add (ca_data a) (cs_pos st)) (length t)) (cs_pos st + length t))"
    (is "cer_progress a gs st ?R")
proof -
  let ?pos = "cs_pos st" and ?levels = "cs_levels st" and ?tag = "tlv_tag (ptr_add (ca_data a) (cs_pos st)) (length t)"
  let ?lo = "?pos + length t"
  have T: "cer_tag_octets t" "occurs_at t (ca_data a) ?pos" "?lo < ca_size a" "t \<noteq> []"
    using t cer_tag_octets_nonempty by (auto simp: tag_at_pos_def)
  note CON = der_constructed_at [OF T(2,4)] and at = cer_primitive_at [OF a st t def]
  have bad: "cer_progress a gs st ?R" if "cer_failed st ?R" "\<And>Fs. \<not> cer_scopes a True ?pos ?levels gs Fs"
    using cer_failed_progress that unfolding cer_outcome_def cer_accepts_def by blast
  obtain rc ol oc where rl: "tlv_asn1_read_minimal_length (ptr_add (ca_data a) ?lo) (ca_size a - ?lo) = (rc, ol, oc)"
    by (metis prod_cases3)
  have rq: "readable (ptr_add (ca_data a) ?lo) (ca_size a - ?lo)" using a T(3)
    by (auto simp: cer_args_ok_def readable_def)
  show ?thesis
  proof (cases "lead_constructed t \<or> rc \<noteq> TLV_OK \<or> the ol > ca_size a - (?lo + the oc)")
    case True
    then have "cer_failed st ?R" unfolding cer_primitive_def Let_def CON tlv_cer_fields_def
      by (auto simp: rl)
    moreover have "\<not> cer_scopes a True ?pos ?levels gs Fs" for Fs
    proof
      assume sc: "cer_scopes a True ?pos ?levels gs Fs"
      show False by (rule at [OF sc]) (use True rl in auto)
    qed
    ultimately show ?thesis by (rule bad)
  next
    case False
    then obtain len lsz where rd: "rc = TLV_OK" "ol = Some len" "oc = Some lsz" "\<not> lead_constructed t" "len \<le> TLV_SIZE_MAX"
      "lsz \<le> ca_size a - ?lo" "len \<le> ca_size a - (?lo + lsz)"
      using minimal_len.read_length_inv [OF rq] rl by fastforce
    have e: "take lsz (bytes (ptr_add (ca_data a) ?lo)) = der_len len"
      using minimal_length_canonical [OF rq] rl rd by simp
    have lsz: "lsz = length (der_len len)" using arg_cong [OF e, of length] rd(6) rq by (simp add: readable_def)
    define v where "v = take len (drop (?lo + lsz) (bytes (ca_data a)))"
    have bnd: "?lo + lsz + len \<le> ca_size a" using rd(6,7) T(3) by linarith
    then have v: "length v = len" "occurs_at v (ca_data a) (?lo + lsz)"
      using a by (auto simp: v_def cer_args_ok_def readable_def occurs_at_def)
    have occ: "occurs_at (t @ der_len (length v) @ v) (ca_data a) ?pos"
    proof -
      have "occurs_at (der_len len) (ca_data a) ?lo" using e lsz by (simp add: occurs_at_def)
      then show ?thesis using T(2) lsz v by (simp add: add.assoc)
    qed
    have form: "\<exists>F Fs'. Fs = (CER_Primitive t v # F) # Fs'" if "cer_scopes a True ?pos ?levels gs Fs" for Fs
    proof (rule at [OF that])
      fix w F Fs' assume w: "Fs = (CER_Primitive t w # F) # Fs'" "occurs_at (t @ der_len (length w) @ w) (ca_data a) ?pos"
        "tlv_asn1_read_minimal_length (ptr_add (ca_data a) ?lo) (ca_size a - ?lo) = (TLV_OK, Some (length w), Some (length (der_len (length w))))"
      then have "length w = len" using rl rd by simp
      then have "w = v" using w(2) occ v(1) by (auto simp: occurs_at_def)
      then show ?thesis using w(1) by simp
    qed
    have iff: "cer_outcome a gs st c f \<longleftrightarrow> (\<exists>F Fs. cer_accepts a gs st c f ((CER_Primitive t v # F) # Fs))" for c f
      using form unfolding cer_outcome_def cer_accepts_def by blast
    obtain g gs' where g: "gs = g # gs'" using scopes_ok_parent st by (fastforce simp: cer_state_ok_def)
    let ?st = "st\<lparr>cs_count := cs_count st + 1\<rparr>" and ?x = "CER_Primitive t v"
    let ?stop = "?lo + length (der_len (length v)) + length v" and ?el = "cer_element_at (ca_data a) ?pos (CER_Primitive t v)"
    let ?ch = "cer_primitive_checks a ?st ?tag ?pos ?lo (?lo + length (der_len (length v))) (length v)"
    have sc: "scopes_ok (ca_strict a) (cs_levels ?st) (cs_outer ?st) (g # gs')" using st g by (simp add: cer_state_ok_def)
    have R: "?R = (case ?ch of Inl r \<Rightarrow> Inl r
        | Inr st \<Rightarrow> if ca_one a \<and> cs_levels st = [] then Inl (Some (cer_return (st\<lparr>cs_pos := ?stop\<rparr>) TLV_OK (Some (?el, ?stop))))
                    else cer_visited a (st\<lparr>cs_pos := ?stop\<rparr>) ?el ?pos)"
      unfolding cer_primitive_def Let_def CON tlv_cer_fields_def
      using rd v(1) lsz bnd by (auto simp: rl tlv_size_from_native_def cer_element_at_def add.assoc split: sum.split)
    show ?thesis
    proof (rule cer_checks [OF T(1) rd(4) occ sc, of ?lo])
      assume f: "cer_failed ?st ?ch" "\<And>level F. \<not> scope_filled a g level (?x # F)"
      from f(1) have "cer_failed st ?R" unfolding R cer_failed_def by (elim exE conjE) (simp, metis)
      moreover have "\<not> cer_scopes a True ?pos ?levels gs Fs" for Fs using form [of Fs] f(2) g by (auto simp: cer_scopes_Cons)
      ultimately show ?thesis by (rule bad)
    next
      fix levels outer g' assume ch: "?ch = Inr (?st\<lparr>cs_levels := levels, cs_outer := outer\<rparr>)" "alike (cs_levels ?st) levels"
        "scopes_ok (ca_strict a) levels outer (g' # gs')" "cs_outer ?st = None \<Longrightarrow> outer = None"
        "\<And>level F. scope_filled a g level (?x # F) \<longleftrightarrow> scope_filled a g' level F"
      note al = alike_simps [OF ch(2), simplified]
      define st1 where "st1 = st\<lparr>cs_count := cs_count st + 1, cs_levels := levels, cs_outer := outer, cs_pos := ?stop\<rparr>"
      have s1: "cs_pos st1 = ?stop" "cs_count st1 = cs_count st + 1" "cs_levels st1 = levels" "cs_outer st1 = outer"
        "cs_context st1 = cs_context st" "cs_diag st1 = cs_diag st" by (simp_all add: st1_def)
      have R1: "?R = (if ca_one a \<and> ?levels = [] then Inl (Some (cer_return st1 TLV_OK (Some (?el, ?stop)))) else cer_visited a st1 ?el ?pos)"
        unfolding R ch(1) sum.case st1_def using al(2) by simp
      have ev: "scope_events a ?pos ?levels ((?x # F) # Fs) =
          (?el, ca_depth a + length ?levels, ca_base a + ?pos) # scope_events a ?stop ?levels (F # Fs)" for F Fs
        unfolding scope_events_Cons by (simp add: add.assoc)
      have en: "scopes_end ?pos ((?x # F) # Fs) = scopes_end ?stop (F # Fs)" for F Fs
        unfolding scopes_end_Cons by (simp add: add.assoc)
      have scp: "cer_scopes a True ?pos ?levels gs ((?x # F) # Fs) \<longleftrightarrow> cer_scopes a False ?stop ?levels (g' # gs') (F # Fs)" for F Fs
        unfolding g cer_scopes_Cons cer_scopes_tail ch(5) using occ by (simp add: add.assoc)
      show ?thesis
      proof (cases "ca_one a \<and> ?levels = []")
        case True
        have "cs_outer st = None" "ca_visitor a = None" using True st a by (simp_all add: cer_state_ok_def cer_args_ok_def)
        moreover have "levels = []" using al(2) True by simp
        ultimately have g': "g' = None" "gs' = []" using ch(3,4) by (auto simp: scope_state_def split: option.splits)
        have "cer_outcome a gs st c f \<longleftrightarrow> c = cs_context st \<and> f = Some (?el, ?stop)" for c f
          unfolding iff cer_accepts_def scp ev en using True g' cnt bnd lsz v(1) \<open>ca_visitor a = None\<close>
          by (auto simp: scope_filled_Nil der_run_def)
        then show ?thesis unfolding R1 using True s1 by (simp add: cer_progress_def cer_decides_def cer_return_def)
      next
        case False
        have ok: "cer_state_ok a (g' # gs') (st1\<lparr>cs_context := c\<rparr>)" for c
          using st cnt bnd lsz v(1) ch(3,4) al False s1 by (auto simp: cer_state_ok_def)
        have flag: "cer_scopes a False ?stop ?levels (g' # gs') Fs \<longleftrightarrow> cer_scopes a True ?stop levels (g' # gs') Fs" for Fs
          unfolding al(3) using False by (cases ?levels) auto
        have "cer_accepts a gs st c f ((?x # F) # Fs) \<longleftrightarrow> cer_accepts a (g' # gs') (st1\<lparr>cs_context :=
            der_run (ca_visitor a) [(?el, ca_depth a + length (cs_levels st1), ca_base a + ?pos)] (cs_context st1)\<rparr>) c f (F # Fs)"
          for c f F Fs
        proof -
          have "ca_one a \<Longrightarrow> scope_events a ?stop ?levels (F # Fs) \<noteq> []" using False by (cases ?levels) auto
          then show ?thesis
            unfolding cer_accepts_def scp ev en flag
            using s1 der_run_Cons_run [of "ca_visitor a" "(?el, ca_depth a + length ?levels, ca_base a + ?pos)" "scope_events a ?stop ?levels (F # Fs)"]
            by (simp add: add.assoc al)
        qed
        moreover have "\<exists>F Fs'. Fs = F # Fs'" if "cer_accepts a (g' # gs') st2 c f Fs" for st2 c f Fs
          using that unfolding cer_accepts_def by (auto dest!: cer_scopes_head)
        ultimately have "cer_outcome a gs st c f \<longleftrightarrow> cer_outcome a (g' # gs') (st1\<lparr>cs_context :=
            der_run (ca_visitor a) [(?el, ca_depth a + length (cs_levels st1), ca_base a + ?pos)] (cs_context st1)\<rparr>) c f" for c f
          unfolding iff unfolding cer_outcome_def by (intro ex_reindex2 [of _ _ "\<lambda>F Fs. F # Fs"])
        moreover have "?pos < ?stop" using T(4) by (cases t) auto
        ultimately have "cer_progress a gs st (cer_visited a st1 ?el ?pos)"
          using s1 ok by (intro cer_visited_progress [of st st1 a "g' # gs'"]) auto
        then show ?thesis unfolding R1 using False by auto
      qed
    qed
  qed
qed

section \<open>The traversal as a whole\<close>

lemma cer_step_progress:
  assumes a: "cer_args_ok a" and st: "cer_state_ok a gs st" and pos: "cs_pos st < ca_size a"
  shows "cer_progress a gs st (cer_step a st)"
proof -
  let ?pos = "cs_pos st"
  have r: "readable (ca_data a) (ca_size a)" "?pos \<le> ca_size a" using a pos by (auto simp: cer_args_ok_def)
  have none: "cer_progress a gs st (cer_step a st)"
    if "cer_failed st (cer_step a st)" "byte_at (ca_data a) ?pos \<noteq> 0"
      "(\<forall>t. \<not> tag_at_pos a ?pos t) \<or> cs_count st = cm_max_elements (ca_limits a)"
  proof (rule cer_failed_progress [OF that(1)], rule notI)
    fix c f assume "cer_outcome a gs st c f"
    then obtain Fs where sc: "cer_scopes a True ?pos (cs_levels st) gs Fs"
      and cnt: "cs_count st + sum_list (map cer_elements (concat Fs)) \<le> cm_max_elements (ca_limits a)"
      by (auto simp: cer_outcome_def cer_accepts_def)
    from cer_scopes_head [OF sc] obtain g gs' F Fs' where F: "gs = g # gs'" "Fs = F # Fs'"
      "scope_filled a g (length (cs_levels st)) F" "occurs_at (cer_forest F) (ca_data a) ?pos"
      "?pos + length (cer_forest F) \<le> ca_size a" by blast
    from scopes_ok_parent st F(1) obtain s where s: "scope_state (ca_strict a) g s" by (fastforce simp: cer_state_ok_def)
    have "F \<noteq> []"
    proof
      assume "F = []"
      with sc F(2) pos that(2) show False by (cases "cs_levels st") (auto split: if_splits dest: occurs_at_Cons)
    qed
    then obtain x F' where x: "F = x # F'" by (cases F) auto
    have "1 \<le> cer_elements x" by (cases x) auto
    then have "cs_count st \<noteq> cm_max_elements (ca_limits a)" using cnt F(2) x by auto
    moreover have "tag_at_pos a ?pos (cer_tag_of x)"
    proof -
      obtain rest where rest: "cer_octets x = cer_tag_of x @ rest" "\<forall>t v. x = CER_Primitive t v \<longrightarrow> rest = der_len (length v) @ v"
        "\<forall>t ts. x = CER_Constructed t ts \<longrightarrow> rest = 0x80 # cer_forest ts @ [0, 0]" using cer_octets_eq by blast
      have "rest \<noteq> []"
      proof (cases x)
        case (CER_Primitive t v)
        have "length v \<le> TLV_SIZE_MAX" using CER_Primitive F(5) x a by (simp add: cer_args_ok_def)
        from der_len_nonempty [OF this] rest(2) CER_Primitive show ?thesis by simp
      qed (use rest in auto)
      then show ?thesis using scope_filled_tags [OF F(3) s, of x] x F(4,5) rest(1) by (cases rest) (auto simp: tag_at_pos_def)
    qed
    ultimately show False using that(3) by blast
  qed
  show ?thesis
  proof (cases "byte_at (ca_data a) ?pos = 0")
    case True
    then have "cer_step a st = cer_close a st" using pos by (simp add: cer_step_def)
    then show ?thesis using cer_close_progress [OF a st pos True] by simp
  next
    case nz: False
    obtain rc ot oc where rt: "tlv_asn1_read_identifier (ptr_add (ca_data a) ?pos) (ca_size a - ?pos) = (rc, ot, oc)"
      by (metis prod_cases3)
    show ?thesis
    proof (cases "cs_count st = cm_max_elements (ca_limits a) \<or> rc \<noteq> TLV_OK \<or> ?pos + the oc = ca_size a")
      case True
      have "cer_failed st (cer_step a st)"
        using True pos nz by (auto simp: cer_step_def tlv_cer_fields_def rt Let_def)
      moreover have "(\<forall>t. \<not> tag_at_pos a ?pos t) \<or> cs_count st = cm_max_elements (ca_limits a)"
        using True tag_at_pos_read [OF a] rt by (fastforce simp: tag_at_pos_def)
      ultimately show ?thesis using none nz by blast
    next
      case False
      then have cnt: "cs_count st < cm_max_elements (ca_limits a)" using st by (auto simp: cer_state_ok_def)
      from False rt have rt': "tlv_asn1_read_identifier (ptr_add (ca_data a) ?pos) (ca_size a - ?pos) = (TLV_OK, ot, oc)" by simp
      show ?thesis
      proof (rule asn1_octets.octets_at_inv [OF rt' r, folded cer_tag_octets_def])
        fix t assume t: "cer_tag_octets t" "occurs_at t (ca_data a) ?pos" "?pos + length t \<le> ca_size a"
          "ot = Some (tlv_tag (ptr_add (ca_data a) ?pos) (length t))" "oc = Some (length t)"
        then have T: "tag_at_pos a ?pos t" using False by (auto simp: tag_at_pos_def)
        have "cer_step a st = (if byte_at (ca_data a) (?pos + length t) = 0x80
            then cer_open a st (tlv_tag (ptr_add (ca_data a) ?pos) (length t)) (?pos + length t)
            else cer_primitive a st (tlv_tag (ptr_add (ca_data a) ?pos) (length t)) (?pos + length t))"
          using False t pos nz by (simp add: cer_step_def tlv_cer_fields_def rt' Let_def)
        then show ?thesis using cer_open_progress [OF a st T _ cnt] cer_primitive_progress [OF a st T _ cnt] by simp
      qed
    qed
  qed
qed

lemma cer_loop_decides:
  assumes a: "cer_args_ok a" and "cer_state_ok a gs st"
  shows "\<exists>r. cer_loop a st = Some r \<and> (never_stops (ca_visitor a) \<longrightarrow> cer_decides a gs st r)"
  using assms(2)
proof (induction "ca_size a - cs_pos st" arbitrary: st gs rule: less_induct)
  case less
  show ?case
  proof (cases "cs_pos st = ca_size a")
    case True
    then have "cer_loop a st = Some (cer_end a st)" by (subst cer_loop.simps) (simp add: cer_step_def)
    then show ?thesis using cer_outcome_end [OF a less.prems True] by simp
  next
    case False
    then have pos: "cs_pos st < ca_size a" using less.prems by (simp add: cer_state_ok_def)
    note P = cer_step_progress [OF a less.prems pos]
    show ?thesis
    proof (cases "cer_step a st")
      case (Inl r)
      then show ?thesis using P by (subst cer_loop.simps) (auto simp: cer_progress_def split: option.splits)
    next
      case (Inr st')
      with P obtain gs' where s: "cs_pos st < cs_pos st'" "cer_state_ok a gs' st'"
        "never_stops (ca_visitor a) \<Longrightarrow> cs_diag st' = cs_diag st \<and> (\<forall>c f. cer_outcome a gs st c f \<longleftrightarrow> cer_outcome a gs' st' c f)"
        by (auto simp: cer_progress_def)
      have "ca_size a - cs_pos st' < ca_size a - cs_pos st" using s(1) pos by linarith
      from less.hyps [OF this s(2)] obtain r where r: "cer_loop a st' = Some r"
        "never_stops (ca_visitor a) \<Longrightarrow> cer_decides a gs' st' r" by blast
      then have "never_stops (ca_visitor a) \<longrightarrow> cer_decides a gs st r" using s(3) by (auto simp: cer_decides_def)
      then show ?thesis using r(1) Inr by (subst cer_loop.simps) simp
    qed
  qed
qed

end
