(* ===== verification/TLV_CER_Interface.thy ===== *)
theory TLV_CER_Interface
  imports TLV_CER_Traversal TLV_DER_Interface
begin

text \<open>
  Visiting, reading and writing CER in terms of trees.
\<close>

section \<open>The traversal from its start\<close>

definition cer_root_ok :: "bool \<Rightarrow> tlv_cer_limits_t \<Rightarrow> cer_tree \<Rightarrow> bool" where
  "cer_root_ok strict L x \<longleftrightarrow> cer_tree_ok strict (cm_max_value_size L) x \<and> cer_fits (cm_max_depth L) x"

lemma cer_traverse_decides:
  fixes c0 :: 'c and d0 :: "tlv_diagnostic_t option" and a :: "'c cer_args"
  assumes "cer_args_ok a" "scope_state (ca_strict a) g outer" "k \<le> cm_max_elements (ca_limits a)" "ca_one a \<Longrightarrow> outer = None"
  defines "st \<equiv> \<lparr>cs_pos = 0, cs_count = k, cs_levels = [], cs_outer = outer, cs_context = c0, cs_diag = d0\<rparr>"
  shows "\<exists>r. cer_traverse a k outer c0 d0 = Some r"
    "never_stops (ca_visitor a) \<Longrightarrow> cer_traverse a k outer c0 d0 = Some (TLV_OK, f, c, d) \<longleftrightarrow> cer_outcome a [g] st c f \<and> d = d0"
proof -
  have "cer_state_ok a [g] st" using assms by (simp add: cer_state_ok_def st_def cer_args_ok_def)
  from cer_loop_decides [OF assms(1) this] obtain r where r: "cer_traverse a k outer c0 d0 = Some r"
    "never_stops (ca_visitor a) \<Longrightarrow> cer_decides a [g] st r" by (auto simp: cer_traverse_def st_def)
  from r(1) show "\<exists>r. cer_traverse a k outer c0 d0 = Some r" ..
  assume "never_stops (ca_visitor a)"
  from r(2) [OF this] show "cer_traverse a k outer c0 d0 = Some (TLV_OK, f, c, d) \<longleftrightarrow> cer_outcome a [g] st c f \<and> d = d0"
    unfolding r(1) by (cases r) (auto simp: cer_decides_def st_def)
qed

lemma cer_traverse_iff:
  assumes a: "cer_args_ok a" "\<not> ca_one a" "never_stops (ca_visitor a)"
    and g: "scope_state (ca_strict a) g outer" and k: "k \<le> cm_max_elements (ca_limits a)"
  shows "cer_traverse a k outer c0 d0 = Some (TLV_OK, f, c, d) \<longleftrightarrow>
    (\<exists>ts. take (ca_size a) (bytes (ca_data a)) = cer_forest ts \<and> scope_filled a g 0 ts \<and>
       k + sum_list (map cer_elements ts) \<le> cm_max_elements (ca_limits a) \<and>
       c = der_run (ca_visitor a) (cer_events (ca_data a) (ca_base a) (ca_depth a) 0 ts) c0) \<and> f = None \<and> d = d0"
proof -
  have occ: "occurs_at xs (ca_data a) 0 \<and> length xs \<le> ca_size a \<and> length xs = ca_size a \<longleftrightarrow>
      take (ca_size a) (bytes (ca_data a)) = xs" for xs
    using a(1) by (auto simp: occurs_at_def cer_args_ok_def readable_def)
  have "cer_outcome a [g] \<lparr>cs_pos = 0, cs_count = k, cs_levels = [], cs_outer = outer, cs_context = c0, cs_diag = d0\<rparr> c f \<longleftrightarrow>
    (\<exists>ts. take (ca_size a) (bytes (ca_data a)) = cer_forest ts \<and> scope_filled a g 0 ts \<and>
       k + sum_list (map cer_elements ts) \<le> cm_max_elements (ca_limits a) \<and>
       c = der_run (ca_visitor a) (cer_events (ca_data a) (ca_base a) (ca_depth a) 0 ts) c0) \<and> f = None"
    unfolding cer_outcome_def cer_accepts_def occ [symmetric] using a(2) by (auto intro: exI [of _ "[_]"])
  then show ?thesis using cer_traverse_decides(2) [OF a(1) g k _ a(3)] a(2) by simp
qed

lemma cer_traverse_one:
  assumes a: "cer_args_ok a" "ca_one a" and k: "k \<le> cm_max_elements (ca_limits a)"
  shows "cer_traverse a k None c0 d0 = Some (TLV_OK, f, c, d) \<longleftrightarrow>
    (\<exists>x. occurs_at (cer_octets x) (ca_data a) 0 \<and> length (cer_octets x) \<le> ca_size a \<and> scope_filled a None 0 [x] \<and>
       k + cer_elements x \<le> cm_max_elements (ca_limits a) \<and>
       f = Some (cer_element_at (ca_data a) 0 x, length (cer_octets x))) \<and> c = c0 \<and> d = d0"
proof -
  let ?st = "\<lparr>cs_pos = 0, cs_count = k, cs_levels = [], cs_outer = None, cs_context = c0, cs_diag = d0\<rparr>"
  have v: "ca_visitor a = None" "never_stops (ca_visitor a)" using a by (simp_all add: cer_args_ok_def never_stops_def)
  have g: "scope_state (ca_strict a) None None" by (simp add: scope_state_def)
  have last: "fst (last (cer_events p b dp pos [x])) = cer_element_at p pos x" for p b dp pos x by simp
  have "cer_accepts a [None] ?st c f Fs \<longleftrightarrow> (\<exists>x. Fs = [[x]] \<and> occurs_at (cer_octets x) (ca_data a) 0 \<and>
      length (cer_octets x) \<le> ca_size a \<and> scope_filled a None 0 [x] \<and> k + cer_elements x \<le> cm_max_elements (ca_limits a) \<and>
      f = Some (cer_element_at (ca_data a) 0 x, length (cer_octets x)) \<and> c = c0)" for Fs
    using a(2) v(1) by (auto simp: cer_accepts_def der_run_def length_Suc_conv)
  then have "cer_outcome a [None] ?st c f \<longleftrightarrow>
      (\<exists>x. occurs_at (cer_octets x) (ca_data a) 0 \<and> length (cer_octets x) \<le> ca_size a \<and> scope_filled a None 0 [x] \<and>
       k + cer_elements x \<le> cm_max_elements (ca_limits a) \<and>
       f = Some (cer_element_at (ca_data a) 0 x, length (cer_octets x))) \<and> c = c0"
    unfolding cer_outcome_def by auto
  then show ?thesis using cer_traverse_decides(2) [OF a(1) g k _ v(2), of c0 d0 f c d] by simp
qed

section \<open>Visiting and reading\<close>

lemma scope_filled_root:
  "ca_depth a = 0 \<Longrightarrow> scope_filled a None 0 ts \<longleftrightarrow> (\<forall>x \<in> set ts. cer_root_ok (ca_strict a) (ca_limits a) x)"
  by (simp add: scope_filled_def cer_root_ok_def)

lemma cer_visit_impl_iff:
  assumes "readable p n" "n \<le> TLV_SIZE_MAX" "never_stops visitor"
  shows "cer_visit_impl p n limits visitor c0 strict d0 = Some (TLV_OK, c, d) \<longleftrightarrow>
    cm_max_depth (cer_limits limits) \<le> TLV_CER_MAX_DEPTH \<and> n \<le> cm_max_input_size (cer_limits limits) \<and>
    (\<exists>ts. take n (bytes p) = cer_forest ts \<and> (\<forall>x \<in> set ts. cer_root_ok strict (cer_limits limits) x) \<and>
       sum_list (map cer_elements ts) \<le> cm_max_elements (cer_limits limits) \<and>
       c = der_run visitor (cer_events p 0 0 0 ts) c0) \<and> d = d0"
proof -
  let ?L = "cer_limits limits"
  let ?a = "\<lparr>ca_data = p, ca_size = n, ca_base = 0, ca_depth = 0, ca_limits = ?L, ca_visitor = visitor, ca_one = False, ca_strict = strict\<rparr>"
  have nz: "\<not> (p = Null \<and> n \<noteq> 0)" using assms(1) by auto
  have g: "scope_state (ca_strict ?a) None None" by (simp add: scope_state_def)
  show ?thesis
  proof (cases "cm_max_depth ?L \<le> TLV_CER_MAX_DEPTH \<and> n \<le> cm_max_input_size ?L")
    case True
    then have a: "cer_args_ok ?a" "\<not> ca_one ?a" "never_stops (ca_visitor ?a)" using assms by (auto simp: cer_args_ok_def)
    have "cer_visit_impl p n limits visitor c0 strict d0 = Some (TLV_OK, c, d) \<longleftrightarrow>
        (\<exists>f. cer_traverse ?a 0 None c0 d0 = Some (TLV_OK, f, c, d))"
      using True nz by (auto simp: cer_visit_impl_def Let_def not_less)
    then show ?thesis using cer_traverse_iff [OF a g, of 0] True by (simp add: scope_filled_root)
  next
    case False
    then show ?thesis using nz by (auto simp: cer_visit_impl_def asn1_unlocated_def Let_def not_le)
  qed
qed

lemma cer_visit_impl_returns:
  assumes "readable p n" "n \<le> TLV_SIZE_MAX"
  shows "\<exists>r. cer_visit_impl p n limits visitor c0 strict d0 = Some r"
proof -
  let ?a = "\<lparr>ca_data = p, ca_size = n, ca_base = 0, ca_depth = 0, ca_limits = cer_limits limits, ca_visitor = visitor, ca_one = False,
    ca_strict = strict\<rparr>"
  have "cm_max_depth (cer_limits limits) \<le> TLV_CER_MAX_DEPTH \<Longrightarrow> \<exists>r. cer_traverse ?a 0 None c0 d0 = Some r"
    using assms by (intro cer_traverse_decides(1) [where g = None]) (auto simp: cer_args_ok_def scope_state_def)
  then show ?thesis by (auto simp: cer_visit_impl_def asn1_unlocated_def Let_def not_less)
qed

lemma cer_octets_nonempty: "cer_tree_ok strict m x \<Longrightarrow> cer_octets x \<noteq> []"
  using cer_tag_octets_nonempty by (cases x) auto

lemma cer_read_impl_iff:
  assumes "readable p n" "n \<le> TLV_SIZE_MAX"
  shows "cer_read_impl p n limits True strict d0 = Some (TLV_OK, r, d) \<longleftrightarrow>
    cm_max_depth (cer_limits limits) \<le> TLV_CER_MAX_DEPTH \<and> n \<le> cm_max_input_size (cer_limits limits) \<and>
    (\<exists>x. take (length (cer_octets x)) (bytes p) = cer_octets x \<and> length (cer_octets x) \<le> n \<and> cer_root_ok strict (cer_limits limits) x \<and>
       cer_elements x \<le> cm_max_elements (cer_limits limits) \<and>
       r = Some (cer_element_at p 0 x, length (cer_octets x))) \<and> d = d0"
proof -
  let ?L = "cer_limits limits"
  let ?a = "\<lparr>ca_data = p, ca_size = n, ca_base = 0, ca_depth = 0, ca_limits = ?L, ca_visitor = None, ca_one = True, ca_strict = strict\<rparr>
      :: unit cer_args"
  have nz: "\<not> (p = Null \<and> n \<noteq> 0)" using assms(1) by auto
  show ?thesis
  proof (cases "cm_max_depth ?L \<le> TLV_CER_MAX_DEPTH \<and> n \<le> cm_max_input_size ?L \<and> 0 < n")
    case True
    then have a: "cer_args_ok ?a" "ca_one ?a" using assms by (auto simp: cer_args_ok_def)
    have "cer_read_impl p n limits True strict d0 = Some (TLV_OK, r, d) \<longleftrightarrow>
        (\<exists>c. cer_traverse ?a 0 None () d0 = Some (TLV_OK, r, c, d))"
      using True nz by (auto simp: cer_read_impl_def Let_def not_less)
    then show ?thesis using cer_traverse_one [OF a, of 0] True by (auto simp: scope_filled_root occurs_at_def)
  next
    case False
    have "\<not> (cer_root_ok strict ?L x \<and> length (cer_octets x) \<le> 0)" for x
      using cer_octets_nonempty by (auto simp: cer_root_ok_def)
    then show ?thesis using nz False
      by (cases "n = 0") (auto simp: cer_read_impl_def asn1_unlocated_def asn1_fail_def Let_def not_le)
  qed
qed

lemma cer_element_at_content:
  assumes "occurs_at (cer_octets x) p pos"
  shows "tag_bytes (elem_tag (cer_element_at p pos x)) = cer_tag_of x"
    "value_bytes (elem_value (cer_element_at p pos x)) = cer_content x"
proof -
  obtain rest where "cer_octets x = cer_tag_of x @ rest" using cer_octets_eq by blast
  with assms show "tag_bytes (elem_tag (cer_element_at p pos x)) = cer_tag_of x"
    by (simp add: occurs_at_def [of "cer_tag_of x"] cer_element_at_def tag_bytes_def tlv_tag_def)
  have "occurs_at (cer_content x) p (pos + cer_header x)"
  proof (cases x)
    case (CER_Constructed t ts)
    then have "occurs_at ((t @ [0x80]) @ cer_forest ts @ [0, 0]) p pos" using assms by simp
    then show ?thesis unfolding occurs_at_append using CER_Constructed by simp
  qed (use assms in \<open>simp add: add.assoc\<close>)
  then show "value_bytes (elem_value (cer_element_at p pos x)) = cer_content x"
    by (simp add: occurs_at_def cer_element_at_def value_bytes_def)
qed

text \<open>
  A buffer that starts with a well-formed tree is read, if at all, as that tree, and then under limits that it keeps: the form
  does not depend on the limits.
\<close>

lemma cer_tree_ok_mono: "cer_tree_ok strict m x \<Longrightarrow> m \<le> m' \<Longrightarrow> cer_tree_ok strict m' x"
  by (induction x rule: cer_octets.induct) (auto split: option.splits)

lemma cer_fits_mono: "cer_fits k x \<Longrightarrow> k \<le> k' \<Longrightarrow> cer_fits k' x"
proof (induction x arbitrary: k k' rule: cer_octets.induct)
  case (2 t ts)
  then have "k - 1 \<le> k' - 1" by simp
  with 2 show ?case by auto
qed simp

lemma cer_read_impl_returns:
  assumes "readable p n" "n \<le> TLV_SIZE_MAX"
  shows "\<exists>r. cer_read_impl p n limits True strict d0 = Some r"
proof -
  let ?a = "\<lparr>ca_data = p, ca_size = n, ca_base = 0, ca_depth = 0, ca_limits = cer_limits limits, ca_visitor = None, ca_one = True,
    ca_strict = strict\<rparr> :: unit cer_args"
  have "cm_max_depth (cer_limits limits) \<le> TLV_CER_MAX_DEPTH \<Longrightarrow> 0 < n \<Longrightarrow> \<exists>r. cer_traverse ?a 0 None () d0 = Some r"
    using assms by (intro cer_traverse_decides(1) [where g = None]) (auto simp: cer_args_ok_def scope_state_def)
  then show ?thesis by (auto simp: cer_read_impl_def asn1_unlocated_def asn1_fail_def Let_def not_less)
qed

lemma cer_read_within_limits:
  assumes p: "readable p n" "n \<le> TLV_SIZE_MAX"
    and x: "cer_tree_ok strict m x" "cer_fits TLV_CER_MAX_DEPTH x" "take (length (cer_octets x)) (bytes p) = cer_octets x"
      "length (cer_octets x) \<le> n"
    and ok: "cer_read_impl p n limits True strict d0 = Some (TLV_OK, r, d)"
  shows "length (cer_content x) \<le> cm_max_value_size (cer_limits limits)"
    "lead_constructed (cer_tag_of x) \<Longrightarrow> 1 \<le> cm_max_depth (cer_limits limits)"
proof -
  let ?L = "cer_limits limits"
  from ok [unfolded cer_read_impl_iff [OF p]] obtain y where y: "cm_max_depth ?L \<le> TLV_CER_MAX_DEPTH"
    "take (length (cer_octets y)) (bytes p) = cer_octets y" "length (cer_octets y) \<le> n" "cer_root_ok strict ?L y" by blast
  define W where "W = \<lparr>cm_max_depth = TLV_CER_MAX_DEPTH, cm_max_input_size = n, cm_max_value_size = max m (cm_max_value_size ?L),
    cm_max_elements = max (cer_elements x) (cer_elements y)\<rparr>"
  have W: "cer_limits (Some W) = W" "cm_max_depth W \<le> TLV_CER_MAX_DEPTH" "n \<le> cm_max_input_size W"
    by (simp_all add: W_def cer_limits_def)
  have X: "cer_root_ok strict W x" using cer_tree_ok_mono [OF x(1)] x(2) by (simp add: W_def cer_root_ok_def)
  have Y: "cer_root_ok strict W y" using y(1,4) cer_tree_ok_mono [of strict "cm_max_value_size ?L" y] cer_fits_mono [of "cm_max_depth ?L" y TLV_CER_MAX_DEPTH]
    by (simp add: W_def cer_root_ok_def)
  have R: "cer_read_impl p n (Some W) True strict d0 = Some (TLV_OK, Some (cer_element_at p 0 z, length (cer_octets z)), d0)"
    if "z \<in> {x, y}" "cer_root_ok strict W z" for z
    using that x(3,4) y(2,3) W by (subst cer_read_impl_iff [OF p]) (auto simp: W_def)
  have e: "cer_element_at p 0 y = cer_element_at p 0 x" using R [of x] R [of y] X Y by simp
  have "occurs_at (cer_octets x) p 0" "occurs_at (cer_octets y) p 0" using x(3) y(2) by (simp_all add: occurs_at_def)
  note E = this [THEN cer_element_at_content(1)] this [THEN cer_element_at_content(2)]
  then have c: "cer_tag_of y = cer_tag_of x" "cer_content y = cer_content x" unfolding e by simp_all
  show "length (cer_content x) \<le> cm_max_value_size ?L" using y(4) c(2) by (cases y) (auto simp: cer_root_ok_def)
  show "1 \<le> cm_max_depth ?L" if "lead_constructed (cer_tag_of x)" using that y(4) c(1) by (cases y) (auto simp: cer_root_ok_def)
qed

section \<open>Writing\<close>

lemma cer_tag_written:
  assumes "tag_wf tag" "fst (tlv_asn1_write_identifier tag None 0) = TLV_OK"
  shows "cer_tag_octets (tag_bytes tag)" "tlv_asn1_write_identifier tag None 0 = (TLV_OK, None, Some (length (tag_bytes tag)))"
    "occurs_at (tag_bytes tag) (tag_data tag) 0" "tag = tlv_tag (ptr_add (tag_data tag) 0) (length (tag_bytes tag))"
proof -
  have "tlv_asn1_read_identifier (Ptr 0 (tag_bytes tag)) (tag_size tag) =
      (TLV_OK, Some (tlv_tag (Ptr 0 (tag_bytes tag)) (tag_size tag)), Some (tag_size tag))"
    using assms by (intro asn1_id.read_written_tag) auto
  then show "cer_tag_octets (tag_bytes tag)" using assms(1) by (simp add: cer_tag_octets_def)
  show "tlv_asn1_write_identifier tag None 0 = (TLV_OK, None, Some (length (tag_bytes tag)))"
    using asn1_id.write_tag_query [OF assms] assms(1) by simp
  show "occurs_at (tag_bytes tag) (tag_data tag) 0" using assms(1) by (simp add: occurs_at_def tag_bytes_def tag_wf_def readable_def min_def)
  show "tag = tlv_tag (ptr_add (tag_data tag) 0) (length (tag_bytes tag))" using assms(1) by (simp add: tlv_tag_def)
qed

lemma cer_tag_facts:
  assumes "tag_wf tag" "fst (tlv_asn1_write_identifier tag None 0) = TLV_OK"
  shows "tlv_asn1_tag_is_constructed tag = lead_constructed (tag_bytes tag)"
    "tlv_asn1_is_constructed tag = lead_constructed (tag_bytes tag)"
    "recognized_universal tag = octets_universal (tag_bytes tag)" "segmentable_number tag = octets_segmentable (tag_bytes tag)"
proof -
  note T = cer_tag_written [OF assms]
  note ne = cer_tag_octets_nonempty [OF T(1)]
  show "tlv_asn1_tag_is_constructed tag = lead_constructed (tag_bytes tag)"
    using der_constructed_at [OF T(3) ne] T(4) by metis
  show "tlv_asn1_is_constructed tag = lead_constructed (tag_bytes tag)"
    using constructed_at [OF T(3) ne] T(4) by metis
  show "recognized_universal tag = octets_universal (tag_bytes tag)" using recognized_universal_at [OF T(1,3)] T(4) by metis
  show "segmentable_number tag = octets_segmentable (tag_bytes tag)" using segmentable_at [OF T(1,3)] T(4) by metis
qed

lemma cer_write_bytes:
  assumes wf: "element_wf \<lparr>elem_tag = tag, elem_value = \<lparr>val_data = val, val_size = len\<rparr>\<rparr>" and cap: "cap \<le> length buf"
    and prim: "\<not> tlv_asn1_is_constructed tag"
    and ok: "tlv_write (Some buf) cap (Some tlv_format_cer) tag val len True = (TLV_OK, ob, ow)"
  defines "w \<equiv> tag_bytes tag @ der_len len @ take len (bytes val)"
  shows "ob = Some (blit 0 w buf)" "ow = Some (length w)" "length w \<le> cap"
proof -
  let ?el = "\<lparr>elem_tag = tag, elem_value = \<lparr>val_data = val, val_size = len\<rparr>\<rparr>"
  have w: "cer_wire ?el = w"
    using prim by (simp add: cer_wire_def fields_wire_def order_tlv_def unscoped_count w_def value_bytes_def)
      (simp add: tlv_cer_fields_def)
  have f: "fmt_decode tlv_format_cer = Some (tlv_fields_decode tlv_cer_fields)" "fmt_encode tlv_format_cer = Some cer_encode"
    by (simp_all add: tlv_format_cer_def)
  obtain oe where enc: "tlv_format_encode (Some tlv_format_cer) (Some ?el) (Some buf) cap True = (TLV_OK, ob, ow, oe)"
    using ok by (auto simp: tlv_write_def tlv_write_diag_def tlv_write_element_diag_def split: prod.splits)
  from cer_format.guarded_roundtrip [OF f wf cap enc, unfolded w]
  show "ob = Some (blit 0 w buf)" "ow = Some (length w)" "length w \<le> cap" by auto
qed

text \<open>
  What a successful write leaves in the buffer is the encoding of a well-formed tree.  For a constructed element
  this needs three conditions on its own form, size and depth, which the code does not check.
\<close>

lemma cer_write_impl_OK:
  assumes wf: "element_wf \<lparr>elem_tag = tag, elem_value = \<lparr>val_data = val, val_size = len\<rparr>\<rparr>" and cap: "cap \<le> length buf"
    and own: "tlv_asn1_tag_is_constructed tag \<Longrightarrow> cer_constructible (tag_bytes tag) \<and> 1 \<le> cm_max_depth (cer_limits limits) \<and>
      len \<le> cm_max_value_size (cer_limits limits)"
    and ok: "cer_write_impl (Some buf) cap tag val len limits strict True d0 = Some (TLV_OK, ob, ow, d)"
  obtains x where "cer_tag_of x = tag_bytes tag" "cer_content x = take len (bytes val)" "cer_root_ok strict (cer_limits limits) x"
    "cer_elements x \<le> cm_max_elements (cer_limits limits)" "cm_max_depth (cer_limits limits) \<le> TLV_CER_MAX_DEPTH"
    "length (cer_octets x) \<le> cap" "ob = Some (blit 0 (cer_octets x) buf)" "ow = Some (length (cer_octets x))" "d = d0"
proof -
  let ?L = "cer_limits limits"
  have t: "tag_wf tag" "readable val len" "len \<le> TLV_SIZE_MAX" using wf
    by (auto simp: element_wf_def value_wf_def SIZE_MAX_def TLV_SIZE_MAX_def)
  have G: "cm_max_depth ?L \<le> TLV_CER_MAX_DEPTH" "0 < cm_max_elements ?L" "fst (tlv_asn1_write_identifier tag None 0) = TLV_OK"
    using ok by (auto simp: cer_write_impl_def tlv_cer_fields_def asn1_unlocated_def Let_def not_less split: if_splits prod.splits)
  note T = cer_tag_written [OF t(1) G(3)] and F = cer_tag_facts [OF t(1) G(3)]
  have len: "length (take len (bytes val)) = len" using t(2) by (simp add: readable_def)
  show thesis
  proof (cases "lead_constructed (tag_bytes tag)")
    case True
    let ?tsz = "length (tag_bytes tag)" and ?g = "map_option (\<lambda>n. (n, [])) (octets_segmentable (tag_bytes tag))"
    let ?outer = "map_option (\<lambda>number. tlv_cer_segment_state_init segment_state0 number (tlv_cer_type_info number) strict)
      (octets_segmentable (tag_bytes tag))"
    let ?a = "\<lparr>ca_data = val, ca_size = len, ca_base = ?tsz + 1, ca_depth = 1, ca_limits = ?L, ca_visitor = None, ca_one = False,
      ca_strict = strict\<rparr> :: unit cer_args"
    have own': "cer_constructible (tag_bytes tag)" "1 \<le> cm_max_depth ?L" "len \<le> cm_max_value_size ?L" using own True F(1) by auto
    have W: "\<exists>f c. cer_traverse ?a 1 ?outer () d0 = Some (TLV_OK, f, c, d)" "?tsz + 1 + len + 2 \<le> cap"
      "ow = Some (?tsz + 1 + len + 2)" "ob = Some (blit (?tsz + len + 2) [0] (blit (?tsz + len + 1) [0]
        (blit (?tsz + 1) (take len (bytes val)) (blit ?tsz [0x80] (blit 0 (tag_bytes tag) buf)))))"
    proof -
      have tg: "take ?tsz (bytes (tag_data tag)) = tag_bytes tag" using T(3) by (simp add: occurs_at_def)
      have "\<exists>f c. cer_traverse ?a 1 ?outer () d0 = Some (TLV_OK, f, c, d) \<and> ?tsz + 1 + len + 2 \<le> cap \<and>
        ow = Some (?tsz + 1 + len + 2) \<and> ob = Some (blit (?tsz + len + 2) [0] (blit (?tsz + len + 1) [0]
        (if len \<noteq> 0 then blit (?tsz + 1) (take len (bytes val)) (blit ?tsz [0x80] (blit 0 (tag_bytes tag) buf))
         else blit ?tsz [0x80] (blit 0 (tag_bytes tag) buf))))"
        using ok True F(1,4) T(2) tg
        by (auto simp: cer_write_impl_def tlv_cer_fields_def asn1_unlocated_def Let_def not_less bind_eq_Some_conv not_le add.assoc
            split: if_splits)
      then show "\<exists>f c. cer_traverse ?a 1 ?outer () d0 = Some (TLV_OK, f, c, d)" "?tsz + 1 + len + 2 \<le> cap"
        "ow = Some (?tsz + 1 + len + 2)" "ob = Some (blit (?tsz + len + 2) [0] (blit (?tsz + len + 1) [0]
        (blit (?tsz + 1) (take len (bytes val)) (blit ?tsz [0x80] (blit 0 (tag_bytes tag) buf)))))" by (cases "len = 0"; auto)+
    qed
    have a: "cer_args_ok ?a" "\<not> ca_one ?a" "never_stops (ca_visitor ?a)" "1 \<le> cm_max_elements (ca_limits ?a)"
      using G own'(2) t(2,3) by (auto simp: cer_args_ok_def never_stops_def)
    have g: "scope_state (ca_strict ?a) ?g ?outer"
      using segment_state_init_absorbed
      by (auto simp: scope_state_def octets_segmentable_def segmentable_number_def split: option.splits if_splits)
    obtain ts where ts: "take len (bytes val) = cer_forest ts" "scope_filled ?a ?g 0 ts"
      "1 + sum_list (map cer_elements ts) \<le> cm_max_elements ?L" "d = d0"
      using W(1) cer_traverse_iff [OF a(1-3) g a(4), of "()" d0] by auto
    let ?x = "CER_Constructed (tag_bytes tag) ts"
    have "cer_root_ok strict ?L ?x"
      using ts(1,2) T(1) own' len by (auto simp: cer_root_ok_def scope_filled_def split: option.splits)
    moreover have "ob = Some (blit 0 (cer_octets ?x) buf)"
      using W(2,4) indefinite_blits [of "tag_bytes tag" "take len (bytes val)" buf "0x80"] len cap ts(1) by simp
    ultimately show thesis using W(2,3) ts len G by (intro that [of ?x]) auto
  next
    case False
    let ?x = "CER_Primitive (tag_bytes tag) (take len (bytes val))"
    have S: "check_primitive_value tag val len (length (tag_bytes tag)) strict d0 = (TLV_OK, d0)" "len \<le> cm_max_value_size ?L"
      "tlv_write (Some buf) cap (Some tlv_format_cer) tag val len True = (TLV_OK, ob, ow)" "d = d0"
      using ok False F(1) T(2)
      by (auto simp: cer_write_impl_def tlv_cer_fields_def asn1_unlocated_def asn1_fail_def Let_def not_less
          check_primitive_value_def cer_write_primitive_def split: if_splits prod.splits option.splits)
    have "same_octets val (Ptr 0 (take len (bytes val))) len" using t(2) len by (simp add: same_octets_def)
    note V = universal_value_cong [OF this]
    have "cer_value_ok strict (tag_bytes tag) (take len (bytes val))"
      using S(1) F(3) V len by (auto simp: check_primitive_value_def cer_value_ok_def asn1_fail_def Let_def split: option.splits if_splits)
    then have "cer_root_ok strict ?L ?x" using T(1) False S(2) len by (simp add: cer_root_ok_def)
    then show thesis using cer_write_bytes [OF wf cap _ S(3)] False F(2) G S(4) len by (intro that [of ?x]) auto
  qed
qed

end
