(* ===== verification/TLV_CER_Segments.thy ===== *)
theory TLV_CER_Segments
  imports TLV_CER_Interface TLV_BER_Tags
begin

text \<open>
  The writer of segmented strings: what it stores is the encoding of a constructed string with canonical segments,
  whose joined contents are the logical content.
\<close>

section \<open>String types have one identifier octet\<close>

lemma unpack_seven: "unpack b 0x7F = unat (b AND 0x7F)"
proof (rule bit_eqI)
  fix j
  have m: "mask_bits 0x7F = [0..<7]" by code_simp
  have k: "0x7F = (mask 7 :: u8)" by code_simp
  have "bit (0x7F :: u8) j \<longleftrightarrow> j < 7" unfolding k by (auto simp: bit_mask_iff)
  then show "bit (unpack b 0x7F) j \<longleftrightarrow> bit (unat (b AND 0x7F)) j"
    by (auto simp: bit_unpack m bit_unsigned_iff bit_and_iff)
qed

lemma number_fold_ge: "number_fold xs v = Some r \<Longrightarrow> v \<le> r"
proof (induction xs arbitrary: v)
  case (Cons x xs)
  have "unat (x AND 0x7F) < 128" using octet_payload [of x] by simp
  from Cons.IH [of "push_bit 7 v OR unat (x AND 0x7F)"] Cons.prems push_payload [OF this, of v] show ?case
    by (simp split: if_splits)
qed simp

lemma minimal_value_le:
  assumes "vi_payload_mask c = 0x7F" "number_fold xs v = Some r"
  shows "minimal_value c 128 mx xs v \<le> r"
  using assms(2)
proof (induction xs arbitrary: v)
  case (Cons x xs)
  have "unat (x AND 0x7F) < 128" using octet_payload [of x] by simp
  note P = push_payload [OF this, of v]
  show ?case
  proof (cases "v \<le> mx")
    case True
    then show ?thesis using Cons.IH [of "push_bit 7 v OR unat (x AND 0x7F)"] Cons.prems P assms(1)
      by (simp add: unpack_seven split: if_splits)
  next
    case False
    then show ?thesis using number_fold_ge [OF Cons.prems] by simp
  qed
qed simp

lemma long_identifier_number:
  assumes t: "cer_tag_octets t" and l: "1 < length t" and n: "number_fold (drop 1 t) 0 = Some n"
  shows "31 \<le> n"
proof -
  let ?c = asn1_identifier
  have c: "unpack (vi_payload_mask ?c) (vi_payload_mask ?c) + 1 = 128" "unpack (vi_inline_mask ?c) (vi_inline_mask ?c) = 31"
    "unpack (vi_escape ?c) (vi_inline_mask ?c) = 31" "vi_payload_mask ?c = 0x7F"
    "vi_policy ?c = Some \<lparr>ip_forbidden_leading = None, ip_forbidden_leading_count = 0,
       ip_reject_zero_first_payload = 1, ip_require_minimal = 1\<rparr>" by code_simp+
  have "\<exists>ot. tlv_variable_identifier_read (Some ?c) (Ptr 0 t) (length t) True = (TLV_OK, ot, Some (length t))"
    using t by (auto simp: cer_tag_octets_def tlv_asn1_read_identifier_def Let_def split: if_splits prod.splits)
  then have "identifier_minimal ?c (Ptr 0 t) (length t)"
    by (auto simp: tlv_variable_identifier_read_def Let_def split: if_splits prod.splits)
  then have "31 \<le> minimal_value ?c 128 31 (drop 1 t) 0"
    unfolding identifier_minimal_def Let_def c(1,2,3,5) option.case using l by (auto split: if_splits)
  with minimal_value_le [OF c(4) n, of 31] show ?thesis by linarith
qed

lemma string_identifier:
  assumes t: "cer_tag_octets t" "\<not> lead_constructed t" and n: "octets_universal t = Some n"
    and f: "ti_form (tlv_cer_type_info n) \<noteq> TLV_CER_FORM_PRIMITIVE_ONLY"
  shows "t = [of_nat n]"
proof -
  note ne = cer_tag_octets_nonempty [OF t(1)]
  have lt: "n < 31" using type_info_number [OF f] by simp
  have u: "tlv_asn1_tag_class (tlv_tag (Ptr 0 t) (length t)) = TLV_ASN1_UNIVERSAL"
    "tlv_cer_tag_number (Some (tlv_tag (Ptr 0 t) (length t))) True = (TLV_OK, Some n)"
  proof -
    show "tlv_asn1_tag_class (tlv_tag (Ptr 0 t) (length t)) = TLV_ASN1_UNIVERSAL"
      using n by (auto simp: octets_universal_def recognized_universal_def split: if_splits)
    obtain rc k where k: "tlv_cer_tag_number (Some (tlv_tag (Ptr 0 t) (length t))) True = (rc, k)" by (metis prod.exhaust)
    then have "rc = TLV_OK" "the k = n" using n by (auto simp: octets_universal_def recognized_universal_def split: if_splits)
    moreover from k this(1) have "k \<noteq> None"
      by (cases "number_fold (drop (Suc 0) t) 0")
        (auto simp: tlv_cer_tag_number_def tlv_asn1_tag_number_checked_def Let_def split: if_splits dest!: sym [of "Some _"])
    ultimately show "tlv_cer_tag_number (Some (tlv_tag (Ptr 0 t) (length t))) True = (TLV_OK, Some n)" using k by auto
  qed
  have one: "length t = 1"
  proof (rule ccontr)
    assume "length t \<noteq> 1"
    then have l: "1 < length t" using ne by (cases t) auto
    then have "number_fold (drop 1 t) 0 = Some n"
      using u(2) by (auto simp: tlv_cer_tag_number_def tlv_asn1_tag_number_checked_def tlv_tag_def Let_def split: if_splits option.splits)
    from long_identifier_number [OF t(1) l this] lt show False by simp
  qed
  then obtain b where b: "t = [b]" by (cases t) auto
  have n1: "unat (b AND 0x1F) = n"
    using u(2) by (auto simp: b tlv_cer_tag_number_def tlv_asn1_tag_number_checked_def tlv_tag_def TLV_ASN1_TAG_NUMBER_MASK_def
        Let_def split: if_splits)
  have "b AND 0x20 = 0"
    using t(2) single_bit_test [of b] by (auto simp: lead_constructed_def b TLV_ASN1_CONSTRUCTED_BIT_def)
  moreover have "b AND 0xC0 = 0"
  proof -
    have "unat (drop_bit 6 b) = 0"
    proof (rule ccontr)
      assume "unat (drop_bit 6 b) \<noteq> 0"
      then show False using u(1) unfolding b tlv_asn1_tag_class_def tlv_tag_def Let_def by (simp split: if_split_asm)
    qed
    then have "unat b div 64 = 0" by (simp add: drop_bit_eq_div unat_div)
    moreover have "(0xC0 :: u8) = NOT (mask 6)" by code_simp
    ultimately have "unat (b AND 0xC0) = 0" using octet_high [of "0xC0" 6 b] by simp
    then show ?thesis by (simp only: unat_eq_0)
  qed
  ultimately show ?thesis using low_identifier [OF lt, of b] n1 b by simp
qed

lemma constructed_string_identifier:
  assumes "ti_form (tlv_cer_type_info n) \<noteq> TLV_CER_FORM_PRIMITIVE_ONLY"
  shows "cer_tag_octets [of_nat n OR 0x20] \<and> cer_constructible [of_nat n OR 0x20] \<and> octets_segmentable [of_nat n OR 0x20] = Some n"
proof -
  have "n \<in> {3, 4, 12, 7, 18, 19, 20, 21, 22, 25, 26, 27, 28, 30}"
    using assms by (auto simp: tlv_cer_type_info_def Let_def split: if_splits)
  then have "cer_tag_octets [of_nat n OR 0x20] \<and> lead_constructed [of_nat n OR 0x20] \<and>
      octets_universal [of_nat n OR 0x20] = Some n \<and> octets_segmentable [of_nat n OR 0x20] = Some n"
    by (simp only: insert_iff empty_iff) (elim disjE; simp only: of_nat_numeral; code_simp)
  then show ?thesis using assms by (simp add: cer_constructible_def)
qed

section \<open>The segments of a string\<close>

fun pieces :: "nat \<Rightarrow> nat \<Rightarrow> 'a list \<Rightarrow> 'a list list" where
  "pieces c 0 xs = []"
| "pieces c (Suc n) xs = take c xs # pieces c n (drop c xs)"

lemma concat_pieces: "concat (pieces c n xs) = take (n * c) xs"
  by (induction n arbitrary: xs) (simp_all add: take_add)

lemma length_piece: "n * c \<le> length xs \<Longrightarrow> p \<in> set (pieces c n xs) \<Longrightarrow> length p = c"
proof (induction n arbitrary: xs)
  case (Suc n)
  have "n * c \<le> length (drop c xs)" using Suc.prems(1) by simp
  from Suc.IH [OF this] Suc.prems show ?case by auto
qed simp

lemma length_pieces [simp]: "length (pieces c n xs) = n"
  by (induction n arbitrary: xs) simp_all

lemma piece_subset: "p \<in> set (pieces c n xs) \<Longrightarrow> set p \<subseteq> set xs"
  by (induction n arbitrary: xs) (auto dest: in_set_takeD in_set_dropD)

text \<open>
  All segments of a content; those of a BIT STRING start with an octet for the number of unused bits.
\<close>

definition segment_source :: "bool \<Rightarrow> u8 list \<Rightarrow> u8 list" where
  "segment_source is_bit xs = (if is_bit then tl xs else xs)"

definition segment_chunk :: "bool \<Rightarrow> nat" where
  "segment_chunk is_bit = (if is_bit then TLV_CER_MAX_SEGMENT_OCTETS - 1 else TLV_CER_MAX_SEGMENT_OCTETS)"

definition segment_count :: "bool \<Rightarrow> u8 list \<Rightarrow> nat" where
  "segment_count is_bit xs = (length (segment_source is_bit xs) - 1) div segment_chunk is_bit"

definition unused_octet :: "u8 option \<Rightarrow> u8 list" where
  "unused_octet u = (case u of None \<Rightarrow> [] | Some x \<Rightarrow> [x])"

definition string_segments :: "bool \<Rightarrow> u8 list \<Rightarrow> u8 list list" where
  "string_segments is_bit xs =
     (let src = segment_source is_bit xs; c = segment_chunk is_bit; k = segment_count is_bit xs in
      map (\<lambda>p. unused_octet (if is_bit then Some 0 else None) @ p) (pieces c k src) @
      [unused_octet (if is_bit then Some (hd xs) else None) @ drop (k * c) src])"

text \<open>The logical content of segments.\<close>

definition segments_content :: "bool \<Rightarrow> u8 list list \<Rightarrow> u8 list" where
  "segments_content is_bit vs = (if is_bit then hd (last vs) # concat (map tl vs) else concat vs)"

lemma segment_count_bounds:
  fixes is_bit :: bool
  assumes "TLV_CER_MAX_SEGMENT_OCTETS < length xs"
  defines "c \<equiv> segment_chunk is_bit" and "k \<equiv> segment_count is_bit xs" and "l \<equiv> length (segment_source is_bit xs)"
  shows "k * c < l" "l \<le> k * c + c" "0 < k"
proof -
  have c: "0 < c" "c + (if is_bit then 1 else 0) = TLV_CER_MAX_SEGMENT_OCTETS" "l + (if is_bit then 1 else 0) = length xs"
    using assms(1) by (auto simp: c_def segment_chunk_def TLV_CER_MAX_SEGMENT_OCTETS_def l_def segment_source_def)
  have l: "c < l" using c assms(1) by (auto split: if_splits)
  have "k * c \<le> l - 1" by (simp add: k_def segment_count_def c_def l_def)
  then show "k * c < l" using l c by linarith
  have "l - 1 < k * c + c" using dividend_less_div_times [of c "l - 1"] c(1)
    by (simp add: k_def segment_count_def c_def [symmetric] l_def [symmetric] add.commute)
  then show "l \<le> k * c + c" by linarith
  show "0 < k" using l c(1) unfolding k_def segment_count_def c_def [symmetric] l_def [symmetric]
    by (simp add: div_greater_zero_iff)
qed

lemma string_segments_content:
  assumes "TLV_CER_MAX_SEGMENT_OCTETS < length xs"
  shows "segments_content is_bit (string_segments is_bit xs) = xs"
proof -
  let ?src = "segment_source is_bit xs" and ?n = "segment_count is_bit xs * segment_chunk is_bit"
  have "concat (pieces (segment_chunk is_bit) (segment_count is_bit xs) ?src) @ drop ?n ?src = ?src"
    by (simp add: concat_pieces)
  moreover have "xs \<noteq> []" "map ((@) []) ys = ys" for ys :: "u8 list list" using assms by (auto intro: map_idI)
  ultimately show ?thesis
    by (cases is_bit) (auto simp: segments_content_def string_segments_def Let_def unused_octet_def comp_def segment_source_def)
qed

lemma string_segments_shape:
  fixes is_bit :: bool
  assumes big: "TLV_CER_MAX_SEGMENT_OCTETS < length xs"
  defines "vs \<equiv> string_segments is_bit xs"
  shows "vs \<noteq> []" "\<forall>v \<in> set vs. v \<noteq> [] \<and> length v \<le> TLV_CER_MAX_SEGMENT_OCTETS"
    "\<forall>v \<in> set (butlast vs). length v = TLV_CER_MAX_SEGMENT_OCTETS" "TLV_CER_MAX_SEGMENT_OCTETS < length (concat vs)"
    "length vs = segment_count is_bit xs + 1"
proof -
  note B = segment_count_bounds [OF big, of is_bit]
  let ?src = "segment_source is_bit xs" and ?c = "segment_chunk is_bit" and ?k = "segment_count is_bit xs"
  have u: "length (unused_octet (if is_bit then Some u else None)) + ?c = TLV_CER_MAX_SEGMENT_OCTETS" for u
    by (simp add: unused_octet_def segment_chunk_def TLV_CER_MAX_SEGMENT_OCTETS_def)
  have p: "length v = ?c" if "v \<in> set (pieces ?c ?k ?src)" for v using length_piece [OF less_imp_le [OF B(1)] that] .
  show "vs \<noteq> []" "length vs = ?k + 1" by (simp_all add: vs_def string_segments_def Let_def)
  show all: "\<forall>v \<in> set (butlast vs). length v = TLV_CER_MAX_SEGMENT_OCTETS"
    using p u [of 0] by (auto simp: vs_def string_segments_def Let_def butlast_append)
  have last: "vs = butlast vs @ [unused_octet (if is_bit then Some (hd xs) else None) @ drop (?k * ?c) ?src]"
    by (simp add: vs_def string_segments_def Let_def butlast_append)
  have "length (drop (?k * ?c) ?src) \<le> ?c" "drop (?k * ?c) ?src \<noteq> []" using B by auto
  then have l: "unused_octet (if is_bit then Some (hd xs) else None) @ drop (?k * ?c) ?src \<noteq> [] \<and>
      length (unused_octet (if is_bit then Some (hd xs) else None) @ drop (?k * ?c) ?src) \<le> TLV_CER_MAX_SEGMENT_OCTETS"
    using u [of "hd xs"] by simp
  have "\<forall>v \<in> set (butlast vs). v \<noteq> [] \<and> length v \<le> TLV_CER_MAX_SEGMENT_OCTETS"
    using all by (fastforce simp: TLV_CER_MAX_SEGMENT_OCTETS_def)
  with l show ne: "\<forall>v \<in> set vs. v \<noteq> [] \<and> length v \<le> TLV_CER_MAX_SEGMENT_OCTETS" by (subst last) auto
  have "length xs \<le> length (concat vs)"
  proof (cases is_bit)
    case True
    have "segments_content True vs = xs" using string_segments_content [OF big, of True] True by (simp add: vs_def)
    then have "length xs = 1 + length (concat (map tl vs))" by (metis One_nat_def length_Cons plus_1_eq_Suc segments_content_def)
    moreover have "length (concat (map tl vs)) + length vs \<le> length (concat vs)" if "\<forall>v \<in> set vs. v \<noteq> []" for vs :: "u8 list list"
      using that by (induction vs) (auto simp: neq_Nil_conv)
    ultimately show ?thesis using ne \<open>length vs = ?k + 1\<close> by fastforce
  next
    case False
    then show ?thesis using string_segments_content [OF big, of False] by (simp add: vs_def segments_content_def)
  qed
  then show "TLV_CER_MAX_SEGMENT_OCTETS < length (concat vs)" using big by linarith
qed

section \<open>Segments of a valid content are valid\<close>

lemma universal_loop_append:
  "length xs mod 4 = 0 \<Longrightarrow> universal_loop (xs @ ys) = TLV_OK \<longleftrightarrow> universal_loop xs = TLV_OK \<and> universal_loop ys = TLV_OK"
  by (induction xs rule: universal_loop.induct) (auto simp: Let_def)

lemma bmp_loop_append:
  "length xs mod 2 = 0 \<Longrightarrow> bmp_loop (xs @ ys) = TLV_OK \<longleftrightarrow> bmp_loop xs = TLV_OK \<and> bmp_loop ys = TLV_OK"
  by (induction xs rule: bmp_loop.induct) (auto simp: Let_def)

lemma loop_concat:
  assumes "\<And>xs ys. length xs mod w = 0 \<Longrightarrow> loop (xs @ ys) = TLV_OK \<longleftrightarrow> loop xs = TLV_OK \<and> loop ys = TLV_OK"
  shows "\<forall>v \<in> set (butlast vs). length v mod w = 0 \<Longrightarrow> loop (concat vs) = TLV_OK \<Longrightarrow> v \<in> set vs \<Longrightarrow> loop v = TLV_OK"
proof (induction vs)
  case (Cons x vs)
  then show ?case using assms [of x "concat vs"] by (cases "vs = []") auto
qed simp

lemma length_concat_mod:
  "\<forall>v \<in> set (butlast vs). length v mod w = 0 \<Longrightarrow> length (concat vs) mod w = 0 \<Longrightarrow> v \<in> set vs \<Longrightarrow> length v mod (w :: nat) = 0"
proof (induction vs)
  case (Cons x vs)
  then show ?case by (cases "vs = []") (auto simp: mod_add_left_eq [symmetric] mod_0_imp_dvd)
qed simp

lemma character_segments:
  assumes f: "ti_form (tlv_cer_type_info n) = TLV_CER_FORM_CHARACTERS" "\<not> ti_is_utf8 (tlv_cer_type_info n)"
    and ok: "tlv_asn1_validate_universal_value n (Ptr 0 (concat vs)) (length (concat vs)) = TLV_OK"
    and full: "\<forall>v \<in> set (butlast vs). length v = TLV_CER_MAX_SEGMENT_OCTETS" and v: "v \<in> set vs"
  shows "validate_character_segment n (ti_code_unit_width (tlv_cer_type_info n)) (Ptr 0 v) (length v) = TLV_OK"
proof -
  have m: "\<forall>v \<in> set (butlast vs). length v mod 4 = 0" "\<forall>v \<in> set (butlast vs). length v mod 2 = 0"
    using full by (auto simp: TLV_CER_MAX_SEGMENT_OCTETS_def)
  have all: "all_octets q (Ptr 0 (concat vs)) (length (concat vs)) = TLV_OK \<Longrightarrow> all_octets q (Ptr 0 v) (length v) = TLV_OK" for q
    using v by (auto simp: all_octets_def list_all_iff split: if_splits)
  consider "n \<in> {7, 20, 21, 25, 27}" | "n \<in> {18, 19, 22, 26}" | "n = 28" | "n = 30"
    using f by (auto simp: tlv_cer_type_info_def Let_def split: if_splits)
  then show ?thesis
  proof cases
    case 1
    then show ?thesis by (auto simp: tlv_cer_type_info_def validate_character_segment_def tlv_asn1_validate_octet_string_def Let_def)
  next
    case 2
    note defs = tlv_cer_type_info_def validate_character_segment_def tlv_asn1_validate_universal_value_def
      tlv_asn1_validate_numeric_string_def tlv_asn1_validate_printable_string_def tlv_asn1_validate_ia5_string_def
      tlv_asn1_validate_visible_string_def
    from 2 ok show ?thesis
      by (elim insertE emptyE) (simp_all add: defs all)
  next
    case 3
    then have u: "length (concat vs) mod 4 = 0" "universal_loop (concat vs) = TLV_OK"
      using ok by (auto simp: tlv_asn1_validate_universal_value_def tlv_asn1_validate_universal_string_def split: if_splits)
    have "length v mod 4 = 0" "universal_loop v = TLV_OK"
      using length_concat_mod [OF m(1) u(1) v] loop_concat [of 4 universal_loop, OF universal_loop_append m(1) u(2) v] by simp_all
    with 3 show ?thesis
      by (simp add: tlv_cer_type_info_def validate_character_segment_def tlv_asn1_validate_universal_string_def Let_def)
  next
    case 4
    then have u: "length (concat vs) mod 2 = 0" "bmp_loop (concat vs) = TLV_OK"
      using ok by (auto simp: tlv_asn1_validate_universal_value_def tlv_asn1_validate_bmp_string_def split: if_splits)
    have "length v mod 2 = 0" "bmp_loop v = TLV_OK"
      using length_concat_mod [OF m(2) u(1) v] loop_concat [of 2 bmp_loop, OF bmp_loop_append m(2) u(2) v] by simp_all
    with 4 show ?thesis
      by (simp add: tlv_cer_type_info_def validate_character_segment_def tlv_asn1_validate_bmp_string_def Let_def)
  qed
qed

lemma bit_string_segment:
  assumes ok: "tlv_asn1_validate_bit_string (Ptr 0 xs) (length xs) = TLV_OK" and ys: "ys \<noteq> []" "xs = zs @ ys" "zs \<noteq> []"
  shows "tlv_asn1_validate_bit_string (Ptr 0 (hd xs # ys)) (length (hd xs # ys)) = TLV_OK"
proof -
  have "byte_at (Ptr 0 xs) (length xs - 1) = last ys" "byte_at (Ptr 0 (hd xs # ys)) (length ys) = last ys"
    "byte_at (Ptr 0 xs) 0 = hd xs" "1 < length xs"
    using ys by (auto simp: byte_at_def last_conv_nth hd_conv_nth nth_append neq_Nil_conv Suc_diff_le)
  then show ?thesis using ok ys by (simp add: tlv_asn1_validate_bit_string_def Let_def split: if_splits)
qed

lemma string_segments_ok:
  assumes big: "TLV_CER_MAX_SEGMENT_OCTETS < length xs"
    and ok: "tlv_asn1_validate_universal_value n (Ptr 0 xs) (length xs) = TLV_OK"
  defines "is_bit \<equiv> ti_form (tlv_cer_type_info n) = TLV_CER_FORM_BIT_STRING"
  shows "segments_ok strict n (string_segments is_bit xs)"
proof -
  let ?vs = "string_segments is_bit xs"
  note S = string_segments_shape [OF big, of is_bit] and C = string_segments_content [OF big, of is_bit]
  have "segment_contents_ok n ?vs"
  proof (cases "ti_form (tlv_cer_type_info n)")
    case TLV_CER_FORM_BIT_STRING
    let ?src = "segment_source True xs" and ?k = "segment_count True xs" and ?c = "segment_chunk True"
    note B = segment_count_bounds [OF big, of True]
    have bit: is_bit using TLV_CER_FORM_BIT_STRING by (simp add: is_bit_def)
    have n: "n = 3" using TLV_CER_FORM_BIT_STRING by (auto simp: tlv_cer_type_info_def Let_def split: if_splits)
    have vs: "?vs = map (\<lambda>p. 0 # p) (pieces ?c ?k ?src) @ [hd xs # drop (?k * ?c) ?src]"
      using bit by (simp add: string_segments_def Let_def unused_octet_def)
    have "xs = (hd xs # take (?k * ?c) ?src) @ drop (?k * ?c) ?src" using big by (cases xs) (auto simp: segment_source_def)
    moreover have "drop (?k * ?c) ?src \<noteq> []" using B(1) by simp
    ultimately have "tlv_asn1_validate_bit_string (Ptr 0 (hd xs # drop (?k * ?c) ?src)) (length (hd xs # drop (?k * ?c) ?src)) = TLV_OK"
      using ok n by (intro bit_string_segment [of xs _ "hd xs # take (?k * ?c) ?src"]) (auto simp: tlv_asn1_validate_universal_value_def)
    then show ?thesis using TLV_CER_FORM_BIT_STRING unfolding segment_contents_ok_def vs by (auto simp: butlast_append)
  next
    case TLV_CER_FORM_CHARACTERS
    then have c: "concat ?vs = xs" using C by (simp add: is_bit_def segments_content_def)
    show ?thesis
    proof (cases "ti_is_utf8 (tlv_cer_type_info n)")
      case True
      then have "n = 12" by (auto simp: tlv_cer_type_info_def Let_def split: if_splits)
      then show ?thesis using ok True TLV_CER_FORM_CHARACTERS
        by (simp add: segment_contents_ok_def c tlv_asn1_validate_universal_value_def tlv_asn1_validate_utf8_def)
    next
      case False
      then show ?thesis using character_segments [OF TLV_CER_FORM_CHARACTERS False _ S(3)] ok TLV_CER_FORM_CHARACTERS
        by (simp add: segment_contents_ok_def c)
    qed
  qed (simp_all add: segment_contents_ok_def)
  then show ?thesis using S by (simp add: segments_ok_def)
qed

section \<open>What the writer stores\<close>

lemma ber_write_length_eq:
  assumes "l \<le> TLV_SIZE_MAX"
  shows "tlv_ber_write_length l None 0 = (TLV_OK, None, Some (length (der_len l)))"
    "length (der_len l) \<le> cap \<Longrightarrow> cap \<le> length buf \<Longrightarrow>
     tlv_ber_write_length l (Some buf) cap = (TLV_OK, Some (blit 0 (der_len l) buf), Some (length (der_len l)))"
  using minimal_len.write_length_query [OF assms ber_length_fits [OF assms]]
    minimal_len.write_length_buffer [OF assms ber_length_fits [OF assms]] by auto

lemma segment_put_eq:
  assumes t: "take (length t) (bytes (tag_data tag)) = t" and v: "v = unused_octet u @ src" "length v \<le> TLV_SIZE_MAX"
    and room: "pos + length (cer_octets (CER_Primitive t v)) \<le> length buf"
  shows "segment_put tag (length t) (length v) (length (der_len (length v))) u src (Some buf) pos =
    Inr (Some (blit pos (cer_octets (CER_Primitive t v)) buf), pos + length (cer_octets (CER_Primitive t v)))"
proof -
  let ?b1 = "blit pos t buf" and ?d = "der_len (length v)"
  have r: "pos + length t + length ?d + length v \<le> length buf" using room by simp
  have w: "tlv_ber_write_length (length v) (Some (drop (pos + length t) ?b1)) (length ?d) =
      (TLV_OK, Some (blit 0 ?d (drop (pos + length t) ?b1)), Some (length ?d))"
    using r by (intro ber_write_length_eq(2) [OF v(2)]) auto
  have p: "obuf_put (pos + length t) (Some ?b1) (Some (blit 0 ?d (drop (pos + length t) ?b1))) = Some (blit pos (t @ ?d) buf)"
    using obuf_put_blit [of "pos + length t" ?d ?b1] blit_blit(1) [of pos t ?d buf] r by simp
  have "blit (pos + length t + length ?d) v (blit pos (t @ ?d) buf) = blit pos (t @ ?d @ v) buf"
    using blit_blit(1) [of pos "t @ ?d" v buf] r by (simp add: add.assoc)
  moreover have "blit (pos + length t + length ?d + length (unused_octet u)) src
      (blit (pos + length t + length ?d) (unused_octet u) (blit pos (t @ ?d) buf)) =
      blit (pos + length t + length ?d) v (blit pos (t @ ?d) buf)"
    unfolding v(1) using blit_blit(1) [of "pos + length t + length ?d" "unused_octet u" src "blit pos (t @ ?d) buf"] r v(1) by simp
  ultimately show ?thesis
    unfolding segment_put_def Let_def t tlv_cer_fields_def tlv_field_composition_t.select_convs option.sel obuf_blit_simps obuf_drop_simps w prod.case p
    by (cases u) (simp_all add: unused_octet_def v(1) add.assoc)
qed

lemma segments_put_eq:
  assumes t: "take (length t) (bytes (tag_data tag)) = t" and c: "length (unused_octet u) + c = TLV_CER_MAX_SEGMENT_OCTETS"
  shows "n * c \<le> length src \<Longrightarrow>
    pos + length (cer_forest (map (\<lambda>p. CER_Primitive t (unused_octet u @ p)) (pieces c n src))) \<le> length buf \<Longrightarrow>
    segments_put tag (length t) (length (der_len TLV_CER_MAX_SEGMENT_OCTETS)) u c n src (Some buf) pos =
      Inr (drop (n * c) src,
        Some (blit pos (cer_forest (map (\<lambda>p. CER_Primitive t (unused_octet u @ p)) (pieces c n src))) buf),
        pos + length (cer_forest (map (\<lambda>p. CER_Primitive t (unused_octet u @ p)) (pieces c n src))))"
proof (induction n arbitrary: src buf pos)
  case 0
  then show ?case by (simp add: blit_def)
next
  case (Suc n)
  let ?v = "unused_octet u @ take c src" and ?F = "cer_forest (map (\<lambda>p. CER_Primitive t (unused_octet u @ p)) (pieces c n (drop c src)))"
  let ?o = "cer_octets (CER_Primitive t ?v)"
  have lv: "length ?v = TLV_CER_MAX_SEGMENT_OCTETS" using Suc.prems(1) c by simp
  have room: "pos + length ?o + length ?F \<le> length buf" using Suc.prems(2) by (simp add: add.assoc)
  have "segment_put tag (length t) (length ?v) (length (der_len (length ?v))) u (take c src) (Some buf) pos =
      Inr (Some (blit pos ?o buf), pos + length ?o)"
    using room lv by (intro segment_put_eq [OF t refl]) (simp_all add: TLV_SIZE_MAX_def TLV_CER_MAX_SEGMENT_OCTETS_def)
  moreover have "segments_put tag (length t) (length (der_len TLV_CER_MAX_SEGMENT_OCTETS)) u c n (drop c src)
      (Some (blit pos ?o buf)) (pos + length ?o) =
      Inr (drop (n * c) (drop c src), Some (blit (pos + length ?o) ?F (blit pos ?o buf)), pos + length ?o + length ?F)"
    using Suc.IH [of "drop c src" "pos + length ?o" "blit pos ?o buf"] Suc.prems room by simp
  ultimately show ?case
    using blit_blit(1) [OF room] unfolding lv by (simp add: add.assoc del: cer_octets.simps) (simp add: add.commute)
qed

lemma length_segments:
  "\<forall>v \<in> set vs. length v = m \<Longrightarrow> length (cer_forest (map (CER_Primitive t) vs)) = length vs * (length t + length (der_len m) + m)"
  by (induction vs) (simp_all add: algebra_simps)

lemma blit_constructed_tag:
  "2 \<le> length buf \<Longrightarrow> blit 1 [c] (blit 0 [a] (blit 0 [b] buf)) = blit 0 [a, c] (buf :: u8 list)"
  by (cases buf; cases "tl buf") (auto simp: blit_def)

lemma write_segments_OK:
  assumes t: "take 1 (bytes (tag_data tag)) = [b]" "byte_at (tag_data tag) 0 = b"
    and n: "readable content n" "TLV_CER_MAX_SEGMENT_OCTETS < n" "n \<le> TLV_SIZE_MAX" and cap: "cap \<le> length buf"
    and ok: "write_segments (Some buf) cap tag 1 is_bit content n L d0 = (TLV_OK, ob, ow, d)"
  defines "xs \<equiv> take n (bytes content)"
  defines "x \<equiv> CER_Constructed [b OR 0x20] (map (CER_Primitive [b]) (string_segments is_bit xs))"
  shows "ob = Some (blit 0 (cer_octets x) buf)" "ow = Some (length (cer_octets x))" "length (cer_octets x) \<le> cap"
    "cer_elements x \<le> cm_max_elements L" "d = d0"
proof -
  let ?src = "segment_source is_bit xs" and ?c = "segment_chunk is_bit" and ?k = "segment_count is_bit xs"
  let ?u0 = "if is_bit then Some 0 else None" and ?u1 = "if is_bit then Some (byte_at content 0) else None"
  let ?last = "unused_octet ?u1 @ drop (?k * ?c) ?src"
  let ?P = "map (\<lambda>p. CER_Primitive [b] (unused_octet ?u0 @ p)) (pieces ?c ?k ?src)" and ?Q = "CER_Primitive [b] ?last"
  have lx: "length xs = n" using n(1) by (simp add: xs_def readable_def)
  have big: "TLV_CER_MAX_SEGMENT_OCTETS < length xs" using n(2) lx by simp
  have hd: "hd xs = byte_at content 0" using n(1,2) by (cases "bytes content") (auto simp: xs_def byte_at_def take_Cons' readable_def)
  note B = segment_count_bounds [OF big, of is_bit] and S = string_segments_shape [OF big, of is_bit]
  have vs: "map (CER_Primitive [b]) (string_segments is_bit xs) = ?P @ [?Q]"
    by (auto simp: string_segments_def Let_def hd comp_def)
  have src: "take (if is_bit then n - 1 else n) (bytes (if is_bit then ptr_add content 1 else content)) = ?src"
    by (auto simp: segment_source_def xs_def tl_take drop_Suc)
  have lsrc: "length ?src = (if is_bit then n - 1 else n)" by (simp add: segment_source_def lx)
  have lay: "segment_layout (if is_bit then n - 1 else n) ?c = (?k, length ?src - ?k * ?c)"
    by (simp add: segment_layout_def Let_def segment_count_def lsrc)
  have llast: "(if is_bit then length ?src - ?k * ?c + 1 else length ?src - ?k * ?c) = length ?last"
    by (simp add: unused_octet_def)
  have cl: "length (unused_octet ?u0) + ?c = TLV_CER_MAX_SEGMENT_OCTETS"
    by (simp add: unused_octet_def segment_chunk_def TLV_CER_MAX_SEGMENT_OCTETS_def)
  have last_le: "length ?last \<le> TLV_SIZE_MAX" "TLV_CER_MAX_SEGMENT_OCTETS \<le> TLV_SIZE_MAX"
    using B cl n(3) lsrc by (auto simp: unused_octet_def TLV_CER_MAX_SEGMENT_OCTETS_def TLV_SIZE_MAX_def)
  note W = ber_write_length_eq(1) [OF last_le(1)] ber_write_length_eq(1) [OF last_le(2)]
  let ?per = "1 + length (der_len TLV_CER_MAX_SEGMENT_OCTETS) + TLV_CER_MAX_SEGMENT_OCTETS"
  have lP: "length (cer_forest ?P) = ?k * ?per"
    using length_segments [of "map (\<lambda>p. unused_octet ?u0 @ p) (pieces ?c ?k ?src)" TLV_CER_MAX_SEGMENT_OCTETS "[b]"]
      length_piece [OF less_imp_le [OF B(1)]] cl by (auto simp: comp_def)
  let ?total = "1 + 1 + ?k * ?per + 2 + (1 + length (der_len (length ?last)) + length ?last)"
  have lo: "length (cer_octets x) = ?total" unfolding x_def vs using lP by simp
  have ch: "(if is_bit then TLV_CER_MAX_SEGMENT_OCTETS - 1 else TLV_CER_MAX_SEGMENT_OCTETS) = ?c" by (simp add: segment_chunk_def)
  note ws = ok [unfolded write_segments_def Let_def tlv_cer_fields_def tlv_field_composition_t.select_convs option.sel W(2) prod.case ch lay llast
      W(1), folded tlv_cer_fields_def]
  have G: "?total \<le> cap" "?k + 2 \<le> cm_max_elements L" using ws by (auto simp: asn1_unlocated_def not_less split: if_splits)
  define ps q where ps: "ps = cer_forest ?P" and q: "q = cer_octets ?Q"
  have "length q = 1 + length (der_len (length ?last)) + length ?last" by (simp add: q)
  then have room: "2 + length ps + length q + 2 \<le> length buf" using G(1) cap lP [folded ps] by linarith
  let ?b0 = "blit 0 [b OR 0x20, 0x80] buf"
  have b0: "blit 1 [0x80] (blit 0 [b OR 0x20] (blit 0 [b] buf)) = ?b0" using blit_constructed_tag room by simp
  have P: "segments_put tag 1 (length (der_len TLV_CER_MAX_SEGMENT_OCTETS)) ?u0 ?c ?k ?src (Some ?b0) 2 =
      Inr (drop (?k * ?c) ?src, Some (blit 2 ps ?b0), 2 + length ps)"
    using segments_put_eq [of "[b]" tag ?u0 ?c ?k ?src 2 ?b0, folded ps] t(1) cl B(1) room by simp
  let ?b1 = "blit 0 ([b OR 0x20, 0x80] @ ps) buf" and ?pos = "2 + length ps"
  have b1: "blit 2 ps ?b0 = ?b1" using blit_blit(1) [of 0 "[b OR 0x20, 0x80]" ps buf] room by (simp add: numeral_2_eq_2)
  have Q: "segment_put tag 1 (length ?last) (length (der_len (length ?last))) ?u1 (take (length ?src - ?k * ?c) (drop (?k * ?c) ?src)) (Some ?b1) ?pos =
      Inr (Some (blit ?pos q ?b1), ?pos + length q)"
    using segment_put_eq [of "[b]" tag ?last ?u1 "drop (?k * ?c) ?src" ?pos ?b1, folded q] t(1) last_le(1) room by simp
  let ?w = "[b OR 0x20, 0x80] @ ps @ q"
  have b2: "blit ?pos q ?b1 = blit 0 ?w buf"
    using blit_blit(1) [of 0 "[b OR 0x20, 0x80] @ ps" q buf] room by simp
  have lw: "?pos + length q = length ?w" by simp
  have b3: "blit (length ?w + 1) [0] (blit (length ?w) [0] (blit 0 ?w buf)) = blit 0 (?w @ [0, 0]) buf"
    using blit_blit(1) [of 0 ?w "[0]" buf] blit_blit(1) [of 0 "?w @ [0]" "[0]" buf] room by simp
  have "ob = Some (blit 0 (?w @ [0, 0]) buf) \<and> ow = Some ?total \<and> d = d0"
    using ws unfolding src t(2) t(1) obuf_blit_simps b0 nat_1_add_1 P sum.case prod.case b1 Q b2 lw b3
    by (auto simp: asn1_unlocated_def split: if_splits)
  moreover have "?w @ [0, 0] = cer_octets x" unfolding x_def vs ps q by simp
  ultimately show "ob = Some (blit 0 (cer_octets x) buf)" "ow = Some (length (cer_octets x))" "d = d0" using lo by simp_all
  show "length (cer_octets x) \<le> cap" using G(1) lo by simp
  have "sum_list (map cer_elements (map (CER_Primitive t) vs)) = length vs" for t vs by (induction vs) simp_all
  then show "cer_elements x \<le> cm_max_elements L" using G(2) S(5) by (simp add: x_def comp_def)
qed

text \<open>The tree that the writer encodes, for a content of type \<open>n\<close>.\<close>

definition string_tree :: "nat \<Rightarrow> u8 list \<Rightarrow> cer_tree" where
  "string_tree n xs =
     (if length xs \<le> TLV_CER_MAX_SEGMENT_OCTETS then CER_Primitive [of_nat n] xs
      else CER_Constructed [of_nat n OR 0x20] (map (CER_Primitive [of_nat n])
             (string_segments (ti_form (tlv_cer_type_info n) = TLV_CER_FORM_BIT_STRING) xs)))"

lemma string_tree_ok:
  assumes "ti_form (tlv_cer_type_info n) \<noteq> TLV_CER_FORM_PRIMITIVE_ONLY"
    "tlv_asn1_validate_universal_value n (Ptr 0 xs) (length xs) = TLV_OK" "length (cer_content (string_tree n xs)) \<le> m"
    "octets_universal [of_nat n] = Some n"
  shows "cer_tree_ok strict m (string_tree n xs)" "0 < k \<Longrightarrow> cer_fits k (string_tree n xs)"
  using assms segment_tag_octets [OF assms(1)] constructed_string_identifier [OF assms(1)]
    string_segments_ok [OF _ assms(2), of strict]
  by (auto simp: string_tree_def cer_value_ok_def not_le split: if_splits)

lemma write_segmented_string_OK:
  assumes wf: "element_wf \<lparr>elem_tag = tag, elem_value = \<lparr>val_data = content, val_size = len\<rparr>\<rparr>" and cap: "cap \<le> length buf"
    and ok: "write_segmented_string (Some buf) cap tag content len limits True d0 = (TLV_OK, ob, ow, d)"
  obtains n where "ti_form (tlv_cer_type_info n) \<noteq> TLV_CER_FORM_PRIMITIVE_ONLY" "tag_bytes tag = [of_nat n]"
    "octets_universal [of_nat n] = Some n"
    "tlv_asn1_validate_universal_value n (Ptr 0 (take len (bytes content))) len = TLV_OK" "length (take len (bytes content)) = len"
    "cer_elements (string_tree n (take len (bytes content))) \<le> cm_max_elements (cer_limits limits)"
    "cm_max_depth (cer_limits limits) \<le> TLV_CER_MAX_DEPTH" "length (cer_octets (string_tree n (take len (bytes content)))) \<le> cap"
    "ob = Some (blit 0 (cer_octets (string_tree n (take len (bytes content)))) buf)"
    "ow = Some (length (cer_octets (string_tree n (take len (bytes content)))))" "d = d0" "len \<le> cm_max_value_size (cer_limits limits)"
proof -
  let ?L = "cer_limits limits" and ?xs = "take len (bytes content)"
  have t: "tag_wf tag" "readable content len" "len \<le> TLV_SIZE_MAX" using wf
    by (auto simp: element_wf_def value_wf_def SIZE_MAX_def TLV_SIZE_MAX_def)
  have lx: "length ?xs = len" using t(2) by (simp add: readable_def)
  have G: "cm_max_depth ?L \<le> TLV_CER_MAX_DEPTH" "0 < cm_max_elements ?L" "fst (tlv_asn1_write_identifier tag None 0) = TLV_OK"
    "\<not> tlv_asn1_tag_is_constructed tag"
    using ok by (auto simp: write_segmented_string_def tlv_cer_fields_def asn1_unlocated_def Let_def not_less split: if_splits prod.splits)
  note T = cer_tag_written [OF t(1) G(3)] and F = cer_tag_facts [OF t(1) G(3)]
  have "\<exists>n. recognized_universal tag = Some n \<and> ti_form (tlv_cer_type_info n) \<noteq> TLV_CER_FORM_PRIMITIVE_ONLY \<and>
      tlv_asn1_validate_universal_value n content len = TLV_OK \<and> len \<le> cm_max_value_size ?L \<and>
      (if len \<le> TLV_CER_MAX_SEGMENT_OCTETS
       then cer_write_primitive (Some buf) cap tag (length (tag_bytes tag)) content len ?L d0
       else write_segments (Some buf) cap tag (length (tag_bytes tag)) (ti_form (tlv_cer_type_info n) = TLV_CER_FORM_BIT_STRING)
              content len ?L d0) = (TLV_OK, ob, ow, d)"
    using ok T(2)
    by (auto simp: write_segmented_string_def tlv_cer_fields_def asn1_unlocated_def asn1_fail_def Let_def split: if_splits option.splits)
  then obtain n where n: "recognized_universal tag = Some n" "ti_form (tlv_cer_type_info n) \<noteq> TLV_CER_FORM_PRIMITIVE_ONLY"
    "tlv_asn1_validate_universal_value n content len = TLV_OK"
    and m: "len \<le> cm_max_value_size ?L"
    and w: "(if len \<le> TLV_CER_MAX_SEGMENT_OCTETS
       then cer_write_primitive (Some buf) cap tag (length (tag_bytes tag)) content len ?L d0
       else write_segments (Some buf) cap tag (length (tag_bytes tag)) (ti_form (tlv_cer_type_info n) = TLV_CER_FORM_BIT_STRING)
              content len ?L d0) = (TLV_OK, ob, ow, d)" by blast
  have id: "tag_bytes tag = [of_nat n]" using string_identifier [OF T(1) _ _ n(2)] G(4) F(1,3) n(1) by simp
  have "same_octets content (Ptr 0 ?xs) len" using t(2) lx by (simp add: same_octets_def)
  then have v: "tlv_asn1_validate_universal_value n (Ptr 0 ?xs) len = TLV_OK" using universal_value_cong n(3) by metis
  have u: "octets_universal [of_nat n] = Some n" using F(3) n(1) id by simp
  show thesis
  proof (cases "len \<le> TLV_CER_MAX_SEGMENT_OCTETS")
    case True
    then have "tlv_write (Some buf) cap (Some tlv_format_cer) tag content len True = (TLV_OK, ob, ow)" "d = d0"
      using w by (auto simp: cer_write_primitive_def asn1_unlocated_def asn1_fail_def Let_def split: if_splits prod.splits)
    note W = cer_write_bytes [OF wf cap _ this(1)] this(2)
    have "string_tree n ?xs = CER_Primitive [of_nat n] ?xs" using True lx by (simp add: string_tree_def)
    then show thesis using that [OF n(2) id u v lx] W G F(1,2) id lx m by auto
  next
    case False
    have b: "take 1 (bytes (tag_data tag)) = [of_nat n]" "byte_at (tag_data tag) 0 = of_nat n"
      using T(3) id occurs_at_Cons [of "of_nat n" "[]" "tag_data tag" 0] by (simp_all add: occurs_at_def)
    have "write_segments (Some buf) cap tag 1 (ti_form (tlv_cer_type_info n) = TLV_CER_FORM_BIT_STRING) content len ?L d0 =
        (TLV_OK, ob, ow, d)" using w False id by simp
    note W = write_segments_OK [OF b t(2) _ t(3) cap this]
    have "string_tree n ?xs = CER_Constructed [of_nat n OR 0x20] (map (CER_Primitive [of_nat n])
        (string_segments (ti_form (tlv_cer_type_info n) = TLV_CER_FORM_BIT_STRING) ?xs))" using False lx by (simp add: string_tree_def)
    then show thesis using that [OF n(2) id u v lx] W False G m by (simp add: not_le)
  qed
qed

end
