(* ===== verification/TLV_CER_Properties.thy ===== *)
theory TLV_CER_Properties
  imports TLV_CER_Segments TLV_ASN1_Properties "HOL-Library.Code_Target_Nat"
begin

text \<open>
  The properties of the validation of CER: what is accepted, what is written, and the segments of long strings.
\<close>

section \<open>Validation\<close>

text \<open>
  C5: Validation of CER is exact.  With a visitor that never stops (or with none), \<^verbatim>\<open>tlv_cer_visit\<close> and its strict variant
  accept an input exactly when it is the encoding of a forest of well-formed CER trees (primitive elements of minimal
  definite length, constructed ones of indefinite length with their end-of-contents octets, string types segmented by
  thousands where they are longer, in strict mode canonical contents) that keeps the limits on input size, value sizes,
  nesting and number of elements; the visitor has then seen every element, a constructed one after its children, with
  its depth and offset.

  This is what the code does, and it differs from \<^verbatim>\<open>cer_validation.h\<close> in two points.  The value of a segmented string that is
  compared with the limit on values is everything between the length octet and the end-of-contents octets, the identifiers and
  lengths of the segments included (\<open>cer_tree_ok\<close>), although the header and \<^verbatim>\<open>docs/standards/cer/README.md\<close> say that framing does
  not count; the writer of segmented strings below shows the effect.  And strict mode only looks at the contents of universal types with numbers up to
  36 (\<open>cer_value_ok\<close>): it accepts others with any contents, although the header documents \<^verbatim>\<open>TLV_ERR_UNSUPPORTED\<close> for a
  universal type without a canonical rule; see \<open>cer_strict_unknown_universal\<close> below.
\<close>

theorem cer_visit_exact:
  assumes "(visit, strict) \<in> {(tlv_cer_visit, False), (tlv_cer_visit_strict, True)}"
    and "readable p n" "n \<le> TLV_SIZE_MAX" "never_stops visitor"
  shows "visit p n limits visitor c0 d0 = Some (TLV_OK, c, d) \<longleftrightarrow>
    cm_max_depth (cer_limits limits) \<le> TLV_CER_MAX_DEPTH \<and> n \<le> cm_max_input_size (cer_limits limits) \<and>
    (\<exists>ts. take n (bytes p) = cer_forest ts \<and>
       (\<forall>x \<in> set ts. cer_tree_ok strict (cm_max_value_size (cer_limits limits)) x \<and> cer_fits (cm_max_depth (cer_limits limits)) x) \<and>
       sum_list (map cer_elements ts) \<le> cm_max_elements (cer_limits limits) \<and>
       c = der_run visitor (cer_events p 0 0 0 ts) c0) \<and> d = d0"
  using assms cer_visit_impl_iff [OF assms(2-4)]
  by (auto simp: tlv_cer_visit_def tlv_cer_visit_strict_def cer_root_ok_def)

theorem cer_visit_exact_witness:
  "\<exists>ts. [0x30, 0x80, 0x02, 0x01, 0x05, 0x00, 0x00] = cer_forest ts \<and> sum_list (map cer_elements ts) \<le> 100000 \<and>
     [(1, 2), (0, 0)] =
       der_run (Some offsets_visitor) (cer_events (Ptr 0 [0x30, 0x80, 0x02, 0x01, 0x05, 0x00, 0x00]) 0 0 0 ts) []"
proof -
  let ?p = "Ptr 0 [0x30, 0x80, 0x02, 0x01, 0x05, 0x00, 0x00]"
  have run: "tlv_cer_visit ?p 7 None (Some offsets_visitor) [] None = Some (TLV_OK, [(1, 2), (0, 0)], None)" by code_simp
  have s: "(tlv_cer_visit, False) \<in> {(tlv_cer_visit, False), (tlv_cer_visit_strict, True)}" by simp
  have v: "never_stops (Some offsets_visitor)" by (simp add: never_stops_def offsets_visitor_def)
  have "readable ?p 7" "7 \<le> TLV_SIZE_MAX" by (simp_all add: TLV_SIZE_MAX_def)
  from cer_visit_exact [OF s this v, of None "[]" None "[(1, 2), (0, 0)]" None] run show ?thesis
    by (auto simp: cer_limits_def tlv_cer_default_limits_def)
qed

text \<open>
  Strict mode accepts universal types that have no canonical rule: the number 37 with any contents, primitive or constructed, and
  EXTERNAL, which is always constructed.
\<close>

lemma cer_strict_unknown_universal:
  "map_option fst (tlv_cer_visit_strict (Ptr 0 [0x1F, 0x25, 0x02, 0xFF, 0xFF]) 5 None None () None) = Some TLV_OK \<and>
   map_option fst (tlv_cer_visit_strict (Ptr 0 [0x3F, 0x25, 0x80, 0x00, 0x00]) 5 None None () None) = Some TLV_OK \<and>
   map_option fst (tlv_cer_visit_strict (Ptr 0 [0x28, 0x80, 0x00, 0x00]) 4 None None () None) = Some TLV_OK"
  by code_simp

text \<open>
  Whatever the visitor does and whatever the input is, \<^verbatim>\<open>tlv_cer_visit\<close> and its strict variant return, and they never write
  behind their fixed stack of levels.
\<close>

lemma cer_visit_returns:
  assumes "visit \<in> {tlv_cer_visit, tlv_cer_visit_strict}" and "readable p n" "n \<le> TLV_SIZE_MAX"
  shows "\<exists>rc c d. visit p n limits visitor c0 d0 = Some (rc, c, d)"
  using assms(1) cer_visit_impl_returns [OF assms(2,3), of limits visitor c0 _ d0]
  by (auto simp: tlv_cer_visit_def tlv_cer_visit_strict_def)

section \<open>Writing\<close>

text \<open>What reading finds in a buffer that starts with the encoding of a tree.\<close>

lemma cer_written_buffer:
  assumes "length (cer_octets x) \<le> length buf"
  defines "buf' \<equiv> blit 0 (cer_octets x) buf"
  shows "length buf' = length buf" "drop (length (cer_octets x)) buf' = drop (length (cer_octets x)) buf"
    "take (length (cer_octets x)) buf' = cer_octets x"
    "tag_bytes (elem_tag (cer_element_at (Ptr 0 buf') 0 x)) = cer_tag_of x"
    "value_bytes (elem_value (cer_element_at (Ptr 0 buf') 0 x)) = cer_content x"
proof -
  show "length buf' = length buf" "drop (length (cer_octets x)) buf' = drop (length (cer_octets x)) buf"
    and t: "take (length (cer_octets x)) buf' = cer_octets x" using assms(1) by (auto simp: blit_def buf'_def)
  then have "occurs_at (cer_octets x) (Ptr 0 buf') 0" by (simp add: occurs_at_def)
  from cer_element_at_content [OF this]
  show "tag_bytes (elem_tag (cer_element_at (Ptr 0 buf') 0 x)) = cer_tag_of x"
    "value_bytes (elem_value (cer_element_at (Ptr 0 buf') 0 x)) = cer_content x" .
qed

lemma cer_read_written:
  assumes rd: "(read, strict) \<in> {(tlv_cer_read, False), (tlv_cer_read_strict, True)}"
    and x: "cer_root_ok strict (cer_limits limits) x" "cer_elements x \<le> cm_max_elements (cer_limits limits)"
      "cm_max_depth (cer_limits limits) \<le> TLV_CER_MAX_DEPTH" "length (cer_octets x) \<le> length buf" "length buf \<le> TLV_SIZE_MAX"
  defines "buf' \<equiv> blit 0 (cer_octets x) buf"
  shows "\<forall>m. length (cer_octets x) \<le> m \<longrightarrow> m \<le> length buf' \<longrightarrow> m \<le> cm_max_input_size (cer_limits limits) \<longrightarrow>
       read (Ptr 0 buf') m limits True d0 = Some (TLV_OK, Some (cer_element_at (Ptr 0 buf') 0 x, length (cer_octets x)), d0)"
proof -
  note b = cer_written_buffer [OF x(4), folded buf'_def]
  have "cer_read_impl (Ptr 0 buf') m limits True strict d0 =
      Some (TLV_OK, Some (cer_element_at (Ptr 0 buf') 0 x, length (cer_octets x)), d0)"
    if "length (cer_octets x) \<le> m" "m \<le> length buf'" "m \<le> cm_max_input_size (cer_limits limits)" for m
    using that x b(1,3) by (subst cer_read_impl_iff) auto
  then show ?thesis using rd by (auto simp: tlv_cer_read_def tlv_cer_read_strict_def)
qed

lemma cer_read_beyond_limits:
  assumes rd: "(read, strict) \<in> {(tlv_cer_read, False), (tlv_cer_read_strict, True)}"
    and x: "cer_tree_ok strict k x" "cer_fits TLV_CER_MAX_DEPTH x" "lead_constructed (cer_tag_of x)"
      "length (cer_octets x) \<le> length buf" "length buf \<le> TLV_SIZE_MAX"
    and L: "\<not> (1 \<le> cm_max_depth (cer_limits limits) \<and> length (cer_content x) \<le> cm_max_value_size (cer_limits limits))"
    and m: "length (cer_octets x) \<le> m" "m \<le> length buf"
  shows "\<exists>rc r d. read (Ptr 0 (blit 0 (cer_octets x) buf)) m limits True d0 = Some (rc, r, d) \<and> rc \<noteq> TLV_OK"
proof -
  let ?p = "Ptr 0 (blit 0 (cer_octets x) buf)"
  note b = cer_written_buffer [OF x(4)]
  have p: "readable ?p m" "m \<le> TLV_SIZE_MAX" using m b(1) x(5) by simp_all
  obtain rc r d where read: "cer_read_impl ?p m limits True strict d0 = Some (rc, r, d)"
    using cer_read_impl_returns [OF p] by (metis prod_cases3)
  have "rc \<noteq> TLV_OK"
  proof
    assume "rc = TLV_OK"
    then show False using cer_read_within_limits [OF p x(1,2) _ m(1), of limits d0 r d] read b(3) x(3) L by simp
  qed
  then show ?thesis using read rd by (auto simp: tlv_cer_read_def tlv_cer_read_strict_def)
qed

text \<open>
  C24: What \<^verbatim>\<open>tlv_cer_write\<close> or its strict variant accepts and writes is read back by \<^verbatim>\<open>tlv_cer_read\<close> under the same limits, whatever
  follows in the buffer: the same identifier, the same value, as many octets as were written, and the nested
  elements pass validation again.  For a constructed element the caller must supply what the code does not check: a type
  that has a constructed form, a depth limit of at least one, and a value within the limit on values.
\<close>

theorem cer_write_read:
  assumes rw: "(write, read, strict) \<in> {(tlv_cer_write, tlv_cer_read, False), (tlv_cer_write_strict, tlv_cer_read_strict, True)}"
    and wf: "element_wf \<lparr>elem_tag = tag, elem_value = \<lparr>val_data = val, val_size = len\<rparr>\<rparr>" "cap \<le> length buf" "length buf \<le> TLV_SIZE_MAX"
    and own: "tlv_asn1_tag_is_constructed tag \<Longrightarrow> cer_constructible (tag_bytes tag) \<and> 1 \<le> cm_max_depth (cer_limits limits) \<and>
      len \<le> cm_max_value_size (cer_limits limits)"
    and ok: "write (Some buf) cap tag val len limits True d0 = Some (TLV_OK, ob, ow, d)"
  shows "\<exists>buf' w el. ob = Some buf' \<and> ow = Some w \<and> w \<le> cap \<and> length buf' = length buf \<and> drop w buf' = drop w buf \<and>
    tag_bytes (elem_tag el) = tag_bytes tag \<and> value_bytes (elem_value el) = take len (bytes val) \<and>
    (\<forall>m. w \<le> m \<longrightarrow> m \<le> length buf' \<longrightarrow> m \<le> cm_max_input_size (cer_limits limits) \<longrightarrow>
       read (Ptr 0 buf') m limits True d0 = Some (TLV_OK, Some (el, w), d0))"
proof -
  have rd: "(read, strict) \<in> {(tlv_cer_read, False), (tlv_cer_read_strict, True)}" using rw by auto
  obtain d' where "cer_write_impl (Some buf) cap tag val len limits strict True d0 = Some (TLV_OK, ob, ow, d')"
    using rw ok by (auto simp: tlv_cer_write_def tlv_cer_write_strict_def)
  from wf(1,2) own this obtain x where x: "cer_tag_of x = tag_bytes tag" "cer_content x = take len (bytes val)"
    "cer_root_ok strict (cer_limits limits) x" "cer_elements x \<le> cm_max_elements (cer_limits limits)"
    "cm_max_depth (cer_limits limits) \<le> TLV_CER_MAX_DEPTH"
    "length (cer_octets x) \<le> cap" "ob = Some (blit 0 (cer_octets x) buf)" "ow = Some (length (cer_octets x))"
    by (rule cer_write_impl_OK)
  have "length (cer_octets x) \<le> length buf" using x(6) wf(2) by simp
  note R = cer_written_buffer [OF this] cer_read_written [OF rd x(3-5) this wf(3)]
  show ?thesis using x R by (intro exI [of _ "blit 0 (cer_octets x) buf"] exI [of _ "length (cer_octets x)"] exI) auto
qed

theorem cer_write_read_witness:
  "\<exists>buf' el. tlv_cer_write (Some (replicate 9 9)) 9 (tlv_tag (Ptr 0 [0x30]) 1) (Ptr 0 [0x02, 0x01, 0x05]) 3 None True None =
      Some (TLV_OK, Some buf', Some 7, None) \<and> drop 7 buf' = [9, 9] \<and>
    tlv_cer_read (Ptr 0 buf') 9 None True None = Some (TLV_OK, Some (el, 7), None) \<and>
    value_bytes (elem_value el) = [0x02, 0x01, 0x05]"
proof -
  let ?tag = "tlv_tag (Ptr 0 [0x30]) 1" and ?buf = "[0x30, 0x80, 0x02, 0x01, 0x05, 0, 0, 9, 9]"
  have run: "tlv_cer_write (Some (replicate 9 9)) 9 ?tag (Ptr 0 [0x02, 0x01, 0x05]) 3 None True None =
      Some (TLV_OK, Some ?buf, Some 7, None)" by code_simp
  have rw: "(tlv_cer_write, tlv_cer_read, False) \<in> {(tlv_cer_write, tlv_cer_read, False), (tlv_cer_write_strict, tlv_cer_read_strict, True)}"
    by simp
  have wf: "element_wf \<lparr>elem_tag = ?tag, elem_value = \<lparr>val_data = Ptr 0 [0x02, 0x01, 0x05], val_size = 3\<rparr>\<rparr>"
    by (simp add: element_wf_def tag_wf_def value_wf_def tlv_tag_def SIZE_MAX_def)
  have "9 \<le> length (replicate 9 (9 :: u8))" "length (replicate 9 (9 :: u8)) \<le> TLV_SIZE_MAX" by (simp_all add: TLV_SIZE_MAX_def)
  moreover have "octets_universal (tag_bytes ?tag) = Some 16 \<and> tlv_asn1_number_must_construct 16 \<and> lead_constructed (tag_bytes ?tag)" by code_simp
  then have "cer_constructible (tag_bytes ?tag) \<and> 1 \<le> cm_max_depth (cer_limits None) \<and> 3 \<le> cm_max_value_size (cer_limits None)"
    by (simp add: cer_constructible_def cer_limits_def tlv_cer_default_limits_def)
  ultimately obtain el where
    "value_bytes (elem_value el) = take 3 [0x02, 0x01, 0x05]"
    "tlv_cer_read (Ptr 0 ?buf) 9 None True None = Some (TLV_OK, Some (el, 7), None)"
    using cer_write_read [OF rw wf _ _ _ run] by (auto simp: cer_limits_def tlv_cer_default_limits_def)
  with run show ?thesis by auto
qed

text \<open>
  What goes wrong without those conditions: a constructed BOOLEAN is written and cannot be read; a constructed
  element is written under a depth limit of zero, under which it cannot be read.
\<close>

lemma cer_write_unreadable:
  "map_option fst (tlv_cer_write (Some (replicate 9 9)) 9 (tlv_tag (Ptr 0 [0x21]) 1) (Ptr 0 [0x05, 0x00]) 2 None True None) = Some TLV_OK \<and>
   map_option fst (tlv_cer_read (Ptr 0 [0x21, 0x80, 0x05, 0x00, 0x00, 0x00]) 6 None True None) = Some TLV_ERR_INVALID_LENGTH"
  by code_simp

lemma cer_write_depth_unchecked:
  "map_option fst (tlv_cer_write (Some (replicate 9 9)) 9 (tlv_tag (Ptr 0 [0x30]) 1) (Ptr 0 [0x05, 0x00]) 2
     (Some (tlv_cer_default_limits\<lparr>cm_max_depth := 0\<rparr>)) True None) = Some TLV_OK \<and>
   map_option fst (tlv_cer_read (Ptr 0 [0x30, 0x80, 0x05, 0x00, 0x00, 0x00]) 6
     (Some (tlv_cer_default_limits\<lparr>cm_max_depth := 0\<rparr>)) True None) = Some TLV_ERR_LIMIT"
  by code_simp

section \<open>The depth limit of the writer\<close>

text \<open>A constructed SEQUENCE is opened at every level, when the depth limit is below the depth the traversal starts with.\<close>

lemma cer_step_nested:
  fixes a :: "'c cer_args"
  assumes a: "ca_depth a = 1" "cm_max_depth (ca_limits a) = 0" "readable (ca_data a) (ca_size a)" "ca_size a \<le> TLV_SIZE_MAX"
    and p: "occurs_at [0x30, 0x80] (ca_data a) (cs_pos st)" "cs_pos st + 1 < ca_size a"
    and st: "cs_count st < cm_max_elements (ca_limits a)" "parent_segments (cs_levels st) (cs_outer st) = None"
  shows "cer_step a st = (if length (cs_levels st) \<ge> TLV_CER_MAX_DEPTH then Inl None
    else Inr (st\<lparr>cs_count := cs_count st + 1, cs_pos := cs_pos st + 2, cs_levels := \<lparr>cl_tag = tlv_tag (ptr_add (ca_data a) (cs_pos st)) 1,
      cl_tag_offset = cs_pos st, cl_length_offset = cs_pos st + 1, cl_content_start = cs_pos st + 2, cl_segmentable = False,
      cl_segment_state = segment_state0\<rparr> # cs_levels st\<rparr>))"
proof -
  let ?t = "[0x30] :: u8 list" and ?tag = "tlv_tag (ptr_add (ca_data a) (cs_pos st)) 1"
  have "occurs_at (?t @ [0x80]) (ca_data a) (cs_pos st)" using p(1) by simp
  then have o: "occurs_at ?t (ca_data a) (cs_pos st)" "occurs_at [0x80] (ca_data a) (cs_pos st + 1)"
    unfolding occurs_at_append by simp_all
  have t: "cer_tag_octets ?t \<and> octets_universal ?t = Some 16 \<and> octets_segmentable ?t = None \<and> lead_constructed ?t \<and>
    tlv_asn1_number_must_construct 16" by code_simp
  have ok: "readable (ca_data a) (cs_pos st + 1)" using a(3) p(2) by (simp add: readable_def)
  have rd: "tlv_asn1_read_identifier (ptr_add (ca_data a) (cs_pos st)) (ca_size a - cs_pos st) = (TLV_OK, Some ?tag, Some 1)"
    using asn1_octets.octets_at(1) [of ?t "ca_data a" "cs_pos st" "ca_size a"] t o(1) a(3) p(2) by (simp add: cer_tag_octets_def)
  have b: "byte_at (ca_data a) (cs_pos st) = 0x30" "byte_at (ca_data a) (cs_pos st + 1) = 0x80"
    using o by (auto dest: occurs_at_Cons)
  have tag: "recognized_universal ?tag = Some 16" "segmentable_number ?tag = None" "tlv_asn1_tag_is_constructed ?tag"
    using recognized_universal_at [OF _ o(1)] segmentable_at [OF _ o(1)] der_constructed_at [OF o(1)] t by simp_all
  show ?thesis
    using a st p(2) b rd tag t by (simp add: cer_step_def cer_open_def tlv_cer_fields_def Let_def)
qed

lemma cer_loop_nested:
  assumes a: "ca_depth a = 1" "cm_max_depth (ca_limits a) = 0" "readable (ca_data a) (ca_size a)" "ca_size a \<le> TLV_SIZE_MAX"
    "130 \<le> ca_size a" "\<forall>j \<le> 64. occurs_at [0x30, 0x80] (ca_data a) (2 * j)" "66 \<le> cm_max_elements (ca_limits a)"
  shows "length (cs_levels st) + m = 64 \<Longrightarrow> cs_pos st = 2 * length (cs_levels st) \<Longrightarrow> cs_count st = 1 + length (cs_levels st) \<Longrightarrow>
    parent_segments (cs_levels st) (cs_outer st) = None \<Longrightarrow> cer_loop a st = None"
proof (induction m arbitrary: st)
  case 0
  then have "cer_step a st = Inl None"
    using cer_step_nested [OF a(1-4), of st] a(5,7) a(6) [rule_format, of 64] by (simp add: TLV_CER_MAX_DEPTH_def)
  then show ?case by (subst cer_loop.simps) simp
next
  case (Suc m)
  obtain st' where st': "cer_step a st = Inr st'" "length (cs_levels st') = length (cs_levels st) + 1"
    "cs_pos st' = 2 * length (cs_levels st')" "cs_count st' = 1 + length (cs_levels st')"
    "parent_segments (cs_levels st') (cs_outer st') = None"
    using cer_step_nested [OF a(1-4), of st] a(5-7) Suc.prems by (simp add: TLV_CER_MAX_DEPTH_def parent_segments_def)
  then have "cer_loop a st' = None" using Suc.prems(1) by (intro Suc.IH) simp_all
  then show ?case using st'(1) by (subst cer_loop.simps) simp
qed

text \<open>
  C25: With a depth limit of zero, \<^verbatim>\<open>tlv_cer_write\<close> and its strict variant overrun the fixed stack of the traversal.  The traversal of
  the value starts at depth one and only compares the depth with the limit for equality, so the limit is never
  met; a value that opens 65 SEQUENCEs, one inside the other, makes it write behind the last of its 64 levels
  (the value \<open>None\<close> of the model).
\<close>

theorem cer_write_overrun:
  assumes "write \<in> {tlv_cer_write, tlv_cer_write_strict}"
    and L: "cm_max_depth L = 0" "66 \<le> cm_max_elements L" "n + 4 \<le> cm_max_input_size L"
    and v: "readable p n" "130 \<le> n" "n + 4 \<le> SIZE_MAX" "take 130 (bytes p) = concat (replicate 65 [0x30, 0x80])"
  shows "write (Some buf) cap (tlv_tag (Ptr 0 [0x30]) 1) p n (Some L) True d0 = None"
proof -
  let ?tag = "tlv_tag (Ptr 0 [0x30]) 1"
  have t: "tlv_asn1_write_identifier ?tag None 0 = (TLV_OK, None, Some 1) \<and> tlv_asn1_tag_is_constructed ?tag \<and>
    segmentable_number ?tag = None" by code_simp
  have nested: "occurs_at (concat (replicate k [0x30, 0x80])) q pos \<Longrightarrow> j < k \<Longrightarrow> occurs_at [0x30, 0x80] q (pos + 2 * j)"
    for k j pos and q :: ptr
  proof (induction k arbitrary: j pos)
    case (Suc k)
    then have "occurs_at [0x30, 0x80] q pos" "occurs_at (concat (replicate k [0x30, 0x80])) q (pos + 2)"
      using occurs_at_append [of "[0x30, 0x80]" "concat (replicate k [0x30, 0x80])" q pos] by simp_all
    then show ?case using Suc.IH [of "pos + 2" "j - 1"] Suc.prems(2) by (cases j) (simp_all add: add.assoc)
  qed simp
  have "length (concat (replicate 65 [0x30, 0x80 :: u8])) = 130" by (simp add: length_concat sum_list_replicate)
  then have "occurs_at (concat (replicate 65 [0x30, 0x80])) p 0" using v(4) by (simp only: occurs_at_def) simp
  from nested [OF this] have o: "\<forall>j \<le> 64. occurs_at [0x30, 0x80] p (2 * j)" by simp
  have "cer_write_impl (Some buf) cap ?tag p n (Some L) strict True d0 = None" for strict
  proof -
    let ?a = "\<lparr>ca_data = p, ca_size = n, ca_base = 2, ca_depth = 1, ca_limits = L, ca_visitor = None, ca_one = False,
      ca_strict = strict\<rparr> :: unit cer_args"
    have "n \<le> TLV_SIZE_MAX" using v(3) by (simp add: SIZE_MAX_def TLV_SIZE_MAX_def)
    then have "cer_traverse ?a 1 None () d0 = None"
      unfolding cer_traverse_def using L v(1,2) o by (intro cer_loop_nested [where m = 64]) (simp_all add: parent_segments_def)
    moreover have "p \<noteq> Null" using v(1,2) by (auto simp: readable_def)
    moreover have "\<not> SIZE_MAX - 4 < n" using v(3) by simp
    ultimately show ?thesis using t L by (simp add: cer_write_impl_def cer_limits_def tlv_cer_fields_def numeral_2_eq_2 Let_def)
  qed
  then show ?thesis using assms(1) by (auto simp: tlv_cer_write_def tlv_cer_write_strict_def)
qed

theorem cer_write_overrun_witness:
  "tlv_cer_write (Some []) 0 (tlv_tag (Ptr 0 [0x30]) 1) (Ptr 0 (concat (replicate 65 [0x30, 0x80]))) 130
     (Some (tlv_cer_default_limits\<lparr>cm_max_depth := 0\<rparr>)) True None = None"
proof -
  have l: "length (concat (replicate 65 [0x30, 0x80 :: u8])) = 130" by (simp add: length_concat sum_list_replicate)
  have L: "cm_max_depth (tlv_cer_default_limits\<lparr>cm_max_depth := 0\<rparr>) = 0" "66 \<le> cm_max_elements (tlv_cer_default_limits\<lparr>cm_max_depth := 0\<rparr>)"
    "130 + 4 \<le> cm_max_input_size (tlv_cer_default_limits\<lparr>cm_max_depth := 0\<rparr>)" by (simp_all add: tlv_cer_default_limits_def)
  have "tlv_cer_write \<in> {tlv_cer_write, tlv_cer_write_strict}" by simp
  from cer_write_overrun [OF this L, of "Ptr 0 (concat (replicate 65 [0x30, 0x80]))"] l show ?thesis by (simp add: readable_def SIZE_MAX_def)
qed

section \<open>Strings in segments\<close>

lemma bit_string_identifier:
  assumes "ti_form (tlv_cer_type_info n) \<noteq> TLV_CER_FORM_PRIMITIVE_ONLY"
  shows "(of_nat n :: u8) = 3 \<longleftrightarrow> ti_form (tlv_cer_type_info n) = TLV_CER_FORM_BIT_STRING"
proof -
  have "n \<in> {3, 4, 12, 7, 18, 19, 20, 21, 22, 25, 26, 27, 28, 30}"
    using assms by (auto simp: tlv_cer_type_info_def Let_def split: if_splits)
  then show ?thesis by (simp only: insert_iff empty_iff) (elim disjE; simp add: tlv_cer_type_info_def)
qed

text \<open>
  C23: What \<^verbatim>\<open>tlv_cer_write_segmented_string\<close> writes under any limits is the canonical form of the string: a string of at most
  1000 octets is one primitive element; a longer one is a constructed element, whose value is a sequence of primitive
  segments of the same type, all but the last with exactly 1000 octets, that join to the string again (for a BIT
  STRING, behind the octet of unused bits of each segment).  Reading it under the same limits, strictly or not, gives back
  that element if it is primitive, or if the depth limit is at least one and the limit on values covers the value together
  with the framing of its segments.  In every other case reading fails: the writer compares only the logical content
  with the limit on values and does not look at the depth, whereas the reader counts the framing, although
  \<^verbatim>\<open>cer_validation.h\<close> documents that the limit bounds a segmented value's logical content.
\<close>

theorem cer_segmented_roundtrip:
  assumes rd: "read \<in> {tlv_cer_read, tlv_cer_read_strict}"
    and wf: "element_wf \<lparr>elem_tag = tag, elem_value = \<lparr>val_data = content, val_size = len\<rparr>\<rparr>" "cap \<le> length buf" "length buf \<le> TLV_SIZE_MAX"
    and ok: "tlv_cer_write_segmented_string (Some buf) cap tag content len limits True d0 = (TLV_OK, ob, ow, d)"
  shows "\<exists>buf' w el vs. ob = Some buf' \<and> ow = Some w \<and> w \<le> cap \<and> length buf' = length buf \<and> drop w buf' = drop w buf \<and>
    (if len \<le> TLV_CER_MAX_SEGMENT_OCTETS
     then tag_bytes (elem_tag el) = tag_bytes tag \<and> value_bytes (elem_value el) = take len (bytes content)
     else tag_bytes (elem_tag el) = [hd (tag_bytes tag) OR 0x20] \<and>
       value_bytes (elem_value el) = cer_forest (map (CER_Primitive (tag_bytes tag)) vs) \<and>
       segments_content (tag_bytes tag = [3]) vs = take len (bytes content) \<and>
       (\<forall>v \<in> set (butlast vs). length v = TLV_CER_MAX_SEGMENT_OCTETS) \<and> length (last vs) \<le> TLV_CER_MAX_SEGMENT_OCTETS) \<and>
    (\<forall>m. w \<le> m \<longrightarrow> m \<le> length buf' \<longrightarrow> m \<le> cm_max_input_size (cer_limits limits) \<longrightarrow>
       (if len \<le> TLV_CER_MAX_SEGMENT_OCTETS \<or>
           1 \<le> cm_max_depth (cer_limits limits) \<and> length (value_bytes (elem_value el)) \<le> cm_max_value_size (cer_limits limits)
        then read (Ptr 0 buf') m limits True d0 = Some (TLV_OK, Some (el, w), d0)
        else \<exists>rc r d'. read (Ptr 0 buf') m limits True d0 = Some (rc, r, d') \<and> rc \<noteq> TLV_OK))"
proof -
  obtain strict where rd': "(read, strict) \<in> {(tlv_cer_read, False), (tlv_cer_read_strict, True)}" using rd by auto
  let ?xs = "take len (bytes content)"
  obtain d' where "write_segmented_string (Some buf) cap tag content len limits True d0 = (TLV_OK, ob, ow, d')"
    using ok by (auto simp: tlv_cer_write_segmented_string_def split: prod.splits)
  from wf(1,2) this obtain n where n: "ti_form (tlv_cer_type_info n) \<noteq> TLV_CER_FORM_PRIMITIVE_ONLY" "tag_bytes tag = [of_nat n]"
    "octets_universal [of_nat n] = Some n" "tlv_asn1_validate_universal_value n (Ptr 0 ?xs) len = TLV_OK" "length ?xs = len"
    and x: "cer_elements (string_tree n ?xs) \<le> cm_max_elements (cer_limits limits)"
      "cm_max_depth (cer_limits limits) \<le> TLV_CER_MAX_DEPTH" "length (cer_octets (string_tree n ?xs)) \<le> cap"
    and r: "ob = Some (blit 0 (cer_octets (string_tree n ?xs)) buf)" "ow = Some (length (cer_octets (string_tree n ?xs)))"
    and m: "len \<le> cm_max_value_size (cer_limits limits)"
    by (rule write_segmented_string_OK)
  let ?x = "string_tree n ?xs" and ?bit = "ti_form (tlv_cer_type_info n) = TLV_CER_FORM_BIT_STRING"
  let ?vs = "string_segments ?bit ?xs"
  let ?L = "cer_limits limits" and ?w = "length (cer_octets ?x)" and ?b = "blit 0 (cer_octets ?x) buf"
  let ?el = "cer_element_at (Ptr 0 ?b) 0 ?x"
  have room: "?w \<le> length buf" using x(3) wf(2) by simp
  note B = cer_written_buffer [OF room] and T = string_tree_ok [OF n(1) _ _ n(3), of ?xs]
  have bit: "tag_bytes tag = [3] \<longleftrightarrow> ?bit" using bit_string_identifier [OF n(1)] n(2) by simp
  show ?thesis
  proof (cases "len \<le> TLV_CER_MAX_SEGMENT_OCTETS")
    case True
    then have e: "?x = CER_Primitive [of_nat n] ?xs" using n(5) by (simp add: string_tree_def)
    then have "cer_root_ok strict ?L ?x" using T(1) n(4,5) m by (simp add: cer_root_ok_def)
    note R = cer_read_written [OF rd' this x(1,2) room wf(3)]
    have "cer_tag_of ?x = tag_bytes tag" "cer_content ?x = ?xs" using e n(2) by simp_all
    then show ?thesis using True B R r x(3) by (intro exI [of _ ?b] exI [of _ ?w] exI [of _ ?el]) simp
  next
    case False
    then have big: "TLV_CER_MAX_SEGMENT_OCTETS < length ?xs" using n(5) by simp
    have e: "?x = CER_Constructed [of_nat n OR 0x20] (map (CER_Primitive [of_nat n]) ?vs)"
      using False n(5) by (simp add: string_tree_def)
    have S: "segments_content ?bit ?vs = ?xs" "\<forall>v \<in> set (butlast ?vs). length v = TLV_CER_MAX_SEGMENT_OCTETS"
      "length (last ?vs) \<le> TLV_CER_MAX_SEGMENT_OCTETS"
      using string_segments_content [OF big] string_segments_shape [OF big, of ?bit] by auto
    have c: "cer_tag_of ?x = [hd (tag_bytes tag) OR 0x20]" "cer_content ?x = cer_forest (map (CER_Primitive (tag_bytes tag)) ?vs)"
      using e n(2) by simp_all
    have ok: "cer_tree_ok strict (length (cer_content ?x)) ?x" "cer_fits TLV_CER_MAX_DEPTH ?x"
      using T(1) [of "length (cer_content ?x)" strict] T(2) [of "length (cer_content ?x)" TLV_CER_MAX_DEPTH] n(4,5) by (simp_all add: TLV_CER_MAX_DEPTH_def)
    then have lead: "lead_constructed (cer_tag_of ?x)" unfolding e by (simp add: cer_constructible_def)
    have R: "if 1 \<le> cm_max_depth ?L \<and> length (cer_content ?x) \<le> cm_max_value_size ?L
        then read (Ptr 0 ?b) k limits True d0 = Some (TLV_OK, Some (?el, ?w), d0)
        else \<exists>rc r d'. read (Ptr 0 ?b) k limits True d0 = Some (rc, r, d') \<and> rc \<noteq> TLV_OK"
      if k: "?w \<le> k" "k \<le> length ?b" "k \<le> cm_max_input_size ?L" for k
    proof (cases "1 \<le> cm_max_depth ?L \<and> length (cer_content ?x) \<le> cm_max_value_size ?L")
      case True
      then have "cer_root_ok strict ?L ?x" using T(1) n(4,5) T(2) [of "length (cer_content ?x)" "cm_max_depth ?L"] by (simp add: cer_root_ok_def)
      from cer_read_written [OF rd' this x(1,2) room wf(3)] show ?thesis using True k by simp
    next
      case False
      from cer_read_beyond_limits [OF rd' ok lead room wf(3) False k(1)] show ?thesis using False k(2) B(1) by auto
    qed
    show ?thesis
    proof (intro exI [of _ ?b] exI [of _ ?w] exI [of _ ?el] exI [of _ ?vs] conjI)
      show "if len \<le> TLV_CER_MAX_SEGMENT_OCTETS then tag_bytes (elem_tag ?el) = tag_bytes tag \<and> value_bytes (elem_value ?el) = ?xs
        else tag_bytes (elem_tag ?el) = [hd (tag_bytes tag) OR 0x20] \<and>
          value_bytes (elem_value ?el) = cer_forest (map (CER_Primitive (tag_bytes tag)) ?vs) \<and>
          segments_content (tag_bytes tag = [3]) ?vs = ?xs \<and>
          (\<forall>v \<in> set (butlast ?vs). length v = TLV_CER_MAX_SEGMENT_OCTETS) \<and> length (last ?vs) \<le> TLV_CER_MAX_SEGMENT_OCTETS"
        using False S B(4,5) c unfolding bit by simp
      show "\<forall>k. ?w \<le> k \<longrightarrow> k \<le> length ?b \<longrightarrow> k \<le> cm_max_input_size ?L \<longrightarrow>
        (if len \<le> TLV_CER_MAX_SEGMENT_OCTETS \<or> 1 \<le> cm_max_depth ?L \<and> length (value_bytes (elem_value ?el)) \<le> cm_max_value_size ?L
         then read (Ptr 0 ?b) k limits True d0 = Some (TLV_OK, Some (?el, ?w), d0)
         else \<exists>rc r d'. read (Ptr 0 ?b) k limits True d0 = Some (rc, r, d') \<and> rc \<noteq> TLV_OK)"
      proof (intro allI impI, goal_cases)
        case (1 k)
        have "(len \<le> TLV_CER_MAX_SEGMENT_OCTETS \<or> 1 \<le> cm_max_depth ?L \<and> length (value_bytes (elem_value ?el)) \<le> cm_max_value_size ?L) =
          (1 \<le> cm_max_depth ?L \<and> length (cer_content ?x) \<le> cm_max_value_size ?L)" using False B(5) by simp
        then show ?case using R [OF 1] by (simp only:)
      qed
    qed (use r x(3) B(1,2) in simp_all)
  qed
qed

theorem cer_segmented_roundtrip_witness:
  "\<exists>el. tlv_cer_write_segmented_string (Some (replicate 6 9)) 6 (tlv_tag (Ptr 0 [0x0C]) 1) (Ptr 0 [0x41, 0x42]) 2 None True None =
      (TLV_OK, Some [0x0C, 0x02, 0x41, 0x42, 9, 9], Some 4, None) \<and>
    tlv_cer_read_strict (Ptr 0 [0x0C, 0x02, 0x41, 0x42, 9, 9]) 6 None True None = Some (TLV_OK, Some (el, 4), None) \<and>
    value_bytes (elem_value el) = [0x41, 0x42]"
proof -
  let ?tag = "tlv_tag (Ptr 0 [0x0C]) 1" and ?buf = "[0x0C, 0x02, 0x41, 0x42, 9, 9]"
  have run: "tlv_cer_write_segmented_string (Some (replicate 6 9)) 6 ?tag (Ptr 0 [0x41, 0x42]) 2 None True None =
      (TLV_OK, Some ?buf, Some 4, None)" by code_simp
  have rd: "tlv_cer_read_strict \<in> {tlv_cer_read, tlv_cer_read_strict}" by simp
  have wf: "element_wf \<lparr>elem_tag = ?tag, elem_value = \<lparr>val_data = Ptr 0 [0x41, 0x42], val_size = 2\<rparr>\<rparr>"
    by (simp add: element_wf_def tag_wf_def value_wf_def tlv_tag_def SIZE_MAX_def)
  have b: "6 \<le> length (replicate 6 (9 :: u8))" "length (replicate 6 (9 :: u8)) \<le> TLV_SIZE_MAX" by (simp_all add: TLV_SIZE_MAX_def)
  from cer_segmented_roundtrip [OF rd wf b run] run show ?thesis
    by (auto simp: cer_limits_def tlv_cer_default_limits_def TLV_CER_MAX_SEGMENT_OCTETS_def)
qed

end
