(* ===== verification/TLV_Schema.thy ===== *)
theory TLV_Schema
  imports TLV_Diagnostic
begin

unbundle bit_operations_syntax

text \<open>
  Schemas: the field rules and structural tables of \<^verbatim>\<open>schema/schema.h\<close>, the checks of a schema definition
  (\<^verbatim>\<open>schema/schema.c\<close>), the constraints on decoded numbers (\<^verbatim>\<open>schema/constraint.c\<close>) and the details of a schema
  diagnostic (\<^verbatim>\<open>schema/diagnostic_internal.h\<close>).

  A structural table refers to the tables of the children by pointer, also in cycles, and the code compares those
  pointers.  A pointer to a table is therefore an address, and the tables are a memory from addresses to tables.
\<close>

section \<open>Field rules\<close>

record tlv_schema_entry_t =
  se_tag :: tlv_tag_t
  se_min_length :: nat
  se_max_length :: nat
  se_flags :: u32
  se_name :: "string option"
  se_length_multiple :: nat

definition TLV_SCHEMA_LENGTH_ENDPOINTS :: u32 where "TLV_SCHEMA_LENGTH_ENDPOINTS = 1"

record tlv_schema_t =
  sch_entries :: "tlv_schema_entry_t list option"
  sch_count :: nat

fun schema_scan :: "tlv_schema_entry_t list \<Rightarrow> tlv_tag_t \<Rightarrow> tlv_schema_entry_t option" where
  "schema_scan [] tag = None"
| "schema_scan (entry # rest) tag =
     (if tag_size (se_tag entry) \<noteq> 0 \<and> tag_data (se_tag entry) = Null then schema_scan rest tag
      else if tlv_tag_equal (se_tag entry) tag then Some entry
      else schema_scan rest tag)"

definition tlv_schema_find :: "tlv_schema_t option \<Rightarrow> tlv_tag_t option \<Rightarrow> tlv_schema_entry_t option" where
  "tlv_schema_find schema tag =
     (case (schema, tag) of
        (Some s, Some t) \<Rightarrow>
          if sch_entries s = None \<and> sch_count s \<noteq> 0 then None
          else if tag_size t \<noteq> 0 \<and> tag_data t = Null then None
          else schema_scan (take (sch_count s) (out (sch_entries s) [])) t
      | _ \<Rightarrow> None)"

definition tlv_schema_validate_length :: "tlv_schema_entry_t option \<Rightarrow> nat \<Rightarrow> tlv_result_t" where
  "tlv_schema_validate_length entry len =
     (case entry of None \<Rightarrow> TLV_ERR_NULL_ARG
      | Some e \<Rightarrow>
          if se_min_length e > se_max_length e then TLV_ERR_INVALID_SCHEMA
          else if len < se_min_length e \<or> len > se_max_length e \<or>
            (se_flags e AND TLV_SCHEMA_LENGTH_ENDPOINTS \<noteq> 0 \<and> len \<noteq> se_min_length e \<and> len \<noteq> se_max_length e) \<or>
            (se_length_multiple e \<noteq> 0 \<and> len mod se_length_multiple e \<noteq> 0)
          then TLV_ERR_SCHEMA
          else TLV_OK)"

section \<open>Structural tables\<close>

definition TLV_SCHEMA_MAX_DEPTH :: nat where "TLV_SCHEMA_MAX_DEPTH = 64"

definition TLV_SCHEMA_MAX_TABLES :: nat where "TLV_SCHEMA_MAX_TABLES = 256"

datatype tlv_schema_kind_t =
    TLV_SCHEMA_ANY | TLV_SCHEMA_PRIMITIVE | TLV_SCHEMA_CONSTRUCTED | TLV_SCHEMA_KIND_OTHER int

datatype tlv_schema_order_t = TLV_SCHEMA_ORDER_ANY | TLV_SCHEMA_ORDER_SEQUENCE | TLV_SCHEMA_ORDER_OTHER int

type_synonym table_addr = nat

record tlv_structure_rule_t =
  sr_entry :: "tlv_schema_entry_t option"
  sr_min_occurs :: nat
  sr_max_occurs :: nat
  sr_kind :: tlv_schema_kind_t
  sr_children :: "table_addr option"
  sr_group :: u32

record tlv_structure_group_t =
  sg_id :: u32
  sg_min_occurs :: nat
  sg_max_occurs :: nat
  sg_name :: "string option"

record tlv_structure_schema_t =
  tb_rules :: "tlv_structure_rule_t list option"
  tb_count :: nat
  tb_allow_unknown :: bool
  tb_groups :: "tlv_structure_group_t list option"
  tb_group_count :: nat
  tb_order :: tlv_schema_order_t

type_synonym tables = "table_addr \<Rightarrow> tlv_structure_schema_t"

text \<open>The rules and groups that the code iterates over.\<close>

definition table_rules :: "tlv_structure_schema_t \<Rightarrow> tlv_structure_rule_t list" where
  "table_rules table = take (tb_count table) (out (tb_rules table) [])"

definition table_groups :: "tlv_structure_schema_t \<Rightarrow> tlv_structure_group_t list" where
  "table_groups table = take (tb_group_count table) (out (tb_groups table) [])"

definition rule_tag :: "tlv_structure_rule_t \<Rightarrow> tlv_tag_t" where
  "rule_tag rule = se_tag (the (sr_entry rule))"

section \<open>Diagnostics\<close>

datatype tlv_schema_issue_kind_t =
    TLV_SCHEMA_ISSUE_NONE | TLV_SCHEMA_ISSUE_MISSING | TLV_SCHEMA_ISSUE_DUPLICATE | TLV_SCHEMA_ISSUE_UNEXPECTED
  | TLV_SCHEMA_ISSUE_KIND | TLV_SCHEMA_ISSUE_LENGTH | TLV_SCHEMA_ISSUE_ORDER | TLV_SCHEMA_ISSUE_ASSERTION
  | TLV_SCHEMA_ISSUE_VALUE | TLV_SCHEMA_ISSUE_DEFINITION | TLV_SCHEMA_ISSUE_OTHER int

fun tlv_schema_issue_kind_string :: "tlv_schema_issue_kind_t \<Rightarrow> string" where
  "tlv_schema_issue_kind_string TLV_SCHEMA_ISSUE_NONE = ''none''"
| "tlv_schema_issue_kind_string TLV_SCHEMA_ISSUE_VALUE = ''value''"
| "tlv_schema_issue_kind_string TLV_SCHEMA_ISSUE_DEFINITION = ''definition''"
| "tlv_schema_issue_kind_string TLV_SCHEMA_ISSUE_MISSING = ''missing''"
| "tlv_schema_issue_kind_string TLV_SCHEMA_ISSUE_DUPLICATE = ''duplicate''"
| "tlv_schema_issue_kind_string TLV_SCHEMA_ISSUE_UNEXPECTED = ''unexpected''"
| "tlv_schema_issue_kind_string TLV_SCHEMA_ISSUE_KIND = ''kind''"
| "tlv_schema_issue_kind_string TLV_SCHEMA_ISSUE_LENGTH = ''length''"
| "tlv_schema_issue_kind_string TLV_SCHEMA_ISSUE_ORDER = ''order''"
| "tlv_schema_issue_kind_string TLV_SCHEMA_ISSUE_ASSERTION = ''assertion''"
| "tlv_schema_issue_kind_string (TLV_SCHEMA_ISSUE_OTHER _) = ''unknown''"

datatype tlv_schema_definition_kind_t =
    TLV_SCHEMA_DEFINITION_UNKNOWN | TLV_SCHEMA_DEFINITION_TABLE | TLV_SCHEMA_DEFINITION_RULE
  | TLV_SCHEMA_DEFINITION_GROUP | TLV_SCHEMA_DEFINITION_TYPE | TLV_SCHEMA_DEFINITION_COMPONENT
  | TLV_SCHEMA_DEFINITION_OTHER int

fun tlv_schema_definition_kind_string :: "tlv_schema_definition_kind_t \<Rightarrow> string" where
  "tlv_schema_definition_kind_string TLV_SCHEMA_DEFINITION_UNKNOWN = ''unknown''"
| "tlv_schema_definition_kind_string TLV_SCHEMA_DEFINITION_TABLE = ''table''"
| "tlv_schema_definition_kind_string TLV_SCHEMA_DEFINITION_RULE = ''rule''"
| "tlv_schema_definition_kind_string TLV_SCHEMA_DEFINITION_GROUP = ''group''"
| "tlv_schema_definition_kind_string TLV_SCHEMA_DEFINITION_TYPE = ''type''"
| "tlv_schema_definition_kind_string TLV_SCHEMA_DEFINITION_COMPONENT = ''component''"
| "tlv_schema_definition_kind_string (TLV_SCHEMA_DEFINITION_OTHER _) = ''unknown''"

text \<open>The owner is the address of a table, or \<open>None\<close> for \<^verbatim>\<open>NULL\<close>.\<close>

record tlv_schema_definition_location_t =
  sdl_kind :: tlv_schema_definition_kind_t
  sdl_owner :: "table_addr option"
  sdl_index :: nat

record tlv_schema_diagnostic_t =
  sd_diagnostic :: tlv_diagnostic_t
  sd_kind :: tlv_schema_issue_kind_t
  sd_tag :: tlv_tag_t
  sd_definition :: tlv_schema_definition_location_t
  sd_field :: "string option"
  sd_is_group :: bool
  sd_has_occurs :: bool
  sd_min_occurs :: nat
  sd_max_occurs :: nat
  sd_occurs :: nat
  sd_has_length :: bool
  sd_min_length :: nat
  sd_max_length :: nat
  sd_actual_length :: nat
  sd_has_form :: bool
  sd_expected_form :: tlv_schema_kind_t
  sd_actual_constructed :: bool
  sd_length_multiple :: nat
  sd_length_flags :: u32

definition definition_location0 :: tlv_schema_definition_location_t where
  "definition_location0 = \<lparr>sdl_kind = TLV_SCHEMA_DEFINITION_UNKNOWN, sdl_owner = None, sdl_index = 0\<rparr>"

text \<open>All bytes zero: the first constructors of the enumerations.\<close>

definition tlv_schema_diagnostic_init :: tlv_schema_diagnostic_t where
  "tlv_schema_diagnostic_init =
     \<lparr>sd_diagnostic = tlv_diagnostic_init TLV_OK TLV_DIAGNOSTIC_SEVERITY_ERROR, sd_kind = TLV_SCHEMA_ISSUE_NONE,
      sd_tag = tlv_tag Null 0, sd_definition = definition_location0, sd_field = None, sd_is_group = False,
      sd_has_occurs = False, sd_min_occurs = 0, sd_max_occurs = 0, sd_occurs = 0, sd_has_length = False,
      sd_min_length = 0, sd_max_length = 0, sd_actual_length = 0, sd_has_form = False,
      sd_expected_form = TLV_SCHEMA_ANY, sd_actual_constructed = False, sd_length_multiple = 0, sd_length_flags = 0\<rparr>"

definition schema_issue_occurs ::
  "tlv_schema_diagnostic_t \<Rightarrow> tlv_structure_rule_t option \<Rightarrow> tlv_structure_group_t option \<Rightarrow> nat
     \<Rightarrow> tlv_schema_diagnostic_t" where
  "schema_issue_occurs diagnostic rule grp occurs =
     diagnostic\<lparr>sd_field := (case grp of Some g \<Rightarrow> sg_name g | None \<Rightarrow> se_name (the (sr_entry (the rule)))),
       sd_is_group := grp \<noteq> None, sd_has_occurs := True,
       sd_min_occurs := (case grp of Some g \<Rightarrow> sg_min_occurs g | None \<Rightarrow> sr_min_occurs (the rule)),
       sd_max_occurs := (case grp of Some g \<Rightarrow> sg_max_occurs g | None \<Rightarrow> sr_max_occurs (the rule)),
       sd_occurs := occurs\<rparr>"

definition schema_issue_length ::
  "tlv_schema_diagnostic_t \<Rightarrow> tlv_structure_rule_t \<Rightarrow> nat \<Rightarrow> tlv_schema_diagnostic_t" where
  "schema_issue_length diagnostic rule actual_length =
     (let e = the (sr_entry rule) in
      diagnostic\<lparr>sd_field := se_name e, sd_has_length := True, sd_min_length := se_min_length e,
        sd_max_length := se_max_length e, sd_actual_length := actual_length,
        sd_length_multiple := se_length_multiple e, sd_length_flags := se_flags e\<rparr>)"

definition schema_issue_form ::
  "tlv_schema_diagnostic_t \<Rightarrow> tlv_structure_rule_t \<Rightarrow> bool \<Rightarrow> tlv_schema_diagnostic_t" where
  "schema_issue_form diagnostic rule actual_constructed =
     diagnostic\<lparr>sd_field := se_name (the (sr_entry rule)), sd_has_form := True, sd_expected_form := sr_kind rule,
       sd_actual_constructed := actual_constructed\<rparr>"

text \<open>The code of a failure, as several functions store it at their end.\<close>

definition schema_fail_code :: "tlv_result_t \<Rightarrow> tlv_schema_diagnostic_t \<Rightarrow> tlv_schema_diagnostic_t" where
  "schema_fail_code rc diagnostic =
     diagnostic\<lparr>sd_diagnostic := (sd_diagnostic diagnostic)
       \<lparr>diag_code := rc, diag_severity := TLV_DIAGNOSTIC_SEVERITY_ERROR\<rparr>\<rparr>"

section \<open>Checking a definition\<close>

text \<open>The first position with a property: the loops that search a table.\<close>

fun first_index :: "('a \<Rightarrow> bool) \<Rightarrow> 'a list \<Rightarrow> nat option" where
  "first_index P [] = None"
| "first_index P (x # xs) = (if P x then Some 0 else map_option Suc (first_index P xs))"

definition group_index :: "tlv_structure_schema_t \<Rightarrow> u32 \<Rightarrow> nat option" where
  "group_index table gid = first_index (\<lambda>g. sg_id g = gid) (table_groups table)"

text \<open>What is wrong with a group or a rule, given the ones before it.\<close>

definition group_bad :: "tlv_structure_schema_t \<Rightarrow> tlv_structure_group_t list \<Rightarrow> tlv_structure_group_t \<Rightarrow> bool" where
  "group_bad table before grp \<longleftrightarrow>
     sg_id grp = 0 \<or> sg_min_occurs grp > sg_max_occurs grp \<or>
     list_ex (\<lambda>h. sg_id h = sg_id grp) before \<or>
     \<not> list_ex (\<lambda>rule. sr_group rule = sg_id grp) (table_rules table)"

definition rule_bad :: "tlv_structure_schema_t \<Rightarrow> tlv_structure_rule_t list \<Rightarrow> tlv_structure_rule_t \<Rightarrow> bool" where
  "rule_bad table before rule \<longleftrightarrow>
     (case sr_entry rule of None \<Rightarrow> True
      | Some e \<Rightarrow>
          tag_size (se_tag e) = 0 \<or> tag_data (se_tag e) = Null \<or> se_min_length e > se_max_length e \<or>
          sr_min_occurs rule > sr_max_occurs rule \<or>
          sr_kind rule \<notin> {TLV_SCHEMA_ANY, TLV_SCHEMA_PRIMITIVE, TLV_SCHEMA_CONSTRUCTED} \<or>
          (sr_children rule \<noteq> None \<and> sr_kind rule \<noteq> TLV_SCHEMA_CONSTRUCTED) \<or>
          (sr_group rule \<noteq> 0 \<and> group_index table (sr_group rule) = None) \<or>
          (sr_group rule \<noteq> 0 \<and> sr_min_occurs rule \<noteq> 0) \<or>
          list_ex (\<lambda>r. tlv_tag_equal (se_tag e) (rule_tag r)) before)"

fun first_bad :: "('a list \<Rightarrow> 'a \<Rightarrow> bool) \<Rightarrow> 'a list \<Rightarrow> 'a list \<Rightarrow> nat option" where
  "first_bad bad before [] = None"
| "first_bad bad before (x # xs) = (if bad before x then Some (length before) else first_bad bad (before @ [x]) xs)"

text \<open>The result and the place the code has looked at last.\<close>

definition check_table :: "tables \<Rightarrow> table_addr \<Rightarrow> tlv_result_t \<times> tlv_schema_definition_location_t" where
  "check_table mem schema =
     (let table = mem schema; at = (\<lambda>kind i. \<lparr>sdl_kind = kind, sdl_owner = Some schema, sdl_index = i\<rparr>);
          whole = at TLV_SCHEMA_DEFINITION_TABLE 0 in
      if tb_rules table = None \<and> tb_count table \<noteq> 0 then (TLV_ERR_INVALID_SCHEMA, whole)
      else if tb_groups table = None \<and> tb_group_count table \<noteq> 0 then (TLV_ERR_INVALID_SCHEMA, whole)
      else if tb_order table \<noteq> TLV_SCHEMA_ORDER_ANY \<and> tb_order table \<noteq> TLV_SCHEMA_ORDER_SEQUENCE
      then (TLV_ERR_INVALID_SCHEMA, whole)
      else case first_bad (group_bad table) [] (table_groups table) of
        Some g \<Rightarrow> (TLV_ERR_INVALID_SCHEMA, at TLV_SCHEMA_DEFINITION_GROUP g)
      | None \<Rightarrow>
          (case first_bad (rule_bad table) [] (table_rules table) of
             Some i \<Rightarrow> (TLV_ERR_INVALID_SCHEMA, at TLV_SCHEMA_DEFINITION_RULE i)
           | None \<Rightarrow>
               (TLV_OK,
                if table_rules table \<noteq> [] then at TLV_SCHEMA_DEFINITION_RULE (length (table_rules table) - 1)
                else if table_groups table \<noteq> [] then at TLV_SCHEMA_DEFINITION_GROUP (length (table_groups table) - 1)
                else whole)))"

text \<open>Enqueue the child tables of the rules; \<open>None\<close> when the queue is full.\<close>

fun enqueue_children :: "table_addr list \<Rightarrow> tlv_structure_rule_t list \<Rightarrow> table_addr list option" where
  "enqueue_children queue [] = Some queue"
| "enqueue_children queue (rule # rules) =
     (case sr_children rule of None \<Rightarrow> enqueue_children queue rules
      | Some child \<Rightarrow>
          if List.member queue child then enqueue_children queue rules
          else if length queue = TLV_SCHEMA_MAX_TABLES then None
          else enqueue_children (queue @ [child]) rules)"

partial_function (option) check_tables ::
  "tables \<Rightarrow> table_addr list \<Rightarrow> nat \<Rightarrow> tlv_schema_definition_location_t
     \<Rightarrow> (tlv_result_t \<times> tlv_schema_definition_location_t) option" where
  [code]: "check_tables mem queue i location =
     (if i < length queue then
        (case check_table mem (queue ! i) of
           (rc, location) \<Rightarrow>
             if rc \<noteq> TLV_OK then Some (rc, location)
             else case enqueue_children queue (table_rules (mem (queue ! i))) of
               None \<Rightarrow> Some (TLV_ERR_UNSUPPORTED, location)
             | Some queue \<Rightarrow> check_tables mem queue (i + 1) location)
      else Some (TLV_OK, location))"

definition tlv_schema_check ::
  "tables \<Rightarrow> table_addr option \<Rightarrow> tlv_schema_diagnostic_t option
     \<Rightarrow> (tlv_result_t \<times> tlv_schema_diagnostic_t option) option" where
  "tlv_schema_check mem schema diagnostic =
     (let diagnostic = map_option (\<lambda>_. tlv_schema_diagnostic_init) diagnostic;
          finish = (\<lambda>(rc, location).
            (rc, map_option (\<lambda>d.
               if rc = TLV_OK then d\<lparr>sd_definition := definition_location0\<rparr>
               else let d = schema_fail_code rc (d\<lparr>sd_definition := location\<rparr>) in
                 if rc = TLV_ERR_INVALID_SCHEMA then d\<lparr>sd_kind := TLV_SCHEMA_ISSUE_DEFINITION\<rparr> else d) diagnostic)) in
      case schema of
        None \<Rightarrow> Some (finish (TLV_ERR_NULL_ARG, definition_location0))
      | Some s \<Rightarrow> map_option finish (check_tables mem [s] 0 definition_location0))"

record tlv_schema_checked_t =
  chk_schema :: "table_addr option"

definition tlv_schema_prepare ::
  "tables \<Rightarrow> tlv_schema_checked_t option \<Rightarrow> table_addr option \<Rightarrow> tlv_schema_diagnostic_t option
     \<Rightarrow> (tlv_result_t \<times> tlv_schema_checked_t option \<times> tlv_schema_diagnostic_t option) option" where
  "tlv_schema_prepare mem checked schema diagnostic =
     (case checked of
        None \<Rightarrow> Some (TLV_ERR_NULL_ARG, None,
          map_option (\<lambda>_. schema_fail_code TLV_ERR_NULL_ARG tlv_schema_diagnostic_init) diagnostic)
      | Some c \<Rightarrow>
          map_option (\<lambda>(rc, d). (rc, Some (c\<lparr>chk_schema := if rc = TLV_OK then schema else None\<rparr>), d))
            (tlv_schema_check mem schema diagnostic))"

section \<open>Constraints on numbers\<close>

datatype tlv_value_constraint_kind_t =
    TLV_VALUE_CONSTRAINT_NONE | TLV_VALUE_CONSTRAINT_RANGE | TLV_VALUE_CONSTRAINT_ALLOWED_VALUES
  | TLV_VALUE_CONSTRAINT_OTHER int

record tlv_value_constraint_t =
  vc_kind :: tlv_value_constraint_kind_t
  vc_min_value :: int
  vc_max_value :: int
  vc_allowed_values :: "int list option"
  vc_allowed_values_count :: nat
  vc_allowed_value_names :: "string option list option"

definition tlv_value_constraint_check :: "tlv_value_constraint_t option \<Rightarrow> tlv_result_t" where
  "tlv_value_constraint_check constraint =
     (case constraint of None \<Rightarrow> TLV_ERR_NULL_ARG
      | Some c \<Rightarrow>
          (case vc_kind c of
             TLV_VALUE_CONSTRAINT_NONE \<Rightarrow> TLV_OK
           | TLV_VALUE_CONSTRAINT_RANGE \<Rightarrow>
               if vc_min_value c \<le> vc_max_value c then TLV_OK else TLV_ERR_INVALID_SCHEMA
           | TLV_VALUE_CONSTRAINT_ALLOWED_VALUES \<Rightarrow>
               if vc_allowed_values_count c = 0 \<or> vc_allowed_values c \<noteq> None then TLV_OK else TLV_ERR_INVALID_SCHEMA
           | TLV_VALUE_CONSTRAINT_OTHER _ \<Rightarrow> TLV_ERR_INVALID_SCHEMA))"

definition allowed_values :: "tlv_value_constraint_t \<Rightarrow> int list" where
  "allowed_values c = take (vc_allowed_values_count c) (out (vc_allowed_values c) [])"

definition tlv_value_constraint_validate :: "tlv_value_constraint_t option \<Rightarrow> int \<Rightarrow> tlv_result_t" where
  "tlv_value_constraint_validate constraint v =
     (let rc = tlv_value_constraint_check constraint in
      if rc \<noteq> TLV_OK then rc
      else let c = the constraint in
        case vc_kind c of
          TLV_VALUE_CONSTRAINT_NONE \<Rightarrow> TLV_OK
        | TLV_VALUE_CONSTRAINT_RANGE \<Rightarrow>
            if vc_min_value c > vc_max_value c \<or> v < vc_min_value c \<or> v > vc_max_value c then TLV_ERR_SCHEMA
            else TLV_OK
        | TLV_VALUE_CONSTRAINT_ALLOWED_VALUES \<Rightarrow>
            if vc_allowed_values_count c \<noteq> 0 \<and> vc_allowed_values c = None then TLV_ERR_SCHEMA
            else if list_ex (\<lambda>a. a = v) (allowed_values c) then TLV_OK
            else TLV_ERR_SCHEMA
        | TLV_VALUE_CONSTRAINT_OTHER _ \<Rightarrow> TLV_ERR_SCHEMA)"

definition tlv_value_constraint_name :: "tlv_value_constraint_t option \<Rightarrow> int \<Rightarrow> string option" where
  "tlv_value_constraint_name constraint v =
     (case constraint of None \<Rightarrow> None
      | Some c \<Rightarrow>
          if vc_kind c \<noteq> TLV_VALUE_CONSTRAINT_ALLOWED_VALUES \<or> vc_allowed_values c = None \<or>
             vc_allowed_value_names c = None
          then None
          else case first_index (\<lambda>a. a = v) (allowed_values c) of
            None \<Rightarrow> None
          | Some i \<Rightarrow> the (vc_allowed_value_names c) ! i)"

end
