(* ===== verification/TLV_Schema_Validation.thy ===== *)
theory TLV_Schema_Validation
  imports TLV_Schema TLV_Visitor
begin

text \<open>
  Validation of an input against a structural schema: the validator that stops at the first violation
  (\<^verbatim>\<open>schema/structure.c\<close>), the one that reports all of them (\<^verbatim>\<open>schema/report.c\<close>) and the check of the framing
  that both do first (\<^verbatim>\<open>schema/traversal_internal.h\<close>).
\<close>

section \<open>Shared parts\<close>

definition schema_check_tree ::
  "ptr \<Rightarrow> nat \<Rightarrow> tlv_format_t option \<Rightarrow> nat \<Rightarrow> nat \<Rightarrow> tlv_diagnostic_t option
     \<Rightarrow> (tlv_result_t \<times> tlv_diagnostic_t option) option" where
  "schema_check_tree data sz format max_depth max_elements diagnostic =
     (case tlv_tree_reader_init True data sz format (Some (replicate TLV_SCHEMA_MAX_DEPTH \<lparr>fr_end = 0, fr_resume = 0\<rparr>))
             TLV_SCHEMA_MAX_DEPTH max_depth max_elements of
        (rc, reader) \<Rightarrow>
          if rc \<noteq> TLV_OK
          then Some (rc, map_option (\<lambda>_. tlv_diagnostic_init rc TLV_DIAGNOSTIC_SEVERITY_ERROR) diagnostic)
          else map_option (\<lambda>(rc, _, _, detail).
                 (rc, if rc \<noteq> TLV_OK then map_option (\<lambda>_. rdd_diagnostic (the detail)) diagnostic else diagnostic))
               (tlv_tree_reader_visit reader None () (diagnostic \<noteq> None)))"

lemma tlv_read_OK:
  assumes "tlv_read data sz format True = (TLV_OK, res)"
  obtains dec where "tlv_format_decode format data sz True = (TLV_OK, Some dec, None)" "partitioned dec data sz"
    "res = Some (dec_element dec, src_size (dec_source dec))"
proof (cases rule: tlv_format_decode_cases [of format data sz True])
  case (error rc e)
  then show thesis using assms by (simp add: tlv_read_def tlv_read_impl_def)
next
  case (ok dec)
  obtain f where f: "format = Some f" using ok by (cases format) (auto simp: tlv_format_decode_def tlv_format_can_read_def)
  then have "partitioned dec data sz" using ok tlv_format_decode_OK_iff [of f data sz "Some dec" None] by auto
  moreover have "res = Some (dec_element dec, src_size (dec_source dec))"
    using assms ok by (simp add: tlv_read_def tlv_read_impl_def Let_def)
  ultimately show thesis by (rule that [OF ok])
qed

lemma tlv_read_used:
  assumes "tlv_read data sz format True = (TLV_OK, res)"
  shows "0 < snd (the res)" "snd (the res) \<le> sz"
  using tlv_read_OK [OF assms] by (force simp: partitioned_def Let_def)+

text \<open>
  The loop over the elements between \<open>pos\<close> and \<open>stop\<close>.  The body may leave it with a result; a failed read
  leaves it with the result of the read, the position and the state so far.
\<close>

function scope_scan ::
  "ptr \<Rightarrow> tlv_format_t option \<Rightarrow> nat \<Rightarrow> (tlv_element_t \<Rightarrow> nat \<Rightarrow> 's \<Rightarrow> 'e + 's) \<Rightarrow> nat \<Rightarrow> 's
     \<Rightarrow> ((tlv_result_t \<times> nat \<times> 's) + 'e) + 's" where
  "scope_scan data format stop body pos st =
     (if pos < stop then
        (case tlv_read (ptr_add data pos) (stop - pos) format True of
           (rc, res) \<Rightarrow>
             if rc \<noteq> TLV_OK then Inl (Inl (rc, pos, st))
             else case body (fst (the res)) pos st of
               Inl e \<Rightarrow> Inl (Inr e)
             | Inr st' \<Rightarrow> scope_scan data format stop body (pos + snd (the res)) st')
      else Inr st)"
  by pat_completeness auto
termination
  by (relation "measure (\<lambda>(data, format, stop, body, pos, st). stop - pos)")
    (auto dest!: tlv_read_used(1) [OF sym])

declare scope_scan.simps [simp del]

text \<open>The first rule for a tag.\<close>

definition rule_for :: "tlv_structure_rule_t list \<Rightarrow> tlv_tag_t \<Rightarrow> nat option" where
  "rule_for rules tag = first_index (\<lambda>rule. tlv_tag_equal (rule_tag rule) tag) rules"

definition group_member :: "tlv_structure_rule_t list \<Rightarrow> tlv_structure_group_t \<Rightarrow> tlv_tag_t \<Rightarrow> bool" where
  "group_member rules grp tag = list_ex (\<lambda>rule. sr_group rule = sg_id grp \<and> tlv_tag_equal (rule_tag rule) tag) rules"

section \<open>The first violation (structure.c)\<close>

definition path_push_all :: "tlv_tag_t list \<Rightarrow> tlv_diagnostic_path_t \<Rightarrow> tlv_diagnostic_path_t" where
  "path_push_all tags path = fold (\<lambda>tag p. the (snd (tlv_diagnostic_path_push (Some p) tag))) tags path"

text \<open>\<open>path\<close> holds the tags of the enclosing elements at positions 1 to \<open>depth\<close>.\<close>

definition violation ::
  "tlv_schema_diagnostic_t option \<Rightarrow> tlv_schema_issue_kind_t \<Rightarrow> tlv_tag_t \<Rightarrow> nat \<Rightarrow> tlv_tag_t list \<Rightarrow> nat
     \<Rightarrow> tlv_result_t \<times> tlv_schema_diagnostic_t option" where
  "violation diagnostic kind tag offset path depth =
     (TLV_ERR_SCHEMA,
      map_option (\<lambda>d.
        let diag = tlv_diagnostic_set_location (sd_diagnostic d) TLV_LOCATION_INPUT
              (if kind = TLV_SCHEMA_ISSUE_MISSING then TLV_LOCATION_SCOPE_END else TLV_LOCATION_POINT) offset offset in
        d\<lparr>sd_diagnostic := diag\<lparr>diag_has_path := True,
              diag_path := path_push_all (take depth (drop 1 path)) (tlv_diagnostic_path_init (diag_path diag))\<rparr>,
          sd_kind := kind, sd_tag := tag\<rparr>) diagnostic)"

definition set_read_location :: "tlv_schema_diagnostic_t option \<Rightarrow> nat \<Rightarrow> tlv_schema_diagnostic_t option" where
  "set_read_location diagnostic offset =
     map_option (\<lambda>d. d\<lparr>sd_diagnostic :=
       tlv_diagnostic_set_location (sd_diagnostic d) TLV_LOCATION_INPUT TLV_LOCATION_POINT offset offset\<rparr>) diagnostic"

text \<open>One scope: what does not change while it is checked.\<close>

record scope_args =
  sa_data :: ptr
  sa_format :: "tlv_format_t option"
  sa_start :: nat
  sa_end :: nat
  sa_path :: "tlv_tag_t list"
  sa_depth :: nat
  sa_diag :: "tlv_schema_diagnostic_t option"

type_synonym scope_exit = "tlv_result_t \<times> tlv_schema_diagnostic_t option"

definition scope_violation ::
  "scope_args \<Rightarrow> tlv_schema_issue_kind_t \<Rightarrow> tlv_tag_t \<Rightarrow> nat \<Rightarrow> (tlv_schema_diagnostic_t \<Rightarrow> tlv_schema_diagnostic_t) \<Rightarrow> scope_exit" where
  "scope_violation a kind tag offset fill =
     violation (map_option fill (sa_diag a)) kind tag offset (sa_path a) (sa_depth a)"

definition rule_body ::
  "scope_args \<Rightarrow> tlv_structure_rule_t \<Rightarrow> tlv_element_t \<Rightarrow> nat \<Rightarrow> nat \<Rightarrow> scope_exit + nat" where
  "rule_body a rule el pos count =
     (if tlv_tag_equal (rule_tag rule) (elem_tag el) then
        (if count = sr_max_occurs rule
         then Inl (scope_violation a TLV_SCHEMA_ISSUE_DUPLICATE (elem_tag el) pos
                (\<lambda>d. schema_issue_occurs d (Some rule) None (count + 1)))
         else Inr (count + 1))
      else Inr count)"

definition group_body ::
  "scope_args \<Rightarrow> tlv_structure_rule_t list \<Rightarrow> tlv_structure_group_t \<Rightarrow> tlv_element_t \<Rightarrow> nat \<Rightarrow> nat \<Rightarrow> scope_exit + nat" where
  "group_body a rules grp el pos count =
     (if group_member rules grp (elem_tag el) then
        (if count = sg_max_occurs grp
         then Inl (scope_violation a TLV_SCHEMA_ISSUE_DUPLICATE (elem_tag el) pos
                (\<lambda>d. schema_issue_occurs d None (Some grp) (count + 1)))
         else Inr (count + 1))
      else Inr count)"

definition order_body ::
  "scope_args \<Rightarrow> tlv_structure_rule_t list \<Rightarrow> tlv_element_t \<Rightarrow> nat \<Rightarrow> nat option \<Rightarrow> scope_exit + nat option" where
  "order_body a rules el pos last_index =
     (case rule_for rules (elem_tag el) of None \<Rightarrow> Inr last_index
      | Some i \<Rightarrow>
          if (case last_index of None \<Rightarrow> False | Some l \<Rightarrow> i < l)
          then Inl (scope_violation a TLV_SCHEMA_ISSUE_ORDER (elem_tag el) pos
                 (\<lambda>d. d\<lparr>sd_field := se_name (the (sr_entry (rules ! i)))\<rparr>))
          else Inr (Some i))"

text \<open>The exit of a loop over elements, with the location of a failed read.\<close>

definition scan_exit :: "scope_args \<Rightarrow> (tlv_result_t \<times> nat \<times> 's) + scope_exit \<Rightarrow> scope_exit" where
  "scan_exit a e = (case e of Inl (rc, pos, _) \<Rightarrow> (rc, set_read_location (sa_diag a) pos) | Inr x \<Rightarrow> x)"

fun check_scope_rules :: "scope_args \<Rightarrow> tlv_structure_rule_t list \<Rightarrow> scope_exit option" where
  "check_scope_rules a [] = None"
| "check_scope_rules a (rule # rules) =
     (case scope_scan (sa_data a) (sa_format a) (sa_end a) (rule_body a rule) (sa_start a) 0 of
        Inl e \<Rightarrow> Some (scan_exit a e)
      | Inr count \<Rightarrow>
          if count < sr_min_occurs rule
          then Some (scope_violation a TLV_SCHEMA_ISSUE_MISSING (rule_tag rule) (sa_end a)
                 (\<lambda>d. schema_issue_occurs d (Some rule) None count))
          else check_scope_rules a rules)"

fun check_scope_groups ::
  "scope_args \<Rightarrow> tlv_structure_rule_t list \<Rightarrow> tlv_structure_group_t list \<Rightarrow> scope_exit option" where
  "check_scope_groups a rules [] = None"
| "check_scope_groups a rules (grp # groups) =
     (case scope_scan (sa_data a) (sa_format a) (sa_end a) (group_body a rules grp) (sa_start a) 0 of
        Inl e \<Rightarrow> Some (scan_exit a e)
      | Inr count \<Rightarrow>
          if count < sg_min_occurs grp
          then let first = the (first_index (\<lambda>rule. sr_group rule = sg_id grp) rules) in
            Some (scope_violation a TLV_SCHEMA_ISSUE_MISSING (rule_tag (rules ! first)) (sa_end a)
              (\<lambda>d. schema_issue_occurs d None (Some grp) count))
          else check_scope_groups a rules groups)"

definition check_scope_order :: "scope_args \<Rightarrow> tlv_structure_rule_t list \<Rightarrow> scope_exit option" where
  "check_scope_order a rules =
     (case scope_scan (sa_data a) (sa_format a) (sa_end a) (order_body a rules) (sa_start a) None of
        Inl e \<Rightarrow> Some (scan_exit a e) | Inr _ \<Rightarrow> None)"

definition check_scope :: "scope_args \<Rightarrow> tlv_structure_schema_t \<Rightarrow> scope_exit" where
  "check_scope a current =
     (case check_scope_rules a (table_rules current) of Some e \<Rightarrow> e
      | None \<Rightarrow>
          (case check_scope_groups a (table_rules current) (table_groups current) of Some e \<Rightarrow> e
           | None \<Rightarrow>
               if tb_order current = TLV_SCHEMA_ORDER_SEQUENCE
               then (case check_scope_order a (table_rules current) of Some e \<Rightarrow> e | None \<Rightarrow> (TLV_OK, sa_diag a))
               else (TLV_OK, sa_diag a)))"

text \<open>The arguments of \<^verbatim>\<open>validate_input\<close> and the variables of its loop.\<close>

record validate_args =
  va_mem :: tables
  va_data :: ptr
  va_format :: "tlv_format_t option"

record validate_state =
  vs_reader :: tlv_tree_reader_t
  vs_scopes :: "table_addr list"
  vs_path :: "tlv_tag_t list"
  vs_diag :: "tlv_schema_diagnostic_t option"

text \<open>The last statement of the loop body: leave out a subtree without a table.\<close>

definition validate_skip :: "validate_state \<Rightarrow> tlv_tree_item_t \<Rightarrow> scope_exit + validate_state" where
  "validate_skip st item =
     (if it_constructed item \<and> val_size (elem_value (it_element item)) \<noteq> 0 then
        (case tlv_tree_reader_skip_subtree (Some (vs_reader st)) of
           (rc, r) \<Rightarrow> if rc \<noteq> TLV_OK then Inl (rc, vs_diag st) else Inr (st\<lparr>vs_reader := the r\<rparr>))
      else Inr st)"

definition kind_violated :: "tlv_structure_rule_t \<Rightarrow> bool \<Rightarrow> bool" where
  "kind_violated rule constructed \<longleftrightarrow>
     (sr_kind rule = TLV_SCHEMA_PRIMITIVE \<and> constructed) \<or> (sr_kind rule = TLV_SCHEMA_CONSTRUCTED \<and> \<not> constructed)"

definition validate_children ::
  "validate_args \<Rightarrow> validate_state \<Rightarrow> tlv_tree_item_t \<Rightarrow> table_addr \<Rightarrow> nat \<Rightarrow> scope_exit + validate_state" where
  "validate_children a st item children value_length =
     (let start = it_offset item + rg_offset (src_value (it_source item));
          st = st\<lparr>vs_path := (vs_path st)[it_depth item + 1 := elem_tag (it_element item)]\<rparr> in
      case check_scope \<lparr>sa_data = va_data a, sa_format = va_format a, sa_start = start, sa_end = start + value_length,
             sa_path = vs_path st, sa_depth = it_depth item + 1, sa_diag = vs_diag st\<rparr> (va_mem a children) of
        (rc, d) \<Rightarrow>
          let st = st\<lparr>vs_diag := d\<rparr> in
          if rc \<noteq> TLV_OK then Inl (rc, d)
          else if value_length \<noteq> 0 then
            (if it_depth item = TLV_SCHEMA_MAX_DEPTH then Inl (TLV_ERR_LIMIT, d)
             else Inr (st\<lparr>vs_scopes := (vs_scopes st)[it_depth item + 1 := children]\<rparr>))
          else validate_skip st item)"

definition validate_item :: "validate_args \<Rightarrow> validate_state \<Rightarrow> tlv_tree_item_t \<Rightarrow> scope_exit + validate_state" where
  "validate_item a st item =
     (let current = va_mem a (vs_scopes st ! it_depth item); tag = elem_tag (it_element item);
          fail = (\<lambda>kind fill. violation (map_option fill (vs_diag st)) kind tag (it_offset item) (vs_path st) (it_depth item)) in
      case rule_for (table_rules current) tag of
        None \<Rightarrow> if \<not> tb_allow_unknown current then Inl (fail TLV_SCHEMA_ISSUE_UNEXPECTED (\<lambda>d. d)) else validate_skip st item
      | Some i \<Rightarrow>
          let rule = table_rules current ! i in
          case tlv_size_to_native (val_size (elem_value (it_element item))) True of
            (rc, olen) \<Rightarrow>
              let value_length = the olen; rc = (if rc = TLV_OK then tlv_schema_validate_length (sr_entry rule) value_length else rc) in
              if rc = TLV_ERR_SCHEMA then Inl (fail TLV_SCHEMA_ISSUE_LENGTH (\<lambda>d. schema_issue_length d rule value_length))
              else if rc \<noteq> TLV_OK then Inl (rc, set_read_location (vs_diag st) (it_offset item))
              else if kind_violated rule (it_constructed item)
              then Inl (fail TLV_SCHEMA_ISSUE_KIND (\<lambda>d. schema_issue_form d rule (it_constructed item)))
              else case sr_children rule of
                Some children \<Rightarrow> validate_children a st item children value_length
              | None \<Rightarrow> validate_skip st item)"

partial_function (option) validate_loop :: "validate_args \<Rightarrow> validate_state \<Rightarrow> scope_exit option" where
  [code]: "validate_loop a st =
     (if tlv_tree_reader_at_end (Some (vs_reader st)) then Some (TLV_OK, vs_diag st)
      else case tlv_tree_reader_next (Some (vs_reader st)) True of
        (rc, r, item) \<Rightarrow>
          let st = st\<lparr>vs_reader := the r\<rparr> in
          if rc \<noteq> TLV_OK then Some (rc, set_read_location (vs_diag st) (tlv_tree_reader_offset (Some (vs_reader st))))
          else case validate_item a st (the item) of
            Inl e \<Rightarrow> Some e
          | Inr st \<Rightarrow> validate_loop a st)"

text \<open>Contents of the uninitialised arrays: indeterminate in C, some fixed contents here.\<close>

definition scopes0 :: "table_addr \<Rightarrow> table_addr list" where
  "scopes0 schema = replicate (TLV_SCHEMA_MAX_DEPTH + 1) schema"

definition path_tags0 :: "tlv_tag_t list" where
  "path_tags0 = replicate (TLV_SCHEMA_MAX_DEPTH + 2) (tlv_tag Null 0)"

definition validate_input ::
  "tables \<Rightarrow> ptr \<Rightarrow> nat \<Rightarrow> tlv_format_t option \<Rightarrow> table_addr option \<Rightarrow> nat \<Rightarrow> nat \<Rightarrow> tlv_schema_diagnostic_t option
     \<Rightarrow> scope_exit option" where
  "validate_input mem data sz format schema max_depth max_elements diagnostic =
     (case schema of
        None \<Rightarrow> Some (TLV_ERR_NULL_ARG, set_read_location diagnostic 0)
      | Some s \<Rightarrow>
          Option.bind (schema_check_tree data sz format max_depth max_elements (map_option sd_diagnostic diagnostic))
            (\<lambda>(rc, diag).
               let diagnostic = map_option (\<lambda>d. d\<lparr>sd_diagnostic := the diag\<rparr>) diagnostic in
               if rc \<noteq> TLV_OK then Some (rc, diagnostic)
               else case check_scope \<lparr>sa_data = data, sa_format = format, sa_start = 0, sa_end = sz, sa_path = path_tags0,
                      sa_depth = 0, sa_diag = diagnostic\<rparr> (mem s) of
                 (rc, diagnostic) \<Rightarrow>
                   if rc \<noteq> TLV_OK then Some (rc, diagnostic)
                   else case tlv_tree_reader_init True data sz format
                          (Some (replicate TLV_SCHEMA_MAX_DEPTH \<lparr>fr_end = 0, fr_resume = 0\<rparr>)) TLV_SCHEMA_MAX_DEPTH
                          max_depth max_elements of
                     (rc, reader) \<Rightarrow>
                       if rc \<noteq> TLV_OK then Some (rc, diagnostic)
                       else validate_loop \<lparr>va_mem = mem, va_data = data, va_format = format\<rparr>
                              \<lparr>vs_reader = the reader, vs_scopes = (scopes0 s)[0 := s], vs_path = path_tags0, vs_diag = diagnostic\<rparr>))"

definition validate_checked ::
  "tables \<Rightarrow> ptr \<Rightarrow> nat \<Rightarrow> tlv_format_t option \<Rightarrow> table_addr option \<Rightarrow> nat \<Rightarrow> nat \<Rightarrow> tlv_schema_diagnostic_t option
     \<Rightarrow> scope_exit option" where
  "validate_checked mem data sz format schema max_depth max_elements diagnostic =
     map_option (\<lambda>(rc, d). (rc, if rc \<noteq> TLV_OK then map_option (schema_fail_code rc) d else d))
       (validate_input mem data sz format schema max_depth max_elements diagnostic)"

definition argument_failure :: "tlv_result_t \<Rightarrow> tlv_schema_diagnostic_t option \<Rightarrow> scope_exit" where
  "argument_failure rc diagnostic = (rc, map_option (schema_fail_code rc) diagnostic)"

definition tlv_schema_validate ::
  "tables \<Rightarrow> ptr \<Rightarrow> nat \<Rightarrow> tlv_format_t option \<Rightarrow> table_addr option \<Rightarrow> nat \<Rightarrow> nat \<Rightarrow> tlv_schema_diagnostic_t option
     \<Rightarrow> scope_exit option" where
  "tlv_schema_validate mem data sz format schema max_depth max_elements diagnostic =
     (let diagnostic = map_option (\<lambda>_. tlv_schema_diagnostic_init) diagnostic in
      if schema = None \<or> format = None \<or> (data = Null \<and> sz \<noteq> 0) then Some (argument_failure TLV_ERR_NULL_ARG diagnostic)
      else Option.bind (tlv_schema_check mem schema diagnostic) (\<lambda>(rc, diagnostic).
        if rc \<noteq> TLV_OK then Some (rc, diagnostic)
        else validate_checked mem data sz format schema max_depth max_elements diagnostic))"

definition tlv_schema_validate_checked ::
  "tables \<Rightarrow> tlv_schema_checked_t option \<Rightarrow> ptr \<Rightarrow> nat \<Rightarrow> tlv_format_t option \<Rightarrow> nat \<Rightarrow> nat \<Rightarrow> tlv_schema_diagnostic_t option
     \<Rightarrow> scope_exit option" where
  "tlv_schema_validate_checked mem checked data sz format max_depth max_elements diagnostic =
     (let diagnostic = map_option (\<lambda>_. tlv_schema_diagnostic_init) diagnostic in
      if checked = None \<or> format = None \<or> (data = Null \<and> sz \<noteq> 0) then Some (argument_failure TLV_ERR_NULL_ARG diagnostic)
      else if chk_schema (the checked) = None then Some (argument_failure TLV_ERR_INVALID_STATE diagnostic)
      else validate_checked mem data sz format (chk_schema (the checked)) max_depth max_elements diagnostic)"

end
