(* ===== verification/TLV_Schema_Report.thy ===== *)
theory TLV_Schema_Report
  imports TLV_Schema_Validation
begin

text \<open>
  The validator that collects all violations (\<^verbatim>\<open>schema/report.c\<close>).
\<close>

section \<open>Collecting\<close>

datatype tlv_schema_unknown_policy_t =
    TLV_SCHEMA_UNKNOWN_BY_SCHEMA | TLV_SCHEMA_UNKNOWN_ALLOW | TLV_SCHEMA_UNKNOWN_REJECT
  | TLV_SCHEMA_UNKNOWN_OTHER int

text \<open>\<open>None\<close> is a \<^verbatim>\<open>NULL\<close> array of diagnostics.\<close>

record tlv_schema_diagnostic_report_t =
  rep_diagnostics :: "tlv_schema_diagnostic_t list option"
  rep_capacity :: nat
  rep_count :: nat

record frame_t =
  frm_schema :: table_addr
  frm_start :: nat
  frm_end :: nat
  frm_tag :: tlv_tag_t
  frm_offset :: nat

record collector_t =
  col_report :: tlv_schema_diagnostic_report_t
  col_frames :: "frame_t list"
  col_depth :: nat

text \<open>The path from the frames 1 to \<open>depth\<close>; the rest counts as omitted once the storage is full.\<close>

fun push_frames :: "frame_t list \<Rightarrow> tlv_diagnostic_path_t \<Rightarrow> tlv_diagnostic_path_t" where
  "push_frames [] path = path"
| "push_frames (f # fs) path =
     (case tlv_diagnostic_path_push (Some path) (frm_tag f) of
        (rc, p) \<Rightarrow>
          if rc = TLV_ERR_BUFFER_TOO_SHORT
          then (the p)\<lparr>path_omitted := path_omitted (the p) + length fs\<rparr>
          else push_frames fs (the p))"

text \<open>\<open>fill\<close> stores the details that the caller adds to the stored diagnostic.\<close>

definition add_issue ::
  "collector_t \<Rightarrow> tlv_schema_issue_kind_t \<Rightarrow> tlv_tag_t \<Rightarrow> nat option \<Rightarrow> (tlv_schema_diagnostic_t \<Rightarrow> tlv_schema_diagnostic_t)
     \<Rightarrow> collector_t" where
  "add_issue c kind tag offset fill =
     (let report = col_report c; n = rep_count report in
      if n \<ge> rep_capacity report then c\<lparr>col_report := report\<lparr>rep_count := n + 1\<rparr>\<rparr>
      else let diag = tlv_diagnostic_init TLV_ERR_SCHEMA TLV_DIAGNOSTIC_SEVERITY_ERROR;
               diag = (case offset of None \<Rightarrow> diag
                       | Some off \<Rightarrow> tlv_diagnostic_set_location diag TLV_LOCATION_INPUT TLV_LOCATION_POINT off off);
               loc = (diag_location diag)\<lparr>loc_kind :=
                 (if offset = None then TLV_LOCATION_UNKNOWN
                  else if kind = TLV_SCHEMA_ISSUE_MISSING then TLV_LOCATION_SCOPE_END else TLV_LOCATION_POINT)\<rparr>;
               diag = diag\<lparr>diag_location := loc, diag_has_path := True,
                 diag_path := push_frames (take (col_depth c) (drop 1 (col_frames c)))
                   (tlv_diagnostic_path_init (diag_path diag))\<rparr>;
               d = tlv_schema_diagnostic_init\<lparr>sd_diagnostic := diag, sd_kind := kind, sd_tag := tag\<rparr> in
        c\<lparr>col_report := report\<lparr>rep_count := n + 1,
            rep_diagnostics := map_option (\<lambda>ds. ds[n := fill d]) (rep_diagnostics report)\<rparr>\<rparr>)"

section \<open>One scope\<close>

definition report_rule_body ::
  "tlv_structure_rule_t \<Rightarrow> tlv_element_t \<Rightarrow> nat \<Rightarrow> nat \<times> collector_t \<Rightarrow> unit + nat \<times> collector_t" where
  "report_rule_body rule el pos st =
     (case st of (count, c) \<Rightarrow>
        if tlv_tag_equal (rule_tag rule) (elem_tag el)
        then Inr (count + 1,
               if count + 1 > sr_max_occurs rule
               then add_issue c TLV_SCHEMA_ISSUE_DUPLICATE (elem_tag el) (Some pos)
                      (\<lambda>d. schema_issue_occurs d (Some rule) None (count + 1))
               else c)
        else Inr (count, c))"

definition report_group_body ::
  "tlv_structure_rule_t list \<Rightarrow> tlv_structure_group_t \<Rightarrow> tlv_element_t \<Rightarrow> nat \<Rightarrow> nat \<times> collector_t \<Rightarrow> unit + nat \<times> collector_t" where
  "report_group_body rules grp el pos st =
     (case st of (count, c) \<Rightarrow>
        if group_member rules grp (elem_tag el)
        then Inr (count + 1,
               if count + 1 > sg_max_occurs grp
               then add_issue c TLV_SCHEMA_ISSUE_DUPLICATE (elem_tag el) (Some pos)
                      (\<lambda>d. schema_issue_occurs d None (Some grp) (count + 1))
               else c)
        else Inr (count, c))"

definition report_order_body ::
  "tlv_structure_rule_t list \<Rightarrow> tlv_element_t \<Rightarrow> nat \<Rightarrow> nat option \<times> collector_t \<Rightarrow> unit + nat option \<times> collector_t" where
  "report_order_body rules el pos st =
     (case st of (last_index, c) \<Rightarrow>
        (case rule_for rules (elem_tag el) of None \<Rightarrow> Inr (last_index, c)
         | Some i \<Rightarrow>
             if (case last_index of None \<Rightarrow> False | Some l \<Rightarrow> i < l)
             then Inr (last_index, add_issue c TLV_SCHEMA_ISSUE_ORDER (elem_tag el) (Some pos)
                    (\<lambda>d. d\<lparr>sd_field := se_name (the (sr_entry (rules ! i)))\<rparr>))
             else Inr (Some i, c)))"

text \<open>The loop over the elements of a scope; the result is \<open>TLV_OK\<close> or that of a failed read.\<close>

definition report_scan ::
  "ptr \<Rightarrow> tlv_format_t option \<Rightarrow> frame_t \<Rightarrow> (tlv_element_t \<Rightarrow> nat \<Rightarrow> 's \<times> collector_t \<Rightarrow> unit + 's \<times> collector_t) \<Rightarrow> 's \<Rightarrow> collector_t
     \<Rightarrow> tlv_result_t \<times> 's \<times> collector_t" where
  "report_scan data format frame body st c =
     (case scope_scan data format (frm_end frame) body (frm_start frame) (st, c) of
        Inl (Inl (rc, pos, r)) \<Rightarrow> (rc, r) | Inl (Inr u) \<Rightarrow> (TLV_OK, st, c) | Inr r \<Rightarrow> (TLV_OK, r))"

fun report_rules ::
  "ptr \<Rightarrow> tlv_format_t option \<Rightarrow> frame_t \<Rightarrow> tlv_structure_rule_t list \<Rightarrow> collector_t \<Rightarrow> tlv_result_t \<times> collector_t" where
  "report_rules data format frame [] c = (TLV_OK, c)"
| "report_rules data format frame (rule # rules) c =
     (case report_scan data format frame (report_rule_body rule) 0 c of
        (rc, count, c) \<Rightarrow>
          if rc \<noteq> TLV_OK then (rc, c)
          else report_rules data format frame rules
            (if count < sr_min_occurs rule
             then add_issue c TLV_SCHEMA_ISSUE_MISSING (rule_tag rule) (Some (frm_end frame))
                    (\<lambda>d. schema_issue_occurs d (Some rule) None count)
             else c))"

fun report_groups ::
  "ptr \<Rightarrow> tlv_format_t option \<Rightarrow> frame_t \<Rightarrow> tlv_structure_rule_t list \<Rightarrow> tlv_structure_group_t list \<Rightarrow> collector_t
     \<Rightarrow> tlv_result_t \<times> collector_t" where
  "report_groups data format frame rules [] c = (TLV_OK, c)"
| "report_groups data format frame rules (grp # groups) c =
     (case report_scan data format frame (report_group_body rules grp) 0 c of
        (rc, count, c) \<Rightarrow>
          if rc \<noteq> TLV_OK then (rc, c)
          else report_groups data format frame rules groups
            (if count < sg_min_occurs grp
             then add_issue c TLV_SCHEMA_ISSUE_MISSING
                    (rule_tag (rules ! the (first_index (\<lambda>rule. sr_group rule = sg_id grp) rules))) (Some (frm_end frame))
                    (\<lambda>d. schema_issue_occurs d None (Some grp) count)
             else c))"

definition report_scope :: "tables \<Rightarrow> ptr \<Rightarrow> tlv_format_t option \<Rightarrow> frame_t \<Rightarrow> collector_t \<Rightarrow> tlv_result_t \<times> collector_t" where
  "report_scope mem data format frame c =
     (let table = mem (frm_schema frame) in
      case report_rules data format frame (table_rules table) c of
        (rc, c) \<Rightarrow>
          if rc \<noteq> TLV_OK then (rc, c)
          else case report_groups data format frame (table_rules table) (table_groups table) c of
            (rc, c) \<Rightarrow>
              if rc \<noteq> TLV_OK then (rc, c)
              else if tb_order table = TLV_SCHEMA_ORDER_SEQUENCE
              then (case report_scan data format frame (report_order_body (table_rules table)) None c of
                      (rc, last_index, c) \<Rightarrow> (rc, c))
              else (TLV_OK, c))"

section \<open>The traversal\<close>

record report_args =
  ra_mem :: tables
  ra_data :: ptr
  ra_format :: "tlv_format_t option"
  ra_unknown :: tlv_schema_unknown_policy_t

record report_state =
  rs_reader :: tlv_tree_reader_t
  rs_collector :: collector_t

text \<open>A result with the location of an error, and the report so far.\<close>

type_synonym report_result = "tlv_result_t \<times> nat option \<times> tlv_schema_diagnostic_report_t"

definition report_return :: "report_state \<Rightarrow> tlv_result_t \<Rightarrow> nat option \<Rightarrow> report_result" where
  "report_return st rc at = (rc, at, col_report (rs_collector st))"

text \<open>The result of skipping is ignored; the reader is what the call leaves.\<close>

definition report_skip :: "report_state \<Rightarrow> tlv_tree_item_t \<Rightarrow> report_state" where
  "report_skip st item =
     (if it_constructed item \<and> val_size (elem_value (it_element item)) \<noteq> 0
      then st\<lparr>rs_reader := the (snd (tlv_tree_reader_skip_subtree (Some (rs_reader st))))\<rparr> else st)"

text \<open>The difference of two pointers into the same object.\<close>

primrec ptr_address :: "ptr \<Rightarrow> nat" where
  "ptr_address Null = 0"
| "ptr_address (Ptr a bs) = a"

definition ptr_diff :: "ptr \<Rightarrow> ptr \<Rightarrow> nat" where
  "ptr_diff p q = ptr_address p - ptr_address q"

definition report_children ::
  "report_args \<Rightarrow> report_state \<Rightarrow> tlv_tree_item_t \<Rightarrow> table_addr \<Rightarrow> nat \<Rightarrow> report_result + report_state" where
  "report_children a st item children value_length =
     (let c = rs_collector st; el = it_element item; start = ptr_diff (val_data (elem_value el)) (ra_data a) in
      if col_depth c = TLV_SCHEMA_MAX_DEPTH then Inl (report_return st TLV_ERR_LIMIT (Some (it_offset item)))
      else let depth = col_depth c + 1;
               frame = \<lparr>frm_schema = children, frm_start = start, frm_end = start + value_length, frm_tag = elem_tag el,
                 frm_offset = it_offset item\<rparr>;
               c = c\<lparr>col_depth := depth, col_frames := (col_frames c)[depth := frame]\<rparr> in
        case report_scope (ra_mem a) (ra_data a) (ra_format a) frame c of
          (rc, c) \<Rightarrow>
            let st = st\<lparr>rs_collector := c\<rparr> in if rc \<noteq> TLV_OK then Inl (report_return st rc None) else Inr st)"

definition report_item :: "report_args \<Rightarrow> report_state \<Rightarrow> tlv_tree_item_t \<Rightarrow> report_result + report_state" where
  "report_item a st item =
     (let c = (rs_collector st)\<lparr>col_depth := it_depth item\<rparr>; st = st\<lparr>rs_collector := c\<rparr>;
          current = ra_mem a (frm_schema (col_frames c ! it_depth item)); tag = elem_tag (it_element item); pos = it_offset item in
      case rule_for (table_rules current) tag of
        None \<Rightarrow>
          let c = (if ra_unknown a = TLV_SCHEMA_UNKNOWN_REJECT \<or>
                      (ra_unknown a = TLV_SCHEMA_UNKNOWN_BY_SCHEMA \<and> \<not> tb_allow_unknown current)
                   then add_issue c TLV_SCHEMA_ISSUE_UNEXPECTED tag (Some pos) (\<lambda>d. d) else c) in
          Inr (report_skip (st\<lparr>rs_collector := c\<rparr>) item)
      | Some i \<Rightarrow>
          let rule = table_rules current ! i in
          case tlv_size_to_native (val_size (elem_value (it_element item))) True of
            (rc, olen) \<Rightarrow>
              if rc \<noteq> TLV_OK then Inl (report_return st rc None)
              else let value_length = the olen;
                       c = (if tlv_schema_validate_length (sr_entry rule) value_length \<noteq> TLV_OK
                            then add_issue c TLV_SCHEMA_ISSUE_LENGTH tag (Some pos) (\<lambda>d. schema_issue_length d rule value_length)
                            else c);
                       constructed = (case fmt_is_constructed (the (ra_format a)) of None \<Rightarrow> False | Some p \<Rightarrow> p tag);
                       kind_ok = (\<not> kind_violated rule constructed);
                       c = (if \<not> kind_ok
                            then add_issue c TLV_SCHEMA_ISSUE_KIND tag (Some pos) (\<lambda>d. schema_issue_form d rule constructed)
                            else c);
                       st = st\<lparr>rs_collector := c\<rparr> in
                case (if kind_ok then sr_children rule else None) of
                  Some children \<Rightarrow> report_children a st item children value_length
                | None \<Rightarrow> Inr (report_skip st item))"

partial_function (option) report_loop :: "report_args \<Rightarrow> report_state \<Rightarrow> report_result option" where
  [code]: "report_loop a st =
     (if tlv_tree_reader_at_end (Some (rs_reader st))
      then Some (report_return st (if rep_count (col_report (rs_collector st)) \<noteq> 0 then TLV_ERR_SCHEMA else TLV_OK) None)
      else case tlv_tree_reader_next (Some (rs_reader st)) True of
        (rc, r, item) \<Rightarrow>
          let st = st\<lparr>rs_reader := the r\<rparr> in
          if rc \<noteq> TLV_OK then Some (report_return st rc None)
          else case report_item a st (the item) of
            Inl e \<Rightarrow> Some e
          | Inr st \<Rightarrow> report_loop a st)"

definition frame0 :: "table_addr \<Rightarrow> nat \<Rightarrow> frame_t" where
  "frame0 schema stop = \<lparr>frm_schema = schema, frm_start = 0, frm_end = stop, frm_tag = tlv_tag Null 0, frm_offset = 0\<rparr>"

text \<open>The stack is zeroed: a null pointer to a table is address 0 here and is not followed.\<close>

definition validate_all ::
  "tables \<Rightarrow> ptr \<Rightarrow> nat \<Rightarrow> tlv_format_t option \<Rightarrow> table_addr \<Rightarrow> nat \<Rightarrow> nat \<Rightarrow> tlv_schema_unknown_policy_t
     \<Rightarrow> tlv_schema_diagnostic_report_t \<Rightarrow> tlv_diagnostic_t option
     \<Rightarrow> (tlv_result_t \<times> tlv_schema_diagnostic_report_t \<times> tlv_diagnostic_t option) option" where
  "validate_all mem data sz format schema max_depth max_elements unknown report diagnostic =
     Option.bind (schema_check_tree data sz format max_depth max_elements diagnostic) (\<lambda>(rc, diagnostic).
       if rc \<noteq> TLV_OK then Some (rc, report, diagnostic)
       else let frame = frame0 schema sz;
                c = \<lparr>col_report = report, col_frames = (replicate (TLV_SCHEMA_MAX_DEPTH + 1) (frame0 0 0))[0 := frame], col_depth = 0\<rparr> in
         case report_scope mem data format frame c of
           (rc, c) \<Rightarrow>
             if rc \<noteq> TLV_OK then Some (rc, col_report c, diagnostic)
             else (case tlv_tree_reader_init True data sz format
                     (Some (replicate TLV_SCHEMA_MAX_DEPTH \<lparr>fr_end = 0, fr_resume = 0\<rparr>)) TLV_SCHEMA_MAX_DEPTH
                     max_depth max_elements of
                (rc, reader) \<Rightarrow>
                  if rc \<noteq> TLV_OK then Some (rc, col_report c, diagnostic)
                  else map_option (\<lambda>(rc, at, report).
                         (rc, report, case at of None \<Rightarrow> diagnostic
                            | Some pos \<Rightarrow> map_option (\<lambda>d. tlv_diagnostic_set_location d TLV_LOCATION_INPUT TLV_LOCATION_POINT pos pos)
                                diagnostic))
                       (report_loop \<lparr>ra_mem = mem, ra_data = data, ra_format = format, ra_unknown = unknown\<rparr>
                          \<lparr>rs_reader = the reader, rs_collector = c\<rparr>)))"

type_synonym report_call =
  "(tlv_result_t \<times> tlv_schema_diagnostic_report_t option \<times> tlv_schema_diagnostic_t option) option"

definition report_checked ::
  "tables \<Rightarrow> ptr \<Rightarrow> nat \<Rightarrow> tlv_format_t option \<Rightarrow> table_addr \<Rightarrow> nat \<Rightarrow> nat \<Rightarrow> tlv_schema_unknown_policy_t
     \<Rightarrow> tlv_schema_diagnostic_report_t \<Rightarrow> tlv_schema_diagnostic_t option \<Rightarrow> report_call" where
  "report_checked mem data sz format schema max_depth max_elements unknown report diagnostic =
     map_option (\<lambda>(rc, report, diag).
         (rc, Some (if rc \<noteq> TLV_OK \<and> rc \<noteq> TLV_ERR_SCHEMA then report\<lparr>rep_count := 0\<rparr> else report),
          map_option (\<lambda>d. d\<lparr>sd_diagnostic := (the diag)\<lparr>diag_code := rc\<rparr>\<rparr>) diagnostic))
       (validate_all mem data sz format schema max_depth max_elements unknown report (map_option sd_diagnostic diagnostic))"

definition tlv_schema_validate_all_diag ::
  "tables \<Rightarrow> ptr \<Rightarrow> nat \<Rightarrow> tlv_format_t option \<Rightarrow> table_addr option \<Rightarrow> nat \<Rightarrow> nat \<Rightarrow> tlv_schema_unknown_policy_t
     \<Rightarrow> tlv_schema_diagnostic_report_t option \<Rightarrow> tlv_schema_diagnostic_t option \<Rightarrow> report_call" where
  "tlv_schema_validate_all_diag mem data sz format schema max_depth max_elements unknown report diagnostic =
     (case report of None \<Rightarrow> Some (TLV_ERR_NULL_ARG, None, diagnostic)
      | Some report \<Rightarrow>
          let report = report\<lparr>rep_count := 0\<rparr> in
          if schema = None \<or> (rep_diagnostics report = None \<and> rep_capacity report \<noteq> 0)
          then Some (TLV_ERR_NULL_ARG, Some report, diagnostic)
          else if unknown \<notin> {TLV_SCHEMA_UNKNOWN_BY_SCHEMA, TLV_SCHEMA_UNKNOWN_ALLOW, TLV_SCHEMA_UNKNOWN_REJECT}
          then Some (TLV_ERR_INVALID_ARG, Some report, diagnostic)
          else let diagnostic = map_option (\<lambda>_. tlv_schema_diagnostic_init) diagnostic in
            Option.bind (tlv_schema_check mem schema diagnostic) (\<lambda>(rc, diagnostic).
              if rc \<noteq> TLV_OK then Some (rc, Some report, diagnostic)
              else report_checked mem data sz format (the schema) max_depth max_elements unknown report diagnostic))"

definition tlv_schema_validate_all_checked ::
  "tables \<Rightarrow> tlv_schema_checked_t option \<Rightarrow> ptr \<Rightarrow> nat \<Rightarrow> tlv_format_t option \<Rightarrow> nat \<Rightarrow> nat \<Rightarrow> tlv_schema_unknown_policy_t
     \<Rightarrow> tlv_schema_diagnostic_report_t option \<Rightarrow> tlv_schema_diagnostic_t option \<Rightarrow> report_call" where
  "tlv_schema_validate_all_checked mem checked data sz format max_depth max_elements unknown report diagnostic =
     (case report of None \<Rightarrow> Some (TLV_ERR_NULL_ARG, None, diagnostic)
      | Some report \<Rightarrow>
          let report = report\<lparr>rep_count := 0\<rparr> in
          if checked = None \<or> (rep_diagnostics report = None \<and> rep_capacity report \<noteq> 0)
          then Some (TLV_ERR_NULL_ARG, Some report, diagnostic)
          else if unknown \<notin> {TLV_SCHEMA_UNKNOWN_BY_SCHEMA, TLV_SCHEMA_UNKNOWN_ALLOW, TLV_SCHEMA_UNKNOWN_REJECT}
          then Some (TLV_ERR_INVALID_ARG, Some report, diagnostic)
          else case chk_schema (the checked) of None \<Rightarrow> Some (TLV_ERR_INVALID_STATE, Some report, diagnostic)
            | Some schema \<Rightarrow>
                report_checked mem data sz format schema max_depth max_elements unknown report
                  (map_option (\<lambda>_. tlv_schema_diagnostic_init) diagnostic))"

end
