(* ===== verification/TLV_Schema_Laws.thy ===== *)
theory TLV_Schema_Laws
  imports TLV_Schema
begin

text \<open>
  What the checks of a schema definition decide: a table is well formed, and a search through the tables that the
  rules refer to visits every reachable one.
\<close>

section \<open>Tables\<close>

definition group_wf :: "tlv_structure_schema_t \<Rightarrow> tlv_structure_group_t \<Rightarrow> bool" where
  "group_wf table g \<longleftrightarrow>
     sg_id g \<noteq> 0 \<and> sg_min_occurs g \<le> sg_max_occurs g \<and> (\<exists>rule \<in> set (table_rules table). sr_group rule = sg_id g)"

definition rule_wf :: "tlv_structure_schema_t \<Rightarrow> tlv_structure_rule_t \<Rightarrow> bool" where
  "rule_wf table rule \<longleftrightarrow>
     (\<exists>e. sr_entry rule = Some e \<and> tag_size (se_tag e) \<noteq> 0 \<and> tag_data (se_tag e) \<noteq> Null \<and>
        se_min_length e \<le> se_max_length e) \<and>
     sr_min_occurs rule \<le> sr_max_occurs rule \<and>
     sr_kind rule \<in> {TLV_SCHEMA_ANY, TLV_SCHEMA_PRIMITIVE, TLV_SCHEMA_CONSTRUCTED} \<and>
     (sr_children rule \<noteq> None \<longrightarrow> sr_kind rule = TLV_SCHEMA_CONSTRUCTED) \<and>
     (sr_group rule \<noteq> 0 \<longrightarrow> (\<exists>g \<in> set (table_groups table). sg_id g = sr_group rule) \<and> sr_min_occurs rule = 0)"

definition table_wf :: "tlv_structure_schema_t \<Rightarrow> bool" where
  "table_wf table \<longleftrightarrow>
     (tb_count table = 0 \<or> tb_rules table \<noteq> None) \<and> (tb_group_count table = 0 \<or> tb_groups table \<noteq> None) \<and>
     tb_order table \<in> {TLV_SCHEMA_ORDER_ANY, TLV_SCHEMA_ORDER_SEQUENCE} \<and>
     distinct (map sg_id (table_groups table)) \<and> (\<forall>g \<in> set (table_groups table). group_wf table g) \<and>
     sorted_wrt (\<lambda>r r'. \<not> tlv_tag_equal (rule_tag r') (rule_tag r)) (table_rules table) \<and>
     (\<forall>rule \<in> set (table_rules table). rule_wf table rule)"

lemma first_bad_None: "first_bad bad before xs = None \<longleftrightarrow> (\<forall>i < length xs. \<not> bad (before @ take i xs) (xs ! i))"
proof (induction xs arbitrary: before)
  case (Cons x xs)
  then show ?case by (auto simp: All_less_Suc2)
qed simp

lemma first_index_None: "first_index P xs = None \<longleftrightarrow> (\<forall>x \<in> set xs. \<not> P x)"
  by (induction xs) auto

lemma first_index_Some:
  "first_index P xs = Some i \<longleftrightarrow> i < length xs \<and> P (xs ! i) \<and> (\<forall>j < i. \<not> P (xs ! j))"
proof (induction xs arbitrary: i)
  case (Cons x xs)
  then show ?case by (cases i) (auto simp: All_less_Suc2)
qed simp

lemma pairwise_nth: "sorted_wrt R xs \<longleftrightarrow> (\<forall>i < length xs. \<forall>y \<in> set (take i xs). R y (xs ! i))"
proof -
  have "set (take i xs) = (!) xs ` {..<i}" if "i < length xs" for i
    using that nth_image [of i xs] by (simp add: atLeast0LessThan)
  then show ?thesis unfolding sorted_wrt_iff_nth_less by auto
qed

lemma distinct_sorted_wrt: "distinct (map f xs) \<longleftrightarrow> sorted_wrt (\<lambda>x y. f x \<noteq> f y) xs"
  by (induction xs) auto

lemma groups_good:
  "first_bad (group_bad table) [] (table_groups table) = None \<longleftrightarrow>
     distinct (map sg_id (table_groups table)) \<and> (\<forall>g \<in> set (table_groups table). group_wf table g)"
  unfolding first_bad_None distinct_sorted_wrt pairwise_nth
  by (fastforce simp: group_bad_def group_wf_def list_ex_iff not_less in_set_conv_nth all_set_conv_all_nth)

lemma rules_good:
  "first_bad (rule_bad table) [] (table_rules table) = None \<longleftrightarrow>
     sorted_wrt (\<lambda>r r'. \<not> tlv_tag_equal (rule_tag r') (rule_tag r)) (table_rules table) \<and>
     (\<forall>rule \<in> set (table_rules table). rule_wf table rule)"
proof -
  have "\<not> rule_bad table before rule \<longleftrightarrow> (\<forall>r \<in> set before. \<not> tlv_tag_equal (rule_tag rule) (rule_tag r)) \<and> rule_wf table rule"
    for before rule
    unfolding rule_bad_def rule_wf_def group_index_def first_index_None list_ex_iff
    by (cases "sr_entry rule") (auto simp: rule_tag_def not_less first_index_None)
  then show ?thesis unfolding first_bad_None pairwise_nth by (auto simp: all_set_conv_all_nth)
qed

lemma check_table_iff: "fst (check_table mem a) = TLV_OK \<longleftrightarrow> table_wf (mem a)"
proof -
  have "fst (check_table mem a) = TLV_OK \<longleftrightarrow>
      \<not> (tb_rules (mem a) = None \<and> tb_count (mem a) \<noteq> 0) \<and> \<not> (tb_groups (mem a) = None \<and> tb_group_count (mem a) \<noteq> 0) \<and>
      \<not> (tb_order (mem a) \<noteq> TLV_SCHEMA_ORDER_ANY \<and> tb_order (mem a) \<noteq> TLV_SCHEMA_ORDER_SEQUENCE) \<and>
      first_bad (group_bad (mem a)) [] (table_groups (mem a)) = None \<and>
      first_bad (rule_bad (mem a)) [] (table_rules (mem a)) = None"
    by (simp add: check_table_def Let_def split: option.split)
  then show ?thesis unfolding groups_good rules_good table_wf_def by auto
qed

lemma check_table_result:
  "fst (check_table mem a) \<in> {TLV_OK, TLV_ERR_INVALID_SCHEMA}" "sdl_owner (snd (check_table mem a)) = Some a"
  by (auto simp: check_table_def Let_def split: option.split)

section \<open>The search through the tables\<close>

definition children_of :: "tlv_structure_rule_t list \<Rightarrow> table_addr set" where
  "children_of rules = {c. \<exists>rule \<in> set rules. sr_children rule = Some c}"

definition schema_reach :: "tables \<Rightarrow> table_addr \<Rightarrow> table_addr set" where
  "schema_reach mem s = {(a, c). c \<in> children_of (table_rules (mem a))}\<^sup>* `` {s}"

lemma children_of_simps [simp]:
  "children_of [] = {}"
  "children_of (rule # rules) = set_option (sr_children rule) \<union> children_of rules"
  by (auto simp: children_of_def)

lemma enqueue_children_Some:
  assumes "distinct queue" "length queue \<le> TLV_SCHEMA_MAX_TABLES" "enqueue_children queue rules = Some queue'"
  shows "distinct queue' \<and> length queue' \<le> TLV_SCHEMA_MAX_TABLES \<and> set queue' = set queue \<union> children_of rules \<and> (\<exists>new. queue' = queue @ new)"
  using assms
proof (induction queue rules rule: enqueue_children.induct)
  case (2 queue rule rules)
  show ?case
  proof (cases "sr_children rule")
    case (Some child)
    show ?thesis
    proof (cases "child \<in> set queue")
      case True
      then show ?thesis using 2 Some by auto
    next
      case False
      then have "length queue \<noteq> TLV_SCHEMA_MAX_TABLES" "enqueue_children (queue @ [child]) rules = Some queue'"
        using 2(6) Some by (auto split: if_splits)
      then show ?thesis using 2(3) [OF Some] False Some 2(4,5) by auto
    qed
  qed (use 2 in auto)
qed auto

lemma enqueue_children_None:
  assumes "distinct queue" "enqueue_children queue rules = None"
  shows "TLV_SCHEMA_MAX_TABLES < card (set queue \<union> children_of rules)"
  using assms
proof (induction queue rules rule: enqueue_children.induct)
  case (2 queue rule rules)
  show ?case
  proof (cases "sr_children rule")
    case (Some child)
    have fin: "finite (children_of rules)"
      by (rule finite_subset [of _ "(\<lambda>rule. the (sr_children rule)) ` set rules"]) (force simp: children_of_def)+
    show ?thesis
    proof (cases "child \<notin> set queue \<and> length queue = TLV_SCHEMA_MAX_TABLES")
      case True
      then have "TLV_SCHEMA_MAX_TABLES < card (insert child (set queue))" using 2(4) by (simp add: distinct_card)
      also have "\<dots> \<le> card (set queue \<union> children_of (rule # rules))" using Some fin by (intro card_mono) auto
      finally show ?thesis .
    next
      case False
      then show ?thesis using 2 Some by (auto simp: insert_absorb split: if_splits)
    qed
  qed (use 2 in auto)
qed auto

lemma check_tables_decides:
  fixes mem s
  defines "R \<equiv> schema_reach mem s"
  shows "distinct queue \<Longrightarrow> length queue \<le> TLV_SCHEMA_MAX_TABLES \<Longrightarrow> i \<le> length queue \<Longrightarrow> s \<in> set queue \<Longrightarrow> set queue \<subseteq> R \<Longrightarrow>
    (\<forall>j < i. table_wf (mem (queue ! j)) \<and> children_of (table_rules (mem (queue ! j))) \<subseteq> set queue) \<Longrightarrow>
    \<exists>rc l. check_tables mem queue i location = Some (rc, l) \<and>
      (rc = TLV_OK \<and> finite R \<and> card R \<le> TLV_SCHEMA_MAX_TABLES \<and> (\<forall>a \<in> R. table_wf (mem a)) \<or>
       rc = TLV_ERR_INVALID_SCHEMA \<and> (\<exists>a \<in> R. \<not> table_wf (mem a) \<and> sdl_owner l = Some a) \<or>
       rc = TLV_ERR_UNSUPPORTED \<and> (infinite R \<or> TLV_SCHEMA_MAX_TABLES < card R))"
proof (induction "TLV_SCHEMA_MAX_TABLES - i" arbitrary: queue i location rule: less_induct)
  case less
  note inv = less.prems
  show ?case
  proof (cases "i < length queue")
    case False
    have closed: "children_of (table_rules (mem a)) \<subseteq> set queue" "table_wf (mem a)" if "a \<in> set queue" for a
    proof -
      from that obtain j where "j < length queue" "a = queue ! j" unfolding in_set_conv_nth by blast
      then have "j < i" "a = queue ! j" using False by simp_all
      then show "children_of (table_rules (mem a)) \<subseteq> set queue" "table_wf (mem a)" using inv(6) by auto
    qed
    have "R \<subseteq> set queue"
      unfolding R_def schema_reach_def
      using Image_closed_trancl [of "{(a, c). c \<in> children_of (table_rules (mem a))}" "set queue"] closed(1) inv(4) by blast
    then have "R = set queue" using inv(5) by blast
    then show ?thesis using False inv(1,2) closed(2)
      by (subst check_tables.simps) (auto simp: distinct_card)
  next
    case True
    let ?a = "queue ! i"
    have a: "?a \<in> R" using True inv(5) nth_mem by blast
    obtain rc l where ct: "check_table mem ?a = (rc, l)" by fastforce
    show ?thesis
    proof (cases "rc = TLV_OK")
      case False
      then have "rc = TLV_ERR_INVALID_SCHEMA" "\<not> table_wf (mem ?a)" "sdl_owner l = Some ?a"
        using check_table_result [of mem ?a] check_table_iff [of mem ?a] ct by auto
      then show ?thesis using True ct a by (subst check_tables.simps) auto
    next
      case ok: True
      then have wf: "table_wf (mem ?a)" using check_table_iff [of mem ?a] ct by simp
      have kids: "children_of (table_rules (mem ?a)) \<subseteq> R"
        using a unfolding R_def schema_reach_def by (auto intro: rtrancl_into_rtrancl)
      show ?thesis
      proof (cases "enqueue_children queue (table_rules (mem ?a))")
        case None
        then have "TLV_SCHEMA_MAX_TABLES < card (set queue \<union> children_of (table_rules (mem ?a)))"
          using enqueue_children_None inv(1) by blast
        moreover have "set queue \<union> children_of (table_rules (mem ?a)) \<subseteq> R" using kids inv(5) by blast
        ultimately have "infinite R \<or> TLV_SCHEMA_MAX_TABLES < card R" by (meson card_mono less_le_trans)
        then show ?thesis using True ct ok None by (subst check_tables.simps) auto
      next
        case (Some queue')
        note Q = enqueue_children_Some [OF inv(1,2) Some]
        then obtain new where new: "queue' = queue @ new" by blast
        have "\<exists>rc l'. check_tables mem queue' (i + 1) l = Some (rc, l') \<and>
          (rc = TLV_OK \<and> finite R \<and> card R \<le> TLV_SCHEMA_MAX_TABLES \<and> (\<forall>a \<in> R. table_wf (mem a)) \<or>
           rc = TLV_ERR_INVALID_SCHEMA \<and> (\<exists>a \<in> R. \<not> table_wf (mem a) \<and> sdl_owner l' = Some a) \<or>
           rc = TLV_ERR_UNSUPPORTED \<and> (infinite R \<or> TLV_SCHEMA_MAX_TABLES < card R))"
        proof (rule less.hyps)
          show "TLV_SCHEMA_MAX_TABLES - (i + 1) < TLV_SCHEMA_MAX_TABLES - i" using True inv(2) by simp
          show "\<forall>j < i + 1. table_wf (mem (queue' ! j)) \<and> children_of (table_rules (mem (queue' ! j))) \<subseteq> set queue'"
            using inv(6) True wf Q by (auto simp: new nth_append less_Suc_eq)
        qed (use Q True inv(4,5) kids new in auto)
        then show ?thesis using True ct ok Some by (subst check_tables.simps) auto
      qed
    qed
  qed
qed

end
