(* ===== verification/TLV_Tree_Items.thy ===== *)
theory TLV_Tree_Items
  imports TLV_Visitor
begin

text \<open>
  What a client of the node interface of the tree reader knows about an item: its depth, its form, where its value lies,
  and what remains open behind it.
\<close>

definition open_depth :: "tlv_tree_reader_t \<Rightarrow> nat" where
  "open_depth r = tr_depth r + (if tr_descend_pending r then 1 else 0)"

text \<open>The reader reads this input with this format and these limits.\<close>

definition reads_from :: "ptr \<Rightarrow> tlv_format_t option \<Rightarrow> nat \<Rightarrow> tlv_tree_reader_t \<Rightarrow> bool" where
  "reads_from data format max_depth r \<longleftrightarrow>
     rd_data (tr_input r) = data \<and> rd_format (tr_input r) = format \<and> rd_base_offset (tr_input r) = 0 \<and> tr_max_depth r = max_depth"

text \<open>An item as the reader reports it for the nodes of that input.\<close>

definition item_of :: "ptr \<Rightarrow> tlv_format_t option \<Rightarrow> tlv_tree_item_t \<Rightarrow> bool" where
  "item_of data format it \<longleftrightarrow> data \<noteq> Null \<and>
     it_constructed it = (case fmt_is_constructed (the format) of None \<Rightarrow> False | Some p \<Rightarrow> p (elem_tag (it_element it))) \<and>
     val_data (elem_value (it_element it)) = ptr_add data (it_offset it + rg_offset (src_value (it_source it)))"

definition event_item :: "tlv_tree_event_t \<Rightarrow> tlv_tree_item_t" where
  "event_item e = \<lparr>it_element = ev_element e, it_source = ev_source e, it_depth = ev_depth e, it_offset = ev_offset e,
     it_constructed = (ev_kind e = TLV_TREE_BEGIN)\<rparr>"

text \<open>What is open after an item.\<close>

definition after_item :: "tlv_tree_item_t \<Rightarrow> tlv_tree_reader_t \<Rightarrow> bool" where
  "after_item it r \<longleftrightarrow>
     (if it_constructed it \<and> val_size (elem_value (it_element it)) \<noteq> 0
      then tr_descend_pending r \<and> tr_depth r = it_depth it
      else \<not> tr_descend_pending r \<and> tr_depth r \<le> it_depth it)"

lemma close_event_keeps:
  assumes "close_event r e = Some (r', e')"
  shows "reads_from data format m r' = reads_from data format m r" "open_depth r' \<le> open_depth r" "ev_kind e' = TLV_TREE_END"
    "tr_descend_pending r' = tr_descend_pending r" "tr_depth r' \<le> tr_depth r"
  using assms by (auto simp: close_event_def reads_from_def open_depth_def Let_def split: if_splits)

lemma drain_loop_keeps:
  assumes "\<not> (tr_descend_pending r \<and> tr_end_pending r)"
  shows "reads_from data format m (drain_loop r e) = reads_from data format m r" "open_depth (drain_loop r e) \<le> open_depth r"
    "tr_descend_pending (drain_loop r e) = tr_descend_pending r" "tr_depth (drain_loop r e) \<le> tr_depth r"
    "tr_descend_pending r \<Longrightarrow> drain_loop r e = r"
proof -
  have "reads_from data format m (drain_loop r e) = reads_from data format m r \<and> open_depth (drain_loop r e) \<le> open_depth r \<and>
    tr_descend_pending (drain_loop r e) = tr_descend_pending r \<and> tr_depth (drain_loop r e) \<le> tr_depth r"
  proof (induction r e rule: drain_loop.induct)
    case (1 r e)
    show ?case
    proof (cases "close_event r e")
      case None
      then show ?thesis by (subst (1 2 3 4) drain_loop.simps) simp
    next
      case (Some p)
      then obtain r' e' where p: "close_event r e = Some (r', e')" by (cases p) auto
      note IH = 1 [OF p refl] and C = close_event_keeps(1) [OF p, of data format m] close_event_keeps(2-) [OF p]
      have "drain_loop r e = drain_loop r' e'" using p by (subst drain_loop.simps) simp
      then show ?thesis using IH C by auto
    qed
  qed
  then show "reads_from data format m (drain_loop r e) = reads_from data format m r" "open_depth (drain_loop r e) \<le> open_depth r"
    "tr_descend_pending (drain_loop r e) = tr_descend_pending r" "tr_depth (drain_loop r e) \<le> tr_depth r" by auto
  assume "tr_descend_pending r"
  then have "close_event r e = None" using assms by (auto simp: close_event_def Let_def)
  then show "drain_loop r e = r" by (subst drain_loop.simps) simp
qed

lemma tree_read_item:
  assumes ok: "tree_read r depth input diag = (TLV_OK, r', ev, d)" and wf: "reader_wf input"
    and input: "rd_data input = rd_data (tr_input r)" "rd_format input = rd_format (tr_input r)" "rd_base_offset input = 0"
    and r: "reads_from data format m r"
  obtains e where "ev = Some e" "ev_depth e = depth" "ev_kind e \<noteq> TLV_TREE_END" "item_of data format (event_item e)"
    "after_item (event_item e) r'" "reads_from data format m r'"
proof -
  from ok obtain input' res where nx: "reader_next (Some input) True diag = (TLV_OK, input', res, d)"
    by (auto simp: tree_read_def tlv_reader_next_source_diag_def Let_def split: if_splits prod.splits)
  show thesis
  proof (rule reader_next_OK [OF nx])
    fix dec
    assume lt: "rd_pos input < rd_size input"
      and dec: "tlv_format_decode (rd_format input) (ptr_add (rd_data input) (rd_pos input)) (rd_size input - rd_pos input) True =
        (TLV_OK, Some dec, None)"
      and part: "partitioned dec (ptr_add (rd_data input) (rd_pos input)) (rd_size input - rd_pos input)"
      and in': "input' = Some (input\<lparr>rd_pos := rd_pos input + src_size (dec_source dec)\<rparr>)"
      and res: "res = Some (dec_element dec, dec_source dec)"
    let ?c = "case fmt_is_constructed (the format) of None \<Rightarrow> False | Some p \<Rightarrow> p (elem_tag (dec_element dec))"
    let ?e = "\<lparr>ev_kind = (if ?c then TLV_TREE_BEGIN else TLV_TREE_ELEMENT), ev_element = dec_element dec, ev_source = dec_source dec,
      ev_depth = depth, ev_offset = rd_pos input, ev_skipped = False\<rparr>"
    have off: "tlv_reader_offset (Some input) = rd_pos input" using reader_offset_exact [OF wf] input(3) by simp
    have f: "rd_format input = format" "rd_data input = data" using input r by (auto simp: reads_from_def)
    have "data \<noteq> Null"
      using dec f(2) by (cases "rd_format input")
        (auto simp: tlv_format_decode_OK_iff, simp add: tlv_format_decode_def tlv_format_can_read_def)
    have "ev = Some ?e \<and> r' = tree_publish r depth (the input') (dec_element dec) (dec_source dec) ?c (rd_pos input)"
      using ok lt nx in' res off f(1)
      by (cases "fmt_is_constructed (the format)")
        (auto simp: tree_read_def tlv_reader_next_source_diag_def Let_def split: if_splits)
    moreover have "item_of data format (event_item ?e)"
      using part f(2) \<open>data \<noteq> Null\<close> by (simp add: item_of_def event_item_def partitioned_def Let_def split: option.split)
    moreover have "after_item (event_item ?e) (tree_publish r depth (the input') (dec_element dec) (dec_source dec) ?c (rd_pos input))"
      by (simp add: after_item_def event_item_def tree_publish_def Let_def)
    moreover have "reads_from data format m (tree_publish r depth (the input') (dec_element dec) (dec_source dec) ?c (rd_pos input))"
      using r by (simp add: reads_from_def tree_publish_def Let_def)
    ultimately show thesis by (intro that [of ?e]) auto
  qed
qed

lemma tree_event_item:
  assumes wf: "tree_wf r" and r: "reads_from data format m r" and ev: "tree_event r diag = (TLV_OK, r', Some e, d)"
  shows "reads_from data format m r'" "ev_kind e = TLV_TREE_END \<Longrightarrow> open_depth r' \<le> open_depth r"
    "ev_kind e \<noteq> TLV_TREE_END \<Longrightarrow> item_of data format (event_item e) \<and> after_item (event_item e) r' \<and> ev_depth e \<le> open_depth r \<and>
       ev_depth e \<le> m"
proof -
  have "reads_from data format m r' \<and> (if ev_kind e = TLV_TREE_END then open_depth r' \<le> open_depth r
    else item_of data format (event_item e) \<and> after_item (event_item e) r' \<and> ev_depth e \<le> open_depth r \<and> ev_depth e \<le> m)"
  proof (cases "close_event r event0")
    case (Some p)
    then obtain r1 e1 where p: "close_event r event0 = Some (r1, e1)" by (cases p) auto
    then have "r' = r1\<lparr>tr_item_projection := False\<rparr>" "e = e1" using ev by (auto simp: tree_event_def)
    then show ?thesis using close_event_keeps(1) [OF p, of data format m] close_event_keeps(2-) [OF p] r
      by (simp add: reads_from_def open_depth_def)
  next
    case None
    let ?d = "tr_depth r" and ?in = "tr_input r"
    note B = tree_bounds [OF wf]
    have in_wf: "reader_wf ?in" and dm: "?d \<le> m" using wf r by (auto simp: tree_wf_def reads_from_def)
    define st where "st = (if tr_descend_pending r then fr_end (tr_pending r) else enclosing (tr_frames r) (window_end r) ?d)"
    have b: "rd_base_offset ?in + rd_pos ?in \<le> st" "st \<le> rd_base_offset ?in + rd_size ?in"
      using wf B(4) by (auto simp: st_def tree_wf_def tree_pos_def window_end_def frame_in_def)
    define input where "input = (if tr_descend_pending r \<or> ?d \<noteq> 0 then bound_input ?in st else ?in)"
    have rd: "tree_read r (open_depth r) input diag = (TLV_OK, r', Some e, d) \<and> open_depth r \<le> m"
      using ev None dm r
      by (auto simp: tree_event_def Let_def open_depth_def input_def st_def enclosing_def reads_from_def split: if_splits)
    have "reader_wf input" "rd_data input = rd_data ?in" "rd_format input = rd_format ?in" "rd_base_offset input = 0"
      using in_wf bound_input_wf(1) [OF in_wf b] r by (auto simp: input_def bound_input_def reads_from_def)
    from tree_read_item [OF conjunct1 [OF rd] this r] rd show ?thesis by force
  qed
  then show "reads_from data format m r'" "ev_kind e = TLV_TREE_END \<Longrightarrow> open_depth r' \<le> open_depth r"
    "ev_kind e \<noteq> TLV_TREE_END \<Longrightarrow> item_of data format (event_item e) \<and> after_item (event_item e) r' \<and> ev_depth e \<le> open_depth r \<and>
       ev_depth e \<le> m" by auto
qed

lemma next_node_item:
  "tree_wf r \<Longrightarrow> reads_from data format m r \<Longrightarrow> next_node r diag d0 = (TLV_OK, r', Some e, d) \<Longrightarrow>
   reads_from data format m r' \<and> item_of data format (event_item e) \<and> after_item (event_item e) r' \<and> ev_depth e \<le> open_depth r \<and>
   ev_depth e \<le> m"
proof (induction r diag d0 rule: next_node.induct)
  case (1 r diag d0)
  obtain rc r1 ev1 d1 where ev: "tree_event r diag = (rc, r1, ev1, d1)" by (metis prod_cases4)
  with 1(4) have ok: "rc = TLV_OK" by (subst (asm) next_node.simps) (auto simp: Let_def split: if_splits)
  note ev = ev [unfolded ok]
  obtain e1 where e1: "ev1 = Some e1" using tree_event_step [OF 1(2) ev] by metis
  note T = tree_event_item [OF 1(2,3) ev [unfolded e1]]
  show ?case
  proof (cases "ev_kind e1 = TLV_TREE_END")
    case False
    then have "r' = r1" "e = e1" using 1(4) ev e1 by (subst (asm) next_node.simps, simp add: Let_def)+
    then show ?thesis using T(1) T(3) [OF False] by simp
  next
    case True
    let ?d = "case d1 of None \<Rightarrow> d0 | Some x \<Rightarrow> Some x"
    have n: "next_node r1 diag ?d = (TLV_OK, r', Some e, d)"
      using 1(4) ev e1 True by (subst (asm) next_node.simps) (simp add: Let_def)
    from 1(1) [OF ev [symmetric] refl refl refl _ e1 True tree_event_wf [OF 1(2) ev] T(1) n] T(2) [OF True]
    show ?thesis by auto
  qed
qed

lemma tree_next_item:
  assumes wf: "tree_wf r" and r: "reads_from data format m r" and n: "tlv_tree_reader_next (Some r) True = (TLV_OK, reader', it)"
  obtains r' item where "reader' = Some r'" "it = Some item" "tree_wf r'" "tree_budget r' < tree_budget r"
    "reads_from data format m r'" "item_of data format item" "after_item item r'" "it_depth item \<le> open_depth r" "it_depth item \<le> m"
proof -
  obtain d where n': "tlv_tree_reader_next_diag (Some r) True False = (TLV_OK, reader', it, d)"
    using n by (auto simp: tlv_tree_reader_next_def split: prod.splits)
  obtain r' item where b: "reader' = Some r'" "it = Some item" "tree_wf r'" "tree_budget r' < tree_budget r"
    using tree_next_budget [OF wf n'] .
  obtain rc r1 ev d1 where nn: "next_node r False None = (rc, r1, ev, d1)" by (metis prod_cases4)
  have ok: "rc = TLV_OK"
    using n' nn next_node_error [OF nn] by (cases ev) (auto simp: tlv_tree_reader_next_diag_def)
  obtain e where e: "ev = Some e" using next_node_budget [OF wf nn [unfolded ok]] by auto
  note N = next_node_item [OF wf r nn [unfolded ok e]]
  let ?r = "r1\<lparr>tr_item_projection := True\<rparr>"
  have eq: "r' = drain_ends ?r" "item = event_item e" using n' nn e ok b(1,2) by (auto simp: tlv_tree_reader_next_diag_def event_item_def)
  have "tree_wf r1" using next_node_wf [OF wf nn] .
  then have "\<not> (tr_descend_pending ?r \<and> tr_end_pending ?r)" by (simp add: tree_wf_def)
  note D = drain_loop_keeps(1) [OF this, of data format m event0] drain_loop_keeps(2-) [OF this, of event0]
  have "reads_from data format m ?r" "after_item (event_item e) ?r" using N by (simp_all add: reads_from_def after_item_def)
  then have "reads_from data format m r'" "after_item item r'"
    using D unfolding eq drain_ends_def after_item_def by (auto split: if_splits)
  then show thesis using N by (intro that [OF b]) (simp_all add: eq event_item_def)
qed

lemma skip_subtree_item:
  assumes wf: "tree_wf r" and r: "reads_from data format m r" and d: "tr_descend_pending r"
  obtains r' where "tlv_tree_reader_skip_subtree (Some r) = (TLV_OK, Some r')" "tree_wf r'" "reads_from data format m r'"
    "\<not> tr_descend_pending r'" "tr_depth r' \<le> tr_depth r" "tree_budget r' \<le> tree_budget r"
proof -
  let ?x = "fr_resume (tr_pending r)" and ?in = "tr_input r"
  let ?r = "r\<lparr>tr_input := ?in\<lparr>rd_pos := size_sub ?x (rd_base_offset ?in)\<rparr>,
     tr_descend_pending := False, tr_end_pending := True, tr_skipped := True\<rparr>"
  let ?r' = "if tr_item_projection r then drain_ends ?r else ?r"
  have s: "tlv_tree_reader_skip_subtree (Some r) = (TLV_OK, Some ?r')"
    using d by (simp add: tlv_tree_reader_skip_subtree_def Let_def)
  note D = drain_loop_keeps(1) [of ?r data format m event0] drain_loop_keeps(2-) [of ?r event0]
  have "tlv_tree_reader_skip_subtree (Some (r\<lparr>tr_item_projection := False\<rparr>)) = (TLV_OK, Some (?r\<lparr>tr_item_projection := False\<rparr>))"
    using d by (simp add: tlv_tree_reader_skip_subtree_def Let_def)
  then have "tree_wf (?r\<lparr>tr_item_projection := False\<rparr>)" using skip_subtree_wf [of "r\<lparr>tr_item_projection := False\<rparr>"] wf by simp
  then have w: "tree_wf ?r" by (simp only: tree_wf_projection)
  have "tree_budget ?r = tree_budget r" using d by (simp add: tree_budget_def tree_open_def)
  moreover have "tree_wf ?r'" by (rule skip_subtree_wf [OF wf s])
  ultimately show thesis using D r drain_loop_budget [OF w, of event0]
    by (intro that [OF s]) (auto simp: drain_ends_def reads_from_def)
qed

end
