(* ===== verification/TLV_Schema_Agreement.thy ===== *)
theory TLV_Schema_Agreement
  imports TLV_Schema_Report TLV_Schema_Laws TLV_Tree_Items
begin

text \<open>
  The two validators agree: the one that stops at the first violation accepts an input exactly when the other one has
  nothing to report.  The two run in lockstep until the first violation, and what is reported once stays reported.
\<close>

section \<open>Reports only grow\<close>

definition issues :: "collector_t \<Rightarrow> nat" where
  "issues c = rep_count (col_report c)"

definition grown :: "collector_t \<Rightarrow> collector_t \<Rightarrow> bool" where
  "grown c c' \<longleftrightarrow> issues c \<le> issues c' \<and> col_frames c' = col_frames c \<and> col_depth c' = col_depth c"

lemma grown_refl [simp]: "grown c c"
  by (simp add: grown_def)

lemma grown_trans: "grown c c' \<Longrightarrow> grown c' c'' \<Longrightarrow> grown c c''"
  by (simp add: grown_def)

lemma add_issue_grown: "issues c < issues (add_issue c kind tag offset fill)" "grown c (add_issue c kind tag offset fill)"
  by (simp_all add: grown_def issues_def add_issue_def Let_def)

lemma add_issue_fields [simp]:
  "col_frames (add_issue c kind tag offset fill) = col_frames c" "col_depth (add_issue c kind tag offset fill) = col_depth c"
  "issues (add_issue c kind tag offset fill) = issues c + 1"
  by (simp_all add: issues_def add_issue_def Let_def)

section \<open>Loops over a scope\<close>

text \<open>
  The contract between the body of a loop that stops at a violation and the body of the loop that reports it.
\<close>

locale counting_bodies =
  fixes body :: "tlv_element_t \<Rightarrow> nat \<Rightarrow> 's \<Rightarrow> scope_exit + 's"
    and report_body :: "tlv_element_t \<Rightarrow> nat \<Rightarrow> 's \<times> collector_t \<Rightarrow> unit + 's \<times> collector_t"
    and inv :: "'s \<Rightarrow> bool"
  assumes agree: "inv s \<Longrightarrow> body el pos s = Inr s' \<Longrightarrow> report_body el pos (s, c) = Inr (s', c) \<and> inv s'"
    and reports: "inv s \<Longrightarrow> body el pos s = Inl e \<Longrightarrow>
      fst e \<noteq> TLV_OK \<and> (\<exists>s' c'. report_body el pos (s, c) = Inr (s', c') \<and> issues c < issues c')"
    and keeps: "\<exists>s' c'. report_body el pos (s, c) = Inr (s', c') \<and> grown c c'"
begin

lemma scan_grown:
  "\<exists>rc s' c'. grown c c' \<and> (scope_scan data format stop report_body pos (s, c) = Inr (s', c') \<or>
     (\<exists>at. scope_scan data format stop report_body pos (s, c) = Inl (Inl (rc, at, s', c')) \<and> rc \<noteq> TLV_OK))"
proof (induction "stop - pos" arbitrary: pos s c rule: less_induct)
  case less
  show ?case
  proof (cases "pos < stop")
    case False
    then show ?thesis by (subst (1 2) scope_scan.simps) auto
  next
    case True
    obtain rc res where rd: "tlv_read (ptr_add data pos) (stop - pos) format True = (rc, res)" by fastforce
    show ?thesis
    proof (cases "rc = TLV_OK")
      case False
      then show ?thesis using True rd by (subst (1 2) scope_scan.simps) auto
    next
      case ok: True
      obtain s1 c1 where b: "report_body (fst (the res)) pos (s, c) = Inr (s1, c1)" "grown c c1" using keeps by blast
      have "stop - (pos + snd (the res)) < stop - pos" using tlv_read_used(1) [OF rd [unfolded ok]] True by simp
      from less [OF this, of c1 s1] show ?thesis
        using True rd ok b by (subst (1 2) scope_scan.simps) (auto intro: grown_trans)
    qed
  qed
qed

lemma scan_agree:
  "inv s \<Longrightarrow>
   (case scope_scan data format stop body pos s of
      Inr s' \<Rightarrow> scope_scan data format stop report_body pos (s, c) = Inr (s', c)
    | Inl e \<Rightarrow>
        (case e of Inl (rc, at, s') \<Rightarrow> rc \<noteq> TLV_OK | Inr x \<Rightarrow> fst x \<noteq> TLV_OK) \<and>
        ((\<exists>s' c'. scope_scan data format stop report_body pos (s, c) = Inr (s', c') \<and> issues c < issues c') \<or>
         (\<exists>rc at s' c'. scope_scan data format stop report_body pos (s, c) = Inl (Inl (rc, at, s', c')) \<and> rc \<noteq> TLV_OK)))"
proof (induction "stop - pos" arbitrary: pos s rule: less_induct)
  case less
  show ?case
  proof (cases "pos < stop")
    case False
    then show ?thesis by (subst (1 2 3 4) scope_scan.simps) simp
  next
    case True
    obtain rc res where rd: "tlv_read (ptr_add data pos) (stop - pos) format True = (rc, res)" by fastforce
    show ?thesis
    proof (cases "rc = TLV_OK")
      case False
      then show ?thesis using True rd by (subst (1 2 3 4) scope_scan.simps) auto
    next
      case ok: True
      let ?pos = "pos + snd (the res)"
      have lt: "stop - ?pos < stop - pos" using tlv_read_used(1) [OF rd [unfolded ok]] True by simp
      have step: "scope_scan data format stop b pos st = (case b (fst (the res)) pos st of Inl e \<Rightarrow> Inl (Inr e)
          | Inr st' \<Rightarrow> scope_scan data format stop b ?pos st')" for b :: "tlv_element_t \<Rightarrow> nat \<Rightarrow> 'x \<Rightarrow> 'y + 'x" and st
        using True rd ok by (subst scope_scan.simps) simp
      show ?thesis
      proof (cases "body (fst (the res)) pos s")
        case (Inr s1)
        note A = agree [OF less.prems Inr, of c]
        have eqs: "scope_scan data format stop body pos s = scope_scan data format stop body ?pos s1"
          "scope_scan data format stop report_body pos (s, c) = scope_scan data format stop report_body ?pos (s1, c)"
          using A Inr by (simp_all add: step)
        show ?thesis unfolding eqs using less.hyps [OF lt, of s1] A by blast
      next
        case (Inl e)
        obtain s1 c1 where r: "report_body (fst (the res)) pos (s, c) = Inr (s1, c1)" "issues c < issues c1" "fst e \<noteq> TLV_OK"
          using reports [OF less.prems Inl, of c] by blast
        obtain rc s2 c2 where "grown c1 c2" "scope_scan data format stop report_body ?pos (s1, c1) = Inr (s2, c2) \<or>
            (\<exists>at. scope_scan data format stop report_body ?pos (s1, c1) = Inl (Inl (rc, at, s2, c2)) \<and> rc \<noteq> TLV_OK)"
          using scan_grown by blast
        moreover from this(1) r(2) have "issues c < issues c2" by (simp add: grown_def)
        ultimately show ?thesis using r(1,3) Inl by (auto simp: step)
      qed
    qed
  qed
qed

lemma report_scan_grown:
  obtains rc s' c' where "report_scan data format frame report_body s c = (rc, s', c')" "grown c c'"
  using scan_grown [of c data format "frm_end frame" "frm_start frame" s] by (auto simp: report_scan_def)

lemma report_scan_agree:
  assumes "inv s"
  shows "case scope_scan data format (frm_end frame) body (frm_start frame) s of
      Inr s' \<Rightarrow> report_scan data format frame report_body s c = (TLV_OK, s', c)
    | Inl e \<Rightarrow> fst (scan_exit a e) \<noteq> TLV_OK \<and>
        (\<exists>rc s' c'. report_scan data format frame report_body s c = (rc, s', c') \<and> (rc \<noteq> TLV_OK \<or> issues c < issues c'))"
  using scan_agree [OF assms, of data format "frm_end frame" "frm_start frame" c]
  by (auto simp: report_scan_def scan_exit_def split: sum.splits)

end

lemma violation_not_OK [simp]: "fst (violation d kind tag offset path depth) = TLV_ERR_SCHEMA"
  by (simp add: violation_def)

interpretation rule_bodies: counting_bodies "rule_body a rule" "report_rule_body rule" "\<lambda>n. n \<le> sr_max_occurs rule" for a rule
  by unfold_locales (auto simp: rule_body_def report_rule_body_def scope_violation_def violation_def add_issue_grown split: if_splits)

interpretation group_bodies: counting_bodies "group_body a rules grp" "report_group_body rules grp" "\<lambda>n. n \<le> sg_max_occurs grp"
  for a rules grp
  by unfold_locales (auto simp: group_body_def report_group_body_def scope_violation_def violation_def add_issue_grown split: if_splits)

interpretation order_bodies: counting_bodies "order_body a rules" "report_order_body rules" "\<lambda>_. True" for a rules
  by unfold_locales (auto simp: order_body_def report_order_body_def scope_violation_def violation_def add_issue_grown split: option.splits if_splits)

section \<open>One scope\<close>

text \<open>The arguments of the two scope checks describe the same scope.\<close>

definition same_scope :: "scope_args \<Rightarrow> ptr \<Rightarrow> tlv_format_t option \<Rightarrow> frame_t \<Rightarrow> bool" where
  "same_scope a data format frame \<longleftrightarrow>
     sa_data a = data \<and> sa_format a = format \<and> sa_start a = frm_start frame \<and> sa_end a = frm_end frame"

lemma same_scopeD:
  assumes "same_scope a data format frame"
  shows "sa_data a = data" "sa_format a = format" "sa_start a = frm_start frame" "sa_end a = frm_end frame"
  using assms by (simp_all add: same_scope_def)

lemma report_rules_grown: "\<exists>rc c'. report_rules data format frame rules c = (rc, c') \<and> grown c c'"
proof (induction rules arbitrary: c)
  case (Cons rule rules)
  obtain rc n c1 where s: "report_scan data format frame (report_rule_body rule) 0 c = (rc, n, c1)" "grown c c1"
    by (rule rule_bodies.report_scan_grown)
  let ?c = "if n < sr_min_occurs rule then add_issue c1 TLV_SCHEMA_ISSUE_MISSING (rule_tag rule) (Some (frm_end frame))
      (\<lambda>d. schema_issue_occurs d (Some rule) None n) else c1"
  have "grown c ?c" using s(2) add_issue_grown(2) grown_trans by auto
  then show ?case using s Cons [of ?c] by (auto intro: grown_trans)
qed simp

lemma report_groups_grown: "\<exists>rc c'. report_groups data format frame rules groups c = (rc, c') \<and> grown c c'"
proof (induction groups arbitrary: c)
  case (Cons grp groups)
  obtain rc n c1 where s: "report_scan data format frame (report_group_body rules grp) 0 c = (rc, n, c1)" "grown c c1"
    by (rule group_bodies.report_scan_grown)
  let ?c = "if n < sg_min_occurs grp then add_issue c1 TLV_SCHEMA_ISSUE_MISSING
      (rule_tag (rules ! the (first_index (\<lambda>rule. sr_group rule = sg_id grp) rules))) (Some (frm_end frame))
      (\<lambda>d. schema_issue_occurs d None (Some grp) n) else c1"
  have "grown c ?c" using s(2) add_issue_grown(2) grown_trans by auto
  then show ?case using s Cons [of ?c] by (auto intro: grown_trans)
qed simp

lemma report_scope_grown: obtains rc c' where "report_scope mem data format frame c = (rc, c')" "grown c c'"
proof -
  let ?t = "mem (frm_schema frame)"
  obtain rc1 c1 where 1: "report_rules data format frame (table_rules ?t) c = (rc1, c1)" "grown c c1"
    using report_rules_grown by blast
  obtain rc2 c2 where 2: "report_groups data format frame (table_rules ?t) (table_groups ?t) c1 = (rc2, c2)" "grown c1 c2"
    using report_groups_grown by blast
  obtain rc3 l c3 where 3: "report_scan data format frame (report_order_body (table_rules ?t)) None c2 = (rc3, l, c3)" "grown c2 c3"
    by (rule order_bodies.report_scan_grown)
  have "grown c c2" "grown c c3" using 1 2 3 grown_trans by blast+
  then have "\<exists>rc c'. report_scope mem data format frame c = (rc, c') \<and> grown c c'"
    using 1 2 3 by (simp add: report_scope_def Let_def)
  then show thesis using that by blast
qed

text \<open>
  One part of a scope check: the stopping variant has no exit and the reporting one nothing to report, or
  the first one fails and the second one fails or reports.
\<close>

definition part_agrees :: "scope_exit option \<Rightarrow> collector_t \<Rightarrow> tlv_result_t \<times> collector_t \<Rightarrow> bool" where
  "part_agrees ex c res \<longleftrightarrow>
     (case ex of None \<Rightarrow> res = (TLV_OK, c)
      | Some e \<Rightarrow> fst e \<noteq> TLV_OK \<and> (fst res \<noteq> TLV_OK \<or> issues c < issues (snd res)))"

lemma scan_part_agrees:
  assumes S: "case s of Inr n \<Rightarrow> r = (TLV_OK, n, c)
      | Inl e \<Rightarrow> fst (scan_exit a e) \<noteq> TLV_OK \<and> (\<exists>rc n c'. r = (rc, n, c') \<and> (rc \<noteq> TLV_OK \<or> issues c < issues c'))"
    and G: "\<And>c'. \<exists>rc c''. rest_report c' = (rc, c'') \<and> grown c' c''"
    and N: "part_agrees rest c (rest_report c)"
  shows "part_agrees (case s of Inl e \<Rightarrow> Some (scan_exit a e)
      | Inr n \<Rightarrow> if n < low then Some (scope_violation a kind tag at (fill n)) else rest) c
    (case r of (rc, n, c') \<Rightarrow> if rc \<noteq> TLV_OK then (rc, c')
       else rest_report (if n < low then add_issue c' kind tag' at' (fill n) else c'))"
proof -
  obtain rc n c' where r: "r = (rc, n, c')" by (metis prod_cases3)
  let ?c = "if n < low then add_issue c' kind tag' at' (fill n) else c'"
  obtain rc2 c2 where r2: "rest_report ?c = (rc2, c2)" "grown ?c c2" using G by blast
  have le: "issues ?c \<le> issues c2" "issues c' \<le> issues ?c" using r2(2) by (simp_all add: grown_def)
  show ?thesis
  proof (cases s)
    case (Inl e)
    then show ?thesis using S r r2 le by (auto simp: part_agrees_def)
  next
    case (Inr n')
    then have "rc = TLV_OK" "n' = n" "c' = c" using S r by auto
    then show ?thesis using Inr r r2 le N
      by (cases "n < low") (auto simp: part_agrees_def scope_violation_def violation_def)
  qed
qed

lemma rules_agree:
  assumes a: "same_scope a data format frame"
  shows "part_agrees (check_scope_rules a rules) c (report_rules data format frame rules c)"
proof (induction rules)
  case Nil
  then show ?case by (simp add: part_agrees_def)
next
  case (Cons rule rules)
  have S: "case scope_scan data format (frm_end frame) (rule_body a rule) (frm_start frame) 0 of
      Inr n \<Rightarrow> report_scan data format frame (report_rule_body rule) 0 c = (TLV_OK, n, c)
    | Inl e \<Rightarrow> fst (scan_exit a e) \<noteq> TLV_OK \<and>
        (\<exists>rc n c'. report_scan data format frame (report_rule_body rule) 0 c = (rc, n, c') \<and> (rc \<noteq> TLV_OK \<or> issues c < issues c'))"
    by (rule rule_bodies.report_scan_agree) simp
  show ?case unfolding check_scope_rules.simps report_rules.simps same_scopeD [OF a]
    by (rule scan_part_agrees [OF S report_rules_grown Cons])
qed

lemma groups_agree:
  assumes a: "same_scope a data format frame"
  shows "part_agrees (check_scope_groups a rules groups) c (report_groups data format frame rules groups c)"
proof (induction groups)
  case Nil
  then show ?case by (simp add: part_agrees_def)
next
  case (Cons grp groups)
  have S: "case scope_scan data format (frm_end frame) (group_body a rules grp) (frm_start frame) 0 of
      Inr n \<Rightarrow> report_scan data format frame (report_group_body rules grp) 0 c = (TLV_OK, n, c)
    | Inl e \<Rightarrow> fst (scan_exit a e) \<noteq> TLV_OK \<and>
        (\<exists>rc n c'. report_scan data format frame (report_group_body rules grp) 0 c = (rc, n, c') \<and> (rc \<noteq> TLV_OK \<or> issues c < issues c'))"
    by (rule group_bodies.report_scan_agree) simp
  show ?case unfolding check_scope_groups.simps report_groups.simps Let_def same_scopeD [OF a]
    by (rule scan_part_agrees [OF S report_groups_grown Cons])
qed

lemma scope_agrees:
  assumes a: "same_scope a data format frame"
  shows "if fst (check_scope a (mem (frm_schema frame))) = TLV_OK
    then report_scope mem data format frame c = (TLV_OK, c) \<and> snd (check_scope a (mem (frm_schema frame))) = sa_diag a
    else fst (report_scope mem data format frame c) \<noteq> TLV_OK \<or> issues c < issues (snd (report_scope mem data format frame c))"
proof -
  let ?t = "mem (frm_schema frame)"
  obtain rc1 c1 where r1: "report_rules data format frame (table_rules ?t) c = (rc1, c1)" by fastforce
  obtain rc2 c2 where r2: "report_groups data format frame (table_rules ?t) (table_groups ?t) c1 = (rc2, c2)" "grown c1 c2"
    using report_groups_grown by blast
  obtain rc3 l c3 where r3: "report_scan data format frame (report_order_body (table_rules ?t)) None c2 = (rc3, l, c3)" "grown c2 c3"
    by (rule order_bodies.report_scan_grown)
  have le: "issues c1 \<le> issues c2" "issues c2 \<le> issues c3" using r2 r3 by (simp_all add: grown_def)
  have P1: "part_agrees (check_scope_rules a (table_rules ?t)) c (rc1, c1)" using rules_agree [OF a] r1 by metis
  have P2: "part_agrees (check_scope_groups a (table_rules ?t) (table_groups ?t)) c1 (rc2, c2)" using groups_agree [OF a] r2(1) by metis
  have P3: "part_agrees (check_scope_order a (table_rules ?t)) c2 (rc3, c3)"
  proof -
    have "case scope_scan data format (frm_end frame) (order_body a (table_rules ?t)) (frm_start frame) None of
        Inr n \<Rightarrow> report_scan data format frame (report_order_body (table_rules ?t)) None c2 = (TLV_OK, n, c2)
      | Inl e \<Rightarrow> fst (scan_exit a e) \<noteq> TLV_OK \<and> (\<exists>rc n c'.
          report_scan data format frame (report_order_body (table_rules ?t)) None c2 = (rc, n, c') \<and> (rc \<noteq> TLV_OK \<or> issues c2 < issues c'))"
      by (rule order_bodies.report_scan_agree) simp
    then show ?thesis using a r3(1) by (auto simp: check_scope_order_def part_agrees_def same_scope_def split: sum.splits)
  qed
  show ?thesis
    using P1 P2 P3 r1 r2(1) r3(1) le
    by (auto simp: check_scope_def report_scope_def part_agrees_def Let_def split: option.splits if_splits)
qed

section \<open>One item\<close>

text \<open>A reader in the middle of the traversal, with its budget.\<close>

definition traversing :: "ptr \<Rightarrow> tlv_format_t option \<Rightarrow> nat \<Rightarrow> nat \<Rightarrow> tlv_tree_reader_t \<Rightarrow> bool" where
  "traversing data format m n r \<longleftrightarrow> tree_wf r \<and> reads_from data format m r \<and> tree_budget r \<le> n"

lemma report_skip_item:
  assumes "traversing data format m n (rs_reader st)" "after_item item (rs_reader st)"
  shows "traversing data format m n (rs_reader (report_skip st item))" "open_depth (rs_reader (report_skip st item)) \<le> it_depth item"
    "rs_collector (report_skip st item) = rs_collector st"
proof -
  let ?r = "rs_reader (report_skip st item)"
  have "traversing data format m n ?r \<and> open_depth ?r \<le> it_depth item \<and> rs_collector (report_skip st item) = rs_collector st"
  proof (cases "it_constructed item \<and> val_size (elem_value (it_element item)) \<noteq> 0")
    case True
    then have d: "tr_descend_pending (rs_reader st)" "tr_depth (rs_reader st) = it_depth item" using assms(2) by (auto simp: after_item_def)
    have w: "tree_wf (rs_reader st)" "reads_from data format m (rs_reader st)" "tree_budget (rs_reader st) \<le> n"
      using assms(1) by (auto simp: traversing_def)
    from skip_subtree_item [OF w(1,2) d(1)] obtain r' where
      "tlv_tree_reader_skip_subtree (Some (rs_reader st)) = (TLV_OK, Some r')" "tree_wf r'" "reads_from data format m r'"
      "\<not> tr_descend_pending r'" "tr_depth r' \<le> tr_depth (rs_reader st)" "tree_budget r' \<le> tree_budget (rs_reader st)" .
    then show ?thesis using True w d by (auto simp: report_skip_def traversing_def open_depth_def)
  next
    case False
    then show ?thesis using assms by (auto simp: report_skip_def after_item_def open_depth_def)
  qed
  then show "traversing data format m n ?r" "open_depth ?r \<le> it_depth item" "rs_collector (report_skip st item) = rs_collector st"
    by auto
qed

lemma validate_skip_item:
  assumes "traversing data format m n (vs_reader st)" "after_item item (vs_reader st)" "vs_reader st = rs_reader st'"
  shows "validate_skip st item = Inr (st\<lparr>vs_reader := rs_reader (report_skip st' item)\<rparr>)"
proof (cases "it_constructed item \<and> val_size (elem_value (it_element item)) \<noteq> 0")
  case True
  then have d: "tr_descend_pending (vs_reader st)" using assms(2) by (auto simp: after_item_def)
  then show ?thesis using True assms(3)
    by (simp add: validate_skip_def report_skip_def tlv_tree_reader_skip_subtree_def Let_def)
next
  case False
  then have "report_skip st' item = st'" "validate_skip st item = Inr st" by (auto simp: report_skip_def validate_skip_def)
  then show ?thesis using assms(3) by simp
qed

text \<open>What the reporting traversal does with an item: it fails, or it goes on with at least \<open>k\<close> violations reported.\<close>

definition reported :: "ptr \<Rightarrow> tlv_format_t option \<Rightarrow> nat \<Rightarrow> nat \<Rightarrow> nat \<Rightarrow> report_result + report_state \<Rightarrow> bool" where
  "reported data format m n k res \<longleftrightarrow>
     (case res of Inl e \<Rightarrow> fst e \<noteq> TLV_OK
      | Inr st \<Rightarrow> k \<le> issues (rs_collector st) \<and> traversing data format m n (rs_reader st))"

lemma report_children_reported:
  assumes "k \<le> issues (rs_collector st)" "traversing data format m n (rs_reader st)"
  shows "reported data format m n k (report_children a st item children len)"
proof -
  define start where "start = ptr_diff (val_data (elem_value (it_element item))) (ra_data a)"
  let ?c = "rs_collector st"
  let ?frame = "\<lparr>frm_schema = children, frm_start = start, frm_end = start + len, frm_tag = elem_tag (it_element item),
    frm_offset = it_offset item\<rparr>"
  let ?c' = "?c\<lparr>col_depth := col_depth ?c + 1, col_frames := (col_frames ?c)[col_depth ?c + 1 := ?frame]\<rparr>"
  obtain rc c2 where r: "report_scope (ra_mem a) (ra_data a) (ra_format a) ?frame ?c' = (rc, c2)" "grown ?c' c2"
    by (rule report_scope_grown)
  have "issues ?c \<le> issues c2" using r(2) by (simp add: grown_def issues_def)
  then show ?thesis using r(1) assms
    unfolding report_children_def Let_def start_def [symmetric] by (auto simp: reported_def report_return_def)
qed

lemma report_skip_reported:
  assumes "k \<le> issues (rs_collector st)" "traversing data format m n (rs_reader st)" "after_item item (rs_reader st)"
  shows "reported data format m n k (Inr (report_skip st item))"
  using assms report_skip_item [OF assms(2,3)] by (simp add: reported_def)

lemma report_item_reported:
  assumes st: "traversing data format m n (rs_reader st)" "after_item item (rs_reader st)"
  shows "reported data format m n (issues (rs_collector st)) (report_item a st item)"
proof -
  define c where "c = (rs_collector st)\<lparr>col_depth := it_depth item\<rparr>"
  have i: "issues c = issues (rs_collector st)" by (simp add: c_def issues_def)
  have skip: "reported data format m n (issues (rs_collector st)) (Inr (report_skip (st\<lparr>rs_collector := c'\<rparr>) item))"
    if "issues c \<le> issues c'" for c'
    by (rule report_skip_reported) (use that i st in simp_all)
  have kids: "reported data format m n (issues (rs_collector st)) (report_children a (st\<lparr>rs_collector := c'\<rparr>) item children len)"
    if "issues c \<le> issues c'" for c' children len
    by (rule report_children_reported) (use that i st in simp_all)
  have fail: "reported data format m n k (Inl (report_return s rc at))" if "rc \<noteq> TLV_OK" for k s rc at
    using that by (simp add: reported_def report_return_def)
  show ?thesis
    unfolding report_item_def Let_def c_def [symmetric]
    using skip kids fail
    by (auto split: option.split prod.split)
qed

lemma report_loop_returns:
  "traversing data format m n (rs_reader st) \<Longrightarrow>
   \<exists>rc at rep. report_loop a st = Some (rc, at, rep) \<and> (0 < issues (rs_collector st) \<longrightarrow> rc \<noteq> TLV_OK)"
proof (induction n arbitrary: st rule: less_induct)
  case (less n)
  let ?r = "rs_reader st"
  show ?case
  proof (cases "tlv_tree_reader_at_end (Some ?r)")
    case True
    then show ?thesis by (subst report_loop.simps) (auto simp: report_return_def issues_def)
  next
    case False
    obtain rc ro it where n: "tlv_tree_reader_next (Some ?r) True = (rc, ro, it)" by (metis prod_cases3)
    have w: "tree_wf ?r" "reads_from data format m ?r" "tree_budget ?r \<le> n" using less.prems by (auto simp: traversing_def)
    show ?thesis
    proof (cases "rc = TLV_OK")
      case rc: False
      then show ?thesis using False n by (subst report_loop.simps) (auto simp: report_return_def Let_def)
    next
      case True
      from tree_next_item [OF w(1,2) n [unfolded True]] obtain r' item where
        N: "ro = Some r'" "it = Some item" "tree_wf r'" "tree_budget r' < tree_budget ?r" "reads_from data format m r'" "after_item item r'"
        by metis
      let ?st = "st\<lparr>rs_reader := r'\<rparr>"
      have t: "traversing data format m (tree_budget r') (rs_reader ?st)" "after_item item (rs_reader ?st)"
        using N by (simp_all add: traversing_def)
      note G = report_item_reported [OF t, of a]
      have step: "report_loop a st = (case report_item a ?st item of Inl e \<Rightarrow> Some e | Inr st' \<Rightarrow> report_loop a st')"
        using False n True N by (subst report_loop.simps) simp
      show ?thesis
      proof (cases "report_item a ?st item")
        case (Inl e)
        then show ?thesis using G step by (cases e) (auto simp: reported_def)
      next
        case (Inr st')
        then have "issues (rs_collector st) \<le> issues (rs_collector st')" "traversing data format m (tree_budget r') (rs_reader st')"
          using G by (simp_all add: reported_def)
        then show ?thesis using less.IH [of "tree_budget r'" st'] N(4) w(3) step Inr by fastforce
      qed
    qed
  qed
qed


section \<open>Lockstep\<close>

text \<open>
  The two traversals are at the same place: the readers are equal and every scope that is still open has the same table.
\<close>

definition in_step :: "ptr \<Rightarrow> tlv_format_t option \<Rightarrow> nat \<Rightarrow> nat \<Rightarrow> validate_state \<Rightarrow> report_state \<Rightarrow> bool" where
  "in_step data format m n st st' \<longleftrightarrow>
     traversing data format m n (vs_reader st) \<and> vs_reader st = rs_reader st' \<and>
     length (vs_scopes st) = TLV_SCHEMA_MAX_DEPTH + 1 \<and> length (col_frames (rs_collector st')) = TLV_SCHEMA_MAX_DEPTH + 1 \<and>
     (\<forall>d\<le>open_depth (vs_reader st). vs_scopes st ! d = frm_schema (col_frames (rs_collector st') ! d))"

lemma children_agree:
  assumes st: "traversing data format m n (vs_reader st)" "vs_reader st = rs_reader st'" "after_item item (vs_reader st)"
      "length (vs_scopes st) = TLV_SCHEMA_MAX_DEPTH + 1" "length (col_frames (rs_collector st')) = TLV_SCHEMA_MAX_DEPTH + 1"
      "\<forall>d\<le>it_depth item. vs_scopes st ! d = frm_schema (col_frames (rs_collector st') ! d)"
    and item: "item_of data format item" "it_depth item < TLV_SCHEMA_MAX_DEPTH" "col_depth (rs_collector st') = it_depth item"
      "val_size (elem_value (it_element item)) = len"
    and a: "a = \<lparr>va_mem = mem, va_data = data, va_format = format\<rparr>"
      "a' = \<lparr>ra_mem = mem, ra_data = data, ra_format = format, ra_unknown = unknown\<rparr>"
  shows "case validate_children a st item children len of
      Inl e \<Rightarrow> fst e \<noteq> TLV_OK \<and> reported data format m n (issues (rs_collector st') + 1) (report_children a' st' item children len)
    | Inr st1 \<Rightarrow> \<exists>st2. report_children a' st' item children len = Inr st2 \<and> in_step data format m n st1 st2 \<and>
        issues (rs_collector st2) = issues (rs_collector st')"
proof -
  let ?c = "rs_collector st'" and ?d = "it_depth item" and ?tag = "elem_tag (it_element item)"
  define start where "start = it_offset item + rg_offset (src_value (it_source item))"
  have start: "ptr_diff (val_data (elem_value (it_element item))) data = start"
    using item(1) by (cases data) (simp_all add: item_of_def ptr_diff_def start_def)
  define frame where "frame = \<lparr>frm_schema = children, frm_start = start, frm_end = start + len, frm_tag = ?tag, frm_offset = it_offset item\<rparr>"
  define sa where "sa = \<lparr>sa_data = data, sa_format = format, sa_start = start, sa_end = start + len,
    sa_path = (vs_path st)[?d + 1 := ?tag], sa_depth = ?d + 1, sa_diag = vs_diag st\<rparr>"
  define c where "c = ?c\<lparr>col_depth := ?d + 1, col_frames := (col_frames ?c)[?d + 1 := frame]\<rparr>"
  obtain rc d where cs: "check_scope sa (mem children) = (rc, d)" by fastforce
  obtain rc2 c2 where rs: "report_scope mem data format frame c = (rc2, c2)" "grown c c2" by (rule report_scope_grown)
  have "same_scope sa data format frame" by (simp add: same_scope_def sa_def frame_def)
  note A = scope_agrees [OF this, of mem c]
  have ic: "issues c = issues ?c" by (simp add: c_def issues_def)
  have R: "report_children a' st' item children len = (if rc2 \<noteq> TLV_OK then Inl (report_return (st'\<lparr>rs_collector := c2\<rparr>) rc2 None)
      else Inr (st'\<lparr>rs_collector := c2\<rparr>))"
    using rs(1) item(2,3) start by (simp add: report_children_def a(2) Let_def frame_def c_def)
  let ?st = "st\<lparr>vs_path := (vs_path st)[?d + 1 := ?tag], vs_diag := d\<rparr>"
  have V: "validate_children a st item children len = (if rc \<noteq> TLV_OK then Inl (rc, d)
      else if len \<noteq> 0 then Inr (?st\<lparr>vs_scopes := (vs_scopes st)[?d + 1 := children]\<rparr>) else validate_skip ?st item)"
    using cs item(2) by (simp add: validate_children_def a(1) Let_def sa_def start_def)
  show ?thesis
  proof (cases "rc = TLV_OK")
    case False
    then show ?thesis using A cs rs R V st(1,2) ic by (auto simp: frame_def reported_def report_return_def)
  next
    case True
    then have ok: "rc2 = TLV_OK" "c2 = c" using A cs rs(1) by (auto simp: frame_def)
    have len: "?d + 1 < length (vs_scopes st)" "?d + 1 < length (col_frames ?c)" using item(2) st(4,5) by auto
    show ?thesis
    proof (cases "len = 0")
      case False
      have "open_depth (vs_reader st) \<le> ?d + 1" using st(3) by (auto simp: after_item_def open_depth_def split: if_splits)
      moreover have "(vs_scopes st)[?d + 1 := children] ! k = frm_schema (col_frames c ! k)" if "k \<le> ?d + 1" for k
        using that st(6) len by (cases "k = ?d + 1") (auto simp: c_def frame_def nth_list_update)
      ultimately show ?thesis using False True V R ok st ic by (auto simp: in_step_def c_def)
    next
      case zero: True
      then have skip: "validate_skip ?st item = Inr ?st" using item(4) by (simp add: validate_skip_def)
      have od: "open_depth (vs_reader st) \<le> ?d" using st(3) item(4) zero by (auto simp: after_item_def open_depth_def)
      have "vs_scopes st ! k = frm_schema (col_frames c ! k)" if "k \<le> ?d" for k
        using that st(6) len by (simp add: c_def)
      then show ?thesis using zero True V R ok st ic skip od by (auto simp: in_step_def c_def)
    qed
  qed
qed


lemma item_agrees:
  assumes st: "traversing data format m n (vs_reader st)" "vs_reader st = rs_reader st'" "after_item item (vs_reader st)"
      "length (vs_scopes st) = TLV_SCHEMA_MAX_DEPTH + 1" "length (col_frames (rs_collector st')) = TLV_SCHEMA_MAX_DEPTH + 1"
      "\<forall>d\<le>it_depth item. vs_scopes st ! d = frm_schema (col_frames (rs_collector st') ! d)"
    and item: "item_of data format item" "it_depth item < TLV_SCHEMA_MAX_DEPTH"
    and a: "a = \<lparr>va_mem = mem, va_data = data, va_format = format\<rparr>"
      "a' = \<lparr>ra_mem = mem, ra_data = data, ra_format = format, ra_unknown = TLV_SCHEMA_UNKNOWN_BY_SCHEMA\<rparr>"
  shows "case validate_item a st item of
      Inl e \<Rightarrow> fst e \<noteq> TLV_OK \<and> reported data format m n (issues (rs_collector st') + 1) (report_item a' st' item)
    | Inr st1 \<Rightarrow> \<exists>st2. report_item a' st' item = Inr st2 \<and> in_step data format m n st1 st2 \<and>
        issues (rs_collector st2) = issues (rs_collector st')"
proof -
  let ?d = "it_depth item" and ?tag = "elem_tag (it_element item)"
  define c where "c = (rs_collector st')\<lparr>col_depth := ?d\<rparr>"
  let ?st' = "st'\<lparr>rs_collector := c\<rparr>"
  have i: "issues c = issues (rs_collector st')" "col_frames c = col_frames (rs_collector st')" "col_depth c = ?d"
    by (simp_all add: c_def issues_def)
  define table where "table = mem (vs_scopes st ! ?d)"
  have tb: "mem (frm_schema (col_frames c ! ?d)) = table" using st(6) i(2) by (simp add: table_def)
  have skipped: "\<exists>st2. Inr (report_skip ?st' item) = Inr st2 \<and> in_step data format m n (st\<lparr>vs_reader := rs_reader (report_skip ?st' item)\<rparr>) st2 \<and>
      issues (rs_collector st2) = issues (rs_collector st')"
    using report_skip_item [of data format m n ?st' item] st i by (auto simp: in_step_def)
  have vskip: "validate_skip st item = Inr (st\<lparr>vs_reader := rs_reader (report_skip ?st' item)\<rparr>)"
    by (rule validate_skip_item [OF st(1,3)]) (simp add: st(2))
  have skip: "reported data format m n (issues (rs_collector st') + 1) (Inr (report_skip (st'\<lparr>rs_collector := c'\<rparr>) item))"
    if "issues c < issues c'" for c'
    by (rule report_skip_reported) (use that i st in simp_all)
  have kids: "reported data format m n (issues (rs_collector st') + 1) (report_children a' (st'\<lparr>rs_collector := c'\<rparr>) item children len)"
    if "issues c < issues c'" for c' children len
    by (rule report_children_reported) (use that i st in simp_all)
  note unf = validate_item_def report_item_def Let_def c_def [symmetric]
  show ?thesis
  proof (cases "rule_for (table_rules table) ?tag")
    case None
    show ?thesis
    proof (cases "tb_allow_unknown table")
      case True
      then show ?thesis using None skipped by (simp add: unf a tb table_def [symmetric] vskip)
    next
      case False
      then show ?thesis using None skip by (simp add: unf a tb table_def [symmetric])
    qed
  next
    case (Some j)
    define rule where "rule = table_rules table ! j"
    obtain rc ol where sz: "tlv_size_to_native (val_size (elem_value (it_element item))) True = (rc, ol)" by fastforce
    show ?thesis
    proof (cases "rc = TLV_OK")
      case False
      moreover from this have "rc \<noteq> TLV_ERR_SCHEMA" using sz by (auto simp: tlv_size_to_native_def split: if_splits)
      ultimately show ?thesis using Some sz
        by (simp add: unf a tb table_def [symmetric] rule_def [symmetric] reported_def report_return_def)
    next
      case True
      then have ol: "ol = Some (val_size (elem_value (it_element item)))" using sz by (auto simp: tlv_size_to_native_def split: if_splits)
      let ?len = "val_size (elem_value (it_element item))"
      have ctor: "it_constructed item = (case fmt_is_constructed (the format) of None \<Rightarrow> False | Some p \<Rightarrow> p ?tag)"
        using item(1) by (simp add: item_of_def)
      note ctx = unf a tb table_def [symmetric] rule_def [symmetric] sz True ol ctor [symmetric] Some
      show ?thesis
      proof (cases "tlv_schema_validate_length (sr_entry rule) ?len = TLV_OK \<and> \<not> kind_violated rule (it_constructed item)")
        case False
        then show ?thesis using skip kids by (auto simp: ctx i(1) split: option.split)
      next
        case good: True
        show ?thesis
        proof (cases "sr_children rule")
          case None
          then show ?thesis using good skipped by (simp add: ctx vskip)
        next
          case kids: (Some children)
          have "case validate_children a st item children ?len of
              Inl e \<Rightarrow> fst e \<noteq> TLV_OK \<and> reported data format m n (issues (rs_collector ?st') + 1) (report_children a' ?st' item children ?len)
            | Inr st1 \<Rightarrow> \<exists>st2. report_children a' ?st' item children ?len = Inr st2 \<and> in_step data format m n st1 st2 \<and>
                issues (rs_collector st2) = issues (rs_collector ?st')"
            by (rule children_agree [OF st(1) _ st(3,4) _ _ item _ refl a]) (use st i in simp_all)
          moreover have "validate_item a st item = validate_children a st item children ?len"
            "report_item a' st' item = report_children a' ?st' item children ?len" using good kids by (simp_all add: ctx)
          moreover have "issues (rs_collector ?st') = issues (rs_collector st')" using i by simp
          ultimately show ?thesis by (simp only: )
        qed
      qed
    qed
  qed
qed


lemma loops_agree:
  assumes a: "a = \<lparr>va_mem = mem, va_data = data, va_format = format\<rparr>"
      "a' = \<lparr>ra_mem = mem, ra_data = data, ra_format = format, ra_unknown = TLV_SCHEMA_UNKNOWN_BY_SCHEMA\<rparr>"
    and m: "m < TLV_SCHEMA_MAX_DEPTH"
  shows "in_step data format m n st st' \<Longrightarrow> issues (rs_collector st') = 0 \<Longrightarrow>
    \<exists>rc d rc' at rep. validate_loop a st = Some (rc, d) \<and> report_loop a' st' = Some (rc', at, rep) \<and>
      (rc = TLV_OK \<longleftrightarrow> rc' = TLV_OK) \<and> (rc = TLV_OK \<longrightarrow> rep_count rep = 0)"
proof (induction n arbitrary: st st' rule: less_induct)
  case (less n)
  let ?r = "vs_reader st"
  have w: "tree_wf ?r" "reads_from data format m ?r" "tree_budget ?r \<le> n" and eq: "rs_reader st' = ?r"
    using less.prems by (auto simp: in_step_def traversing_def)
  show ?case
  proof (cases "tlv_tree_reader_at_end (Some ?r)")
    case True
    then show ?thesis using less.prems eq
      by (subst validate_loop.simps, subst report_loop.simps) (simp add: report_return_def issues_def)
  next
    case False
    obtain rc ro it where n: "tlv_tree_reader_next (Some ?r) True = (rc, ro, it)" by (metis prod_cases3)
    show ?thesis
    proof (cases "rc = TLV_OK")
      case rc: False
      then show ?thesis using False n eq
        by (subst validate_loop.simps, subst report_loop.simps) (simp add: report_return_def Let_def)
    next
      case True
      from tree_next_item [OF w(1,2) n [unfolded True]] obtain r' item where
        N: "ro = Some r'" "it = Some item" "tree_wf r'" "tree_budget r' < tree_budget ?r" "reads_from data format m r'"
          "item_of data format item" "after_item item r'" "it_depth item \<le> open_depth ?r" "it_depth item \<le> m" .
      let ?st = "st\<lparr>vs_reader := r'\<rparr>" and ?st' = "st'\<lparr>rs_reader := r'\<rparr>" and ?n = "tree_budget r'"
      have steps: "validate_loop a st = (case validate_item a ?st item of Inl e \<Rightarrow> Some e | Inr st1 \<Rightarrow> validate_loop a st1)"
        "report_loop a' st' = (case report_item a' ?st' item of Inl e \<Rightarrow> Some e | Inr st2 \<Rightarrow> report_loop a' st2)"
        using False n True N(1,2) eq by (subst validate_loop.simps, simp, subst report_loop.simps, simp)
      have A: "case validate_item a ?st item of
          Inl e \<Rightarrow> fst e \<noteq> TLV_OK \<and> reported data format m ?n (issues (rs_collector ?st') + 1) (report_item a' ?st' item)
        | Inr st1 \<Rightarrow> \<exists>st2. report_item a' ?st' item = Inr st2 \<and> in_step data format m ?n st1 st2 \<and>
            issues (rs_collector st2) = issues (rs_collector ?st')"
        by (rule item_agrees [OF _ _ _ _ _ _ N(6) _ a]) (use less.prems N m in \<open>auto simp: in_step_def traversing_def\<close>)
      show ?thesis
      proof (cases "validate_item a ?st item")
        case (Inl e)
        show ?thesis
        proof (cases "report_item a' ?st' item")
          case (Inl e')
          then show ?thesis using A \<open>validate_item a ?st item = Inl e\<close> steps by (cases e; cases e') (auto simp: reported_def)
        next
          case (Inr st2)
          then have "0 < issues (rs_collector st2)" "traversing data format m ?n (rs_reader st2)"
            using A Inl by (auto simp: reported_def)
          then show ?thesis using report_loop_returns [of data format m ?n st2 a'] A Inl Inr steps by (cases e) auto
        qed
      next
        case (Inr st1)
        then obtain st2 where "report_item a' ?st' item = Inr st2" "in_step data format m ?n st1 st2" "issues (rs_collector st2) = 0"
          using A less.prems(2) by auto
        then show ?thesis using less.IH [of ?n st1 st2] N(4) w(3) steps Inr by auto
      qed
    qed
  qed
qed


section \<open>The whole calls\<close>

lemma schema_check_returns:
  obtains rc d where "tlv_schema_check mem schema diagnostic = Some (rc, d)" "d = None \<longleftrightarrow> diagnostic = None"
    "schema = None \<Longrightarrow> rc \<noteq> TLV_OK"
proof (cases schema)
  case None
  then have "\<exists>d. tlv_schema_check mem schema diagnostic = Some (TLV_ERR_NULL_ARG, d) \<and> (d = None \<longleftrightarrow> diagnostic = None)"
    by (simp add: tlv_schema_check_def Let_def)
  then show thesis using that by fastforce
next
  case (Some s)
  obtain rc l where "check_tables mem [s] 0 definition_location0 = Some (rc, l)"
    using check_tables_decides [of "[s]" 0 s mem definition_location0]
    by (auto simp: schema_reach_def TLV_SCHEMA_MAX_TABLES_def)
  then have "\<exists>d. tlv_schema_check mem schema diagnostic = Some (rc, d) \<and> (d = None \<longleftrightarrow> diagnostic = None)"
    using Some by (simp add: tlv_schema_check_def Let_def)
  then show thesis using that Some by fastforce
qed

lemma check_tree_returns:
  assumes "readable data sz" "sz \<le> SIZE_MAX"
  obtains rc d where "schema_check_tree data sz format m k diagnostic = Some (rc, d)"
    "rc = TLV_OK \<Longrightarrow> d = diagnostic \<and> (\<exists>r. tlv_tree_reader_init True data sz format
       (Some (replicate TLV_SCHEMA_MAX_DEPTH \<lparr>fr_end = 0, fr_resume = 0\<rparr>)) TLV_SCHEMA_MAX_DEPTH m k = (TLV_OK, Some r) \<and>
       tree_wf r \<and> reads_from data format m r \<and> open_depth r = 0)"
proof -
  let ?f = "Some (replicate TLV_SCHEMA_MAX_DEPTH \<lparr>fr_end = 0, fr_resume = 0\<rparr>)"
  obtain rc ro where i: "tlv_tree_reader_init True data sz format ?f TLV_SCHEMA_MAX_DEPTH m k = (rc, ro)" by fastforce
  show thesis
  proof (cases "rc = TLV_OK")
    case False
    then show thesis using i by (intro that [of rc]) (simp_all add: schema_check_tree_def)
  next
    case True
    then obtain r where r: "ro = Some r" using i by (auto simp: tlv_tree_reader_init_def split: if_splits prod.splits)
    have wf: "tree_wf r" using tree_init_wf [OF i [unfolded True r] assms] by simp
    have "reads_from data format m r" "open_depth r = 0"
      using i r True
      by (auto simp: tlv_tree_reader_init_def tlv_reader_init_def reads_from_def open_depth_def split: if_splits)
    moreover obtain rc2 r2 c2 d2 where
      "tree_visit_loop None r () (if diagnostic \<noteq> None then Some tlv_reader_diagnostic_init else None) = Some (rc2, r2, c2, d2)"
      using tree_visit_loop_returns [OF wf, of None "()" "if diagnostic \<noteq> None then Some tlv_reader_diagnostic_init else None"] by blast
    then have "\<exists>d. schema_check_tree data sz format m k diagnostic = Some (rc2, d) \<and> (rc2 = TLV_OK \<longrightarrow> d = diagnostic)"
      using i r True by (simp add: schema_check_tree_def tlv_tree_reader_visit_def Let_def)
    ultimately show thesis using that i r True wf by blast
  qed
qed

lemma inputs_agree:
  assumes input: "readable data sz" "sz \<le> SIZE_MAX" "m < TLV_SCHEMA_MAX_DEPTH" and empty: "rep_count report = 0"
  shows "\<exists>rc d rc' rep d'. validate_input mem data sz format (Some s) m k diagnostic = Some (rc, d) \<and>
    validate_all mem data sz format s m k TLV_SCHEMA_UNKNOWN_BY_SCHEMA report (map_option sd_diagnostic diagnostic) = Some (rc', rep, d') \<and>
    (rc = TLV_OK \<longleftrightarrow> rc' = TLV_OK) \<and> (rc = TLV_OK \<longrightarrow> rep_count rep = 0)"
proof -
  obtain rc0 d0 where T: "schema_check_tree data sz format m k (map_option sd_diagnostic diagnostic) = Some (rc0, d0)"
    "rc0 = TLV_OK \<Longrightarrow> d0 = map_option sd_diagnostic diagnostic \<and> (\<exists>r. tlv_tree_reader_init True data sz format
       (Some (replicate TLV_SCHEMA_MAX_DEPTH \<lparr>fr_end = 0, fr_resume = 0\<rparr>)) TLV_SCHEMA_MAX_DEPTH m k = (TLV_OK, Some r) \<and>
       tree_wf r \<and> reads_from data format m r \<and> open_depth r = 0)"
    using check_tree_returns [OF input(1,2)] by metis
  show ?thesis
  proof (cases "rc0 = TLV_OK")
    case False
    then show ?thesis using T(1) by (simp add: validate_input_def validate_all_def Let_def)
  next
    case True
    then obtain r where r: "d0 = map_option sd_diagnostic diagnostic" "tlv_tree_reader_init True data sz format
       (Some (replicate TLV_SCHEMA_MAX_DEPTH \<lparr>fr_end = 0, fr_resume = 0\<rparr>)) TLV_SCHEMA_MAX_DEPTH m k = (TLV_OK, Some r)"
       "tree_wf r" "reads_from data format m r" "open_depth r = 0" using T(2) by blast
    define diag where "diag = map_option (\<lambda>d. d\<lparr>sd_diagnostic := the d0\<rparr>) diagnostic"
    define sa where "sa = \<lparr>sa_data = data, sa_format = format, sa_start = 0, sa_end = sz, sa_path = path_tags0, sa_depth = 0, sa_diag = diag\<rparr>"
    define c where "c = \<lparr>col_report = report, col_frames = (replicate (TLV_SCHEMA_MAX_DEPTH + 1) (frame0 0 0))[0 := frame0 s sz], col_depth = 0\<rparr>"
    obtain rc1 d1 where cs: "check_scope sa (mem s) = (rc1, d1)" by fastforce
    obtain rc2 c2 where rs: "report_scope mem data format (frame0 s sz) c = (rc2, c2)" by fastforce
    have ic: "issues c = 0" using empty by (simp add: issues_def c_def)
    have "same_scope sa data format (frame0 s sz)" by (simp add: same_scope_def sa_def frame0_def)
    from scope_agrees [OF this, of mem c]
    have A: "if rc1 = TLV_OK then rc2 = TLV_OK \<and> c2 = c \<and> d1 = diag else rc2 \<noteq> TLV_OK \<or> 0 < issues c2"
      using cs rs ic by (simp add: frame0_def sa_def split: if_splits)
    let ?a = "\<lparr>va_mem = mem, va_data = data, va_format = format\<rparr>"
      and ?a' = "\<lparr>ra_mem = mem, ra_data = data, ra_format = format, ra_unknown = TLV_SCHEMA_UNKNOWN_BY_SCHEMA\<rparr>"
    let ?st = "\<lparr>vs_reader = r, vs_scopes = (scopes0 s)[0 := s], vs_path = path_tags0, vs_diag = d1\<rparr>"
      and ?st' = "\<lparr>rs_reader = r, rs_collector = c2\<rparr>"
    have V: "validate_input mem data sz format (Some s) m k diagnostic =
      (if rc1 \<noteq> TLV_OK then Some (rc1, d1) else validate_loop ?a ?st)"
      using T(1) True r(2) cs by (simp add: validate_input_def Let_def sa_def diag_def)
    have R: "validate_all mem data sz format s m k TLV_SCHEMA_UNKNOWN_BY_SCHEMA report (map_option sd_diagnostic diagnostic) =
      (if rc2 \<noteq> TLV_OK then Some (rc2, col_report c2, d0)
       else map_option (\<lambda>(rc, at, report). (rc, report, case at of None \<Rightarrow> d0
            | Some pos \<Rightarrow> map_option (\<lambda>d. tlv_diagnostic_set_location d TLV_LOCATION_INPUT TLV_LOCATION_POINT pos pos) d0))
          (report_loop ?a' ?st'))"
      using T(1) True r(2) rs by (simp add: validate_all_def Let_def c_def)
    show ?thesis
    proof (cases "rc1 = TLV_OK")
      case False
      have "traversing data format m (tree_budget r) (rs_reader ?st')" using r by (simp add: traversing_def)
      from report_loop_returns [OF this, of ?a'] obtain rc at rep where
        "report_loop ?a' ?st' = Some (rc, at, rep)" "0 < issues c2 \<longrightarrow> rc \<noteq> TLV_OK" by auto
      then show ?thesis using False A V R by auto
    next
      case True
      then have ok: "rc2 = TLV_OK" "c2 = c" using A by simp_all
      have "in_step data format m (tree_budget r) ?st ?st'"
        using r ok by (simp add: in_step_def traversing_def scopes0_def c_def frame0_def)
      moreover have "issues (rs_collector ?st') = 0" using ok ic by simp
      ultimately obtain rc d rc' at rep where "validate_loop ?a ?st = Some (rc, d)" "report_loop ?a' ?st' = Some (rc', at, rep)"
        "(rc = TLV_OK) = (rc' = TLV_OK)" "rc = TLV_OK \<longrightarrow> rep_count rep = 0"
        using loops_agree [OF refl refl input(3)] by metis
      then show ?thesis using V R True ok by simp
    qed
  qed
qed

end
