(* ===== verification/TLV_Schema_Scope.thy ===== *)
theory TLV_Schema_Scope
  imports TLV_Schema_Validation
begin

text \<open>
  What the check of one scope decides, in terms of the list of the elements in the scope: occurrences of rules and groups
  lie in their ranges, and in an ordered table the rules that the elements match do not go back.
\<close>

section \<open>Loops as folds\<close>

definition scope_elements :: "ptr \<Rightarrow> tlv_format_t option \<Rightarrow> nat \<Rightarrow> nat \<Rightarrow> tlv_element_t list option" where
  "scope_elements data format start stop =
     (case scope_scan data format stop (\<lambda>el pos els. Inr (els @ [el]) :: unit + tlv_element_t list) start [] of
        Inl e \<Rightarrow> None | Inr els \<Rightarrow> Some els)"

text \<open>The same elements with their positions, as a relation.\<close>

inductive reads_scope :: "ptr \<Rightarrow> tlv_format_t option \<Rightarrow> nat \<Rightarrow> nat \<Rightarrow> (tlv_element_t \<times> nat) list \<Rightarrow> bool"
  for data format stop where
  finished: "\<not> pos < stop \<Longrightarrow> reads_scope data format stop pos []"
| element: "pos < stop \<Longrightarrow> tlv_read (ptr_add data pos) (stop - pos) format True = (TLV_OK, Some (el, used)) \<Longrightarrow>
    reads_scope data format stop (pos + used) xs \<Longrightarrow> reads_scope data format stop pos ((el, pos) # xs)"

lemma tlv_read_Some:
  assumes "tlv_read data sz format True = (TLV_OK, res)"
  obtains el used where "res = Some (el, used)"
  using tlv_read_OK [OF assms] by metis

lemma scope_elements_reads:
  assumes "scope_scan data format stop (\<lambda>el pos els. Inr (els @ [el]) :: unit + tlv_element_t list) pos acc = Inr els"
  shows "\<exists>xs. reads_scope data format stop pos xs \<and> els = acc @ map fst xs"
  using assms
proof (induction "stop - pos" arbitrary: pos acc rule: less_induct)
  case less
  show ?case
  proof (cases "pos < stop")
    case False
    then have "els = acc" using less.prems by (subst (asm) scope_scan.simps) simp
    then show ?thesis using reads_scope.finished [OF False] by (intro exI [of _ "[]"]) simp
  next
    case True
    obtain rc res where rd: "tlv_read (ptr_add data pos) (stop - pos) format True = (rc, res)" by fastforce
    then have ok: "rc = TLV_OK" using less.prems True by (subst (asm) scope_scan.simps) (auto split: if_splits)
    obtain el used where res: "res = Some (el, used)" using tlv_read_Some [OF rd [unfolded ok]] .
    have "0 < used" using tlv_read_used(1) [OF rd [unfolded ok]] res by simp
    then have lt: "stop - (pos + used) < stop - pos" using True by simp
    from less.hyps [OF lt, of "acc @ [el]"] less.prems True rd ok res obtain xs where
      "reads_scope data format stop (pos + used) xs" "els = (acc @ [el]) @ map fst xs"
      by (subst (asm) (2) scope_scan.simps) auto
    then show ?thesis using reads_scope.element [OF True rd [unfolded ok res]] by (intro exI [of _ "(el, pos) # xs"]) simp
  qed
qed

fun scan_fold :: "(tlv_element_t \<Rightarrow> nat \<Rightarrow> 's \<Rightarrow> 'e + 's) \<Rightarrow> (tlv_element_t \<times> nat) list \<Rightarrow> 's \<Rightarrow> 'e + 's" where
  "scan_fold body [] st = Inr st"
| "scan_fold body ((el, pos) # xs) st = (case body el pos st of Inl e \<Rightarrow> Inl e | Inr st \<Rightarrow> scan_fold body xs st)"

lemma scope_scan_fold:
  "reads_scope data format stop pos xs \<Longrightarrow>
   scope_scan data format stop body pos st = (case scan_fold body xs st of Inl e \<Rightarrow> Inl (Inr e) | Inr st \<Rightarrow> Inr st)"
proof (induction arbitrary: st rule: reads_scope.induct)
  case (finished pos)
  then show ?case by (subst scope_scan.simps) simp
next
  case (element pos el used xs)
  then show ?case by (subst scope_scan.simps) (simp split: sum.split)
qed

section \<open>The bodies of the loops\<close>

text \<open>A loop that counts the elements with a property and stops at one too many.\<close>

lemma counting_fold:
  assumes "\<And>el pos n. body el pos n = (if P el then if n = high then Inl (e el pos n) else Inr (n + 1) else Inr n)"
    "\<And>el pos n. Q (e el pos n)" "n \<le> high"
  shows "case scan_fold body xs n of
      Inr m \<Rightarrow> m = n + length (filter P (map fst xs)) \<and> m \<le> high
    | Inl x \<Rightarrow> high < n + length (filter P (map fst xs)) \<and> Q x"
  using assms(3)
proof (induction xs arbitrary: n)
  case (Cons x xs)
  obtain el pos where x: "x = (el, pos)" by fastforce
  show ?case
  proof (cases "P el \<and> n = high")
    case True
    then show ?thesis using x by (auto simp: assms(1,2))
  next
    case False
    let ?n = "if P el then n + 1 else n"
    have step: "scan_fold body (x # xs) n = scan_fold body xs ?n" using False x by (auto simp: assms(1))
    have "?n \<le> high" using Cons.prems False by auto
    then show ?thesis unfolding step using Cons.IH [of ?n] x by (auto split: sum.splits)
  qed
qed simp

definition in_range :: "nat \<Rightarrow> nat \<Rightarrow> nat \<Rightarrow> bool" where
  "in_range low high n \<longleftrightarrow> low \<le> n \<and> n \<le> high"

text \<open>The indices of the rules that the elements match, in the order of the elements.\<close>

definition matched_rules :: "tlv_structure_rule_t list \<Rightarrow> tlv_element_t list \<Rightarrow> nat list" where
  "matched_rules rules els = List.map_filter (\<lambda>el. rule_for rules (elem_tag el)) els"

lemma order_fold:
  "case scan_fold (order_body a rules) xs l of
      Inr l' \<Rightarrow> sorted ((case l of None \<Rightarrow> [] | Some i \<Rightarrow> [i]) @ matched_rules rules (map fst xs))
    | Inl e \<Rightarrow> \<not> sorted ((case l of None \<Rightarrow> [] | Some i \<Rightarrow> [i]) @ matched_rules rules (map fst xs)) \<and> fst e = TLV_ERR_SCHEMA"
proof (induction xs arbitrary: l)
  case Nil
  then show ?case by (simp add: matched_rules_def split: option.split)
next
  case (Cons x xs)
  obtain el pos where x: "x = (el, pos)" by fastforce
  show ?case
  proof (cases "rule_for rules (elem_tag el)")
    case None
    then have "scan_fold (order_body a rules) (x # xs) l = scan_fold (order_body a rules) xs l"
      "matched_rules rules (map fst (x # xs)) = matched_rules rules (map fst xs)"
      using x by (simp_all add: order_body_def matched_rules_def)
    then show ?thesis using Cons [of l] by (simp only: )
  next
    case (Some i)
    show ?thesis
    proof (cases "case l of None \<Rightarrow> False | Some k \<Rightarrow> i < k")
      case True
      then show ?thesis using Some x
        by (auto simp: order_body_def scope_violation_def violation_def matched_rules_def split: option.splits)
    next
      case False
      then have "scan_fold (order_body a rules) (x # xs) l = scan_fold (order_body a rules) xs (Some i)"
        using Some x by (auto simp: order_body_def split: option.splits)
      moreover have "sorted ((case l of None \<Rightarrow> [] | Some i \<Rightarrow> [i]) @ matched_rules rules (map fst (x # xs))) \<longleftrightarrow>
        sorted ([i] @ matched_rules rules (map fst xs))"
        using False Some x by (fastforce simp: matched_rules_def split: option.splits)
      ultimately show ?thesis using Cons [of "Some i"] by (simp only: option.case)
    qed
  qed
qed

section \<open>A scope\<close>

lemma check_scope_rules_exact:
  assumes r: "reads_scope (sa_data a) (sa_format a) (sa_end a) (sa_start a) xs"
  shows "case check_scope_rules a rules of
      None \<Rightarrow> \<forall>rule \<in> set rules. in_range (sr_min_occurs rule) (sr_max_occurs rule)
        (length (filter (\<lambda>el. tlv_tag_equal (rule_tag rule) (elem_tag el)) (map fst xs)))
    | Some e \<Rightarrow> fst e = TLV_ERR_SCHEMA \<and> \<not> (\<forall>rule \<in> set rules. in_range (sr_min_occurs rule) (sr_max_occurs rule)
        (length (filter (\<lambda>el. tlv_tag_equal (rule_tag rule) (elem_tag el)) (map fst xs))))"
proof (induction rules)
  case (Cons rule rules)
  have "case scan_fold (rule_body a rule) xs 0 of
      Inr m \<Rightarrow> m = 0 + length (filter (\<lambda>el. tlv_tag_equal (rule_tag rule) (elem_tag el)) (map fst xs)) \<and> m \<le> sr_max_occurs rule
    | Inl x \<Rightarrow> sr_max_occurs rule < 0 + length (filter (\<lambda>el. tlv_tag_equal (rule_tag rule) (elem_tag el)) (map fst xs)) \<and>
        fst x = TLV_ERR_SCHEMA"
    by (rule counting_fold [OF rule_body_def]) (simp_all add: scope_violation_def violation_def)
  then show ?case using Cons scope_scan_fold [OF r, of "rule_body a rule" 0]
    by (cases "scan_fold (rule_body a rule) xs 0")
      (auto simp: scan_exit_def in_range_def scope_violation_def violation_def split: option.splits)
qed simp

lemma check_scope_groups_exact:
  assumes r: "reads_scope (sa_data a) (sa_format a) (sa_end a) (sa_start a) xs"
  shows "case check_scope_groups a rules groups of
      None \<Rightarrow> \<forall>grp \<in> set groups. in_range (sg_min_occurs grp) (sg_max_occurs grp)
        (length (filter (\<lambda>el. group_member rules grp (elem_tag el)) (map fst xs)))
    | Some e \<Rightarrow> fst e = TLV_ERR_SCHEMA \<and> \<not> (\<forall>grp \<in> set groups. in_range (sg_min_occurs grp) (sg_max_occurs grp)
        (length (filter (\<lambda>el. group_member rules grp (elem_tag el)) (map fst xs))))"
proof (induction groups)
  case (Cons grp groups)
  have "case scan_fold (group_body a rules grp) xs 0 of
      Inr m \<Rightarrow> m = 0 + length (filter (\<lambda>el. group_member rules grp (elem_tag el)) (map fst xs)) \<and> m \<le> sg_max_occurs grp
    | Inl x \<Rightarrow> sg_max_occurs grp < 0 + length (filter (\<lambda>el. group_member rules grp (elem_tag el)) (map fst xs)) \<and>
        fst x = TLV_ERR_SCHEMA"
    by (rule counting_fold [OF group_body_def]) (simp_all add: scope_violation_def violation_def)
  then show ?case using Cons scope_scan_fold [OF r, of "group_body a rules grp" 0]
    by (cases "scan_fold (group_body a rules grp) xs 0")
      (auto simp: scan_exit_def in_range_def scope_violation_def violation_def Let_def split: option.splits)
qed simp

lemma check_scope_order_exact:
  assumes r: "reads_scope (sa_data a) (sa_format a) (sa_end a) (sa_start a) xs"
  shows "case check_scope_order a rules of None \<Rightarrow> sorted (matched_rules rules (map fst xs))
    | Some e \<Rightarrow> fst e = TLV_ERR_SCHEMA \<and> \<not> sorted (matched_rules rules (map fst xs))"
  using order_fold [where a = a and rules = rules and xs = xs and l = None] scope_scan_fold [OF r, of "order_body a rules" None]
  by (cases "scan_fold (order_body a rules) xs None") (auto simp: check_scope_order_def scan_exit_def)

text \<open>What a scope has to satisfy.\<close>

definition scope_conforms :: "tlv_structure_schema_t \<Rightarrow> tlv_element_t list \<Rightarrow> bool" where
  "scope_conforms table els \<longleftrightarrow>
     (\<forall>rule \<in> set (table_rules table). in_range (sr_min_occurs rule) (sr_max_occurs rule)
        (length (filter (\<lambda>el. tlv_tag_equal (rule_tag rule) (elem_tag el)) els))) \<and>
     (\<forall>grp \<in> set (table_groups table). in_range (sg_min_occurs grp) (sg_max_occurs grp)
        (length (filter (\<lambda>el. group_member (table_rules table) grp (elem_tag el)) els))) \<and>
     (tb_order table = TLV_SCHEMA_ORDER_SEQUENCE \<longrightarrow> sorted (matched_rules (table_rules table) els))"

lemma check_scope_decides:
  assumes "scope_elements (sa_data a) (sa_format a) (sa_start a) (sa_end a) = Some els"
  shows "fst (check_scope a table) = (if scope_conforms table els then TLV_OK else TLV_ERR_SCHEMA)"
proof -
  obtain xs where r: "reads_scope (sa_data a) (sa_format a) (sa_end a) (sa_start a) xs" and els: "els = map fst xs"
    using assms scope_elements_reads [of "sa_data a" "sa_format a" "sa_end a" "sa_start a" "[]" els]
    by (auto simp: scope_elements_def split: sum.splits)
  from check_scope_rules_exact [OF r, of "table_rules table"] check_scope_groups_exact [OF r, where rules = "table_rules table" and groups = "table_groups table"]
    check_scope_order_exact [OF r, of "table_rules table"]
  show ?thesis
    unfolding els check_scope_def scope_conforms_def by (auto split: option.splits)
qed

end
