(* ===== verification/TLV_Schema_Properties.thy ===== *)
theory TLV_Schema_Properties
  imports TLV_Schema_Agreement TLV_Schema_Scope TLV_BER_Format "HOL-Library.Code_Target_Nat"
begin

text \<open>
  The properties of structural schemas: what the check of a definition decides, what the check of a scope decides, and
  that the two validators agree.
\<close>

section \<open>Definitions\<close>

text \<open>
  C6: The check of a schema definition returns for every graph of tables, cyclic or not.  It accepts exactly when at
  most 256 tables are reachable and each of them is well formed: distinct non-zero group numbers with members and
  ordered ranges, distinct tags, rules with an entry, ordered ranges, a known kind, children only in constructed
  elements and groups that exist.  A rejected definition names a reachable table that is not well formed, and
  a definition with too many tables is reported as unsupported.
\<close>

theorem schema_check_exact:
  "\<exists>rc d. tlv_schema_check mem (Some s) (Some d0) = Some (rc, Some d) \<and>
     (rc = TLV_OK \<longleftrightarrow> finite (schema_reach mem s) \<and> card (schema_reach mem s) \<le> TLV_SCHEMA_MAX_TABLES \<and>
        (\<forall>a. a \<in> schema_reach mem s \<longrightarrow> table_wf (mem a))) \<and>
     (rc = TLV_OK \<or>
      rc = TLV_ERR_INVALID_SCHEMA \<and> sd_kind d = TLV_SCHEMA_ISSUE_DEFINITION \<and>
        (\<exists>a. a \<in> schema_reach mem s \<and> \<not> table_wf (mem a) \<and> sdl_owner (sd_definition d) = Some a) \<or>
      rc = TLV_ERR_UNSUPPORTED \<and> \<not> (finite (schema_reach mem s) \<and> card (schema_reach mem s) \<le> TLV_SCHEMA_MAX_TABLES))"
proof -
  from check_tables_decides [of "[s]" 0 s mem definition_location0]
  obtain rc l where c: "check_tables mem [s] 0 definition_location0 = Some (rc, l)"
    "rc = TLV_OK \<and> finite (schema_reach mem s) \<and> card (schema_reach mem s) \<le> TLV_SCHEMA_MAX_TABLES \<and>
       (\<forall>a \<in> schema_reach mem s. table_wf (mem a)) \<or>
     rc = TLV_ERR_INVALID_SCHEMA \<and> (\<exists>a \<in> schema_reach mem s. \<not> table_wf (mem a) \<and> sdl_owner l = Some a) \<or>
     rc = TLV_ERR_UNSUPPORTED \<and> (infinite (schema_reach mem s) \<or> TLV_SCHEMA_MAX_TABLES < card (schema_reach mem s))"
    by (auto simp: schema_reach_def TLV_SCHEMA_MAX_TABLES_def)
  then show ?thesis by (auto simp: tlv_schema_check_def Let_def schema_fail_code_def)
qed

section \<open>A sample schema\<close>

text \<open>A constructed element 30 that holds one or two elements 02 of one to four octets, followed by optional elements 05.\<close>

definition sample_rule :: "u8 \<Rightarrow> nat \<Rightarrow> nat \<Rightarrow> nat \<Rightarrow> nat \<Rightarrow> tlv_schema_kind_t \<Rightarrow> table_addr option \<Rightarrow> tlv_structure_rule_t" where
  "sample_rule tag low high occurs_min occurs_max kind children =
     \<lparr>sr_entry = Some \<lparr>se_tag = tlv_tag (Ptr 0 [tag]) 1, se_min_length = low, se_max_length = high, se_flags = 0,
        se_name = None, se_length_multiple = 0\<rparr>,
      sr_min_occurs = occurs_min, sr_max_occurs = occurs_max, sr_kind = kind, sr_children = children, sr_group = 0\<rparr>"

definition sample_table :: "tlv_structure_rule_t list \<Rightarrow> tlv_structure_schema_t" where
  "sample_table rules = \<lparr>tb_rules = Some rules, tb_count = length rules, tb_allow_unknown = False, tb_groups = None,
     tb_group_count = 0, tb_order = TLV_SCHEMA_ORDER_SEQUENCE\<rparr>"

definition sample_schema :: tables where
  "sample_schema a =
     (if a = 1 then sample_table [sample_rule 0x30 0 20 1 1 TLV_SCHEMA_CONSTRUCTED (Some 2)]
      else sample_table [sample_rule 2 1 4 1 2 TLV_SCHEMA_PRIMITIVE None, sample_rule 5 0 0 0 1 TLV_SCHEMA_PRIMITIVE None])"

theorem schema_check_exact_witness:
  "\<exists>rc d. tlv_schema_check sample_schema (Some 1) (Some tlv_schema_diagnostic_init) = Some (rc, Some d) \<and> rc = TLV_OK \<and>
     (\<forall>a. a \<in> schema_reach sample_schema 1 \<longrightarrow> table_wf (sample_schema a))"
proof -
  have "map_option fst (tlv_schema_check sample_schema (Some 1) (Some tlv_schema_diagnostic_init)) = Some TLV_OK" by code_simp
  with schema_check_exact [of sample_schema 1 tlv_schema_diagnostic_init] show ?thesis by auto
qed

section \<open>Scopes\<close>

text \<open>
  C8: The check of one scope is exact: when the scope frames into elements, it succeeds if and only if the number of
  elements of each rule and of each group lies in its range and, in an ordered table, the rules that the
  elements match come in non-decreasing order; otherwise it reports a schema violation.
\<close>

theorem schema_scope_exact:
  assumes "scope_elements (sa_data a) (sa_format a) (sa_start a) (sa_end a) = Some els"
  shows "fst (check_scope a table) = (if scope_conforms table els then TLV_OK else TLV_ERR_SCHEMA)"
  by (rule check_scope_decides [OF assms])

definition sample_scope :: "u8 list \<Rightarrow> scope_args" where
  "sample_scope xs = \<lparr>sa_data = Ptr 0 xs, sa_format = Some tlv_format_ber, sa_start = 0, sa_end = length xs,
     sa_path = path_tags0, sa_depth = 0, sa_diag = None\<rparr>"

theorem schema_scope_exact_witness:
  "fst (check_scope (sample_scope [5, 0, 2, 1, 7]) (sample_schema 2)) = TLV_ERR_SCHEMA \<and>
   (\<exists>els. scope_elements (Ptr 0 [5, 0, 2, 1, 7]) (Some tlv_format_ber) 0 5 = Some els \<and> \<not> scope_conforms (sample_schema 2) els)"
proof -
  let ?a = "sample_scope [5, 0, 2, 1, 7]"
  have "\<not> Option.is_none (scope_elements (sa_data ?a) (sa_format ?a) (sa_start ?a) (sa_end ?a))" by code_simp
  then obtain els where els: "scope_elements (sa_data ?a) (sa_format ?a) (sa_start ?a) (sa_end ?a) = Some els"
    by (cases "scope_elements (sa_data ?a) (sa_format ?a) (sa_start ?a) (sa_end ?a)") auto
  have "fst (check_scope ?a (sample_schema 2)) = TLV_ERR_SCHEMA" by code_simp
  with schema_scope_exact [OF els, of "sample_schema 2"] els show ?thesis by (auto simp: sample_scope_def numeral_eq_Suc split: if_splits)
qed

section \<open>Validators\<close>

text \<open>
  C7: The two validators agree.  For every schema, every input and every depth limit below that of the schemas, the
  validator that stops at the first violation and the one that collects all of them both return, one accepts exactly
  when the other does, and then nothing is in the report.

  This covers schemas and inputs that nest deeper than the 32 tags of a diagnostic path.  For such a schema \<^verbatim>\<open>schema.h\<close> documents
  that \<^verbatim>\<open>tlv_schema_validate_all_diag\<close> returns \<^verbatim>\<open>TLV_ERR_LIMIT\<close>; the code has no such check, only that of \<open>TLV_SCHEMA_MAX_DEPTH\<close>
  (64 levels), and shortens the path in a diagnostic instead: see \<open>schema_deep_accepted\<close> below.
\<close>

theorem schema_validators_agree:
  assumes input: "readable data sz" "sz \<le> SIZE_MAX" "max_depth < TLV_SCHEMA_MAX_DEPTH"
    and report: "rep_diagnostics report \<noteq> None \<or> rep_capacity report = 0"
  shows "\<exists>rc d rc' rep d'.
    tlv_schema_validate mem data sz format schema max_depth max_elements diagnostic = Some (rc, d) \<and>
    tlv_schema_validate_all_diag mem data sz format schema max_depth max_elements TLV_SCHEMA_UNKNOWN_BY_SCHEMA (Some report) diagnostic =
      Some (rc', Some rep, d') \<and>
    (rc = TLV_OK \<longleftrightarrow> rc' = TLV_OK) \<and> (rc = TLV_OK \<longrightarrow> rep_count rep = 0)"
proof (cases schema)
  case None
  then show ?thesis by (simp add: tlv_schema_validate_def tlv_schema_validate_all_diag_def argument_failure_def Let_def)
next
  case (Some s)
  let ?diag = "map_option (\<lambda>_. tlv_schema_diagnostic_init) diagnostic" and ?report = "report\<lparr>rep_count := 0\<rparr>"
  obtain rc0 d0 where c: "tlv_schema_check mem schema ?diag = Some (rc0, d0)" by (rule schema_check_returns)
  have bad: "\<not> (rep_diagnostics report = None \<and> rep_capacity report \<noteq> 0)" using report by auto
  obtain rc d rc' rep d' where I: "validate_input mem data sz format (Some s) max_depth max_elements d0 = Some (rc, d)"
    "validate_all mem data sz format s max_depth max_elements TLV_SCHEMA_UNKNOWN_BY_SCHEMA ?report (map_option sd_diagnostic d0) =
       Some (rc', rep, d')"
    "(rc = TLV_OK) = (rc' = TLV_OK)" "rc = TLV_OK \<longrightarrow> rep_count rep = 0"
    using inputs_agree [OF input, of ?report mem format s max_elements d0] by auto
  have R: "\<exists>d. tlv_schema_validate_all_diag mem data sz format schema max_depth max_elements TLV_SCHEMA_UNKNOWN_BY_SCHEMA (Some report)
      diagnostic = Some (if rc0 \<noteq> TLV_OK then rc0 else rc',
        Some (if rc0 \<noteq> TLV_OK then ?report else if rc' \<noteq> TLV_OK \<and> rc' \<noteq> TLV_ERR_SCHEMA then rep\<lparr>rep_count := 0\<rparr> else rep), d)"
    using bad Some c I(2) by (auto simp: tlv_schema_validate_all_diag_def report_checked_def Let_def)
  show ?thesis
  proof (cases "format = None \<or> (data = Null \<and> sz \<noteq> 0)")
    case True
    then have "rc' \<noteq> TLV_OK"
      using I by (auto simp: validate_input_def schema_check_tree_def tlv_tree_reader_init_def tlv_reader_init_def
          tlv_format_can_read_def split: if_splits)
    then show ?thesis using R True
      by (auto simp: tlv_schema_validate_def argument_failure_def Let_def)
  next
    case False
    then have "\<exists>d. tlv_schema_validate mem data sz format schema max_depth max_elements diagnostic =
        Some (if rc0 \<noteq> TLV_OK then rc0 else rc, d)"
      using Some c I(1) by (auto simp: tlv_schema_validate_def validate_checked_def Let_def)
    then show ?thesis using R I(3,4) by auto
  qed
qed

theorem schema_validators_agree_witness:
  "\<exists>rep d'. tlv_schema_validate sample_schema (Ptr 0 [0x30, 5, 2, 1, 7, 5, 0]) 7 (Some tlv_format_ber) (Some 1) 4 8 None = Some (TLV_OK, None) \<and>
     tlv_schema_validate_all_diag sample_schema (Ptr 0 [0x30, 5, 2, 1, 7, 5, 0]) 7 (Some tlv_format_ber) (Some 1) 4 8
       TLV_SCHEMA_UNKNOWN_BY_SCHEMA (Some \<lparr>rep_diagnostics = None, rep_capacity = 0, rep_count = 9\<rparr>) None = Some (TLV_OK, Some rep, d') \<and>
     rep_count rep = 0"
proof -
  let ?p = "Ptr 0 [0x30, 5, 2, 1, 7, 5, 0]"
  have v: "tlv_schema_validate sample_schema ?p 7 (Some tlv_format_ber) (Some 1) 4 8 None = Some (TLV_OK, None)" by code_simp
  have "readable ?p 7" "7 \<le> SIZE_MAX" "4 < TLV_SCHEMA_MAX_DEPTH" by (simp_all add: readable_def SIZE_MAX_def TLV_SCHEMA_MAX_DEPTH_def)
  from schema_validators_agree [OF this, of "\<lparr>rep_diagnostics = None, rep_capacity = 0, rep_count = 9\<rparr>" sample_schema
      "Some tlv_format_ber" "Some 1" 8 None] v
  show ?thesis by auto
qed

text \<open>A schema that nests without bound is validated all the same, with no violation in the report.\<close>

definition deep_schema :: tables where
  "deep_schema a = sample_table [sample_rule 0x30 0 200 0 1 TLV_SCHEMA_CONSTRUCTED (Some 1)]"

lemma schema_deep_accepted:
  "map_option (\<lambda>(rc, rep, d). (rc, map_option rep_count rep))
     (tlv_schema_validate_all_diag deep_schema (Ptr 0 [0x30, 0x00]) 2 (Some tlv_format_ber) (Some 1) 40 100
        TLV_SCHEMA_UNKNOWN_BY_SCHEMA (Some \<lparr>rep_diagnostics = None, rep_capacity = 0, rep_count = 9\<rparr>) None) = Some (TLV_OK, Some 0)"
  by code_simp

end
