(* ===== verification/TLV_Codec.thy ===== *)
theory TLV_Codec
  imports TLV_Schema TLV_Reader TLV_Endian
begin

unbundle bit_operations_syntax

text \<open>
  Value codecs: conversion between the octets of a value and a C representation, with its diagnostics
  (\<^verbatim>\<open>codec/codec.c\<close>, \<^verbatim>\<open>codec/result_internal.h\<close>, \<^verbatim>\<open>codec/diagnostic.h\<close>) and the codecs of \<^verbatim>\<open>codec/values.c\<close>.

  A \<^verbatim>\<open>void*\<close> to a representation is a value of the type of that representation, and \<^verbatim>\<open>sizeof\<close> is that of an LP64
  target.  A decoder has a truth value for its destination and gives the representation it stores; an encoder has
  the representation (\<open>None\<close> for \<^verbatim>\<open>NULL\<close>) with its size.
\<close>

section \<open>Diagnostics\<close>

datatype tlv_codec_operation_t = TLV_CODEC_OP_DECODE | TLV_CODEC_OP_ENCODE | TLV_CODEC_OP_MEASURE | TLV_CODEC_OP_OTHER int

fun tlv_codec_operation_string :: "tlv_codec_operation_t \<Rightarrow> string" where
  "tlv_codec_operation_string TLV_CODEC_OP_DECODE = ''decode''"
| "tlv_codec_operation_string TLV_CODEC_OP_ENCODE = ''encode''"
| "tlv_codec_operation_string TLV_CODEC_OP_MEASURE = ''measure''"
| "tlv_codec_operation_string (TLV_CODEC_OP_OTHER _) = ''unknown''"

datatype tlv_codec_cause_t = TLV_CODEC_CAUSE_NONE | TLV_CODEC_CAUSE_READER | TLV_CODEC_CAUSE_SCHEMA | TLV_CODEC_CAUSE_OTHER int

fun tlv_codec_cause_string :: "tlv_codec_cause_t \<Rightarrow> string" where
  "tlv_codec_cause_string TLV_CODEC_CAUSE_NONE = ''none''"
| "tlv_codec_cause_string TLV_CODEC_CAUSE_READER = ''reader''"
| "tlv_codec_cause_string TLV_CODEC_CAUSE_SCHEMA = ''schema''"
| "tlv_codec_cause_string (TLV_CODEC_CAUSE_OTHER _) = ''unknown''"

datatype tlv_codec_violation_t =
    TLV_CODEC_VIOLATION_NONE | TLV_CODEC_VIOLATION_RESULT | TLV_CODEC_VIOLATION_SIZE | TLV_CODEC_VIOLATION_TYPE
  | TLV_CODEC_VIOLATION_UTF8 | TLV_CODEC_VIOLATION_OTHER int

fun tlv_codec_violation_string :: "tlv_codec_violation_t \<Rightarrow> string" where
  "tlv_codec_violation_string TLV_CODEC_VIOLATION_NONE = ''none''"
| "tlv_codec_violation_string TLV_CODEC_VIOLATION_RESULT = ''result''"
| "tlv_codec_violation_string TLV_CODEC_VIOLATION_SIZE = ''size''"
| "tlv_codec_violation_string TLV_CODEC_VIOLATION_TYPE = ''type''"
| "tlv_codec_violation_string TLV_CODEC_VIOLATION_UTF8 = ''utf8''"
| "tlv_codec_violation_string (TLV_CODEC_VIOLATION_OTHER _) = ''unknown''"

record tlv_codec_schema_detail_t =
  csd_kind :: tlv_schema_issue_kind_t
  csd_tag :: tlv_tag_t
  csd_definition :: tlv_schema_definition_location_t
  csd_field :: "string option"
  csd_is_group :: bool
  csd_has_occurs :: bool
  csd_min_occurs :: nat
  csd_max_occurs :: nat
  csd_occurs :: nat
  csd_has_length :: bool
  csd_min_length :: nat
  csd_max_length :: nat
  csd_actual_length :: nat
  csd_has_form :: bool
  csd_expected_form :: tlv_schema_kind_t
  csd_actual_constructed :: bool
  csd_length_multiple :: nat
  csd_length_flags :: u32

definition schema_detail0 :: tlv_codec_schema_detail_t where
  "schema_detail0 = \<lparr>csd_kind = TLV_SCHEMA_ISSUE_NONE, csd_tag = tlv_tag Null 0, csd_definition = definition_location0,
     csd_field = None, csd_is_group = False, csd_has_occurs = False, csd_min_occurs = 0, csd_max_occurs = 0, csd_occurs = 0,
     csd_has_length = False, csd_min_length = 0, csd_max_length = 0, csd_actual_length = 0, csd_has_form = False,
     csd_expected_form = TLV_SCHEMA_ANY, csd_actual_constructed = False, csd_length_multiple = 0, csd_length_flags = 0\<rparr>"

text \<open>The union of the delegated details; \<open>Detail_Zero\<close> is the zeroed storage.\<close>

datatype codec_detail_union = Detail_Zero | Detail_Reader tlv_reader_detail_t | Detail_Schema tlv_codec_schema_detail_t

record tlv_codec_detail_t =
  cdt_operation :: tlv_codec_operation_t
  cdt_reported :: tlv_result_t
  cdt_violation :: tlv_codec_violation_t
  cdt_representation :: "string option"
  cdt_cause :: tlv_codec_cause_t
  cdt_detail :: codec_detail_union

record tlv_codec_diagnostic_t =
  cdd_diagnostic :: tlv_diagnostic_t
  cdd_codec :: tlv_codec_detail_t

definition tlv_codec_diagnostic_init ::
  "tlv_codec_diagnostic_t option \<Rightarrow> tlv_codec_operation_t \<Rightarrow> tlv_codec_diagnostic_t option" where
  "tlv_codec_diagnostic_init diagnostic operation =
     map_option (\<lambda>_. \<lparr>cdd_diagnostic = tlv_diagnostic_init TLV_OK TLV_DIAGNOSTIC_SEVERITY_INFO,
        cdd_codec = \<lparr>cdt_operation = operation, cdt_reported = TLV_OK, cdt_violation = TLV_CODEC_VIOLATION_NONE,
          cdt_representation = None, cdt_cause = TLV_CODEC_CAUSE_NONE, cdt_detail = Detail_Zero\<rparr>\<rparr>) diagnostic"

definition tlv_codec_diagnostic_result ::
  "tlv_codec_diagnostic_t option \<Rightarrow> tlv_result_t \<Rightarrow> tlv_result_t \<times> tlv_codec_diagnostic_t option" where
  "tlv_codec_diagnostic_result diagnostic result =
     (result,
      map_option (\<lambda>d.
        d\<lparr>cdd_diagnostic := (cdd_diagnostic d)\<lparr>diag_code := result,
            diag_severity := (if result = TLV_OK \<or> result = TLV_NEED_MORE_DATA then TLV_DIAGNOSTIC_SEVERITY_INFO
              else TLV_DIAGNOSTIC_SEVERITY_ERROR)\<rparr>,
          cdd_codec := (if cdt_violation (cdd_codec d) = TLV_CODEC_VIOLATION_NONE
            then (cdd_codec d)\<lparr>cdt_reported := result\<rparr> else cdd_codec d)\<rparr>) diagnostic)"

section \<open>Results of callbacks (result\_internal.h)\<close>

definition tlv_codec_result :: "tlv_result_t \<Rightarrow> tlv_codec_operation_t \<Rightarrow> tlv_result_t" where
  "tlv_codec_result result operation =
     (if result = TLV_NEED_MORE_DATA \<and> operation = TLV_CODEC_OP_DECODE then result else tlv_callback_result result False)"

definition tlv_codec_callback_result ::
  "tlv_codec_diagnostic_t option \<Rightarrow> tlv_result_t \<Rightarrow> tlv_codec_operation_t \<Rightarrow> tlv_result_t \<times> tlv_codec_diagnostic_t option" where
  "tlv_codec_callback_result d reported operation =
     (let result = tlv_codec_result reported operation;
          d = map_option (\<lambda>x. let c = cdd_codec x;
                  c = (if cdt_violation c = TLV_CODEC_VIOLATION_NONE then c\<lparr>cdt_reported := reported\<rparr> else c);
                  c = c\<lparr>cdt_operation := operation\<rparr>;
                  c = (if result \<noteq> reported then c\<lparr>cdt_violation := TLV_CODEC_VIOLATION_RESULT\<rparr> else c) in
                x\<lparr>cdd_codec := c\<rparr>) d in
      tlv_codec_diagnostic_result d result)"

section \<open>Codecs (codec.c)\<close>

text \<open>The result of a decoder with what it stores, and of an encoder with the buffer and the reported count.\<close>

type_synonym 'v decoded = "tlv_result_t \<times> 'v option \<times> tlv_codec_diagnostic_t option"
type_synonym encoded = "tlv_result_t \<times> obuf \<times> nat option \<times> tlv_codec_diagnostic_t option"

type_synonym 'v codec_decode = "ptr \<Rightarrow> nat \<Rightarrow> bool \<Rightarrow> nat \<Rightarrow> tlv_codec_diagnostic_t option \<Rightarrow> 'v decoded"
type_synonym 'v codec_encode = "'v option \<Rightarrow> nat \<Rightarrow> obuf \<Rightarrow> nat \<Rightarrow> bool \<Rightarrow> tlv_codec_diagnostic_t option \<Rightarrow> encoded"

definition decode_return :: "tlv_codec_diagnostic_t option \<Rightarrow> tlv_result_t \<Rightarrow> 'v option \<Rightarrow> 'v decoded" where
  "decode_return diagnostic rc v = (case tlv_codec_diagnostic_result diagnostic rc of (rc, d) \<Rightarrow> (rc, v, d))"

definition encode_return :: "tlv_codec_diagnostic_t option \<Rightarrow> tlv_result_t \<Rightarrow> obuf \<Rightarrow> nat option \<Rightarrow> encoded" where
  "encode_return diagnostic rc data written = (case tlv_codec_diagnostic_result diagnostic rc of (rc, d) \<Rightarrow> (rc, data, written, d))"

record 'v tlv_codec_t =
  codec_decode :: "'v codec_decode option"
  codec_encode :: "'v codec_encode option"

definition encode_operation :: "obuf \<Rightarrow> tlv_codec_operation_t" where
  "encode_operation data = (if data \<noteq> None then TLV_CODEC_OP_ENCODE else TLV_CODEC_OP_MEASURE)"

definition tlv_codec_decode :: "'v tlv_codec_t option \<Rightarrow> 'v codec_decode" where
  "tlv_codec_decode codec data sz value_ok capacity diagnostic =
     (let d = tlv_codec_diagnostic_init diagnostic TLV_CODEC_OP_DECODE in
      if codec = None \<or> \<not> value_ok \<or> (data = Null \<and> sz \<noteq> 0) then decode_return d TLV_ERR_NULL_ARG None
      else case codec_decode (the codec) of
        None \<Rightarrow> decode_return d TLV_ERR_UNSUPPORTED None
      | Some decode \<Rightarrow>
          (case decode data sz True capacity d of
             (rc, v, d) \<Rightarrow> (case tlv_codec_callback_result d rc TLV_CODEC_OP_DECODE of (rc, d) \<Rightarrow> (rc, v, d))))"

definition tlv_codec_encode :: "'v tlv_codec_t option \<Rightarrow> 'v codec_encode" where
  "tlv_codec_encode codec v sz data capacity written_ok diagnostic =
     (let operation = encode_operation data; d = tlv_codec_diagnostic_init diagnostic operation in
      if \<not> written_ok then encode_return d TLV_ERR_NULL_ARG data None
      else if codec = None \<or> v = None \<or> (data = None \<and> capacity \<noteq> 0) then encode_return d TLV_ERR_NULL_ARG data (Some 0)
      else case codec_encode (the codec) of
        None \<Rightarrow> encode_return d TLV_ERR_UNSUPPORTED data (Some 0)
      | Some encode \<Rightarrow>
          (case encode v sz data capacity True d of
             (rc, buf, count, d) \<Rightarrow>
               (case tlv_codec_callback_result d rc operation of
                  (rc, d) \<Rightarrow>
                    if rc \<noteq> TLV_OK then (rc, buf, Some 0, d)
                    else if data \<noteq> None \<and> out count 0 > capacity
                    then encode_return (map_option (\<lambda>x. x\<lparr>cdd_codec := (cdd_codec x)\<lparr>cdt_violation := TLV_CODEC_VIOLATION_SIZE\<rparr>\<rparr>) d)
                           TLV_ERR_CALLBACK buf (Some 0)
                    else (TLV_OK, buf, Some (out count 0), d))))"

section \<open>Integers and octets (values.c)\<close>

text \<open>These callbacks are reached through the entry points above, which reject null pointers.\<close>

definition decode_uint8 :: "u8 codec_decode" where
  "decode_uint8 data sz value_ok capacity diagnostic =
     (let d = tlv_codec_diagnostic_init diagnostic TLV_CODEC_OP_DECODE in
      if sz \<noteq> 1 then decode_return d TLV_ERR_INVALID_VALUE None
      else if capacity < 1 then decode_return d TLV_ERR_BUFFER_TOO_SHORT None
      else decode_return d TLV_OK (Some (byte_at data 0)))"

definition encode_uint8 :: "u8 codec_encode" where
  "encode_uint8 v sz data capacity written_ok diagnostic =
     (let d = tlv_codec_diagnostic_init diagnostic (encode_operation data) in
      if sz \<noteq> 1 then encode_return d TLV_ERR_INVALID_VALUE data None
      else if data \<noteq> None \<and> capacity < 1 then encode_return d TLV_ERR_BUFFER_TOO_SHORT data None
      else encode_return d TLV_OK (map_option (\<lambda>b. b[0 := the v]) data) (Some 1))"

definition tlv_codec_uint8 :: "u8 tlv_codec_t" where
  "tlv_codec_uint8 = \<lparr>codec_decode = Some decode_uint8, codec_encode = Some encode_uint8\<rparr>"

definition decode_uint16 :: "tlv_byte_order_t \<Rightarrow> u16 codec_decode" where
  "decode_uint16 order data sz value_ok capacity diagnostic =
     (let d = tlv_codec_diagnostic_init diagnostic TLV_CODEC_OP_DECODE in
      if sz \<noteq> 2 then decode_return d TLV_ERR_INVALID_VALUE None
      else if capacity < 2 then decode_return d TLV_ERR_BUFFER_TOO_SHORT None
      else decode_return d TLV_OK
        (Some (if order = TLV_BYTE_ORDER_BIG_ENDIAN then tlv_read_u16_be data else tlv_read_u16_le data)))"

definition encode_uint16 :: "tlv_byte_order_t \<Rightarrow> u16 codec_encode" where
  "encode_uint16 order v sz data capacity written_ok diagnostic =
     (let d = tlv_codec_diagnostic_init diagnostic (encode_operation data) in
      if sz \<noteq> 2 then encode_return d TLV_ERR_INVALID_VALUE data None
      else if data \<noteq> None \<and> capacity < 2 then encode_return d TLV_ERR_BUFFER_TOO_SHORT data None
      else encode_return d TLV_OK
        (map_option (\<lambda>b. if order = TLV_BYTE_ORDER_BIG_ENDIAN then tlv_write_u16_be b (the v) else tlv_write_u16_le b (the v)) data)
        (Some 2))"

definition tlv_codec_uint16_be :: "u16 tlv_codec_t" where
  "tlv_codec_uint16_be = \<lparr>codec_decode = Some (decode_uint16 TLV_BYTE_ORDER_BIG_ENDIAN),
     codec_encode = Some (encode_uint16 TLV_BYTE_ORDER_BIG_ENDIAN)\<rparr>"

definition tlv_codec_uint16_le :: "u16 tlv_codec_t" where
  "tlv_codec_uint16_le = \<lparr>codec_decode = Some (decode_uint16 TLV_BYTE_ORDER_LITTLE_ENDIAN),
     codec_encode = Some (encode_uint16 TLV_BYTE_ORDER_LITTLE_ENDIAN)\<rparr>"

definition decode_uint32 :: "tlv_byte_order_t \<Rightarrow> u32 codec_decode" where
  "decode_uint32 order data sz value_ok capacity diagnostic =
     (let d = tlv_codec_diagnostic_init diagnostic TLV_CODEC_OP_DECODE in
      if sz \<noteq> 4 then decode_return d TLV_ERR_INVALID_VALUE None
      else if capacity < 4 then decode_return d TLV_ERR_BUFFER_TOO_SHORT None
      else decode_return d TLV_OK
        (Some (if order = TLV_BYTE_ORDER_BIG_ENDIAN then tlv_read_u32_be data else tlv_read_u32_le data)))"

definition encode_uint32 :: "tlv_byte_order_t \<Rightarrow> u32 codec_encode" where
  "encode_uint32 order v sz data capacity written_ok diagnostic =
     (let d = tlv_codec_diagnostic_init diagnostic (encode_operation data) in
      if sz \<noteq> 4 then encode_return d TLV_ERR_INVALID_VALUE data None
      else if data \<noteq> None \<and> capacity < 4 then encode_return d TLV_ERR_BUFFER_TOO_SHORT data None
      else encode_return d TLV_OK
        (map_option (\<lambda>b. if order = TLV_BYTE_ORDER_BIG_ENDIAN then tlv_write_u32_be b (the v) else tlv_write_u32_le b (the v)) data)
        (Some 4))"

definition tlv_codec_uint32_be :: "u32 tlv_codec_t" where
  "tlv_codec_uint32_be = \<lparr>codec_decode = Some (decode_uint32 TLV_BYTE_ORDER_BIG_ENDIAN),
     codec_encode = Some (encode_uint32 TLV_BYTE_ORDER_BIG_ENDIAN)\<rparr>"

definition tlv_codec_uint32_le :: "u32 tlv_codec_t" where
  "tlv_codec_uint32_le = \<lparr>codec_decode = Some (decode_uint32 TLV_BYTE_ORDER_LITTLE_ENDIAN),
     codec_encode = Some (encode_uint32 TLV_BYTE_ORDER_LITTLE_ENDIAN)\<rparr>"

text \<open>\<^verbatim>\<open>sizeof(tlv_value_t)\<close> on an LP64 target.\<close>

definition sizeof_tlv_value :: nat where "sizeof_tlv_value = 16"

definition decode_bytes :: "tlv_value_t codec_decode" where
  "decode_bytes data sz value_ok capacity diagnostic =
     (let d = tlv_codec_diagnostic_init diagnostic TLV_CODEC_OP_DECODE in
      if capacity < sizeof_tlv_value then decode_return d TLV_ERR_BUFFER_TOO_SHORT None
      else decode_return d TLV_OK (Some \<lparr>val_data = data, val_size = sz\<rparr>))"

definition encode_bytes :: "tlv_value_t codec_encode" where
  "encode_bytes v sz data capacity written_ok diagnostic =
     (let d = tlv_codec_diagnostic_init diagnostic (encode_operation data); input = the v in
      if sz \<noteq> sizeof_tlv_value then encode_return d TLV_ERR_INVALID_VALUE data None
      else if val_data input = Null \<and> val_size input \<noteq> 0 then encode_return d TLV_ERR_NULL_ARG data None
      else case tlv_size_to_native (val_size input) True of
        (rc, len) \<Rightarrow>
          if rc \<noteq> TLV_OK then encode_return d TLV_ERR_INVALID_VALUE data None
          else if data \<noteq> None \<and> capacity < the len then encode_return d TLV_ERR_BUFFER_TOO_SHORT data None
          else encode_return d TLV_OK (obuf_blit 0 (take (the len) (bytes (val_data input))) data) len)"

definition tlv_codec_bytes :: "tlv_value_t tlv_codec_t" where
  "tlv_codec_bytes = \<lparr>codec_decode = Some decode_bytes, codec_encode = Some encode_bytes\<rparr>"

text \<open>Signed integers; an \<^verbatim>\<open>int64_t\<close> is an \<open>int\<close>.\<close>

definition integer_decode_value :: "ptr \<Rightarrow> nat \<Rightarrow> int option" where
  "integer_decode_value data sz =
     (if sz < 1 \<or> sz > 8 then None
      else let bits = fold (\<lambda>i bits. push_bit 8 bits OR ucast (byte_at data i)) [0..<sz]
                 (if byte_at data 0 AND 0x80 \<noteq> 0 then NOT 0 else 0 :: u64) in
        Some (if unat bits \<le> 2 ^ 63 - 1 then int (unat bits) else - 1 - int (unat (NOT bits))))"

definition redundant_lead :: "u8 \<Rightarrow> u8 \<Rightarrow> bool" where
  "redundant_lead a b \<longleftrightarrow> (a = 0 \<and> b AND 0x80 = 0) \<or> (a = 0xFF \<and> b AND 0x80 \<noteq> 0)"

fun minimal_tail :: "u8 list \<Rightarrow> u8 list" where
  "minimal_tail (a # b # rest) = (if redundant_lead a b then minimal_tail (b # rest) else a # b # rest)"
| "minimal_tail xs = xs"

definition integer_minimal_size :: "u8 list \<Rightarrow> nat" where
  "integer_minimal_size full = length (minimal_tail full)"

definition integer_encode_value :: "int \<Rightarrow> u8 list" where
  "integer_encode_value v = (let bits = word_of_int v :: u64 in map (\<lambda>i. ucast (drop_bit (8 * (7 - i)) bits)) [0..<8])"

definition decode_integer :: "int codec_decode" where
  "decode_integer data sz value_ok capacity diagnostic =
     (let d = tlv_codec_diagnostic_init diagnostic TLV_CODEC_OP_DECODE in
      if sz = 0 \<or> sz > 8 then decode_return d TLV_ERR_INVALID_VALUE None
      else if sz > 1 \<and> redundant_lead (byte_at data 0) (byte_at data 1) then decode_return d TLV_ERR_INVALID_VALUE None
      else case integer_decode_value data sz of
        None \<Rightarrow> decode_return d TLV_ERR_INVALID_VALUE None
      | Some result \<Rightarrow>
          if capacity < 8 then decode_return d TLV_ERR_BUFFER_TOO_SHORT None
          else decode_return d TLV_OK (Some result))"

definition encode_integer :: "int codec_encode" where
  "encode_integer v sz data capacity written_ok diagnostic =
     (let d = tlv_codec_diagnostic_init diagnostic (encode_operation data) in
      if sz \<noteq> 8 then encode_return d TLV_ERR_INVALID_VALUE data None
      else let full = integer_encode_value (the v); minimal_size = integer_minimal_size full; offset = 8 - minimal_size in
        if data \<noteq> None \<and> capacity < minimal_size then encode_return d TLV_ERR_BUFFER_TOO_SHORT data None
        else encode_return d TLV_OK (obuf_blit 0 (take minimal_size (drop offset full)) data) (Some minimal_size))"

definition tlv_codec_int64_minimal_be :: "int tlv_codec_t" where
  "tlv_codec_int64_minimal_be = \<lparr>codec_decode = Some decode_integer, codec_encode = Some encode_integer\<rparr>"

end
