(* ===== verification/TLV_Codec_Primitives.thy ===== *)
theory TLV_Codec_Primitives
  imports TLV_Codec
begin

unbundle bit_operations_syntax

text \<open>
  The configurable codecs: numbers (\<^verbatim>\<open>codec/number.c\<close>), text (\<^verbatim>\<open>codec/text.c\<close>), digit strings (\<^verbatim>\<open>codec/digits.c\<close>), IPv4 addresses
  (\<^verbatim>\<open>codec/ipv4.c\<close>) and numbers whose width a schema entry rules (\<^verbatim>\<open>schema/number.c\<close>, \<^verbatim>\<open>schema/codec_internal.h\<close>).
  A \<open>None\<close> configuration is a \<^verbatim>\<open>NULL\<close> context.
\<close>

section \<open>Numbers (number.c)\<close>

datatype tlv_number_encoding_t = TLV_NUMBER_BINARY_BE | TLV_NUMBER_BINARY_LE | TLV_NUMBER_BCD | TLV_NUMBER_OTHER int

record tlv_number_codec_config_t =
  nc_encoding :: tlv_number_encoding_t
  nc_width :: nat
  nc_digits :: nat

definition number_valid_config :: "tlv_number_codec_config_t \<Rightarrow> bool" where
  "number_valid_config config =
     (if nc_encoding config = TLV_NUMBER_BCD then nc_width config \<le> 9 \<and> nc_digits config \<ge> 1 \<and> nc_digits config \<le> 18
      else (nc_encoding config = TLV_NUMBER_BINARY_BE \<or> nc_encoding config = TLV_NUMBER_BINARY_LE) \<and>
        nc_width config \<le> 8 \<and> nc_digits config = 0)"

definition decimal_limit :: "nat \<Rightarrow> u64" where
  "decimal_limit digits = ((\<lambda>limit. limit * 10) ^^ digits) 1 - 1"

definition number_order :: "tlv_number_codec_config_t \<Rightarrow> tlv_byte_order_t" where
  "number_order config =
     (if nc_encoding config = TLV_NUMBER_BINARY_BE then TLV_BYTE_ORDER_BIG_ENDIAN else TLV_BYTE_ORDER_LITTLE_ENDIAN)"

fun bcd_fold :: "u8 list \<Rightarrow> u64 \<Rightarrow> u64 option" where
  "bcd_fold [] number = Some number"
| "bcd_fold (b # rest) number =
     (let high = drop_bit 4 b; low = b AND 15 in
      if high > 9 \<or> low > 9 then None
      else bcd_fold rest (number * 100 + ucast high * 10 + ucast low))"

definition tlv_number_decode :: "tlv_number_codec_config_t option \<Rightarrow> u64 codec_decode" where
  "tlv_number_decode config data sz value_ok capacity diagnostic =
     (let d = tlv_codec_diagnostic_init diagnostic TLV_CODEC_OP_DECODE; c = the config;
          finish = (\<lambda>number.
            if capacity < 8 then decode_return d TLV_ERR_BUFFER_TOO_SHORT None else decode_return d TLV_OK (Some number)) in
      if config = None \<or> \<not> value_ok \<or> (data = Null \<and> sz \<noteq> 0) then decode_return d TLV_ERR_NULL_ARG None
      else if \<not> number_valid_config c then decode_return d TLV_ERR_INVALID_ARG None
      else if sz = 0 \<or> sz > (if nc_encoding c = TLV_NUMBER_BCD then 9 else 8) \<or> (nc_width c \<noteq> 0 \<and> sz \<noteq> nc_width c)
      then decode_return d TLV_ERR_INVALID_VALUE None
      else if nc_encoding c = TLV_NUMBER_BCD then
        (case bcd_fold (map (byte_at data) [0..<sz]) 0 of
           None \<Rightarrow> decode_return d TLV_ERR_INVALID_VALUE None
         | Some number \<Rightarrow> if number > decimal_limit (nc_digits c) then decode_return d TLV_ERR_INVALID_VALUE None else finish number)
      else (case tlv_read_uint data sz (number_order c) True of
              (rc, number) \<Rightarrow> if rc \<noteq> TLV_OK then decode_return d TLV_ERR_INVALID_VALUE None else finish (the number)))"

function number_width :: "u64 \<Rightarrow> u64 \<Rightarrow> nat \<Rightarrow> nat" where
  "number_width radix remaining width =
     (if radix \<in> {100, 256} \<and> remaining \<ge> radix then number_width radix (remaining div radix) (width + 1) else width)"
  by pat_completeness auto
termination
proof (relation "measure (\<lambda>(radix, remaining, width). unat remaining)", simp, clarsimp)
  fix radix remaining :: u64
  assume "radix = 100 \<or> radix = 256" "radix \<le> remaining"
  then have "1 < unat radix" "0 < unat remaining" by (auto simp: word_le_nat_alt)
  then show "unat (remaining div radix) < unat remaining" by (simp add: unat_div)
qed

declare number_width.simps [simp del]

definition bcd_octet :: "nat \<Rightarrow> u8 list \<times> u64 \<Rightarrow> u8 list \<times> u64" where
  "bcd_octet i st =
     (case st of (buf, number) \<Rightarrow>
        let pair = number mod 100 in
        (buf[i - 1 := ucast (push_bit 4 (pair div 10) OR pair mod 10)], number div 100))"

definition tlv_number_encode :: "tlv_number_codec_config_t option \<Rightarrow> u64 codec_encode" where
  "tlv_number_encode config v sz data capacity written_ok diagnostic =
     (let d = tlv_codec_diagnostic_init diagnostic (encode_operation data); c = the config; number = the v;
          fail = (\<lambda>rc. encode_return d rc data (Some 0)); buf = replicate 9 (0 :: u8) in
      if \<not> written_ok then encode_return d TLV_ERR_NULL_ARG data None
      else if config = None \<or> v = None \<or> (data = None \<and> capacity \<noteq> 0) then fail TLV_ERR_NULL_ARG
      else if \<not> number_valid_config c then fail TLV_ERR_INVALID_ARG
      else if sz \<noteq> 8 then fail TLV_ERR_INVALID_VALUE
      else if nc_encoding c = TLV_NUMBER_BCD \<and> number > decimal_limit (nc_digits c) then fail TLV_ERR_INVALID_VALUE
      else let needed = number_width (if nc_encoding c = TLV_NUMBER_BCD then 100 else 256) number 1 in
        if nc_width c \<noteq> 0 \<and> needed > nc_width c then fail TLV_ERR_INVALID_VALUE
        else let width = (if nc_width c \<noteq> 0 then nc_width c else needed) in
          if data \<noteq> None \<and> capacity < width then fail TLV_ERR_BUFFER_TOO_SHORT
          else case (if nc_encoding c = TLV_NUMBER_BCD then (TLV_OK, Some (fst (fold bcd_octet (rev [1..<Suc width]) (buf, number))))
                     else tlv_write_uint (Some buf) width (number_order c) number) of
            (rc, written) \<Rightarrow>
              if rc \<noteq> TLV_OK then fail TLV_ERR_INVALID_VALUE
              else encode_return d TLV_OK (obuf_blit 0 (take width (the written)) data) (Some width))"

section \<open>Text (text.c)\<close>

datatype tlv_text_alphabet_t = TLV_TEXT_ASCII_PRINTABLE | TLV_TEXT_ASCII_ALNUM | TLV_TEXT_OTHER int

record tlv_text_codec_config_t =
  tx_alphabet :: tlv_text_alphabet_t
  tx_width :: nat
  tx_zero_padding :: int

definition text_valid_config :: "tlv_text_codec_config_t \<Rightarrow> bool" where
  "text_valid_config config \<longleftrightarrow>
     (tx_alphabet config = TLV_TEXT_ASCII_PRINTABLE \<or> tx_alphabet config = TLV_TEXT_ASCII_ALNUM) \<and>
     (tx_zero_padding config = 0 \<or> tx_zero_padding config = 1)"

definition text_octet :: "tlv_text_codec_config_t \<Rightarrow> u8 \<Rightarrow> bool" where
  "text_octet config c =
     (if tx_alphabet config = TLV_TEXT_ASCII_PRINTABLE then \<not> (c < 0x20 \<or> c > 0x7E)
      else (c \<ge> 65 \<and> c \<le> 90) \<or> (c \<ge> 97 \<and> c \<le> 122) \<or> (c \<ge> 48 \<and> c \<le> 57))"

definition valid_text :: "tlv_text_codec_config_t \<Rightarrow> ptr \<Rightarrow> nat \<Rightarrow> bool" where
  "valid_text config data sz = list_all (\<lambda>i. text_octet config (byte_at data i)) [0..<sz]"

fun trim_zeros :: "ptr \<Rightarrow> nat \<Rightarrow> nat" where
  "trim_zeros data 0 = 0"
| "trim_zeros data (Suc n) = (if byte_at data n = 0 then trim_zeros data n else Suc n)"

definition tlv_text_decode :: "tlv_text_codec_config_t option \<Rightarrow> tlv_value_t codec_decode" where
  "tlv_text_decode config data sz value_ok capacity diagnostic =
     (let d = tlv_codec_diagnostic_init diagnostic TLV_CODEC_OP_DECODE; c = the config in
      if config = None \<or> \<not> value_ok \<or> (data = Null \<and> sz \<noteq> 0) then decode_return d TLV_ERR_NULL_ARG None
      else if \<not> text_valid_config c then decode_return d TLV_ERR_INVALID_ARG None
      else if tx_width c \<noteq> 0 \<and> sz \<noteq> tx_width c then decode_return d TLV_ERR_INVALID_VALUE None
      else let n = (if tx_zero_padding c \<noteq> 0 then trim_zeros data sz else sz) in
        if \<not> valid_text c data n then decode_return d TLV_ERR_INVALID_VALUE None
        else if capacity < sizeof_tlv_value then decode_return d TLV_ERR_BUFFER_TOO_SHORT None
        else decode_return d TLV_OK (Some \<lparr>val_data = data, val_size = n\<rparr>))"

definition tlv_text_encode :: "tlv_text_codec_config_t option \<Rightarrow> tlv_value_t codec_encode" where
  "tlv_text_encode config v sz data capacity written_ok diagnostic =
     (let d = tlv_codec_diagnostic_init diagnostic (encode_operation data); c = the config; text = the v;
          fail = (\<lambda>rc. encode_return d rc data (Some 0)) in
      if \<not> written_ok then encode_return d TLV_ERR_NULL_ARG data None
      else if config = None \<or> v = None \<or> (data = None \<and> capacity \<noteq> 0) then fail TLV_ERR_NULL_ARG
      else if \<not> text_valid_config c then fail TLV_ERR_INVALID_ARG
      else if sz \<noteq> sizeof_tlv_value then fail TLV_ERR_INVALID_VALUE
      else if val_data text = Null \<and> val_size text \<noteq> 0 then fail TLV_ERR_NULL_ARG
      else case tlv_size_to_native (val_size text) True of
        (rc, len) \<Rightarrow>
          if rc \<noteq> TLV_OK then fail TLV_ERR_INVALID_VALUE
          else let n = the len; total_octets = (if tx_zero_padding c \<noteq> 0 \<and> n < tx_width c then tx_width c else n) in
            if (tx_width c \<noteq> 0 \<and> total_octets \<noteq> tx_width c) \<or> \<not> valid_text c (val_data text) n then fail TLV_ERR_INVALID_VALUE
            else if data \<noteq> None \<and> capacity < total_octets then fail TLV_ERR_BUFFER_TOO_SHORT
            else encode_return d TLV_OK
              (obuf_blit n (replicate (total_octets - n) 0) (obuf_blit 0 (take n (bytes (val_data text))) data)) (Some total_octets))"

section \<open>Digit strings (digits.c)\<close>

record tlv_digits_codec_config_t =
  dg_width :: nat

definition nibble :: "ptr \<Rightarrow> nat \<Rightarrow> u8" where
  "nibble data index = (if index mod 2 \<noteq> 0 then byte_at data (index div 2) else drop_bit 4 (byte_at data (index div 2))) AND 15"

fun digits_scan :: "ptr \<Rightarrow> nat list \<Rightarrow> bool \<Rightarrow> nat \<Rightarrow> nat option" where
  "digits_scan data [] padding count = Some count"
| "digits_scan data (i # rest) padding count =
     (let digit = nibble data i in
      if digit = 15 then digits_scan data rest True count
      else if digit > 9 \<or> padding then None
      else digits_scan data rest padding (count + 1))"

text \<open>A \<^verbatim>\<open>char\<close> array is a list of octets; the decoder stores the digits and a terminator.\<close>

definition tlv_digits_decode :: "tlv_digits_codec_config_t option \<Rightarrow> u8 list codec_decode" where
  "tlv_digits_decode config data sz value_ok capacity diagnostic =
     (let d = tlv_codec_diagnostic_init diagnostic TLV_CODEC_OP_DECODE; c = the config in
      if config = None \<or> \<not> value_ok \<or> (data = Null \<and> sz \<noteq> 0) then decode_return d TLV_ERR_NULL_ARG None
      else if (dg_width c \<noteq> 0 \<and> sz \<noteq> dg_width c) \<or> sz > (SIZE_MAX - 1) div 2 then decode_return d TLV_ERR_INVALID_VALUE None
      else case digits_scan data [0..<sz * 2] False 0 of
        None \<Rightarrow> decode_return d TLV_ERR_INVALID_VALUE None
      | Some count \<Rightarrow>
          if capacity \<le> count then decode_return d TLV_ERR_BUFFER_TOO_SHORT None
          else decode_return d TLV_OK (Some (map (\<lambda>i. 48 + nibble data i) [0..<count] @ [0])))"

definition digits_octet :: "u8 list \<Rightarrow> nat \<Rightarrow> nat \<Rightarrow> u8" where
  "digits_octet digits sz i =
     push_bit 4 (if i * 2 < sz then digits ! (i * 2) - 48 else 15) OR (if i * 2 + 1 < sz then digits ! (i * 2 + 1) - 48 else 15)"

definition tlv_digits_encode :: "tlv_digits_codec_config_t option \<Rightarrow> u8 list codec_encode" where
  "tlv_digits_encode config v sz data capacity written_ok diagnostic =
     (let d = tlv_codec_diagnostic_init diagnostic (encode_operation data); c = the config; digits = the v;
          fail = (\<lambda>rc. encode_return d rc data (Some 0)); needed = sz div 2 + sz mod 2 in
      if \<not> written_ok then encode_return d TLV_ERR_NULL_ARG data None
      else if config = None \<or> v = None \<or> (data = None \<and> capacity \<noteq> 0) then fail TLV_ERR_NULL_ARG
      else if dg_width c \<noteq> 0 \<and> needed > dg_width c then fail TLV_ERR_INVALID_VALUE
      else let octets = (if dg_width c \<noteq> 0 then dg_width c else needed) in
        if octets > (SIZE_MAX - 1) div 2 then fail TLV_ERR_INVALID_VALUE
        else if list_ex (\<lambda>i. digits ! i < 48 \<or> digits ! i > 57) [0..<sz] then fail TLV_ERR_INVALID_VALUE
        else if data \<noteq> None \<and> capacity < octets then fail TLV_ERR_BUFFER_TOO_SHORT
        else encode_return d TLV_OK (obuf_blit 0 (map (digits_octet digits sz) [0..<octets]) data) (Some octets))"

section \<open>IPv4 addresses (ipv4.c)\<close>

record tlv_ipv4_t =
  ip_bytes :: "u8 list"

definition decode_ipv4 :: "tlv_ipv4_t codec_decode" where
  "decode_ipv4 data sz value_ok capacity diagnostic =
     (let d = tlv_codec_diagnostic_init diagnostic TLV_CODEC_OP_DECODE in
      if sz \<noteq> 4 then decode_return d TLV_ERR_INVALID_VALUE None
      else if capacity < 4 then decode_return d TLV_ERR_BUFFER_TOO_SHORT None
      else decode_return d TLV_OK (Some \<lparr>ip_bytes = take 4 (bytes data)\<rparr>))"

definition encode_ipv4 :: "tlv_ipv4_t codec_encode" where
  "encode_ipv4 v sz data capacity written_ok diagnostic =
     (let d = tlv_codec_diagnostic_init diagnostic (encode_operation data) in
      if sz \<noteq> 4 then encode_return d TLV_ERR_INVALID_VALUE data None
      else if data \<noteq> None \<and> capacity < 4 then encode_return d TLV_ERR_BUFFER_TOO_SHORT data None
      else encode_return d TLV_OK (obuf_blit 0 (take 4 (ip_bytes (the v))) data) (Some 4))"

definition tlv_codec_ipv4 :: "tlv_ipv4_t tlv_codec_t" where
  "tlv_codec_ipv4 = \<lparr>codec_decode = Some decode_ipv4, codec_encode = Some encode_ipv4\<rparr>"

record tlv_ipv4_list_t =
  ipl_raw :: tlv_value_t

definition validate_list :: "tlv_value_t \<Rightarrow> tlv_result_t \<times> nat option" where
  "validate_list v =
     (if val_data v = Null \<and> val_size v \<noteq> 0 then (TLV_ERR_NULL_ARG, None)
      else case tlv_size_to_native (val_size v) True of
        (rc, len) \<Rightarrow> if rc \<noteq> TLV_OK \<or> the len mod 4 \<noteq> 0 then (TLV_ERR_INVALID_VALUE, len) else (TLV_OK, len))"

definition decode_ipv4_list :: "tlv_ipv4_list_t codec_decode" where
  "decode_ipv4_list data sz value_ok capacity diagnostic =
     (let d = tlv_codec_diagnostic_init diagnostic TLV_CODEC_OP_DECODE in
      if sz mod 4 \<noteq> 0 then decode_return d TLV_ERR_INVALID_VALUE None
      else if capacity < sizeof_tlv_value then decode_return d TLV_ERR_BUFFER_TOO_SHORT None
      else decode_return d TLV_OK (Some \<lparr>ipl_raw = \<lparr>val_data = data, val_size = sz\<rparr>\<rparr>))"

definition encode_ipv4_list :: "tlv_ipv4_list_t codec_encode" where
  "encode_ipv4_list v sz data capacity written_ok diagnostic =
     (let d = tlv_codec_diagnostic_init diagnostic (encode_operation data) in
      if sz \<noteq> sizeof_tlv_value then encode_return d TLV_ERR_INVALID_VALUE data None
      else case validate_list (ipl_raw (the v)) of
        (rc, len) \<Rightarrow>
          if rc \<noteq> TLV_OK then encode_return d rc data None
          else case tlv_codec_encode (Some tlv_codec_bytes) (Some (ipl_raw (the v))) sizeof_tlv_value data capacity written_ok d of
            (rc, data, written, d) \<Rightarrow> encode_return d rc data written)"

definition tlv_codec_ipv4_list :: "tlv_ipv4_list_t tlv_codec_t" where
  "tlv_codec_ipv4_list = \<lparr>codec_decode = Some decode_ipv4_list, codec_encode = Some encode_ipv4_list\<rparr>"

definition tlv_ipv4_list_at :: "tlv_ipv4_list_t option \<Rightarrow> nat \<Rightarrow> bool \<Rightarrow> tlv_result_t \<times> tlv_ipv4_t option" where
  "tlv_ipv4_list_at lst index value_ok =
     (if lst = None \<or> \<not> value_ok then (TLV_ERR_NULL_ARG, None)
      else case validate_list (ipl_raw (the lst)) of
        (rc, len) \<Rightarrow>
          if rc \<noteq> TLV_OK then (rc, None)
          else if index \<ge> the len div 4 then (TLV_ERR_INVALID_VALUE, None)
          else (TLV_OK, Some \<lparr>ip_bytes = take 4 (drop (index * 4) (bytes (val_data (ipl_raw (the lst)))))\<rparr>))"

section \<open>Numbers under a schema entry (schema/number.c)\<close>

record tlv_schema_number_t =
  sn_schema :: "tlv_schema_entry_t option"
  sn_representation :: tlv_number_codec_config_t

definition tlv_schema_codec_length_result ::
  "tlv_schema_entry_t \<Rightarrow> nat \<Rightarrow> tlv_result_t \<Rightarrow> tlv_codec_diagnostic_t option \<Rightarrow> tlv_result_t \<times> tlv_codec_diagnostic_t option" where
  "tlv_schema_codec_length_result rule width result diagnostic =
     tlv_codec_diagnostic_result
       (map_option (\<lambda>x.
          let c = cdd_codec x; detail = (case cdt_detail c of Detail_Schema s \<Rightarrow> s | _ \<Rightarrow> schema_detail0) in
          x\<lparr>cdd_codec := c\<lparr>cdt_cause := TLV_CODEC_CAUSE_SCHEMA,
              cdt_detail := Detail_Schema (detail\<lparr>
                csd_kind := (if result = TLV_ERR_INVALID_SCHEMA then TLV_SCHEMA_ISSUE_DEFINITION else TLV_SCHEMA_ISSUE_LENGTH),
                csd_tag := se_tag rule, csd_field := se_name rule, csd_has_length := True, csd_min_length := se_min_length rule,
                csd_max_length := se_max_length rule, csd_actual_length := width, csd_length_multiple := se_length_multiple rule,
                csd_length_flags := se_flags rule\<rparr>)\<rparr>\<rparr>) diagnostic) result"

definition tlv_schema_number_decode :: "tlv_schema_number_t option \<Rightarrow> u64 codec_decode" where
  "tlv_schema_number_decode rule data sz value_ok capacity diagnostic =
     (let d = tlv_codec_diagnostic_init diagnostic TLV_CODEC_OP_DECODE; r = the rule in
      if rule = None \<or> sn_schema r = None \<or> \<not> value_ok \<or> (data = Null \<and> sz \<noteq> 0) then decode_return d TLV_ERR_NULL_ARG None
      else let result = tlv_schema_validate_length (sn_schema r) sz in
        if result \<noteq> TLV_OK
        then (case tlv_schema_codec_length_result (the (sn_schema r)) sz result d of (rc, d) \<Rightarrow> (rc, None, d))
        else case tlv_number_decode (Some (sn_representation r)) data sz value_ok capacity d of
          (rc, v, d) \<Rightarrow> decode_return d rc v)"

text \<open>
  The search for a width that the entry allows.  It starts at a width of at most \<open>limit\<close>, so the comparison with \<open>limit\<close>
  is the test for equality of the code.
\<close>

function schema_width :: "tlv_schema_entry_t option \<Rightarrow> nat \<Rightarrow> nat \<Rightarrow> (tlv_result_t \<times> nat) + nat" where
  "schema_width entry limit width =
     (let result = tlv_schema_validate_length entry width in
      if result = TLV_OK then Inr width
      else if result \<noteq> TLV_ERR_SCHEMA \<or> width \<ge> limit then Inl (result, width)
      else schema_width entry limit (width + 1))"
  by pat_completeness auto
termination by (relation "measure (\<lambda>(entry, limit, width). limit - width)") auto

declare schema_width.simps [simp del]

definition tlv_schema_number_encode :: "tlv_schema_number_t option \<Rightarrow> u64 codec_encode" where
  "tlv_schema_number_encode rule v sz data capacity written_ok diagnostic =
     (let d = tlv_codec_diagnostic_init diagnostic (encode_operation data); r = the rule;
          length_fail = (\<lambda>width result. case tlv_schema_codec_length_result (the (sn_schema r)) width result d of
            (rc, d) \<Rightarrow> (rc, data, Some 0, d));
          number_encode = (\<lambda>representation. case tlv_number_encode (Some representation) v sz data capacity written_ok d of
            (rc, data, written, d) \<Rightarrow> encode_return d rc data written) in
      if \<not> written_ok then encode_return d TLV_ERR_NULL_ARG data None
      else if rule = None \<or> sn_schema r = None \<or> v = None \<or> (data = None \<and> capacity \<noteq> 0)
      then encode_return d TLV_ERR_NULL_ARG data (Some 0)
      else let representation = sn_representation r in
        case tlv_number_encode (Some representation) v sz None 0 True None of
          (result, _, width, _) \<Rightarrow>
            if result \<noteq> TLV_OK then encode_return d result data (Some 0)
            else if nc_width representation \<noteq> 0 then
              (let result = tlv_schema_validate_length (sn_schema r) (the width) in
               if result \<noteq> TLV_OK then length_fail (the width) result else number_encode representation)
            else case schema_width (sn_schema r) (if nc_encoding representation = TLV_NUMBER_BCD then 9 else 8) (the width) of
              Inl (result, width) \<Rightarrow> length_fail width result
            | Inr width \<Rightarrow> number_encode (representation\<lparr>nc_width := width\<rparr>))"

end
