(* ===== verification/TLV_Codec_Interface.thy ===== *)
theory TLV_Codec_Interface
  imports TLV_Codec_Primitives
begin

unbundle bit_operations_syntax

text \<open>
  The contract of a value codec towards its clients: what it accepts has an encoding that the size query measures, that
  a large enough buffer receives and that decodes to the same value; what it rejects is not written.  Every codec of
  the library keeps it.
\<close>

section \<open>Results\<close>

lemma codec_result_fst [simp]: "fst (tlv_codec_diagnostic_result d rc) = rc"
  by (simp add: tlv_codec_diagnostic_result_def)

lemma decode_return_exists: "\<exists>d'. decode_return d rc v = (rc, v, d')"
  by (simp add: decode_return_def tlv_codec_diagnostic_result_def)

lemma encode_return_exists: "\<exists>d'. encode_return d rc data written = (rc, data, written, d')"
  by (simp add: encode_return_def tlv_codec_diagnostic_result_def)

lemma decode_return_eq [simp]: "decode_return d rc v = (rc', v', d') \<longleftrightarrow> rc' = rc \<and> v' = v \<and> d' = snd (tlv_codec_diagnostic_result d rc)"
  by (auto simp: decode_return_def tlv_codec_diagnostic_result_def)

lemma encode_return_eq [simp]:
  "encode_return d rc data written = (rc', data', written', d') \<longleftrightarrow>
     rc' = rc \<and> data' = data \<and> written' = written \<and> d' = snd (tlv_codec_diagnostic_result d rc)"
  by (auto simp: encode_return_def tlv_codec_diagnostic_result_def)

text \<open>Results that a callback may report.\<close>

definition codec_error :: "tlv_result_t \<Rightarrow> bool" where
  "codec_error rc \<longleftrightarrow> rc \<noteq> TLV_OK \<and> tlv_callback_result rc False = rc"

lemma callback_result_exists:
  "tlv_callback_result rc False = rc \<Longrightarrow> \<exists>d'. tlv_codec_callback_result d rc operation = (rc, d')"
  by (simp add: tlv_codec_callback_result_def tlv_codec_result_def tlv_codec_diagnostic_result_def Let_def)

lemma codec_errors [simp]:
  "codec_error TLV_ERR_INVALID_VALUE" "codec_error TLV_ERR_BUFFER_TOO_SHORT" "codec_error TLV_ERR_NULL_ARG" "codec_error TLV_ERR_INVALID_ARG"
  "codec_error TLV_ERR_SCHEMA" "codec_error TLV_ERR_INVALID_SCHEMA" "\<not> codec_error TLV_OK"
  by (simp_all add: codec_error_def tlv_callback_result_def)

section \<open>The contract\<close>

text \<open>
  \<open>present\<close>: the representation is one that memory can hold; \<open>good\<close>: the codec accepts it; \<open>wire\<close>: its encoding; \<open>room\<close>: the
  capacity that decoding it needs; \<open>same\<close>: a decoded representation denotes the same value.
\<close>

locale value_codec =
  fixes decode :: "'v codec_decode" and encode :: "'v codec_encode"
    and present :: "'v \<Rightarrow> nat \<Rightarrow> bool" and good :: "'v \<Rightarrow> nat \<Rightarrow> bool" and wire :: "'v \<Rightarrow> nat \<Rightarrow> u8 list"
    and room :: "'v \<Rightarrow> nat \<Rightarrow> nat" and same :: "'v \<Rightarrow> nat \<Rightarrow> 'v \<Rightarrow> bool"
  assumes measured: "present v sz \<Longrightarrow> good v sz \<Longrightarrow> \<exists>d'. encode (Some v) sz None 0 True d = (TLV_OK, None, Some (length (wire v sz)), d')"
    and stored: "present v sz \<Longrightarrow> good v sz \<Longrightarrow> length (wire v sz) \<le> capacity \<Longrightarrow> capacity \<le> length buf \<Longrightarrow>
      \<exists>d'. encode (Some v) sz (Some buf) capacity True d = (TLV_OK, Some (blit 0 (wire v sz) buf), Some (length (wire v sz)), d')"
    and short: "present v sz \<Longrightarrow> good v sz \<Longrightarrow> capacity < length (wire v sz) \<Longrightarrow>
      \<exists>n d'. encode (Some v) sz (Some buf) capacity True d = (TLV_ERR_BUFFER_TOO_SHORT, Some buf, n, d')"
    and rejected: "present v sz \<Longrightarrow> \<not> good v sz \<Longrightarrow> data \<noteq> None \<or> capacity = 0 \<Longrightarrow>
      \<exists>rc n d'. encode (Some v) sz data capacity True d = (rc, data, n, d') \<and> codec_error rc"
    and decoded: "present v sz \<Longrightarrow> good v sz \<Longrightarrow> p \<noteq> Null \<Longrightarrow> take (length (wire v sz)) (bytes p) = wire v sz \<Longrightarrow>
      room v sz \<le> capacity \<Longrightarrow> \<exists>w d'. decode p (length (wire v sz)) True capacity d = (TLV_OK, Some w, d') \<and> same v sz w"
begin

abbreviation codec :: "'v tlv_codec_t" where
  "codec \<equiv> \<lparr>codec_decode = Some decode, codec_encode = Some encode\<rparr>"

lemma entry_measured:
  assumes g: "present v sz" "good v sz"
  shows "\<exists>d'. tlv_codec_encode (Some codec) (Some v) sz None 0 True d = (TLV_OK, None, Some (length (wire v sz)), d')"
proof -
  let ?d = "tlv_codec_diagnostic_init d TLV_CODEC_OP_MEASURE"
  obtain d1 where e: "encode (Some v) sz None 0 True ?d = (TLV_OK, None, Some (length (wire v sz)), d1)" using measured [OF g] by blast
  obtain d2 where "tlv_codec_callback_result d1 TLV_OK TLV_CODEC_OP_MEASURE = (TLV_OK, d2)"
    using callback_result_exists [of TLV_OK] by (auto simp: tlv_callback_result_def)
  with e show ?thesis by (simp add: tlv_codec_encode_def encode_operation_def Let_def)
qed

lemma entry_stored:
  assumes g: "present v sz" "good v sz" and n: "length (wire v sz) \<le> capacity" "capacity \<le> length buf"
  shows "\<exists>d'. tlv_codec_encode (Some codec) (Some v) sz (Some buf) capacity True d =
    (TLV_OK, Some (blit 0 (wire v sz) buf), Some (length (wire v sz)), d')"
proof -
  let ?d = "tlv_codec_diagnostic_init d TLV_CODEC_OP_ENCODE"
  obtain d1 where e: "encode (Some v) sz (Some buf) capacity True ?d = (TLV_OK, Some (blit 0 (wire v sz) buf), Some (length (wire v sz)), d1)"
    using stored [OF g n] by blast
  obtain d2 where "tlv_codec_callback_result d1 TLV_OK TLV_CODEC_OP_ENCODE = (TLV_OK, d2)"
    using callback_result_exists [of TLV_OK] by (auto simp: tlv_callback_result_def)
  with e n show ?thesis by (simp add: tlv_codec_encode_def encode_operation_def Let_def)
qed

lemma entry_failed:
  assumes e: "encode (Some v) sz data capacity True (tlv_codec_diagnostic_init d (encode_operation data)) = (rc, data, n, d1)"
    and rc: "codec_error rc" and data: "data \<noteq> None \<or> capacity = 0"
  shows "\<exists>d'. tlv_codec_encode (Some codec) (Some v) sz data capacity True d = (rc, data, Some 0, d')"
proof -
  obtain d2 where "tlv_codec_callback_result d1 rc (encode_operation data) = (rc, d2)"
    using callback_result_exists [of rc] rc by (auto simp: codec_error_def)
  with e rc data show ?thesis by (auto simp: tlv_codec_encode_def codec_error_def Let_def)
qed

lemma entry_short:
  assumes "present v sz" "good v sz" "capacity < length (wire v sz)"
  shows "\<exists>d'. tlv_codec_encode (Some codec) (Some v) sz (Some buf) capacity True d = (TLV_ERR_BUFFER_TOO_SHORT, Some buf, Some 0, d')"
  using short [OF assms, of buf "tlv_codec_diagnostic_init d (encode_operation (Some buf))"]
    entry_failed [of v sz "Some buf" capacity d TLV_ERR_BUFFER_TOO_SHORT] by fastforce

lemma entry_rejected:
  assumes "present v sz" "\<not> good v sz" "data \<noteq> None \<or> capacity = 0"
  shows "\<exists>rc d'. tlv_codec_encode (Some codec) (Some v) sz data capacity True d = (rc, data, Some 0, d') \<and> codec_error rc"
  using rejected [OF assms, of "tlv_codec_diagnostic_init d (encode_operation data)"] entry_failed [OF _ _ assms(3)] by blast

text \<open>A size query succeeds exactly on what the codec accepts.\<close>

lemma entry_measure_iff:
  assumes "present v sz"
  shows "fst (tlv_codec_encode (Some codec) (Some v) sz None 0 True d) = TLV_OK \<longleftrightarrow> good v sz"
  using entry_measured [OF assms, of d] entry_rejected [OF assms, of None 0 d] by (cases "good v sz") auto

lemma entry_decoded:
  assumes "present v sz" "good v sz" "p \<noteq> Null" "take (length (wire v sz)) (bytes p) = wire v sz" "room v sz \<le> capacity"
  shows "\<exists>w d'. tlv_codec_decode (Some codec) p (length (wire v sz)) True capacity d = (TLV_OK, Some w, d') \<and> same v sz w"
proof -
  let ?d = "tlv_codec_diagnostic_init d TLV_CODEC_OP_DECODE"
  obtain w d1 where e: "decode p (length (wire v sz)) True capacity ?d = (TLV_OK, Some w, d1)" "same v sz w"
    using decoded [OF assms] by blast
  obtain d2 where "tlv_codec_callback_result d1 TLV_OK TLV_CODEC_OP_DECODE = (TLV_OK, d2)"
    using callback_result_exists [of TLV_OK] by (auto simp: tlv_callback_result_def)
  with e assms(3) show ?thesis by (simp add: tlv_codec_decode_def Let_def)
qed

text \<open>Measure, write, read back.\<close>

lemma entry_roundtrip:
  assumes p: "present v sz" and m: "tlv_codec_encode (Some codec) (Some v) sz None 0 True d0 = (TLV_OK, out0, Some n, d1)"
    and n: "n \<le> capacity" "capacity \<le> length buf" and r: "room v sz \<le> room_given"
  shows "\<exists>buf' d2 w d3. tlv_codec_encode (Some codec) (Some v) sz (Some buf) capacity True d = (TLV_OK, Some buf', Some n, d2) \<and>
    length buf' = length buf \<and> drop n buf' = drop n buf \<and>
    tlv_codec_decode (Some codec) (Ptr a buf') n True room_given d' = (TLV_OK, Some w, d3) \<and> same v sz w"
proof -
  have g: "good v sz" using entry_measure_iff [OF p, of d0] m by simp
  have n': "n = length (wire v sz)" using entry_measured [OF p g, of d0] m by auto
  let ?buf = "blit 0 (wire v sz) buf"
  obtain d2 where "tlv_codec_encode (Some codec) (Some v) sz (Some buf) capacity True d = (TLV_OK, Some ?buf, Some n, d2)"
    using entry_stored [OF p g, of capacity buf d] n n' by auto
  moreover have "take (length (wire v sz)) (bytes (Ptr a ?buf)) = wire v sz" by (simp add: blit_def)
  from entry_decoded [OF p g _ this r, of d'] obtain w d3 where
    "tlv_codec_decode (Some codec) (Ptr a ?buf) n True room_given d' = (TLV_OK, Some w, d3)" "same v sz w" using n' by auto
  moreover have "length ?buf = length buf" "drop n ?buf = drop n buf" using n n' by (simp_all add: blit_def)
  ultimately show ?thesis by blast
qed

end

end
