(* ===== verification/TLV_Codec_Laws.thy ===== *)
theory TLV_Codec_Laws
  imports TLV_Codec_Interface
begin

unbundle bit_operations_syntax

text \<open>
  The codecs of \<^verbatim>\<open>values.c\<close> and \<^verbatim>\<open>ipv4.c\<close> keep the contract of a value codec.
\<close>

section \<open>Fixed-width integers\<close>

lemma encode_operation_simps [simp]:
  "encode_operation None = TLV_CODEC_OP_MEASURE" "encode_operation (Some b) = TLV_CODEC_OP_ENCODE"
  by (simp_all add: encode_operation_def)

lemma store_blit1: "1 \<le> length buf \<Longrightarrow> buf[0 := a] = blit 0 [a] buf"
  by (cases buf) (simp_all add: blit_def)

lemma store_blit2: "2 \<le> length buf \<Longrightarrow> buf[0 := a, 1 := b] = blit 0 [a, b] buf"
  by (cases buf; cases "tl buf") (simp_all add: blit_def)

lemma store_blit4: "4 \<le> length buf \<Longrightarrow> buf[0 := a, 1 := b, 2 := c, 3 := d] = blit 0 [a, b, c, d] buf"
proof -
  assume "4 \<le> length buf"
  then obtain x1 x2 x3 x4 xs where "buf = x1 # x2 # x3 # x4 # xs"
    by (cases buf; cases "tl buf"; cases "tl (tl buf)"; cases "tl (tl (tl buf))") auto
  then show ?thesis by (simp add: blit_def numeral_3_eq_3 numeral_2_eq_2)
qed

definition wire16 :: "tlv_byte_order_t \<Rightarrow> u16 \<Rightarrow> u8 list" where
  "wire16 order v =
     (if order = TLV_BYTE_ORDER_BIG_ENDIAN then [ucast (drop_bit 8 v), ucast v] else [ucast v, ucast (drop_bit 8 v)])"

definition wire32 :: "tlv_byte_order_t \<Rightarrow> u32 \<Rightarrow> u8 list" where
  "wire32 order v =
     (if order = TLV_BYTE_ORDER_BIG_ENDIAN
      then [ucast (drop_bit 24 v), ucast (drop_bit 16 v), ucast (drop_bit 8 v), ucast v]
      else [ucast v, ucast (drop_bit 8 v), ucast (drop_bit 16 v), ucast (drop_bit 24 v)])"

lemma length_wire [simp]: "length (wire16 order v) = 2" "length (wire32 order w) = 4"
  by (simp_all add: wire16_def wire32_def)

lemma join16: "ucast (push_bit 8 (ucast (ucast (drop_bit 8 v) :: u8) :: u32) OR ucast (ucast v :: u8)) = (v :: u16)"
proof (rule bit_word_eqI)
  fix n assume "n < LENGTH(16)"
  then show "bit (ucast (push_bit 8 (ucast (ucast (drop_bit 8 v) :: u8) :: u32) OR ucast (ucast v :: u8)) :: u16) n = bit v n"
    by (cases "n < 8") (auto simp: bit_simps)
qed

lemma join32:
  "push_bit 24 (ucast (ucast (drop_bit 24 v) :: u8)) OR push_bit 16 (ucast (ucast (drop_bit 16 v) :: u8)) OR
     push_bit 8 (ucast (ucast (drop_bit 8 v) :: u8)) OR ucast (ucast v :: u8) = (v :: u32)"
proof (rule bit_word_eqI)
  fix n assume "n < LENGTH(32)"
  then consider "n < 8" | "8 \<le> n" "n < 16" | "16 \<le> n" "n < 24" | "24 \<le> n" "n < 32" by fastforce
  then show "bit (push_bit 24 (ucast (ucast (drop_bit 24 v) :: u8)) OR push_bit 16 (ucast (ucast (drop_bit 16 v) :: u8)) OR
     push_bit 8 (ucast (ucast (drop_bit 8 v) :: u8)) OR ucast (ucast v :: u8) :: u32) n = bit v n"
    by cases (auto simp: bit_simps)
qed

lemma nth_bytes: "take (length xs) (bytes p) = xs \<Longrightarrow> i < length xs \<Longrightarrow> byte_at p i = xs ! i"
  by (metis byte_at_def nth_take)

lemma wire_unknown: "wire16 TLV_BYTE_ORDER_UNKNOWN v = wire16 TLV_BYTE_ORDER_LITTLE_ENDIAN v"
  "wire32 TLV_BYTE_ORDER_UNKNOWN w = wire32 TLV_BYTE_ORDER_LITTLE_ENDIAN w"
  by (simp_all add: wire16_def wire32_def)

lemma read16:
  "take 2 (bytes p) = wire16 TLV_BYTE_ORDER_BIG_ENDIAN v \<Longrightarrow> tlv_read_u16_be p = v"
  "take 2 (bytes p) = wire16 TLV_BYTE_ORDER_LITTLE_ENDIAN v \<Longrightarrow> tlv_read_u16_le p = v"
proof -
  assume "take 2 (bytes p) = wire16 TLV_BYTE_ORDER_BIG_ENDIAN v"
  then have "byte_at p i = wire16 TLV_BYTE_ORDER_BIG_ENDIAN v ! i" if "i < 2" for i using nth_bytes that by fastforce
  then show "tlv_read_u16_be p = v" using join16 [of v] by (simp add: tlv_read_u16_be_def wire16_def)
next
  assume "take 2 (bytes p) = wire16 TLV_BYTE_ORDER_LITTLE_ENDIAN v"
  then have "byte_at p i = wire16 TLV_BYTE_ORDER_LITTLE_ENDIAN v ! i" if "i < 2" for i using nth_bytes that by fastforce
  then show "tlv_read_u16_le p = v" using join16 [of v] by (simp add: tlv_read_u16_le_def wire16_def or.commute)
qed

lemma read32:
  "take 4 (bytes p) = wire32 TLV_BYTE_ORDER_BIG_ENDIAN v \<Longrightarrow> tlv_read_u32_be p = v"
  "take 4 (bytes p) = wire32 TLV_BYTE_ORDER_LITTLE_ENDIAN v \<Longrightarrow> tlv_read_u32_le p = v"
proof -
  assume "take 4 (bytes p) = wire32 TLV_BYTE_ORDER_BIG_ENDIAN v"
  then have "byte_at p i = wire32 TLV_BYTE_ORDER_BIG_ENDIAN v ! i" if "i < 4" for i using nth_bytes that by fastforce
  then show "tlv_read_u32_be p = v" using join32 [of v] by (simp add: tlv_read_u32_be_def wire32_def)
next
  assume "take 4 (bytes p) = wire32 TLV_BYTE_ORDER_LITTLE_ENDIAN v"
  then have "byte_at p i = wire32 TLV_BYTE_ORDER_LITTLE_ENDIAN v ! i" if "i < 4" for i using nth_bytes that by fastforce
  then show "tlv_read_u32_le p = v" using join32 [of v] by (simp add: tlv_read_u32_le_def wire32_def or.commute or.left_commute or.assoc)
qed

lemma write16: "2 \<le> length buf \<Longrightarrow> tlv_write_u16_be buf v = blit 0 (wire16 TLV_BYTE_ORDER_BIG_ENDIAN v) buf"
  "2 \<le> length buf \<Longrightarrow> tlv_write_u16_le buf v = blit 0 (wire16 TLV_BYTE_ORDER_LITTLE_ENDIAN v) buf"
  by (simp_all add: tlv_write_u16_be_def tlv_write_u16_le_def wire16_def store_blit2 [unfolded One_nat_def])

lemma write32: "4 \<le> length buf \<Longrightarrow> tlv_write_u32_be buf v = blit 0 (wire32 TLV_BYTE_ORDER_BIG_ENDIAN v) buf"
  "4 \<le> length buf \<Longrightarrow> tlv_write_u32_le buf v = blit 0 (wire32 TLV_BYTE_ORDER_LITTLE_ENDIAN v) buf"
  by (simp_all add: tlv_write_u32_be_def tlv_write_u32_le_def wire32_def store_blit4 [unfolded One_nat_def])

lemma byte_at_first: "take (Suc 0) (bytes p) = [v] \<Longrightarrow> byte_at p 0 = v"
  using nth_bytes [of "[v]" p 0] by simp

interpretation uint8: value_codec decode_uint8 encode_uint8 "\<lambda>v sz. True" "\<lambda>v sz. sz = 1" "\<lambda>v sz. [v]" "\<lambda>v sz. 1" "\<lambda>v sz w. w = v"
  by unfold_locales (auto simp: decode_uint8_def encode_uint8_def Let_def store_blit1 byte_at_first)

interpretation uint16: value_codec "decode_uint16 order" "encode_uint16 order" "\<lambda>v sz. True" "\<lambda>v sz. sz = 2" "\<lambda>v sz. wire16 order v"
    "\<lambda>v sz. 2" "\<lambda>v sz w. w = v" for order
  by (unfold_locales; cases order; auto simp: decode_uint16_def encode_uint16_def Let_def write16 read16 wire_unknown)

interpretation uint32: value_codec "decode_uint32 order" "encode_uint32 order" "\<lambda>v sz. True" "\<lambda>v sz. sz = 4" "\<lambda>v sz. wire32 order v"
    "\<lambda>v sz. 4" "\<lambda>v sz w. w = v" for order
  by (unfold_locales; cases order; auto simp: decode_uint32_def encode_uint32_def Let_def write32 read32 wire_unknown)

section \<open>Octet strings and addresses\<close>

lemma size_to_native: "tlv_size_to_native n True = (if n \<le> SIZE_MAX then (TLV_OK, Some n) else (TLV_ERR_NATIVE_SIZE, None))"
  by (auto simp: tlv_size_to_native_def)

lemma take_take_bytes: "readable p n \<Longrightarrow> length (take n (bytes p)) = n"
  by (simp add: readable_def)

interpretation bytes_codec: value_codec decode_bytes encode_bytes "\<lambda>v sz. readable (val_data v) (val_size v)"
    "\<lambda>v sz. sz = sizeof_tlv_value \<and> val_size v \<le> SIZE_MAX" "\<lambda>v sz. value_bytes v" "\<lambda>v sz. sizeof_tlv_value"
    "\<lambda>v sz w. value_bytes w = value_bytes v"
  by unfold_locales
    (auto simp: decode_bytes_def encode_bytes_def Let_def size_to_native value_bytes_def obuf_blit_def readable_def split: if_splits)

interpretation ipv4: value_codec decode_ipv4 encode_ipv4 "\<lambda>v sz. length (ip_bytes v) = 4" "\<lambda>v sz. sz = 4" "\<lambda>v sz. ip_bytes v"
    "\<lambda>v sz. 4" "\<lambda>v sz w. w = v"
  by unfold_locales (auto simp: decode_ipv4_def encode_ipv4_def Let_def obuf_blit_def)

end
