(* ===== verification/TLV_Codec_Integer.thy ===== *)
theory TLV_Codec_Integer
  imports TLV_Codec_Laws TLV_ASN1_Values
begin

unbundle bit_operations_syntax

text \<open>
  The codec for signed integers: its octets are the shortest two's complement form of the number, in both directions.
\<close>

section \<open>Decoding\<close>

lemma push_octet_add: "push_bit 8 r OR ucast (b :: u8) = r * 256 + (ucast b :: u64)"
proof -
  have "push_bit 8 r AND ucast b = 0" by (rule bit_word_eqI) (auto simp: bit_simps dest: bit_imp_le_length)
  then have "push_bit 8 r OR ucast b = push_bit 8 r + ucast b" using word_plus_and_or [of "push_bit 8 r" "ucast b"] by simp
  then show ?thesis by (simp add: push_bit_eq_mult)
qed

lemma fold_push_octets:
  "fold (\<lambda>b r. push_bit 8 r OR ucast b) xs r = r * 256 ^ length xs + (of_nat (be_val xs) :: u64)" for xs :: "u8 list"
proof (induction xs rule: rev_induct)
  case (snoc x xs)
  then show ?case by (simp add: push_octet_add algebra_simps)
qed simp

lemma sint_u64: "sint (b :: u64) = (if uint b < 2 ^ 63 then uint b else uint b - 2 ^ 64)"
proof -
  have b: "0 \<le> uint b" "uint b < 2 ^ 64" using uint_lt2p [of b] by auto
  have e: "signed_take_bit 63 (uint b - 2 ^ 64) = signed_take_bit 63 (uint b)"
    by (simp add: signed_take_bit_eq_iff_take_bit_eq take_bit_eq_mod)
  show ?thesis
  proof (cases "uint b < 2 ^ 63")
    case True
    have "signed_take_bit 63 (uint b) = uint b"
      by (rule signed_take_bit_int_eq_self) (use True b(1) in linarith)+
    then show ?thesis using True by (simp add: sint_uint)
  next
    case False
    then have "signed_take_bit 63 (uint b - 2 ^ 64) = uint b - 2 ^ 64" using b by (intro signed_take_bit_int_eq_self) auto
    then show ?thesis using False e by (simp add: sint_uint)
  qed
qed

lemma sint_bits: "(if unat b \<le> 2 ^ 63 - 1 then int (unat b) else - 1 - int (unat (NOT b))) = sint (b :: u64)"
proof -
  have "NOT b = word_of_int (2 ^ 64 - 1 - uint b)" by (simp add: not_eq_complement)
  then have "uint (NOT b) = uint (word_of_int (2 ^ 64 - 1 - uint b) :: u64)" by (simp only: )
  also have "\<dots> = (2 ^ 64 - 1 - uint b) mod 2 ^ 64" by (subst uint_word_of_int) simp
  also have "\<dots> = 2 ^ 64 - 1 - uint b"
  proof (rule mod_pos_pos_trivial)
    show "0 \<le> 2 ^ 64 - 1 - uint b" using uint_lt2p [of b] by simp
    show "2 ^ 64 - 1 - uint b < 2 ^ 64" using uint_ge_0 [of b] by linarith
  qed
  finally have "uint (NOT b) = 2 ^ 64 - 1 - uint b" .
  moreover have "unat b \<le> 2 ^ 63 - 1 \<longleftrightarrow> uint b < 2 ^ 63"
  proof -
    have "uint b < 2 ^ 63 \<longleftrightarrow> int (unat b) < int (2 ^ 63)" by simp
    also have "\<dots> \<longleftrightarrow> unat b < 2 ^ 63" by (rule of_nat_less_iff)
    finally show ?thesis by (simp add: less_eq_Suc_le [symmetric] le_less_Suc_eq less_Suc_eq_le [symmetric])
  qed
  ultimately show ?thesis by (simp add: sint_u64)
qed

lemma sint_word_of_int: "- (2 ^ 63) \<le> v \<Longrightarrow> v < 2 ^ 63 \<Longrightarrow> sint (word_of_int v :: u64) = v"
proof -
  assume v: "- (2 ^ 63) \<le> v" "v < 2 ^ 63"
  have "signed_take_bit 63 (take_bit 64 v) = signed_take_bit 63 v"
    by (simp add: signed_take_bit_eq_iff_take_bit_eq)
  also have "\<dots> = v" using v by (rule signed_take_bit_int_eq_self)
  finally show ?thesis by (simp add: sint_uint uint_word_of_int take_bit_eq_mod)
qed

lemma integer_decode_tc:
  assumes "readable p n" "1 \<le> n" "n \<le> 8"
  shows "integer_decode_value p n = Some (tc_value (take n (bytes p)))"
proof -
  let ?xs = "take n (bytes p)"
  obtain x ys where xs: "?xs = x # ys" using assms by (cases ?xs) (auto simp: readable_def)
  have len: "length ?xs = n" using assms(1) by (simp add: readable_def)
  have hd: "byte_at p 0 = x" using xs assms(2) by (metis byte_at_def nth_Cons_0 nth_take less_eq_Suc_le One_nat_def)
  define r where "r = (if x AND 0x80 \<noteq> 0 then NOT 0 else 0 :: u64)"
  have "fold (\<lambda>i bits. push_bit 8 bits OR ucast (byte_at p i)) [0..<n] r = fold (\<lambda>b r. push_bit 8 r OR ucast b) (map (byte_at p) [0..<n]) r"
    by (simp add: fold_map comp_def)
  also have "\<dots> = r * 256 ^ n + of_nat (be_val ?xs)" using assms(1) len by (simp add: map_byte_at fold_push_octets)
  also have "\<dots> = word_of_int (tc_value ?xs)"
    using xs len octet_sign [of x] by (auto simp: r_def tc_value_def)
  finally have f: "fold (\<lambda>i bits. push_bit 8 bits OR ucast (byte_at p i)) [0..<n] r = word_of_int (tc_value ?xs)" .
  have R: "- 128 * 256 ^ 7 \<le> tc_value ?xs" "tc_value ?xs < 128 * 256 ^ 7"
    using tc_value_range [of ?xs 7] xs len assms(3) by auto
  then have "sint (word_of_int (tc_value ?xs) :: u64) = tc_value ?xs" by (intro sint_word_of_int) simp_all
  then show ?thesis using assms(2,3) f sint_bits unfolding integer_decode_value_def Let_def hd r_def [symmetric] by (simp only: f sint_bits) simp
qed


section \<open>Encoding\<close>

lemma be_of_map: "be_of n v = map (\<lambda>i. of_nat (v div 256 ^ (n - 1 - i))) [0..<n]"
proof (induction n)
  case (Suc n)
  have "[0..<Suc n] = 0 # map Suc [0..<n]" by (simp add: map_Suc_upt upt_conv_Cons)
  then show ?case using Suc by (simp only: be_of_Suc_Cons) (auto simp: comp_def)
qed simp

lemma integer_encode_be: "integer_encode_value v = be_of 8 (nat (v mod 2 ^ 64))"
proof -
  have "ucast (drop_bit (8 * (7 - i)) (word_of_int v :: u64)) = (of_nat (nat (v mod 2 ^ 64) div 256 ^ (7 - i)) :: u8)" for i
  proof -
    have "(256 :: nat) ^ (7 - i) = 2 ^ (8 * (7 - i))" by (simp add: power_mult)
    moreover have "unat (word_of_int v :: u64) = nat (v mod 2 ^ 64)" by (simp add: unat_eq_nat_uint uint_word_of_int)
    moreover have "unat (drop_bit (8 * (7 - i)) (word_of_int v :: u64)) = unat (word_of_int v :: u64) div 2 ^ (8 * (7 - i))"
      using unat_u64_less [of "word_of_int v :: u64"] unfolding unsigned_drop_bit_eq by (simp add: drop_bit_eq_div take_bit_nat_eq_self)
    ultimately show ?thesis
      by (simp add: word_unat_eq_iff unsigned_ucast_eq unsigned_of_nat take_bit_eq_mod)
  qed
  then show ?thesis by (simp add: integer_encode_value_def be_of_map Let_def)
qed

lemma integer_encode_tc:
  assumes "- (2 ^ 63) \<le> v" "v < 2 ^ 63"
  shows "tc_value (integer_encode_value v) = v" "length (integer_encode_value v) = 8"
proof -
  let ?m = "nat (v mod 2 ^ 64)" and ?xs = "integer_encode_value v"
  show len: "length ?xs = 8" by (simp add: integer_encode_be)
  have m: "?m < 2 ^ 64" by simp
  have bv: "be_val ?xs = ?m" using m by (simp add: integer_encode_be)
  obtain x ys where xs: "?xs = x # ys" "length ys = 7" using len by (cases ?xs) auto
  have b: "be_val ?xs = unat x * 256 ^ 7 + be_val ys" "be_val ys < 256 ^ 7" using xs be_val_Cons be_val_less [of ys] by auto
  have "unat x \<ge> 128 \<longleftrightarrow> ?m \<ge> 2 ^ 63"
  proof
    assume "128 \<le> unat x"
    then have "128 * 256 ^ 7 \<le> unat x * 256 ^ 7" by simp
    then show "2 ^ 63 \<le> ?m" using b bv by simp
  next
    assume "2 ^ 63 \<le> ?m"
    then have "128 * 256 ^ 7 < (unat x + 1) * 256 ^ 7" using b bv by simp
    then show "128 \<le> unat x" by simp
  qed
  moreover have "int ?m = (if v < 0 then v + 2 ^ 64 else v)"
  proof (cases "v < 0")
    case True
    have "v mod 2 ^ 64 = (v + 2 ^ 64) mod 2 ^ 64" by simp
    also have "\<dots> = v + 2 ^ 64" using True assms by (intro mod_pos_pos_trivial) auto
    finally show ?thesis using True assms by simp
  next
    case False
    then show ?thesis using assms by (simp add: mod_pos_pos_trivial)
  qed
  ultimately show "tc_value ?xs = v" using assms bv xs by (auto simp: tc_value_def split: if_splits)
qed


section \<open>The shortest form\<close>

lemma redundant_lead_iff: "redundant_lead a b \<longleftrightarrow> unat a = 0 \<and> unat b < 128 \<or> unat a = 255 \<and> 128 \<le> unat b"
  by (auto simp: redundant_lead_def octet_sign word_unat_eq_iff)

fun shortest :: "u8 list \<Rightarrow> bool" where
  "shortest (a # b # rest) \<longleftrightarrow> \<not> redundant_lead a b"
| "shortest xs \<longleftrightarrow> xs \<noteq> []"

lemma minimal_tail_props:
  "xs \<noteq> [] \<Longrightarrow> tc_value (minimal_tail xs) = tc_value xs \<and> shortest (minimal_tail xs) \<and> minimal_tail xs \<noteq> [] \<and>
     drop (length xs - length (minimal_tail xs)) xs = minimal_tail xs \<and> length (minimal_tail xs) \<le> length xs"
proof (induction xs rule: minimal_tail.induct)
  case (1 a b rest)
  show ?case
  proof (cases "redundant_lead a b")
    case True
    then have "tc_value (a # b # rest) = tc_value (b # rest)" using tc_value_redundant [of "b # rest" a] redundant_lead_iff by auto
    then show ?thesis using 1 True by (auto simp: Suc_diff_le)
  next
    case False
    then show ?thesis by simp
  qed
qed simp_all

lemma shortest_least:
  assumes "shortest ws" "zs \<noteq> []" "tc_value zs = tc_value ws"
  shows "zs = ws \<or> length ws < length zs"
proof -
  have "length ws \<le> length zs"
  proof (rule ccontr)
    assume "\<not> length ws \<le> length zs"
    with assms(2) obtain a b rest where w: "ws = a # b # rest" "length zs \<le> length (b # rest)"
      by (cases ws; cases "tl ws"; cases zs) auto
    then have "tc_value zs \<noteq> tc_value (a # b # rest)"
      using assms(1) redundant_lead_iff [of a b] by (intro tc_value_minimal assms(2)) auto
    then show False using assms(3) w by simp
  qed
  then show ?thesis using tc_value_inj [of zs ws] assms(3) by (cases "length zs = length ws") auto
qed

lemma shortest_unique:
  assumes "shortest xs" "shortest ys" "tc_value xs = tc_value ys"
  shows "xs = ys"
proof -
  have "xs \<noteq> []" "ys \<noteq> []" using assms(1,2) by auto
  with shortest_least [OF assms(1), of ys] shortest_least [OF assms(2), of xs] assms(3) show ?thesis by auto
qed

definition int64 :: "int \<Rightarrow> bool" where
  "int64 v \<longleftrightarrow> - (2 ^ 63) \<le> v \<and> v < 2 ^ 63"

definition wire_int :: "int \<Rightarrow> u8 list" where
  "wire_int v = minimal_tail (integer_encode_value v)"

lemma wire_int_props:
  assumes "int64 v"
  shows "tc_value (wire_int v) = v" "shortest (wire_int v)" "1 \<le> length (wire_int v)" "length (wire_int v) \<le> 8"
    "take (length (wire_int v)) (drop (8 - length (wire_int v)) (integer_encode_value v)) = wire_int v"
    "integer_minimal_size (integer_encode_value v) = length (wire_int v)"
proof -
  note E = integer_encode_tc [of v]
  have v: "- (2 ^ 63) \<le> v" "v < 2 ^ 63" using assms by (auto simp: int64_def)
  have "integer_encode_value v \<noteq> []" using E(2) [OF v] by auto
  from minimal_tail_props [OF this] E [OF v]
  show "tc_value (wire_int v) = v" "shortest (wire_int v)" "1 \<le> length (wire_int v)" "length (wire_int v) \<le> 8"
    "take (length (wire_int v)) (drop (8 - length (wire_int v)) (integer_encode_value v)) = wire_int v"
    "integer_minimal_size (integer_encode_value v) = length (wire_int v)"
    by (auto simp: wire_int_def integer_minimal_size_def Suc_le_eq)
qed

lemma decode_integer_exact:
  assumes "readable p n"
  shows "\<exists>rc w d'. decode_integer p n True capacity d = (rc, w, d') \<and>
    (if 1 \<le> n \<and> n \<le> 8 \<and> shortest (take n (bytes p))
     then (if 8 \<le> capacity then rc = TLV_OK \<and> w = Some (tc_value (take n (bytes p))) else rc = TLV_ERR_BUFFER_TOO_SHORT)
     else rc = TLV_ERR_INVALID_VALUE)"
proof -
  have "shortest (take n (bytes p)) \<longleftrightarrow> \<not> (n > 1 \<and> redundant_lead (byte_at p 0) (byte_at p 1))" if "1 \<le> n"
  proof (cases "n = 1")
    case True
    then show ?thesis using assms by (cases "bytes p") (auto simp: readable_def)
  next
    case False
    with that obtain m where m: "n = Suc (Suc m)" by (metis One_nat_def Suc_le_D not0_implies_Suc)
    then obtain a b rest where "bytes p = a # b # rest"
      using assms by (cases "bytes p"; cases "tl (bytes p)") (auto simp: readable_def)
    then have "bytes p = a # b # rest" "take n (bytes p) = a # b # take m rest" using m by simp_all
    then show ?thesis using False that by (simp add: byte_at_def)
  qed
  then show ?thesis using integer_decode_tc [OF assms] by (auto simp: decode_integer_def Let_def)
qed

interpretation int64_codec: value_codec decode_integer encode_integer "\<lambda>v sz. int64 v" "\<lambda>v sz. sz = 8" "\<lambda>v sz. wire_int v" "\<lambda>v sz. 8"
    "\<lambda>v sz w. w = v"
proof unfold_locales
  fix v :: int and p :: ptr and capacity sz :: nat and d
  assume v: "int64 v" and p: "take (length (wire_int v)) (bytes p) = wire_int v" and c: "8 \<le> capacity"
  have "readable p (length (wire_int v))" unfolding readable_def using p by (metis length_take min.cobounded1 min_def)
  from decode_integer_exact [OF this, of capacity d] p c wire_int_props [OF v]
  show "\<exists>w d'. decode_integer p (length (wire_int v)) True capacity d = (TLV_OK, Some w, d') \<and> w = v" by auto
qed (auto simp: encode_integer_def Let_def wire_int_props(5,6) obuf_blit_def)

end
