(* ===== verification/TLV_Codec_Number.thy ===== *)
theory TLV_Codec_Number
  imports TLV_Codec_Laws
begin

unbundle bit_operations_syntax

text \<open>
  The number codecs in positional notation: binary in either byte order and packed decimal, of fixed or shortest width,
  alone and under a schema entry that rules the width.
\<close>

section \<open>Packed decimal\<close>

definition bcd_pair :: "nat \<Rightarrow> u8" where
  "bcd_pair p = of_nat (p div 10 * 16 + p mod 10)"

primrec bcd_of :: "nat \<Rightarrow> nat \<Rightarrow> u8 list" where
  "bcd_of 0 n = []"
| "bcd_of (Suc k) n = bcd_of k (n div 100) @ [bcd_pair (n mod 100)]"

text \<open>The number that octets of two decimal digits denote.\<close>

definition bcd_octet_val :: "u8 \<Rightarrow> nat" where
  "bcd_octet_val b = unat (drop_bit 4 b) * 10 + unat (b AND 15)"

definition bcd_ok :: "u8 \<Rightarrow> bool" where
  "bcd_ok b \<longleftrightarrow> drop_bit 4 b \<le> 9 \<and> b AND 15 \<le> 9"

definition bcd_val :: "u8 list \<Rightarrow> nat" where
  "bcd_val xs = fold (\<lambda>b r. r * 100 + bcd_octet_val b) xs 0"

lemma length_bcd_of [simp]: "length (bcd_of k n) = k"
  by (induction k arbitrary: n) auto

lemma bcd_pairs:
  "list_all (\<lambda>p. bcd_ok (bcd_pair p) \<and> bcd_octet_val (bcd_pair p) = p \<and>
     ucast (push_bit 4 ((of_nat p :: u64) div 10) OR of_nat p mod 10) = bcd_pair p) [0..<100]"
  by code_simp

lemma bcd_pair_props:
  assumes "p < 100"
  shows "bcd_ok (bcd_pair p)" "bcd_octet_val (bcd_pair p) = p"
    "ucast (push_bit 4 ((of_nat p :: u64) div 10) OR of_nat p mod 10) = bcd_pair p"
  using bcd_pairs assms by (simp_all add: list_all_iff del: upt_rec_numeral)

lemma bcd_val_snoc [simp]: "bcd_val (xs @ [b]) = bcd_val xs * 100 + bcd_octet_val b"
  by (simp add: bcd_val_def)

lemma bcd_val_bcd_of: "bcd_val (bcd_of k n) = n mod 100 ^ k"
proof (induction k arbitrary: n)
  case 0
  then show ?case by (simp add: bcd_val_def)
next
  case (Suc k)
  have "bcd_val (bcd_of (Suc k) n) = n div 100 mod 100 ^ k * 100 + n mod 100" using Suc by (simp add: bcd_pair_props)
  also have "\<dots> = n mod 100 ^ Suc k" by (simp add: mod_mult2_eq mult.commute)
  finally show ?case .
qed

lemma bcd_of_ok: "list_all bcd_ok (bcd_of k n)"
  by (induction k arbitrary: n) (auto simp: bcd_pair_props)

lemma bcd_val_less: "list_all bcd_ok xs \<Longrightarrow> bcd_val xs < 100 ^ length xs"
proof (induction xs rule: rev_induct)
  case (snoc b xs)
  have "unat (drop_bit 4 b) \<le> 9" "unat (b AND 15) \<le> 9" using snoc.prems by (simp_all add: bcd_ok_def word_le_nat_alt)
  then have "bcd_octet_val b \<le> 99" unfolding bcd_octet_val_def by linarith
  then show ?case using snoc by simp
qed (simp add: bcd_val_def)

lemma bcd_fold_snoc:
  "bcd_fold (xs @ [b]) a = Option.bind (bcd_fold xs a) (\<lambda>n. if bcd_ok b then Some (n * 100 + of_nat (bcd_octet_val b)) else None)"
  by (induction xs arbitrary: a) (auto simp: Let_def bcd_ok_def bcd_octet_val_def not_less algebra_simps)

lemma bcd_fold_exact: "bcd_fold xs 0 = (if list_all bcd_ok xs then Some (of_nat (bcd_val xs)) else None)"
proof (induction xs rule: rev_induct)
  case (snoc b xs)
  then show ?case by (auto simp: bcd_fold_snoc algebra_simps)
qed (simp add: bcd_val_def)

section \<open>Widths\<close>

lemma number_width_bounds:
  "r \<in> {100, 256} \<Longrightarrow> \<exists>k. number_width r n w = w + k \<and> unat n < unat r ^ Suc k \<and> (k = 0 \<or> unat r ^ k \<le> unat n)"
proof (induction r n w rule: number_width.induct)
  case (1 r n w)
  have r: "0 < unat r" using 1(2) by auto
  show ?case
  proof (cases "n \<ge> r")
    case False
    then have "unat n < unat r" by (simp add: word_le_nat_alt)
    moreover have "number_width r n w = w" using False by (subst number_width.simps) simp
    ultimately show ?thesis by (intro exI [of _ 0]) simp
  next
    case True
    with 1 obtain k where k: "number_width r (n div r) (w + 1) = w + 1 + k" "unat (n div r) < unat r ^ Suc k"
      "k = 0 \<or> unat r ^ k \<le> unat (n div r)" by blast
    have "number_width r n w = number_width r (n div r) (w + 1)" using 1(2) True by (subst number_width.simps) simp
    moreover have "unat n < unat r ^ Suc (Suc k)"
      using k(2) r by (simp add: unat_div div_less_iff_less_mult mult.commute)
    moreover have "unat r ^ Suc k \<le> unat n"
    proof (cases "k = 0")
      case True
      then show ?thesis using \<open>n \<ge> r\<close> by (simp add: word_le_nat_alt)
    next
      case False
      then have "unat r ^ k * unat r \<le> unat n div unat r * unat r" using k(3) by (simp add: unat_div)
      also have "\<dots> \<le> unat n" by simp
      finally show ?thesis by (simp add: mult.commute)
    qed
    ultimately show ?thesis using k(1) by (intro exI [of _ "Suc k"]) simp
  qed
qed

lemma number_width_props:
  assumes "r \<in> {100, 256}"
  shows "1 \<le> number_width r n 1" "unat n < unat r ^ number_width r n 1"
    "m < number_width r n 1 \<Longrightarrow> m = 0 \<or> unat r ^ m \<le> unat n"
proof -
  obtain k where k: "number_width r n 1 = 1 + k" "unat n < unat r ^ Suc k" "k = 0 \<or> unat r ^ k \<le> unat n"
    using number_width_bounds [OF assms] by blast
  show "1 \<le> number_width r n 1" "unat n < unat r ^ number_width r n 1" using k by simp_all
  assume "m < number_width r n 1"
  moreover have "unat r ^ m \<le> unat r ^ k" if "m \<le> k" using that assms by (intro power_increasing) auto
  ultimately show "m = 0 \<or> unat r ^ m \<le> unat n" using k by (cases "k = 0") (auto intro: order_trans)
qed

lemma decimal_limit_unat: "d \<le> 18 \<Longrightarrow> unat (decimal_limit d) = 10 ^ d - 1"
proof -
  assume d: "d \<le> 18"
  define m where "m = (10 :: nat) ^ d"
  have "((\<lambda>limit. limit * 10) ^^ d) 1 = (of_nat (10 ^ d) :: u64)" by (induction d) (simp_all add: mult.commute)
  then have "((\<lambda>limit. limit * 10) ^^ d) 1 = (of_nat m :: u64)" unfolding m_def .
  moreover have "1 \<le> m" "m \<le> 10 ^ 18" unfolding m_def using d by (simp, intro power_increasing) auto
  moreover from this have "of_nat m - 1 = (of_nat (m - 1) :: u64)" by (simp add: of_nat_diff)
  ultimately show ?thesis
    unfolding decimal_limit_def m_def [symmetric] by (simp add: unat_of_nat take_bit_nat_eq_self del: of_nat_diff)
qed

text \<open>What fits a number: at most eight octets in binary, nine in packed decimal.\<close>

lemma number_width_le:
  "r = 256 \<Longrightarrow> number_width r n 1 \<le> 8" "r = 100 \<Longrightarrow> unat n < 10 ^ 18 \<Longrightarrow> number_width r n 1 \<le> 9"
  using number_width_props(3) [of 256 8 n] number_width_props(3) [of 100 9 n] unat_u64_less [of n]
  by (auto simp: not_le [symmetric] intro: ccontr)


section \<open>The number codec\<close>

definition number_radix :: "tlv_number_codec_config_t \<Rightarrow> u64" where
  "number_radix c = (if nc_encoding c = TLV_NUMBER_BCD then 100 else 256)"

definition number_octets :: "tlv_number_codec_config_t \<Rightarrow> u64 \<Rightarrow> nat" where
  "number_octets c n = (if nc_width c \<noteq> 0 then nc_width c else number_width (number_radix c) n 1)"

definition number_limit :: "tlv_number_codec_config_t \<Rightarrow> nat" where
  "number_limit c = (if nc_encoding c = TLV_NUMBER_BCD then 9 else 8)"

definition number_good :: "tlv_number_codec_config_t \<Rightarrow> u64 \<Rightarrow> bool" where
  "number_good c n \<longleftrightarrow> number_valid_config c \<and> (nc_encoding c = TLV_NUMBER_BCD \<longrightarrow> unat n < 10 ^ nc_digits c) \<and>
     unat n < unat (number_radix c) ^ number_octets c n"

definition number_wire :: "tlv_number_codec_config_t \<Rightarrow> u64 \<Rightarrow> u8 list" where
  "number_wire c n =
     (if nc_encoding c = TLV_NUMBER_BCD then bcd_of (number_octets c n) (unat n)
      else uint_of (number_order c) (number_octets c n) (unat n))"

definition number_val :: "tlv_number_codec_config_t \<Rightarrow> u8 list \<Rightarrow> nat" where
  "number_val c xs = (if nc_encoding c = TLV_NUMBER_BCD then bcd_val xs else uint_val (number_order c) xs)"

lemma length_number_wire [simp]: "length (number_wire c n) = number_octets c n"
  by (simp add: number_wire_def)

lemma number_order_known [simp]: "known_order (number_order c)"
  by (simp add: number_order_def known_order_def)

lemma number_radix_in [simp]: "number_radix c \<in> {100, 256}"
  by (simp add: number_radix_def)

lemma over_decimal_limit: "number_valid_config c \<Longrightarrow> nc_encoding c = TLV_NUMBER_BCD \<Longrightarrow>
    n > decimal_limit (nc_digits c) \<longleftrightarrow> \<not> unat n < 10 ^ nc_digits c"
proof -
  assume "number_valid_config c" "nc_encoding c = TLV_NUMBER_BCD"
  then have "unat (decimal_limit (nc_digits c)) = 10 ^ nc_digits c - 1" by (intro decimal_limit_unat) (simp add: number_valid_config_def)
  moreover have "(1 :: nat) \<le> 10 ^ nc_digits c" by simp
  ultimately show ?thesis unfolding word_less_nat_alt by linarith
qed

lemma number_fits:
  assumes "number_valid_config c" "nc_encoding c = TLV_NUMBER_BCD \<longrightarrow> unat n < 10 ^ nc_digits c"
  shows "number_width (number_radix c) n 1 \<le> number_limit c"
proof (cases "nc_encoding c = TLV_NUMBER_BCD")
  case True
  then have "unat n < 10 ^ nc_digits c" "nc_digits c \<le> 18" using assms by (auto simp: number_valid_config_def)
  moreover have "(10 :: nat) ^ nc_digits c \<le> 10 ^ 18" using calculation(2) by (intro power_increasing) auto
  ultimately have "unat n < 10 ^ 18" by linarith
  then show ?thesis using True number_width_le(2) [OF refl, of n] by (simp add: number_radix_def number_limit_def)
next
  case False
  then show ?thesis using number_width_le(1) [OF refl, of n] by (simp add: number_radix_def number_limit_def)
qed

text \<open>The width in the configuration is too small exactly when the number does not fit.\<close>

lemma width_too_small:
  assumes "nc_width c \<noteq> 0"
  shows "number_width (number_radix c) n 1 > nc_width c \<longleftrightarrow> \<not> unat n < unat (number_radix c) ^ nc_width c"
proof
  assume "nc_width c < number_width (number_radix c) n 1"
  then show "\<not> unat n < unat (number_radix c) ^ nc_width c"
    using number_width_props(3) [OF number_radix_in] assms by (metis not_less)
next
  assume a: "\<not> unat n < unat (number_radix c) ^ nc_width c"
  show "nc_width c < number_width (number_radix c) n 1"
  proof (rule ccontr)
    assume "\<not> nc_width c < number_width (number_radix c) n 1"
    then have "unat (number_radix c) ^ number_width (number_radix c) n 1 \<le> unat (number_radix c) ^ nc_width c"
      by (intro power_increasing) (auto simp: number_radix_def)
    then show False using a number_width_props(2) [OF number_radix_in [of c], of n] by linarith
  qed
qed

lemma number_octets_bounds:
  assumes "number_good c n"
  shows "1 \<le> number_octets c n" "number_octets c n \<le> number_limit c"
  using assms number_width_props(1) [OF number_radix_in [of c], of n] number_fits [of c n]
  by (auto simp: number_good_def number_octets_def number_limit_def number_valid_config_def split: if_splits)

lemma bcd_octets_written:
  "w \<le> length buf \<Longrightarrow> fst (fold bcd_octet (rev [1..<Suc w]) (buf, n)) = bcd_of w (unat n) @ drop w buf"
proof (induction w arbitrary: buf n)
  case (Suc w)
  let ?x = "bcd_pair (unat n mod 100)"
  have "of_nat (unat n mod 100) = n mod (100 :: u64)" by (simp add: word_unat_eq_iff unat_mod unat_of_nat take_bit_nat_eq_self)
  then have x: "ucast (push_bit 4 (n mod 100 div 10) OR n mod 100 mod 10) = ?x"
    using bcd_pair_props(3) [of "unat n mod 100"] by simp
  have "rev [1..<Suc (Suc w)] = Suc w # rev [1..<Suc w]" by simp
  then have "fst (fold bcd_octet (rev [1..<Suc (Suc w)]) (buf, n)) = fst (fold bcd_octet (rev [1..<Suc w]) (buf[w := ?x], n div 100))"
    using x by (simp only: fold.simps comp_def) (simp add: bcd_octet_def Let_def del: upt_Suc)
  also have "\<dots> = bcd_of w (unat (n div 100)) @ drop w (buf[w := ?x])" using Suc by (intro Suc.IH) simp
  also have "drop w (buf[w := ?x]) = ?x # drop (Suc w) buf" using Suc.prems by (simp add: drop_update_swap Cons_nth_drop_Suc [symmetric])
  finally show ?case by (simp add: unat_div del: upt_Suc)
qed simp

lemma number_encode_exact:
  assumes "data \<noteq> None \<or> capacity = 0"
  shows "tlv_number_encode (Some c) (Some n) sz data capacity True d =
    (let d = tlv_codec_diagnostic_init d (encode_operation data) in
     if \<not> number_valid_config c then encode_return d TLV_ERR_INVALID_ARG data (Some 0)
     else if sz \<noteq> 8 \<or> \<not> number_good c n then encode_return d TLV_ERR_INVALID_VALUE data (Some 0)
     else if data \<noteq> None \<and> capacity < number_octets c n then encode_return d TLV_ERR_BUFFER_TOO_SHORT data (Some 0)
     else encode_return d TLV_OK (obuf_blit 0 (number_wire c n) data) (Some (number_octets c n)))"
proof (cases "number_valid_config c \<and> sz = 8 \<and> (nc_encoding c = TLV_NUMBER_BCD \<longrightarrow> unat n < 10 ^ nc_digits c)")
  case False
  then show ?thesis using assms over_decimal_limit [of c n] by (auto simp: tlv_number_encode_def Let_def number_good_def)
next
  case True
  let ?r = "number_radix c"
  have r: "(if nc_encoding c = TLV_NUMBER_BCD then 100 else 256) = ?r" by (simp add: number_radix_def)
  have lim: "\<not> (nc_encoding c = TLV_NUMBER_BCD \<and> n > decimal_limit (nc_digits c))" using True over_decimal_limit [of c n] by auto
  have g: "number_good c n \<longleftrightarrow> \<not> (nc_width c \<noteq> 0 \<and> number_width ?r n 1 > nc_width c)"
    using True width_too_small [of c n] number_width_props(2) [OF number_radix_in [of c], of n]
    by (cases "nc_width c = 0") (auto simp: number_good_def number_octets_def)
  have enc: "(if nc_encoding c = TLV_NUMBER_BCD
      then (TLV_OK, Some (fst (fold bcd_octet (rev [1..<Suc (number_octets c n)]) (replicate 9 0, n))))
      else tlv_write_uint (Some (replicate 9 0)) (number_octets c n) (number_order c) n) =
    (TLV_OK, Some (number_wire c n @ drop (number_octets c n) (replicate 9 0)))" if "number_good c n"
    using number_octets_bounds [OF that] that bcd_octets_written [of "number_octets c n" "replicate 9 0" n]
    by (auto simp: number_wire_def number_limit_def number_good_def number_radix_def tlv_write_uint_OK
        split: if_splits simp del: upt_Suc)
  have w: "(if nc_width c \<noteq> 0 then nc_width c else number_width ?r n 1) = number_octets c n" by (simp add: number_octets_def)
  have args: "\<not> (Some c = None \<or> Some n = None \<or> (data = None \<and> capacity \<noteq> 0))" using assms by auto
  show ?thesis
  proof (cases "number_good c n")
    case False
    then show ?thesis using True lim g args unfolding tlv_number_encode_def Let_def r option.sel by auto
  next
    case good: True
    then have "\<not> (nc_width c \<noteq> 0 \<and> number_width ?r n 1 > nc_width c)" using g by simp
    then show ?thesis
      using True lim good args
      unfolding tlv_number_encode_def Let_def r option.sel w enc [OF good] by auto
  qed
qed

lemma number_decode_exact:
  assumes "readable p len" "p \<noteq> Null"
  shows "tlv_number_decode (Some c) p len True capacity d =
    (let d = tlv_codec_diagnostic_init d TLV_CODEC_OP_DECODE; xs = take len (bytes p) in
     if \<not> number_valid_config c then decode_return d TLV_ERR_INVALID_ARG None
     else if len = 0 \<or> len > number_limit c \<or> (nc_width c \<noteq> 0 \<and> len \<noteq> nc_width c) \<or>
        (nc_encoding c = TLV_NUMBER_BCD \<and> (\<not> list_all bcd_ok xs \<or> \<not> number_val c xs < 10 ^ nc_digits c))
     then decode_return d TLV_ERR_INVALID_VALUE None
     else if capacity < 8 then decode_return d TLV_ERR_BUFFER_TOO_SHORT None
     else decode_return d TLV_OK (Some (of_nat (number_val c xs)))) \<and>
    (number_valid_config c \<longrightarrow> len \<le> number_limit c \<longrightarrow> (nc_encoding c = TLV_NUMBER_BCD \<longrightarrow> list_all bcd_ok (take len (bytes p))) \<longrightarrow>
       number_val c (take len (bytes p)) < 2 ^ 64)"
proof -
  let ?xs = "take len (bytes p)"
  have len: "length ?xs = len" using assms(1) by (simp add: readable_def)
  have small: "number_val c ?xs < 2 ^ 64" if "len \<le> number_limit c" "nc_encoding c = TLV_NUMBER_BCD \<longrightarrow> list_all bcd_ok ?xs"
  proof (cases "nc_encoding c = TLV_NUMBER_BCD")
    case True
    then have "bcd_val ?xs < 100 ^ len" using that bcd_val_less [of ?xs] len by simp
    also have "(100 :: nat) ^ len \<le> 100 ^ 9" using that(1) True by (intro power_increasing) (auto simp: number_limit_def)
    finally show ?thesis using True by (simp add: number_val_def)
  next
    case False
    then have "uint_val (number_order c) ?xs < 256 ^ len" using uint_val_less [of _ ?xs] len by simp
    also have "(256 :: nat) ^ len \<le> 2 ^ 64" using that(1) False by (intro pow256_le) (simp add: number_limit_def)
    finally show ?thesis using False by (simp add: number_val_def)
  qed
  have dl: "(of_nat (bcd_val ?xs) > decimal_limit (nc_digits c)) = (\<not> bcd_val ?xs < 10 ^ nc_digits c)"
    if "number_valid_config c" "nc_encoding c = TLV_NUMBER_BCD" "len \<le> 9" "list_all bcd_ok ?xs"
    using small that over_decimal_limit [of c "of_nat (bcd_val ?xs)"]
    by (simp add: number_limit_def number_val_def unat_of_nat take_bit_nat_eq_self)
  have rd: "tlv_read_uint p len (number_order c) True = (TLV_OK, Some (of_nat (uint_val (number_order c) ?xs)))"
    if "len \<noteq> 0" "len \<le> 8" using tlv_read_uint_unat [OF assms(1) _ that(2) number_order_known] that(1) by simp
  show ?thesis
    using assms dl rd small
    by (auto simp: tlv_number_decode_def Let_def map_byte_at bcd_fold_exact number_limit_def number_val_def)
qed


lemma number_wire_val:
  assumes "number_good c n"
  shows "number_val c (number_wire c n) = unat n" "nc_encoding c = TLV_NUMBER_BCD \<Longrightarrow> list_all bcd_ok (number_wire c n)"
  using assms by (auto simp: number_val_def number_wire_def number_good_def number_radix_def bcd_val_bcd_of bcd_of_ok split: if_splits)

lemma number_decodes:
  assumes g: "number_good c n" and p: "p \<noteq> Null" "take (number_octets c n) (bytes p) = number_wire c n"
    and c': "nc_encoding c' = nc_encoding c" "nc_digits c' = nc_digits c" "nc_width c' = 0 \<or> nc_width c' = number_octets c n"
    and room: "8 \<le> capacity"
  shows "\<exists>d'. tlv_number_decode (Some c') p (number_octets c n) True capacity d = (TLV_OK, Some n, d')"
proof -
  have same: "number_val c' = number_val c" "number_limit c' = number_limit c"
    using c' by (auto simp: number_val_def number_limit_def number_order_def)
  have "readable p (number_octets c n)"
    unfolding readable_def using p(2) by (metis length_number_wire length_take min.cobounded1 min_def)
  moreover have "number_valid_config c'"
    using g c' number_octets_bounds [OF g] by (auto simp: number_good_def number_valid_config_def number_limit_def split: if_splits)
  ultimately show ?thesis
    using number_decode_exact [of p "number_octets c n" c' capacity d] p number_wire_val [OF g] number_octets_bounds [OF g] c' room g same
    by (auto simp: number_good_def Let_def)
qed

interpretation number_codec: value_codec "tlv_number_decode (Some c)" "tlv_number_encode (Some c)" "\<lambda>v sz. True"
    "\<lambda>v sz. sz = 8 \<and> number_good c v" "\<lambda>v sz. number_wire c v" "\<lambda>v sz. 8" "\<lambda>v sz w. w = v" for c
proof unfold_locales
  fix v :: u64 and sz capacity :: nat and p :: ptr and d
  assume "sz = 8 \<and> number_good c v" "p \<noteq> Null" "take (length (number_wire c v)) (bytes p) = number_wire c v" "8 \<le> capacity"
  then show "\<exists>w d'. tlv_number_decode (Some c) p (length (number_wire c v)) True capacity d = (TLV_OK, Some w, d') \<and> w = v"
    using number_decodes [of c v p c capacity d] by (auto simp: number_octets_def)
qed (auto simp: number_encode_exact Let_def obuf_blit_def number_good_def)

section \<open>The number codec under a schema entry\<close>

text \<open>The width that the encoder chooses.\<close>

lemma schema_width_cases:
  "case schema_width e limit w of
     Inr k \<Rightarrow> w \<le> k \<and> k \<le> max limit w \<and> tlv_schema_validate_length e k = TLV_OK \<and> (\<forall>j. w \<le> j \<longrightarrow> j < k \<longrightarrow> tlv_schema_validate_length e j \<noteq> TLV_OK)
   | Inl (rc, k) \<Rightarrow> rc = tlv_schema_validate_length e k \<and> rc \<noteq> TLV_OK \<and> w \<le> k \<and> (rc = TLV_ERR_SCHEMA \<longrightarrow> limit \<le> k) \<and>
       (\<forall>j. w \<le> j \<longrightarrow> j \<le> k \<longrightarrow> tlv_schema_validate_length e j \<noteq> TLV_OK)"
proof (induction e limit w rule: schema_width.induct)
  case (1 e limit w)
  let ?rc = "tlv_schema_validate_length e w"
  consider "?rc = TLV_OK" | "?rc \<noteq> TLV_OK" "?rc \<noteq> TLV_ERR_SCHEMA \<or> w \<ge> limit" | "?rc = TLV_ERR_SCHEMA" "w < limit" by fastforce
  then show ?case
  proof cases
    case 3
    have s: "schema_width e limit w = schema_width e limit (w + 1)" using 3 by (subst schema_width.simps) simp
    have IH: "case schema_width e limit (w + 1) of
        Inr k \<Rightarrow> w + 1 \<le> k \<and> k \<le> max limit (w + 1) \<and> tlv_schema_validate_length e k = TLV_OK \<and>
          (\<forall>j. w + 1 \<le> j \<longrightarrow> j < k \<longrightarrow> tlv_schema_validate_length e j \<noteq> TLV_OK)
      | Inl (rc, k) \<Rightarrow> rc = tlv_schema_validate_length e k \<and> rc \<noteq> TLV_OK \<and> w + 1 \<le> k \<and> (rc = TLV_ERR_SCHEMA \<longrightarrow> limit \<le> k) \<and>
          (\<forall>j. w + 1 \<le> j \<longrightarrow> j \<le> k \<longrightarrow> tlv_schema_validate_length e j \<noteq> TLV_OK)"
      using 1 3 by simp
    have j: "(\<forall>j. w \<le> j \<longrightarrow> P j) \<longleftrightarrow> P w \<and> (\<forall>j. w + 1 \<le> j \<longrightarrow> P j)" for P :: "nat \<Rightarrow> bool" by (metis Suc_eq_plus1 le_antisym not_less_eq_eq le_Suc_eq)
    show ?thesis unfolding s using IH 3 by (auto simp: j split: sum.splits prod.splits)
  qed (subst schema_width.simps, auto)+
qed


definition entry_width :: "tlv_schema_entry_t \<Rightarrow> tlv_number_codec_config_t \<Rightarrow> u64 \<Rightarrow> (tlv_result_t \<times> nat) + nat" where
  "entry_width e c n =
     (if nc_width c \<noteq> 0
      then (let rc = tlv_schema_validate_length (Some e) (nc_width c) in if rc = TLV_OK then Inr (nc_width c) else Inl (rc, nc_width c))
      else schema_width (Some e) (number_limit c) (number_octets c n))"

definition entry_octets :: "tlv_schema_entry_t \<Rightarrow> tlv_number_codec_config_t \<Rightarrow> u64 \<Rightarrow> nat" where
  "entry_octets e c n = (case entry_width e c n of Inr w \<Rightarrow> w | Inl x \<Rightarrow> 0)"

definition entry_good :: "tlv_schema_entry_t \<Rightarrow> tlv_number_codec_config_t \<Rightarrow> u64 \<Rightarrow> bool" where
  "entry_good e c n \<longleftrightarrow> number_good c n \<and> (\<exists>w. entry_width e c n = Inr w)"

lemma entry_width_props:
  assumes g: "number_good c n" and w: "entry_width e c n = Inr w"
  shows "number_good (c\<lparr>nc_width := w\<rparr>) n" "tlv_schema_validate_length (Some e) w = TLV_OK" "number_octets (c\<lparr>nc_width := w\<rparr>) n = w"
    "1 \<le> w" "w \<le> number_limit c" "number_octets c n \<le> w"
proof -
  note B = number_octets_bounds [OF g]
  have P: "number_octets c n \<le> w \<and> w \<le> number_limit c \<and> tlv_schema_validate_length (Some e) w = TLV_OK"
    using w schema_width_cases [where e = "Some e" and limit = "number_limit c" and w = "number_octets c n"] B
    by (auto simp: entry_width_def number_octets_def Let_def split: if_splits)
  then show "tlv_schema_validate_length (Some e) w = TLV_OK" "1 \<le> w" "w \<le> number_limit c" "number_octets c n \<le> w" using B by auto
  then show o: "number_octets (c\<lparr>nc_width := w\<rparr>) n = w" by (simp add: number_octets_def)
  have r: "number_radix (c\<lparr>nc_width := w\<rparr>) = number_radix c" by (simp add: number_radix_def)
  have "unat (number_radix c) ^ number_octets c n \<le> unat (number_radix c) ^ w"
    using P by (intro power_increasing) (auto simp: number_radix_def)
  then have "unat n < unat (number_radix c) ^ w" using g unfolding number_good_def by linarith
  moreover have "number_valid_config (c\<lparr>nc_width := w\<rparr>)"
    using g P by (auto simp: number_good_def number_valid_config_def number_limit_def split: if_splits)
  ultimately show "number_good (c\<lparr>nc_width := w\<rparr>) n" using g unfolding number_good_def o r by simp
qed

lemma schema_length_result_exists: "\<exists>d'. tlv_schema_codec_length_result e w rc d = (rc, d')"
  by (simp add: tlv_schema_codec_length_result_def tlv_codec_diagnostic_result_def)

lemma schema_validate_length_error:
  "tlv_schema_validate_length (Some e) w \<noteq> TLV_OK \<Longrightarrow> codec_error (tlv_schema_validate_length (Some e) w)"
  by (auto simp: tlv_schema_validate_length_def split: if_splits)

lemma number_encode_measure:
  "tlv_number_encode (Some c) (Some n) sz None 0 True None =
     (if \<not> number_valid_config c then (TLV_ERR_INVALID_ARG, None, Some 0, None)
      else if sz \<noteq> 8 \<or> \<not> number_good c n then (TLV_ERR_INVALID_VALUE, None, Some 0, None)
      else (TLV_OK, None, Some (number_octets c n), None))"
  by (simp add: number_encode_exact Let_def obuf_blit_def tlv_codec_diagnostic_init_def encode_return_def tlv_codec_diagnostic_result_def)

lemma schema_number_encode_cases:
  assumes "data \<noteq> None \<or> capacity = 0"
  shows "\<exists>rc data' n' d'. tlv_schema_number_encode (Some \<lparr>sn_schema = Some e, sn_representation = c\<rparr>) (Some n) sz data capacity True d =
      (rc, data', n', d') \<and>
    (if sz = 8 \<and> entry_good e c n
     then (if data \<noteq> None \<and> capacity < entry_octets e c n then rc = TLV_ERR_BUFFER_TOO_SHORT \<and> data' = data
           else rc = TLV_OK \<and> data' = obuf_blit 0 (number_wire (c\<lparr>nc_width := entry_octets e c n\<rparr>) n) data \<and> n' = Some (entry_octets e c n))
     else codec_error rc \<and> data' = data)"
proof (cases "number_good c n \<and> sz = 8")
  case False
  then show ?thesis using assms
    by (auto simp: tlv_schema_number_encode_def Let_def number_encode_measure entry_good_def encode_return_exists)
next
  case True
  then have v: "number_valid_config c" by (simp add: number_good_def)
  show ?thesis
  proof (cases "entry_width e c n")
    case (Inl x)
    obtain rc w where x: "x = (rc, w)" by fastforce
    obtain d' where "tlv_schema_codec_length_result e w rc (tlv_codec_diagnostic_init d (encode_operation data)) = (rc, d')"
      using schema_length_result_exists by blast
    moreover have "codec_error rc"
      using Inl x schema_width_cases [where e = "Some e" and limit = "number_limit c" and w = "number_octets c n"] schema_validate_length_error [of e w]
      by (auto simp: entry_width_def Let_def split: if_splits)
    ultimately show ?thesis using Inl x True v assms
      by (auto simp: tlv_schema_number_encode_def Let_def number_encode_measure entry_good_def entry_width_def number_octets_def
          number_limit_def split: if_splits)
  next
    case (Inr w)
    note P = entry_width_props [OF conjunct1 [OF True] Inr]
    have o: "entry_octets e c n = w" "entry_good e c n" using Inr True by (simp_all add: entry_octets_def entry_good_def)
    have c: "nc_width c \<noteq> 0 \<Longrightarrow> c\<lparr>nc_width := w\<rparr> = c" using Inr by (auto simp: entry_width_def Let_def split: if_splits)
    let ?d = "tlv_codec_diagnostic_init d (encode_operation data)"
    have e: "tlv_schema_number_encode (Some \<lparr>sn_schema = Some e, sn_representation = c\<rparr>) (Some n) sz data capacity True d =
      (case tlv_number_encode (Some (c\<lparr>nc_width := w\<rparr>)) (Some n) sz data capacity True ?d of
         (rc, data, written, d) \<Rightarrow> encode_return d rc data written)"
      using Inr True v assms c
      by (auto simp: tlv_schema_number_encode_def Let_def number_encode_measure entry_width_def number_octets_def number_limit_def
          split: if_splits)
    have v': "number_valid_config (c\<lparr>nc_width := w\<rparr>)" using P(1) by (simp add: number_good_def)
    show ?thesis unfolding e number_encode_exact [OF assms] o(1)
      using P(1,3) v' True o(2) by (auto simp: Let_def encode_return_def tlv_codec_diagnostic_result_def)
  qed
qed

interpretation schema_number: value_codec "tlv_schema_number_decode (Some \<lparr>sn_schema = Some e, sn_representation = c\<rparr>)"
    "tlv_schema_number_encode (Some \<lparr>sn_schema = Some e, sn_representation = c\<rparr>)" "\<lambda>v sz. True" "\<lambda>v sz. sz = 8 \<and> entry_good e c v"
    "\<lambda>v sz. number_wire (c\<lparr>nc_width := entry_octets e c v\<rparr>) v" "\<lambda>v sz. 8" "\<lambda>v sz w. w = v" for e c
proof -
  have P: "number_good (c\<lparr>nc_width := entry_octets e c v\<rparr>) v" "tlv_schema_validate_length (Some e) (entry_octets e c v) = TLV_OK"
    "number_octets (c\<lparr>nc_width := entry_octets e c v\<rparr>) v = entry_octets e c v" if "entry_good e c v" for v
    using that entry_width_props [of c v e] by (auto simp: entry_good_def entry_octets_def)
  show "value_codec (tlv_schema_number_decode (Some \<lparr>sn_schema = Some e, sn_representation = c\<rparr>))
    (tlv_schema_number_encode (Some \<lparr>sn_schema = Some e, sn_representation = c\<rparr>)) (\<lambda>v sz. True) (\<lambda>v sz. sz = 8 \<and> entry_good e c v)
    (\<lambda>v sz. number_wire (c\<lparr>nc_width := entry_octets e c v\<rparr>) v) (\<lambda>v sz. 8) (\<lambda>v sz w. w = v)"
  proof unfold_locales
    fix v :: u64 and sz capacity :: nat and p :: ptr and d
    let ?c = "c\<lparr>nc_width := entry_octets e c v\<rparr>"
    assume a: "sz = 8 \<and> entry_good e c v" "p \<noteq> Null" "take (length (number_wire ?c v)) (bytes p) = number_wire ?c v" "8 \<le> capacity"
    then have g: "entry_good e c v" by simp
    have wd: "nc_width c = 0 \<or> nc_width c = number_octets ?c v"
      using g P(3) [OF g] by (auto simp: entry_good_def entry_octets_def entry_width_def Let_def split: if_splits)
    let ?d = "tlv_codec_diagnostic_init d TLV_CODEC_OP_DECODE"
    obtain d1 where "tlv_number_decode (Some c) p (number_octets ?c v) True capacity ?d = (TLV_OK, Some v, d1)"
      using number_decodes [OF P(1) [OF g] a(2) _ _ _ wd a(4)] a(3) by fastforce
    then show "\<exists>w d'. tlv_schema_number_decode (Some \<lparr>sn_schema = Some e, sn_representation = c\<rparr>) p (length (number_wire ?c v)) True capacity d =
        (TLV_OK, Some w, d') \<and> w = v"
      using a(2) P(2,3) [OF g] by (simp add: tlv_schema_number_decode_def Let_def)
  next
    fix v :: u64 and sz capacity :: nat and data :: obuf and d
    assume a: "\<not> (sz = 8 \<and> entry_good e c v)" "data \<noteq> None \<or> capacity = 0"
    then show "\<exists>rc n d'. tlv_schema_number_encode (Some \<lparr>sn_schema = Some e, sn_representation = c\<rparr>) (Some v) sz data capacity True d =
        (rc, data, n, d') \<and> codec_error rc"
      using schema_number_encode_cases [OF a(2), of e c v sz d] a(1) by (auto split: if_splits)
  next
    fix v :: u64 and sz capacity :: nat and buf :: "u8 list" and d
    assume a: "sz = 8 \<and> entry_good e c v" "length (number_wire (c\<lparr>nc_width := entry_octets e c v\<rparr>) v) \<le> capacity" "capacity \<le> length buf"
    then show "\<exists>d'. tlv_schema_number_encode (Some \<lparr>sn_schema = Some e, sn_representation = c\<rparr>) (Some v) sz (Some buf) capacity True d =
        (TLV_OK, Some (blit 0 (number_wire (c\<lparr>nc_width := entry_octets e c v\<rparr>) v) buf),
         Some (length (number_wire (c\<lparr>nc_width := entry_octets e c v\<rparr>) v)), d')"
      using schema_number_encode_cases [of "Some buf" capacity e c v sz d] P(3) [of v] by (auto simp: obuf_blit_def)
  next
    fix v :: u64 and sz capacity :: nat and buf :: "u8 list" and d
    assume a: "sz = 8 \<and> entry_good e c v" "capacity < length (number_wire (c\<lparr>nc_width := entry_octets e c v\<rparr>) v)"
    then show "\<exists>n d'. tlv_schema_number_encode (Some \<lparr>sn_schema = Some e, sn_representation = c\<rparr>) (Some v) sz (Some buf) capacity True d =
        (TLV_ERR_BUFFER_TOO_SHORT, Some buf, n, d')"
      using schema_number_encode_cases [of "Some buf" capacity e c v sz d] P(3) [of v] by auto
  next
    fix v :: u64 and sz :: nat and d
    assume a: "sz = 8 \<and> entry_good e c v"
    then show "\<exists>d'. tlv_schema_number_encode (Some \<lparr>sn_schema = Some e, sn_representation = c\<rparr>) (Some v) sz None 0 True d =
        (TLV_OK, None, Some (length (number_wire (c\<lparr>nc_width := entry_octets e c v\<rparr>) v)), d')"
      using schema_number_encode_cases [of None 0 e c v sz d] P(3) [of v] by (auto simp: obuf_blit_def)
  qed
qed

end
