(* ===== verification/TLV_Codec_Text.thy ===== *)
theory TLV_Codec_Text
  imports TLV_Codec_Laws
begin

unbundle bit_operations_syntax

text \<open>
  Text with zero padding, strings of decimal digits and lists of addresses keep the contract of a value codec.
\<close>

section \<open>Text\<close>

lemma text_octet_nonzero: "text_valid_config c \<Longrightarrow> \<not> text_octet c 0"
  by (auto simp: text_octet_def text_valid_config_def)

lemma valid_text_iff: "readable p n \<Longrightarrow> valid_text c p n \<longleftrightarrow> list_all (text_octet c) (take n (bytes p))"
  by (simp add: valid_text_def map_byte_at [symmetric] list_all_iff)

lemma trim_zeros_exact: "length xs \<le> n \<Longrightarrow> (xs \<noteq> [] \<Longrightarrow> last xs \<noteq> 0) \<Longrightarrow> take n (bytes p) = xs @ replicate (n - length xs) 0 \<Longrightarrow>
    readable p n \<Longrightarrow> trim_zeros p n = length xs"
proof (induction n)
  case (Suc n)
  have b: "byte_at p n = (xs @ replicate (Suc n - length xs) 0) ! n"
    using Suc.prems(3,4) by (metis byte_at_def lessI nth_take)
  show ?case
  proof (cases "length xs = Suc n")
    case True
    then have "xs \<noteq> []" by auto
    with True have "byte_at p n = last xs" "xs \<noteq> []" using b by (simp_all add: nth_append last_conv_nth)
    then show ?thesis using Suc.prems(2) True by simp
  next
    case False
    then have le: "length xs \<le> n" using Suc.prems(1) by simp
    then have "byte_at p n = 0" using b by (simp add: nth_append)
    moreover have "take n (bytes p) = xs @ replicate (n - length xs) 0"
    proof -
      have "take n (bytes p) = take n (take (Suc n) (bytes p))" by simp
      also have "\<dots> = xs @ replicate (n - length xs) 0" using le unfolding Suc.prems(3) by (simp add: min_def)
      finally show ?thesis .
    qed
    ultimately show ?thesis using Suc.IH [OF le] Suc.prems(2,4) by (simp add: readable_def)
  qed
qed simp

definition text_octets :: "tlv_text_codec_config_t \<Rightarrow> tlv_value_t \<Rightarrow> nat" where
  "text_octets c v = (if tx_zero_padding c \<noteq> 0 \<and> val_size v < tx_width c then tx_width c else val_size v)"

definition text_good :: "tlv_text_codec_config_t \<Rightarrow> tlv_value_t \<Rightarrow> bool" where
  "text_good c v \<longleftrightarrow> text_valid_config c \<and> val_size v \<le> SIZE_MAX \<and> (tx_width c \<noteq> 0 \<longrightarrow> text_octets c v = tx_width c) \<and>
     list_all (text_octet c) (value_bytes v)"

definition text_wire :: "tlv_text_codec_config_t \<Rightarrow> tlv_value_t \<Rightarrow> u8 list" where
  "text_wire c v = value_bytes v @ replicate (text_octets c v - val_size v) 0"

lemma text_wire_length: "readable (val_data v) (val_size v) \<Longrightarrow> length (text_wire c v) = text_octets c v"
  by (simp add: text_wire_def text_octets_def value_bytes_def readable_def)

lemma blit_pad: "length xs = n \<Longrightarrow> n + k \<le> length buf \<Longrightarrow> blit n (replicate k 0) (blit 0 xs buf) = blit 0 (xs @ replicate k 0) buf"
  by (simp add: blit_def add.commute)

lemma text_encode_exact:
  assumes r: "readable (val_data v) (val_size v)" and a: "data \<noteq> None \<or> capacity = 0" "text_octets c v \<le> capacity \<Longrightarrow> capacity \<le> length (out data [])"
  shows "tlv_text_encode (Some c) (Some v) sz data capacity True d =
    (let d = tlv_codec_diagnostic_init d (encode_operation data) in
     if \<not> text_valid_config c then encode_return d TLV_ERR_INVALID_ARG data (Some 0)
     else if sz \<noteq> sizeof_tlv_value \<or> \<not> text_good c v then encode_return d TLV_ERR_INVALID_VALUE data (Some 0)
     else if data \<noteq> None \<and> capacity < text_octets c v then encode_return d TLV_ERR_BUFFER_TOO_SHORT data (Some 0)
     else encode_return d TLV_OK (obuf_blit 0 (text_wire c v) data) (Some (text_octets c v)))"
proof -
  have n: "\<not> (val_data v = Null \<and> val_size v \<noteq> 0)" using r by auto
  have len: "length (value_bytes v) = val_size v" using r by (simp add: value_bytes_def readable_def)
  have t: "take (val_size v) (bytes (val_data v)) = value_bytes v" by (simp add: value_bytes_def)
  have valid: "valid_text c (val_data v) (val_size v) \<longleftrightarrow> list_all (text_octet c) (value_bytes v)"
    using valid_text_iff [OF r] t by simp
  have b: "obuf_blit (val_size v) (replicate (text_octets c v - val_size v) 0) (obuf_blit 0 (value_bytes v) data) =
      obuf_blit 0 (text_wire c v) data" if "data = None \<or> text_octets c v \<le> capacity"
  proof (cases data)
    case (Some buf)
    have "val_size v \<le> text_octets c v" by (simp add: text_octets_def)
    then show ?thesis using Some that a(2) len by (simp add: obuf_blit_def text_wire_def blit_pad)
  qed (simp add: obuf_blit_def)
  have args: "\<not> (Some c = None \<or> Some v = None \<or> (data = None \<and> capacity \<noteq> 0))" using a by auto
  have o: "(if tx_zero_padding c \<noteq> 0 \<and> val_size v < tx_width c then tx_width c else val_size v) = text_octets c v"
    by (simp add: text_octets_def)
  show ?thesis
  proof (cases "val_size v \<le> SIZE_MAX")
    case False
    then show ?thesis using args n by (auto simp: tlv_text_encode_def Let_def size_to_native text_good_def)
  next
    case True
    then have sn: "tlv_size_to_native (val_size v) True = (TLV_OK, Some (val_size v))" by (simp add: size_to_native)
    show ?thesis unfolding tlv_text_encode_def Let_def option.sel sn prod.case o valid t
      using args n True b by (auto simp: text_good_def)
  qed
qed

interpretation text_codec: value_codec "tlv_text_decode (Some c)" "tlv_text_encode (Some c)"
    "\<lambda>v sz. readable (val_data v) (val_size v)" "\<lambda>v sz. sz = sizeof_tlv_value \<and> text_good c v" "\<lambda>v sz. text_wire c v" "\<lambda>v sz. sizeof_tlv_value"
    "\<lambda>v sz w. value_bytes w = value_bytes v" for c
proof unfold_locales
  fix v :: tlv_value_t and sz capacity :: nat and p :: ptr and d
  assume r: "readable (val_data v) (val_size v)" and g: "sz = sizeof_tlv_value \<and> text_good c v" and p: "p \<noteq> Null"
    and t: "take (length (text_wire c v)) (bytes p) = text_wire c v" and cap: "sizeof_tlv_value \<le> capacity"
  let ?n = "length (text_wire c v)" and ?xs = "value_bytes v"
  have L: "?n = text_octets c v" by (rule text_wire_length [OF r])
  have len: "length ?xs = val_size v" using r by (simp add: value_bytes_def readable_def)
  have rp: "readable p ?n" unfolding readable_def using t by (metis length_take min.cobounded1 min_def)
  have ok: "text_valid_config c" "list_all (text_octet c) ?xs" using g by (simp_all add: text_good_def)
  have w: "text_wire c v = ?xs @ replicate (?n - length ?xs) 0" using len L by (simp add: text_wire_def)
  have le: "length ?xs \<le> ?n" using w by (metis length_append le_add1)
  have trim: "(if tx_zero_padding c \<noteq> 0 then trim_zeros p ?n else ?n) = length ?xs"
  proof (cases "tx_zero_padding c \<noteq> 0")
    case True
    have "last ?xs \<noteq> 0" if "?xs \<noteq> []" using ok that text_octet_nonzero [OF ok(1)] by (metis last_in_set list_all_iff)
    then show ?thesis using trim_zeros_exact [OF le] t w rp True by simp
  next
    case False
    then show ?thesis using len L by (simp add: text_octets_def)
  qed
  have tx: "take (length ?xs) (bytes p) = ?xs"
    using t w le by (metis append_eq_conv_conj min.absorb1 take_take)
  have "valid_text c p (length ?xs)" using valid_text_iff [of p "length ?xs" c] rp le ok tx by (simp add: readable_def)
  moreover have "tx_width c = 0 \<or> ?n = tx_width c" using g L by (auto simp: text_good_def)
  ultimately show "\<exists>w d'. tlv_text_decode (Some c) p ?n True capacity d = (TLV_OK, Some w, d') \<and> value_bytes w = ?xs"
    using p ok cap trim tx by (simp add: tlv_text_decode_def Let_def value_bytes_def not_less)
next
  fix v :: tlv_value_t and sz capacity :: nat and data :: obuf and d
  assume r: "readable (val_data v) (val_size v)" and g: "\<not> (sz = sizeof_tlv_value \<and> text_good c v)" and a: "data \<noteq> None \<or> capacity = 0"
  have "val_data v \<noteq> Null \<or> val_size v = 0" using r by auto
  moreover have "valid_text c (val_data v) (val_size v) \<longleftrightarrow> list_all (text_octet c) (value_bytes v)"
    using valid_text_iff [OF r] by (simp add: value_bytes_def)
  ultimately show "\<exists>rc n d'. tlv_text_encode (Some c) (Some v) sz data capacity True d = (rc, data, n, d') \<and> codec_error rc"
    using g a by (auto simp: tlv_text_encode_def Let_def size_to_native text_good_def text_octets_def)
next
  fix v :: tlv_value_t and sz capacity :: nat and buf :: "u8 list" and d
  assume "readable (val_data v) (val_size v)" "sz = sizeof_tlv_value \<and> text_good c v" "capacity < length (text_wire c v)"
  then show "\<exists>n d'. tlv_text_encode (Some c) (Some v) sz (Some buf) capacity True d = (TLV_ERR_BUFFER_TOO_SHORT, Some buf, n, d')"
    by (subst text_encode_exact) (auto simp: Let_def text_wire_length text_good_def)
qed (auto simp: text_encode_exact text_wire_length Let_def obuf_blit_def text_good_def)


section \<open>Digit strings\<close>

lemma nibble_pair:
  assumes "h AND 15 = h" "l AND 15 = (l :: u8)"
  shows "drop_bit 4 (push_bit 4 h OR l) AND 15 = h" "(push_bit 4 h OR l) AND 15 = l"
proof -
  have m: "(15 :: u8) = mask 4" by (simp add: mask_eq_exp_minus_1)
  have hb: "bit h n \<Longrightarrow> n < 4" and lb: "bit l n \<Longrightarrow> n < 4" for n
    using assms unfolding m by (metis bit_and_iff bit_mask_iff)+
  show "drop_bit 4 (push_bit 4 h OR l) AND 15 = h"
  proof (rule bit_word_eqI)
    fix n assume "n < LENGTH(8)"
    then show "bit (drop_bit 4 (push_bit 4 h OR l) AND 15) n = bit h n"
      using hb [of n] lb [of "4 + n"] unfolding m by (auto simp: bit_simps)
  qed
  show "(push_bit 4 h OR l) AND 15 = l"
  proof (rule bit_word_eqI)
    fix n assume "n < LENGTH(8)"
    then show "bit ((push_bit 4 h OR l) AND 15) n = bit l n"
      using lb [of n] unfolding m by (auto simp: bit_simps)
  qed
qed

lemma small_nibble: "x \<le> 15 \<Longrightarrow> x AND 15 = (x :: u8)"
proof -
  assume "x \<le> 15"
  then have "unat x < 16" by (simp add: word_le_nat_alt)
  then have "take_bit 4 x = x" by (simp add: word_unat_eq_iff unsigned_take_bit_eq take_bit_nat_eq_self)
  then show ?thesis by (simp add: take_bit_eq_mask mask_eq_exp_minus_1)
qed

definition digit_octet :: "u8 \<Rightarrow> bool" where
  "digit_octet x \<longleftrightarrow> \<not> (x < 48 \<or> x > 57)"

lemma digit_value: "digit_octet x \<Longrightarrow> x - 48 \<le> 9" "digit_octet x \<Longrightarrow> 48 + (x - 48) = x"
proof -
  assume "digit_octet x"
  then have x: "48 \<le> x" "x \<le> 57" by (auto simp: digit_octet_def not_less)
  then have "unat (x - 48) = unat x - 48" by (simp add: unat_sub)
  then show "x - 48 \<le> 9" using x by (simp add: word_le_nat_alt)
qed simp

definition digit_at :: "u8 list \<Rightarrow> nat \<Rightarrow> nat \<Rightarrow> u8" where
  "digit_at ds sz i = (if i < sz then ds ! i - 48 else 15)"

lemma digits_octet_eq: "digits_octet ds sz i = push_bit 4 (digit_at ds sz (i * 2)) OR digit_at ds sz (i * 2 + 1)"
  by (simp add: digits_octet_def digit_at_def)

lemma digit_at_small: "list_all digit_octet (take sz ds) \<Longrightarrow> sz \<le> length ds \<Longrightarrow> digit_at ds sz i AND 15 = digit_at ds sz i"
proof (rule small_nibble)
  assume a: "list_all digit_octet (take sz ds)" "sz \<le> length ds"
  show "digit_at ds sz i \<le> 15"
  proof (cases "i < sz")
    case True
    then have "digit_octet (ds ! i)" using a by (auto simp: list_all_length)
    then have "ds ! i - 48 \<le> 9" by (rule digit_value)
    also have "(9 :: u8) \<le> 15" by simp
    finally show ?thesis using True by (simp add: digit_at_def)
  qed (simp add: digit_at_def)
qed

lemma nibble_digit:
  assumes ds: "list_all digit_octet (take sz ds)" "sz \<le> length ds"
    and p: "take n (bytes p) = map (digits_octet ds sz) [0..<n]" and i: "i < n * 2"
  shows "nibble p i = digit_at ds sz i"
proof -
  have "i div 2 < n" using i by simp
  then have b: "byte_at p (i div 2) = digits_octet ds sz (i div 2)"
    using p by (metis (no_types, lifting) byte_at_def diff_zero length_upt nth_map nth_take nth_upt plus_nat.add_0)
  note D = nibble_pair [OF digit_at_small [OF ds] digit_at_small [OF ds], of "i div 2 * 2" "i div 2 * 2 + 1", folded digits_octet_eq]
  show ?thesis
  proof (cases "even i")
    case True
    then show ?thesis using D(1) b by (simp add: nibble_def even_iff_mod_2_eq_zero)
  next
    case False
    then have "i div 2 * 2 + 1 = i" "i mod 2 = 1" by (auto elim: oddE)
    then show ?thesis using D(2) b by (simp add: nibble_def)
  qed
qed

lemma digits_scan_exact:
  assumes n: "\<And>i. i < k \<Longrightarrow> nibble p i = digit_at ds sz i" and ds: "list_all digit_octet (take sz ds)" "sz \<le> length ds"
  shows "m \<le> k \<Longrightarrow> digits_scan p [m..<k] (sz < m) (min sz m) = Some (min sz k)"
proof (induction "k - m" arbitrary: m)
  case 0
  then show ?case by simp
next
  case (Suc x)
  then have m: "m < k" by simp
  then have u: "[m..<k] = m # [Suc m..<k]" by (simp add: upt_conv_Cons)
  show ?case
  proof (cases "m < sz")
    case True
    then have "digit_octet (ds ! m)" using ds by (auto simp: list_all_length)
    then have d: "ds ! m - 48 \<le> 9" by (rule digit_value)
    then have "ds ! m - 48 \<noteq> 15" by auto
    moreover have "digits_scan p [Suc m..<k] False (Suc m) = Some (min sz k)"
      using Suc.hyps(1) [of "Suc m"] Suc.hyps(2) True m by simp
    ultimately show ?thesis using True u n [OF m] d by (simp add: digit_at_def Let_def not_less)
  next
    case False
    then show ?thesis using Suc.hyps(1) [of "Suc m"] Suc.hyps(2) m u n [OF m] by (simp add: digit_at_def Let_def min_def)
  qed
qed


definition digits_octets :: "tlv_digits_codec_config_t \<Rightarrow> nat \<Rightarrow> nat" where
  "digits_octets c sz = (if dg_width c \<noteq> 0 then dg_width c else sz div 2 + sz mod 2)"

definition digits_good :: "tlv_digits_codec_config_t \<Rightarrow> u8 list \<Rightarrow> nat \<Rightarrow> bool" where
  "digits_good c ds sz \<longleftrightarrow> sz div 2 + sz mod 2 \<le> digits_octets c sz \<and> digits_octets c sz \<le> (SIZE_MAX - 1) div 2 \<and>
     list_all digit_octet (take sz ds)"

definition digits_wire :: "tlv_digits_codec_config_t \<Rightarrow> u8 list \<Rightarrow> nat \<Rightarrow> u8 list" where
  "digits_wire c ds sz = map (digits_octet ds sz) [0..<digits_octets c sz]"

lemma digits_bad: "sz \<le> length ds \<Longrightarrow> list_ex (\<lambda>i. ds ! i < 48 \<or> ds ! i > 57) [0..<sz] \<longleftrightarrow> \<not> list_all digit_octet (take sz ds)"
  by (auto simp: list_ex_iff list_all_length digit_octet_def)

interpretation digits_codec: value_codec "tlv_digits_decode (Some c)" "tlv_digits_encode (Some c)" "\<lambda>v sz. sz \<le> length v"
    "\<lambda>v sz. digits_good c v sz" "\<lambda>v sz. digits_wire c v sz" "\<lambda>v sz. sz + 1" "\<lambda>v sz w. w = take sz v @ [0]" for c
proof unfold_locales
  fix v :: "u8 list" and sz capacity :: nat and p :: ptr and d
  assume sz: "sz \<le> length v" and g: "digits_good c v sz" and p: "p \<noteq> Null"
    and t: "take (length (digits_wire c v sz)) (bytes p) = digits_wire c v sz" and cap: "sz + 1 \<le> capacity"
  let ?n = "digits_octets c sz"
  have len: "length (digits_wire c v sz) = ?n" by (simp add: digits_wire_def)
  have ds: "list_all digit_octet (take sz v)" using g by (simp add: digits_good_def)
  have nb: "nibble p i = digit_at v sz i" if "i < ?n * 2" for i
    using nibble_digit [OF ds sz _ that, of p] t len by (simp add: digits_wire_def)
  have le: "sz \<le> ?n * 2" using g div_mult_mod_eq [of sz 2] unfolding digits_good_def by linarith
  have scan: "digits_scan p [0..<?n * 2] False 0 = Some sz"
    using digits_scan_exact [OF nb ds sz, of "?n * 2" 0] le by simp
  have "map (\<lambda>i. 48 + nibble p i) [0..<sz] = take sz v"
  proof (rule nth_equalityI)
    fix i assume i: "i < length (map (\<lambda>i. 48 + nibble p i) [0..<sz])"
    then have "digit_octet (v ! i)" using ds sz by (auto simp: list_all_length)
    then show "map (\<lambda>i. 48 + nibble p i) [0..<sz] ! i = take sz v ! i"
      using i nb [of i] le by (simp add: digit_at_def digit_value)
  qed (simp add: sz)
  then show "\<exists>w d'. tlv_digits_decode (Some c) p (length (digits_wire c v sz)) True capacity d = (TLV_OK, Some w, d') \<and> w = take sz v @ [0]"
    using p len scan g cap by (auto simp: tlv_digits_decode_def Let_def digits_good_def digits_octets_def)
qed (auto simp: tlv_digits_encode_def Let_def digits_bad digits_good_def digits_wire_def digits_octets_def obuf_blit_def not_le)

section \<open>Lists of addresses\<close>

lemma ipv4_list_encode:
  "tlv_codec_encode (Some tlv_codec_bytes) (Some v) sizeof_tlv_value data capacity True d =
     tlv_codec_encode (Some \<lparr>codec_decode = Some decode_bytes, codec_encode = Some encode_bytes\<rparr>) (Some v) sizeof_tlv_value data capacity True d"
  by (simp add: tlv_codec_bytes_def)

interpretation ipv4_list: value_codec decode_ipv4_list encode_ipv4_list "\<lambda>v sz. readable (val_data (ipl_raw v)) (val_size (ipl_raw v))"
    "\<lambda>v sz. sz = sizeof_tlv_value \<and> val_size (ipl_raw v) \<le> SIZE_MAX \<and> val_size (ipl_raw v) mod 4 = 0" "\<lambda>v sz. value_bytes (ipl_raw v)"
    "\<lambda>v sz. sizeof_tlv_value" "\<lambda>v sz w. value_bytes (ipl_raw w) = value_bytes (ipl_raw v)"
proof unfold_locales
  fix v :: tlv_ipv4_list_t and sz capacity :: nat and buf :: "u8 list" and d
  let ?v = "ipl_raw v" and ?d = "tlv_codec_diagnostic_init d TLV_CODEC_OP_ENCODE"
  assume r: "readable (val_data ?v) (val_size ?v)"
    and g: "sz = sizeof_tlv_value \<and> val_size ?v \<le> SIZE_MAX \<and> val_size ?v mod 4 = 0"
  have ok: "validate_list ?v = (TLV_OK, Some (val_size ?v))" using r g by (auto simp: validate_list_def size_to_native)
  note unf = encode_ipv4_list_def Let_def ok ipv4_list_encode
  {
    assume n: "length (value_bytes ?v) \<le> capacity" "capacity \<le> length buf"
    show "\<exists>d'. encode_ipv4_list (Some v) sz (Some buf) capacity True d = (TLV_OK, Some (blit 0 (value_bytes ?v) buf), Some (length (value_bytes ?v)), d')"
      using bytes_codec.entry_stored [OF r _ n, of sizeof_tlv_value ?d] g by (auto simp: unf)
  next
    assume n: "capacity < length (value_bytes ?v)"
    show "\<exists>n d'. encode_ipv4_list (Some v) sz (Some buf) capacity True d = (TLV_ERR_BUFFER_TOO_SHORT, Some buf, n, d')"
      using bytes_codec.entry_short [OF r _ n, of sizeof_tlv_value buf ?d] g by (auto simp: unf)
  }
next
  fix v :: tlv_ipv4_list_t and sz :: nat and d
  let ?v = "ipl_raw v" and ?d = "tlv_codec_diagnostic_init d TLV_CODEC_OP_MEASURE"
  assume r: "readable (val_data ?v) (val_size ?v)"
    and g: "sz = sizeof_tlv_value \<and> val_size ?v \<le> SIZE_MAX \<and> val_size ?v mod 4 = 0"
  have ok: "validate_list ?v = (TLV_OK, Some (val_size ?v))" using r g by (auto simp: validate_list_def size_to_native)
  show "\<exists>d'. encode_ipv4_list (Some v) sz None 0 True d = (TLV_OK, None, Some (length (value_bytes ?v)), d')"
    using bytes_codec.entry_measured [OF r, of sizeof_tlv_value ?d] g by (auto simp: encode_ipv4_list_def Let_def ok ipv4_list_encode)
qed (auto simp: encode_ipv4_list_def decode_ipv4_list_def validate_list_def size_to_native Let_def value_bytes_def readable_def)

end
