(* ===== verification/TLV_Structure_Codec.thy ===== *)
theory TLV_Structure_Codec
  imports TLV_Codec TLV_Schema_Validation
begin

text \<open>
  Codecs for whole structures (\<^verbatim>\<open>codec/structure.c\<close>): the octets are validated against a schema, or for framing alone,
  before the application's decoder sees them and after its encoder wrote them.
\<close>

definition TLV_STRUCTURE_MAX_DEPTH :: nat where "TLV_STRUCTURE_MAX_DEPTH = 64"

record 'v tlv_structure_codec_t =
  stc_format :: "tlv_format_t option"
  stc_schema :: "table_addr option"
  stc_max_depth :: nat
  stc_max_elements :: nat
  stc_decode :: "(tlv_format_t \<Rightarrow> 'v codec_decode) option"
  stc_encode :: "(tlv_format_t \<Rightarrow> 'v codec_encode) option"

definition schema_cause :: "tlv_schema_diagnostic_t \<Rightarrow> tlv_codec_diagnostic_t \<Rightarrow> tlv_codec_diagnostic_t" where
  "schema_cause cause d =
     d\<lparr>cdd_diagnostic := sd_diagnostic cause,
       cdd_codec := (cdd_codec d)\<lparr>cdt_cause := TLV_CODEC_CAUSE_SCHEMA,
         cdt_detail := Detail_Schema \<lparr>csd_kind = sd_kind cause, csd_tag = sd_tag cause, csd_definition = sd_definition cause,
           csd_field = sd_field cause, csd_is_group = sd_is_group cause, csd_has_occurs = sd_has_occurs cause,
           csd_min_occurs = sd_min_occurs cause, csd_max_occurs = sd_max_occurs cause, csd_occurs = sd_occurs cause,
           csd_has_length = sd_has_length cause, csd_min_length = sd_min_length cause, csd_max_length = sd_max_length cause,
           csd_actual_length = sd_actual_length cause, csd_has_form = sd_has_form cause,
           csd_expected_form = sd_expected_form cause, csd_actual_constructed = sd_actual_constructed cause,
           csd_length_multiple = sd_length_multiple cause, csd_length_flags = sd_length_flags cause\<rparr>\<rparr>\<rparr>"

definition reader_cause :: "tlv_reader_diagnostic_t \<Rightarrow> tlv_codec_diagnostic_t \<Rightarrow> tlv_codec_diagnostic_t" where
  "reader_cause cause d =
     d\<lparr>cdd_diagnostic := rdd_diagnostic cause,
       cdd_codec := (cdd_codec d)\<lparr>cdt_cause := TLV_CODEC_CAUSE_READER, cdt_detail := Detail_Reader (rdd_detail cause)\<rparr>\<rparr>"

definition structure_validate ::
  "tables \<Rightarrow> 'v tlv_structure_codec_t \<Rightarrow> ptr \<Rightarrow> nat \<Rightarrow> tlv_codec_diagnostic_t option
     \<Rightarrow> (tlv_result_t \<times> tlv_codec_diagnostic_t option) option" where
  "structure_validate mem codec data sz diagnostic =
     (if stc_schema codec \<noteq> None then
        map_option (\<lambda>(rc, cause).
            tlv_codec_diagnostic_result (if rc \<noteq> TLV_OK then map_option (schema_cause (the cause)) diagnostic else diagnostic) rc)
          (tlv_schema_validate mem data sz (stc_format codec) (stc_schema codec) (stc_max_depth codec) (stc_max_elements codec)
             (map_option (\<lambda>_. tlv_schema_diagnostic_init) diagnostic))
      else
        (case tlv_tree_reader_init True data sz (stc_format codec)
                (Some (replicate TLV_STRUCTURE_MAX_DEPTH \<lparr>fr_end = 0, fr_resume = 0\<rparr>)) TLV_STRUCTURE_MAX_DEPTH
                (stc_max_depth codec) (stc_max_elements codec) of
           (rc, reader) \<Rightarrow>
             map_option (\<lambda>(rc, cause).
                 tlv_codec_diagnostic_result (if rc \<noteq> TLV_OK then map_option (reader_cause (the cause)) diagnostic else diagnostic) rc)
               (if rc \<noteq> TLV_OK then Some (rc, map_option (\<lambda>_. tlv_reader_diagnostic_init) diagnostic)
                else map_option (\<lambda>(rc, _, _, cause). (rc, cause)) (tlv_tree_reader_visit reader None () (diagnostic \<noteq> None)))))"

definition tlv_structure_decode ::
  "tables \<Rightarrow> 'v tlv_structure_codec_t option \<Rightarrow> ptr \<Rightarrow> nat \<Rightarrow> bool \<Rightarrow> nat \<Rightarrow> tlv_codec_diagnostic_t option \<Rightarrow> 'v decoded option" where
  "tlv_structure_decode mem codec data sz value_ok capacity diagnostic =
     (let d = tlv_codec_diagnostic_init diagnostic TLV_CODEC_OP_DECODE; c = the codec in
      if codec = None \<or> \<not> value_ok \<or> (data = Null \<and> sz \<noteq> 0) then Some (decode_return d TLV_ERR_NULL_ARG None)
      else if stc_format c = None then Some (decode_return d TLV_ERR_INVALID_ARG None)
      else if stc_decode c = None \<or> \<not> tlv_format_can_read (stc_format c) then Some (decode_return d TLV_ERR_UNSUPPORTED None)
      else map_option (\<lambda>(rc, d).
          if rc \<noteq> TLV_OK then (rc, None, d)
          else case the (stc_decode c) (the (stc_format c)) data sz value_ok capacity d of
            (rc, v, d) \<Rightarrow> (case tlv_codec_callback_result d rc TLV_CODEC_OP_DECODE of (rc, d) \<Rightarrow> (rc, v, d)))
        (structure_validate mem c data sz d))"

text \<open>The output that the encoder left is validated where it lies, so its address is that of the buffer.\<close>

definition to_output :: "tlv_codec_diagnostic_t \<Rightarrow> tlv_codec_diagnostic_t" where
  "to_output d =
     (let diag = cdd_diagnostic d; loc = diag_location diag in
      if loc_domain loc = TLV_LOCATION_INPUT
      then d\<lparr>cdd_diagnostic := diag\<lparr>diag_location := loc\<lparr>loc_domain := TLV_LOCATION_OUTPUT\<rparr>\<rparr>\<rparr> else d)"

definition tlv_structure_encode ::
  "tables \<Rightarrow> 'v tlv_structure_codec_t option \<Rightarrow> 'v option \<Rightarrow> nat \<Rightarrow> obuf \<Rightarrow> nat \<Rightarrow> bool \<Rightarrow> tlv_codec_diagnostic_t option
     \<Rightarrow> encoded option" where
  "tlv_structure_encode mem codec v sz data capacity written_ok diagnostic =
     (let operation = encode_operation data; d = tlv_codec_diagnostic_init diagnostic operation; c = the codec in
      if \<not> written_ok then Some (encode_return d TLV_ERR_NULL_ARG data None)
      else if codec = None \<or> v = None \<or> (data = None \<and> capacity \<noteq> 0) then Some (encode_return d TLV_ERR_NULL_ARG data (Some 0))
      else if stc_format c = None then Some (encode_return d TLV_ERR_INVALID_ARG data (Some 0))
      else if stc_encode c = None \<or> \<not> tlv_format_can_read (stc_format c) \<or> \<not> tlv_format_can_write (stc_format c)
      then Some (encode_return d TLV_ERR_UNSUPPORTED data (Some 0))
      else case the (stc_encode c) (the (stc_format c)) v sz data capacity True d of
        (rc, buf, written, d) \<Rightarrow>
          (case tlv_codec_callback_result d rc operation of
             (rc, d) \<Rightarrow>
               let count = out written 0 in
               if rc \<noteq> TLV_OK then Some (rc, buf, Some 0, d)
               else if data \<noteq> None \<and> count > capacity
               then Some (encode_return (map_option (\<lambda>x. x\<lparr>cdd_codec := (cdd_codec x)\<lparr>cdt_violation := TLV_CODEC_VIOLATION_SIZE\<rparr>\<rparr>) d)
                      TLV_ERR_CALLBACK buf (Some 0))
               else if data = None then Some (encode_return d TLV_OK buf (Some count))
               else map_option (\<lambda>(rc, d).
                   let d = map_option to_output d in
                   if rc \<noteq> TLV_OK then (rc, buf, Some 0, d) else encode_return d TLV_OK buf (Some count))
                 (structure_validate mem c (buf_ptr buf 0) count d)))"

end
