(* ===== verification/TLV_Schema_Termination.thy ===== *)
theory TLV_Schema_Termination
  imports TLV_Schema_Agreement
begin

text \<open>
  The validator that stops at the first violation returns on every schema and input and under every depth limit, also one
  above the depth that its arrays are made for: the tree reader does not go deeper than its frames.
\<close>

lemma validate_skip_returns:
  assumes "traversing data format m n (vs_reader st)" "after_item item (vs_reader st)"
  obtains r where "validate_skip st item = Inr (st\<lparr>vs_reader := r\<rparr>)" "traversing data format m n r"
proof -
  define st' where "st' = \<lparr>rs_reader = vs_reader st, rs_collector = undefined\<rparr>"
  then have "traversing data format m n (rs_reader st')" "after_item item (rs_reader st')" "vs_reader st = rs_reader st'"
    using assms by simp_all
  from that [OF validate_skip_item [OF assms this(3)] report_skip_item(1) [OF this(1,2)]] show thesis .
qed

lemma validate_item_returns:
  assumes "traversing data format m n (vs_reader st)" "after_item item (vs_reader st)"
  shows "case validate_item a st item of Inl e \<Rightarrow> True | Inr st' \<Rightarrow> traversing data format m n (vs_reader st')"
proof -
  have skip: "\<exists>r. validate_skip s item = Inr (s\<lparr>vs_reader := r\<rparr>) \<and> traversing data format m n r" if "vs_reader s = vs_reader st" for s
    by (rule validate_skip_returns [of data format m n s item]) (use assms that in auto)
  have kids: "case validate_children a st item children len of Inl e \<Rightarrow> True | Inr st' \<Rightarrow> traversing data format m n (vs_reader st')"
    for children len
  proof -
    obtain rc d where c: "check_scope \<lparr>sa_data = va_data a, sa_format = va_format a, sa_start = it_offset item + rg_offset (src_value (it_source item)),
        sa_end = it_offset item + rg_offset (src_value (it_source item)) + len,
        sa_path = (vs_path st)[it_depth item + 1 := elem_tag (it_element item)], sa_depth = it_depth item + 1, sa_diag = vs_diag st\<rparr>
        (va_mem a children) = (rc, d)" by fastforce
    obtain r where "validate_skip (st\<lparr>vs_path := (vs_path st)[it_depth item + 1 := elem_tag (it_element item)], vs_diag := d\<rparr>) item =
        Inr (st\<lparr>vs_path := (vs_path st)[it_depth item + 1 := elem_tag (it_element item)], vs_diag := d, vs_reader := r\<rparr>)"
      "traversing data format m n r"
      using skip [of "st\<lparr>vs_path := (vs_path st)[it_depth item + 1 := elem_tag (it_element item)], vs_diag := d\<rparr>"] by auto
    then show ?thesis using c assms(1) by (auto simp: validate_children_def Let_def)
  qed
  obtain r where "validate_skip st item = Inr (st\<lparr>vs_reader := r\<rparr>)" "traversing data format m n r" using skip by blast
  then show ?thesis using kids unfolding validate_item_def Let_def by (auto split: option.split prod.split)
qed

lemma validate_loop_returns:
  "traversing data format m n (vs_reader st) \<Longrightarrow> \<exists>rc d. validate_loop a st = Some (rc, d)"
proof (induction n arbitrary: st rule: less_induct)
  case (less n)
  let ?r = "vs_reader st"
  have w: "tree_wf ?r" "reads_from data format m ?r" "tree_budget ?r \<le> n" using less.prems by (auto simp: traversing_def)
  obtain rc ro it where n: "tlv_tree_reader_next (Some ?r) True = (rc, ro, it)" by (metis prod_cases3)
  show ?case
  proof (cases "\<not> tlv_tree_reader_at_end (Some ?r) \<and> rc = TLV_OK")
    case False
    then show ?thesis using n by (subst validate_loop.simps) (auto simp: Let_def)
  next
    case True
    from True have "rc = TLV_OK" by simp
    from tree_next_item [OF w(1,2) n [unfolded this]] obtain r' item where
      N: "ro = Some r'" "it = Some item" "tree_wf r'" "tree_budget r' < tree_budget ?r" "reads_from data format m r'" "after_item item r'"
      by metis
    let ?st = "st\<lparr>vs_reader := r'\<rparr>"
    have t: "traversing data format m (tree_budget r') (vs_reader ?st)" "after_item item (vs_reader ?st)"
      using N by (simp_all add: traversing_def)
    have step: "validate_loop a st = (case validate_item a ?st item of Inl e \<Rightarrow> Some e | Inr st' \<Rightarrow> validate_loop a st')"
      using True n N by (subst validate_loop.simps) simp
    show ?thesis
    proof (cases "validate_item a ?st item")
      case (Inl e)
      then show ?thesis using step by (cases e) simp
    next
      case (Inr st')
      then show ?thesis using validate_item_returns [OF t, of a] less.IH [of "tree_budget r'" st'] N(4) w(3) step by simp
    qed
  qed
qed

lemma validate_input_returns:
  assumes "readable data sz" "sz \<le> SIZE_MAX"
  shows "\<exists>rc d. validate_input mem data sz format schema m k diagnostic = Some (rc, d)"
proof (cases schema)
  case None
  then show ?thesis by (simp add: validate_input_def)
next
  case (Some s)
  obtain rc0 d0 where T: "schema_check_tree data sz format m k (map_option sd_diagnostic diagnostic) = Some (rc0, d0)"
    "rc0 = TLV_OK \<Longrightarrow> (\<exists>r. tlv_tree_reader_init True data sz format
       (Some (replicate TLV_SCHEMA_MAX_DEPTH \<lparr>fr_end = 0, fr_resume = 0\<rparr>)) TLV_SCHEMA_MAX_DEPTH m k = (TLV_OK, Some r) \<and>
       tree_wf r \<and> reads_from data format m r)"
    using check_tree_returns [OF assms] by metis
  show ?thesis
  proof (cases "rc0 = TLV_OK")
    case False
    then show ?thesis using T(1) Some by (simp add: validate_input_def Let_def)
  next
    case True
    then obtain r where r: "tlv_tree_reader_init True data sz format
       (Some (replicate TLV_SCHEMA_MAX_DEPTH \<lparr>fr_end = 0, fr_resume = 0\<rparr>)) TLV_SCHEMA_MAX_DEPTH m k = (TLV_OK, Some r)"
       "tree_wf r" "reads_from data format m r" using T(2) by blast
    then have "traversing data format m (tree_budget r) (vs_reader \<lparr>vs_reader = r, vs_scopes = scopes, vs_path = path, vs_diag = d\<rparr>)"
      for scopes path d by (simp add: traversing_def)
    from validate_loop_returns [OF this] show ?thesis
      using T(1) True r(1) Some by (auto simp: validate_input_def Let_def split: prod.split)
  qed
qed

text \<open>The whole call.\<close>

lemma schema_validate_returns:
  assumes "readable data sz" "sz \<le> SIZE_MAX"
  obtains rc d where "tlv_schema_validate mem data sz format schema m k diagnostic = Some (rc, d)"
proof -
  obtain rc0 d0 where c: "tlv_schema_check mem schema (map_option (\<lambda>_. tlv_schema_diagnostic_init) diagnostic) = Some (rc0, d0)"
    by (rule schema_check_returns)
  have "\<exists>rc d. tlv_schema_validate mem data sz format schema m k diagnostic = Some (rc, d)"
    using c validate_input_returns [OF assms, of mem format schema m k d0]
    by (auto simp: tlv_schema_validate_def validate_checked_def argument_failure_def Let_def)
  then show thesis using that by blast
qed

end
