(* ===== verification/TLV_Codec_Properties.thy ===== *)
theory TLV_Codec_Properties
  imports TLV_Codec_Integer TLV_Codec_Number TLV_Codec_Text TLV_Structure_Codec TLV_Schema_Termination TLV_Schema_Properties
    "HOL-Library.Code_Target_Nat"
begin

unbundle bit_operations_syntax

text \<open>
  The properties of the value codecs.
\<close>

section \<open>The entry points\<close>

lemma diagnostic_result_code: "tlv_codec_diagnostic_result d rc = (rc', Some x) \<Longrightarrow> diag_code (cdd_diagnostic x) = rc'"
  by (cases d) (auto simp: tlv_codec_diagnostic_result_def)

lemma callback_result_facts:
  assumes "tlv_codec_callback_result d rc operation = (rc', d')"
  shows "rc' \<noteq> TLV_END" "\<And>i. rc' \<noteq> TLV_RESULT_OTHER i" "operation \<noteq> TLV_CODEC_OP_DECODE \<Longrightarrow> rc' \<noteq> TLV_NEED_MORE_DATA"
    "\<And>x. d' = Some x \<Longrightarrow> diag_code (cdd_diagnostic x) = rc'"
proof -
  obtain d1 where r: "tlv_codec_diagnostic_result d1 (tlv_codec_result rc operation) = (rc', d')"
    using assms unfolding tlv_codec_callback_result_def Let_def by blast
  then have "rc' = tlv_codec_result rc operation" by (simp add: tlv_codec_diagnostic_result_def)
  then show "rc' \<noteq> TLV_END" "\<And>i. rc' \<noteq> TLV_RESULT_OTHER i" "operation \<noteq> TLV_CODEC_OP_DECODE \<Longrightarrow> rc' \<noteq> TLV_NEED_MORE_DATA"
    using tlv_callback_result_range [of rc False] by (auto simp: tlv_codec_result_def)
  show "\<And>x. d' = Some x \<Longrightarrow> diag_code (cdd_diagnostic x) = rc'" using r diagnostic_result_code by blast
qed

lemma encode_return_code: "encode_return d rc data written = (rc', data', n, Some x) \<Longrightarrow> diag_code (cdd_diagnostic x) = rc'"
  by (cases "tlv_codec_diagnostic_result d rc") (auto simp: encode_return_def decode_return_def dest: diagnostic_result_code simp del: encode_return_eq decode_return_eq)

lemma decode_return_code: "decode_return d rc v = (rc', v', Some x) \<Longrightarrow> diag_code (cdd_diagnostic x) = rc'"
  by (cases "tlv_codec_diagnostic_result d rc") (auto simp: encode_return_def decode_return_def dest: diagnostic_result_code simp del: encode_return_eq decode_return_eq)

text \<open>The results a callback may report, as the entry points return them.\<close>

definition known_error :: "tlv_result_t \<Rightarrow> bool" where
  "known_error rc \<longleftrightarrow> rc \<notin> {TLV_OK, TLV_END, TLV_NEED_MORE_DATA} \<and> (\<forall>i. rc \<noteq> TLV_RESULT_OTHER i)"

lemma known_error_simps [simp]:
  "\<not> known_error TLV_OK" "\<not> known_error TLV_END" "\<not> known_error TLV_NEED_MORE_DATA" "\<not> known_error (TLV_RESULT_OTHER i)"
  by (simp_all add: known_error_def)

lemma callback_result_cases:
  assumes "tlv_codec_callback_result d rc operation = (rc', d')"
  shows "rc' = (if rc = TLV_OK \<or> known_error rc \<or> rc = TLV_NEED_MORE_DATA \<and> operation = TLV_CODEC_OP_DECODE then rc else TLV_ERR_CALLBACK)"
proof -
  have "rc' = tlv_codec_result rc operation"
    using assms by (simp add: tlv_codec_callback_result_def tlv_codec_diagnostic_result_def Let_def)
  then show ?thesis by (cases rc) (auto simp: tlv_codec_result_def tlv_callback_result_def known_error_def)
qed

lemma encode_entry_result:
  assumes "tlv_codec_encode (Some c) (Some v) sz data capacity True diagnostic = (rc, buf, written, d)"
    and "codec_encode c = Some f" "data \<noteq> None \<or> capacity = 0"
    and "f (Some v) sz data capacity True (tlv_codec_diagnostic_init diagnostic (encode_operation data)) = (said, buf1, n, d1)"
  shows "rc = (if said = TLV_OK then (if data \<noteq> None \<and> out n 0 > capacity then TLV_ERR_CALLBACK else TLV_OK)
      else if known_error said then said else TLV_ERR_CALLBACK) \<and> (rc = TLV_OK \<longrightarrow> buf = buf1 \<and> written = Some (out n 0))"
proof -
  have op: "encode_operation data \<noteq> TLV_CODEC_OP_DECODE" by (simp add: encode_operation_def)
  obtain rc2 d2 where r: "tlv_codec_callback_result d1 said (encode_operation data) = (rc2, d2)" by fastforce
  show ?thesis
    using assms r callback_result_cases [OF r] op unfolding tlv_codec_encode_def Let_def
    by (cases "said = TLV_OK"; cases "known_error said"; cases "data \<noteq> None \<and> out n 0 > capacity") auto
qed

lemma decode_entry_result:
  assumes "tlv_codec_decode (Some c) p len True room diagnostic = (rc, w, d)"
    and "codec_decode c = Some f" "p \<noteq> Null \<or> len = 0"
    and "f p len True room (tlv_codec_diagnostic_init diagnostic TLV_CODEC_OP_DECODE) = (said, w1, d1)"
  shows "rc = (if said = TLV_OK \<or> said = TLV_NEED_MORE_DATA \<or> known_error said then said else TLV_ERR_CALLBACK) \<and> w = w1"
proof -
  obtain rc2 d2 where r: "tlv_codec_callback_result d1 said TLV_CODEC_OP_DECODE = (rc2, d2)" by fastforce
  then show ?thesis
    using assms callback_result_cases [OF r] unfolding tlv_codec_decode_def Let_def by (auto split: if_splits)
qed

lemma encode_entry:
  assumes e: "tlv_codec_encode codec v sz data capacity True diagnostic = (rc, buf, written, d)"
  shows "rc \<noteq> TLV_END \<and> rc \<noteq> TLV_NEED_MORE_DATA \<and> (\<forall>i. rc \<noteq> TLV_RESULT_OTHER i) \<and>
      (\<forall>x. d = Some x \<longrightarrow> diag_code (cdd_diagnostic x) = rc) \<and>
      (if rc = TLV_OK then \<exists>n. written = Some n \<and> (data \<noteq> None \<longrightarrow> n \<le> capacity) else written = Some 0)"
proof -
  let ?op = "encode_operation data"
  have op: "?op \<noteq> TLV_CODEC_OP_DECODE" by (simp add: encode_operation_def)
  show ?thesis
  proof (cases "codec = None \<or> v = None \<or> (data = None \<and> capacity \<noteq> 0) \<or> codec_encode (the codec) = None")
    case True
    then have "\<exists>d1 rc1. encode_return d1 rc1 data (Some 0) = (rc, buf, written, d) \<and> rc1 \<in> {TLV_ERR_NULL_ARG, TLV_ERR_UNSUPPORTED}"
      using e unfolding tlv_codec_encode_def Let_def by (auto split: if_splits option.splits)
    then show ?thesis using encode_return_code by fastforce
  next
    case False
    then obtain f where f: "codec_encode (the codec) = Some f" by auto
    obtain rc1 buf1 n1 d1 where c: "f v sz data capacity True (tlv_codec_diagnostic_init diagnostic ?op) = (rc1, buf1, n1, d1)"
      by (metis prod_cases4)
    obtain rc2 d2 where r: "tlv_codec_callback_result d1 rc1 ?op = (rc2, d2)" by fastforce
    note F = callback_result_facts [OF r]
    have eq: "(if rc2 \<noteq> TLV_OK then (rc2, buf1, Some 0, d2)
        else if data \<noteq> None \<and> out n1 0 > capacity
        then encode_return (map_option (\<lambda>x. x\<lparr>cdd_codec := (cdd_codec x)\<lparr>cdt_violation := TLV_CODEC_VIOLATION_SIZE\<rparr>\<rparr>) d2)
               TLV_ERR_CALLBACK buf1 (Some 0)
        else (TLV_OK, buf1, Some (out n1 0), d2)) = (rc, buf, written, d)"
      using e False f c r unfolding tlv_codec_encode_def Let_def by auto
    show ?thesis
    proof (cases "rc2 = TLV_OK \<and> data \<noteq> None \<and> out n1 0 > capacity")
      case True
      then show ?thesis using eq encode_return_code by fastforce
    next
      case False
      then show ?thesis using eq F(1,2) F(3) [OF op] F(4) by (auto split: if_splits)
    qed
  qed
qed

lemma decode_entry:
  assumes e: "tlv_codec_decode codec p len value_ok room diagnostic = (rc, w, d)"
  shows "rc \<noteq> TLV_END \<and> (\<forall>i. rc \<noteq> TLV_RESULT_OTHER i) \<and> (\<forall>x. d = Some x \<longrightarrow> diag_code (cdd_diagnostic x) = rc)"
proof (cases "codec = None \<or> \<not> value_ok \<or> (p = Null \<and> len \<noteq> 0) \<or> codec_decode (the codec) = None")
  case True
  then have "\<exists>d1 rc1. decode_return d1 rc1 None = (rc, w, d) \<and> rc1 \<in> {TLV_ERR_NULL_ARG, TLV_ERR_UNSUPPORTED}"
    using e unfolding tlv_codec_decode_def Let_def by (auto split: if_splits option.splits)
  then show ?thesis using decode_return_code by fastforce
next
  case False
  then obtain f where f: "codec_decode (the codec) = Some f" by auto
  obtain rc1 w1 d1 where c: "f p len True room (tlv_codec_diagnostic_init diagnostic TLV_CODEC_OP_DECODE) = (rc1, w1, d1)"
    by (metis prod_cases3)
  obtain rc2 d2 where r: "tlv_codec_callback_result d1 rc1 TLV_CODEC_OP_DECODE = (rc2, d2)" by fastforce
  then have "rc = rc2" "d = d2" using e False f c unfolding tlv_codec_decode_def Let_def by auto
  then show ?thesis using callback_result_facts [OF r] by blast
qed

text \<open>
  C35: Whatever the callback of a codec does, the entry points keep their contract.  The result is what the callback reports if that is
  success or an error of the library (for decoding also a request for more input), and a callback error if it is anything else,
  in particular the end of a sequence or an unknown number, or if the callback claims more octets than the buffer of the caller has
  room for.  A successful encoding passes on buffer and size of the callback, a failed one reports no octets, and a diagnostic
  carries the result that is returned.
\<close>

theorem codec_entry_contract:
  "(\<forall>rc buf written d. tlv_codec_encode codec v sz data capacity True diagnostic = (rc, buf, written, d) \<longrightarrow>
      (rc = TLV_OK \<or> known_error rc) \<and> (\<forall>x. d = Some x \<longrightarrow> diag_code (cdd_diagnostic x) = rc) \<and>
      (if rc = TLV_OK then \<exists>n. written = Some n \<and> (data \<noteq> None \<longrightarrow> n \<le> capacity) else written = Some 0) \<and>
      (\<forall>c value f said buf1 n d1. codec = Some c \<and> v = Some value \<and> codec_encode c = Some f \<and> (data \<noteq> None \<or> capacity = 0) \<and>
         f v sz data capacity True (tlv_codec_diagnostic_init diagnostic (encode_operation data)) = (said, buf1, n, d1) \<longrightarrow>
         rc = (if said = TLV_OK then (if data \<noteq> None \<and> out n 0 > capacity then TLV_ERR_CALLBACK else TLV_OK)
               else if known_error said then said else TLV_ERR_CALLBACK) \<and>
         (rc = TLV_OK \<longrightarrow> buf = buf1 \<and> written = Some (out n 0)))) \<and>
   (\<forall>rc w d. tlv_codec_decode codec p len value_ok room diagnostic = (rc, w, d) \<longrightarrow>
      (rc = TLV_OK \<or> rc = TLV_NEED_MORE_DATA \<or> known_error rc) \<and> (\<forall>x. d = Some x \<longrightarrow> diag_code (cdd_diagnostic x) = rc) \<and>
      (\<forall>c f said w1 d1. codec = Some c \<and> value_ok \<and> codec_decode c = Some f \<and> (p \<noteq> Null \<or> len = 0) \<and>
         f p len True room (tlv_codec_diagnostic_init diagnostic TLV_CODEC_OP_DECODE) = (said, w1, d1) \<longrightarrow>
         rc = (if said = TLV_OK \<or> said = TLV_NEED_MORE_DATA \<or> known_error said then said else TLV_ERR_CALLBACK) \<and> w = w1))"
proof (intro conjI [of "\<forall>rc buf written d. _ rc buf written d"] allI impI, goal_cases)
  case (1 rc buf written d)
  note E0 = 1 and E = encode_entry [OF 1]
  then have K: "rc = TLV_OK \<or> known_error rc" by (simp add: known_error_def)
  show ?case
  proof (intro conjI K)
    show "\<forall>c value f said buf1 n d1. codec = Some c \<and> v = Some value \<and> codec_encode c = Some f \<and> (data \<noteq> None \<or> capacity = 0) \<and>
         f v sz data capacity True (tlv_codec_diagnostic_init diagnostic (encode_operation data)) = (said, buf1, n, d1) \<longrightarrow>
         rc = (if said = TLV_OK then (if data \<noteq> None \<and> out n 0 > capacity then TLV_ERR_CALLBACK else TLV_OK)
               else if known_error said then said else TLV_ERR_CALLBACK) \<and>
         (rc = TLV_OK \<longrightarrow> buf = buf1 \<and> written = Some (out n 0))"
    proof (intro allI impI, elim conjE, goal_cases)
      case (1 c x f said buf1 n d1)
      then show ?case using encode_entry_result [of c x sz data capacity diagnostic rc buf written d f said buf1 n d1] E0 by simp
    qed
  qed (use E in blast)+
next
  case (2 rc w d)
  note D0 = 2 and D = decode_entry [OF 2]
  then have K: "rc = TLV_OK \<or> rc = TLV_NEED_MORE_DATA \<or> known_error rc" by (auto simp add: known_error_def)
  show ?case
  proof (intro conjI K)
    show "\<forall>c f said w1 d1. codec = Some c \<and> value_ok \<and> codec_decode c = Some f \<and> (p \<noteq> Null \<or> len = 0) \<and>
         f p len True room (tlv_codec_diagnostic_init diagnostic TLV_CODEC_OP_DECODE) = (said, w1, d1) \<longrightarrow>
         rc = (if said = TLV_OK \<or> said = TLV_NEED_MORE_DATA \<or> known_error said then said else TLV_ERR_CALLBACK) \<and> w = w1"
    proof (intro allI impI, elim conjE, goal_cases)
      case (1 c f said w1 d1)
      then show ?case using decode_entry_result [of c p len room diagnostic rc w d f said w1 d1] D0 by simp
    qed
  qed (use D in blast)
qed

text \<open>A callback that breaks the contract: an unknown result, and more octets than there is room for.\<close>

definition rogue_codec :: "u8 tlv_codec_t" where
  "rogue_codec = \<lparr>codec_decode = Some (\<lambda>p n ok room d. (TLV_RESULT_OTHER 99, None, d)),
     codec_encode = Some (\<lambda>v sz data capacity ok d. (TLV_OK, data, Some (capacity + 1), d))\<rparr>"

theorem codec_entry_contract_witness:
  "\<exists>buf d w d'. tlv_codec_encode (Some rogue_codec) (Some 7) 1 (Some [0, 0]) 2 True None = (TLV_ERR_CALLBACK, buf, Some 0, d) \<and>
     tlv_codec_decode (Some rogue_codec) (Ptr 0 [1]) 1 True 1 None = (TLV_ERR_CALLBACK, w, d')"
proof -
  have "fst (tlv_codec_encode (Some rogue_codec) (Some 7) 1 (Some [0, 0]) 2 True None) = TLV_ERR_CALLBACK"
    "fst (tlv_codec_decode (Some rogue_codec) (Ptr 0 [1]) 1 True 1 None) = TLV_ERR_CALLBACK" by code_simp+
  then show ?thesis
    using codec_entry_contract [of "Some rogue_codec" "Some 7" 1 "Some [0, 0]" 2 None "Ptr 0 [1]" 1 True 1]
    by (cases "tlv_codec_encode (Some rogue_codec) (Some 7) 1 (Some [0, 0]) 2 True None";
        cases "tlv_codec_decode (Some rogue_codec) (Ptr 0 [1]) 1 True 1 None") auto
qed

section \<open>Integers\<close>

text \<open>
  C33: The codec for signed 64-bit integers is a bijection between the integers and their shortest two's complement octets, most
  significant octet first: every integer is encoded as octets with that value, any others with that value are more; they
  decode to the integer, and whatever decodes to an integer is the encoding of that integer.
\<close>

theorem int64_codec_bijective:
  assumes v: "int64 v" and buf: "8 \<le> capacity" "capacity \<le> length buf"
  shows "\<exists>buf' n d1. tlv_codec_encode (Some tlv_codec_int64_minimal_be) (Some v) 8 (Some buf) capacity True d0 = (TLV_OK, Some buf', Some n, d1) \<and>
    drop n buf' = drop n buf \<and> 0 < n \<and> n \<le> 8 \<and> tc_value (take n buf') = v \<and>
    (\<forall>ys. ys \<noteq> [] \<longrightarrow> tc_value ys = v \<longrightarrow> ys = take n buf' \<or> n < length ys) \<and>
    (\<forall>p len. readable p len \<longrightarrow> p \<noteq> Null \<longrightarrow>
       ((\<exists>d2. tlv_codec_decode (Some tlv_codec_int64_minimal_be) p len True 8 None = (TLV_OK, Some v, d2)) \<longleftrightarrow>
        len = n \<and> take len (bytes p) = take n buf'))"
proof -
  let ?c = "\<lparr>codec_decode = Some decode_integer, codec_encode = Some encode_integer\<rparr>" and ?w = "wire_int v"
  have c: "tlv_codec_int64_minimal_be = ?c" by (simp add: tlv_codec_int64_minimal_be_def)
  note W = wire_int_props [OF v]
  obtain d1 where e: "tlv_codec_encode (Some ?c) (Some v) 8 (Some buf) capacity True d0 = (TLV_OK, Some (blit 0 ?w buf), Some (length ?w), d1)"
    using int64_codec.entry_stored [OF v refl, of capacity buf d0] W(4) buf by auto
  have iff: "(\<exists>d2. tlv_codec_decode (Some ?c) p len True 8 None = (TLV_OK, Some v, d2)) \<longleftrightarrow> len = length ?w \<and> take len (bytes p) = ?w"
    if p: "readable p len" "p \<noteq> Null" for p len
  proof
    assume "len = length ?w \<and> take len (bytes p) = ?w"
    then show "\<exists>d2. tlv_codec_decode (Some ?c) p len True 8 None = (TLV_OK, Some v, d2)"
      using int64_codec.entry_decoded [OF v refl p(2), of 8 None] by auto
  next
    assume "\<exists>d2. tlv_codec_decode (Some ?c) p len True 8 None = (TLV_OK, Some v, d2)"
    then obtain rc w d where di: "decode_integer p len True 8 None = (rc, w, d)" "rc = TLV_OK" "w = Some v"
      using p(2) by (auto simp: tlv_codec_decode_def tlv_codec_diagnostic_init_def tlv_codec_callback_result_def tlv_codec_result_def
          tlv_codec_diagnostic_result_def Let_def split: prod.splits if_splits)
    then have "shortest (take len (bytes p))" "tc_value (take len (bytes p)) = v"
      using decode_integer_exact [OF p(1), of 8 None] by (auto split: if_splits)
    then have "take len (bytes p) = ?w" using shortest_unique W(1,2) by metis
    moreover have "length (take len (bytes p)) = len" using p(1) by (simp add: readable_def)
    ultimately show "len = length ?w \<and> take len (bytes p) = ?w" by auto
  qed
  have least: "ys = ?w \<or> length ?w < length ys" if "ys \<noteq> []" "tc_value ys = v" for ys
    using shortest_least [OF W(2)] that W(1) by simp
  have "take (length ?w) (blit 0 ?w buf) = ?w" "drop (length ?w) (blit 0 ?w buf) = drop (length ?w) buf" by (simp_all add: blit_def)
  with e iff least W(1,3,4) show ?thesis unfolding c
    by (intro exI [of _ "blit 0 ?w buf"] exI [of _ "length ?w"] exI [of _ d1]) auto
qed

theorem int64_codec_bijective_witness:
  "tlv_codec_encode (Some tlv_codec_int64_minimal_be) (Some (- 129)) 8 (Some (replicate 8 0)) 8 True None =
     (TLV_OK, Some [0xFF, 0x7F, 0, 0, 0, 0, 0, 0], Some 2, None) \<and>
   tc_value [0xFF, 0x7F] = - 129 \<and>
   (\<exists>d2. tlv_codec_decode (Some tlv_codec_int64_minimal_be) (Ptr 0 [0xFF, 0x7F]) 2 True 8 None = (TLV_OK, Some (- 129), d2)) \<and>
   \<not> (\<exists>d2. tlv_codec_decode (Some tlv_codec_int64_minimal_be) (Ptr 0 [0xFF, 0xFF, 0x7F]) 3 True 8 None = (TLV_OK, Some (- 129), d2))"
proof -
  have run: "tlv_codec_encode (Some tlv_codec_int64_minimal_be) (Some (- 129)) 8 (Some (replicate 8 0)) 8 True None =
     (TLV_OK, Some [0xFF, 0x7F, 0, 0, 0, 0, 0, 0], Some 2, None)" by code_simp
  have "int64 (- 129)" by (simp add: int64_def)
  from int64_codec_bijective [OF this, of 8 "replicate 8 0" None] run
  have A: "readable p len \<longrightarrow> p \<noteq> Null \<longrightarrow>
     ((\<exists>d2. tlv_codec_decode (Some tlv_codec_int64_minimal_be) p len True 8 None = (TLV_OK, Some (- 129), d2)) \<longleftrightarrow>
      len = 2 \<and> take len (bytes p) = [0xFF, 0x7F])" and V: "tc_value [0xFF, 0x7F] = - 129" for p len by auto
  show ?thesis using run A [of "Ptr 0 [0xFF, 0x7F]" 2] A [of "Ptr 0 [0xFF, 0xFF, 0x7F]" 3] V by simp
qed

section \<open>Numbers\<close>

text \<open>
  C36: Number decoding is exact and never wraps around: octets are accepted exactly within the widths of the configuration and, in packed decimal,
  with decimal digits up to the digit limit, and the decoded number is the value of the octets in positional notation.
\<close>

theorem number_decode_value:
  assumes "readable p len" "p \<noteq> Null" "number_valid_config c" "8 \<le> room"
  shows "\<exists>rc w d'. tlv_number_decode (Some c) p len True room d = (rc, w, d') \<and>
    (if len \<noteq> 0 \<and> len \<le> number_limit c \<and> (nc_width c \<noteq> 0 \<longrightarrow> len = nc_width c) \<and>
        (nc_encoding c = TLV_NUMBER_BCD \<longrightarrow> list_all bcd_ok (take len (bytes p)) \<and> bcd_val (take len (bytes p)) < 10 ^ nc_digits c)
     then rc = TLV_OK \<and> map_option unat w =
       Some (if nc_encoding c = TLV_NUMBER_BCD then bcd_val (take len (bytes p)) else uint_val (number_order c) (take len (bytes p)))
     else rc = TLV_ERR_INVALID_VALUE \<and> w = None)"
proof -
  note E = number_decode_exact [OF assms(1,2), of c room d]
  have "number_val c (take len (bytes p)) < 2 ^ 64"
    if "len \<le> number_limit c" "nc_encoding c = TLV_NUMBER_BCD \<longrightarrow> list_all bcd_ok (take len (bytes p))"
    using E assms(3) that by blast
  then have u: "unat (of_nat (number_val c (take len (bytes p))) :: u64) = number_val c (take len (bytes p))"
    if "len \<le> number_limit c" "nc_encoding c = TLV_NUMBER_BCD \<longrightarrow> list_all bcd_ok (take len (bytes p))"
    using that by (simp add: unat_of_nat take_bit_nat_eq_self)
  show ?thesis
    using conjunct1 [OF E] assms(3,4) u by (auto simp: Let_def number_val_def)
qed

theorem number_decode_value_witness:
  "\<exists>rc w d'. tlv_number_decode (Some \<lparr>nc_encoding = TLV_NUMBER_BCD, nc_width = 0, nc_digits = 4\<rparr>) (Ptr 0 [0x12, 0x34]) 2 True 8 None = (rc, w, d') \<and>
     rc = TLV_OK \<and> map_option unat w = Some 1234"
proof -
  have "list_all bcd_ok [0x12, 0x34]" "bcd_val [0x12, 0x34] = 1234" by code_simp+
  then show ?thesis
    using number_decode_value [of "Ptr 0 [0x12, 0x34]" 2 "\<lparr>nc_encoding = TLV_NUMBER_BCD, nc_width = 0, nc_digits = 4\<rparr>" 8 None]
    by (simp add: number_valid_config_def number_limit_def numeral_2_eq_2)
qed


text \<open>
  C37: A number that the codec under a schema entry measures is written in the measured octets and reads back as itself.  The width is one
  that the entry allows; when the configuration fixes none, it is the smallest such width that holds the number.
\<close>

theorem schema_number_roundtrip:
  fixes e c
  defines "codec \<equiv> \<lparr>codec_decode = Some (tlv_schema_number_decode (Some \<lparr>sn_schema = Some e, sn_representation = c\<rparr>)),
      codec_encode = Some (tlv_schema_number_encode (Some \<lparr>sn_schema = Some e, sn_representation = c\<rparr>))\<rparr>"
  assumes m: "tlv_codec_encode (Some codec) (Some v) 8 None 0 True d0 = (TLV_OK, out0, Some n, d1)"
    and n: "n \<le> capacity" "capacity \<le> length buf" and r: "8 \<le> room"
  shows "(\<exists>buf' d2 w d3. tlv_codec_encode (Some codec) (Some v) 8 (Some buf) capacity True d = (TLV_OK, Some buf', Some n, d2) \<and>
      length buf' = length buf \<and> drop n buf' = drop n buf \<and>
      tlv_codec_decode (Some codec) (Ptr a buf') n True room d' = (TLV_OK, Some w, d3) \<and> w = v) \<and>
    tlv_schema_validate_length (Some e) n = TLV_OK \<and>
    (nc_width c = 0 \<longrightarrow> (\<forall>k. 0 < k \<longrightarrow> k < n \<longrightarrow> unat v < unat (number_radix c) ^ k \<longrightarrow> tlv_schema_validate_length (Some e) k \<noteq> TLV_OK))"
proof -
  have g: "entry_good e c v" using schema_number.entry_measure_iff [where e = e and c = c and v = v and sz = 8 and d = d0] m by (simp add: codec_def)
  then obtain w where w: "entry_width e c v = Inr w" and ng: "number_good c v" by (auto simp: entry_good_def)
  then have o: "entry_octets e c v = w" by (simp add: entry_octets_def)
  note P = entry_width_props [OF ng w]
  have nw: "n = w" using schema_number.entry_measured [where e = e and c = c and v = v and sz = 8 and d = d0] g m P(3) o by (auto simp: codec_def)
  have "tlv_schema_validate_length (Some e) k \<noteq> TLV_OK"
    if z: "nc_width c = 0" and k: "0 < k" "k < n" "unat v < unat (number_radix c) ^ k" for k
  proof -
    have "number_octets c v \<le> k"
    proof (rule ccontr)
      assume "\<not> number_octets c v \<le> k"
      then have "unat (number_radix c) ^ k \<le> unat v"
        using number_width_props(3) [OF number_radix_in [of c], of k v] z k(1) by (simp add: number_octets_def)
      then show False using k(3) by simp
    qed
    then show ?thesis
      using w z k(2) nw schema_width_cases [where e = "Some e" and limit = "number_limit c" and w = "number_octets c v"]
      by (simp add: entry_width_def)
  qed
  then show ?thesis
    using schema_number.entry_roundtrip [OF TrueI m [unfolded codec_def] n r, of d a d', folded codec_def] P(2) nw by blast
qed

definition sample_entry :: tlv_schema_entry_t where
  "sample_entry = \<lparr>se_tag = tlv_tag (Ptr 0 [0x9F, 0x02]) 2, se_min_length = 2, se_max_length = 6, se_flags = 0, se_name = None,
     se_length_multiple = 2\<rparr>"

definition sample_number_codec :: "u64 tlv_codec_t" where
  "sample_number_codec =
     (let rule = Some \<lparr>sn_schema = Some sample_entry,
            sn_representation = \<lparr>nc_encoding = TLV_NUMBER_BCD, nc_width = 0, nc_digits = 12\<rparr>\<rparr> in
      \<lparr>codec_decode = Some (tlv_schema_number_decode rule), codec_encode = Some (tlv_schema_number_encode rule)\<rparr>)"

theorem schema_number_roundtrip_witness:
  "tlv_codec_encode (Some sample_number_codec) (Some 123456) 8 None 0 True None = (TLV_OK, None, Some 4, None) \<and>
   (\<exists>buf' d2 d3. tlv_codec_encode (Some sample_number_codec) (Some 123456) 8 (Some (replicate 6 9)) 6 True None = (TLV_OK, Some buf', Some 4, d2) \<and>
      drop 4 buf' = [9, 9] \<and> tlv_codec_decode (Some sample_number_codec) (Ptr 0 buf') 4 True 8 None = (TLV_OK, Some 123456, d3))"
proof -
  have m: "tlv_codec_encode (Some sample_number_codec) (Some 123456) 8 None 0 True None = (TLV_OK, None, Some 4, None)" by code_simp
  have "drop 4 (replicate 6 (9 :: u8)) = [9, 9]" by code_simp
  then show ?thesis
    using m schema_number_roundtrip [of sample_entry "\<lparr>nc_encoding = TLV_NUMBER_BCD, nc_width = 0, nc_digits = 12\<rparr>" 123456 None None 4 None 6
        "replicate 6 9" 8 None 0 None]
    by (auto simp: sample_number_codec_def Let_def)
qed

section \<open>Text and digits\<close>

text \<open>
  C38: Text and digit strings that their codecs measure are written in the measured octets, padding included, and read back without the
  padding, for every alphabet, width and padding.
\<close>

theorem text_codecs_roundtrip:
  fixes tc dc
  defines "text \<equiv> \<lparr>codec_decode = Some (tlv_text_decode (Some tc)), codec_encode = Some (tlv_text_encode (Some tc))\<rparr>"
    and "digits \<equiv> \<lparr>codec_decode = Some (tlv_digits_decode (Some dc)), codec_encode = Some (tlv_digits_encode (Some dc))\<rparr>"
  assumes p: "readable (val_data v) (val_size v)" "len \<le> length ds" and n: "n \<le> capacity" "capacity \<le> length buf"
  shows "(tlv_codec_encode (Some text) (Some v) sizeof_tlv_value None 0 True d0 = (TLV_OK, out0, Some n, d1) \<longrightarrow>
     (\<exists>buf' d2 w d3. tlv_codec_encode (Some text) (Some v) sizeof_tlv_value (Some buf) capacity True d = (TLV_OK, Some buf', Some n, d2) \<and>
        length buf' = length buf \<and> drop n buf' = drop n buf \<and>
        tlv_codec_decode (Some text) (Ptr a buf') n True sizeof_tlv_value d' = (TLV_OK, Some w, d3) \<and> value_bytes w = value_bytes v)) \<and>
    (tlv_codec_encode (Some digits) (Some ds) len None 0 True d0 = (TLV_OK, out0, Some n, d1) \<longrightarrow>
     (\<exists>buf' d2 w d3. tlv_codec_encode (Some digits) (Some ds) len (Some buf) capacity True d = (TLV_OK, Some buf', Some n, d2) \<and>
        length buf' = length buf \<and> drop n buf' = drop n buf \<and>
        tlv_codec_decode (Some digits) (Ptr a buf') n True (len + 1) d' = (TLV_OK, Some w, d3) \<and> w = take len ds @ [0]))"
  unfolding text_def digits_def
  using text_codec.entry_roundtrip [OF p(1) _ n le_refl, where c = tc and sz = sizeof_tlv_value and d = d and a = a and d' = d']
    digits_codec.entry_roundtrip [OF p(2) _ n le_refl, where c = dc and d = d and a = a and d' = d'] by blast

theorem text_codecs_roundtrip_witness:
  "\<exists>w d3. tlv_codec_decode (Some \<lparr>codec_decode = Some (tlv_text_decode (Some \<lparr>tx_alphabet = TLV_TEXT_ASCII_ALNUM, tx_width = 4, tx_zero_padding = 1\<rparr>)),
     codec_encode = Some (tlv_text_encode (Some \<lparr>tx_alphabet = TLV_TEXT_ASCII_ALNUM, tx_width = 4, tx_zero_padding = 1\<rparr>))\<rparr>)
     (Ptr 0 [65, 66, 0, 0, 9]) 4 True 16 None = (TLV_OK, Some w, d3) \<and> value_bytes w = [65, 66]"
proof -
  let ?tc = "\<lparr>tx_alphabet = TLV_TEXT_ASCII_ALNUM, tx_width = 4, tx_zero_padding = 1\<rparr>" and ?dc = "\<lparr>dg_width = 0\<rparr>"
  let ?v = "\<lparr>val_data = Ptr 0 [65, 66], val_size = 2\<rparr>"
  let ?codec = "\<lparr>codec_decode = Some (tlv_text_decode (Some ?tc)), codec_encode = Some (tlv_text_encode (Some ?tc))\<rparr>"
  have run: "tlv_codec_encode (Some ?codec) (Some ?v) sizeof_tlv_value None 0 True None = (TLV_OK, None, Some 4, None)"
    "tlv_codec_encode (Some ?codec) (Some ?v) sizeof_tlv_value (Some [9, 9, 9, 9, 9]) 5 True None = (TLV_OK, Some [65, 66, 0, 0, 9], Some 4, None)"
    by code_simp+
  have "value_bytes ?v = [65, 66]" by code_simp
  then show ?thesis
    using text_codecs_roundtrip [of ?v 0 "[]" 4 5 "[9, 9, 9, 9, 9]" ?tc None None None None 0 None ?dc] run
    by (auto simp: sizeof_tlv_value_def)
qed

section \<open>Structures\<close>

lemma structure_encode_calls:
  assumes "v \<noteq> None" "data \<noteq> None \<or> capacity = 0" "stc_format c \<noteq> None" "tlv_format_can_read (stc_format c)"
    "tlv_format_can_write (stc_format c)" "stc_encode c = Some f"
    and "f (the (stc_format c)) v sz data capacity True (tlv_codec_diagnostic_init d (encode_operation data)) = (rc1, buf1, n1, d1)"
    and "tlv_codec_callback_result d1 rc1 (encode_operation data) = (rc2, d2)"
  shows "tlv_structure_encode mem (Some c) v sz data capacity True d =
    (if rc2 \<noteq> TLV_OK then Some (rc2, buf1, Some 0, d2)
     else if data = None then Some (encode_return d2 TLV_OK buf1 (Some (out n1 0)))
     else if out n1 0 > capacity
     then Some (encode_return (map_option (\<lambda>x. x\<lparr>cdd_codec := (cdd_codec x)\<lparr>cdt_violation := TLV_CODEC_VIOLATION_SIZE\<rparr>\<rparr>) d2) TLV_ERR_CALLBACK buf1 (Some 0))
     else map_option (\<lambda>(rc, d). let d = map_option to_output d in
         if rc \<noteq> TLV_OK then (rc, buf1, Some 0, d) else encode_return d TLV_OK buf1 (Some (out n1 0)))
       (structure_validate mem c (buf_ptr buf1 0) (out n1 0) d2))"
  using assms unfolding tlv_structure_encode_def Let_def by auto

lemma structure_validate_schema:
  assumes "stc_schema c = Some s" "readable p n" "n \<le> SIZE_MAX"
  obtains rc d' dg x where "structure_validate mem c p n d = Some (rc, d')"
    "tlv_schema_validate mem p n (stc_format c) (Some s) (stc_max_depth c) (stc_max_elements c) dg = Some (rc, x)"
proof -
  let ?dg = "map_option (\<lambda>_. tlv_schema_diagnostic_init) d"
  obtain rc x where v: "tlv_schema_validate mem p n (stc_format c) (Some s) (stc_max_depth c) (stc_max_elements c) ?dg = Some (rc, x)"
    by (rule schema_validate_returns [OF assms(2,3)])
  then have "\<exists>d'. structure_validate mem c p n d = Some (rc, d')"
    using assms(1) by (simp add: structure_validate_def tlv_codec_diagnostic_result_def)
  then show thesis using v that by blast
qed

text \<open>
  C34: A structure encoder with a schema only delivers what the schema accepts, whatever its callback does (short of changing the length of the
  buffer).  The call returns, under every limit on depth.  When it succeeds with a buffer, the reported octets are within the
  capacity and \<^verbatim>\<open>tlv_schema_validate\<close> accepts them; a size query is not validated and passes on the number that the callback
  reports, which no capacity bounds; on an error no octets are reported.
\<close>

theorem structure_encode_valid:
  assumes codec: "stc_schema c = Some s" "stc_encode c = Some f"
    and f: "\<And>format v sz b capacity d rc data' n d'. f format v sz (Some b) capacity True d = (rc, data', n, d') \<Longrightarrow>
      \<exists>b'. data' = Some b' \<and> length b' = length b"
    and buf: "\<And>b. data = Some b \<Longrightarrow> capacity \<le> length b \<and> length b \<le> SIZE_MAX"
  shows "\<exists>rc data' n d'. tlv_structure_encode mem (Some c) v sz data capacity True d = Some (rc, data', Some n, d') \<and>
    (if rc \<noteq> TLV_OK then n = 0
     else case data of
       None \<Rightarrow> (\<exists>data1 n1 d1. f (the (stc_format c)) v sz None 0 True (tlv_codec_diagnostic_init d TLV_CODEC_OP_MEASURE) = (TLV_OK, data1, n1, d1) \<and> n = out n1 0)
     | Some b \<Rightarrow> n \<le> capacity \<and> (\<exists>b' dg x. data' = Some b' \<and> length b' = length b \<and>
         tlv_schema_validate mem (Ptr 0 b') n (stc_format c) (Some s) (stc_max_depth c) (stc_max_elements c) dg = Some (TLV_OK, x)))"
proof (cases "v = None \<or> (data = None \<and> capacity \<noteq> 0) \<or> stc_format c = None \<or> \<not> tlv_format_can_read (stc_format c) \<or> \<not> tlv_format_can_write (stc_format c)")
  case True
  then show ?thesis using codec
    by (auto simp: tlv_structure_encode_def Let_def encode_return_def tlv_codec_diagnostic_result_def)
next
  case False
  let ?op = "encode_operation data"
  obtain rc1 buf1 n1 d1 where call: "f (the (stc_format c)) v sz data capacity True (tlv_codec_diagnostic_init d ?op) = (rc1, buf1, n1, d1)"
    by (metis prod_cases4)
  obtain rc2 d2 where r: "tlv_codec_callback_result d1 rc1 ?op = (rc2, d2)" by fastforce
  have ok: "v \<noteq> None" "data \<noteq> None \<or> capacity = 0" "stc_format c \<noteq> None" "tlv_format_can_read (stc_format c)" "tlv_format_can_write (stc_format c)"
    using False by auto
  note E = structure_encode_calls [OF ok codec(2) call r, of mem]
  have R: "rc2 = TLV_OK \<Longrightarrow> rc1 = TLV_OK" using callback_result_cases [OF r] by (auto split: if_splits)
  consider "rc2 \<noteq> TLV_OK" | "data = None" "rc2 = TLV_OK" | b where "data = Some b" "rc2 = TLV_OK" "out n1 0 > capacity"
    | b where "data = Some b" "rc2 = TLV_OK" "out n1 0 \<le> capacity" by fastforce
  then show ?thesis
  proof cases
    case 2
    then have "capacity = 0" "?op = TLV_CODEC_OP_MEASURE" using ok(2) by (simp_all add: encode_operation_def)
    then show ?thesis using E R call 2
      by (auto simp: encode_return_def tlv_codec_diagnostic_result_def simp del: encode_return_eq)
  next
    case (4 b)
    obtain b' where b': "buf1 = Some b'" "length b' = length b" using f [OF call [unfolded 4(1)]] by blast
    have "readable (Ptr 0 b') (out n1 0)" "out n1 0 \<le> SIZE_MAX" using buf [OF 4(1)] 4(3) b'(2) by auto
    then obtain rc3 d3 dg x where V: "structure_validate mem c (Ptr 0 b') (out n1 0) d2 = Some (rc3, d3)"
      "tlv_schema_validate mem (Ptr 0 b') (out n1 0) (stc_format c) (Some s) (stc_max_depth c) (stc_max_elements c) dg = Some (rc3, x)"
      by (rule structure_validate_schema [OF codec(1)])
    then show ?thesis using E 4 b'
      by (cases "rc3 = TLV_OK") (auto simp: buf_ptr_def encode_return_def tlv_codec_diagnostic_result_def Let_def simp del: encode_return_eq)
  qed (use E R call in \<open>auto simp: encode_return_def tlv_codec_diagnostic_result_def simp del: encode_return_eq\<close>)
qed

text \<open>An encoder that stores the octets it is given, valid or not.\<close>

definition raw_structure :: "u8 list tlv_structure_codec_t" where
  "raw_structure = \<lparr>stc_format = Some tlv_format_ber, stc_schema = Some 1, stc_max_depth = 4, stc_max_elements = 8, stc_decode = None,
     stc_encode = Some (\<lambda>format v sz data capacity ok d. (TLV_OK, map_option (\<lambda>b. blit 0 (take (length b) (the v)) b) data, Some (length (the v)), d))\<rparr>"

theorem structure_encode_valid_witness:
  "\<exists>dg x d'. tlv_structure_encode sample_schema (Some raw_structure) (Some [0x30, 5, 2, 1, 7, 5, 0]) 7 (Some (replicate 8 0)) 8 True None =
       Some (TLV_OK, Some [0x30, 5, 2, 1, 7, 5, 0, 0], Some 7, d') \<and>
     tlv_schema_validate sample_schema (Ptr 0 [0x30, 5, 2, 1, 7, 5, 0, 0]) 7 (Some tlv_format_ber) (Some 1) 4 8 dg = Some (TLV_OK, x)"
proof -
  let ?in = "[0x30, 5, 2, 1, 7, 5, 0] :: u8 list"
  have run: "tlv_structure_encode sample_schema (Some raw_structure) (Some ?in) 7 (Some (replicate 8 0)) 8 True None =
       Some (TLV_OK, Some (?in @ [0]), Some 7, None)" by code_simp
  have "\<exists>rc data' n d'. tlv_structure_encode sample_schema (Some raw_structure) (Some ?in) 7 (Some (replicate 8 0)) 8 True None = Some (rc, data', Some n, d') \<and>
    (if rc \<noteq> TLV_OK then n = 0
     else case Some (replicate 8 (0 :: u8)) of
       None \<Rightarrow> (\<exists>data1 n1 d1. the (stc_encode raw_structure) (the (stc_format raw_structure)) (Some ?in) 7 None 0 True
           (tlv_codec_diagnostic_init None TLV_CODEC_OP_MEASURE) = (TLV_OK, data1, n1, d1) \<and> n = out n1 0)
     | Some b \<Rightarrow> n \<le> 8 \<and> (\<exists>b' dg x. data' = Some b' \<and> length b' = length b \<and>
         tlv_schema_validate sample_schema (Ptr 0 b') n (stc_format raw_structure) (Some 1) (stc_max_depth raw_structure)
           (stc_max_elements raw_structure) dg = Some (TLV_OK, x)))"
    by (rule structure_encode_valid) (auto simp: raw_structure_def blit_def SIZE_MAX_def)
  then obtain dg x where "tlv_schema_validate sample_schema (Ptr 0 (?in @ [0])) 7 (stc_format raw_structure) (Some 1)
      (stc_max_depth raw_structure) (stc_max_elements raw_structure) dg = Some (TLV_OK, x)"
    unfolding run by auto
  with run show ?thesis by (auto simp: raw_structure_def)
qed

end
