(* ===== verification/Spec2Isabelle.thy ===== *)
theory Spec2Isabelle
  imports TLV_Tree_Properties TLV_BER_Properties TLV_ASN1_Properties TLV_CER_Properties TLV_Schema_Properties
    TLV_Codec_Properties
begin

text \<open>
  \<^bold>\<open>OpenTLV.\<close>  A model of the C core of the library (\<^verbatim>\<open>src/tlv\<close>) and the theorems that make it correct.

  \<^bold>\<open>The program.\<close>  OpenTLV reads and writes tag-length-value data.  \<^emph>\<open>Fields\<close> encode identifiers and
  counts; a \<^emph>\<open>format\<close> is a descriptor of decode, measure and encode callbacks, usually composed from two
  fields; \<^verbatim>\<open>format.c\<close> is the checking entry point around those callbacks, which may come from the
  application.  A \<^emph>\<open>Reader\<close> iterates over a byte window with a format and asks for more data when an
  element is cut off; a \<^emph>\<open>Tree Reader\<close> turns nested elements into bracketed events with bounded depth,
  storage and element count; \<^emph>\<open>visitors\<close> drive both.  A \<^emph>\<open>Writer\<close> appends encoded, copied or preserved
  elements to a fixed buffer; a \<^emph>\<open>Tree Writer\<close> accepts events and rewrites a container in front of its
  children when it is closed.  \<^emph>\<open>Diagnostics\<close> (code, operation, location, tag path) are filled on the way.
  The ASN.1 built-ins are formats of this kind whose value may end at end-of-contents octets.

  \<^bold>\<open>Theories and sources.\<close>
  \<^item> \<open>TLV_Prelude\<close>: pointers as an address with the readable bytes, destination buffers, output
    parameters, word lemmas shared by all theories.
  \<^item> \<open>TLV_Core\<close>: \<^verbatim>\<open>size.c\<close>, \<^verbatim>\<open>tag.c\<close>, \<^verbatim>\<open>value.c\<close>, \<^verbatim>\<open>copy.c\<close>, \<^verbatim>\<open>definition.c\<close>, \<^verbatim>\<open>result.c\<close>, \<^verbatim>\<open>callback_internal.h\<close>.
  \<^item> \<open>TLV_Endian\<close>: \<^verbatim>\<open>endian.c\<close>.
  \<^item> \<open>TLV_Field_Interface\<close> (locales \<open>tag_reader\<close>, \<open>length_reader\<close>, \<open>tag_codec\<close>, \<open>length_codec\<close>),
    \<open>TLV_Field_Fixed\<close> and \<open>TLV_Field_Variable\<close>: \<^verbatim>\<open>field/*.c\<close>.
  \<^item> \<open>TLV_Format\<close>: \<^verbatim>\<open>format.c\<close>; \<open>TLV_Format_Interface\<close>: the contract of a format towards its clients
    (locales \<open>prefix_decoder\<close>, \<open>format_codec\<close>).
  \<^item> \<open>TLV_Compose\<close>, \<open>TLV_Compose_Laws\<close>: \<^verbatim>\<open>formats/compose.c\<close>, and that composed fields keep the contract of
    a format (locales \<open>composition_reader\<close>, \<open>composition_codec\<close>).
  \<^item> \<open>TLV_Formats\<close>, \<open>TLV_Packed\<close>: the other files of \<^verbatim>\<open>formats/\<close>; \<open>TLV_Instances\<close>: all formats behind one type
    of configurations.
  \<^item> \<open>TLV_Diagnostic\<close>: \<^verbatim>\<open>diagnostic.c\<close>, parts of \<^verbatim>\<open>diagnostic_strings.c\<close>.
  \<^item> \<open>TLV_Reader\<close>, \<open>TLV_Tree_Reader\<close>, \<open>TLV_Visitor\<close>: \<^verbatim>\<open>reader/*.c\<close>; \<open>TLV_Writer\<close>, \<open>TLV_Tree_Writer\<close>: \<^verbatim>\<open>writer/*.c\<close>.
  \<^item> \<open>TLV_BER\<close>: \<^verbatim>\<open>builtins/asn1/\<close> \<^verbatim>\<open>identifier.c\<close>, \<^verbatim>\<open>asn1_internal.c\<close>, \<^verbatim>\<open>ber_internal.c\<close>, \<^verbatim>\<open>ber.c\<close>, \<^verbatim>\<open>der.c\<close>, \<^verbatim>\<open>cer.c\<close>;
    \<open>TLV_BER_Laws\<close> (identifiers and lengths keep the field contract), \<open>TLV_BER_Scan\<close> (the scan of nested
    framing against a grammar), \<open>TLV_BER_Format\<close> (the formats; locales \<open>resolved_reader\<close>, \<open>guarded_codec\<close>,
    \<open>asn1_composition\<close>), \<open>TLV_BER_Tags\<close> (making and reading identifiers).
  \<^item> \<open>TLV_UTF8\<close>: \<^verbatim>\<open>utf8_internal.c\<close>; \<open>TLV_ASN1_Values\<close>: \<^verbatim>\<open>builtins/asn1/asn1_values_internal.c\<close>, the canonical contents
    of the universal types.
  \<^item> \<open>TLV_DER_Validation\<close>: \<^verbatim>\<open>builtins/asn1/der_validation.c\<close>; \<open>TLV_DER_Laws\<close> (trees, their encoding, one header),
    \<open>TLV_DER_Traversal\<close> (the loop over an explicit stack against the recursion over trees), \<open>TLV_DER_Interface\<close>
    (visiting, reading, writing).
  \<^item> \<open>TLV_CER_Validation\<close>: \<^verbatim>\<open>builtins/asn1/cer_validation.c\<close>, \<^verbatim>\<open>cer_values_internal.c\<close>; \<open>TLV_CER_Laws\<close> (segments, trees),
    \<open>TLV_CER_Traversal\<close>, \<open>TLV_CER_Interface\<close> and \<open>TLV_CER_Segments\<close> (the segment writer) likewise.
  \<^item> \<open>TLV_Schema\<close>: \<^verbatim>\<open>schema/schema.c\<close>, \<^verbatim>\<open>constraint.c\<close>, \<^verbatim>\<open>diagnostic_internal.h\<close>; \<open>TLV_Schema_Validation\<close>: \<^verbatim>\<open>schema/structure.c\<close>,
    \<^verbatim>\<open>traversal_internal.h\<close>; \<open>TLV_Schema_Report\<close>: \<^verbatim>\<open>schema/report.c\<close>; \<open>TLV_Schema_Laws\<close> (what the check of a definition
    decides), \<open>TLV_Schema_Scope\<close> (what the check of a scope decides), \<open>TLV_Tree_Items\<close> (items of the tree reader as its clients
    see them), \<open>TLV_Schema_Agreement\<close> (the two validators in lockstep; locale \<open>counting_bodies\<close>) and
    \<open>TLV_Schema_Termination\<close> (the validator that stops at the first violation returns under every depth limit).
  \<^item> \<open>TLV_Codec\<close>: \<^verbatim>\<open>codec/codec.c\<close>, \<^verbatim>\<open>result_internal.h\<close>, \<^verbatim>\<open>values.c\<close> and the codec strings of \<^verbatim>\<open>diagnostic_strings.c\<close>;
    \<open>TLV_Codec_Primitives\<close>: \<^verbatim>\<open>codec/number.c\<close>, \<^verbatim>\<open>text.c\<close>, \<^verbatim>\<open>digits.c\<close>, \<^verbatim>\<open>ipv4.c\<close>, \<^verbatim>\<open>schema/number.c\<close>, \<^verbatim>\<open>schema/codec_internal.h\<close>;
    \<open>TLV_Structure_Codec\<close>: \<^verbatim>\<open>codec/structure.c\<close>.  \<open>TLV_Codec_Interface\<close> holds the contract of a value codec (locale
    \<open>value_codec\<close>), interpreted on every codec of the library in \<open>TLV_Codec_Laws\<close>, \<open>TLV_Codec_Integer\<close>, \<open>TLV_Codec_Number\<close> and
    \<open>TLV_Codec_Text\<close>.
  \<^item> The theories \<open>TLV_..._Properties\<close> hold the properties (C1, C2, ...) and their instances at concrete inputs.

  Definitions carry the names of the C functions and types; where a C function is a loop with several
  exits, its parts have names of their own.  A struct is a record, an enum a datatype with an extra
  constructor for values outside the enumeration, \<^verbatim>\<open>size_t\<close> and \<^verbatim>\<open>tlv_size_t\<close> are \<open>nat\<close> with the limits
  of a 64-bit data model and overflow checks written out, integers that the code shifts and masks are words.  A nullable output
  pointer is a truth value argument, what is stored through it an option in the result; a destination is
  the buffer before the call as argument and after the call in the result.  Callbacks are functions closed
  over their context; tables of a schema, which refer to each other and are compared by address, are a memory from
  addresses to tables; nothing is assumed about them unless a locale says so, and the locales are interpreted
  on the library's own callbacks.

  \<^bold>\<open>What the lemmas show.\<close>  Fields and formats: what a size query accepts is written in that many bytes and
  nothing else changes, reads back as itself, and every proper prefix is reported as truncated; a decoder
  never publishes an element outside its input, whatever the callback does.  Reader: windows of a stream give
  the elements of the stream, at the same absolute offsets; positions and limits are invariants.  Tree
  Reader: the events are balanced under every mix of operations; traversals return.  Writer and Tree
  Writer: nothing written is touched again, rejected events change nothing, accepted events leave the nested
  encoding of the tree.  BER: the iterative scan accepts exactly a recursive grammar.  DER: the validation
  accepts exactly the encodings of trees within the limits and shows them to the visitor in preorder; what is
  written reads back.  CER: the same with indefinite lengths, canonical string segments and postorder, but the
  writer overruns its stack when the depth limit is zero, and the segment writer accepts strings that the reader rejects
  under the same limits.  UTF-8, INTEGER and OBJECT IDENTIFIER contents are accepted exactly in their one canonical
  form.  Schemas: the check of a definition decides well-formedness of all reachable tables, also in cyclic graphs; a scope is
  accepted exactly when the occurrences and the order of its elements conform; the validator that stops at the first
  violation and the one that reports all of them accept the same inputs.
  Codecs: the entry points reject, whatever the callbacks answer, results outside the library's and sizes outside the capacity; what a
  codec encodes decodes to the same value, and what it decodes is the value of its octets; a structure encoder only
  delivers encodings that its schema accepts.  Refinements: the visitor to a sequence of reader steps, the tree writer to a recursive encoding of trees,
  the scan to the grammar, DER and CER traversal to the recursion over trees, tag comparison to the lexicographic order, path printing to a recursive text.

  \<^bold>\<open>Termination and bounds.\<close>  There is no fuel.  Loops are structural recursion, or \<open>function\<close> with a measure
  (\<open>scan_loop\<close>: room left in the open scopes and their number).  \<open>tree_visit_loop\<close>, \<open>utf8_update\<close>, \<open>der_loop\<close>, \<open>cer_loop\<close>,
  \<open>check_tables\<close>, \<open>validate_loop\<close> and \<open>report_loop\<close> are \<open>partial_function (option)\<close>, and theorems show that they return.  A write behind the fixed stacks of
  \<^verbatim>\<open>der_validation.c\<close> and \<^verbatim>\<open>cer_validation.c\<close> is also \<open>None\<close>, so returning excludes it.  Loops of the C code over at most 64 scopes or 10 digits
  keep those bounds as checks of the model.

  \<^bold>\<open>Where the documentation differs.\<close>  The model follows the code.  The headers say otherwise about the size of a segmented CER string
  (framing does not count) and universal types without a canonical rule in strict CER (unsupported), about schemas that nest
  deeper than 32 tags (\<^verbatim>\<open>tlv_schema_validate_all_diag\<close> reports a limit) and, at the visiting functions, about unknown answers of a
  visitor (\<^verbatim>\<open>TLV_ERR_VISITOR\<close>); the texts of the properties concerned say what the code does.

  \<^bold>\<open>Not modelled.\<close>  Schema queries, the ASN.1 codecs and their schema, document, query, EMV, Bluetooth, DHCP,
  LLDP and NFC built-ins; the
  remaining strings of \<^verbatim>\<open>diagnostic_strings.c\<close>, which are tables of messages; bindings and the C++ interface,
  which wrap the C functions.  Aliasing of source and destination buffers is not modelled: sources are
  values, as the interface requires disjoint buffers.
\<close>

end
